(* ===== verification/Prelude.thy ===== *)
theory Prelude
  imports Main "HOL-Library.Word" "HOL-Library.Char_ord"
begin

text \<open>
  Shared vocabulary of the development: names for the C integer types, the
  little-endian image of a 16- and a 32-bit integer in memory, facts on byte sums
  (the arithmetic behind every IPMI checksum) and two interfaces several components
  implement: a byte-level codec, and an allocator of sequence numbers.
\<close>

unbundle bit_operations_syntax

type_synonym byte = "8 word"
type_synonym u16 = "16 word"
type_synonym u32 = "32 word"
type_synonym u64 = "64 word"

named_theorems c_defs \<open>definitions that transcribe one C function each\<close>
named_theorems wire_simps \<open>layout equations of the messages on the wire\<close>

section \<open>Lists of bytes\<close>

lemma sum_list_byte_append [simp]:
  "sum_list ((xs :: byte list) @ ys) = sum_list xs + sum_list ys"
  by simp

lemma take_append_eq [simp]: "n = length xs \<Longrightarrow> take n (xs @ ys) = xs"
  by simp

lemma drop_append_eq [simp]: "n = length xs \<Longrightarrow> drop n (xs @ ys) = ys"
  by simp

lemma nth_Cons_numeral_word [simp]:
  "(x # xs) ! numeral k = xs ! (pred_numeral k)"
  by (simp add: nth_Cons')

text \<open>Splitting a list that is long enough into its first elements and the rest.\<close>

lemma length_ge_Cons: "Suc n \<le> length xs \<longleftrightarrow> (\<exists>y ys. xs = y # ys \<and> n \<le> length ys)"
  by (cases xs) auto

section \<open>Bytes, nibbles and little-endian words\<close>

lemma unat_byte_less [simp]: "unat (b :: byte) < 256"
  using unsigned_less [of b] by simp

definition hi_nibble :: "byte \<Rightarrow> nat" where
  "hi_nibble b = unat b div 16"

definition lo_nibble :: "byte \<Rightarrow> nat" where
  "lo_nibble b = unat b mod 16"

lemma hi_nibble_less [simp]: "hi_nibble b < 16"
proof -
  have "unat b < 256" by (rule unat_byte_less)
  then show ?thesis by (simp add: hi_nibble_def less_mult_imp_div_less)
qed

lemma lo_nibble_less [simp]: "lo_nibble b < 16"
  by (simp add: lo_nibble_def)

lemma nibbles_byte: "word_of_nat (hi_nibble b * 16 + lo_nibble b) = b"
  by (simp add: hi_nibble_def lo_nibble_def)

definition le16 :: "u16 \<Rightarrow> byte list" where
  "le16 w = [ucast w, ucast (drop_bit 8 w)]"

definition le32 :: "u32 \<Rightarrow> byte list" where
  "le32 w = [ucast w, ucast (drop_bit 8 w), ucast (drop_bit 16 w), ucast (drop_bit 24 w)]"

lemma length_le16 [simp]: "length (le16 w) = 2"
  by (simp add: le16_def)

lemma length_le32 [simp]: "length (le32 w) = 4"
  by (simp add: le32_def)

definition of_le32 :: "byte list \<Rightarrow> u32" where
  "of_le32 bs = ucast (bs ! 0) OR push_bit 8 (ucast (bs ! 1))
     OR push_bit 16 (ucast (bs ! 2)) OR push_bit 24 (ucast (bs ! 3))"

lemma bit_of_le32_le32: "n < 32 \<Longrightarrow> bit (of_le32 (le32 w)) n = bit w n"
  proof -
  assume "n < 32"
  then consider "n < 8" | "8 \<le> n" "n < 16" | "16 \<le> n" "n < 24" | "24 \<le> n" "n < 32" by linarith
  then show ?thesis
    by cases (auto simp: of_le32_def le32_def bit_simps)
qed

lemma of_le32_le32 [simp]: "of_le32 (le32 w) = w"
  by (rule bit_word_eqI) (simp add: bit_of_le32_le32)

lemma of_le32_append [simp]: "of_le32 (le32 w @ r) = w"
proof -
  have "of_le32 (le32 w @ r) = of_le32 (le32 w)" by (simp add: of_le32_def le32_def)
  then show ?thesis by simp
qed

section \<open>Interface: byte-level codecs\<close>

text \<open>
  A codec writes a value as a sequence and reads it back. The single law is the round
  trip on the values the writer accepts; what clients need of it (two values with the
  same image are equal, the reader rejects nothing the writer made) follows once.
\<close>

locale codec =
  fixes enc :: "'a \<Rightarrow> 'b list"
    and dec :: "'b list \<Rightarrow> 'a option"
    and ok :: "'a \<Rightarrow> bool"
  assumes dec_enc: "ok x \<Longrightarrow> dec (enc x) = Some x"
begin

lemma enc_eq_iff: "ok x \<Longrightarrow> ok y \<Longrightarrow> enc x = enc y \<longleftrightarrow> x = y"
  by (metis dec_enc option.inject)

lemma enc_inj_on: "inj_on enc {x. ok x}"
  by (auto intro!: inj_onI simp: enc_eq_iff)

lemma dec_accepts: "ok x \<Longrightarrow> dec (enc x) \<noteq> None"
  by (simp add: dec_enc)

end

section \<open>Interface: cyclic sequence numbers\<close>

text \<open>
  Every transport numbers its requests from a counter that wraps. The law is one step;
  the client fact is that the numbers of \<open>period\<close> consecutive requests are
  all different, so an outstanding request is never confused with a recent one.
\<close>

locale seq_alloc =
  fixes nxt :: "'s \<Rightarrow> 's"
    and num :: "'s \<Rightarrow> nat"
    and period :: nat
  assumes period_pos: "0 < period"
    and num_nxt: "num s < period \<Longrightarrow> num (nxt s) = Suc (num s) mod period"
begin

lemma num_nxt_less: "num s < period \<Longrightarrow> num (nxt s) < period"
  using period_pos by (simp add: num_nxt)

lemma num_iter: "num s < period \<Longrightarrow> num ((nxt ^^ k) s) = (num s + k) mod period"
proof (induction k)
  case 0
  then show ?case by simp
next
  case (Suc k)
  then have "num ((nxt ^^ k) s) < period" using period_pos by simp
  then have "num ((nxt ^^ Suc k) s) = Suc (num ((nxt ^^ k) s)) mod period"
    by (simp add: num_nxt)
  with Suc show ?case by (simp add: mod_Suc_eq)
qed

lemma num_iter_period: "num s < period \<Longrightarrow> num ((nxt ^^ period) s) = num s"
  by (simp add: num_iter)

lemma num_iter_distinct:
  assumes "num s < period" and "i < period" and "j < period" and "i \<noteq> j"
  shows "num ((nxt ^^ i) s) \<noteq> num ((nxt ^^ j) s)"
proof
  assume "num ((nxt ^^ i) s) = num ((nxt ^^ j) s)"
  then have "(num s + i) mod period = (num s + j) mod period"
    using assms(1) by (simp add: num_iter)
  then have "i mod period = j mod period"
    by (simp add: nat_mod_eq_iff add.assoc)
  with assms show False by simp
qed

end

end
