(* ===== verification/Helper.thy ===== *)
theory Helper
  imports Prelude
begin

text \<open>
  The conversion and checking helpers of lib/helper.c: little-endian readers, hex
  printing and parsing, the family of \<open>str2\<close>-integer conversions over the C library's
  \<open>strtol\<close> and \<open>strtoul\<close>, MAC addresses, value/string tables, the IPMI checksum, the
  argument checks built on them, and the checks of a file before it is opened.

  Conventions. A C string is the list of its characters without the final NUL. An
  output pointer is an \<open>option\<close>: \<open>None\<close> is the NULL pointer, \<open>Some v\<close> a cell that
  holds \<open>v\<close>; a function returns its integer result with the cell it leaves behind.
  Messages that are only printed or logged have no counterpart.
\<close>

section \<open>Bytes to integers, byte order\<close>

definition buf2long :: "byte list \<Rightarrow> u32" where
  "buf2long buf = push_bit 24 (ucast (buf ! 3)) OR push_bit 16 (ucast (buf ! 2))
     OR push_bit 8 (ucast (buf ! 1)) OR ucast (buf ! 0)"

definition buf2short :: "byte list \<Rightarrow> u16" where
  "buf2short buf = push_bit 8 (ucast (buf ! 1)) OR ucast (buf ! 0)"

text \<open>The loop of \<open>array_byteswap\<close>: \<open>k\<close> is the number of swaps already made.\<close>

function array_byteswap_loop :: "nat \<Rightarrow> byte list \<Rightarrow> byte list" where
  "array_byteswap_loop i buffer =
     (if i < length buffer div 2
      then array_byteswap_loop (Suc i)
             (buffer[i := buffer ! (length buffer - 1 - i), length buffer - 1 - i := buffer ! i])
      else buffer)"
  by pat_completeness auto
termination
  by (relation "measure (\<lambda>(i, b). length b div 2 - i)") auto

declare array_byteswap_loop.simps [simp del]

definition array_byteswap :: "byte list \<Rightarrow> byte list" where
  "array_byteswap buffer = array_byteswap_loop 0 buffer"

definition array_ntoh :: "bool \<Rightarrow> byte list \<Rightarrow> byte list" where
  "array_ntoh words_bigendian buffer =
     (if words_bigendian then buffer else array_byteswap buffer)"

definition array_letoh :: "bool \<Rightarrow> byte list \<Rightarrow> byte list" where
  "array_letoh words_bigendian buffer =
     (if words_bigendian then array_byteswap buffer else buffer)"

section \<open>The IPMI checksum\<close>

primrec csum_loop :: "byte list \<Rightarrow> byte \<Rightarrow> byte" where
  "csum_loop [] c = c"
| "csum_loop (d # ds) c = csum_loop ds (c + d)"

text \<open>\<open>ipmi_csum (d, s)\<close> sums the first \<open>s\<close> bytes at \<open>d\<close>; the model takes exactly those.\<close>

definition ipmi_csum :: "byte list \<Rightarrow> byte" where
  "ipmi_csum d = - csum_loop d 0"

section \<open>Hexadecimal text\<close>

definition isspace :: "char \<Rightarrow> bool" where
  "isspace c \<longleftrightarrow> (let n = of_char c :: nat in n = 32 \<or> 9 \<le> n \<and> n \<le> 13)"

definition isxdigit :: "char \<Rightarrow> bool" where
  "isxdigit c \<longleftrightarrow> (let n = of_char c :: nat in
     48 \<le> n \<and> n \<le> 57 \<or> 65 \<le> n \<and> n \<le> 70 \<or> 97 \<le> n \<and> n \<le> 102)"

definition hexchar :: "nat \<Rightarrow> char" where
  "hexchar n = char_of (if n < 10 then 48 + n else 87 + n)"

text \<open>\<open>printf\<close> of a byte with \<open>%02x\<close> or \<open>%2.2x\<close>.\<close>

definition hex2 :: "byte \<Rightarrow> string" where
  "hex2 b = [hexchar (hi_nibble b), hexchar (lo_nibble b)]"

text \<open>
  \<open>buf2str_extended\<close> writes into a static array of \<open>BUF2STR_MAXIMUM_OUTPUT_SIZE\<close>
  characters that keeps what an earlier call left there: \<open>mem\<close> is its content,
  \<open>pos\<close> is \<open>cur - str\<close>. The separator is copied with \<open>strncpy (cur, sep, left - sz)\<close>,
  whose size is unsigned: the model stops with \<open>Inl ()\<close> where \<open>left - sz\<close> is negative.
\<close>

definition BUF2STR_MAXIMUM_OUTPUT_SIZE :: nat where
  "BUF2STR_MAXIMUM_OUTPUT_SIZE = 3 * 1024 + 1"

abbreviation NUL :: char where
  "NUL \<equiv> CHR 0x00"

definition put_at :: "nat \<Rightarrow> 'a list \<Rightarrow> 'a list \<Rightarrow> 'a list" where
  "put_at pos xs mem = take pos mem @ xs @ drop (pos + length xs) mem"

definition strncpy_img :: "string \<Rightarrow> nat \<Rightarrow> string" where
  "strncpy_img s n = take n s @ replicate (n - length s) NUL"

fun buf2str_loop :: "byte list \<Rightarrow> string option \<Rightarrow> nat \<Rightarrow> nat \<Rightarrow> string \<Rightarrow> unit + (nat \<times> string)" where
  "buf2str_loop [] sep pos left mem = Inr (pos, mem)"
| "buf2str_loop (b # bs) sep pos left mem =
     (let mem1 = put_at pos (take (left - 1) (hex2 b) @ [NUL]) mem
      in if 2 \<ge> left then Inr (pos, mem1)
         else if sep = None \<or> bs = [] then buf2str_loop bs sep (pos + 2) (left - 2) mem1
         else let s = the sep
              in if length s \<ge> left - 2 then Inr (pos + 2, mem1)
                 else if left - 2 < 2 then Inl ()
                 else buf2str_loop bs sep (pos + 2 + length s) (left - 2 - length s)
                        (put_at (pos + 2) (strncpy_img s (left - 2 - 2)) mem1))"

definition buf2str_extended :: "string \<Rightarrow> byte list option \<Rightarrow> string option \<Rightarrow> unit + string" where
  "buf2str_extended mem buf sep =
     (case buf of
        None \<Rightarrow> Inr ''<NULL>''
      | Some bs \<Rightarrow>
          (case buf2str_loop bs sep 0 BUF2STR_MAXIMUM_OUTPUT_SIZE mem of
             Inl u \<Rightarrow> Inl u
           | Inr (pos, mem') \<Rightarrow> Inr (takeWhile (\<lambda>c. c \<noteq> NUL) (mem'[pos := NUL]))))"

definition buf2str :: "string \<Rightarrow> byte list option \<Rightarrow> unit + string" where
  "buf2str mem buf = buf2str_extended mem buf None"

definition mac2str :: "string \<Rightarrow> byte list \<Rightarrow> unit + string" where
  "mac2str mem buf = buf2str_extended mem (Some (take 6 buf)) (Some '':'')"

text \<open>
  \<open>ipmi_parse_hex\<close>: \<open>out\<close> holds the bytes stored so far, so \<open>q < out + size\<close> is
  \<open>length out < size\<close>. A bad character ends the loop with the bytes stored before it.
\<close>

definition hex_digit_byte :: "char \<Rightarrow> byte" where
  "hex_digit_byte p =
     (let n = of_char p :: byte
      in if (of_char p :: nat) < 65 then n - 48 else (n OR 0x20) - 97 + 10)"

fun parse_hex_loop :: "string \<Rightarrow> byte \<Rightarrow> nat \<Rightarrow> byte list \<Rightarrow> int \<Rightarrow> bool \<times> byte list" where
  "parse_hex_loop [] b shift out sz = (True, out)"
| "parse_hex_loop (p # ps) b shift out sz =
     (if \<not> isxdigit p then (False, out)
      else let d = hex_digit_byte p
           in if int (length out) < sz
              then let b' = b + push_bit shift d
                   in if shift \<noteq> 0 then parse_hex_loop ps b' 0 out sz
                      else parse_hex_loop ps 0 4 (out @ [b']) sz
              else parse_hex_loop ps b shift out sz)"

definition ipmi_parse_hex :: "string \<Rightarrow> bool \<Rightarrow> int \<Rightarrow> int \<times> byte list" where
  "ipmi_parse_hex str out_null sz =
     (if length str = 0 then (0, [])
      else if length str mod 2 \<noteq> 0 then (-1, [])
      else if out_null then (-2, [])
      else case parse_hex_loop str 0 4 [] sz of
             (False, out) \<Rightarrow> (-3, out)
           | (True, out) \<Rightarrow> (int (length str div 2), out))"

section \<open>Integers from text\<close>

subsection \<open>The C library's strtol and strtoul\<close>

definition digit_val :: "char \<Rightarrow> nat option" where
  "digit_val c =
     (let n = of_char c :: nat in
      if 48 \<le> n \<and> n \<le> 57 then Some (n - 48)
      else if 97 \<le> n \<and> n \<le> 122 then Some (n - 87)
      else if 65 \<le> n \<and> n \<le> 90 then Some (n - 55)
      else None)"

definition is_digit_in :: "nat \<Rightarrow> char \<Rightarrow> bool" where
  "is_digit_in base c \<longleftrightarrow> (case digit_val c of None \<Rightarrow> False | Some d \<Rightarrow> d < base)"

fun scan_digits :: "nat \<Rightarrow> nat \<Rightarrow> string \<Rightarrow> nat \<times> string" where
  "scan_digits base v [] = (v, [])"
| "scan_digits base v (c # cs) =
     (if is_digit_in base c then scan_digits base (v * base + the (digit_val c)) cs
      else (v, c # cs))"

definition scan_sign :: "string \<Rightarrow> bool \<times> string" where
  "scan_sign s = (case s of
      [] \<Rightarrow> (False, [])
    | c # cs \<Rightarrow> if c = CHR ''-'' then (True, cs) else if c = CHR ''+'' then (False, cs) else (False, c # cs))"

definition has_hex_prefix :: "string \<Rightarrow> bool" where
  "has_hex_prefix s = (case s of
      z # x # d # _ \<Rightarrow> z = CHR ''0'' \<and> (x = CHR ''x'' \<or> x = CHR ''X'') \<and> is_digit_in 16 d
    | _ \<Rightarrow> False)"

definition scan_base :: "nat \<Rightarrow> string \<Rightarrow> nat \<times> string" where
  "scan_base base s =
     (if (base = 0 \<or> base = 16) \<and> has_hex_prefix s then (16, drop 2 s)
      else if base = 0 then (if s \<noteq> [] \<and> hd s = CHR ''0'' then 8 else 10, s)
      else (base, s))"

text \<open>Sign, magnitude and the rest of the text; \<open>None\<close> when there is no digit.\<close>

definition scan_number :: "nat \<Rightarrow> string \<Rightarrow> (bool \<times> nat \<times> string) option" where
  "scan_number base str =
     (let (neg, s) = scan_sign (dropWhile isspace str);
          (b, ds) = scan_base base s
      in if ds \<noteq> [] \<and> is_digit_in b (hd ds)
         then let (v, rest) = scan_digits b 0 ds in Some (neg, v, rest)
         else None)"

text \<open>Value, text at the end pointer, and whether \<open>errno\<close> was set (\<open>ERANGE\<close>).\<close>

definition strtol :: "nat \<Rightarrow> string \<Rightarrow> int \<times> string \<times> bool" where
  "strtol base str =
     (case scan_number base str of
        None \<Rightarrow> (0, str, False)
      | Some (neg, v, rest) \<Rightarrow>
          (let x = (if neg then - int v else int v)
           in if x > 2 ^ 63 - 1 then (2 ^ 63 - 1, rest, True)
              else if x < - (2 ^ 63) then (- (2 ^ 63), rest, True)
              else (x, rest, False)))"

definition strtoul :: "nat \<Rightarrow> string \<Rightarrow> int \<times> string \<times> bool" where
  "strtoul base str =
     (case scan_number base str of
        None \<Rightarrow> (0, str, False)
      | Some (neg, v, rest) \<Rightarrow>
          (if v > 2 ^ 64 - 1 then (2 ^ 64 - 1, rest, True)
           else ((if neg then - int v else int v) mod 2 ^ 64, rest, False)))"

subsection \<open>Checked conversions\<close>

definition str2long :: "string option \<Rightarrow> int option \<Rightarrow> int \<times> int option" where
  "str2long str lng_ptr =
     (case (str, lng_ptr) of
        (Some s, Some _) \<Rightarrow>
          (case strtol 0 s of (v, rest, err) \<Rightarrow>
             (if rest \<noteq> [] then -2 else if err then -3 else 0, Some v))
      | _ \<Rightarrow> (-1, lng_ptr))"

definition str2ulong :: "string option \<Rightarrow> int option \<Rightarrow> int \<times> int option" where
  "str2ulong str ulng_ptr =
     (case (str, ulng_ptr) of
        (Some s, Some _) \<Rightarrow>
          (case strtoul 0 s of (v, rest, err) \<Rightarrow>
             (if rest \<noteq> [] then -2 else if err then -3 else 0, Some v))
      | _ \<Rightarrow> (-1, ulng_ptr))"

text \<open>
  The six narrower conversions have one body, over the signed or the unsigned 64-bit
  conversion and the bounds of their type: a failed 64-bit conversion clears the cell
  and passes its code on, a value out of range leaves the cell and gives -3.
\<close>

definition narrow :: "(string option \<Rightarrow> int option \<Rightarrow> int \<times> int option) \<Rightarrow> int \<Rightarrow> int \<Rightarrow>
    string option \<Rightarrow> int option \<Rightarrow> int \<times> int option" where
  "narrow conv lo hi str ptr =
     (if str = None \<or> ptr = None then (-1, ptr)
      else case conv str (Some 0) of
        (rc, arg) \<Rightarrow>
          (if rc \<noteq> 0 then (rc, Some 0)
           else if the arg < lo \<or> the arg > hi then (-3, ptr)
           else (0, Some (the arg))))"

definition str2int :: "string option \<Rightarrow> int option \<Rightarrow> int \<times> int option" where
  "str2int = narrow str2long (- (2 ^ 31)) (2 ^ 31 - 1)"

definition str2uint :: "string option \<Rightarrow> int option \<Rightarrow> int \<times> int option" where
  "str2uint = narrow str2ulong 0 (2 ^ 32 - 1)"

definition str2short :: "string option \<Rightarrow> int option \<Rightarrow> int \<times> int option" where
  "str2short = narrow str2long (- (2 ^ 15)) (2 ^ 15 - 1)"

definition str2ushort :: "string option \<Rightarrow> int option \<Rightarrow> int \<times> int option" where
  "str2ushort = narrow str2ulong 0 (2 ^ 16 - 1)"

definition str2char :: "string option \<Rightarrow> int option \<Rightarrow> int \<times> int option" where
  "str2char = narrow str2long (- (2 ^ 7)) (2 ^ 7 - 1)"

definition str2uchar :: "string option \<Rightarrow> int option \<Rightarrow> int \<times> int option" where
  "str2uchar = narrow str2ulong 0 (2 ^ 8 - 1)"

subsection \<open>Checks of command arguments\<close>

definition is_fru_id :: "string option \<Rightarrow> int option \<Rightarrow> int \<times> int option" where
  "is_fru_id argv ptr =
     (if argv = None \<or> ptr = None then (-1, ptr)
      else case str2uchar argv ptr of (rc, c) \<Rightarrow> (if rc = 0 then (0, c) else (-1, c)))"

definition is_ipmi_channel_num :: "string option \<Rightarrow> int option \<Rightarrow> int \<times> int option" where
  "is_ipmi_channel_num argv ptr =
     (if argv = None \<or> ptr = None then (-1, ptr)
      else case str2uchar argv ptr of (rc, c) \<Rightarrow>
        (if rc = 0 \<and> (the c \<le> 0xB \<or> the c \<ge> 0xE \<and> the c \<le> 0xF) then (0, c) else (-1, c)))"

definition IPMI_UID_MIN :: int where "IPMI_UID_MIN = 1"

definition IPMI_UID_MAX :: int where "IPMI_UID_MAX = 63"

definition is_ipmi_user_id :: "string option \<Rightarrow> int option \<Rightarrow> int \<times> int option" where
  "is_ipmi_user_id argv ptr =
     (if argv = None \<or> ptr = None then (-1, ptr)
      else case str2uchar argv ptr of (rc, c) \<Rightarrow>
        (if rc = 0 \<and> the c \<ge> IPMI_UID_MIN \<and> the c \<le> IPMI_UID_MAX then (0, c) else (-1, c)))"

definition is_ipmi_user_priv_limit :: "string option \<Rightarrow> int option \<Rightarrow> int \<times> int option" where
  "is_ipmi_user_priv_limit argv ptr =
     (if argv = None \<or> ptr = None then (-1, ptr)
      else case str2uchar argv ptr of (rc, c) \<Rightarrow>
        (if rc \<noteq> 0 \<or> (the c < 0x01 \<or> the c > 0x05) \<and> the c \<noteq> 0x0F then (-1, c) else (0, c)))"

text \<open>\<open>args2buf\<close>: the bytes stored, and whether every argument read was a byte.\<close>

fun args2buf_loop :: "string list \<Rightarrow> nat \<Rightarrow> byte list \<Rightarrow> bool \<times> byte list" where
  "args2buf_loop [] len out = (True, out)"
| "args2buf_loop (a # as) len out =
     (if length out < len
      then (case str2uchar (Some a) (Some 0) of (rc, c) \<Rightarrow>
              if rc \<noteq> 0 then (False, out)
              else args2buf_loop as len (out @ [word_of_int (the c)]))
      else (True, out))"

definition args2buf :: "string list \<Rightarrow> nat \<Rightarrow> bool \<times> byte list" where
  "args2buf argv len = args2buf_loop argv len []"

definition eval_ccode :: "int \<Rightarrow> int" where
  "eval_ccode ccode = (if ccode = 0 then 0 else if ccode < 0 then -1 else -1)"

section \<open>MAC addresses\<close>

text \<open>
  The conversion \<open>%02x\<close> of \<open>sscanf\<close>: white space is skipped, then at most two characters
  are read (a sign counts as one). Whether an incomplete prefix \<open>0x\<close> is accepted as zero
  differs between C libraries; \<open>accept_0x\<close> is that choice.
\<close>

definition scan_x2 :: "bool \<Rightarrow> string \<Rightarrow> (int \<times> string) option" where
  "scan_x2 accept_0x str =
     (case dropWhile isspace str of
        [] \<Rightarrow> None
      | c # cs \<Rightarrow>
          if c = CHR ''-'' \<or> c = CHR ''+''
          then (case cs of
                  d # r \<Rightarrow> if isxdigit d
                           then Some ((if c = CHR ''-'' then - int (the (digit_val d)) else int (the (digit_val d))) mod 2 ^ 32, r)
                           else None
                | [] \<Rightarrow> None)
          else if \<not> isxdigit c then None
          else (case cs of
                  d # r \<Rightarrow>
                    if c = CHR ''0'' \<and> (d = CHR ''x'' \<or> d = CHR ''X'')
                    then (if accept_0x then Some (0, r) else None)
                    else if isxdigit d then Some (int (the (digit_val c) * 16 + the (digit_val d)), r)
                    else Some (int (the (digit_val c)), cs)
                | [] \<Rightarrow> Some (int (the (digit_val c)), [])))"

text \<open>The conversions of the format in turn, separated by colons: as many as succeed.\<close>

fun scan_mac :: "bool \<Rightarrow> nat \<Rightarrow> string \<Rightarrow> int list" where
  "scan_mac accept_0x 0 str = []"
| "scan_mac accept_0x (Suc n) str =
     (case scan_x2 accept_0x str of
        None \<Rightarrow> []
      | Some (m, rest) \<Rightarrow>
          m # (case rest of
                 c # cs \<Rightarrow> if c = CHR '':'' then scan_mac accept_0x n cs else []
               | [] \<Rightarrow> []))"

definition str2mac :: "bool \<Rightarrow> string \<Rightarrow> byte list \<Rightarrow> int \<times> byte list" where
  "str2mac accept_0x arg buf =
     (let ms = scan_mac accept_0x 6 arg
      in if length ms \<noteq> 6 then (-1, buf)
         else if \<exists>m \<in> set ms. m > 255 then (-1, buf)
         else (0, map word_of_int ms @ drop 6 buf))"

section \<open>Value tables\<close>

text \<open>
  A \<open>valstr\<close> array is the list of its entries up to the one with a NULL string, and the
  value of that last entry (which \<open>str2val32\<close> returns when nothing matches).
\<close>

record valstr_tab =
  vs_entries :: "(u32 \<times> string) list"
  vs_term :: u32

fun find_idx_loop :: "u32 \<Rightarrow> (u32 \<times> string) list \<Rightarrow> int \<Rightarrow> int" where
  "find_idx_loop val [] i = -1"
| "find_idx_loop val ((v, s) # vs) i = (if v = val then i else find_idx_loop val vs (i + 1))"

definition find_val_idx :: "u32 \<Rightarrow> valstr_tab option \<Rightarrow> int" where
  "find_val_idx val vs =
     (case vs of None \<Rightarrow> -1 | Some t \<Rightarrow> find_idx_loop val (vs_entries t) 0)"

definition hexchar_upper :: "nat \<Rightarrow> char" where
  "hexchar_upper n = char_of (if n < 10 then 48 + n else 55 + n)"

fun hex_upper :: "nat \<Rightarrow> string" where
  "hex_upper n = (if n < 16 then [hexchar_upper n] else hex_upper (n div 16) @ [hexchar_upper (n mod 16)])"

declare hex_upper.simps [simp del]

definition unknown_val_str :: "u32 \<Rightarrow> string" where
  "unknown_val_str val =
     (let h = hex_upper (unat val)
      in take 31 (''Unknown (0x'' @ replicate (2 - length h) (CHR ''0'') @ h @ '')''))"

definition specific_val2str :: "u32 \<Rightarrow> valstr_tab option \<Rightarrow> valstr_tab option \<Rightarrow> string" where
  "specific_val2str val specific generic =
     (let i = find_val_idx val specific
      in if 0 \<le> i then snd (vs_entries (the specific) ! nat i)
         else let j = find_val_idx val generic
              in if 0 \<le> j then snd (vs_entries (the generic) ! nat j)
                 else unknown_val_str val)"

definition val2str :: "u32 \<Rightarrow> valstr_tab option \<Rightarrow> string" where
  "val2str val vs = specific_val2str val None vs"

definition IPMI_OEM_PICMG :: u32 where "IPMI_OEM_PICMG = 12634"

fun oemval2str :: "u32 \<Rightarrow> u32 \<Rightarrow> (u32 \<times> u16 \<times> string) list \<Rightarrow> string" where
  "oemval2str oem val [] = unknown_val_str val"
| "oemval2str oem val ((o1, v, s) # vs) =
     (if o1 = 0xffffff then unknown_val_str val
      else if (o1 = oem \<or> o1 = IPMI_OEM_PICMG) \<and> ucast v = val then s
      else oemval2str oem val vs)"

definition to_lower :: "char \<Rightarrow> char" where
  "to_lower c = (let n = of_char c :: nat in if 65 \<le> n \<and> n \<le> 90 then char_of (n + 32) else c)"

definition strcasecmp_eq :: "string \<Rightarrow> string \<Rightarrow> bool" where
  "strcasecmp_eq a b \<longleftrightarrow> map to_lower a = map to_lower b"

fun str2val_loop :: "string \<Rightarrow> (u32 \<times> string) list \<Rightarrow> u32 \<Rightarrow> u32" where
  "str2val_loop str [] t = t"
| "str2val_loop str ((v, s) # vs) t = (if strcasecmp_eq s str then v else str2val_loop str vs t)"

definition str2val32 :: "string \<Rightarrow> valstr_tab \<Rightarrow> u32" where
  "str2val32 str vs = str2val_loop str (vs_entries vs) (vs_term vs)"

definition str2val :: "string \<Rightarrow> valstr_tab \<Rightarrow> u16" where
  "str2val str vs = ucast (str2val32 str vs)"

section \<open>Opening a file\<close>

text \<open>
  What \<open>ipmi_open_file\<close> learns of the file system: the result of \<open>lstat\<close> on the path,
  whether \<open>fopen\<close> succeeds, and the result of \<open>fstat\<close> on the handle afterwards. The
  files a caller is left with are those returned; a handle that fails a check is closed.
\<close>

record file_stat =
  st_isreg :: bool
  st_nlink :: nat
  st_ino :: nat
  st_uid :: nat

record file_env =
  fe_lstat :: "file_stat option"
  fe_fopen :: bool
  fe_fstat :: "file_stat option"

definition ipmi_open_file :: "bool \<Rightarrow> file_env \<Rightarrow> bool \<Rightarrow> bool" where
  "ipmi_open_file file_security env rw =
     (case fe_lstat env of
        None \<Rightarrow> rw \<and> fe_fopen env
      | Some st1 \<Rightarrow>
          if \<not> file_security \<and> \<not> rw then fe_fopen env
          else if \<not> st_isreg st1 then False
          else if st_nlink st1 \<noteq> 1 then False
          else if \<not> fe_fopen env then False
          else (case fe_fstat env of
                  None \<Rightarrow> False
                | Some st2 \<Rightarrow>
                    if st_ino st1 \<noteq> st_ino st2 then False
                    else if st_uid st1 \<noteq> st_uid st2 then False
                    else if st_nlink st2 \<noteq> 1 then False
                    else True))"

section \<open>Byte order and checksums\<close>

lemma buf2long_le32 [simp]: "buf2long (le32 w) = w"
proof -
  have "buf2long (le32 w) = of_le32 (le32 w)"
    by (simp add: buf2long_def of_le32_def or.commute or.left_commute)
  then show ?thesis by simp
qed

lemma buf2short_le16 [simp]: "buf2short (le16 w) = w"
  by (rule bit_word_eqI) (auto simp: buf2short_def le16_def bit_simps)

text \<open>The part between the two cursors is what is left to reverse.\<close>

lemma array_byteswap_step:
  "length p = length q \<Longrightarrow>
     array_byteswap_loop (length p) (p @ x # m @ y # q) = array_byteswap_loop (Suc (length p)) ((p @ [y]) @ m @ x # q)"
proof -
  assume eq: "length p = length q"
  then have "length p < length (p @ x # m @ y # q) div 2" by simp
  with eq show ?thesis
    by (subst array_byteswap_loop.simps) (simp add: nth_append list_update_append)
qed

lemma array_byteswap_loop_rev:
  "length p = length q \<Longrightarrow> array_byteswap_loop (length p) (p @ m @ q) = p @ rev m @ q"
proof (induction "length m" arbitrary: p m q rule: less_induct)
  case less
  show ?case
  proof (cases "length m \<le> 1")
    case True
    then have "rev m = m" by (cases m) auto
    moreover have "\<not> length p < length (p @ m @ q) div 2" using True less.prems by simp
    ultimately show ?thesis by (subst array_byteswap_loop.simps) simp
  next
    case False
    then obtain x n where n: "m = x # n" "n \<noteq> []" by (cases m) auto
    then obtain m' y where m: "m = x # m' @ [y]" by (metis rev_exhaust)
    then have "array_byteswap_loop (length p) (p @ m @ q)
        = array_byteswap_loop (length (p @ [y])) ((p @ [y]) @ m' @ x # q)"
      using array_byteswap_step [OF less.prems, of x m' y] by simp
    also have "\<dots> = (p @ [y]) @ rev m' @ x # q"
      using m less.prems by (intro less.hyps) simp_all
    finally show ?thesis using m by simp
  qed
qed

lemma array_byteswap_rev: "array_byteswap b = rev b"
  using array_byteswap_loop_rev [of "[]" "[]" b] by (simp add: array_byteswap_def)

lemma csum_loop_sum: "csum_loop d c = c + sum_list d"
  by (induction d arbitrary: c) simp_all

lemma ipmi_csum_sum: "ipmi_csum d = - sum_list d"
  by (simp add: ipmi_csum_def csum_loop_sum)

lemma ipmi_csum_zero_iff: "ipmi_csum d = 0 \<longleftrightarrow> sum_list d = 0"
  by (simp add: ipmi_csum_sum)

lemma sum_list_csum [simp]: "sum_list d + ipmi_csum d = 0"
  by (simp add: ipmi_csum_sum)

text \<open>
  The shortcut every bridging transport takes: the bytes of a message that is itself
  checksummed add nothing to the checksum of the message around it.
\<close>

lemma ipmi_csum_skip: "sum_list m = 0 \<Longrightarrow> ipmi_csum (h @ m) = ipmi_csum h"
  by (simp add: ipmi_csum_sum)

section \<open>Hexadecimal text round trips\<close>

definition hexchar_ok :: "nat \<Rightarrow> bool" where
  "hexchar_ok n \<longleftrightarrow> isxdigit (hexchar n) \<and> digit_val (hexchar n) = Some n
     \<and> hex_digit_byte (hexchar n) = word_of_nat n \<and> hexchar n \<noteq> NUL \<and> \<not> isspace (hexchar n)
     \<and> hexchar n \<notin> {CHR ''-'', CHR ''+'', CHR ''x'', CHR ''X'', CHR '':'', CHR '']'', CHR ''['', CHR 0x0A, CHR 0x0D}"

lemma hexchar_ok_all: "list_all hexchar_ok [0..<16]"
  by code_simp

lemma hexchar_ok: "n < 16 \<Longrightarrow> hexchar_ok n"
  using hexchar_ok_all by (simp add: list_all_iff del: upt_Suc)

lemma hexchar_simps [simp]:
  assumes "n < 16"
  shows "isxdigit (hexchar n)" and "digit_val (hexchar n) = Some n"
    and "hex_digit_byte (hexchar n) = word_of_nat n"
    and "hexchar n \<noteq> NUL" and "\<not> isspace (hexchar n)"
    and "hexchar n \<notin> {CHR ''-'', CHR ''+'', CHR ''x'', CHR ''X'', CHR '':'', CHR '']'', CHR ''['', CHR 0x0A, CHR 0x0D}"
  using hexchar_ok [OF assms] unfolding hexchar_ok_def by blast+

lemma length_hex2 [simp]: "length (hex2 b) = 2"
  by (simp add: hex2_def)

text \<open>The text of a byte string: two digits a byte, the separator between two bytes.\<close>

fun hex_join :: "string \<Rightarrow> byte list \<Rightarrow> string" where
  "hex_join s [] = []"
| "hex_join s [b] = hex2 b"
| "hex_join s (b # b' # bs) = hex2 b @ s @ hex_join s (b' # bs)"

lemma hex_join_Cons: "bs \<noteq> [] \<Longrightarrow> hex_join s (b # bs) = hex2 b @ s @ hex_join s bs"
  by (cases bs) auto

lemma length_hex_join:
  "bs \<noteq> [] \<Longrightarrow> length (hex_join s bs) = 2 * length bs + length s * (length bs - 1)"
  by (induction s bs rule: hex_join.induct) auto

lemma hex_join_no_sep: "hex_join [] bs = concat (map hex2 bs)"
  by (induction "[] :: string" bs rule: hex_join.induct) auto

lemma hex_join_no_NUL: "NUL \<notin> set s \<Longrightarrow> NUL \<notin> set (hex_join s bs)"
  by (induction s bs rule: hex_join.induct) (auto simp: hex2_def dest: sym)

lemma length_put_at [simp]: "pos + length xs \<le> length mem \<Longrightarrow> length (put_at pos xs mem) = length mem"
  by (simp add: put_at_def)

lemma take_put_at:
  "pos + length xs \<le> length mem \<Longrightarrow> k \<le> length xs \<Longrightarrow>
     take (pos + k) (put_at pos xs mem) = take pos mem @ take k xs"
  by (simp add: put_at_def)

lemma buf2str_loop_text:
  assumes "length mem = pos + left" and "length (hex_join (case_option [] id sep) bs) < left"
  shows "\<exists>mem'. buf2str_loop bs sep pos left mem = Inr (pos + length (hex_join (case_option [] id sep) bs), mem')
           \<and> take (pos + length (hex_join (case_option [] id sep) bs)) mem' = take pos mem @ hex_join (case_option [] id sep) bs
           \<and> length mem' = length mem"
  using assms
proof (induction bs arbitrary: pos left mem)
  case Nil
  then show ?case by simp
next
  case (Cons b bs)
  let ?s = "case_option [] id sep"
  let ?m1 = "put_at pos (take (left - 1) (hex2 b) @ [NUL]) mem"
  have big: "2 < left" using Cons.prems(2) by (cases bs) auto
  then have hx: "take (left - 1) (hex2 b) = hex2 b" by simp
  have m1: "length ?m1 = pos + left" "take (pos + 2) ?m1 = take pos mem @ hex2 b"
    using big Cons.prems(1) hx take_put_at [of pos "hex2 b @ [NUL]" mem 2] by simp_all
  show ?case
  proof (cases "sep = None \<or> bs = []")
    case True
    have len: "length (hex_join ?s (b # bs)) = 2 + length (hex_join ?s bs)"
      and jn: "hex_join ?s (b # bs) = hex2 b @ hex_join ?s bs"
      using True by (cases bs; auto)+
    with Cons.prems m1 have "length ?m1 = (pos + 2) + (left - 2)" "length (hex_join ?s bs) < left - 2"
      using big by auto
    from Cons.IH [OF this] obtain mem' where
      "buf2str_loop bs sep (pos + 2) (left - 2) ?m1 = Inr (pos + 2 + length (hex_join ?s bs), mem')"
      "take (pos + 2 + length (hex_join ?s bs)) mem' = take (pos + 2) ?m1 @ hex_join ?s bs"
      "length mem' = length ?m1" by blast
    with True big m1 jn len Cons.prems(1) show ?thesis by (simp add: add.assoc)
  next
    case False
    then obtain s where s: "sep = Some s" and bs: "bs \<noteq> []" by auto
    let ?m2 = "put_at (pos + 2) (strncpy_img s (left - 2 - 2)) ?m1"
    have jn: "hex_join ?s (b # bs) = hex2 b @ s @ hex_join ?s bs"
      using bs s by (simp add: hex_join_Cons)
    have two: "2 \<le> length (hex_join ?s bs)" using bs by (cases bs) (auto simp: length_hex_join)
    have room: "length s + 4 < left" using Cons.prems(2) two jn by simp
    then have img: "strncpy_img s (left - 4) = s @ replicate (left - 4 - length s) NUL"
      by (simp add: strncpy_img_def)
    have m2: "length ?m2 = pos + left" using room m1(1) by (simp add: img)
    have "take (pos + 2 + length s) ?m2 = take (pos + 2) ?m1 @ s"
      using take_put_at [of "pos + 2" "strncpy_img s (left - 2 - 2)" ?m1 "length s"] room m1(1)
      by (simp add: img)
    then have m2t: "take (pos + 2 + length s) ?m2 = take pos mem @ hex2 b @ s" using m1(2) by simp
    have pre: "length ?m2 = (pos + 2 + length s) + (left - 2 - length s)"
      "length (hex_join ?s bs) < left - 2 - length s"
      using m2 room Cons.prems(2) jn by auto
    have nolast: "\<not> left - 2 \<le> length s" "\<not> left - 2 < 2" using room by linarith+
    from Cons.IH [OF pre] obtain mem' where
      "buf2str_loop bs sep (pos + 2 + length s) (left - 2 - length s) ?m2
         = Inr (pos + 2 + length s + length (hex_join ?s bs), mem')"
      "take (pos + 2 + length s + length (hex_join ?s bs)) mem' = take (pos + 2 + length s) ?m2 @ hex_join ?s bs"
      "length mem' = length ?m2" by blast
    with nolast s bs big m2 m2t jn Cons.prems(1) show ?thesis by (simp add: add.assoc Let_def)
  qed
qed

lemma buf2str_extended_text:
  assumes "length mem = BUF2STR_MAXIMUM_OUTPUT_SIZE" and "NUL \<notin> set (case_option [] id sep)"
    and "length (hex_join (case_option [] id sep) bs) < BUF2STR_MAXIMUM_OUTPUT_SIZE"
  shows "buf2str_extended mem (Some bs) sep = Inr (hex_join (case_option [] id sep) bs)"
proof -
  let ?t = "hex_join (case_option [] id sep) bs"
  from assms obtain mem' where l: "buf2str_loop bs sep 0 BUF2STR_MAXIMUM_OUTPUT_SIZE mem = Inr (length ?t, mem')"
    and t: "take (length ?t) mem' = ?t" and m: "length mem' = length mem"
    using buf2str_loop_text [of mem 0 BUF2STR_MAXIMUM_OUTPUT_SIZE sep bs] by auto
  have "mem'[length ?t := NUL] = ?t @ NUL # drop (Suc (length ?t)) mem'"
    using t m assms by (simp add: upd_conv_take_nth_drop)
  moreover have "\<And>c. c \<in> set ?t \<Longrightarrow> c \<noteq> NUL" using hex_join_no_NUL [OF assms(2)] by metis
  ultimately have "takeWhile (\<lambda>c. c \<noteq> NUL) (mem'[length ?t := NUL]) = ?t"
    by (simp add: takeWhile_append2)
  with l show ?thesis by (simp add: buf2str_extended_def)
qed

lemma buf2str_text:
  "length mem = BUF2STR_MAXIMUM_OUTPUT_SIZE \<Longrightarrow> length bs \<le> 1536 \<Longrightarrow>
     buf2str mem (Some bs) = Inr (concat (map hex2 bs))"
  using buf2str_extended_text [of mem None bs]
  by (cases "bs = []") (simp_all add: buf2str_def hex_join_no_sep length_hex_join BUF2STR_MAXIMUM_OUTPUT_SIZE_def
      flip: hex_join_no_sep)

lemma parse_hex_loop_hex2:
  "int (length out + length bs) \<le> sz \<Longrightarrow>
     parse_hex_loop (concat (map hex2 bs)) 0 4 out sz = (True, out @ bs)"
proof (induction bs arbitrary: out)
  case Nil
  then show ?case by simp
next
  case (Cons b bs)
  have "push_bit 4 (word_of_nat (hi_nibble b)) + word_of_nat (lo_nibble b) = b"
    using nibbles_byte [of b] by (simp add: push_bit_eq_mult mult.commute)
  with Cons show ?case by (simp add: hex2_def Let_def)
qed

lemma length_concat_hex2 [simp]: "length (concat (map hex2 bs)) = 2 * length bs"
  by (induction bs) simp_all

lemma ipmi_parse_hex_hex2:
  "int (length bs) \<le> sz \<Longrightarrow>
     ipmi_parse_hex (concat (map hex2 bs)) False sz = (int (length bs), bs)"
  using parse_hex_loop_hex2 [of "[]" bs sz] by (auto simp: ipmi_parse_hex_def)

interpretation hex_text: codec "\<lambda>bs. concat (map hex2 bs)"
  "\<lambda>t. Some (snd (ipmi_parse_hex t False (int (length t))))" "\<lambda>_. True"
  by unfold_locales (simp add: ipmi_parse_hex_hex2)

section \<open>MAC addresses round trip\<close>

lemma scan_x2_hex2: "scan_x2 a (hex2 b @ rest) = Some (int (unat b), rest)"
proof -
  have v: "hi_nibble b * 16 + lo_nibble b = unat b"
    by (simp add: hi_nibble_def lo_nibble_def)
  have n: "hexchar (hi_nibble b) \<noteq> CHR ''-''" "hexchar (hi_nibble b) \<noteq> CHR ''+''"
    "hexchar (lo_nibble b) \<noteq> CHR ''x''" "hexchar (lo_nibble b) \<noteq> CHR ''X''"
    using hexchar_simps(6) [OF hi_nibble_less [of b]] hexchar_simps(6) [OF lo_nibble_less [of b]] by auto
  show ?thesis
    by (simp add: scan_x2_def hex2_def n v [symmetric])
qed

lemma scan_mac_join:
  "bs \<noteq> [] \<Longrightarrow> scan_mac a (length bs) (hex_join '':'' bs) = map (\<lambda>b. int (unat b)) bs"
proof (induction "'':''" bs rule: hex_join.induct)
  case 1
  then show ?case by simp
next
  case (2 b)
  then show ?case using scan_x2_hex2 [of a b "[]"] by simp
next
  case (3 b b' bs)
  then show ?case by (simp add: scan_x2_hex2)
qed

lemma str2mac_join:
  assumes "length m = 6"
  shows "str2mac a (hex_join '':'' m) buf = (0, m @ drop 6 buf)"
proof -
  have ne: "m \<noteq> []" using assms by auto
  have small: "\<not> (\<exists>x \<in> set (map (\<lambda>b. int (unat b)) m). x > 255)"
  proof -
    have "int (unat b) \<le> 255" for b :: byte using unat_byte_less [of b] by linarith
    then show ?thesis by (auto simp: not_less)
  qed
  have "map (word_of_int \<circ> (\<lambda>b. int (unat b))) m = m"
    by (rule map_idI) simp
  with small assms show ?thesis
    using scan_mac_join [OF ne, of a] by (simp add: str2mac_def Let_def)
qed

lemma mac2str_join:
  assumes "length mem = BUF2STR_MAXIMUM_OUTPUT_SIZE" and "length m = 6"
  shows "mac2str mem m = Inr (hex_join '':'' m)"
proof -
  have "m \<noteq> []" using assms(2) by auto
  then have "length (hex_join '':'' m) = 17" using assms(2) by (simp add: length_hex_join)
  then show ?thesis
    using assms buf2str_extended_text [of mem "Some '':''" m]
    by (simp add: mac2str_def BUF2STR_MAXIMUM_OUTPUT_SIZE_def)
qed

section \<open>Numbers in text\<close>

text \<open>Positional notation, as \<open>printf\<close> writes it in base 10 or 16.\<close>

function show_base :: "nat \<Rightarrow> nat \<Rightarrow> string" where
  "show_base b n = (if b < 2 \<or> n < b then [hexchar n] else show_base b (n div b) @ [hexchar (n mod b)])"
  by pat_completeness auto
termination
  by (relation "measure snd") (auto intro: div_less_dividend)

declare show_base.simps [simp del]

lemma show_base_not_Nil [simp]: "show_base b n \<noteq> []"
  by (subst show_base.simps) simp

lemma hexchar_is_digit: "n < b \<Longrightarrow> b \<le> 16 \<Longrightarrow> is_digit_in b (hexchar n)"
  by (simp add: is_digit_in_def)

lemma scan_digits_append:
  "(\<forall>c \<in> set ds. is_digit_in b c) \<Longrightarrow>
     scan_digits b v (ds @ r) = scan_digits b (fst (scan_digits b v ds)) r"
  by (induction ds arbitrary: v) auto

lemma show_base_digits: "2 \<le> b \<Longrightarrow> b \<le> 16 \<Longrightarrow> \<forall>c \<in> set (show_base b n). is_digit_in b c"
proof (induction b n rule: show_base.induct)
  case (1 b n)
  show ?case
  proof (cases "n < b")
    case True
    with 1 show ?thesis by (subst show_base.simps) (simp add: hexchar_is_digit)
  next
    case False
    with 1 have "\<forall>c \<in> set (show_base b (n div b)). is_digit_in b c" by simp
    with 1 False show ?thesis by (subst show_base.simps) (auto simp: hexchar_is_digit)
  qed
qed

lemma scan_digits_show:
  "2 \<le> b \<Longrightarrow> b \<le> 16 \<Longrightarrow> scan_digits b 0 (show_base b n) = (n, [])"
proof (induction b n rule: show_base.induct)
  case (1 b n)
  show ?case
  proof (cases "n < b")
    case True
    with 1 show ?thesis by (subst show_base.simps) (simp add: hexchar_is_digit)
  next
    case False
    with 1 have "scan_digits b 0 (show_base b (n div b)) = (n div b, [])" by simp
    moreover have "n mod b < b" "n mod b < 16"
      using 1 by (auto intro: less_le_trans [of _ b])
    ultimately show ?thesis using False 1(2,3)
      by (subst show_base.simps)
        (simp add: scan_digits_append show_base_digits hexchar_is_digit)
  qed
qed

lemma show_base_hd: "2 \<le> b \<Longrightarrow> b \<le> 16 \<Longrightarrow> 0 < n \<Longrightarrow> hd (show_base b n) \<noteq> CHR ''0''"
proof (induction b n rule: show_base.induct)
  case (1 b n)
  show ?case
  proof (cases "n < b")
    case True
    have "digit_val (hexchar n) = Some n" using True 1 by simp
    moreover have "digit_val (CHR ''0'') = Some 0" by (simp add: digit_val_def)
    ultimately have "hexchar n \<noteq> CHR ''0''" using 1(4) by auto
    with True show ?thesis by (subst show_base.simps) simp
  next
    case False
    with 1 have "hd (show_base b (n div b)) \<noteq> CHR ''0''" by (simp add: div_greater_zero_iff)
    with False 1 show ?thesis by (subst show_base.simps) simp
  qed
qed

lemma hd_show_base_plain:
  assumes "2 \<le> b" and "b \<le> 16"
  obtains k ds where "show_base b n = hexchar k # ds" and "k < b"
proof -
  have "\<exists>k ds. show_base b n = hexchar k # ds \<and> k < b"
    using assms
  proof (induction b n rule: show_base.induct)
    case (1 b n)
    show ?case
    proof (cases "n < b")
      case True
      then show ?thesis by (subst show_base.simps) auto
    next
      case False
      with 1 obtain k ds where "show_base b (n div b) = hexchar k # ds" "k < b" by auto
      with False 1 show ?thesis by (subst show_base.simps) simp
    qed
  qed
  with that show thesis by blast
qed

lemma scan_sign_hexchar: "k < 16 \<Longrightarrow> scan_sign (hexchar k # ds) = (False, hexchar k # ds)"
  using hexchar_simps(6) [of k] by (auto simp: scan_sign_def)

lemma scan_number_dec: "scan_number 0 (show_base 10 n) = Some (False, n, [])"
proof -
  obtain k ds where k: "show_base 10 n = hexchar k # ds" "k < 10"
    using hd_show_base_plain [of 10 n] by auto
  have nohex: "\<not> has_hex_prefix (show_base 10 n)"
  proof -
    have "\<forall>c \<in> set (show_base 10 n). c \<noteq> CHR ''x'' \<and> c \<noteq> CHR ''X''"
      using show_base_digits [of 10 n] by (auto simp: is_digit_in_def digit_val_def)
    then show ?thesis by (auto simp: has_hex_prefix_def split: list.splits)
  qed
  show ?thesis
  proof (cases "n = 0")
    case True
    have "show_base 10 0 = ''0''" by code_simp
    moreover have "scan_number 0 ''0'' = Some (False, 0, [])" by code_simp
    ultimately show ?thesis using True by simp
  next
    case False
    then have b: "scan_base 0 (show_base 10 n) = (10, show_base 10 n)"
      using nohex show_base_hd [of 10 n] by (simp add: scan_base_def)
    have "is_digit_in 10 (hexchar k)" using k(2) by (simp add: hexchar_is_digit)
    then show ?thesis
      using k b scan_digits_show [of 10 n] by (simp add: scan_number_def scan_sign_hexchar)
  qed
qed

lemma strtoul_dec: "n < 2 ^ 64 \<Longrightarrow> strtoul 0 (show_base 10 n) = (int n, [], False)"
  by (simp add: strtoul_def scan_number_dec)

lemma strtoul_dec_big: "2 ^ 64 \<le> n \<Longrightarrow> strtoul 0 (show_base 10 n) = (2 ^ 64 - 1, [], True)"
  by (simp add: strtoul_def scan_number_dec)

lemma str2ulong_dec:
  "str2ulong (Some (show_base 10 n)) (Some c) =
     (if n < 2 ^ 64 then (0, Some (int n)) else (-3, Some (2 ^ 64 - 1)))"
  by (simp add: str2ulong_def strtoul_dec strtoul_dec_big)

lemma narrow_ulong_dec:
  "0 \<le> hi \<Longrightarrow> hi < 2 ^ 64 \<Longrightarrow> narrow str2ulong 0 hi (Some (show_base 10 n)) (Some c) =
     (if int n \<le> hi then (0, Some (int n)) else (-3, Some (if n < 2 ^ 64 then c else 0)))"
  by (auto simp: narrow_def str2ulong_dec not_less)

lemma narrow_range: "narrow conv lo hi str ptr = (0, c) \<Longrightarrow> \<exists>v. c = Some v \<and> lo \<le> v \<and> v \<le> hi"
  by (auto simp: narrow_def split: prod.splits if_splits)

lemma str2uchar_range: "str2uchar s p = (0, c) \<Longrightarrow> \<exists>v. c = Some v \<and> 0 \<le> v \<and> v \<le> 255"
  using narrow_range [of str2ulong 0 255 s p c] by (simp add: str2uchar_def)

lemma str2uchar_dec: "n < 256 \<Longrightarrow> str2uchar (Some (show_base 10 n)) (Some c) = (0, Some (int n))"
  by (simp add: str2uchar_def narrow_ulong_dec)

lemma args2buf_loop_dec:
  "length out + length ns \<le> len \<Longrightarrow> (\<forall>n \<in> set ns. n < 256) \<Longrightarrow>
     args2buf_loop (map (show_base 10) ns) len out = (True, out @ map word_of_nat ns)"
  by (induction ns arbitrary: out) (auto simp: str2uchar_dec)

lemma args2buf_loop_bound:
  "args2buf_loop as len out = (ok, out') \<Longrightarrow> length out \<le> len \<Longrightarrow>
     length out' \<le> len \<and> take (length out) out' = out \<and> length out' \<le> length out + length as"
proof (induction "as" len out arbitrary: ok out' rule: args2buf_loop.induct)
  case (1 len out)
  then show ?case by simp
next
  case (2 a "as" len out)
  show ?case
  proof (cases "length out < len")
    case True
    obtain rc c where rc: "str2uchar (Some a) (Some 0) = (rc, c)" by fastforce
    show ?thesis
    proof (cases "rc = 0")
      case True
      with 2(2) rc \<open>length out < len\<close> have "args2buf_loop as len (out @ [word_of_int (the c)]) = (ok, out')" by simp
      from 2(1) [OF \<open>length out < len\<close> rc [symmetric] _ this] True \<open>length out < len\<close>
      have "length out' \<le> len" "take (Suc (length out)) out' = out @ [word_of_int (the c)]"
        "length out' \<le> length out + length (a # as)" by auto
      moreover from this(2) have "take (length out) out' = out"
        by (metis append_eq_conv_conj le_add1 plus_1_eq_Suc take_take add.commute min_absorb1)
      ultimately show ?thesis by simp
    next
      case False
      with 2 rc \<open>length out < len\<close> show ?thesis by simp
    qed
  next
    case False
    with 2 show ?thesis by simp
  qed
qed

section \<open>Value tables\<close>

lemma find_idx_loop_bounds:
  "find_idx_loop val vs i = j \<Longrightarrow> 0 \<le> i \<Longrightarrow>
     (case map_of vs val of None \<Rightarrow> j = -1 | Some s \<Rightarrow> i \<le> j \<and> nat (j - i) < length vs \<and> snd (vs ! nat (j - i)) = s)"
proof (induction val vs i arbitrary: j rule: find_idx_loop.induct)
  case (1 val i)
  then show ?case by simp
next
  case (2 val v s vs i)
  show ?case
  proof (cases "v = val")
    case True
    with 2 show ?thesis by simp
  next
    case False
    have IH: "case map_of vs val of None \<Rightarrow> j = -1
      | Some s \<Rightarrow> i + 1 \<le> j \<and> nat (j - (i + 1)) < length vs \<and> snd (vs ! nat (j - (i + 1))) = s"
      using 2(1) [OF False, of j] 2(2,3) False by simp
    have "nat (j - i) = Suc (nat (j - (i + 1)))" if "i + 1 \<le> j" using that by linarith
    with IH False show ?thesis by (auto split: option.splits)
  qed
qed

lemma find_val_idx_cases:
  "(case map_of (vs_entries t) val of None \<Rightarrow> find_val_idx val (Some t) = -1
     | Some s \<Rightarrow> 0 \<le> find_val_idx val (Some t) \<and> snd (vs_entries t ! nat (find_val_idx val (Some t))) = s)"
  using find_idx_loop_bounds [OF refl, of 0 val "vs_entries t"]
  by (auto simp: find_val_idx_def split: option.splits)

lemma specific_val2str_lookup:
  "specific_val2str val (Some sp) (Some ge) =
     (case map_of (vs_entries sp) val of Some s \<Rightarrow> s
      | None \<Rightarrow> (case map_of (vs_entries ge) val of Some s \<Rightarrow> s | None \<Rightarrow> unknown_val_str val))"
  using find_val_idx_cases [of val sp] find_val_idx_cases [of val ge]
  by (auto simp: specific_val2str_def Let_def split: option.splits)

lemma val2str_lookup:
  "val2str val (Some t) = (case map_of (vs_entries t) val of Some s \<Rightarrow> s | None \<Rightarrow> unknown_val_str val)"
  using find_val_idx_cases [of val t]
  by (auto simp: val2str_def specific_val2str_def Let_def find_val_idx_def [of val None] split: option.splits)

lemma str2val_loop_found:
  "(v, s) \<in> set vs \<Longrightarrow> distinct (map (map to_lower \<circ> snd) vs) \<Longrightarrow> str2val_loop s vs t = v"
proof (induction vs)
  case Nil
  then show ?case by simp
next
  case (Cons e vs)
  obtain v' s' where e: "e = (v', s')" by fastforce
  show ?case
  proof (cases "map to_lower s' = map to_lower s")
    case True
    have "(v, s) \<notin> set vs" using Cons.prems(2) e True by force
    then show ?thesis using Cons.prems(1) e by (auto simp: strcasecmp_eq_def)
  next
    case False
    with Cons e show ?thesis by (auto simp: strcasecmp_eq_def)
  qed
qed

section \<open>Properties\<close>

text \<open>
  printing bytes in hexadecimal with buf2str and reading the text back with
  ipmi_parse_hex gives the same bytes and their number, whatever an earlier call left in
  the static buffer, for every byte string that fits the buffer (1536 bytes).
\<close>

theorem buf2str_parse_hex_roundtrip:
  assumes "length mem = BUF2STR_MAXIMUM_OUTPUT_SIZE" and "length bs \<le> 1536" and "int (length bs) \<le> sz"
  shows "\<exists>t. buf2str mem (Some bs) = Inr t \<and> ipmi_parse_hex t False sz = (int (length bs), bs)"
  using assms by (simp add: buf2str_text ipmi_parse_hex_hex2)

theorem buf2str_parse_hex_roundtrip_witness:
  "\<exists>t. buf2str (replicate BUF2STR_MAXIMUM_OUTPUT_SIZE NUL) (Some [0x50, 0xAF, 0x00]) = Inr t
     \<and> ipmi_parse_hex t False 20 = (3, [0x50, 0xAF, 0x00])"
  using buf2str_parse_hex_roundtrip [of "replicate BUF2STR_MAXIMUM_OUTPUT_SIZE NUL" "[0x50, 0xAF, 0x00]" 20]
  by simp

text \<open>
  a MAC address printed by mac2str is read back unchanged by str2mac, under either
  reading of an incomplete 0x prefix by the C library.
\<close>

theorem mac_roundtrip:
  assumes "length mem = BUF2STR_MAXIMUM_OUTPUT_SIZE" and "length m = 6" and "length buf = 6"
  shows "\<exists>t. mac2str mem m = Inr t \<and> str2mac accept_0x t buf = (0, m)"
  using assms by (simp add: mac2str_join str2mac_join)

theorem mac_roundtrip_witness:
  "\<exists>t. mac2str (replicate BUF2STR_MAXIMUM_OUTPUT_SIZE NUL) [0, 0x1B, 0x21, 0xFE, 0x0A, 0xFF] = Inr t
     \<and> str2mac False t (replicate 6 0) = (0, [0, 0x1B, 0x21, 0xFE, 0x0A, 0xFF])"
  using mac_roundtrip [of "replicate BUF2STR_MAXIMUM_OUTPUT_SIZE NUL" "[0, 0x1B, 0x21, 0xFE, 0x0A, 0xFF]"
      "replicate 6 0" False]
  by simp

text \<open>
  the unsigned conversions are exact on decimal text. A number is stored, with
  result 0, exactly when it fits the type; otherwise the result is -3, and the cell keeps
  its value, or becomes 0 when the number does not even fit 64 bits.
\<close>

theorem str2_unsigned_exact:
  "str2uchar (Some (show_base 10 n)) (Some c) =
     (if n < 2 ^ 8 then (0, Some (int n)) else (-3, Some (if n < 2 ^ 64 then c else 0)))
   \<and> str2ushort (Some (show_base 10 n)) (Some c) =
     (if n < 2 ^ 16 then (0, Some (int n)) else (-3, Some (if n < 2 ^ 64 then c else 0)))
   \<and> str2uint (Some (show_base 10 n)) (Some c) =
     (if n < 2 ^ 32 then (0, Some (int n)) else (-3, Some (if n < 2 ^ 64 then c else 0)))"
proof -
  have bound: "int n \<le> 2 ^ k - 1 \<longleftrightarrow> n < 2 ^ k" for k
    using zle_diff1_eq [of "int n" "2 ^ k"] by simp
  show ?thesis
    unfolding str2uchar_def str2ushort_def str2uint_def
    by (intro conjI; subst narrow_ulong_dec) (simp_all add: bound [symmetric] del: of_nat_le_numeral_power_cancel_iff)
qed

text \<open>
  no argument check accepts a value outside its documented range: FRU ids are bytes,
  channel numbers avoid the reserved 0xC and 0xD, user ids lie in 1..63, privilege limits
  are 1..5 or 0xF.
\<close>

theorem argument_checks_sound:
  "(is_fru_id s p = (0, c) \<longrightarrow> (\<exists>v. c = Some v \<and> 0 \<le> v \<and> v \<le> 255))
   \<and> (is_ipmi_channel_num s p = (0, c) \<longrightarrow> (\<exists>v. c = Some v \<and> (0 \<le> v \<and> v \<le> 0xB \<or> v = 0xE \<or> v = 0xF)))
   \<and> (is_ipmi_user_id s p = (0, c) \<longrightarrow> (\<exists>v. c = Some v \<and> 1 \<le> v \<and> v \<le> 63))
   \<and> (is_ipmi_user_priv_limit s p = (0, c) \<longrightarrow> (\<exists>v. c = Some v \<and> (1 \<le> v \<and> v \<le> 5 \<or> v = 0xF)))"
proof (cases "s = None \<or> p = None")
  case True
  then show ?thesis
    by (auto simp: is_fru_id_def is_ipmi_channel_num_def is_ipmi_user_id_def is_ipmi_user_priv_limit_def)
next
  case False
  obtain rc c' where r: "str2uchar s p = (rc, c')" by fastforce
  show ?thesis
  proof (cases "rc = 0")
    case True
    with r obtain v where "c' = Some v" "0 \<le> v" "v \<le> 255" using str2uchar_range by blast
    with True False r show ?thesis
      by (auto simp: is_fru_id_def is_ipmi_channel_num_def is_ipmi_user_id_def is_ipmi_user_priv_limit_def
          IPMI_UID_MIN_def IPMI_UID_MAX_def)
  next
    case rc: False
    with False r show ?thesis
      by (auto simp: is_fru_id_def is_ipmi_channel_num_def is_ipmi_user_id_def is_ipmi_user_priv_limit_def)
  qed
qed

theorem argument_checks_sound_witness:
  "is_ipmi_user_id (Some ''63'') (Some 0) = (0, Some 63) \<and> (\<exists>v. Some 63 = Some v \<and> 1 \<le> v \<and> v \<le> (63 :: int))"
proof -
  have "show_base 10 63 = ''63''" by code_simp
  then have "is_ipmi_user_id (Some ''63'') (Some 0) = (0, Some 63)"
    using str2uchar_dec [of 63 0] by (simp add: is_ipmi_user_id_def IPMI_UID_MIN_def IPMI_UID_MAX_def)
  then show ?thesis using argument_checks_sound [of "Some ''63''" "Some 0" "Some 63"] by blast
qed

text \<open>
  in a table whose strings differ (ignoring case) and whose values differ, looking a
  value up with val2str and converting the string back with str2val32 gives the value.
\<close>

theorem val2str_str2val_roundtrip:
  assumes "distinct (map fst (vs_entries t))" and "distinct (map (map to_lower \<circ> snd) (vs_entries t))"
    and "v \<in> fst ` set (vs_entries t)"
  shows "str2val32 (val2str v (Some t)) t = v"
proof -
  from assms(3) obtain s where s: "(v, s) \<in> set (vs_entries t)" by auto
  with assms(1) have "map_of (vs_entries t) v = Some s" by simp
  then have "val2str v (Some t) = s" by (simp add: val2str_lookup)
  with s assms(2) show ?thesis by (simp add: str2val32_def str2val_loop_found)
qed

theorem val2str_str2val_roundtrip_witness:
  "str2val32 (val2str 4 (Some \<lparr>vs_entries = [(3, ''Operator''), (4, ''Administrator'')], vs_term = 0xff\<rparr>))
     \<lparr>vs_entries = [(3, ''Operator''), (4, ''Administrator'')], vs_term = 0xff\<rparr> = 4"
  by (rule val2str_str2val_roundtrip) (simp_all add: to_lower_def)

text \<open>
  a file that exists and is opened for writing (or for reading, when the extra
  checks are compiled in) is a regular file with a single link, and the handle returned
  is of the same inode and owner as the path that was examined.
\<close>

theorem ipmi_open_file_safe:
  assumes "ipmi_open_file file_security env rw" and "fe_lstat env = Some st1" and "rw \<or> file_security"
  shows "st_isreg st1 \<and> st_nlink st1 = 1 \<and> fe_fopen env \<and>
    (\<exists>st2. fe_fstat env = Some st2 \<and> st_ino st2 = st_ino st1 \<and> st_uid st2 = st_uid st1 \<and> st_nlink st2 = 1)"
  using assms by (auto simp: ipmi_open_file_def split: if_splits option.splits)

theorem ipmi_open_file_safe_witness:
  "let st = \<lparr>st_isreg = True, st_nlink = 1, st_ino = 7, st_uid = 0\<rparr>;
       env = \<lparr>fe_lstat = Some st, fe_fopen = True, fe_fstat = Some st\<rparr>
   in ipmi_open_file False env True \<and> st_isreg st \<and> st_nlink st = 1 \<and>
      (\<exists>st2. fe_fstat env = Some st2 \<and> st_ino st2 = st_ino st)"
proof -
  let ?st = "\<lparr>st_isreg = True, st_nlink = 1, st_ino = 7, st_uid = 0\<rparr>"
  let ?env = "\<lparr>fe_lstat = Some ?st, fe_fopen = True, fe_fstat = Some ?st\<rparr>"
  have "ipmi_open_file False ?env True" by (simp add: ipmi_open_file_def)
  with ipmi_open_file_safe [OF this] show ?thesis by (simp add: Let_def)
qed

section \<open>Inputs the conversions accept beyond their documentation\<close>

text \<open>
  \<open>strtol\<close> and \<open>strtoul\<close> report no conversion by an end pointer at the start of the
  text, which the helpers read as success when the text is empty; and a negated 64-bit
  value is accepted as the small positive number it wraps to.
\<close>

lemma str2_empty_accepted: "str2long (Some []) (Some c) = (0, Some 0) \<and> str2uchar (Some []) (Some c) = (0, Some 0)"
  by (simp add: str2long_def str2ulong_def str2uchar_def narrow_def strtol_def strtoul_def
      scan_number_def scan_sign_def scan_base_def)

lemma str2uchar_negative_wraps: "str2uchar (Some ''-18446744073709551615'') (Some c) = (0, Some 1)"
proof -
  have "scan_number 0 ''-18446744073709551615'' = Some (True, 18446744073709551615, [])"
    by (simp add: scan_number_def isspace_def scan_sign_def scan_base_def has_hex_prefix_def
        is_digit_in_def digit_val_def)
  then show ?thesis by (simp add: str2uchar_def narrow_def str2ulong_def strtoul_def)
qed

end
