(* ===== verification/Md5.thy ===== *)
theory Md5
  imports Helper
begin

text \<open>
  The bundled MD5 of src/plugins/lan/md5.c: its constants, the four unrolled rounds of
  \<open>md5_process\<close>, and the incremental interface \<open>md5_init\<close>, \<open>md5_append\<close>, \<open>md5_finish\<close>
  with the 64-byte accumulation buffer. The reference is the algorithm of RFC 1321 (a loop
  of 64 steps over index formulas, a padding function on the whole message); the theorems
  say that the unrolled rounds are that loop and that any way of cutting a message into
  appended pieces gives the digest of the whole.
\<close>

section \<open>Constants and round functions\<close>

definition T_MASK :: u32 where "T_MASK = NOT 0"

definition md5_T :: "u32 list" where
  "md5_T = [
     T_MASK XOR 0x28955b87, T_MASK XOR 0x173848a9, 0x242070db, T_MASK XOR 0x3e423111,
     T_MASK XOR 0x0a83f050, 0x4787c62a, T_MASK XOR 0x57cfb9ec, T_MASK XOR 0x02b96afe,
     0x698098d8, T_MASK XOR 0x74bb0850, T_MASK XOR 0x0000a44e, T_MASK XOR 0x76a32841,
     0x6b901122, T_MASK XOR 0x02678e6c, T_MASK XOR 0x5986bc71, 0x49b40821,
     T_MASK XOR 0x09e1da9d, T_MASK XOR 0x3fbf4cbf, 0x265e5a51, T_MASK XOR 0x16493855,
     T_MASK XOR 0x29d0efa2, 0x02441453, T_MASK XOR 0x275e197e, T_MASK XOR 0x182c0437,
     0x21e1cde6, T_MASK XOR 0x3cc8f829, T_MASK XOR 0x0b2af278, 0x455a14ed,
     T_MASK XOR 0x561c16fa, T_MASK XOR 0x03105c07, 0x676f02d9, T_MASK XOR 0x72d5b375,
     T_MASK XOR 0x0005c6bd, T_MASK XOR 0x788e097e, 0x6d9d6122, T_MASK XOR 0x021ac7f3,
     T_MASK XOR 0x5b4115bb, 0x4bdecfa9, T_MASK XOR 0x0944b49f, T_MASK XOR 0x4140438f,
     0x289b7ec6, T_MASK XOR 0x155ed805, T_MASK XOR 0x2b10cf7a, 0x04881d05,
     T_MASK XOR 0x262b2fc6, T_MASK XOR 0x1924661a, 0x1fa27cf8, T_MASK XOR 0x3b53a99a,
     T_MASK XOR 0x0bd6ddbb, 0x432aff97, T_MASK XOR 0x546bdc58, T_MASK XOR 0x036c5fc6,
     0x655b59c3, T_MASK XOR 0x70f3336d, T_MASK XOR 0x00100b82, T_MASK XOR 0x7a7ba22e,
     0x6fa87e4f, T_MASK XOR 0x01d3191f, T_MASK XOR 0x5cfebceb, 0x4e0811a1,
     T_MASK XOR 0x08ac817d, T_MASK XOR 0x42c50dca, 0x2ad7d2bb, T_MASK XOR 0x14792c6e]"

definition ROTATE_LEFT :: "u32 \<Rightarrow> nat \<Rightarrow> u32" where
  "ROTATE_LEFT x n = push_bit n x OR drop_bit (32 - n) x"

definition md5_F :: "u32 \<Rightarrow> u32 \<Rightarrow> u32 \<Rightarrow> u32" where
  "md5_F x y z = (x AND y) OR (NOT x AND z)"

definition md5_G :: "u32 \<Rightarrow> u32 \<Rightarrow> u32 \<Rightarrow> u32" where
  "md5_G x y z = (x AND z) OR (y AND NOT z)"

definition md5_H :: "u32 \<Rightarrow> u32 \<Rightarrow> u32 \<Rightarrow> u32" where
  "md5_H x y z = x XOR y XOR z"

definition md5_I :: "u32 \<Rightarrow> u32 \<Rightarrow> u32 \<Rightarrow> u32" where
  "md5_I x y z = y XOR (x OR NOT z)"

type_synonym md5_regs = "u32 \<times> u32 \<times> u32 \<times> u32"

text \<open>The macro \<open>SET(a, b, c, d, k, s, Ti)\<close>: the value assigned to its first register.\<close>

definition md5_SET :: "(u32 \<Rightarrow> u32 \<Rightarrow> u32 \<Rightarrow> u32) \<Rightarrow> u32 list \<Rightarrow> u32 \<Rightarrow> u32 \<Rightarrow> u32 \<Rightarrow> u32 \<Rightarrow>
    nat \<times> nat \<times> nat \<Rightarrow> u32" where
  "md5_SET f X a b c d = (\<lambda>(k, s, i).
     let t = a + f b c d + X ! k + md5_T ! (i - 1) in ROTATE_LEFT t s + b)"

text \<open>
  The statements of a round come in groups of four, which write a, d, c and b in this
  order; a round is the list of their last three arguments \<open>(k, s, i)\<close> in program order.
\<close>

fun md5_SETs :: "(u32 \<Rightarrow> u32 \<Rightarrow> u32 \<Rightarrow> u32) \<Rightarrow> u32 list \<Rightarrow> (nat \<times> nat \<times> nat) list \<Rightarrow> md5_regs \<Rightarrow> md5_regs" where
  "md5_SETs f X (q0 # q1 # q2 # q3 # qs) (a, b, c, d) =
     (let a = md5_SET f X a b c d q0;
          d = md5_SET f X d a b c q1;
          c = md5_SET f X c d a b q2;
          b = md5_SET f X b c d a q3
      in md5_SETs f X qs (a, b, c, d))"
| "md5_SETs f X qs r = r"

definition md5_round1 :: "(nat \<times> nat \<times> nat) list" where
  "md5_round1 = [
     (0, 7, 1), (1, 12, 2), (2, 17, 3), (3, 22, 4),
     (4, 7, 5), (5, 12, 6), (6, 17, 7), (7, 22, 8),
     (8, 7, 9), (9, 12, 10), (10, 17, 11), (11, 22, 12),
     (12, 7, 13), (13, 12, 14), (14, 17, 15), (15, 22, 16)]"

definition md5_round2 :: "(nat \<times> nat \<times> nat) list" where
  "md5_round2 = [
     (1, 5, 17), (6, 9, 18), (11, 14, 19), (0, 20, 20),
     (5, 5, 21), (10, 9, 22), (15, 14, 23), (4, 20, 24),
     (9, 5, 25), (14, 9, 26), (3, 14, 27), (8, 20, 28),
     (13, 5, 29), (2, 9, 30), (7, 14, 31), (12, 20, 32)]"

definition md5_round3 :: "(nat \<times> nat \<times> nat) list" where
  "md5_round3 = [
     (5, 4, 33), (8, 11, 34), (11, 16, 35), (14, 23, 36),
     (1, 4, 37), (4, 11, 38), (7, 16, 39), (10, 23, 40),
     (13, 4, 41), (0, 11, 42), (3, 16, 43), (6, 23, 44),
     (9, 4, 45), (12, 11, 46), (15, 16, 47), (2, 23, 48)]"

definition md5_round4 :: "(nat \<times> nat \<times> nat) list" where
  "md5_round4 = [
     (0, 6, 49), (7, 10, 50), (14, 15, 51), (5, 21, 52),
     (12, 6, 53), (3, 10, 54), (10, 15, 55), (1, 21, 56),
     (8, 6, 57), (15, 10, 58), (6, 15, 59), (13, 21, 60),
     (4, 6, 61), (11, 10, 62), (2, 15, 63), (9, 21, 64)]"

text \<open>The 16 words of a block, little-endian (the copy on such a host, the loop on another).\<close>

definition md5_X :: "byte list \<Rightarrow> u32 list" where
  "md5_X data = map (\<lambda>i. of_le32 (take 4 (drop (4 * i) data))) [0..<16]"

definition md5_add_regs :: "md5_regs \<Rightarrow> md5_regs \<Rightarrow> md5_regs" where
  "md5_add_regs = (\<lambda>(a, b, c, d) (a', b', c', d'). (a + a', b + b', c + c', d + d'))"

section \<open>The incremental interface\<close>

record md5_state =
  count0 :: u32
  count1 :: u32
  abcd :: md5_regs
  md5_buf :: "byte list"

definition md5_compress :: "md5_regs \<Rightarrow> byte list \<Rightarrow> md5_regs" where
  "md5_compress r data =
     (let X = md5_X data
      in md5_add_regs r (md5_SETs md5_I X md5_round4 (md5_SETs md5_H X md5_round3
           (md5_SETs md5_G X md5_round2 (md5_SETs md5_F X md5_round1 r)))))"

definition md5_process :: "md5_state \<Rightarrow> byte list \<Rightarrow> md5_state" where
  "md5_process pms data = pms\<lparr>abcd := md5_compress (abcd pms) data\<rparr>"

definition md5_IV :: md5_regs where
  "md5_IV = (0x67452301, T_MASK XOR 0x10325476, T_MASK XOR 0x67452301, 0x10325476)"

text \<open>Callers clear the whole structure with memset before \<open>md5_init\<close>; \<open>pms\<close> is that structure.\<close>

definition md5_init :: "md5_state \<Rightarrow> md5_state" where
  "md5_init pms = pms\<lparr>count0 := 0, count1 := 0, abcd := md5_IV\<rparr>"

definition md5_zero :: md5_state where
  "md5_zero = \<lparr>count0 = 0, count1 = 0, abcd = (0, 0, 0, 0), md5_buf = replicate 64 0\<rparr>"

function md5_blocks :: "md5_state \<Rightarrow> byte list \<Rightarrow> md5_state \<times> byte list" where
  "md5_blocks pms p =
     (if 64 \<le> length p then md5_blocks (md5_process pms (take 64 p)) (drop 64 p) else (pms, p))"
  by pat_completeness auto
termination
  by (relation "measure (\<lambda>(s, p). length p)") auto

declare md5_blocks.simps [simp del]

definition md5_count_add :: "md5_state \<Rightarrow> nat \<Rightarrow> md5_state" where
  "md5_count_add pms nbytes =
     (let nbits = word_of_nat (nbytes * 8) :: u32;
          c1 = count1 pms + word_of_nat (nbytes div 2 ^ 29);
          c0 = count0 pms + nbits
      in pms\<lparr>count0 := c0, count1 := (if c0 < nbits then c1 + 1 else c1)\<rparr>)"

definition md5_rest :: "md5_state \<Rightarrow> byte list \<Rightarrow> md5_state" where
  "md5_rest pms p =
     (let (pms', left) = md5_blocks pms p
      in if left \<noteq> [] then pms'\<lparr>md5_buf := put_at 0 left (md5_buf pms')\<rparr> else pms')"

definition md5_append :: "md5_state \<Rightarrow> byte list \<Rightarrow> md5_state" where
  "md5_append pms data =
     (let nbytes = length data;
          offset = unat (drop_bit 3 (count0 pms) AND 63)
      in if nbytes = 0 then pms
         else let pms1 = md5_count_add pms nbytes
              in if offset \<noteq> 0
                 then let copy = (if offset + nbytes > 64 then 64 - offset else nbytes);
                          pms2 = pms1\<lparr>md5_buf := put_at offset (take copy data) (md5_buf pms1)\<rparr>
                      in if offset + copy < 64 then pms2
                         else md5_rest (md5_process pms2 (md5_buf pms2)) (drop copy data)
                 else md5_rest pms1 data)"

definition md5_pad :: "byte list" where
  "md5_pad = 0x80 # replicate 63 0"

definition md5_digest_bytes :: "md5_regs \<Rightarrow> byte list" where
  "md5_digest_bytes = (\<lambda>(a, b, c, d). le32 a @ le32 b @ le32 c @ le32 d)"

definition md5_finish :: "md5_state \<Rightarrow> byte list" where
  "md5_finish pms =
     (let data = le32 (count0 pms) @ le32 (count1 pms);
          pms1 = md5_append pms (take (unat ((55 - drop_bit 3 (count0 pms)) AND 63) + 1) md5_pad);
          pms2 = md5_append pms1 data
      in md5_digest_bytes (abcd pms2))"

section \<open>Reference: RFC 1321\<close>

definition rfc_K :: "u32 list" where
  "rfc_K = [
     0xd76aa478, 0xe8c7b756, 0x242070db, 0xc1bdceee, 0xf57c0faf, 0x4787c62a, 0xa8304613, 0xfd469501,
     0x698098d8, 0x8b44f7af, 0xffff5bb1, 0x895cd7be, 0x6b901122, 0xfd987193, 0xa679438e, 0x49b40821,
     0xf61e2562, 0xc040b340, 0x265e5a51, 0xe9b6c7aa, 0xd62f105d, 0x02441453, 0xd8a1e681, 0xe7d3fbc8,
     0x21e1cde6, 0xc33707d6, 0xf4d50d87, 0x455a14ed, 0xa9e3e905, 0xfcefa3f8, 0x676f02d9, 0x8d2a4c8a,
     0xfffa3942, 0x8771f681, 0x6d9d6122, 0xfde5380c, 0xa4beea44, 0x4bdecfa9, 0xf6bb4b60, 0xbebfbc70,
     0x289b7ec6, 0xeaa127fa, 0xd4ef3085, 0x04881d05, 0xd9d4d039, 0xe6db99e5, 0x1fa27cf8, 0xc4ac5665,
     0xf4292244, 0x432aff97, 0xab9423a7, 0xfc93a039, 0x655b59c3, 0x8f0ccc92, 0xffeff47d, 0x85845dd1,
     0x6fa87e4f, 0xfe2ce6e0, 0xa3014314, 0x4e0811a1, 0xf7537e82, 0xbd3af235, 0x2ad7d2bb, 0xeb86d391]"

definition rfc_f :: "nat \<Rightarrow> u32 \<Rightarrow> u32 \<Rightarrow> u32 \<Rightarrow> u32" where
  "rfc_f i = (if i < 16 then md5_F else if i < 32 then md5_G else if i < 48 then md5_H else md5_I)"

definition rfc_g :: "nat \<Rightarrow> nat" where
  "rfc_g i = (if i < 16 then i else if i < 32 then (5 * i + 1) mod 16
     else if i < 48 then (3 * i + 5) mod 16 else (7 * i) mod 16)"

definition rfc_s :: "nat \<Rightarrow> nat" where
  "rfc_s i = [[7, 12, 17, 22], [5, 9, 14, 20], [4, 11, 16, 23], [6, 10, 15, 21]] ! (i div 16) ! (i mod 4)"

definition rfc_step :: "u32 list \<Rightarrow> nat \<Rightarrow> md5_regs \<Rightarrow> md5_regs" where
  "rfc_step X i = (\<lambda>(a, b, c, d).
     (d, b + ROTATE_LEFT (a + rfc_f i b c d + rfc_K ! i + X ! rfc_g i) (rfc_s i), b, c))"

definition rfc_compress :: "md5_regs \<Rightarrow> byte list \<Rightarrow> md5_regs" where
  "rfc_compress r block = md5_add_regs r (fold (rfc_step (md5_X block)) [0..<64] r)"

function rfc_absorb :: "md5_regs \<Rightarrow> byte list \<Rightarrow> md5_regs" where
  "rfc_absorb r m = (if 64 \<le> length m then rfc_absorb (rfc_compress r (take 64 m)) (drop 64 m) else r)"
  by pat_completeness auto
termination
  by (relation "measure (\<lambda>(r, p). length p)") auto

declare rfc_absorb.simps [simp del]

definition rfc_length :: "nat \<Rightarrow> byte list" where
  "rfc_length n = le32 (word_of_nat (8 * n)) @ le32 (word_of_nat (8 * n div 2 ^ 32))"

definition rfc_padded :: "byte list \<Rightarrow> byte list" where
  "rfc_padded m = m @ 0x80 # replicate ((119 - length m mod 64) mod 64) 0 @ rfc_length (length m)"

definition rfc_md5 :: "byte list \<Rightarrow> byte list" where
  "rfc_md5 m = md5_digest_bytes (rfc_absorb (0x67452301, 0xefcdab89, 0x98badcfe, 0x10325476) (rfc_padded m))"

section \<open>The unrolled rounds are the loop of the RFC\<close>

lemma md5_T_rfc: "md5_T = rfc_K"
  by (simp add: md5_T_def rfc_K_def T_MASK_def)

definition rfc_row :: "nat \<Rightarrow> nat \<times> nat \<times> nat" where
  "rfc_row i = (rfc_g i, rfc_s i, Suc i)"

lemma md5_SET_rfc:
  "rfc_f i = f \<Longrightarrow> rfc_step X i (a, b, c, d) = (d, md5_SET f X a b c d (rfc_row i), b, c)"
  by (simp add: rfc_step_def md5_SET_def rfc_row_def Let_def md5_T_rfc ac_simps)

lemma md5_SETs_rfc:
  "(\<forall>j. i \<le> j \<and> j < i + 4 * n \<longrightarrow> rfc_f j = f) \<Longrightarrow>
     md5_SETs f X (map rfc_row [i..<i + 4 * n]) r = fold (rfc_step X) [i..<i + 4 * n] r"
proof (induction n arbitrary: i r)
  case 0
  then show ?case by simp
next
  case (Suc n)
  obtain a b c d where r: "r = (a, b, c, d)" by (cases r)
  have l: "[i..<i + 4 * Suc n] = i # Suc i # Suc (Suc i) # Suc (Suc (Suc i)) # [i + 4..<i + 4 + 4 * n]"
    by (simp add: upt_conv_Cons numeral_eq_Suc)
  have f: "rfc_f i = f" "rfc_f (Suc i) = f" "rfc_f (Suc (Suc i)) = f" "rfc_f (Suc (Suc (Suc i))) = f"
    using Suc.prems by auto
  have IH: "\<And>r. md5_SETs f X (map rfc_row [i + 4..<i + 4 + 4 * n]) r = fold (rfc_step X) [i + 4..<i + 4 + 4 * n] r"
    using Suc.prems by (intro Suc.IH) auto
  show ?case
    unfolding l r by (simp add: md5_SET_rfc [OF f(1)] md5_SET_rfc [OF f(2)] md5_SET_rfc [OF f(3)]
        md5_SET_rfc [OF f(4)] Let_def IH)
qed

lemma md5_rounds_rows:
  "md5_round1 = map rfc_row [0..<0 + 4 * 4]" "md5_round2 = map rfc_row [16..<16 + 4 * 4]"
  "md5_round3 = map rfc_row [32..<32 + 4 * 4]" "md5_round4 = map rfc_row [48..<48 + 4 * 4]"
  by (simp_all add: md5_round1_def md5_round2_def md5_round3_def md5_round4_def
      upt_rec rfc_row_def rfc_g_def rfc_s_def)

lemma md5_compress_rfc: "md5_compress r block = rfc_compress r block"
proof -
  let ?X = "md5_X block"
  have "md5_SETs md5_F ?X md5_round1 r = fold (rfc_step ?X) [0..<16] r" for r
    unfolding md5_rounds_rows by (subst md5_SETs_rfc) (simp_all add: rfc_f_def)
  moreover have "md5_SETs md5_G ?X md5_round2 r = fold (rfc_step ?X) [16..<32] r" for r
    unfolding md5_rounds_rows by (subst md5_SETs_rfc) (simp_all add: rfc_f_def)
  moreover have "md5_SETs md5_H ?X md5_round3 r = fold (rfc_step ?X) [32..<48] r" for r
    unfolding md5_rounds_rows by (subst md5_SETs_rfc) (simp_all add: rfc_f_def)
  moreover have "md5_SETs md5_I ?X md5_round4 r = fold (rfc_step ?X) [48..<64] r" for r
    unfolding md5_rounds_rows by (subst md5_SETs_rfc) (simp_all add: rfc_f_def)
  moreover have "[0..<64] = [0..<16] @ [16..<32] @ [32..<48] @ [48..<64 :: nat]"
    by (simp add: upt_rec)
  ultimately show ?thesis
    by (simp only: md5_compress_def rfc_compress_def Let_def fold_append comp_apply)
qed

section \<open>Absorbing a message in pieces\<close>

lemma rfc_absorb_short [simp]: "length m < 64 \<Longrightarrow> rfc_absorb r m = r"
  by (subst rfc_absorb.simps) simp

lemma rfc_absorb_block: "length b = 64 \<Longrightarrow> rfc_absorb r (b @ m) = rfc_absorb (rfc_compress r b) m"
  by (subst rfc_absorb.simps) simp

lemma rfc_absorb_append:
  "length m mod 64 = 0 \<Longrightarrow> rfc_absorb r (m @ d) = rfc_absorb (rfc_absorb r m) d"
proof (induction r m rule: rfc_absorb.induct)
  case (1 r m)
  show ?case
  proof (cases "64 \<le> length m")
    case True
    then have m: "m = take 64 m @ drop 64 m" and l: "length (take 64 m) = 64" by simp_all
    have "rfc_absorb r (m @ d) = rfc_absorb (rfc_compress r (take 64 m)) (drop 64 m @ d)"
      using rfc_absorb_block [OF l, of r "drop 64 m @ d"] by (metis append.assoc append_take_drop_id)
    also have "\<dots> = rfc_absorb (rfc_absorb (rfc_compress r (take 64 m)) (drop 64 m)) d"
      using 1 True by (simp add: le_mod_geq)
    also have "\<dots> = rfc_absorb (rfc_absorb r m) d"
      using rfc_absorb_block [OF l, of r "drop 64 m"] by simp
    finally show ?thesis .
  next
    case False
    with 1(2) have "m = []" by simp
    then show ?thesis by simp
  qed
qed

text \<open>The tail that does not fill a block, and the blocks before it.\<close>

abbreviation full_len :: "byte list \<Rightarrow> nat" where
  "full_len m \<equiv> length m div 64 * 64"

lemma rfc_absorb_tail: "rfc_absorb r m = rfc_absorb r (take (full_len m) m)"
proof -
  have "length (take (full_len m) m) mod 64 = 0" by (simp add: min_absorb2)
  then have "rfc_absorb r (take (full_len m) m @ drop (full_len m) m)
      = rfc_absorb (rfc_absorb r (take (full_len m) m)) (drop (full_len m) m)"
    by (rule rfc_absorb_append)
  moreover have "length (drop (full_len m) m) < 64"
    by (simp add: minus_div_mult_eq_mod)
  ultimately show ?thesis by simp
qed

lemma md5_blocks_spec:
  "md5_blocks pms p = (pms\<lparr>abcd := rfc_absorb (abcd pms) p\<rparr>, drop (full_len p) p)"
proof (induction pms p rule: md5_blocks.induct)
  case (1 pms p)
  show ?case
  proof (cases "64 \<le> length p")
    case True
    then have l: "length (take 64 p) = 64" by simp
    have "rfc_absorb (abcd pms) p = rfc_absorb (md5_compress (abcd pms) (take 64 p)) (drop 64 p)"
      using rfc_absorb_block [OF l, of "abcd pms" "drop 64 p"] by (simp add: md5_compress_rfc)
    moreover have "full_len p = 64 + full_len (drop 64 p)"
      using True by (simp add: le_div_geq)
    ultimately show ?thesis
      using 1 True by (subst md5_blocks.simps) (simp add: md5_process_def add.commute)
  next
    case False
    then show ?thesis by (subst md5_blocks.simps) simp
  qed
qed

section \<open>The bit counter\<close>

definition md5_bits :: "md5_state \<Rightarrow> nat" where
  "md5_bits s = unat (count0 s) + 2 ^ 32 * unat (count1 s)"

lemma unat_u32_less [simp]: "unat (w :: u32) < 4294967296"
  using unsigned_less [of w] by simp

lemma low_plus_high:
  fixes b :: nat
  assumes "s < b"
  shows "s + b * (x mod b) = (s + b * x) mod (b * b)"
  using assms by (simp add: mod_mult2_eq)

lemma carry_split:
  fixes c0 c1 nb q :: nat
  assumes "c0 < 2 ^ 32" and "nb < 2 ^ 32"
  shows "(c0 + nb) mod 2 ^ 32 + 2 ^ 32 * ((c1 + q + (if (c0 + nb) mod 2 ^ 32 < nb then 1 else 0)) mod 2 ^ 32)
    = (c0 + 2 ^ 32 * c1 + (nb + 2 ^ 32 * q)) mod 2 ^ 64"
proof -
  let ?s = "(c0 + nb) mod 2 ^ 32"
  let ?k = "if ?s < nb then 1 else 0 :: nat"
  have carry: "c0 + nb = ?s + 2 ^ 32 * ?k"
  proof (cases "c0 + nb < 2 ^ 32")
    case True
    then show ?thesis by simp
  next
    case False
    then have "?s = c0 + nb - 2 ^ 32" using assms by (simp add: mod_if)
    with False assms show ?thesis by auto
  qed
  have "?s + 2 ^ 32 * ((c1 + q + ?k) mod 2 ^ 32) = (?s + 2 ^ 32 * (c1 + q + ?k)) mod (2 ^ 32 * 2 ^ 32)"
    by (rule low_plus_high) simp
  also have "?s + 2 ^ 32 * (c1 + q + ?k) = c0 + 2 ^ 32 * c1 + (nb + 2 ^ 32 * q)"
    using carry by (simp add: algebra_simps)
  finally show ?thesis by simp
qed

lemma md5_bits_count_add: "md5_bits (md5_count_add s n) = (md5_bits s + 8 * n) mod 2 ^ 64"
proof -
  let ?nb = "8 * n mod 2 ^ 32"
  have nb: "unat (word_of_nat (n * 8) :: u32) = ?nb"
    by (simp only: unat_of_nat) (simp add: mult.commute)
  have q: "8 * n = ?nb + 2 ^ 32 * (n div 2 ^ 29)"
  proof -
    have "8 * n div 2 ^ 32 = n div 2 ^ 29" by simp
    then show ?thesis using mod_mult_div_eq [of "8 * n" "2 ^ 32"] by simp
  qed
  have c0: "unat (count0 s + word_of_nat (n * 8)) = (unat (count0 s) + ?nb) mod 2 ^ 32"
    by (simp only: unat_word_ariths nb) simp
  have less: "count0 s + word_of_nat (n * 8) < word_of_nat (n * 8)
      \<longleftrightarrow> (unat (count0 s) + ?nb) mod 2 ^ 32 < ?nb"
    by (simp only: word_less_nat_alt c0 nb)
  have c1: "unat (count1 s + word_of_nat (n div 2 ^ 29) + (if b then 1 else 0))
      = (unat (count1 s) + n div 2 ^ 29 + (if b then 1 else 0)) mod 2 ^ 32" for b
    by (simp add: unat_word_ariths unat_of_nat mod_simps)
  have "md5_bits (md5_count_add s n) = (unat (count0 s) + ?nb) mod 2 ^ 32 + 2 ^ 32 *
      ((unat (count1 s) + n div 2 ^ 29 + (if (unat (count0 s) + ?nb) mod 2 ^ 32 < ?nb then 1 else 0)) mod 2 ^ 32)"
    using c0 less c1 [of True] c1 [of False]
    by (simp add: md5_bits_def md5_count_add_def Let_def)
  also have "\<dots> = (unat (count0 s) + 2 ^ 32 * unat (count1 s) + (?nb + 2 ^ 32 * (n div 2 ^ 29))) mod 2 ^ 64"
    by (rule carry_split) simp_all
  finally show ?thesis using q by (simp add: md5_bits_def)
qed

lemma md5_count0_len:
  "md5_bits s = 8 * n mod 2 ^ 64 \<Longrightarrow> unat (count0 s) = 8 * n mod 2 ^ 32"
proof -
  assume a: "md5_bits s = 8 * n mod 2 ^ 64"
  have "unat (count0 s) = md5_bits s mod 2 ^ 32" by (simp add: md5_bits_def)
  also have "\<dots> = 8 * n mod 2 ^ 32" unfolding a by (simp add: mod_mod_cancel)
  finally show ?thesis .
qed

lemma md5_count1_len:
  "md5_bits s = 8 * n mod 2 ^ 64 \<Longrightarrow> unat (count1 s) = 8 * n div 2 ^ 32 mod 2 ^ 32"
proof -
  assume a: "md5_bits s = 8 * n mod 2 ^ 64"
  have "unat (count1 s) = md5_bits s div 2 ^ 32" by (simp add: md5_bits_def)
  also have "\<dots> = 8 * n div 2 ^ 32 mod 2 ^ 32" unfolding a using div_exp_mod_exp_eq [of "8 * n" 32 32] by simp
  finally show ?thesis .
qed

lemma unat_and_63: "unat ((w :: u32) AND 63) = unat w mod 64"
proof -
  have "w AND 63 = take_bit 6 w" by (simp add: take_bit_eq_mask mask_eq_exp_minus_1)
  then show ?thesis by (simp add: unsigned_take_bit_eq) (simp add: take_bit_eq_mod)
qed

lemma unat_drop_3: "unat (drop_bit 3 (w :: u32)) = unat w div 8"
  by (simp add: unat_drop_bit_eq) (simp add: drop_bit_eq_div)

lemma eight_div_mod: "8 * n mod 2 ^ 32 div 8 = n mod (2 ^ 29 :: nat)"
proof -
  have "8 * n mod (8 * 2 ^ 29) = 8 * (n mod 2 ^ 29)" by (rule mult_mod_right [symmetric])
  then show ?thesis by simp
qed

lemma md5_offset:
  "md5_bits s = 8 * n mod 2 ^ 64 \<Longrightarrow> unat (drop_bit 3 (count0 s) AND 63) = n mod 64"
proof -
  assume "md5_bits s = 8 * n mod 2 ^ 64"
  then have "unat (drop_bit 3 (count0 s)) = n mod 2 ^ 29"
    using eight_div_mod [of n] by (simp add: unat_drop_3 md5_count0_len)
  then show ?thesis by (simp add: unat_and_63 mod_mod_cancel)
qed

lemma int_and_63_diff: "int (unat ((55 - (x :: u32)) AND 63)) = (55 - int (unat x)) mod 64"
proof -
  have "int (unat ((55 - x) AND 63)) = int (unat (55 - x)) mod 64"
    by (simp add: unat_and_63 zmod_int)
  also have "int (unat (55 - x)) = (55 - int (unat x)) mod 2 ^ 32"
    using uint_word_ariths(2) [of 55 x] by simp
  finally show ?thesis by (simp add: mod_mod_cancel)
qed

lemma pad_arith: "(55 - int (n mod 2 ^ 29)) mod 64 = int ((119 - n mod 64) mod 64)"
proof -
  have a: "int (n mod 2 ^ 29) mod 64 = int n mod 64" by (simp add: zmod_int mod_mod_cancel)
  have b: "(55 - int (n mod 2 ^ 29)) mod 64 = (55 - int n mod 64) mod 64"
    by (subst mod_diff_right_eq [symmetric]) (simp only: a)
  have c: "(55 - int n mod 64) mod 64 = (119 - int n mod 64) mod 64"
    using mod_add_self2 [of "55 - int n mod 64" 64] by simp
  have d: "119 - int n mod 64 = int (119 - n mod 64)"
    using mod_less_divisor [of 64 n] by (simp add: of_nat_diff zmod_int)
  show ?thesis unfolding b c d by (simp only: of_nat_mod of_nat_numeral)
qed

lemma md5_padlen:
  assumes "md5_bits s = 8 * n mod 2 ^ 64"
  shows "unat ((55 - drop_bit 3 (count0 s)) AND 63) = (119 - n mod 64) mod 64"
proof -
  have "unat (drop_bit 3 (count0 s)) = n mod 2 ^ 29"
    by (simp only: unat_drop_3 md5_count0_len [OF assms] eight_div_mod)
  then have "int (unat ((55 - drop_bit 3 (count0 s)) AND 63)) = (55 - int (n mod 2 ^ 29)) mod 64"
    by (simp only: int_and_63_diff)
  then show ?thesis by (simp only: pad_arith of_nat_eq_iff)
qed

section \<open>What a state stands for\<close>

text \<open>
  The state after a message \<open>m\<close>: the registers have absorbed its full blocks, the buffer
  starts with the rest, the counters hold its length in bits modulo \<open>2 ^ 64\<close>.
\<close>

definition md5_rep :: "md5_state \<Rightarrow> byte list \<Rightarrow> bool" where
  "md5_rep s m \<longleftrightarrow> length (md5_buf s) = 64 \<and> md5_bits s = 8 * length m mod 2 ^ 64
     \<and> abcd s = rfc_absorb md5_IV m \<and> take (length m mod 64) (md5_buf s) = drop (full_len m) m"

lemma md5_rep_init: "length (md5_buf s) = 64 \<Longrightarrow> md5_rep (md5_init s) []"
  by (simp add: md5_rep_def md5_init_def md5_bits_def)

lemma md5_bits_frame [simp]:
  "md5_bits (s\<lparr>abcd := r\<rparr>) = md5_bits s" "md5_bits (s\<lparr>md5_buf := b\<rparr>) = md5_bits s"
  by (simp_all add: md5_bits_def)

lemma md5_count_add_frame [simp]:
  "abcd (md5_count_add s n) = abcd s" "md5_buf (md5_count_add s n) = md5_buf s"
  by (simp_all add: md5_count_add_def Let_def)

lemma md5_rest_spec:
  "length (md5_buf s) = 64 \<Longrightarrow> md5_rest s p = s\<lparr>abcd := rfc_absorb (abcd s) p, md5_buf := md5_buf (md5_rest s p)\<rparr>
     \<and> length (md5_buf (md5_rest s p)) = 64
     \<and> take (length p mod 64) (md5_buf (md5_rest s p)) = drop (full_len p) p"
proof -
  assume bl: "length (md5_buf s) = 64"
  have tl: "length (drop (full_len p) p) = length p mod 64" by (simp add: minus_div_mult_eq_mod)
  show ?thesis
  proof (cases "drop (full_len p) p = []")
    case True
    with tl have "length p mod 64 = 0" by (metis list.size(3))
    with True bl show ?thesis by (simp add: md5_rest_def md5_blocks_spec)
  next
    case False
    have "length (drop (full_len p) p) \<le> 64" using tl mod_less_divisor [of 64 "length p"] by linarith
    then show ?thesis
      using False bl tl take_put_at [of 0 "drop (full_len p) p" "md5_buf s" "length p mod 64"]
      by (simp add: md5_rest_def md5_blocks_spec del: length_drop)
  qed
qed

text \<open>Appending after a message that ends on a block boundary.\<close>

lemma md5_rest_rep:
  assumes "length (md5_buf s) = 64" and "length m mod 64 = 0" and "abcd s = rfc_absorb md5_IV m"
    and "md5_bits s = 8 * length (m @ p) mod 2 ^ 64"
  shows "md5_rep (md5_rest s p) (m @ p)"
proof -
  have tail: "drop (full_len (m @ p)) (m @ p) = drop (full_len p) p"
  proof -
    from assms(2) obtain k where k: "length m = 64 * k" by auto
    then have "full_len (m @ p) = length m + full_len p" by simp
    then show ?thesis by simp
  qed
  have len: "length (m @ p) mod 64 = length p mod 64"
    using assms(2) by (metis length_append mod_add_left_eq plus_nat.add_0)
  from md5_rest_spec [OF assms(1), of p] obtain b where
    "md5_rest s p = s\<lparr>abcd := rfc_absorb (abcd s) p, md5_buf := b\<rparr>" "length b = 64"
    "take (length p mod 64) b = drop (full_len p) p" by metis
  then show ?thesis
    using assms tail len by (simp add: md5_rep_def rfc_absorb_append)
qed

text \<open>The three ways through \<open>md5_append\<close>, by the offset \<open>o\<close> in the buffer.\<close>

lemma md5_append_aligned:
  "unat (drop_bit 3 (count0 s) AND 63) = 0 \<Longrightarrow> d \<noteq> [] \<Longrightarrow>
     md5_append s d = md5_rest (md5_count_add s (length d)) d"
  by (simp add: md5_append_def Let_def)

lemma md5_append_partial:
  "unat (drop_bit 3 (count0 s) AND 63) = n \<Longrightarrow> n \<noteq> 0 \<Longrightarrow> d \<noteq> [] \<Longrightarrow> n + length d < 64 \<Longrightarrow>
     md5_append s d = (md5_count_add s (length d))\<lparr>md5_buf := put_at n d (md5_buf s)\<rparr>"
  by (simp add: md5_append_def Let_def)

lemma md5_append_fill:
  "unat (drop_bit 3 (count0 s) AND 63) = n \<Longrightarrow> n \<noteq> 0 \<Longrightarrow> n < 64 \<Longrightarrow> 64 \<le> n + length d \<Longrightarrow>
     md5_append s d = (let b = put_at n (take (64 - n) d) (md5_buf s)
       in md5_rest (md5_process ((md5_count_add s (length d))\<lparr>md5_buf := b\<rparr>) b) (drop (64 - n) d))"
proof -
  assume a: "unat (drop_bit 3 (count0 s) AND 63) = n" "n \<noteq> 0" "n < 64" "64 \<le> n + length d"
  then have "(if n + length d > 64 then 64 - n else length d) = 64 - n" "length d \<noteq> 0" "\<not> n + (64 - n) < 64"
    by auto
  with a show ?thesis by (simp add: md5_append_def Let_def split del: if_split)
qed

lemma md5_rep_partial:
  assumes "length m mod 64 + length d < 64" and "length b = 64"
    and "take (length m mod 64) b = drop (full_len m) m"
    and "abcd s = rfc_absorb md5_IV m" and "md5_bits s = 8 * length (m @ d) mod 2 ^ 64"
  shows "md5_rep (s\<lparr>md5_buf := put_at (length m mod 64) d b\<rparr>) (m @ d)"
proof -
  have q: "length (m @ d) = 64 * (length m div 64) + (length m mod 64 + length d)" by simp
  have dm: "length (m @ d) div 64 = length m div 64" "length (m @ d) mod 64 = length m mod 64 + length d"
    using assms(1) by (simp_all only: q div_mult_self4 mod_mult_self4) simp_all
  have "rfc_absorb md5_IV (m @ d) = rfc_absorb md5_IV m"
    using rfc_absorb_tail [of md5_IV "m @ d"] rfc_absorb_tail [of md5_IV m] by (simp only: dm) simp
  moreover have "take (length m mod 64 + length d) (put_at (length m mod 64) d b) = drop (full_len m) m @ d"
    using assms(1-3) by (subst take_put_at) simp_all
  ultimately show ?thesis
    using assms dm by (simp add: md5_rep_def)
qed

lemma md5_rep_fill:
  assumes n: "n = length m mod 64" "n < 64" and ld: "64 \<le> n + length d" and bl: "length b = 64"
    and buf: "take n b = drop (full_len m) m"
    and regs: "abcd s = rfc_absorb md5_IV m" and bits: "md5_bits s = 8 * length (m @ d) mod 2 ^ 64"
    and b': "b' = put_at n (take (64 - n) d) b"
  shows "md5_rep (md5_rest (md5_process (s\<lparr>md5_buf := b'\<rparr>) b') (drop (64 - n) d)) (m @ d)"
proof -
  let ?m = "m @ take (64 - n) d"
  have bl': "length b' = 64" using bl n ld by (simp add: b')
  have bb: "b' = drop (full_len m) m @ take (64 - n) d"
    using take_put_at [of n "take (64 - n) d" b "64 - n"] bl bl' ld n(2) buf by (simp add: b')
  have al: "length ?m mod 64 = 0"
  proof -
    have "length ?m = 64 * (length m div 64) + n + (64 - n)" using n ld by simp
    then show ?thesis using n(2) by simp
  qed
  have "rfc_absorb md5_IV ?m = rfc_absorb md5_IV (take (full_len m) m @ b')"
    using bb by (metis append.assoc append_take_drop_id)
  also have "\<dots> = rfc_absorb (rfc_absorb md5_IV (take (full_len m) m)) b'"
    by (rule rfc_absorb_append) (simp add: min_absorb2)
  also have "\<dots> = rfc_compress (rfc_absorb md5_IV m) b'"
    using rfc_absorb_block [OF bl', of _ "[]"] by (simp flip: rfc_absorb_tail)
  finally have "abcd (md5_process (s\<lparr>md5_buf := b'\<rparr>) b') = rfc_absorb md5_IV ?m"
    by (simp add: md5_process_def md5_compress_rfc regs)
  then have "md5_rep (md5_rest (md5_process (s\<lparr>md5_buf := b'\<rparr>) b') (drop (64 - n) d)) (?m @ drop (64 - n) d)"
    using bl' al bits by (intro md5_rest_rep) (simp_all add: md5_process_def)
  then show ?thesis by simp
qed

lemma md5_rep_append:
  assumes rep: "md5_rep s m"
  shows "md5_rep (md5_append s d) (m @ d)"
proof (cases "d = []")
  case True
  then show ?thesis using rep by (simp add: md5_append_def Let_def)
next
  case False
  let ?o = "length m mod 64" and ?s = "md5_count_add s (length d)"
  from rep have bl: "length (md5_buf s) = 64" and bits: "md5_bits s = 8 * length m mod 2 ^ 64"
    and regs: "abcd s = rfc_absorb md5_IV m" and buf: "take ?o (md5_buf s) = drop (full_len m) m"
    by (auto simp: md5_rep_def)
  have off: "unat (drop_bit 3 (count0 s) AND 63) = ?o" using bits by (rule md5_offset)
  have bits': "md5_bits ?s = 8 * length (m @ d) mod 2 ^ 64"
    using bits by (simp only: md5_bits_count_add mod_add_left_eq length_append distrib_left)
  consider "?o = 0" | "?o \<noteq> 0" "?o + length d < 64" | "?o \<noteq> 0" "64 \<le> ?o + length d" by linarith
  then show ?thesis
  proof cases
    case 1
    then have "md5_append s d = md5_rest ?s d" using off False by (intro md5_append_aligned) simp_all
    then show ?thesis using md5_rest_rep [of ?s m d] bl 1 regs bits' by simp
  next
    case 2
    with off False have "md5_append s d = ?s\<lparr>md5_buf := put_at ?o d (md5_buf s)\<rparr>"
      by (intro md5_append_partial) simp_all
    then show ?thesis using md5_rep_partial [OF 2(2) bl buf, of ?s] regs bits' by simp
  next
    case 3
    show ?thesis
      unfolding md5_append_fill [OF off 3(1) _ 3(2), OF mod_less_divisor [OF zero_less_numeral]] Let_def
      by (rule md5_rep_fill) (use bl buf regs bits' 3 in simp_all)
  qed
qed

section \<open>The digest\<close>

lemma word_of_unat_u32: "unat (w :: u32) = n mod 2 ^ 32 \<Longrightarrow> w = word_of_nat n"
  by (rule word_unat_eq_iff [THEN iffD2]) (simp add: unat_of_nat)

lemma md5_length_bytes:
  assumes "md5_bits s = 8 * n mod 2 ^ 64"
  shows "le32 (count0 s) @ le32 (count1 s) = rfc_length n"
  unfolding rfc_length_def
  using word_of_unat_u32 [OF md5_count0_len [OF assms]] word_of_unat_u32 [OF md5_count1_len [OF assms]]
  by simp

lemma md5_pad_take: "z < 64 \<Longrightarrow> take (z + 1) md5_pad = 0x80 # replicate z 0"
  by (simp add: md5_pad_def)

lemma md5_IV_rfc: "md5_IV = (0x67452301, 0xefcdab89, 0x98badcfe, 0x10325476)"
  by (simp add: md5_IV_def T_MASK_def)

lemma md5_rep_finish:
  assumes rep: "md5_rep s m"
  shows "md5_finish s = rfc_md5 m"
proof -
  let ?z = "(119 - length m mod 64) mod 64"
  let ?pad = "take (unat ((55 - drop_bit 3 (count0 s)) AND 63) + 1) md5_pad"
  let ?len = "le32 (count0 s) @ le32 (count1 s)"
  from rep have bits: "md5_bits s = 8 * length m mod 2 ^ 64" by (simp add: md5_rep_def)
  have pad: "?pad = 0x80 # replicate ?z 0"
    unfolding md5_padlen [OF bits] by (rule md5_pad_take) simp
  have "md5_rep (md5_append (md5_append s ?pad) ?len) ((m @ ?pad) @ ?len)"
    by (intro md5_rep_append rep)
  moreover have "(m @ ?pad) @ ?len = rfc_padded m"
    unfolding pad md5_length_bytes [OF bits] by (simp add: rfc_padded_def)
  ultimately have "abcd (md5_append (md5_append s ?pad) ?len) = rfc_absorb md5_IV (rfc_padded m)"
    by (simp add: md5_rep_def)
  then show ?thesis by (simp only: md5_finish_def Let_def rfc_md5_def md5_IV_rfc)
qed

section \<open>Interface: incremental digests\<close>

text \<open>
  What a client of a hash function relies on: a state stands for the text appended so
  far, and finishing it gives the hash of that text. However the text was cut into
  pieces, the result is the hash of their concatenation.
\<close>

locale digest =
  fixes init :: 's
    and append :: "'s \<Rightarrow> 'b list \<Rightarrow> 's"
    and finish :: "'s \<Rightarrow> 'd"
    and rep :: "'s \<Rightarrow> 'b list \<Rightarrow> bool"
    and hash :: "'b list \<Rightarrow> 'd"
  assumes rep_init: "rep init []"
    and rep_append: "rep s m \<Longrightarrow> rep (append s d) (m @ d)"
    and rep_finish: "rep s m \<Longrightarrow> finish s = hash m"
begin

lemma rep_foldl: "rep s m \<Longrightarrow> rep (foldl append s ds) (m @ concat ds)"
proof (induction ds arbitrary: s m)
  case Nil
  then show ?case by simp
next
  case (Cons d ds)
  then have "rep (foldl append (append s d) ds) ((m @ d) @ concat ds)" by (intro Cons.IH rep_append)
  then show ?case by simp
qed

lemma finish_foldl: "finish (foldl append init ds) = hash (concat ds)"
  using rep_foldl [OF rep_init] rep_finish by simp

end

interpretation md5: digest "md5_init md5_zero" md5_append md5_finish md5_rep rfc_md5
  by unfold_locales (simp_all add: md5_rep_init md5_rep_append md5_rep_finish md5_zero_def)

lemma length_rfc_md5 [simp]: "length (rfc_md5 m) = 16"
  by (simp add: rfc_md5_def md5_digest_bytes_def split: prod.splits)

section \<open>Properties\<close>

text \<open>
  C25: the incremental MD5 computes the MD5 of RFC 1321. For every way of cutting a
  message into pieces, initialising, appending the pieces one by one and finishing gives
  the digest of their concatenation: the unrolled rounds, the partial-block buffer, the
  two-word bit counter with its carry, and the padding agree with the reference.
\<close>

theorem md5_incremental_correct:
  "md5_finish (foldl md5_append (md5_init md5_zero) pieces) = rfc_md5 (concat pieces)"
  by (rule md5.finish_foldl)

text \<open>
  the 64 unrolled statements of md5_process are the 64 steps of the reference loop:
  same message word, rotation, constant and round function at every step, on every block
  and from every register contents.
\<close>

theorem md5_process_is_rfc_loop:
  "abcd (md5_process pms block) =
     md5_add_regs (abcd pms) (fold (rfc_step (md5_X block)) [0..<64] (abcd pms))
   \<and> count0 (md5_process pms block) = count0 pms \<and> count1 (md5_process pms block) = count1 pms
   \<and> md5_buf (md5_process pms block) = md5_buf pms"
  by (simp add: md5_process_def md5_compress_rfc rfc_compress_def)

section \<open>A test vector of the RFC\<close>

definition abc_words :: "u32 list" where
  "abc_words = [0x80636261, 0, 0, 0, 0, 0, 0, 0, 0, 0, 0, 0, 0, 0, 0x18, 0]"

lemma abc_round1: "fold (rfc_step abc_words) [0..<16] (0x67452301, 0xefcdab89, 0x98badcfe, 0x10325476)
    = (0xdda9b9a6, 0x72aff2e0, 0xe396856b, 0xa1051895)"
  by code_simp

lemma abc_round2: "fold (rfc_step abc_words) [16..<32] (0xdda9b9a6, 0x72aff2e0, 0xe396856b, 0xa1051895)
    = (0x790a77fb, 0x726342d3, 0xa62884aa, 0x9f47e4f8)"
  by code_simp

lemma abc_round3: "fold (rfc_step abc_words) [32..<48] (0x790a77fb, 0x726342d3, 0xa62884aa, 0x9f47e4f8)
    = (0x7f2e507b, 0x7beb9700, 0x8fae6399, 0x99d9679d)"
  by code_simp

lemma abc_round4: "fold (rfc_step abc_words) [48..<64] (0x7f2e507b, 0x7beb9700, 0x8fae6399, 0x99d9679d)
    = (0x310ade8f, 0xc08226b3, 0xe484b9d8, 0x624d8cb2)"
  by code_simp

lemma abc_words: "md5_X (rfc_padded [0x61, 0x62, 0x63]) = abc_words"
  by (simp add: rfc_padded_def rfc_length_def le32_def md5_X_def of_le32_def upt_rec abc_words_def nth_append)

text \<open>
  The digest of abc is the one RFC 1321 lists, computed by the incremental code from
  one byte and two bytes.
\<close>

theorem md5_abc:
  "md5_finish (foldl md5_append (md5_init md5_zero) [[0x61], [0x62, 0x63]]) =
     [0x90, 0x01, 0x50, 0x98, 0x3c, 0xd2, 0x4f, 0xb0, 0xd6, 0x96, 0x3f, 0x7d, 0x28, 0xe1, 0x7f, 0x72]"
proof -
  have l: "length (rfc_padded [0x61, 0x62, 0x63]) = 64" by (simp add: rfc_padded_def rfc_length_def)
  have u: "[0..<64] = [0..<16] @ [16..<32] @ [32..<48] @ [48..<64 :: nat]" by (simp add: upt_rec)
  have "fold (rfc_step abc_words) [0..<64] (0x67452301, 0xefcdab89, 0x98badcfe, 0x10325476)
      = (0x310ade8f, 0xc08226b3, 0xe484b9d8, 0x624d8cb2)"
    unfolding u by (simp only: fold_append comp_apply abc_round1 abc_round2 abc_round3 abc_round4)
  moreover have "md5_add_regs (0x67452301, 0xefcdab89, 0x98badcfe, 0x10325476)
      (0x310ade8f, 0xc08226b3, 0xe484b9d8, 0x624d8cb2) = (0x98500190, 0xb04fd23c, 0x7d3f96d6, 0x727fe128)"
    by (simp add: md5_add_regs_def)
  ultimately have "rfc_md5 [0x61, 0x62, 0x63] = md5_digest_bytes (0x98500190, 0xb04fd23c, 0x7d3f96d6, 0x727fe128)"
    using rfc_absorb_block [OF l, of _ "[]"] by (simp only: rfc_md5_def rfc_compress_def abc_words) simp
  then show ?thesis by (simp only: md5.finish_foldl) (simp add: md5_digest_bytes_def le32_def)
qed

end
