(* ===== verification/Intf.thy ===== *)
theory Intf
  imports Helper
begin

text \<open>
  The interface layer of src/plugins/ipmi_intf.c and the structures of
  include/ipmitool/ipmi.h and ipmi_intf.h every transport works on: requests, session
  parameters, the session, the interface. Operations: choice of an interface by name, the
  setters of the session parameters, the bridging level of a message and the largest
  request and response data an interface carries.
\<close>

section \<open>Structures\<close>

text \<open>\<open>rq_netfn\<close> has 6 bits and \<open>rq_lun\<close> 2 bits in C; \<open>data_len\<close> is the length of \<open>rq_data\<close>.\<close>

record ipmi_rq =
  rq_netfn :: byte
  rq_lun :: byte
  rq_cmd :: byte
  rq_target_cmd :: byte
  rq_data :: "byte list"

definition wf_rq :: "ipmi_rq \<Rightarrow> bool" where
  "wf_rq r \<longleftrightarrow> rq_netfn r < 64 \<and> rq_lun r < 4 \<and> length (rq_data r) < 2 ^ 16"

record ipmi_session_params =
  hostname :: "string option"
  username :: "byte list"
  authcode_set :: "byte list"
  authtype_set :: byte
  privlvl :: byte
  cipher_suite_id :: nat
  sol_escape_char :: byte
  password :: bool
  port :: int
  retry :: int
  timeout :: u32
  kg :: "byte list"
  lookupbit :: byte

record sol_data =
  sol_sequence_number :: byte
  sol_last_received_sequence_number :: byte
  sol_last_received_byte_count :: byte

record ipmi_session =
  active :: bool
  session_id :: u32
  in_seq :: u32
  out_seq :: u32
  authcode :: "byte list"
  challenge :: "byte list"
  authtype :: byte
  authstatus :: byte
  s_timeout :: u32
  sol :: sol_data

record ipmi_intf =
  intf_name :: string
  devfile :: "string option"
  fd :: int
  opened :: bool
  abort :: bool
  noanswer :: bool
  manufacturer_id :: u32
  ssn_params :: ipmi_session_params
  session :: "ipmi_session option"
  my_addr :: u32
  target_addr :: u32
  target_channel :: byte
  transit_addr :: u32
  transit_channel :: byte
  max_request_data_size :: u16
  max_response_data_size :: u16

definition IPMI_AUTHCODE_BUFFER_SIZE :: nat where "IPMI_AUTHCODE_BUFFER_SIZE = 20"

definition IPMI_KG_BUFFER_SIZE :: nat where "IPMI_KG_BUFFER_SIZE = 21"

text \<open>The array sizes of the structure, and the final NUL of each array.\<close>

definition wf_params :: "ipmi_session_params \<Rightarrow> bool" where
  "wf_params p \<longleftrightarrow> length (username p) = 17 \<and> username p ! 16 = 0
     \<and> length (authcode_set p) = IPMI_AUTHCODE_BUFFER_SIZE + 1 \<and> authcode_set p ! IPMI_AUTHCODE_BUFFER_SIZE = 0
     \<and> length (kg p) = IPMI_KG_BUFFER_SIZE \<and> kg p ! (IPMI_KG_BUFFER_SIZE - 1) = 0"

text \<open>
  The key array a caller passes has the size of the parameter, and its last byte is NUL:
  src/lib/ipmi_main.c clears it and copies at most one byte less.
\<close>

definition kgkey_ok :: "byte list \<Rightarrow> bool" where
  "kgkey_ok k \<longleftrightarrow> length k = IPMI_KG_BUFFER_SIZE \<and> k ! (IPMI_KG_BUFFER_SIZE - 1) = 0"

section \<open>Choosing an interface\<close>

text \<open>
  The table of compiled-in interfaces and the default name come from the build; each
  interface has an optional setup function, called when the interface is loaded.
\<close>

fun find_intf :: "string \<Rightarrow> ipmi_intf list \<Rightarrow> ipmi_intf option" where
  "find_intf n [] = None"
| "find_intf n (i # is) = (if intf_name i = n then Some i else find_intf n is)"

definition get_default_interface :: "ipmi_intf list \<Rightarrow> string \<Rightarrow> ipmi_intf" where
  "get_default_interface table default_intf_name =
     (case find_intf default_intf_name table of Some i \<Rightarrow> i | None \<Rightarrow> hd table)"

type_synonym intf_setup = "ipmi_intf \<Rightarrow> (ipmi_intf \<Rightarrow> int \<times> ipmi_intf) option"

definition run_setup :: "intf_setup \<Rightarrow> ipmi_intf \<Rightarrow> ipmi_intf option" where
  "run_setup setup i =
     (case setup i of
        None \<Rightarrow> Some i
      | Some f \<Rightarrow> (case f i of (rc, i') \<Rightarrow> if rc < 0 then None else Some i'))"

definition ipmi_intf_load :: "ipmi_intf list \<Rightarrow> string \<Rightarrow> intf_setup \<Rightarrow> string option \<Rightarrow> ipmi_intf option" where
  "ipmi_intf_load table default_intf_name setup name =
     (case name of
        None \<Rightarrow> run_setup setup (get_default_interface table default_intf_name)
      | Some n \<Rightarrow> (case find_intf n table of None \<Rightarrow> None | Some i \<Rightarrow> run_setup setup i))"

section \<open>Session parameters\<close>

definition upd_params :: "(ipmi_session_params \<Rightarrow> ipmi_session_params) \<Rightarrow> ipmi_intf \<Rightarrow> ipmi_intf" where
  "upd_params f intf = intf\<lparr>ssn_params := f (ssn_params intf)\<rparr>"

definition ipmi_intf_session_set_hostname :: "ipmi_intf \<Rightarrow> string option \<Rightarrow> ipmi_intf" where
  "ipmi_intf_session_set_hostname intf h = upd_params (\<lambda>p. p\<lparr>hostname := h\<rparr>) intf"

definition ipmi_intf_session_set_username :: "ipmi_intf \<Rightarrow> byte list option \<Rightarrow> ipmi_intf" where
  "ipmi_intf_session_set_username intf u =
     upd_params (\<lambda>p. let p1 = p\<lparr>username := put_at 0 (replicate 17 0) (username p)\<rparr>
       in case u of None \<Rightarrow> p1
          | Some s \<Rightarrow> p1\<lparr>username := put_at 0 (take (min (length s) 16) s) (username p1)\<rparr>) intf"

definition clear_password :: "ipmi_session_params \<Rightarrow> ipmi_session_params" where
  "clear_password p = p\<lparr>authcode_set := put_at 0 (replicate IPMI_AUTHCODE_BUFFER_SIZE 0) (authcode_set p)\<rparr>"

definition ipmi_intf_session_set_password :: "ipmi_intf \<Rightarrow> byte list option \<Rightarrow> ipmi_intf" where
  "ipmi_intf_session_set_password intf pw =
     upd_params (\<lambda>p. let p1 = clear_password p
       in case pw of None \<Rightarrow> p1\<lparr>password := False\<rparr>
          | Some s \<Rightarrow> p1\<lparr>password := True, authcode_set :=
              put_at 0 (take (min (length s) IPMI_AUTHCODE_BUFFER_SIZE) s) (authcode_set p1)\<rparr>) intf"

definition ipmi_intf_session_set_privlvl :: "ipmi_intf \<Rightarrow> byte \<Rightarrow> ipmi_intf" where
  "ipmi_intf_session_set_privlvl intf level = upd_params (\<lambda>p. p\<lparr>privlvl := level\<rparr>) intf"

definition ipmi_intf_session_set_lookupbit :: "ipmi_intf \<Rightarrow> byte \<Rightarrow> ipmi_intf" where
  "ipmi_intf_session_set_lookupbit intf b = upd_params (\<lambda>p. p\<lparr>lookupbit := b\<rparr>) intf"

definition ipmi_intf_session_set_cipher_suite_id :: "ipmi_intf \<Rightarrow> nat \<Rightarrow> ipmi_intf" where
  "ipmi_intf_session_set_cipher_suite_id intf c = upd_params (\<lambda>p. p\<lparr>cipher_suite_id := c\<rparr>) intf"

definition ipmi_intf_session_set_sol_escape_char :: "ipmi_intf \<Rightarrow> byte \<Rightarrow> ipmi_intf" where
  "ipmi_intf_session_set_sol_escape_char intf c = upd_params (\<lambda>p. p\<lparr>sol_escape_char := c\<rparr>) intf"

definition ipmi_intf_session_set_kgkey :: "ipmi_intf \<Rightarrow> byte list \<Rightarrow> ipmi_intf" where
  "ipmi_intf_session_set_kgkey intf k =
     upd_params (\<lambda>p. p\<lparr>kg := put_at 0 (take IPMI_KG_BUFFER_SIZE k) (kg p)\<rparr>) intf"

definition ipmi_intf_session_set_port :: "ipmi_intf \<Rightarrow> int \<Rightarrow> ipmi_intf" where
  "ipmi_intf_session_set_port intf n = upd_params (\<lambda>p. p\<lparr>port := n\<rparr>) intf"

definition IPMI_SESSION_AUTHTYPE_NONE :: byte where "IPMI_SESSION_AUTHTYPE_NONE = 0"

definition ipmi_intf_session_set_authtype :: "ipmi_intf \<Rightarrow> byte \<Rightarrow> ipmi_intf" where
  "ipmi_intf_session_set_authtype intf t =
     upd_params (\<lambda>p. (if t = IPMI_SESSION_AUTHTYPE_NONE then (clear_password p)\<lparr>password := False\<rparr> else p)
       \<lparr>authtype_set := t\<rparr>) intf"

definition ipmi_intf_session_set_timeout :: "ipmi_intf \<Rightarrow> u32 \<Rightarrow> ipmi_intf" where
  "ipmi_intf_session_set_timeout intf t = upd_params (\<lambda>p. p\<lparr>timeout := t\<rparr>) intf"

definition ipmi_intf_session_set_retry :: "ipmi_intf \<Rightarrow> int \<Rightarrow> ipmi_intf" where
  "ipmi_intf_session_set_retry intf n = upd_params (\<lambda>p. p\<lparr>retry := n\<rparr>) intf"

definition ipmi_intf_session_cleanup :: "ipmi_intf \<Rightarrow> ipmi_intf" where
  "ipmi_intf_session_cleanup intf = (if session intf = None then intf else intf\<lparr>session := None\<rparr>)"

section \<open>Bridging and message sizes\<close>

definition ipmi_intf_get_bridging_level :: "ipmi_intf \<Rightarrow> nat" where
  "ipmi_intf_get_bridging_level intf =
     (if target_addr intf \<noteq> 0 \<and> target_addr intf \<noteq> my_addr intf
      then if transit_addr intf \<noteq> 0
             \<and> (transit_addr intf \<noteq> target_addr intf \<or> transit_channel intf \<noteq> target_channel intf)
           then 2 else 1
      else 0)"

definition IPMI_DEFAULT_PAYLOAD_SIZE :: u16 where "IPMI_DEFAULT_PAYLOAD_SIZE = 25"

text \<open>
  The local variable \<open>size\<close> is an \<open>int16_t\<close>: the same 16 bits, compared as signed. The
  request and the response version differ in the header size added to the default.
\<close>

definition max_data_size :: "u16 \<Rightarrow> nat \<Rightarrow> u16 \<Rightarrow> u16" where
  "max_data_size size0 bridging_level hdr =
     (let size = size0;
          size = (if size = 0
                  then if bridging_level \<noteq> 0 then IPMI_DEFAULT_PAYLOAD_SIZE + hdr else IPMI_DEFAULT_PAYLOAD_SIZE
                  else size);
          size = (if bridging_level \<noteq> 0
                  then let size = size - 8;
                           size = (if sint size > sint IPMI_DEFAULT_PAYLOAD_SIZE then IPMI_DEFAULT_PAYLOAD_SIZE else size)
                       in if bridging_level = 2 then size - 8 else size
                  else size)
      in if sint size < 0 then 0 else size)"

definition ipmi_intf_get_max_request_data_size :: "ipmi_intf \<Rightarrow> u16" where
  "ipmi_intf_get_max_request_data_size intf =
     max_data_size (max_request_data_size intf) (ipmi_intf_get_bridging_level intf) 8"

definition ipmi_intf_get_max_response_data_size :: "ipmi_intf \<Rightarrow> u16" where
  "ipmi_intf_get_max_response_data_size intf =
     max_data_size (max_response_data_size intf) (ipmi_intf_get_bridging_level intf) 7"

text \<open>The optional callback of the interface that stores the size is a parameter.\<close>

definition ipmi_intf_set_max_request_data_size ::
    "(ipmi_intf \<Rightarrow> u16 \<Rightarrow> ipmi_intf) option \<Rightarrow> ipmi_intf \<Rightarrow> u16 \<Rightarrow> ipmi_intf" where
  "ipmi_intf_set_max_request_data_size set_max intf sz =
     (if sz < IPMI_DEFAULT_PAYLOAD_SIZE then intf
      else case set_max of Some f \<Rightarrow> f intf sz | None \<Rightarrow> intf\<lparr>max_request_data_size := sz\<rparr>)"

definition ipmi_intf_set_max_response_data_size ::
    "(ipmi_intf \<Rightarrow> u16 \<Rightarrow> ipmi_intf) option \<Rightarrow> ipmi_intf \<Rightarrow> u16 \<Rightarrow> ipmi_intf" where
  "ipmi_intf_set_max_response_data_size set_max intf sz =
     (if sz < IPMI_DEFAULT_PAYLOAD_SIZE - 1 then intf
      else case set_max of Some f \<Rightarrow> f intf sz | None \<Rightarrow> intf\<lparr>max_response_data_size := sz\<rparr>)"

section \<open>Message sizes\<close>

lemma sint_word16: "- (2 ^ 15) \<le> k \<Longrightarrow> k < 2 ^ 15 \<Longrightarrow> sint (word_of_int k :: u16) = k"
  by (simp add: signed_of_int signed_take_bit_int_eq_self)

lemma bridging_level_le_2 [simp]: "ipmi_intf_get_bridging_level intf \<le> 2"
  by (simp add: ipmi_intf_get_bridging_level_def)

text \<open>The size as a mathematical integer, for sizes in the positive half of \<open>int16_t\<close>.\<close>

definition max_data_size_spec :: "nat \<Rightarrow> nat \<Rightarrow> int \<Rightarrow> int" where
  "max_data_size_spec n b hdr =
     (if b = 0 then if n = 0 then 25 else int n
      else let s = (if n = 0 then 25 + hdr else int n) - 8
           in max 0 (min 25 s - (if b = 2 then 8 else 0)))"

lemma max_data_size_unfold_int:
  assumes "n < 2 ^ 15" and "0 \<le> hdr" and "hdr \<le> 8"
  shows "max_data_size (word_of_int (int n)) b (word_of_int hdr) = word_of_int (max_data_size_spec n b hdr)"
proof -
  let ?s = "if n = 0 then 25 + hdr else int n"
  have n0: "(word_of_int (int n) :: u16) = 0 \<longleftrightarrow> n = 0"
    using assms(1) by (auto simp: word_of_nat_eq_0_iff dest: dvd_imp_le)
  have plus: "(25 :: u16) + word_of_int hdr = word_of_int (25 + hdr)" by simp
  have minus: "(word_of_int k :: u16) - 8 = word_of_int (k - 8)" for k by simp
  have s8: "sint (word_of_int (?s - 8) :: u16) = ?s - 8"
    using assms by (intro sint_word16) auto
  have s16: "sint (word_of_int (min 25 (?s - 8) - 8) :: u16) = min 25 (?s - 8) - 8"
    using assms by (intro sint_word16) auto
  have s8': "sint (word_of_int (min 25 (?s - 8)) :: u16) = min 25 (?s - 8)"
    using assms by (intro sint_word16) auto
  show ?thesis
  proof (cases "b = 0")
    case True
    have "sint (word_of_int (int n) :: u16) = int n" using assms by (intro sint_word16) auto
    with True n0 show ?thesis
      by (simp add: max_data_size_def max_data_size_spec_def IPMI_DEFAULT_PAYLOAD_SIZE_def)
  next
    case False
    have base: "(if (word_of_int (int n) :: u16) = 0 then 25 + word_of_int hdr else word_of_int (int n)) - 8
        = (word_of_int (?s - 8) :: u16)"
      using n0 by (simp only: plus minus if_distrib [of word_of_int] if_distrib [of "\<lambda>x. x - 8"] split: if_splits)
    have clip: "(if sint (word_of_int (?s - 8) :: u16) > 25 then 25 else word_of_int (?s - 8))
        = (word_of_int (min 25 (?s - 8)) :: u16)"
      unfolding s8 by (simp add: min_def)
    have eq: "max_data_size w b h = (let y = (if w = 0 then 25 + h else w) - 8;
          y' = (if sint y > 25 then 25 else y); z = (if b = 2 then y' - 8 else y')
        in if sint z < 0 then 0 else z)" for w h
      using False by (simp add: max_data_size_def IPMI_DEFAULT_PAYLOAD_SIZE_def Let_def)
    have res: "(let z = (if b = 2 then word_of_int (min 25 (?s - 8)) - 8 else word_of_int (min 25 (?s - 8)) :: u16)
        in if sint z < 0 then 0 else z) = word_of_int (max_data_size_spec n b hdr)"
    proof (cases "b = 2")
      case True
      then have "(if b = 2 then word_of_int (min 25 (?s - 8)) - 8 else word_of_int (min 25 (?s - 8)) :: u16)
          = word_of_int (min 25 (?s - 8) - 8)" by (simp only: minus simp_thms if_True)
      then show ?thesis unfolding Let_def
        by (simp only: s16) (auto simp: True max_data_size_spec_def Let_def max_def min_def)
    next
      case b1: False
      then show ?thesis
        unfolding Let_def by (simp only: if_False s8') (auto simp: False max_data_size_spec_def Let_def max_def min_def)
    qed
    show ?thesis
      using res unfolding eq base Let_def clip .
  qed
qed

lemma max_data_size_unat:
  assumes "s < 2 ^ 15" and "0 \<le> hdr" and "hdr \<le> 8"
  shows "uint (max_data_size s b (word_of_int hdr)) = max_data_size_spec (unat s) b hdr"
proof -
  have n: "unat s < 2 ^ 15" using assms(1) by (simp add: word_less_nat_alt)
  have "max_data_size s b (word_of_int hdr) = word_of_int (max_data_size_spec (unat s) b hdr)"
    using max_data_size_unfold_int [OF n assms(2,3), of b] by simp
  moreover have "0 \<le> max_data_size_spec (unat s) b hdr" "max_data_size_spec (unat s) b hdr < 2 ^ 16"
    using n assms(2,3) of_nat_less_iff [of "unat s" "2 ^ 15", where ?'a = int]
    by (auto simp: max_data_size_spec_def Let_def simp del: of_nat_less_iff of_nat_unat)
  ultimately show ?thesis by (simp add: uint_word_of_int)
qed

lemma max_data_size_bridged:
  assumes "s < 2 ^ 15" and "0 \<le> hdr" and "hdr \<le> 8" and "b \<noteq> 0"
  shows "uint (max_data_size s b (word_of_int hdr)) \<le> (if b = 2 then 17 else 25)"
  unfolding max_data_size_unat [OF assms(1-3)] using assms(4) by (auto simp: max_data_size_spec_def Let_def)

section \<open>Session parameters\<close>

lemma wf_params_setters:
  assumes "wf_params (ssn_params intf)"
  shows "wf_params (ssn_params (ipmi_intf_session_set_hostname intf h))"
    and "wf_params (ssn_params (ipmi_intf_session_set_username intf u))"
    and "wf_params (ssn_params (ipmi_intf_session_set_password intf pw))"
    and "wf_params (ssn_params (ipmi_intf_session_set_privlvl intf l))"
    and "wf_params (ssn_params (ipmi_intf_session_set_lookupbit intf b))"
    and "wf_params (ssn_params (ipmi_intf_session_set_cipher_suite_id intf c))"
    and "wf_params (ssn_params (ipmi_intf_session_set_sol_escape_char intf e))"
    and "kgkey_ok k \<Longrightarrow> wf_params (ssn_params (ipmi_intf_session_set_kgkey intf k))"
    and "wf_params (ssn_params (ipmi_intf_session_set_port intf p))"
    and "wf_params (ssn_params (ipmi_intf_session_set_authtype intf t))"
    and "wf_params (ssn_params (ipmi_intf_session_set_timeout intf to))"
    and "wf_params (ssn_params (ipmi_intf_session_set_retry intf r))"
  using assms
  by (auto simp: wf_params_def kgkey_ok_def upd_params_def IPMI_AUTHCODE_BUFFER_SIZE_def IPMI_KG_BUFFER_SIZE_def
      ipmi_intf_session_set_hostname_def ipmi_intf_session_set_username_def
      ipmi_intf_session_set_password_def clear_password_def ipmi_intf_session_set_privlvl_def
      ipmi_intf_session_set_lookupbit_def ipmi_intf_session_set_cipher_suite_id_def
      ipmi_intf_session_set_sol_escape_char_def ipmi_intf_session_set_kgkey_def
      ipmi_intf_session_set_port_def ipmi_intf_session_set_authtype_def
      ipmi_intf_session_set_timeout_def ipmi_intf_session_set_retry_def
      put_at_def nth_append Let_def split: option.splits)

datatype param_op =
    Set_hostname "string option" | Set_username "byte list option" | Set_password "byte list option"
  | Set_privlvl byte | Set_lookupbit byte | Set_cipher_suite_id nat | Set_sol_escape_char byte
  | Set_kgkey "byte list" | Set_port int | Set_authtype byte | Set_timeout u32 | Set_retry int

primrec run_param_op :: "ipmi_intf \<Rightarrow> param_op \<Rightarrow> ipmi_intf" where
  "run_param_op intf (Set_hostname h) = ipmi_intf_session_set_hostname intf h"
| "run_param_op intf (Set_username u) = ipmi_intf_session_set_username intf u"
| "run_param_op intf (Set_password pw) = ipmi_intf_session_set_password intf pw"
| "run_param_op intf (Set_privlvl l) = ipmi_intf_session_set_privlvl intf l"
| "run_param_op intf (Set_lookupbit b) = ipmi_intf_session_set_lookupbit intf b"
| "run_param_op intf (Set_cipher_suite_id c) = ipmi_intf_session_set_cipher_suite_id intf c"
| "run_param_op intf (Set_sol_escape_char c) = ipmi_intf_session_set_sol_escape_char intf c"
| "run_param_op intf (Set_kgkey k) = ipmi_intf_session_set_kgkey intf k"
| "run_param_op intf (Set_port n) = ipmi_intf_session_set_port intf n"
| "run_param_op intf (Set_authtype t) = ipmi_intf_session_set_authtype intf t"
| "run_param_op intf (Set_timeout t) = ipmi_intf_session_set_timeout intf t"
| "run_param_op intf (Set_retry n) = ipmi_intf_session_set_retry intf n"

definition param_op_ok :: "param_op \<Rightarrow> bool" where
  "param_op_ok x \<longleftrightarrow> (case x of Set_kgkey k \<Rightarrow> kgkey_ok k | _ \<Rightarrow> True)"

definition no_password :: "ipmi_session_params \<Rightarrow> bool" where
  "no_password p \<longleftrightarrow> \<not> password p \<and> set (authcode_set p) \<subseteq> {0}"

text \<open>Any sequence of setters keeps the arrays at their size and NUL-terminated.\<close>

lemma wf_params_run: "wf_params (ssn_params intf) \<Longrightarrow> list_all param_op_ok ops \<Longrightarrow> wf_params (ssn_params (foldl run_param_op intf ops))"
proof (induction ops arbitrary: intf)
  case Nil
  then show ?case by simp
next
  case (Cons x ops)
  have "wf_params (ssn_params (run_param_op intf x))"
    using Cons.prems by (cases x) (simp_all add: wf_params_setters param_op_ok_def)
  then show ?case using Cons.prems(2) by (simp add: Cons.IH)
qed

section \<open>Properties\<close>

text \<open>
  C26: whatever sequence of parameter setters runs, the arrays of user name, password and
  BMC key keep their sizes with the final NUL in place, provided that the key is always set
  from an array of its size that ends in NUL, as the caller has it. The last user name is
  stored truncated to 16 characters, the last password to 20, the last key as given, and
  choosing authentication type NONE erases the password.
\<close>

theorem session_params_safe:
  assumes "wf_params (ssn_params intf)" and "list_all param_op_ok ops" and "kgkey_ok k"
  shows "wf_params (ssn_params (foldl run_param_op intf ops))
    \<and> username (ssn_params (foldl run_param_op intf (ops @ [Set_username (Some u)]))) = take 16 u @ replicate (17 - length (take 16 u)) 0
    \<and> authcode_set (ssn_params (foldl run_param_op intf (ops @ [Set_password (Some pw)]))) = take 20 pw @ replicate (21 - length (take 20 pw)) 0
    \<and> kg (ssn_params (foldl run_param_op intf (ops @ [Set_kgkey k]))) = k
    \<and> no_password (ssn_params (foldl run_param_op intf (ops @ [Set_authtype 0])))"
proof -
  let ?i = "foldl run_param_op intf ops"
  have wf: "wf_params (ssn_params ?i)" using assms(1,2) by (rule wf_params_run)
  have key: "kg (ssn_params (run_param_op ?i (Set_kgkey k))) = k"
    using wf assms(3) by (simp add: wf_params_def kgkey_ok_def upd_params_def ipmi_intf_session_set_kgkey_def put_at_def)
  have u: "username (ssn_params (run_param_op ?i (Set_username (Some u)))) = take 16 u @ replicate (17 - length (take 16 u)) 0"
    using wf by (simp add: wf_params_def upd_params_def ipmi_intf_session_set_username_def put_at_def Let_def min_def)
  have end0: "drop 20 (authcode_set (ssn_params ?i)) = [0]"
    using wf unfolding wf_params_def IPMI_AUTHCODE_BUFFER_SIZE_def
    by (metis Cons_nth_drop_Suc Suc_eq_plus1 drop_all lessI order_refl)
  have rep: "replicate (20 - k) (0 :: byte) @ [0] = replicate (21 - k) 0" if "k \<le> 20" for k
  proof -
    have "21 - k = Suc (20 - k)" using that by linarith
    then show ?thesis by (simp add: replicate_append_same)
  qed
  have p: "authcode_set (ssn_params (run_param_op ?i (Set_password (Some pw)))) = take 20 pw @ replicate (21 - length (take 20 pw)) 0"
    using end0 by (simp add: upd_params_def ipmi_intf_session_set_password_def clear_password_def put_at_def Let_def
        IPMI_AUTHCODE_BUFFER_SIZE_def min_def rep)
  have n: "no_password (ssn_params (run_param_op ?i (Set_authtype 0)))"
    using end0 by (simp add: no_password_def upd_params_def ipmi_intf_session_set_authtype_def clear_password_def put_at_def
        IPMI_AUTHCODE_BUFFER_SIZE_def IPMI_SESSION_AUTHTYPE_NONE_def)
  show ?thesis using wf u p n key by simp
qed

text \<open>
  the largest request and response an interface reports, for every configured size
  below 32768: the default of 25 bytes when none is configured; for a forwarded message
  never more than 25 bytes, and 8 bytes less again for a doubly bridged one; never a
  negative size turned into a large unsigned one.
\<close>

theorem max_data_sizes:
  assumes "max_request_data_size intf < 2 ^ 15" and "max_response_data_size intf < 2 ^ 15"
  shows "uint (ipmi_intf_get_max_request_data_size intf) =
      max_data_size_spec (unat (max_request_data_size intf)) (ipmi_intf_get_bridging_level intf) 8
    \<and> uint (ipmi_intf_get_max_response_data_size intf) =
      max_data_size_spec (unat (max_response_data_size intf)) (ipmi_intf_get_bridging_level intf) 7"
  using max_data_size_unat [OF assms(1), of 8 "ipmi_intf_get_bridging_level intf"]
    max_data_size_unat [OF assms(2), of 7 "ipmi_intf_get_bridging_level intf"]
  by (simp add: ipmi_intf_get_max_request_data_size_def ipmi_intf_get_max_response_data_size_def)

section \<open>A sample interface for witnesses\<close>

definition sample_params :: ipmi_session_params where
  "sample_params = \<lparr>hostname = Some ''bmc'', username = replicate 17 0, authcode_set = replicate 21 0,
     authtype_set = 0, privlvl = 4, cipher_suite_id = 3, sol_escape_char = 0x7E, password = False,
     port = 623, retry = 4, timeout = 2, kg = replicate 21 0, lookupbit = 0x10\<rparr>"

definition sample_intf :: ipmi_intf where
  "sample_intf = \<lparr>intf_name = ''lan'', devfile = None, fd = 3, opened = True, abort = False,
     noanswer = False, manufacturer_id = 0, ssn_params = sample_params, session = None,
     my_addr = 0x20, target_addr = 0x72, target_channel = 7, transit_addr = 0x82, transit_channel = 0,
     max_request_data_size = 38, max_response_data_size = 34\<rparr>"

theorem session_params_safe_witness:
  "username (ssn_params (foldl run_param_op sample_intf [Set_username (Some (replicate 30 0x41))])) = replicate 16 0x41 @ [0]
    \<and> kg (ssn_params (foldl run_param_op sample_intf [Set_kgkey (replicate 20 0x4B @ [0])])) = replicate 20 0x4B @ [0]"
proof -
  have "wf_params (ssn_params sample_intf)" "list_all param_op_ok []" "kgkey_ok (replicate 20 0x4B @ [0])"
    by (simp_all add: wf_params_def sample_intf_def sample_params_def IPMI_AUTHCODE_BUFFER_SIZE_def IPMI_KG_BUFFER_SIZE_def
        kgkey_ok_def nth_append)
  from session_params_safe [OF this, of "replicate 30 0x41"] show ?thesis by simp
qed

theorem max_data_sizes_witness:
  "uint (ipmi_intf_get_max_request_data_size sample_intf) = 17 \<and> uint (ipmi_intf_get_max_response_data_size sample_intf) = 17"
proof -
  have "max_request_data_size sample_intf < 2 ^ 15" "max_response_data_size sample_intf < 2 ^ 15"
    by (simp_all add: sample_intf_def)
  moreover have "unat (max_request_data_size sample_intf) = 38" "unat (max_response_data_size sample_intf) = 34"
    "ipmi_intf_get_bridging_level sample_intf = 2"
    by (simp_all add: sample_intf_def ipmi_intf_get_bridging_level_def)
  ultimately show ?thesis using max_data_sizes [of sample_intf] by (simp add: max_data_size_spec_def)
qed

end
