(* ===== verification/Auth.thy ===== *)
theory Auth
  imports Md5 Intf
begin

text \<open>
  The session authentication codes of src/plugins/lan/auth.c, over the bundled MD5 (the
  build without OpenSSL's). MD2 exists only in OpenSSL: it is a parameter, \<open>None\<close> when
  the build lacks it. The host is little-endian, so the bytes of the session id and the
  sequence number in memory are \<open>le32\<close> of their values.
\<close>

definition ipmi_auth_md5 :: "ipmi_session \<Rightarrow> byte list \<Rightarrow> byte list" where
  "ipmi_auth_md5 s data =
     (let state = md5_init md5_zero;
          state = md5_append state (take 16 (authcode s));
          state = md5_append state (le32 (session_id s));
          state = md5_append state data;
          temp = in_seq s;
          state = md5_append state (le32 temp);
          state = md5_append state (take 16 (authcode s))
      in md5_finish state)"

definition ipmi_auth_md2 :: "(byte list \<Rightarrow> byte list) option \<Rightarrow> ipmi_session \<Rightarrow> byte list \<Rightarrow> byte list" where
  "ipmi_auth_md2 md2 s data =
     (case md2 of
        Some h \<Rightarrow> h (take 16 (authcode s) @ le32 (session_id s) @ data @ le32 (in_seq s) @ take 16 (authcode s))
      | None \<Rightarrow> replicate 16 0)"

definition c_strlen :: "byte list \<Rightarrow> nat" where
  "c_strlen bs = length (takeWhile (\<lambda>b. b \<noteq> 0) bs)"

definition ipmi_auth_special :: "ipmi_session \<Rightarrow> byte list" where
  "ipmi_auth_special s =
     (let digest = md5_finish (md5_append (md5_init md5_zero) (take (c_strlen (authcode s)) (authcode s)));
          challenge' = map (\<lambda>i. challenge s ! i XOR digest ! i) [0..<16]
      in md5_finish (md5_append (md5_init md5_zero) challenge'))"

section \<open>Properties\<close>

text \<open>
  the MD5 authentication code of a message is the RFC 1321 digest of password,
  session id, message, sequence number and password again, in this order, the password
  as its 16-byte field; the OEM code is the digest of the challenge masked with the
  digest of the password up to its NUL.
\<close>

theorem auth_codes_correct:
  "ipmi_auth_md5 s data =
     rfc_md5 (take 16 (authcode s) @ le32 (session_id s) @ data @ le32 (in_seq s) @ take 16 (authcode s))
   \<and> ipmi_auth_special s =
     rfc_md5 (map (\<lambda>i. challenge s ! i XOR rfc_md5 (takeWhile (\<lambda>b. b \<noteq> 0) (authcode s)) ! i) [0..<16])"
proof -
  have "ipmi_auth_md5 s data = md5_finish (foldl md5_append (md5_init md5_zero)
      [take 16 (authcode s), le32 (session_id s), data, le32 (in_seq s), take 16 (authcode s)])"
    by (simp add: ipmi_auth_md5_def Let_def)
  moreover have one: "md5_finish (md5_append (md5_init md5_zero) m) = rfc_md5 m" for m
    using md5.finish_foldl [of "[m]"] by simp
  moreover have "take (c_strlen (authcode s)) (authcode s) = takeWhile (\<lambda>b. b \<noteq> 0) (authcode s)"
    by (simp add: c_strlen_def takeWhile_eq_take [symmetric])
  ultimately show ?thesis
    by (simp only: md5.finish_foldl ipmi_auth_special_def Let_def) simp
qed

lemma length_ipmi_auth_md5 [simp]: "length (ipmi_auth_md5 s data) = 16"
proof -
  have "ipmi_auth_md5 s data = md5_finish (foldl md5_append (md5_init md5_zero)
      [take 16 (authcode s), le32 (session_id s), data, le32 (in_seq s), take 16 (authcode s)])"
    by (simp add: ipmi_auth_md5_def Let_def)
  then show ?thesis by (simp only: md5.finish_foldl length_rfc_md5)
qed

end
