(* ===== verification/Ipmb.thy ===== *)
theory Ipmb
  imports Intf
begin

text \<open>
  Vocabulary of the IPMB messages all transports carry, and the reference encoder their
  builders are compared with. The structures \<open>ipmb_msg_hdr\<close> and \<open>ipmi_send_message_rq\<close>
  are declared alike in serial_basic.c and serial_terminal.c.

  The reference follows the IPMB message format: the first checksum closes the address
  and network function, the second closes everything after it, the data included. A
  bridged message is the data of a Send Message request (after the channel byte).
\<close>

definition IPMI_BMC_SLAVE_ADDR :: byte where "IPMI_BMC_SLAVE_ADDR = 0x20"

definition IPMI_REMOTE_SWID :: byte where "IPMI_REMOTE_SWID = 0x81"

section \<open>Structures\<close>

record ipmb_msg_hdr =
  h_rsSA :: byte
  h_netFn :: byte
  h_csum1 :: byte
  h_rqSA :: byte
  h_rqSeq :: byte
  h_cmd :: byte

text \<open>A response: \<open>data_len\<close> is the length of \<open>rs_data\<close>.\<close>

record ipmi_rs =
  rs_ccode :: byte
  rs_data :: "byte list"

definition hdr_bytes :: "ipmb_msg_hdr \<Rightarrow> byte list" where
  "hdr_bytes h = [h_rsSA h, h_netFn h, h_csum1 h, h_rqSA h, h_rqSeq h, h_cmd h]"

definition hdr_of_bytes :: "byte list \<Rightarrow> ipmb_msg_hdr" where
  "hdr_of_bytes m = \<lparr>h_rsSA = m ! 0, h_netFn = m ! 1, h_csum1 = m ! 2, h_rqSA = m ! 3,
     h_rqSeq = m ! 4, h_cmd = m ! 5\<rparr>"

record ipmi_send_message_rq =
  smr_channel :: byte
  smr_msg :: ipmb_msg_hdr

definition smr_bytes :: "ipmi_send_message_rq \<Rightarrow> byte list" where
  "smr_bytes r = smr_channel r # hdr_bytes (smr_msg r)"

lemma length_hdr_bytes [simp]: "length (hdr_bytes h) = 6"
  by (simp add: hdr_bytes_def)

lemma length_smr_bytes [simp]: "length (smr_bytes r) = 7"
  by (simp add: smr_bytes_def)

lemma hdr_of_hdr_bytes [simp]: "hdr_of_bytes (hdr_bytes h @ r) = h"
  by (simp add: hdr_of_bytes_def hdr_bytes_def)

section \<open>Reference encoder\<close>

definition ipmb_msg :: "byte \<Rightarrow> byte \<Rightarrow> byte \<Rightarrow> byte \<Rightarrow> byte \<Rightarrow> byte list \<Rightarrow> byte list" where
  "ipmb_msg rsSA netFn rqSA rqSeq cmd data =
     [rsSA, netFn, - (rsSA + netFn), rqSA, rqSeq, cmd] @ data @ [ipmi_csum ([rqSA, rqSeq, cmd] @ data)]"

text \<open>What a receiver of an IPMB message checks.\<close>

definition ipmb_valid :: "byte list \<Rightarrow> bool" where
  "ipmb_valid m \<longleftrightarrow> 7 \<le> length m \<and> ipmi_csum (take 3 m) = 0 \<and> ipmi_csum (drop 3 m) = 0"

lemma length_ipmb_msg [simp]: "length (ipmb_msg rs nf rq sq c d) = length d + 7"
  by (simp add: ipmb_msg_def)

lemma ipmb_msg_valid: "ipmb_valid (ipmb_msg rs nf rq sq c d)"
  by (simp add: ipmb_valid_def ipmb_msg_def ipmi_csum_sum)

lemma sum_list_ipmb_msg [simp]: "sum_list (ipmb_msg rs nf rq sq c d) = 0"
  by (simp add: ipmb_msg_def ipmi_csum_sum)

lemma ipmb_valid_sum: "ipmb_valid m \<Longrightarrow> sum_list m = 0"
  by (metis append_take_drop_id ipmb_valid_def ipmi_csum_zero_iff sum_list_byte_append add.right_neutral)

text \<open>
  The checksum of a Send Message request needs only the four bytes before the message it
  carries, since that message sums to zero.
\<close>

lemma ipmi_csum_send_message:
  "ipmi_csum (rq # sq # c # ch # ipmb_msg rs nf rq' sq' c' d) = ipmi_csum [rq, sq, c, ch]"
  using ipmi_csum_skip [of "ipmb_msg rs nf rq' sq' c' d" "[rq, sq, c, ch]"] by simp

lemma ipmb_msg_send_message:
  "ipmb_msg rs nf rq sq c (ch # ipmb_msg rs' nf' rq' sq' c' d) =
     [rs, nf, - (rs + nf), rq, sq, c, ch] @ ipmb_msg rs' nf' rq' sq' c' d @ [ipmi_csum [rq, sq, c, ch]]"
  by (simp add: ipmb_msg_def [of rs nf] ipmi_csum_send_message)

lemma ipmb_msg_send_message2:
  "ipmb_msg rs nf rq sq c (ch # ipmb_msg rs' nf' rq' sq' c' (ch' # ipmb_msg rt nt qt st ct d)) =
     [rs, nf, - (rs + nf), rq, sq, c, ch] @ [rs', nf', - (rs' + nf'), rq', sq', c', ch'] @ ipmb_msg rt nt qt st ct d
       @ [ipmi_csum [rq', sq', c', ch'], ipmi_csum [rq, sq, c, ch]]"
  by (subst ipmb_msg_send_message) (simp add: ipmb_msg_send_message)

text \<open>The network function and LUN byte, and the sequence number byte.\<close>

definition netfn_lun :: "ipmi_rq \<Rightarrow> byte" where
  "netfn_lun r = push_bit 2 (rq_netfn r) OR rq_lun r"

lemma hdr_bytes_msg:
  "hdr_bytes h @ data @ [ipmi_csum ([h_rqSA h, h_rqSeq h, h_cmd h] @ data)] =
     ipmb_msg (h_rsSA h) (h_netFn h) (h_rqSA h) (h_rqSeq h) (h_cmd h) data"
  if "h_csum1 h = - (h_rsSA h + h_netFn h)"
  using that by (simp add: hdr_bytes_def ipmb_msg_def)

end
