(* ===== verification/Serial_Port.thy ===== *)
theory Serial_Port
  imports Ipmb
begin

text \<open>
  The serial device as the two serial transports see it. The outcomes of the successive
  \<open>poll\<close> and \<open>read\<close> calls are a list of events; a list that has run out is a line that
  stays silent, so every poll times out. Bytes that arrived but did not fit the read that
  was made stay in the kernel's queue until they are read or flushed. What is written is
  logged. \<open>sp_clock\<close> lists the elapsed seconds found at the successive looks at the clock.
\<close>

datatype serial_ev = Ev_timeout | Ev_poll_error | Ev_read_error | Ev_data "byte list"

record serial_port =
  sp_queue :: "byte list"
  sp_events :: "serial_ev list"
  sp_out :: "byte list list"
  sp_clock :: "nat list"
  sp_seq :: byte
  sp_is_system :: bool

text \<open>Poll, then read at most \<open>n\<close> bytes.\<close>

datatype read_result = No_data | Read_failed | Got "byte list"

definition poll_read :: "nat \<Rightarrow> serial_port \<Rightarrow> read_result \<times> serial_port" where
  "poll_read n p =
     (if sp_queue p \<noteq> [] then (Got (take n (sp_queue p)), p\<lparr>sp_queue := drop n (sp_queue p)\<rparr>)
      else case sp_events p of
        [] \<Rightarrow> (No_data, p)
      | Ev_timeout # es \<Rightarrow> (No_data, p\<lparr>sp_events := es\<rparr>)
      | Ev_poll_error # es \<Rightarrow> (No_data, p\<lparr>sp_events := es\<rparr>)
      | Ev_read_error # es \<Rightarrow> (Read_failed, p\<lparr>sp_events := es\<rparr>)
      | Ev_data bs # es \<Rightarrow> (Got (take n bs), p\<lparr>sp_queue := drop n bs, sp_events := es\<rparr>))"

definition port_flush :: "serial_port \<Rightarrow> serial_port" where
  "port_flush p = p\<lparr>sp_queue := []\<rparr>"

definition port_write :: "byte list \<Rightarrow> serial_port \<Rightarrow> serial_port" where
  "port_write bs p = p\<lparr>sp_out := sp_out p @ [bs]\<rparr>"

text \<open>Whether the elapsed time is still below the timeout; the clock does not stand still.\<close>

definition clock_below :: "u32 \<Rightarrow> serial_port \<Rightarrow> bool \<times> serial_port" where
  "clock_below t p =
     (case sp_clock p of
        [] \<Rightarrow> (False, p)
      | c # cs \<Rightarrow> (c < unat t, p\<lparr>sp_clock := cs\<rparr>))"

text \<open>
  What is left to receive: the bytes queued, and for each event one and its bytes. It
  bounds every receive loop.
\<close>

fun ev_size :: "serial_ev \<Rightarrow> nat" where
  "ev_size (Ev_data bs) = Suc (length bs)"
| "ev_size _ = 1"

definition pending :: "serial_port \<Rightarrow> nat" where
  "pending p = length (sp_queue p) + sum_list (map ev_size (sp_events p))"

lemma pending_simps [simp]:
  "pending (p\<lparr>sp_out := x\<rparr>) = pending p" "pending (p\<lparr>sp_clock := c\<rparr>) = pending p"
  "pending (p\<lparr>sp_seq := s\<rparr>) = pending p"
  by (simp_all add: pending_def)

lemma pending_flush: "pending (port_flush p) \<le> pending p"
  by (simp add: pending_def port_flush_def)

lemma pending_write [simp]: "pending (port_write bs p) = pending p"
  by (simp add: port_write_def)

lemma pending_clock: "clock_below t p = (b, p') \<Longrightarrow> pending p' = pending p"
  by (auto simp: clock_below_def split: list.splits)

lemma poll_read_pending:
  "poll_read n p = (r, p') \<Longrightarrow> pending p' \<le> pending p \<and> (0 < n \<longrightarrow> r = Got bs \<longrightarrow> pending p' < pending p)"
  by (auto simp: poll_read_def pending_def split: if_splits list.splits serial_ev.splits)

lemma poll_read_len: "poll_read n p = (Got bs, p') \<Longrightarrow> length bs \<le> n"
  by (auto simp: poll_read_def split: if_splits list.splits serial_ev.splits)

section \<open>Opening the device\<close>

text \<open>
  Both transports parse the device name in the same way: name, baud rate and an optional
  third part that marks a system interface. The name is cut at the first colon in place.
  Whether the device can be opened is up to the system.
\<close>

definition baud_rates :: "int list" where
  "baud_rates = [2400, 9600, 19200, 38400, 57600, 115200, 230400, 460800]"

definition split_colon :: "string \<Rightarrow> string \<times> string option" where
  "split_colon s = (let d = takeWhile (\<lambda>c. c \<noteq> CHR '':'') s
     in (d, if length d < length s then Some (drop (Suc (length d)) s) else None))"

text \<open>Device name, baud rate if the text is a number, system interface.\<close>

definition parse_devfile :: "string \<Rightarrow> string \<times> int option \<times> bool" where
  "parse_devfile s =
     (case split_colon s of
        (dev, None) \<Rightarrow> (dev, Some 9600, False)
      | (dev, Some p) \<Rightarrow>
          (let (rate, pp) = split_colon p;
               sys = (case pp of None \<Rightarrow> False | Some q \<Rightarrow> q \<noteq> [] \<and> (hd q = CHR ''S'' \<or> hd q = CHR ''s''))
           in case str2uint (Some rate) (Some 9600) of
                (rc, c) \<Rightarrow> (dev, if rc = 0 then c else None, sys)))"

definition set_default_params :: "u32 \<Rightarrow> int \<Rightarrow> ipmi_intf \<Rightarrow> ipmi_intf" where
  "set_default_params tmo rty intf =
     upd_params (\<lambda>p. let p1 = (if timeout p = 0 then p\<lparr>timeout := tmo\<rparr> else p)
       in if retry p1 = 0 then p1\<lparr>retry := rty\<rparr> else p1) intf"

text \<open>Result code, interface and port; \<open>open_fd\<close> is the result of the \<open>open\<close> system call.\<close>

definition serial_open :: "int \<Rightarrow> u32 \<Rightarrow> int \<Rightarrow> ipmi_intf \<Rightarrow> serial_port \<Rightarrow> int \<times> ipmi_intf \<times> serial_port" where
  "serial_open open_fd tmo rty intf p =
     (case devfile intf of
        None \<Rightarrow> (-1, intf, p)
      | Some s \<Rightarrow>
          (case parse_devfile s of
             (dev, rate, sys) \<Rightarrow>
               (let intf1 = intf\<lparr>devfile := Some dev\<rparr>; p1 = p\<lparr>sp_is_system := sys\<rparr>
                in case rate of
                     None \<Rightarrow> (-1, intf1, p1)
                   | Some r \<Rightarrow>
                       (let intf2 = intf1\<lparr>fd := open_fd\<rparr>
                        in if open_fd < 0 then (-1, intf2, p1)
                           else if r \<notin> set baud_rates then (-1, intf2, p1)
                           else (0, (set_default_params tmo rty intf2)\<lparr>opened := True\<rparr>, p1)))))"

definition serial_close :: "ipmi_intf \<Rightarrow> ipmi_intf" where
  "serial_close intf =
     (let intf1 = (if opened intf then intf\<lparr>fd := -1\<rparr> else intf)
      in (ipmi_intf_session_cleanup intf1)\<lparr>opened := False\<rparr>)"

section \<open>Sequence numbers\<close>

text \<open>\<open>serial_bm_alloc_seq\<close> and \<open>serial_term_alloc_seq\<close>: increment, wrap at 64.\<close>

definition next_seq :: "byte \<Rightarrow> byte" where
  "next_seq s = (let s1 = s + 1 in if s1 = 64 then 0 else s1)"

definition alloc_seq :: "serial_port \<Rightarrow> byte \<times> serial_port" where
  "alloc_seq p = (let s = next_seq (sp_seq p) in (s, p\<lparr>sp_seq := s\<rparr>))"

lemma unat_next_seq: "unat s < 64 \<Longrightarrow> unat (next_seq s) = Suc (unat s) mod 64"
proof -
  assume s: "unat s < 64"
  have p: "unat (s + 1) = Suc (unat s)" using s by (simp add: unat_word_ariths)
  have "s + 1 = 64 \<longleftrightarrow> Suc (unat s) = 64"
    by (simp add: word_unat_eq_iff p)
  with p s show ?thesis by (auto simp: next_seq_def Let_def)
qed

interpretation serial_seq: seq_alloc next_seq unat 64
  by unfold_locales (simp_all add: unat_next_seq)


lemma sp_seq_alloc_iter: "sp_seq (((snd \<circ> alloc_seq) ^^ i) p) = (next_seq ^^ i) (sp_seq p)"
  by (induction i) (simp_all add: alloc_seq_def Let_def)

lemma fst_alloc_seq_iter: "fst (alloc_seq (((snd \<circ> alloc_seq) ^^ i) p)) = (next_seq ^^ Suc i) (sp_seq p)"
  by (simp add: alloc_seq_def Let_def sp_seq_alloc_iter)

text \<open>
  Sequence numbers of both serial transports stay below 64, so that shifted by two
  bits they fit their byte, are pairwise different within any 64 successive requests, and
  come round after exactly 64.
\<close>

theorem serial_sequence_numbers:
  assumes "unat (sp_seq p) < 64" and "i < 64" and "j < 64"
  shows "fst (alloc_seq (((snd \<circ> alloc_seq) ^^ i) p)) < 64
    \<and> (fst (alloc_seq (((snd \<circ> alloc_seq) ^^ i) p)) = fst (alloc_seq (((snd \<circ> alloc_seq) ^^ j) p)) \<longrightarrow> i = j)
    \<and> sp_seq (((snd \<circ> alloc_seq) ^^ 64) p) = sp_seq p"
proof -
  have s1: "unat (next_seq (sp_seq p)) < 64" using assms(1) by (rule serial_seq.num_nxt_less)
  have e: "(next_seq ^^ Suc k) (sp_seq p) = (next_seq ^^ k) (next_seq (sp_seq p))" for k by (simp add: funpow_swap1)
  have "unat ((next_seq ^^ i) (next_seq (sp_seq p))) < 64" by (simp add: serial_seq.num_iter [OF s1])
  moreover have "i = j" if "(next_seq ^^ i) (next_seq (sp_seq p)) = (next_seq ^^ j) (next_seq (sp_seq p))"
    using serial_seq.num_iter_distinct [OF s1 assms(2,3)] that by auto
  moreover have "(next_seq ^^ 64) (sp_seq p) = sp_seq p"
    by (rule unsigned_word_eqI) (rule serial_seq.num_iter_period [OF assms(1)])
  ultimately show ?thesis
    unfolding fst_alloc_seq_iter sp_seq_alloc_iter e by (auto simp: word_less_nat_alt)
qed

theorem serial_sequence_numbers_witness:
  "fst (alloc_seq (((snd \<circ> alloc_seq) ^^ 5) \<lparr>sp_queue = [], sp_events = [], sp_out = [], sp_clock = [], sp_seq = 63, sp_is_system = False\<rparr>)) < 64"
  using serial_sequence_numbers [of "\<lparr>sp_queue = [], sp_events = [], sp_out = [], sp_clock = [], sp_seq = 63, sp_is_system = False\<rparr>" 5 6]
  by simp

end
