(* ===== verification/Serial_Basic.thy ===== *)
theory Serial_Basic
  imports Serial_Port
begin

text \<open>
  The serial basic-mode transport, src/plugins/serial/serial_basic.c: byte stuffing, the
  message parser, construction of direct, bridged and doubly bridged IPMB requests,
  matching of responses, the receive message queue of system interfaces and the request
  loop. Reads and writes outside an array are values of \<open>bm_error\<close>.
\<close>

datatype bm_error = Buffer_overrun | Bad_copy_length | Uninitialised | Not_a_state

section \<open>Byte stuffing\<close>

abbreviation (input) BM_START :: byte where "BM_START \<equiv> 0xA0"
abbreviation (input) BM_STOP :: byte where "BM_STOP \<equiv> 0xA5"
abbreviation (input) BM_HANDSHAKE :: byte where "BM_HANDSHAKE \<equiv> 0xA6"
abbreviation (input) BM_ESCAPE :: byte where "BM_ESCAPE \<equiv> 0xAA"

definition characters :: "(byte \<times> byte) list" where
  "characters = [(BM_START, 0xB0), (BM_STOP, 0xB5), (BM_HANDSHAKE, 0xB6), (BM_ESCAPE, 0xBA), (0x1B, 0x3B)]"

definition serial_bm_get_escaped_char :: "byte \<Rightarrow> byte" where
  "serial_bm_get_escaped_char c = (case map_of characters c of Some e \<Rightarrow> e | None \<Rightarrow> c)"

definition serial_bm_get_unescaped_char :: "byte \<Rightarrow> byte" where
  "serial_bm_get_unescaped_char c =
     (case map_of (map prod.swap characters) c of Some ch \<Rightarrow> ch | None \<Rightarrow> c)"

text \<open>The bytes \<open>serial_bm_send_msg\<close> writes for a message.\<close>

primrec bm_escape :: "byte list \<Rightarrow> byte list" where
  "bm_escape [] = []"
| "bm_escape (b # bs) =
     (let tmp = serial_bm_get_escaped_char b
      in (if tmp \<noteq> b then [BM_ESCAPE, tmp] else [tmp]) @ bm_escape bs)"

definition bm_frame :: "byte list \<Rightarrow> byte list" where
  "bm_frame msg = [0xA0] @ bm_escape msg @ [0xA5]"

text \<open>The size of the output buffer allocated for it.\<close>

definition bm_frame_size :: "byte list \<Rightarrow> nat" where
  "bm_frame_size msg = length msg + length (filter (\<lambda>b. serial_bm_get_escaped_char b \<noteq> b) msg) + 2"

definition serial_bm_send_msg :: "byte list \<Rightarrow> serial_port \<Rightarrow> serial_port" where
  "serial_bm_send_msg msg p = port_write (take (bm_frame_size msg) (bm_frame msg)) p"

section \<open>The message parser\<close>

datatype bm_state = MSG_NONE | MSG_IN_PROGRESS | MSG_DONE

text \<open>\<open>pc_msg\<close> is the whole destination array, of at least \<open>pc_max\<close> bytes.\<close>

record serial_bm_parse_ctx =
  pc_state :: bm_state
  pc_msg :: "byte list"
  pc_len :: nat
  pc_max :: nat
  pc_escape :: bool

definition pc_add :: "byte \<Rightarrow> serial_bm_parse_ctx \<Rightarrow> serial_bm_parse_ctx" where
  "pc_add b ctx = ctx\<lparr>pc_msg := (pc_msg ctx)[pc_len ctx := b], pc_len := Suc (pc_len ctx)\<rparr>"

text \<open>
  The body of the loop for one character: go on to the next, leave with a whole message,
  or leave because the message is too long.
\<close>

datatype bm_step_result = Continue serial_bm_parse_ctx | Finished serial_bm_parse_ctx | Too_long serial_bm_parse_ctx

definition bm_step :: "byte \<Rightarrow> serial_bm_parse_ctx \<Rightarrow> bm_step_result" where
  "bm_step d ctx =
     (if d = BM_START then
        Continue (ctx\<lparr>pc_state := MSG_IN_PROGRESS, pc_escape := False, pc_len := 0\<rparr>)
      else if pc_state ctx \<noteq> MSG_IN_PROGRESS then Continue ctx
      else if pc_escape ctx then
        (let tmp = serial_bm_get_unescaped_char d
         in if tmp = d then Continue (ctx\<lparr>pc_state := MSG_NONE\<rparr>)
            else if pc_len ctx \<ge> pc_max ctx then Continue (ctx\<lparr>pc_state := MSG_NONE\<rparr>)
            else Continue ((pc_add tmp ctx)\<lparr>pc_escape := False\<rparr>))
      else if d = BM_ESCAPE then Continue (ctx\<lparr>pc_escape := True\<rparr>)
      else if d = BM_STOP then Finished (ctx\<lparr>pc_state := MSG_DONE\<rparr>)
      else if d = BM_HANDSHAKE then Continue ctx
      else if pc_len ctx \<ge> pc_max ctx then Too_long ctx
      else Continue (pc_add d ctx))"

primrec bm_parse :: "byte list \<Rightarrow> int \<Rightarrow> serial_bm_parse_ctx \<Rightarrow> int \<times> serial_bm_parse_ctx" where
  "bm_parse [] i ctx = (i, ctx)"
| "bm_parse (d # ds) i ctx =
     (case bm_step d ctx of
        Continue c \<Rightarrow> bm_parse ds (i + 1) c
      | Finished c \<Rightarrow> (i + 1, c)
      | Too_long c \<Rightarrow> (-1, c))"

definition serial_bm_parse_buffer :: "byte list \<Rightarrow> serial_bm_parse_ctx \<Rightarrow> int \<times> serial_bm_parse_ctx" where
  "serial_bm_parse_buffer data ctx = bm_parse data 0 ctx"

section \<open>Receiving\<close>

definition SERIAL_BM_MAX_BUFFER_SIZE :: nat where "SERIAL_BM_MAX_BUFFER_SIZE = 250"

definition SERIAL_BM_MAX_MSG_SIZE :: nat where "SERIAL_BM_MAX_MSG_SIZE = 47"

record serial_bm_recv_ctx =
  rc_buffer :: "byte list"
  rc_size :: nat

text \<open>
  One turn of the loop of \<open>serial_bm_recv_msg\<close> after a successful read of \<open>bs\<close>: the
  bytes are appended to the buffer and the buffer is parsed. \<open>rv\<close> is compared with the
  unsigned \<open>buffer_size\<close> and subtracted from it, so a result of -1 moves nothing and
  increments the size.
\<close>

definition bm_turn :: "byte list \<Rightarrow> serial_bm_recv_ctx \<Rightarrow> serial_bm_parse_ctx \<Rightarrow>
    serial_bm_recv_ctx \<times> serial_bm_parse_ctx" where
  "bm_turn bs rc ctx =
     (let buf = put_at (rc_size rc) bs (rc_buffer rc);
          size = rc_size rc + length bs;
          (rv, ctx') = serial_bm_parse_buffer (take size buf) ctx;
          buf' = (if uint (word_of_int rv :: u64) < int size
                  then put_at 0 (drop (nat rv) (take size buf)) buf else buf)
      in (\<lparr>rc_buffer = buf', rc_size = nat (uint (word_of_int (int size - rv) :: u64))\<rparr>, ctx'))"

section \<open>Facts on stuffing and parsing\<close>

lemma escaped_cases:
  "serial_bm_get_escaped_char b = b \<and> b \<notin> {BM_START, BM_STOP, BM_HANDSHAKE, BM_ESCAPE}
   \<or> serial_bm_get_escaped_char b \<noteq> b \<and> serial_bm_get_unescaped_char (serial_bm_get_escaped_char b) = b
     \<and> serial_bm_get_escaped_char b \<notin> {BM_START, BM_STOP, BM_HANDSHAKE, BM_ESCAPE}"
  by (auto simp: serial_bm_get_escaped_char_def serial_bm_get_unescaped_char_def characters_def)

lemma length_bm_escape:
  "length (bm_escape m) = length m + length (filter (\<lambda>b. serial_bm_get_escaped_char b \<noteq> b) m)"
  by (induction m) (simp_all add: Let_def)

lemma length_bm_frame: "length (bm_frame m) = bm_frame_size m"
  by (simp add: bm_frame_def bm_frame_size_def length_bm_escape)

lemma bm_step_state:
  "pc_state ctx \<noteq> MSG_DONE \<Longrightarrow>
     (case bm_step d ctx of Continue c \<Rightarrow> pc_state c \<noteq> MSG_DONE
      | Finished c \<Rightarrow> pc_state c = MSG_DONE
      | Too_long c \<Rightarrow> c = ctx \<and> pc_state c = MSG_IN_PROGRESS \<and> pc_max c \<le> pc_len c)"
  by (simp add: bm_step_def Let_def pc_add_def)

lemma bm_parse_result:
  "bm_parse ds i ctx = (rv, ctx') \<Longrightarrow> pc_state ctx \<noteq> MSG_DONE \<Longrightarrow> 0 \<le> i \<Longrightarrow>
     rv = -1 \<and> pc_state ctx' = MSG_IN_PROGRESS \<and> pc_max ctx' \<le> pc_len ctx'
     \<or> rv = i + int (length ds) \<and> pc_state ctx' \<noteq> MSG_DONE
     \<or> i < rv \<and> rv \<le> i + int (length ds) \<and> pc_state ctx' = MSG_DONE"
proof (induction ds arbitrary: i ctx)
  case Nil
  then show ?case by simp
next
  case (Cons d ds)
  show ?case
  proof (cases "bm_step d ctx")
    case (Continue c)
    with Cons.prems bm_step_state [OF Cons.prems(2), of d] Cons.IH [of "i + 1" c] show ?thesis by auto
  next
    case (Finished c)
    with Cons.prems bm_step_state [OF Cons.prems(2), of d] show ?thesis by auto
  next
    case (Too_long c)
    with Cons.prems bm_step_state [OF Cons.prems(2), of d] show ?thesis by auto
  qed
qed

definition pc_wf :: "serial_bm_parse_ctx \<Rightarrow> bool" where
  "pc_wf ctx \<longleftrightarrow> pc_max ctx \<le> length (pc_msg ctx) \<and> (pc_state ctx \<noteq> MSG_NONE \<longrightarrow> pc_len ctx \<le> pc_max ctx)"

text \<open>What one character, and so a whole buffer, leaves of the destination array.\<close>

definition pc_kept :: "serial_bm_parse_ctx \<Rightarrow> serial_bm_parse_ctx \<Rightarrow> bool" where
  "pc_kept ctx c \<longleftrightarrow> pc_wf c \<and> pc_max c = pc_max ctx \<and> length (pc_msg c) = length (pc_msg ctx)
     \<and> drop (pc_max ctx) (pc_msg c) = drop (pc_max ctx) (pc_msg ctx)"

lemma bm_step_kept:
  "pc_wf ctx \<Longrightarrow>
     (case bm_step d ctx of Continue c \<Rightarrow> pc_kept ctx c | Finished c \<Rightarrow> pc_kept ctx c | Too_long c \<Rightarrow> pc_kept ctx c)"
  by (simp add: bm_step_def Let_def pc_add_def pc_wf_def pc_kept_def)

lemma bm_parse_kept: "bm_parse ds i ctx = (rv, c) \<Longrightarrow> pc_wf ctx \<Longrightarrow> pc_kept ctx c"
proof (induction ds arbitrary: i ctx)
  case Nil
  then show ?case by (simp add: pc_kept_def)
next
  case (Cons d ds)
  show ?case
  proof (cases "bm_step d ctx")
    case (Continue c')
    with bm_step_kept [OF Cons.prems(2), of d] have k: "pc_kept ctx c'" by simp
    with Continue Cons.prems have "pc_kept c' c" by (intro Cons.IH [of "i + 1" c']) (simp_all add: pc_kept_def)
    with k show ?thesis by (simp add: pc_kept_def)
  qed (use Cons.prems bm_step_kept [OF Cons.prems(2), of d] in simp_all)
qed

text \<open>Cutting the input into pieces makes no difference while no message is complete.\<close>

lemma bm_parse_append:
  "bm_parse a i ctx = (rv, c) \<Longrightarrow> pc_state ctx \<noteq> MSG_DONE \<Longrightarrow> 0 \<le> i \<Longrightarrow> rv \<noteq> -1 \<Longrightarrow> pc_state c \<noteq> MSG_DONE \<Longrightarrow>
     bm_parse (a @ b) i ctx = bm_parse b (i + int (length a)) c"
proof (induction a arbitrary: i ctx)
  case Nil
  then show ?case by simp
next
  case (Cons d ds)
  show ?case
  proof (cases "bm_step d ctx")
    case (Continue c')
    with Cons.prems bm_step_state [OF Cons.prems(2), of d] Cons.IH [of "i + 1" c'] show ?thesis
      by (simp add: add.assoc)
  next
    case (Finished c')
    with Cons.prems bm_step_state [OF Cons.prems(2), of d] show ?thesis by simp
  next
    case (Too_long c')
    with Cons.prems show ?thesis by simp
  qed
qed

lemma put_at_snoc:
  "n < length m \<Longrightarrow> put_at (Suc n) bs (m[n := b]) = put_at n (b # bs) m"
  by (simp add: put_at_def take_Suc_conv_app_nth drop_update_cancel)

lemma bm_parse_escape:
  "pc_state ctx = MSG_IN_PROGRESS \<Longrightarrow> \<not> pc_escape ctx \<Longrightarrow> pc_len ctx + length m \<le> pc_max ctx \<Longrightarrow>
     pc_max ctx \<le> length (pc_msg ctx) \<Longrightarrow>
     bm_parse (bm_escape m @ r) i ctx = bm_parse r (i + int (length (bm_escape m)))
       (ctx\<lparr>pc_msg := put_at (pc_len ctx) m (pc_msg ctx), pc_len := pc_len ctx + length m\<rparr>)"
proof (induction m arbitrary: i ctx)
  case Nil
  then show ?case by (simp add: put_at_def)
next
  case (Cons b m)
  let ?e = "serial_bm_get_escaped_char b"
  let ?c = "pc_add b ctx"
  have IH: "bm_parse (bm_escape m @ r) j ?c = bm_parse r (j + int (length (bm_escape m)))
      (?c\<lparr>pc_msg := put_at (pc_len ?c) m (pc_msg ?c), pc_len := pc_len ?c + length m\<rparr>)" for j
    using Cons.prems by (intro Cons.IH) (simp_all add: pc_add_def)
  have same: "?c\<lparr>pc_msg := put_at (pc_len ?c) m (pc_msg ?c), pc_len := pc_len ?c + length m\<rparr>
      = ctx\<lparr>pc_msg := put_at (pc_len ctx) (b # m) (pc_msg ctx), pc_len := pc_len ctx + length (b # m)\<rparr>"
    using Cons.prems by (simp add: pc_add_def put_at_snoc)
  have step: "bm_parse (bm_escape (b # m) @ r) i ctx =
      bm_parse (bm_escape m @ r) (i + int (length (bm_escape (b # m))) - int (length (bm_escape m))) ?c"
  proof (cases "?e = b")
    case True
    with escaped_cases [of b] Cons.prems show ?thesis by (simp add: Let_def bm_step_def)
  next
    case False
    have "?c\<lparr>pc_escape := False\<rparr> = ?c" using Cons.prems(2) by (cases ctx) (simp add: pc_add_def)
    moreover have "?c\<lparr>pc_escape := False\<rparr> = (pc_add b (ctx\<lparr>pc_escape := True\<rparr>))\<lparr>pc_escape := False\<rparr>"
      by (simp add: pc_add_def)
    ultimately show ?thesis using False escaped_cases [of b] Cons.prems
      by (simp add: Let_def bm_step_def add.commute [of 2 i])
  qed
  show ?case unfolding step IH same by simp
qed

lemma bm_parse_frame:
  assumes "length m \<le> pc_max ctx" and "pc_max ctx \<le> length (pc_msg ctx)"
  shows "bm_parse (bm_frame m @ rest) i ctx =
    (i + int (length (bm_frame m)),
     ctx\<lparr>pc_state := MSG_DONE, pc_escape := False, pc_msg := put_at 0 m (pc_msg ctx), pc_len := length m\<rparr>)"
proof -
  let ?c = "ctx\<lparr>pc_state := MSG_IN_PROGRESS, pc_escape := False, pc_len := 0\<rparr>"
  have "bm_parse (bm_frame m @ rest) i ctx = bm_parse (bm_escape m @ 0xA5 # rest) (i + 1) ?c"
    by (simp add: bm_frame_def bm_step_def)
  also have "\<dots> = bm_parse (0xA5 # rest) (i + 1 + int (length (bm_escape m)))
      (?c\<lparr>pc_msg := put_at 0 m (pc_msg ctx), pc_len := length m\<rparr>)"
    using assms by (subst bm_parse_escape) simp_all
  finally show ?thesis by (simp add: bm_frame_def bm_step_def)
qed

text \<open>Stuffing as a codec: frame a message, parse the frame into an array that can hold it.\<close>

definition bm_decode :: "byte list \<Rightarrow> byte list option" where
  "bm_decode f =
     (let (rv, c) = serial_bm_parse_buffer f \<lparr>pc_state = MSG_NONE, pc_msg = replicate SERIAL_BM_MAX_MSG_SIZE 0, pc_len = 0,
            pc_max = SERIAL_BM_MAX_MSG_SIZE, pc_escape = False\<rparr>
      in if pc_state c = MSG_DONE \<and> rv = int (length f) then Some (take (pc_len c) (pc_msg c)) else None)"

interpretation bm_codec: codec bm_frame bm_decode "\<lambda>m. length m \<le> SERIAL_BM_MAX_MSG_SIZE"
  by unfold_locales
    (use bm_parse_frame [where rest = "[]"] in \<open>simp add: bm_decode_def serial_bm_parse_buffer_def put_at_def\<close>)


text \<open>
  The loop of \<open>serial_bm_recv_msg\<close>. It ends because every read with room in the buffer takes
  something from the line, and a read without room leaves the buffer empty or overrun.
\<close>

lemma bm_parse_rv:
  assumes "bm_parse ds 0 ctx = (rv, c)" and "pc_state ctx \<noteq> MSG_DONE"
  shows "rv = -1 \<and> pc_state c \<noteq> MSG_DONE \<or> rv = int (length ds) \<and> pc_state c \<noteq> MSG_DONE
    \<or> 1 \<le> rv \<and> rv \<le> int (length ds) \<and> pc_state c = MSG_DONE"
  using bm_parse_result [OF assms] by auto

lemma bm_turn_size:
  assumes "bm_turn bs rc ctx = (rc', c)" and "pc_state ctx \<noteq> MSG_DONE" and "rc_size rc + length bs \<le> 250"
    and "length (rc_buffer rc) = 250"
  shows "length (rc_buffer rc') = 250"
    and "pc_state c \<noteq> MSG_DONE \<Longrightarrow> rc_size rc' = 0 \<or> rc_size rc' = Suc (rc_size rc + length bs)"
    and "pc_state c = MSG_DONE \<Longrightarrow> rc_size rc' < rc_size rc + length bs"
proof -
  let ?buf = "put_at (rc_size rc) bs (rc_buffer rc)"
  let ?sz = "rc_size rc + length bs"
  obtain rv c0 where p: "bm_parse (take ?sz ?buf) 0 ctx = (rv, c0)" by fastforce
  have len: "length ?buf = 250" using assms(3,4) by (simp add: length_put_at)
  then have ltake: "length (take ?sz ?buf) = ?sz" using assms(3) by simp
  from assms(1) p have c: "c0 = c" by (simp add: bm_turn_def serial_bm_parse_buffer_def Let_def)
  have sz: "rc_size rc' = nat (uint (word_of_int (int ?sz - rv) :: u64))"
    using assms(1) p by (auto simp: bm_turn_def serial_bm_parse_buffer_def Let_def)
  note r = bm_parse_rv [OF p assms(2), unfolded ltake c]
  have small: "nat (uint (word_of_int k :: u64)) = nat k" if "0 \<le> k" "k \<le> 251" for k :: int
    using that by (simp add: uint_word_of_int)
  show "length (rc_buffer rc') = 250"
    using assms(1) p len assms(3) by (auto simp: bm_turn_def serial_bm_parse_buffer_def Let_def length_put_at)
  show "rc_size rc' = 0 \<or> rc_size rc' = Suc ?sz" if "pc_state c \<noteq> MSG_DONE"
  proof -
    from r that have "rv = -1 \<or> rv = int ?sz" by blast
    then show ?thesis
    proof
      assume "rv = -1"
      with assms(3) show ?thesis unfolding sz by (subst small) auto
    qed (simp add: sz)
  qed
  show "rc_size rc' < ?sz" if "pc_state c = MSG_DONE"
  proof -
    from r that have "1 \<le> rv" "rv \<le> int ?sz" by auto
    then show ?thesis using assms(3) unfolding sz by (subst small) auto
  qed
qed

definition full :: "serial_bm_recv_ctx \<Rightarrow> nat" where
  "full rc = (if rc_size rc = SERIAL_BM_MAX_BUFFER_SIZE then 1 else 0)"

lemma bm_turn_progress:
  assumes "length (rc_buffer rc) = SERIAL_BM_MAX_BUFFER_SIZE" and "pc_state ctx \<noteq> MSG_DONE"
    and "poll_read (SERIAL_BM_MAX_BUFFER_SIZE - rc_size rc) p = (Got bs, p')" and "bm_turn bs rc ctx = (rc', ctx')"
    and "rc_size rc \<le> SERIAL_BM_MAX_BUFFER_SIZE"
  shows "pending p' < pending p \<or> pending p' = pending p \<and> full rc' < full rc"
proof (cases "rc_size rc = 250")
  case True
  note len = poll_read_len [OF assms(3)]
  have "rc_size rc' \<noteq> 250"
  proof (cases "pc_state ctx' = MSG_DONE")
    case fin: True
    from bm_turn_size(3) [OF assms(4,2) _ _ fin] assms(1) len True show ?thesis
      by (simp add: SERIAL_BM_MAX_BUFFER_SIZE_def)
  next
    case unfin: False
    from bm_turn_size(2) [OF assms(4,2) _ _ unfin] assms(1) len True show ?thesis
      by (auto simp: SERIAL_BM_MAX_BUFFER_SIZE_def)
  qed
  with True have "full rc' < full rc" by (simp add: full_def SERIAL_BM_MAX_BUFFER_SIZE_def)
  with poll_read_pending [OF assms(3), of bs] show ?thesis by (auto simp: le_less)
next
  case False
  with poll_read_pending [OF assms(3), of bs] assms(5) show ?thesis by (simp add: SERIAL_BM_MAX_BUFFER_SIZE_def)
qed

lemma bm_recv_progress:
  assumes "length (rc_buffer rc) = SERIAL_BM_MAX_BUFFER_SIZE" and "pc_state ctx \<noteq> MSG_DONE"
    and "(Got bs, p') = poll_read (SERIAL_BM_MAX_BUFFER_SIZE - rc_size rc) p" and "(rc', ctx') = bm_turn bs rc ctx"
    and "rc_size rc \<le> SERIAL_BM_MAX_BUFFER_SIZE"
  shows "((rc', ctx', p'), (rc, ctx, p)) \<in> measures [\<lambda>(rc, ctx, p). pending p, \<lambda>(rc, ctx, p). full rc]"
  using bm_turn_progress [OF assms(1,2) assms(3,4) [symmetric] assms(5)] by auto

type_synonym bm_received = "bm_error + int \<times> serial_bm_recv_ctx \<times> serial_bm_parse_ctx \<times> serial_port"

function bm_recv_loop :: "serial_bm_recv_ctx \<Rightarrow> serial_bm_parse_ctx \<Rightarrow> serial_port \<Rightarrow> bm_received" where
  "bm_recv_loop rc ctx p =
     (if length (rc_buffer rc) \<noteq> SERIAL_BM_MAX_BUFFER_SIZE \<or> pc_state ctx = MSG_DONE then Inl Not_a_state
      else case poll_read (SERIAL_BM_MAX_BUFFER_SIZE - rc_size rc) p of
        (No_data, p') \<Rightarrow> Inr (0, rc, ctx, p')
      | (Read_failed, p') \<Rightarrow> Inr (-1, rc, ctx, p')
      | (Got bs, p') \<Rightarrow>
          if SERIAL_BM_MAX_BUFFER_SIZE < rc_size rc then Inl Buffer_overrun
          else (case bm_turn bs rc ctx of (rc', ctx') \<Rightarrow>
                  if pc_state ctx' = MSG_DONE then Inr (int (pc_len ctx'), rc', ctx', p')
                  else bm_recv_loop rc' ctx' p'))"
  by pat_completeness auto
termination
proof (relation "measures [\<lambda>(rc, ctx, p). pending p, \<lambda>(rc, ctx, p). full rc]")
  show "wf (measures [\<lambda>(rc, ctx :: serial_bm_parse_ctx, p). pending p, \<lambda>(rc, ctx, p). full rc])" by simp
qed (rule bm_recv_progress, auto)

declare bm_recv_loop.simps [simp del]


text \<open>What a receive leaves alone, what it returns and that a message costs some input.\<close>

definition port_same :: "serial_port \<Rightarrow> serial_port \<Rightarrow> bool" where
  "port_same p q \<longleftrightarrow> sp_out q = sp_out p \<and> sp_clock q = sp_clock p \<and> sp_seq q = sp_seq p \<and> sp_is_system q = sp_is_system p"

lemma port_same_refl [simp]: "port_same p p"
  by (simp add: port_same_def)

lemma port_same_trans: "port_same p q \<Longrightarrow> port_same q r \<Longrightarrow> port_same p r"
  by (simp add: port_same_def)

lemma poll_read_same: "poll_read n p = (r, q) \<Longrightarrow> port_same p q"
  by (auto simp: poll_read_def port_same_def split: if_splits list.splits serial_ev.splits)

definition progress :: "serial_bm_recv_ctx \<Rightarrow> serial_port \<Rightarrow> serial_bm_recv_ctx \<Rightarrow> serial_port \<Rightarrow> bool" where
  "progress rc p rc' p' \<longleftrightarrow> pending p' < pending p \<or> pending p' = pending p \<and> full rc' < full rc"

lemma progress_trans: "progress rc p rc1 p1 \<Longrightarrow> progress rc1 p1 rc2 p2 \<Longrightarrow> progress rc p rc2 p2"
  by (auto simp: progress_def)

lemma bm_turn_ctx: "bm_turn bs rc ctx = (rc', c) \<Longrightarrow> \<exists>ds rv. bm_parse ds 0 ctx = (rv, c)"
  by (auto simp: bm_turn_def serial_bm_parse_buffer_def Let_def split: prod.splits)

lemma bm_recv_loop_result:
  assumes "bm_recv_loop rc ctx p = Inr (rv, rc', c, p')" and "pc_wf ctx"
  shows "length (rc_buffer rc') = SERIAL_BM_MAX_BUFFER_SIZE \<and> port_same p p' \<and> pending p' \<le> pending p \<and> pc_kept ctx c
    \<and> (if rv > 0 then pc_state c = MSG_DONE \<and> rv = int (pc_len c) \<and> progress rc p rc' p'
       else rv = -1 \<or> rv = 0)"
  using assms
proof (induction rc ctx p rule: bm_recv_loop.induct)
  case (1 rc ctx p)
  note loop = 1(2) [unfolded bm_recv_loop.simps [of rc ctx p]]
  from loop have wf: "length (rc_buffer rc) = SERIAL_BM_MAX_BUFFER_SIZE" "pc_state ctx \<noteq> MSG_DONE"
    by (auto split: if_splits)
  obtain r q where read: "poll_read (SERIAL_BM_MAX_BUFFER_SIZE - rc_size rc) p = (r, q)" by fastforce
  have keep: "port_same p q" "pending q \<le> pending p" using poll_read_same [OF read] poll_read_pending [OF read] by simp_all
  show ?case
  proof (cases r)
    case (Got bs)
    obtain rc1 c1 where turn: "bm_turn bs rc ctx = (rc1, c1)" by fastforce
    have len: "rc_size rc \<le> SERIAL_BM_MAX_BUFFER_SIZE" "rc_size rc + length bs \<le> 250"
      using loop wf read Got poll_read_len [OF read [unfolded Got]]
      by (auto simp: SERIAL_BM_MAX_BUFFER_SIZE_def split: if_splits)
    have prog: "progress rc p rc1 q"
      using bm_turn_progress [OF wf read [unfolded Got] turn len(1)] by (simp add: progress_def)
    have buf: "length (rc_buffer rc1) = SERIAL_BM_MAX_BUFFER_SIZE"
      using bm_turn_size(1) [OF turn wf(2) len(2)] wf(1) by (simp add: SERIAL_BM_MAX_BUFFER_SIZE_def)
    from bm_turn_ctx [OF turn] obtain ds k where parse: "bm_parse ds 0 ctx = (k, c1)" by blast
    have kept: "pc_kept ctx c1" using bm_parse_kept [OF parse 1(3)] .
    show ?thesis
    proof (cases "pc_state c1 = MSG_DONE")
      case True
      with loop wf read Got turn len have "rv = int (pc_len c1)" "rc' = rc1" "c = c1" "p' = q"
        by (auto split: if_splits)
      with keep kept buf prog True show ?thesis by auto
    next
      case False
      with loop wf read Got turn len have rec: "bm_recv_loop rc1 c1 q = Inr (rv, rc', c, p')"
        by (auto split: if_splits)
      from kept have wf1: "pc_wf c1" by (simp add: pc_kept_def)
      have "\<not> SERIAL_BM_MAX_BUFFER_SIZE < rc_size rc" "\<not> (length (rc_buffer rc) \<noteq> SERIAL_BM_MAX_BUFFER_SIZE \<or> pc_state ctx = MSG_DONE)"
        using wf len by simp_all
      from 1(1) [OF this(2) read [symmetric] Got this(1) turn [symmetric] False rec wf1]
      have IH: "length (rc_buffer rc') = SERIAL_BM_MAX_BUFFER_SIZE \<and> port_same q p' \<and> pending p' \<le> pending q \<and> pc_kept c1 c
        \<and> (if rv > 0 then pc_state c = MSG_DONE \<and> rv = int (pc_len c) \<and> progress rc1 q rc' p' else rv = -1 \<or> rv = 0)"
        by simp
      with kept have "pc_kept ctx c" by (simp add: pc_kept_def)
      with IH keep prog show ?thesis by (auto intro: port_same_trans progress_trans order_trans)
    qed
  qed (use loop wf read keep 1(3) in \<open>auto simp: pc_kept_def split: if_splits\<close>)
qed

definition serial_bm_recv_msg :: "serial_bm_recv_ctx \<Rightarrow> byte list \<Rightarrow> nat \<Rightarrow> serial_port \<Rightarrow>
    bm_error + int \<times> serial_bm_recv_ctx \<times> byte list \<times> serial_port" where
  "serial_bm_recv_msg rc msg_data msg_len p =
     (case bm_recv_loop rc \<lparr>pc_state = MSG_NONE, pc_msg = msg_data, pc_len = 0, pc_max = msg_len, pc_escape = False\<rparr> p of
        Inl e \<Rightarrow> Inl e
      | Inr (rv, rc', c, p') \<Rightarrow> Inr (rv, rc', pc_msg c, p'))"

lemma serial_bm_recv_msg_result:
  assumes "serial_bm_recv_msg rc m mx p = Inr (rv, rc', m', p')" and "mx \<le> length m"
  shows "length (rc_buffer rc') = SERIAL_BM_MAX_BUFFER_SIZE" and "port_same p p'" and "pending p' \<le> pending p"
    and "length m' = length m" and "drop mx m' = drop mx m" and "rv \<le> int mx"
    and "rv > 0 \<Longrightarrow> progress rc p rc' p'" and "rv > 0 \<or> rv = -1 \<or> rv = 0"
proof -
  let ?ctx = "\<lparr>pc_state = MSG_NONE, pc_msg = m, pc_len = 0, pc_max = mx, pc_escape = False\<rparr>"
  from assms(1) obtain c where loop: "bm_recv_loop rc ?ctx p = Inr (rv, rc', c, p')" and m': "m' = pc_msg c"
    by (auto simp: serial_bm_recv_msg_def split: sum.splits)
  have wf: "pc_wf ?ctx" using assms(2) by (simp add: pc_wf_def)
  note r = bm_recv_loop_result [OF loop wf]
  show "length (rc_buffer rc') = SERIAL_BM_MAX_BUFFER_SIZE" "port_same p p'" "pending p' \<le> pending p"
    "length m' = length m" "drop mx m' = drop mx m" "rv > 0 \<or> rv = -1 \<or> rv = 0"
    using r m' by (auto simp: pc_kept_def split: if_splits)
  show "progress rc p rc' p'" if "rv > 0" using r that by simp
  show "rv \<le> int mx" using r by (auto simp: pc_kept_def pc_wf_def split: if_splits)
qed


section \<open>Building requests\<close>

record serial_bm_request_ctx =
  q_rsSA :: byte
  q_netFn :: byte
  q_rqSA :: byte
  q_rqSeq :: byte
  q_cmd :: byte

definition ctx_of_hdr :: "ipmb_msg_hdr \<Rightarrow> serial_bm_request_ctx" where
  "ctx_of_hdr h = \<lparr>q_rsSA = h_rsSA h, q_netFn = h_netFn h, q_rqSA = h_rqSA h, q_rqSeq = h_rqSeq h, q_cmd = h_cmd h\<rparr>"

definition outer_send_message :: "ipmi_intf \<Rightarrow> byte \<Rightarrow> ipmi_send_message_rq" where
  "outer_send_message intf seq =
     (let rs = ucast (transit_addr intf)
      in \<lparr>smr_channel = transit_channel intf OR 0x40,
          smr_msg = \<lparr>h_rsSA = rs, h_netFn = 0x18, h_csum1 = - (rs + 0x18), h_rqSA = ucast (my_addr intf),
            h_rqSeq = seq, h_cmd = 0x34\<rparr>\<rparr>)"

definition inner_send_message :: "ipmi_intf \<Rightarrow> ipmi_rq \<Rightarrow> byte \<Rightarrow> ipmi_send_message_rq" where
  "inner_send_message intf req seq =
     (let rs = ucast (target_addr intf); nf = netfn_lun req
      in \<lparr>smr_channel = target_channel intf OR 0x40,
          smr_msg = \<lparr>h_rsSA = rs, h_netFn = nf, h_csum1 = - (rs + nf), h_rqSA = ucast (my_addr intf),
            h_rqSeq = seq, h_cmd = rq_cmd req\<rparr>\<rparr>)"

text \<open>The correction of the outermost Send Message request on a system interface.\<close>

definition system_fix :: "bool \<Rightarrow> ipmi_send_message_rq \<Rightarrow> ipmi_send_message_rq" where
  "system_fix is_system r =
     (if is_system
      then let m = smr_msg r; m = m\<lparr>h_rqSeq := h_rqSeq m OR 2\<rparr>; ch = smr_channel r AND NOT 0x40;
               m = (if ch \<noteq> 0 then m\<lparr>h_rqSA := IPMI_BMC_SLAVE_ADDR\<rparr> else m)
           in \<lparr>smr_channel = ch, smr_msg = m\<rparr>
      else r)"

text \<open>
  The whole message. \<open>outer_rq\<close> and \<open>inner_rq\<close> are the same structure when there is one level
  of bridging, so the correction applies to it. Result: bridging level, message array,
  request contexts, message length, port; no result when the message is too long, in which
  case the message length is left unset.
\<close>

definition serial_bm_build_msg :: "ipmi_intf \<Rightarrow> ipmi_rq \<Rightarrow> byte list \<Rightarrow> nat \<Rightarrow>
    serial_bm_request_ctx \<times> serial_bm_request_ctx \<Rightarrow> serial_port \<Rightarrow>
    (nat \<times> byte list \<times> (serial_bm_request_ctx \<times> serial_bm_request_ctx) \<times> nat \<times> serial_port) option" where
  "serial_bm_build_msg intf req msg max_len ctx p =
     (let level = ipmi_intf_get_bridging_level intf; data = rq_data req
      in if length data + 7 + level * 8 > max_len then None
         else let (s, p') = alloc_seq p; seq = push_bit 2 s;
                  nf = (if level \<noteq> 0 then 0x18 else netfn_lun req);
                  hdr = \<lparr>h_rsSA = IPMI_BMC_SLAVE_ADDR, h_netFn = nf, h_csum1 = - (IPMI_BMC_SLAVE_ADDR + nf),
                    h_rqSA = IPMI_REMOTE_SWID, h_rqSeq = seq, h_cmd = (if level \<noteq> 0 then 0x34 else rq_cmd req)\<rparr>;
                  inner0 = inner_send_message intf req seq;
                  outer = system_fix (sp_is_system p) (if level = 2 then outer_send_message intf seq else inner0);
                  inner = (if level = 2 then inner0 else outer);
                  csum = (\<lambda>h rest. ipmi_csum ([h_rqSA h, h_rqSeq h, h_cmd h] @ rest));
                  bytes =
                    (if level = 0 then hdr_bytes hdr @ data @ [csum hdr data]
                     else if level = 2 then
                       hdr_bytes hdr @ smr_bytes outer @ smr_bytes inner @ data
                         @ [csum (smr_msg inner) data, csum (smr_msg outer) [smr_channel inner], csum hdr [smr_channel outer]]
                     else
                       hdr_bytes hdr @ smr_bytes inner @ data
                         @ [csum (smr_msg inner) data, csum hdr [smr_channel inner]])
              in Some (level, put_at 0 bytes msg,
                   (ctx_of_hdr hdr, if level \<noteq> 0 then ctx_of_hdr (smr_msg outer) else snd ctx), length bytes, p'))"

section \<open>Waiting for the response\<close>

text \<open>The network function and sequence bytes of the response: requester and responder LUN swapped.\<close>

definition rs_netFn :: "serial_bm_request_ctx \<Rightarrow> byte" where
  "rs_netFn c = ((q_netFn c OR 4) AND NOT 3) OR (q_rqSeq c AND 3)"

definition rs_rqSeq :: "serial_bm_request_ctx \<Rightarrow> byte" where
  "rs_rqSeq c = (q_rqSeq c AND NOT 3) OR (q_netFn c AND 3)"

definition response_matches :: "serial_bm_request_ctx \<Rightarrow> ipmb_msg_hdr \<Rightarrow> bool" where
  "response_matches c h \<longleftrightarrow> h_rsSA h = q_rqSA c \<and> h_netFn h = rs_netFn c \<and> h_rqSA h = q_rsSA c
     \<and> h_rqSeq h = rs_rqSeq c \<and> h_cmd h = q_cmd c"

text \<open>The tests of one received message.\<close>

definition response_accepted :: "serial_bm_request_ctx \<Rightarrow> byte list \<Rightarrow> bool" where
  "response_accepted c m \<longleftrightarrow> 8 \<le> length m \<and> ipmi_csum (take 3 m) = 0 \<and> ipmi_csum (drop 3 m) = 0
     \<and> response_matches c (hdr_of_bytes m)"

function serial_bm_wait_response :: "serial_bm_request_ctx \<Rightarrow> serial_bm_recv_ctx \<Rightarrow> byte list \<Rightarrow> nat \<Rightarrow> serial_port \<Rightarrow>
    bm_error + int \<times> serial_bm_recv_ctx \<times> byte list \<times> serial_port" where
  "serial_bm_wait_response req_ctx rc msg max_len p =
     (if max_len > length msg then Inl Not_a_state
      else case serial_bm_recv_msg rc msg max_len p of
        Inl e \<Rightarrow> Inl e
      | Inr (msg_len, rc', msg', p') \<Rightarrow>
          if msg_len \<le> 0 then Inr (msg_len, rc', msg', p')
          else if response_accepted req_ctx (take (nat msg_len) msg')
          then Inr (msg_len - 7, rc', put_at 0 (take (nat msg_len - 7) (drop 6 msg')) msg', p')
          else serial_bm_wait_response req_ctx rc' msg' max_len p')"
  by pat_completeness auto
termination
proof (relation "measures [\<lambda>(_, rc, _, _, p). pending p, \<lambda>(_, rc, _, _, p). full rc]", goal_cases)
  case 1
  show ?case by simp
next
  case (2 req_ctx rc msg max_len p)
  then have "progress rc p (fst (snd b)) (snd (snd (snd b)))" if "serial_bm_recv_msg rc msg max_len p = Inr b" "0 < fst b" for b
    using serial_bm_recv_msg_result(7) [of rc msg max_len p "fst b" "fst (snd b)" "fst (snd (snd b))" "snd (snd (snd b))"] that
    by simp
  with 2 show ?case by (fastforce simp: progress_def)
qed

declare serial_bm_wait_response.simps [simp del]


lemma serial_bm_wait_response_result:
  assumes "serial_bm_wait_response c rc m mx p = Inr (rv, rc', m', p')"
  shows "port_same p p' \<and> length m' = length m \<and> rv \<le> int mx - 7 + (if rv > 0 then 0 else 7)
    \<and> (rv > 0 \<longrightarrow> (\<exists>full_msg. response_accepted c full_msg \<and> length full_msg \<le> mx
          \<and> rv = int (length full_msg) - 7 \<and> take (nat rv) m' = butlast (drop 6 full_msg)))
    \<and> (rv > 0 \<or> rv = -1 \<or> rv = 0)"
  using assms
proof (induction c rc m mx p rule: serial_bm_wait_response.induct)
  case (1 c rc m mx p)
  note loop = 1(2) [unfolded serial_bm_wait_response.simps [of c rc m mx p]]
  from loop have mx: "mx \<le> length m" by (auto split: if_splits)
  from loop mx obtain k rc1 m1 p1 where recv: "serial_bm_recv_msg rc m mx p = Inr (k, rc1, m1, p1)"
    by (auto split: sum.splits if_splits)
  note r = serial_bm_recv_msg_result [OF recv mx]
  consider (stop) "k \<le> 0" | (hit) "k > 0" "response_accepted c (take (nat k) m1)"
    | (miss) "k > 0" "\<not> response_accepted c (take (nat k) m1)" by fastforce
  then show ?case
  proof cases
    case stop
    with loop mx recv r show ?thesis by (auto split: if_splits)
  next
    case hit
    let ?f = "take (nat k) m1"
    have len: "length ?f = nat k" using r(4,6) mx hit(1) by (simp add: min_def) linarith
    have eight: "8 \<le> nat k" using hit(2) len by (simp add: response_accepted_def)
    have out: "rv = k - 7" "m' = put_at 0 (take (nat k - 7) (drop 6 m1)) m1" "p' = p1"
      using loop mx recv hit by (auto split: if_splits)
    have "butlast (drop 6 ?f) = take (nat k - 7) (drop 6 m1)"
      using len by (simp add: butlast_conv_take drop_take)
    moreover have "take (nat rv) m' = take (nat k - 7) (drop 6 m1)"
    proof -
      have "nat rv = nat k - 7" "nat k - 7 \<le> length m1 - 6" using len eight out by simp_all
      then show ?thesis using take_put_at [of 0 "take (nat k - 7) (drop 6 m1)" m1 "nat rv"] out(2) by simp
    qed
    moreover have "length m' = length m" using out(2) r(4)
      length_put_at [of 0 "take (nat k - 7) (drop 6 m1)" m1] by simp
    ultimately show ?thesis using out r(2,6) hit len eight by (auto intro!: exI [of _ ?f])
  next
    case miss
    with loop mx recv have rec: "serial_bm_wait_response c rc1 m1 mx p1 = Inr (rv, rc', m', p')"
      by (auto split: if_splits)
    have "\<not> mx > length m" "\<not> k \<le> 0" using mx miss by simp_all
    from 1(1) [OF this(1) recv refl refl refl this(2) miss(2) rec] r(2,4) show ?thesis
      by (auto intro: port_same_trans)
  qed
qed

section \<open>The receive message queue\<close>

text \<open>
  \<open>data\<close> is the local array of 47 bytes: the Get Message request is built in it and the
  response received into it. The response to the inner request follows a seven byte
  header.
\<close>

definition get_message_ctx :: "byte \<Rightarrow> serial_bm_request_ctx" where
  "get_message_ctx s = \<lparr>q_rsSA = IPMI_BMC_SLAVE_ADDR, q_netFn = 0x18, q_rqSA = IPMI_REMOTE_SWID, q_rqSeq = push_bit 2 s, q_cmd = 0x33\<rparr>"

definition get_message_request :: "serial_bm_request_ctx \<Rightarrow> byte list" where
  "get_message_request c =
     [q_rsSA c, q_netFn c, ipmi_csum [q_rsSA c, q_netFn c], q_rqSA c, q_rqSeq c, q_cmd c,
      ipmi_csum [q_rqSA c, q_rqSeq c, q_cmd c]]"

definition get_message_matches :: "serial_bm_request_ctx \<Rightarrow> byte list \<Rightarrow> bool" where
  "get_message_matches c d \<longleftrightarrow> d ! 2 = rs_netFn c \<and> d ! 4 = q_rsSA c \<and> d ! 5 = rs_rqSeq c \<and> d ! 6 = q_cmd c"

lemma alloc_seq_clock: "alloc_seq p = (s, q) \<Longrightarrow> sp_clock q = sp_clock p"
  by (auto simp: alloc_seq_def Let_def)

lemma wait_response_clock:
  "serial_bm_wait_response c rc m mx (serial_bm_send_msg x (port_flush p)) = Inr (rv, rc', m', p') \<Longrightarrow> sp_clock p' = sp_clock p"
  using serial_bm_wait_response_result
  by (fastforce simp: port_same_def serial_bm_send_msg_def port_write_def port_flush_def)

lemma clock_below_shorter: "clock_below t p = (True, q) \<Longrightarrow> length (sp_clock q) < length (sp_clock p)"
  by (auto simp: clock_below_def split: list.splits)

function serial_bm_get_message :: "u32 \<Rightarrow> serial_bm_request_ctx \<Rightarrow> byte list \<Rightarrow> serial_bm_recv_ctx \<Rightarrow> byte list \<Rightarrow> serial_port \<Rightarrow>
    bm_error + int \<times> serial_bm_recv_ctx \<times> byte list \<times> serial_port" where
  "serial_bm_get_message tmo req_ctx data rc msg p =
     (case alloc_seq p of (s, p1) \<Rightarrow>
        (let tmp_ctx = get_message_ctx s;
             data1 = put_at 0 (get_message_request tmp_ctx) data;
             p2 = serial_bm_send_msg (take 7 data1) (port_flush p1)
         in case serial_bm_wait_response tmp_ctx rc data1 SERIAL_BM_MAX_MSG_SIZE p2 of
              Inl e \<Rightarrow> Inl e
            | Inr (rv, rc', data2, p3) \<Rightarrow>
                if rv \<le> 0 then Inr (rv, rc', msg, p3)
                else if data2 ! 0 = 0 \<and> get_message_matches req_ctx data2 then
                  (if rv < 8 then Inl Bad_copy_length
                   else Inr (rv - 8, rc', put_at 0 (take (nat rv - 8) (drop 7 data2)) msg, p3))
                else if data2 ! 0 \<noteq> 0 \<and> data2 ! 0 \<noteq> 0x80 then Inr (0, rc', msg, p3)
                else (case clock_below tmo p3 of (below, p4) \<Rightarrow>
                        if below then serial_bm_get_message tmo req_ctx data2 rc' msg p4
                        else Inr (0, rc', msg, p4))))"
  by pat_completeness auto
termination
proof (relation "measure (\<lambda>(_, _, _, _, _, p). length (sp_clock p))", goal_cases)
  case 1
  show ?case by simp
next
  case (2 tmo c data rc msg p)
  then show ?case by (auto dest!: alloc_seq_clock [OF sym] wait_response_clock clock_below_shorter [OF sym])
qed

declare serial_bm_get_message.simps [simp del]

section \<open>The request loop\<close>

text \<open>
  The local arrays are not initialised in C: their contents at entry are the fields of
  \<open>bm_stack\<close>, so that the theorems hold whatever they are.
\<close>

record bm_stack =
  st_msg :: "byte list"
  st_data :: "byte list"
  st_buffer :: "byte list"
  st_ctx :: "serial_bm_request_ctx \<times> serial_bm_request_ctx"

definition bm_result :: "nat \<Rightarrow> byte list \<Rightarrow> int \<Rightarrow> bm_error + ipmi_rs option" where
  "bm_result level resp rv =
     (if level = 2 \<and> resp ! 0 = 0 then
        if rv < 9 then Inl Bad_copy_length else Inr (Some \<lparr>rs_ccode = resp ! 7, rs_data = take (nat rv - 9) (drop 8 resp)\<rparr>)
      else if rv < 1 then Inl Bad_copy_length
      else Inr (Some \<lparr>rs_ccode = resp ! 0, rs_data = take (nat rv - 1) (drop 1 resp)\<rparr>))"

definition bm_bridged_result :: "nat \<Rightarrow> byte list \<Rightarrow> int \<Rightarrow> bm_error + ipmi_rs option" where
  "bm_bridged_result level resp rv =
     (if resp ! 0 = 0 \<and> level = 2 \<and> rv < 8 then Inr None else bm_result level resp rv)"

text \<open>One turn of the retry loop: \<open>None\<close> in the result of a turn means that it goes on.\<close>

definition bm_attempt :: "bm_stack \<Rightarrow> ipmi_intf \<Rightarrow> ipmi_rq \<Rightarrow> serial_bm_recv_ctx \<Rightarrow> byte list \<Rightarrow> serial_port \<Rightarrow>
    bm_error + (ipmi_rs option) option \<times> serial_bm_recv_ctx \<times> byte list \<times> serial_port" where
  "bm_attempt st intf req rc msg p =
     (case serial_bm_build_msg intf req msg SERIAL_BM_MAX_MSG_SIZE (st_ctx st) p of
        None \<Rightarrow> Inl Uninitialised
      | Some (level, msg1, ctx, msg_len, p1) \<Rightarrow>
          (let p2 = serial_bm_send_msg (take msg_len msg1) (port_flush p1);
               deliver = (\<lambda>r rc m p. map_sum id (\<lambda>x. (Some x, rc, m, p)) r)
           in case serial_bm_wait_response (fst ctx) rc msg1 SERIAL_BM_MAX_MSG_SIZE p2 of
                Inl e \<Rightarrow> Inl e
              | Inr (rv, rc1, msg2, p3) \<Rightarrow>
                  if rv < 0 then Inr (Some None, rc1, msg2, p3)
                  else if rv = 0 then Inr (None, rc1, msg2, p3)
                  else if level \<noteq> 0 \<and> msg2 ! 0 = 0 then
                    if sp_is_system p \<or> rv = 1 then
                      (case (if sp_is_system p
                             then serial_bm_get_message (timeout (ssn_params intf)) (snd ctx) (st_data st) rc1 msg2 p3
                             else serial_bm_wait_response (snd ctx) rc1 msg2 SERIAL_BM_MAX_MSG_SIZE p3) of
                         Inl e \<Rightarrow> Inl e
                       | Inr (rv', rc2, msg3, p4) \<Rightarrow>
                           if rv' < 0 then Inr (Some None, rc2, msg3, p4)
                           else if rv' = 0 then Inr (None, rc2, msg3, p4)
                           else deliver (bm_bridged_result level msg3 rv') rc2 msg3 p4)
                    else deliver (bm_bridged_result level (drop 7 msg2) (rv - 8)) rc1 msg2 p3
                  else deliver (bm_result level msg2 rv) rc1 msg2 p3))"

primrec bm_retry :: "nat \<Rightarrow> bm_stack \<Rightarrow> ipmi_intf \<Rightarrow> ipmi_rq \<Rightarrow> serial_bm_recv_ctx \<Rightarrow> byte list \<Rightarrow> serial_port \<Rightarrow>
    bm_error + ipmi_rs option \<times> serial_port" where
  "bm_retry 0 st intf req rc msg p = Inr (None, p)"
| "bm_retry (Suc n) st intf req rc msg p =
     (case bm_attempt st intf req rc msg p of
        Inl e \<Rightarrow> Inl e
      | Inr (Some r, rc', msg', p') \<Rightarrow> Inr (r, p')
      | Inr (None, rc', msg', p') \<Rightarrow> bm_retry n st intf req rc' msg' p')"

definition SERIAL_BM_TIMEOUT :: u32 where "SERIAL_BM_TIMEOUT = 5"

definition SERIAL_BM_RETRY_COUNT :: int where "SERIAL_BM_RETRY_COUNT = 5"

definition serial_bm_send_request :: "int \<Rightarrow> bm_stack \<Rightarrow> ipmi_intf \<Rightarrow> ipmi_rq \<Rightarrow> serial_port \<Rightarrow>
    bm_error + ipmi_rs option \<times> ipmi_intf \<times> serial_port" where
  "serial_bm_send_request open_fd st intf req p =
     (case (if opened intf then (0, intf, p) else serial_open open_fd SERIAL_BM_TIMEOUT SERIAL_BM_RETRY_COUNT intf p) of
        (rc, intf1, p1) \<Rightarrow>
          if rc < 0 then Inr (None, intf1, p1)
          else map_sum id (\<lambda>(r, p2). (r, intf1, p2))
            (bm_retry (nat (retry (ssn_params intf1))) st intf1 req \<lparr>rc_buffer = st_buffer st, rc_size = 0\<rparr> (st_msg st) p1))"

definition SERIAL_BM_MAX_RQ_SIZE :: u16 where "SERIAL_BM_MAX_RQ_SIZE = 33"

definition SERIAL_BM_MAX_RS_SIZE :: u16 where "SERIAL_BM_MAX_RS_SIZE = 32"

definition serial_bm_setup :: "ipmi_intf \<Rightarrow> int \<times> ipmi_intf" where
  "serial_bm_setup intf =
     (0, intf\<lparr>max_request_data_size := SERIAL_BM_MAX_RQ_SIZE, max_response_data_size := SERIAL_BM_MAX_RS_SIZE\<rparr>)"


section \<open>Receiving a framed message in pieces\<close>

lemma bm_parse_shift:
  "bm_parse ds i ctx = (rv, c) \<Longrightarrow> rv \<noteq> -1 \<Longrightarrow> bm_parse ds j ctx = (j + (rv - i), c)"
proof (induction ds arbitrary: i j ctx)
  case (Cons d ds)
  show ?case
  proof (cases "bm_step d ctx")
    case (Continue c')
    with Cons.prems Cons.IH [of "i + 1" c' "j + 1"] show ?thesis by simp
  qed (use Cons.prems in auto)
qed auto

lemma bm_parse_prefix:
  "bm_parse a i ctx = (rv, c) \<Longrightarrow> pc_state ctx \<noteq> MSG_DONE \<Longrightarrow> 0 \<le> i \<Longrightarrow> rv = -1 \<or> pc_state c = MSG_DONE \<Longrightarrow>
     bm_parse (a @ b) i ctx = (rv, c)"
proof (induction a arbitrary: i ctx)
  case (Cons d ds)
  show ?case
  proof (cases "bm_step d ctx")
    case (Continue c')
    with Cons.prems bm_step_state [OF Cons.prems(2), of d] Cons.IH [of "i + 1" c'] show ?thesis by simp
  qed (use Cons.prems in simp_all)
qed auto

lemma bm_turn_fresh:
  assumes "length buf = SERIAL_BM_MAX_BUFFER_SIZE" and "length bs \<le> SERIAL_BM_MAX_BUFFER_SIZE"
    and "bm_parse bs 0 ctx = (int (length bs), c)"
  shows "\<exists>buf'. bm_turn bs \<lparr>rc_buffer = buf, rc_size = 0\<rparr> ctx = (\<lparr>rc_buffer = buf', rc_size = 0\<rparr>, c)
    \<and> length buf' = SERIAL_BM_MAX_BUFFER_SIZE"
  using assms by (simp add: bm_turn_def Let_def serial_bm_parse_buffer_def put_at_def)

text \<open>Reads that parse to the end one after the other, the last one completing the message.\<close>

lemma bm_recv_pieces:
  assumes "bm_parse (concat cs) 0 ctx = (int (length (concat cs)), c)" and "pc_state c = MSG_DONE"
    and "pc_state ctx \<noteq> MSG_DONE" and "\<forall>x\<in>set cs. x \<noteq> [] \<and> length x \<le> SERIAL_BM_MAX_BUFFER_SIZE"
    and "sp_queue p = []" and "sp_events p = map Ev_data cs @ es" and "length buf = SERIAL_BM_MAX_BUFFER_SIZE"
  shows "\<exists>buf'. bm_recv_loop \<lparr>rc_buffer = buf, rc_size = 0\<rparr> ctx p =
      Inr (int (pc_len c), \<lparr>rc_buffer = buf', rc_size = 0\<rparr>, c, p\<lparr>sp_events := es\<rparr>)
    \<and> length buf' = SERIAL_BM_MAX_BUFFER_SIZE"
  using assms
proof (induction cs arbitrary: ctx p buf)
  case Nil
  then show ?case by simp
next
  case (Cons x cs)
  obtain rv c1 where x: "bm_parse x 0 ctx = (rv, c1)" by fastforce
  note r = bm_parse_rv [OF x Cons.prems(3)]
  let ?p = "p\<lparr>sp_events := map Ev_data cs @ es\<rparr>"
  have read: "poll_read SERIAL_BM_MAX_BUFFER_SIZE p = (Got x, ?p)"
    using Cons.prems by (simp add: poll_read_def)
  have early: "bm_parse (x @ y) 0 ctx = (rv, c1)" if "rv = -1 \<or> pc_state c1 = MSG_DONE" for y
    using bm_parse_prefix [OF x Cons.prems(3) _ that] by simp
  have len: "length x \<le> SERIAL_BM_MAX_BUFFER_SIZE" "0 < length x" using Cons.prems(4) by auto
  have rv: "rv = int (length x)"
  proof (rule ccontr)
    assume "rv \<noteq> int (length x)"
    with r early [of "concat cs"] Cons.prems(1) show False using len by (auto split: if_splits)
  qed
  from bm_turn_fresh [OF Cons.prems(7) len(1) x [unfolded rv]] obtain b1
    where turn: "bm_turn x \<lparr>rc_buffer = buf, rc_size = 0\<rparr> ctx = (\<lparr>rc_buffer = b1, rc_size = 0\<rparr>, c1)"
      and b1: "length b1 = SERIAL_BM_MAX_BUFFER_SIZE" by blast
  show ?case
  proof (cases "pc_state c1 = MSG_DONE")
    case True
    with early [of "concat cs"] Cons.prems(1) rv have "concat cs = []" "c1 = c" by auto
    moreover from this Cons.prems(4) have "cs = []" by (cases cs) auto
    ultimately show ?thesis using True read turn b1 Cons.prems(3,7)
      by (subst bm_recv_loop.simps) simp
  next
    case False
    with r rv have "bm_parse (x @ concat cs) 0 ctx = bm_parse (concat cs) (int (length x)) c1"
      using bm_parse_append [OF x Cons.prems(3)] by simp
    with Cons.prems(1) have whole: "bm_parse (concat cs) (int (length x)) c1 = (int (length x) + int (length (concat cs)), c)"
      by simp
    have "bm_parse (concat cs) 0 c1 = (int (length (concat cs)), c)"
      using bm_parse_shift [OF whole, of 0] by simp
    from Cons.IH [OF this Cons.prems(2) False, of ?p b1] Cons.prems b1
    show ?thesis using False read turn b1 Cons.prems(3,7)
      by (subst bm_recv_loop.simps) simp
  qed
qed


section \<open>Reference for built requests\<close>

text \<open>
  A Send Message request around a message: channel byte, requester address and sequence
  byte depend on whether the BMC tracks the response (a remote console) or the response
  goes to the receive message queue of LUN 2 (a system interface).
\<close>

definition bridge_route :: "bool \<Rightarrow> byte \<Rightarrow> byte \<Rightarrow> byte \<Rightarrow> byte \<times> byte \<times> byte" where
  "bridge_route is_system ch my seq =
     (if is_system then (ch AND NOT 0x40, if ch AND NOT 0x40 = 0 then my else 0x20, seq OR 2)
      else (ch OR 0x40, my, seq))"

definition bm_reference :: "ipmi_intf \<Rightarrow> ipmi_rq \<Rightarrow> bool \<Rightarrow> byte \<Rightarrow> byte list" where
  "bm_reference intf req is_system seq =
     (let my = ucast (my_addr intf); tgt = ucast (target_addr intf); transit = ucast (transit_addr intf);
          nf = netfn_lun req; send_message = ipmb_msg 0x20 0x18 0x81 seq 0x34
      in if ipmi_intf_get_bridging_level intf = 0 then ipmb_msg 0x20 nf 0x81 seq (rq_cmd req) (rq_data req)
         else if ipmi_intf_get_bridging_level intf = 1 then
           (case bridge_route is_system (target_channel intf) my seq of (ch, rqSA, rqSeq) \<Rightarrow>
              send_message (ch # ipmb_msg tgt nf rqSA rqSeq (rq_cmd req) (rq_data req)))
         else
           (case bridge_route is_system (transit_channel intf) my seq of (ch, rqSA, rqSeq) \<Rightarrow>
              send_message (ch # ipmb_msg transit 0x18 rqSA rqSeq 0x34
                ((target_channel intf OR 0x40) # ipmb_msg tgt nf my seq (rq_cmd req) (rq_data req)))))"

lemma channel_track_clear: "((ch :: byte) OR 0x40) AND NOT 0x40 = ch AND NOT 0x40"
  by (rule bit_eqI) (auto simp: bit_simps)

lemma channel_track_mask: "((ch :: byte) OR 64) AND - 65 = ch AND - 65"
  using channel_track_clear [of ch] by simp

lemma length_bm_reference:
  "length (bm_reference intf req s q) = length (rq_data req) + 7 + 8 * ipmi_intf_get_bridging_level intf"
proof -
  have "ipmi_intf_get_bridging_level intf \<in> {0, 1, 2}" using bridging_level_le_2 [of intf] by (simp del: bridging_level_le_2) linarith
  then show ?thesis by (auto simp: bm_reference_def Let_def split: prod.splits)
qed

lemma bm_bytes_level1:
  assumes "r = system_fix s (inner_send_message intf req q)" and "ipmi_intf_get_bridging_level intf = 1"
  shows "hdr_bytes \<lparr>h_rsSA = 0x20, h_netFn = 0x18, h_csum1 = - (0x20 + 0x18), h_rqSA = 0x81, h_rqSeq = q, h_cmd = 0x34\<rparr>
      @ smr_bytes r @ rq_data req
      @ [ipmi_csum ([h_rqSA (smr_msg r), h_rqSeq (smr_msg r), h_cmd (smr_msg r)] @ rq_data req),
         ipmi_csum ([0x81, q, 0x34] @ [smr_channel r])] = bm_reference intf req s q"
  using assms(2)
  by (simp add: assms(1) bm_reference_def bridge_route_def Let_def ipmb_msg_send_message system_fix_def
      inner_send_message_def smr_bytes_def hdr_bytes_def channel_track_mask IPMI_BMC_SLAVE_ADDR_def)
    (simp add: ipmb_msg_def)

lemma bm_bytes_level2:
  assumes "r = system_fix s (outer_send_message intf q)" and "i = inner_send_message intf req q"
    and "ipmi_intf_get_bridging_level intf = 2"
  shows "hdr_bytes \<lparr>h_rsSA = 0x20, h_netFn = 0x18, h_csum1 = - (0x20 + 0x18), h_rqSA = 0x81, h_rqSeq = q, h_cmd = 0x34\<rparr>
      @ smr_bytes r @ smr_bytes i @ rq_data req
      @ [ipmi_csum ([h_rqSA (smr_msg i), h_rqSeq (smr_msg i), h_cmd (smr_msg i)] @ rq_data req),
         ipmi_csum ([h_rqSA (smr_msg r), h_rqSeq (smr_msg r), h_cmd (smr_msg r)] @ [smr_channel i]),
         ipmi_csum ([0x81, q, 0x34] @ [smr_channel r])] = bm_reference intf req s q"
  using assms(3)
  by (simp add: assms(1,2) bm_reference_def bridge_route_def Let_def ipmb_msg_send_message2 system_fix_def
      outer_send_message_def inner_send_message_def smr_bytes_def hdr_bytes_def channel_track_mask IPMI_BMC_SLAVE_ADDR_def)
    (simp add: ipmb_msg_def)

lemma serial_bm_build_msg_reference:
  assumes "length (rq_data req) + 7 + 8 * ipmi_intf_get_bridging_level intf \<le> mx"
  shows "\<exists>ctx'. serial_bm_build_msg intf req msg mx ctx p =
    (let q = push_bit 2 (next_seq (sp_seq p)); m = bm_reference intf req (sp_is_system p) q
     in Some (ipmi_intf_get_bridging_level intf, put_at 0 m msg, ctx', length m, p\<lparr>sp_seq := next_seq (sp_seq p)\<rparr>))
    \<and> fst ctx' = \<lparr>q_rsSA = 0x20, q_netFn = (if ipmi_intf_get_bridging_level intf = 0 then netfn_lun req else 0x18),
         q_rqSA = 0x81, q_rqSeq = push_bit 2 (next_seq (sp_seq p)),
         q_cmd = (if ipmi_intf_get_bridging_level intf = 0 then rq_cmd req else 0x34)\<rparr>"
proof -
  let ?q = "push_bit 2 (next_seq (sp_seq p))"
  consider "ipmi_intf_get_bridging_level intf = 0" | "ipmi_intf_get_bridging_level intf = 1"
    | "ipmi_intf_get_bridging_level intf = 2"
    using bridging_level_le_2 [of intf] by linarith
  then show ?thesis
  proof cases
    case 1
    with assms show ?thesis
      by (simp add: serial_bm_build_msg_def alloc_seq_def bm_reference_def Let_def hdr_bytes_def ipmb_msg_def
          ctx_of_hdr_def IPMI_BMC_SLAVE_ADDR_def IPMI_REMOTE_SWID_def)
  next
    case 2
    with assms bm_bytes_level1 [of _ "sp_is_system p" intf req ?q, OF refl] show ?thesis
      by (simp add: serial_bm_build_msg_def alloc_seq_def Let_def length_bm_reference
          ctx_of_hdr_def IPMI_BMC_SLAVE_ADDR_def IPMI_REMOTE_SWID_def)
  next
    case 3
    with assms bm_bytes_level2 [of _ "sp_is_system p" intf ?q _ req, OF refl refl] show ?thesis
      by (simp add: serial_bm_build_msg_def alloc_seq_def Let_def length_bm_reference
          ctx_of_hdr_def IPMI_BMC_SLAVE_ADDR_def IPMI_REMOTE_SWID_def)
  qed
qed

section \<open>Requests and responses on the line\<close>

lemma serial_bm_build_msg_too_long:
  "mx < length (rq_data req) + 7 + 8 * ipmi_intf_get_bridging_level intf \<Longrightarrow> serial_bm_build_msg intf req msg mx ctx p = None"
  by (simp add: serial_bm_build_msg_def Let_def mult.commute)

lemma serial_bm_send_msg_frame: "serial_bm_send_msg msg p = port_write (bm_frame msg) p"
  by (simp add: serial_bm_send_msg_def flip: length_bm_frame)

lemma recv_pieces:
  assumes "concat cs = bm_frame m" and "\<forall>x\<in>set cs. x \<noteq> [] \<and> length x \<le> SERIAL_BM_MAX_BUFFER_SIZE"
    and "length m \<le> mx" and "mx \<le> length m0" and "sp_queue p = []" and "sp_events p = map Ev_data cs @ es"
    and "length buf = SERIAL_BM_MAX_BUFFER_SIZE"
  shows "\<exists>buf'. serial_bm_recv_msg \<lparr>rc_buffer = buf, rc_size = 0\<rparr> m0 mx p =
      Inr (int (length m), \<lparr>rc_buffer = buf', rc_size = 0\<rparr>, put_at 0 m m0, p\<lparr>sp_events := es\<rparr>)
    \<and> length buf' = SERIAL_BM_MAX_BUFFER_SIZE"
proof -
  let ?ctx = "\<lparr>pc_state = MSG_NONE, pc_msg = m0, pc_len = 0, pc_max = mx, pc_escape = False\<rparr>"
  have "bm_parse (concat cs) 0 ?ctx = (int (length (concat cs)),
      ?ctx\<lparr>pc_state := MSG_DONE, pc_escape := False, pc_msg := put_at 0 m m0, pc_len := length m\<rparr>)"
    using bm_parse_frame [of m ?ctx "[]" 0] assms(1,3,4) by simp
  from bm_recv_pieces [OF this _ _ assms(2,5,6,7)] show ?thesis by (auto simp: serial_bm_recv_msg_def)
qed

text \<open>The response message of a managed device to a request.\<close>

definition response_msg :: "serial_bm_request_ctx \<Rightarrow> byte \<Rightarrow> byte list \<Rightarrow> byte list" where
  "response_msg c cc d = ipmb_msg (q_rqSA c) (rs_netFn c) (q_rsSA c) (rs_rqSeq c) (q_cmd c) (cc # d)"

lemma response_msg_accepted: "response_accepted c (response_msg c cc d)"
  using ipmb_msg_valid [of "q_rqSA c" "rs_netFn c" "q_rsSA c" "rs_rqSeq c" "q_cmd c" "cc # d"]
  by (simp add: response_accepted_def response_msg_def response_matches_def ipmb_valid_def)
    (simp add: ipmb_msg_def hdr_of_bytes_def)

lemma wait_response_pieces:
  assumes "concat cs = bm_frame (response_msg c cc d)" and "\<forall>x\<in>set cs. x \<noteq> [] \<and> length x \<le> SERIAL_BM_MAX_BUFFER_SIZE"
    and "length d + 8 \<le> mx" and "mx \<le> length m0" and "sp_queue p = []" and "sp_events p = map Ev_data cs @ es"
    and "length buf = SERIAL_BM_MAX_BUFFER_SIZE"
  shows "\<exists>buf' m'. serial_bm_wait_response c \<lparr>rc_buffer = buf, rc_size = 0\<rparr> m0 mx p =
      Inr (int (length d) + 1, \<lparr>rc_buffer = buf', rc_size = 0\<rparr>, (cc # d) @ m', p\<lparr>sp_events := es\<rparr>)
    \<and> length buf' = SERIAL_BM_MAX_BUFFER_SIZE \<and> length m' + length d + 1 = length m0"
proof -
  let ?m = "response_msg c cc d"
  have len: "length ?m = length d + 8" by (simp add: response_msg_def)
  with assms(3) have "length ?m \<le> mx" by simp
  from recv_pieces [OF assms(1,2) this assms(4-7)] obtain b where
    b: "serial_bm_recv_msg \<lparr>rc_buffer = buf, rc_size = 0\<rparr> m0 mx p =
      Inr (int (length ?m), \<lparr>rc_buffer = b, rc_size = 0\<rparr>, put_at 0 ?m m0, p\<lparr>sp_events := es\<rparr>)"
    "length b = SERIAL_BM_MAX_BUFFER_SIZE" by blast
  have acc: "response_accepted c (take (nat (int (length ?m))) (put_at 0 ?m m0))"
    by (simp add: put_at_def response_msg_accepted)
  have body: "take (length d + 1) (drop 6 (put_at 0 ?m m0)) = cc # d"
    by (simp add: put_at_def response_msg_def ipmb_msg_def)
  have n: "nat (int (length d) + 8) - 7 = Suc (length d)" by linarith
  have "serial_bm_wait_response c \<lparr>rc_buffer = buf, rc_size = 0\<rparr> m0 mx p =
      Inr (int (length d) + 1, \<lparr>rc_buffer = b, rc_size = 0\<rparr>, put_at 0 (cc # d) (put_at 0 ?m m0), p\<lparr>sp_events := es\<rparr>)"
    using b(1) acc assms(4) len body n by (subst serial_bm_wait_response.simps) simp
  moreover have "put_at 0 (cc # d) (put_at 0 ?m m0) = (cc # d) @ drop (length d + 1) (put_at 0 ?m m0)"
    by (simp add: put_at_def)
  ultimately show ?thesis using b(2) len assms(3,4) by (auto simp: put_at_def)
qed

text \<open>
  An unbridged request: whatever the stack held, whatever was queued before, the response
  read in pieces is returned after the first transmission.
\<close>

lemma send_request_direct:
  fixes intf :: ipmi_intf and req :: ipmi_rq and p :: serial_port
  defines "q \<equiv> push_bit 2 (next_seq (sp_seq p))"
  defines "c \<equiv> \<lparr>q_rsSA = 0x20, q_netFn = netfn_lun req, q_rqSA = 0x81, q_rqSeq = q, q_cmd = rq_cmd req\<rparr>"
  assumes "opened intf" and "0 < retry (ssn_params intf)" and "ipmi_intf_get_bridging_level intf = 0"
    and "length (rq_data req) \<le> 40" and "length d \<le> 39"
    and "length (st_msg st) = SERIAL_BM_MAX_MSG_SIZE" and "length (st_buffer st) = SERIAL_BM_MAX_BUFFER_SIZE"
    and "concat cs = bm_frame (response_msg c cc d)" and "\<forall>x\<in>set cs. x \<noteq> [] \<and> length x \<le> SERIAL_BM_MAX_BUFFER_SIZE"
    and "sp_events p = map Ev_data cs @ es"
  shows "serial_bm_send_request open_fd st intf req p =
    Inr (Some \<lparr>rs_ccode = cc, rs_data = d\<rparr>, intf,
      p\<lparr>sp_queue := [], sp_events := es, sp_seq := next_seq (sp_seq p),
        sp_out := sp_out p @ [bm_frame (ipmb_msg 0x20 (netfn_lun req) 0x81 q (rq_cmd req) (rq_data req))]\<rparr>)"
proof -
  let ?req = "ipmb_msg 0x20 (netfn_lun req) 0x81 q (rq_cmd req) (rq_data req)"
  have ref: "bm_reference intf req s q = ?req" for s using assms(5) by (simp add: bm_reference_def Let_def)
  have fits: "length (rq_data req) + 7 + 8 * ipmi_intf_get_bridging_level intf \<le> SERIAL_BM_MAX_MSG_SIZE"
    using assms(5,6) by (simp add: SERIAL_BM_MAX_MSG_SIZE_def)
  from serial_bm_build_msg_reference [OF fits, of "st_msg st" "st_ctx st" p] assms(5) obtain ctx' where
    build: "serial_bm_build_msg intf req (st_msg st) SERIAL_BM_MAX_MSG_SIZE (st_ctx st) p =
      Some (0, put_at 0 ?req (st_msg st), ctx', length ?req, p\<lparr>sp_seq := next_seq (sp_seq p)\<rparr>)" and ctx': "fst ctx' = c"
    by (auto simp: Let_def ref [unfolded q_def] q_def c_def)
  let ?p = "serial_bm_send_msg (take (length ?req) (put_at 0 ?req (st_msg st))) (port_flush (p\<lparr>sp_seq := next_seq (sp_seq p)\<rparr>))"
  have p: "?p = p\<lparr>sp_queue := [], sp_seq := next_seq (sp_seq p), sp_out := sp_out p @ [bm_frame ?req]\<rparr>"
    by (simp add: serial_bm_send_msg_frame port_write_def port_flush_def put_at_def)
  have "length (put_at 0 ?req (st_msg st)) = SERIAL_BM_MAX_MSG_SIZE"
    using assms(6,8) by (simp add: SERIAL_BM_MAX_MSG_SIZE_def)
  then obtain b m' where wait: "serial_bm_wait_response c \<lparr>rc_buffer = st_buffer st, rc_size = 0\<rparr> (put_at 0 ?req (st_msg st))
      SERIAL_BM_MAX_MSG_SIZE ?p = Inr (int (length d) + 1, \<lparr>rc_buffer = b, rc_size = 0\<rparr>, (cc # d) @ m', ?p\<lparr>sp_events := es\<rparr>)"
    using wait_response_pieces [OF assms(10,11), of SERIAL_BM_MAX_MSG_SIZE "put_at 0 ?req (st_msg st)" ?p es "st_buffer st"]
      assms(7,9,12) p by (auto simp: SERIAL_BM_MAX_MSG_SIZE_def)
  have n: "nat (int (length d) + 1) = Suc (length d)" "\<not> int (length d) + 1 < 1" by linarith+
  have "bm_attempt st intf req \<lparr>rc_buffer = st_buffer st, rc_size = 0\<rparr> (st_msg st) p =
      Inr (Some (Some \<lparr>rs_ccode = cc, rs_data = d\<rparr>), \<lparr>rc_buffer = b, rc_size = 0\<rparr>, (cc # d) @ m', ?p\<lparr>sp_events := es\<rparr>)"
    using build wait ctx' n by (simp add: bm_attempt_def Let_def bm_result_def)
  moreover obtain k where "nat (retry (ssn_params intf)) = Suc k"
    using assms(4) by (cases "nat (retry (ssn_params intf))") simp_all
  ultimately show ?thesis using assms(3) p by (simp add: serial_bm_send_request_def)
qed


section \<open>Properties\<close>

text \<open>
  whatever bytes arrive, the message parser writes only inside the first \<open>max_len\<close>
  bytes of the message array, reports a message no longer than that, and consumes no more
  input than there is.
\<close>

theorem bm_parser_memory_safe:
  assumes "pc_max ctx \<le> length (pc_msg ctx)" and "pc_state ctx = MSG_NONE"
    and "serial_bm_parse_buffer data ctx = (rv, ctx')"
  shows "length (pc_msg ctx') = length (pc_msg ctx) \<and> drop (pc_max ctx) (pc_msg ctx') = drop (pc_max ctx) (pc_msg ctx)
    \<and> (pc_state ctx' = MSG_DONE \<longrightarrow> pc_len ctx' \<le> pc_max ctx) \<and> rv \<le> int (length data)"
proof -
  have parse: "bm_parse data 0 ctx = (rv, ctx')" using assms(3) by (simp add: serial_bm_parse_buffer_def)
  have "pc_kept ctx ctx'" using bm_parse_kept [OF parse] assms(1,2) by (simp add: pc_wf_def)
  moreover have "rv \<le> int (length data)" using bm_parse_rv [OF parse] assms(2) by auto
  ultimately show ?thesis by (auto simp: pc_kept_def pc_wf_def)
qed

definition sample_parse_ctx :: serial_bm_parse_ctx where
  "sample_parse_ctx = \<lparr>pc_state = MSG_NONE, pc_msg = replicate 4 0, pc_len = 0, pc_max = 3, pc_escape = False\<rparr>"

theorem bm_parser_memory_safe_witness:
  "drop 3 (pc_msg (snd (serial_bm_parse_buffer [0xA0, 1, 2, 3, 4] sample_parse_ctx))) = [0]"
  using bm_parser_memory_safe [of sample_parse_ctx "[0xA0, 1, 2, 3, 4]"
      "fst (serial_bm_parse_buffer [0xA0, 1, 2, 3, 4] sample_parse_ctx)" "snd (serial_bm_parse_buffer [0xA0, 1, 2, 3, 4] sample_parse_ctx)"]
  by (simp add: sample_parse_ctx_def)

text \<open>
  C24: a message of any bytes up to 47, stuffed and framed by \<open>serial_bm_send_msg\<close> and
  arriving cut into reads of any sizes, is received unchanged, and the reads are used up.
\<close>

theorem bm_frame_roundtrip:
  assumes "sp_out (serial_bm_send_msg m sender) = sp_out sender @ [concat cs]"
    and "\<forall>x\<in>set cs. x \<noteq> [] \<and> length x \<le> SERIAL_BM_MAX_BUFFER_SIZE"
    and "length m \<le> SERIAL_BM_MAX_MSG_SIZE" and "length m0 = SERIAL_BM_MAX_MSG_SIZE"
    and "length buf = SERIAL_BM_MAX_BUFFER_SIZE"
    and "sp_queue p = []" and "sp_events p = map Ev_data cs @ es"
  shows "\<exists>rc'. serial_bm_recv_msg \<lparr>rc_buffer = buf, rc_size = 0\<rparr> m0 SERIAL_BM_MAX_MSG_SIZE p =
    Inr (int (length m), rc', m @ drop (length m) m0, p\<lparr>sp_events := es\<rparr>)"
proof -
  have "concat cs = bm_frame m" using assms(1) by (simp add: serial_bm_send_msg_frame port_write_def)
  from recv_pieces [OF this assms(2,3) _ assms(6,7,5), of m0] assms(4) show ?thesis
    by (auto simp: put_at_def)
qed

definition sample_port :: serial_port where
  "sample_port = \<lparr>sp_queue = [], sp_events = [], sp_out = [], sp_clock = [], sp_seq = 63, sp_is_system = False\<rparr>"

theorem bm_frame_roundtrip_witness:
  "\<exists>rc'. serial_bm_recv_msg \<lparr>rc_buffer = replicate 250 0, rc_size = 0\<rparr> (replicate 47 0) SERIAL_BM_MAX_MSG_SIZE
      (sample_port\<lparr>sp_events := [Ev_data [0xA0, 0xAA], Ev_data [0xB5, 1], Ev_data [0xA5]]\<rparr>) =
    Inr (2, rc', [0xA5, 1] @ replicate 45 0, sample_port)"
  using bm_frame_roundtrip [of "[0xA5, 1]" sample_port "[[0xA0, 0xAA], [0xB5, 1], [0xA5]]" "replicate 47 0" "replicate 250 0"
      "sample_port\<lparr>sp_events := [Ev_data [0xA0, 0xAA], Ev_data [0xB5, 1], Ev_data [0xA5]]\<rparr>" "[]"]
  by (simp add: sample_port_def SERIAL_BM_MAX_BUFFER_SIZE_def SERIAL_BM_MAX_MSG_SIZE_def serial_bm_send_msg_frame
      port_write_def bm_frame_def serial_bm_get_escaped_char_def characters_def)

text \<open>
  C22: for direct, bridged and doubly bridged requests, on remote and on system
  interfaces, the built message is the nested IPMB message of the reference encoder: the
  four-byte checksums of the forwarding levels are the checksums of all they cover. It is
  built exactly when it fits, writes only its own bytes of the array and uses up one
  sequence number.
\<close>

theorem bm_build_msg_correct:
  "case serial_bm_build_msg intf req msg max_len ctx p of
     None \<Rightarrow> max_len < length (bm_reference intf req (sp_is_system p) (push_bit 2 (next_seq (sp_seq p))))
   | Some (level, msg', ctx', msg_len, p') \<Rightarrow>
       level = ipmi_intf_get_bridging_level intf \<and> msg_len \<le> max_len \<and> p' = p\<lparr>sp_seq := next_seq (sp_seq p)\<rparr>
     \<and> msg' = bm_reference intf req (sp_is_system p) (push_bit 2 (next_seq (sp_seq p))) @ drop msg_len msg
     \<and> msg_len = length (bm_reference intf req (sp_is_system p) (push_bit 2 (next_seq (sp_seq p))))"
proof (cases "length (rq_data req) + 7 + 8 * ipmi_intf_get_bridging_level intf \<le> max_len")
  case True
  from serial_bm_build_msg_reference [OF True, of msg ctx p] True show ?thesis
    by (auto simp: Let_def length_bm_reference put_at_def)
next
  case False
  then show ?thesis by (simp add: serial_bm_build_msg_too_long length_bm_reference)
qed

text \<open>
  A caller that keeps its request data within the size the interface reports after
  \<open>serial_bm_setup\<close> always gets a message, at every bridging level.
\<close>

theorem bm_request_size_sufficient:
  assumes "length (rq_data req) \<le> unat (ipmi_intf_get_max_request_data_size (snd (serial_bm_setup intf)))"
  shows "serial_bm_build_msg (snd (serial_bm_setup intf)) req msg SERIAL_BM_MAX_MSG_SIZE ctx p \<noteq> None"
proof -
  let ?i = "snd (serial_bm_setup intf)"
  have 33: "max_request_data_size ?i = 33" by (simp add: serial_bm_setup_def SERIAL_BM_MAX_RQ_SIZE_def)
  have b: "ipmi_intf_get_bridging_level ?i \<in> {0, 1, 2}"
    using bridging_level_le_2 [of ?i] by (simp del: bridging_level_le_2) linarith
  have "uint (ipmi_intf_get_max_request_data_size ?i) = max_data_size_spec 33 (ipmi_intf_get_bridging_level ?i) 8"
    using max_data_size_unat [of 33 8 "ipmi_intf_get_bridging_level ?i"] by (simp add: ipmi_intf_get_max_request_data_size_def 33)
  then have "length (rq_data req) \<le> nat (max_data_size_spec 33 (ipmi_intf_get_bridging_level ?i) 8)"
    using assms by (simp flip: nat_uint_eq)
  with b have "length (rq_data req) + 7 + 8 * ipmi_intf_get_bridging_level ?i \<le> SERIAL_BM_MAX_MSG_SIZE"
    by (auto simp: max_data_size_spec_def SERIAL_BM_MAX_MSG_SIZE_def)
  from serial_bm_build_msg_reference [OF this, of msg ctx p] show ?thesis by (auto simp: Let_def)
qed

theorem bm_request_size_sufficient_witness:
  "serial_bm_build_msg (snd (serial_bm_setup sample_intf))
     \<lparr>rq_netfn = 6, rq_lun = 0, rq_cmd = 1, rq_target_cmd = 0, rq_data = replicate 17 0\<rparr> (replicate 47 0)
     SERIAL_BM_MAX_MSG_SIZE (get_message_ctx 0, get_message_ctx 0) sample_port \<noteq> None"
proof (rule bm_request_size_sufficient)
  have "unat (ipmi_intf_get_max_request_data_size (snd (serial_bm_setup sample_intf))) = 17" by code_simp
  then show "length (rq_data \<lparr>rq_netfn = 6, rq_lun = 0, rq_cmd = 1, rq_target_cmd = 0, rq_data = replicate 17 0\<rparr>)
    \<le> unat (ipmi_intf_get_max_request_data_size (snd (serial_bm_setup sample_intf)))" by simp
qed

text \<open>
  The messages that successive calls of \<open>serial_bm_recv_msg\<close> take from the line, with what
  the receive buffer, the message array and the port are after the last one.
\<close>

inductive bm_received :: "nat \<Rightarrow> serial_bm_recv_ctx \<Rightarrow> byte list \<Rightarrow> serial_port \<Rightarrow> byte list list \<Rightarrow>
    serial_bm_recv_ctx \<Rightarrow> byte list \<Rightarrow> serial_port \<Rightarrow> bool" for mx where
  received_none: "bm_received mx rc msg p [] rc msg p"
| received_msg: "serial_bm_recv_msg rc msg mx p = Inr (n, rc1, msg1, p1) \<Longrightarrow> 0 < n \<Longrightarrow> bm_received mx rc1 msg1 p1 ms rc2 msg2 p2 \<Longrightarrow>
    bm_received mx rc msg p (take (nat n) msg1 # ms) rc2 msg2 p2"

lemma wait_response_received:
  "serial_bm_wait_response c rc m mx p = Inr (rv, rc', m', p') \<Longrightarrow> rv > 0 \<Longrightarrow>
     \<exists>ms x m1. bm_received mx rc m p (ms @ [x]) rc' m1 p' \<and> (\<forall>y\<in>set ms. \<not> response_accepted c y) \<and> response_accepted c x
       \<and> rv = int (length x) - 7 \<and> length x \<le> mx \<and> m' = put_at 0 (butlast (drop 6 x)) m1 \<and> x = take (length x) m1"
proof (induction c rc m mx p rule: serial_bm_wait_response.induct)
  case (1 c rc m mx p)
  note loop = 1(2) [unfolded serial_bm_wait_response.simps [of c rc m mx p]]
  from loop have mx: "mx \<le> length m" by (auto split: if_splits)
  from loop mx obtain k rc1 m1 p1 where recv: "serial_bm_recv_msg rc m mx p = Inr (k, rc1, m1, p1)"
    by (auto split: sum.splits if_splits)
  note r = serial_bm_recv_msg_result [OF recv mx]
  have k: "0 < k" using loop mx recv 1(3) by (auto split: if_splits)
  show ?case
  proof (cases "response_accepted c (take (nat k) m1)")
    case True
    let ?x = "take (nat k) m1"
    have len: "length ?x = nat k" using r(4,6) mx k by (simp add: min_def) linarith
    have out: "rv = k - 7" "m' = put_at 0 (take (nat k - 7) (drop 6 m1)) m1" "p' = p1" "rc' = rc1"
      using loop mx recv k True by (auto split: if_splits)
    have "butlast (drop 6 ?x) = take (nat k - 7) (drop 6 m1)" using len by (simp add: butlast_conv_take drop_take)
    moreover have "bm_received mx rc m p ([] @ [?x]) rc1 m1 p1"
      using received_msg [OF recv k received_none] by simp
    ultimately show ?thesis using out True len k r(6) by (intro exI [of _ "[]"] exI [of _ ?x] exI [of _ m1]) auto
  next
    case False
    with loop mx recv k have rec: "serial_bm_wait_response c rc1 m1 mx p1 = Inr (rv, rc', m', p')"
      by (auto split: if_splits)
    have "\<not> mx > length m" "\<not> k \<le> 0" using mx k by simp_all
    from 1(1) [OF this(1) recv refl refl refl this(2) False rec 1(3)] obtain ms x m2 where
      IH: "bm_received mx rc1 m1 p1 (ms @ [x]) rc' m2 p'" "\<forall>y\<in>set ms. \<not> response_accepted c y" "response_accepted c x"
        "rv = int (length x) - 7" "length x \<le> mx" "m' = put_at 0 (butlast (drop 6 x)) m2" "x = take (length x) m2" by blast
    from received_msg [OF recv k IH(1)] IH(2-7) False show ?thesis
      by (intro exI [of _ "take (nat k) m1 # ms"] exI [of _ x] exI [of _ m2]) simp
  qed
qed

text \<open>
  C23: \<open>serial_bm_wait_response\<close> returns a response only if the last message it took from the
  line has both checksums right and answers this request: addresses exchanged, response
  network function, LUNs exchanged, same sequence number and command. Every message it took
  from the line before that one fails one of these tests. The data returned are exactly what
  stands between the header and the final checksum of that message. The message array keeps
  its size, and nothing is written to the line.
\<close>

theorem bm_wait_response_sound:
  assumes "serial_bm_wait_response c rc msg max_len p = Inr (rv, rc', msg', p')" and "rv > 0"
  shows "\<exists>skipped m msg1. bm_received max_len rc msg p (skipped @ [m]) rc' msg1 p'
    \<and> ipmb_valid m \<and> 8 \<le> length m \<and> length m \<le> max_len \<and> response_matches c (hdr_of_bytes m)
    \<and> (\<forall>x\<in>set skipped. \<not> (ipmb_valid x \<and> 8 \<le> length x \<and> response_matches c (hdr_of_bytes x)))
    \<and> take (nat rv) msg' = butlast (drop 6 m) \<and> rv = int (length m) - 7
    \<and> length msg' = length msg \<and> sp_out p' = sp_out p \<and> sp_seq p' = sp_seq p"
proof -
  from wait_response_received [OF assms] obtain ms x m1 where
    x: "bm_received max_len rc msg p (ms @ [x]) rc' m1 p'" "\<forall>y\<in>set ms. \<not> response_accepted c y" "response_accepted c x"
      "rv = int (length x) - 7" "length x \<le> max_len" "msg' = put_at 0 (butlast (drop 6 x)) m1" "x = take (length x) m1" by blast
  have "length x \<le> length m1" using x(7) by (metis length_take min.cobounded1 min.commute)
  moreover have "length (butlast (drop 6 x)) = nat rv" using x(3,4) by (simp add: response_accepted_def)
  ultimately have "take (nat rv) msg' = butlast (drop 6 x)" using x(6) by (simp add: put_at_def)
  with x serial_bm_wait_response_result [OF assms(1)] show ?thesis
    by (intro exI [of _ ms] exI [of _ x] exI [of _ m1]) (auto simp: response_accepted_def ipmb_valid_def port_same_def)
qed

definition sample_response_port :: serial_port where
  "sample_response_port = sample_port\<lparr>sp_events := [Ev_data (bm_frame (response_msg (get_message_ctx 1) 0 [7]))]\<rparr>"

theorem bm_wait_response_sound_witness:
  "\<exists>rv rc' msg' p'. serial_bm_wait_response (get_message_ctx 1) \<lparr>rc_buffer = replicate 250 0, rc_size = 0\<rparr>
      (replicate 47 0) 47 sample_response_port = Inr (rv, rc', msg', p') \<and> rv = 2
    \<and> (\<exists>ms m msg1. bm_received 47 \<lparr>rc_buffer = replicate 250 0, rc_size = 0\<rparr> (replicate 47 0) sample_response_port (ms @ [m]) rc' msg1 p'
        \<and> ipmb_valid m \<and> response_matches (get_message_ctx 1) (hdr_of_bytes m) \<and> take 2 msg' = butlast (drop 6 m))"
proof -
  let ?f = "bm_frame (response_msg (get_message_ctx 1) 0 [7])"
  have "length ?f \<le> 250" "?f \<noteq> []" by code_simp+
  then obtain rc' msg' p' where w: "serial_bm_wait_response (get_message_ctx 1) \<lparr>rc_buffer = replicate 250 0, rc_size = 0\<rparr>
      (replicate 47 0) 47 sample_response_port = Inr (2, rc', msg', p')"
    using wait_response_pieces [of "[?f]" "get_message_ctx 1" 0 "[7]" 47 "replicate 47 0" sample_response_port "[]" "replicate 250 0"]
    by (auto simp: sample_response_port_def sample_port_def SERIAL_BM_MAX_BUFFER_SIZE_def)
  from bm_wait_response_sound [OF this] obtain ms m msg1 where
    "bm_received 47 \<lparr>rc_buffer = replicate 250 0, rc_size = 0\<rparr> (replicate 47 0) sample_response_port (ms @ [m]) rc' msg1 p'"
    "ipmb_valid m" "response_matches (get_message_ctx 1) (hdr_of_bytes m)" "take 2 msg' = butlast (drop 6 m)" by auto
  with w show ?thesis by blast
qed

text \<open>
  C21: a direct request over an open line with at least one retry is sent once, framed, and
  the response of the BMC, arriving in pieces of any sizes, is returned with its completion
  code and data, whatever uninitialised memory and the input queue held before.
\<close>

theorem bm_send_request_returns_response:
  assumes "opened intf" and "0 < retry (ssn_params intf)" and "ipmi_intf_get_bridging_level intf = 0"
    and "length (rq_data req) \<le> 40" and "length d \<le> 39"
    and "length (st_msg st) = SERIAL_BM_MAX_MSG_SIZE" and "length (st_buffer st) = SERIAL_BM_MAX_BUFFER_SIZE"
    and "c = \<lparr>q_rsSA = 0x20, q_netFn = netfn_lun req, q_rqSA = 0x81, q_rqSeq = push_bit 2 (next_seq (sp_seq p)), q_cmd = rq_cmd req\<rparr>"
    and "concat cs = bm_frame (response_msg c cc d)" and "\<forall>x\<in>set cs. x \<noteq> [] \<and> length x \<le> SERIAL_BM_MAX_BUFFER_SIZE"
    and "sp_events p = map Ev_data cs @ es"
  shows "\<exists>p'. serial_bm_send_request open_fd st intf req p = Inr (Some \<lparr>rs_ccode = cc, rs_data = d\<rparr>, intf, p')
    \<and> sp_events p' = es
    \<and> sp_out p' = sp_out p @ [bm_frame (ipmb_msg 0x20 (netfn_lun req) 0x81 (push_bit 2 (next_seq (sp_seq p))) (rq_cmd req) (rq_data req))]"
  using send_request_direct [OF assms(1-7) assms(9) [unfolded assms(8)] assms(10,11)] by simp

definition sample_stack :: bm_stack where
  "sample_stack = \<lparr>st_msg = replicate 47 0xFF, st_data = replicate 47 0, st_buffer = replicate 250 0x55,
     st_ctx = (get_message_ctx 0, get_message_ctx 0)\<rparr>"

definition sample_rq :: ipmi_rq where
  "sample_rq = \<lparr>rq_netfn = 6, rq_lun = 0, rq_cmd = 1, rq_target_cmd = 0, rq_data = []\<rparr>"

definition sample_rq_ctx :: serial_bm_request_ctx where
  "sample_rq_ctx = \<lparr>q_rsSA = 0x20, q_netFn = 0x18, q_rqSA = 0x81, q_rqSeq = 0, q_cmd = 1\<rparr>"

theorem bm_send_request_returns_response_witness:
  "\<exists>p'. serial_bm_send_request 3 sample_stack (sample_intf\<lparr>target_addr := 0x20\<rparr>) sample_rq
      (sample_port\<lparr>sp_events := [Ev_data (bm_frame (response_msg sample_rq_ctx 0 [0x20, 1]))]\<rparr>) =
    Inr (Some \<lparr>rs_ccode = 0, rs_data = [0x20, 1]\<rparr>, sample_intf\<lparr>target_addr := 0x20\<rparr>, p') \<and> sp_events p' = []"
proof -
  let ?f = "bm_frame (response_msg sample_rq_ctx 0 [0x20, 1])"
  have f: "length ?f \<le> 250" "?f \<noteq> []" by code_simp+
  have c: "sample_rq_ctx = \<lparr>q_rsSA = 0x20, q_netFn = netfn_lun sample_rq, q_rqSA = 0x81,
      q_rqSeq = push_bit 2 (next_seq (sp_seq (sample_port\<lparr>sp_events := [Ev_data ?f]\<rparr>))), q_cmd = rq_cmd sample_rq\<rparr>"
    by (simp add: sample_rq_ctx_def sample_rq_def sample_port_def netfn_lun_def next_seq_def)
  show ?thesis
    using bm_send_request_returns_response [OF _ _ _ _ _ _ _ c, of "sample_intf\<lparr>target_addr := 0x20\<rparr>" "[0x20, 1]" sample_stack
        "[?f]" 0 "[]" 3] f
    by (auto simp: sample_intf_def sample_params_def sample_rq_def sample_stack_def ipmi_intf_get_bridging_level_def
        SERIAL_BM_MAX_MSG_SIZE_def SERIAL_BM_MAX_BUFFER_SIZE_def)
qed


section \<open>Limits of the receive path\<close>

text \<open>
  A message longer than the message array makes the parser return -1; the receive loop
  takes that for a number of parsed bytes and increments \<open>buffer_size\<close>. After a read that
  filled the buffer, the next read is made past its end with a length that wrapped around.
\<close>

lemma bm_recv_overrun_possible:
  "serial_bm_recv_msg \<lparr>rc_buffer = replicate 250 0, rc_size = 0\<rparr> (replicate 47 0) 47
     (sample_port\<lparr>sp_events := [Ev_data (0xA0 # replicate 249 0), Ev_data [0]]\<rparr>) = Inl Buffer_overrun"
  by code_simp

text \<open>
  A request that does not fit is not refused: \<open>serial_bm_build_msg\<close> returns -1, which
  \<open>serial_bm_send_request\<close> does not look at, and leaves the length it does look at unset.
\<close>

lemma bm_send_request_too_long:
  assumes "opened intf" and "0 < retry (ssn_params intf)"
    and "SERIAL_BM_MAX_MSG_SIZE < length (rq_data req) + 7 + 8 * ipmi_intf_get_bridging_level intf"
  shows "serial_bm_send_request open_fd st intf req p = Inl Uninitialised"
proof -
  obtain k where "nat (retry (ssn_params intf)) = Suc k"
    using assms(2) by (cases "nat (retry (ssn_params intf))") simp_all
  with assms show ?thesis
    by (simp add: serial_bm_send_request_def bm_attempt_def serial_bm_build_msg_too_long)
qed

end
