(* ===== verification/Serial_Terminal.thy ===== *)
theory Serial_Terminal
  imports Serial_Basic
begin

text \<open>
  The serial terminal-mode transport, src/plugins/serial/serial_terminal.c: a message is a
  line of hexadecimal digits in square brackets. Headers, Send Message requests, the
  correction for system interfaces and the evaluation of a bridged response are written in
  that file as they are in serial_basic.c, and their definitions are shared.
\<close>

section \<open>Lines\<close>

definition char_of_byte :: "byte \<Rightarrow> char" where
  "char_of_byte b = char_of (unat b)"

definition byte_of_char :: "char \<Rightarrow> byte" where
  "byte_of_char c = of_char c"

definition is_eol :: "char \<Rightarrow> bool" where
  "is_eol c \<longleftrightarrow> c = CHR 0x0A \<or> c = CHR 0x0D"

text \<open>
  \<open>serial_read_line\<close> with room for \<open>len\<close> characters: the line with its end-of-line character,
  or nothing on a timeout, a failed or empty read and a line that does not fit.
\<close>

primrec serial_read_line :: "nat \<Rightarrow> serial_port \<Rightarrow> string option \<times> serial_port" where
  "serial_read_line 0 p = (None, p)"
| "serial_read_line (Suc len) p =
     (case poll_read 1 p of
        (No_data, p') \<Rightarrow> (None, p')
      | (Read_failed, p') \<Rightarrow> (None, p')
      | (Got [], p') \<Rightarrow> (None, p')
      | (Got (b # _), p') \<Rightarrow>
          (let c = char_of_byte b
           in if is_eol c then (Some [c], p')
              else (case serial_read_line len p' of (r, p'') \<Rightarrow> (map_option (\<lambda>l. c # l) r, p''))))"

lemma serial_read_line_Some:
  "serial_read_line n p = (Some l, p') \<Longrightarrow> l \<noteq> [] \<and> length l \<le> n \<and> is_eol (last l) \<and> list_all (\<lambda>c. \<not> is_eol c) (butlast l)"
proof (induction n arbitrary: p l)
  case (Suc n)
  then show ?case by (fastforce simp: Let_def split: read_result.splits list.splits prod.splits if_splits)
qed simp

definition IPMI_SERIAL_MAX_RESPONSE :: nat where "IPMI_SERIAL_MAX_RESPONSE = 256"

text \<open>
  The first loop of \<open>recv_response\<close>: lines are appended to \<open>hex_rs\<close> until one ends with a
  bracket. \<open>serial_read_line\<close> first stores a NUL where it will write: when the lines have
  filled the array, that is one place past its end. The end-of-line character of the last
  line is overwritten.
\<close>

function term_lines :: "string \<Rightarrow> serial_port \<Rightarrow> bm_error + string option \<times> serial_port" where
  "term_lines acc p =
     (if length acc \<ge> 3 * IPMI_SERIAL_MAX_RESPONSE then Inl Buffer_overrun
      else case serial_read_line (3 * IPMI_SERIAL_MAX_RESPONSE - length acc) p of
        (None, p') \<Rightarrow> Inr (None, p')
      | (Some l, p') \<Rightarrow>
          (let acc' = acc @ l; n = length acc'
           in if n \<ge> 2 \<and> acc' ! (n - 2) = CHR '']'' \<and> is_eol (acc' ! (n - 1)) then Inr (Some (butlast acc'), p')
              else term_lines acc' p'))"
  by pat_completeness auto
termination
  by (relation "measure (\<lambda>(acc, p). 3 * IPMI_SERIAL_MAX_RESPONSE - length acc)")
    (auto dest!: serial_read_line_Some [OF sym] simp: diff_less_mono2 neq_Nil_conv)

declare term_lines.simps [simp del]

text \<open>The digits between the brackets, stored from index \<open>i\<close>; \<open>h\<close> is a first digit waiting for its second.\<close>

fun term_hex :: "nat \<Rightarrow> string \<Rightarrow> nat \<Rightarrow> char option \<Rightarrow> byte list \<Rightarrow> int \<times> byte list" where
  "term_hex len [] i h data = (int i, data)"
| "term_hex len (ch # p) i h data =
     (if i \<ge> len then (-1, data)
      else if isxdigit ch then
        (case h of
           None \<Rightarrow> term_hex len p i (Some ch) data
         | Some h1 \<Rightarrow>
             (case strtoul 16 [h1, ch] of
                (tmp, _, err) \<Rightarrow>
                  if tmp > 0xFF \<or> tmp = 0 \<and> err then (-1, data)
                  else term_hex len p (Suc i) None (data[i := word_of_int tmp])))
      else if h \<noteq> None \<or> \<not> isspace ch then (-1, data)
      else term_hex len p i h data)"

definition after_last :: "char \<Rightarrow> string \<Rightarrow> string option" where
  "after_last c s = (if c \<in> set s then Some (rev (takeWhile (\<lambda>x. x \<noteq> c) (rev s))) else None)"

definition before_first :: "char \<Rightarrow> string \<Rightarrow> string option" where
  "before_first c s = (if c \<in> set s then Some (takeWhile (\<lambda>x. x \<noteq> c) s) else None)"

definition recv_response :: "byte list \<Rightarrow> nat \<Rightarrow> serial_port \<Rightarrow> bm_error + int \<times> byte list \<times> serial_port" where
  "recv_response data len p =
     (case term_lines [] p of
        Inl e \<Rightarrow> Inl e
      | Inr (None, p') \<Rightarrow> Inr (-1, data, p')
      | Inr (Some hex_rs, p') \<Rightarrow>
          (case Option.bind (after_last (CHR ''['') (takeWhile (\<lambda>c. c \<noteq> NUL) hex_rs)) (before_first (CHR '']'')) of
             None \<Rightarrow> Inr (-1, data, p')
           | Some body \<Rightarrow>
               if body = ''ERR ''
               then (let p2 = port_flush (port_write [13, 13, 13, 13] p')
                     in case strtoul 16 (drop 4 body) of
                          (rv, rest, err) \<Rightarrow>
                            if rv \<noteq> 0 \<and> rv < 0x100 \<and> rest = [] \<or> rv = 0 \<and> \<not> err then Inr (0, data, p2) else Inr (-1, data, p2))
               else (case term_hex len body 0 None data of (rv, data') \<Rightarrow> Inr (rv, data', p'))))"

section \<open>Building and sending requests\<close>

record serial_term_request_ctx =
  t_netFn :: byte
  t_sa :: byte
  t_seq :: byte
  t_cmd :: byte

definition serial_term_build_msg :: "ipmi_intf \<Rightarrow> ipmi_rq \<Rightarrow> byte list \<Rightarrow> nat \<Rightarrow>
    serial_term_request_ctx \<times> serial_term_request_ctx \<Rightarrow> serial_port \<Rightarrow>
    (nat \<times> byte list \<times> (serial_term_request_ctx \<times> serial_term_request_ctx) \<times> nat \<times> serial_port) option" where
  "serial_term_build_msg intf req msg max_len ctx p =
     (let level = ipmi_intf_get_bridging_level intf; data = rq_data req
      in if length data + 3 + level * 8 > max_len then None
         else let (s, p') = alloc_seq p; seq = push_bit 2 s;
                  nf = (if level \<noteq> 0 then 0x18 else netfn_lun req);
                  cmd = (if level \<noteq> 0 then 0x34 else rq_cmd req);
                  inner0 = inner_send_message intf req seq;
                  outer = system_fix (sp_is_system p) (if level = 2 then outer_send_message intf seq else inner0);
                  inner = (if level = 2 then inner0 else outer);
                  csum = (\<lambda>h rest. ipmi_csum ([h_rqSA h, h_rqSeq h, h_cmd h] @ rest));
                  bytes =
                    (if level = 0 then [nf, seq, cmd] @ data
                     else if level = 2 then
                       [nf, seq, cmd] @ smr_bytes outer @ smr_bytes inner @ data
                         @ [csum (smr_msg inner) data, csum (smr_msg outer) [smr_channel inner]]
                     else [nf, seq, cmd] @ smr_bytes inner @ data @ [csum (smr_msg inner) data]);
                  om = smr_msg outer
              in Some (level, put_at 0 bytes msg,
                   ((fst ctx)\<lparr>t_netFn := nf, t_seq := seq, t_cmd := cmd\<rparr>,
                    if level \<noteq> 0 then \<lparr>t_netFn = h_netFn om, t_sa = h_rsSA om, t_seq = h_rqSeq om, t_cmd = h_cmd om\<rparr> else snd ctx),
                   length bytes, p'))"

definition term_line :: "byte list \<Rightarrow> string" where
  "term_line msg = ''['' @ concat (map hex2 msg) @ '']'' @ [CHR 0x0D, CHR 0x0A]"

definition serial_term_send_msg :: "byte list \<Rightarrow> serial_port \<Rightarrow> serial_port" where
  "serial_term_send_msg msg p = port_write (map byte_of_char (take (length msg * 2 + 4) (term_line msg))) p"


section \<open>What a receive consumes and keeps\<close>

lemma serial_read_line_port:
  "serial_read_line n p = (r, p') \<Longrightarrow> port_same p p' \<and> pending p' \<le> pending p \<and> (r \<noteq> None \<longrightarrow> pending p' < pending p)"
proof (induction n arbitrary: p r p')
  case (Suc n)
  obtain x q where read: "poll_read 1 p = (x, q)" by fastforce
  have q: "port_same p q" "pending q \<le> pending p" "\<And>bs. x = Got bs \<Longrightarrow> pending q < pending p"
    using poll_read_same [OF read] poll_read_pending [OF read] by auto
  show ?case
  proof (cases "\<exists>b bs. x = Got (b # bs) \<and> \<not> is_eol (char_of_byte b)")
    case True
    then obtain b bs where x: "x = Got (b # bs)" "\<not> is_eol (char_of_byte b)" by blast
    obtain r' p'' where rec: "serial_read_line n q = (r', p'')" by fastforce
    from Suc.prems read x rec have "p' = p''" "r = map_option (\<lambda>l. char_of_byte b # l) r'" by (auto simp: Let_def)
    with Suc.IH [OF rec] q x(1) show ?thesis by (auto intro: port_same_trans)
  next
    case False
    with Suc.prems read q show ?thesis
      by (auto simp: Let_def split: read_result.splits list.splits if_splits)
  qed
qed simp

lemma term_lines_port:
  "term_lines acc p = Inr (r, p') \<Longrightarrow> port_same p p' \<and> pending p' \<le> pending p \<and> (r \<noteq> None \<longrightarrow> pending p' < pending p)"
proof (induction acc p rule: term_lines.induct)
  case (1 acc p)
  obtain l q where read: "serial_read_line (3 * IPMI_SERIAL_MAX_RESPONSE - length acc) p = (l, q)" by fastforce
  note q = serial_read_line_port [OF read]
  from 1(2) have room: "\<not> length acc \<ge> 3 * IPMI_SERIAL_MAX_RESPONSE"
    by (subst (asm) term_lines.simps) (auto split: if_splits)
  show ?case
  proof (cases l)
    case None
    with 1(2) read room q show ?thesis by (subst (asm) term_lines.simps) auto
  next
    case (Some s)
    let ?stop = "2 \<le> length (acc @ s) \<and> (acc @ s) ! (length (acc @ s) - 2) = CHR '']'' \<and> is_eol ((acc @ s) ! (length (acc @ s) - 1))"
    show ?thesis
    proof (cases ?stop)
      case True
      with 1(2) read room q Some show ?thesis by (subst (asm) term_lines.simps) (auto simp: Let_def)
    next
      case False
      with 1(2) read room Some have rec: "term_lines (acc @ s) q = Inr (r, p')"
        by (subst (asm) term_lines.simps) (auto simp: Let_def split: if_splits)
      from 1(1) [OF room read [symmetric] Some refl refl False rec] q show ?thesis
        by (auto intro: port_same_trans)
    qed
  qed
qed

text \<open>A response with bytes in it leaves the rest of the port alone; an error line makes the transport write.\<close>

lemma term_hex_kept:
  "term_hex len s i h d = (rv, d') \<Longrightarrow> i \<le> len \<Longrightarrow> len \<le> length d \<Longrightarrow>
     length d' = length d \<and> drop len d' = drop len d \<and> -1 \<le> rv \<and> rv \<le> int len"
proof (induction len s i h d rule: term_hex.induct)
  case (2 len ch p i h d)
  show ?case
  proof (cases "isxdigit ch \<and> i < len \<and> h \<noteq> None")
    case False
    with 2 show ?thesis by (auto split: if_splits option.splits)
  next
    case True
    then obtain h1 where h: "h = Some h1" by auto
    obtain tmp r e where s: "strtoul 16 [h1, ch] = (tmp, r, e)" by (metis prod_cases3)
    show ?thesis
    proof (cases "tmp > 0xFF \<or> tmp = 0 \<and> e")
      case True
      with 2(4-) \<open>isxdigit ch \<and> i < len \<and> h \<noteq> None\<close> h s show ?thesis by auto
    next
      case False
      with True h s 2(4-) have rec: "term_hex len p (Suc i) None (d[i := word_of_int tmp]) = (rv, d')" by auto
      have "\<not> len \<le> i" "isxdigit ch" using True by auto
      from 2(2) [OF this h s [symmetric] refl False rec] 2(5,6) True show ?thesis by auto
    qed
  qed
qed auto

lemma recv_response_result:
  assumes "recv_response d len p = Inr (rv, d', p')" and "len \<le> length d"
  shows "pending p' \<le> pending p \<and> sp_clock p' = sp_clock p \<and> sp_seq p' = sp_seq p \<and> sp_is_system p' = sp_is_system p
    \<and> length d' = length d \<and> drop len d' = drop len d \<and> -1 \<le> rv \<and> rv \<le> int len
    \<and> (rv > 0 \<longrightarrow> port_same p p' \<and> pending p' < pending p)"
proof -
  from assms(1) obtain r q where lines: "term_lines [] p = Inr (r, q)"
    by (auto simp: recv_response_def split: sum.splits)
  note q = term_lines_port [OF lines]
  show ?thesis
  proof (cases r)
    case None
    with assms lines q show ?thesis by (auto simp: recv_response_def port_same_def)
  next
    case (Some s)
    let ?b = "Option.bind (after_last (CHR ''['') (takeWhile (\<lambda>c. c \<noteq> NUL) s)) (before_first (CHR '']''))"
    consider "?b = None" | "?b = Some ''ERR ''" | body where "?b = Some body" "body \<noteq> ''ERR ''" by (cases ?b) auto
    then show ?thesis
    proof cases
      case 1
      with assms lines q Some show ?thesis by (auto simp: recv_response_def port_same_def)
    next
      case 2
      with assms lines q Some show ?thesis
        using pending_flush [of "port_write [13, 13, 13, 13] q"]
        by (auto simp: recv_response_def port_same_def Let_def port_write_def port_flush_def split: prod.splits if_splits)
    next
      case 3
      obtain k e where hex: "term_hex len body 0 None d = (k, e)" by fastforce
      with 3 assms lines Some have "rv = k" "d' = e" "p' = q" by (auto simp: recv_response_def)
      with term_hex_kept [OF hex _ assms(2)] q Some show ?thesis by (auto simp: port_same_def)
    qed
  qed
qed

section \<open>Waiting for the response\<close>

definition term_matches :: "serial_term_request_ctx \<Rightarrow> byte list \<Rightarrow> bool" where
  "term_matches c m \<longleftrightarrow> m ! 0 = t_netFn c OR 4 \<and> m ! 1 AND NOT 3 = t_seq c \<and> m ! 2 = t_cmd c"

function serial_term_wait_response :: "serial_term_request_ctx \<Rightarrow> byte list \<Rightarrow> nat \<Rightarrow> serial_port \<Rightarrow>
    bm_error + int \<times> byte list \<times> serial_port" where
  "serial_term_wait_response req_ctx msg max_len p =
     (if max_len > length msg then Inl Not_a_state
      else case recv_response msg max_len p of
        Inl e \<Rightarrow> Inl e
      | Inr (msg_len, msg', p') \<Rightarrow>
          if msg_len \<le> 0 then Inr (0, msg', p')
          else if msg_len \<ge> 4 \<and> term_matches req_ctx msg'
          then Inr (msg_len - 3, put_at 0 (take (nat msg_len - 3) (drop 3 msg')) msg', p')
          else serial_term_wait_response req_ctx msg' max_len p')"
  by pat_completeness auto
termination
  by (relation "measure (\<lambda>(_, _, _, p). pending p)")
    (auto dest!: recv_response_result simp: not_less)

declare serial_term_wait_response.simps [simp del]


lemma serial_term_wait_response_result:
  assumes "serial_term_wait_response c m mx p = Inr (rv, m', p')"
  shows "sp_clock p' = sp_clock p \<and> sp_seq p' = sp_seq p \<and> sp_is_system p' = sp_is_system p \<and> length m' = length m
    \<and> 0 \<le> rv \<and> rv \<le> int mx
    \<and> (rv > 0 \<longrightarrow> (\<exists>m0. 4 \<le> length m0 \<and> length m0 \<le> mx \<and> term_matches c m0
        \<and> rv = int (length m0) - 3 \<and> take (nat rv) m' = drop 3 m0))"
  using assms
proof (induction c m mx p rule: serial_term_wait_response.induct)
  case (1 c m mx p)
  note loop = 1(2) [unfolded serial_term_wait_response.simps [of c m mx p]]
  from loop have mx: "mx \<le> length m" by (auto split: if_splits)
  from loop mx obtain k m1 p1 where recv: "recv_response m mx p = Inr (k, m1, p1)"
    by (auto split: sum.splits if_splits)
  note r = recv_response_result [OF recv mx]
  consider (stop) "k \<le> 0" | (hit) "k > 0" "k \<ge> 4 \<and> term_matches c m1" | (miss) "k > 0" "\<not> (k \<ge> 4 \<and> term_matches c m1)"
    by fastforce
  then show ?case
  proof cases
    case stop
    with loop mx recv r show ?thesis by (auto split: if_splits)
  next
    case hit
    let ?f = "take (nat k) m1"
    have k: "4 \<le> nat k" "nat k \<le> length m1" "nat k \<le> mx" using hit r mx by linarith+
    have out: "rv = k - 3" "m' = put_at 0 (take (nat k - 3) (drop 3 m1)) m1" "p' = p1"
      using loop mx recv hit by (auto split: if_splits)
    have "nat rv = nat k - 3" using out(1) k(1) by simp
    then have "take (nat rv) m' = drop 3 ?f"
      using take_put_at [of 0 "take (nat k - 3) (drop 3 m1)" m1 "nat rv"] out(2) k by (simp add: drop_take)
    moreover have "length m' = length m" using out(2) r length_put_at [of 0 "take (nat k - 3) (drop 3 m1)" m1] by simp
    moreover have "term_matches c ?f" using hit k by (simp add: term_matches_def)
    ultimately show ?thesis using r out k by (auto intro!: exI [of _ ?f])
  next
    case miss
    with loop mx recv have rec: "serial_term_wait_response c m1 mx p1 = Inr (rv, m', p')" by (auto split: if_splits)
    have "\<not> mx > length m" "\<not> k \<le> 0" using mx miss by simp_all
    from 1(1) [OF this(1) recv refl refl this(2) miss(2) rec] r show ?thesis by auto
  qed
qed

section \<open>The receive message queue\<close>

definition term_get_message_ctx :: "byte \<Rightarrow> serial_term_request_ctx \<Rightarrow> serial_term_request_ctx" where
  "term_get_message_ctx s c = c\<lparr>t_netFn := 0x18, t_seq := push_bit 2 s, t_cmd := 0x33\<rparr>"

definition term_get_message_matches :: "serial_term_request_ctx \<Rightarrow> byte list \<Rightarrow> bool" where
  "term_get_message_matches c d \<longleftrightarrow> d ! 2 = (t_netFn c AND NOT 3) OR (t_seq c AND 3) OR 4 \<and> d ! 4 = t_sa c
     \<and> d ! 5 = t_seq c AND NOT 3 \<and> d ! 6 = t_cmd c"

lemma term_wait_response_clock:
  "serial_term_wait_response c m mx (serial_term_send_msg x (port_flush p)) = Inr (rv, m', p') \<Longrightarrow> sp_clock p' = sp_clock p"
  using serial_term_wait_response_result
  by (fastforce simp: serial_term_send_msg_def port_write_def port_flush_def)

function serial_term_get_message :: "u32 \<Rightarrow> serial_term_request_ctx \<Rightarrow> serial_term_request_ctx \<Rightarrow> byte list \<Rightarrow> byte list \<Rightarrow>
    serial_port \<Rightarrow> bm_error + int \<times> byte list \<times> serial_port" where
  "serial_term_get_message tmo req_ctx tmp0 data msg p =
     (case alloc_seq p of (s, p1) \<Rightarrow>
        (let tmp_ctx = term_get_message_ctx s tmp0;
             p2 = serial_term_send_msg [t_netFn tmp_ctx, t_seq tmp_ctx, t_cmd tmp_ctx] (port_flush p1)
         in case serial_term_wait_response tmp_ctx data IPMI_SERIAL_MAX_RESPONSE p2 of
              Inl e \<Rightarrow> Inl e
            | Inr (rv, data2, p3) \<Rightarrow>
                if rv \<le> 0 then Inr (rv, msg, p3)
                else if data2 ! 0 = 0 \<and> term_get_message_matches req_ctx data2 then
                  (if rv < 8 then Inl Bad_copy_length
                   else Inr (rv - 8, put_at 0 (take (nat rv - 8) (drop 7 data2)) msg, p3))
                else if data2 ! 0 \<noteq> 0 \<and> data2 ! 0 \<noteq> 0x80 then Inr (0, msg, p3)
                else (case clock_below tmo p3 of (below, p4) \<Rightarrow>
                        if below then serial_term_get_message tmo req_ctx tmp_ctx data2 msg p4
                        else Inr (0, msg, p4))))"
  by pat_completeness auto
termination
proof (relation "measure (\<lambda>(_, _, _, _, _, p). length (sp_clock p))", goal_cases)
  case 1
  show ?case by simp
next
  case (2 tmo c tmp0 data msg p)
  then show ?case by (auto dest!: alloc_seq_clock [OF sym] term_wait_response_clock clock_below_shorter [OF sym])
qed

declare serial_term_get_message.simps [simp del]

section \<open>The request loop\<close>

text \<open>Contents of the uninitialised local variables, as for the basic mode.\<close>

record term_stack =
  tst_msg :: "byte list"
  tst_data :: "byte list"
  tst_ctx :: "serial_term_request_ctx \<times> serial_term_request_ctx"
  tst_tmp_ctx :: serial_term_request_ctx

definition term_attempt :: "term_stack \<Rightarrow> ipmi_intf \<Rightarrow> ipmi_rq \<Rightarrow> byte list \<Rightarrow> serial_port \<Rightarrow>
    bm_error + (ipmi_rs option) option \<times> byte list \<times> serial_port" where
  "term_attempt st intf req msg p =
     (case serial_term_build_msg intf req msg IPMI_SERIAL_MAX_RESPONSE (tst_ctx st) p of
        None \<Rightarrow> Inl Uninitialised
      | Some (level, msg1, ctx, msg_len, p1) \<Rightarrow>
          (let p2 = serial_term_send_msg (take msg_len msg1) (port_flush p1);
               deliver = (\<lambda>r m p. map_sum id (\<lambda>x. (Some x, m, p)) r)
           in case serial_term_wait_response (fst ctx) msg1 IPMI_SERIAL_MAX_RESPONSE p2 of
                Inl e \<Rightarrow> Inl e
              | Inr (rv, msg2, p3) \<Rightarrow>
                  if rv < 0 then Inr (Some None, msg2, p3)
                  else if rv = 0 then Inr (None, msg2, p3)
                  else if level \<noteq> 0 \<and> msg2 ! 0 = 0 then
                    if sp_is_system p \<or> rv = 1 then
                      (case (if sp_is_system p
                             then serial_term_get_message (timeout (ssn_params intf)) (snd ctx) (tst_tmp_ctx st) (tst_data st) msg2 p3
                             else serial_term_wait_response (snd ctx) msg2 IPMI_SERIAL_MAX_RESPONSE p3) of
                         Inl e \<Rightarrow> Inl e
                       | Inr (rv', msg3, p4) \<Rightarrow>
                           if rv' < 0 then Inr (Some None, msg3, p4)
                           else if rv' = 0 then Inr (None, msg3, p4)
                           else deliver (bm_bridged_result level msg3 rv') msg3 p4)
                    else deliver (bm_bridged_result level (drop 7 msg2) (rv - 8)) msg2 p3
                  else deliver (bm_result level msg2 rv) msg2 p3))"

primrec term_retry :: "nat \<Rightarrow> term_stack \<Rightarrow> ipmi_intf \<Rightarrow> ipmi_rq \<Rightarrow> byte list \<Rightarrow> serial_port \<Rightarrow>
    bm_error + ipmi_rs option \<times> serial_port" where
  "term_retry 0 st intf req msg p = Inr (None, p)"
| "term_retry (Suc n) st intf req msg p =
     (case term_attempt st intf req msg p of
        Inl e \<Rightarrow> Inl e
      | Inr (Some r, msg', p') \<Rightarrow> Inr (r, p')
      | Inr (None, msg', p') \<Rightarrow> term_retry n st intf req msg' p')"

definition IPMI_SERIAL_TIMEOUT :: u32 where "IPMI_SERIAL_TIMEOUT = 5"

definition IPMI_SERIAL_RETRY :: int where "IPMI_SERIAL_RETRY = 5"

definition ipmi_serial_term_send_cmd :: "int \<Rightarrow> term_stack \<Rightarrow> ipmi_intf \<Rightarrow> ipmi_rq \<Rightarrow> serial_port \<Rightarrow>
    bm_error + ipmi_rs option \<times> ipmi_intf \<times> serial_port" where
  "ipmi_serial_term_send_cmd open_fd st intf req p =
     (case (if opened intf then (0, intf, p) else serial_open open_fd IPMI_SERIAL_TIMEOUT IPMI_SERIAL_RETRY intf p) of
        (rc, intf1, p1) \<Rightarrow>
          if rc < 0 then Inr (None, intf1, p1)
          else map_sum id (\<lambda>(r, p2). (r, intf1, p2))
            (term_retry (nat (retry (ssn_params intf1))) st intf1 req (tst_msg st) p1))"

definition IPMI_SERIAL_MAX_RQ_SIZE :: u16 where "IPMI_SERIAL_MAX_RQ_SIZE = 37"

definition IPMI_SERIAL_MAX_RS_SIZE :: u16 where "IPMI_SERIAL_MAX_RS_SIZE = 36"

definition ipmi_serial_term_setup :: "ipmi_intf \<Rightarrow> int \<times> ipmi_intf" where
  "ipmi_serial_term_setup intf =
     (0, intf\<lparr>max_request_data_size := IPMI_SERIAL_MAX_RQ_SIZE, max_response_data_size := IPMI_SERIAL_MAX_RS_SIZE\<rparr>)"


section \<open>Reading a line in pieces\<close>

text \<open>The bytes that will arrive before anything else happens on the line, and what follows.\<close>

definition incoming :: "serial_port \<Rightarrow> byte list \<Rightarrow> serial_ev list \<Rightarrow> bool" where
  "incoming p bs es \<longleftrightarrow> (\<exists>cs. bs = sp_queue p @ concat cs \<and> sp_events p = map Ev_data cs @ es \<and> (\<forall>x\<in>set cs. x \<noteq> []))"

lemma poll_read_incoming:
  assumes "incoming p (b # bs) es"
  shows "\<exists>q. poll_read 1 p = (Got [b], q) \<and> incoming q bs es \<and> port_same p q"
proof -
  from assms obtain cs where cs: "b # bs = sp_queue p @ concat cs" "sp_events p = map Ev_data cs @ es" "\<forall>x\<in>set cs. x \<noteq> []"
    by (auto simp: incoming_def)
  show ?thesis
  proof (cases "sp_queue p")
    case Nil
    with cs(1,3) obtain c ds where c: "cs = (b # c) # ds" "bs = c @ concat ds"
      by (cases cs) (auto simp: Cons_eq_append_conv)
    let ?q = "p\<lparr>sp_queue := c, sp_events := map Ev_data ds @ es\<rparr>"
    have "poll_read 1 p = (Got [b], ?q)" using Nil cs(2) c(1) by (simp add: poll_read_def)
    moreover have "incoming ?q bs es" using c cs(3) by (auto simp: incoming_def)
    ultimately show ?thesis by (auto simp: port_same_def)
  next
    case (Cons x q)
    then have "poll_read 1 p = (Got [b], p\<lparr>sp_queue := q\<rparr>)" using cs(1) by (simp add: poll_read_def)
    moreover have "incoming (p\<lparr>sp_queue := q\<rparr>) bs es" using Cons cs by (auto simp: incoming_def)
    ultimately show ?thesis by (auto simp: port_same_def)
  qed
qed

lemma char_of_byte_of_char [simp]: "char_of_byte (byte_of_char c) = c"
proof -
  have "unat (of_char c :: byte) = of_char c" by (cases c) simp
  then show ?thesis by (simp add: char_of_byte_def byte_of_char_def)
qed

lemma serial_read_line_incoming:
  "incoming p (map byte_of_char l @ byte_of_char e # rest) es \<Longrightarrow> list_all (\<lambda>c. \<not> is_eol c) l \<Longrightarrow> is_eol e \<Longrightarrow> length l < n \<Longrightarrow>
     \<exists>q. serial_read_line n p = (Some (l @ [e]), q) \<and> incoming q rest es \<and> port_same p q"
proof (induction l arbitrary: p n)
  case Nil
  then obtain k where "n = Suc k" by (cases n) auto
  with Nil poll_read_incoming [of p "byte_of_char e" rest es] show ?case by (auto simp: Let_def)
next
  case (Cons c l)
  then obtain k where n: "n = Suc k" "length l < k" by (cases n) auto
  from Cons.prems(1) poll_read_incoming [of p "byte_of_char c"] obtain q where
    q: "poll_read 1 p = (Got [byte_of_char c], q)" "incoming q (map byte_of_char l @ byte_of_char e # rest) es" "port_same p q"
    by auto
  from Cons.IH [OF q(2) _ Cons.prems(3) n(2)] Cons.prems(2) obtain q' where
    "serial_read_line k q = (Some (l @ [e]), q')" "incoming q' rest es" "port_same q q'" by auto
  with q n Cons.prems(2) show ?case by (auto simp: Let_def intro: port_same_trans)
qed

lemma term_lines_incoming:
  assumes "incoming p (map byte_of_char (l @ '']'') @ byte_of_char e # rest) es" and "list_all (\<lambda>c. \<not> is_eol c) l" and "is_eol e"
    and "length l + 2 \<le> 768"
  shows "\<exists>q. term_lines [] p = Inr (Some (l @ '']''), q) \<and> incoming q rest es \<and> port_same p q"
proof -
  from serial_read_line_incoming [of p "l @ '']''" e rest es 768] assms obtain q where
    q: "serial_read_line 768 p = (Some (l @ [CHR '']'', e]), q)" "incoming q rest es" "port_same p q"
    by (auto simp: is_eol_def)
  with assms(3) show ?thesis
    by (subst term_lines.simps) (simp add: IPMI_SERIAL_MAX_RESPONSE_def Let_def nth_append butlast_append)
qed

lemma strtoul_hex2: "strtoul 16 (hex2 b) = (uint b, [], False)"
proof -
  have v: "hi_nibble b * 16 + lo_nibble b = unat b" by (simp add: hi_nibble_def lo_nibble_def)
  have n: "hi_nibble b < 16" "lo_nibble b < 16" by simp_all
  have "dropWhile isspace (hex2 b) = hex2 b" using n by (simp add: hex2_def)
  moreover have "scan_sign (hex2 b) = (False, hex2 b)" using n scan_sign_hexchar by (simp add: hex2_def)
  moreover have "scan_base 16 (hex2 b) = (16, hex2 b)" by (simp add: scan_base_def has_hex_prefix_def hex2_def)
  moreover have "is_digit_in 16 (hd (hex2 b))" "scan_digits 16 0 (hex2 b) = (unat b, [])"
    using n v by (simp_all add: hex2_def is_digit_in_def)
  ultimately have "scan_number 16 (hex2 b) = Some (False, unat b, [])"
    by (simp add: scan_number_def hex2_def)
  moreover have "unat b < 2 ^ 64" using unat_byte_less [of b] by (rule less_trans) simp
  moreover have "uint b mod 2 ^ 64 = uint b" using uint_lt2p [of b] by (intro mod_pos_pos_trivial) auto
  ultimately show ?thesis by (simp add: strtoul_def)
qed

lemma term_hex_hex2:
  "i + length m \<le> len \<Longrightarrow> len \<le> length d \<Longrightarrow> term_hex len (concat (map hex2 m)) i None d = (int (i + length m), put_at i m d)"
proof (induction m arbitrary: i d)
  case Nil
  then show ?case by (simp add: put_at_def)
next
  case (Cons b m)
  have n: "hi_nibble b < 16" "lo_nibble b < 16" by simp_all
  have u: "\<not> uint b > 0xFF" using uint_lt2p [of b] by simp
  have s: "strtoul 16 [hexchar (hi_nibble b), hexchar (lo_nibble b)] = (uint b, [], False)"
    using strtoul_hex2 [of b] by (simp add: hex2_def)
  have "term_hex len (concat (map hex2 (b # m))) i None d = term_hex len (concat (map hex2 m)) (Suc i) None (d[i := b])"
    using Cons.prems n u s by (simp add: hex2_def)
  also have "\<dots> = (int (Suc i + length m), put_at (Suc i) m (d[i := b]))"
    using Cons.prems by (intro Cons.IH) auto
  finally show ?case using Cons.prems by (simp add: put_at_snoc)
qed

lemma hex_text_chars:
  assumes "c \<in> set (concat (map hex2 m))"
  shows "isxdigit c" and "\<not> is_eol c" and "c \<noteq> NUL" and "c \<noteq> CHR ''[''" and "c \<noteq> CHR '']''" and "c \<noteq> CHR '' ''"
proof -
  have x: "isxdigit c" using assms by (auto simp: hex2_def)
  show "isxdigit c" by (rule x)
  have "\<not> isxdigit (CHR 0x0A)" "\<not> isxdigit (CHR 0x0D)" "\<not> isxdigit NUL" "\<not> isxdigit (CHR ''['')" "\<not> isxdigit (CHR '']'')"
    "\<not> isxdigit (CHR '' '')" by code_simp+
  with x show "\<not> is_eol c" "c \<noteq> NUL" "c \<noteq> CHR ''[''" "c \<noteq> CHR '']''" "c \<noteq> CHR '' ''" by (auto simp: is_eol_def)
qed

lemma recv_response_line:
  assumes "incoming p (map byte_of_char (term_line m)) es" and "length m \<le> len" and "len \<le> length d" and "length m \<le> 382"
  shows "\<exists>q. recv_response d len p = Inr (int (length m), put_at 0 m d, q) \<and> incoming q [10] es \<and> port_same p q"
proof -
  let ?h = "concat (map hex2 m)"
  note hc = hex_text_chars [of _ m]
  have "list_all (\<lambda>c. \<not> is_eol c) (''['' @ ?h)" using hc(2) by (auto simp: list_all_iff is_eol_def)
  moreover have "incoming p (map byte_of_char ((''['' @ ?h) @ '']'') @ byte_of_char (CHR 0x0D) # [10]) es"
    using assms(1) by (simp add: term_line_def byte_of_char_def)
  ultimately obtain q where q: "term_lines [] p = Inr (Some ((''['' @ ?h) @ '']''), q)" "incoming q [10] es" "port_same p q"
    using term_lines_incoming [of p "''['' @ ?h" "CHR 0x0D" "[10]" es] assms(4) by (auto simp: is_eol_def)
  have nul: "takeWhile (\<lambda>c. c \<noteq> NUL) ((''['' @ ?h) @ '']'') = (''['' @ ?h) @ '']''"
    using hc(3) by (subst takeWhile_eq_all_conv) auto
  have tail: "takeWhile (\<lambda>x. x \<noteq> CHR ''['') (rev (?h @ '']'') @ ''['') = rev (?h @ '']'')"
    using hc(4) by (subst takeWhile_append2) auto
  have al: "after_last (CHR ''['') ((''['' @ ?h) @ '']'') = Some (?h @ '']'')"
    using tail by (simp add: after_last_def)
  have "takeWhile (\<lambda>x. x \<noteq> CHR '']'') (?h @ '']'') = ?h"
    using hc(5) by (subst takeWhile_append2) auto
  then have bf: "before_first (CHR '']'') (?h @ '']'') = Some ?h" by (simp add: before_first_def)
  have "?h \<noteq> ''ERR ''"
  proof
    assume "?h = ''ERR ''"
    then have "CHR '' '' \<in> set ?h" by (simp only: list.set) simp
    with hc(6) show False by blast
  qed
  moreover have "Option.bind (after_last (CHR ''['') (takeWhile (\<lambda>c. c \<noteq> NUL) ((''['' @ ?h) @ '']''))) (before_first (CHR '']'')) = Some ?h"
    unfolding nul al by (simp only: bind.simps bf)
  ultimately have "recv_response d len p = Inr (int (length m), put_at 0 m d, q)"
    unfolding recv_response_def q(1) using term_hex_hex2 [of 0 m len d] assms(2,3)
    by (simp only: sum.case prod.case option.case) simp
  with q show ?thesis by blast
qed


section \<open>Reference for built requests\<close>

definition term_reference :: "ipmi_intf \<Rightarrow> ipmi_rq \<Rightarrow> bool \<Rightarrow> byte \<Rightarrow> byte list" where
  "term_reference intf req is_system seq =
     (let my = ucast (my_addr intf); tgt = ucast (target_addr intf); transit = ucast (transit_addr intf);
          nf = netfn_lun req
      in if ipmi_intf_get_bridging_level intf = 0 then [nf, seq, rq_cmd req] @ rq_data req
         else if ipmi_intf_get_bridging_level intf = 1 then
           (case bridge_route is_system (target_channel intf) my seq of (ch, rqSA, rqSeq) \<Rightarrow>
              [0x18, seq, 0x34] @ ch # ipmb_msg tgt nf rqSA rqSeq (rq_cmd req) (rq_data req))
         else
           (case bridge_route is_system (transit_channel intf) my seq of (ch, rqSA, rqSeq) \<Rightarrow>
              [0x18, seq, 0x34] @ ch # ipmb_msg transit 0x18 rqSA rqSeq 0x34
                ((target_channel intf OR 0x40) # ipmb_msg tgt nf my seq (rq_cmd req) (rq_data req))))"

lemma bridging_level_cases:
  obtains "ipmi_intf_get_bridging_level intf = 0" | "ipmi_intf_get_bridging_level intf = 1" | "ipmi_intf_get_bridging_level intf = 2"
  using bridging_level_le_2 [of intf] by linarith

lemma length_term_reference:
  "length (term_reference intf req s q) = length (rq_data req) + 3 + 8 * ipmi_intf_get_bridging_level intf"
  by (rule bridging_level_cases [of intf]) (auto simp: term_reference_def Let_def split: prod.splits)

lemma term_bytes_level1:
  assumes "r = system_fix s (inner_send_message intf req q)" and "ipmi_intf_get_bridging_level intf = 1"
  shows "[0x18, q, 0x34] @ smr_bytes r @ rq_data req
      @ [ipmi_csum ([h_rqSA (smr_msg r), h_rqSeq (smr_msg r), h_cmd (smr_msg r)] @ rq_data req)] = term_reference intf req s q"
  using assms(2)
  by (simp add: assms(1) term_reference_def bridge_route_def Let_def system_fix_def inner_send_message_def
      smr_bytes_def hdr_bytes_def channel_track_mask IPMI_BMC_SLAVE_ADDR_def ipmb_msg_def)

lemma term_bytes_level2:
  assumes "r = system_fix s (outer_send_message intf q)" and "i = inner_send_message intf req q"
    and "ipmi_intf_get_bridging_level intf = 2"
  shows "[0x18, q, 0x34] @ smr_bytes r @ smr_bytes i @ rq_data req
      @ [ipmi_csum ([h_rqSA (smr_msg i), h_rqSeq (smr_msg i), h_cmd (smr_msg i)] @ rq_data req),
         ipmi_csum ([h_rqSA (smr_msg r), h_rqSeq (smr_msg r), h_cmd (smr_msg r)] @ [smr_channel i])] = term_reference intf req s q"
  using assms(3)
  by (simp add: assms(1,2) term_reference_def bridge_route_def Let_def ipmb_msg_send_message system_fix_def
      outer_send_message_def inner_send_message_def smr_bytes_def hdr_bytes_def channel_track_mask IPMI_BMC_SLAVE_ADDR_def)
    (simp add: ipmb_msg_def)

lemma serial_term_build_msg_reference:
  assumes "length (rq_data req) + 3 + 8 * ipmi_intf_get_bridging_level intf \<le> mx"
  shows "\<exists>ctx'. serial_term_build_msg intf req msg mx ctx p =
    (let q = push_bit 2 (next_seq (sp_seq p)); m = term_reference intf req (sp_is_system p) q
     in Some (ipmi_intf_get_bridging_level intf, put_at 0 m msg, ctx', length m, p\<lparr>sp_seq := next_seq (sp_seq p)\<rparr>))
    \<and> t_netFn (fst ctx') = (if ipmi_intf_get_bridging_level intf = 0 then netfn_lun req else 0x18)
    \<and> t_seq (fst ctx') = push_bit 2 (next_seq (sp_seq p))
    \<and> t_cmd (fst ctx') = (if ipmi_intf_get_bridging_level intf = 0 then rq_cmd req else 0x34)"
proof -
  let ?q = "push_bit 2 (next_seq (sp_seq p))"
  show ?thesis
  proof (cases intf rule: bridging_level_cases)
    case 1
    with assms show ?thesis
      by (simp add: serial_term_build_msg_def alloc_seq_def term_reference_def Let_def)
  next
    case 2
    with assms term_bytes_level1 [of _ "sp_is_system p" intf req ?q, OF refl] show ?thesis
      by (simp add: serial_term_build_msg_def alloc_seq_def Let_def length_term_reference)
  next
    case 3
    with assms term_bytes_level2 [of _ "sp_is_system p" intf ?q _ req, OF refl refl] show ?thesis
      by (simp add: serial_term_build_msg_def alloc_seq_def Let_def length_term_reference)
  qed
qed

lemma serial_term_send_msg_line: "serial_term_send_msg msg p = port_write (map byte_of_char (term_line msg)) p"
  by (simp add: serial_term_send_msg_def term_line_def)

lemma and_not_zero: "(x :: byte) AND 3 = 0 \<Longrightarrow> x AND NOT 3 = x"
  by (metis and.right_neutral bit.conj_disj_distrib bit.disj_cancel_right or.left_neutral)

text \<open>The response line to a request: response network function, sequence byte, command, completion code, data.\<close>

definition term_response :: "serial_term_request_ctx \<Rightarrow> byte \<Rightarrow> byte list \<Rightarrow> byte list" where
  "term_response c cc d = [t_netFn c OR 4, t_seq c, t_cmd c, cc] @ d"

lemma term_wait_response_line:
  assumes "incoming p (map byte_of_char (term_line (term_response c cc d))) es" and "length d + 4 \<le> mx" and "mx \<le> length m0"
    and "length d \<le> 378" and "t_seq c AND 3 = 0"
  shows "\<exists>m' q. serial_term_wait_response c m0 mx p = Inr (int (length d) + 1, (cc # d) @ m', q)
    \<and> length m' + length d + 1 = length m0 \<and> incoming q [10] es \<and> port_same p q"
proof -
  let ?m = "term_response c cc d"
  have len: "length ?m = length d + 4" by (simp add: term_response_def)
  from recv_response_line [OF assms(1) _ assms(3)] assms(2,4) len obtain q where
    q: "recv_response m0 mx p = Inr (int (length d) + 4, put_at 0 ?m m0, q)" "incoming q [10] es" "port_same p q" by auto
  have "t_seq c AND NOT 3 = t_seq c" using and_not_zero [OF assms(5)] .
  then have match: "term_matches c (put_at 0 ?m m0)"
    by (simp add: term_matches_def put_at_def term_response_def)
  have n: "nat (int (length d) + 4) - 3 = Suc (length d)" by linarith
  have body: "take (Suc (length d)) (drop 3 (put_at 0 ?m m0)) = cc # d" by (simp add: put_at_def term_response_def)
  have "serial_term_wait_response c m0 mx p = Inr (int (length d) + 1, put_at 0 (cc # d) (put_at 0 ?m m0), q)"
    using q(1) match assms(3) n body by (subst serial_term_wait_response.simps) simp
  moreover have "put_at 0 (cc # d) (put_at 0 ?m m0) = (cc # d) @ drop (length d + 1) (put_at 0 ?m m0)" by (simp add: put_at_def)
  ultimately show ?thesis using q len assms(2,3) by (auto simp: put_at_def)
qed


lemma push_bit_2_low: "push_bit 2 (x :: byte) AND 3 = 0"
proof (rule bit_eqI)
  fix n
  have "bit (3 :: byte) n \<longleftrightarrow> n < 2" using bit_mask_iff [of 2 n, where ?'a = "8 word"] by (auto simp: mask_eq_exp_minus_1)
  then show "bit (push_bit 2 x AND 3) n = bit (0 :: byte) n" by (auto simp: bit_simps)
qed

lemma term_send_cmd_direct:
  assumes "opened intf" and "0 < retry (ssn_params intf)" and "ipmi_intf_get_bridging_level intf = 0"
    and "length (rq_data req) \<le> 253" and "length d \<le> 252" and "length (tst_msg st) = IPMI_SERIAL_MAX_RESPONSE"
    and "c = \<lparr>t_netFn = netfn_lun req, t_sa = sa, t_seq = push_bit 2 (next_seq (sp_seq p)), t_cmd = rq_cmd req\<rparr>"
    and "sp_events p = map Ev_data cs @ es" and "\<forall>x\<in>set cs. x \<noteq> []"
    and "concat cs = map byte_of_char (term_line (term_response c cc d))"
  shows "\<exists>q. ipmi_serial_term_send_cmd open_fd st intf req p = Inr (Some \<lparr>rs_ccode = cc, rs_data = d\<rparr>, intf, q)
    \<and> sp_out q = sp_out p @ [map byte_of_char (term_line ([netfn_lun req, push_bit 2 (next_seq (sp_seq p)), rq_cmd req] @ rq_data req))]"
proof -
  let ?q = "push_bit 2 (next_seq (sp_seq p))"
  let ?req = "[netfn_lun req, ?q, rq_cmd req] @ rq_data req"
  let ?p = "serial_term_send_msg ?req (port_flush (p\<lparr>sp_seq := next_seq (sp_seq p)\<rparr>))"
  have ref: "term_reference intf req s q = [netfn_lun req, q, rq_cmd req] @ rq_data req" for s q
    using assms(3) by (simp add: term_reference_def Let_def)
  have "length (rq_data req) + 3 + 8 * ipmi_intf_get_bridging_level intf \<le> IPMI_SERIAL_MAX_RESPONSE"
    using assms(3,4) by (simp add: IPMI_SERIAL_MAX_RESPONSE_def)
  from serial_term_build_msg_reference [OF this, of "tst_msg st" "tst_ctx st" p] assms(3) obtain ctx' where
    build: "serial_term_build_msg intf req (tst_msg st) IPMI_SERIAL_MAX_RESPONSE (tst_ctx st) p =
      Some (0, put_at 0 ?req (tst_msg st), ctx', length ?req, p\<lparr>sp_seq := next_seq (sp_seq p)\<rparr>)"
    and ctx': "t_netFn (fst ctx') = t_netFn c" "t_seq (fst ctx') = t_seq c" "t_cmd (fst ctx') = t_cmd c"
    by (auto simp: Let_def ref assms(7))
  have inc: "incoming ?p (map byte_of_char (term_line (term_response (fst ctx') cc d))) es"
    unfolding incoming_def using assms(8-10) ctx'
    by (intro exI [of _ cs]) (simp add: serial_term_send_msg_line port_write_def port_flush_def term_response_def)
  have low: "t_seq (fst ctx') AND 3 = 0" using ctx'(2) assms(7) by (simp add: push_bit_2_low)
  have len: "length (put_at 0 ?req (tst_msg st)) = IPMI_SERIAL_MAX_RESPONSE"
    using assms(4,6) by (simp add: IPMI_SERIAL_MAX_RESPONSE_def)
  from term_wait_response_line [OF inc _ _ _ low, of IPMI_SERIAL_MAX_RESPONSE "put_at 0 ?req (tst_msg st)"] assms(5) len
  obtain m' q where wait: "serial_term_wait_response (fst ctx') (put_at 0 ?req (tst_msg st)) IPMI_SERIAL_MAX_RESPONSE ?p =
      Inr (int (length d) + 1, (cc # d) @ m', q)" and q: "port_same ?p q"
    by (auto simp: IPMI_SERIAL_MAX_RESPONSE_def)
  have n: "nat (int (length d) + 1) = Suc (length d)" "\<not> int (length d) + 1 < 1" by linarith+
  have tk: "take (length ?req) (put_at 0 ?req (tst_msg st)) = ?req" by (simp add: put_at_def)
  have "term_attempt st intf req (tst_msg st) p = Inr (Some (Some \<lparr>rs_ccode = cc, rs_data = d\<rparr>), (cc # d) @ m', q)"
    unfolding term_attempt_def build option.case prod.case tk Let_def wait sum.case
    using n by (simp add: bm_result_def)
  moreover obtain k where "nat (retry (ssn_params intf)) = Suc k"
    using assms(2) by (cases "nat (retry (ssn_params intf))") simp_all
  ultimately have "ipmi_serial_term_send_cmd open_fd st intf req p = Inr (Some \<lparr>rs_ccode = cc, rs_data = d\<rparr>, intf, q)"
    using assms(1) by (simp add: ipmi_serial_term_send_cmd_def)
  moreover have "sp_out q = sp_out p @ [map byte_of_char (term_line ?req)]"
    using q by (simp add: port_same_def serial_term_send_msg_line port_write_def port_flush_def)
  ultimately show ?thesis by blast
qed

section \<open>Properties\<close>

text \<open>
  a message sent by \<open>serial_term_send_msg\<close> and arriving in pieces of any sizes is read
  back unchanged by \<open>recv_response\<close> into an array that can hold it; nothing after its
  bytes in the array changes.
\<close>

theorem term_line_roundtrip:
  assumes "sp_out (serial_term_send_msg m sender) = sp_out sender @ [concat cs]" and "\<forall>x\<in>set cs. x \<noteq> []"
    and "sp_queue p = []" and "sp_events p = map Ev_data cs @ es"
    and "length m \<le> len" and "len \<le> length data" and "length data = IPMI_SERIAL_MAX_RESPONSE"
  shows "\<exists>q. recv_response data len p = Inr (int (length m), m @ drop (length m) data, q)"
proof -
  have "incoming p (map byte_of_char (term_line m)) es"
    using assms(1-4) by (auto simp: incoming_def serial_term_send_msg_line port_write_def)
  from recv_response_line [OF this assms(5,6)] assms(5-7) show ?thesis
    by (auto simp: put_at_def IPMI_SERIAL_MAX_RESPONSE_def)
qed

theorem term_line_roundtrip_witness:
  "\<exists>q. recv_response (replicate 256 0) 256 (sample_port\<lparr>sp_events := [Ev_data [91, 49], Ev_data [97, 93, 13, 10]]\<rparr>) =
    Inr (1, 0x1A # replicate 255 0, q)"
proof -
  have "map byte_of_char (term_line [0x1A]) = [91, 49, 97, 93, 13, 10]" by code_simp
  then show ?thesis
    using term_line_roundtrip [of "[0x1A]" sample_port "[[91, 49], [97, 93, 13, 10]]"
        "sample_port\<lparr>sp_events := [Ev_data [91, 49], Ev_data [97, 93, 13, 10]]\<rparr>" "[]" 256 "replicate 256 0"]
    by (simp add: serial_term_send_msg_line port_write_def sample_port_def IPMI_SERIAL_MAX_RESPONSE_def)
qed

text \<open>
  whatever arrives, \<open>recv_response\<close> writes only inside the first \<open>len\<close> bytes of the
  array and returns -1 or a length of at most \<open>len\<close>.
\<close>

theorem term_recv_memory_safe:
  assumes "recv_response data len p = Inr (rv, data', p')" and "len \<le> length data"
  shows "length data' = length data \<and> drop len data' = drop len data \<and> -1 \<le> rv \<and> rv \<le> int len"
  using recv_response_result [OF assms] by simp

definition sample_line_port :: serial_port where
  "sample_line_port = sample_port\<lparr>sp_events := [Ev_data (map byte_of_char (term_line [1, 2]))]\<rparr>"

theorem term_recv_memory_safe_witness:
  "\<exists>data' q. recv_response [9, 9, 9, 9] 2 sample_line_port = Inr (2, data', q) \<and> drop 2 data' = [9, 9]"
proof -
  have "incoming sample_line_port (map byte_of_char (term_line [1, 2])) []"
    unfolding incoming_def
    by (rule exI [of _ "[map byte_of_char (term_line [1, 2])]"]) (simp add: sample_line_port_def sample_port_def term_line_def)
  from recv_response_line [OF this, of 2 "[9, 9, 9, 9]"] obtain data' q where
    r: "recv_response [9, 9, 9, 9] 2 sample_line_port = Inr (2, data', q)" by auto
  with term_recv_memory_safe [OF r] show ?thesis by simp
qed

text \<open>
  For direct, bridged and doubly bridged requests the terminal-mode message is the
  header followed by the nested IPMB messages of the reference encoder, built exactly when
  it fits; only its own bytes of the array change.
\<close>

theorem term_build_msg_correct:
  "case serial_term_build_msg intf req msg max_len ctx p of
     None \<Rightarrow> max_len < length (term_reference intf req (sp_is_system p) (push_bit 2 (next_seq (sp_seq p))))
   | Some (level, msg', ctx', msg_len, p') \<Rightarrow>
       level = ipmi_intf_get_bridging_level intf \<and> msg_len \<le> max_len \<and> p' = p\<lparr>sp_seq := next_seq (sp_seq p)\<rparr>
     \<and> msg' = term_reference intf req (sp_is_system p) (push_bit 2 (next_seq (sp_seq p))) @ drop msg_len msg
     \<and> msg_len = length (term_reference intf req (sp_is_system p) (push_bit 2 (next_seq (sp_seq p))))"
proof (cases "length (rq_data req) + 3 + 8 * ipmi_intf_get_bridging_level intf \<le> max_len")
  case True
  from serial_term_build_msg_reference [OF True, of msg ctx p] True show ?thesis
    by (auto simp: Let_def length_term_reference put_at_def)
next
  case False
  then have "serial_term_build_msg intf req msg max_len ctx p = None"
    by (simp add: serial_term_build_msg_def Let_def mult.commute)
  with False show ?thesis by (simp add: length_term_reference)
qed

text \<open>
  \<open>serial_term_wait_response\<close> returns data only of a response to this request: response
  network function, same sequence number, same command, and at least a completion code.
\<close>

theorem term_wait_response_sound:
  assumes "serial_term_wait_response c msg max_len p = Inr (rv, msg', p')" and "rv > 0"
  shows "\<exists>m. 4 \<le> length m \<and> length m \<le> max_len \<and> term_matches c m \<and> take (nat rv) msg' = drop 3 m
    \<and> rv = int (length m) - 3 \<and> length msg' = length msg"
  using serial_term_wait_response_result [OF assms(1)] assms(2) by auto

definition sample_term_ctx :: serial_term_request_ctx where
  "sample_term_ctx = \<lparr>t_netFn = 0x18, t_sa = 0, t_seq = 0, t_cmd = 1\<rparr>"

theorem term_wait_response_sound_witness:
  "\<exists>rv msg' p'. serial_term_wait_response sample_term_ctx (replicate 256 0) 256
      (sample_port\<lparr>sp_events := [Ev_data (map byte_of_char (term_line (term_response sample_term_ctx 0 [7])))]\<rparr>) = Inr (rv, msg', p')
    \<and> rv = 2 \<and> (\<exists>m. term_matches sample_term_ctx m \<and> take 2 msg' = drop 3 m)"
proof -
  let ?l = "map byte_of_char (term_line (term_response sample_term_ctx 0 [7]))"
  let ?p = "sample_port\<lparr>sp_events := [Ev_data ?l]\<rparr>"
  have "incoming ?p ?l []"
    unfolding incoming_def by (rule exI [of _ "[?l]"]) (simp add: sample_port_def term_line_def)
  from term_wait_response_line [OF this, of 256 "replicate 256 0"] obtain m' q where
    w: "serial_term_wait_response sample_term_ctx (replicate 256 0) 256 ?p = Inr (2, (0 # [7]) @ m', q)"
    by (auto simp: sample_term_ctx_def)
  from term_wait_response_sound [OF w] w show ?thesis by auto
qed

text \<open>
  C40: a direct terminal-mode request over an open line with at least one retry is sent once
  as one line, and the response, arriving in pieces of any sizes, is returned with its
  completion code and data.
\<close>

theorem term_send_cmd_returns_response:
  assumes "opened intf" and "0 < retry (ssn_params intf)" and "ipmi_intf_get_bridging_level intf = 0"
    and "length (rq_data req) \<le> 253" and "length d \<le> 252" and "length (tst_msg st) = IPMI_SERIAL_MAX_RESPONSE"
    and "c = \<lparr>t_netFn = netfn_lun req, t_sa = sa, t_seq = push_bit 2 (next_seq (sp_seq p)), t_cmd = rq_cmd req\<rparr>"
    and "sp_events p = map Ev_data cs @ es" and "\<forall>x\<in>set cs. x \<noteq> []"
    and "concat cs = map byte_of_char (term_line (term_response c cc d))"
  shows "\<exists>q. ipmi_serial_term_send_cmd open_fd st intf req p = Inr (Some \<lparr>rs_ccode = cc, rs_data = d\<rparr>, intf, q)
    \<and> sp_out q = sp_out p @ [map byte_of_char (term_line ([netfn_lun req, push_bit 2 (next_seq (sp_seq p)), rq_cmd req] @ rq_data req))]"
  using assms by (rule term_send_cmd_direct)

definition sample_term_stack :: term_stack where
  "sample_term_stack = \<lparr>tst_msg = replicate 256 0xFF, tst_data = replicate 256 0, tst_ctx = (sample_term_ctx, sample_term_ctx),
     tst_tmp_ctx = sample_term_ctx\<rparr>"

theorem term_send_cmd_returns_response_witness:
  "\<exists>q. ipmi_serial_term_send_cmd 3 sample_term_stack (sample_intf\<lparr>target_addr := 0x20\<rparr>) sample_rq
      (sample_port\<lparr>sp_events := [Ev_data (map byte_of_char (term_line (term_response sample_term_ctx 0 [7])))]\<rparr>) =
    Inr (Some \<lparr>rs_ccode = 0, rs_data = [7]\<rparr>, sample_intf\<lparr>target_addr := 0x20\<rparr>, q)"
proof -
  let ?l = "map byte_of_char (term_line (term_response sample_term_ctx 0 [7]))"
  let ?p = "sample_port\<lparr>sp_events := [Ev_data ?l]\<rparr>"
  have c: "sample_term_ctx = \<lparr>t_netFn = netfn_lun sample_rq, t_sa = 0, t_seq = push_bit 2 (next_seq (sp_seq ?p)), t_cmd = rq_cmd sample_rq\<rparr>"
    by (simp add: sample_term_ctx_def sample_rq_def sample_port_def netfn_lun_def next_seq_def)
  show ?thesis
    using term_send_cmd_returns_response [OF _ _ _ _ _ _ c, of "sample_intf\<lparr>target_addr := 0x20\<rparr>" "[7]" sample_term_stack "[?l]" "[]" 0 3]
    by (auto simp: sample_intf_def sample_params_def sample_rq_def sample_term_stack_def ipmi_intf_get_bridging_level_def
        IPMI_SERIAL_MAX_RESPONSE_def term_line_def)
qed

section \<open>Error lines\<close>

text \<open>
  An error report of the device, such as \<open>[ERR 00]\<close>, is compared with \<open>strcmp\<close> against the
  four characters \<open>ERR\<close> and blank, so it is never recognised and taken for an invalid
  response.
\<close>

lemma term_error_line_not_recognised:
  assumes "incoming p (map byte_of_char (''[ERR 00'' @ '']'') @ byte_of_char (CHR 0x0D) # rest) es"
  shows "\<exists>q. recv_response (replicate 4 0) 4 p = Inr (-1, replicate 4 0, q) \<and> sp_out q = sp_out p"
proof -
  from term_lines_incoming [OF assms] obtain q where
    q: "term_lines [] p = Inr (Some (''[ERR 00'' @ '']''), q)" "port_same p q" by (auto simp: is_eol_def)
  have bind: "Option.bind (after_last (CHR ''['') (takeWhile (\<lambda>c. c \<noteq> NUL) (''[ERR 00'' @ '']''))) (before_first (CHR '']'')) = Some ''ERR 00''"
    by (simp add: after_last_def before_first_def)
  have "term_hex 4 ''ERR 00'' 0 None (replicate 4 0) = (-1, replicate 4 0)"
    by (simp add: isxdigit_def isspace_def)
  then have "recv_response (replicate 4 0) 4 p = Inr (-1, replicate 4 0, q)"
    unfolding recv_response_def q(1) sum.case prod.case option.case bind by simp
  with q(2) show ?thesis by (auto simp: port_same_def)
qed

end
