(* ===== verification/Rq_List.thy ===== *)
theory Rq_List
  imports Intf
begin

text \<open>
  The list of outstanding requests of src/plugins/lan/lan.c. The code keeps it as a singly
  linked list of allocated entries with a head and a tail pointer, each entry with a pointer
  to the allocated packet last built for it; here entries and packets live in an explicit
  heap, and the operations are shown to refine the operations on plain lists that the LAN
  model uses. Following a pointer that is not allocated and freeing a packet that is not
  allocated have no result, nor has a loop that never ends. The heap also shows what the
  code leaks: \<open>ipmi_req_clear_entries\<close> frees the entries and not their packets.
\<close>

section \<open>Entries and lists of entries\<close>

text \<open>
  The packet of an entry is its bytes in the list model and an address in the heap, so the
  record takes the type of the packet as a parameter.
\<close>

record 'm rq_entry =
  e_req :: ipmi_rq
  e_rq_seq :: byte
  e_msg_data :: "'m option"
  e_bridging_level :: nat

type_synonym ipmi_rq_entry = "byte list rq_entry"

definition entry_matches :: "byte \<Rightarrow> byte \<Rightarrow> 'm rq_entry \<Rightarrow> bool" where
  "entry_matches seq cmd e \<longleftrightarrow> e_rq_seq e = seq \<and> rq_cmd (e_req e) = cmd"

text \<open>The abstract operations: position of the first match, removal of the first match.\<close>

fun rq_find :: "byte \<Rightarrow> byte \<Rightarrow> 'm rq_entry list \<Rightarrow> nat option" where
  "rq_find seq cmd [] = None"
| "rq_find seq cmd (e # es) = (if entry_matches seq cmd e then Some 0 else map_option Suc (rq_find seq cmd es))"

fun rq_remove :: "byte \<Rightarrow> byte \<Rightarrow> 'm rq_entry list \<Rightarrow> 'm rq_entry list" where
  "rq_remove seq cmd [] = []"
| "rq_remove seq cmd (e # es) = (if entry_matches seq cmd e then es else e # rq_remove seq cmd es)"

definition rq_new :: "ipmi_rq \<Rightarrow> byte \<Rightarrow> 'm rq_entry" where
  "rq_new req seq = \<lparr>e_req = req, e_rq_seq = seq, e_msg_data = None, e_bridging_level = 0\<rparr>"

lemma rq_find_Some: "rq_find seq cmd es = Some i \<Longrightarrow> i < length es \<and> entry_matches seq cmd (es ! i)"
  by (induction es arbitrary: i) (auto split: if_splits)

lemma rq_find_None: "rq_find seq cmd es = None \<longleftrightarrow> (\<forall>e\<in>set es. \<not> entry_matches seq cmd e)"
  by (induction es) auto

lemma rq_remove_None: "rq_find seq cmd es = None \<Longrightarrow> rq_remove seq cmd es = es"
  by (induction es) (auto split: if_splits)

lemma rq_remove_Some: "rq_find seq cmd es = Some i \<Longrightarrow> rq_remove seq cmd es = take i es @ drop (Suc i) es"
  by (induction es arbitrary: i) (auto split: if_splits)

lemma set_rq_remove: "set (rq_remove seq cmd es) \<subseteq> set es"
  by (induction es) auto

section \<open>The linked list\<close>

record rq_node =
  n_entry :: "nat rq_entry"
  n_next :: "nat option"

text \<open>
  Allocated nodes and allocated packets by address, head, tail, and the next address
  \<open>malloc\<close> returns: it is one not in use.
\<close>

record rq_heap =
  h_nodes :: "nat \<Rightarrow> rq_node option"
  h_blocks :: "nat \<Rightarrow> byte list option"
  h_head :: "nat option"
  h_tail :: "nat option"
  h_brk :: nat

definition set_next :: "nat \<Rightarrow> nat option \<Rightarrow> rq_heap \<Rightarrow> rq_heap" where
  "set_next a v h = (case h_nodes h a of None \<Rightarrow> h | Some n \<Rightarrow> h\<lparr>h_nodes := (h_nodes h)(a \<mapsto> n\<lparr>n_next := v\<rparr>)\<rparr>)"

definition free_node :: "nat \<Rightarrow> rq_heap \<Rightarrow> rq_heap" where
  "free_node a h = h\<lparr>h_nodes := (h_nodes h)(a := None)\<rparr>"

text \<open>
  \<open>if (e->msg_data) { free(e->msg_data); e->msg_data = NULL; }\<close> for the entry at \<open>a\<close>, and
  the store of a freshly allocated packet in it.
\<close>

definition set_msg :: "nat \<Rightarrow> nat option \<Rightarrow> rq_heap \<Rightarrow> rq_heap" where
  "set_msg a v h =
     (case h_nodes h a of
        None \<Rightarrow> h
      | Some n \<Rightarrow> h\<lparr>h_nodes := (h_nodes h)(a \<mapsto> n\<lparr>n_entry := (n_entry n)\<lparr>e_msg_data := v\<rparr>\<rparr>)\<rparr>)"

definition free_msg :: "nat \<Rightarrow> rq_heap \<Rightarrow> rq_heap option" where
  "free_msg a h =
     (case h_nodes h a of
        None \<Rightarrow> None
      | Some n \<Rightarrow>
          (case e_msg_data (n_entry n) of
             None \<Rightarrow> Some h
           | Some p \<Rightarrow> if h_blocks h p = None then None
                       else Some (set_msg a None (h\<lparr>h_blocks := (h_blocks h)(p := None)\<rparr>))))"

definition store_msg :: "nat \<Rightarrow> byte list \<Rightarrow> rq_heap \<Rightarrow> rq_heap option" where
  "store_msg a msg h =
     (if h_nodes h a = None then None
      else let p = h_brk h in Some (set_msg a (Some p) (h\<lparr>h_blocks := (h_blocks h)(p \<mapsto> msg), h_brk := Suc p\<rparr>)))"

text \<open>\<open>malloc_ok\<close> is whether \<open>malloc\<close> succeeds. Result: the new entry or NULL, and the heap.\<close>

definition ipmi_req_add_entry :: "bool \<Rightarrow> ipmi_rq \<Rightarrow> byte \<Rightarrow> rq_heap \<Rightarrow> (nat option \<times> rq_heap) option" where
  "ipmi_req_add_entry malloc_ok req req_seq h =
     (if \<not> malloc_ok then Some (None, h)
      else let a = h_brk h;
               h1 = h\<lparr>h_nodes := (h_nodes h)(a \<mapsto> \<lparr>n_entry = rq_new req req_seq, n_next = None\<rparr>), h_brk := Suc a\<rparr>
           in case h_head h1 of
                None \<Rightarrow> Some (Some a, h1\<lparr>h_head := Some a, h_tail := Some a\<rparr>)
              | Some _ \<Rightarrow>
                  (case h_tail h1 of
                     None \<Rightarrow> None
                   | Some t \<Rightarrow> if h_nodes h1 t = None then None
                               else Some (Some a, (set_next t (Some a) h1)\<lparr>h_tail := Some a\<rparr>)))"

partial_function (option) lookup_loop :: "byte \<Rightarrow> byte \<Rightarrow> nat option \<Rightarrow> rq_heap \<Rightarrow> nat option option" where
  "lookup_loop seq cmd e h =
     (case e of
        None \<Rightarrow> Some None
      | Some a \<Rightarrow>
          (case h_nodes h a of
             None \<Rightarrow> None
           | Some n \<Rightarrow>
               if entry_matches seq cmd (n_entry n) then Some (Some a)
               else if n_next n = None \<or> n_next n = Some a then Some None
               else lookup_loop seq cmd (n_next n) h))"

definition ipmi_req_lookup_entry :: "byte \<Rightarrow> byte \<Rightarrow> rq_heap \<Rightarrow> nat option option" where
  "ipmi_req_lookup_entry seq cmd h = lookup_loop seq cmd (h_head h) h"

text \<open>
  What \<open>ipmi_lan_build_cmd\<close> does with the list: an entry with this sequence number and
  command is used again and its packet freed, otherwise one is added; then the new packet,
  \<open>msg\<close>, is hung on it.
\<close>

definition build_entry :: "ipmi_rq \<Rightarrow> byte \<Rightarrow> byte list \<Rightarrow> rq_heap \<Rightarrow> rq_heap option" where
  "build_entry req curr_seq msg h =
     (case ipmi_req_lookup_entry curr_seq (rq_cmd req) h of
        None \<Rightarrow> None
      | Some (Some a) \<Rightarrow> Option.bind (free_msg a h) (store_msg a msg)
      | Some None \<Rightarrow>
          (case ipmi_req_add_entry True req curr_seq h of
             Some (Some a, h1) \<Rightarrow> store_msg a msg h1
           | _ \<Rightarrow> None))"

text \<open>The search of the removal: the entry found, if any, and the one visited before it.\<close>

partial_function (option) remove_loop :: "byte \<Rightarrow> byte \<Rightarrow> nat option \<Rightarrow> nat option \<Rightarrow> rq_heap \<Rightarrow> (nat option \<times> nat option) option" where
  "remove_loop seq cmd p e h =
     (case e of
        None \<Rightarrow> Some (p, None)
      | Some a \<Rightarrow>
          (case h_nodes h a of
             None \<Rightarrow> None
           | Some n \<Rightarrow>
               if entry_matches seq cmd (n_entry n) then Some (p, Some a)
               else remove_loop seq cmd (Some a) (n_next n) h))"

definition ipmi_req_remove_entry :: "byte \<Rightarrow> byte \<Rightarrow> rq_heap \<Rightarrow> rq_heap option" where
  "ipmi_req_remove_entry seq cmd h =
     (case remove_loop seq cmd (h_head h) (h_head h) h of
        None \<Rightarrow> None
      | Some (_, None) \<Rightarrow> Some h
      | Some (None, Some e) \<Rightarrow> None
      | Some (Some p, Some e) \<Rightarrow>
          (case (h_nodes h p, h_nodes h e) of
             (Some np, Some ne) \<Rightarrow>
               (let saved_next_entry = n_next ne;
                    h1 = set_next p (if n_next np = n_next ne then None else n_next ne) h;
                    h2 = (if h_head h1 = Some e
                          then h1\<lparr>h_head := (if h_head h1 \<noteq> Some p then Some p else saved_next_entry)\<rparr> else h1);
                    h3 = (if h_tail h2 = Some e
                          then h2\<lparr>h_tail := (if h_tail h2 \<noteq> Some p then Some p else None)\<rparr> else h2)
                in map_option (free_node e) (free_msg e h3))
           | _ \<Rightarrow> None))"

partial_function (option) clear_loop :: "nat option \<Rightarrow> rq_heap \<Rightarrow> rq_heap option" where
  "clear_loop e h =
     (case e of
        None \<Rightarrow> Some h
      | Some a \<Rightarrow>
          (case h_nodes h a of
             None \<Rightarrow> None
           | Some n \<Rightarrow> clear_loop (n_next n) (free_node a h)))"

definition ipmi_req_clear_entries :: "rq_heap \<Rightarrow> rq_heap option" where
  "ipmi_req_clear_entries h = map_option (\<lambda>h'. h'\<lparr>h_head := None, h_tail := None\<rparr>) (clear_loop (h_head h) h)"


section \<open>What a heap represents\<close>

text \<open>A chain of nodes from pointer \<open>e\<close> through the addresses \<open>as\<close>, holding the entries \<open>es\<close>, up to pointer \<open>x\<close>.\<close>

fun seg :: "(nat \<Rightarrow> rq_node option) \<Rightarrow> nat option \<Rightarrow> nat list \<Rightarrow> nat rq_entry list \<Rightarrow> nat option \<Rightarrow> bool" where
  "seg m e [] [] x \<longleftrightarrow> e = x"
| "seg m e (a # as) (y # es) x \<longleftrightarrow> e = Some a \<and> (\<exists>n. m a = Some n \<and> n_entry n = y \<and> seg m (n_next n) as es x)"
| "seg m e _ _ x \<longleftrightarrow> False"

definition last_ptr :: "nat list \<Rightarrow> nat option" where
  "last_ptr as = (if as = [] then None else Some (last as))"

definition chain_rep :: "rq_heap \<Rightarrow> nat list \<Rightarrow> nat rq_entry list \<Rightarrow> bool" where
  "chain_rep h as es \<longleftrightarrow> seg (h_nodes h) (h_head h) as es None \<and> distinct as \<and> h_tail h = last_ptr as
     \<and> dom (h_nodes h) = set as \<and> (\<forall>a\<in>set as. a < h_brk h)"

text \<open>
  The addresses of the packets the entries hold: each is allocated and no two entries share
  one. Other packets that are still allocated are not reachable any more.
\<close>

definition packets :: "'m rq_entry list \<Rightarrow> 'm list" where
  "packets ps = List.map_filter e_msg_data ps"

definition packets_ok :: "rq_heap \<Rightarrow> nat rq_entry list \<Rightarrow> bool" where
  "packets_ok h ps \<longleftrightarrow> distinct (packets ps) \<and> set (packets ps) \<subseteq> dom (h_blocks h) \<and> (\<forall>p\<in>dom (h_blocks h). p < h_brk h)"

definition leaked :: "rq_heap \<Rightarrow> nat rq_entry list \<Rightarrow> nat set" where
  "leaked h ps = dom (h_blocks h) - set (packets ps)"

definition load_entry :: "rq_heap \<Rightarrow> nat rq_entry \<Rightarrow> ipmi_rq_entry" where
  "load_entry h e = \<lparr>e_req = e_req e, e_rq_seq = e_rq_seq e, e_msg_data = Option.bind (e_msg_data e) (h_blocks h), e_bridging_level = e_bridging_level e\<rparr>"

definition rq_rep :: "rq_heap \<Rightarrow> nat list \<Rightarrow> nat rq_entry list \<Rightarrow> ipmi_rq_entry list \<Rightarrow> bool" where
  "rq_rep h as ps es \<longleftrightarrow> chain_rep h as ps \<and> packets_ok h ps \<and> es = map (load_entry h) ps"

definition has_block :: "(nat \<Rightarrow> byte list option) \<Rightarrow> nat option \<Rightarrow> bool" where
  "has_block B v \<longleftrightarrow> (case v of None \<Rightarrow> True | Some p \<Rightarrow> B p \<noteq> None)"

definition drop_block :: "nat option \<Rightarrow> (nat \<Rightarrow> byte list option) \<Rightarrow> nat \<Rightarrow> byte list option" where
  "drop_block v B = (case v of None \<Rightarrow> B | Some p \<Rightarrow> B(p := None))"

lemma packets_simps [simp]:
  "packets [] = []" "packets (e # ps) = (case e_msg_data e of None \<Rightarrow> [] | Some p \<Rightarrow> [p]) @ packets ps"
  "packets (ps @ qs) = packets ps @ packets qs"
  by (simp_all add: packets_def List.map_filter_def split: option.splits)

lemma free_msg_eq:
  "h_nodes h a = Some n \<Longrightarrow> has_block (h_blocks h) (e_msg_data (n_entry n)) \<Longrightarrow>
     map_option (free_node a) (free_msg a h) = Some (free_node a (h\<lparr>h_blocks := drop_block (e_msg_data (n_entry n)) (h_blocks h)\<rparr>))"
  by (auto simp: free_msg_def set_msg_def free_node_def drop_block_def has_block_def split: option.splits)

lemma free_node_simps [simp]:
  "h_nodes (free_node a h) = (h_nodes h)(a := None)" "h_head (free_node a h) = h_head h" "h_tail (free_node a h) = h_tail h"
  "h_brk (free_node a h) = h_brk h" "h_blocks (free_node a h) = h_blocks h"
  by (simp_all add: free_node_def)

lemma seg_length: "seg m e as es x \<Longrightarrow> length as = length es"
  by (induction m e as es x rule: seg.induct) auto

lemma seg_append:
  "length as = length es \<Longrightarrow> seg m e (as @ bs) (es @ fs) x \<longleftrightarrow> (\<exists>y. seg m e as es y \<and> seg m y bs fs x)"
  by (induction as es arbitrary: e rule: list_induct2) auto

lemma seg_update: "a \<notin> set as \<Longrightarrow> seg (m(a := v)) e as es x \<longleftrightarrow> seg m e as es x"
  by (induction m e as es x rule: seg.induct) auto

lemma seg_start: "seg m e as es x \<Longrightarrow> e = (if as = [] then x else Some (hd as))"
  by (cases "(m, e, as, es, x)" rule: seg.cases) auto

lemma lookup_loop_seg:
  "seg (h_nodes h) e as es None \<Longrightarrow> distinct as \<Longrightarrow> lookup_loop q c e h = Some (map_option ((!) as) (rq_find q c es))"
proof (induction "h_nodes h" e as es "None :: nat option" rule: seg.induct)
  case (1 e)
  then show ?case by (simp add: lookup_loop.simps)
next
  case (2 e a as y es)
  then obtain n where n: "h_nodes h a = Some n" "n_entry n = y" "seg (h_nodes h) (n_next n) as es None" "e = Some a" by auto
  from seg_start [OF n(3)] have next_ptr: "n_next n = (if as = [] then None else Some (hd as))" .
  show ?case
  proof (cases "entry_matches q c y")
    case True
    with n show ?thesis by (simp add: lookup_loop.simps)
  next
    case False
    have IH: "lookup_loop q c (n_next n) h = Some (map_option ((!) as) (rq_find q c es))"
      using 2 n by simp
    have "n_next n \<noteq> Some a" using next_ptr 2(3) by (cases as) auto
    with False n IH next_ptr seg_length [OF n(3)] show ?thesis
      by (auto simp: lookup_loop.simps [of q c "Some a"] option.map_comp comp_def)
  qed
qed simp_all

lemma remove_loop_seg:
  "seg (h_nodes h) e as es None \<Longrightarrow>
     \<exists>r. remove_loop q c p e h = Some r \<and>
       (case rq_find q c es of None \<Rightarrow> snd r = None
        | Some i \<Rightarrow> r = (if i = 0 then p else Some (as ! (i - 1)), Some (as ! i)))"
proof (induction "h_nodes h" e as es "None :: nat option" arbitrary: p rule: seg.induct)
  case (1 e)
  then show ?case by (simp add: remove_loop.simps)
next
  case (2 e a as y es)
  then obtain n where n: "h_nodes h a = Some n" "n_entry n = y" "seg (h_nodes h) (n_next n) as es None" "e = Some a" by auto
  show ?case
  proof (cases "entry_matches q c y")
    case True
    with n show ?thesis by (simp add: remove_loop.simps)
  next
    case False
    from 2(1) [OF n(3), of "Some a"] obtain r where
      r: "remove_loop q c (Some a) (n_next n) h = Some r"
        "case rq_find q c es of None \<Rightarrow> snd r = None
         | Some i \<Rightarrow> r = (if i = 0 then Some a else Some (as ! (i - 1)), Some (as ! i))" by blast
    from False n r(1) have "remove_loop q c p e h = Some r" by (simp add: remove_loop.simps [of q c p])
    with r(2) False show ?thesis
      by (auto split: option.splits simp: nth_Cons' less_Suc_eq_0_disj)
  qed
qed simp_all

lemma clear_loop_seg:
  "seg (h_nodes h) e as es None \<Longrightarrow> distinct as \<Longrightarrow>
     \<exists>h'. clear_loop e h = Some h' \<and> h_nodes h' = (\<lambda>a. if a \<in> set as then None else h_nodes h a) \<and> h_brk h' = h_brk h \<and> h_blocks h' = h_blocks h"
proof (induction as arbitrary: e es h)
  case Nil
  then show ?case by (cases es) (auto simp: clear_loop.simps)
next
  case (Cons a as)
  then obtain y es' where es: "es = y # es'" by (cases es) auto
  with Cons.prems obtain n where n: "h_nodes h a = Some n" "seg (h_nodes h) (n_next n) as es' None" "e = Some a" by auto
  have "seg (h_nodes (free_node a h)) (n_next n) as es' None"
    using n(2) Cons.prems(2) by (simp add: free_node_def seg_update)
  from Cons.IH [OF this] Cons.prems(2) obtain h' where
    "clear_loop (n_next n) (free_node a h) = Some h'" "h_brk h' = h_brk h" "h_blocks h' = h_blocks h"
    "h_nodes h' = (\<lambda>b. if b \<in> set as then None else h_nodes (free_node a h) b)"
    by (auto simp: free_node_def)
  with n show ?case by (auto simp: clear_loop.simps [of "Some a"] free_node_def)
qed


section \<open>The operations keep the representation\<close>

lemma chain_rep_add:
  assumes "chain_rep h as es"
  shows "\<exists>h'. ipmi_req_add_entry True r q h = Some (Some (h_brk h), h') \<and> chain_rep h' (as @ [h_brk h]) (es @ [rq_new r q])
    \<and> h_blocks h' = h_blocks h \<and> h_brk h' = Suc (h_brk h)"
proof -
  let ?a = "h_brk h"
  let ?n = "\<lparr>n_entry = rq_new r q, n_next = None\<rparr>"
  from assms have seg: "seg (h_nodes h) (h_head h) as es None" and dist: "distinct as" and tail: "h_tail h = last_ptr as"
    and dom: "dom (h_nodes h) = set as" and less: "\<forall>a\<in>set as. a < ?a" by (simp_all add: chain_rep_def)
  have new: "?a \<notin> set as" using less by auto
  show ?thesis
  proof (cases as rule: rev_cases)
    case Nil
    with seg have "es = []" "h_head h = None" by (cases es; simp)+
    with Nil dom show ?thesis by (simp add: ipmi_req_add_entry_def chain_rep_def last_ptr_def Let_def)
  next
    case (snoc bs t)
    with seg_length [OF seg] obtain fs y where es: "es = fs @ [y]" by (cases es rule: rev_cases) auto
    with seg snoc seg_length [OF seg] obtain n where
      bs: "seg (h_nodes h) (h_head h) bs fs (Some t)" and n: "h_nodes h t = Some n" "n_entry n = y" "n_next n = None"
      by (auto simp: seg_append)
    from seg_start [OF seg] snoc have head: "h_head h \<noteq> None" by simp
    have t: "t \<noteq> ?a" "t \<notin> set bs" "?a \<notin> set bs" using new snoc dist by auto
    let ?m = "(h_nodes h)(?a \<mapsto> ?n, t \<mapsto> n\<lparr>n_next := Some ?a\<rparr>)"
    have chain: "seg ?m (h_head h) (bs @ [t, ?a]) (fs @ [y, rq_new r q]) None"
      using seg_length [OF seg] snoc es bs t n(2) by (subst seg_append) (auto simp: seg_update)
    have "dom ?m = set (as @ [?a])" using dom snoc by auto
    moreover have "\<forall>b\<in>set (as @ [?a]). b < Suc ?a" using less by (auto intro: less_SucI)
    ultimately show ?thesis using head tail snoc n t chain es new dist
      by (auto simp: ipmi_req_add_entry_def chain_rep_def last_ptr_def Let_def set_next_def)
  qed
qed


lemma chain_rep_clear:
  assumes "chain_rep h as es"
  shows "\<exists>h'. ipmi_req_clear_entries h = Some h' \<and> chain_rep h' [] [] \<and> h_blocks h' = h_blocks h \<and> h_brk h' = h_brk h"
proof -
  from assms clear_loop_seg [of h "h_head h" as es] obtain h' where
    c: "clear_loop (h_head h) h = Some h'" "h_nodes h' = (\<lambda>a. if a \<in> set as then None else h_nodes h a)"
      "h_blocks h' = h_blocks h" "h_brk h' = h_brk h"
    by (auto simp: chain_rep_def)
  have "h_nodes h' = Map.empty"
  proof
    fix a
    show "h_nodes h' a = None" using c(2) assms by (cases "a \<in> set as") (auto simp: chain_rep_def)
  qed
  with c(1,3,4) show ?thesis by (simp add: ipmi_req_clear_entries_def chain_rep_def last_ptr_def)
qed

lemma chain_rep_remove_first:
  assumes "chain_rep h (a # bs) (y # fs)" and "entry_matches q c y"
    and "has_block (h_blocks h) (e_msg_data y)"
  shows "\<exists>h'. ipmi_req_remove_entry q c h = Some h' \<and> chain_rep h' bs fs \<and> h_blocks h' = drop_block (e_msg_data y) (h_blocks h) \<and> h_brk h' = h_brk h"
proof -
  from assms(1) obtain n where n: "h_nodes h a = Some n" "n_entry n = y" "seg (h_nodes h) (n_next n) bs fs None"
    and head: "h_head h = Some a" and dist: "a \<notin> set bs" "distinct bs" and tail: "h_tail h = last_ptr (a # bs)"
    and dom: "dom (h_nodes h) = set (a # bs)" and less: "\<forall>b\<in>set (a # bs). b < h_brk h"
    by (auto simp: chain_rep_def)
  have loop: "remove_loop q c (h_head h) (h_head h) h = Some (Some a, Some a)"
    using n head assms(2) by (simp add: remove_loop.simps)
  have "seg ((h_nodes h)(a := v)) (n_next n) bs fs None" for v using n(3) dist by (simp add: seg_update)
  moreover have "dom ((h_nodes h)(a := None)) = set bs" using dom dist by auto
  moreover have "last bs \<noteq> a" if "bs \<noteq> []" using that dist by (metis last_in_set)
  ultimately show ?thesis
    using loop n head dist tail less assms(3)
    by (auto simp: ipmi_req_remove_entry_def set_next_def chain_rep_def last_ptr_def Let_def free_msg_eq free_node_simps)
qed

lemma chain_rep_remove_later:
  assumes "chain_rep h (cs @ p # a # bs) (gs @ z # y # fs)" and "length cs = length gs"
    and "remove_loop q c (h_head h) (h_head h) h = Some (Some p, Some a)"
    and "has_block (h_blocks h) (e_msg_data y)"
  shows "\<exists>h'. ipmi_req_remove_entry q c h = Some h' \<and> chain_rep h' (cs @ p # bs) (gs @ z # fs) \<and> h_blocks h' = drop_block (e_msg_data y) (h_blocks h) \<and> h_brk h' = h_brk h"
proof -
  from assms(1,2) obtain np n where
    pre: "seg (h_nodes h) (h_head h) cs gs (Some p)" and np: "h_nodes h p = Some np" "n_entry np = z" "n_next np = Some a"
    and n: "h_nodes h a = Some n" "seg (h_nodes h) (n_next n) bs fs None" "n_entry n = y"
    and dist: "distinct (cs @ p # a # bs)" and tail: "h_tail h = last_ptr (cs @ p # a # bs)"
    and dom: "dom (h_nodes h) = set (cs @ p # a # bs)" and less: "\<forall>b\<in>set (cs @ p # a # bs). b < h_brk h"
    by (auto simp: chain_rep_def seg_append)
  have skip: "n_next n \<noteq> Some a" using seg_start [OF n(2)] dist by (cases bs) auto
  have head: "h_head h \<noteq> Some a" using seg_start [OF pre] dist by (cases cs) auto
  let ?m = "(h_nodes h)(p \<mapsto> np\<lparr>n_next := n_next n\<rparr>, a := None)"
  have "seg ?m (h_head h) (cs @ p # bs) (gs @ z # fs) None"
    using assms(2) pre n(2) np(2) dist by (subst seg_append) (auto simp: seg_update)
  moreover have "dom ?m = set (cs @ p # bs)" using dom dist by auto
  moreover have "last bs \<noteq> a" if "bs \<noteq> []" using that dist by (metis distinct.simps(2) distinct_append last_in_set)
  ultimately show ?thesis
    using assms(3,4) np n(1,3) skip head dist tail less
    by (auto simp: ipmi_req_remove_entry_def set_next_def chain_rep_def last_ptr_def Let_def free_msg_eq free_node_simps)
qed


lemma chain_rep_remove:
  assumes "chain_rep h as es" and "\<And>e. e \<in> set es \<Longrightarrow> has_block (h_blocks h) (e_msg_data e)"
  shows "\<exists>h' as'. ipmi_req_remove_entry q c h = Some h' \<and> chain_rep h' as' (rq_remove q c es) \<and> h_brk h' = h_brk h
    \<and> h_blocks h' = (case rq_find q c es of None \<Rightarrow> h_blocks h | Some i \<Rightarrow> drop_block (e_msg_data (es ! i)) (h_blocks h))"
proof -
  from assms(1) have seg: "seg (h_nodes h) (h_head h) as es None" by (simp add: chain_rep_def)
  from remove_loop_seg [OF seg, of q c "h_head h"] obtain r where
    r: "remove_loop q c (h_head h) (h_head h) h = Some r"
      "case rq_find q c es of None \<Rightarrow> snd r = None
       | Some i \<Rightarrow> r = (if i = 0 then h_head h else Some (as ! (i - 1)), Some (as ! i))" by blast
  show ?thesis
  proof (cases "rq_find q c es")
    case None
    with r assms show ?thesis by (cases r; cases "fst r") (auto simp: ipmi_req_remove_entry_def rq_remove_None)
  next
    case (Some i)
    note i = rq_find_Some [OF Some] seg_length [OF seg]
    have block: "has_block (h_blocks h) (e_msg_data (es ! i))" using assms(2) i by simp
    show ?thesis
    proof (cases i)
      case 0
      with i obtain a bs y fs where "as = a # bs" "es = y # fs" by (cases as; cases es) auto
      with chain_rep_remove_first [of h a bs y fs q c] assms(1) block i 0 show ?thesis by auto
    next
      case (Suc k)
      let ?cs = "take k as" and ?gs = "take k es"
      have as: "as = ?cs @ as ! k # as ! i # drop (Suc i) as" and es: "es = ?gs @ es ! k # es ! i # drop (Suc i) es"
        using i Suc by (metis Cons_nth_drop_Suc Suc_lessD append_take_drop_id)+
      have "chain_rep h (?cs @ as ! k # as ! i # drop (Suc i) as) (?gs @ es ! k # es ! i # drop (Suc i) es)"
        using assms(1) as es by simp
      from chain_rep_remove_later [OF this, of q c] r i Suc Some block obtain h' where
        h': "ipmi_req_remove_entry q c h = Some h'" "chain_rep h' (?cs @ as ! k # drop (Suc i) as) (?gs @ es ! k # drop (Suc i) es)"
          "h_blocks h' = drop_block (e_msg_data (es ! i)) (h_blocks h)" "h_brk h' = h_brk h"
        by auto
      have "rq_remove q c es = take i es @ drop (Suc i) es" using Some by (rule rq_remove_Some)
      also have "\<dots> = ?gs @ es ! k # drop (Suc i) es" using i Suc by (simp add: take_Suc_conv_app_nth)
      finally show ?thesis using h' Some by auto
    qed
  qed
qed


section \<open>Packets\<close>

lemma load_entry_simps [simp]:
  "entry_matches q c (load_entry h e) = entry_matches q c e" "e_msg_data (load_entry h e) = Option.bind (e_msg_data e) (h_blocks h)"
  "e_req (load_entry h e) = e_req e" "e_rq_seq (load_entry h e) = e_rq_seq e"
  by (simp_all add: load_entry_def entry_matches_def)

lemma load_rq_new [simp]: "load_entry h (rq_new r q) = rq_new r q"
  by (simp add: load_entry_def rq_new_def)

lemma load_entry_cong: "h_blocks h' = h_blocks h \<Longrightarrow> load_entry h' = load_entry h"
  by (rule ext) (simp add: load_entry_def)

lemma load_entry_same:
  "(\<And>p. e_msg_data e = Some p \<Longrightarrow> h_blocks h' p = h_blocks h p) \<Longrightarrow> load_entry h' e = load_entry h e"
  by (cases "e_msg_data e") (simp_all add: load_entry_def)

lemma rq_find_load [simp]: "rq_find q c (map (load_entry h) ps) = rq_find q c ps"
  by (induction ps) auto

lemma rq_remove_load: "rq_remove q c (map (load_entry h) ps) = map (load_entry h) (rq_remove q c ps)"
  by (induction ps) auto

lemma set_packets: "p \<in> set (packets ps) \<longleftrightarrow> (\<exists>e\<in>set ps. e_msg_data e = Some p)"
  by (induction ps) (auto split: option.splits)

lemma packets_ok_has_block: "packets_ok h ps \<Longrightarrow> e \<in> set ps \<Longrightarrow> has_block (h_blocks h) (e_msg_data e)"
  using set_packets [of _ ps] by (cases "e_msg_data e") (auto simp: packets_ok_def has_block_def)

lemma packets_at:
  assumes "i < length ps"
  shows "packets ps = packets (take i ps) @ (case e_msg_data (ps ! i) of None \<Rightarrow> [] | Some p \<Rightarrow> [p]) @ packets (drop (Suc i) ps)"
proof -
  have "packets ps = packets (take i ps @ ps ! i # drop (Suc i) ps)" using id_take_nth_drop [OF assms] by simp
  then show ?thesis by simp
qed

lemma packets_update:
  "i < length ps \<Longrightarrow> packets (ps[i := e]) = packets (take i ps) @ (case e_msg_data e of None \<Rightarrow> [] | Some p \<Rightarrow> [p]) @ packets (drop (Suc i) ps)"
  by (simp add: upd_conv_take_nth_drop)

lemma packets_remove:
  "rq_find q c ps = Some i \<Longrightarrow> packets (rq_remove q c ps) = packets (take i ps) @ packets (drop (Suc i) ps)"
  by (simp add: rq_remove_Some)

lemma load_without_packet:
  assumes "packets_ok h ps" and "i < length ps" and "h_blocks h' = (drop_block (e_msg_data (ps ! i)) (h_blocks h))(p := v)"
    and "p \<notin> dom (h_blocks h)" and "e \<in> set (take i ps @ drop (Suc i) ps)"
  shows "load_entry h' e = load_entry h e"
proof (rule load_entry_same)
  fix r assume r: "e_msg_data e = Some r"
  with assms(5) have "r \<in> set (packets (take i ps) @ packets (drop (Suc i) ps))" by (auto simp: set_packets)
  moreover from this have "r \<in> dom (h_blocks h)" using assms(1,2) packets_at [OF assms(2)] by (auto simp: packets_ok_def)
  moreover have "e_msg_data (ps ! i) \<noteq> Some r" using assms(1) calculation(1) packets_at [OF assms(2)] by (auto simp: packets_ok_def)
  ultimately show "h_blocks h' r = h_blocks h r" using assms(3,4) by (auto simp: drop_block_def split: option.splits)
qed

lemma set_msg_simps [simp]:
  "h_blocks (set_msg a v h) = h_blocks h" "h_brk (set_msg a v h) = h_brk h" "h_head (set_msg a v h) = h_head h" "h_tail (set_msg a v h) = h_tail h"
  by (simp_all add: set_msg_def split: option.splits)

lemma seg_set_entry:
  "seg m e as ps x \<Longrightarrow> distinct as \<Longrightarrow> i < length ps \<Longrightarrow> m (as ! i) = Some n \<Longrightarrow>
     seg (m(as ! i \<mapsto> n\<lparr>n_entry := y\<rparr>)) e as (ps[i := y]) x"
proof (induction m e as ps x arbitrary: i rule: seg.induct)
  case (2 m e a as z ps x)
  then show ?case
  proof (cases i)
    case 0
    with 2 seg_update [of a as m "Some (n\<lparr>n_entry := y\<rparr>)" "n_next n" ps x] show ?thesis by (auto simp: fun_upd_def)
  next
    case (Suc k)
    have "as ! k \<noteq> a" using 2 Suc seg_length by fastforce
    with 2 Suc show ?thesis by auto
  qed
qed auto

lemma seg_nth_entry: "seg m e as es x \<Longrightarrow> i < length es \<Longrightarrow> \<exists>n. m (as ! i) = Some n \<and> n_entry n = es ! i"
proof (induction m e as es x arbitrary: i rule: seg.induct)
  case (2 m e a as y es x)
  then show ?case by (cases i) auto
qed auto

lemma chain_rep_blocks [simp]: "chain_rep (h\<lparr>h_blocks := B\<rparr>) as ps = chain_rep h as ps"
  by (simp add: chain_rep_def)

lemma chain_rep_set_msg:
  assumes "chain_rep h as ps" and "i < length ps"
  shows "chain_rep (set_msg (as ! i) v h) as (ps[i := (ps ! i)\<lparr>e_msg_data := v\<rparr>])"
proof -
  from assms have seg: "seg (h_nodes h) (h_head h) as ps None" and rest: "distinct as" "dom (h_nodes h) = set as"
    by (simp_all add: chain_rep_def)
  from seg_nth_entry [OF seg assms(2)] obtain n where n: "h_nodes h (as ! i) = Some n" "n_entry n = ps ! i" by blast
  with seg_set_entry [OF seg rest(1) assms(2) n(1)] rest assms seg_length [OF seg] show ?thesis
    by (auto simp: chain_rep_def set_msg_def)
qed


section \<open>The operations with the packets\<close>

lemma rq_rep_add:
  assumes "rq_rep h as ps es"
  shows "\<exists>h'. ipmi_req_add_entry True r q h = Some (Some (h_brk h), h')
    \<and> rq_rep h' (as @ [h_brk h]) (ps @ [rq_new r q]) (es @ [rq_new r q]) \<and> leaked h' (ps @ [rq_new r q]) = leaked h ps"
proof -
  from assms chain_rep_add [of h as ps r q] obtain h' where
    h': "ipmi_req_add_entry True r q h = Some (Some (h_brk h), h')" "chain_rep h' (as @ [h_brk h]) (ps @ [rq_new r q])"
      "h_blocks h' = h_blocks h" "h_brk h' = Suc (h_brk h)" by (auto simp: rq_rep_def)
  have new: "packets [rq_new r q :: nat rq_entry] = []" by (simp add: rq_new_def)
  from assms h' new load_entry_cong [OF h'(3)] show ?thesis
    by (auto simp: rq_rep_def packets_ok_def leaked_def intro!: less_SucI)
qed

lemma rq_rep_remove:
  assumes "rq_rep h as ps es"
  shows "\<exists>h' as'. ipmi_req_remove_entry q c h = Some h' \<and> rq_rep h' as' (rq_remove q c ps) (rq_remove q c es)
    \<and> leaked h' (rq_remove q c ps) = leaked h ps"
proof -
  from assms have ok: "packets_ok h ps" and chain: "chain_rep h as ps" and es: "es = map (load_entry h) ps" by (simp_all add: rq_rep_def)
  from chain_rep_remove [OF chain packets_ok_has_block [OF ok], of q c] obtain h' as' where
    h': "ipmi_req_remove_entry q c h = Some h'" "chain_rep h' as' (rq_remove q c ps)" "h_brk h' = h_brk h"
      "h_blocks h' = (case rq_find q c ps of None \<Rightarrow> h_blocks h | Some i \<Rightarrow> drop_block (e_msg_data (ps ! i)) (h_blocks h))" by blast
  show ?thesis
  proof (cases "rq_find q c ps")
    case None
    with h' ok es load_entry_cong [of h' h] show ?thesis
      by (auto simp: rq_rep_def packets_ok_def leaked_def rq_remove_None rq_remove_load)
  next
    case (Some i)
    with h'(4) have B: "h_blocks h' = (drop_block (e_msg_data (ps ! i)) (h_blocks h))(h_brk h := None)"
      using ok by (fastforce simp: packets_ok_def drop_block_def split: option.splits)
    have i: "i < length ps" using rq_find_Some [OF Some] by simp
    have "h_brk h \<notin> dom (h_blocks h)" using ok by (auto simp: packets_ok_def)
    then have "map (load_entry h') (rq_remove q c ps) = rq_remove q c es"
      using load_without_packet [OF ok i B] by (simp add: es rq_remove_load) (simp add: rq_remove_Some [OF Some])
    moreover have "packets_ok h' (rq_remove q c ps) \<and> leaked h' (rq_remove q c ps) = leaked h ps"
      using ok h'(3,4) Some packets_at [OF i]
      by (auto simp: packets_ok_def leaked_def packets_remove [OF Some] drop_block_def split: option.splits if_splits)
    ultimately show ?thesis using h' by (auto simp: rq_rep_def)
  qed
qed

lemma rq_rep_clear:
  assumes "rq_rep h as ps es"
  shows "\<exists>h'. ipmi_req_clear_entries h = Some h' \<and> rq_rep h' [] [] []
    \<and> leaked h' [] = leaked h ps \<union> set (packets ps) \<and> h_blocks h' = h_blocks h"
proof -
  from assms chain_rep_clear [of h as ps] obtain h' where
    "ipmi_req_clear_entries h = Some h'" "chain_rep h' [] []" "h_blocks h' = h_blocks h" "h_brk h' = h_brk h"
    by (auto simp: rq_rep_def)
  with assms show ?thesis by (auto simp: rq_rep_def packets_ok_def leaked_def)
qed

text \<open>The packet of the entry at index \<open>i\<close> freed and replaced.\<close>

lemma rq_rep_store:
  assumes "rq_rep h as ps es" and "i < length ps"
  shows "\<exists>h' ps'. Option.bind (free_msg (as ! i) h) (store_msg (as ! i) msg) = Some h'
    \<and> rq_rep h' as ps' (es[i := (es ! i)\<lparr>e_msg_data := Some msg\<rparr>]) \<and> leaked h' ps' = leaked h ps"
proof -
  let ?a = "as ! i" and ?p = "h_brk h" and ?e = "ps ! i"
  from assms have ok: "packets_ok h ps" and chain: "chain_rep h as ps" and es: "es = map (load_entry h) ps" by (simp_all add: rq_rep_def)
  from chain have seg: "seg (h_nodes h) (h_head h) as ps None" by (simp add: chain_rep_def)
  from seg_nth_entry [OF seg assms(2)] obtain n where n: "h_nodes h ?a = Some n" "n_entry n = ?e" by blast
  have new: "?p \<notin> dom (h_blocks h)" using ok by (auto simp: packets_ok_def)
  let ?h = "set_msg ?a (Some ?p) (h\<lparr>h_blocks := (drop_block (e_msg_data ?e) (h_blocks h))(?p \<mapsto> msg), h_brk := Suc ?p\<rparr>)"
  let ?ps = "ps[i := ?e\<lparr>e_msg_data := Some ?p\<rparr>]"
  have run: "Option.bind (free_msg ?a h) (store_msg ?a msg) = Some ?h"
    using packets_ok_has_block [OF ok, of ?e] assms(2) n
    by (auto simp: free_msg_def store_msg_def set_msg_def drop_block_def has_block_def Let_def split: option.splits)
  have "chain_rep (h\<lparr>h_brk := Suc ?p\<rparr>) as ps" using chain by (auto simp: chain_rep_def)
  with chain_rep_set_msg [of "h\<lparr>h_blocks := (drop_block (e_msg_data ?e) (h_blocks h))(?p \<mapsto> msg), h_brk := Suc ?p\<rparr>" as ps i "Some ?p"]
  have c: "chain_rep ?h as ?ps" using assms(2) by (simp add: chain_rep_def)
  have "map (load_entry ?h) ?ps = es[i := (es ! i)\<lparr>e_msg_data := Some msg\<rparr>]"
    using load_without_packet [OF ok assms(2), of ?h ?p "Some msg"] new assms(2)
    by (simp add: es upd_conv_take_nth_drop take_map drop_map) (simp add: load_entry_def)
  moreover have "packets_ok ?h ?ps \<and> leaked ?h ?ps = leaked h ps"
    using ok new packets_at [OF assms(2)]
    by (auto simp: packets_ok_def leaked_def packets_update [OF assms(2)] drop_block_def less_Suc_eq split: option.splits if_splits)
  ultimately show ?thesis using run c by (auto simp: rq_rep_def)
qed

section \<open>The interface the LAN transport relies on\<close>

datatype rq_op = Op_add ipmi_rq byte | Op_build ipmi_rq byte "byte list" | Op_remove byte byte | Op_clear

text \<open>The operations on plain lists, and how many packets each of them loses.\<close>

definition rq_build :: "ipmi_rq \<Rightarrow> byte \<Rightarrow> byte list \<Rightarrow> ipmi_rq_entry list \<Rightarrow> ipmi_rq_entry list" where
  "rq_build r q msg es =
     (case rq_find q (rq_cmd r) es of
        None \<Rightarrow> es @ [(rq_new r q)\<lparr>e_msg_data := Some msg\<rparr>]
      | Some i \<Rightarrow> es[i := (es ! i)\<lparr>e_msg_data := Some msg\<rparr>])"

fun rq_list_op :: "rq_op \<Rightarrow> ipmi_rq_entry list \<Rightarrow> ipmi_rq_entry list" where
  "rq_list_op (Op_add r q) es = es @ [rq_new r q]"
| "rq_list_op (Op_build r q msg) es = rq_build r q msg es"
| "rq_list_op (Op_remove q c) es = rq_remove q c es"
| "rq_list_op Op_clear es = []"

fun rq_lost :: "rq_op list \<Rightarrow> ipmi_rq_entry list \<Rightarrow> nat" where
  "rq_lost [] es = 0"
| "rq_lost (op # ops) es = (if op = Op_clear then length (packets es) else 0) + rq_lost ops (rq_list_op op es)"

locale request_table =
  fixes rep :: "'s \<Rightarrow> ipmi_rq_entry list \<Rightarrow> nat \<Rightarrow> bool"
    and step :: "rq_op \<Rightarrow> 's \<Rightarrow> 's option"
    and found :: "byte \<Rightarrow> byte \<Rightarrow> 's \<Rightarrow> ipmi_rq_entry option option"
    and start :: 's
  assumes rep_start: "rep start [] 0"
    and rep_step: "rep s es k \<Longrightarrow> \<exists>s'. step op s = Some s' \<and> rep s' (rq_list_op op es) (k + rq_lost [op] es)"
    and rep_found: "rep s es k \<Longrightarrow> found q c s = Some (map_option ((!) es) (rq_find q c es))"
begin

primrec run :: "rq_op list \<Rightarrow> 's \<Rightarrow> 's option" where
  "run [] s = Some s"
| "run (op # ops) s = Option.bind (step op s) (run ops)"

lemma run_refines: "rep s es k \<Longrightarrow> \<exists>s'. run ops s = Some s' \<and> rep s' (fold rq_list_op ops es) (k + rq_lost ops es)"
proof (induction ops arbitrary: s es k)
  case Nil
  then show ?case by simp
next
  case (Cons op ops)
  from rep_step [OF Cons.prems] obtain s' where s': "step op s = Some s'" "rep s' (rq_list_op op es) (k + rq_lost [op] es)" by blast
  from Cons.IH [OF s'(2)] s'(1) show ?case by (simp add: add.assoc)
qed

lemma found_after_run:
  "\<exists>s'. run ops start = Some s' \<and> (\<forall>q c. found q c s' =
     Some (map_option ((!) (fold rq_list_op ops [])) (rq_find q c (fold rq_list_op ops []))))"
  using run_refines [OF rep_start, of ops] rep_found by blast

text \<open>After clearing nothing is found.\<close>

lemma found_nothing_after_clear:
  "\<exists>s'. run (ops @ [Op_clear]) start = Some s' \<and> (\<forall>q c. found q c s' = Some None)"
  using found_after_run [of "ops @ [Op_clear]"] by simp

end

definition heap_op :: "rq_op \<Rightarrow> rq_heap \<Rightarrow> rq_heap option" where
  "heap_op op h =
     (case op of
        Op_add r q \<Rightarrow> map_option snd (ipmi_req_add_entry True r q h)
      | Op_build r q msg \<Rightarrow> build_entry r q msg h
      | Op_remove q c \<Rightarrow> ipmi_req_remove_entry q c h
      | Op_clear \<Rightarrow> ipmi_req_clear_entries h)"

definition heap_found :: "byte \<Rightarrow> byte \<Rightarrow> rq_heap \<Rightarrow> ipmi_rq_entry option option" where
  "heap_found q c h =
     (case ipmi_req_lookup_entry q c h of
        None \<Rightarrow> None
      | Some None \<Rightarrow> Some None
      | Some (Some a) \<Rightarrow> map_option (\<lambda>n. Some (load_entry h (n_entry n))) (h_nodes h a))"

definition heap_start :: rq_heap where
  "heap_start = \<lparr>h_nodes = Map.empty, h_blocks = Map.empty, h_head = None, h_tail = None, h_brk = 0\<rparr>"

lemma rq_rep_lookup:
  "rq_rep h as ps es \<Longrightarrow> ipmi_req_lookup_entry q c h = Some (map_option ((!) as) (rq_find q c es))"
  by (auto simp: ipmi_req_lookup_entry_def rq_rep_def chain_rep_def lookup_loop_seg)

lemma rq_rep_build:
  assumes "rq_rep h as ps es"
  shows "\<exists>h' as' ps'. build_entry r q msg h = Some h' \<and> rq_rep h' as' ps' (rq_build r q msg es) \<and> leaked h' ps' = leaked h ps"
proof (cases "rq_find q (rq_cmd r) es")
  case None
  from rq_rep_add [OF assms, of r q] obtain h1 where
    h1: "ipmi_req_add_entry True r q h = Some (Some (h_brk h), h1)"
      "rq_rep h1 (as @ [h_brk h]) (ps @ [rq_new r q]) (es @ [rq_new r q])" "leaked h1 (ps @ [rq_new r q]) = leaked h ps" by blast
  have len: "length as = length ps" "length es = length ps" using assms seg_length by (auto simp: rq_rep_def chain_rep_def)
  have "\<exists>n. h_nodes h1 (h_brk h) = Some n \<and> e_msg_data (n_entry n) = None"
    using h1(2) seg_nth_entry [of "h_nodes h1" "h_head h1" "as @ [h_brk h]" "ps @ [rq_new r q]" None "length ps"] len
    by (auto simp: rq_rep_def chain_rep_def nth_append rq_new_def)
  then have "free_msg (h_brk h) h1 = Some h1" by (auto simp: free_msg_def)
  with rq_rep_store [OF h1(2), of "length ps" msg] h1(1,3) len None rq_rep_lookup [OF assms, of q "rq_cmd r"] show ?thesis
    by (auto simp: build_entry_def rq_build_def nth_append list_update_append)
next
  case (Some i)
  have i: "i < length ps" using rq_find_Some [OF Some] assms by (auto simp: rq_rep_def)
  from rq_rep_store [OF assms i, of msg] rq_rep_lookup [OF assms, of q "rq_cmd r"] Some show ?thesis
    by (auto simp: build_entry_def rq_build_def)
qed

lemma packets_load: "packets_ok h ps \<Longrightarrow> length (packets (map (load_entry h) ps)) = length (packets ps)"
  by (induction ps) (auto simp: packets_ok_def split: option.splits)

definition heap_holds :: "rq_heap \<Rightarrow> ipmi_rq_entry list \<Rightarrow> nat \<Rightarrow> bool" where
  "heap_holds h es k \<longleftrightarrow> (\<exists>as ps. rq_rep h as ps es \<and> finite (leaked h ps) \<and> card (leaked h ps) = k)"

lemma heap_holds_clear: "heap_holds h es k \<Longrightarrow> \<exists>h'. ipmi_req_clear_entries h = Some h' \<and> heap_holds h' [] (k + length (packets es))"
proof -
  assume "heap_holds h es k"
  then obtain as ps where rep: "rq_rep h as ps es" and fin: "finite (leaked h ps)" and k: "card (leaked h ps) = k"
    by (auto simp: heap_holds_def)
  from rep have ok: "packets_ok h ps" "es = map (load_entry h) ps" by (simp_all add: rq_rep_def)
  have "leaked h ps \<inter> set (packets ps) = {}" by (auto simp: leaked_def)
  then have "card (leaked h ps \<union> set (packets ps)) = k + length (packets es)"
    using fin k ok packets_load [OF ok(1)] by (simp add: card_Un_disjoint packets_ok_def distinct_card)
  with rq_rep_clear [OF rep] fin show ?thesis unfolding heap_holds_def by (metis finite_UnI List.finite_set)
qed

interpretation lan_requests: request_table heap_holds heap_op heap_found heap_start
proof (unfold_locales, goal_cases)
  case 1
  show ?case unfolding heap_holds_def
    by (intro exI [of _ "[]"]) (simp add: rq_rep_def chain_rep_def packets_ok_def leaked_def heap_start_def last_ptr_def)
next
  case (2 h es k op)
  then obtain as ps where as: "rq_rep h as ps es" "finite (leaked h ps)" "card (leaked h ps) = k" by (auto simp: heap_holds_def)
  show ?case
  proof (cases op)
    case (Op_add r q)
    with rq_rep_add [OF as(1), of r q] as show ?thesis by (fastforce simp: heap_op_def heap_holds_def)
  next
    case (Op_build r q msg)
    with rq_rep_build [OF as(1), of r q msg] as show ?thesis by (fastforce simp: heap_op_def heap_holds_def)
  next
    case (Op_remove q c)
    with rq_rep_remove [OF as(1), of q c] as show ?thesis by (fastforce simp: heap_op_def heap_holds_def)
  next
    case Op_clear
    with heap_holds_clear [OF 2] show ?thesis by (simp add: heap_op_def)
  qed
next
  case (3 h es k q c)
  then obtain as ps where as: "rq_rep h as ps es" by (auto simp: heap_holds_def)
  then have seg: "seg (h_nodes h) (h_head h) as ps None" and es: "es = map (load_entry h) ps" by (simp_all add: rq_rep_def chain_rep_def)
  from rq_rep_lookup [OF as, of q c] show ?case
    using seg_nth_entry [OF seg] rq_find_Some [of q c ps] es
    by (cases "rq_find q c ps") (fastforce simp: heap_found_def)+
qed

text \<open>Running a sequence of operations on the heap.\<close>

primrec heap_run :: "rq_op list \<Rightarrow> rq_heap \<Rightarrow> rq_heap option" where
  "heap_run [] h = Some h"
| "heap_run (op # ops) h = Option.bind (heap_op op h) (heap_run ops)"

lemma heap_run_eq: "lan_requests.run ops h = heap_run ops h"
  by (induction ops arbitrary: h) (simp_all add: Option.bind_eq_Some_conv option.expand split: bind_splits)

text \<open>
  C39: after any sequence of additions, packets built, removals and clearings the linked list
  of outstanding requests is well formed: no operation follows a dangling pointer, frees a
  packet twice or runs for ever, the allocated entries are exactly those on the list, each
  packet of an entry is allocated and is its own, and a lookup returns exactly the first
  entry in order of addition with this sequence number and command that has not been
  removed, with the packet last built for it. Packets are lost by \<open>ipmi_req_clear_entries\<close>
  and by nothing else: the number of packets that are allocated and not reachable is the
  number of packets the entries held whenever the list was cleared.
\<close>

theorem request_list_refines_list:
  "\<exists>h as ps. heap_run ops heap_start = Some h
    \<and> rq_rep h as ps (fold rq_list_op ops [])
    \<and> (\<forall>q c. heap_found q c h = Some (map_option ((!) (fold rq_list_op ops [])) (rq_find q c (fold rq_list_op ops []))))
    \<and> finite (leaked h ps) \<and> card (leaked h ps) = rq_lost ops []"
proof -
  from lan_requests.run_refines [OF lan_requests.rep_start, of ops] obtain h where
    h: "heap_run ops heap_start = Some h" "heap_holds h (fold rq_list_op ops []) (rq_lost ops [])" by (auto simp: heap_run_eq)
  from lan_requests.rep_found [OF h(2)] h show ?thesis unfolding heap_holds_def by blast
qed

text \<open>The leak: the packet of a request that is outstanding when the interface is closed is never freed.\<close>

lemma clear_leaks_packet:
  "\<exists>h. heap_run [Op_build r q msg, Op_clear] heap_start = Some h \<and> h_nodes h = Map.empty \<and> h_blocks h \<noteq> Map.empty"
proof -
  from lan_requests.run_refines [OF lan_requests.rep_start, of "[Op_build r q msg, Op_clear]"] obtain h where
    h: "heap_run [Op_build r q msg, Op_clear] heap_start = Some h" "heap_holds h [] (rq_lost [Op_build r q msg, Op_clear] [])"
    by (auto simp: heap_run_eq)
  have one: "rq_lost [Op_build r q msg, Op_clear] [] = 1" by (simp add: rq_build_def rq_new_def)
  from h(2) obtain as ps where ps: "rq_rep h as ps []" "card (leaked h ps) = 1" unfolding one heap_holds_def by blast
  then have "as = []" "ps = []" by (cases as; auto simp: rq_rep_def chain_rep_def)+
  with ps h(1) show ?thesis by (intro exI [of _ h]) (auto simp: rq_rep_def chain_rep_def leaked_def)
qed

end
