(* ===== verification/Lan.thy ===== *)
theory Lan
  imports Rq_List Auth Ipmb
begin

text \<open>
  The IPMI 1.5 LAN transport, src/plugins/lan/lan.c: packets, the construction of direct
  and bridged requests, reception and matching of responses, the request loop.

  The state has the interface with its session, the static variables of the file (the
  list of requests as a plain list, see \<open>Rq_List\<close>; \<open>bridge_possible\<close>; the sequence
  number; the one response structure, whose array keeps what earlier packets left), the
  outcomes of the coming \<open>select\<close> and \<open>recv\<close> calls and of the coming \<open>send\<close> calls, and
  the log of packets sent. When the outcomes have run out the network is silent and every
  send succeeds. Memory allocation succeeds and the host is little-endian.
\<close>

section \<open>State\<close>

definition IPMI_BUF_SIZE :: nat where "IPMI_BUF_SIZE = 1024"

record lan_rs =
  r_ccode :: byte
  r_data :: "byte list"
  r_data_len :: int
  r_authtype :: byte
  r_session_seq :: u32
  r_session_id :: u32
  r_payloadtype :: byte
  r_msglen :: byte
  r_rq_addr :: byte
  r_netfn :: byte
  r_rq_lun :: byte
  r_rs_addr :: byte
  r_rq_seq :: byte
  r_rs_lun :: byte
  r_cmd :: byte
  r_sol_seq :: byte
  r_sol_acked :: byte
  r_sol_accepted :: byte
  r_sol_is_nack :: byte
  r_sol_unavailable :: byte
  r_sol_inactive :: byte
  r_sol_overrun :: byte
  r_sol_break :: byte

datatype net_ev = Net_none | Net_error | Net_packet "byte list"

record lan_state =
  l_intf :: ipmi_intf
  l_oem :: "string option"
  l_requests :: "ipmi_rq_entry list"
  l_bridge_possible :: bool
  l_curr_seq :: nat
  l_rsp :: lan_rs
  l_sol_last_seq :: byte
  l_sol_last_count :: byte
  l_net :: "net_ev list"
  l_sends :: "bool list"
  l_out :: "byte list list"
  l_sol_input :: "byte list list"
  l_random :: "byte list"

datatype lan_error = Null_session | Bad_length

abbreviation (input) PAYLOAD_IPMI :: byte where "PAYLOAD_IPMI \<equiv> 0"
abbreviation (input) PAYLOAD_SOL :: byte where "PAYLOAD_SOL \<equiv> 1"
abbreviation (input) RMCP_CLASS_ASF :: byte where "RMCP_CLASS_ASF \<equiv> 6"
abbreviation (input) RMCP_CLASS_IPMI :: byte where "RMCP_CLASS_IPMI \<equiv> 7"

definition ipmi_oem_active :: "lan_state \<Rightarrow> string \<Rightarrow> bool" where
  "ipmi_oem_active st oemtype = (case l_oem st of None \<Rightarrow> False | Some n \<Rightarrow> n = oemtype)"

section \<open>Packets\<close>

definition ipmi_lan_send_packet :: "byte list \<Rightarrow> lan_state \<Rightarrow> bool \<times> lan_state" where
  "ipmi_lan_send_packet data st =
     (case l_sends st of
        [] \<Rightarrow> (True, st\<lparr>l_out := l_out st @ [data]\<rparr>)
      | True # ss \<Rightarrow> (True, st\<lparr>l_sends := ss, l_out := l_out st @ [data]\<rparr>)
      | False # ss \<Rightarrow> (False, st\<lparr>l_sends := ss\<rparr>))"

text \<open>
  A datagram is stored at the start of the array, cut to its size, with a NUL after it.
  For a datagram of 1024 bytes that NUL goes one place past the array: in \<open>struct ipmi_rs\<close> the
  completion code is at offset 0, the array at 1 to 1024 and the \<open>int\<close> that follows it is
  aligned to 1028, so the byte written is padding and no value of the model.
\<close>

definition recv_store :: "byte list \<Rightarrow> lan_state \<Rightarrow> bool \<times> lan_state" where
  "recv_store bs st =
     (let d = take IPMI_BUF_SIZE bs; r = l_rsp st
      in if d = [] then (False, st)
         else (True, st\<lparr>l_rsp := r\<lparr>r_data := (put_at 0 d (r_data r))[length d := 0], r_data_len := int (length d)\<rparr>\<rparr>))"

text \<open>The result is whether a response was stored (a non-NULL pointer to it).\<close>

definition ipmi_lan_recv_packet :: "lan_state \<Rightarrow> bool \<times> lan_state" where
  "ipmi_lan_recv_packet st =
     (case l_net st of
        [] \<Rightarrow> (False, st)
      | Net_none # es \<Rightarrow> (False, st\<lparr>l_net := es\<rparr>)
      | Net_packet bs # es \<Rightarrow> recv_store bs (st\<lparr>l_net := es\<rparr>)
      | Net_error # es \<Rightarrow>
          (case es of
             Net_packet bs # es' \<Rightarrow> recv_store bs (st\<lparr>l_net := es'\<rparr>)
           | _ \<Rightarrow> (False, st\<lparr>l_net := tl es\<rparr>)))"

definition ipmi_handle_pong :: "lan_rs \<Rightarrow> int" where
  "ipmi_handle_pong r = (if r_data r ! 20 AND 0x80 \<noteq> 0 then 1 else 0)"

definition rmcp_hdr :: "byte \<Rightarrow> byte list" where
  "rmcp_hdr class = [0x06, 0, 0xFF, class]"

definition ipmi_lan_thump_first :: "lan_state \<Rightarrow> lan_state" where
  "ipmi_lan_thump_first st =
     snd (ipmi_lan_send_packet [0, 0, 0, 0, 0, 0, 0, 0, 0x07, 0x20, 0x18, 0xC8, 0xC2, 0x01, 0x01, 0x3C] st)"

definition ipmi_lan_thump :: "lan_state \<Rightarrow> lan_state" where
  "ipmi_lan_thump st = snd (ipmi_lan_send_packet [0x74, 0x68, 0x75, 0x6D, 0x70, 0, 0, 0, 0, 0] st)"

section \<open>Receiving responses\<close>

definition our_address :: "ipmi_intf \<Rightarrow> byte" where
  "our_address intf = (let a = ucast (my_addr intf) in if a = 0 then IPMI_BMC_SLAVE_ADDR else a)"

definition bridging :: "lan_state \<Rightarrow> bool" where
  "bridging st \<longleftrightarrow> target_addr (l_intf st) \<noteq> ucast (our_address (l_intf st)) \<and> l_bridge_possible st"

definition parse_session :: "lan_rs \<Rightarrow> lan_rs" where
  "parse_session r =
     r\<lparr>r_authtype := r_data r ! 4, r_session_seq := of_le32 (drop 5 (r_data r)), r_session_id := of_le32 (drop 9 (r_data r))\<rparr>"

definition parse_sol :: "lan_rs \<Rightarrow> lan_rs" where
  "parse_sol r = (let d = r_data r in
     r\<lparr>r_payloadtype := PAYLOAD_SOL, r_msglen := d ! 13, r_sol_seq := d ! 14 AND 0x0F, r_sol_acked := d ! 15 AND 0x0F,
       r_sol_accepted := d ! 16, r_sol_is_nack := d ! 17 AND 0x40, r_sol_unavailable := d ! 17 AND 0x20,
       r_sol_inactive := d ! 17 AND 0x10, r_sol_overrun := d ! 17 AND 0x08, r_sol_break := d ! 17 AND 0x04\<rparr>)"

definition sol_data_offset :: nat where "sol_data_offset = 19"

definition parse_ipmi :: "nat \<Rightarrow> lan_rs \<Rightarrow> lan_rs" where
  "parse_ipmi x r = (let d = r_data r in
     r\<lparr>r_payloadtype := PAYLOAD_IPMI, r_msglen := d ! x, r_rq_addr := d ! (x + 1), r_netfn := drop_bit 2 (d ! (x + 2)),
       r_rq_lun := d ! (x + 2) AND 3, r_rs_addr := d ! (x + 4), r_rq_seq := drop_bit 2 (d ! (x + 5)),
       r_rs_lun := d ! (x + 5) AND 3, r_cmd := d ! (x + 6), r_ccode := d ! (x + 7)\<rparr>)"

text \<open>The offset of the message length: after the authentication code, when there is one.\<close>

definition msg_offset :: "ipmi_session \<Rightarrow> lan_rs \<Rightarrow> nat" where
  "msg_offset s r = (if active s \<and> (r_authtype r \<noteq> 0 \<or> authtype s \<noteq> 0) then 29 else 13)"

text \<open>
  One turn of the loop of \<open>ipmi_lan_poll_recv\<close> on the response in the structure:
  \<open>Pong\<close> is the direct return for a ping response, \<open>Leave\<close> the end of the loop with the
  response (and the offset of its data) or without one, \<open>Again\<close> the next turn.
\<close>

datatype poll_result = Pong bool lan_state | Leave "nat option" lan_state | Again lan_state | Broken lan_error

definition next_packet :: "lan_state \<Rightarrow> poll_result" where
  "next_packet st = (case ipmi_lan_recv_packet st of (True, st') \<Rightarrow> Again st' | (False, st') \<Rightarrow> Leave None st')"

definition upd_request :: "nat \<Rightarrow> (ipmi_rq_entry \<Rightarrow> ipmi_rq_entry) \<Rightarrow> lan_state \<Rightarrow> lan_state" where
  "upd_request i f st = st\<lparr>l_requests := (l_requests st)[i := f (l_requests st ! i)]\<rparr>"

definition drop_request :: "byte \<Rightarrow> byte \<Rightarrow> lan_state \<Rightarrow> lan_state" where
  "drop_request seq cmd st = st\<lparr>l_requests := rq_remove seq cmd (l_requests st)\<rparr>"

text \<open>When the last level of bridging is gone the entry waits for the target command.\<close>

definition target_cmd_due :: "ipmi_rq_entry \<Rightarrow> ipmi_rq_entry" where
  "target_cmd_due e =
     (if e_bridging_level e = 0 then e\<lparr>e_req := (e_req e)\<lparr>rq_cmd := rq_target_cmd (e_req e)\<rparr>\<rparr> else e)"

text \<open>The answer to a Send Message request of entry \<open>i\<close>; \<open>x\<close> is the offset of its data.\<close>

definition poll_bridged :: "nat \<Rightarrow> nat \<Rightarrow> lan_state \<Rightarrow> poll_result" where
  "poll_bridged i x st =
     (let st1 = upd_request i (\<lambda>e. e\<lparr>e_bridging_level := e_bridging_level e - 1\<rparr>) st;
          r = l_rsp st1; n = r_data_len r - int x - 1
      in if n = 0 then
           (case (if r_ccode r = 0 then ipmi_lan_recv_packet st1 else (False, st1)) of
              (got, st2) \<Rightarrow>
                (let st3 = upd_request i target_cmd_due st2; e = l_requests st3 ! i
                 in if got then Again st3 else Leave None (drop_request (e_rq_seq e) (rq_cmd (e_req e)) st3)))
         else if n < 0 then Broken Bad_length
         else
           (let d = put_at (x - 7) (take (nat n) (drop x (r_data r))) (r_data r);
                d = d[x - 8 := d ! (x - 8) - 8];
                st2 = st1\<lparr>l_rsp := r\<lparr>r_data := d, r_data_len := r_data_len r - 8\<rparr>\<rparr>
            in Again (upd_request i (\<lambda>e. target_cmd_due (e\<lparr>e_rq_seq := drop_bit 2 (d ! (x - 3))\<rparr>)) st2)))"

definition poll_turn :: "lan_state \<Rightarrow> poll_result" where
  "poll_turn st =
     (let class = r_data (l_rsp st) ! 3
      in if class = RMCP_CLASS_ASF then Pong (ipmi_handle_pong (l_rsp st) > 0) st
         else if class \<noteq> RMCP_CLASS_IPMI then next_packet st
         else case session (l_intf st) of
           None \<Rightarrow> Broken Null_session
         | Some s \<Rightarrow>
             (let r = parse_session (l_rsp st)
              in if r_session_id r = session_id s + 0x10000000
                 then Leave (Some sol_data_offset) (st\<lparr>l_rsp := parse_sol r\<rparr>)
                 else
                   (let x = msg_offset s r; r' = parse_ipmi x r; st' = st\<lparr>l_rsp := r'\<rparr>
                    in case rq_find (r_rq_seq r') (r_cmd r') (l_requests st') of
                         None \<Rightarrow> next_packet st'
                       | Some i \<Rightarrow>
                           if bridging st' \<and> e_bridging_level (l_requests st' ! i) \<noteq> 0 \<and> r_netfn r' = 7 \<and> r_cmd r' = 0x34
                           then poll_bridged i (x + 8) st'
                           else Leave (Some (x + 8)) (drop_request (r_rq_seq r') (r_cmd r') st'))))"


text \<open>
  A turn that leads to another one has taken a packet from the network or peeled off one
  level of bridging.
\<close>

definition levels :: "lan_state \<Rightarrow> nat" where
  "levels st = sum_list (map e_bridging_level (l_requests st))"

lemma recv_store_simps:
  "recv_store bs st = (b, st') \<Longrightarrow> \<exists>r. st' = st\<lparr>l_rsp := r\<rparr>"
  by (auto simp: recv_store_def Let_def split: if_splits intro: exI [of _ "l_rsp st"])

lemma recv_packet_frame:
  "ipmi_lan_recv_packet st = (b, st') \<Longrightarrow> \<exists>r es. st' = st\<lparr>l_net := es, l_rsp := r\<rparr> \<and> length es \<le> length (l_net st) \<and> (b \<longrightarrow> length es < length (l_net st))"
  unfolding ipmi_lan_recv_packet_def
  by (fastforce split: list.splits net_ev.splits dest!: recv_store_simps intro: exI [of _ "l_rsp st"])

lemma target_cmd_due_level [simp]: "e_bridging_level (target_cmd_due e) = e_bridging_level e"
  by (simp add: target_cmd_due_def)

lemma sum_list_update_nat: "i < length xs \<Longrightarrow> sum_list (xs[i := (y :: nat)]) + xs ! i = sum_list xs + y"
  by (induction xs arbitrary: i) (auto split: nat.splits)

lemma levels_upd:
  "i < length (l_requests st) \<Longrightarrow>
     levels (upd_request i f st) + e_bridging_level (l_requests st ! i) = levels st + e_bridging_level (f (l_requests st ! i))"
  unfolding levels_def upd_request_def
  using sum_list_update_nat [of i "map e_bridging_level (l_requests st)"] by (simp add: map_update)

lemma next_packet_Again: "next_packet st = Again st' \<Longrightarrow> length (l_net st') < length (l_net st)"
  by (auto simp: next_packet_def dest: recv_packet_frame split: prod.splits bool.splits)

lemma poll_bridged_Again:
  assumes "poll_bridged i x st = Again st'" and "i < length (l_requests st)" and "e_bridging_level (l_requests st ! i) \<noteq> 0"
  shows "length (l_net st') < length (l_net st) \<or> length (l_net st') = length (l_net st) \<and> levels st' < levels st"
proof -
  let ?st1 = "upd_request i (\<lambda>e. e\<lparr>e_bridging_level := e_bridging_level e - 1\<rparr>) st"
  let ?n = "r_data_len (l_rsp ?st1) - int x - 1"
  have st1: "levels ?st1 < levels st" "l_net ?st1 = l_net st" "length (l_requests ?st1) = length (l_requests st)"
    using levels_upd [OF assms(2), of "\<lambda>e. e\<lparr>e_bridging_level := e_bridging_level e - 1\<rparr>"] assms(3)
    by (simp_all add: upd_request_def)
  show ?thesis
  proof (cases "?n = 0")
    case True
    obtain got st2 where recv: "(if r_ccode (l_rsp ?st1) = 0 then ipmi_lan_recv_packet ?st1 else (False, ?st1)) = (got, st2)"
      by fastforce
    with True assms(1) have got: "got" and st': "st' = upd_request i target_cmd_due st2"
      by (auto simp: poll_bridged_def Let_def split: if_splits)
    with recv have "ipmi_lan_recv_packet ?st1 = (True, st2)" by (auto split: if_splits)
    from recv_packet_frame [OF this] st1(2) st' show ?thesis by (auto simp: upd_request_def)
  next
    case False
    with assms(1) obtain f r where st': "st' = upd_request i (\<lambda>e. target_cmd_due (f e)) (?st1\<lparr>l_rsp := r\<rparr>)"
      and f: "\<And>e. e_bridging_level (f e) = e_bridging_level e"
      by (fastforce simp: poll_bridged_def Let_def split: if_splits)
    have i: "i < length (l_requests (?st1\<lparr>l_rsp := r\<rparr>))" using assms(2) by (simp add: upd_request_def)
    have "levels st' = levels (?st1\<lparr>l_rsp := r\<rparr>)"
      using levels_upd [OF i, of "\<lambda>e. target_cmd_due (f e)"] st' f by simp
    also have "\<dots> = levels ?st1" by (simp add: levels_def)
    finally have "levels st' < levels st" using st1(1) by simp
    moreover have "l_net st' = l_net st" using st' st1(2) by (simp add: upd_request_def)
    ultimately show ?thesis by simp
  qed
qed

lemma poll_turn_Again:
  assumes "poll_turn st = Again st'"
  shows "length (l_net st') < length (l_net st) \<or> length (l_net st') = length (l_net st) \<and> levels st' < levels st"
proof (cases "session (l_intf st)")
  case None
  with assms show ?thesis by (auto simp: poll_turn_def Let_def split: if_splits dest: next_packet_Again)
next
  case (Some s)
  let ?r = "parse_session (l_rsp st)"
  let ?x = "msg_offset s ?r"
  let ?st = "st\<lparr>l_rsp := parse_ipmi ?x ?r\<rparr>"
  from assms Some consider "next_packet st = Again st'" | "next_packet ?st = Again st'"
    | i where "poll_bridged i (?x + 8) ?st = Again st'" "rq_find (r_rq_seq (l_rsp ?st)) (r_cmd (l_rsp ?st)) (l_requests ?st) = Some i"
        "e_bridging_level (l_requests ?st ! i) \<noteq> 0"
    by (auto simp: poll_turn_def Let_def split: if_splits option.splits)
  then show ?thesis
  proof cases
    case 3
    with poll_bridged_Again [OF 3(1)] rq_find_Some [OF 3(2)] show ?thesis by (auto simp: levels_def)
  qed (auto dest: next_packet_Again)
qed

function poll_loop :: "lan_state \<Rightarrow> lan_error + bool \<times> lan_state" where
  "poll_loop st =
     (case poll_turn st of
        Broken e \<Rightarrow> Inl e
      | Pong b st' \<Rightarrow> Inr (b, st')
      | Again st' \<Rightarrow> poll_loop st'
      | Leave None st' \<Rightarrow> Inr (False, st')
      | Leave (Some x) st' \<Rightarrow>
          (let r = l_rsp st';
               n = r_data_len r - int x - (if r_payloadtype r = PAYLOAD_IPMI then 1 else 0)
           in Inr (True,
                if r_data_len r > int x
                then st'\<lparr>l_rsp := r\<lparr>r_data := take (nat n) (drop x (r_data r)) @ replicate (IPMI_BUF_SIZE - nat n) 0,
                       r_data_len := n\<rparr>\<rparr>
                else st')))"
  by pat_completeness auto
termination
  by (relation "measures [\<lambda>st. length (l_net st), levels]") (auto dest: poll_turn_Again)

declare poll_loop.simps [simp del]

definition ipmi_lan_poll_recv :: "lan_state \<Rightarrow> lan_error + bool \<times> lan_state" where
  "ipmi_lan_poll_recv st =
     (case ipmi_lan_recv_packet st of
        (False, st') \<Rightarrow> Inr (False, st')
      | (True, st') \<Rightarrow> poll_loop st')"

definition ipmi_lan_ping :: "lan_state \<Rightarrow> lan_error + int \<times> lan_state" where
  "ipmi_lan_ping st =
     (case ipmi_lan_send_packet (rmcp_hdr RMCP_CLASS_ASF @ [0x00, 0x00, 0x11, 0xBE, 0x80, 0, 0, 0]) st of
        (False, st') \<Rightarrow> Inr (-1, st')
      | (True, st') \<Rightarrow> map_sum id (\<lambda>(got, st''). (if got then 1 else 0, st'')) (ipmi_lan_poll_recv st'))"


section \<open>Building requests\<close>

abbreviation (input) AUTHTYPE_MD2 :: byte where "AUTHTYPE_MD2 \<equiv> 1"
abbreviation (input) AUTHTYPE_MD5 :: byte where "AUTHTYPE_MD5 \<equiv> 2"

definition has_transit :: "ipmi_intf \<Rightarrow> bool" where
  "has_transit intf \<longleftrightarrow> transit_addr intf \<noteq> my_addr intf \<and> transit_addr intf \<noteq> 0"

definition with_csum :: "byte list \<Rightarrow> byte list" where
  "with_csum bs = bs @ [ipmi_csum bs]"

text \<open>
  From the message length byte on: bridging level, length byte, message. Every checksum is
  computed over the bytes written since its mark.
\<close>

definition lan_payload :: "bool \<Rightarrow> ipmi_intf \<Rightarrow> ipmi_rq \<Rightarrow> nat \<Rightarrow> nat \<times> byte \<times> byte list" where
  "lan_payload is_bridged intf req curr_seq =
     (let seq = push_bit 2 (word_of_nat curr_seq) :: byte;
          nf = push_bit 2 (rq_netfn req) OR (rq_lun req AND 3);
          my = ucast (my_addr intf) :: byte;
          n = length (rq_data req)
      in if \<not> is_bridged then
           (0, word_of_nat (n + 7),
            with_csum [IPMI_BMC_SLAVE_ADDR, nf] @ with_csum ([IPMI_REMOTE_SWID, seq, rq_cmd req] @ rq_data req))
         else
           (let target = with_csum [ucast (target_addr intf), nf] @ with_csum ([my, seq, rq_cmd req] @ rq_data req);
                outer = with_csum [IPMI_BMC_SLAVE_ADDR, 0x18]
            in if \<not> has_transit intf then
                 (1, word_of_nat (n + 15),
                  outer @ with_csum ([IPMI_REMOTE_SWID, seq, 0x34, 0x40 OR target_channel intf] @ target))
               else
                 (2, word_of_nat (n + 15 + 8),
                  outer @ with_csum ([IPMI_REMOTE_SWID, seq, 0x34, 0x40 OR transit_channel intf]
                    @ with_csum [ucast (transit_addr intf), 0x18]
                    @ with_csum ([my, seq, 0x34, 0x40 OR target_channel intf] @ target)))))"

definition lan_auth :: "(byte list \<Rightarrow> byte list) option \<Rightarrow> ipmi_session \<Rightarrow> byte list \<Rightarrow> byte list" where
  "lan_auth md2 s data =
     (if active s \<and> authtype s \<noteq> 0
      then if authtype s = AUTHTYPE_MD5 then ipmi_auth_md5 s data
           else if authtype s = AUTHTYPE_MD2 then ipmi_auth_md2 md2 s data
           else take 16 (authcode s)
      else [])"

definition lan_packet :: "(byte list \<Rightarrow> byte list) option \<Rightarrow> ipmi_session \<Rightarrow> byte \<Rightarrow> byte list \<Rightarrow> byte list" where
  "lan_packet md2 s len_byte payload =
     rmcp_hdr RMCP_CLASS_IPMI @ [if active s then authtype s else 0] @ le32 (in_seq s) @ le32 (session_id s)
       @ lan_auth md2 s (take (unat len_byte) payload) @ [len_byte] @ payload"

text \<open>The memory allocated for the packet.\<close>

definition lan_alloc :: "ipmi_session \<Rightarrow> ipmi_intf \<Rightarrow> ipmi_rq \<Rightarrow> nat" where
  "lan_alloc s intf req =
     length (rq_data req) + 29 + (if active s \<and> authtype s \<noteq> 0 then 16 else 0) + (if has_transit intf then 8 else 0)"

definition next_in_seq :: "u32 \<Rightarrow> u32" where
  "next_in_seq n = (if n = 0 then 0 else let n1 = n + 1 in if n1 = 0 then n1 + 1 else n1)"

definition lan_next_seq :: "bool \<Rightarrow> nat \<Rightarrow> nat" where
  "lan_next_seq isRetry n = (let n1 = (if isRetry then n else n + 1) in if n1 \<ge> 64 then 0 else n1)"

definition upd_session :: "(ipmi_session \<Rightarrow> ipmi_session) \<Rightarrow> lan_state \<Rightarrow> lan_state" where
  "upd_session f st = st\<lparr>l_intf := (l_intf st)\<lparr>session := map_option f (session (l_intf st))\<rparr>\<rparr>"

text \<open>The result is the position of the entry in the list.\<close>

definition ipmi_lan_build_cmd :: "(byte list \<Rightarrow> byte list) option \<Rightarrow> ipmi_rq \<Rightarrow> bool \<Rightarrow> lan_state \<Rightarrow> lan_error + nat \<times> lan_state" where
  "ipmi_lan_build_cmd md2 req isRetry st =
     (let curr = lan_next_seq isRetry (l_curr_seq st);
          seq = word_of_nat curr :: byte;
          (i, es) = (case rq_find seq (rq_cmd req) (l_requests st) of
              Some i \<Rightarrow> (i, (l_requests st)[i := (l_requests st ! i)\<lparr>e_msg_data := None\<rparr>])
            | None \<Rightarrow> (length (l_requests st), l_requests st @ [rq_new req seq]));
          st1 = st\<lparr>l_curr_seq := curr, l_requests := es\<rparr>
      in case session (l_intf st1) of
           None \<Rightarrow> Inl Null_session
         | Some s \<Rightarrow>
             (let (level, len_byte, payload) = lan_payload (bridging st1) (l_intf st1) req curr;
                  msg = lan_packet md2 s len_byte payload;
                  fix_cmd = (\<lambda>e. if level = 0 then e
                    else e\<lparr>e_req := (e_req e)\<lparr>rq_target_cmd := rq_cmd (e_req e), rq_cmd := 0x34\<rparr>\<rparr>);
                  st2 = upd_request i (\<lambda>e. (fix_cmd e)\<lparr>e_bridging_level := level, e_rq_seq := seq, e_msg_data := Some msg\<rparr>) st1
              in Inr (i, upd_session (\<lambda>s. s\<lparr>in_seq := next_in_seq (in_seq s)\<rparr>) st2)))"

section \<open>The request loop\<close>

text \<open>One turn: an answer or none, and the state to leave with, or the number of tries so far and the state to go on with.\<close>

datatype send_result = Answer bool lan_state | Retry nat lan_state | Failed lan_error

definition lan_await :: "lan_state \<Rightarrow> lan_error + bool \<times> lan_state" where
  "lan_await st =
     (case ipmi_lan_poll_recv st of
        Inl e \<Rightarrow> Inl e
      | Inr (got, st') \<Rightarrow> if got \<and> r_ccode (l_rsp st') = 0xCF then ipmi_lan_poll_recv st' else Inr (got, st'))"

definition send_turn :: "(byte list \<Rightarrow> byte list) option \<Rightarrow> ipmi_rq \<Rightarrow> nat \<Rightarrow> lan_state \<Rightarrow> send_result" where
  "send_turn md2 req try st =
     (case ipmi_lan_build_cmd md2 req (try > 0) st of
        Inl e \<Rightarrow> Failed e
      | Inr (i, st1) \<Rightarrow>
          (let entry = l_requests st1 ! i
           in case ipmi_lan_send_packet (the (e_msg_data entry)) st1 of
                (False, st2) \<Rightarrow> Retry (try + 1) (drop_request (e_rq_seq entry) (rq_target_cmd (e_req entry)) st2)
              | (True, st2) \<Rightarrow>
                  if noanswer (l_intf st2) then Answer False st2
                  else (case lan_await (if ipmi_oem_active st2 ''intelwv2'' then ipmi_lan_thump st2 else st2) of
                          Inl e \<Rightarrow> Failed e
                        | Inr (True, st3) \<Rightarrow> Answer True st3
                        | Inr (False, st3) \<Rightarrow>
                            if int (try + 1) \<ge> retry (ssn_params (l_intf st3)) then Answer False st3
                            else Retry (try + 1) st3)))"


text \<open>What receiving leaves alone: everything but the list of requests, the response and the coming packets.\<close>

definition lan_frame :: "lan_state \<Rightarrow> lan_state \<Rightarrow> bool" where
  "lan_frame st st' \<longleftrightarrow> st' = st\<lparr>l_requests := l_requests st', l_rsp := l_rsp st', l_net := l_net st'\<rparr>
     \<and> length (l_net st') \<le> length (l_net st)"

lemma lan_frame_refl [simp]: "lan_frame st st"
  by (simp add: lan_frame_def)

lemma lan_frame_trans: "lan_frame a b \<Longrightarrow> lan_frame b c \<Longrightarrow> lan_frame a c"
  unfolding lan_frame_def by (cases a; cases b; cases c) auto

lemma lan_frame_fields:
  assumes "lan_frame st st'"
  shows "l_intf st' = l_intf st" and "l_sends st' = l_sends st" and "l_out st' = l_out st" and "l_curr_seq st' = l_curr_seq st"
    and "l_bridge_possible st' = l_bridge_possible st" and "l_oem st' = l_oem st"
  using assms unfolding lan_frame_def by (cases st; cases st'; simp)+

lemma lan_frame_upd [simp]:
  "lan_frame st (st\<lparr>l_rsp := r\<rparr>)" "lan_frame st (upd_request i f st)" "lan_frame st (drop_request q c st)"
  by (simp_all add: lan_frame_def upd_request_def drop_request_def)

lemma recv_packet_lan_frame: "ipmi_lan_recv_packet st = (b, st') \<Longrightarrow> lan_frame st st'"
  using recv_packet_frame [of st b st'] by (auto simp: lan_frame_def)

definition result_frame :: "lan_state \<Rightarrow> poll_result \<Rightarrow> bool" where
  "result_frame st r \<longleftrightarrow> (case r of Pong _ st' \<Rightarrow> lan_frame st st' | Leave _ st' \<Rightarrow> lan_frame st st' | Again st' \<Rightarrow> lan_frame st st' | Broken _ \<Rightarrow> True)"

lemma result_frame_trans: "lan_frame st st' \<Longrightarrow> result_frame st' r \<Longrightarrow> result_frame st r"
  by (cases r) (auto simp: result_frame_def intro: lan_frame_trans)

lemma next_packet_frame: "result_frame st (next_packet st)"
  by (auto simp: next_packet_def result_frame_def dest: recv_packet_lan_frame split: prod.splits bool.splits)

lemma poll_bridged_frame: "result_frame st (poll_bridged i x st)"
proof -
  let ?st1 = "upd_request i (\<lambda>e. e\<lparr>e_bridging_level := e_bridging_level e - 1\<rparr>) st"
  obtain got st2 where recv: "(if r_ccode (l_rsp ?st1) = 0 then ipmi_lan_recv_packet ?st1 else (False, ?st1)) = (got, st2)"
    by fastforce
  then have "lan_frame ?st1 st2" by (auto dest: recv_packet_lan_frame split: if_splits)
  then have st2: "lan_frame st (upd_request i target_cmd_due st2)" "\<And>q c. lan_frame st (drop_request q c (upd_request i target_cmd_due st2))"
    by (blast intro: lan_frame_trans lan_frame_upd)+
  have st3: "lan_frame st (upd_request i f (?st1\<lparr>l_rsp := r\<rparr>))" for f r
    by (blast intro: lan_frame_trans lan_frame_upd)
  show ?thesis using recv st2 st3 by (auto simp: poll_bridged_def Let_def result_frame_def split: if_splits)
qed

lemma poll_turn_frame: "result_frame st (poll_turn st)"
proof -
  have r: "result_frame st (next_packet (st\<lparr>l_rsp := r\<rparr>))" "result_frame st (poll_bridged i x (st\<lparr>l_rsp := r\<rparr>))"
    "result_frame st (next_packet st)" "lan_frame st (drop_request q c (st\<lparr>l_rsp := r\<rparr>))" for r i x q c
    by (blast intro: result_frame_trans lan_frame_trans lan_frame_upd next_packet_frame poll_bridged_frame)+
  then show ?thesis
    unfolding poll_turn_def Let_def
    by (auto simp: result_frame_def [of st "Pong _ _"] result_frame_def [of st "Leave _ _"] result_frame_def [of st "Broken _"]
        split: option.split)
qed

lemma poll_loop_frame: "poll_loop st = Inr (b, st') \<Longrightarrow> lan_frame st st'"
proof (induction st rule: poll_loop.induct)
  case (1 st)
  note turn = poll_turn_frame [of st]
  show ?case
  proof (cases "poll_turn st")
    case (Again st1)
    with 1 have "lan_frame st1 st'" by (simp add: poll_loop.simps [of st])
    with turn Again show ?thesis by (auto simp: result_frame_def intro: lan_frame_trans)
  next
    case (Leave x st1)
    with 1(2) turn show ?thesis
      by (auto simp: poll_loop.simps [of st] result_frame_def Let_def split: option.splits if_splits intro: lan_frame_trans)
  qed (use 1(2) turn in \<open>auto simp: poll_loop.simps [of st] result_frame_def\<close>)
qed

lemma poll_recv_frame: "ipmi_lan_poll_recv st = Inr (b, st') \<Longrightarrow> lan_frame st st'"
  by (auto simp: ipmi_lan_poll_recv_def split: prod.splits bool.splits
      dest: recv_packet_lan_frame poll_loop_frame intro: lan_frame_trans)

lemma lan_await_frame: "lan_await st = Inr (b, st') \<Longrightarrow> lan_frame st st'"
  by (auto simp: lan_await_def split: sum.splits if_splits intro: poll_recv_frame lan_frame_trans [OF poll_recv_frame poll_recv_frame])

lemma send_packet_frame:
  "ipmi_lan_send_packet d st = (b, st') \<Longrightarrow> \<exists>ss os. st' = st\<lparr>l_sends := ss, l_out := os\<rparr> \<and> length ss \<le> length (l_sends st)
     \<and> (\<not> b \<longrightarrow> length ss < length (l_sends st))"
  by (rule exI [of _ "l_sends st'"], rule exI [of _ "l_out st'"])
    (auto simp: ipmi_lan_send_packet_def split: list.splits bool.splits)

lemma build_cmd_frame:
  "ipmi_lan_build_cmd md2 req rt st = Inr (i, st') \<Longrightarrow>
     l_sends st' = l_sends st \<and> l_net st' = l_net st \<and> l_out st' = l_out st \<and> ssn_params (l_intf st') = ssn_params (l_intf st)
     \<and> l_bridge_possible st' = l_bridge_possible st \<and> l_oem st' = l_oem st \<and> l_rsp st' = l_rsp st"
  by (auto simp: ipmi_lan_build_cmd_def Let_def upd_session_def upd_request_def split: option.splits prod.splits)

lemma send_turn_Retry:
  assumes "send_turn md2 req try st = Retry try' st'"
  shows "try' = try + 1 \<and> ssn_params (l_intf st') = ssn_params (l_intf st) \<and>
    (length (l_sends st') < length (l_sends st)
     \<or> length (l_sends st') \<le> length (l_sends st) \<and> int (try + 1) < retry (ssn_params (l_intf st)))"
proof -
  from assms obtain i st1 where b: "ipmi_lan_build_cmd md2 req (try > 0) st = Inr (i, st1)"
    by (auto simp: send_turn_def split: sum.splits)
  note b' = build_cmd_frame [OF b]
  let ?e = "l_requests st1 ! i"
  obtain ok st2 where s: "ipmi_lan_send_packet (the (e_msg_data ?e)) st1 = (ok, st2)" by fastforce
  from send_packet_frame [OF s] obtain ss os where
    s': "st2 = st1\<lparr>l_sends := ss, l_out := os\<rparr>" "length ss \<le> length (l_sends st1)" "\<not> ok \<longrightarrow> length ss < length (l_sends st1)" by blast
  show ?thesis
  proof (cases ok)
    case False
    with assms b s s' b' show ?thesis by (auto simp: send_turn_def Let_def drop_request_def)
  next
    case True
    let ?st = "if ipmi_oem_active st2 ''intelwv2'' then ipmi_lan_thump st2 else st2"
    from True assms b s obtain st3 where a: "lan_await ?st = Inr (False, st3)" and r: "try' = try + 1" "st' = st3"
      "\<not> int (try + 1) \<ge> retry (ssn_params (l_intf st3))"
      by (auto simp: send_turn_def Let_def split: if_splits sum.splits bool.splits)
    obtain ok' st4 where t: "ipmi_lan_send_packet [0x74, 0x68, 0x75, 0x6D, 0x70, 0, 0, 0, 0, 0] st2 = (ok', st4)" by fastforce
    have "l_intf ?st = l_intf st2" "length (l_sends ?st) \<le> length (l_sends st2)"
      using send_packet_frame [OF t] t by (auto simp: ipmi_lan_thump_def)
    with lan_frame_fields [OF lan_await_frame [OF a]] r s' b' show ?thesis by auto
  qed
qed

function send_loop :: "(byte list \<Rightarrow> byte list) option \<Rightarrow> ipmi_rq \<Rightarrow> nat \<Rightarrow> lan_state \<Rightarrow> lan_error + bool \<times> lan_state" where
  "send_loop md2 req try st =
     (case send_turn md2 req try st of
        Failed e \<Rightarrow> Inl e
      | Answer b st' \<Rightarrow> Inr (b, st'\<lparr>l_requests := []\<rparr>)
      | Retry try' st' \<Rightarrow> send_loop md2 req try' st')"
  by pat_completeness auto
termination
proof (relation "measures [\<lambda>(_, _, _, st). length (l_sends st), \<lambda>(_, _, try, st). nat (retry (ssn_params (l_intf st)) - int try)]", goal_cases)
  case 1
  show ?case by simp
next
  case (2 md2 req n st n' st')
  from send_turn_Retry [OF 2] show ?case by auto
qed

declare send_loop.simps [simp del]


section \<open>Reference for built requests\<close>

definition lan_reference :: "bool \<Rightarrow> ipmi_intf \<Rightarrow> ipmi_rq \<Rightarrow> byte \<Rightarrow> byte list" where
  "lan_reference is_bridged intf req seq =
     (let nf = push_bit 2 (rq_netfn req) OR (rq_lun req AND 3); my = ucast (my_addr intf);
          target = ipmb_msg (ucast (target_addr intf)) nf my seq (rq_cmd req) (rq_data req)
      in if \<not> is_bridged then ipmb_msg 0x20 nf 0x81 seq (rq_cmd req) (rq_data req)
         else if \<not> has_transit intf then ipmb_msg 0x20 0x18 0x81 seq 0x34 ((0x40 OR target_channel intf) # target)
         else ipmb_msg 0x20 0x18 0x81 seq 0x34 ((0x40 OR transit_channel intf)
                # ipmb_msg (ucast (transit_addr intf)) 0x18 my seq 0x34 ((0x40 OR target_channel intf) # target)))"

lemma with_csum_ipmb: "with_csum [a, b] @ with_csum (x # y # z # d) = ipmb_msg a b x y z d"
  by (simp add: with_csum_def ipmb_msg_def ipmi_csum_sum)

lemma length_with_csum [simp]: "length (with_csum bs) = Suc (length bs)"
  by (simp add: with_csum_def)

definition lan_level :: "bool \<Rightarrow> ipmi_intf \<Rightarrow> nat" where
  "lan_level is_bridged intf = (if \<not> is_bridged then 0 else if has_transit intf then 2 else 1)"

lemma lan_payload_reference:
  "lan_payload br intf req k =
     (lan_level br intf, word_of_nat (length (lan_reference br intf req (push_bit 2 (word_of_nat k)))),
      lan_reference br intf req (push_bit 2 (word_of_nat k)))"
  by (auto simp: lan_payload_def lan_reference_def lan_level_def Let_def IPMI_BMC_SLAVE_ADDR_def IPMI_REMOTE_SWID_def
      with_csum_ipmb ac_simps)

lemma length_lan_reference: "length (lan_reference br intf req q) = length (rq_data req) + 7 + 8 * lan_level br intf"
  by (simp add: lan_reference_def lan_level_def Let_def)

definition md2_ok :: "(byte list \<Rightarrow> byte list) option \<Rightarrow> bool" where
  "md2_ok md2 \<longleftrightarrow> (\<forall>h x. md2 = Some h \<longrightarrow> length (h x) = 16)"

lemma length_lan_auth:
  "md2_ok md2 \<Longrightarrow> 16 \<le> length (authcode s) \<Longrightarrow> length (lan_auth md2 s d) = (if active s \<and> authtype s \<noteq> 0 then 16 else 0)"
  by (auto simp: lan_auth_def md2_ok_def ipmi_auth_md2_def split: option.splits)

lemma build_cmd_result:
  assumes "session (l_intf st) = Some s"
  shows "\<exists>i st'. ipmi_lan_build_cmd md2 req rt st = Inr (i, st') \<and> i < length (l_requests st')
    \<and> l_curr_seq st' = lan_next_seq rt (l_curr_seq st)
    \<and> l_intf st' = (l_intf st)\<lparr>session := Some (s\<lparr>in_seq := next_in_seq (in_seq s)\<rparr>)\<rparr>
    \<and> e_rq_seq (l_requests st' ! i) = word_of_nat (l_curr_seq st')
    \<and> e_bridging_level (l_requests st' ! i) = lan_level (bridging st) (l_intf st)
    \<and> rq_cmd (e_req (l_requests st' ! i)) = (if bridging st then 0x34 else rq_cmd req)
    \<and> (bridging st \<longrightarrow> rq_target_cmd (e_req (l_requests st' ! i)) = rq_cmd req)
    \<and> e_msg_data (l_requests st' ! i) = (let m = lan_reference (bridging st) (l_intf st) req (push_bit 2 (word_of_nat (l_curr_seq st')))
         in Some (lan_packet md2 s (word_of_nat (length m)) m))"
proof -
  let ?c = "lan_next_seq rt (l_curr_seq st)"
  let ?q = "word_of_nat ?c :: byte"
  have br: "bridging (st\<lparr>l_curr_seq := c, l_requests := es\<rparr>) = bridging st" for c es by (simp add: bridging_def)
  have lv: "lan_level (bridging st) (l_intf st) = 0 \<longleftrightarrow> \<not> bridging st" by (simp add: lan_level_def)
  show ?thesis
  proof (cases "rq_find ?q (rq_cmd req) (l_requests st)")
    case None
    then show ?thesis using assms br lv
      by (simp add: ipmi_lan_build_cmd_def Let_def lan_payload_reference upd_request_def upd_session_def rq_new_def nth_append)
  next
    case (Some i)
    with rq_find_Some [OF Some] show ?thesis using assms br lv
      by (auto simp: ipmi_lan_build_cmd_def Let_def lan_payload_reference upd_request_def upd_session_def entry_matches_def)
  qed
qed

text \<open>The two counters.\<close>

lemma next_in_seq_nonzero: "n \<noteq> 0 \<Longrightarrow> next_in_seq n \<noteq> 0"
  by (auto simp: next_in_seq_def Let_def)

lemma lan_next_seq_less: "n < 64 \<Longrightarrow> lan_next_seq rt n < 64"
  by (auto simp: lan_next_seq_def Let_def)

interpretation lan_seq: seq_alloc "lan_next_seq False" id 64
proof (unfold_locales, goal_cases)
  case (2 s)
  then have "s = 63 \<or> s < 63" by auto
  then show ?case by (auto simp: lan_next_seq_def Let_def)
qed simp

section \<open>Receiving keeps the response array in bounds\<close>

definition wf_rsp :: "lan_rs \<Rightarrow> bool" where
  "wf_rsp r \<longleftrightarrow> length (r_data r) = IPMI_BUF_SIZE \<and> 0 \<le> r_data_len r \<and> r_data_len r \<le> int IPMI_BUF_SIZE"

lemma wf_rsp_parse [simp]:
  "wf_rsp (parse_session r) = wf_rsp r" "wf_rsp (parse_sol r) = wf_rsp r" "wf_rsp (parse_ipmi x r) = wf_rsp r"
  by (simp_all add: wf_rsp_def parse_session_def parse_sol_def parse_ipmi_def Let_def)

lemma recv_packet_wf: "ipmi_lan_recv_packet st = (b, st') \<Longrightarrow> wf_rsp (l_rsp st) \<Longrightarrow> wf_rsp (l_rsp st')"
  by (auto simp: ipmi_lan_recv_packet_def recv_store_def wf_rsp_def Let_def IPMI_BUF_SIZE_def split: list.splits net_ev.splits if_splits)

definition result_wf :: "poll_result \<Rightarrow> bool" where
  "result_wf r \<longleftrightarrow> (case r of Pong _ st \<Rightarrow> wf_rsp (l_rsp st) | Leave _ st \<Rightarrow> wf_rsp (l_rsp st) | Again st \<Rightarrow> wf_rsp (l_rsp st) | Broken _ \<Rightarrow> True)"

lemma next_packet_wf: "wf_rsp (l_rsp st) \<Longrightarrow> result_wf (next_packet st)"
  by (auto simp: next_packet_def result_wf_def dest: recv_packet_wf split: prod.splits bool.splits)

lemma poll_bridged_wf:
  assumes "wf_rsp (l_rsp st)" and "8 \<le> x"
  shows "result_wf (poll_bridged i x st)"
proof -
  let ?st1 = "upd_request i (\<lambda>e. e\<lparr>e_bridging_level := e_bridging_level e - 1\<rparr>) st"
  obtain got st2 where recv: "(if r_ccode (l_rsp ?st1) = 0 then ipmi_lan_recv_packet ?st1 else (False, ?st1)) = (got, st2)"
    by fastforce
  have "wf_rsp (l_rsp ?st1)" using assms(1) by (simp add: upd_request_def)
  with recv have "wf_rsp (l_rsp st2)" by (auto dest: recv_packet_wf split: if_splits)
  then show ?thesis using recv assms
    by (auto simp: poll_bridged_def Let_def result_wf_def upd_request_def drop_request_def wf_rsp_def split: if_splits)
qed

lemma poll_turn_wf: "wf_rsp (l_rsp st) \<Longrightarrow> result_wf (poll_turn st)"
  unfolding poll_turn_def Let_def
  by (auto simp: result_wf_def [of "Pong _ _"] result_wf_def [of "Leave _ _"] result_wf_def [of "Broken _"] drop_request_def
      intro!: next_packet_wf poll_bridged_wf split: option.split)

lemma poll_loop_wf: "poll_loop st = Inr (b, st') \<Longrightarrow> wf_rsp (l_rsp st) \<Longrightarrow> wf_rsp (l_rsp st')"
proof (induction st rule: poll_loop.induct)
  case (1 st)
  note turn = poll_turn_wf [OF 1(3)]
  show ?case
  proof (cases "poll_turn st")
    case (Again st1)
    with 1 turn show ?thesis by (simp add: poll_loop.simps [of st] result_wf_def)
  next
    case (Leave x st1)
    with 1(2) turn show ?thesis
      by (auto simp: poll_loop.simps [of st] result_wf_def wf_rsp_def Let_def split: option.splits if_splits)
  qed (use 1(2) turn in \<open>auto simp: poll_loop.simps [of st] result_wf_def\<close>)
qed

lemma poll_recv_wf: "ipmi_lan_poll_recv st = Inr (b, st') \<Longrightarrow> wf_rsp (l_rsp st) \<Longrightarrow> wf_rsp (l_rsp st')"
  by (auto simp: ipmi_lan_poll_recv_def split: prod.splits bool.splits dest: recv_packet_wf poll_loop_wf)


section \<open>Matching responses\<close>

text \<open>
  The answer to a Send Message request takes one level of forwarding off its entry, the
  first one of that sequence number that waits for such an answer. When the last level is
  gone the entry waits for the target command; its sequence number is then the one the
  embedded response carries, whatever that is.
\<close>

definition unwrap_step :: "ipmi_rq_entry list \<Rightarrow> ipmi_rq_entry list \<Rightarrow> bool" where
  "unwrap_step es es' \<longleftrightarrow> (\<exists>q i q'. rq_find q 0x34 es = Some i \<and> e_bridging_level (es ! i) \<noteq> 0
     \<and> es' = es[i := target_cmd_due ((es ! i)\<lparr>e_bridging_level := e_bridging_level (es ! i) - 1, e_rq_seq := q'\<rparr>)])"

text \<open>What a response is that is returned while the requests \<open>es\<close> are outstanding.\<close>

definition response_kind :: "ipmi_rq_entry list \<Rightarrow> lan_state \<Rightarrow> lan_state \<Rightarrow> bool" where
  "response_kind es st st' \<longleftrightarrow>
     r_data (l_rsp st') ! 3 = RMCP_CLASS_ASF \<and> l_requests st' = es
   \<or> r_payloadtype (l_rsp st') = PAYLOAD_SOL \<and> l_requests st' = es
       \<and> Some (r_session_id (l_rsp st')) = map_option (\<lambda>s. session_id s + 0x10000000) (session (l_intf st))
   \<or> r_payloadtype (l_rsp st') = PAYLOAD_IPMI \<and> rq_find (r_rq_seq (l_rsp st')) (r_cmd (l_rsp st')) es \<noteq> None
       \<and> l_requests st' = rq_remove (r_rq_seq (l_rsp st')) (r_cmd (l_rsp st')) es"

lemma next_packet_requests:
  "(case next_packet st of Again st' \<Rightarrow> l_requests st' = l_requests st | Leave x st' \<Rightarrow> x = None | _ \<Rightarrow> False)"
  by (auto simp: next_packet_def dest: recv_packet_frame split: prod.splits bool.splits)

lemma poll_bridged_requests:
  assumes "rq_find q 0x34 (l_requests st) = Some i" and "e_bridging_level (l_requests st ! i) \<noteq> 0"
  shows "case poll_bridged i x st of
      Again st' \<Rightarrow> unwrap_step (l_requests st) (l_requests st')
    | Leave y st' \<Rightarrow> y = None
    | Pong b st' \<Rightarrow> False
    | Broken e \<Rightarrow> e = Bad_length"
proof -
  let ?e = "l_requests st ! i"
  let ?st1 = "upd_request i (\<lambda>e. e\<lparr>e_bridging_level := e_bridging_level e - 1\<rparr>) st"
  obtain got st2 where recv: "(if r_ccode (l_rsp ?st1) = 0 then ipmi_lan_recv_packet ?st1 else (False, ?st1)) = (got, st2)"
    by fastforce
  then have st2: "l_requests st2 = l_requests ?st1" by (auto dest: recv_packet_frame split: if_splits)
  have i: "i < length (l_requests st)" using rq_find_Some [OF assms(1)] by simp
  have unwrap: "unwrap_step (l_requests st) ((l_requests st)[i := target_cmd_due (?e\<lparr>e_bridging_level := e_bridging_level ?e - 1, e_rq_seq := q'\<rparr>)])" for q'
    using assms by (auto simp: unwrap_step_def)
  have same: "unwrap_step (l_requests st) ((l_requests st)[i := target_cmd_due (?e\<lparr>e_bridging_level := e_bridging_level ?e - 1\<rparr>)])"
    using unwrap [of "e_rq_seq ?e"] by simp
  have "l_requests (upd_request i target_cmd_due st2) = (l_requests st)[i := target_cmd_due (?e\<lparr>e_bridging_level := e_bridging_level ?e - 1\<rparr>)]"
    using st2 i by (simp add: upd_request_def)
  moreover have "l_requests (upd_request i (\<lambda>e. target_cmd_due (e\<lparr>e_rq_seq := q'\<rparr>)) (?st1\<lparr>l_rsp := r\<rparr>))
      = (l_requests st)[i := target_cmd_due (?e\<lparr>e_bridging_level := e_bridging_level ?e - 1, e_rq_seq := q'\<rparr>)]" for q' r
    using i by (simp add: upd_request_def)
  ultimately show ?thesis using recv unwrap same by (auto simp: poll_bridged_def Let_def split: if_splits)
qed

lemma poll_turn_requests:
  "case poll_turn st of
      Again st' \<Rightarrow> l_requests st' = l_requests st \<or> bridging st \<and> unwrap_step (l_requests st) (l_requests st')
    | Pong b st' \<Rightarrow> response_kind (l_requests st) st st'
    | Leave x st' \<Rightarrow> x \<noteq> None \<longrightarrow> response_kind (l_requests st) st (st'\<lparr>l_rsp := (l_rsp st')\<lparr>r_data := d, r_data_len := n\<rparr>\<rparr>)
        \<and> response_kind (l_requests st) st st'
    | Broken e \<Rightarrow> session (l_intf st) = None \<or> bridging st \<and> e = Bad_length"
proof (cases "session (l_intf st)")
  case None
  with next_packet_requests [of st] show ?thesis
    by (auto simp: poll_turn_def Let_def response_kind_def split: poll_result.splits)
next
  case (Some s)
  let ?r = "parse_session (l_rsp st)"
  let ?x = "msg_offset s ?r"
  let ?st = "st\<lparr>l_rsp := parse_ipmi ?x ?r\<rparr>"
  have br: "bridging ?st = bridging st" by (simp add: bridging_def)
  consider (asf) "r_data (l_rsp st) ! 3 = RMCP_CLASS_ASF" | (other) "r_data (l_rsp st) ! 3 \<noteq> RMCP_CLASS_ASF" "r_data (l_rsp st) ! 3 \<noteq> RMCP_CLASS_IPMI"
    | (sol) "r_data (l_rsp st) ! 3 = RMCP_CLASS_IPMI" "r_session_id ?r = session_id s + 0x10000000"
    | (ipmi) "r_data (l_rsp st) ! 3 = RMCP_CLASS_IPMI" "r_session_id ?r \<noteq> session_id s + 0x10000000"
    by blast
  then show ?thesis
  proof cases
    case asf
    then show ?thesis by (simp add: poll_turn_def response_kind_def)
  next
    case other
    with next_packet_requests [of st] show ?thesis by (auto simp: poll_turn_def split: poll_result.splits)
  next
    case sol
    with Some show ?thesis by (simp add: poll_turn_def response_kind_def parse_sol_def Let_def)
  next
    case ipmi
    show ?thesis
    proof (cases "rq_find (r_rq_seq (l_rsp ?st)) (r_cmd (l_rsp ?st)) (l_requests st)")
      case None
      with ipmi Some have "poll_turn st = next_packet ?st" by (simp add: poll_turn_def Let_def)
      with next_packet_requests [of ?st] show ?thesis by (auto split: poll_result.splits)
    next
      case (Some i)
      let ?wrapped = "bridging st \<and> e_bridging_level (l_requests st ! i) \<noteq> 0 \<and> r_netfn (l_rsp ?st) = 7 \<and> r_cmd (l_rsp ?st) = 0x34"
      have turn: "poll_turn st = (if ?wrapped then poll_bridged i (?x + 8) ?st
          else Leave (Some (?x + 8)) (drop_request (r_rq_seq (l_rsp ?st)) (r_cmd (l_rsp ?st)) ?st))"
        using ipmi \<open>session (l_intf st) = Some s\<close> Some br by (simp add: poll_turn_def Let_def)
      have kind: "r_payloadtype (l_rsp ?st) = PAYLOAD_IPMI" by (simp add: parse_ipmi_def Let_def)
      show ?thesis
      proof (cases ?wrapped)
        case True
        then have "rq_find (r_rq_seq (l_rsp ?st)) 0x34 (l_requests ?st) = Some i" "e_bridging_level (l_requests ?st ! i) \<noteq> 0" using Some by auto
        from poll_bridged_requests [OF this, of "?x + 8"] turn True show ?thesis by (auto split: poll_result.splits)
      next
        case False
        have "poll_turn st = Leave (Some (?x + 8)) (drop_request (r_rq_seq (l_rsp ?st)) (r_cmd (l_rsp ?st)) ?st)"
          unfolding turn by (simp only: if_not_P [OF False])
        with kind Some show ?thesis by (simp add: response_kind_def drop_request_def)
      qed
    qed
  qed
qed


text \<open>The only ways in which receiving goes out of bounds.\<close>

lemma poll_loop_broken: "poll_loop st = Inl e \<Longrightarrow> session (l_intf st) = None \<or> bridging st \<and> e = Bad_length"
proof (induction st rule: poll_loop.induct)
  case (1 st)
  note turn = poll_turn_requests [of st]
  show ?case
  proof (cases "poll_turn st")
    case (Again st1)
    then have fr: "lan_frame st st1" using poll_turn_frame [of st] by (simp add: result_frame_def)
    with 1 Again lan_frame_fields [OF fr] show ?thesis by (simp add: poll_loop.simps [of st] bridging_def)
  qed (use 1(2) turn in \<open>auto simp: poll_loop.simps [of st] Let_def split: option.splits\<close>)
qed

lemma poll_recv_broken: "ipmi_lan_poll_recv st = Inl e \<Longrightarrow> session (l_intf st) = None \<or> bridging st \<and> e = Bad_length"
  using recv_packet_lan_frame [of st True]
  by (fastforce simp: ipmi_lan_poll_recv_def bridging_def split: prod.splits bool.splits dest: poll_loop_broken lan_frame_fields)

lemma lan_await_broken: "lan_await st = Inl e \<Longrightarrow> session (l_intf st) = None \<or> bridging st \<and> e = Bad_length"
  by (fastforce simp: lan_await_def bridging_def split: sum.splits if_splits dest: poll_recv_broken poll_recv_frame lan_frame_fields)

text \<open>A response packet as the BMC sends it.\<close>

definition lan_response :: "byte \<Rightarrow> u32 \<Rightarrow> u32 \<Rightarrow> byte list \<Rightarrow> byte list \<Rightarrow> byte list" where
  "lan_response at sq sid auth m = rmcp_hdr RMCP_CLASS_IPMI @ [at] @ le32 sq @ le32 sid @ auth @ [word_of_nat (length m)] @ m"

lemma recv_packet_prefix:
  assumes "l_net st = Net_packet p # es" and "p \<noteq> []" and "length p \<le> IPMI_BUF_SIZE"
  shows "\<exists>rest. ipmi_lan_recv_packet st =
    (True, st\<lparr>l_net := es, l_rsp := (l_rsp st)\<lparr>r_data := p @ rest, r_data_len := int (length p)\<rparr>\<rparr>)"
  using assms
  by (auto simp: ipmi_lan_recv_packet_def recv_store_def Let_def put_at_def list_update_append)

lemma nth_drop_prefix: "n \<le> length d \<Longrightarrow> drop n d = e \<Longrightarrow> d ! (n + k) = e ! k"
  by auto

lemma poll_recv_response:
  assumes s: "session (l_intf st) = Some s" and br: "\<not> bridging st"
    and net: "l_net st = Net_packet (lan_response at sq sid auth m) # es"
    and m: "m = ipmb_msg a nf b sb cmd (cc # dat)"
    and auth: "length auth = (if active s \<and> (at \<noteq> 0 \<or> authtype s \<noteq> 0) then 16 else 0)"
    and sid: "sid \<noteq> session_id s + 0x10000000"
    and found: "rq_find (drop_bit 2 sb) cmd (l_requests st) \<noteq> None"
    and len: "length dat \<le> 900"
  shows "\<exists>st'. ipmi_lan_poll_recv st = Inr (True, st') \<and> r_ccode (l_rsp st') = cc \<and> r_data_len (l_rsp st') = int (length dat)
    \<and> take (length dat) (r_data (l_rsp st')) = dat \<and> r_cmd (l_rsp st') = cmd \<and> r_rq_seq (l_rsp st') = drop_bit 2 sb
    \<and> l_requests st' = rq_remove (drop_bit 2 sb) cmd (l_requests st) \<and> l_net st' = es"
proof -
  let ?p = "lan_response at sq sid auth m"
  let ?off = "13 + length auth"
  have mlen: "length m = length dat + 8" by (simp add: m)
  have plen: "length ?p = length auth + length dat + 22" by (simp add: lan_response_def rmcp_hdr_def mlen)
  have alen: "length auth \<le> 16" using auth by simp
  have bounds: "?p \<noteq> []" "length ?p \<le> IPMI_BUF_SIZE"
    using plen alen len by (auto simp: IPMI_BUF_SIZE_def)
  from recv_packet_prefix [OF net bounds] obtain rest where
    recv: "ipmi_lan_recv_packet st = (True, st\<lparr>l_net := es, l_rsp := (l_rsp st)\<lparr>r_data := ?p @ rest, r_data_len := int (length ?p)\<rparr>\<rparr>)"
    by blast
  define d where "d = ?p @ rest"
  define st1 where "st1 = st\<lparr>l_net := es, l_rsp := (l_rsp st)\<lparr>r_data := d, r_data_len := int (length ?p)\<rparr>\<rparr>"
  have d3: "d ! 3 = 7" and d4: "d ! 4 = at" by (simp_all add: d_def lan_response_def rmcp_hdr_def)
  have d9: "of_le32 (drop 9 d) = sid"
    proof -
    have "drop 9 d = le32 sid @ auth @ [word_of_nat (length m)] @ m @ rest" by (simp add: d_def lan_response_def rmcp_hdr_def)
    then show ?thesis by simp
  qed
  have tail: "drop ?off d = word_of_nat (length m) # m @ rest"
  proof -
    have "d = (rmcp_hdr RMCP_CLASS_IPMI @ [at] @ le32 sq @ le32 sid @ auth) @ (word_of_nat (length m) # m @ rest)"
      by (simp add: d_def lan_response_def)
    moreover have "length (rmcp_hdr RMCP_CLASS_IPMI @ [at] @ le32 sq @ le32 sid @ auth) = ?off" by (simp add: rmcp_hdr_def)
    ultimately show ?thesis by (metis append_eq_conv_conj)
  qed
  have idx: "d ! (?off + k) = (word_of_nat (length m) # m @ rest) ! k" for k
    using tail by (intro nth_drop_prefix) (simp_all add: d_def plen)
  define r where "r = parse_session (l_rsp st1)"
  have r: "r_data r = d" "r_data_len r = int (length ?p)" "r_authtype r = at" "r_session_id r = sid"
    by (simp_all add: r_def parse_session_def st1_def d4 d9)
  have off: "msg_offset s r = ?off" using auth r(3) by (auto simp: msg_offset_def)
  define r' where "r' = parse_ipmi ?off r"
  have r': "r_rq_seq r' = drop_bit 2 sb" "r_cmd r' = cmd" "r_ccode r' = cc" "r_payloadtype r' = PAYLOAD_IPMI"
    "r_data r' = d" "r_data_len r' = int (length ?p)"
    using r idx [of 5] idx [of 6] idx [of 7] by (simp_all add: r'_def parse_ipmi_def Let_def m ipmb_msg_def)
  have turn: "poll_turn st1 = Leave (Some (?off + 8)) (drop_request (drop_bit 2 sb) cmd (st1\<lparr>l_rsp := r'\<rparr>))"
    using d3 s br sid r r' found off unfolding poll_turn_def Let_def r_def [symmetric]
    by (auto simp: st1_def bridging_def r'_def [symmetric])
  have n: "int (length ?p) - int (?off + 8) - 1 = int (length dat)" "int (length ?p) > int (?off + 8)"
    by (simp_all add: plen)
  have data: "drop (?off + 8) d = dat @ drop (length dat) (drop (?off + 8) d)"
  proof -
    have "drop (?off + 8) d = drop 8 (drop ?off d)" by (simp add: add.commute)
    then show ?thesis unfolding tail by (simp add: m ipmb_msg_def)
  qed
  have "take (length dat) (drop (?off + 8) d) = dat" by (subst data) simp
  then have "poll_loop st1 = Inr (True, (drop_request (drop_bit 2 sb) cmd (st1\<lparr>l_rsp := r'\<rparr>))
      \<lparr>l_rsp := r'\<lparr>r_data := dat @ replicate (IPMI_BUF_SIZE - length dat) 0, r_data_len := int (length dat)\<rparr>\<rparr>)"
    using turn n r' unfolding poll_loop.simps [of st1]
    by (simp add: drop_request_def Let_def)
  then show ?thesis using recv r'
    by (simp add: ipmi_lan_poll_recv_def st1_def [unfolded d_def, symmetric] drop_request_def) (simp add: st1_def)
qed


section \<open>The request loop\<close>

lemma send_packet_ok: "l_sends st = [] \<Longrightarrow> ipmi_lan_send_packet d st = (True, st\<lparr>l_out := l_out st @ [d]\<rparr>)"
  by (simp add: ipmi_lan_send_packet_def)

lemma send_loop_cleared: "send_loop md2 req n st = Inr (b, st') \<Longrightarrow> l_requests st' = []"
proof (induction md2 req n st rule: send_loop.induct)
  case (1 md2 req n st)
  then show ?case by (cases "send_turn md2 req n st") (auto simp: send_loop.simps [of md2 req n st])
qed

text \<open>
  The turn of a request on a network where every send succeeds: one packet goes out, built
  with the running session, and only the session's inbound sequence number moves.
\<close>

definition lan_message :: "ipmi_rq \<Rightarrow> nat \<Rightarrow> lan_state \<Rightarrow> byte list" where
  "lan_message req k st = lan_reference (bridging st) (l_intf st) req (push_bit 2 (word_of_nat k))"

definition turn_sent :: "(byte list \<Rightarrow> byte list) option \<Rightarrow> ipmi_rq \<Rightarrow> nat \<Rightarrow> ipmi_session \<Rightarrow> lan_state \<Rightarrow> lan_state \<Rightarrow> bool" where
  "turn_sent md2 req n s st st' \<longleftrightarrow> l_sends st' = [] \<and> l_oem st' = l_oem st \<and> l_bridge_possible st' = l_bridge_possible st
     \<and> l_curr_seq st' = lan_next_seq (n > 0) (l_curr_seq st)
     \<and> l_intf st' = (l_intf st)\<lparr>session := Some (s\<lparr>in_seq := next_in_seq (in_seq s)\<rparr>)\<rparr>
     \<and> (let m = lan_message req (l_curr_seq st') st in l_out st' = l_out st @ [lan_packet md2 s (word_of_nat (length m)) m])"

lemma send_turn_sent:
  assumes "session (l_intf st) = Some s" and "l_sends st = []" and "\<not> ipmi_oem_active st ''intelwv2''"
  shows "case send_turn md2 req n st of
      Answer b st' \<Rightarrow> turn_sent md2 req n s st st'
    | Retry n' st' \<Rightarrow> turn_sent md2 req n s st st' \<and> n' = n + 1 \<and> int (n + 1) < retry (ssn_params (l_intf st))
    | Failed e \<Rightarrow> bridging st \<and> e = Bad_length"
proof -
  from build_cmd_result [OF assms(1), of md2 req "n > 0"] obtain i st1 where
    b: "ipmi_lan_build_cmd md2 req (n > 0) st = Inr (i, st1)" and seq: "l_curr_seq st1 = lan_next_seq (n > 0) (l_curr_seq st)"
    and int: "l_intf st1 = (l_intf st)\<lparr>session := Some (s\<lparr>in_seq := next_in_seq (in_seq s)\<rparr>)\<rparr>"
    and msg: "the (e_msg_data (l_requests st1 ! i)) = (let m = lan_message req (l_curr_seq st1) st in lan_packet md2 s (word_of_nat (length m)) m)"
    by (auto simp: Let_def lan_message_def)
  note b' = build_cmd_frame [OF b]
  let ?st2 = "st1\<lparr>l_out := l_out st1 @ [the (e_msg_data (l_requests st1 ! i))]\<rparr>"
  have snd: "ipmi_lan_send_packet (the (e_msg_data (l_requests st1 ! i))) st1 = (True, ?st2)"
    using b' assms(2) by (simp add: send_packet_ok)
  have oem: "\<not> ipmi_oem_active ?st2 ''intelwv2''" using b' assms(3) by (simp add: ipmi_oem_active_def)
  have st2: "turn_sent md2 req n s st ?st2" using b' seq int assms(2) msg by (simp add: turn_sent_def Let_def)
  have await: "turn_sent md2 req n s st st3" if "lan_await ?st2 = Inr (got, st3)" for got st3
    using st2 lan_frame_fields [OF lan_await_frame [OF that]] by (simp add: turn_sent_def Let_def)
  show ?thesis
  proof (cases "noanswer (l_intf ?st2)")
    case True
    with b snd st2 show ?thesis by (simp add: send_turn_def Let_def)
  next
    case False
    show ?thesis
    proof (cases "lan_await ?st2")
      case (Inl e)
      with lan_await_broken [OF Inl] int b' have "bridging st \<and> e = Bad_length" by (simp add: bridging_def our_address_def)
      with Inl b snd False oem show ?thesis by (simp add: send_turn_def Let_def)
    next
      case (Inr r)
      obtain got st3 where r: "r = (got, st3)" by fastforce
      with await Inr have t: "turn_sent md2 req n s st st3" by blast
      then have "retry (ssn_params (l_intf st3)) = retry (ssn_params (l_intf st))" by (simp add: turn_sent_def)
      with t b snd False oem Inr r show ?thesis by (cases got) (auto simp: send_turn_def Let_def)
    qed
  qed
qed

text \<open>The packets of \<open>k\<close> transmissions of the message \<open>m\<close>, with running session sequence numbers.\<close>

primrec lan_packets :: "(byte list \<Rightarrow> byte list) option \<Rightarrow> byte list \<Rightarrow> ipmi_session \<Rightarrow> nat \<Rightarrow> byte list list" where
  "lan_packets md2 m s 0 = []"
| "lan_packets md2 m s (Suc k) =
     lan_packet md2 s (word_of_nat (length m)) m # lan_packets md2 m (s\<lparr>in_seq := next_in_seq (in_seq s)\<rparr>) k"

lemma send_loop_bounded:
  "session (l_intf st) = Some s \<Longrightarrow> l_sends st = [] \<Longrightarrow> \<not> ipmi_oem_active st ''intelwv2'' \<Longrightarrow> l_curr_seq st < 64 \<Longrightarrow>
     (case send_loop md2 req n st of
        Inl e \<Rightarrow> bridging st \<and> e = Bad_length
      | Inr (b, st') \<Rightarrow> l_requests st' = [] \<and> l_curr_seq st' = lan_next_seq (n > 0) (l_curr_seq st)
          \<and> (\<exists>k. 1 \<le> k \<and> int k \<le> max 1 (retry (ssn_params (l_intf st)) - int n)
               \<and> l_out st' = l_out st @ lan_packets md2 (lan_message req (l_curr_seq st') st) s k))"
proof (induction md2 req n st arbitrary: s rule: send_loop.induct)
  case (1 md2 req n st)
  note turn = send_turn_sent [OF 1(2-4), of md2 req n]
  show ?case
  proof (cases "send_turn md2 req n st")
    case (Answer b' st1)
    with turn have t: "turn_sent md2 req n s st st1" by simp
    with Answer show ?thesis by (auto simp: send_loop.simps [of md2 req n st] turn_sent_def Let_def intro!: exI [of _ "Suc 0"])
  next
    case (Retry n' st1)
    let ?s = "s\<lparr>in_seq := next_in_seq (in_seq s)\<rparr>"
    from Retry turn have t: "turn_sent md2 req n s st st1" "n' = n + 1" "int (n + 1) < retry (ssn_params (l_intf st))" by simp_all
    then have st1: "l_curr_seq st1 = lan_next_seq (n > 0) (l_curr_seq st)" "l_intf st1 = (l_intf st)\<lparr>session := Some ?s\<rparr>"
      "l_out st1 = l_out st @ [lan_packet md2 s (word_of_nat (length (lan_message req (l_curr_seq st1) st))) (lan_message req (l_curr_seq st1) st)]"
      "bridging st1 = bridging st"
      by (simp_all add: turn_sent_def Let_def bridging_def our_address_def)
    have msg: "lan_message req k st1 = lan_message req k st" for k
      using st1(2,4) by (simp add: lan_message_def lan_reference_def has_transit_def Let_def)
    have "session (l_intf st1) = Some ?s" "l_sends st1 = []" "\<not> ipmi_oem_active st1 ''intelwv2''" "l_curr_seq st1 < 64"
      using t(1) 1(4,5) by (auto simp: turn_sent_def ipmi_oem_active_def lan_next_seq_less)
    note IH = 1(1) [OF Retry this]
    have same: "lan_next_seq (n' > 0) (l_curr_seq st1) = l_curr_seq st1"
      using t(2) st1(1) lan_next_seq_less [OF 1(5), of "n > 0"] by (simp add: lan_next_seq_def [of True])
    have loop: "send_loop md2 req n st = send_loop md2 req n' st1" using Retry by (simp add: send_loop.simps [of md2 req n st])
    show ?thesis
    proof (cases "send_loop md2 req n' st1")
      case (Inl e)
      with IH st1(4) loop show ?thesis by simp
    next
      case (Inr r)
      obtain b st' where r: "r = (b, st')" by fastforce
      from IH Inr r same obtain k where k: "l_requests st' = []" "l_curr_seq st' = l_curr_seq st1" "1 \<le> k"
        "int k \<le> max 1 (retry (ssn_params (l_intf st1)) - int n')"
        "l_out st' = l_out st1 @ lan_packets md2 (lan_message req (l_curr_seq st1) st) ?s k" by (auto simp: msg)
      have out: "l_out st' = l_out st @ lan_packets md2 (lan_message req (l_curr_seq st') st) s (Suc k)"
        using k(2,5) st1(3) by simp
      have "int (Suc k) \<le> max 1 (retry (ssn_params (l_intf st)) - int n)" using k(4) st1(2) t(2,3) by simp
      then have "\<exists>k. 1 \<le> k \<and> int k \<le> max 1 (retry (ssn_params (l_intf st)) - int n)
          \<and> l_out st' = l_out st @ lan_packets md2 (lan_message req (l_curr_seq st') st) s k"
        using out by (intro exI [of _ "Suc k"]) simp
      with loop Inr r k(1,2) st1(1) show ?thesis by simp
    qed
  next
    case (Failed e)
    with turn show ?thesis by (simp add: send_loop.simps [of md2 req n st])
  qed
qed

lemma seq_bits_byte:
  assumes "c < 64"
  shows "drop_bit 2 (push_bit 2 (word_of_nat c)) = (word_of_nat c :: byte)"
proof (rule bit_word_eqI)
  fix n assume "n < LENGTH(8)"
  have "n < 6" if "bit c n"
  proof (rule ccontr)
    assume "\<not> n < 6"
    then have "(2 :: nat) ^ 6 \<le> 2 ^ n" by (intro power_increasing) simp_all
    with assms have "c < 2 ^ n" by simp
    with that show False by (simp add: bit_iff_odd)
  qed
  with \<open>n < LENGTH(8)\<close> show "bit (drop_bit 2 (push_bit 2 (word_of_nat c)) :: byte) n = bit (word_of_nat c :: byte) n"
    by (auto simp: bit_simps)
qed

text \<open>A direct request that is answered at once.\<close>

lemma send_loop_answered:
  assumes s: "session (l_intf st) = Some s" and br: "\<not> bridging st" and sends: "l_sends st = []"
    and oem: "\<not> ipmi_oem_active st ''intelwv2''" and ans: "\<not> noanswer (l_intf st)" and seq: "l_curr_seq st < 64"
    and net: "l_net st = Net_packet (lan_response at sq sid auth m) # es"
    and m: "m = ipmb_msg a nf b (push_bit 2 (word_of_nat (lan_next_seq False (l_curr_seq st)))) (rq_cmd req) (cc # dat)"
    and auth: "length auth = (if active s \<and> (at \<noteq> 0 \<or> authtype s \<noteq> 0) then 16 else 0)"
    and sid: "sid \<noteq> session_id s + 0x10000000" and len: "length dat \<le> 900" and cc: "cc \<noteq> 0xCF"
  shows "\<exists>st'. send_loop md2 req 0 st = Inr (True, st') \<and> r_ccode (l_rsp st') = cc \<and> r_data_len (l_rsp st') = int (length dat)
    \<and> take (length dat) (r_data (l_rsp st')) = dat \<and> l_net st' = es
    \<and> l_out st' = l_out st @ [lan_packet md2 s (word_of_nat (length (rq_data req) + 7))
        (lan_reference False (l_intf st) req (push_bit 2 (word_of_nat (lan_next_seq False (l_curr_seq st)))))]"
proof -
  let ?c = "lan_next_seq False (l_curr_seq st)"
  have c: "?c < 64" using seq by (rule lan_next_seq_less)
  have seq_bits: "drop_bit 2 (push_bit 2 (word_of_nat ?c)) = (word_of_nat ?c :: byte)"
    using c by (rule seq_bits_byte)
  let ?m = "lan_reference False (l_intf st) req (push_bit 2 (word_of_nat ?c))"
  from build_cmd_result [OF s, of md2 req False] br obtain i st1 where
    b: "ipmi_lan_build_cmd md2 req False st = Inr (i, st1)" and i: "i < length (l_requests st1)" and c1: "l_curr_seq st1 = ?c"
    and int: "l_intf st1 = (l_intf st)\<lparr>session := Some (s\<lparr>in_seq := next_in_seq (in_seq s)\<rparr>)\<rparr>"
    and e: "e_rq_seq (l_requests st1 ! i) = word_of_nat ?c" "rq_cmd (e_req (l_requests st1 ! i)) = rq_cmd req"
      "e_msg_data (l_requests st1 ! i) = Some (lan_packet md2 s (word_of_nat (length ?m)) ?m)"
    by (auto simp: Let_def)
  note b' = build_cmd_frame [OF b]
  let ?p = "lan_packet md2 s (word_of_nat (length ?m)) ?m"
  let ?st2 = "st1\<lparr>l_out := l_out st1 @ [?p]\<rparr>"
  have snd: "ipmi_lan_send_packet ?p st1 = (True, ?st2)" using b' sends by (simp add: send_packet_ok)
  have "rq_find (word_of_nat ?c) (rq_cmd req) (l_requests ?st2) \<noteq> None"
    using i e by (auto simp: rq_find_None entry_matches_def intro!: bexI [of _ "l_requests st1 ! i"])
  then have "rq_find (drop_bit 2 (push_bit 2 (word_of_nat ?c))) (rq_cmd req) (l_requests ?st2) \<noteq> None" by (simp only: seq_bits not_False_eq_True)
  from poll_recv_response [OF _ _ _ m _ _ this len, of "s\<lparr>in_seq := next_in_seq (in_seq s)\<rparr>" at sq sid auth es]
  obtain st3 where p: "ipmi_lan_poll_recv ?st2 = Inr (True, st3)" "r_ccode (l_rsp st3) = cc" "r_data_len (l_rsp st3) = int (length dat)"
    "take (length dat) (r_data (l_rsp st3)) = dat" "l_net st3 = es"
    using int br net auth sid b' by (auto simp: bridging_def our_address_def)
  have "lan_await ?st2 = Inr (True, st3)" using p cc by (simp add: lan_await_def)
  moreover have "\<not> noanswer (l_intf ?st2)" "\<not> ipmi_oem_active ?st2 ''intelwv2''"
    using int ans oem b' by (simp_all add: ipmi_oem_active_def)
  ultimately have "send_turn md2 req 0 st = Answer True st3"
    using b snd e(3) by (simp add: send_turn_def Let_def)
  moreover have "l_out st3 = l_out st @ [?p]"
    using lan_frame_fields [OF poll_recv_frame [OF p(1)]] b' by simp
  moreover have "length ?m = length (rq_data req) + 7" by (simp add: length_lan_reference lan_level_def)
  ultimately show ?thesis using p by (simp add: send_loop.simps [of md2 req 0 st])
qed


section \<open>Properties\<close>

text \<open>
  C27: in an open session every request, direct, bridged or doubly bridged, becomes the
  packet of the reference: RMCP header, session header with the current inbound sequence
  number, authentication code over the whole message, length byte, nested IPMB messages
  with their checksums. It fits the memory allocated for it, its entry in the list of
  requests waits for the sequence number and command on the wire, and a running inbound
  sequence number never becomes zero.
\<close>

theorem lan_build_cmd_correct:
  assumes "session (l_intf st) = Some s" and "length (rq_data req) \<le> 232" and "16 \<le> length (authcode s)" and "md2_ok md2"
    and "m = lan_reference (bridging st) (l_intf st) req (push_bit 2 (word_of_nat (lan_next_seq isRetry (l_curr_seq st))))"
    and "pkt = rmcp_hdr RMCP_CLASS_IPMI @ [if active s then authtype s else 0] @ le32 (in_seq s) @ le32 (session_id s)
      @ lan_auth md2 s m @ [word_of_nat (length m)] @ m"
  shows "\<exists>i st' s'. ipmi_lan_build_cmd md2 req isRetry st = Inr (i, st') \<and> i < length (l_requests st')
    \<and> e_msg_data (l_requests st' ! i) = Some pkt \<and> length pkt \<le> lan_alloc s (l_intf st) req
    \<and> entry_matches (word_of_nat (lan_next_seq isRetry (l_curr_seq st))) (if bridging st then 0x34 else rq_cmd req) (l_requests st' ! i)
    \<and> session (l_intf st') = Some s' \<and> (in_seq s \<noteq> 0 \<longrightarrow> in_seq s' \<noteq> 0)"
proof -
  have len: "length m = length (rq_data req) + 7 + 8 * lan_level (bridging st) (l_intf st)"
    by (simp add: assms(5) length_lan_reference)
  then have "length m < 256" using assms(2) by (auto simp: lan_level_def split: if_splits)
  then have "unat (word_of_nat (length m) :: byte) = length m" by (simp add: unat_of_nat)
  then have pkt: "lan_packet md2 s (word_of_nat (length m)) m = pkt" by (simp add: lan_packet_def assms(6))
  have "length pkt = 14 + (if active s \<and> authtype s \<noteq> 0 then 16 else 0) + length m"
    by (simp add: assms(6) rmcp_hdr_def length_lan_auth [OF assms(4,3)])
  then have "length pkt \<le> lan_alloc s (l_intf st) req"
    using len by (auto simp: lan_alloc_def lan_level_def split: if_splits)
  with build_cmd_result [OF assms(1), of md2 req isRetry] pkt assms(5) show ?thesis
    by (auto simp: Let_def entry_matches_def next_in_seq_nonzero)
qed

text \<open>
  whatever datagrams arrive, receiving keeps the response structure in bounds: the
  array keeps its 1024 bytes and the data length stays between 0 and 1024.
\<close>

theorem lan_poll_recv_in_bounds:
  assumes "ipmi_lan_poll_recv st = Inr (got, st')" and "length (r_data (l_rsp st)) = IPMI_BUF_SIZE"
    and "0 \<le> r_data_len (l_rsp st)" and "r_data_len (l_rsp st) \<le> int IPMI_BUF_SIZE"
  shows "length (r_data (l_rsp st')) = IPMI_BUF_SIZE \<and> 0 \<le> r_data_len (l_rsp st') \<and> r_data_len (l_rsp st') \<le> int IPMI_BUF_SIZE"
  using poll_recv_wf [OF assms(1)] assms(2-4) by (simp add: wf_rsp_def)


text \<open>
  C30: on a network where every send succeeds, and without the Intel workaround that sends
  twice, the request loop ends whatever arrives. It leaves no request in the list, so that a
  late answer to an earlier request is never taken for the answer to a later one, and it
  transmits at least once and at most as often as there are retries: each time the same
  message, with the successor of the last request sequence number, under the session
  header, the session sequence number and the authentication code of that transmission. The
  only other outcome is the move of a negative length for a truncated answer to a forwarded
  request. On a network where sends fail the loop goes on for as long as they do.
\<close>

theorem lan_send_bounded:
  assumes "session (l_intf st) = Some s" and "l_sends st = []" and "\<not> ipmi_oem_active st ''intelwv2''" and "l_curr_seq st < 64"
  shows "case send_loop md2 req 0 st of
      Inl e \<Rightarrow> bridging st \<and> e = Bad_length
    | Inr (got, st') \<Rightarrow> l_requests st' = [] \<and> l_curr_seq st' = (l_curr_seq st + 1) mod 64
        \<and> (\<exists>k. 1 \<le> k \<and> int k \<le> max 1 (retry (ssn_params (l_intf st)))
             \<and> l_out st' = l_out st @ lan_packets md2 (lan_message req ((l_curr_seq st + 1) mod 64) st) s k)"
proof -
  have "lan_next_seq False (l_curr_seq st) = (l_curr_seq st + 1) mod 64"
    using lan_seq.num_nxt [of "l_curr_seq st"] assms(4) by simp
  with send_loop_bounded [OF assms, where n = 0 and ?md2.0 = md2 and req = req] show ?thesis by (auto split: sum.splits)
qed

text \<open>
  C28: a direct request whose answer is the next datagram, in or outside an authenticated
  session, is sent once and returns the completion code and data of the answer.
\<close>

theorem lan_send_returns_response:
  assumes "session (l_intf st) = Some s" and "\<not> bridging st" and "l_sends st = []"
    and "\<not> ipmi_oem_active st ''intelwv2''" and "\<not> noanswer (l_intf st)" and "l_curr_seq st < 64"
    and "l_net st = Net_packet (lan_response at sq sid auth m) # es"
    and "m = ipmb_msg rqSA nf rsSA (push_bit 2 (word_of_nat (lan_next_seq False (l_curr_seq st)))) (rq_cmd req) (cc # dat)"
    and "length auth = (if active s \<and> (at \<noteq> 0 \<or> authtype s \<noteq> 0) then 16 else 0)"
    and "sid \<noteq> session_id s + 0x10000000" and "length dat \<le> 900" and "cc \<noteq> 0xCF"
  shows "\<exists>st'. send_loop md2 req 0 st = Inr (True, st') \<and> r_ccode (l_rsp st') = cc \<and> r_data_len (l_rsp st') = int (length dat)
    \<and> take (length dat) (r_data (l_rsp st')) = dat \<and> l_net st' = es \<and> length (l_out st') = Suc (length (l_out st))"
  using send_loop_answered [OF assms, of md2] by auto

section \<open>Witnesses\<close>

definition sample_rsp :: lan_rs where
  "sample_rsp = \<lparr>r_ccode = 0, r_data = replicate 1024 0, r_data_len = 0, r_authtype = 0, r_session_seq = 0, r_session_id = 0,
     r_payloadtype = 0, r_msglen = 0, r_rq_addr = 0, r_netfn = 0, r_rq_lun = 0, r_rs_addr = 0, r_rq_seq = 0, r_rs_lun = 0,
     r_cmd = 0, r_sol_seq = 0, r_sol_acked = 0, r_sol_accepted = 0, r_sol_is_nack = 0, r_sol_unavailable = 0,
     r_sol_inactive = 0, r_sol_overrun = 0, r_sol_break = 0\<rparr>"

definition sample_session :: ipmi_session where
  "sample_session = \<lparr>active = True, session_id = 0x01020304, in_seq = 0xFFFFFFFF, out_seq = 0, authcode = replicate 21 0x41,
     challenge = replicate 16 0, authtype = 2, authstatus = 0, s_timeout = 2,
     sol = \<lparr>sol_sequence_number = 1, sol_last_received_sequence_number = 0, sol_last_received_byte_count = 0\<rparr>\<rparr>"

definition sample_lan_rq :: ipmi_rq where
  "sample_lan_rq = \<lparr>rq_netfn = 6, rq_lun = 0, rq_cmd = 1, rq_target_cmd = 0, rq_data = []\<rparr>"

definition sample_answer :: "byte list" where
  "sample_answer = ipmb_msg 0x81 0x1C 0x20 (push_bit 2 (word_of_nat (lan_next_seq False 63))) (rq_cmd sample_lan_rq) (0 # [0x20, 1])"

definition sample_lan :: lan_state where
  "sample_lan = \<lparr>l_intf = sample_intf\<lparr>session := Some sample_session, target_addr := 0x20\<rparr>, l_oem = None, l_requests = [],
     l_bridge_possible = True, l_curr_seq = 63, l_rsp = sample_rsp, l_sol_last_seq = 0, l_sol_last_count = 0,
     l_net = [Net_packet (lan_response 2 1 0x01020304 (replicate 16 0) sample_answer)], l_sends = [], l_out = [], l_sol_input = [],
     l_random = replicate 4 0\<rparr>"

lemma sample_lan_direct: "\<not> bridging sample_lan"
  by (simp add: bridging_def sample_lan_def our_address_def sample_intf_def)

lemma sample_lan_session: "session (l_intf sample_lan) = Some sample_session"
  by (simp add: sample_lan_def)

theorem lan_build_cmd_correct_witness:
  "\<exists>i st'. ipmi_lan_build_cmd None sample_lan_rq False sample_lan = Inr (i, st')
    \<and> entry_matches 0 1 (l_requests st' ! i) \<and> map_option in_seq (session (l_intf st')) \<noteq> Some 0"
proof -
  have "in_seq sample_session \<noteq> 0" by (simp add: sample_session_def)
  moreover have "lan_next_seq False (l_curr_seq sample_lan) = 0" by (simp add: sample_lan_def lan_next_seq_def)
  ultimately show ?thesis
    using lan_build_cmd_correct [where req = sample_lan_rq and ?md2.0 = None and isRetry = False, OF sample_lan_session _ _ _ refl refl] sample_lan_direct
    by (auto simp: sample_lan_rq_def sample_session_def md2_ok_def)
qed

lemma sample_lan_answered:
  "\<exists>st'. ipmi_lan_poll_recv (sample_lan\<lparr>l_requests := [rq_new sample_lan_rq 0]\<rparr>) = Inr (True, st') \<and> l_requests st' = []"
proof -
  have c: "lan_next_seq False 63 = 0" by (simp add: lan_next_seq_def)
  have b: "(push_bit 2 (word_of_nat (lan_next_seq False 63)) :: byte) = 0" by (simp add: c)
  have "rq_find (drop_bit 2 (push_bit 2 (word_of_nat (lan_next_seq False 63)))) (rq_cmd sample_lan_rq) [rq_new sample_lan_rq 0] \<noteq> None"
    by (simp add: b rq_new_def entry_matches_def)
  moreover have "\<not> bridging (sample_lan\<lparr>l_requests := es\<rparr>)" for es using sample_lan_direct by (simp add: bridging_def)
  ultimately show ?thesis
    using poll_recv_response [of "sample_lan\<lparr>l_requests := [rq_new sample_lan_rq 0]\<rparr>" sample_session 2 1 "0x01020304" "replicate 16 0"
        sample_answer "[]" "0x81" "0x1C" "0x20" "push_bit 2 (word_of_nat (lan_next_seq False 63))" "rq_cmd sample_lan_rq" 0 "[0x20, 1]"]
    by (auto simp: sample_lan_session sample_lan_def sample_session_def sample_answer_def b rq_new_def entry_matches_def)
qed

theorem lan_poll_recv_in_bounds_witness:
  "\<exists>st'. ipmi_lan_poll_recv (sample_lan\<lparr>l_requests := [rq_new sample_lan_rq 0]\<rparr>) = Inr (True, st')
    \<and> length (r_data (l_rsp st')) = 1024 \<and> r_data_len (l_rsp st') \<le> 1024"
proof -
  from sample_lan_answered obtain st' where
    p: "ipmi_lan_poll_recv (sample_lan\<lparr>l_requests := [rq_new sample_lan_rq 0]\<rparr>) = Inr (True, st')" by blast
  from lan_poll_recv_in_bounds [OF this] p show ?thesis
    by (simp add: sample_lan_def sample_rsp_def IPMI_BUF_SIZE_def)
qed


lemma sample_lan_sends:
  "l_sends sample_lan = []" "\<not> ipmi_oem_active sample_lan ''intelwv2''" "l_curr_seq sample_lan = 63"
  by (simp_all add: sample_lan_def ipmi_oem_active_def)

theorem lan_send_returns_response_witness:
  "\<exists>st'. send_loop None sample_lan_rq 0 sample_lan = Inr (True, st') \<and> r_ccode (l_rsp st') = 0
    \<and> take 2 (r_data (l_rsp st')) = [0x20, 1] \<and> length (l_out st') = 1"
proof -
  from lan_send_returns_response [where at = 2 and sq = 1 and sid = "0x01020304" and auth = "replicate 16 0" and m = sample_answer and es = "[]" and nf = "0x1C"
        and req = sample_lan_rq and cc = 0 and dat = "[0x20, 1]" and ?md2.0 = None and rqSA = "0x81" and rsSA = "0x20",
        OF sample_lan_session sample_lan_direct sample_lan_sends(1,2)]
  obtain st' where "send_loop None sample_lan_rq 0 sample_lan = Inr (True, st')" "r_ccode (l_rsp st') = 0"
    "take (Suc (Suc 0)) (r_data (l_rsp st')) = [0x20, 1]" "length (l_out st') = 1"
    by (auto simp: sample_lan_def sample_intf_def sample_session_def sample_answer_def)
  then show ?thesis by (simp add: numeral_2_eq_2)
qed

theorem lan_send_bounded_witness:
  "\<exists>st'. send_loop None sample_lan_rq 0 sample_lan = Inr (True, st') \<and> l_requests st' = [] \<and> l_curr_seq st' = 0
    \<and> (\<exists>k\<ge>1. l_out st' = lan_packets None (lan_message sample_lan_rq 0 sample_lan) sample_session k)"
proof -
  from send_loop_answered [where at = 2 and sq = 1 and sid = "0x01020304" and auth = "replicate 16 0" and m = sample_answer and es = "[]" and nf = "0x1C"
        and req = sample_lan_rq and cc = 0 and dat = "[0x20, 1]" and ?md2.0 = None and a = "0x81" and b = "0x20",
        OF sample_lan_session sample_lan_direct sample_lan_sends(1,2)] obtain st' where
    p: "send_loop None sample_lan_rq 0 sample_lan = Inr (True, st')"
    by (auto simp: sample_lan_def sample_intf_def sample_session_def sample_answer_def)
  have "l_out sample_lan = []" by (simp add: sample_lan_def)
  with lan_send_bounded [OF sample_lan_session sample_lan_sends(1,2), where ?md2.0 = None and req = sample_lan_rq] p show ?thesis
    by (auto simp: sample_lan_sends)
qed

end
