(* ===== verification/Command.thy ===== *)
theory Command
  imports Ipmb
begin

text \<open>
  What the IPMI commands of lib/ see of a transport: the \<open>sendrecv\<close> function of the
  interface, which takes a request and gives a response or NULL. The transport's state is
  a type parameter, so is the type of errors a transport can end with.

  A response carries the completion code, the length of its data, and the array the data
  are in; the places of the array past the end of the list hold zero.
\<close>

record ipmi_rsp =
  rsp_ccode :: byte
  rsp_data_len :: int
  rsp_data :: "byte list"

definition rsp_byte :: "ipmi_rsp \<Rightarrow> nat \<Rightarrow> byte" where
  "rsp_byte r i = (if i < length (rsp_data r) then rsp_data r ! i else 0)"

definition rsp_bytes :: "ipmi_rsp \<Rightarrow> nat \<Rightarrow> nat \<Rightarrow> byte list" where
  "rsp_bytes r i n = map (\<lambda>k. rsp_byte r (i + k)) [0..<n]"

definition rsp_of :: "byte \<Rightarrow> byte list \<Rightarrow> ipmi_rsp" where
  "rsp_of cc d = \<lparr>rsp_ccode = cc, rsp_data_len = int (length d), rsp_data = d\<rparr>"

type_synonym ('e, 's) sendrecv = "ipmi_rq \<Rightarrow> 's \<Rightarrow> 'e + ipmi_rsp option \<times> 's"

definition mk_rq :: "byte \<Rightarrow> byte \<Rightarrow> byte list \<Rightarrow> ipmi_rq" where
  "mk_rq netfn cmd data = \<lparr>rq_netfn = netfn, rq_lun = 0, rq_cmd = cmd, rq_target_cmd = 0, rq_data = data\<rparr>"

text \<open>Sequencing of steps that may end with an error of the transport.\<close>

definition sum_bind :: "'e + 'a \<Rightarrow> ('a \<Rightarrow> 'e + 'b) \<Rightarrow> 'e + 'b" where
  "sum_bind m f = (case m of Inl e \<Rightarrow> Inl e | Inr x \<Rightarrow> f x)"

lemma sum_bind_simps [simp]: "sum_bind (Inl e) f = Inl e" "sum_bind (Inr x) f = f x"
  by (simp_all add: sum_bind_def)

lemma sum_bind_Inr: "sum_bind m f = Inr y \<longleftrightarrow> (\<exists>x. m = Inr x \<and> f x = Inr y)"
  by (cases m) simp_all

lemma sum_bind_cong [fundef_cong]:
  "m = m' \<Longrightarrow> (\<And>x. m' = Inr x \<Longrightarrow> f x = f' x) \<Longrightarrow> sum_bind m f = sum_bind m' f'"
  by (cases m') simp_all

lemma length_rsp_bytes [simp]: "length (rsp_bytes r i n) = n"
  by (simp add: rsp_bytes_def)

lemma nth_rsp_bytes [simp]: "k < n \<Longrightarrow> rsp_bytes r i n ! k = rsp_byte r (i + k)"
  by (simp add: rsp_bytes_def)

lemma rsp_bytes_take: "i + n \<le> length (rsp_data r) \<Longrightarrow> rsp_bytes r i n = take n (drop i (rsp_data r))"
  by (rule nth_equalityI) (auto simp: rsp_byte_def)

lemma rsp_of_simps [simp]:
  "rsp_ccode (rsp_of cc d) = cc" "rsp_data_len (rsp_of cc d) = int (length d)" "rsp_data (rsp_of cc d) = d"
  by (simp_all add: rsp_of_def)


section \<open>Interface: a transport that keeps an invariant\<close>

text \<open>
  What the commands of lib/ rely on when they send several requests: \<open>sendrecv\<close> keeps an
  invariant of the transport's state and does not end with certain errors. The two facts
  then hold of every command built from it.
\<close>

definition safe_result :: "('s \<Rightarrow> bool) \<Rightarrow> ('e \<Rightarrow> bool) \<Rightarrow> 'e + 'a \<times> 's \<Rightarrow> bool" where
  "safe_result ok bad r = (case r of Inl e \<Rightarrow> \<not> bad e | Inr (_, st) \<Rightarrow> ok st)"

lemma safe_result_simps [simp]:
  "safe_result ok bad (Inl e) \<longleftrightarrow> \<not> bad e" "safe_result ok bad (Inr (x, st)) \<longleftrightarrow> ok st"
  by (simp_all add: safe_result_def)

lemma safe_result_bind:
  "safe_result ok bad m \<Longrightarrow> (\<And>x st. m = Inr (x, st) \<Longrightarrow> ok st \<Longrightarrow> safe_result ok' bad (f (x, st))) \<Longrightarrow> safe_result ok' bad (sum_bind m f)"
  by (cases m) (auto split: prod.splits)

lemma safe_result_mono: "safe_result ok bad r \<Longrightarrow> (\<And>st. ok st \<Longrightarrow> ok' st) \<Longrightarrow> safe_result ok' bad r"
  by (auto simp: safe_result_def split: sum.splits)

locale safe_transport =
  fixes sendrecv :: "('e, 's) sendrecv"
    and ok :: "'s \<Rightarrow> bool"
    and bad :: "'e \<Rightarrow> bool"
  assumes sendrecv_safe: "ok st \<Longrightarrow> safe_result ok bad (sendrecv req st)"
begin

lemma sendrecv_then:
  "ok st \<Longrightarrow> (\<And>rsp st'. sendrecv req st = Inr (rsp, st') \<Longrightarrow> ok st' \<Longrightarrow> safe_result ok' bad (f (rsp, st'))) \<Longrightarrow>
     safe_result ok' bad (sum_bind (sendrecv req st) f)"
  by (rule safe_result_bind [OF sendrecv_safe])

end

end
