(* ===== verification/Hpm2.thy ===== *)
theory Hpm2
  imports Command
begin

text \<open>
  lib/hpm2.c: detection of the largest message an HPM.2 controller takes, and
  \<open>ipmi_get_oem\<close> of lib/ipmi_sel.c, which every LAN transport calls when it opens. Both
  run over the \<open>sendrecv\<close> function of the interface; \<open>mod_intf\<close> applies a change to the
  interface in the transport's state. The structures are packed and the host is
  little-endian, so they are the bytes of the response.
\<close>

section \<open>Capabilities\<close>

record hpm2_lan_attach_capabilities =
  hpm2_revision_id :: byte
  lan_channel_mask :: u16
  hpm2_caps :: byte
  hpm2_lan_params_start :: byte
  hpm2_lan_params_rev :: byte
  hpm2_sol_params_start :: byte
  hpm2_sol_params_rev :: byte

record hpm2_lan_channel_capabilities =
  capabilities :: byte
  attach_type :: byte
  bandwidth_class :: byte
  max_inbound_pld_size :: u16
  max_outbound_pld_size :: u16

definition of_le16 :: "byte \<Rightarrow> byte \<Rightarrow> u16" where
  "of_le16 lo hi = ucast lo OR push_bit 8 (ucast hi)"

text \<open>The eight bytes of the structure, those not copied from the response zero.\<close>

definition attach_caps_of :: "byte list \<Rightarrow> hpm2_lan_attach_capabilities" where
  "attach_caps_of bs = (let d = take 8 (bs @ replicate 8 0) in
     \<lparr>hpm2_revision_id = d ! 0, lan_channel_mask = of_le16 (d ! 1) (d ! 2), hpm2_caps = d ! 3,
      hpm2_lan_params_start = d ! 4, hpm2_lan_params_rev = d ! 5, hpm2_sol_params_start = d ! 6,
      hpm2_sol_params_rev = d ! 7\<rparr>)"

definition channel_caps_of :: "byte list \<Rightarrow> hpm2_lan_channel_capabilities" where
  "channel_caps_of d =
     \<lparr>capabilities = d ! 0, attach_type = d ! 1, bandwidth_class = d ! 2,
      max_inbound_pld_size = of_le16 (d ! 3) (d ! 4), max_outbound_pld_size = of_le16 (d ! 5) (d ! 6)\<rparr>"

definition HPM2_CAPS_SOL_EXTENSION :: byte where "HPM2_CAPS_SOL_EXTENSION = 0x01"

definition HPM2_LAN_PARAMS_REV :: byte where "HPM2_LAN_PARAMS_REV = 0x01"

definition HPM2_SOL_PARAMS_REV :: byte where "HPM2_SOL_PARAMS_REV = 0x01"

definition LAN_PARAM_REV :: "byte \<Rightarrow> byte \<Rightarrow> byte" where
  "LAN_PARAM_REV x y = push_bit 4 x OR (y AND 0xF)"

text \<open>The checks of the copied capabilities against the length of the response.\<close>

definition check_attach_caps :: "int \<Rightarrow> hpm2_lan_attach_capabilities \<Rightarrow> int" where
  "check_attach_caps data_len caps =
     (if hpm2_revision_id caps = 0 then -1
      else if lan_channel_mask caps = 0 then -1
      else if data_len < 8 then -1
      else if hpm2_lan_params_start caps < 0xC0 then -1
      else if hpm2_lan_params_rev caps \<noteq> HPM2_LAN_PARAMS_REV then -1
      else if hpm2_caps caps AND HPM2_CAPS_SOL_EXTENSION = 0 then 0
      else if data_len < 10 then -1
      else if hpm2_sol_params_start caps < 0xC0 then -1
      else if hpm2_sol_params_rev caps \<noteq> HPM2_SOL_PARAMS_REV then -1
      else 0)"

definition hpm2_get_capabilities :: "('e, 's) sendrecv \<Rightarrow> 's \<Rightarrow> 'e + (int \<times> hpm2_lan_attach_capabilities) \<times> 's" where
  "hpm2_get_capabilities sendrecv st =
     (let caps0 = attach_caps_of []
      in sum_bind (sendrecv (mk_rq 0x2C 0x3E [0, 2]) st) (\<lambda>(rsp, st'). Inr (
           case rsp of
             None \<Rightarrow> (-1, caps0)
           | Some r \<Rightarrow>
               if rsp_ccode r \<noteq> 0 then (uint (rsp_ccode r), caps0)
               else if rsp_data_len r < 2 \<or> rsp_data_len r > 10 then (-1, caps0)
               else if rsp_byte r 1 \<noteq> 2 then (uint (rsp_ccode r), caps0)
               else if rsp_data_len r < 4 then (-1, caps0)
               else let caps = attach_caps_of (rsp_bytes r 2 (nat (rsp_data_len r) - 2))
                    in (check_attach_caps (rsp_data_len r) caps, caps), st')))"

definition hpm2_get_lan_channel_capabilities ::
    "('e, 's) sendrecv \<Rightarrow> byte \<Rightarrow> 's \<Rightarrow> 'e + (int \<times> hpm2_lan_channel_capabilities) \<times> 's" where
  "hpm2_get_lan_channel_capabilities sendrecv params_start st =
     (let caps0 = channel_caps_of (replicate 7 0)
      in sum_bind (sendrecv (mk_rq 0x0C 0x02 [0xE, params_start, 0, 0]) st) (\<lambda>(rsp, st'). Inr (
           case rsp of
             None \<Rightarrow> (-1, caps0)
           | Some r \<Rightarrow>
               if rsp_ccode r \<noteq> 0 then (uint (rsp_ccode r), caps0)
               else if rsp_data_len r \<noteq> 7 + 1 then (-1, caps0)
               else if rsp_byte r 0 \<noteq> LAN_PARAM_REV HPM2_LAN_PARAMS_REV HPM2_LAN_PARAMS_REV then (-1, caps0)
               else (0, channel_caps_of (rsp_bytes r 1 7)), st')))"

type_synonym size_callback = "(ipmi_intf \<Rightarrow> u16 \<Rightarrow> ipmi_intf) option"

definition hpm2_detect_max_payload_size ::
    "('e, 's) sendrecv \<Rightarrow> ((ipmi_intf \<Rightarrow> ipmi_intf) \<Rightarrow> 's \<Rightarrow> 's) \<Rightarrow> size_callback \<Rightarrow> size_callback \<Rightarrow> 's \<Rightarrow> 'e + int \<times> 's" where
  "hpm2_detect_max_payload_size sendrecv mod_intf set_rq set_rp st =
     sum_bind (hpm2_get_capabilities sendrecv st) (\<lambda>((err, attach_caps), st1).
       if err \<noteq> 0 \<or> lan_channel_mask attach_caps = 0 then Inr (err, st1)
       else sum_bind (hpm2_get_lan_channel_capabilities sendrecv (hpm2_lan_params_start attach_caps) st1)
         (\<lambda>((err, channel_caps), st2).
            if err \<noteq> 0 then Inr (err, st2)
            else Inr (0,
              mod_intf (\<lambda>intf. ipmi_intf_set_max_response_data_size set_rp intf (max_outbound_pld_size channel_caps - 8))
                (mod_intf (\<lambda>intf. ipmi_intf_set_max_request_data_size set_rq intf (max_inbound_pld_size channel_caps - 7)) st2))))"

section \<open>Manufacturer\<close>

definition ipmi24toh :: "byte \<Rightarrow> byte \<Rightarrow> byte \<Rightarrow> u32" where
  "ipmi24toh a b c = ucast a OR push_bit 8 (ucast b) OR push_bit 16 (ucast c)"

text \<open>\<open>sel_iana\<close> is the manufacturer given on the command line, zero when there is none.\<close>

definition ipmi_get_oem :: "('e, 's) sendrecv \<Rightarrow> u32 \<Rightarrow> ipmi_intf \<Rightarrow> 's \<Rightarrow> 'e + u32 \<times> 's" where
  "ipmi_get_oem sendrecv sel_iana intf st =
     (if fd intf = 0 then Inr (if sel_iana \<noteq> 0 then sel_iana else 0, st)
      else if opened intf \<and> manufacturer_id intf \<noteq> 0 then Inr (manufacturer_id intf, st)
      else sum_bind (sendrecv (mk_rq 0x06 0x01 []) st) (\<lambda>(rsp, st'). Inr (
        case rsp of
          None \<Rightarrow> 0
        | Some r \<Rightarrow> if rsp_ccode r \<noteq> 0 then 0
                     else ipmi24toh (rsp_byte r 6) (rsp_byte r 7) (rsp_byte r 8), st')))"


section \<open>What the queries keep of the transport\<close>

context safe_transport
begin

lemma hpm2_get_capabilities_safe: "ok st \<Longrightarrow> safe_result ok bad (hpm2_get_capabilities sendrecv st)"
  unfolding hpm2_get_capabilities_def Let_def by (rule sendrecv_then) simp_all

lemma hpm2_get_lan_channel_capabilities_safe:
  "ok st \<Longrightarrow> safe_result ok bad (hpm2_get_lan_channel_capabilities sendrecv p st)"
  unfolding hpm2_get_lan_channel_capabilities_def Let_def by (rule sendrecv_then) simp_all

lemma ipmi_get_oem_safe: "ok st \<Longrightarrow> safe_result ok bad (ipmi_get_oem sendrecv iana intf st)"
  unfolding ipmi_get_oem_def by (auto intro!: sendrecv_then)

end

text \<open>A transport whose invariant survives a new limit on message sizes.\<close>

locale sized_transport = safe_transport sendrecv ok bad
  for sendrecv :: "('e, 's) sendrecv" and ok and bad +
  fixes mod_intf :: "(ipmi_intf \<Rightarrow> ipmi_intf) \<Rightarrow> 's \<Rightarrow> 's"
    and set_rq set_rp :: size_callback
  assumes set_rq_safe: "ok st \<Longrightarrow> ok (mod_intf (\<lambda>i. ipmi_intf_set_max_request_data_size set_rq i n) st)"
    and set_rp_safe: "ok st \<Longrightarrow> ok (mod_intf (\<lambda>i. ipmi_intf_set_max_response_data_size set_rp i n) st)"
begin

lemma hpm2_detect_safe:
  "ok st \<Longrightarrow> safe_result ok bad (hpm2_detect_max_payload_size sendrecv mod_intf set_rq set_rp st)"
  unfolding hpm2_detect_max_payload_size_def
  by (rule safe_result_bind [OF hpm2_get_capabilities_safe])
    (auto intro!: safe_result_bind [OF hpm2_get_lan_channel_capabilities_safe] set_rq_safe set_rp_safe)

end

section \<open>Accepted capabilities\<close>

text \<open>Capabilities are taken only from a complete response of a known revision.\<close>

lemma hpm2_get_capabilities_ok:
  assumes "sendrecv (mk_rq 0x2C 0x3E [0, 2]) st = Inr (rsp, st')"
    and "hpm2_get_capabilities sendrecv st = Inr ((0, caps), st'')" and "lan_channel_mask caps \<noteq> 0"
  shows "\<exists>r. rsp = Some r \<and> rsp_ccode r = 0 \<and> rsp_data_len r \<in> {8..10} \<and> rsp_byte r 1 = 2
    \<and> caps = attach_caps_of (rsp_bytes r 2 (nat (rsp_data_len r) - 2))
    \<and> hpm2_revision_id caps \<noteq> 0 \<and> hpm2_lan_params_start caps \<ge> 0xC0 \<and> hpm2_lan_params_rev caps = HPM2_LAN_PARAMS_REV"
proof (cases rsp)
  case None
  with assms show ?thesis by (simp add: hpm2_get_capabilities_def)
next
  case (Some r)
  have m0: "lan_channel_mask (attach_caps_of []) = 0" by (simp add: attach_caps_of_def of_le16_def)
  have "uint (rsp_ccode r) = 0 \<longleftrightarrow> rsp_ccode r = 0" by (simp add: uint_0_iff)
  with assms Some m0 show ?thesis
    by (auto simp: hpm2_get_capabilities_def check_attach_caps_def Let_def not_less split: if_splits)
qed

end
