(* ===== verification/Lan_Session.thy ===== *)
theory Lan_Session
  imports Lan Hpm2
begin

text \<open>
  Sessions of the IPMI 1.5 LAN transport, src/plugins/lan/lan.c: the commands that open and
  close a session, opening and closing the interface, and the entry points of the interface
  structure, as transitions of the state of \<open>Lan\<close>.

  The commands are sent with the request loop of \<open>Lan\<close>, which is \<open>ipmi_lan_send_cmd\<close> on an
  open interface: the code marks the interface as opened before it sends the first command
  of a session and as closed after the last one.
\<close>

section \<open>Commands of a session\<close>

abbreviation (input) SESSION_AUTHTYPE_PASSWORD :: byte where "SESSION_AUTHTYPE_PASSWORD \<equiv> 4"
abbreviation (input) SESSION_AUTHTYPE_OEM :: byte where "SESSION_AUTHTYPE_OEM \<equiv> 5"

definition wanted :: "ipmi_session_params \<Rightarrow> byte \<Rightarrow> bool" where
  "wanted p t \<longleftrightarrow> authtype_set p = 0 \<or> authtype_set p = t"

definition offered :: "byte \<Rightarrow> byte \<Rightarrow> bool" where
  "offered types t \<longleftrightarrow> types AND push_bit (unat t) 1 \<noteq> 0"

definition choose_authtype :: "ipmi_session_params \<Rightarrow> byte \<Rightarrow> byte option" where
  "choose_authtype p types =
     (if password p \<and> wanted p AUTHTYPE_MD5 \<and> offered types AUTHTYPE_MD5 then Some AUTHTYPE_MD5
      else if password p \<and> wanted p AUTHTYPE_MD2 \<and> offered types AUTHTYPE_MD2 then Some AUTHTYPE_MD2
      else if password p \<and> wanted p SESSION_AUTHTYPE_PASSWORD \<and> offered types SESSION_AUTHTYPE_PASSWORD then Some SESSION_AUTHTYPE_PASSWORD
      else if password p \<and> wanted p SESSION_AUTHTYPE_OEM \<and> offered types SESSION_AUTHTYPE_OEM then Some SESSION_AUTHTYPE_OEM
      else if wanted p 0 \<and> offered types 0 then Some 0
      else None)"

type_synonym md2_lib = "(byte list \<Rightarrow> byte list) option"

definition ipmi_get_auth_capabilities_cmd :: "md2_lib \<Rightarrow> lan_state \<Rightarrow> lan_error + int \<times> lan_state" where
  "ipmi_get_auth_capabilities_cmd md2 st =
     sum_bind (send_loop md2 (mk_rq 0x06 0x38 [0x0E, privlvl (ssn_params (l_intf st))]) 0 st) (\<lambda>(got, st1).
       let r = l_rsp st1
       in if \<not> got \<or> r_ccode r \<noteq> 0 then Inr (-1, st1)
          else let st2 = upd_session (\<lambda>s. s\<lparr>authstatus := r_data r ! 2\<rparr>) st1
               in case choose_authtype (ssn_params (l_intf st2)) (r_data r ! 1) of
                    None \<Rightarrow> Inr (-1, st2)
                  | Some t \<Rightarrow> Inr (0, upd_session (\<lambda>s. s\<lparr>authtype := t\<rparr>) st2))"

definition ipmi_get_session_challenge_cmd :: "md2_lib \<Rightarrow> lan_state \<Rightarrow> lan_error + int \<times> lan_state" where
  "ipmi_get_session_challenge_cmd md2 st =
     (case session (l_intf st) of
        None \<Rightarrow> Inl Null_session
      | Some s \<Rightarrow>
          sum_bind (send_loop md2 (mk_rq 0x06 0x39 (authtype s # take 16 (username (ssn_params (l_intf st))))) 0 st) (\<lambda>(got, st1).
            let r = l_rsp st1
            in if \<not> got \<or> r_ccode r \<noteq> 0 then Inr (-1, st1)
               else Inr (0, upd_session (\<lambda>s. s\<lparr>session_id := of_le32 (r_data r), challenge := take 16 (drop 4 (r_data r))\<rparr>) st1)))"

text \<open>
  The random bytes of the coming reads of \<open>/dev/urandom\<close>; when they have run out zeros
  stand for whatever the buffer held.
\<close>

definition get_random :: "nat \<Rightarrow> lan_state \<Rightarrow> byte list \<times> lan_state" where
  "get_random n st = (take n (l_random st @ replicate n 0), st\<lparr>l_random := drop n (l_random st)\<rparr>)"

text \<open>The session number and the first inbound sequence number the BMC assigns.\<close>

definition assigned_in_seq :: "byte list \<Rightarrow> u32" where
  "assigned_in_seq d = (let n = push_bit 24 (ucast (d ! 8)) OR push_bit 16 (ucast (d ! 7)) OR push_bit 8 (ucast (d ! 6)) OR ucast (d ! 5)
     in if n = 0 then n + 1 else n)"

abbreviation (input) AUTHSTATUS_PER_MSG_DISABLED :: byte where "AUTHSTATUS_PER_MSG_DISABLED \<equiv> 0x10"

definition session_activated :: "lan_state \<Rightarrow> lan_error + int \<times> lan_state" where
  "session_activated st =
     (let r = l_rsp st; d = r_data r;
          st1 = upd_session (\<lambda>s. s\<lparr>session_id := of_le32 (drop 1 d), in_seq := assigned_in_seq d\<rparr>) st
      in case session (l_intf st1) of
           None \<Rightarrow> Inl Null_session
         | Some s \<Rightarrow>
             if authstatus s AND AUTHSTATUS_PER_MSG_DISABLED \<noteq> 0 then Inr (0, upd_session (\<lambda>s. s\<lparr>authtype := 0\<rparr>) st1)
             else if authtype s \<noteq> d ! 0 AND 0xF then Inr (-1, st1)
             else Inr (0, st1))"

definition ipmi_activate_session_cmd :: "md2_lib \<Rightarrow> lan_state \<Rightarrow> lan_error + int \<times> lan_state" where
  "ipmi_activate_session_cmd md2 st =
     (case session (l_intf st) of
        None \<Rightarrow> Inl Null_session
      | Some s \<Rightarrow>
          (let (mid, st1) =
                 (if ipmi_oem_active st ''supermicro''
                  then (replicate 16 0, upd_session (\<lambda>s'. s'\<lparr>authcode := put_at 0 (ipmi_auth_special s) (authcode s')\<rparr>) st)
                  else (challenge s, st));
               (rnd, st2) = get_random 4 st1;
               req = mk_rq 0x06 0x3A ([authtype s, privlvl (ssn_params (l_intf st))] @ mid @ rnd);
               st3 = upd_session (\<lambda>s. s\<lparr>active := True\<rparr>) st2
           in sum_bind (send_loop md2 req 0 st3) (\<lambda>(got, st4).
                if \<not> got then Inr (-1, upd_session (\<lambda>s. s\<lparr>active := False\<rparr>) st4)
                else if r_ccode (l_rsp st4) \<noteq> 0 then Inr (-1, st4)
                else session_activated st4)))"

definition ipmi_set_session_privlvl_cmd :: "md2_lib \<Rightarrow> lan_state \<Rightarrow> lan_error + int \<times> lan_state" where
  "ipmi_set_session_privlvl_cmd md2 st =
     (let level = privlvl (ssn_params (l_intf st)); backup_bridge_possible = l_bridge_possible st
      in if level \<le> 2 then Inr (0, st)
         else sum_bind (send_loop md2 (mk_rq 0x06 0x3B [level]) 0 (st\<lparr>l_bridge_possible := False\<rparr>)) (\<lambda>(got, st1).
           let st2 = st1\<lparr>l_bridge_possible := backup_bridge_possible\<rparr>
           in if \<not> got \<or> r_ccode (l_rsp st2) \<noteq> 0 then Inr (-1, st2) else Inr (0, st2)))"

definition ipmi_close_session_cmd :: "md2_lib \<Rightarrow> lan_state \<Rightarrow> lan_error + int \<times> lan_state" where
  "ipmi_close_session_cmd md2 st =
     (case session (l_intf st) of
        None \<Rightarrow> Inl Null_session
      | Some s \<Rightarrow>
          if \<not> active s then Inr (-1, st)
          else sum_bind (send_loop md2 (mk_rq 0x06 0x3C (le32 (session_id s))) 0
                 (st\<lparr>l_intf := (l_intf st)\<lparr>target_addr := ucast IPMI_BMC_SLAVE_ADDR\<rparr>, l_bridge_possible := False\<rparr>)) (\<lambda>(got, st1).
                 if \<not> got \<or> r_ccode (l_rsp st1) \<noteq> 0 then Inr (-1, st1) else Inr (0, st1)))"

section \<open>Opening and closing\<close>

text \<open>
  The session is opened in five steps; a failure after the activation closes it again. The
  answer to the ping is ignored.
\<close>

definition ipmi_lan_activate_session :: "md2_lib \<Rightarrow> lan_state \<Rightarrow> lan_error + int \<times> lan_state" where
  "ipmi_lan_activate_session md2 st =
     sum_bind (if ipmi_oem_active st ''supermicro'' then Inr (0, st) else ipmi_lan_ping st) (\<lambda>(_, st0).
     let st1 = (if ipmi_oem_active st0 ''intelwv2'' then ipmi_lan_thump_first st0 else st0)
     in sum_bind (ipmi_get_auth_capabilities_cmd md2 st1) (\<lambda>(rc, st2).
     if rc < 0 then Inr (-1, st2)
     else sum_bind (ipmi_get_session_challenge_cmd md2 st2) (\<lambda>(rc, st3).
     if rc < 0 then Inr (-1, st3)
     else sum_bind (ipmi_activate_session_cmd md2 st3) (\<lambda>(rc, st4).
     if rc < 0 then Inr (-1, st4)
     else sum_bind (ipmi_set_session_privlvl_cmd md2 (st4\<lparr>l_intf := (l_intf st4)\<lparr>abort := False\<rparr>\<rparr>)) (\<lambda>(rc, st5).
     if rc < 0 then sum_bind (ipmi_close_session_cmd md2 st5) (\<lambda>(_, st6). Inr (-1, st6))
     else Inr (0, st5))))))"

definition ipmi_lan_close :: "md2_lib \<Rightarrow> lan_state \<Rightarrow> lan_error + lan_state" where
  "ipmi_lan_close md2 st =
     sum_bind (if \<not> abort (l_intf st) \<and> session (l_intf st) \<noteq> None then ipmi_close_session_cmd md2 st else Inr (0, st)) (\<lambda>(_, st1).
       let intf = l_intf st1;
           intf = (if fd intf \<ge> 0 then intf\<lparr>fd := -1\<rparr> else intf);
           intf = ipmi_intf_session_cleanup intf
       in Inr (st1\<lparr>l_intf := intf\<lparr>opened := False, manufacturer_id := 0\<rparr>, l_requests := []\<rparr>))"

definition ipmi_lan_setup :: "ipmi_intf \<Rightarrow> int \<times> ipmi_intf" where
  "ipmi_lan_setup intf = (0, intf\<lparr>max_request_data_size := 38, max_response_data_size := 34\<rparr>)"

definition ipmi_lan_set_max_rq_data_size :: "ipmi_intf \<Rightarrow> u16 \<Rightarrow> ipmi_intf" where
  "ipmi_lan_set_max_rq_data_size intf sz =
     intf\<lparr>max_request_data_size := (if unat sz + 7 > 0xFF then 0xFF - 7 else sz)\<rparr>"

definition ipmi_lan_set_max_rp_data_size :: "ipmi_intf \<Rightarrow> u16 \<Rightarrow> ipmi_intf" where
  "ipmi_lan_set_max_rp_data_size intf sz =
     intf\<lparr>max_response_data_size := (if unat sz + 8 > 0xFF then 0xFF - 8 else sz)\<rparr>"

text \<open>The defaults of parameters that were not set.\<close>

definition lan_defaults :: "ipmi_session_params \<Rightarrow> ipmi_session_params" where
  "lan_defaults p = p\<lparr>port := (if port p = 0 then 0x26F else port p), privlvl := (if privlvl p = 0 then 4 else privlvl p),
     timeout := (if timeout p = 0 then 2 else timeout p), retry := (if retry p = 0 then 4 else retry p)\<rparr>"

definition new_session :: "ipmi_session_params \<Rightarrow> ipmi_session" where
  "new_session p = \<lparr>active = False, session_id = 0, in_seq = 0, out_seq = 0, authcode = authcode_set p, challenge = replicate 16 0,
     authtype = 0, authstatus = 0, s_timeout = timeout p,
     sol = \<lparr>sol_sequence_number = 1, sol_last_received_sequence_number = 0, sol_last_received_byte_count = 0\<rparr>\<rparr>"

text \<open>How the transport's response is seen by the commands of lib/.\<close>

definition rsp_view :: "lan_rs \<Rightarrow> ipmi_rsp" where
  "rsp_view r = \<lparr>rsp_ccode = r_ccode r, rsp_data_len = r_data_len r, rsp_data = r_data r\<rparr>"

definition lan_sendrecv :: "md2_lib \<Rightarrow> (lan_error, lan_state) sendrecv" where
  "lan_sendrecv md2 req st =
     sum_bind (send_loop md2 req 0 st) (\<lambda>(got, st'). Inr (if got then Some (rsp_view (l_rsp st')) else None, st'))"

definition mod_lan_intf :: "(ipmi_intf \<Rightarrow> ipmi_intf) \<Rightarrow> lan_state \<Rightarrow> lan_state" where
  "mod_lan_intf f st = st\<lparr>l_intf := f (l_intf st)\<rparr>"

text \<open>
  What the system answers: the return code of \<open>ipmi_intf_socket_connect\<close> (-1 or 0) and the
  descriptor after it, from the descriptor before it, and whether the local address of the
  socket is known.
\<close>

record lan_os =
  os_connect :: "ipmi_session_params \<Rightarrow> int \<Rightarrow> int \<times> int"
  os_getsockname :: bool
  os_sel_iana :: u32

definition lan_open_fail :: "md2_lib \<Rightarrow> lan_state \<Rightarrow> lan_error + int \<times> lan_state" where
  "lan_open_fail md2 st = sum_bind (ipmi_lan_close md2 st) (\<lambda>st'. Inr (-1, st'))"

text \<open>From the session structure on: first what follows the activation.\<close>

definition lan_open_detect :: "md2_lib \<Rightarrow> lan_os \<Rightarrow> lan_state \<Rightarrow> lan_error + int \<times> lan_state" where
  "lan_open_detect md2 os st =
     sum_bind (hpm2_detect_max_payload_size (lan_sendrecv md2) mod_lan_intf
         (Some ipmi_lan_set_max_rq_data_size) (Some ipmi_lan_set_max_rp_data_size) st) (\<lambda>(_, st1).
       sum_bind (ipmi_get_oem (lan_sendrecv md2) (os_sel_iana os) (l_intf st1) st1) (\<lambda>(oem, st2).
         let st3 = (mod_lan_intf (\<lambda>i. i\<lparr>manufacturer_id := oem\<rparr>) st2)\<lparr>l_bridge_possible := True\<rparr>
         in Inr (fd (l_intf st3), st3)))"

definition lan_open_session :: "md2_lib \<Rightarrow> lan_os \<Rightarrow> lan_state \<Rightarrow> lan_error + int \<times> lan_state" where
  "lan_open_session md2 os st =
     (let st1 = mod_lan_intf (\<lambda>i. i\<lparr>opened := True, abort := True, session := Some (new_session (ssn_params i))\<rparr>) st
      in if \<not> os_getsockname os then lan_open_fail md2 st1
         else sum_bind (ipmi_lan_activate_session md2 st1) (\<lambda>(rc, st2).
           if rc < 0 then lan_open_fail md2 st2 else lan_open_detect md2 os st2))"

definition ipmi_lan_open :: "md2_lib \<Rightarrow> lan_os \<Rightarrow> lan_state \<Rightarrow> lan_error + int \<times> lan_state" where
  "ipmi_lan_open md2 os st =
     (if opened (l_intf st) then Inr (-1, st)
      else
        (let st1 = mod_lan_intf (\<lambda>i. i\<lparr>ssn_params := lan_defaults (ssn_params i)\<rparr>) st; p = ssn_params (l_intf st1)
         in if (case hostname p of None \<Rightarrow> True | Some h \<Rightarrow> length h = 0) then Inr (-1, st1)
            else
              (let (rc, d) = os_connect os p (fd (l_intf st1)); st2 = mod_lan_intf (\<lambda>i. i\<lparr>fd := d\<rparr>) st1
               in if rc = -1 then Inr (-1, st2) else lan_open_session md2 os st2)))"

definition ipmi_lan_send_cmd :: "md2_lib \<Rightarrow> lan_os \<Rightarrow> ipmi_rq \<Rightarrow> lan_state \<Rightarrow> lan_error + bool \<times> lan_state" where
  "ipmi_lan_send_cmd md2 os req st =
     (if opened (l_intf st) then send_loop md2 req 0 st
      else sum_bind (ipmi_lan_open md2 os st) (\<lambda>(rc, st').
        if rc < 0 then Inr (False, st') else send_loop md2 req 0 st'))"

definition ipmi_lan_keepalive :: "md2_lib \<Rightarrow> lan_state \<Rightarrow> lan_error + int \<times> lan_state" where
  "ipmi_lan_keepalive md2 st =
     (if \<not> opened (l_intf st) then Inr (0, st)
      else sum_bind (send_loop md2 (mk_rq 0x06 1 []) 0 st) (\<lambda>(got, st').
        Inr (if \<not> got \<or> r_ccode (l_rsp st') \<noteq> 0 then -1 else 0, st')))"


section \<open>What a request changes\<close>

text \<open>Of the interface a request changes only the inbound sequence number of the session.\<close>

definition lan_sent :: "lan_state \<Rightarrow> lan_state \<Rightarrow> bool" where
  "lan_sent st st' \<longleftrightarrow>
     (\<exists>f. l_intf st' = (l_intf st)\<lparr>session := map_option (\<lambda>s. s\<lparr>in_seq := f (in_seq s)\<rparr>) (session (l_intf st))\<rparr> \<and> (\<forall>n. f n = 0 \<longleftrightarrow> n = 0))
     \<and> l_bridge_possible st' = l_bridge_possible st \<and> l_oem st' = l_oem st"

lemma next_in_seq_zero: "next_in_seq n = 0 \<longleftrightarrow> n = 0"
  by (auto simp: next_in_seq_def Let_def)

lemma lan_sent_eq:
  "l_intf st' = l_intf st \<Longrightarrow> l_bridge_possible st' = l_bridge_possible st \<Longrightarrow> l_oem st' = l_oem st \<Longrightarrow> lan_sent st st'"
  unfolding lan_sent_def by (auto intro!: exI [of _ id] simp: option.map_ident)

lemma lan_sent_trans:
  assumes "lan_sent a b" and "lan_sent b c"
  shows "lan_sent a c"
proof -
  from assms obtain f g where
    f: "l_intf b = (l_intf a)\<lparr>session := map_option (\<lambda>s. s\<lparr>in_seq := f (in_seq s)\<rparr>) (session (l_intf a))\<rparr>" "\<forall>n. f n = 0 \<longleftrightarrow> n = 0"
    and g: "l_intf c = (l_intf b)\<lparr>session := map_option (\<lambda>s. s\<lparr>in_seq := g (in_seq s)\<rparr>) (session (l_intf b))\<rparr>" "\<forall>n. g n = 0 \<longleftrightarrow> n = 0"
    unfolding lan_sent_def by blast
  have "l_intf c = (l_intf a)\<lparr>session := map_option (\<lambda>s. s\<lparr>in_seq := (g \<circ> f) (in_seq s)\<rparr>) (session (l_intf a))\<rparr>"
    using f(1) g(1) by (simp add: option.map_comp comp_def)
  moreover have "\<forall>n. (g \<circ> f) n = 0 \<longleftrightarrow> n = 0" using f(2) g(2) by simp
  ultimately show ?thesis using assms unfolding lan_sent_def by auto
qed

lemma lan_frame_sent: "lan_frame st st' \<Longrightarrow> lan_sent st st'"
  by (intro lan_sent_eq) (simp_all add: lan_frame_fields)

lemma send_packet_sent: "ipmi_lan_send_packet d st = (b, st') \<Longrightarrow> lan_sent st st'"
  by (intro lan_sent_eq) (auto dest: send_packet_frame)

lemma build_cmd_sent:
  assumes "ipmi_lan_build_cmd md2 req rt st = Inr (i, st')"
  shows "lan_sent st st'"
proof -
  from assms obtain s where s: "session (l_intf st) = Some s"
    by (auto simp: ipmi_lan_build_cmd_def Let_def split: prod.splits option.splits)
  from build_cmd_result [OF this, of md2 req rt] assms
  have "l_intf st' = (l_intf st)\<lparr>session := Some (s\<lparr>in_seq := next_in_seq (in_seq s)\<rparr>)\<rparr>" by auto
  with s build_cmd_frame [OF assms] show ?thesis
    unfolding lan_sent_def by (auto intro!: exI [of _ next_in_seq] simp: next_in_seq_zero)
qed

lemma thump_sent: "lan_sent st (ipmi_lan_thump st)" "lan_sent st (ipmi_lan_thump_first st)"
  unfolding ipmi_lan_thump_def ipmi_lan_thump_first_def by (metis prod.collapse send_packet_sent)+

lemma send_turn_sent_frame:
  "case send_turn md2 req n st of Answer b st' \<Rightarrow> lan_sent st st' | Retry n' st' \<Rightarrow> lan_sent st st' | Failed e \<Rightarrow> True"
proof (cases "ipmi_lan_build_cmd md2 req (n > 0) st")
  case (Inl e)
  then show ?thesis by (simp add: send_turn_def)
next
  case (Inr r)
  then obtain i st1 where b: "ipmi_lan_build_cmd md2 req (n > 0) st = Inr (i, st1)" by (cases r) auto
  let ?e = "l_requests st1 ! i"
  obtain ok st2 where s: "ipmi_lan_send_packet (the (e_msg_data ?e)) st1 = (ok, st2)" by fastforce
  let ?st = "if ipmi_oem_active st2 ''intelwv2'' then ipmi_lan_thump st2 else st2"
  have st2: "lan_sent st st2" by (rule lan_sent_trans [OF build_cmd_sent [OF b] send_packet_sent [OF s]])
  have st: "lan_sent st ?st" using st2 by (simp add: lan_sent_trans [OF _ thump_sent(1)])
  have d: "lan_sent st (drop_request q c st2)" for q c by (rule lan_sent_trans [OF st2 lan_frame_sent]) simp
  have a: "lan_sent st st3" if "lan_await ?st = Inr (got, st3)" for got st3
    by (rule lan_sent_trans [OF st lan_frame_sent [OF lan_await_frame [OF that]]])
  show ?thesis
    using b s st2 d a by (auto simp: send_turn_def Let_def split: bool.split sum.split prod.split)
qed

lemma send_loop_sent: "send_loop md2 req n st = Inr (b, st') \<Longrightarrow> lan_sent st st'"
proof (induction md2 req n st rule: send_loop.induct)
  case (1 md2 req n st)
  note turn = send_turn_sent_frame [of st md2 req n]
  show ?case
  proof (cases "send_turn md2 req n st")
    case (Answer b' st1)
    with turn have "lan_sent st st1" by simp
    moreover have "lan_sent st1 (st1\<lparr>l_requests := []\<rparr>)" by (rule lan_sent_eq) simp_all
    ultimately show ?thesis using 1(2) Answer by (auto simp: send_loop.simps [of md2 req n st] intro: lan_sent_trans)
  next
    case (Retry n' st1)
    with 1 turn show ?thesis by (auto simp: send_loop.simps [of md2 req n st] intro: lan_sent_trans)
  next
    case (Failed e)
    with 1(2) show ?thesis by (simp add: send_loop.simps [of md2 req n st])
  qed
qed

text \<open>Without a session nothing can be sent; with one this error does not occur.\<close>

lemma poll_turn_Null: "poll_turn st = Broken Null_session \<Longrightarrow> session (l_intf st) = None"
  by (auto simp: poll_turn_def poll_bridged_def next_packet_def Let_def split: if_splits option.splits prod.splits bool.splits)

lemma poll_loop_Null: "poll_loop st = Inl Null_session \<Longrightarrow> session (l_intf st) = None"
proof (induction st rule: poll_loop.induct)
  case (1 st)
  show ?case
  proof (cases "poll_turn st")
    case (Again st1)
    with 1 have "session (l_intf st1) = None" by (simp add: poll_loop.simps [of st])
    moreover have "lan_frame st st1" using poll_turn_frame [of st] Again by (simp add: result_frame_def)
    ultimately show ?thesis by (simp add: lan_frame_fields)
  qed (use 1(2) in \<open>auto simp: poll_loop.simps [of st] Let_def split: option.splits dest: poll_turn_Null\<close>)
qed

lemma poll_recv_Null: "ipmi_lan_poll_recv st = Inl Null_session \<Longrightarrow> session (l_intf st) = None"
  by (auto simp: ipmi_lan_poll_recv_def split: prod.splits bool.splits dest!: poll_loop_Null recv_packet_lan_frame simp: lan_frame_fields)

lemma lan_await_Null: "lan_await st = Inl Null_session \<Longrightarrow> session (l_intf st) = None"
  by (auto simp: lan_await_def split: sum.splits if_splits dest!: poll_recv_Null poll_recv_frame simp: lan_frame_fields)

lemma lan_sent_session: "lan_sent st st' \<Longrightarrow> session (l_intf st') = None \<longleftrightarrow> session (l_intf st) = None"
  by (auto simp: lan_sent_def)

lemma send_turn_Null: "send_turn md2 req n st = Failed Null_session \<Longrightarrow> session (l_intf st) = None"
proof -
  assume a: "send_turn md2 req n st = Failed Null_session"
  show ?thesis
  proof (cases "ipmi_lan_build_cmd md2 req (n > 0) st")
    case (Inl e)
    then show ?thesis using build_cmd_result [of st _ md2 req "n > 0"] by (cases "session (l_intf st)") auto
  next
    case (Inr r)
    then obtain i st1 where b: "ipmi_lan_build_cmd md2 req (n > 0) st = Inr (i, st1)" by (cases r) auto
    obtain ok st2 where s: "ipmi_lan_send_packet (the (e_msg_data (l_requests st1 ! i))) st1 = (ok, st2)" by fastforce
    let ?st = "if ipmi_oem_active st2 ''intelwv2'' then ipmi_lan_thump st2 else st2"
    have "lan_sent st st2" by (rule lan_sent_trans [OF build_cmd_sent [OF b] send_packet_sent [OF s]])
    then have st: "lan_sent st ?st" by (simp add: lan_sent_trans [OF _ thump_sent(1)])
    from a b s have "lan_await ?st = Inl Null_session"
      by (auto simp: send_turn_def Let_def split: bool.splits if_splits sum.splits prod.splits)
    from lan_await_Null [OF this] show ?thesis using lan_sent_session [OF st] by simp
  qed
qed

lemma send_loop_Null: "send_loop md2 req n st = Inl Null_session \<Longrightarrow> session (l_intf st) = None"
proof (induction md2 req n st rule: send_loop.induct)
  case (1 md2 req n st)
  show ?case
  proof (cases "send_turn md2 req n st")
    case (Retry n' st1)
    with 1 have "session (l_intf st1) = None" by (simp add: send_loop.simps [of md2 req n st])
    moreover have "lan_sent st st1" using send_turn_sent_frame [of st md2 req n] Retry by simp
    ultimately show ?thesis by (simp add: lan_sent_session)
  qed (use 1(2) in \<open>auto simp: send_loop.simps [of md2 req n st] dest: send_turn_Null\<close>)
qed


section \<open>What the commands of a session keep\<close>

text \<open>The parts of the interface that no command of a session changes.\<close>

definition same_link :: "lan_state \<Rightarrow> lan_state \<Rightarrow> bool" where
  "same_link st st' \<longleftrightarrow> (let i = l_intf st; i' = l_intf st' in
     opened i' = opened i \<and> fd i' = fd i \<and> ssn_params i' = ssn_params i \<and> max_request_data_size i' = max_request_data_size i
     \<and> max_response_data_size i' = max_response_data_size i \<and> (session i' = None \<longleftrightarrow> session i = None))"

definition is_null :: "lan_error \<Rightarrow> bool" where
  "is_null e \<longleftrightarrow> e = Null_session"

definition linked :: "lan_state \<Rightarrow> lan_error + 'a \<times> lan_state \<Rightarrow> bool" where
  "linked st r \<longleftrightarrow> safe_result (same_link st) (\<lambda>e. is_null e \<and> session (l_intf st) \<noteq> None) r"

lemma same_link_refl [simp]: "same_link st st"
  by (simp add: same_link_def)

lemma same_link_trans: "same_link a b \<Longrightarrow> same_link b c \<Longrightarrow> same_link a c"
  by (simp add: same_link_def Let_def)

lemma same_link_session: "same_link st st' \<Longrightarrow> session (l_intf st') = None \<longleftrightarrow> session (l_intf st) = None"
  by (simp add: same_link_def Let_def)

lemma same_link_upd [simp]:
  "same_link st (upd_session f st)" "same_link st (st\<lparr>l_bridge_possible := b\<rparr>)" "same_link st (st\<lparr>l_random := r\<rparr>)"
  "same_link st (st\<lparr>l_intf := (l_intf st)\<lparr>abort := a\<rparr>\<rparr>)"
  "same_link st (st\<lparr>l_intf := (l_intf st)\<lparr>target_addr := t\<rparr>, l_bridge_possible := b\<rparr>)"
  by (simp_all add: same_link_def upd_session_def)

lemma lan_sent_link: "lan_sent st st' \<Longrightarrow> same_link st st'"
  by (auto simp: lan_sent_def same_link_def Let_def)

lemma linked_simps [simp]:
  "linked st (Inr (x, st')) \<longleftrightarrow> same_link st st'" "linked st (Inl e) \<longleftrightarrow> (e = Null_session \<longrightarrow> session (l_intf st) = None)"
  by (auto simp: linked_def is_null_def)

lemma linked_bind:
  assumes "linked st m" and "\<And>x st'. m = Inr (x, st') \<Longrightarrow> same_link st st' \<Longrightarrow> linked st' (f (x, st'))"
  shows "linked st (sum_bind m f)"
proof (cases m)
  case (Inr r)
  obtain x st' where r: "r = (x, st')" by fastforce
  with Inr assms have l: "same_link st st'" "linked st' (f (x, st'))" by auto
  show ?thesis
  proof (cases "f (x, st')")
    case (Inl e)
    with l Inr r show ?thesis by (auto simp: same_link_session)
  next
    case (Inr q)
    with l \<open>m = Inr r\<close> r show ?thesis by (cases q) (auto intro: same_link_trans)
  qed
qed (use assms in simp)

lemma linked_trans: "same_link st st' \<Longrightarrow> linked st' r \<Longrightarrow> linked st r"
  by (cases r) (auto simp: same_link_session intro: same_link_trans)

lemma send_loop_linked: "linked st (send_loop md2 req n st)"
proof (cases "send_loop md2 req n st")
  case (Inr r)
  then show ?thesis by (cases r) (auto intro: lan_sent_link send_loop_sent)
qed (auto dest: send_loop_Null)

lemma send_loop_linked': "same_link st0 st \<Longrightarrow> linked st0 (send_loop md2 req n st)"
  by (rule linked_trans [OF _ send_loop_linked])

lemma auth_capabilities_linked: "linked st (ipmi_get_auth_capabilities_cmd md2 st)"
  unfolding ipmi_get_auth_capabilities_cmd_def
  by (rule linked_bind [OF send_loop_linked]) (auto simp: Let_def split: option.split intro: same_link_trans [OF same_link_upd(1) same_link_upd(1)])

lemma challenge_linked: "linked st (ipmi_get_session_challenge_cmd md2 st)"
  unfolding ipmi_get_session_challenge_cmd_def
  by (cases "session (l_intf st)") (auto simp: Let_def intro!: linked_bind [OF send_loop_linked])

lemma session_activated_linked: "linked st (session_activated st)"
  unfolding session_activated_def
  by (auto simp: Let_def upd_session_def same_link_def split: option.split)

lemma activate_linked: "linked st (ipmi_activate_session_cmd md2 st)"
proof (cases "session (l_intf st)")
  case (Some s)
  show ?thesis
    unfolding ipmi_activate_session_cmd_def get_random_def using Some
    by (auto simp: Let_def intro!: linked_bind [OF send_loop_linked'] session_activated_linked
        same_link_trans [OF same_link_upd(1) same_link_trans [OF same_link_upd(3) same_link_upd(1)]]
        same_link_trans [OF same_link_upd(3) same_link_upd(1)])
qed (simp add: ipmi_activate_session_cmd_def)

lemma privlvl_linked: "linked st (ipmi_set_session_privlvl_cmd md2 st)"
  unfolding ipmi_set_session_privlvl_cmd_def
  by (auto simp: Let_def intro!: linked_bind [OF send_loop_linked'])

lemma close_session_linked: "linked st (ipmi_close_session_cmd md2 st)"
  unfolding ipmi_close_session_cmd_def
  by (auto intro!: linked_bind [OF send_loop_linked'] split: option.split)

lemma ping_linked: "linked st (ipmi_lan_ping st)"
proof -
  obtain ok st1 where s: "ipmi_lan_send_packet (rmcp_hdr RMCP_CLASS_ASF @ [0x00, 0x00, 0x11, 0xBE, 0x80, 0, 0, 0]) st = (ok, st1)"
    by fastforce
  then have st1: "same_link st st1" by (intro lan_sent_link send_packet_sent)
  have "linked st1 (ipmi_lan_poll_recv st1)"
  proof (cases "ipmi_lan_poll_recv st1")
    case (Inr r)
    then show ?thesis by (cases r) (auto intro: lan_sent_link lan_frame_sent poll_recv_frame)
  qed (auto dest: poll_recv_Null)
  with st1 have "linked st (ipmi_lan_poll_recv st1)" by (rule linked_trans)
  then show ?thesis using s st1 by (cases "ipmi_lan_poll_recv st1"; cases ok) (auto simp: ipmi_lan_ping_def)
qed

lemma lan_sent_refl: "lan_sent st st"
  by (rule lan_sent_eq) simp_all

lemma activate_session_linked: "linked st (ipmi_lan_activate_session md2 st)"
  unfolding ipmi_lan_activate_session_def Let_def
  by (auto intro!: linked_bind linked_trans [OF _ auth_capabilities_linked] ping_linked challenge_linked activate_linked
      linked_trans [OF same_link_upd(4) privlvl_linked] close_session_linked lan_sent_link thump_sent lan_sent_refl split: if_split)

section \<open>Opening and closing\<close>

definition closed_link :: "lan_state \<Rightarrow> bool" where
  "closed_link st \<longleftrightarrow> \<not> opened (l_intf st) \<and> session (l_intf st) = None"

definition good_session :: "lan_state \<Rightarrow> bool" where
  "good_session st \<longleftrightarrow> (case session (l_intf st) of None \<Rightarrow> False
     | Some s \<Rightarrow> active s \<and> in_seq s \<noteq> 0 \<and> (authstatus s AND AUTHSTATUS_PER_MSG_DISABLED \<noteq> 0 \<longrightarrow> authtype s = 0))"

definition session_up :: "lan_state \<Rightarrow> bool" where
  "session_up st \<longleftrightarrow> opened (l_intf st) \<and> \<not> abort (l_intf st) \<and> 0 \<le> fd (l_intf st) \<and> good_session st"

definition sizes_ok :: "ipmi_intf \<Rightarrow> bool" where
  "sizes_ok i \<longleftrightarrow> unat (max_request_data_size i) + 7 \<le> 255 \<and> unat (max_response_data_size i) + 8 \<le> 255"

lemma lan_close_closed:
  assumes "ipmi_lan_close md2 st = Inr st'"
  shows "closed_link st' \<and> fd (l_intf st') < 0 \<and> l_requests st' = [] \<and> (sizes_ok (l_intf st) \<longrightarrow> sizes_ok (l_intf st'))"
proof -
  let ?m = "if \<not> abort (l_intf st) \<and> session (l_intf st) \<noteq> None then ipmi_close_session_cmd md2 st else Inr (0, st)"
  from assms obtain rc st1 where "?m = Inr (rc, st1)"
    and st': "st' = st1\<lparr>l_intf := (ipmi_intf_session_cleanup (if fd (l_intf st1) \<ge> 0 then (l_intf st1)\<lparr>fd := -1\<rparr> else l_intf st1))
       \<lparr>opened := False, manufacturer_id := 0\<rparr>, l_requests := []\<rparr>"
    unfolding ipmi_lan_close_def by (auto simp: sum_bind_Inr Let_def)
  then have "linked st (Inr (rc, st1))" using close_session_linked [of st md2] by (metis linked_simps(1) same_link_refl)
  then have "sizes_ok (l_intf st) = sizes_ok (l_intf st1)" by (simp add: same_link_def Let_def sizes_ok_def)
  then show ?thesis using st' by (auto simp: closed_link_def ipmi_intf_session_cleanup_def sizes_ok_def)
qed

lemma lan_close_Null: "ipmi_lan_close md2 st \<noteq> Inl Null_session"
proof -
  have "ipmi_close_session_cmd md2 st \<noteq> Inl Null_session" if "session (l_intf st) \<noteq> None"
    using close_session_linked [of st md2] that by (metis linked_simps(2))
  then show ?thesis by (auto simp: ipmi_lan_close_def sum_bind_def Let_def split: sum.splits prod.splits)
qed


lemma lan_sent_good: "lan_sent st st' \<Longrightarrow> good_session st \<Longrightarrow> good_session st' \<and> abort (l_intf st') = abort (l_intf st)"
proof -
  assume a: "lan_sent st st'" and g: "good_session st"
  from a obtain f where f: "l_intf st' = (l_intf st)\<lparr>session := map_option (\<lambda>s. s\<lparr>in_seq := f (in_seq s)\<rparr>) (session (l_intf st))\<rparr>"
    "\<And>n. f n = 0 \<longleftrightarrow> n = 0" unfolding lan_sent_def by blast
  from g obtain s where "session (l_intf st) = Some s" by (auto simp: good_session_def split: option.splits)
  with f g show ?thesis by (simp add: good_session_def)
qed

lemma good_session_upd [simp]:
  "good_session (st\<lparr>l_bridge_possible := b\<rparr>) = good_session st" "good_session (st\<lparr>l_intf := (l_intf st)\<lparr>abort := a\<rparr>\<rparr>) = good_session st"
  by (simp_all add: good_session_def)

lemma lan_sent_active: "lan_sent st st' \<Longrightarrow> session (l_intf st) = Some s \<Longrightarrow> active s \<Longrightarrow> \<exists>s'. session (l_intf st') = Some s' \<and> active s'"
  by (auto simp: lan_sent_def)

lemma session_activated_ok:
  assumes "session_activated st = Inr (rc, st')" and "\<not> rc < 0" and "session (l_intf st) = Some s" and "active s"
  shows "good_session st'"
proof -
  have nz: "assigned_in_seq d \<noteq> 0" for d by (auto simp: assigned_in_seq_def Let_def)
  from assms show ?thesis
    by (auto simp: session_activated_def Let_def upd_session_def good_session_def nz split: if_splits)
qed

lemma activate_cmd_ok:
  assumes "ipmi_activate_session_cmd md2 st = Inr (rc, st')" and "\<not> rc < 0"
  shows "good_session st'"
proof -
  from assms(1) obtain s where s: "session (l_intf st) = Some s" by (auto simp: ipmi_activate_session_cmd_def split: option.splits)
  obtain mid st1 where pre: "(if ipmi_oem_active st ''supermicro''
      then (replicate 16 0, upd_session (\<lambda>s'. s'\<lparr>authcode := put_at 0 (ipmi_auth_special s) (authcode s')\<rparr>) st)
      else (challenge s, st)) = (mid, st1)" by fastforce
  with s obtain s1 where s1: "session (l_intf st1) = Some s1" by (auto simp: upd_session_def split: if_splits)
  let ?st3 = "upd_session (\<lambda>s. s\<lparr>active := True\<rparr>) (snd (get_random 4 st1))"
  from assms pre s obtain req st4 where
    send: "send_loop md2 req 0 ?st3 = Inr (True, st4)" and act: "session_activated st4 = Inr (rc, st')"
    by (auto simp: ipmi_activate_session_cmd_def sum_bind_Inr get_random_def Let_def split: if_splits prod.splits)
  have "session (l_intf ?st3) = Some (s1\<lparr>active := True\<rparr>)" using s1 by (simp add: upd_session_def get_random_def)
  from lan_sent_active [OF send_loop_sent [OF send] this] session_activated_ok [OF act assms(2)] show ?thesis by auto
qed

lemma privlvl_ok:
  assumes "ipmi_set_session_privlvl_cmd md2 st = Inr (rc, st')" and "good_session st"
  shows "good_session st' \<and> abort (l_intf st') = abort (l_intf st)"
proof (cases "privlvl (ssn_params (l_intf st)) \<le> 2")
  case True
  with assms show ?thesis by (simp add: ipmi_set_session_privlvl_cmd_def)
next
  case False
  with assms(1) obtain req b st1 where s: "send_loop md2 req 0 (st\<lparr>l_bridge_possible := False\<rparr>) = Inr (b, st1)"
    and st': "st' = st1\<lparr>l_bridge_possible := l_bridge_possible st\<rparr>"
    by (auto simp: ipmi_set_session_privlvl_cmd_def sum_bind_Inr Let_def split: if_splits)
  from lan_sent_good [OF send_loop_sent [OF s]] assms(2) st' show ?thesis by simp
qed

lemma activate_session_ok:
  assumes "ipmi_lan_activate_session md2 st = Inr (rc, st')" and "\<not> rc < 0"
  shows "good_session st' \<and> \<not> abort (l_intf st')"
proof -
  from assms obtain st3 st4 rc4 rc5 where a: "ipmi_activate_session_cmd md2 st3 = Inr (rc4, st4)" "\<not> rc4 < 0"
    and p: "ipmi_set_session_privlvl_cmd md2 (st4\<lparr>l_intf := (l_intf st4)\<lparr>abort := False\<rparr>\<rparr>) = Inr (rc5, st')"
    by (auto simp: ipmi_lan_activate_session_def sum_bind_Inr Let_def split: if_splits)
  from activate_cmd_ok [OF a] privlvl_ok [OF p] show ?thesis by simp
qed

lemma send_loop_up: "session_up st \<and> sizes_ok (l_intf st) \<Longrightarrow> send_loop md2 req n st = Inr (b, st') \<Longrightarrow> session_up st' \<and> sizes_ok (l_intf st')"
  using lan_sent_good [OF send_loop_sent, of md2 req n st b st'] lan_sent_link [OF send_loop_sent, of md2 req n st b st']
  by (auto simp: session_up_def same_link_def sizes_ok_def Let_def)

definition up_and_sized :: "lan_state \<Rightarrow> bool" where
  "up_and_sized st \<longleftrightarrow> session_up st \<and> sizes_ok (l_intf st)"

lemma send_loop_safe: "up_and_sized st \<Longrightarrow> safe_result up_and_sized is_null (send_loop md2 req n st)"
  using send_loop_Null [of md2 req n st] send_loop_up [of st md2 req n]
  by (cases "send_loop md2 req n st") (auto simp: is_null_def up_and_sized_def session_up_def good_session_def safe_result_def split: prod.split)

lemma set_size_ok:
  "sizes_ok i \<Longrightarrow> sizes_ok (ipmi_intf_set_max_request_data_size (Some ipmi_lan_set_max_rq_data_size) i n)"
  "sizes_ok i \<Longrightarrow> sizes_ok (ipmi_intf_set_max_response_data_size (Some ipmi_lan_set_max_rp_data_size) i n)"
  by (simp_all add: sizes_ok_def ipmi_intf_set_max_request_data_size_def ipmi_intf_set_max_response_data_size_def
      ipmi_lan_set_max_rq_data_size_def ipmi_lan_set_max_rp_data_size_def)

interpretation lan_transport: sized_transport "lan_sendrecv md2" up_and_sized is_null mod_lan_intf
  "Some ipmi_lan_set_max_rq_data_size" "Some ipmi_lan_set_max_rp_data_size"
proof (unfold_locales, goal_cases)
  case (1 st req)
  show ?case
    unfolding lan_sendrecv_def
    by (rule safe_result_bind [OF send_loop_safe [OF 1]]) auto
next
  case (2 st n)
  with set_size_ok(1) [of "l_intf st" n] show ?case
    by (auto simp: up_and_sized_def mod_lan_intf_def session_up_def good_session_def
        ipmi_intf_set_max_request_data_size_def ipmi_lan_set_max_rq_data_size_def)
next
  case (3 st n)
  with set_size_ok(2) [of "l_intf st" n] show ?case
    by (auto simp: up_and_sized_def mod_lan_intf_def session_up_def good_session_def
        ipmi_intf_set_max_response_data_size_def ipmi_lan_set_max_rp_data_size_def)
qed

text \<open>The result of opening: a session that is up, or a closed interface.\<close>

definition lan_opened :: "lan_error + int \<times> lan_state \<Rightarrow> bool" where
  "lan_opened r \<longleftrightarrow> (case r of
       Inl e \<Rightarrow> e \<noteq> Null_session
     | Inr (rc, st) \<Rightarrow> if rc < 0 then closed_link st \<and> sizes_ok (l_intf st) \<and> fd (l_intf st) < 0 \<and> l_requests st = []
                        else up_and_sized st \<and> l_bridge_possible st \<and> rc = fd (l_intf st))"

lemma lan_open_fail_result: "sizes_ok (l_intf st) \<Longrightarrow> lan_opened (lan_open_fail md2 st)"
  using lan_close_closed [of md2 st] lan_close_Null [of md2 st]
  by (cases "ipmi_lan_close md2 st") (auto simp: lan_open_fail_def lan_opened_def)

lemma lan_opened_bind:
  assumes "safe_result ok is_null m" and "\<And>x st. m = Inr (x, st) \<Longrightarrow> ok st \<Longrightarrow> lan_opened (f (x, st))"
  shows "lan_opened (sum_bind m f)"
proof (cases m)
  case (Inl e)
  with assms(1) show ?thesis by (simp add: lan_opened_def is_null_def)
next
  case (Inr r)
  with assms show ?thesis by (cases r) simp
qed

lemma lan_open_detect_result:
  assumes "up_and_sized st"
  shows "lan_opened (lan_open_detect md2 os st)"
proof -
  have fin: "lan_opened (let st3 = (mod_lan_intf (\<lambda>i. i\<lparr>manufacturer_id := oem\<rparr>) st2)\<lparr>l_bridge_possible := True\<rparr>
      in Inr (fd (l_intf st3), st3))" if "up_and_sized st2" for oem st2
    using that by (simp add: lan_opened_def up_and_sized_def session_up_def good_session_def mod_lan_intf_def sizes_ok_def)
  have oem: "lan_opened (sum_bind (ipmi_get_oem (lan_sendrecv md2) (os_sel_iana os) (l_intf st1) st1) (\<lambda>(oem, st2).
      let st3 = (mod_lan_intf (\<lambda>i. i\<lparr>manufacturer_id := oem\<rparr>) st2)\<lparr>l_bridge_possible := True\<rparr>
      in Inr (fd (l_intf st3), st3)))" if "up_and_sized st1" for st1
    by (rule lan_opened_bind [OF lan_transport.ipmi_get_oem_safe [OF that]]) (simp only: prod.case fin)
  show ?thesis
    unfolding lan_open_detect_def
    by (rule lan_opened_bind [OF lan_transport.hpm2_detect_safe [OF assms]]) (simp only: prod.case oem)
qed

lemma lan_open_session_result:
  assumes "sizes_ok (l_intf st)" and "0 \<le> fd (l_intf st)"
  shows "lan_opened (lan_open_session md2 os st)"
proof -
  define st1 where "st1 = mod_lan_intf (\<lambda>i. i\<lparr>opened := True, abort := True, session := Some (new_session (ssn_params i))\<rparr>) st"
  have st1: "sizes_ok (l_intf st1)" "0 \<le> fd (l_intf st1)" "opened (l_intf st1)" "session (l_intf st1) \<noteq> None"
    using assms by (simp_all add: st1_def mod_lan_intf_def sizes_ok_def)
  have act: "safe_result (same_link st1) is_null (ipmi_lan_activate_session md2 st1)"
    using activate_session_linked [of st1 md2] st1(4) by (simp add: linked_def)
  have "lan_opened (if rc < 0 then lan_open_fail md2 st2 else lan_open_detect md2 os st2)"
    if r: "ipmi_lan_activate_session md2 st1 = Inr (rc, st2)" and l: "same_link st1 st2" for rc st2
  proof (cases "rc < 0")
    case True
    with l st1 show ?thesis by (simp add: lan_open_fail_result same_link_def sizes_ok_def Let_def)
  next
    case False
    from activate_session_ok [OF r this] l st1 have "up_and_sized st2"
      by (simp add: up_and_sized_def session_up_def same_link_def sizes_ok_def Let_def)
    with False show ?thesis by (simp add: lan_open_detect_result)
  qed
  then have "lan_opened (sum_bind (ipmi_lan_activate_session md2 st1) (\<lambda>(rc, st2).
      if rc < 0 then lan_open_fail md2 st2 else lan_open_detect md2 os st2))"
    by (intro lan_opened_bind [OF act]) (simp only: prod.case)
  with st1 show ?thesis unfolding lan_open_session_def st1_def [symmetric] Let_def by (simp add: lan_open_fail_result)
qed


section \<open>A BMC that answers\<close>

lemma send_loop_sends:
  "send_loop md2 req n st = Inr (b, st') \<Longrightarrow> session (l_intf st) = Some s \<Longrightarrow> l_sends st = [] \<Longrightarrow>
     \<not> ipmi_oem_active st ''intelwv2'' \<Longrightarrow> l_sends st' = []"
proof (induction md2 req n st arbitrary: s rule: send_loop.induct)
  case (1 md2 req n st)
  note turn = send_turn_sent [OF 1(3-5), of md2 req n]
  show ?case
  proof (cases "send_turn md2 req n st")
    case (Answer b' st1)
    with 1(2) turn show ?thesis by (auto simp: send_loop.simps [of md2 req n st] turn_sent_def)
  next
    case (Retry n' st1)
    with turn have "turn_sent md2 req n s st st1" by simp
    then have "session (l_intf st1) = Some (s\<lparr>in_seq := next_in_seq (in_seq s)\<rparr>)" "l_sends st1 = []" "\<not> ipmi_oem_active st1 ''intelwv2''"
      using 1(5) by (auto simp: turn_sent_def ipmi_oem_active_def)
    from 1(1) [OF Retry _ this] 1(2) Retry show ?thesis by (simp add: send_loop.simps [of md2 req n st])
  next
    case (Failed e)
    with 1(2) show ?thesis by (simp add: send_loop.simps [of md2 req n st])
  qed
qed

text \<open>The answer to a command sent in a session, with completion code 0.\<close>

definition bmc_reply :: "byte \<Rightarrow> u32 \<Rightarrow> u32 \<Rightarrow> byte list \<Rightarrow> nat \<Rightarrow> byte \<Rightarrow> byte list \<Rightarrow> net_ev" where
  "bmc_reply at sq sid auth k cmd dat =
     Net_packet (lan_response at sq sid auth (ipmb_msg 0x81 0x1C 0x20 (push_bit 2 (word_of_nat k)) cmd (0 # dat)))"

text \<open>A state from which a direct request is sent and its answer awaited.\<close>

definition ready :: "lan_state \<Rightarrow> bool" where
  "ready st \<longleftrightarrow> \<not> bridging st \<and> l_sends st = [] \<and> l_oem st = None \<and> \<not> noanswer (l_intf st) \<and> l_curr_seq st < 64"

lemma ready_oem: "ready st \<Longrightarrow> \<not> ipmi_oem_active st n"
  by (simp add: ready_def ipmi_oem_active_def)

lemma ready_upd [simp]:
  "ready (upd_session f st) = ready st" "ready (st\<lparr>l_random := r\<rparr>) = ready st" "ready (st\<lparr>l_intf := (l_intf st)\<lparr>abort := a\<rparr>\<rparr>) = ready st"
  "ready st \<Longrightarrow> ready (st\<lparr>l_bridge_possible := False\<rparr>)"
  by (simp_all add: ready_def upd_session_def bridging_def our_address_def)

lemma upd_session_fields [simp]:
  "session (l_intf (upd_session f st)) = map_option f (session (l_intf st))" "ssn_params (l_intf (upd_session f st)) = ssn_params (l_intf st)"
  "l_net (upd_session f st) = l_net st" "l_curr_seq (upd_session f st) = l_curr_seq st" "l_rsp (upd_session f st) = l_rsp st"
  by (simp_all add: upd_session_def)

lemma send_loop_replied:
  assumes s: "session (l_intf st) = Some s" and r: "ready st"
    and net: "l_net st = bmc_reply at sq sid auth (lan_next_seq False (l_curr_seq st)) (rq_cmd req) dat # es"
    and auth: "length auth = (if active s \<and> (at \<noteq> 0 \<or> authtype s \<noteq> 0) then 16 else 0)"
    and sid: "sid \<noteq> session_id s + 0x10000000" and len: "length dat \<le> 900"
  shows "\<exists>st' q rest. send_loop md2 req 0 st = Inr (True, st') \<and> r_ccode (l_rsp st') = 0 \<and> r_data (l_rsp st') = dat @ rest
    \<and> l_net st' = es \<and> ready st' \<and> l_curr_seq st' = lan_next_seq False (l_curr_seq st) \<and> ssn_params (l_intf st') = ssn_params (l_intf st)
    \<and> session (l_intf st') = Some (s\<lparr>in_seq := q\<rparr>) \<and> (q = 0 \<longleftrightarrow> in_seq s = 0)"
proof -
  have r': "\<not> bridging st" "l_sends st = []" "\<not> ipmi_oem_active st ''intelwv2''" "\<not> noanswer (l_intf st)" "l_curr_seq st < 64"
    using r ready_oem [OF r] by (simp_all add: ready_def)
  from send_loop_answered [OF s r', of at sq sid auth _ es] net [unfolded bmc_reply_def] auth sid len
  obtain st' where st': "send_loop md2 req 0 st = Inr (True, st')" "r_ccode (l_rsp st') = 0"
    "take (length dat) (r_data (l_rsp st')) = dat" "l_net st' = es" by fastforce
  obtain rest where nth: "r_data (l_rsp st') = dat @ rest" by (metis st'(3) append_take_drop_id)
  have seq: "l_curr_seq st' = lan_next_seq False (l_curr_seq st)" using send_loop_bounded [OF s r'(2,3,5), where n = 0 and ?md2.0 = md2 and req = req] st'(1) by simp
  note sent = send_loop_sent [OF st'(1)]
  then obtain f where f: "l_intf st' = (l_intf st)\<lparr>session := map_option (\<lambda>s. s\<lparr>in_seq := f (in_seq s)\<rparr>) (session (l_intf st))\<rparr>"
    "\<And>n. f n = 0 \<longleftrightarrow> n = 0" unfolding lan_sent_def by blast
  have "ready st'"
    using r f sent send_loop_sends [OF st'(1) s r'(2,3)] seq lan_next_seq_less [OF r'(5)]
    by (simp add: ready_def bridging_def our_address_def lan_sent_def)
  then show ?thesis using st'(1,2,4) nth seq f s by auto
qed

lemma ping_silent:
  assumes "l_sends st = []" and "l_net st = Net_none # es"
  shows "\<exists>st'. ipmi_lan_ping st = Inr (0, st') \<and> l_net st' = es \<and> lan_sent st st' \<and> l_sends st' = [] \<and> l_curr_seq st' = l_curr_seq st"
  using assms
  by (auto simp: ipmi_lan_ping_def send_packet_ok ipmi_lan_poll_recv_def ipmi_lan_recv_packet_def intro: lan_sent_eq)


lemma assigned_in_seq_le32: "assigned_in_seq (a # le32 sid @ le32 q @ r) = (if q = 0 then 1 else q)"
proof -
  let ?d = "a # le32 sid @ le32 q @ r"
  have "push_bit 24 (ucast (?d ! 8)) OR push_bit 16 (ucast (?d ! 7)) OR push_bit 8 (ucast (?d ! 6)) OR ucast (?d ! 5) = of_le32 (le32 q)"
    by (simp add: of_le32_def le32_def ac_simps)
  then show ?thesis by (simp add: assigned_in_seq_def)
qed

lemma auth_capabilities_replied:
  assumes "session (l_intf st) = Some s" and "\<not> active s" and "ready st"
    and "l_net st = bmc_reply at sq sid [] (lan_next_seq False (l_curr_seq st)) 0x38 (ch # types # status # x) # es"
    and "sid \<noteq> session_id s + 0x10000000" and "length x \<le> 800" and "choose_authtype (ssn_params (l_intf st)) types = Some t"
  shows "\<exists>st' q. ipmi_get_auth_capabilities_cmd md2 st = Inr (0, st') \<and> ready st' \<and> l_net st' = es
    \<and> l_curr_seq st' = lan_next_seq False (l_curr_seq st) \<and> ssn_params (l_intf st') = ssn_params (l_intf st)
    \<and> session (l_intf st') = Some (s\<lparr>in_seq := q, authstatus := status, authtype := t\<rparr>)"
proof -
  let ?req = "mk_rq 0x06 0x38 [0x0E, privlvl (ssn_params (l_intf st))]"
  have net: "l_net st = bmc_reply at sq sid [] (lan_next_seq False (l_curr_seq st)) (rq_cmd ?req) (ch # types # status # x) # es"
    using assms(4) by (simp add: mk_rq_def)
  from send_loop_replied [OF assms(1,3) net _ assms(5), of md2] assms(2,6) obtain st1 q rest where
    st1: "send_loop md2 ?req 0 st = Inr (True, st1)" "r_ccode (l_rsp st1) = 0" "r_data (l_rsp st1) = (ch # types # status # x) @ rest"
      "l_net st1 = es" "ready st1" "l_curr_seq st1 = lan_next_seq False (l_curr_seq st)" "ssn_params (l_intf st1) = ssn_params (l_intf st)"
      "session (l_intf st1) = Some (s\<lparr>in_seq := q\<rparr>)" by auto
  then show ?thesis using assms(7) by (simp add: ipmi_get_auth_capabilities_cmd_def) (auto intro: exI [of _ q])
qed

lemma challenge_replied:
  assumes "session (l_intf st) = Some s" and "\<not> active s" and "ready st"
    and "l_net st = bmc_reply at sq sid [] (lan_next_seq False (l_curr_seq st)) 0x39 (le32 tmp @ chal) # es"
    and "sid \<noteq> session_id s + 0x10000000" and "length chal = 16"
  shows "\<exists>st' q. ipmi_get_session_challenge_cmd md2 st = Inr (0, st') \<and> ready st' \<and> l_net st' = es
    \<and> l_curr_seq st' = lan_next_seq False (l_curr_seq st) \<and> ssn_params (l_intf st') = ssn_params (l_intf st)
    \<and> session (l_intf st') = Some (s\<lparr>in_seq := q, session_id := tmp, challenge := chal\<rparr>)"
proof -
  let ?req = "mk_rq 0x06 0x39 (authtype s # take 16 (username (ssn_params (l_intf st))))"
  have net: "l_net st = bmc_reply at sq sid [] (lan_next_seq False (l_curr_seq st)) (rq_cmd ?req) (le32 tmp @ chal) # es"
    using assms(4) by (simp add: mk_rq_def)
  from send_loop_replied [OF assms(1,3) net _ assms(5), of md2] assms(2,6) obtain st1 q rest where
    st1: "send_loop md2 ?req 0 st = Inr (True, st1)" "r_ccode (l_rsp st1) = 0" "r_data (l_rsp st1) = le32 tmp @ chal @ rest"
      "l_net st1 = es" "ready st1" "l_curr_seq st1 = lan_next_seq False (l_curr_seq st)" "ssn_params (l_intf st1) = ssn_params (l_intf st)"
      "session (l_intf st1) = Some (s\<lparr>in_seq := q\<rparr>)" by auto
  then show ?thesis using assms(1,6) by (simp add: ipmi_get_session_challenge_cmd_def) (auto intro: exI [of _ q])
qed

lemma activate_replied:
  assumes "session (l_intf st) = Some s" and "ready st"
    and "l_net st = bmc_reply at sq pid auth (lan_next_seq False (l_curr_seq st)) 0x3A (t # le32 sid @ le32 q0 @ x) # es"
    and "length auth = (if at \<noteq> 0 \<or> authtype s \<noteq> 0 then 16 else 0)" and "pid \<noteq> session_id s + 0x10000000" and "length x \<le> 800"
    and "authstatus s AND AUTHSTATUS_PER_MSG_DISABLED = 0" and "authtype s = t AND 0xF"
  shows "\<exists>st'. ipmi_activate_session_cmd md2 st = Inr (0, st') \<and> ready st' \<and> l_net st' = es
    \<and> l_curr_seq st' = lan_next_seq False (l_curr_seq st) \<and> ssn_params (l_intf st') = ssn_params (l_intf st)
    \<and> session (l_intf st') = Some (s\<lparr>active := True, session_id := sid, in_seq := if q0 = 0 then 1 else q0\<rparr>)"
proof -
  let ?st = "upd_session (\<lambda>s. s\<lparr>active := True\<rparr>) (snd (get_random 4 st))"
  let ?req = "mk_rq 0x06 0x3A ([authtype s, privlvl (ssn_params (l_intf st))] @ challenge s @ fst (get_random 4 st))"
  have st: "session (l_intf ?st) = Some (s\<lparr>active := True\<rparr>)" "ready ?st"
    using assms(1,2) by (simp_all add: get_random_def)
  have net: "l_net ?st = bmc_reply at sq pid auth (lan_next_seq False (l_curr_seq ?st)) (rq_cmd ?req) (t # le32 sid @ le32 q0 @ x) # es"
    using assms(3) by (simp add: mk_rq_def get_random_def)
  have oem: "\<not> ipmi_oem_active st ''supermicro''" using assms(2) by (rule ready_oem)
  from send_loop_replied [OF st net, of md2] assms(4-6) obtain st1 q rest where
    st1: "send_loop md2 ?req 0 ?st = Inr (True, st1)" "r_ccode (l_rsp st1) = 0" "r_data (l_rsp st1) = t # le32 sid @ le32 q0 @ x @ rest"
      "l_net st1 = es" "ready st1" "l_curr_seq st1 = lan_next_seq False (l_curr_seq st)" "ssn_params (l_intf st1) = ssn_params (l_intf st)"
      "session (l_intf st1) = Some (s\<lparr>active := True, in_seq := q\<rparr>)" by (auto simp: get_random_def)
  then have "session_activated st1 = Inr (0, upd_session (\<lambda>s. s\<lparr>session_id := sid, in_seq := if q0 = 0 then 1 else q0\<rparr>) st1)"
    using assms(7,8) by (simp add: session_activated_def assigned_in_seq_le32)
  then show ?thesis using st1 assms(1) oem by (simp add: ipmi_activate_session_cmd_def split_beta)
qed

lemma privlvl_replied:
  assumes "session (l_intf st) = Some s" and "active s" and "ready st" and "privlvl (ssn_params (l_intf st)) > 2"
    and "l_net st = bmc_reply at sq pid auth (lan_next_seq False (l_curr_seq st)) 0x3B x # es"
    and "length auth = (if at \<noteq> 0 \<or> authtype s \<noteq> 0 then 16 else 0)" and "pid \<noteq> session_id s + 0x10000000" and "length x \<le> 800"
  shows "\<exists>st' q. ipmi_set_session_privlvl_cmd md2 st = Inr (0, st') \<and> l_net st' = es
    \<and> session (l_intf st') = Some (s\<lparr>in_seq := q\<rparr>) \<and> (q = 0 \<longleftrightarrow> in_seq s = 0)"
proof -
  let ?st = "st\<lparr>l_bridge_possible := False\<rparr>"
  let ?req = "mk_rq 0x06 0x3B [privlvl (ssn_params (l_intf st))]"
  have net: "l_net ?st = bmc_reply at sq pid auth (lan_next_seq False (l_curr_seq ?st)) (rq_cmd ?req) x # es"
    and s: "session (l_intf ?st) = Some s" and r: "ready ?st"
    using assms(1,3,5) by (simp_all add: mk_rq_def)
  from send_loop_replied [OF s r net, of md2] assms(2,6-8) obtain st1 q where
    "send_loop md2 ?req 0 ?st = Inr (True, st1)" "r_ccode (l_rsp st1) = 0" "l_net st1 = es"
    "session (l_intf st1) = Some (s\<lparr>in_seq := q\<rparr>)" "q = 0 \<longleftrightarrow> in_seq s = 0" by auto
  then show ?thesis using assms(4) by (auto simp: ipmi_set_session_privlvl_cmd_def Let_def not_le)
qed


section \<open>Properties\<close>

text \<open>
  C31: against a BMC that answers the four commands of a session (with the sequence
  numbers they were sent with, and a common authentication type), the activation succeeds:
  the session is active with the number, the challenge and the authentication type the BMC
  assigned, its inbound sequence number is not zero, and exactly the four answers have been
  consumed.
\<close>

theorem lan_session_established:
  assumes "session (l_intf st) = Some s" and "\<not> active s" and "ready st" and "privlvl (ssn_params (l_intf st)) > 2"
    and "c = (\<lambda>k. (lan_next_seq False ^^ k) (l_curr_seq st))"
    and "l_net st = [Net_none,
        bmc_reply at1 sq1 pid1 [] (c 1) 0x38 (ch # types # status # x1),
        bmc_reply at2 sq2 pid2 [] (c 2) 0x39 (le32 tmp @ chal),
        bmc_reply at3 sq3 pid3 auth3 (c 3) 0x3A (t # le32 sid @ le32 q0 @ x3),
        bmc_reply at4 sq4 pid4 auth4 (c 4) 0x3B x4] @ es"
    and "choose_authtype (ssn_params (l_intf st)) types = Some (t AND 0xF)" and "status AND AUTHSTATUS_PER_MSG_DISABLED = 0"
    and "length chal = 16" and "length x1 \<le> 800" and "length x3 \<le> 800" and "length x4 \<le> 800"
    and "length auth3 = (if at3 \<noteq> 0 \<or> t AND 0xF \<noteq> 0 then 16 else 0)" and "length auth4 = (if at4 \<noteq> 0 \<or> t AND 0xF \<noteq> 0 then 16 else 0)"
    and "pid1 \<noteq> session_id s + 0x10000000" and "pid2 \<noteq> session_id s + 0x10000000"
    and "pid3 \<noteq> tmp + 0x10000000" and "pid4 \<noteq> sid + 0x10000000"
  shows "\<exists>st' s'. ipmi_lan_activate_session md2 st = Inr (0, st') \<and> l_net st' = es \<and> session (l_intf st') = Some s'
    \<and> active s' \<and> session_id s' = sid \<and> challenge s' = chal \<and> authtype s' = t AND 0xF \<and> in_seq s' \<noteq> 0"
proof -
  have c: "c 1 = lan_next_seq False (l_curr_seq st)" "c 2 = lan_next_seq False (c 1)" "c 3 = lan_next_seq False (c 2)" "c 4 = lan_next_seq False (c 3)"
    by (simp_all add: assms(5) numeral_eq_Suc)
  from ping_silent [of st] assms(3,6) obtain st0 where p: "ipmi_lan_ping st = Inr (0, st0)" "l_net st0 = tl (l_net st)" "lan_sent st st0"
    "l_sends st0 = []" "l_curr_seq st0 = l_curr_seq st" by (auto simp: ready_def)
  from p(3) assms(1) obtain q where s0: "session (l_intf st0) = Some (s\<lparr>in_seq := q\<rparr>)" "ssn_params (l_intf st0) = ssn_params (l_intf st)"
    by (auto simp: lan_sent_def)
  have r0: "ready st0" using assms(3) p(3-5) by (auto simp: ready_def lan_sent_def bridging_def our_address_def)
  from auth_capabilities_replied [OF s0(1) _ r0, of at1 sq1 pid1 ch types status x1 _ "t AND 0xF" md2] assms s0 p(2,5) c
  obtain st1 s1 where a1: "ipmi_get_auth_capabilities_cmd md2 st0 = Inr (0, st1)" "ready st1" "l_net st1 = tl (tl (l_net st))" "l_curr_seq st1 = c 1"
    "ssn_params (l_intf st1) = ssn_params (l_intf st)"
    and s1: "session (l_intf st1) = Some s1" "\<not> active s1" "session_id s1 = session_id s" "authstatus s1 = status" "authtype s1 = t AND 0xF"
    by auto
  from challenge_replied [OF s1(1,2) a1(2), of at2 sq2 pid2 tmp chal _ md2] assms(6,9,16) s1(3-5) a1 c
  obtain st2 s2 where a2: "ipmi_get_session_challenge_cmd md2 st1 = Inr (0, st2)" "ready st2" "l_net st2 = tl (tl (tl (l_net st)))" "l_curr_seq st2 = c 2"
    "ssn_params (l_intf st2) = ssn_params (l_intf st)"
    and s2: "session (l_intf st2) = Some s2" "session_id s2 = tmp" "challenge s2 = chal" "authstatus s2 = status" "authtype s2 = t AND 0xF"
    by auto
  from activate_replied [OF s2(1) a2(2), of at3 sq3 pid3 auth3 t sid q0 x3 _ md2] assms(6,8,11,13,17) s2(2-5) a2 c
  obtain st3 s3 where a3: "ipmi_activate_session_cmd md2 st2 = Inr (0, st3)" "ready st3" "l_net st3 = tl (tl (tl (tl (l_net st))))" "l_curr_seq st3 = c 3"
    "ssn_params (l_intf st3) = ssn_params (l_intf st)"
    and s3: "session (l_intf st3) = Some s3" "active s3" "session_id s3 = sid" "challenge s3 = chal" "authtype s3 = t AND 0xF" "in_seq s3 \<noteq> 0"
    by auto
  let ?st3 = "st3\<lparr>l_intf := (l_intf st3)\<lparr>abort := False\<rparr>\<rparr>"
  have r3: "session (l_intf ?st3) = Some s3" "ready ?st3" using a3(2) s3(1) by simp_all
  from privlvl_replied [OF r3(1) s3(2) r3(2), of at4 sq4 pid4 auth4 x4 es md2] assms(4,6,12,14,18) a3 s3 c
  obtain st4 q4 where a4: "ipmi_set_session_privlvl_cmd md2 ?st3 = Inr (0, st4)" "l_net st4 = es" "q4 \<noteq> 0"
    "session (l_intf st4) = Some (s3\<lparr>in_seq := q4\<rparr>)" by auto
  have "\<not> ipmi_oem_active st n" "\<not> ipmi_oem_active st0 n" for n using assms(3) r0 by (auto dest: ready_oem)
  then show ?thesis using p a1 a2 a3 a4 s3 by (simp add: ipmi_lan_activate_session_def)
qed

section \<open>Witnesses\<close>

definition answered_lan :: lan_state where
  "answered_lan = sample_lan\<lparr>l_intf := sample_intf\<lparr>session := Some (new_session sample_params), target_addr := 0x20\<rparr>,
     l_net := [Net_none,
       bmc_reply 0 0 0 [] 0 0x38 [1, 1, 0],
       bmc_reply 0 0 0 [] 1 0x39 (le32 7 @ replicate 16 9),
       bmc_reply 0 0 0 [] 2 0x3A (0 # le32 0x11 @ le32 0 @ [4]),
       bmc_reply 0 0 0 [] 3 0x3B [4]] @ []\<rparr>"

theorem lan_session_established_witness:
  "\<exists>st' s'. ipmi_lan_activate_session None answered_lan = Inr (0, st') \<and> session (l_intf st') = Some s' \<and> active s' \<and> session_id s' = 0x11"
proof -
  have s: "session (l_intf answered_lan) = Some (new_session sample_params)" by (simp add: answered_lan_def)
  have r: "ready answered_lan"
    by (simp add: ready_def answered_lan_def bridging_def our_address_def sample_lan_def sample_intf_def)
  have c: "(\<lambda>k. (lan_next_seq False ^^ k) (l_curr_seq answered_lan)) = (\<lambda>k. (lan_next_seq False ^^ k) 63)"
    by (simp add: answered_lan_def sample_lan_def)
  have n: "l_net answered_lan = [Net_none,
       bmc_reply 0 0 0 [] ((lan_next_seq False ^^ 1) (l_curr_seq answered_lan)) 0x38 (1 # 1 # 0 # []),
       bmc_reply 0 0 0 [] ((lan_next_seq False ^^ 2) (l_curr_seq answered_lan)) 0x39 (le32 7 @ replicate 16 9),
       bmc_reply 0 0 0 [] ((lan_next_seq False ^^ 3) (l_curr_seq answered_lan)) 0x3A (0 # le32 0x11 @ le32 0 @ [4]),
       bmc_reply 0 0 0 [] ((lan_next_seq False ^^ 4) (l_curr_seq answered_lan)) 0x3B [4]] @ []"
    by (simp add: answered_lan_def sample_lan_def lan_next_seq_def numeral_eq_Suc)
  have "\<not> active (new_session sample_params)" "privlvl (ssn_params (l_intf answered_lan)) > 2"
    "choose_authtype (ssn_params (l_intf answered_lan)) 1 = Some (0 AND 0xF)"
    by (simp_all add: new_session_def answered_lan_def sample_intf_def sample_params_def choose_authtype_def wanted_def offered_def)
  from lan_session_established [OF s this(1) r this(2) refl n this(3), of None] show ?thesis
    by (auto simp: new_session_def)
qed

end
