(* ===== verification/Lan_Sol.thy ===== *)
theory Lan_Sol
  imports Lan_Session
begin

text \<open>
  Serial over LAN in the IPMI 1.5 LAN transport, src/plugins/lan/lan.c: SOL packets, their
  acknowledgement and retransmission, resending of the characters the BMC did not accept,
  removal of data received before. The operations run on an open interface, over the state
  of \<open>Lan\<close>; what the input handler of the console gets is appended to \<open>l_sol_input\<close>.
\<close>

section \<open>Packets\<close>

record sol_packet =
  sp_data :: "byte list"
  sp_character_count :: nat
  sp_packet_sequence_number :: byte
  sp_acked_packet_number :: byte
  sp_accepted_character_count :: byte
  sp_is_nack :: bool
  sp_assert_ring_wor :: bool
  sp_generate_break :: bool
  sp_deassert_cts :: bool
  sp_deassert_dcd_dsr :: bool
  sp_flush_inbound :: bool
  sp_flush_outbound :: bool

definition sol_control :: "sol_packet \<Rightarrow> byte" where
  "sol_control p =
     (if sp_is_nack p then 0x40 else 0) OR (if sp_assert_ring_wor p then 0x20 else 0) OR (if sp_generate_break p then 0x10 else 0)
     OR (if sp_deassert_cts p then 0x08 else 0) OR (if sp_deassert_dcd_dsr p then 0x04 else 0)
     OR (if sp_flush_inbound p then 0x02 else 0) OR (if sp_flush_outbound p then 0x01 else 0)"

definition sol_msg :: "ipmi_session \<Rightarrow> sol_packet \<Rightarrow> byte list" where
  "sol_msg s p =
     rmcp_hdr RMCP_CLASS_IPMI @ [0] @ le32 (in_seq s)
     @ [ucast (session_id s), ucast (drop_bit 8 (session_id s)), ucast (drop_bit 16 (session_id s)), ucast (drop_bit 24 (session_id s)) + 0x10]
     @ [word_of_nat (sp_character_count p + 5)]
     @ [sp_packet_sequence_number p, sp_acked_packet_number p, sp_accepted_character_count p, sol_control p, 0]
     @ take (sp_character_count p) (sp_data p)"

definition sol_next_in_seq :: "u32 \<Rightarrow> u32" where
  "sol_next_in_seq n = (let n1 = n + 1 in if n1 = 0 then n1 + 1 else n1)"

definition ipmi_lan_build_sol_msg :: "sol_packet \<Rightarrow> lan_state \<Rightarrow> lan_error + byte list \<times> lan_state" where
  "ipmi_lan_build_sol_msg p st =
     (case session (l_intf st) of
        None \<Rightarrow> Inl Null_session
      | Some s \<Rightarrow> Inr (sol_msg s p, upd_session (\<lambda>s. s\<lparr>in_seq := sol_next_in_seq (in_seq s)\<rparr>) st))"

text \<open>\<open>got\<close> is whether there is a response at all (a pointer that is not NULL).\<close>

definition is_sol_packet :: "bool \<Rightarrow> lan_rs \<Rightarrow> bool" where
  "is_sol_packet got r \<longleftrightarrow> got \<and> r_payloadtype r = PAYLOAD_SOL"

definition sol_response_acks_packet :: "bool \<Rightarrow> lan_rs \<Rightarrow> sol_packet \<Rightarrow> bool" where
  "sol_response_acks_packet got r p \<longleftrightarrow> is_sol_packet got r \<and> r_sol_acked r = sp_packet_sequence_number p"

definition is_sol_partial_ack :: "sol_packet \<Rightarrow> bool \<Rightarrow> lan_rs \<Rightarrow> nat" where
  "is_sol_partial_ack p got r =
     (if sol_response_acks_packet got r p \<and> unat (r_sol_accepted r) < sp_character_count p
      then if r_sol_accepted r = 0 then 0 else sp_character_count p - unat (r_sol_accepted r)
      else 0)"

section \<open>Receiving\<close>

text \<open>Sending is repeated as long as it fails.\<close>

function ack_send :: "byte list \<Rightarrow> lan_state \<Rightarrow> lan_state" where
  "ack_send msg st = (case ipmi_lan_send_packet msg st of (True, st') \<Rightarrow> st' | (False, st') \<Rightarrow> ack_send msg st')"
  by pat_completeness auto
termination
  by (relation "measure (\<lambda>(_, st). length (l_sends st))") (auto dest: send_packet_frame [OF sym])

declare ack_send.simps [simp del]

definition sol_ack :: "byte \<Rightarrow> int \<Rightarrow> sol_packet" where
  "sol_ack seq n = \<lparr>sp_data = [], sp_character_count = 0, sp_packet_sequence_number = 0, sp_acked_packet_number = seq,
     sp_accepted_character_count = word_of_int n, sp_is_nack = False, sp_assert_ring_wor = False, sp_generate_break = False,
     sp_deassert_cts = False, sp_deassert_dcd_dsr = False, sp_flush_inbound = False, sp_flush_outbound = False\<rparr>"

text \<open>
  The acknowledgement has sequence number 0, for which \<open>ipmi_lan_send_sol_payload\<close> does not
  wait for an answer.
\<close>

definition ack_sol_packet :: "bool \<Rightarrow> lan_state \<Rightarrow> lan_error + lan_state" where
  "ack_sol_packet got st =
     (let r = l_rsp st
      in if is_sol_packet got r \<and> r_sol_seq r \<noteq> 0
         then map_sum id (\<lambda>(msg, st'). ack_send msg st') (ipmi_lan_build_sol_msg (sol_ack (r_sol_seq r) (r_data_len r)) st)
         else Inr st)"

definition check_sol_packet_for_new_data :: "bool \<Rightarrow> lan_state \<Rightarrow> lan_state" where
  "check_sol_packet_for_new_data got st =
     (let r = l_rsp st
      in if is_sol_packet got r
         then let unaltered_data_len = word_of_int (r_data_len r) :: byte;
                  new_data_size = r_data_len r - uint (l_sol_last_count st);
                  r' = (if r_sol_seq r = l_sol_last_seq st
                        then r\<lparr>r_data := (if new_data_size > 0
                                 then put_at 0 (take (nat new_data_size) (drop (nat (r_data_len r - new_data_size)) (r_data r))) (r_data r)
                                 else r_data r),
                               r_data_len := new_data_size\<rparr>
                        else r);
                  st' = st\<lparr>l_rsp := r'\<rparr>
              in if r_sol_seq r' \<noteq> 0 then st'\<lparr>l_sol_last_seq := r_sol_seq r', l_sol_last_count := unaltered_data_len\<rparr> else st'
         else st)"

definition ipmi_lan_recv_sol :: "lan_state \<Rightarrow> lan_error + bool \<times> lan_state" where
  "ipmi_lan_recv_sol st =
     sum_bind (ipmi_lan_poll_recv st) (\<lambda>(got, st1).
       sum_bind (ack_sol_packet got st1) (\<lambda>st2. Inr (got, check_sol_packet_for_new_data got st2)))"

definition sol_input_handler :: "lan_state \<Rightarrow> lan_state" where
  "sol_input_handler st = st\<lparr>l_sol_input := l_sol_input st @ [take (nat (r_data_len (l_rsp st))) (r_data (l_rsp st))]\<rparr>"

lemma send_packet_sends:
  "ipmi_lan_send_packet msg st = (b, st') \<Longrightarrow> length (l_sends st') \<le> length (l_sends st) \<and> (\<not> b \<longrightarrow> length (l_sends st') < length (l_sends st))
     \<and> l_intf st' = l_intf st \<and> l_rsp st' = l_rsp st"
  by (auto dest: send_packet_frame)

lemma ack_send_frame:
  "length (l_sends (ack_send msg st)) \<le> length (l_sends st) \<and> l_intf (ack_send msg st) = l_intf st \<and> l_rsp (ack_send msg st) = l_rsp st"
proof (induction msg st rule: ack_send.induct)
  case (1 msg st)
  obtain b st1 where s: "ipmi_lan_send_packet msg st = (b, st1)" by fastforce
  from send_packet_sends [OF s] 1 [OF s [symmetric]] s show ?case by (cases b) (auto simp: ack_send.simps [of msg st])
qed

lemma ack_sol_frame:
  assumes "ack_sol_packet got st = Inr st'"
  shows "length (l_sends st') \<le> length (l_sends st) \<and> ssn_params (l_intf st') = ssn_params (l_intf st) \<and> l_rsp st' = l_rsp st"
proof (cases "is_sol_packet got (l_rsp st) \<and> r_sol_seq (l_rsp st) \<noteq> 0")
  case True
  with assms obtain msg f where "st' = ack_send msg (upd_session f st)"
    by (auto simp: ack_sol_packet_def ipmi_lan_build_sol_msg_def Let_def split: option.splits)
  with ack_send_frame [of msg "upd_session f st"] show ?thesis by (simp add: upd_session_def)
next
  case False
  with assms show ?thesis by (auto simp: ack_sol_packet_def)
qed

lemma check_new_frame:
  "l_sends (check_sol_packet_for_new_data got st) = l_sends st" "l_intf (check_sol_packet_for_new_data got st) = l_intf st"
  by (auto simp: check_sol_packet_for_new_data_def Let_def)

lemma recv_sol_frame:
  assumes "ipmi_lan_recv_sol st = Inr (got, st')"
  shows "length (l_sends st') \<le> length (l_sends st) \<and> ssn_params (l_intf st') = ssn_params (l_intf st)"
proof -
  from assms obtain st1 st2 where p: "ipmi_lan_poll_recv st = Inr (got, st1)" and a: "ack_sol_packet got st1 = Inr st2"
    and c: "st' = check_sol_packet_for_new_data got st2"
    by (auto simp: ipmi_lan_recv_sol_def sum_bind_Inr)
  from lan_frame_fields [OF poll_recv_frame [OF p]] ack_sol_frame [OF a] c show ?thesis by (simp add: check_new_frame)
qed

section \<open>Sending\<close>

function sol_payload_loop :: "sol_packet \<Rightarrow> byte list \<Rightarrow> nat \<Rightarrow> lan_state \<Rightarrow> lan_error + bool \<times> lan_state" where
  "sol_payload_loop p msg try st =
     (case ipmi_lan_send_packet msg st of
        (False, st1) \<Rightarrow> sol_payload_loop p msg (try + 1) st1
      | (True, st1) \<Rightarrow>
          if noanswer (l_intf st1) \<or> sp_packet_sequence_number p = 0 then Inr (False, st1)
          else (case ipmi_lan_recv_sol st1 of
                  Inl e \<Rightarrow> Inl e
                | Inr (got, st2) \<Rightarrow>
                    if sol_response_acks_packet got (l_rsp st2) p then Inr (got, st2)
                    else (let st3 = (if is_sol_packet got (l_rsp st2) \<and> r_data_len (l_rsp st2) \<noteq> 0 then sol_input_handler st2 else st2)
                          in if int (try + 1) \<ge> retry (ssn_params (l_intf st3)) then Inr (got, st3)
                             else sol_payload_loop p msg (try + 1) st3)))"
  by pat_completeness auto
termination
proof (relation "measures [\<lambda>(_, _, _, st). length (l_sends st), \<lambda>(_, _, try, st). nat (retry (ssn_params (l_intf st)) - int try)]", goal_cases)
  case 1
  show ?case by simp
next
  case (2 p msg n st b st1 r got st2 st3)
  have s: "length (l_sends st1) \<le> length (l_sends st)" "l_intf st1 = l_intf st"
    using send_packet_sends [OF 2(1) [symmetric]] by auto
  have r: "length (l_sends st2) \<le> length (l_sends st1)" "ssn_params (l_intf st2) = ssn_params (l_intf st1)"
    using 2(4,5) recv_sol_frame [of st1 got st2] by auto
  have "l_sends st3 = l_sends st2" "l_intf st3 = l_intf st2" using 2(7) by (auto simp: sol_input_handler_def)
  with s r 2(8) show ?case by auto
next
  case (3 p msg n st b st1)
  from send_packet_sends [OF 3(1) [symmetric]] 3 show ?case by auto
qed

declare sol_payload_loop.simps [simp del]

definition ipmi_lan_send_sol_payload :: "sol_packet \<Rightarrow> lan_state \<Rightarrow> lan_error + bool \<times> lan_state" where
  "ipmi_lan_send_sol_payload p st =
     sum_bind (ipmi_lan_build_sol_msg p st) (\<lambda>(msg, st1). if length msg = 0 then Inr (False, st1) else sol_payload_loop p msg 0 st1)"

definition set_sol_packet_sequence_number :: "sol_packet \<Rightarrow> lan_state \<Rightarrow> lan_error + sol_packet \<times> lan_state" where
  "set_sol_packet_sequence_number p st =
     (case session (l_intf st) of
        None \<Rightarrow> Inl Null_session
      | Some s \<Rightarrow>
          (let n = (if sol_sequence_number (sol s) > 0x0F then 1 else sol_sequence_number (sol s))
           in Inr (p\<lparr>sp_packet_sequence_number := n\<rparr>, upd_session (\<lambda>s. s\<lparr>sol := (sol s)\<lparr>sol_sequence_number := n + 1\<rparr>\<rparr>) st)))"

text \<open>The loop that resends what was not accepted: packet, response, characters left.\<close>

lemma partial_ack_less: "is_sol_partial_ack p got r = n \<Longrightarrow> n \<noteq> 0 \<Longrightarrow> n < sp_character_count p \<and> unat (r_sol_accepted r) < sp_character_count p
     \<and> n = sp_character_count p - unat (r_sol_accepted r)"
  by (auto simp: is_sol_partial_ack_def unat_gt_0 split: if_splits)

function sol_resend_loop :: "sol_packet \<Rightarrow> bool \<Rightarrow> lan_state \<Rightarrow> lan_error + bool \<times> sol_packet \<times> lan_state" where
  "sol_resend_loop p got st =
     (let chars_to_resend = is_sol_partial_ack p got (l_rsp st)
      in if chars_to_resend = 0 then Inr (got, p, st)
         else
           (let accepted = unat (r_sol_accepted (l_rsp st));
                st1 = (if r_data_len (l_rsp st) \<noteq> 0 then sol_input_handler st else st)
            in case set_sol_packet_sequence_number p st1 of
                 Inl e \<Rightarrow> Inl e
               | Inr (p1, st2) \<Rightarrow>
                   (let p2 = p1\<lparr>sp_data := put_at 0 (take chars_to_resend (drop accepted (sp_data p1))) (sp_data p1),
                                sp_character_count := chars_to_resend\<rparr>
                    in case ipmi_lan_send_sol_payload p2 st2 of
                         Inl e \<Rightarrow> Inl e
                       | Inr (got', st3) \<Rightarrow> sol_resend_loop p2 got' st3)))"
  by pat_completeness auto
termination
proof (relation "measure (\<lambda>(p, _, _). sp_character_count p)", goal_cases)
  case 1
  show ?case by simp
next
  case (2 p got st n a st1 r p1 st2 p2)
  then show ?case using partial_ack_less [of p got "l_rsp st" n] by auto
qed

declare sol_resend_loop.simps [simp del]

definition ipmi_lan_send_sol :: "sol_packet \<Rightarrow> lan_state \<Rightarrow> lan_error + bool \<times> sol_packet \<times> lan_state" where
  "ipmi_lan_send_sol p st =
     sum_bind (set_sol_packet_sequence_number (p\<lparr>sp_acked_packet_number := 0\<rparr>) st) (\<lambda>(p1, st1).
       let p2 = p1\<lparr>sp_accepted_character_count := 0\<rparr>
       in sum_bind (ipmi_lan_send_sol_payload p2 st1) (\<lambda>(got, st2). sol_resend_loop p2 got st2))"


section \<open>Resending\<close>

definition sol_state :: "lan_state \<Rightarrow> sol_data option" where
  "sol_state st = map_option sol (session (l_intf st))"

lemma build_sol_state: "ipmi_lan_build_sol_msg p st = Inr (msg, st') \<Longrightarrow> sol_state st' = sol_state st"
  by (auto simp: ipmi_lan_build_sol_msg_def sol_state_def upd_session_def split: option.splits)

lemma ack_sol_state: "ack_sol_packet got st = Inr st' \<Longrightarrow> sol_state st' = sol_state st"
  using ack_send_frame
  by (auto simp: ack_sol_packet_def Let_def sol_state_def ipmi_lan_build_sol_msg_def split: if_splits option.splits)

lemma recv_sol_state:
  assumes "ipmi_lan_recv_sol st = Inr (got, st')"
  shows "sol_state st' = sol_state st"
proof -
  from assms obtain st1 st2 where p: "ipmi_lan_poll_recv st = Inr (got, st1)" and a: "ack_sol_packet got st1 = Inr st2"
    and c: "st' = check_sol_packet_for_new_data got st2"
    by (auto simp: ipmi_lan_recv_sol_def sum_bind_Inr)
  from lan_frame_fields(1) [OF poll_recv_frame [OF p]] ack_sol_state [OF a] c show ?thesis by (simp add: sol_state_def check_new_frame)
qed

lemma sol_payload_loop_state: "sol_payload_loop p msg n st = Inr (got, st') \<Longrightarrow> sol_state st' = sol_state st"
proof (induction p msg n st rule: sol_payload_loop.induct)
  case (1 p msg n st)
  obtain b st1 where s: "ipmi_lan_send_packet msg st = (b, st1)" by fastforce
  then have st1: "sol_state st1 = sol_state st" using send_packet_sends [OF s] by (simp add: sol_state_def)
  show ?case
  proof (cases b)
    case False
    with 1(2) [OF s [symmetric]] 1(3) s st1 show ?thesis by (simp add: sol_payload_loop.simps [of p msg n st])
  next
    case True
    have s': "ipmi_lan_send_packet msg st = (True, st1)" using s True by simp
    show ?thesis
    proof (cases "noanswer (l_intf st1) \<or> sp_packet_sequence_number p = 0")
      case True
      with 1(3) s' st1 show ?thesis by (simp add: sol_payload_loop.simps [of p msg n st])
    next
      case False
      with 1(3) s' obtain got2 st2 where r: "ipmi_lan_recv_sol st1 = Inr (got2, st2)"
        by (auto simp: sol_payload_loop.simps [of p msg n st] split: sum.splits)
      have st2: "sol_state st2 = sol_state st" using recv_sol_state [OF r] st1 by simp
      let ?st3 = "if is_sol_packet got2 (l_rsp st2) \<and> r_data_len (l_rsp st2) \<noteq> 0 then sol_input_handler st2 else st2"
      have st3: "sol_state ?st3 = sol_state st" using st2 by (simp add: sol_state_def sol_input_handler_def)
      show ?thesis
      proof (cases "sol_response_acks_packet got2 (l_rsp st2) p \<or> int (n + 1) \<ge> retry (ssn_params (l_intf ?st3))")
        case True
        with 1(3) s' False r st2 st3 show ?thesis by (auto simp: sol_payload_loop.simps [of p msg n st] Let_def split: if_splits)
      next
        case go: False
        with 1(3) s' False r have rec: "sol_payload_loop p msg (n + 1) ?st3 = Inr (got, st')"
          by (simp add: sol_payload_loop.simps [of p msg n st] Let_def)
        have "sol_state st' = sol_state ?st3"
          by (rule 1(1) [OF s' [symmetric] _ False r _ _ refl _ rec]) (use go in auto)
        with st3 show ?thesis by simp
      qed
    qed
  qed
qed

lemma send_payload_state: "ipmi_lan_send_sol_payload p st = Inr (got, st') \<Longrightarrow> sol_state st' = sol_state st"
  by (auto simp: ipmi_lan_send_sol_payload_def sum_bind_Inr dest!: build_sol_state sol_payload_loop_state split: if_splits)

text \<open>The counter runs from 1 to 16; 16 is turned into 1 before it is used.\<close>

definition sol_seq_ok :: "lan_state \<Rightarrow> bool" where
  "sol_seq_ok st \<longleftrightarrow> (\<forall>d. sol_state st = Some d \<longrightarrow> sol_sequence_number d \<in> {1..16})"

lemma sol_seq_ok_state: "sol_state st' = sol_state st \<Longrightarrow> sol_seq_ok st' = sol_seq_ok st"
  by (simp add: sol_seq_ok_def)

lemma byte_succ_range: "1 \<le> (n :: byte) \<Longrightarrow> n \<le> 15 \<Longrightarrow> 1 \<le> n + 1 \<and> n + 1 \<le> 16"
  unfolding word_le_nat_alt by (simp add: unat_word_ariths)

lemma set_sol_seq:
  assumes "set_sol_packet_sequence_number p st = Inr (p', st')" and "sol_seq_ok st"
  shows "(\<exists>n\<in>{1..15}. p' = p\<lparr>sp_packet_sequence_number := n\<rparr>) \<and> sol_seq_ok st'"
proof -
  from assms(1) obtain s where s: "session (l_intf st) = Some s" by (auto simp: set_sol_packet_sequence_number_def split: option.splits)
  let ?n = "if sol_sequence_number (sol s) > 0x0F then 1 else sol_sequence_number (sol s)"
  have n: "1 \<le> ?n \<and> ?n \<le> 15" using assms(2) s by (auto simp: sol_seq_ok_def sol_state_def not_less)
  have p': "p' = p\<lparr>sp_packet_sequence_number := ?n\<rparr>" "st' = upd_session (\<lambda>s. s\<lparr>sol := (sol s)\<lparr>sol_sequence_number := ?n + 1\<rparr>\<rparr>) st"
    using assms(1) s by (simp_all add: set_sol_packet_sequence_number_def Let_def)
  have "sol_seq_ok st'" unfolding sol_seq_ok_def sol_state_def p'(2) using s byte_succ_range [of ?n] n by simp
  then show ?thesis using n p'(1) by (auto intro: bexI [of _ ?n])
qed

text \<open>The characters a packet carries, and what the loop leaves of them.\<close>

definition sol_chars :: "sol_packet \<Rightarrow> byte list" where
  "sol_chars p = take (sp_character_count p) (sp_data p)"

lemma sol_chars_resend:
  assumes "a + n = sp_character_count p" and "sp_character_count p \<le> length (sp_data p)"
  shows "sol_chars (p\<lparr>sp_data := put_at 0 (take n (drop a (sp_data p))) (sp_data p), sp_character_count := n\<rparr>) = drop a (sol_chars p)"
    and "length (put_at 0 (take n (drop a (sp_data p))) (sp_data p)) = length (sp_data p)"
proof -
  have "sp_character_count p - a = n" using assms(1) by simp
  then show "sol_chars (p\<lparr>sp_data := put_at 0 (take n (drop a (sp_data p))) (sp_data p), sp_character_count := n\<rparr>) = drop a (sol_chars p)"
    using assms by (simp add: sol_chars_def put_at_def drop_take)
  show "length (put_at 0 (take n (drop a (sp_data p))) (sp_data p)) = length (sp_data p)" using assms by (simp add: put_at_def)
qed

lemma sol_resend_in_bounds:
  "sol_resend_loop p got st = Inr (got', p', st') \<Longrightarrow> sol_seq_ok st \<Longrightarrow> sp_character_count p \<le> length (sp_data p) \<Longrightarrow>
     sp_packet_sequence_number p \<in> {1..15} \<Longrightarrow>
     sp_packet_sequence_number p' \<in> {1..15} \<and> sol_seq_ok st'
     \<and> length (sp_data p') = length (sp_data p) \<and> is_sol_partial_ack p' got' (l_rsp st') = 0"
proof (induction p got st rule: sol_resend_loop.induct)
  case (1 p got st)
  let ?n = "is_sol_partial_ack p got (l_rsp st)"
  show ?case
  proof (cases "?n = 0")
    case True
    with 1 show ?thesis by (auto simp: sol_resend_loop.simps [of p got st] intro: exI [of _ 0])
  next
    case False
    let ?a = "unat (r_sol_accepted (l_rsp st))"
    let ?st1 = "if r_data_len (l_rsp st) \<noteq> 0 then sol_input_handler st else st"
    from 1(2) False obtain p1 st2 where set: "set_sol_packet_sequence_number p ?st1 = Inr (p1, st2)"
      by (auto simp: sol_resend_loop.simps [of p got st] Let_def split: sum.splits)
    have ok1: "sol_seq_ok ?st1" using 1(3) by (simp add: sol_seq_ok_def sol_state_def sol_input_handler_def)
    from set_sol_seq [OF set ok1] obtain q where p1: "p1 = p\<lparr>sp_packet_sequence_number := q\<rparr>" and q: "q \<in> {1..15}" and ok2: "sol_seq_ok st2"
      by blast
    let ?p2 = "p1\<lparr>sp_data := put_at 0 (take ?n (drop ?a (sp_data p1))) (sp_data p1), sp_character_count := ?n\<rparr>"
    from 1(2) False set obtain got3 st3 where pay: "ipmi_lan_send_sol_payload ?p2 st2 = Inr (got3, st3)"
      and rec: "sol_resend_loop ?p2 got3 st3 = Inr (got', p', st')"
      by (auto simp: sol_resend_loop.simps [of p got st] Let_def split: sum.splits)
    have ok3: "sol_seq_ok st3" using ok2 sol_seq_ok_state [OF send_payload_state [OF pay]] by simp
    from partial_ack_less [of p got "l_rsp st" ?n] False have n: "?a < sp_character_count p" "?n = sp_character_count p - ?a" by auto
    then have an: "?a + ?n = sp_character_count p1" "sp_character_count p1 \<le> length (sp_data p1)" using 1(4) p1 by auto
    note chars = sol_chars_resend [OF an]
    have eq: "length (sp_data p1) = length (sp_data p)" using p1 by simp
    have "sp_packet_sequence_number p' \<in> {1..15} \<and> sol_seq_ok st'
       \<and> length (sp_data p') = length (sp_data ?p2) \<and> is_sol_partial_ack p' got' (l_rsp st') = 0"
    proof (rule 1(1) [OF refl False refl refl set refl refl pay refl rec ok3])
      show "sp_character_count ?p2 \<le> length (sp_data ?p2)" using an chars(2) by simp
      show "sp_packet_sequence_number ?p2 \<in> {1..15}" using q p1 by simp
    qed
    then show ?thesis using chars eq by auto
  qed
qed

section \<open>A BMC that accepts part of each packet\<close>

text \<open>
  The acknowledgement of packet \<open>q\<close> with \<open>a\<close> characters accepted, without characters of its
  own; and the acknowledgements of a BMC that accepts \<open>as\<close> characters of successive packets,
  whose sequence numbers follow the counter \<open>n\<close> of the session.
\<close>

definition sol_bmc_ack :: "byte \<Rightarrow> u32 \<Rightarrow> byte \<Rightarrow> u32 \<Rightarrow> byte \<Rightarrow> nat \<Rightarrow> byte list" where
  "sol_bmc_ack at sq ctl sid q a =
     rmcp_hdr RMCP_CLASS_IPMI @ [at] @ le32 sq @ le32 (sid + 0x10000000) @ [5, 0, q, word_of_nat a, ctl, 0]"

definition sol_number :: "byte \<Rightarrow> byte" where
  "sol_number n = (if n > 0x0F then 1 else n)"

primrec sol_bmc_acks :: "byte \<Rightarrow> u32 \<Rightarrow> byte \<Rightarrow> u32 \<Rightarrow> byte \<Rightarrow> nat list \<Rightarrow> net_ev list" where
  "sol_bmc_acks at sq ctl sid n [] = []"
| "sol_bmc_acks at sq ctl sid n (a # as) =
     Net_packet (sol_bmc_ack at sq ctl sid (sol_number n) a) # sol_bmc_acks at sq ctl sid (sol_number n + 1) as"

text \<open>What such a BMC takes from the packets: the first \<open>a\<close> characters of each.\<close>

definition sol_bmc_takes :: "byte list list \<Rightarrow> nat list \<Rightarrow> byte list" where
  "sol_bmc_takes ms as = concat (map2 (\<lambda>m a. take a (drop sol_data_offset m)) ms as)"

lemma sol_msg_chars: "drop sol_data_offset (sol_msg s p) = sol_chars p"
  by (simp add: sol_msg_def sol_chars_def sol_data_offset_def rmcp_hdr_def le32_def)

lemma sol_number_range: "n \<in> {1..16} \<Longrightarrow> sol_number n \<in> {1..15} \<and> sol_number n + 1 \<in> {1..16}"
  using byte_succ_range [of "sol_number n"] by (auto simp: sol_number_def not_less)

lemma sol_number_mask: "q \<in> {1..15} \<Longrightarrow> q AND 0x0F = (q :: byte)"
proof -
  assume "q \<in> {1..15}"
  then have "unat q < 16" by (auto simp: word_le_nat_alt)
  have "q AND 0x0F = take_bit 4 q" by (simp add: take_bit_eq_mask mask_eq_exp_minus_1)
  also have "\<dots> = q" using \<open>unat q < 16\<close> by (intro word_unat_eq_iff [THEN iffD2]) (simp add: take_bit_eq_mod unat_mod)
  finally show ?thesis .
qed

lemma poll_sol_ack:
  assumes s: "session (l_intf st) = Some s" and net: "l_net st = Net_packet (sol_bmc_ack at sq ctl (session_id s) q a) # es"
    and q: "q \<in> {1..15}"
  shows "\<exists>r. ipmi_lan_poll_recv st = Inr (True, st\<lparr>l_net := es, l_rsp := r\<rparr>)
    \<and> r_payloadtype r = PAYLOAD_SOL \<and> r_sol_acked r = q \<and> r_sol_accepted r = word_of_nat a \<and> r_sol_seq r = 0
    \<and> r_data_len r = 19 \<and> take 19 (r_data r) = sol_bmc_ack at sq ctl (session_id s) q a"
proof -
  let ?p = "sol_bmc_ack at sq ctl (session_id s) q a"
  have len: "length ?p = 19" by (simp add: sol_bmc_ack_def rmcp_hdr_def le32_def)
  then have ne: "?p \<noteq> []" "length ?p \<le> IPMI_BUF_SIZE" by (auto simp: IPMI_BUF_SIZE_def)
  from recv_packet_prefix [OF net ne] obtain rest where
    recv: "ipmi_lan_recv_packet st = (True, st\<lparr>l_net := es, l_rsp := (l_rsp st)\<lparr>r_data := ?p @ rest, r_data_len := int (length ?p)\<rparr>\<rparr>)" by blast
  define r where "r = parse_session ((l_rsp st)\<lparr>r_data := ?p @ rest, r_data_len := int (length ?p)\<rparr>)"
  have "drop 9 (?p @ rest) = le32 (session_id s + 0x10000000) @ [5, 0, q, word_of_nat a, ctl, 0] @ rest"
    by (simp add: sol_bmc_ack_def rmcp_hdr_def le32_def)
  then have id: "r_session_id r = session_id s + 0x10000000" "r_data r = ?p @ rest" "r_data_len r = 19"
    using len by (simp_all add: r_def parse_session_def of_le32_append)
  have cls: "(?p @ rest) ! 3 = RMCP_CLASS_IPMI" by (simp add: sol_bmc_ack_def rmcp_hdr_def)
  have f: "r_payloadtype (parse_sol r) = PAYLOAD_SOL" "r_sol_acked (parse_sol r) = q" "r_sol_accepted (parse_sol r) = word_of_nat a"
    "r_sol_seq (parse_sol r) = 0" "r_data_len (parse_sol r) = 19" "r_data (parse_sol r) = ?p @ rest"
    using id sol_number_mask [OF q] by (simp_all add: parse_sol_def Let_def sol_bmc_ack_def rmcp_hdr_def le32_def)
  have "ipmi_lan_poll_recv st = Inr (True, st\<lparr>l_net := es, l_rsp := parse_sol r\<rparr>)"
    unfolding ipmi_lan_poll_recv_def recv
    using cls s id f by (simp add: poll_loop.simps poll_turn_def Let_def r_def [symmetric] sol_data_offset_def)
  then show ?thesis using f len by auto
qed

lemma check_new_ack:
  "r_sol_seq (l_rsp st) = 0 \<Longrightarrow> r_payloadtype (l_rsp st) = PAYLOAD_SOL \<Longrightarrow>
     \<exists>r. check_sol_packet_for_new_data True st = st\<lparr>l_rsp := r\<rparr> \<and> r_payloadtype r = r_payloadtype (l_rsp st)
       \<and> r_sol_acked r = r_sol_acked (l_rsp st) \<and> r_sol_accepted r = r_sol_accepted (l_rsp st)"
  by (rule exI [of _ "l_rsp (check_sol_packet_for_new_data True st)"])
    (simp add: check_sol_packet_for_new_data_def is_sol_packet_def Let_def)

lemma recv_sol_ack:
  assumes s: "session (l_intf st) = Some s" and net: "l_net st = Net_packet (sol_bmc_ack at sq ctl (session_id s) q a) # es"
    and q: "q \<in> {1..15}"
  shows "\<exists>r. ipmi_lan_recv_sol st = Inr (True, st\<lparr>l_net := es, l_rsp := r\<rparr>)
    \<and> r_payloadtype r = PAYLOAD_SOL \<and> r_sol_acked r = q \<and> r_sol_accepted r = word_of_nat a"
proof -
  from poll_sol_ack [OF assms] obtain r where r: "ipmi_lan_poll_recv st = Inr (True, st\<lparr>l_net := es, l_rsp := r\<rparr>)"
    "r_payloadtype r = PAYLOAD_SOL" "r_sol_acked r = q" "r_sol_accepted r = word_of_nat a" "r_sol_seq r = 0" by blast
  let ?st = "st\<lparr>l_net := es, l_rsp := r\<rparr>"
  from check_new_ack [of ?st] r(2,5) obtain r' where r': "check_sol_packet_for_new_data True ?st = ?st\<lparr>l_rsp := r'\<rparr>"
    "r_payloadtype r' = r_payloadtype r" "r_sol_acked r' = r_sol_acked r" "r_sol_accepted r' = r_sol_accepted r" by auto
  have "ipmi_lan_recv_sol st = Inr (True, st\<lparr>l_net := es, l_rsp := r'\<rparr>)"
    using r(1,2,5) r'(1) by (simp add: ipmi_lan_recv_sol_def ack_sol_packet_def is_sol_packet_def)
  with r r' show ?thesis by (intro exI [of _ r']) simp
qed

lemma recv_sol_ack_data:
  assumes s: "session (l_intf st) = Some s" and net: "l_net st = Net_packet (sol_bmc_ack at sq ctl (session_id s) q a) # es"
    and q: "q \<in> {1..15}" and "l_sol_last_seq st \<noteq> 0"
  shows "\<exists>st'. ipmi_lan_recv_sol st = Inr (True, st') \<and> r_data_len (l_rsp st') = 19
    \<and> take 19 (r_data (l_rsp st')) = sol_bmc_ack at sq ctl (session_id s) q a"
  using poll_sol_ack [OF assms(1-3)] assms(4)
  by (auto simp: ipmi_lan_recv_sol_def ack_sol_packet_def is_sol_packet_def check_sol_packet_for_new_data_def Let_def)

text \<open>What stays the same of a session while characters are sent.\<close>

definition sol_ready :: "lan_state \<Rightarrow> u32 \<Rightarrow> byte \<Rightarrow> bool" where
  "sol_ready st sid n \<longleftrightarrow> l_sends st = [] \<and> \<not> noanswer (l_intf st)
     \<and> (\<exists>s. session (l_intf st) = Some s \<and> session_id s = sid \<and> sol_sequence_number (sol s) = n)"

lemma send_payload_acked:
  assumes "sol_ready st sid n" and "l_net st = Net_packet (sol_bmc_ack at sq ctl sid q a) # es"
    and "sp_packet_sequence_number p = q" and "q \<in> {1..15}"
  shows "\<exists>st' m. ipmi_lan_send_sol_payload p st = Inr (True, st') \<and> sol_ready st' sid n \<and> l_net st' = es
    \<and> l_out st' = l_out st @ [m] \<and> drop sol_data_offset m = sol_chars p
    \<and> r_payloadtype (l_rsp st') = PAYLOAD_SOL \<and> r_sol_acked (l_rsp st') = q \<and> r_sol_accepted (l_rsp st') = word_of_nat a"
proof -
  from assms(1) obtain s where s: "session (l_intf st) = Some s" "session_id s = sid" "sol_sequence_number (sol s) = n"
    by (auto simp: sol_ready_def)
  let ?st1 = "upd_session (\<lambda>s. s\<lparr>in_seq := sol_next_in_seq (in_seq s)\<rparr>) st"
  let ?st2 = "?st1\<lparr>l_out := l_out st @ [sol_msg s p]\<rparr>"
  have b: "ipmi_lan_build_sol_msg p st = Inr (sol_msg s p, ?st1)" using s(1) by (simp add: ipmi_lan_build_sol_msg_def)
  have st2: "session (l_intf ?st2) = Some (s\<lparr>in_seq := sol_next_in_seq (in_seq s)\<rparr>)"
    "l_net ?st2 = Net_packet (sol_bmc_ack at sq ctl (session_id (s\<lparr>in_seq := sol_next_in_seq (in_seq s)\<rparr>)) q a) # es"
    "sol_ready ?st2 sid n" using s assms(1,2) by (auto simp: upd_session_def sol_ready_def)
  from recv_sol_ack [OF st2(1,2) assms(4)] obtain r where r: "ipmi_lan_recv_sol ?st2 = Inr (True, ?st2\<lparr>l_net := es, l_rsp := r\<rparr>)"
    "r_payloadtype r = PAYLOAD_SOL" "r_sol_acked r = q" "r_sol_accepted r = word_of_nat a" by blast
  have snd: "ipmi_lan_send_packet (sol_msg s p) ?st1 = (True, ?st2)"
    using assms(1) by (simp add: send_packet_ok sol_ready_def upd_session_def)
  have q: "q \<noteq> 0" using assms(4) by auto
  have "sol_payload_loop p (sol_msg s p) 0 ?st1 = Inr (True, ?st2\<lparr>l_net := es, l_rsp := r\<rparr>)"
    using snd r q assms(3) st2(3)
    by (simp add: sol_payload_loop.simps [of p "sol_msg s p" 0 ?st1] sol_response_acks_packet_def is_sol_packet_def sol_ready_def)
  moreover have "sol_msg s p \<noteq> []" by (simp add: sol_msg_def rmcp_hdr_def)
  ultimately have "ipmi_lan_send_sol_payload p st = Inr (True, ?st2\<lparr>l_net := es, l_rsp := r\<rparr>)"
    using b by (simp add: ipmi_lan_send_sol_payload_def)
  moreover have "sol_ready (?st2\<lparr>l_net := es, l_rsp := r\<rparr>) sid n" using st2(3) by (simp add: sol_ready_def)
  ultimately show ?thesis using r(2-4) by (auto simp: sol_msg_chars)
qed

lemma set_sol_ready:
  assumes "sol_ready st sid n"
  shows "\<exists>st'. set_sol_packet_sequence_number p st = Inr (p\<lparr>sp_packet_sequence_number := sol_number n\<rparr>, st')
    \<and> sol_ready st' sid (sol_number n + 1) \<and> l_net st' = l_net st \<and> l_out st' = l_out st"
  using assms by (auto simp: sol_ready_def set_sol_packet_sequence_number_def Let_def sol_number_def upd_session_def)

lemma resend_loop_delivers:
  assumes "sol_ready st sid n" and "n \<in> {1..16}" and "l_net st = sol_bmc_acks at sq ctl sid n as @ es"
    and "r_payloadtype (l_rsp st) = PAYLOAD_SOL" and "r_sol_acked (l_rsp st) = sp_packet_sequence_number p"
    and "r_sol_accepted (l_rsp st) = word_of_nat a" and "0 < a" and "\<forall>b\<in>set as. 0 < b"
    and "a + sum_list as = sp_character_count p" and "sp_character_count p \<le> length (sp_data p)" and "sp_character_count p < 256"
  shows "\<exists>p' st' ms. sol_resend_loop p True st = Inr (True, p', st') \<and> l_net st' = es \<and> l_out st' = l_out st @ ms
    \<and> length ms = length as \<and> take a (sol_chars p) @ sol_bmc_takes ms as = sol_chars p"
  using assms
proof (induction as arbitrary: st n p a)
  case Nil
  then have "is_sol_partial_ack p True (l_rsp st) = 0" "take a (sol_chars p) = sol_chars p"
    by (auto simp: is_sol_partial_ack_def unat_of_nat sol_chars_def)
  with Nil show ?case by (auto simp: sol_resend_loop.simps [of p] sol_bmc_takes_def)
next
  case (Cons b bs)
  let ?n = "sp_character_count p - a"
  have a: "a < sp_character_count p" "unat (word_of_nat a :: byte) = a" "(word_of_nat a :: byte) \<noteq> 0"
    using Cons.prems(7-11) by (auto simp: unat_of_nat word_unat_eq_iff)
  have part: "is_sol_partial_ack p True (l_rsp st) = ?n"
    using Cons.prems(4-6) a by (simp add: is_sol_partial_ack_def sol_response_acks_packet_def is_sol_packet_def)
  let ?st1 = "if r_data_len (l_rsp st) \<noteq> 0 then sol_input_handler st else st"
  have st1: "sol_ready ?st1 sid n" "l_net ?st1 = l_net st" "l_out ?st1 = l_out st"
    using Cons.prems(1) by (simp_all add: sol_ready_def sol_input_handler_def)
  from set_sol_ready [OF st1(1), of p] st1(2,3) obtain st2 where
    set: "set_sol_packet_sequence_number p ?st1 = Inr (p\<lparr>sp_packet_sequence_number := sol_number n\<rparr>, st2)"
    and st2: "sol_ready st2 sid (sol_number n + 1)" "l_net st2 = l_net st" "l_out st2 = l_out st" by auto
  let ?p1 = "p\<lparr>sp_packet_sequence_number := sol_number n\<rparr>"
  let ?p2 = "?p1\<lparr>sp_data := put_at 0 (take ?n (drop a (sp_data ?p1))) (sp_data ?p1), sp_character_count := ?n\<rparr>"
  have "a + ?n = sp_character_count ?p1" "sp_character_count ?p1 \<le> length (sp_data ?p1)" using a Cons.prems(10) by auto
  note chars = sol_chars_resend [OF this]
  have chars': "sol_chars ?p2 = drop a (sol_chars p)" using chars(1) by (simp add: sol_chars_def)
  from sol_number_range [OF Cons.prems(2)] have q: "sol_number n \<in> {1..15}" "sol_number n + 1 \<in> {1..16}" by simp_all
  have net: "l_net st2 = Net_packet (sol_bmc_ack at sq ctl sid (sol_number n) b) # sol_bmc_acks at sq ctl sid (sol_number n + 1) bs @ es"
    using st2(2) Cons.prems(3) by simp
  from send_payload_acked [OF st2(1) net _ q(1), of ?p2] obtain st3 m where
    pay: "ipmi_lan_send_sol_payload ?p2 st2 = Inr (True, st3)" and st3: "sol_ready st3 sid (sol_number n + 1)"
      "l_net st3 = sol_bmc_acks at sq ctl sid (sol_number n + 1) bs @ es" "l_out st3 = l_out st @ [m]" "drop sol_data_offset m = sol_chars ?p2"
    and r: "r_payloadtype (l_rsp st3) = PAYLOAD_SOL" "r_sol_acked (l_rsp st3) = sp_packet_sequence_number ?p2" "r_sol_accepted (l_rsp st3) = word_of_nat b"
    using st2(3) by auto
  have "0 < b" "\<forall>c\<in>set bs. 0 < c" "b + sum_list bs = sp_character_count ?p2" "sp_character_count ?p2 \<le> length (sp_data ?p2)" "sp_character_count ?p2 < 256"
    using Cons.prems(8-11) chars(2) by auto
  from Cons.IH [OF st3(1) q(2) st3(2) r this] obtain p' st' ms where
    rec: "sol_resend_loop ?p2 True st3 = Inr (True, p', st')" "l_net st' = es" "l_out st' = l_out st3 @ ms" "length ms = length bs"
      "take b (sol_chars ?p2) @ sol_bmc_takes ms bs = sol_chars ?p2" by blast
  have "sol_resend_loop p True st = Inr (True, p', st')"
    using part a set pay rec(1) Cons.prems(6) by (simp add: sol_resend_loop.simps [of p True st] Let_def)
  moreover have "take a (sol_chars p) @ sol_bmc_takes (m # ms) (b # bs) = sol_chars p"
    using rec(5) st3(4) chars' by (simp add: sol_bmc_takes_def)
  ultimately show ?case using rec(2-4) st3(3) by (intro exI [of _ p'] exI [of _ st'] exI [of _ "m # ms"]) simp
qed


section \<open>Data received more than once\<close>

text \<open>
  A BMC that misses an acknowledgement sends its packet again under the same sequence
  number, possibly with characters that have come up since. A stream of such packets is a
  list of blocks: a sequence number and the versions of the packet sent under it.
\<close>

definition sol_arrival :: "lan_state \<Rightarrow> byte \<Rightarrow> byte list \<Rightarrow> lan_state" where
  "sol_arrival st q d = check_sol_packet_for_new_data True
     (st\<lparr>l_rsp := (l_rsp st)\<lparr>r_payloadtype := PAYLOAD_SOL, r_sol_seq := q, r_data := d, r_data_len := int (length d)\<rparr>\<rparr>)"

definition sol_new_data :: "lan_state \<Rightarrow> byte list" where
  "sol_new_data st = take (nat (r_data_len (l_rsp st))) (r_data (l_rsp st))"

fun sol_stream :: "lan_state \<Rightarrow> (byte \<times> byte list) list \<Rightarrow> byte list" where
  "sol_stream st [] = []"
| "sol_stream st ((q, d) # ps) = (let st' = sol_arrival st q d in sol_new_data st' @ sol_stream st' ps)"

fun grows :: "byte list list \<Rightarrow> bool" where
  "grows (v # w # vs) \<longleftrightarrow> take (length v) w = v \<and> grows (w # vs)"
| "grows _ \<longleftrightarrow> True"

fun blocks_ok :: "byte \<Rightarrow> (byte \<times> byte list list) list \<Rightarrow> bool" where
  "blocks_ok q [] \<longleftrightarrow> True"
| "blocks_ok q ((q', vs) # bs) \<longleftrightarrow> q' \<noteq> q \<and> q' \<noteq> 0 \<and> vs \<noteq> [] \<and> grows vs \<and> (\<forall>v\<in>set vs. length v < 256) \<and> blocks_ok q' bs"

lemma sol_arrival_new:
  assumes "q \<noteq> l_sol_last_seq st" and "q \<noteq> 0" and "length d < 256"
  shows "sol_new_data (sol_arrival st q d) = d" and "l_sol_last_seq (sol_arrival st q d) = q"
    and "unat (l_sol_last_count (sol_arrival st q d)) = length d"
  using assms
  by (simp_all add: sol_new_data_def sol_arrival_def check_sol_packet_for_new_data_def is_sol_packet_def unat_of_nat)

lemma sol_arrival_again:
  assumes "q = l_sol_last_seq st" and "q \<noteq> 0" and "length d < 256" and "unat (l_sol_last_count st) = length v" and "take (length v) d = v"
  shows "sol_new_data (sol_arrival st q d) = drop (length v) d" and "l_sol_last_seq (sol_arrival st q d) = q"
    and "unat (l_sol_last_count (sol_arrival st q d)) = length d"
proof -
  have le: "length v \<le> length d" using assms(5) by (metis length_take min.absorb_iff1 min.cobounded1 min.commute)
  have u: "uint (l_sol_last_count st) = int (length v)" using assms(4) by (metis unat_eq_nat_uint uint_nat)
  have n: "nat (int (length d) - int (length v)) = length d - length v" "nat (int (length d) - (int (length d) - int (length v))) = length v"
    using le by auto
  show "sol_new_data (sol_arrival st q d) = drop (length v) d"
    using assms(1,2) le
    by (auto simp: sol_new_data_def sol_arrival_def check_sol_packet_for_new_data_def is_sol_packet_def u n put_at_def Let_def)
  show "l_sol_last_seq (sol_arrival st q d) = q" "unat (l_sol_last_count (sol_arrival st q d)) = length d"
    using assms(1-3)
    by (simp_all add: sol_arrival_def check_sol_packet_for_new_data_def is_sol_packet_def unat_of_nat Let_def)
qed

lemma grows_last: "grows (v # vs) \<Longrightarrow> take (length v) (last (v # vs)) = v"
proof (induction vs arbitrary: v)
  case (Cons y ys)
  then have y: "take (length y) (last (y # ys)) = y" and v: "take (length v) y = v" by simp_all
  have "length v \<le> length y" using v by (metis length_take min.cobounded1 min.commute)
  then have "take (length v) (take (length y) (last (y # ys))) = take (length v) (last (y # ys))" by (simp add: min_def)
  then have "take (length v) (last (y # ys)) = v" unfolding y v by simp
  then show ?case by (simp split: if_splits)
qed simp

lemma sol_stream_again:
  assumes "grows (v # vs)" and "\<forall>w\<in>set vs. length w < 256" and "q \<noteq> 0" and "l_sol_last_seq st = q" and "unat (l_sol_last_count st) = length v"
  shows "\<exists>st'. l_sol_last_seq st' = q
    \<and> sol_stream st (map (Pair q) vs @ ps) = drop (length v) (last (v # vs)) @ sol_stream st' ps"
  using assms
proof (induction vs arbitrary: v st)
  case Nil
  then show ?case by (auto intro: exI [of _ st])
next
  case (Cons w vs)
  have vw: "take (length v) w = v" and g: "grows (w # vs)" using Cons.prems(1) by simp_all
  note a = sol_arrival_again [of q st w v, OF _ Cons.prems(3) _ Cons.prems(5) vw]
  let ?st1 = "sol_arrival st q w"
  have st1: "sol_new_data ?st1 = drop (length v) w" "l_sol_last_seq ?st1 = q" "unat (l_sol_last_count ?st1) = length w"
    using a Cons.prems(2,4) by simp_all
  from Cons.IH [OF g _ Cons.prems(3) st1(2,3)] Cons.prems(2) obtain st' where
    st': "l_sol_last_seq st' = q" "sol_stream ?st1 (map (Pair q) vs @ ps) = drop (length w) (last (w # vs)) @ sol_stream st' ps" by auto
  have "drop (length v) w @ drop (length w) (last (w # vs)) = drop (length v) (last (w # vs))"
  proof -
    have "last (w # vs) = w @ drop (length w) (last (w # vs))" by (metis append_take_drop_id grows_last [OF g])
    moreover have "length v \<le> length w" using vw by (metis length_take min.cobounded1 min.commute)
    ultimately show ?thesis by (metis drop_append diff_is_0_eq drop_0)
  qed
  with st' st1(1) show ?case by (intro exI [of _ st']) (simp add: Let_def)
qed

lemma sol_stream_blocks:
  "blocks_ok (l_sol_last_seq st) bs \<Longrightarrow> sol_stream st (concat (map (\<lambda>(q, vs). map (Pair q) vs) bs)) = concat (map (\<lambda>(q, vs). last vs) bs)"
proof (induction bs arbitrary: st)
  case Nil
  then show ?case by simp
next
  case (Cons b bs)
  obtain q v vs where b: "b = (q, v # vs)" using Cons.prems by (cases b; cases "snd b") auto
  have h: "q \<noteq> l_sol_last_seq st" "q \<noteq> 0" "grows (v # vs)" "length v < 256" "\<forall>w\<in>set vs. length w < 256" "blocks_ok q bs"
    using Cons.prems b by auto
  note new = sol_arrival_new [OF h(1,2,4)]
  let ?st1 = "sol_arrival st q v"
  let ?rest = "concat (map (\<lambda>(q, vs). map (Pair q) vs) bs)"
  from sol_stream_again [OF h(3,5,2) new(2,3)] obtain st' where
    st': "l_sol_last_seq st' = q" "sol_stream ?st1 (map (Pair q) vs @ ?rest) = drop (length v) (last (v # vs)) @ sol_stream st' ?rest" by blast
  have pre: "v @ drop (length v) (last (v # vs)) = last (v # vs)" by (metis append_take_drop_id grows_last [OF h(3)])
  have "sol_stream st' ?rest = concat (map (\<lambda>(q, vs). last vs) bs)"
    using Cons.IH [of st'] st'(1) h(6) by simp
  with st'(2) new(1) pre b show ?case by (simp add: Let_def)
qed


section \<open>Properties\<close>

text \<open>
  C34: characters sent over a serial-over-LAN session arrive complete and in order at a BMC
  that acknowledges every packet and accepts at least one character of each, in whatever
  portions: what it takes from the packets is, taken together, exactly what the caller gave,
  one packet goes out for each portion, and the call returns with the last acknowledgement
  when the last character is accepted. The sends of the network succeed, and at most 255
  characters are given.
\<close>

theorem sol_send_delivers:
  assumes "session (l_intf st) = Some s" and "l_sends st = []" and "\<not> noanswer (l_intf st)" and "sol_sequence_number (sol s) \<in> {1..16}"
    and "l_net st = sol_bmc_acks at sq ctl (session_id s) (sol_sequence_number (sol s)) as @ es"
    and "as \<noteq> []" and "\<forall>a\<in>set as. 0 < a" and "sum_list as = sp_character_count p"
    and "sp_character_count p \<le> length (sp_data p)" and "sp_character_count p < 256"
  shows "\<exists>p' st' ms. ipmi_lan_send_sol p st = Inr (True, p', st') \<and> l_net st' = es \<and> l_out st' = l_out st @ ms
    \<and> length ms = length as \<and> sol_bmc_takes ms as = take (sp_character_count p) (sp_data p)"
proof -
  from assms(6) obtain a bs where as: "as = a # bs" by (cases as) auto
  let ?n = "sol_sequence_number (sol s)" and ?sid = "session_id s"
  have "sol_ready st ?sid ?n" using assms(1-3) by (simp add: sol_ready_def)
  from set_sol_ready [OF this, of "p\<lparr>sp_acked_packet_number := 0\<rparr>"] obtain st1 where
    set: "set_sol_packet_sequence_number (p\<lparr>sp_acked_packet_number := 0\<rparr>) st = Inr (p\<lparr>sp_acked_packet_number := 0, sp_packet_sequence_number := sol_number ?n\<rparr>, st1)"
    and st1: "sol_ready st1 ?sid (sol_number ?n + 1)" "l_net st1 = l_net st" "l_out st1 = l_out st" by auto
  let ?p2 = "p\<lparr>sp_acked_packet_number := 0, sp_packet_sequence_number := sol_number ?n, sp_accepted_character_count := 0\<rparr>"
  from sol_number_range [OF assms(4)] have q: "sol_number ?n \<in> {1..15}" "sol_number ?n + 1 \<in> {1..16}" by simp_all
  have net: "l_net st1 = Net_packet (sol_bmc_ack at sq ctl ?sid (sol_number ?n) a) # sol_bmc_acks at sq ctl ?sid (sol_number ?n + 1) bs @ es"
    using st1(2) assms(5) as by simp
  from send_payload_acked [OF st1(1) net _ q(1), of ?p2] obtain st2 m where
    pay: "ipmi_lan_send_sol_payload ?p2 st1 = Inr (True, st2)" and st2: "sol_ready st2 ?sid (sol_number ?n + 1)"
      "l_net st2 = sol_bmc_acks at sq ctl ?sid (sol_number ?n + 1) bs @ es" "l_out st2 = l_out st @ [m]" "drop sol_data_offset m = sol_chars ?p2"
    and r: "r_payloadtype (l_rsp st2) = PAYLOAD_SOL" "r_sol_acked (l_rsp st2) = sp_packet_sequence_number ?p2" "r_sol_accepted (l_rsp st2) = word_of_nat a"
    using st1(3) by auto
  have "0 < a" "\<forall>c\<in>set bs. 0 < c" "a + sum_list bs = sp_character_count ?p2" "sp_character_count ?p2 \<le> length (sp_data ?p2)" "sp_character_count ?p2 < 256"
    using assms(7-10) as by auto
  from resend_loop_delivers [OF st2(1) q(2) st2(2) r this] obtain p' st' ms where
    rec: "sol_resend_loop ?p2 True st2 = Inr (True, p', st')" "l_net st' = es" "l_out st' = l_out st2 @ ms" "length ms = length bs"
      "take a (sol_chars ?p2) @ sol_bmc_takes ms bs = sol_chars ?p2" by blast
  have "ipmi_lan_send_sol p st = Inr (True, p', st')" using set pay rec(1) by (simp add: ipmi_lan_send_sol_def Let_def)
  moreover have "sol_bmc_takes (m # ms) as = take (sp_character_count p) (sp_data p)"
    using rec(5) st2(4) as by (simp add: sol_bmc_takes_def) (simp add: sol_chars_def)
  ultimately show ?thesis using rec(2-4) st2(3) as by (intro exI [of _ p'] exI [of _ st'] exI [of _ "m # ms"]) simp
qed

text \<open>
  Whatever the network does, sending characters keeps the sequence numbers between 1 and 15
  and the character array at its size, and ends with a response that does not ask for
  another part.
\<close>

lemma sol_send_in_bounds:
  assumes "ipmi_lan_send_sol p st = Inr (got, p', st')" and "sp_character_count p \<le> length (sp_data p)"
    and "session (l_intf st) = Some s" and "sol_sequence_number (sol s) \<in> {1..16}"
  shows "is_sol_partial_ack p' got (l_rsp st') = 0 \<and> sp_packet_sequence_number p' \<in> {1..15}
    \<and> (\<forall>s'. session (l_intf st') = Some s' \<longrightarrow> sol_sequence_number (sol s') \<in> {1..16}) \<and> length (sp_data p') = length (sp_data p)"
proof -
  have ok: "sol_seq_ok st" using assms(3,4) by (simp add: sol_seq_ok_def sol_state_def)
  from assms(1) obtain p1 st1 got2 st2 where set: "set_sol_packet_sequence_number (p\<lparr>sp_acked_packet_number := 0\<rparr>) st = Inr (p1, st1)"
    and pay: "ipmi_lan_send_sol_payload (p1\<lparr>sp_accepted_character_count := 0\<rparr>) st1 = Inr (got2, st2)"
    and loop: "sol_resend_loop (p1\<lparr>sp_accepted_character_count := 0\<rparr>) got2 st2 = Inr (got, p', st')"
    by (auto simp: ipmi_lan_send_sol_def sum_bind_Inr Let_def)
  from set_sol_seq [OF set ok] obtain q where q: "q \<in> {1..15}" and p1: "p1 = p\<lparr>sp_acked_packet_number := 0, sp_packet_sequence_number := q\<rparr>"
    and ok1: "sol_seq_ok st1" by auto
  have ok2: "sol_seq_ok st2" using ok1 sol_seq_ok_state [OF send_payload_state [OF pay]] by simp
  from sol_resend_in_bounds [OF loop ok2] q p1 assms(2) show ?thesis
    by (auto simp: sol_seq_ok_def sol_state_def)
qed

text \<open>
  An acknowledgement without characters is exactly as long as its headers; the test that
  moves the data to the start of the array is strict, so the length stays 19 and the bytes
  of the headers count as characters received.
\<close>

lemma sol_ack_taken_for_data:
  assumes "session (l_intf st) = Some s" and "l_net st = [Net_packet (sol_bmc_ack at sq ctl (session_id s) q a)]" and "q \<in> {1..15}"
    and "l_sol_last_seq st \<noteq> 0"
  shows "\<exists>st'. ipmi_lan_recv_sol st = Inr (True, st') \<and> r_data_len (l_rsp st') = 19
    \<and> take 19 (r_data (l_rsp st')) = sol_bmc_ack at sq ctl (session_id s) q a"
  using recv_sol_ack_data [OF assms(1,2,3,4)] .

text \<open>
  C35: when the BMC repeats packets because acknowledgements got lost, each repetition
  extending the one before, the characters passed on are those of the last version of every
  packet, in order: nothing twice, nothing lost.
\<close>

theorem sol_receives_once:
  assumes "blocks_ok (l_sol_last_seq st) bs"
  shows "sol_stream st (concat (map (\<lambda>(q, vs). map (Pair q) vs) bs)) = concat (map (\<lambda>(q, vs). last vs) bs)"
  using assms by (rule sol_stream_blocks)

section \<open>Witnesses\<close>

theorem sol_receives_once_witness:
  "sol_stream sample_lan [(1, [0x61]), (1, [0x61, 0x62]), (1, [0x61, 0x62]), (2, [0x63])] = [0x61, 0x62, 0x63]"
proof -
  have "blocks_ok (l_sol_last_seq sample_lan) [(1, [[0x61], [0x61, 0x62], [0x61, 0x62]]), (2, [[0x63]])]"
    by (simp add: sample_lan_def)
  from sol_receives_once [OF this] show ?thesis by simp
qed


definition sample_sol :: sol_packet where
  "sample_sol = (sol_ack 0 0)\<lparr>sp_data := [0x68, 0x69, 0x6A], sp_character_count := 3\<rparr>"

text \<open>The BMC takes two of the three characters, then the last one.\<close>

definition sol_lan :: lan_state where
  "sol_lan = sample_lan\<lparr>l_net := sol_bmc_acks 0 1 0 0x01020304 1 [2, 1]\<rparr>"

theorem sol_send_delivers_witness:
  "\<exists>p' st' m1 m2. ipmi_lan_send_sol sample_sol sol_lan = Inr (True, p', st') \<and> l_net st' = [] \<and> l_out st' = [m1, m2]
     \<and> take 2 (drop 19 m1) @ take 1 (drop 19 m2) = [0x68, 0x69, 0x6A]"
proof -
  have s: "session (l_intf sol_lan) = Some sample_session" "l_sends sol_lan = []" "\<not> noanswer (l_intf sol_lan)"
    "sol_sequence_number (sol sample_session) = 1" "session_id sample_session = 0x01020304" "l_out sol_lan = []"
    by (simp_all add: sol_lan_def sample_lan_def sample_intf_def sample_session_def)
  have net: "l_net sol_lan = sol_bmc_acks 0 1 0 (session_id sample_session) (sol_sequence_number (sol sample_session)) [2, 1] @ []"
    using s(4,5) by (simp add: sol_lan_def)
  from sol_send_delivers [OF s(1-3) _ net, of sample_sol] s obtain p' st' ms where
    r: "ipmi_lan_send_sol sample_sol sol_lan = Inr (True, p', st')" "l_net st' = []" "l_out st' = ms" "length ms = 2"
      "sol_bmc_takes ms [2, 1] = [0x68, 0x69, 0x6A]" by (auto simp: sample_sol_def)
  from r(4) obtain m1 m2 where "ms = [m1, m2]" by (auto simp: numeral_2_eq_2 length_Suc_conv)
  with r show ?thesis by (auto simp: sol_bmc_takes_def sol_data_offset_def)
qed

end
