(* ===== verification/Lan_Steps.thy ===== *)
theory Lan_Steps
  imports Lan_Sol
begin

text \<open>
  The operations of the IPMI 1.5 LAN interface of src/plugins/lan/lan.c as steps of one
  state machine: open, send, keep alive, close, serial over LAN, and between them changes of
  the parameters and of the target and any behaviour of the network. The invariant of the
  reachable states is shown by rule induction.
\<close>

section \<open>Serial over LAN keeps the session\<close>

lemma up_same_intf: "up_and_sized st \<Longrightarrow> l_intf st' = l_intf st \<Longrightarrow> up_and_sized st'"
  by (simp add: up_and_sized_def session_up_def good_session_def)

lemma up_session: "up_and_sized st \<Longrightarrow> session (l_intf st) \<noteq> None"
  by (auto simp: up_and_sized_def session_up_def good_session_def split: option.splits)

lemma up_upd_session:
  assumes "up_and_sized st" and "\<And>s. active (f s) = active s" and "\<And>s. in_seq s \<noteq> 0 \<Longrightarrow> in_seq (f s) \<noteq> 0"
    and "\<And>s. authstatus (f s) = authstatus s" and "\<And>s. authtype (f s) = authtype s"
  shows "up_and_sized (upd_session f st)"
  using assms by (auto simp: up_and_sized_def session_up_def good_session_def upd_session_def sizes_ok_def split: option.splits)

lemma sol_next_in_seq_nonzero: "sol_next_in_seq n \<noteq> 0"
  by (auto simp: sol_next_in_seq_def Let_def)

lemma poll_recv_up: "up_and_sized st \<Longrightarrow> safe_result up_and_sized is_null (ipmi_lan_poll_recv st)"
  using poll_recv_broken [of st] up_session [of st] lan_frame_fields(1) [OF poll_recv_frame, of st]
  by (cases "ipmi_lan_poll_recv st") (auto simp: is_null_def intro: up_same_intf)

lemma build_sol_up: "up_and_sized st \<Longrightarrow> safe_result up_and_sized is_null (ipmi_lan_build_sol_msg p st)"
  using up_session [of st]
  by (auto simp: ipmi_lan_build_sol_msg_def sol_next_in_seq_nonzero intro!: up_upd_session)

lemma ack_send_up: "up_and_sized st \<Longrightarrow> up_and_sized (ack_send msg st)"
  using ack_send_frame [of msg st] by (auto intro: up_same_intf)

lemma ack_sol_up:
  assumes "up_and_sized st"
  shows "case ack_sol_packet got st of Inl e \<Rightarrow> \<not> is_null e | Inr st' \<Rightarrow> up_and_sized st'"
  using build_sol_up [OF assms, of "sol_ack (r_sol_seq (l_rsp st)) (r_data_len (l_rsp st))"] assms
  by (cases "ipmi_lan_build_sol_msg (sol_ack (r_sol_seq (l_rsp st)) (r_data_len (l_rsp st))) st")
    (auto simp: ack_sol_packet_def Let_def ack_send_up)

lemma recv_sol_up:
  assumes "up_and_sized st"
  shows "safe_result up_and_sized is_null (ipmi_lan_recv_sol st)"
  unfolding ipmi_lan_recv_sol_def
proof (rule safe_result_bind [OF poll_recv_up [OF assms]])
  fix got st1 assume "up_and_sized st1"
  with ack_sol_up [of st1 got] show "safe_result up_and_sized is_null ((\<lambda>(got, st1).
      sum_bind (ack_sol_packet got st1) (\<lambda>st2. Inr (got, check_sol_packet_for_new_data got st2))) (got, st1))"
    by (cases "ack_sol_packet got st1") (auto intro: up_same_intf simp: check_new_frame)
qed

lemma payload_loop_up: "up_and_sized st \<Longrightarrow> safe_result up_and_sized is_null (sol_payload_loop p msg n st)"
proof (induction p msg n st rule: sol_payload_loop.induct)
  case (1 p msg n st)
  obtain b st1 where s: "ipmi_lan_send_packet msg st = (b, st1)" by fastforce
  have up1: "up_and_sized st1" using send_packet_sends [OF s] 1(3) by (auto intro: up_same_intf)
  show ?case
  proof (cases b)
    case False
    with 1(2) [OF s [symmetric]] s up1 show ?thesis by (simp add: sol_payload_loop.simps [of p msg n st])
  next
    case True
    have s': "ipmi_lan_send_packet msg st = (True, st1)" using s True by simp
    show ?thesis
    proof (cases "noanswer (l_intf st1) \<or> sp_packet_sequence_number p = 0")
      case True
      with s' up1 show ?thesis by (simp add: sol_payload_loop.simps [of p msg n st])
    next
      case wait: False
      note up2 = recv_sol_up [OF up1]
      show ?thesis
      proof (cases "ipmi_lan_recv_sol st1")
        case (Inl e)
        with wait s' up2 show ?thesis by (simp add: sol_payload_loop.simps [of p msg n st])
      next
        case (Inr r)
        obtain got2 st2 where r: "ipmi_lan_recv_sol st1 = Inr (got2, st2)" using Inr by (cases r) auto
        let ?st3 = "if is_sol_packet got2 (l_rsp st2) \<and> r_data_len (l_rsp st2) \<noteq> 0 then sol_input_handler st2 else st2"
        have up3: "up_and_sized st2" "up_and_sized ?st3" using up2 r by (auto simp: sol_input_handler_def intro: up_same_intf)
        have "safe_result up_and_sized is_null (sol_payload_loop p msg (n + 1) ?st3)"
          if "\<not> sol_response_acks_packet got2 (l_rsp st2) p" "\<not> int (n + 1) \<ge> retry (ssn_params (l_intf ?st3))"
          using 1(1) [OF s' [symmetric] _ wait r _ that(1) refl that(2) up3(2)] by simp
        with s' wait r up3 show ?thesis by (simp add: sol_payload_loop.simps [of p msg n st] Let_def)
      qed
    qed
  qed
qed

lemma send_payload_up: "up_and_sized st \<Longrightarrow> safe_result up_and_sized is_null (ipmi_lan_send_sol_payload p st)"
  unfolding ipmi_lan_send_sol_payload_def by (rule safe_result_bind [OF build_sol_up]) (auto intro: payload_loop_up)

lemma set_seq_up: "up_and_sized st \<Longrightarrow> safe_result up_and_sized is_null (set_sol_packet_sequence_number p st)"
  using up_session [of st] by (auto simp: set_sol_packet_sequence_number_def Let_def intro!: up_upd_session)

definition sol_sent_up :: "lan_error + bool \<times> sol_packet \<times> lan_state \<Rightarrow> bool" where
  "sol_sent_up r = (case r of Inl e \<Rightarrow> \<not> is_null e | Inr (_, _, st) \<Rightarrow> up_and_sized st)"

lemma resend_loop_up: "up_and_sized st \<Longrightarrow> sol_sent_up (sol_resend_loop p got st)"
proof (induction p got st rule: sol_resend_loop.induct)
  case (1 p got st)
  let ?n = "is_sol_partial_ack p got (l_rsp st)"
  show ?case
  proof (cases "?n = 0")
    case True
    with 1(2) show ?thesis by (simp add: sol_resend_loop.simps [of p got st] sol_sent_up_def)
  next
    case False
    let ?st1 = "if r_data_len (l_rsp st) \<noteq> 0 then sol_input_handler st else st"
    have "up_and_sized ?st1" using 1(2) by (auto simp: sol_input_handler_def intro: up_same_intf)
    note up2 = set_seq_up [OF this, of p]
    show ?thesis
    proof (cases "set_sol_packet_sequence_number p ?st1")
      case (Inl e)
      with up2 False show ?thesis by (simp add: sol_resend_loop.simps [of p got st] sol_sent_up_def)
    next
      case (Inr r)
      obtain p1 st2 where set: "set_sol_packet_sequence_number p ?st1 = Inr (p1, st2)" using Inr by (cases r) auto
      let ?p2 = "p1\<lparr>sp_data := put_at 0 (take ?n (drop (unat (r_sol_accepted (l_rsp st))) (sp_data p1))) (sp_data p1), sp_character_count := ?n\<rparr>"
      have "up_and_sized st2" using up2 set by simp
      note up3 = send_payload_up [OF this, of ?p2]
      show ?thesis
      proof (cases "ipmi_lan_send_sol_payload ?p2 st2")
        case (Inl e)
        with up3 False set show ?thesis by (simp add: sol_resend_loop.simps [of p got st] sol_sent_up_def Let_def)
      next
        case (Inr r)
        obtain got3 st3 where pay: "ipmi_lan_send_sol_payload ?p2 st2 = Inr (got3, st3)" using Inr by (cases r) auto
        have "sol_sent_up (sol_resend_loop ?p2 got3 st3)"
          by (rule 1(1) [OF refl False refl refl set refl refl pay refl]) (use up3 pay in simp)
        with False set pay show ?thesis by (simp add: sol_resend_loop.simps [of p got st] Let_def)
      qed
    qed
  qed
qed

lemma send_sol_up:
  assumes "up_and_sized st"
  shows "sol_sent_up (ipmi_lan_send_sol p st)"
proof (cases "set_sol_packet_sequence_number (p\<lparr>sp_acked_packet_number := 0\<rparr>) st")
  case (Inl e)
  with set_seq_up [OF assms, of "p\<lparr>sp_acked_packet_number := 0\<rparr>"] show ?thesis by (simp add: ipmi_lan_send_sol_def sol_sent_up_def)
next
  case (Inr r)
  obtain p1 st1 where r: "r = (p1, st1)" by fastforce
  have "up_and_sized st1" using set_seq_up [OF assms, of "p\<lparr>sp_acked_packet_number := 0\<rparr>"] Inr r by simp
  with send_payload_up [of st1 "p1\<lparr>sp_accepted_character_count := 0\<rparr>"] show ?thesis
    using Inr r by (cases "ipmi_lan_send_sol_payload (p1\<lparr>sp_accepted_character_count := 0\<rparr>) st1")
      (auto simp: ipmi_lan_send_sol_def sol_sent_up_def resend_loop_up [unfolded sol_sent_up_def])
qed


section \<open>Steps of the transport\<close>

text \<open>
  The life of an interface: its operations in any order, between them any change of the
  parameters and of the target, and any behaviour of the network. The system gives
  descriptors that are not negative. Serial-over-LAN packets are sent and received on an
  open interface: the console opens it and sends a command before it starts.
\<close>

definition os_ok :: "lan_os \<Rightarrow> bool" where
  "os_ok os \<longleftrightarrow> (\<forall>p d. fst (os_connect os p d) \<noteq> -1 \<longrightarrow> 0 \<le> snd (os_connect os p d))"

inductive lan_step :: "md2_lib \<Rightarrow> lan_state \<Rightarrow> lan_state \<Rightarrow> bool" for md2 where
  step_open: "os_ok os \<Longrightarrow> ipmi_lan_open md2 os st = Inr (rc, st') \<Longrightarrow> lan_step md2 st st'"
| step_send: "os_ok os \<Longrightarrow> ipmi_lan_send_cmd md2 os req st = Inr (b, st') \<Longrightarrow> lan_step md2 st st'"
| step_keepalive: "ipmi_lan_keepalive md2 st = Inr (rc, st') \<Longrightarrow> lan_step md2 st st'"
| step_close: "ipmi_lan_close md2 st = Inr st' \<Longrightarrow> lan_step md2 st st'"
| step_recv_sol: "opened (l_intf st) \<Longrightarrow> ipmi_lan_recv_sol st = Inr (b, st') \<Longrightarrow> lan_step md2 st st'"
| step_send_sol: "opened (l_intf st) \<Longrightarrow> ipmi_lan_send_sol p st = Inr (b, p', st') \<Longrightarrow> lan_step md2 st st'"
| step_params: "lan_step md2 st (mod_lan_intf (\<lambda>i. run_param_op i pop) st)"
| step_target: "lan_step md2 st (mod_lan_intf (\<lambda>i. i\<lparr>target_addr := ta, target_channel := tc, transit_addr := ra, transit_channel := rc\<rparr>) st)"
| step_network: "lan_step md2 st (st\<lparr>l_net := es, l_sends := ss, l_random := rs\<rparr>)"

inductive_cases lan_stepE [elim]: "lan_step md2 st st'"

definition lan_start :: "lan_state \<Rightarrow> bool" where
  "lan_start st \<longleftrightarrow> closed_link st \<and> (\<exists>i. l_intf st = snd (ipmi_lan_setup i))"

definition lan_inv :: "lan_state \<Rightarrow> bool" where
  "lan_inv st \<longleftrightarrow> (closed_link st \<or> session_up st) \<and> sizes_ok (l_intf st)"

lemma run_param_op_link:
  "opened (run_param_op i pop) = opened i" "session (run_param_op i pop) = session i" "fd (run_param_op i pop) = fd i"
  "abort (run_param_op i pop) = abort i" "max_request_data_size (run_param_op i pop) = max_request_data_size i"
  "max_response_data_size (run_param_op i pop) = max_response_data_size i"
  by (cases pop; simp add: upd_params_def ipmi_intf_session_set_hostname_def ipmi_intf_session_set_username_def
      ipmi_intf_session_set_password_def ipmi_intf_session_set_privlvl_def
      ipmi_intf_session_set_lookupbit_def ipmi_intf_session_set_cipher_suite_id_def ipmi_intf_session_set_kgkey_def
      ipmi_intf_session_set_sol_escape_char_def ipmi_intf_session_set_port_def ipmi_intf_session_set_authtype_def
      ipmi_intf_session_set_timeout_def ipmi_intf_session_set_retry_def)+

lemma lan_open_result:
  assumes "os_ok os" and "lan_inv st" and "\<not> opened (l_intf st)"
  shows "safe_result (\<lambda>st'. lan_inv st') is_null (ipmi_lan_open md2 os st)
    \<and> (\<forall>rc st'. ipmi_lan_open md2 os st = Inr (rc, st') \<longrightarrow> (if rc < 0 then closed_link st' else session_up st' \<and> l_bridge_possible st'))"
proof -
  let ?st1 = "mod_lan_intf (\<lambda>i. i\<lparr>ssn_params := lan_defaults (ssn_params i)\<rparr>) st"
  obtain rc d where con: "os_connect os (ssn_params (l_intf ?st1)) (fd (l_intf ?st1)) = (rc, d)" by fastforce
  let ?st2 = "mod_lan_intf (\<lambda>i. i\<lparr>fd := d\<rparr>) ?st1"
  have inv: "closed_link ?st1" "closed_link ?st2" "sizes_ok (l_intf ?st1)" "sizes_ok (l_intf ?st2)"
    using assms(2,3) by (auto simp: lan_inv_def closed_link_def session_up_def mod_lan_intf_def sizes_ok_def)
  show ?thesis
  proof (cases "(case hostname (ssn_params (l_intf ?st1)) of None \<Rightarrow> True | Some h \<Rightarrow> length h = 0) \<or> rc = -1")
    case True
    with con inv assms(3) show ?thesis by (auto simp: ipmi_lan_open_def Let_def lan_inv_def)
  next
    case False
    then have eq: "ipmi_lan_open md2 os st = lan_open_session md2 os ?st2"
      using con assms(3) by (simp add: ipmi_lan_open_def Let_def)
    have "fst (os_connect os (ssn_params (l_intf ?st1)) (fd (l_intf ?st1))) \<noteq> -1" using con False by simp
    then have "0 \<le> snd (os_connect os (ssn_params (l_intf ?st1)) (fd (l_intf ?st1)))" using assms(1) unfolding os_ok_def by blast
    then have "0 \<le> fd (l_intf ?st2)" using con by (simp add: mod_lan_intf_def)
    from lan_open_session_result [OF inv(4) this, of md2 os] show ?thesis
      unfolding eq by (cases "lan_open_session md2 os ?st2")
        (auto simp: lan_opened_def is_null_def lan_inv_def up_and_sized_def split: if_splits)
  qed
qed

lemma lan_inv_up: "lan_inv st \<Longrightarrow> opened (l_intf st) \<Longrightarrow> up_and_sized st"
  by (auto simp: lan_inv_def closed_link_def up_and_sized_def)

lemma up_inv: "up_and_sized st \<Longrightarrow> lan_inv st"
  by (simp add: lan_inv_def up_and_sized_def)

lemma send_loop_inv: "lan_inv st \<Longrightarrow> opened (l_intf st) \<Longrightarrow> safe_result lan_inv is_null (send_loop md2 req n st)"
  by (rule safe_result_mono [OF send_loop_safe up_inv]) (rule lan_inv_up)

lemma lan_send_cmd_safe:
  assumes "os_ok os" and "lan_inv st"
  shows "safe_result lan_inv is_null (ipmi_lan_send_cmd md2 os req st)"
proof (cases "opened (l_intf st)")
  case True
  with assms send_loop_inv show ?thesis by (simp add: ipmi_lan_send_cmd_def)
next
  case False
  note op = lan_open_result [OF assms False, of md2]
  have "safe_result lan_inv is_null (if rc < 0 then Inr (False, st') else send_loop md2 req 0 st')"
    if "ipmi_lan_open md2 os st = Inr (rc, st')" "lan_inv st'" for rc st'
    using op that by (auto intro!: send_loop_inv simp: session_up_def)
  then show ?thesis
    using False unfolding ipmi_lan_send_cmd_def by (auto intro!: safe_result_bind [OF conjunct1 [OF op]])
qed

lemma lan_step_inv: "lan_step md2 st st' \<Longrightarrow> lan_inv st \<Longrightarrow> lan_inv st'"
proof (induction rule: lan_step.induct)
  case (step_open os st rc st')
  show ?case
  proof (cases "opened (l_intf st)")
    case True
    with step_open show ?thesis by (simp add: ipmi_lan_open_def)
  next
    case False
    from lan_open_result [OF step_open(1,3) False, of md2] step_open(2) show ?thesis by simp
  qed
next
  case (step_send os req st b st')
  from lan_send_cmd_safe [OF step_send(1,3), of md2 req] step_send(2) show ?case by simp
next
  case (step_keepalive st rc st')
  then show ?case using send_loop_inv [of st md2 "mk_rq 0x06 1 []" 0]
    by (auto simp: ipmi_lan_keepalive_def sum_bind_Inr split: if_splits)
next
  case (step_close st st')
  from lan_close_closed [OF step_close(1)] step_close(2) show ?case by (simp add: lan_inv_def)
next
  case (step_recv_sol st b st')
  with recv_sol_up [OF lan_inv_up [OF step_recv_sol(3,1)]] show ?case by (simp add: up_inv)
next
  case (step_send_sol st p b p' st')
  with send_sol_up [OF lan_inv_up [OF step_send_sol(3,1)], of p] show ?case by (simp add: sol_sent_up_def up_inv)
qed (auto simp: lan_inv_def closed_link_def session_up_def good_session_def sizes_ok_def mod_lan_intf_def run_param_op_link)

lemma lan_start_inv: "lan_start st \<Longrightarrow> lan_inv st"
  by (auto simp: lan_start_def lan_inv_def ipmi_lan_setup_def sizes_ok_def)


section \<open>Properties\<close>


text \<open>
  C33: opening an interface that is closed has two outcomes. Success: the descriptor is
  returned, the session is active and bridging is allowed. Failure, at whatever step: a negative
  number is returned, the interface is closed again and keeps no session.
\<close>

theorem lan_open_outcomes:
  assumes "lan_start st0" and "(lan_step md2)\<^sup>*\<^sup>* st0 st" and "os_ok os" and "\<not> opened (l_intf st)"
    and "ipmi_lan_open md2 os st = Inr (rc, st')"
  shows "rc < 0 \<and> \<not> opened (l_intf st') \<and> session (l_intf st') = None
    \<or> rc \<ge> 0 \<and> opened (l_intf st') \<and> 0 \<le> fd (l_intf st') \<and> l_bridge_possible st' \<and> \<not> abort (l_intf st')
      \<and> (\<exists>s. session (l_intf st') = Some s \<and> active s \<and> in_seq s \<noteq> 0 \<and> (authstatus s AND AUTHSTATUS_PER_MSG_DISABLED \<noteq> 0 \<longrightarrow> authtype s = 0))"
proof -
  have "lan_inv st" using assms(2,1) by (induction rule: rtranclp_induct) (auto intro: lan_start_inv lan_step_inv)
  from lan_open_result [OF assms(3) this assms(4), of md2] assms(5) show ?thesis
    by (auto simp: closed_link_def session_up_def good_session_def split: option.splits if_splits)
qed

section \<open>Witnesses\<close>

definition fresh_lan :: lan_state where
  "fresh_lan = sample_lan\<lparr>l_intf := sample_intf\<lparr>opened := False\<rparr>, l_net := []\<rparr>"

definition no_route :: lan_os where
  "no_route = \<lparr>os_connect = (\<lambda>p d. (-1, -1)), os_getsockname = True, os_sel_iana = 0\<rparr>"

lemma fresh_lan_start: "lan_start fresh_lan"
  by (auto simp: lan_start_def closed_link_def fresh_lan_def sample_intf_def ipmi_lan_setup_def intro!: exI [of _ "sample_intf\<lparr>opened := False\<rparr>"])

lemma no_route_ok: "os_ok no_route"
  by (simp add: os_ok_def no_route_def)

lemma no_route_open: "\<exists>st'. ipmi_lan_open None no_route fresh_lan = Inr (-1, st')"
  by (simp add: ipmi_lan_open_def fresh_lan_def sample_intf_def sample_params_def lan_defaults_def mod_lan_intf_def no_route_def)


theorem lan_open_outcomes_witness:
  "\<exists>st'. ipmi_lan_open None no_route fresh_lan = Inr (-1, st') \<and> \<not> opened (l_intf st') \<and> session (l_intf st') = None"
proof -
  from no_route_open obtain st' where o: "ipmi_lan_open None no_route fresh_lan = Inr (-1, st')" by blast
  have "\<not> opened (l_intf fresh_lan)" by (simp add: fresh_lan_def)
  from lan_open_outcomes [OF fresh_lan_start rtranclp.rtrancl_refl no_route_ok this o] o show ?thesis by auto
qed

end
