(* ===== verification/Fru.thy ===== *)
theory Fru
  imports Command
begin

text \<open>
  FRU inventory data, lib/ipmi_fru.c: area checksums, the encoded strings of an area, reading
  and writing an area in pieces, the division of an inventory into blocs, multi-record areas,
  the location of the internal use area, copying an inventory to and from a file.

  The functions run over the \<open>sendrecv\<close> function of the interface; what the interface
  reports as its largest request and response is an argument. A buffer is a list of bytes
  and a C string the bytes before its end. Memory allocation succeeds.
\<close>

section \<open>Structures\<close>

record fru_info =
  fru_size :: nat
  fru_access :: bool
  fru_max_read_size :: nat
  fru_max_write_size :: nat

definition wf_fru :: "fru_info \<Rightarrow> bool" where
  "wf_fru f \<longleftrightarrow> fru_size f < 2 ^ 16 \<and> fru_max_read_size f < 256 \<and> fru_max_write_size f < 256"

record fru_header =
  fh_version :: byte
  fh_internal :: byte
  fh_chassis :: byte
  fh_board :: byte
  fh_product :: byte
  fh_multi :: byte
  fh_pad :: byte
  fh_checksum :: byte

definition fru_header_of :: "byte list \<Rightarrow> fru_header" where
  "fru_header_of d = \<lparr>fh_version = d ! 0, fh_internal = d ! 1, fh_chassis = d ! 2, fh_board = d ! 3, fh_product = d ! 4,
     fh_multi = d ! 5, fh_pad = d ! 6, fh_checksum = d ! 7\<rparr>"

record fru_multirec_header =
  mr_type :: byte
  mr_format :: byte
  mr_len :: byte
  mr_record_checksum :: byte
  mr_header_checksum :: byte

definition fru_multirec_header_of :: "byte list \<Rightarrow> fru_multirec_header" where
  "fru_multirec_header_of d =
     \<lparr>mr_type = d ! 0, mr_format = d ! 1, mr_len = d ! 2, mr_record_checksum = d ! 3, mr_header_checksum = d ! 4\<rparr>"

definition fru_cc_rq2big :: "byte \<Rightarrow> bool" where
  "fru_cc_rq2big code \<longleftrightarrow> code = 0xC7 \<or> code = 0xC8 \<or> code = 0xCA"

definition FRU_BLOCK_SZ :: nat where "FRU_BLOCK_SZ = 8"

definition FRU_AREA_MAXIMUM_BLOCK_SZ :: nat where "FRU_AREA_MAXIMUM_BLOCK_SZ = 32"

section \<open>Checksums\<close>

text \<open>The area ends with its checksum byte; \<open>len\<close> counts it.\<close>

fun fru_checksum_loop :: "byte list \<Rightarrow> nat \<Rightarrow> byte \<Rightarrow> byte" where
  "fru_checksum_loop (b # bs) (Suc n) checksum = fru_checksum_loop bs n (checksum + b)"
| "fru_checksum_loop _ _ checksum = checksum"

definition fru_calc_checksum :: "byte list \<Rightarrow> nat \<Rightarrow> byte" where
  "fru_calc_checksum area len = - fru_checksum_loop area (len - 1) 0"

definition fru_checksum_is_valid :: "byte list \<Rightarrow> nat \<Rightarrow> bool" where
  "fru_checksum_is_valid area len \<longleftrightarrow> area ! (len - 1) = fru_calc_checksum area len"

section \<open>Strings of an area\<close>

definition bcd_plus :: "byte list" where
  "bcd_plus = map of_char ''0123456789 -.:,_''"

text \<open>A group of one to three bytes of packed 6-bit characters: four characters.\<close>

fun six_bit_chars :: "nat \<Rightarrow> u32 \<Rightarrow> byte list" where
  "six_bit_chars 0 bits = []"
| "six_bit_chars (Suc k) bits = ((ucast bits AND 0x3F) + 0x20) # six_bit_chars k (drop_bit 6 bits)"

fun six_bit_groups :: "byte list \<Rightarrow> byte list" where
  "six_bit_groups [] = []"
| "six_bit_groups (a # rest) = six_bit_chars 4 (of_le32 (take 4 (take 3 (a # rest) @ replicate 4 0))) @ six_bit_groups (drop 2 rest)"

text \<open>
  \<open>None\<close>: the field reaches past the end of the data. Otherwise the string, if the field
  has one, and the offset of the next field. The text of a binary field is that of
  \<open>buf2str\<close>.
\<close>

definition get_fru_area_str :: "byte list \<Rightarrow> nat \<Rightarrow> (byte list option \<times> nat) option" where
  "get_fru_area_str data off =
     (if off \<ge> length data then None
      else
        (let typecode = drop_bit 6 (data ! off AND 0xC0); len = unat (data ! off AND 0x3F); off1 = off + 1;
             size = (if typecode = 2 then (len div 3 + 1) * 4 else if typecode = 3 then len else len * 2)
         in if size < 1 then Some (None, off1)
            else if off1 + len > length data then None
            else
              (let d = take len (drop off1 data);
                   str = (if typecode = 0 then map of_char (concat (map hex2 d))
                          else if typecode = 1
                          then map (\<lambda>k. bcd_plus ! unat (drop_bit (if k mod 2 = 1 then 0 else 4) (d ! (k div 2)) AND 0x0F)) [0..<size]
                          else if typecode = 2 then six_bit_groups d
                          else d)
               in Some (Some str, off1 + len))))"

section \<open>Reading an area\<close>

definition fru_read_rq :: "byte \<Rightarrow> nat \<Rightarrow> nat \<Rightarrow> ipmi_rq" where
  "fru_read_rq fruId tmp n = mk_rq 0x0A 0x11 [fruId, word_of_nat (tmp mod 256), word_of_nat (tmp div 256), word_of_nat n]"

definition smaller_read_size :: "nat \<Rightarrow> nat" where
  "smaller_read_size n = (if n > FRU_AREA_MAXIMUM_BLOCK_SZ then n - FRU_BLOCK_SZ else n - 1)"

text \<open>
  The loop: end, next offset, room left, place in the buffer, buffer. Results: the return
  code, the buffer, the FRU information with the read size found.
\<close>

function read_fru_loop :: "('e, 's) sendrecv \<Rightarrow> byte \<Rightarrow> nat \<Rightarrow> nat \<Rightarrow> nat \<Rightarrow> nat \<Rightarrow> byte list \<Rightarrow> fru_info \<Rightarrow> 's \<Rightarrow>
    'e + (int \<times> byte list \<times> fru_info) \<times> 's" where
  "read_fru_loop sendrecv fruId finish off left pos buf fru st =
     (let tmp = (if fru_access fru then off div 2 else off);
          n = (if finish - off > fru_max_read_size fru then fru_max_read_size fru else finish - off);
          stop = (if off < finish then -1 else 0)
      in sum_bind (sendrecv (fru_read_rq fruId tmp n) st) (\<lambda>(rsp, st1).
           case rsp of
             None \<Rightarrow> Inr ((stop, buf, fru), st1)
           | Some r \<Rightarrow>
               if rsp_ccode r \<noteq> 0 then
                 if fru_cc_rq2big (rsp_ccode r) \<and> fru_max_read_size fru > FRU_BLOCK_SZ then
                   (let fru1 = fru\<lparr>fru_max_read_size := smaller_read_size (fru_max_read_size fru)\<rparr>
                    in if off < finish then read_fru_loop sendrecv fruId finish off left pos buf fru1 st1 else Inr ((0, buf, fru1), st1))
                 else Inr ((stop, buf, fru), st1)
               else
                 (let tmp = (if fru_access fru then unat (rsp_byte r 0) * 2 else unat (rsp_byte r 0))
                  in if rsp_data_len r < 1 \<or> int tmp > rsp_data_len r - 1 \<or> tmp > left then Inr ((-1, buf, fru), st1)
                     else
                       (let buf1 = put_at pos (rsp_bytes r 1 tmp) buf; off1 = off + tmp
                        in if tmp = 0 \<and> off1 < finish then Inr ((0, buf1, fru), st1)
                           else if off1 < finish then read_fru_loop sendrecv fruId finish off1 (left - tmp) (pos + tmp) buf1 fru st1
                           else Inr ((0, buf1, fru), st1)))))"
  by pat_completeness auto
termination
  by (relation "measures [\<lambda>(_, _, _, _, left, _). left, \<lambda>(_, _, _, _, _, _, _, fru, _). fru_max_read_size fru]")
    (auto simp: smaller_read_size_def FRU_BLOCK_SZ_def split: if_splits)

declare read_fru_loop.simps [simp del]

text \<open>
  The largest read: from the largest response the interface reports, minus completion code
  and count; at most 255 bytes. \<open>None\<close> when that leaves no room.
\<close>

definition init_read_size :: "u16 \<Rightarrow> fru_info \<Rightarrow> fru_info option" where
  "init_read_size max_rs fru =
     (if fru_max_read_size fru \<noteq> 0 then Some fru
      else
        (let max_rs_size = unat (max_rs - 1)
         in if max_rs_size \<le> 1 then None
            else (let n = (if max_rs_size - 1 > 255 then 255 else max_rs_size - 1)
                  in Some (fru\<lparr>fru_max_read_size := (if fru_access fru then 2 * (n div 2) else n)\<rparr>))))"

text \<open>
  A request past the end of the inventory is cut to it, after the part of the buffer past
  the size of the inventory has been cleared. That clearing has the length
  \<open>length - size\<close> in unsigned 32-bit arithmetic: \<open>Wild_memset\<close> is the case in which it is
  negative.
\<close>

datatype 'e fru_error = Transport 'e | Wild_memset | Overread

definition read_fru_area :: "('e, 's) sendrecv \<Rightarrow> u16 \<Rightarrow> byte \<Rightarrow> nat \<Rightarrow> nat \<Rightarrow> byte list \<Rightarrow> fru_info \<Rightarrow> 's \<Rightarrow>
    'e fru_error + (int \<times> byte list \<times> fru_info) \<times> 's" where
  "read_fru_area sendrecv max_rs fruId offset len buf fru st =
     (if offset > fru_size fru then Inr ((-1, buf, fru), st)
      else if offset + len > fru_size fru \<and> len < fru_size fru then Inl Wild_memset
      else
        (let over = offset + len > fru_size fru;
             buf1 = (if over then put_at (fru_size fru) (replicate (len - fru_size fru) 0) buf else buf);
             finish = (if over then fru_size fru else offset + len)
         in case init_read_size max_rs fru of
              None \<Rightarrow> Inr ((-1, buf1, fru), st)
            | Some fru1 \<Rightarrow> map_sum Transport id (read_fru_loop sendrecv fruId finish offset (finish - offset) 0 buf1 fru1 st)))"

text \<open>
  \<open>read_fru_area_section\<close> is the same reading with a request size of its own, kept between
  calls: 20 bytes at first, 16 for word access.
\<close>

function read_section_loop :: "('e, 's) sendrecv \<Rightarrow> byte \<Rightarrow> nat \<Rightarrow> nat \<Rightarrow> nat \<Rightarrow> nat \<Rightarrow> byte list \<Rightarrow> fru_info \<Rightarrow> nat \<Rightarrow> 's \<Rightarrow>
    'e + (int \<times> byte list \<times> nat) \<times> 's" where
  "read_section_loop sendrecv fruId finish offset off left buf fru rqst_size st =
     (let tmp = (if fru_access fru then off div 2 else off);
          n = (if finish - off > rqst_size then rqst_size else finish - off);
          stop = (if off < finish then -1 else 0)
      in sum_bind (sendrecv (fru_read_rq fruId tmp n) st) (\<lambda>(rsp, st1).
           case rsp of
             None \<Rightarrow> Inr ((stop, buf, rqst_size), st1)
           | Some r \<Rightarrow>
               if rsp_ccode r \<noteq> 0 then
                 if fru_cc_rq2big (rsp_ccode r) then
                   if rqst_size - 1 > FRU_BLOCK_SZ
                   then if off < finish then read_section_loop sendrecv fruId finish offset off left buf fru (rqst_size - 1) st1
                        else Inr ((0, buf, rqst_size - 1), st1)
                   else Inr ((stop, buf, rqst_size - 1), st1)
                 else Inr ((stop, buf, rqst_size), st1)
               else
                 (let tmp = (if fru_access fru then unat (rsp_byte r 0) * 2 else unat (rsp_byte r 0))
                  in if rsp_data_len r < 1 \<or> int tmp > rsp_data_len r - 1 \<or> tmp > left then Inr ((-1, buf, rqst_size), st1)
                     else
                       (let buf1 = put_at (off - offset) (rsp_bytes r 1 tmp) buf; off1 = off + tmp
                        in if tmp = 0 \<and> off1 < finish then Inr ((0, buf1, rqst_size), st1)
                           else if off1 < finish then read_section_loop sendrecv fruId finish offset off1 (left - tmp) buf1 fru rqst_size st1
                           else Inr ((0, buf1, rqst_size), st1)))))"
  by pat_completeness auto
termination
  by (relation "measures [\<lambda>(_, _, _, _, _, left, _). left, \<lambda>(_, _, _, _, _, _, _, _, n, _). n]")
    (auto simp: FRU_BLOCK_SZ_def split: if_splits)

declare read_section_loop.simps [simp del]

definition read_fru_area_section :: "('e, 's) sendrecv \<Rightarrow> byte \<Rightarrow> nat \<Rightarrow> nat \<Rightarrow> byte list \<Rightarrow> fru_info \<Rightarrow> nat \<Rightarrow> 's \<Rightarrow>
    'e fru_error + (int \<times> byte list \<times> nat) \<times> 's" where
  "read_fru_area_section sendrecv fruId offset len buf fru rqst_size st =
     (if offset > fru_size fru then Inr ((-1, buf, rqst_size), st)
      else if offset + len > fru_size fru \<and> len < fru_size fru then Inl Wild_memset
      else
        (let over = offset + len > fru_size fru;
             buf1 = (if over then put_at (fru_size fru) (replicate (len - fru_size fru) 0) buf else buf);
             finish = (if over then fru_size fru else offset + len);
             n = (if fru_access fru \<and> rqst_size > 16 then 16 else rqst_size)
         in map_sum Transport id (read_section_loop sendrecv fruId finish offset offset (finish - offset) buf1 fru n st)))"


text \<open>Reading changes only the read size of the FRU information.\<close>

definition same_fru :: "fru_info \<Rightarrow> fru_info \<Rightarrow> bool" where
  "same_fru f f' \<longleftrightarrow> f' = f\<lparr>fru_max_read_size := fru_max_read_size f'\<rparr>"

lemma same_fru_refl [simp]: "same_fru f f"
  by (simp add: same_fru_def)

lemma same_fru_upd [simp]: "same_fru f (f\<lparr>fru_max_read_size := n\<rparr>)"
  by (simp add: same_fru_def)

lemma same_fru_trans: "same_fru a b \<Longrightarrow> same_fru b c \<Longrightarrow> same_fru a c"
  unfolding same_fru_def by (cases a; cases b; cases c) auto

lemma same_fru_fields: "same_fru f f' \<Longrightarrow> fru_size f' = fru_size f \<and> fru_access f' = fru_access f \<and> fru_max_write_size f' = fru_max_write_size f"
  unfolding same_fru_def by (cases f; cases f') auto

text \<open>What one pass of the loop can do.\<close>

lemma read_fru_loop_cases:
  assumes "read_fru_loop sendrecv fruId finish off left pos buf fru st = Inr ((rc, buf', fru'), st')"
  obtains (done0) "same_fru fru fru'" "buf' = buf"
  | (retry) st1 where "fru_max_read_size fru > FRU_BLOCK_SZ" "off < finish"
      "read_fru_loop sendrecv fruId finish off left pos buf (fru\<lparr>fru_max_read_size := smaller_read_size (fru_max_read_size fru)\<rparr>) st1 = Inr ((rc, buf', fru'), st')"
  | (last) r n where "n \<le> left" "fru' = fru" "buf' = put_at pos (rsp_bytes r 1 n) buf"
  | (more) r n st1 where "n \<noteq> 0" "n \<le> left" "off + n < finish"
      "read_fru_loop sendrecv fruId finish (off + n) (left - n) (pos + n) (put_at pos (rsp_bytes r 1 n) buf) fru st1 = Inr ((rc, buf', fru'), st')"
proof -
  let ?tmp = "if fru_access fru then off div 2 else off"
  let ?n = "if finish - off > fru_max_read_size fru then fru_max_read_size fru else finish - off"
  from assms obtain rsp st1 where s: "sendrecv (fru_read_rq fruId ?tmp ?n) st = Inr (rsp, st1)"
    by (subst (asm) read_fru_loop.simps) (auto simp: Let_def sum_bind_Inr)
  show ?thesis
  proof (cases rsp)
    case None
    with assms s show ?thesis by (subst (asm) read_fru_loop.simps) (auto simp: Let_def intro: done0)
  next
    case (Some r)
    let ?m = "if fru_access fru then unat (rsp_byte r 0) * 2 else unat (rsp_byte r 0)"
    show ?thesis
    proof (cases "rsp_ccode r = 0")
      case False
      with assms s Some show ?thesis
        by (subst (asm) read_fru_loop.simps) (auto simp: Let_def split: if_splits intro: done0 retry)
    next
      case True
      with assms s Some show ?thesis
        by (subst (asm) read_fru_loop.simps) (simp add: Let_def split: if_splits; (rule done0; simp; fail | rule last [of ?m r]; simp; fail | rule more [of ?m r st1]; simp; fail))
    qed
  qed
qed

lemma smaller_read_size_less: "n > FRU_BLOCK_SZ \<Longrightarrow> smaller_read_size n < n"
  by (auto simp: smaller_read_size_def FRU_BLOCK_SZ_def)

lemma put_at_outside:
  assumes "n \<le> left" and "length xs = n" and "pos + left \<le> length buf"
  shows "length (put_at pos xs buf) = length buf" and "take pos (put_at pos xs buf) = take pos buf"
    and "drop (pos + left) (put_at pos xs buf) = drop (pos + left) buf"
  using assms by (simp_all add: put_at_def add.commute [of left pos])

text \<open>The loop writes only the room left, and changes only the read size.\<close>

lemma read_fru_loop_frame:
  "read_fru_loop sendrecv fruId finish off left pos buf fru st = Inr ((rc, buf', fru'), st') \<Longrightarrow>
     same_fru fru fru' \<and> (pos + left \<le> length buf \<longrightarrow>
       length buf' = length buf \<and> take pos buf' = take pos buf \<and> drop (pos + left) buf' = drop (pos + left) buf)"
proof (induction left arbitrary: off pos buf fru st rule: less_induct)
  case (less left)
  note outer = less.IH
  show ?case using less.prems
  proof (induction "fru_max_read_size fru" arbitrary: fru st rule: less_induct)
    case less
    from less.prems(1) show ?case
    proof (cases rule: read_fru_loop_cases)
      case done0
      then show ?thesis by simp
    next
      case (retry st1)
      from less.hyps [OF _ retry(3)] smaller_read_size_less [OF retry(1)]
      show ?thesis by (auto intro: same_fru_trans [OF same_fru_upd])
    next
      case (last r n)
      then show ?thesis using put_at_outside [of n left "rsp_bytes r 1 n" pos buf] by simp
    next
      case (more r n st1)
      let ?buf = "put_at pos (rsp_bytes r 1 n) buf"
      have "left - n < left" using more(1,2) by simp
      from outer [OF this more(4)] have same: "same_fru fru fru'" and
        r: "pos + n + (left - n) \<le> length ?buf \<Longrightarrow> length buf' = length ?buf \<and> take (pos + n) buf' = take (pos + n) ?buf
          \<and> drop (pos + n + (left - n)) buf' = drop (pos + n + (left - n)) ?buf" by simp_all
      have "length buf' = length buf \<and> take pos buf' = take pos buf \<and> drop (pos + left) buf' = drop (pos + left) buf"
        if "pos + left \<le> length buf"
      proof -
        have b: "length ?buf = length buf" "take pos ?buf = take pos buf" "drop (pos + left) ?buf = drop (pos + left) buf"
          using put_at_outside [of n left "rsp_bytes r 1 n" pos buf] more(2) that by simp_all
        have eq: "pos + n + (left - n) = pos + left" using more(2) by simp
        from r [unfolded eq] that b(1) have r': "length buf' = length ?buf" "take (pos + n) buf' = take (pos + n) ?buf"
          "drop (pos + left) buf' = drop (pos + left) ?buf" by simp_all
        have "take pos buf' = take pos ?buf" using r'(2) by (metis le_add1 min.absorb1 take_take)
        with r' b show ?thesis by simp
      qed
      with same show ?thesis by simp
    qed
  qed
qed

lemma init_read_size_same: "init_read_size max_rs fru = Some fru' \<Longrightarrow> same_fru fru fru'"
  by (auto simp: init_read_size_def Let_def split: if_splits)

lemma read_fru_area_frame:
  assumes "read_fru_area sendrecv max_rs fruId offset len buf fru st = Inr ((rc, buf', fru'), st')"
  shows "same_fru fru fru' \<and> (len \<le> length buf \<longrightarrow> length buf' = length buf \<and> drop len buf' = drop len buf)"
proof (cases "offset > fru_size fru")
  case True
  with assms show ?thesis by (simp add: read_fru_area_def)
next
  case False
  define over where "over = (offset + len > fru_size fru)"
  define buf1 where "buf1 = (if over then put_at (fru_size fru) (replicate (len - fru_size fru) 0) buf else buf)"
  define fin where "fin = (if over then fru_size fru else offset + len)"
  have ok: "\<not> (over \<and> len < fru_size fru)" using assms False unfolding over_def read_fru_area_def by (metis Inl_Inr_False)
  have eq: "read_fru_area sendrecv max_rs fruId offset len buf fru st =
     (case init_read_size max_rs fru of
        None \<Rightarrow> Inr ((-1, buf1, fru), st)
      | Some fru1 \<Rightarrow> map_sum Transport id (read_fru_loop sendrecv fruId fin offset (fin - offset) 0 buf1 fru1 st))"
    using False ok unfolding read_fru_area_def Let_def over_def [symmetric] buf1_def [symmetric] fin_def [symmetric] by (simp only: if_False)
  have b: "length buf1 = length buf \<and> drop len buf1 = drop len buf" if "len \<le> length buf"
    using ok that by (auto simp: buf1_def put_at_def)
  show ?thesis
  proof (cases "init_read_size max_rs fru")
    case None
    with assms eq b show ?thesis by simp
  next
    case (Some fru1)
    with assms eq have loop: "read_fru_loop sendrecv fruId fin offset (fin - offset) 0 buf1 fru1 st = Inr ((rc, buf', fru'), st')"
      by (cases "read_fru_loop sendrecv fruId fin offset (fin - offset) 0 buf1 fru1 st") simp_all
    note r = read_fru_loop_frame [OF loop]
    have le: "fin - offset \<le> len" using False by (auto simp: fin_def over_def)
    have "length buf' = length buf \<and> drop len buf' = drop len buf" if "len \<le> length buf"
    proof -
      have "0 + (fin - offset) \<le> length buf1" using b [OF that] le that by simp
      with r have r': "length buf' = length buf1" "drop (fin - offset) buf' = drop (fin - offset) buf1" by simp_all
      have "drop len buf' = drop len buf1" using r'(2) le by (metis drop_drop le_add_diff_inverse2)
      with r'(1) b [OF that] show ?thesis by simp
    qed
    with r init_read_size_same [OF Some] show ?thesis by (auto intro: same_fru_trans)
  qed
qed

section \<open>Blocs\<close>

record fru_bloc =
  b_start :: nat
  b_size :: nat

definition u16_diff :: "nat \<Rightarrow> nat \<Rightarrow> nat" where
  "u16_diff a b = nat ((int a - int b) mod 65536)"

text \<open>A new bloc ends the last one.\<close>

definition add_bloc :: "nat \<Rightarrow> nat \<Rightarrow> fru_bloc list \<Rightarrow> fru_bloc list" where
  "add_bloc sz start blocs =
     (let start = start mod 65536
      in butlast blocs @ [(last blocs)\<lparr>b_size := u16_diff start (b_start (last blocs))\<rparr>, \<lparr>b_start = start, b_size = u16_diff sz start\<rparr>])"

text \<open>The records of the multi-record area; \<open>hdr\<close> is the header read last.\<close>

function multirec_blocs :: "('e, 's) sendrecv \<Rightarrow> u16 \<Rightarrow> byte \<Rightarrow> nat \<Rightarrow> byte list \<Rightarrow> fru_bloc list \<Rightarrow> fru_info \<Rightarrow> 's \<Rightarrow>
    'e fru_error + (fru_bloc list \<times> nat \<times> fru_info) \<times> 's" where
  "multirec_blocs sendrecv max_rs fruId off hdr blocs fru st =
     (if fru_access fru \<and> odd off then Inr ((blocs, off + 1, fru), st)
      else case read_fru_area sendrecv max_rs fruId off 5 hdr fru st of
        Inl e \<Rightarrow> Inl e
      | Inr ((rc, hdr1, fru1), st1) \<Rightarrow>
          if rc < 0 then Inr ((blocs, off, fru1), st1)
          else
            (let rec_hdr = fru_multirec_header_of hdr1;
                 blocs1 = add_bloc (fru_size fru1) off blocs;
                 off1 = off + unat (mr_len rec_hdr) + 5
             in if ipmi_csum (take 5 hdr1) \<noteq> 0 \<or> mr_format rec_hdr AND 0x80 \<noteq> 0 \<or> off1 \<ge> fru_size fru1
                then Inr ((blocs1, off1, fru1), st1)
                else multirec_blocs sendrecv max_rs fruId off1 hdr1 blocs1 fru1 st1))"
  by pat_completeness auto
termination
proof (relation "measure (\<lambda>(_, _, _, off, _, _, fru, _). fru_size fru - off)", goal_cases)
  case 1
  show ?case by simp
next
  case (2 sendrecv max_rs fruId off hdr blocs fru st r q st1 rc q' hdr1 fru1 h b1 off1)
  then have "read_fru_area sendrecv max_rs fruId off 5 hdr fru st = Inr ((rc, hdr1, fru1), st1)" by simp
  from read_fru_area_frame [OF this] same_fru_fields [of fru fru1] 2 show ?case by auto
qed

declare multirec_blocs.simps [simp del]

definition build_fru_bloc :: "('e, 's) sendrecv \<Rightarrow> u16 \<Rightarrow> byte \<Rightarrow> fru_info \<Rightarrow> 's \<Rightarrow>
    'e fru_error + (fru_bloc list option \<times> fru_info) \<times> 's" where
  "build_fru_bloc sendrecv max_rs fruId fru st =
     (case sendrecv (fru_read_rq fruId 0 8) st of
        Inl e \<Rightarrow> Inl (Transport e)
      | Inr (None, st1) \<Rightarrow> Inr ((None, fru), st1)
      | Inr (Some r, st1) \<Rightarrow>
          if rsp_ccode r \<noteq> 0 then Inr ((None, fru), st1)
          else
            (let d = rsp_bytes r 1 8; header = fru_header_of d
             in if ipmi_csum d \<noteq> 0 \<or> fh_version header \<noteq> 1 then Inr ((None, fru), st1)
                else
                  (let first = [\<lparr>b_start = 0, b_size = fru_size fru\<rparr>];
                       blocs = fold (\<lambda>ofs bs. if ofs = 0 then bs else add_bloc (fru_size fru) (unat ofs * 8) bs)
                         [fh_internal header, fh_chassis header, fh_board header, fh_product header] first
                   in if fh_multi header = 0 then Inr ((Some blocs, fru), st1)
                      else (case multirec_blocs sendrecv max_rs fruId (unat (fh_multi header) * 8) (replicate 5 0) blocs fru st1 of
                              Inl e \<Rightarrow> Inl e
                            | Inr ((bs, off, fru1), st2) \<Rightarrow>
                                Inr ((Some (if fru_size fru1 > off then add_bloc (fru_size fru1) off bs else bs), fru1), st2)))))"

section \<open>Writing an area\<close>

text \<open>
  The largest write: from the largest request the interface reports, minus FRU id and
  offset; at most 255 bytes.
\<close>

definition init_write_size :: "u16 \<Rightarrow> fru_info \<Rightarrow> fru_info option" where
  "init_write_size max_rq fru =
     (if fru_max_write_size fru \<noteq> 0 then Some fru
      else if unat max_rq \<le> 3 then None
      else (let n = (if unat max_rq - 3 > 255 then 255 else unat max_rq - 3)
            in Some (fru\<lparr>fru_max_write_size := (if fru_access fru then 2 * (n div 2) else n)\<rparr>)))"

definition fru_write_rq :: "byte \<Rightarrow> nat \<Rightarrow> byte list \<Rightarrow> ipmi_rq" where
  "fru_write_rq fruId tmp d = mk_rq 0x0A 0x12 ([fruId, word_of_nat tmp, word_of_nat (tmp div 256)] @ d)"

definition bloc_end :: "nat \<Rightarrow> fru_bloc list \<Rightarrow> nat" where
  "bloc_end finish blocs =
     (case blocs of [] \<Rightarrow> finish | b # _ \<Rightarrow> if b_start b + b_size b < finish then b_start b + b_size b else finish)"

text \<open>No result: the loop does not end.\<close>

partial_function (option) write_fru_loop :: "('e, 's) sendrecv \<Rightarrow> byte \<Rightarrow> nat \<Rightarrow> byte list \<Rightarrow> nat \<Rightarrow> nat \<Rightarrow> fru_bloc list \<Rightarrow> fru_info \<Rightarrow> 's \<Rightarrow>
    ('e fru_error + (int \<times> fru_info) \<times> 's) option" where
  "write_fru_loop sendrecv fruId finish buf soffset doffset blocs fru st =
     (let blocs1 = dropWhile (\<lambda>b. b_start b + b_size b \<le> doffset) blocs;
          end_bloc = bloc_end finish blocs1;
          tmp = end_bloc - doffset;
          len = (if tmp > fru_max_write_size fru then fru_max_write_size fru else tmp);
          writeLength = (if fru_access fru then 2 * (len div 2) else len);
          tmp = (if fru_access fru then doffset div 2 else doffset);
          rc = (if doffset \<ge> finish then 1 else 0)
      in case sendrecv (fru_write_rq fruId tmp (take writeLength (drop soffset buf))) st of
           Inl e \<Rightarrow> Some (Inl (Transport e))
         | Inr (None, st1) \<Rightarrow> Some (Inr ((rc, fru), st1))
         | Inr (Some r, st1) \<Rightarrow>
             if fru_cc_rq2big (rsp_ccode r) \<and> fru_max_write_size fru > FRU_AREA_MAXIMUM_BLOCK_SZ then
               (let fru1 = fru\<lparr>fru_max_write_size := fru_max_write_size fru - FRU_BLOCK_SZ\<rparr>
                in if doffset < finish then write_fru_loop sendrecv fruId finish buf soffset doffset blocs1 fru1 st1
                   else Some (Inr ((1, fru1), st1)))
             else if rsp_ccode r \<noteq> 0 \<and> rsp_ccode r \<noteq> 0x80 then Some (Inr ((rc, fru), st1))
             else
               (let step = (if rsp_ccode r = 0x80 then end_bloc - doffset else writeLength)
                in if doffset + step < finish then write_fru_loop sendrecv fruId finish buf (soffset + step) (doffset + step) blocs1 fru st1
                   else Some (Inr ((1, fru), st1))))"

definition write_fru_area :: "('e, 's) sendrecv \<Rightarrow> u16 \<Rightarrow> u16 \<Rightarrow> byte \<Rightarrow> nat \<Rightarrow> nat \<Rightarrow> nat \<Rightarrow> byte list \<Rightarrow> fru_info \<Rightarrow> 's \<Rightarrow>
    ('e fru_error + (int \<times> fru_info) \<times> 's) option" where
  "write_fru_area sendrecv max_rq max_rs fruId soffset doffset len buf fru st =
     (let finish = (doffset + len) mod 65536
      in if finish > fru_size fru then Some (Inr ((-1, fru), st))
         else if fru_access fru \<and> (odd doffset \<or> odd len) then Some (Inr ((-1, fru), st))
         else case build_fru_bloc sendrecv max_rs fruId fru st of
           Inl e \<Rightarrow> Some (Inl e)
         | Inr ((blocs, fru1), st1) \<Rightarrow>
             (case init_write_size max_rq fru1 of
                None \<Rightarrow> Some (Inr ((-1, fru1), st1))
              | Some fru2 \<Rightarrow>
                  write_fru_loop sendrecv fruId finish buf soffset doffset (case blocs of None \<Rightarrow> [] | Some bs \<Rightarrow> bs) fru2 st1))"


section \<open>Inventory information and header\<close>

text \<open>The request every command starts with: size and access of the inventory.\<close>

definition fru_get_info :: "('e, 's) sendrecv \<Rightarrow> byte \<Rightarrow> 's \<Rightarrow> 'e + fru_info option \<times> 's" where
  "fru_get_info sendrecv fruId st =
     sum_bind (sendrecv (mk_rq 0x0A 0x10 [fruId]) st) (\<lambda>(rsp, st1). Inr (
       case rsp of
         None \<Rightarrow> None
       | Some r \<Rightarrow>
           if rsp_ccode r \<noteq> 0 then None
           else Some \<lparr>fru_size = unat (rsp_byte r 1) * 256 + unat (rsp_byte r 0), fru_access = (rsp_byte r 2 AND 1 \<noteq> 0),
                  fru_max_read_size = 0, fru_max_write_size = 0\<rparr>, st1))"

definition fru_get_header :: "('e, 's) sendrecv \<Rightarrow> byte \<Rightarrow> 's \<Rightarrow> 'e + fru_header option \<times> 's" where
  "fru_get_header sendrecv fruId st =
     sum_bind (sendrecv (fru_read_rq fruId 0 8) st) (\<lambda>(rsp, st1). Inr (
       case rsp of None \<Rightarrow> None | Some r \<Rightarrow> if rsp_ccode r \<noteq> 0 then None else Some (fru_header_of (rsp_bytes r 1 8)), st1))"

section \<open>Internal use area\<close>

text \<open>Return code, information, size and offset of the area.\<close>

definition ipmi_fru_get_internal_use_info :: "('e, 's) sendrecv \<Rightarrow> byte \<Rightarrow> 's \<Rightarrow> 'e + (int \<times> fru_info \<times> nat \<times> nat) \<times> 's" where
  "ipmi_fru_get_internal_use_info sendrecv fruId st =
     (let zero = \<lparr>fru_size = 0, fru_access = False, fru_max_read_size = 0, fru_max_write_size = 0\<rparr>
      in sum_bind (fru_get_info sendrecv fruId st) (\<lambda>(info, st1).
           case info of
             None \<Rightarrow> Inr ((-1, zero, 0, 0), st1)
           | Some fru \<Rightarrow>
               if fru_size fru < 1 then Inr ((-1, fru, 0, 0), st1)
               else sum_bind (fru_get_header sendrecv fruId st1) (\<lambda>(hdr, st2).
                 case hdr of
                   None \<Rightarrow> Inr ((1, fru, 0, 0), st2)
                 | Some h \<Rightarrow>
                     if fh_version h \<noteq> 1 then Inr ((-1, fru, 0, 0), st2)
                     else if fh_internal h = 0 then Inr ((0, fru, 0, 0), st2)
                     else
                       (let offset = unat (fh_internal h) * 8;
                            stop = (if fh_chassis h \<noteq> 0 then unat (fh_chassis h) * 8
                                    else if fh_board h \<noteq> 0 then unat (fh_board h) * 8
                                    else if fh_product h \<noteq> 0 then unat (fh_product h) * 8
                                    else if fh_multi h \<noteq> 0 then unat (fh_multi h) * 8
                                    else fru_size fru)
                        in Inr ((0, fru, u16_diff stop offset, offset), st2)))))"

text \<open>
  \<open>fresh n\<close> is what a new block of \<open>n\<close> bytes holds. The result is what is printed or written
  to the file.
\<close>

definition ipmi_fru_read_internal_use :: "('e, 's) sendrecv \<Rightarrow> (nat \<Rightarrow> byte list) \<Rightarrow> byte \<Rightarrow> nat \<Rightarrow> 's \<Rightarrow>
    'e fru_error + byte list option \<times> nat \<times> 's" where
  "ipmi_fru_read_internal_use sendrecv fresh fruId rqst_size st =
     (case ipmi_fru_get_internal_use_info sendrecv fruId st of
        Inl e \<Rightarrow> Inl (Transport e)
      | Inr ((rc, fru, sz, offset), st1) \<Rightarrow>
          if rc \<noteq> 0 then Inr (None, rqst_size, st1)
          else (case read_fru_area_section sendrecv fruId offset sz (fresh sz) fru rqst_size st1 of
                  Inl e \<Rightarrow> Inl e
                | Inr ((rc, buf, n), st2) \<Rightarrow> Inr (if rc = 0 then Some buf else None, n, st2)))"

text \<open>The file is written only when it has the size of the area. \<open>None\<close> as the inner result: nothing was written.\<close>

definition ipmi_fru_write_internal_use :: "('e, 's) sendrecv \<Rightarrow> u16 \<Rightarrow> u16 \<Rightarrow> byte \<Rightarrow> byte list option \<Rightarrow> 's \<Rightarrow>
    ('e fru_error + int option \<times> 's) option" where
  "ipmi_fru_write_internal_use sendrecv max_rq max_rs fruId file st =
     (case ipmi_fru_get_internal_use_info sendrecv fruId st of
        Inl e \<Rightarrow> Some (Inl (Transport e))
      | Inr ((rc, fru, sz, offset), st1) \<Rightarrow>
          (case file of
             Some bytes \<Rightarrow>
               if rc = 0 \<and> length bytes = sz
               then map_option (map_sum id (\<lambda>((rc, _), st2). (Some rc, st2))) (write_fru_area sendrecv max_rq max_rs fruId 0 offset sz bytes fru st1)
               else Some (Inr (None, st1))
           | None \<Rightarrow> Some (Inr (None, st1))))"

section \<open>Whole inventories and files\<close>

definition ipmi_fru_read_to_bin :: "('e, 's) sendrecv \<Rightarrow> u16 \<Rightarrow> (nat \<Rightarrow> byte list) \<Rightarrow> byte \<Rightarrow> 's \<Rightarrow> 'e fru_error + byte list option \<times> 's" where
  "ipmi_fru_read_to_bin sendrecv max_rs fresh fruId st =
     (case fru_get_info sendrecv fruId st of
        Inl e \<Rightarrow> Inl (Transport e)
      | Inr (None, st1) \<Rightarrow> Inr (None, st1)
      | Inr (Some fru, st1) \<Rightarrow>
          (case read_fru_area sendrecv max_rs fruId 0 (fru_size fru) (fresh (fru_size fru)) fru st1 of
             Inl e \<Rightarrow> Inl e
           | Inr ((_, buf, _), st2) \<Rightarrow> Inr (Some buf, st2)))"

definition ipmi_fru_write_from_bin :: "('e, 's) sendrecv \<Rightarrow> u16 \<Rightarrow> u16 \<Rightarrow> byte \<Rightarrow> byte list option \<Rightarrow> 's \<Rightarrow> ('e fru_error + 's) option" where
  "ipmi_fru_write_from_bin sendrecv max_rq max_rs fruId file st =
     (case fru_get_info sendrecv fruId st of
        Inl e \<Rightarrow> Some (Inl (Transport e))
      | Inr (None, st1) \<Rightarrow> Some (Inr st1)
      | Inr (Some fru, st1) \<Rightarrow>
          (let bytes = (case file of None \<Rightarrow> [] | Some bs \<Rightarrow> take (fru_size fru) bs)
           in if length bytes = 0 then Some (Inr st1)
              else map_option (map_sum id snd) (write_fru_area sendrecv max_rq max_rs fruId 0 0 (length bytes) bytes fru st1)))"

section \<open>Multi-record areas\<close>

text \<open>
  The length of the records in a buffer below 64 KiB: return code and length. \<open>None\<close>: the
  records run past the buffer.
\<close>

function adjust_size_loop :: "byte list \<Rightarrow> nat \<Rightarrow> (int \<times> nat) option" where
  "adjust_size_loop data count =
     (if count + 5 > length data then None
      else
        (let head = fru_multirec_header_of (drop count data);
             checksum = sum_list (take 5 (drop count data));
             count1 = count + unat (mr_len head) + 5
         in if checksum \<noteq> 0 then Some (-1, count1)
            else if mr_format head AND 0x80 \<noteq> 0 then Some (0, count1)
            else adjust_size_loop data count1))"
  by pat_completeness auto
termination
  by (relation "measure (\<lambda>(data, count). length data - count)") auto

declare adjust_size_loop.simps [simp del]

definition ipmi_fru_get_adjust_size_from_buffer :: "byte list \<Rightarrow> (int \<times> nat) option" where
  "ipmi_fru_get_adjust_size_from_buffer data = adjust_size_loop data 0"

text \<open>
  The comparisons that would end the area at the next one compare each offset with itself;
  the area is taken to reach the end of the inventory or the file.
\<close>

definition area_end :: "fru_header \<Rightarrow> nat \<Rightarrow> nat" where
  "area_end h stop =
     fold (\<lambda>ofs stop. if unat ofs * 8 > unat ofs * 8 \<and> unat ofs * 8 < stop then unat ofs * 8 else stop)
       [fh_internal h, fh_chassis h, fh_board h, fh_product h] stop"

definition ipmi_fru_get_multirec_location_from_fru :: "('e, 's) sendrecv \<Rightarrow> byte \<Rightarrow> 's \<Rightarrow> 'e + (fru_info \<times> nat \<times> nat) option \<times> 's" where
  "ipmi_fru_get_multirec_location_from_fru sendrecv fruId st =
     sum_bind (fru_get_info sendrecv fruId st) (\<lambda>(info, st1).
       case info of
         None \<Rightarrow> Inr (None, st1)
       | Some fru \<Rightarrow>
           if fru_size fru = 0 then Inr (None, st1)
           else sum_bind (fru_get_header sendrecv fruId st1) (\<lambda>(hdr, st2). Inr (
             case hdr of
               None \<Rightarrow> None
             | Some h \<Rightarrow> if fh_version h \<noteq> 1 then None else Some (fru, unat (fh_multi h) * 8, area_end h (fru_size fru)), st2)))"

definition ipmi_fru_get_multirec_size_from_file :: "byte list \<Rightarrow> (nat \<times> nat) option" where
  "ipmi_fru_get_multirec_size_from_file file =
     (if length file < 8 then None
      else
        (let h = fru_header_of file
         in if fh_version h \<noteq> 1 then None
            else Some (nat ((int (area_end h (length file)) - int (unat (fh_multi h) * 8)) mod 2 ^ 32), unat (fh_multi h) * 8)))"

definition ipmi_fru_get_multirec_from_file :: "byte list \<Rightarrow> nat \<Rightarrow> nat \<Rightarrow> byte list option" where
  "ipmi_fru_get_multirec_from_file file sz offset =
     (if sz \<noteq> 0 \<and> offset + sz \<le> length file then Some (take sz (drop offset file)) else None)"

text \<open>The file is given by its content, \<open>None\<close> when it cannot be opened.\<close>

definition ipmi_fru_upg_ekeying :: "('e, 's) sendrecv \<Rightarrow> u16 \<Rightarrow> u16 \<Rightarrow> byte \<Rightarrow> byte list option \<Rightarrow> 's \<Rightarrow> ('e fru_error + int \<times> 's) option" where
  "ipmi_fru_upg_ekeying sendrecv max_rq max_rs fruId file st =
     (case ipmi_fru_get_multirec_location_from_fru sendrecv fruId st of
        Inl e \<Rightarrow> Some (Inl (Transport e))
      | Inr (None, st1) \<Rightarrow> Some (Inr (-1, st1))
      | Inr (Some (fru, offFru, _), st1) \<Rightarrow>
          (case file of
             None \<Rightarrow> Some (Inr (-1, st1))
           | Some bytes \<Rightarrow>
               (case ipmi_fru_get_multirec_size_from_file bytes of
                  None \<Rightarrow> Some (Inr (-1, st1))
                | Some (sz, offFile) \<Rightarrow>
                    (case ipmi_fru_get_multirec_from_file bytes sz offFile of
                       None \<Rightarrow> Some (Inr (-1, st1))
                     | Some buf \<Rightarrow>
                         (case ipmi_fru_get_adjust_size_from_buffer buf of
                            None \<Rightarrow> Some (Inl Overread)
                          | Some (rc, n) \<Rightarrow>
                              if rc \<noteq> 0 then Some (Inr (-1, st1))
                              else map_option (map_sum id (\<lambda>((rc, _), st2). (if rc \<noteq> 0 then -1 else 0, st2)))
                                (write_fru_area sendrecv max_rq max_rs fruId 0 offFru (n mod 65536) buf fru st1))))))"


section \<open>Checksums\<close>

lemma fru_checksum_loop_sum: "fru_checksum_loop bs n c = c + sum_list (take n bs)"
  by (induction bs n c rule: fru_checksum_loop.induct) (simp_all add: add.assoc)

lemma fru_checksum_valid_iff:
  assumes "0 < len" and "len \<le> length area"
  shows "fru_checksum_is_valid area len \<longleftrightarrow> sum_list (take len area) = 0"
proof -
  obtain n where n: "len = Suc n" using assms(1) by (cases len) auto
  have "take (Suc n) area = take n area @ [area ! n]" using assms(2) n by (simp add: take_Suc_conv_app_nth)
  then have "sum_list (take len area) = sum_list (take n area) + area ! n" using n by simp
  then show ?thesis
    by (simp add: fru_checksum_is_valid_def fru_calc_checksum_def fru_checksum_loop_sum n eq_neg_iff_add_eq_0 add.commute)
qed

section \<open>A device that answers\<close>

text \<open>
  What the IPMI specification asks of an inventory device accessed by bytes: a read returns
  at least one and at most the requested number of bytes from the offset, a write stores all
  its bytes, and a request for more than the device can handle is refused with one of the
  three completion codes for it. \<open>ok\<close> are the states in which the device answers, \<open>mem\<close> is
  the inventory.
\<close>

definition fru_reads :: "('e, 's) sendrecv \<Rightarrow> byte \<Rightarrow> nat \<Rightarrow> ('s \<Rightarrow> bool) \<Rightarrow> ('s \<Rightarrow> byte list) \<Rightarrow> bool" where
  "fru_reads sendrecv fruId lim ok mem \<longleftrightarrow> (\<forall>st off n. ok st \<and> 0 < n \<and> n < 256 \<and> off + n \<le> length (mem st) \<longrightarrow>
     (\<exists>st'. ok st' \<and> mem st' = mem st \<and>
       (if n \<le> lim
        then \<exists>m. 0 < m \<and> m \<le> n \<and> sendrecv (fru_read_rq fruId off n) st = Inr (Some (rsp_of 0 (word_of_nat m # take m (drop off (mem st)))), st')
        else \<exists>cc. fru_cc_rq2big cc \<and> sendrecv (fru_read_rq fruId off n) st = Inr (Some (rsp_of cc []), st'))))"

definition fru_writes :: "('e, 's) sendrecv \<Rightarrow> byte \<Rightarrow> nat \<Rightarrow> ('s \<Rightarrow> bool) \<Rightarrow> ('s \<Rightarrow> byte list) \<Rightarrow> bool" where
  "fru_writes sendrecv fruId lim ok mem \<longleftrightarrow> (\<forall>st off d. ok st \<and> d \<noteq> [] \<and> length d < 256 \<and> off + length d \<le> length (mem st) \<longrightarrow>
     (\<exists>st'. ok st' \<and>
       (if length d \<le> lim
        then mem st' = put_at off d (mem st) \<and> sendrecv (fru_write_rq fruId off d) st = Inr (Some (rsp_of 0 [word_of_nat (length d)]), st')
        else mem st' = mem st \<and> (\<exists>cc. fru_cc_rq2big cc \<and> sendrecv (fru_write_rq fruId off d) st = Inr (Some (rsp_of cc []), st')))))"

lemma rq2big_not_zero: "fru_cc_rq2big cc \<Longrightarrow> cc \<noteq> 0"
  by (auto simp: fru_cc_rq2big_def)

lemma read_count:
  assumes "0 < m" and "m \<le> n" and "n < 256" and "length d = m"
  shows "unat (rsp_byte (rsp_of 0 (word_of_nat m # d)) 0) = m" and "rsp_bytes (rsp_of 0 (word_of_nat m # d)) 1 m = d"
    and "rsp_data_len (rsp_of 0 (word_of_nat m # d)) = int m + 1"
  using assms by (simp_all add: rsp_byte_def rsp_bytes_take unat_of_nat)

lemma take_drop_put_at: "pos + length xs \<le> length buf \<Longrightarrow> take (length xs) (drop pos (put_at pos xs buf)) = xs"
  by (simp add: put_at_def)

text \<open>One pass over such a device: fewer bytes asked for, or some bytes more.\<close>

lemma read_fru_loop_pass:
  assumes "fru_reads sendrecv fruId lim ok mem" and "ok st" and "\<not> fru_access fru" and "off < finish" and "finish \<le> length (mem st)"
    and "0 < fru_max_read_size fru" and "fru_max_read_size fru < 256" and "8 \<le> lim" and "left = finish - off"
  shows "(\<exists>st1. ok st1 \<and> mem st1 = mem st \<and> fru_max_read_size fru > FRU_BLOCK_SZ
      \<and> read_fru_loop sendrecv fruId finish off left pos buf fru st =
        read_fru_loop sendrecv fruId finish off left pos buf (fru\<lparr>fru_max_read_size := smaller_read_size (fru_max_read_size fru)\<rparr>) st1)
   \<or> (\<exists>st1 m. ok st1 \<and> mem st1 = mem st \<and> 0 < m \<and> m \<le> left
      \<and> read_fru_loop sendrecv fruId finish off left pos buf fru st =
        (if off + m < finish
         then read_fru_loop sendrecv fruId finish (off + m) (left - m) (pos + m) (put_at pos (take m (drop off (mem st))) buf) fru st1
         else Inr ((0, put_at pos (take m (drop off (mem st))) buf, fru), st1)))"
proof -
  define n where "n = (if finish - off > fru_max_read_size fru then fru_max_read_size fru else finish - off)"
  have n: "0 < n" "n < 256" "off + n \<le> length (mem st)" "n \<le> left" "n \<le> fru_max_read_size fru" using assms by (auto simp: n_def)
  from assms(1) [unfolded fru_reads_def, rule_format, of st n off] assms(2) n obtain st1 where st1: "ok st1" "mem st1 = mem st" and
    r: "if n \<le> lim then \<exists>m. 0 < m \<and> m \<le> n \<and> sendrecv (fru_read_rq fruId off n) st = Inr (Some (rsp_of 0 (word_of_nat m # take m (drop off (mem st)))), st1)
        else \<exists>cc. fru_cc_rq2big cc \<and> sendrecv (fru_read_rq fruId off n) st = Inr (Some (rsp_of cc []), st1)"
    by auto
  note loop = read_fru_loop.simps [of sendrecv fruId finish off left pos buf fru st, folded n_def]
  show ?thesis
  proof (cases "n \<le> lim")
    case True
    with r obtain m where m: "0 < m" "m \<le> n" and s: "sendrecv (fru_read_rq fruId off n) st = Inr (Some (rsp_of 0 (word_of_nat m # take m (drop off (mem st)))), st1)" by auto
    have "length (take m (drop off (mem st))) = m" using m n(3) by simp
    note c = read_count [OF m n(2) this]
    have "read_fru_loop sendrecv fruId finish off left pos buf fru st =
        (if off + m < finish
         then read_fru_loop sendrecv fruId finish (off + m) (left - m) (pos + m) (put_at pos (take m (drop off (mem st))) buf) fru st1
         else Inr ((0, put_at pos (take m (drop off (mem st))) buf, fru), st1))"
      unfolding loop using assms(3) s c m n(4) by (simp add: Let_def)
    moreover have "m \<le> left" using m(2) n(4) by (rule order_trans)
    ultimately show ?thesis using st1 m(1) by blast
  next
    case False
    with r obtain cc where cc: "fru_cc_rq2big cc" and s: "sendrecv (fru_read_rq fruId off n) st = Inr (Some (rsp_of cc []), st1)" by auto
    have big: "fru_max_read_size fru > FRU_BLOCK_SZ" using False assms(8) n(5) by (simp add: FRU_BLOCK_SZ_def)
    have "read_fru_loop sendrecv fruId finish off left pos buf fru st =
        read_fru_loop sendrecv fruId finish off left pos buf (fru\<lparr>fru_max_read_size := smaller_read_size (fru_max_read_size fru)\<rparr>) st1"
      unfolding loop using assms(3,4) s cc rq2big_not_zero [OF cc] big by (simp add: Let_def)
    then show ?thesis using st1 big by blast
  qed
qed


lemma read_fru_loop_correct:
  assumes "fru_reads sendrecv fruId lim ok mem" and "8 \<le> lim"
  shows "ok st \<Longrightarrow> \<not> fru_access fru \<Longrightarrow> off < finish \<Longrightarrow> finish \<le> length (mem st) \<Longrightarrow> 0 < fru_max_read_size fru \<Longrightarrow>
    fru_max_read_size fru < 256 \<Longrightarrow> left = finish - off \<Longrightarrow> pos + left \<le> length buf \<Longrightarrow>
    \<exists>buf' fru' st'. read_fru_loop sendrecv fruId finish off left pos buf fru st = Inr ((0, buf', fru'), st') \<and> ok st' \<and> mem st' = mem st
      \<and> take left (drop pos buf') = take left (drop off (mem st))"
proof (induction left arbitrary: off pos buf fru st rule: less_induct)
  case (less left)
  note outer = less.IH
  show ?case using less.prems
  proof (induction "fru_max_read_size fru" arbitrary: fru st rule: less_induct)
    case less
    note prems = less.prems
    from read_fru_loop_pass [OF assms(1) prems(1-6) assms(2) prems(7), of pos buf]
    consider (retry) st1 where "ok st1" "mem st1 = mem st" "fru_max_read_size fru > FRU_BLOCK_SZ"
        "read_fru_loop sendrecv fruId finish off left pos buf fru st =
         read_fru_loop sendrecv fruId finish off left pos buf (fru\<lparr>fru_max_read_size := smaller_read_size (fru_max_read_size fru)\<rparr>) st1"
      | (more) st1 m where "ok st1" "mem st1 = mem st" "0 < m" "m \<le> left"
        "read_fru_loop sendrecv fruId finish off left pos buf fru st =
         (if off + m < finish
          then read_fru_loop sendrecv fruId finish (off + m) (left - m) (pos + m) (put_at pos (take m (drop off (mem st))) buf) fru st1
          else Inr ((0, put_at pos (take m (drop off (mem st))) buf, fru), st1))"
      by blast
    then show ?case
    proof cases
      case retry
      have sm: "smaller_read_size (fru_max_read_size fru) < fru_max_read_size fru" "0 < smaller_read_size (fru_max_read_size fru)"
        using retry(3) by (auto simp: smaller_read_size_def FRU_BLOCK_SZ_def FRU_AREA_MAXIMUM_BLOCK_SZ_def)
      show ?thesis unfolding retry(4)
        using less.hyps [of "fru\<lparr>fru_max_read_size := smaller_read_size (fru_max_read_size fru)\<rparr>" st1] sm retry(1,2) prems by simp
    next
      case more
      let ?d = "take m (drop off (mem st))"
      let ?buf = "put_at pos ?d buf"
      have d: "length ?d = m" using more(4) prems(4,7) by simp
      have b: "length ?buf = length buf" "take m (drop pos ?buf) = ?d"
        using take_drop_put_at [of pos ?d buf] d more(4) prems(8) by simp_all
      show ?thesis
      proof (cases "off + m < finish")
        case False
        then have "m = left" using more(4) prems(7) by simp
        with False more b show ?thesis by auto
      next
        case True
        have lt: "left - m < left" using more(3,4) by simp
        obtain buf' fru' st' where r: "read_fru_loop sendrecv fruId finish (off + m) (left - m) (pos + m) ?buf fru st1 = Inr ((0, buf', fru'), st')"
          "ok st'" "mem st' = mem st1" "take (left - m) (drop (pos + m) buf') = take (left - m) (drop (off + m) (mem st1))"
          using outer [OF lt, of st1 fru "off + m" "pos + m" ?buf] more(1-4) True prems b(1) by auto
        have fr: "take (pos + m) buf' = take (pos + m) ?buf"
          using read_fru_loop_frame [OF r(1)] b(1) more(4) prems(8) by simp
        have "take m (drop pos buf') = take m (drop pos ?buf)" using fr by (metis take_drop add.commute)
        then have "take left (drop pos buf') = ?d @ take (left - m) (drop (off + m) (mem st))"
          using b(2) r(4) more(2,4) by (metis add.commute drop_drop le_add_diff_inverse take_add)
        also have "\<dots> = take left (drop off (mem st))"
          using more(4) by (metis add.commute drop_drop le_add_diff_inverse take_add)
        finally show ?thesis using r True more(2,5) by auto
      qed
    qed
  qed
qed

lemma init_read_size_range:
  assumes "wf_fru fru" and "\<not> fru_access fru" and "3 \<le> max_rs"
  shows "\<exists>fru'. init_read_size max_rs fru = Some fru' \<and> same_fru fru fru' \<and> 0 < fru_max_read_size fru' \<and> fru_max_read_size fru' < 256"
proof -
  have "3 \<le> unat max_rs" using assms(3) by (simp add: word_le_nat_alt)
  then have "unat (max_rs - 1) = unat max_rs - 1" using unat_sub [of 1 max_rs] by (simp add: word_le_nat_alt)
  then show ?thesis using assms(1,2) \<open>3 \<le> unat max_rs\<close> by (auto simp: init_read_size_def wf_fru_def Let_def)
qed

section \<open>Writing\<close>

lemma put_at_put_at:
  assumes "off + length a + length b \<le> length m"
  shows "put_at (off + length a) b (put_at off a m) = put_at off (a @ b) m"
  using assms by (simp add: put_at_def ac_simps)

lemma dropWhile_head: "dropWhile P xs = b # bs \<Longrightarrow> \<not> P b"
  by (metis hd_dropWhile list.discI list.sel(1))

lemma bloc_end_bounds:
  assumes "d < finish"
  shows "d < bloc_end finish (dropWhile (\<lambda>b. b_start b + b_size b \<le> d) blocs)" and "bloc_end finish bs \<le> finish"
proof -
  show "d < bloc_end finish (dropWhile (\<lambda>b. b_start b + b_size b \<le> d) blocs)"
    unfolding bloc_end_def using assms by (auto split: list.split dest: dropWhile_head)
qed (auto simp: bloc_end_def split: list.split)

lemma write_fru_loop_correct:
  assumes "fru_writes sendrecv fruId lim ok mem" and "32 \<le> lim"
  shows "ok st \<Longrightarrow> \<not> fru_access fru \<Longrightarrow> doffset < finish \<Longrightarrow> finish \<le> length (mem st) \<Longrightarrow> 0 < fru_max_write_size fru \<Longrightarrow>
    fru_max_write_size fru < 256 \<Longrightarrow> soffset + (finish - doffset) \<le> length buf \<Longrightarrow>
    \<exists>fru' st'. write_fru_loop sendrecv fruId finish buf soffset doffset blocs fru st = Some (Inr ((1, fru'), st')) \<and> ok st'
      \<and> mem st' = put_at doffset (take (finish - doffset) (drop soffset buf)) (mem st)"
proof (induction "finish - doffset" arbitrary: soffset doffset blocs fru st rule: less_induct)
  case less
  note outer = less.hyps
  show ?case using less.prems
  proof (induction "fru_max_write_size fru" arbitrary: fru st blocs rule: less_induct)
    case less
    note prems = less.prems
    define blocs1 where "blocs1 = dropWhile (\<lambda>b. b_start b + b_size b \<le> doffset) blocs"
    define e where "e = bloc_end finish blocs1"
    have e: "doffset < e" "e \<le> finish" using bloc_end_bounds [OF prems(3)] by (auto simp: e_def blocs1_def)
    define n where "n = (if e - doffset > fru_max_write_size fru then fru_max_write_size fru else e - doffset)"
    have n: "0 < n" "n < 256" "doffset + n \<le> finish" "n \<le> fru_max_write_size fru" using e prems(5,6) by (auto simp: n_def)
    define d where "d = take n (drop soffset buf)"
    have d: "length d = n" using n prems(7) by (simp add: d_def)
    from assms(1) [unfolded fru_writes_def, rule_format, of st d doffset] prems(1,4) n d obtain st1 where st1: "ok st1" and
      r: "if length d \<le> lim
          then mem st1 = put_at doffset d (mem st) \<and> sendrecv (fru_write_rq fruId doffset d) st = Inr (Some (rsp_of 0 [word_of_nat (length d)]), st1)
          else mem st1 = mem st \<and> (\<exists>cc. fru_cc_rq2big cc \<and> sendrecv (fru_write_rq fruId doffset d) st = Inr (Some (rsp_of cc []), st1))"
      by auto
    note loop = write_fru_loop.simps [of sendrecv fruId finish buf soffset doffset blocs fru st, unfolded Let_def, folded blocs1_def, folded e_def, folded n_def]
    show ?case
    proof (cases "length d \<le> lim")
      case False
      with r obtain cc where m1: "mem st1 = mem st" and cc: "fru_cc_rq2big cc"
        and s: "sendrecv (fru_write_rq fruId doffset d) st = Inr (Some (rsp_of cc []), st1)" by auto
      have big: "fru_max_write_size fru > FRU_AREA_MAXIMUM_BLOCK_SZ" using False assms(2) n(4) d by (simp add: FRU_AREA_MAXIMUM_BLOCK_SZ_def)
      let ?fru = "fru\<lparr>fru_max_write_size := fru_max_write_size fru - FRU_BLOCK_SZ\<rparr>"
      have "write_fru_loop sendrecv fruId finish buf soffset doffset blocs fru st =
          write_fru_loop sendrecv fruId finish buf soffset doffset blocs1 ?fru st1"
        unfolding loop using prems(2,3) s cc big by (simp add: d_def)
      moreover have "fru_max_write_size ?fru < fru_max_write_size fru" "0 < fru_max_write_size ?fru"
        using big by (auto simp: FRU_BLOCK_SZ_def FRU_AREA_MAXIMUM_BLOCK_SZ_def)
      ultimately show ?thesis using less.hyps [of ?fru st1 blocs1] st1 m1 prems by simp
    next
      case True
      with r have m1: "mem st1 = put_at doffset d (mem st)"
        and s: "sendrecv (fru_write_rq fruId doffset d) st = Inr (Some (rsp_of 0 [word_of_nat (length d)]), st1)" by auto
      have eq: "write_fru_loop sendrecv fruId finish buf soffset doffset blocs fru st =
          (if doffset + n < finish then write_fru_loop sendrecv fruId finish buf (soffset + n) (doffset + n) blocs1 fru st1
           else Some (Inr ((1, fru), st1)))"
        unfolding loop using prems(2) s by (simp add: d_def fru_cc_rq2big_def)
      show ?thesis
      proof (cases "doffset + n < finish")
        case False
        then have "finish - doffset = n" using n(3) by simp
        with False eq st1 m1 show ?thesis by (auto simp: d_def)
      next
        case go: True
        have len: "length (mem st1) = length (mem st)" using m1 prems(4) n(3) d by simp
        have lt: "finish - (doffset + n) < finish - doffset" using go n(1) by simp
        obtain fru' st' where r': "write_fru_loop sendrecv fruId finish buf (soffset + n) (doffset + n) blocs1 fru st1 = Some (Inr ((1, fru'), st'))"
          "ok st'" "mem st' = put_at (doffset + n) (take (finish - (doffset + n)) (drop (soffset + n) buf)) (mem st1)"
          using outer [OF lt, of st1 fru "soffset + n" blocs1] st1 go prems len by auto
        have "d @ take (finish - (doffset + n)) (drop (soffset + n) buf) = take (finish - doffset) (drop soffset buf)"
        proof -
          have "finish - doffset = n + (finish - (doffset + n))" using go by simp
          then show ?thesis by (simp add: d_def take_add add.commute)
        qed
        then have "mem st' = put_at doffset (take (finish - doffset) (drop soffset buf)) (mem st)"
          using put_at_put_at [of doffset d "take (finish - (doffset + n)) (drop (soffset + n) buf)" "mem st"] r'(3) m1 d prems(4,7) go by simp
        with go eq r' show ?thesis by auto
      qed
    qed
  qed
qed


section \<open>Encoded strings\<close>

text \<open>
  The encoders of the FRU storage specification: a type and length byte before the data;
  6-bit characters packed from the least significant bit on; digits in BCD plus, the first
  of two in the upper half of the byte.
\<close>

definition fru_field :: "byte \<Rightarrow> byte list \<Rightarrow> byte list" where
  "fru_field t d = (push_bit 6 t OR word_of_nat (length d)) # d"

fun pack6 :: "byte list \<Rightarrow> byte list" where
  "pack6 (a # b # c # d # rest) =
     (let a = a - 0x20; b = b - 0x20; c = c - 0x20; d = d - 0x20
      in [a OR push_bit 6 b, drop_bit 2 b OR push_bit 4 c, drop_bit 4 c OR push_bit 2 d] @ pack6 rest)"
| "pack6 _ = []"

fun pack_bcd :: "nat list \<Rightarrow> byte list" where
  "pack_bcd (a # b # rest) = (push_bit 4 (word_of_nat a) OR word_of_nat b) # pack_bcd rest"
| "pack_bcd _ = []"

lemma six_bits_iff: "(x :: byte) < 64 \<longleftrightarrow> \<not> bit x 6 \<and> \<not> bit x 7"
proof
  assume "x < 64"
  then have "x AND mask 6 = x" by (intro less_mask_eq) simp
  then have "bit x n \<Longrightarrow> n < 6" for n by (metis bit_and_iff bit_mask_iff)
  from this [of 6] this [of 7] show "\<not> bit x 6 \<and> \<not> bit x 7" by auto
next
  assume h: "\<not> bit x 6 \<and> \<not> bit x 7"
  have "x AND mask 6 = x"
  proof (rule bit_word_eqI)
    fix n assume "n < LENGTH(8)"
    then have "n < 6 \<or> n = 6 \<or> n = 7" by auto
    with h show "bit (x AND mask 6) n = bit x n" by (auto simp: bit_simps)
  qed
  then show "x < 64" using and_mask_less' [of 6 x] by simp
qed

lemma byte_eq_bits:
  assumes "bit x 0 = bit y 0" and "bit x 1 = bit y 1" and "bit x 2 = bit y 2" and "bit x 3 = bit y 3"
    and "bit x 4 = bit y 4" and "bit x 5 = bit y 5" and "bit x 6 = bit y 6" and "bit x 7 = bit y 7"
  shows "x = (y :: byte)"
proof (rule bit_word_eqI)
  fix n assume "n < LENGTH(8)"
  then have "n < 8" by simp
  then consider "n = 0" | "n = 1" | "n = 2" | "n = 3" | "n = 4" | "n = 5" | "n = 6" | "n = 7" by linarith
  then show "bit x n = bit y n" by cases (simp_all only: assms)
qed

lemma bit_of_le32_3:
  assumes "n < 24"
  shows "bit (of_le32 [p, q, r, 0]) n = bit (if n < 8 then p else if n < 16 then q else r) (n mod 8)"
proof -
  consider "n < 8" | "8 \<le> n" "n < 16" | "16 \<le> n" "n < 24" using assms by linarith
  then show ?thesis
  proof cases
    case 2
    then have "n mod 8 = n - 8" by (simp add: mod_if)
    with 2 show ?thesis by (auto simp: of_le32_def bit_simps dest: bit_imp_le_length)
  next
    case 3
    then have "n mod 8 = n - 16" by (simp add: mod_if)
    with 3 show ?thesis by (auto simp: of_le32_def bit_simps dest: bit_imp_le_length)
  qed (auto simp: of_le32_def bit_simps)
qed

lemma six_bit_chars_pack:
  assumes "a < 64" and "b < 64" and "c < 64" and "d < 64"
  shows "six_bit_chars 4 (of_le32 [a OR push_bit 6 b, drop_bit 2 b OR push_bit 4 c, drop_bit 4 c OR push_bit 2 d, 0]) =
    [a + 0x20, b + 0x20, c + 0x20, d + 0x20]"
proof -
  define p q r w where "p = a OR push_bit 6 b" and "q = drop_bit 2 b OR push_bit 4 c" and "r = drop_bit 4 c OR push_bit 2 d"
    and "w = of_le32 [p, q, r, 0]"
  have h: "\<not> bit a 6" "\<not> bit a 7" "\<not> bit b 6" "\<not> bit b 7" "\<not> bit c 6" "\<not> bit c 7" "\<not> bit d 6" "\<not> bit d 7"
    using assms by (auto simp: six_bits_iff)
  have m: "(0x3F :: byte) = mask 6" by (simp add: mask_eq_exp_minus_1)
  have bw: "bit (ucast (drop_bit k w) AND mask 6 :: byte) n = (n < 6 \<and> bit w (n + k))" for k n
    by (auto simp: bit_simps add.commute [of k n])
  have w: "n < 24 \<Longrightarrow> bit w n = bit (if n < 8 then p else if n < 16 then q else r) (n mod 8)" for n
    unfolding w_def by (rule bit_of_le32_3)
  have bits: "bit p n = (bit a n \<or> 6 \<le> n \<and> n < 8 \<and> bit b (n - 6))" "bit q n = (bit b (n + 2) \<or> 4 \<le> n \<and> n < 8 \<and> bit c (n - 4))"
    "bit r n = (bit c (n + 4) \<or> 2 \<le> n \<and> n < 8 \<and> bit d (n - 2))" for n
    by (auto simp: p_def q_def r_def bit_simps add.commute)
  have hi: "\<not> bit (x :: byte) 8" "\<not> bit x 9" "\<not> bit x 10" "\<not> bit x 11" for x by (auto dest: bit_imp_le_length)
  have "ucast (drop_bit 0 w) AND mask 6 = a" "ucast (drop_bit 6 w) AND mask 6 = b"
    "ucast (drop_bit 12 w) AND mask 6 = c" "ucast (drop_bit 18 w) AND mask 6 = d"
    by (rule byte_eq_bits; simp only: bw; simp add: w bits h hi; simp add: numeral_2_eq_2 numeral_3_eq_3)+
  then show ?thesis by (simp add: numeral_eq_Suc m w_def p_def q_def r_def)
qed


lemma length_pack6: "length s mod 4 = 0 \<Longrightarrow> length (pack6 s) = 3 * (length s div 4)"
proof (induction s rule: pack6.induct)
  case (1 a b c d rest)
  then have "length (pack6 rest) = 3 * (length rest div 4)" by simp
  then have "length (pack6 (a # b # c # d # rest)) = 3 + 3 * (length rest div 4)" by (simp add: Let_def)
  moreover have "length (a # b # c # d # rest) div 4 = 1 + length rest div 4" by simp
  ultimately show ?case by (simp only: distrib_left mult_1_right)
qed auto

lemma six_bit_groups_pack6:
  assumes "length s mod 4 = 0" and "\<forall>x\<in>set s. 0x20 \<le> x \<and> x < 0x60"
  shows "six_bit_groups (pack6 s) = s"
  using assms
proof (induction s rule: pack6.induct)
  case (1 a b c d rest)
  have lt: "x - 0x20 < 64" if "0x20 \<le> x" "x < 0x60" for x :: byte
  proof -
    have "unat (x - 0x20) = unat x - 32" using that(1) by (simp add: unat_sub)
    then show ?thesis using that by (simp add: word_less_nat_alt word_le_nat_alt)
  qed
  have h: "a - 0x20 < 64" "b - 0x20 < 64" "c - 0x20 < 64" "d - 0x20 < 64" using 1(3) by (auto intro: lt)
  have IH: "six_bit_groups (pack6 rest) = rest" using 1 by simp
  have "take 3 (replicate 4 (0 :: byte)) = [0, 0, 0]" "replicate 4 (0 :: byte) = [0, 0, 0, 0]" by (simp_all add: numeral_eq_Suc)
  then show ?case using six_bit_chars_pack [OF h] IH by (simp add: Let_def)
qed auto

lemma length_pack_bcd: "even (length ns) \<Longrightarrow> length (pack_bcd ns) = length ns div 2"
  by (induction ns rule: pack_bcd.induct) auto

lemma nibble_word: "a < 16 \<Longrightarrow> (word_of_nat a :: byte) AND 0x0F = word_of_nat a" "a < 16 \<Longrightarrow> drop_bit 4 (word_of_nat a :: byte) = 0"
proof -
  assume "a < 16"
  then have w: "(word_of_nat a :: byte) < 2 ^ 4" by (simp add: word_less_nat_alt unat_of_nat)
  have "(0x0F :: byte) = mask 4" by (simp add: mask_eq_exp_minus_1)
  with less_mask_eq [OF w] show "(word_of_nat a :: byte) AND 0x0F = word_of_nat a" by simp
  then have "\<not> bit (word_of_nat a :: byte) (4 + n)" for n
    using \<open>(0x0F :: byte) = mask 4\<close> by (metis bit_and_iff bit_mask_iff not_add_less1)
  then show "drop_bit 4 (word_of_nat a :: byte) = 0" by (intro bit_word_eqI) (simp add: bit_drop_bit_eq)
qed

lemma bcd_byte:
  assumes "a < 16" and "b < 16"
  shows "drop_bit 4 (push_bit 4 (word_of_nat a) OR word_of_nat b :: byte) AND 0x0F = word_of_nat a"
    and "(push_bit 4 (word_of_nat a) OR word_of_nat b :: byte) AND 0x0F = word_of_nat b"
proof -
  have m: "(0x0F :: byte) = mask 4" by (simp add: mask_eq_exp_minus_1)
  have na: "\<not> bit (word_of_nat a :: byte) n" if "4 \<le> n" for n
    using nibble_word(1) [OF assms(1)] that unfolding m by (metis bit_and_iff bit_mask_iff leD)
  have "drop_bit 4 (push_bit 4 (word_of_nat a :: byte)) = word_of_nat a"
  proof (rule bit_word_eqI)
    fix n assume "n < LENGTH(8)"
    show "bit (drop_bit 4 (push_bit 4 (word_of_nat a :: byte))) n = bit (word_of_nat a :: byte) n"
      using na [of n] by (cases "n < 4") (auto simp: bit_simps)
  qed
  then show "drop_bit 4 (push_bit 4 (word_of_nat a) OR word_of_nat b :: byte) AND 0x0F = word_of_nat a"
    using nibble_word [OF assms(1)] nibble_word [OF assms(2)] by (simp add: drop_bit_or)
  have "push_bit 4 (word_of_nat a :: byte) AND 0x0F = 0" unfolding m by (rule bit_word_eqI) (auto simp: bit_simps)
  then show "(push_bit 4 (word_of_nat a) OR word_of_nat b :: byte) AND 0x0F = word_of_nat b"
    using nibble_word(1) [OF assms(2)] by (simp add: bit.conj_disj_distrib2)
qed

lemma bcd_chars:
  assumes "even (length ns)" and "\<forall>n\<in>set ns. n < 16"
  shows "map (\<lambda>k. bcd_plus ! unat (drop_bit (if k mod 2 = 1 then 0 else 4) (pack_bcd ns ! (k div 2)) AND 0x0F)) [0..<length ns] = map ((!) bcd_plus) ns"
  using assms
proof (induction ns rule: pack_bcd.induct)
  case (1 a b rest)
  have ab: "a < 16" "b < 16" using 1(3) by auto
  have u: "unat (word_of_nat n :: byte) = n" if "n < 16" for n using that by (simp add: unat_of_nat)
  let ?f = "\<lambda>ns k. bcd_plus ! unat (drop_bit (if k mod 2 = 1 then 0 else 4) (pack_bcd ns ! (k div 2)) AND 0x0F)"
  have rest: "map (?f rest) [0..<length rest] = map ((!) bcd_plus) rest" using 1 by simp
  have "map (?f (a # b # rest)) [0..<length (a # b # rest)] = map (?f (a # b # rest)) [0, 1] @ map (\<lambda>k. ?f (a # b # rest) (k + 2)) [0..<length rest]"
  proof -
    have "[0..<length (a # b # rest)] = [0, 1] @ map (\<lambda>k. k + 2) [0..<length rest]"
      using map_add_upt [of 2 "length rest"] by (simp add: upt_conv_Cons numeral_2_eq_2 del: upt_Suc)
    then show ?thesis by (simp only: map_append map_map comp_def)
  qed
  also have "map (?f (a # b # rest)) [0, 1] = [bcd_plus ! a, bcd_plus ! b]" using bcd_byte [OF ab] u ab by simp
  also have "map (\<lambda>k. ?f (a # b # rest) (k + 2)) [0..<length rest] = map (?f rest) [0..<length rest]" by simp
  finally show ?case using rest by simp
qed auto

lemma fru_field_head:
  assumes "length d \<le> 63" and "t \<in> {0, 1, 2, 3}"
  shows "drop_bit 6 (fru_field t d ! 0 AND 0xC0) = t" and "unat (fru_field t d ! 0 AND 0x3F) = length d"
proof -
  let ?x = "word_of_nat (length d) :: byte"
  have x: "?x < 2 ^ 6" using assms(1) by (simp add: word_less_nat_alt unat_of_nat)
  have m: "(0x3F :: byte) = mask 6" by (simp add: mask_eq_exp_minus_1)
  have x1: "?x AND 0x3F = ?x" using less_mask_eq [OF x] m by simp
  have "?x AND 0xC0 = (?x AND 0x3F) AND 0xC0" by (simp only: x1)
  also have "\<dots> = 0" by (simp add: and.assoc)
  finally have x2: "?x AND 0xC0 = 0" .
  show "drop_bit 6 (fru_field t d ! 0 AND 0xC0) = t"
    using assms(2) by (auto simp: fru_field_def bit.conj_disj_distrib2 x2)
  have "(push_bit 6 t OR ?x) AND 0x3F = ?x" using assms(2) by (auto simp: bit.conj_disj_distrib2 x1)
  then show "unat (fru_field t d ! 0 AND 0x3F) = length d" using assms(1) by (simp add: fru_field_def unat_of_nat)
qed

lemma get_fru_area_str_field:
  assumes "0 < length d" and "length d \<le> 63" and "t \<in> {0, 1, 2, 3}"
  shows "get_fru_area_str (pre @ fru_field t d @ post) (length pre) = Some (Some (
     if t = 0 then map of_char (concat (map hex2 d))
     else if t = 1 then map (\<lambda>k. bcd_plus ! unat (drop_bit (if k mod 2 = 1 then 0 else 4) (d ! (k div 2)) AND 0x0F)) [0..<length d * 2]
     else if t = 2 then six_bit_groups d else d), length pre + 1 + length d)"
proof -
  let ?data = "pre @ fru_field t d @ post"
  have at: "?data ! length pre = fru_field t d ! 0" by (simp add: fru_field_def nth_append)
  have dr: "take (length d) (drop (length pre + 1) ?data) = d" by (simp add: fru_field_def)
  have len: "\<not> length pre \<ge> length ?data" "\<not> length pre + 1 + length d > length ?data" by (simp_all add: fru_field_def)
  note h = fru_field_head [OF assms(2,3)]
  from assms(3) consider "t = 0" | "t = 1" | "t = 2" | "t = 3" by auto
  then show ?thesis
    by cases (use assms(1) len dr h at in \<open>simp_all add: get_fru_area_str_def Let_def\<close>)
qed


section \<open>Whole inventories\<close>

text \<open>The device reports its size and that it is accessed by bytes.\<close>

definition fru_informs :: "('e, 's) sendrecv \<Rightarrow> byte \<Rightarrow> ('s \<Rightarrow> bool) \<Rightarrow> ('s \<Rightarrow> byte list) \<Rightarrow> bool" where
  "fru_informs sendrecv fruId ok mem \<longleftrightarrow> (\<forall>st. ok st \<longrightarrow> (\<exists>st'. ok st' \<and> mem st' = mem st \<and>
     sendrecv (mk_rq 0x0A 0x10 [fruId]) st =
       Inr (Some (rsp_of 0 [word_of_nat (length (mem st) mod 256), word_of_nat (length (mem st) div 256), 0]), st')))"

definition plain_fru :: "nat \<Rightarrow> fru_info" where
  "plain_fru n = \<lparr>fru_size = n, fru_access = False, fru_max_read_size = 0, fru_max_write_size = 0\<rparr>"

lemma wf_plain_fru: "n < 65536 \<Longrightarrow> wf_fru (plain_fru n)"
  by (simp add: wf_fru_def plain_fru_def)

lemma fru_get_info_plain:
  assumes "fru_informs sendrecv fruId ok mem" and "ok st" and "length (mem st) < 65536"
  shows "\<exists>st'. ok st' \<and> mem st' = mem st \<and> fru_get_info sendrecv fruId st = Inr (Some (plain_fru (length (mem st))), st')"
proof -
  from assms(1,2) obtain st' where st': "ok st'" "mem st' = mem st" "sendrecv (mk_rq 0x0A 0x10 [fruId]) st =
       Inr (Some (rsp_of 0 [word_of_nat (length (mem st) mod 256), word_of_nat (length (mem st) div 256), 0]), st')"
    unfolding fru_informs_def by blast
  have "unat (word_of_nat (length (mem st) mod 256) :: byte) = length (mem st) mod 256"
    "unat (word_of_nat (length (mem st) div 256) :: byte) = length (mem st) div 256"
    using assms(3) by (simp_all add: unat_of_nat)
  then have "fru_get_info sendrecv fruId st = Inr (Some (plain_fru (length (mem st))), st')"
    using st'(3) by (simp add: fru_get_info_def rsp_byte_def plain_fru_def)
  with st'(1,2) show ?thesis by blast
qed

lemma build_fru_bloc_plain:
  assumes "fru_reads sendrecv fruId lim ok mem" and "8 \<le> lim" and "ok st" and "8 \<le> length (mem st)" and "mem st ! 5 = 0"
  shows "\<exists>st' blocs. ok st' \<and> mem st' = mem st \<and> build_fru_bloc sendrecv max_rs fruId fru st = Inr ((blocs, fru), st')"
proof -
  from assms(1) [unfolded fru_reads_def, rule_format, of st 8 0] assms(2-4) obtain st' m where st': "ok st'" "mem st' = mem st" and
    m: "0 < m" "m \<le> 8" and s: "sendrecv (fru_read_rq fruId 0 8) st = Inr (Some (rsp_of 0 (word_of_nat m # take m (mem st))), st')"
    by auto
  let ?r = "rsp_of 0 (word_of_nat m # take m (mem st))"
  have "rsp_bytes ?r 1 8 ! 5 = 0" using assms(4,5) by (simp add: rsp_byte_def)
  then have "fh_multi (fru_header_of (rsp_bytes ?r 1 8)) = 0" by (simp only: fru_header_of_def fru_header.simps)
  then show ?thesis using s st' by (auto simp: build_fru_bloc_def Let_def)
qed

lemma read_fru_area_correct:
  assumes "fru_reads sendrecv fruId lim ok mem" and "8 \<le> lim" and "ok st" and "wf_fru fru" and "\<not> fru_access fru"
    and "fru_size fru \<le> length (mem st)" and "0 < len" and "offset + len \<le> fru_size fru" and "len \<le> length buf" and "3 \<le> max_rs"
  shows "\<exists>buf' fru' st'. read_fru_area sendrecv max_rs fruId offset len buf fru st = Inr ((0, buf', fru'), st') \<and> ok st' \<and> mem st' = mem st
    \<and> take len buf' = take len (drop offset (mem st)) \<and> drop len buf' = drop len buf \<and> length buf' = length buf"
proof -
  from init_read_size_range [OF assms(4,5,10)] obtain fru1 where f: "init_read_size max_rs fru = Some fru1" "same_fru fru fru1"
    "0 < fru_max_read_size fru1" "fru_max_read_size fru1 < 256" by blast
  have a: "\<not> fru_access fru1" using same_fru_fields [OF f(2)] assms(5) by simp
  have eq: "read_fru_area sendrecv max_rs fruId offset len buf fru st =
      map_sum Transport id (read_fru_loop sendrecv fruId (offset + len) offset len 0 buf fru1 st)"
    using assms(8) f(1) by (simp add: read_fru_area_def Let_def)
  have "offset < offset + len" "offset + len \<le> length (mem st)" "len = offset + len - offset" "0 + len \<le> length buf"
    using assms(6-9) by simp_all
  from read_fru_loop_correct [OF assms(1,2,3) a this(1,2) f(3,4) this(3,4)] eq obtain buf' fru' st' where
    r: "read_fru_area sendrecv max_rs fruId offset len buf fru st = Inr ((0, buf', fru'), st')" "ok st'" "mem st' = mem st"
      "take len (drop 0 buf') = take len (drop offset (mem st))" by auto
  with read_fru_area_frame [OF r(1)] assms(9) show ?thesis by auto
qed

lemma write_fru_area_correct:
  assumes "fru_reads sendrecv fruId lim ok mem" and "fru_writes sendrecv fruId lim ok mem" and "32 \<le> lim" and "ok st"
    and "wf_fru fru" and "\<not> fru_access fru" and "fru_size fru \<le> length (mem st)" and "8 \<le> fru_size fru" and "mem st ! 5 = 0"
    and "0 < len" and "doffset + len \<le> fru_size fru" and "soffset + len \<le> length buf" and "4 \<le> max_rq"
  shows "\<exists>fru' st'. write_fru_area sendrecv max_rq max_rs fruId soffset doffset len buf fru st = Some (Inr ((1, fru'), st')) \<and> ok st'
    \<and> mem st' = put_at doffset (take len (drop soffset buf)) (mem st)"
proof -
  have "8 \<le> lim" "8 \<le> length (mem st)" using assms(3,7,8) by simp_all
  from build_fru_bloc_plain [OF assms(1) this(1) assms(4) this(2) assms(9), of max_rs fru] obtain st1 blocs where
    b: "ok st1" "mem st1 = mem st" "build_fru_bloc sendrecv max_rs fruId fru st = Inr ((blocs, fru), st1)" by blast
  have "4 \<le> unat max_rq" using assms(13) by (simp add: word_le_nat_alt)
  then have "\<exists>fru2. init_write_size max_rq fru = Some fru2 \<and> \<not> fru_access fru2 \<and> 0 < fru_max_write_size fru2 \<and> fru_max_write_size fru2 < 256"
    using assms(5,6) by (cases "fru_max_write_size fru = 0") (simp_all add: init_write_size_def wf_fru_def Let_def)
  then obtain fru2 where f: "init_write_size max_rq fru = Some fru2" "\<not> fru_access fru2" "0 < fru_max_write_size fru2" "fru_max_write_size fru2 < 256"
    by blast
  have fin: "(doffset + len) mod 65536 = doffset + len" using assms(5,11) by (simp add: wf_fru_def)
  have c: "doffset < doffset + len" "doffset + len \<le> length (mem st1)" "soffset + (doffset + len - doffset) \<le> length buf"
    using assms(7,10-12) b(2) by simp_all
  have eq: "write_fru_area sendrecv max_rq max_rs fruId soffset doffset len buf fru st =
      write_fru_loop sendrecv fruId (doffset + len) buf soffset doffset (case blocs of None \<Rightarrow> [] | Some bs \<Rightarrow> bs) fru2 st1"
    using fin assms(6,11) b(3) f(1) by (simp add: write_fru_area_def Let_def)
  from write_fru_loop_correct [OF assms(2,3) b(1) f(2) c(1,2) f(3,4) c(3), of "case blocs of None \<Rightarrow> [] | Some bs \<Rightarrow> bs"] b(2)
  show ?thesis unfolding eq by simp
qed

text \<open>
  A device accessed by words and a bloc that ends at an odd offset: when one byte is left
  before that end, the write is for no byte at all, the device confirms it, and the loop
  goes on without progress.
\<close>

lemma write_fru_loop_stuck:
  assumes "\<And>st. sendrecv (fru_write_rq fruId (doffset div 2) []) st = Inr (Some (rsp_of 0 [0]), st)"
    and "fru_access fru" and "doffset + 1 < finish" and "b_start b + b_size b = doffset + 1"
  shows "write_fru_loop sendrecv fruId finish buf soffset doffset (b # bs) fru st = None"
proof (rule ccontr)
  assume "write_fru_loop sendrecv fruId finish buf soffset doffset (b # bs) fru st \<noteq> None"
  then obtain y where y: "write_fru_loop sendrecv fruId finish buf soffset doffset (b # bs) fru st = Some y" by auto
  have drops: "dropWhile (\<lambda>b. b_start b + b_size b \<le> doffset) (b # bs) = b # bs" using assms(4) by simp
  have bend: "bloc_end finish (b # bs) = doffset + 1" using assms(3,4) by (simp add: bloc_end_def)
  have "x1 = sendrecv \<and> x2 = fruId \<and> x3 = finish \<and> x4 = buf \<and> x5 = soffset \<and> x6 = doffset \<and> x7 = b # bs \<and> x8 = fru \<and> x9 = st \<longrightarrow> False"
    if "write_fru_loop x1 x2 x3 x4 x5 x6 x7 x8 x9 = Some z" for x1 x2 x3 x4 x5 x6 x7 x8 x9 z
    using that
  proof (induction x1 x2 x3 x4 x5 x6 x7 x8 x9 z rule: write_fru_loop.raw_induct [rotated, consumes 1, case_names step])
    case (step loop x1 x2 x3 x4 x5 x6 x7 x8 x9 z)
    show ?case
    proof
      assume eq: "x1 = sendrecv \<and> x2 = fruId \<and> x3 = finish \<and> x4 = buf \<and> x5 = soffset \<and> x6 = doffset \<and> x7 = b # bs \<and> x8 = fru \<and> x9 = st"
      have "loop sendrecv fruId finish buf soffset doffset (b # bs) fru st = Some z"
        using step(2) eq assms(1) [of st] assms(2,3) drops bend by (simp add: Let_def fru_cc_rq2big_def split: if_splits)
      from step(1) [OF this] show False by simp
    qed
  qed
  with y show False by blast
qed


section \<open>Properties of the inventory commands\<close>

text \<open>
  A device over its inventory, used as an example: it serves reads and writes of at most
  \<open>lim\<close> bytes and refuses larger ones.
\<close>

definition fru_device :: "nat \<Rightarrow> (unit, byte list) sendrecv" where
  "fru_device lim r mem =
     (let d = rq_data r; off = unat (d ! 1) + 256 * unat (d ! 2)
      in Inr (if rq_cmd r = 0x10 then (Some (rsp_of 0 [word_of_nat (length mem mod 256), word_of_nat (length mem div 256), 0]), mem)
              else if rq_cmd r = 0x11
              then (Some (if unat (d ! 3) \<le> lim then rsp_of 0 (d ! 3 # take (unat (d ! 3)) (drop off mem)) else rsp_of 0xC8 []), mem)
              else if length (drop 3 d) \<le> lim then (Some (rsp_of 0 [word_of_nat (length (drop 3 d))]), put_at off (drop 3 d) mem)
              else (Some (rsp_of 0xC8 []), mem)))"

definition fru_device_ok :: "byte list \<Rightarrow> bool" where
  "fru_device_ok mem \<longleftrightarrow> length mem < 65536"

lemma two_bytes: "off < 65536 \<Longrightarrow> unat (word_of_nat (off mod 256) :: byte) + 256 * unat (word_of_nat (off div 256) :: byte) = off"
  by (simp add: unat_of_nat)

lemma word_of_nat_mod_byte: "(word_of_nat (n mod 256) :: byte) = word_of_nat n"
  by (simp add: word_unat_eq_iff unat_of_nat)

lemma fru_device_informs: "fru_informs (fru_device lim) fruId fru_device_ok id"
  by (simp add: fru_informs_def fru_device_def mk_rq_def)

lemma fru_device_reads: "fru_reads (fru_device lim) fruId lim fru_device_ok id"
  unfolding fru_reads_def
proof (intro allI impI)
  fix st :: "byte list" and off n
  assume h: "fru_device_ok st \<and> 0 < n \<and> n < 256 \<and> off + n \<le> length (id st)"
  then have off: "off < 65536" and n: "unat (word_of_nat n :: byte) = n" by (auto simp: fru_device_ok_def unat_of_nat)
  have "fru_device lim (fru_read_rq fruId off n) st =
      Inr (Some (if n \<le> lim then rsp_of 0 (word_of_nat n # take n (drop off st)) else rsp_of 0xC8 []), st)"
    using two_bytes [OF off] n by (simp add: fru_device_def fru_read_rq_def mk_rq_def)
  with h show "\<exists>st'. fru_device_ok st' \<and> id st' = id st \<and>
     (if n \<le> lim
      then \<exists>m. 0 < m \<and> m \<le> n \<and> fru_device lim (fru_read_rq fruId off n) st = Inr (Some (rsp_of 0 (word_of_nat m # take m (drop off (id st)))), st')
      else \<exists>cc. fru_cc_rq2big cc \<and> fru_device lim (fru_read_rq fruId off n) st = Inr (Some (rsp_of cc []), st'))"
    by (auto simp: fru_cc_rq2big_def)
qed

lemma fru_device_writes: "fru_writes (fru_device lim) fruId lim fru_device_ok id"
  unfolding fru_writes_def
proof (intro allI impI)
  fix st d :: "byte list" and off
  assume h: "fru_device_ok st \<and> d \<noteq> [] \<and> length d < 256 \<and> off + length d \<le> length (id st)"
  then have off: "off < 65536" by (auto simp: fru_device_ok_def)
  have "fru_device lim (fru_write_rq fruId off d) st =
      Inr (if length d \<le> lim then (Some (rsp_of 0 [word_of_nat (length d)]), put_at off d st) else (Some (rsp_of 0xC8 []), st))"
    using two_bytes [OF off] by (simp add: fru_device_def fru_write_rq_def mk_rq_def word_of_nat_mod_byte)
  with h show "\<exists>st'. fru_device_ok st' \<and>
     (if length d \<le> lim
      then id st' = put_at off d (id st) \<and> fru_device lim (fru_write_rq fruId off d) st = Inr (Some (rsp_of 0 [word_of_nat (length d)]), st')
      else id st' = id st \<and> (\<exists>cc. fru_cc_rq2big cc \<and> fru_device lim (fru_write_rq fruId off d) st = Inr (Some (rsp_of cc []), st')))"
    by (cases "length d \<le> lim") (auto simp: fru_cc_rq2big_def fru_device_ok_def)
qed

lemma put_at_whole: "length d = length mem \<Longrightarrow> put_at 0 d mem = d"
  by (simp add: put_at_def)

text \<open>
  C36: On a device that answers (requests of up to \<open>lim\<close> bytes, at least 32, larger ones refused with one of the
  "request too big" codes, reads possibly shorter than requested) and is accessed by bytes, \<open>fru write\<close> with a file exactly
  as long as the inventory followed by \<open>fru read\<close> gives that file back: both end, the device holds the
  file and the file written by the read is the one that was written to the device. The old
  inventory has no multi-record area.
\<close>

theorem fru_file_roundtrip:
  assumes "fru_reads sendrecv fruId lim ok mem" and "fru_writes sendrecv fruId lim ok mem" and "fru_informs sendrecv fruId ok mem"
    and "32 \<le> lim" and "ok st" and "length (mem st) < 65536" and "8 \<le> length (mem st)" and "mem st ! 5 = 0"
    and "4 \<le> max_rq" and "3 \<le> max_rs" and "length file = length (mem st)" and "length (fresh (length file)) = length file"
  shows "\<exists>st1 st2. ipmi_fru_write_from_bin sendrecv max_rq max_rs fruId (Some file) st = Some (Inr st1) \<and> mem st1 = file
    \<and> ipmi_fru_read_to_bin sendrecv max_rs fresh fruId st1 = Inr (Some file, st2) \<and> mem st2 = file"
proof -
  from fru_get_info_plain [OF assms(3,5,6)] obtain s1 where
    s1: "ok s1" "mem s1 = mem st" "fru_get_info sendrecv fruId st = Inr (Some (plain_fru (length (mem st))), s1)" by blast
  let ?f = "plain_fru (length (mem st))"
  have f: "wf_fru ?f" "\<not> fru_access ?f" "fru_size ?f = length (mem st)"
    using assms(6) wf_plain_fru [of "length (mem st)"] by (simp_all add: plain_fru_def)
  have "\<exists>fru' st1. write_fru_area sendrecv max_rq max_rs fruId 0 0 (length file) file ?f s1 = Some (Inr ((1, fru'), st1)) \<and> ok st1
      \<and> mem st1 = put_at 0 (take (length file) (drop 0 file)) (mem s1)"
    by (rule write_fru_area_correct [OF assms(1,2,4) s1(1) f(1,2)]) (use f(3) s1(2) assms(7-9,11) in auto)
  then obtain fru' st1 where w: "write_fru_area sendrecv max_rq max_rs fruId 0 0 (length file) file ?f s1 = Some (Inr ((1, fru'), st1))"
    "ok st1" "mem st1 = file"
    using assms(11) s1(2) by (auto simp: put_at_whole)
  have "take (length (mem st)) file = file" "length file \<noteq> 0" using assms(7,11) by auto
  then have W: "ipmi_fru_write_from_bin sendrecv max_rq max_rs fruId (Some file) st = Some (Inr st1)"
    using w(1) f(3) by (simp add: ipmi_fru_write_from_bin_def s1(3))
  from fru_get_info_plain [OF assms(3) w(2)] w(3) assms(6,11) obtain s2 where
    s2: "ok s2" "mem s2 = file" "fru_get_info sendrecv fruId st1 = Inr (Some ?f, s2)" by auto
  have "\<exists>buf' fru' st2. read_fru_area sendrecv max_rs fruId 0 (length file) (fresh (length file)) ?f s2 = Inr ((0, buf', fru'), st2) \<and> ok st2 \<and> mem st2 = mem s2
    \<and> take (length file) buf' = take (length file) (drop 0 (mem s2)) \<and> drop (length file) buf' = drop (length file) (fresh (length file))
    \<and> length buf' = length (fresh (length file))"
    by (rule read_fru_area_correct [OF assms(1) _ s2(1) f(1,2)]) (use f(3) s2(2) assms(4,7,10-12) in auto)
  then obtain buf' fru2 st2 where r: "read_fru_area sendrecv max_rs fruId 0 (length file) (fresh (length file)) ?f s2 = Inr ((0, buf', fru2), st2)"
    "mem st2 = file" "buf' = file"
    using s2(2) assms(12) by auto
  have "ipmi_fru_read_to_bin sendrecv max_rs fresh fruId st1 = Inr (Some file, st2)"
    using r f(3) assms(11) by (simp add: ipmi_fru_read_to_bin_def s2(3))
  with W w(3) r(2) show ?thesis by blast
qed

theorem fru_file_roundtrip_witness:
  "\<exists>st1 st2. ipmi_fru_write_from_bin (fru_device 32) 40 40 0 (Some (replicate 100 7)) (replicate 100 0) = Some (Inr st1) \<and> id st1 = replicate 100 7
    \<and> ipmi_fru_read_to_bin (fru_device 32) 40 (\<lambda>n. replicate n 0) 0 st1 = Inr (Some (replicate 100 7), st2) \<and> id st2 = replicate 100 7"
  by (rule fru_file_roundtrip [OF fru_device_reads fru_device_writes fru_device_informs])
    (simp_all add: fru_device_ok_def word_le_nat_alt)


text \<open>
  C37: A read of an area, whatever the device answers (wrong counts included), keeps the length of the
  caller's buffer and everything past the requested length, and changes nothing of the FRU
  information but the read size; the only way to write outside is the clearing of the buffer
  when the area starts inside the inventory, reaches past its end and is shorter than the whole
  inventory.
\<close>

theorem fru_read_in_bounds:
  assumes "len \<le> length buf"
  shows "case read_fru_area sendrecv max_rs fruId offset len buf fru st of
      Inl Wild_memset \<Rightarrow> offset \<le> fru_size fru \<and> offset + len > fru_size fru \<and> len < fru_size fru
    | Inl (Transport e) \<Rightarrow> True
    | Inl Overread \<Rightarrow> False
    | Inr ((rc, buf', fru'), st') \<Rightarrow> length buf' = length buf \<and> drop len buf' = drop len buf \<and> same_fru fru fru'"
proof (cases "read_fru_area sendrecv max_rs fruId offset len buf fru st")
  case (Inr x)
  obtain rc buf' fru' st' where x: "x = ((rc, buf', fru'), st')" by (cases x) auto
  from read_fru_area_frame [OF Inr [unfolded x]] assms Inr x show ?thesis by simp
next
  case (Inl e)
  show ?thesis
  proof (cases "offset \<le> fru_size fru \<and> offset + len > fru_size fru \<and> len < fru_size fru")
    case True
    with Inl show ?thesis by (simp add: read_fru_area_def)
  next
    case False
    with Inl have "\<exists>t. e = Transport t"
      by (auto simp: read_fru_area_def Let_def map_sum_def split: option.splits sum.splits if_splits)
    with Inl show ?thesis by auto
  qed
qed

theorem fru_read_in_bounds_witness:
  "case read_fru_area (fru_device 32) 40 0 4 16 (replicate 20 1) (plain_fru 64) (replicate 64 5) of
      Inl Wild_memset \<Rightarrow> 4 \<le> fru_size (plain_fru 64) \<and> 4 + 16 > fru_size (plain_fru 64) \<and> 16 < fru_size (plain_fru 64)
    | Inl (Transport e) \<Rightarrow> True
    | Inl Overread \<Rightarrow> False
    | Inr ((rc, buf', fru'), st') \<Rightarrow> length buf' = length (replicate 20 (1 :: byte)) \<and> drop 16 buf' = drop 16 (replicate 20 1) \<and> same_fru (plain_fru 64) fru'"
  by (rule fru_read_in_bounds) simp

text \<open>
  C38: A field of an area decodes to the text it encodes, wherever it is in the area: 6-bit
  characters (in fours) unpack to themselves, BCD plus digits to their characters, 8-bit
  text is copied; and the offset moves to the byte after the field.
\<close>

theorem fru_string_roundtrip:
  assumes "length s mod 4 = 0" and "0 < length s" and "length s \<le> 84" and "\<forall>x\<in>set s. 0x20 \<le> x \<and> x < 0x60"
    and "even (length ns)" and "0 < length ns" and "length ns \<le> 126" and "\<forall>n\<in>set ns. n < 16"
    and "0 < length d" and "length d \<le> 63"
  shows "get_fru_area_str (pre @ fru_field 2 (pack6 s) @ post) (length pre) = Some (Some s, length pre + 1 + 3 * (length s div 4))
    \<and> get_fru_area_str (pre @ fru_field 1 (pack_bcd ns) @ post) (length pre) = Some (Some (map ((!) bcd_plus) ns), length pre + 1 + length ns div 2)
    \<and> get_fru_area_str (pre @ fru_field 3 d @ post) (length pre) = Some (Some d, length pre + 1 + length d)"
proof -
  have l: "length (pack6 s) = 3 * (length s div 4)" "0 < length (pack6 s)" "length (pack6 s) \<le> 63"
    using length_pack6 [OF assms(1)] assms(1-3) by (auto simp: mod_eq_0_iff_dvd elim!: dvdE intro: gr0I)
  have b: "length (pack_bcd ns) = length ns div 2" "0 < length (pack_bcd ns)" "length (pack_bcd ns) \<le> 63" "length (pack_bcd ns) * 2 = length ns"
    using length_pack_bcd [OF assms(5)] assms(5-7) by (auto elim!: evenE)
  show ?thesis
    using get_fru_area_str_field [OF l(2,3), of 2 pre post] l(1) six_bit_groups_pack6 [OF assms(1,4)]
      get_fru_area_str_field [OF b(2,3), of 1 pre post] b(1,4) bcd_chars [OF assms(5,8)]
      get_fru_area_str_field [OF assms(9,10), of 3 pre post]
    by simp
qed

theorem fru_string_roundtrip_witness:
  "get_fru_area_str ([9] @ fru_field 2 (pack6 [0x41, 0x42, 0x43, 0x44]) @ [0xC1]) 1 = Some (Some [0x41, 0x42, 0x43, 0x44], 5)
    \<and> get_fru_area_str ([9] @ fru_field 1 (pack_bcd [1, 2]) @ [0xC1]) 1 = Some (Some (map ((!) bcd_plus) [1, 2]), 3)
    \<and> get_fru_area_str ([9] @ fru_field 3 [7] @ [0xC1]) 1 = Some (Some [7], 3)"
  using fru_string_roundtrip [of "[0x41, 0x42, 0x43, 0x44]" "[1, 2]" "[7]" "[9]" "[0xC1]"] by simp

text \<open>
  The checksum of an area: with the calculated checksum as its last byte an area is valid, and a
  valid area in which exactly one byte is changed is invalid.
\<close>

theorem fru_checksum_detects_change:
  assumes "0 < len" and "len \<le> length area"
  shows "fru_checksum_is_valid (area[len - 1 := fru_calc_checksum area len]) len
    \<and> (fru_checksum_is_valid area len \<and> i < len \<and> b \<noteq> area ! i \<longrightarrow> \<not> fru_checksum_is_valid (area[i := b]) len)"
proof (intro conjI impI)
  have "fru_calc_checksum (area[len - 1 := x]) len = fru_calc_checksum area len" for x
    by (simp add: fru_calc_checksum_def fru_checksum_loop_sum)
  then show "fru_checksum_is_valid (area[len - 1 := fru_calc_checksum area len]) len"
    using assms by (simp add: fru_checksum_is_valid_def)
next
  assume h: "fru_checksum_is_valid area len \<and> i < len \<and> b \<noteq> area ! i"
  have sum: "sum_list (take len xs) = sum_list (take i xs) + xs ! i + sum_list (drop (Suc i) (take len xs))"
    if "length xs = length area" for xs :: "byte list"
  proof -
    have "take len xs = take i xs @ xs ! i # drop (Suc i) (take len xs)"
      using id_take_nth_drop [of i "take len xs"] h assms(2) that by (simp add: min_def)
    from arg_cong [OF this, of sum_list] show ?thesis by (simp only: sum_list.append sum_list.Cons add.assoc)
  qed
  have "take i (area[i := b]) = take i area" "drop (Suc i) (take len (area[i := b])) = drop (Suc i) (take len area)"
    by (simp_all only: take_update_cancel le_refl) (simp add: take_update_swap)
  with sum [of area] sum [of "area[i := b]"] h assms(2)
  have "sum_list (take len (area[i := b])) = sum_list (take len area) - area ! i + b" by simp
  with h show "\<not> fru_checksum_is_valid (area[i := b]) len"
    using fru_checksum_valid_iff [OF assms(1)] assms(2) by simp
qed

theorem fru_checksum_detects_change_witness:
  "fru_checksum_is_valid [1, 2, fru_calc_checksum [1, 2, 0xFD] 3] 3 \<and> \<not> fru_checksum_is_valid [1, 3, 0xFD] 3"
proof -
  have "fru_checksum_is_valid [1, 2, 0xFD] 3" by (simp add: fru_checksum_valid_iff)
  then show ?thesis using fru_checksum_detects_change [of 3 "[1, 2, 0xFD]" 1 3] by simp
qed

end
