(* ===== verification/Run.thy ===== *)
theory Run
  imports Command
begin

text \<open>
  Runs of the commands of lib/ whose loops a peer can keep going: a run is \<open>None\<close> when it does
  not end, an error, or a result. The errors are of the component's own type, e.g. an error
  of the transport or an access outside an object. Sequencing is monotone, so that loops can
  be recursive definitions over runs.
\<close>

type_synonym ('x, 'a) run = "('x + 'a) option"

definition rbind :: "('x, 'a) run \<Rightarrow> ('a \<Rightarrow> ('x, 'b) run) \<Rightarrow> ('x, 'b) run" where
  "rbind m f = Option.bind m (\<lambda>r. case r of Inl e \<Rightarrow> Some (Inl e) | Inr x \<Rightarrow> f x)"

definition rret :: "'a \<Rightarrow> ('x, 'a) run" where
  "rret x = Some (Inr x)"

lemma rbind_simps [simp]: "rbind None f = None" "rbind (Some (Inl e)) f = Some (Inl e)" "rbind (Some (Inr x)) f = f x" "rbind (rret x) f = f x"
  by (simp_all add: rbind_def rret_def)

lemma rret_inject [simp]: "rret x = rret y \<longleftrightarrow> x = y" "rret x \<noteq> None"
  by (simp_all add: rret_def)

lemma rbind_assoc: "rbind (rbind m f) g = rbind m (\<lambda>x. rbind (f x) g)"
  by (cases m) (auto simp: rbind_def split: sum.splits)

lemma rbind_Inr: "rbind m f = Some (Inr y) \<longleftrightarrow> (\<exists>x. m = Some (Inr x) \<and> f x = Some (Inr y))"
  by (cases m) (auto simp: rbind_def split: sum.splits)

lemma rbind_cong [fundef_cong]:
  "m = m' \<Longrightarrow> (\<And>x. m' = Some (Inr x) \<Longrightarrow> f x = f' x) \<Longrightarrow> rbind m f = rbind m' f'"
  by (cases m') (auto simp: rbind_def split: sum.splits)

lemma rbind_mono [partial_function_mono]:
  assumes "mono_option B" and "\<And>y. mono_option (C y)"
  shows "mono_option (\<lambda>f. rbind (B f) (\<lambda>y. C y f))"
  unfolding rbind_def using assms(2)
  by (intro bind_mono assms(1)) (auto simp: monotone_def option.leq_refl split: sum.splits)

text \<open>A request over the transport, whose own errors are embedded into the component's.\<close>

definition run_send :: "('e \<Rightarrow> 'x) \<Rightarrow> ('e, 'w) sendrecv \<Rightarrow> ipmi_rq \<Rightarrow> 'w \<Rightarrow> ('x, ipmi_rsp option \<times> 'w) run" where
  "run_send emb sendrecv req w = (case sendrecv req w of Inl e \<Rightarrow> Some (Inl (emb e)) | Inr x \<Rightarrow> rret x)"

section \<open>Bytes and text\<close>

text \<open>The bytes of a file or an answer as characters and back; a C string ends at its first NUL.\<close>

definition file_text :: "byte list \<Rightarrow> string" where
  "file_text bs = map (\<lambda>b. char_of (unat b)) bs"

definition text_bytes :: "string \<Rightarrow> byte list" where
  "text_bytes s = map of_char s"

definition c_text :: "string \<Rightarrow> string" where
  "c_text s = takeWhile (\<lambda>c. c \<noteq> CHR 0x00) s"

end
