(* ===== verification/Sdr.thy ===== *)
theory Sdr
  imports Run Hpm2 Helper
begin

text \<open>
  Sensor data records, lib/ipmi_sdr.c and lib/ipmi_sdradd.c: the iterator over the records of a
  repository or of a device, reading a record in pieces, the list of records kept in memory and
  the searches over it, the copy of the records in a file, filling a repository, requests to a
  sensor behind a bridge.

  The interface structure is part of the state, because the commands redirect it to another
  controller and back; \<open>sendrecv\<close> gets it with each request. A heap block is the list of its
  bytes, \<open>None\<close> a NULL pointer; an access to a NULL pointer or outside a block is an error.
  Memory allocation succeeds. What is printed is left out.
\<close>

section \<open>State\<close>

record sdr_iterator =
  it_reservation :: u16
  it_total :: int
  it_next :: int
  it_use_built_in :: bool

text \<open>The header of a record as \<open>Get SDR\<close> returns it (\<open>struct sdr_get_rs\<close>).\<close>

record sdr_get_rs =
  sh_next :: u16
  sh_id :: u16
  sh_version :: byte
  sh_type :: byte
  sh_length :: byte

text \<open>
  An entry of the list of records; \<open>se_record\<close> is the union of pointers to the record by its
  type.
\<close>

record sdr_record_list =
  se_id :: u16
  se_version :: byte
  se_type :: byte
  se_length :: byte
  se_raw :: "byte list option"
  se_record :: "byte list option"

text \<open>
  The static variables of the two files, the interface and its own address on IPMB-0, and the
  world of the transport and the files.
\<close>

record 'w sdr_state =
  sd_world :: 'w
  sd_intf :: ipmi_intf
  sd_target_ipmb_addr :: byte
  sd_use_built_in :: bool
  sd_max_read_len :: int
  sd_iana :: u32
  sd_list :: "sdr_record_list list"
  sd_list_itr :: "sdr_iterator option"

text \<open>
  What the commands use of their surroundings: the transport, and files: opening one to
  be written (the result says whether it can be), writing to it (the number of bytes written),
  the contents of one that can be read.
\<close>

record ('e, 'w) sdr_host =
  sd_sendrecv :: "ipmi_intf \<Rightarrow> ('e, 'w) sendrecv"
  sd_open_write :: "string \<Rightarrow> 'w \<Rightarrow> bool \<times> 'w"
  sd_fwrite :: "string \<Rightarrow> byte list \<Rightarrow> 'w \<Rightarrow> nat \<times> 'w"
  sd_file :: "string \<Rightarrow> 'w \<Rightarrow> byte list option"

datatype 'e sdr_error = Sdr_transport 'e | Sdr_null | Sdr_out_of_bounds

type_synonym ('e, 'a, 'w) sdr = "('e sdr_error, 'a \<times> 'w sdr_state) run"

definition sdr_send :: "('e, 'w) sdr_host \<Rightarrow> ipmi_rq \<Rightarrow> 'w sdr_state \<Rightarrow> ('e, ipmi_rsp option, 'w) sdr" where
  "sdr_send h req st = rbind (run_send Sdr_transport (sd_sendrecv h (sd_intf st)) req (sd_world st)) (\<lambda>(rsp, w). rret (rsp, st\<lparr>sd_world := w\<rparr>))"

text \<open>Reading a byte of a block.\<close>

definition deref :: "byte list option \<Rightarrow> nat \<Rightarrow> 'e sdr_error + byte" where
  "deref p i = (case p of None \<Rightarrow> Inl Sdr_null | Some m \<Rightarrow> if i < length m then Inr (m ! i) else Inl Sdr_out_of_bounds)"

definition storage_or_se :: "bool \<Rightarrow> byte" where
  "storage_or_se built_in = (if built_in then 0x04 else 0x0A)"

section \<open>Reservation and header\<close>

definition ipmi_sdr_get_reservation :: "('e, 'w) sdr_host \<Rightarrow> bool \<Rightarrow> 'w sdr_state \<Rightarrow> ('e, u16 option, 'w) sdr" where
  "ipmi_sdr_get_reservation h use_builtin st =
     rbind (sdr_send h (mk_rq (storage_or_se use_builtin) 0x22 []) st) (\<lambda>(rsp, st1).
       case rsp of
         None \<Rightarrow> rret (None, st1)
       | Some r \<Rightarrow> if rsp_ccode r \<noteq> 0 then rret (None, st1) else rret (Some (of_le16 (rsp_byte r 0) (rsp_byte r 1)), st1))"

definition sdr_get_rq :: "bool \<Rightarrow> u16 \<Rightarrow> u16 \<Rightarrow> byte \<Rightarrow> byte \<Rightarrow> ipmi_rq" where
  "sdr_get_rq built_in reserve_id rid offset len =
     mk_rq (storage_or_se built_in) (if built_in then 0x21 else 0x23) (le16 reserve_id @ le16 rid @ [offset, len])"

text \<open>The tries that are left; the response of the last one, if it was a success.\<close>

fun header_tries :: "('e, 'w) sdr_host \<Rightarrow> nat \<Rightarrow> sdr_iterator \<Rightarrow> 'w sdr_state \<Rightarrow> ('e, ipmi_rsp option \<times> sdr_iterator, 'w) sdr" where
  "header_tries h 0 itr st = rret ((None, itr), st)"
| "header_tries h (Suc n) itr st =
     rbind (sdr_send h (sdr_get_rq (it_use_built_in itr) (it_reservation itr) (word_of_int (it_next itr)) 0 5) st) (\<lambda>(rsp, st1).
       case rsp of
         None \<Rightarrow> header_tries h n itr st1
       | Some r \<Rightarrow>
           if rsp_ccode r = 0xC5 then
             rbind (ipmi_sdr_get_reservation h (it_use_built_in itr) st1) (\<lambda>(rid, st2).
               case rid of
                 None \<Rightarrow> rret ((None, itr), st2)
               | Some i \<Rightarrow> header_tries h n (itr\<lparr>it_reservation := i\<rparr>) st2)
           else if rsp_ccode r \<noteq> 0 then header_tries h n itr st1
           else rret ((Some r, itr), st1))"

definition sdr_get_rs_of :: "ipmi_rsp \<Rightarrow> sdr_get_rs" where
  "sdr_get_rs_of r = \<lparr>sh_next = of_le16 (rsp_byte r 0) (rsp_byte r 1), sh_id = of_le16 (rsp_byte r 2) (rsp_byte r 3),
     sh_version = rsp_byte r 4, sh_type = rsp_byte r 5, sh_length = rsp_byte r 6\<rparr>"

definition ipmi_sdr_get_header :: "('e, 'w) sdr_host \<Rightarrow> sdr_iterator \<Rightarrow> 'w sdr_state \<Rightarrow> ('e, sdr_get_rs option \<times> sdr_iterator, 'w) sdr" where
  "ipmi_sdr_get_header h itr st =
     rbind (header_tries h 5 itr st) (\<lambda>((rsp, itr1), st1).
       case rsp of
         None \<Rightarrow> rret ((None, itr1), st1)
       | Some r \<Rightarrow>
           if rsp_data_len r < 2 + 5 then rret ((None, itr1), st1)
           else (let sdr_rs = sdr_get_rs_of r
                 in if sh_length sdr_rs = 0 then rret ((None, itr1), st1)
                    else if it_next itr1 \<noteq> 0 \<and> int (unat (sh_id sdr_rs)) \<noteq> it_next itr1
                    then rret ((Some (sdr_rs\<lparr>sh_id := word_of_int (it_next itr1)\<rparr>), itr1), st1)
                    else rret ((Some sdr_rs, itr1), st1)))"

definition ipmi_sdr_get_next_header :: "('e, 'w) sdr_host \<Rightarrow> sdr_iterator \<Rightarrow> 'w sdr_state \<Rightarrow> ('e, sdr_get_rs option \<times> sdr_iterator, 'w) sdr" where
  "ipmi_sdr_get_next_header h itr st =
     (if it_next itr = 0xFFFF then rret ((None, itr), st)
      else rbind (ipmi_sdr_get_header h itr st) (\<lambda>((header, itr1), st1).
        case header of
          None \<Rightarrow> rret ((None, itr1), st1)
        | Some hdr \<Rightarrow> rret ((Some hdr, itr1\<lparr>it_next := int (unat (sh_next hdr))\<rparr>), st1)))"

section \<open>Reading a record\<close>

text \<open>The offsets of the length code and of the name in the records that have a name.\<close>

definition sdr_named_record :: "byte \<Rightarrow> (nat \<times> nat) option" where
  "sdr_named_record type =
     (if type = 0x01 then Some (42, 43)
      else if type = 0x02 then Some (26, 27)
      else if type = 0x03 then Some (11, 12)
      else if type = 0x10 \<or> type = 0x11 \<or> type = 0x12 then Some (10, 11)
      else None)"

definition ipmi_sdr_record_length_valid :: "byte \<Rightarrow> nat \<Rightarrow> byte list \<Rightarrow> bool" where
  "ipmi_sdr_record_length_valid type len data =
     (case sdr_named_record type of
        Some (code_offset, name_offset) \<Rightarrow>
          len \<ge> name_offset \<and> unat (data ! code_offset AND 0x1F) \<le> 16 \<and> unat (data ! code_offset AND 0x1F) \<le> len - name_offset
      | None \<Rightarrow> if type = 0x08 then len \<ge> 11 else True)"

text \<open>
  The loop of partial reads: length of the record, bytes read so far, block. Two situations can
  repeat without end: a controller that cancels every reservation, and a read length of zero.
\<close>

partial_function (option) sdr_read_loop ::
    "('e, 'w) sdr_host \<Rightarrow> u16 \<Rightarrow> nat \<Rightarrow> nat \<Rightarrow> byte list \<Rightarrow> sdr_iterator \<Rightarrow> 'w sdr_state \<Rightarrow> ('e, byte list option \<times> sdr_iterator, 'w) sdr" where
  "sdr_read_loop h rid len i data itr st =
     (if \<not> i < len then rret ((Some data, itr), st)
      else
        (let n = (word_of_int (if int len - int i < sd_max_read_len st then int len - int i else sd_max_read_len st) :: byte)
         in rbind (sdr_send h (sdr_get_rq (it_use_built_in itr) (it_reservation itr) rid (word_of_nat (i + 5)) n) st) (\<lambda>(rsp, st1).
              if (case rsp of None \<Rightarrow> True | Some r \<Rightarrow> rsp_ccode r = 0xCA) then
                (let st2 = st1\<lparr>sd_max_read_len := int (unat n) - 1\<rparr>
                 in if sd_max_read_len st2 > 0 then sdr_read_loop h rid len i data itr st2 else rret ((None, itr), st2))
              else
                (let r = the rsp
                 in if rsp_ccode r = 0xC5 then
                      rbind (ipmi_sdr_get_reservation h (it_use_built_in itr) st1) (\<lambda>(res, st2).
                        case res of
                          None \<Rightarrow> rret ((None, itr), st2)
                        | Some x \<Rightarrow> sdr_read_loop h rid len i data (itr\<lparr>it_reservation := x\<rparr>) st2)
                    else if rsp_ccode r \<noteq> 0 \<or> rsp_data_len r < 2 + int (unat n) then rret ((None, itr), st1)
                    else if i + unat n > length data then Some (Inl Sdr_out_of_bounds)
                    else sdr_read_loop h rid len (i + unat n) (put_at i (rsp_bytes r 2 (unat n)) data) itr st1))))"

definition sdr_init_read_len :: "'w sdr_state \<Rightarrow> 'w sdr_state" where
  "sdr_init_read_len st =
     (if sd_max_read_len st = 0
      then (let n = int (unat (ipmi_intf_get_max_response_data_size (sd_intf st))) - 2
            in st\<lparr>sd_max_read_len := (if n > 0xFE then 0xFE else n)\<rparr>)
      else st)"

definition ipmi_sdr_get_record :: "('e, 'w) sdr_host \<Rightarrow> sdr_get_rs \<Rightarrow> sdr_iterator \<Rightarrow> 'w sdr_state \<Rightarrow> ('e, byte list option \<times> sdr_iterator, 'w) sdr" where
  "ipmi_sdr_get_record h header itr st =
     (let len = unat (sh_length header)
      in if len < 1 then rret ((None, itr), st)
         else rbind (sdr_read_loop h (sh_id header) len 0 (replicate (len + 1) 0) itr (sdr_init_read_len st)) (\<lambda>((data, itr1), st1).
           case data of
             None \<Rightarrow> rret ((None, itr1), st1)
           | Some d \<Rightarrow> if ipmi_sdr_record_length_valid (sh_type header) len d then rret ((Some d, itr1), st1) else rret ((None, itr1), st1)))"

section \<open>Writing to a repository\<close>

definition partial_send :: "('e, 'w) sdr_host \<Rightarrow> ipmi_rq \<Rightarrow> 'w sdr_state \<Rightarrow> ('e, u16 option, 'w) sdr" where
  "partial_send h req st =
     rbind (sdr_send h req st) (\<lambda>(rsp, st1).
       case rsp of
         None \<Rightarrow> rret (None, st1)
       | Some r \<Rightarrow> if rsp_ccode r \<noteq> 0 \<or> rsp_data_len r < 2 then rret (None, st1)
                   else rret (Some (of_le16 (rsp_byte r 0) (rsp_byte r 1)), st1))"

definition sdr_max_write_len :: nat where "sdr_max_write_len = 19"

definition sdr_add_rq :: "u16 \<Rightarrow> u16 \<Rightarrow> byte \<Rightarrow> byte \<Rightarrow> byte list \<Rightarrow> ipmi_rq" where
  "sdr_add_rq reserve_id rid offset in_progress data =
     mk_rq 0x0A 0x25 (le16 reserve_id @ le16 rid @ [offset, in_progress] @ data)"

function sdr_add_loop :: "('e, 'w) sdr_host \<Rightarrow> u16 \<Rightarrow> byte list \<Rightarrow> nat \<Rightarrow> nat \<Rightarrow> u16 \<Rightarrow> 'w sdr_state \<Rightarrow> ('e, int, 'w) sdr" where
  "sdr_add_loop h reserve_id raw len i rid st =
     (if \<not> i < len then rret (0, st)
      else
        (let is_last = (len - i \<le> sdr_max_write_len);
             data_len = (if is_last then len - i else sdr_max_write_len)
         in if i + data_len > length raw then Some (Inl Sdr_out_of_bounds)
            else rbind (partial_send h (sdr_add_rq reserve_id rid (word_of_nat (i + 5)) (if is_last then 1 else 0) (take data_len (drop i raw))) st) (\<lambda>(r, st1).
              case r of
                None \<Rightarrow> rret (-1, st1)
              | Some rid1 \<Rightarrow> sdr_add_loop h reserve_id raw len (i + data_len) rid1 st1)))"
  by pat_completeness auto
termination
  by (relation "measure (\<lambda>(_, _, _, len, i, _). len - i)") (auto simp: sdr_max_write_len_def)

declare sdr_add_loop.simps [simp del]

definition ipmi_sdr_add_record :: "('e, 'w) sdr_host \<Rightarrow> sdr_record_list \<Rightarrow> 'w sdr_state \<Rightarrow> ('e, int, 'w) sdr" where
  "ipmi_sdr_add_record h sdrr st =
     (let len = unat (se_length sdrr)
      in case se_raw sdrr of
           None \<Rightarrow> rret (0, st)
         | Some raw \<Rightarrow>
             if len < 1 then rret (0, st)
             else rbind (ipmi_sdr_get_reservation h False st) (\<lambda>(res, st1).
               case res of
                 None \<Rightarrow> rret (-1, st1)
               | Some reserve_id \<Rightarrow>
                   rbind (partial_send h (sdr_add_rq reserve_id 0 0 0
                            [ucast (se_id sdrr), ucast (drop_bit 8 (se_id sdrr)), se_version sdrr, se_type sdrr, se_length sdrr]) st1) (\<lambda>(r, st2).
                     case r of
                       None \<Rightarrow> rret (-1, st2)
                     | Some rid \<Rightarrow> sdr_add_loop h reserve_id raw len 0 rid st2)))"

fun sdr_clear_tries :: "('e, 'w) sdr_host \<Rightarrow> u16 \<Rightarrow> nat \<Rightarrow> byte \<Rightarrow> 'w sdr_state \<Rightarrow> ('e, int, 'w) sdr" where
  "sdr_clear_tries h reserve_id 0 action st = rret (-1, st)"
| "sdr_clear_tries h reserve_id (Suc n) action st =
     rbind (sdr_send h (mk_rq 0x0A 0x27 (le16 reserve_id @ [0x43, 0x4C, 0x52, action])) st) (\<lambda>(rsp, st1).
       case rsp of
         None \<Rightarrow> rret (-1, st1)
       | Some r \<Rightarrow> if rsp_ccode r \<noteq> 0 then rret (-1, st1)
                   else if rsp_byte r 0 AND 1 = 1 then rret (0, st1)
                   else sdr_clear_tries h reserve_id n 0 st1)"

definition ipmi_sdr_repo_clear :: "('e, 'w) sdr_host \<Rightarrow> 'w sdr_state \<Rightarrow> ('e, int, 'w) sdr" where
  "ipmi_sdr_repo_clear h st =
     rbind (ipmi_sdr_get_reservation h False st) (\<lambda>(res, st1).
       case res of None \<Rightarrow> rret (-1, st1) | Some reserve_id \<Rightarrow> sdr_clear_tries h reserve_id 5 0xAA st1)"

text \<open>
  Printing the name of a record only reads it; what counts is whether the reads stay inside.
  \<open>mem_str\<close> reads at most n bytes of a string up to its end.
\<close>

fun mem_str :: "byte list \<Rightarrow> nat \<Rightarrow> nat \<Rightarrow> 'e sdr_error + unit" where
  "mem_str m i 0 = Inr ()"
| "mem_str m i (Suc n) = (if i < length m then if m ! i = 0 then Inr () else mem_str m (i + 1) n else Inl Sdr_out_of_bounds)"

definition ipmi_sdr_print_name_from_rawentry :: "byte \<Rightarrow> byte list option \<Rightarrow> 'e sdr_error + unit" where
  "ipmi_sdr_print_name_from_rawentry type raw =
     (if type = 0x01 \<or> type = 0x02 \<or> type = 0x03 \<or> type = 0x12
      then (case the (sdr_named_record type) of (code_offset, name_offset) \<Rightarrow>
              sum_bind (deref raw code_offset) (\<lambda>id_code. mem_str (the raw) name_offset (unat (id_code AND 0x1F) + 1)))
      else Inr ())"

text \<open>All the records an iterator has left, in a queue.\<close>

definition sdrr_of :: "sdr_get_rs \<Rightarrow> byte list option \<Rightarrow> sdr_record_list" where
  "sdrr_of header raw = \<lparr>se_id = sh_id header, se_version = sh_version header, se_type = sh_type header, se_length = sh_length header,
     se_raw = raw, se_record = None\<rparr>"

partial_function (option) sdrr_get_records :: "('e, 'w) sdr_host \<Rightarrow> sdr_iterator \<Rightarrow> sdr_record_list list \<Rightarrow> 'w sdr_state \<Rightarrow> ('e, int \<times> sdr_record_list list, 'w) sdr" where
  "sdrr_get_records h itr queue st =
     rbind (ipmi_sdr_get_next_header h itr st) (\<lambda>((header, itr1), st1).
       if header = None then rret ((0, queue), st1)
       else (let hdr = the header
             in rbind (ipmi_sdr_get_record h hdr itr1 st1) (\<lambda>((raw, itr2), st2).
                  rbind (Some (ipmi_sdr_print_name_from_rawentry (sh_type hdr) raw)) (\<lambda>_.
                    sdrr_get_records h itr2 (queue @ [sdrr_of hdr raw]) st2))))"

fun sdr_add_records :: "('e, 'w) sdr_host \<Rightarrow> sdr_record_list list \<Rightarrow> int \<Rightarrow> 'w sdr_state \<Rightarrow> ('e, int, 'w) sdr" where
  "sdr_add_records h [] rc st = rret (rc, st)"
| "sdr_add_records h (sdrr # queue) rc st =
     rbind (ipmi_sdr_add_record h sdrr st) (\<lambda>(add_rc, st1). sdr_add_records h queue (if add_rc < 0 then -1 else rc) st1)"

definition set_target :: "u32 \<Rightarrow> 'w sdr_state \<Rightarrow> 'w sdr_state" where
  "set_target a st = st\<lparr>sd_intf := (sd_intf st)\<lparr>target_addr := a\<rparr>\<rparr>"

section \<open>Opening an iterator\<close>

text \<open>
  \<open>ipmi_sdr_start\<close> fills an empty repository from the controller's own records, which opens an
  iterator over these; that second opening never gets to the filling. So the functions are
  defined in two rounds: \<open>sdr_start_with\<close> takes the filling as an argument, and the functions
  that fill take the opening as an argument.
\<close>

definition sdr_repo_info :: "('e, 'w) sdr_host \<Rightarrow> ('w sdr_state \<Rightarrow> ('e, int, 'w) sdr) \<Rightarrow> 'w sdr_state \<Rightarrow> ('e, int option, 'w) sdr" where
  "sdr_repo_info h rebuild st =
     rbind (sdr_send h (mk_rq 0x0A 0x20 []) st) (\<lambda>(rsp, st1).
       case rsp of
         None \<Rightarrow> rret (None, st1)
       | Some r \<Rightarrow>
           if rsp_ccode r \<noteq> 0 then rret (None, st1)
           else (let count = of_le16 (rsp_byte r 1) (rsp_byte r 2)
                 in if count = 0
                    then rbind (rebuild st1) (\<lambda>(rc, st2). if rc \<noteq> 0 then rret (None, st2) else rret (Some 0, st2))
                    else rret (Some (int (unat count)), st1)))"

definition sdr_device_info :: "('e, 'w) sdr_host \<Rightarrow> 'w sdr_state \<Rightarrow> ('e, int option, 'w) sdr" where
  "sdr_device_info h st =
     rbind (sdr_send h (mk_rq 0x04 0x20 []) st) (\<lambda>(rsp, st1).
       case rsp of
         None \<Rightarrow> rret (None, st1)
       | Some r \<Rightarrow> if rsp_data_len r = 0 \<or> rsp_ccode r \<noteq> 0 then rret (None, st1)
                   else rret (Some (int (unat (rsp_byte r 0))), st1))"

definition sdr_start_with :: "('e, 'w) sdr_host \<Rightarrow> ('w sdr_state \<Rightarrow> ('e, int, 'w) sdr) \<Rightarrow> bool \<Rightarrow> 'w sdr_state \<Rightarrow> ('e, sdr_iterator option, 'w) sdr" where
  "sdr_start_with h rebuild use_builtin st =
     rbind (sdr_send h (mk_rq 0x06 0x01 []) st) (\<lambda>(rsp, st0).
       case rsp of
         None \<Rightarrow> rret (None, st0)
       | Some r \<Rightarrow>
           if rsp_ccode r \<noteq> 0 then rret (None, st0)
           else
             (let st1 = st0\<lparr>sd_iana := ucast (rsp_byte r 6) OR push_bit 8 (ucast (rsp_byte r 7)) OR push_bit 16 (ucast (rsp_byte r 8))\<rparr>;
                  no_repository = (\<not> use_builtin \<and> rsp_byte r 1 AND 0x80 \<noteq> 0 \<and> rsp_byte r 5 AND 2 = 0);
                  st2 = (if no_repository \<and> rsp_byte r 5 AND 1 \<noteq> 0 then st1\<lparr>sd_use_built_in := True\<rparr> else st1);
                  built_in = (use_builtin \<or> sd_use_built_in st2)
              in if no_repository \<and> rsp_byte r 5 AND 1 = 0 then rret (None, st2)
                 else rbind (if built_in then sdr_device_info h st2 else sdr_repo_info h rebuild st2) (\<lambda>(total, st3).
                   case total of
                     None \<Rightarrow> rret (None, st3)
                   | Some n \<Rightarrow> rbind (ipmi_sdr_get_reservation h built_in st3) (\<lambda>(res, st4).
                       case res of
                         None \<Rightarrow> rret (None, st4)
                       | Some x \<Rightarrow> rret (Some \<lparr>it_reservation = x, it_total = n, it_next = 0, it_use_built_in = built_in\<rparr>, st4)))))"

definition sdr_copy_to_sdrr ::
    "('e, 'w) sdr_host \<Rightarrow> (bool \<Rightarrow> 'w sdr_state \<Rightarrow> ('e, sdr_iterator option, 'w) sdr) \<Rightarrow> bool \<Rightarrow> u32 \<Rightarrow> u32 \<Rightarrow> 'w sdr_state \<Rightarrow> ('e, int, 'w) sdr" where
  "sdr_copy_to_sdrr h start use_builtin from_addr to_addr st =
     rbind (start use_builtin (set_target from_addr st)) (\<lambda>(itr, st1).
       case itr of
         None \<Rightarrow> rret (0, st1)
       | Some it \<Rightarrow>
           rbind (sdrr_get_records h it [] st1) (\<lambda>((rc, queue), st2).
             sdr_add_records h queue rc (set_target to_addr st2)))"

text \<open>The slots of a chassis have the addresses from 0xB0 on, without 0xC2.\<close>

fun sdr_slots :: "('e, 'w) sdr_host \<Rightarrow> (bool \<Rightarrow> 'w sdr_state \<Rightarrow> ('e, sdr_iterator option, 'w) sdr) \<Rightarrow> u32 \<Rightarrow> nat \<Rightarrow> u32 \<Rightarrow> int \<Rightarrow> 'w sdr_state \<Rightarrow> ('e, int, 'w) sdr" where
  "sdr_slots h start myaddr 0 slave_addr rc st = rret (rc, st)"
| "sdr_slots h start myaddr (Suc n) slave_addr rc st =
     (let a = (if slave_addr = 0xC2 then slave_addr + 2 else slave_addr)
      in rbind (sdr_copy_to_sdrr h start False a myaddr st) (\<lambda>(r, st1). sdr_slots h start myaddr n (a + 2) (if r < 0 then -1 else rc) st1))"

definition sdr_add_from_sensors_with ::
    "('e, 'w) sdr_host \<Rightarrow> (bool \<Rightarrow> 'w sdr_state \<Rightarrow> ('e, sdr_iterator option, 'w) sdr) \<Rightarrow> nat \<Rightarrow> 'w sdr_state \<Rightarrow> ('e, int, 'w) sdr" where
  "sdr_add_from_sensors_with h start maxslot st =
     (let myaddr = target_addr (sd_intf st)
      in rbind (ipmi_sdr_repo_clear h st) (\<lambda>(c, st1).
           if c \<noteq> 0 then rret (-1, st1)
           else rbind (sdr_copy_to_sdrr h start True myaddr myaddr st1) (\<lambda>(rc, st2). sdr_slots h start myaddr maxslot 0xB0 rc st2)))"

definition sdr_start_builtin :: "('e, 'w) sdr_host \<Rightarrow> bool \<Rightarrow> 'w sdr_state \<Rightarrow> ('e, sdr_iterator option, 'w) sdr" where
  "sdr_start_builtin h = sdr_start_with h (\<lambda>st. rret (-1, st))"

definition ipmi_sdr_start :: "('e, 'w) sdr_host \<Rightarrow> bool \<Rightarrow> 'w sdr_state \<Rightarrow> ('e, sdr_iterator option, 'w) sdr" where
  "ipmi_sdr_start h = sdr_start_with h (sdr_add_from_sensors_with h (sdr_start_builtin h) 0)"

definition ipmi_sdr_add_from_sensors :: "('e, 'w) sdr_host \<Rightarrow> nat \<Rightarrow> 'w sdr_state \<Rightarrow> ('e, int, 'w) sdr" where
  "ipmi_sdr_add_from_sensors h = sdr_add_from_sensors_with h (ipmi_sdr_start h)"

text \<open>The two rounds agree: an opening over the controller's own records does not fill.\<close>

lemma sdr_start_builtin_eq: "sdr_start_builtin h True st = ipmi_sdr_start h True st"
  by (simp add: sdr_start_builtin_def ipmi_sdr_start_def sdr_start_with_def Let_def cong: if_cong option.case_cong)

lemma rebuild_is_fill: "ipmi_sdr_start h = sdr_start_with h (ipmi_sdr_add_from_sensors h 0)"
proof -
  have "sdr_add_from_sensors_with h (sdr_start_builtin h) 0 = sdr_add_from_sensors_with h (ipmi_sdr_start h) 0"
    by (rule ext) (simp add: sdr_add_from_sensors_with_def sdr_copy_to_sdrr_def sdr_start_builtin_eq Let_def cong: if_cong)
  then show ?thesis by (simp add: ipmi_sdr_start_def [of h] ipmi_sdr_add_from_sensors_def)
qed

section \<open>The list of records\<close>

text \<open>The types whose records are kept.\<close>

definition sdr_kept :: "byte \<Rightarrow> bool" where
  "sdr_kept type \<longleftrightarrow> type = 0x01 \<or> type = 0x02 \<or> type = 0x03 \<or> type = 0x10 \<or> type = 0x11 \<or> type = 0x12 \<or> type = 0x08"

definition sdr_entry_of :: "u16 \<Rightarrow> byte \<Rightarrow> byte list \<Rightarrow> sdr_record_list" where
  "sdr_entry_of rid type rec = \<lparr>se_id = rid, se_version = 0, se_type = type, se_length = 0, se_raw = None, se_record = Some rec\<rparr>"

definition sdr_list_add :: "sdr_record_list list \<Rightarrow> sdr_record_list \<Rightarrow> sdr_record_list list" where
  "sdr_list_add lst entry = lst @ [entry]"

definition ipmi_sdr_list_empty :: "'w sdr_state \<Rightarrow> 'w sdr_state" where
  "ipmi_sdr_list_empty st = st\<lparr>sd_list := [], sd_list_itr := None\<rparr>"

text \<open>
  The loop the searches share, up to the record that is put in the list: headers whose record
  cannot be read, and records of other types, are passed over.
\<close>

partial_function (option) sdr_next_entry ::
    "('e, 'w) sdr_host \<Rightarrow> sdr_iterator \<Rightarrow> 'w sdr_state \<Rightarrow> ('e, sdr_record_list option \<times> sdr_iterator, 'w) sdr" where
  "sdr_next_entry h itr st =
     rbind (ipmi_sdr_get_next_header h itr st) (\<lambda>((header, itr1), st1).
       if header = None then rret ((None, itr1), st1)
       else (let hdr = the header
             in rbind (ipmi_sdr_get_record h hdr itr1 st1) (\<lambda>((rec, itr2), st2).
                  if rec = None \<or> \<not> sdr_kept (sh_type hdr) then sdr_next_entry h itr2 st2
                  else rret ((Some (sdr_entry_of (sh_id hdr) (sh_type hdr) (the rec)), itr2), st2))))"

definition sdr_open_list :: "('e, 'w) sdr_host \<Rightarrow> 'w sdr_state \<Rightarrow> ('e, sdr_iterator option, 'w) sdr" where
  "sdr_open_list h st =
     (case sd_list_itr st of
        Some it \<Rightarrow> rret (Some it, st)
      | None \<Rightarrow> rbind (ipmi_sdr_start h False st) (\<lambda>(itr, st1). rret (itr, st1\<lparr>sd_list_itr := itr\<rparr>)))"

text \<open>Looking through the entries in memory; then reading on until an entry matches.\<close>

fun sdr_find_cached :: "(sdr_record_list \<Rightarrow> 'e sdr_error + bool) \<Rightarrow> sdr_record_list list \<Rightarrow> 'e sdr_error + sdr_record_list option" where
  "sdr_find_cached p [] = Inr None"
| "sdr_find_cached p (e # es) = sum_bind (p e) (\<lambda>b. if b then Inr (Some e) else sdr_find_cached p es)"

partial_function (option) sdr_find_rest ::
    "('e, 'w) sdr_host \<Rightarrow> (sdr_record_list \<Rightarrow> 'e sdr_error + bool) \<Rightarrow> sdr_iterator \<Rightarrow> 'w sdr_state \<Rightarrow> ('e, sdr_record_list option \<times> sdr_iterator, 'w) sdr" where
  "sdr_find_rest h p itr st =
     rbind (sdr_next_entry h itr st) (\<lambda>((entry, itr1), st1).
       if entry = None then rret ((None, itr1), st1)
       else (let e = the entry
             in rbind (Some (p e)) (\<lambda>found.
                  let st2 = st1\<lparr>sd_list := sdr_list_add (sd_list st1) e\<rparr>
                  in if found then rret ((Some e, itr1), st2) else sdr_find_rest h p itr1 st2)))"

definition sdr_find_first :: "('e, 'w) sdr_host \<Rightarrow> (sdr_record_list \<Rightarrow> 'e sdr_error + bool) \<Rightarrow> 'w sdr_state \<Rightarrow> ('e, sdr_record_list option, 'w) sdr" where
  "sdr_find_first h p st =
     rbind (sdr_open_list h st) (\<lambda>(itr, st1).
       case itr of
         None \<Rightarrow> rret (None, st1)
       | Some it \<Rightarrow>
           rbind (Some (sdr_find_cached p (sd_list st1))) (\<lambda>r.
             case r of
               Some e \<Rightarrow> rret (Some e, st1)
             | None \<Rightarrow> rbind (sdr_find_rest h p it st1) (\<lambda>((e, it1), st2). rret (e, st2\<lparr>sd_list_itr := Some it1\<rparr>))))"

text \<open>The searches for all matching entries return a new list with copies of them.\<close>

fun sdr_collect_cached :: "(sdr_record_list \<Rightarrow> 'e sdr_error + bool) \<Rightarrow> sdr_record_list list \<Rightarrow> sdr_record_list list \<Rightarrow> 'e sdr_error + sdr_record_list list" where
  "sdr_collect_cached p res [] = Inr res"
| "sdr_collect_cached p res (e # es) = sum_bind (p e) (\<lambda>b. sdr_collect_cached p (if b then sdr_list_add res e else res) es)"

partial_function (option) sdr_collect_rest ::
    "('e, 'w) sdr_host \<Rightarrow> (sdr_record_list \<Rightarrow> 'e sdr_error + bool) \<Rightarrow> sdr_record_list list \<Rightarrow> sdr_iterator \<Rightarrow> 'w sdr_state \<Rightarrow>
       ('e, sdr_record_list list \<times> sdr_iterator, 'w) sdr" where
  "sdr_collect_rest h p res itr st =
     rbind (sdr_next_entry h itr st) (\<lambda>((entry, itr1), st1).
       if entry = None then rret ((res, itr1), st1)
       else (let e = the entry
             in rbind (Some (p e)) (\<lambda>b.
                  sdr_collect_rest h p (if b then sdr_list_add res e else res) itr1 (st1\<lparr>sd_list := sdr_list_add (sd_list st1) e\<rparr>))))"

definition sdr_find_all :: "('e, 'w) sdr_host \<Rightarrow> (sdr_record_list \<Rightarrow> 'e sdr_error + bool) \<Rightarrow> 'w sdr_state \<Rightarrow> ('e, sdr_record_list list option, 'w) sdr" where
  "sdr_find_all h p st =
     rbind (sdr_open_list h st) (\<lambda>(itr, st1).
       case itr of
         None \<Rightarrow> rret (None, st1)
       | Some it \<Rightarrow>
           rbind (Some (sdr_collect_cached p [] (sd_list st1))) (\<lambda>res.
             rbind (sdr_collect_rest h p res it st1) (\<lambda>((res1, it1), st2). rret (Some res1, st2\<lparr>sd_list_itr := Some it1\<rparr>))))"

text \<open>The conditions: a field of a record, masked, with a value.\<close>

definition field_is :: "byte list option \<Rightarrow> nat \<Rightarrow> byte \<Rightarrow> byte \<Rightarrow> 'e sdr_error + bool \<Rightarrow> 'e sdr_error + bool" where
  "field_is rec i bits v rest = sum_bind (deref rec i) (\<lambda>b. if b AND bits = v then rest else Inr False)"

definition is_numtype :: "u16 \<Rightarrow> byte \<Rightarrow> byte \<Rightarrow> sdr_record_list \<Rightarrow> 'e sdr_error + bool" where
  "is_numtype gen_id num type e =
     (let same = (\<lambda>type_offset. field_is (se_record e) 2 0xFF num (field_is (se_record e) 0 0xFF (ucast (gen_id AND 0x00FF))
                   (field_is (se_record e) 1 0x03 (ucast (drop_bit 8 (gen_id AND 0x0300))) (field_is (se_record e) type_offset 0xFF type (Inr True)))))
      in if se_type e = 0x01 \<or> se_type e = 0x02 then same 7
         else if se_type e = 0x03 then same 5
         else Inr False)"

definition ipmi_sdr_find_sdr_bynumtype :: "('e, 'w) sdr_host \<Rightarrow> u16 \<Rightarrow> byte \<Rightarrow> byte \<Rightarrow> 'w sdr_state \<Rightarrow> ('e, sdr_record_list option, 'w) sdr" where
  "ipmi_sdr_find_sdr_bynumtype h gen_id num type st = sdr_find_first h (is_numtype gen_id num type) st"

definition is_sensortype :: "byte \<Rightarrow> sdr_record_list \<Rightarrow> 'e sdr_error + bool" where
  "is_sensortype type e =
     (if se_type e = 0x01 \<or> se_type e = 0x02 then field_is (se_record e) 7 0xFF type (Inr True)
      else if se_type e = 0x03 then field_is (se_record e) 5 0xFF type (Inr True)
      else Inr False)"

definition ipmi_sdr_find_sdr_bysensortype :: "('e, 'w) sdr_host \<Rightarrow> byte \<Rightarrow> 'w sdr_state \<Rightarrow> ('e, sdr_record_list list option, 'w) sdr" where
  "ipmi_sdr_find_sdr_bysensortype h type st = sdr_find_all h (is_sensortype type) st"

text \<open>An entity has an identifier and an instance of seven bits; 0x7F stands for every instance.\<close>

definition is_entity :: "byte \<Rightarrow> byte \<Rightarrow> sdr_record_list \<Rightarrow> 'e sdr_error + bool" where
  "is_entity eid inst e =
     (let same = (\<lambda>i. field_is (se_record e) i 0xFF eid (if inst = 0x7F then Inr True else field_is (se_record e) (i + 1) 0x7F inst (Inr True)))
      in if se_type e = 0x01 \<or> se_type e = 0x02 \<or> se_type e = 0x03 then same 3
         else if se_type e = 0x10 \<or> se_type e = 0x11 \<or> se_type e = 0x12 then same 7
         else if se_type e = 0x08 then same 0
         else Inr False)"

definition ipmi_sdr_find_sdr_byentity :: "('e, 'w) sdr_host \<Rightarrow> byte \<Rightarrow> byte \<Rightarrow> 'w sdr_state \<Rightarrow> ('e, sdr_record_list list option, 'w) sdr" where
  "ipmi_sdr_find_sdr_byentity h eid inst st = sdr_find_all h (is_entity eid inst) st"

definition ipmi_sdr_find_sdr_bytype :: "('e, 'w) sdr_host \<Rightarrow> byte \<Rightarrow> 'w sdr_state \<Rightarrow> ('e, sdr_record_list list option, 'w) sdr" where
  "ipmi_sdr_find_sdr_bytype h type st = sdr_find_all h (\<lambda>e. Inr (se_type e = type)) st"

text \<open>
  \<open>strncmp\<close> on a string in a block and an argument: whether the first n characters are the same.
\<close>

fun mem_strncmp :: "byte list \<Rightarrow> nat \<Rightarrow> byte list \<Rightarrow> nat \<Rightarrow> 'e sdr_error + bool" where
  "mem_strncmp m i s 0 = Inr True"
| "mem_strncmp m i s (Suc n) =
     (if i < length m
      then (let a = m ! i; b = (if s = [] then 0 else hd s)
            in if a \<noteq> b then Inr False else if a = 0 then Inr True else mem_strncmp m (i + 1) (tl s) n)
      else Inl Sdr_out_of_bounds)"

text \<open>The number an identifier stands for, as an int; -1 when it is not a number.\<close>

definition sdr_id_num :: "string \<Rightarrow> int" where
  "sdr_id_num name = (case strtol 0 name of (v, rest, _) \<Rightarrow> if rest \<noteq> [] then -1 else sint (word_of_int v :: u32))"

definition is_id :: "string \<Rightarrow> sdr_record_list \<Rightarrow> 'e sdr_error + bool" where
  "is_id name e =
     (case sdr_named_record (se_type e) of
        None \<Rightarrow> Inr False
      | Some (code_offset, name_offset) \<Rightarrow>
          sum_bind (deref (se_record e) code_offset) (\<lambda>id_code.
            sum_bind (if se_type e = 0x01 \<or> se_type e = 0x02 \<or> se_type e = 0x03
                      then map_sum id (\<lambda>b. int (unat b)) (deref (se_record e) 2) else Inr (-1)) (\<lambda>sensor_num.
              if sdr_id_num name \<noteq> -1 \<and> sdr_id_num name = sensor_num then Inr True
              else mem_strncmp (the (se_record e)) name_offset (map of_char name) (max (unat (id_code AND 0x1F)) (length name)))))"

definition ipmi_sdr_find_sdr_byid :: "('e, 'w) sdr_host \<Rightarrow> string option \<Rightarrow> 'w sdr_state \<Rightarrow> ('e, sdr_record_list option, 'w) sdr" where
  "ipmi_sdr_find_sdr_byid h name st = (case name of None \<Rightarrow> rret (None, st) | Some s \<Rightarrow> sdr_find_first h (is_id s) st)"

text \<open>Reading every record into the list.\<close>

definition ipmi_sdr_list_cache :: "('e, 'w) sdr_host \<Rightarrow> 'w sdr_state \<Rightarrow> ('e, int, 'w) sdr" where
  "ipmi_sdr_list_cache h st =
     rbind (sdr_open_list h st) (\<lambda>(itr, st1).
       case itr of
         None \<Rightarrow> rret (-1, st1)
       | Some it \<Rightarrow> rbind (sdr_find_rest h (\<lambda>_. Inr False) it st1) (\<lambda>((_, it1), st2). rret (0, st2\<lparr>sd_list_itr := Some it1\<rparr>)))"

section \<open>Records in a file\<close>

definition sdr_version_ok :: "byte \<Rightarrow> bool" where
  "sdr_version_ok v \<longleftrightarrow> v = 0x51 \<or> v = 0x01 \<or> v = 0x02"

text \<open>The rest of the file, the return value so far, the entries read.\<close>

function sdr_file_loop :: "byte list \<Rightarrow> int \<Rightarrow> sdr_record_list list \<Rightarrow> int \<times> sdr_record_list list" where
  "sdr_file_loop bs ret acc =
     (if bs = [] then (ret, acc)
      else if length bs < 5 then (-1, acc)
      else
        (let rid = of_le16 (bs ! 0) (bs ! 1); version = bs ! 2; type = bs ! 3; len = unat (bs ! 4); rest = drop 5 bs
         in if len = 0 then sdr_file_loop rest ret acc
            else if \<not> sdr_version_ok version then (-1, acc)
            else if length rest < len then (-1, acc)
            else if \<not> ipmi_sdr_record_length_valid type len (take len rest @ [0]) then sdr_file_loop (drop len rest) (-1) acc
            else if \<not> sdr_kept type then sdr_file_loop (drop len rest) ret acc
            else sdr_file_loop (drop len rest) ret (sdr_list_add acc (sdr_entry_of rid type (take len rest @ [0])))))"
  by pat_completeness auto
termination
  by (relation "measure (\<lambda>(bs, _). length bs)") auto

declare sdr_file_loop.simps [simp del]

text \<open>
  The iterator made here has read all its records; whether it is over built-in records stays
  uninitialised, and is not looked at.
\<close>

definition ipmi_sdr_list_cache_fromfile :: "('e, 'w) sdr_host \<Rightarrow> string option \<Rightarrow> 'w sdr_state \<Rightarrow> int \<times> 'w sdr_state" where
  "ipmi_sdr_list_cache_fromfile h ifile st =
     (case ifile of
        None \<Rightarrow> (-1, st)
      | Some f \<Rightarrow>
          (case sd_file h f (sd_world st) of
             None \<Rightarrow> (-1, st)
           | Some bs \<Rightarrow>
               (case sdr_file_loop bs 0 [] of (ret, entries) \<Rightarrow>
                  (ret, st\<lparr>sd_list := sd_list st @ entries,
                           sd_list_itr := (case sd_list_itr st of
                                             Some it \<Rightarrow> Some it
                                           | None \<Rightarrow> Some \<lparr>it_reservation = 0, it_total = int (length entries), it_next = 0xFFFF, it_use_built_in = False\<rparr>)\<rparr>))))"

text \<open>Dumping: the records go to the list with their bytes in \<open>raw\<close>, then the list to the file.\<close>

partial_function (option) sdr_dump_read :: "('e, 'w) sdr_host \<Rightarrow> sdr_iterator \<Rightarrow> 'w sdr_state \<Rightarrow> ('e, int, 'w) sdr" where
  "sdr_dump_read h itr st =
     rbind (ipmi_sdr_get_next_header h itr st) (\<lambda>((header, itr1), st1).
       if header = None then rret (0, st1)
       else (let hdr = the header
             in rbind (ipmi_sdr_get_record h hdr itr1 st1) (\<lambda>((raw, itr2), st2).
                  if raw = None then rret (-1, st2)
                  else sdr_dump_read h itr2 (st2\<lparr>sd_list := sdr_list_add (sd_list st2) (sdrr_of hdr raw)\<rparr>))))"

definition sdr_file_header :: "sdr_record_list \<Rightarrow> byte list" where
  "sdr_file_header e = [ucast (se_id e), ucast (drop_bit 8 (se_id e)), se_version e, se_type e, se_length e]"

fun sdr_dump_write :: "('e, 'w) sdr_host \<Rightarrow> string \<Rightarrow> sdr_record_list list \<Rightarrow> 'w sdr_state \<Rightarrow> ('e, int, 'w) sdr" where
  "sdr_dump_write h ofile [] st = rret (0, st)"
| "sdr_dump_write h ofile (e # es) st =
     (case sd_fwrite h ofile (sdr_file_header e) (sd_world st) of (r, w1) \<Rightarrow>
        if r \<noteq> 5 then rret (-1, st\<lparr>sd_world := w1\<rparr>)
        else (case se_raw e of
                None \<Rightarrow> rret (-1, st\<lparr>sd_world := w1\<rparr>)
              | Some raw \<Rightarrow>
                  if length raw < unat (se_length e) then Some (Inl Sdr_out_of_bounds)
                  else (case sd_fwrite h ofile (take (unat (se_length e)) raw) w1 of (r2, w2) \<Rightarrow>
                          if r2 \<noteq> unat (se_length e) then rret (-1, st\<lparr>sd_world := w2\<rparr>)
                          else sdr_dump_write h ofile es (st\<lparr>sd_world := w2\<rparr>))))"

definition ipmi_sdr_dump_bin :: "('e, 'w) sdr_host \<Rightarrow> string \<Rightarrow> 'w sdr_state \<Rightarrow> ('e, int, 'w) sdr" where
  "ipmi_sdr_dump_bin h ofile st =
     rbind (ipmi_sdr_start h False st) (\<lambda>(itr, st1).
       case itr of
         None \<Rightarrow> rret (-1, st1)
       | Some it \<Rightarrow>
           rbind (sdr_dump_read h it st1) (\<lambda>(rc, st2).
             if rc \<noteq> 0 then rret (-1, st2)
             else (case sd_open_write h ofile (sd_world st2) of (ok, w) \<Rightarrow>
                     let st3 = st2\<lparr>sd_world := w\<rparr>
                     in if \<not> ok then rret (-1, st3) else sdr_dump_write h ofile (sd_list st3) st3)))"

text \<open>Reading a file of records to fill a repository: all or nothing.\<close>

function sdr_read_records_loop :: "byte list \<Rightarrow> sdr_record_list list \<Rightarrow> sdr_record_list list option" where
  "sdr_read_records_loop bs queue =
     (if bs = [] then Some queue
      else if length bs < 5 then None
      else
        (let rid = of_le16 (bs ! 0) (bs ! 1); len = unat (bs ! 4); rest = drop 5 bs
         in if len = 0 then None
            else if length rest < len then None
            else sdr_read_records_loop (drop len rest)
                   (queue @ [\<lparr>se_id = rid, se_version = bs ! 2, se_type = bs ! 3, se_length = bs ! 4, se_raw = Some (take len rest), se_record = None\<rparr>])))"
  by pat_completeness auto
termination
  by (relation "measure (\<lambda>(bs, _). length bs)") auto

declare sdr_read_records_loop.simps [simp del]

definition ipmi_sdr_read_records :: "('e, 'w) sdr_host \<Rightarrow> string \<Rightarrow> 'w sdr_state \<Rightarrow> sdr_record_list list option" where
  "ipmi_sdr_read_records h filename st =
     (case sd_file h filename (sd_world st) of None \<Rightarrow> None | Some bs \<Rightarrow> sdr_read_records_loop bs [])"

definition ipmi_sdr_add_from_file :: "('e, 'w) sdr_host \<Rightarrow> string \<Rightarrow> 'w sdr_state \<Rightarrow> ('e, int, 'w) sdr" where
  "ipmi_sdr_add_from_file h ifile st =
     (case ipmi_sdr_read_records h ifile st of
        None \<Rightarrow> rret (-1, st)
      | Some queue \<Rightarrow>
          rbind (ipmi_sdr_repo_clear h st) (\<lambda>(c, st1). if c \<noteq> 0 then rret (-1, st1) else sdr_add_records h queue 0 st1))"

section \<open>Lists of addresses\<close>

definition hex_digit :: "char \<Rightarrow> byte option" where
  "hex_digit c =
     (let n = of_char c :: nat
      in if 48 \<le> n \<and> n \<le> 57 then Some (word_of_nat (n - 48))
         else if 97 \<le> n \<and> n \<le> 102 then Some (word_of_nat (n - 97 + 10))
         else if 65 \<le> n \<and> n \<le> 70 then Some (word_of_nat (n - 65 + 10))
         else None)"

definition ipmi_hex_to_dec :: "string \<Rightarrow> byte option" where
  "ipmi_hex_to_dec s =
     (if length s = 4 \<and> s ! 0 = CHR ''0'' \<and> s ! 1 = CHR ''x''
      then (case (hex_digit (s ! 2), hex_digit (s ! 3)) of (Some a, Some b) \<Rightarrow> Some (a * 16 + b) | _ \<Rightarrow> None)
      else None)"

text \<open>The string that starts at a position of the buffer, and \<open>strstr\<close> for one character.\<close>

definition c_str :: "string \<Rightarrow> nat \<Rightarrow> string" where
  "c_str buf p = takeWhile (\<lambda>c. c \<noteq> CHR 0x00) (drop p buf)"

definition str_chr :: "string \<Rightarrow> nat \<Rightarrow> char \<Rightarrow> nat option" where
  "str_chr buf p c = (let s = c_str buf p in if c \<in> set s then Some (p + length (takeWhile (\<lambda>x. x \<noteq> c) s)) else None)"

definition MAX_NUM_SLOT :: nat where "MAX_NUM_SLOT = 128"

text \<open>The array \<open>pHexList\<close> has \<open>MAX_NUM_SLOT\<close> bytes; what has been stored so far.\<close>

definition store_addr :: "byte \<Rightarrow> byte list \<Rightarrow> 'e sdr_error + byte list" where
  "store_addr v lst = (if length lst < MAX_NUM_SLOT then Inr (lst @ [v]) else Inl Sdr_out_of_bounds)"

function store_range :: "byte \<Rightarrow> byte \<Rightarrow> byte list \<Rightarrow> 'e sdr_error + byte list" where
  "store_range startValue endValue lst =
     (if length lst < MAX_NUM_SLOT
      then (let lst1 = lst @ [startValue]
            in if startValue + 2 \<noteq> endValue then store_range (startValue + 2) endValue lst1 else store_addr endValue lst1)
      else Inl Sdr_out_of_bounds)"
  by pat_completeness auto
termination
  by (relation "measure (\<lambda>(_, _, lst). MAX_NUM_SLOT - length lst)") auto

declare store_range.simps [simp del]

text \<open>One element of the list: the cut buffer, and the list unless the element is malformed.\<close>

definition range_item :: "string \<Rightarrow> nat \<Rightarrow> byte list \<Rightarrow> 'e sdr_error + byte list option \<times> string" where
  "range_item buf p lst =
     (case str_chr buf p (CHR ''-'') of
        None \<Rightarrow>
          (case ipmi_hex_to_dec (c_str buf p) of
             None \<Rightarrow> Inr (None, buf)
           | Some v \<Rightarrow> if v mod 2 = 0 then map_sum id (\<lambda>l. (Some l, buf)) (store_addr v lst) else Inr (Some lst, buf))
      | Some q \<Rightarrow>
          (let buf1 = buf[q := CHR 0x00]
           in case (ipmi_hex_to_dec (c_str buf1 p), ipmi_hex_to_dec (c_str buf1 (q + 1))) of
                (Some a, Some b) \<Rightarrow> if a mod 2 = 0 \<and> b mod 2 = 0 then map_sum id (\<lambda>l. (Some l, buf1)) (store_range a b lst) else Inr (Some lst, buf1)
              | _ \<Rightarrow> Inr (None, buf1)))"

text \<open>
  The loop: a comma is overwritten with the end of a string, the element before it is handled,
  and the next comma is looked for from the start of the argument, so up to the first one that
  has been overwritten.
\<close>

definition commas :: "string \<Rightarrow> nat" where
  "commas buf = length (filter (\<lambda>c. c = CHR '','') buf)"

fun range_loop :: "nat \<Rightarrow> string \<Rightarrow> nat \<Rightarrow> nat option \<Rightarrow> byte list \<Rightarrow> ('e sdr_error + byte list option) option" where
  "range_loop 0 buf p nxt lst = None"
| "range_loop (Suc k) buf p nxt lst =
     (let buf1 = (case nxt of None \<Rightarrow> buf | Some q \<Rightarrow> buf[q := CHR 0x00])
      in rbind (Some (range_item buf1 p lst)) (\<lambda>(r, buf2).
           case (r, nxt) of
             (Some lst1, Some q) \<Rightarrow> range_loop k buf2 (q + 1) (str_chr buf2 0 (CHR '','')) lst1
           | _ \<Rightarrow> Some (Inr r)))"

definition ipmi_parse_range_list :: "string \<Rightarrow> ('e sdr_error + byte list option) option" where
  "ipmi_parse_range_list rangeList =
     (if rangeList = [] then Some (Inr None)
      else (let nxt = str_chr rangeList 0 (CHR '','')
            in if nxt = Some 0 then Some (Inr None) else range_loop (commas rangeList + 1) rangeList 0 nxt []))"

text \<open>
  The addresses up to the first zero of the array; with \<open>MAX_NUM_SLOT\<close> addresses there is none.
\<close>

fun sdr_scan_list :: "('e, 'w) sdr_host \<Rightarrow> u32 \<Rightarrow> byte list \<Rightarrow> nat \<Rightarrow> nat \<Rightarrow> int \<Rightarrow> 'w sdr_state \<Rightarrow> ('e, int, 'w) sdr" where
  "sdr_scan_list h myaddr lst 0 counter rc st = (if rc = 0 then Some (Inl Sdr_out_of_bounds) else rret (rc, st))"
| "sdr_scan_list h myaddr lst (Suc n) counter rc st =
     (if rc = 0 \<and> lst ! counter \<noteq> 0
      then rbind (sdr_copy_to_sdrr h (ipmi_sdr_start h) False (ucast (lst ! counter)) myaddr st) (\<lambda>(r, st1).
             sdr_scan_list h myaddr lst n (counter + 1) (if r < 0 then -1 else rc) st1)
      else rret (rc, st))"

definition ipmi_sdr_add_from_list :: "('e, 'w) sdr_host \<Rightarrow> string \<Rightarrow> 'w sdr_state \<Rightarrow> ('e, int, 'w) sdr" where
  "ipmi_sdr_add_from_list h rangeList st =
     (let myaddr = target_addr (sd_intf st)
      in rbind (ipmi_parse_range_list rangeList) (\<lambda>r.
           case r of
             None \<Rightarrow> rret (-1, st)
           | Some lst \<Rightarrow>
               (let listValue = lst @ replicate (MAX_NUM_SLOT - length lst) 0
                in if 0 \<notin> set listValue then Some (Inl Sdr_out_of_bounds)
                   else rbind (ipmi_sdr_repo_clear h st) (\<lambda>(c, st1).
                     if c \<noteq> 0 then rret (-1, st1)
                     else rbind (sdr_copy_to_sdrr h (ipmi_sdr_start h) True myaddr myaddr st1) (\<lambda>(rc, st2).
                       sdr_scan_list h myaddr listValue MAX_NUM_SLOT 0 rc st2)))))"

section \<open>Requests to a sensor\<close>

definition BRIDGE_TO_SENSOR :: "'w sdr_state \<Rightarrow> byte \<Rightarrow> byte \<Rightarrow> bool" where
  "BRIDGE_TO_SENSOR st addr chan \<longleftrightarrow>
     \<not> ((chan = 0 \<and> sd_target_ipmb_addr st \<noteq> 0 \<and> sd_target_ipmb_addr st = addr)
        \<or> (ucast addr = target_addr (sd_intf st) \<and> chan = target_channel (sd_intf st)))"

text \<open>What the five requests to a sensor share: the interface is redirected for the request only.\<close>

definition sensor_request :: "('e, 'w) sdr_host \<Rightarrow> byte \<Rightarrow> byte list \<Rightarrow> byte \<Rightarrow> byte \<Rightarrow> byte \<Rightarrow> 'w sdr_state \<Rightarrow> ('e, ipmi_rsp option, 'w) sdr" where
  "sensor_request h cmd data target lun channel st =
     (let bridged = BRIDGE_TO_SENSOR st target channel; save = sd_intf st;
          st1 = (if bridged then st\<lparr>sd_intf := (sd_intf st)\<lparr>target_addr := ucast target, target_channel := channel\<rparr>\<rparr> else st)
      in rbind (sdr_send h ((mk_rq 0x04 cmd data)\<lparr>rq_lun := lun\<rparr>) st1) (\<lambda>(rsp, st2).
           rret (rsp, if bridged
                      then st2\<lparr>sd_intf := (sd_intf st2)\<lparr>target_addr := target_addr save, target_channel := target_channel save\<rparr>\<rparr>
                      else st2)))"

definition ipmi_sdr_get_sensor_thresholds :: "('e, 'w) sdr_host \<Rightarrow> byte \<Rightarrow> byte \<Rightarrow> byte \<Rightarrow> byte \<Rightarrow> 'w sdr_state \<Rightarrow> ('e, ipmi_rsp option, 'w) sdr" where
  "ipmi_sdr_get_sensor_thresholds h sensor target lun channel st = sensor_request h 0x27 [sensor] target lun channel st"

definition ipmi_sdr_get_sensor_hysteresis :: "('e, 'w) sdr_host \<Rightarrow> byte \<Rightarrow> byte \<Rightarrow> byte \<Rightarrow> byte \<Rightarrow> 'w sdr_state \<Rightarrow> ('e, ipmi_rsp option, 'w) sdr" where
  "ipmi_sdr_get_sensor_hysteresis h sensor target lun channel st = sensor_request h 0x25 [sensor, 0xFF] target lun channel st"

definition ipmi_sdr_get_sensor_reading :: "('e, 'w) sdr_host \<Rightarrow> byte \<Rightarrow> 'w sdr_state \<Rightarrow> ('e, ipmi_rsp option, 'w) sdr" where
  "ipmi_sdr_get_sensor_reading h sensor st = sdr_send h (mk_rq 0x04 0x2D [sensor]) st"

definition ipmi_sdr_get_sensor_reading_ipmb :: "('e, 'w) sdr_host \<Rightarrow> byte \<Rightarrow> byte \<Rightarrow> byte \<Rightarrow> byte \<Rightarrow> 'w sdr_state \<Rightarrow> ('e, ipmi_rsp option, 'w) sdr" where
  "ipmi_sdr_get_sensor_reading_ipmb h sensor target lun channel st = sensor_request h 0x2D [sensor] target lun channel st"

definition ipmi_sdr_get_sensor_event_status :: "('e, 'w) sdr_host \<Rightarrow> byte \<Rightarrow> byte \<Rightarrow> byte \<Rightarrow> byte \<Rightarrow> 'w sdr_state \<Rightarrow> ('e, ipmi_rsp option, 'w) sdr" where
  "ipmi_sdr_get_sensor_event_status h sensor target lun channel st = sensor_request h 0x2B [sensor] target lun channel st"

definition ipmi_sdr_get_sensor_event_enable :: "('e, 'w) sdr_host \<Rightarrow> byte \<Rightarrow> byte \<Rightarrow> byte \<Rightarrow> byte \<Rightarrow> 'w sdr_state \<Rightarrow> ('e, ipmi_rsp option, 'w) sdr" where
  "ipmi_sdr_get_sensor_event_enable h sensor target lun channel st = sensor_request h 0x29 [sensor] target lun channel st"

end
