(* ===== verification/Sdr_Repository.thy ===== *)
theory Sdr_Repository
  imports Sdr
begin

text \<open>
  What the functions of \<open>Sdr\<close> guarantee against a controller that keeps a repository of
  records: reading a record, going through all of them, the list in memory, the copy in a file
  and writing it back.

  The controller is described by what it answers (\<open>sdr_serves\<close>). It may cancel a
  reservation now and then, and it may refuse to return many bytes at once.
\<close>

section \<open>A repository\<close>

record sdr_rec =
  r_id :: u16
  r_version :: byte
  r_type :: byte
  r_body :: "byte list"

definition sdr_bytes :: "sdr_rec \<Rightarrow> byte list" where
  "sdr_bytes r = le16 (r_id r) @ [r_version r, r_type r, word_of_nat (length (r_body r))] @ r_body r"

definition next_id :: "sdr_rec list \<Rightarrow> nat \<Rightarrow> u16" where
  "next_id rs k = (if k + 1 < length rs then r_id (rs ! (k + 1)) else 0xFFFF)"

text \<open>The identifier 0 in a request stands for the first record.\<close>

definition names_rec :: "sdr_rec list \<Rightarrow> u16 \<Rightarrow> nat \<Rightarrow> bool" where
  "names_rec rs rid k \<longleftrightarrow> k < length rs \<and> (rid = r_id (rs ! k) \<or> (rid = 0 \<and> k = 0))"

definition wf_repo :: "sdr_rec list \<Rightarrow> bool" where
  "wf_repo rs \<longleftrightarrow> rs \<noteq> [] \<and> (\<forall>k < length rs. r_id (rs ! k) \<noteq> 0xFFFF \<and> (0 < k \<longrightarrow> r_id (rs ! k) \<noteq> 0))
     \<and> (\<forall>r \<in> set rs. 1 \<le> length (r_body r) \<and> length (r_body r) \<le> 251)"

text \<open>
  A view of the controller's state: the states that can occur, the records, the valid
  reservation, a bound on how often it will still cancel one.
\<close>

record 'w sdr_view =
  v_ok :: "'w \<Rightarrow> bool"
  v_recs :: "'w \<Rightarrow> sdr_rec list"
  v_resv :: "'w \<Rightarrow> u16"
  v_pending :: "'w \<Rightarrow> nat"

definition keeps :: "'w sdr_view \<Rightarrow> 'w \<Rightarrow> 'w \<Rightarrow> bool" where
  "keeps v w w' \<longleftrightarrow> v_ok v w' \<and> v_recs v w' = v_recs v w \<and> v_pending v w' \<le> v_pending v w"

definition sdr_reserves :: "('e, 'w) sdr_host \<Rightarrow> ipmi_intf \<Rightarrow> bool \<Rightarrow> 'w sdr_view \<Rightarrow> bool" where
  "sdr_reserves h intf bi v \<longleftrightarrow>
     (\<forall>w. v_ok v w \<longrightarrow>
        (\<exists>x w'. sd_sendrecv h intf (mk_rq (storage_or_se bi) 0x22 []) w = Inr (Some (rsp_of 0 (le16 x)), w') \<and> keeps v w w' \<and> v_resv v w' = x))"

definition sdr_serves :: "('e, 'w) sdr_host \<Rightarrow> ipmi_intf \<Rightarrow> bool \<Rightarrow> nat \<Rightarrow> 'w sdr_view \<Rightarrow> bool" where
  "sdr_serves h intf bi limit v \<longleftrightarrow>
     sdr_reserves h intf bi v \<and>
     (\<forall>w x rid k off n. v_ok v w \<and> names_rec (v_recs v w) rid k \<and> 1 \<le> n \<and> n \<le> 255 \<and> off + n \<le> length (sdr_bytes (v_recs v w ! k)) \<longrightarrow>
        (\<exists>rsp w'. sd_sendrecv h intf (sdr_get_rq bi x rid (word_of_nat off) (word_of_nat n)) w = Inr (rsp, w') \<and> keeps v w w' \<and>
           (if x \<noteq> v_resv v w then rsp = Some (rsp_of 0xC5 [])
            else v_resv v w' = x \<and> rsp = Some (rsp_of 0 (le16 (next_id (v_recs v w) k) @ take n (drop off (sdr_bytes (v_recs v w ! k)))))
               \<or> v_resv v w' = x \<and> limit < n \<and> (rsp = None \<or> rsp = Some (rsp_of 0xCA []))
               \<or> v_pending v w' < v_pending v w \<and> rsp = Some (rsp_of 0xC5 []))))"

lemma keeps_trans: "keeps v a b \<Longrightarrow> keeps v b c \<Longrightarrow> keeps v a c"
  by (auto simp: keeps_def)

lemma keeps_refl: "v_ok v w \<Longrightarrow> keeps v w w"
  by (simp add: keeps_def)

lemma of_le16_le16: "of_le16 (ucast x) (ucast (drop_bit 8 x)) = x"
  unfolding of_le16_def by (rule bit_word_eqI) (auto simp: bit_simps)

lemma rsp_of_le16 [simp]:
  "of_le16 (rsp_byte (rsp_of cc (le16 x @ d)) 0) (rsp_byte (rsp_of cc (le16 x @ d)) (Suc 0)) = x"
  "of_le16 (rsp_byte (rsp_of cc (le16 x)) 0) (rsp_byte (rsp_of cc (le16 x)) (Suc 0)) = x"
  by (simp_all add: rsp_byte_def le16_def of_le16_le16)

lemma length_sdr_bytes [simp]: "length (sdr_bytes r) = 5 + length (r_body r)"
  by (simp add: sdr_bytes_def)

lemma sdr_send_eq: "sd_sendrecv h (sd_intf st) req (sd_world st) = Inr (rsp, w) \<Longrightarrow> sdr_send h req st = rret (rsp, st\<lparr>sd_world := w\<rparr>)"
  by (simp add: sdr_send_def run_send_def)

section \<open>One request\<close>

lemma reservation_renewed:
  assumes "sdr_reserves h intf bi v" "sd_intf st = intf" "v_ok v (sd_world st)"
  shows "\<exists>w. ipmi_sdr_get_reservation h bi st = rret (Some (v_resv v w), st\<lparr>sd_world := w\<rparr>) \<and> keeps v (sd_world st) w"
proof -
  obtain x w where "sd_sendrecv h intf (mk_rq (storage_or_se bi) 0x22 []) (sd_world st) = Inr (Some (rsp_of 0 (le16 x)), w)"
    "keeps v (sd_world st) w" "v_resv v w = x"
    using assms unfolding sdr_reserves_def by blast
  with assms(2) show ?thesis
    by (intro exI [of _ w]) (auto simp: ipmi_sdr_get_reservation_def sdr_send_eq)
qed

lemma get_sdr_cases:
  assumes "sdr_serves h intf bi limit v" "sd_intf st = intf" "v_ok v (sd_world st)" "names_rec (v_recs v (sd_world st)) rid k"
    and "1 \<le> n" "n \<le> 255" "off + n \<le> length (sdr_bytes (v_recs v (sd_world st) ! k))"
  obtains
    (served) w where "x = v_resv v (sd_world st)" "v_resv v w = x" "keeps v (sd_world st) w"
      "sdr_send h (sdr_get_rq bi x rid (word_of_nat off) (word_of_nat n)) st =
         rret (Some (rsp_of 0 (le16 (next_id (v_recs v (sd_world st)) k) @ take n (drop off (sdr_bytes (v_recs v (sd_world st) ! k))))), st\<lparr>sd_world := w\<rparr>)"
  | (too_long) w rsp where "x = v_resv v (sd_world st)" "v_resv v w = x" "keeps v (sd_world st) w" "limit < n"
      "sdr_send h (sdr_get_rq bi x rid (word_of_nat off) (word_of_nat n)) st = rret (rsp, st\<lparr>sd_world := w\<rparr>)"
      "rsp = None \<or> rsp = Some (rsp_of 0xCA [])"
  | (lost) w where "keeps v (sd_world st) w" "x \<noteq> v_resv v (sd_world st) \<or> v_pending v w < v_pending v (sd_world st)"
      "sdr_send h (sdr_get_rq bi x rid (word_of_nat off) (word_of_nat n)) st = rret (Some (rsp_of 0xC5 []), st\<lparr>sd_world := w\<rparr>)"
proof -
  let ?w = "sd_world st"
  obtain rsp w where s: "sd_sendrecv h intf (sdr_get_rq bi x rid (word_of_nat off) (word_of_nat n)) ?w = Inr (rsp, w)" and k: "keeps v ?w w"
    and c: "if x \<noteq> v_resv v ?w then rsp = Some (rsp_of 0xC5 [])
            else v_resv v w = x \<and> rsp = Some (rsp_of 0 (le16 (next_id (v_recs v ?w) k) @ take n (drop off (sdr_bytes (v_recs v ?w ! k)))))
               \<or> v_resv v w = x \<and> limit < n \<and> (rsp = None \<or> rsp = Some (rsp_of 0xCA []))
               \<or> v_pending v w < v_pending v ?w \<and> rsp = Some (rsp_of 0xC5 [])"
    using assms(1,3-7) unfolding sdr_serves_def by blast
  have e: "sdr_send h (sdr_get_rq bi x rid (word_of_nat off) (word_of_nat n)) st = rret (rsp, st\<lparr>sd_world := w\<rparr>)"
    using s assms(2) by (simp add: sdr_send_eq)
  show thesis
  proof (cases "rsp = Some (rsp_of 0xC5 []) \<and> (x \<noteq> v_resv v ?w \<or> v_pending v w < v_pending v ?w)")
    case True
    with e k show ?thesis by (auto intro: lost)
  next
    case False
    with c have x: "x = v_resv v ?w" by metis
    with c False consider "v_resv v w = x \<and> rsp = Some (rsp_of 0 (le16 (next_id (v_recs v ?w) k) @ take n (drop off (sdr_bytes (v_recs v ?w ! k)))))"
      | "v_resv v w = x \<and> limit < n \<and> (rsp = None \<or> rsp = Some (rsp_of 0xCA []))" by metis
    then show ?thesis
    proof cases
      case 1
      with e k x show ?thesis by (intro served [of w]) simp_all
    next
      case 2
      with e k x show ?thesis by (intro too_long [of w rsp]) simp_all
    qed
  qed
qed

section \<open>Reading a record\<close>

text \<open>How far the requests are from being answered: cancellations, and a stale reservation.\<close>

definition res_debt :: "'w sdr_view \<Rightarrow> sdr_iterator \<Rightarrow> 'w sdr_state \<Rightarrow> nat" where
  "res_debt v itr st = 2 * v_pending v (sd_world st) + (if it_reservation itr = v_resv v (sd_world st) then 0 else 1)"

lemma res_debt_lost:
  "x = it_reservation itr \<Longrightarrow> x \<noteq> v_resv v (sd_world st) \<or> v_pending v w < v_pending v (sd_world st) \<Longrightarrow> keeps v (sd_world st) w \<Longrightarrow> keeps v w w' \<Longrightarrow>
     res_debt v (itr\<lparr>it_reservation := v_resv v w'\<rparr>) (st\<lparr>sd_world := w'\<rparr>) < res_debt v itr st"
  by (auto simp: res_debt_def keeps_def)

lemma res_debt_kept:
  "it_reservation itr = v_resv v (sd_world st) \<Longrightarrow> v_resv v w = it_reservation itr \<Longrightarrow> keeps v (sd_world st) w \<Longrightarrow> res_debt v itr (st\<lparr>sd_world := w, sd_max_read_len := m\<rparr>) \<le> res_debt v itr st"
  by (auto simp: res_debt_def keeps_def)

definition reading :: "byte list \<Rightarrow> nat \<Rightarrow> byte list" where
  "reading body i = take i body @ replicate (length body - i + 1) 0"

lemma reading_step:
  "i + n \<le> length body \<Longrightarrow> put_at i (take n (drop i body)) (reading body i) = reading body (i + n)"
  by (auto simp: put_at_def reading_def take_add simp flip: replicate_Suc)

lemma length_reading [simp]: "i \<le> length body \<Longrightarrow> length (reading body i) = length body + 1"
  by (simp add: reading_def)

lemma drop_sdr_bytes: "drop (i + 5) (sdr_bytes r) = drop i (r_body r)"
  by (simp add: sdr_bytes_def le16_def numeral_eq_Suc)

lemma rsp_body_bytes:
  "i + n \<le> length (r_body r) \<Longrightarrow> rsp_bytes (rsp_of cc (le16 x @ take n (drop (i + 5) (sdr_bytes r)))) 2 n = take n (drop i (r_body r))"
  by (subst rsp_bytes_take) (simp_all add: drop_sdr_bytes)

text \<open>The number of bytes the loop asks for.\<close>

lemma read_request:
  assumes "i < len" "len \<le> 255" "1 \<le> m" "m \<le> 254"
  shows "(word_of_int (if int len - int i < m then int len - int i else m) :: byte) = word_of_nat (min (len - i) (nat m))"
    and "unat (word_of_nat (min (len - i) (nat m)) :: byte) = min (len - i) (nat m)"
proof -
  have "(if int len - int i < m then int len - int i else m) = int (min (len - i) (nat m))" using assms by auto
  then show "(word_of_int (if int len - int i < m then int len - int i else m) :: byte) = word_of_nat (min (len - i) (nat m))" by simp
  show "unat (word_of_nat (min (len - i) (nat m)) :: byte) = min (len - i) (nat m)"
    using assms by (simp add: unat_of_nat take_bit_nat_def min_def)
qed

text \<open>What reading a record gives: the body with a terminator, and a valid reservation.\<close>

definition sdr_read_result :: "'w sdr_view \<Rightarrow> byte list \<Rightarrow> sdr_iterator \<Rightarrow> 'w sdr_state \<Rightarrow> ('e, byte list option \<times> sdr_iterator, 'w) sdr \<Rightarrow> bool" where
  "sdr_read_result v body itr st res \<longleftrightarrow>
     (\<exists>w m. res = rret ((Some (body @ [0]), itr\<lparr>it_reservation := v_resv v w\<rparr>), st\<lparr>sd_world := w, sd_max_read_len := m\<rparr>)
        \<and> keeps v (sd_world st) w \<and> 1 \<le> m \<and> m \<le> 254)"

lemma read_result_step:
  "keeps v (sd_world st) w \<Longrightarrow> sdr_read_result v body itr (st\<lparr>sd_world := w\<rparr>) res \<Longrightarrow> sdr_read_result v body itr st res"
  "keeps v (sd_world st) w \<Longrightarrow> sdr_read_result v body itr (st\<lparr>sd_world := w, sd_max_read_len := m\<rparr>) res \<Longrightarrow> sdr_read_result v body itr st res"
  "keeps v (sd_world st) w \<Longrightarrow> sdr_read_result v body (itr\<lparr>it_reservation := x\<rparr>) (st\<lparr>sd_world := w\<rparr>) res \<Longrightarrow> sdr_read_result v body itr st res"
  unfolding sdr_read_result_def by (auto intro: keeps_trans)

lemma read_loop_reads:
  assumes D: "sdr_serves h intf bi limit v" "1 \<le> limit"
    and "sd_intf st = intf" "v_ok v (sd_world st)" "it_use_built_in itr = bi"
    and rec: "names_rec (v_recs v (sd_world st)) rid k" "v_recs v (sd_world st) ! k = r" "length (r_body r) \<le> 251"
    and m: "1 \<le> sd_max_read_len st" "sd_max_read_len st \<le> 254"
    and "i \<le> length (r_body r)" "i < length (r_body r) \<or> it_reservation itr = v_resv v (sd_world st)"
  shows "sdr_read_result v (r_body r) itr st (sdr_read_loop h rid (length (r_body r)) i (reading (r_body r) i) itr st)"
  using assms(3-)
proof (induction "600 * res_debt v itr st + nat (sd_max_read_len st) + (length (r_body r) - i)" arbitrary: i itr st rule: less_induct)
  case less
  let ?len = "length (r_body r)" and ?w = "sd_world st"
  show ?case
  proof (cases "i < ?len")
    case False
    with less.prems show ?thesis
      by (subst sdr_read_loop.simps) (auto simp: reading_def sdr_read_result_def intro!: exI [of _ ?w] exI [of _ "sd_max_read_len st"] keeps_refl)
  next
    case True
    define n where "n = min (?len - i) (nat (sd_max_read_len st))"
    have n: "1 \<le> n" "n \<le> 255" "i + n \<le> ?len" "int n \<le> sd_max_read_len st" using True less.prems by (auto simp: n_def)
    have rq: "word_of_int (if int ?len - int i < sd_max_read_len st then int ?len - int i else sd_max_read_len st) = (word_of_nat n :: byte)"
      "unat (word_of_nat n :: byte) = n"
      using True less.prems read_request [of i ?len "sd_max_read_len st"] by (auto simp: n_def)
    note loop = sdr_read_loop.simps [of h rid ?len i "reading (r_body r) i" itr st] rq Let_def
    have off: "i + 5 + n \<le> length (sdr_bytes (v_recs v ?w ! k))" using n less.prems by simp
    show ?thesis
    proof (rule get_sdr_cases [OF D(1) less.prems(1,2,4) n(1,2) off, of "it_reservation itr"])
      fix w
      assume s: "it_reservation itr = v_resv v ?w" "v_resv v w = it_reservation itr" "keeps v ?w w"
        "sdr_send h (sdr_get_rq bi (it_reservation itr) rid (word_of_nat (i + 5)) (word_of_nat n)) st =
           rret (Some (rsp_of 0 (le16 (next_id (v_recs v ?w) k) @ take n (drop (i + 5) (sdr_bytes (v_recs v ?w ! k))))), st\<lparr>sd_world := w\<rparr>)"
      let ?st = "st\<lparr>sd_world := w\<rparr>"
      have "sdr_read_loop h rid ?len i (reading (r_body r) i) itr st = sdr_read_loop h rid ?len (i + n) (reading (r_body r) (i + n)) itr ?st"
        using True n less.prems by (simp add: loop s(4) reading_step rsp_body_bytes del: of_nat_add)
      moreover have "600 * res_debt v itr ?st + nat (sd_max_read_len ?st) + (?len - (i + n)) < 600 * res_debt v itr st + nat (sd_max_read_len st) + (?len - i)"
        using res_debt_kept [OF s(1,2,3), of "sd_max_read_len st"] n by simp
      ultimately have "sdr_read_result v (r_body r) itr ?st (sdr_read_loop h rid ?len i (reading (r_body r) i) itr st)"
        using less.hyps [of itr ?st "i + n"] less.prems s n by (auto simp: keeps_def)
      then show ?thesis by (rule read_result_step(1) [OF s(3)])
    next
      fix w rsp
      assume s: "it_reservation itr = v_resv v ?w" "v_resv v w = it_reservation itr" "keeps v ?w w" "limit < n"
        "sdr_send h (sdr_get_rq bi (it_reservation itr) rid (word_of_nat (i + 5)) (word_of_nat n)) st = rret (rsp, st\<lparr>sd_world := w\<rparr>)"
        "rsp = None \<or> rsp = Some (rsp_of 0xCA [])"
      let ?st = "st\<lparr>sd_world := w, sd_max_read_len := int n - 1\<rparr>"
      have "sdr_read_loop h rid ?len i (reading (r_body r) i) itr st = sdr_read_loop h rid ?len i (reading (r_body r) i) itr ?st"
        using True s less.prems D(2) by (auto simp add: loop simp del: of_nat_add)
      moreover have "600 * res_debt v itr ?st + nat (sd_max_read_len ?st) + (?len - i) < 600 * res_debt v itr st + nat (sd_max_read_len st) + (?len - i)"
        using res_debt_kept [OF s(1,2,3), of "int n - 1"] n by simp
      ultimately have "sdr_read_result v (r_body r) itr ?st (sdr_read_loop h rid ?len i (reading (r_body r) i) itr st)"
        using less.hyps [of itr ?st i] less.prems s n D(2) by (auto simp: keeps_def)
      then show ?thesis by (rule read_result_step(2) [OF s(3)])
    next
      fix w
      assume s: "keeps v ?w w" "it_reservation itr \<noteq> v_resv v ?w \<or> v_pending v w < v_pending v ?w"
        "sdr_send h (sdr_get_rq bi (it_reservation itr) rid (word_of_nat (i + 5)) (word_of_nat n)) st = rret (Some (rsp_of 0xC5 []), st\<lparr>sd_world := w\<rparr>)"
      obtain w' where r: "ipmi_sdr_get_reservation h bi (st\<lparr>sd_world := w\<rparr>) = rret (Some (v_resv v w'), st\<lparr>sd_world := w'\<rparr>)" "keeps v w w'"
        using reservation_renewed [of h intf bi v "st\<lparr>sd_world := w\<rparr>"] D(1) less.prems(1) s(1) by (auto simp: sdr_serves_def keeps_def)
      let ?st = "st\<lparr>sd_world := w'\<rparr>" and ?itr = "itr\<lparr>it_reservation := v_resv v w'\<rparr>"
      have "sdr_read_loop h rid ?len i (reading (r_body r) i) itr st = sdr_read_loop h rid ?len i (reading (r_body r) i) ?itr ?st"
        using True r less.prems by (simp add: loop s(3) del: of_nat_add)
      moreover have "600 * res_debt v ?itr ?st + nat (sd_max_read_len ?st) + (?len - i) < 600 * res_debt v itr st + nat (sd_max_read_len st) + (?len - i)"
        using res_debt_lost [OF refl s(2,1) r(2)] by simp
      ultimately have "sdr_read_result v (r_body r) ?itr ?st (sdr_read_loop h rid ?len i (reading (r_body r) i) itr st)"
        using less.hyps [of ?itr ?st i] less.prems s r True by (auto simp: keeps_def)
      then show ?thesis by (rule read_result_step(3) [OF keeps_trans [OF s(1) r(2)]])
    qed
  qed
qed

section \<open>Going from record to record\<close>

definition sdr_header_of :: "sdr_rec list \<Rightarrow> nat \<Rightarrow> sdr_get_rs" where
  "sdr_header_of rs k = \<lparr>sh_next = next_id rs k, sh_id = r_id (rs ! k), sh_version = r_version (rs ! k), sh_type = r_type (rs ! k),
     sh_length = word_of_nat (length (r_body (rs ! k)))\<rparr>"

lemma header_of_rsp:
  "sdr_get_rs_of (rsp_of 0 (le16 (next_id rs k) @ take 5 (sdr_bytes (rs ! k)))) = sdr_header_of rs k"
  by (simp add: sdr_get_rs_of_def sdr_header_of_def rsp_byte_def le16_def sdr_bytes_def of_le16_le16 nth_append)

lemma header_tries_answered:
  assumes D: "sdr_serves h intf bi limit v" "5 \<le> limit"
    and "sd_intf st = intf" "v_ok v (sd_world st)" "it_use_built_in itr = bi"
    and "names_rec (v_recs v (sd_world st)) (word_of_int (it_next itr)) k"
    and "v_pending v (sd_world st) + (if it_reservation itr = v_resv v (sd_world st) then 0 else 1) < n"
  shows "\<exists>w. header_tries h n itr st =
           rret ((Some (rsp_of 0 (le16 (next_id (v_recs v (sd_world st)) k) @ take 5 (sdr_bytes (v_recs v (sd_world st) ! k)))),
             itr\<lparr>it_reservation := v_resv v w\<rparr>), st\<lparr>sd_world := w\<rparr>) \<and> keeps v (sd_world st) w"
  using assms(3-)
proof (induction n arbitrary: itr st)
  case 0
  then show ?case by simp
next
  case (Suc n)
  let ?w = "sd_world st"
  have off: "0 + 5 \<le> length (sdr_bytes (v_recs v ?w ! k))" by simp
  show ?case
  proof (rule get_sdr_cases [OF D(1) Suc.prems(1,2,4) _ _ off, of "it_reservation itr"])
    fix w
    assume s: "it_reservation itr = v_resv v ?w" "v_resv v w = it_reservation itr" "keeps v ?w w"
      "sdr_send h (sdr_get_rq bi (it_reservation itr) (word_of_int (it_next itr)) (word_of_nat 0) (word_of_nat 5)) st =
         rret (Some (rsp_of 0 (le16 (next_id (v_recs v ?w) k) @ take 5 (drop 0 (sdr_bytes (v_recs v ?w ! k))))), st\<lparr>sd_world := w\<rparr>)"
    with Suc.prems show ?case by (intro exI [of _ w]) simp
  next
    fix w
    assume s: "keeps v ?w w" "it_reservation itr \<noteq> v_resv v ?w \<or> v_pending v w < v_pending v ?w"
      "sdr_send h (sdr_get_rq bi (it_reservation itr) (word_of_int (it_next itr)) (word_of_nat 0) (word_of_nat 5)) st =
         rret (Some (rsp_of 0xC5 []), st\<lparr>sd_world := w\<rparr>)"
    obtain w' where r: "ipmi_sdr_get_reservation h bi (st\<lparr>sd_world := w\<rparr>) = rret (Some (v_resv v w'), st\<lparr>sd_world := w'\<rparr>)" "keeps v w w'"
      using reservation_renewed [of h intf bi v "st\<lparr>sd_world := w\<rparr>"] D(1) Suc.prems(1) s(1) by (auto simp: sdr_serves_def keeps_def)
    let ?st = "st\<lparr>sd_world := w'\<rparr>" and ?itr = "itr\<lparr>it_reservation := v_resv v w'\<rparr>"
    have "header_tries h (Suc n) itr st = header_tries h n ?itr ?st" using r s Suc.prems by simp
    moreover have "v_pending v w' < n" using Suc.prems s r by (auto simp: keeps_def split: if_splits)
    ultimately show ?case
      using Suc.IH [of ?st ?itr] Suc.prems s r by (auto simp: keeps_def)
  qed (use D(2) in auto)
qed

text \<open>An iterator in front of the record k.\<close>

definition sdr_at :: "'w sdr_view \<Rightarrow> ipmi_intf \<Rightarrow> bool \<Rightarrow> nat \<Rightarrow> sdr_iterator \<Rightarrow> 'w sdr_state \<Rightarrow> bool" where
  "sdr_at v intf bi k itr st \<longleftrightarrow>
     sd_intf st = intf \<and> 3 \<le> unat (ipmi_intf_get_max_response_data_size intf) \<and> (sd_max_read_len st = 0 \<or> 1 \<le> sd_max_read_len st \<and> sd_max_read_len st \<le> 254)
     \<and> v_ok v (sd_world st) \<and> wf_repo (v_recs v (sd_world st)) \<and> v_pending v (sd_world st) \<le> 4
     \<and> it_use_built_in itr = bi \<and> it_reservation itr = v_resv v (sd_world st) \<and> k \<le> length (v_recs v (sd_world st))
     \<and> (if k < length (v_recs v (sd_world st))
        then names_rec (v_recs v (sd_world st)) (word_of_int (it_next itr)) k \<and> 0 \<le> it_next itr \<and> it_next itr < 0xFFFF
        else it_next itr = 0xFFFF)"

lemma next_named: "wf_repo rs \<Longrightarrow> k + 1 < length rs \<Longrightarrow> names_rec rs (next_id rs k) (k + 1) \<and> unat (next_id rs k) < 0xFFFF"
proof -
  assume wf: "wf_repo rs" and k: "k + 1 < length rs"
  have "next_id rs k \<noteq> 0xFFFF" using wf k by (auto simp: wf_repo_def next_id_def)
  moreover have "unat (next_id rs k) < 65536" using unsigned_less [of "next_id rs k"] by simp
  moreover have "unat (next_id rs k) \<noteq> unat (0xFFFF :: u16) \<or> next_id rs k = 0xFFFF" by (metis unsigned_word_eqI)
  ultimately have "unat (next_id rs k) < 0xFFFF" by simp
  with k show ?thesis by (simp add: names_rec_def next_id_def)
qed


lemma next_header_at_end: "sdr_at v intf bi k itr st \<Longrightarrow> k = length (v_recs v (sd_world st)) \<Longrightarrow> ipmi_sdr_get_next_header h itr st = rret ((None, itr), st)"
  by (simp add: sdr_at_def ipmi_sdr_get_next_header_def)

text \<open>The header read at a position is that of the record there, whatever the identifier asked for was.\<close>

lemma get_header_named:
  assumes "wf_repo rs" "names_rec rs (word_of_int i) k" "0 \<le> i" "i < 0xFFFF"
  shows "i \<noteq> 0 \<Longrightarrow> int (unat (r_id (rs ! k))) = i" and "sh_length (sdr_header_of rs k) \<noteq> 0"
    and "unat (sh_length (sdr_header_of rs k)) = length (r_body (rs ! k))"
proof -
  have w: "int (unat (word_of_int i :: u16)) = i" using assms(3,4) by (simp add: unsigned_of_int take_bit_int_eq_self)
  show "i \<noteq> 0 \<Longrightarrow> int (unat (r_id (rs ! k))) = i"
  proof -
    assume "i \<noteq> 0"
    with w have "(word_of_int i :: u16) \<noteq> 0" by auto
    with assms(2) w show ?thesis by (auto simp: names_rec_def)
  qed
  have "rs ! k \<in> set rs" using assms(2) by (simp add: names_rec_def)
  then have "1 \<le> length (r_body (rs ! k))" "length (r_body (rs ! k)) \<le> 251" using assms(1) by (auto simp: wf_repo_def)
  then show u: "unat (sh_length (sdr_header_of rs k)) = length (r_body (rs ! k))"
    by (simp add: sdr_header_of_def unat_of_nat take_bit_nat_def)
  with \<open>1 \<le> length (r_body (rs ! k))\<close> show "sh_length (sdr_header_of rs k) \<noteq> 0" by auto
qed

lemma get_next_header_at:
  assumes D: "sdr_serves h intf bi limit v" "5 \<le> limit" and at: "sdr_at v intf bi k itr st" and k: "k < length (v_recs v (sd_world st))"
  shows "\<exists>w. ipmi_sdr_get_next_header h itr st =
           rret ((Some (sdr_header_of (v_recs v (sd_world st)) k),
             itr\<lparr>it_reservation := v_resv v w, it_next := int (unat (next_id (v_recs v (sd_world st)) k))\<rparr>), st\<lparr>sd_world := w\<rparr>)
           \<and> keeps v (sd_world st) w"
proof -
  let ?rs = "v_recs v (sd_world st)"
  from at k have a: "sd_intf st = intf" "v_ok v (sd_world st)" "it_use_built_in itr = bi" "wf_repo ?rs" "v_pending v (sd_world st) < 5"
    "it_reservation itr = v_resv v (sd_world st)" "names_rec ?rs (word_of_int (it_next itr)) k" "0 \<le> it_next itr" "it_next itr < 0xFFFF"
    by (auto simp: sdr_at_def)
  have "v_pending v (sd_world st) + (if it_reservation itr = v_resv v (sd_world st) then 0 else 1) < 5" using a by simp
  from header_tries_answered [OF D a(1,2,3,7) this] obtain w where w: "header_tries h 5 itr st =
           rret ((Some (rsp_of 0 (le16 (next_id ?rs k) @ take 5 (sdr_bytes (?rs ! k)))),
             itr\<lparr>it_reservation := v_resv v w\<rparr>), st\<lparr>sd_world := w\<rparr>)" "keeps v (sd_world st) w" by blast
  note hd = get_header_named [OF a(4,7,8,9)]
  have "sh_id (sdr_header_of ?rs k) = r_id (?rs ! k)" "sh_next (sdr_header_of ?rs k) = next_id ?rs k" by (simp_all add: sdr_header_of_def)
  with hd a(9) w show ?thesis
    unfolding ipmi_sdr_get_next_header_def ipmi_sdr_get_header_def
    by (intro exI [of _ w]) (auto simp add: header_of_rsp Let_def)
qed

text \<open>The bytes \<open>ipmi_sdr_get_record\<close> returns for a record.\<close>

definition rec_data :: "sdr_rec \<Rightarrow> byte list option" where
  "rec_data r = (if ipmi_sdr_record_length_valid (r_type r) (length (r_body r)) (r_body r @ [0]) then Some (r_body r @ [0]) else None)"

lemma init_read_len:
  "3 \<le> unat (ipmi_intf_get_max_response_data_size (sd_intf st)) \<Longrightarrow> sd_max_read_len st = 0 \<or> 1 \<le> sd_max_read_len st \<and> sd_max_read_len st \<le> 254 \<Longrightarrow>
     \<exists>m. sdr_init_read_len st = st\<lparr>sd_max_read_len := m\<rparr> \<and> 1 \<le> m \<and> m \<le> 254"
  by (intro exI [of _ "sd_max_read_len (sdr_init_read_len st)"]) (auto simp: sdr_init_read_len_def Let_def simp del: of_nat_unat)

lemma get_record_at:
  assumes D: "sdr_serves h intf bi limit v" "5 \<le> limit"
    and "sd_intf st = intf" "v_ok v (sd_world st)" "it_use_built_in itr = bi" "wf_repo rs" "v_recs v (sd_world st) = rs" "k < length rs"
    and m: "3 \<le> unat (ipmi_intf_get_max_response_data_size intf)" "sd_max_read_len st = 0 \<or> 1 \<le> sd_max_read_len st \<and> sd_max_read_len st \<le> 254"
  shows "\<exists>w m. ipmi_sdr_get_record h (sdr_header_of rs k) itr st =
           rret ((rec_data (rs ! k), itr\<lparr>it_reservation := v_resv v w\<rparr>), st\<lparr>sd_world := w, sd_max_read_len := m\<rparr>)
           \<and> keeps v (sd_world st) w \<and> 1 \<le> m \<and> m \<le> 254"
proof -
  let ?r = "rs ! k" and ?len = "length (r_body (rs ! k))"
  have "?r \<in> set rs" using assms(8) by simp
  then have len: "1 \<le> ?len" "?len \<le> 251" using assms(6) by (auto simp: wf_repo_def)
  have ul: "unat (sh_length (sdr_header_of rs k)) = ?len" using len by (simp add: sdr_header_of_def unat_of_nat take_bit_nat_def)
  obtain m0 where m0: "sdr_init_read_len st = st\<lparr>sd_max_read_len := m0\<rparr>" "1 \<le> m0" "m0 \<le> 254"
    using init_read_len m assms(3) by blast
  have nm: "names_rec rs (r_id ?r) k" using assms(8) by (simp add: names_rec_def)
  have "sdr_read_result v (r_body ?r) itr (st\<lparr>sd_max_read_len := m0\<rparr>) (sdr_read_loop h (r_id ?r) ?len 0 (reading (r_body ?r) 0) itr (st\<lparr>sd_max_read_len := m0\<rparr>))"
    by (rule read_loop_reads [OF D(1)]) (use D(2) assms(3-7) nm m0 len in auto)
  then obtain w m where w: "sdr_read_loop h (r_id ?r) ?len 0 (reading (r_body ?r) 0) itr (st\<lparr>sd_max_read_len := m0\<rparr>) =
      rret ((Some (r_body ?r @ [0]), itr\<lparr>it_reservation := v_resv v w\<rparr>), st\<lparr>sd_world := w, sd_max_read_len := m\<rparr>)"
    "keeps v (sd_world st) w" "1 \<le> m" "m \<le> 254"
    by (auto simp: sdr_read_result_def)
  have "reading (r_body ?r) 0 = replicate (?len + 1) 0" by (simp add: reading_def)
  with w(1) have "sdr_read_loop h (sh_id (sdr_header_of rs k)) ?len 0 (replicate (?len + 1) 0) itr (sdr_init_read_len st) =
      rret ((Some (r_body ?r @ [0]), itr\<lparr>it_reservation := v_resv v w\<rparr>), st\<lparr>sd_world := w, sd_max_read_len := m\<rparr>)"
    by (simp add: m0 sdr_header_of_def)
  moreover have "r_body ?r \<noteq> []" using len by auto
  ultimately have "ipmi_sdr_get_record h (sdr_header_of rs k) itr st =
      rret ((rec_data ?r, itr\<lparr>it_reservation := v_resv v w\<rparr>), st\<lparr>sd_world := w, sd_max_read_len := m\<rparr>)"
    unfolding ipmi_sdr_get_record_def Let_def ul using len by (simp add: rec_data_def) (simp add: sdr_header_of_def)
  with w show ?thesis by blast
qed

lemma next_position:
  "wf_repo rs \<Longrightarrow> k < length rs \<Longrightarrow>
     (if k + 1 < length rs then names_rec rs (next_id rs k) (k + 1) \<and> uint (next_id rs k) < 0xFFFF else uint (next_id rs k) = 0xFFFF)"
proof (cases "k + 1 < length rs")
  case True
  moreover assume "wf_repo rs"
  ultimately have "names_rec rs (next_id rs k) (k + 1)" "int (unat (next_id rs k)) < 0xFFFF" using next_named [of rs k] by (auto simp del: of_nat_unat)
  then show ?thesis using True by simp
qed (simp add: next_id_def)

lemma sdr_at_step:
  assumes D: "sdr_serves h intf bi limit v" "5 \<le> limit" and at: "sdr_at v intf bi k itr st" and k: "k < length (v_recs v (sd_world st))"
  obtains itr1 st1 itr2 w m where
    "ipmi_sdr_get_next_header h itr st = rret ((Some (sdr_header_of (v_recs v (sd_world st)) k), itr1), st1)"
    "ipmi_sdr_get_record h (sdr_header_of (v_recs v (sd_world st)) k) itr1 st1 = rret ((rec_data (v_recs v (sd_world st) ! k), itr2), st\<lparr>sd_world := w, sd_max_read_len := m\<rparr>)"
    "sdr_at v intf bi (k + 1) itr2 (st\<lparr>sd_world := w, sd_max_read_len := m\<rparr>)"
    "keeps v (sd_world st) w"
proof -
  let ?rs = "v_recs v (sd_world st)"
  let ?nx = "int (unat (next_id ?rs k))"
  obtain w1 where n: "ipmi_sdr_get_next_header h itr st = rret ((Some (sdr_header_of ?rs k), itr\<lparr>it_reservation := v_resv v w1, it_next := ?nx\<rparr>), st\<lparr>sd_world := w1\<rparr>)"
    "keeps v (sd_world st) w1"
    using get_next_header_at [OF assms] by blast
  let ?itr = "itr\<lparr>it_reservation := v_resv v w1, it_next := ?nx\<rparr>"
  obtain w m where r: "ipmi_sdr_get_record h (sdr_header_of ?rs k) ?itr (st\<lparr>sd_world := w1\<rparr>) =
      rret ((rec_data (?rs ! k), ?itr\<lparr>it_reservation := v_resv v w\<rparr>), st\<lparr>sd_world := w, sd_max_read_len := m\<rparr>)"
    "keeps v w1 w" "1 \<le> m" "m \<le> 254"
    using get_record_at [OF D, of "st\<lparr>sd_world := w1\<rparr>" ?itr ?rs k] at k n by (auto simp: sdr_at_def keeps_def)
  have "sdr_at v intf bi (k + 1) (?itr\<lparr>it_reservation := v_resv v w\<rparr>) (st\<lparr>sd_world := w, sd_max_read_len := m\<rparr>)"
    using at k n r next_position [of ?rs k] by (auto simp: sdr_at_def keeps_def)
  with n(1) r(1) show thesis
    by (rule that) (rule keeps_trans [OF n(2) r(2)])
qed

section \<open>The list of records\<close>

definition rec_entry :: "sdr_rec \<Rightarrow> sdr_record_list" where
  "rec_entry r = sdr_entry_of (r_id r) (r_type r) (r_body r @ [0])"

definition rec_listed :: "sdr_rec \<Rightarrow> bool" where
  "rec_listed r \<longleftrightarrow> rec_data r \<noteq> None \<and> sdr_kept (r_type r)"

text \<open>The entries a repository has: one for each well-formed record of a known type, in order.\<close>

definition sdr_entries :: "sdr_rec list \<Rightarrow> sdr_record_list list" where
  "sdr_entries rs = map rec_entry (filter rec_listed rs)"

definition moved :: "'w sdr_view \<Rightarrow> 'w sdr_state \<Rightarrow> 'w sdr_state \<Rightarrow> bool" where
  "moved v st st' \<longleftrightarrow> keeps v (sd_world st) (sd_world st') \<and> sd_use_built_in st' = sd_use_built_in st"

lemma moved_trans: "moved v a b \<Longrightarrow> moved v b c \<Longrightarrow> moved v a c"
  by (auto simp: moved_def intro: keeps_trans)

lemma moved_recs: "moved v st st' \<Longrightarrow> v_recs v (sd_world st') = v_recs v (sd_world st)"
  by (simp add: moved_def keeps_def)

lemma sdr_at_list [simp]: "sdr_at v intf bi k itr (st\<lparr>sd_list := l\<rparr>) = sdr_at v intf bi k itr st"
  "sdr_at v intf bi k itr (st\<lparr>sd_list_itr := i\<rparr>) = sdr_at v intf bi k itr st"
  by (simp_all add: sdr_at_def)

lemma moved_list [simp]: "moved v st (st'\<lparr>sd_list := l\<rparr>) = moved v st st'" "moved v (st\<lparr>sd_list := l\<rparr>) st' = moved v st st'"
  "moved v st (st'\<lparr>sd_list_itr := i\<rparr>) = moved v st st'" "moved v (st\<lparr>sd_list_itr := i\<rparr>) st' = moved v st st'"
  by (simp_all add: moved_def)

lemma sdr_entries_simps [simp]:
  "sdr_entries [] = []" "sdr_entries (r # rs) = (if rec_listed r then [rec_entry r] else []) @ sdr_entries rs"
  by (simp_all add: sdr_entries_def)

lemma sdr_entries_append [simp]: "sdr_entries (a @ b) = sdr_entries a @ sdr_entries b"
  by (simp add: sdr_entries_def)

lemma sdr_entries_drop: "k < length rs \<Longrightarrow> sdr_entries (drop k rs) = (if rec_listed (rs ! k) then [rec_entry (rs ! k)] else []) @ sdr_entries (drop (k + 1) rs)"
  by (simp add: Cons_nth_drop_Suc [symmetric])

lemma next_entry_at:
  assumes D: "sdr_serves h intf bi limit v" "5 \<le> limit" and at: "sdr_at v intf bi k itr st"
  shows "\<exists>e k' itr' st'. sdr_next_entry h itr st = rret ((e, itr'), st') \<and> sdr_at v intf bi k' itr' st' \<and> moved v st st' \<and> sd_list st' = sd_list st \<and>
           (case e of
              None \<Rightarrow> sdr_entries (drop k (v_recs v (sd_world st))) = [] \<and> k' = length (v_recs v (sd_world st))
            | Some x \<Rightarrow> sdr_entries (drop k (v_recs v (sd_world st))) = x # sdr_entries (drop k' (v_recs v (sd_world st))) \<and> k < k')"
  using at
proof (induction "length (v_recs v (sd_world st)) - k" arbitrary: k itr st rule: less_induct)
  case less
  let ?rs = "v_recs v (sd_world st)"
  have kle: "k \<le> length ?rs" "v_ok v (sd_world st)" using less.prems by (auto simp: sdr_at_def)
  show ?case
  proof (cases "k = length ?rs")
    case True
    then have "sdr_next_entry h itr st = rret ((None, itr), st)"
      by (subst sdr_next_entry.simps) (simp add: next_header_at_end [OF less.prems])
    with True kle less.prems show ?thesis
      by (intro exI [of _ None] exI [of _ k] exI [of _ itr] exI [of _ st]) (simp add: moved_def keeps_refl)
  next
    case False
    with kle have k: "k < length ?rs" by simp
    obtain itr1 st1 itr2 w m where s: "ipmi_sdr_get_next_header h itr st = rret ((Some (sdr_header_of ?rs k), itr1), st1)"
      "ipmi_sdr_get_record h (sdr_header_of ?rs k) itr1 st1 = rret ((rec_data (?rs ! k), itr2), st\<lparr>sd_world := w, sd_max_read_len := m\<rparr>)"
      "sdr_at v intf bi (k + 1) itr2 (st\<lparr>sd_world := w, sd_max_read_len := m\<rparr>)" "keeps v (sd_world st) w"
      by (rule sdr_at_step [OF D less.prems k]) blast
    let ?st = "st\<lparr>sd_world := w, sd_max_read_len := m\<rparr>"
    have mv: "moved v st ?st" using s(4) by (simp add: moved_def)
    have hd: "sh_type (sdr_header_of ?rs k) = r_type (?rs ! k)" "sh_id (sdr_header_of ?rs k) = r_id (?rs ! k)" by (simp_all add: sdr_header_of_def)
    have unf: "sdr_next_entry h itr st =
        (if rec_listed (?rs ! k) then rret ((Some (rec_entry (?rs ! k)), itr2), ?st) else sdr_next_entry h itr2 ?st)"
      by (subst sdr_next_entry.simps) (auto simp: s(1,2) hd rec_listed_def rec_entry_def rec_data_def)
    show ?thesis
    proof (cases "rec_listed (?rs ! k)")
      case True
      with unf s(3) mv sdr_entries_drop [OF k] show ?thesis by fastforce
    next
      case False
      have same: "v_recs v (sd_world ?st) = ?rs" using moved_recs [OF mv] .
      have "length (v_recs v (sd_world ?st)) - (k + 1) < length ?rs - k" unfolding same using k by simp
      from less.hyps [OF this s(3)] obtain e k' itr' st' where r: "sdr_next_entry h itr2 ?st = rret ((e, itr'), st')" "sdr_at v intf bi k' itr' st'"
        "moved v ?st st'" "sd_list st' = sd_list ?st"
        "case e of None \<Rightarrow> sdr_entries (drop (k + 1) ?rs) = [] \<and> k' = length ?rs
         | Some x \<Rightarrow> sdr_entries (drop (k + 1) ?rs) = x # sdr_entries (drop k' ?rs) \<and> k + 1 < k'"
        unfolding same by blast
      have "sdr_next_entry h itr st = rret ((e, itr'), st')" using unf False r(1) by simp
      moreover have "moved v st st'" by (rule moved_trans [OF mv r(3)])
      moreover have "case e of None \<Rightarrow> sdr_entries (drop k ?rs) = [] \<and> k' = length ?rs
         | Some x \<Rightarrow> sdr_entries (drop k ?rs) = x # sdr_entries (drop k' ?rs) \<and> k < k'"
        using r(5) sdr_entries_drop [OF k] False by (auto split: option.splits)
      ultimately show ?thesis using r(2,4) by auto
    qed
  qed
qed

lemma find_rest_at:
  assumes D: "sdr_serves h intf bi limit v" "5 \<le> limit" and at: "sdr_at v intf bi k itr st"
    and p: "\<forall>e \<in> set (sdr_entries (drop k (v_recs v (sd_world st)))). p e = Inr (P e)"
  shows "\<exists>es k' itr' st'. sdr_find_rest h p itr st = rret ((List.find P (sdr_entries (drop k (v_recs v (sd_world st)))), itr'), st') \<and>
           sdr_at v intf bi k' itr' st' \<and> moved v st st' \<and> sd_list st' = sd_list st @ es \<and>
           sdr_entries (drop k (v_recs v (sd_world st))) = es @ sdr_entries (drop k' (v_recs v (sd_world st))) \<and>
           (List.find P (sdr_entries (drop k (v_recs v (sd_world st)))) = None \<longrightarrow> k' = length (v_recs v (sd_world st)))"
  using at p
proof (induction "length (v_recs v (sd_world st)) - k" arbitrary: k itr st rule: less_induct)
  case less
  let ?rs = "v_recs v (sd_world st)"
  obtain e k1 itr1 st1 where n: "sdr_next_entry h itr st = rret ((e, itr1), st1)" "sdr_at v intf bi k1 itr1 st1" "moved v st st1" "sd_list st1 = sd_list st"
    and e: "case e of None \<Rightarrow> sdr_entries (drop k ?rs) = [] \<and> k1 = length ?rs
            | Some x \<Rightarrow> sdr_entries (drop k ?rs) = x # sdr_entries (drop k1 ?rs) \<and> k < k1"
    using next_entry_at [OF D less.prems(1)] by blast
  show ?case
  proof (cases e)
    case None
    then have "sdr_find_rest h p itr st = rret ((None, itr1), st1)" by (subst sdr_find_rest.simps) (simp add: n(1))
    with None e n show ?thesis by fastforce
  next
    case (Some x)
    let ?st = "st1\<lparr>sd_list := sd_list st1 @ [x]\<rparr>"
    have x: "sdr_entries (drop k ?rs) = x # sdr_entries (drop k1 ?rs)" "k < k1" using e Some by auto
    have px: "p x = Inr (P x)" using less.prems(2) x by simp
    have unf: "sdr_find_rest h p itr st = (if P x then rret ((Some x, itr1), ?st) else sdr_find_rest h p itr1 ?st)"
      by (subst sdr_find_rest.simps) (simp add: n(1) Some px sdr_list_add_def)
    have at1: "sdr_at v intf bi k1 itr1 ?st" using n(2) by simp
    have same: "v_recs v (sd_world ?st) = ?rs" using moved_recs [OF n(3)] by simp
    show ?thesis
    proof (cases "P x")
      case True
      with unf x n show ?thesis by (intro exI [of _ "[x]"] exI [of _ k1] exI [of _ itr1] exI [of _ ?st]) simp
    next
      case False
      have "k1 \<le> length ?rs" using n(2) moved_recs [OF n(3)] by (simp add: sdr_at_def)
      then have lt: "length (v_recs v (sd_world ?st)) - k1 < length ?rs - k" unfolding same using x(2) by simp
      have p1: "\<forall>e \<in> set (sdr_entries (drop k1 (v_recs v (sd_world ?st)))). p e = Inr (P e)"
        unfolding same using less.prems(2) x(1) by simp
      from less.hyps [OF lt at1 p1] obtain es k' itr' st' where
        r: "sdr_find_rest h p itr1 ?st = rret ((List.find P (sdr_entries (drop k1 ?rs)), itr'), st')"
          "sdr_at v intf bi k' itr' st'" "moved v ?st st'" "sd_list st' = sd_list ?st @ es"
          "sdr_entries (drop k1 ?rs) = es @ sdr_entries (drop k' ?rs)" "List.find P (sdr_entries (drop k1 ?rs)) = None \<longrightarrow> k' = length ?rs"
        unfolding same by (elim exE conjE) (rule that; assumption)
      have "moved v st st'" using moved_trans [OF n(3)] r(3) by simp
      moreover have "sdr_find_rest h p itr st = rret ((List.find P (sdr_entries (drop k ?rs)), itr'), st')" using unf False r(1) x(1) by simp
      moreover have "sd_list st' = sd_list st @ x # es" using r(4) n(4) by simp
      moreover have "sdr_entries (drop k ?rs) = (x # es) @ sdr_entries (drop k' ?rs)" using x(1) r(5) by simp
      moreover have "List.find P (sdr_entries (drop k ?rs)) = None \<longrightarrow> k' = length ?rs" using r(6) x(1) False by simp
      ultimately show ?thesis using r(2) by (intro exI conjI)
    qed
  qed
qed

lemma collect_rest_at:
  assumes D: "sdr_serves h intf bi limit v" "5 \<le> limit" and at: "sdr_at v intf bi k itr st"
    and p: "\<forall>e \<in> set (sdr_entries (drop k (v_recs v (sd_world st)))). p e = Inr (P e)"
  shows "\<exists>itr' st'. sdr_collect_rest h p res itr st = rret ((res @ filter P (sdr_entries (drop k (v_recs v (sd_world st)))), itr'), st') \<and>
           sdr_at v intf bi (length (v_recs v (sd_world st))) itr' st' \<and> moved v st st' \<and> sd_list st' = sd_list st @ sdr_entries (drop k (v_recs v (sd_world st)))"
  using at p
proof (induction "length (v_recs v (sd_world st)) - k" arbitrary: k itr st res rule: less_induct)
  case less
  let ?rs = "v_recs v (sd_world st)"
  obtain e k1 itr1 st1 where n: "sdr_next_entry h itr st = rret ((e, itr1), st1)" "sdr_at v intf bi k1 itr1 st1" "moved v st st1" "sd_list st1 = sd_list st"
    and e: "case e of None \<Rightarrow> sdr_entries (drop k ?rs) = [] \<and> k1 = length ?rs
            | Some x \<Rightarrow> sdr_entries (drop k ?rs) = x # sdr_entries (drop k1 ?rs) \<and> k < k1"
    using next_entry_at [OF D less.prems(1)] by blast
  show ?case
  proof (cases e)
    case None
    then have "sdr_collect_rest h p res itr st = rret ((res, itr1), st1)" by (subst sdr_collect_rest.simps) (simp add: n(1))
    with None e n show ?thesis by fastforce
  next
    case (Some x)
    let ?st = "st1\<lparr>sd_list := sd_list st1 @ [x]\<rparr>"
    have x: "sdr_entries (drop k ?rs) = x # sdr_entries (drop k1 ?rs)" "k < k1" using e Some by auto
    have px: "p x = Inr (P x)" using less.prems(2) x by simp
    have unf: "sdr_collect_rest h p res itr st = sdr_collect_rest h p (res @ (if P x then [x] else [])) itr1 ?st"
      by (subst sdr_collect_rest.simps) (simp add: n(1) Some px sdr_list_add_def)
    have at1: "sdr_at v intf bi k1 itr1 ?st" using n(2) by simp
    have same: "v_recs v (sd_world ?st) = ?rs" using moved_recs [OF n(3)] by simp
    have "k1 \<le> length ?rs" using n(2) moved_recs [OF n(3)] by (simp add: sdr_at_def)
    then have lt: "length (v_recs v (sd_world ?st)) - k1 < length ?rs - k" unfolding same using x(2) by simp
    have p1: "\<forall>e \<in> set (sdr_entries (drop k1 (v_recs v (sd_world ?st)))). p e = Inr (P e)"
      unfolding same using less.prems(2) x(1) by simp
    from less.hyps [OF lt at1 p1, of "res @ (if P x then [x] else [])"] obtain itr' st' where
      r: "sdr_collect_rest h p (res @ (if P x then [x] else [])) itr1 ?st = rret (((res @ (if P x then [x] else [])) @ filter P (sdr_entries (drop k1 ?rs)), itr'), st')"
        "sdr_at v intf bi (length ?rs) itr' st'" "moved v ?st st'" "sd_list st' = sd_list ?st @ sdr_entries (drop k1 ?rs)"
      unfolding same by (elim exE conjE) (rule that; assumption)
    have "moved v st st'" using moved_trans [OF n(3)] r(3) by simp
    moreover have "sdr_collect_rest h p res itr st = rret ((res @ filter P (sdr_entries (drop k ?rs)), itr'), st')" using unf r(1) x(1) by simp
    moreover have "sd_list st' = sd_list st @ sdr_entries (drop k ?rs)" using r(4) n(4) x(1) by simp
    ultimately show ?thesis using r(2) by (intro exI conjI)
  qed
qed

text \<open>What the controller answers when an iterator is opened: it has a repository, not empty.\<close>

definition sdr_opens :: "('e, 'w) sdr_host \<Rightarrow> ipmi_intf \<Rightarrow> 'w sdr_view \<Rightarrow> bool" where
  "sdr_opens h intf v \<longleftrightarrow>
     (\<forall>w. v_ok v w \<longrightarrow>
        (\<exists>d w'. sd_sendrecv h intf (mk_rq 0x06 0x01 []) w = Inr (Some (rsp_of 0 d), w') \<and> keeps v w w' \<and>
           (rsp_byte (rsp_of 0 d) 1 AND 0x80 = 0 \<or> rsp_byte (rsp_of 0 d) 5 AND 2 \<noteq> 0))) \<and>
     (\<forall>w. v_ok v w \<longrightarrow>
        (\<exists>d w'. sd_sendrecv h intf (mk_rq 0x0A 0x20 []) w = Inr (Some (rsp_of 0 d), w') \<and> keeps v w w' \<and>
           of_le16 (rsp_byte (rsp_of 0 d) 1) (rsp_byte (rsp_of 0 d) 2) \<noteq> 0))"

definition sdr_ready :: "'w sdr_view \<Rightarrow> ipmi_intf \<Rightarrow> 'w sdr_state \<Rightarrow> bool" where
  "sdr_ready v intf st \<longleftrightarrow>
     sd_intf st = intf \<and> 3 \<le> unat (ipmi_intf_get_max_response_data_size intf) \<and> (sd_max_read_len st = 0 \<or> 1 \<le> sd_max_read_len st \<and> sd_max_read_len st \<le> 254)
     \<and> v_ok v (sd_world st) \<and> wf_repo (v_recs v (sd_world st)) \<and> v_pending v (sd_world st) \<le> 4"

lemma sdr_at_ready: "sdr_at v intf bi k itr st \<Longrightarrow> sdr_ready v intf st"
  by (simp add: sdr_at_def sdr_ready_def)

lemma wf_repo_first: "wf_repo rs \<Longrightarrow> names_rec rs 0 0"
  by (simp add: wf_repo_def names_rec_def)

lemma sdr_start_opens:
  assumes "sdr_opens h intf v" "sdr_reserves h intf False v" "sdr_ready v intf st" "\<not> sd_use_built_in st"
  shows "\<exists>itr st'. ipmi_sdr_start h False st = rret (Some itr, st') \<and> sdr_at v intf False 0 itr st' \<and> moved v st st' \<and> sd_list st' = sd_list st"
proof -
  from assms(3) have i: "sd_intf st = intf" "v_ok v (sd_world st)" by (auto simp: sdr_ready_def)
  obtain d w1 where a: "sd_sendrecv h intf (mk_rq 0x06 0x01 []) (sd_world st) = Inr (Some (rsp_of 0 d), w1)" "keeps v (sd_world st) w1"
    "rsp_byte (rsp_of 0 d) 1 AND 0x80 = 0 \<or> rsp_byte (rsp_of 0 d) 5 AND 2 \<noteq> 0"
    using assms(1) i(2) unfolding sdr_opens_def by blast
  obtain d2 w2 where b: "sd_sendrecv h intf (mk_rq 0x0A 0x20 []) w1 = Inr (Some (rsp_of 0 d2), w2)" "keeps v w1 w2"
    "of_le16 (rsp_byte (rsp_of 0 d2) 1) (rsp_byte (rsp_of 0 d2) 2) \<noteq> 0"
    using assms(1) a(2) unfolding sdr_opens_def keeps_def by blast
  define st1 where "st1 = st\<lparr>sd_world := w1, sd_iana := ucast (rsp_byte (rsp_of 0 d) 6) OR push_bit 8 (ucast (rsp_byte (rsp_of 0 d) 7)) OR push_bit 16 (ucast (rsp_byte (rsp_of 0 d) 8))\<rparr>"
  define st2 where "st2 = st1\<lparr>sd_world := w2\<rparr>"
  obtain w3 where c: "ipmi_sdr_get_reservation h False st2 = rret (Some (v_resv v w3), st2\<lparr>sd_world := w3\<rparr>)" "keeps v w2 w3"
    using reservation_renewed [of h intf False v st2] assms(2) i b(2) by (auto simp: st1_def st2_def keeps_def)
  let ?n = "int (unat (of_le16 (rsp_byte (rsp_of 0 d2) 1) (rsp_byte (rsp_of 0 d2) 2)))"
  let ?itr = "\<lparr>it_reservation = v_resv v w3, it_total = ?n, it_next = 0, it_use_built_in = False\<rparr>"
  have s1: "sdr_send h (mk_rq 0x06 0x01 []) st = rret (Some (rsp_of 0 d), st\<lparr>sd_world := w1\<rparr>)" using a(1) i by (simp add: sdr_send_eq)
  have "sdr_send h (mk_rq 0x0A 0x20 []) st1 = rret (Some (rsp_of 0 d2), st2)"
    using b(1) i sdr_send_eq [of h st1 "mk_rq 0x0A 0x20 []"] by (simp add: st1_def st2_def)
  then have s2: "sdr_repo_info h f st1 = rret (Some ?n, st2)" for f
    using b(3) by (simp add: sdr_repo_info_def Let_def)
  have nb: "\<not> sd_use_built_in st1" using assms(4) by (simp add: st1_def)
  have "ipmi_sdr_start h False st = rret (Some ?itr, st2\<lparr>sd_world := w3\<rparr>)"
    unfolding ipmi_sdr_start_def sdr_start_with_def s1 Let_def st1_def [symmetric] rbind_simps
    using a(3) nb by (auto simp: s2 c(1) st1_def [symmetric])
  moreover have k: "keeps v (sd_world st) w3" using a(2) b(2) c(2) by (blast intro: keeps_trans)
  moreover have "sdr_at v intf False 0 ?itr (st2\<lparr>sd_world := w3\<rparr>)"
    using assms(3) k wf_repo_first [of "v_recs v (sd_world st)"] by (auto simp: sdr_at_def sdr_ready_def st1_def st2_def keeps_def names_rec_def)
  moreover have "moved v st (st2\<lparr>sd_world := w3\<rparr>)" "sd_list (st2\<lparr>sd_world := w3\<rparr>) = sd_list st"
    using k by (simp_all add: moved_def st1_def st2_def)
  ultimately show ?thesis by (intro exI conjI)
qed

text \<open>
  The list in memory and its iterator belong together: what has been read is what is in front
  of the iterator.
\<close>

definition sdr_list_ok :: "'w sdr_view \<Rightarrow> ipmi_intf \<Rightarrow> 'w sdr_state \<Rightarrow> bool" where
  "sdr_list_ok v intf st \<longleftrightarrow> \<not> sd_use_built_in st \<and> sdr_ready v intf st \<and>
     (case sd_list_itr st of
        None \<Rightarrow> sd_list st = []
      | Some itr \<Rightarrow> (\<exists>k. sdr_at v intf False k itr st \<and> sd_list st = sdr_entries (take k (v_recs v (sd_world st)))))"

lemma open_list_at:
  assumes "sdr_opens h intf v" "sdr_reserves h intf False v" "sdr_list_ok v intf st"
  shows "\<exists>itr k st'. sdr_open_list h st = rret (Some itr, st') \<and> sdr_at v intf False k itr st' \<and> moved v st st'
           \<and> sd_list st' = sdr_entries (take k (v_recs v (sd_world st')))"
proof (cases "sd_list_itr st")
  case None
  with assms(3) have "sd_list st = []" "sdr_ready v intf st" "\<not> sd_use_built_in st" by (auto simp: sdr_list_ok_def)
  with sdr_start_opens [OF assms(1,2)] obtain itr st' where
    "ipmi_sdr_start h False st = rret (Some itr, st')" "sdr_at v intf False 0 itr st'" "moved v st st'" "sd_list st' = []" by fastforce
  then show ?thesis
    by (intro exI [of _ itr] exI [of _ 0] exI [of _ "st'\<lparr>sd_list_itr := Some itr\<rparr>"]) (simp add: sdr_open_list_def None)
next
  case (Some itr)
  with assms(3) obtain k where "sdr_at v intf False k itr st" "sd_list st = sdr_entries (take k (v_recs v (sd_world st)))" by (auto simp: sdr_list_ok_def)
  then show ?thesis
    by (intro exI [of _ itr] exI [of _ k] exI [of _ st]) (simp add: sdr_open_list_def Some moved_def sdr_at_def keeps_refl)
qed

lemma find_append: "List.find P (a @ b) = (case List.find P a of None \<Rightarrow> List.find P b | Some x \<Rightarrow> Some x)"
  by (induction a) auto

lemma find_map: "List.find P (map f xs) = map_option f (List.find (P \<circ> f) xs)"
  by (induction xs) auto

lemma find_cong_set: "(\<And>x. x \<in> set xs \<Longrightarrow> P x = Q x) \<Longrightarrow> List.find P xs = List.find Q xs"
  by (induction xs) auto

lemma find_cached_eq: "\<forall>e \<in> set es. p e = Inr (P e) \<Longrightarrow> sdr_find_cached p es = Inr (List.find P es)"
  by (induction es) auto

lemma collect_cached_eq: "\<forall>e \<in> set es. p e = Inr (P e) \<Longrightarrow> sdr_collect_cached p res es = Inr (res @ filter P es)"
  by (induction es arbitrary: res) (auto simp: sdr_list_add_def)

text \<open>Reading on keeps the list and its iterator together.\<close>

lemma list_ok_extended:
  assumes "sdr_at v intf False k itr st" "sd_list st = sdr_entries (take k (v_recs v (sd_world st)))"
    and "sdr_at v intf False k' itr' st'" "moved v st st'" "\<not> sd_use_built_in st" "sd_list st' = sd_list st @ es"
    and "sdr_entries (drop k (v_recs v (sd_world st))) = es @ sdr_entries (drop k' (v_recs v (sd_world st)))"
  shows "sdr_list_ok v intf (st'\<lparr>sd_list_itr := Some itr'\<rparr>)"
proof -
  let ?rs = "v_recs v (sd_world st)"
  have "sdr_entries (take k' ?rs) @ sdr_entries (drop k' ?rs) = sdr_entries (take k ?rs) @ sdr_entries (drop k ?rs)"
    by (simp flip: sdr_entries_append)
  with assms(7) have "sd_list st' = sdr_entries (take k' (v_recs v (sd_world st')))"
    by (simp add: assms(2,6) moved_recs [OF assms(4)])
  moreover have "\<not> sd_use_built_in st'" using assms(4,5) by (simp add: moved_def)
  ultimately show ?thesis
    using assms(3) sdr_at_ready [OF assms(3)] by (auto simp: sdr_list_ok_def sdr_ready_def)
qed

text \<open>
  The searches: whatever part of the repository is already in memory, the result is that of
  the same search over all its records.
\<close>

lemma find_first_at:
  assumes D: "sdr_opens h intf v" "sdr_serves h intf False limit v" "5 \<le> limit" "sdr_list_ok v intf st"
    and p: "\<forall>r \<in> set (v_recs v (sd_world st)). rec_listed r \<longrightarrow> p (rec_entry r) = Inr (Q r)"
  shows "\<exists>st'. sdr_find_first h p st = rret (map_option rec_entry (List.find Q (filter rec_listed (v_recs v (sd_world st)))), st')
           \<and> sdr_list_ok v intf st' \<and> v_recs v (sd_world st') = v_recs v (sd_world st)"
proof -
  let ?rs = "v_recs v (sd_world st)"
  define P where "P e \<longleftrightarrow> p e = Inr True" for e
  have res: "sdr_reserves h intf False v" using D(2) by (simp add: sdr_serves_def)
  have pe: "\<forall>e \<in> set (sdr_entries ?rs). p e = Inr (P e)" using p by (auto simp: sdr_entries_def P_def)
  have find: "List.find P (sdr_entries ?rs) = map_option rec_entry (List.find Q (filter rec_listed ?rs))"
    unfolding sdr_entries_def find_map using p by (auto simp: P_def intro!: arg_cong [where f = "map_option rec_entry"] find_cong_set)
  obtain itr k st1 where o: "sdr_open_list h st = rret (Some itr, st1)" "sdr_at v intf False k itr st1" "moved v st st1"
    "sd_list st1 = sdr_entries (take k (v_recs v (sd_world st1)))"
    using open_list_at [OF D(1) res D(4)] by blast
  have rs1: "v_recs v (sd_world st1) = ?rs" by (rule moved_recs [OF o(3)])
  have nb: "\<not> sd_use_built_in st1" using D(4) o(3) by (simp add: sdr_list_ok_def moved_def)
  have "set (sdr_entries (take k ?rs)) \<subseteq> set (sdr_entries ?rs)" "set (sdr_entries (drop k ?rs)) \<subseteq> set (sdr_entries ?rs)"
    by (auto simp: sdr_entries_def dest: in_set_takeD in_set_dropD)
  with pe have pk: "\<forall>e \<in> set (sd_list st1). p e = Inr (P e)" "\<forall>e \<in> set (sdr_entries (drop k (v_recs v (sd_world st1)))). p e = Inr (P e)"
    unfolding o(4) rs1 by auto
  have all: "List.find P (sdr_entries ?rs) = (case List.find P (sd_list st1) of None \<Rightarrow> List.find P (sdr_entries (drop k ?rs)) | Some x \<Rightarrow> Some x)"
    unfolding o(4) rs1 by (simp flip: find_append sdr_entries_append)
  show ?thesis
  proof (cases "List.find P (sd_list st1)")
    case (Some e)
    then have "sdr_find_first h p st = rret (Some e, st1)" unfolding sdr_find_first_def o(1) by (simp add: find_cached_eq [OF pk(1)])
    moreover have "sd_list_itr st1 = Some itr"
      using o(1) by (auto simp: sdr_open_list_def rbind_def rret_def split: option.splits bind_splits sum.splits)
    then have "sdr_list_ok v intf st1"
      using o(2,4) nb sdr_at_ready [OF o(2)] by (auto simp: sdr_list_ok_def)
    ultimately show ?thesis using all Some find rs1 by auto
  next
    case None
    obtain es k' itr' st' where r: "sdr_find_rest h p itr st1 = rret ((List.find P (sdr_entries (drop k (v_recs v (sd_world st1)))), itr'), st')"
      "sdr_at v intf False k' itr' st'" "moved v st1 st'" "sd_list st' = sd_list st1 @ es"
      "sdr_entries (drop k (v_recs v (sd_world st1))) = es @ sdr_entries (drop k' (v_recs v (sd_world st1)))"
      using find_rest_at [OF D(2,3) o(2) pk(2)] by blast
    have "sdr_find_first h p st = rret (List.find P (sdr_entries ?rs), st'\<lparr>sd_list_itr := Some itr'\<rparr>)"
      unfolding sdr_find_first_def o(1) by (simp add: find_cached_eq [OF pk(1)] None r(1) all rs1)
    with list_ok_extended [OF o(2,4) r(2,3) nb r(4,5)] find moved_recs [OF moved_trans [OF o(3) r(3)]] show ?thesis by auto
  qed
qed

lemma find_all_at:
  assumes D: "sdr_opens h intf v" "sdr_serves h intf False limit v" "5 \<le> limit" "sdr_list_ok v intf st"
    and p: "\<forall>r \<in> set (v_recs v (sd_world st)). rec_listed r \<longrightarrow> p (rec_entry r) = Inr (Q r)"
  shows "\<exists>st'. sdr_find_all h p st = rret (Some (map rec_entry (filter Q (filter rec_listed (v_recs v (sd_world st))))), st')
           \<and> sdr_list_ok v intf st' \<and> v_recs v (sd_world st') = v_recs v (sd_world st)
           \<and> sd_list st' = sdr_entries (v_recs v (sd_world st))"
proof -
  let ?rs = "v_recs v (sd_world st)"
  define P where "P e \<longleftrightarrow> p e = Inr True" for e
  have res: "sdr_reserves h intf False v" using D(2) by (simp add: sdr_serves_def)
  have pe: "\<forall>e \<in> set (sdr_entries ?rs). p e = Inr (P e)" using p by (auto simp: sdr_entries_def P_def)
  have flt: "filter P (sdr_entries ?rs) = map rec_entry (filter Q (filter rec_listed ?rs))"
    unfolding sdr_entries_def filter_map using p by (auto simp: P_def intro!: arg_cong [where f = "map rec_entry"] filter_cong)
  obtain itr k st1 where o: "sdr_open_list h st = rret (Some itr, st1)" "sdr_at v intf False k itr st1" "moved v st st1"
    "sd_list st1 = sdr_entries (take k (v_recs v (sd_world st1)))"
    using open_list_at [OF D(1) res D(4)] by blast
  have rs1: "v_recs v (sd_world st1) = ?rs" by (rule moved_recs [OF o(3)])
  have nb: "\<not> sd_use_built_in st1" using D(4) o(3) by (simp add: sdr_list_ok_def moved_def)
  have "set (sdr_entries (take k ?rs)) \<subseteq> set (sdr_entries ?rs)" "set (sdr_entries (drop k ?rs)) \<subseteq> set (sdr_entries ?rs)"
    by (auto simp: sdr_entries_def dest: in_set_takeD in_set_dropD)
  with pe have pk: "\<forall>e \<in> set (sd_list st1). p e = Inr (P e)" "\<forall>e \<in> set (sdr_entries (drop k (v_recs v (sd_world st1)))). p e = Inr (P e)"
    unfolding o(4) rs1 by auto
  obtain itr' st' where r: "sdr_collect_rest h p (filter P (sd_list st1)) itr st1 =
      rret ((filter P (sd_list st1) @ filter P (sdr_entries (drop k (v_recs v (sd_world st1)))), itr'), st')"
    "sdr_at v intf False (length (v_recs v (sd_world st1))) itr' st'" "moved v st1 st'" "sd_list st' = sd_list st1 @ sdr_entries (drop k (v_recs v (sd_world st1)))"
    using collect_rest_at [OF D(2,3) o(2) pk(2)] by blast
  have split: "filter P (sd_list st1) @ filter P (sdr_entries (drop k ?rs)) = filter P (sdr_entries ?rs)"
    "sd_list st1 @ sdr_entries (drop k ?rs) = sdr_entries ?rs"
    unfolding o(4) rs1 by (simp_all flip: filter_append sdr_entries_append)
  have "sdr_find_all h p st = rret (Some (filter P (sdr_entries ?rs)), st'\<lparr>sd_list_itr := Some itr'\<rparr>)"
    unfolding sdr_find_all_def o(1) using r(1) split rs1 by (simp add: collect_cached_eq [OF pk(1)])
  moreover have "sdr_list_ok v intf (st'\<lparr>sd_list_itr := Some itr'\<rparr>)"
    by (rule list_ok_extended [OF o(2,4) r(2,3) nb r(4)]) simp
  moreover have "v_recs v (sd_world st') = ?rs" by (rule moved_recs [OF moved_trans [OF o(3) r(3)]])
  ultimately show ?thesis using flt r(4) split(2) rs1 by auto
qed

section \<open>The conditions of the searches\<close>

text \<open>A record that is listed is long enough for its fields and its name.\<close>

lemma listed_length:
  assumes "rec_listed r"
  shows "sdr_named_record (r_type r) = Some (c, n) \<Longrightarrow> n \<le> length (r_body r) \<and> c < length (r_body r) \<and> unat (r_body r ! c AND 0x1F) \<le> length (r_body r) - n"
    and "r_type r = 0x08 \<Longrightarrow> 11 \<le> length (r_body r)"
proof -
  have v: "ipmi_sdr_record_length_valid (r_type r) (length (r_body r)) (r_body r @ [0])"
    using assms by (auto simp: rec_listed_def rec_data_def split: if_splits)
  show "n \<le> length (r_body r) \<and> c < length (r_body r) \<and> unat (r_body r ! c AND 0x1F) \<le> length (r_body r) - n" if s: "sdr_named_record (r_type r) = Some (c, n)"
  proof -
    have "c < n" using s by (auto simp: sdr_named_record_def split: if_splits)
    with v s show ?thesis by (auto simp: ipmi_sdr_record_length_valid_def nth_append)
  qed
  show "11 \<le> length (r_body r)" if "r_type r = 0x08"
    using v that by (simp add: ipmi_sdr_record_length_valid_def sdr_named_record_def)
qed

lemma deref_entry: "i < length (r_body r) \<Longrightarrow> deref (se_record (rec_entry r)) i = Inr (r_body r ! i)"
  by (simp add: deref_def rec_entry_def sdr_entry_of_def nth_append)

lemma field_is_entry: "i < length (r_body r) \<Longrightarrow> field_is (se_record (rec_entry r)) i m b rest = (if r_body r ! i AND m = b then rest else Inr False)"
  by (simp add: field_is_def deref_entry)

lemma rec_entry_type [simp]: "se_type (rec_entry r) = r_type r"
  by (simp add: rec_entry_def sdr_entry_of_def)

lemma byte_and_ff [simp]: "(b :: byte) AND 0xFF = b"
proof -
  have "(0xFF :: byte) = - 1" by simp
  then show ?thesis by (simp only: and.right_neutral)
qed

lemma listed_nonempty: "rec_listed r \<Longrightarrow> r_body r \<noteq> []"
  using listed_length [of r] by (auto simp: rec_listed_def sdr_kept_def sdr_named_record_def)

text \<open>Sensor number, owner and type of a record.\<close>

definition rec_numtype :: "u16 \<Rightarrow> byte \<Rightarrow> byte \<Rightarrow> sdr_rec \<Rightarrow> bool" where
  "rec_numtype gen_id num type r \<longleftrightarrow>
     (r_type r = 0x01 \<or> r_type r = 0x02 \<or> r_type r = 0x03)
     \<and> r_body r ! 2 = num \<and> r_body r ! 0 = ucast (gen_id AND 0x00FF) \<and> r_body r ! 1 AND 0x03 = ucast (drop_bit 8 (gen_id AND 0x0300))
     \<and> r_body r ! (if r_type r = 0x03 then 5 else 7) = type"

definition rec_sensortype :: "byte \<Rightarrow> sdr_rec \<Rightarrow> bool" where
  "rec_sensortype type r \<longleftrightarrow> (r_type r = 0x01 \<or> r_type r = 0x02) \<and> r_body r ! 7 = type \<or> r_type r = 0x03 \<and> r_body r ! 5 = type"

definition entity_offset :: "byte \<Rightarrow> nat" where
  "entity_offset type = (if type = 0x08 then 0 else if type = 0x10 \<or> type = 0x11 \<or> type = 0x12 then 7 else 3)"

definition rec_in_entity :: "byte \<Rightarrow> byte \<Rightarrow> sdr_rec \<Rightarrow> bool" where
  "rec_in_entity eid inst r \<longleftrightarrow>
     r_body r ! entity_offset (r_type r) = eid \<and> (inst = 0x7F \<or> r_body r ! (entity_offset (r_type r) + 1) AND 0x7F = inst)"

lemma numtype_entry: "rec_listed r \<Longrightarrow> is_numtype g n t (rec_entry r) = Inr (rec_numtype g n t r)"
  using listed_length [of r] listed_nonempty [of r] by (auto simp: is_numtype_def rec_numtype_def Let_def field_is_entry sdr_named_record_def)

lemma sensortype_entry: "rec_listed r \<Longrightarrow> is_sensortype t (rec_entry r) = Inr (rec_sensortype t r)"
  using listed_length [of r] by (auto simp: is_sensortype_def rec_sensortype_def field_is_entry sdr_named_record_def)

lemma entity_entry:
  assumes "rec_listed r"
  shows "is_entity eid inst (rec_entry r) = Inr (rec_in_entity eid inst r)"
proof -
  have "sdr_kept (r_type r)" using assms by (simp add: rec_listed_def)
  then show ?thesis
    using listed_length [OF assms] listed_nonempty [OF assms]
    by (auto simp: is_entity_def rec_in_entity_def entity_offset_def Let_def field_is_entry sdr_named_record_def sdr_kept_def)
qed

text \<open>The name of a record, and when an identifier stands for it.\<close>

definition rec_name :: "nat \<Rightarrow> sdr_rec \<Rightarrow> byte list" where
  "rec_name n r = takeWhile (\<lambda>b. b \<noteq> 0) (drop n (r_body r))"

definition rec_has_id :: "string \<Rightarrow> sdr_rec \<Rightarrow> bool" where
  "rec_has_id name r \<longleftrightarrow>
     (case sdr_named_record (r_type r) of
        None \<Rightarrow> False
      | Some (c, n) \<Rightarrow>
          (r_type r = 0x01 \<or> r_type r = 0x02 \<or> r_type r = 0x03) \<and> sdr_id_num name \<noteq> -1 \<and> sdr_id_num name = int (unat (r_body r ! 2))
          \<or> (let k = max (unat (r_body r ! c AND 0x1F)) (length name) in take k (rec_name n r) = take k (map of_char name)))"

lemma mem_strncmp_eq:
  "i \<le> length body \<Longrightarrow> 0 \<notin> set s \<Longrightarrow>
     mem_strncmp (body @ [0]) i s n = Inr (take n (takeWhile (\<lambda>b. b \<noteq> 0) (drop i body)) = take n s)"
proof (induction n arbitrary: i s)
  case 0
  then show ?case by simp
next
  case (Suc n)
  show ?case
  proof (cases "i < length body")
    case True
    then have d: "drop i body = body ! i # drop (Suc i) body" by (simp add: Cons_nth_drop_Suc)
    show ?thesis
    proof (cases s)
      case Nil
      with True d show ?thesis by (auto simp: nth_append Let_def)
    next
      case (Cons a s')
      with True d Suc show ?thesis by (auto simp: nth_append Let_def)
    qed
  next
    case False
    with Suc.prems have "i = length body" by simp
    with Suc.prems show ?thesis by (cases s) (auto simp: nth_append Let_def)
  qed
qed

lemma byte_char_0: "(of_char c :: byte) = 0 \<Longrightarrow> c = CHR 0x00"
proof -
  assume "(of_char c :: byte) = 0"
  moreover have "unat (of_char c :: byte) = of_char c" by (cases c) simp
  ultimately have "(of_char c :: nat) = of_char (CHR 0x00)" by simp
  then show ?thesis by (rule of_char_eqI)
qed

lemma id_entry:
  assumes "rec_listed r" "CHR 0x00 \<notin> set name"
  shows "is_id name (rec_entry r) = Inr (rec_has_id name r)"
proof (cases "sdr_named_record (r_type r)")
  case None
  then show ?thesis by (simp add: is_id_def rec_has_id_def)
next
  case (Some cn)
  then obtain c n where cn: "sdr_named_record (r_type r) = Some (c, n)" by (cases cn) auto
  note l = listed_length(1) [OF assms(1) cn]
  have z: "0 \<notin> set (map of_char name :: byte list)"
    using assms(2) byte_char_0 by auto
  have two: "2 < length (r_body r)" using l cn by (auto simp: sdr_named_record_def split: if_splits)
  have s: "the (se_record (rec_entry r)) = r_body r @ [0]" by (simp add: rec_entry_def sdr_entry_of_def)
  show ?thesis
    using l two by (simp add: is_id_def rec_has_id_def cn deref_entry Let_def mem_strncmp_eq [OF _ z] s rec_name_def)
qed

lemma list_cache_at:
  assumes D: "sdr_opens h intf v" "sdr_serves h intf False limit v" "5 \<le> limit" "sdr_list_ok v intf st"
  shows "\<exists>st'. ipmi_sdr_list_cache h st = rret (0, st') \<and> sdr_list_ok v intf st' \<and> v_recs v (sd_world st') = v_recs v (sd_world st)
           \<and> sd_list st' = sdr_entries (v_recs v (sd_world st))"
proof -
  let ?rs = "v_recs v (sd_world st)"
  have res: "sdr_reserves h intf False v" using D(2) by (simp add: sdr_serves_def)
  obtain itr k st1 where o: "sdr_open_list h st = rret (Some itr, st1)" "sdr_at v intf False k itr st1" "moved v st st1"
    "sd_list st1 = sdr_entries (take k (v_recs v (sd_world st1)))"
    using open_list_at [OF D(1) res D(4)] by blast
  have rs1: "v_recs v (sd_world st1) = ?rs" by (rule moved_recs [OF o(3)])
  have nb: "\<not> sd_use_built_in st1" using D(4) o(3) by (simp add: sdr_list_ok_def moved_def)
  have none: "List.find (\<lambda>_. False) xs = None" for xs :: "sdr_record_list list" by (induction xs) auto
  have "\<forall>e \<in> set (sdr_entries (drop k (v_recs v (sd_world st1)))). Inr False = (Inr False :: 'a sdr_error + bool)" by simp
  from find_rest_at [OF D(2,3) o(2) this] obtain es k' itr' st' where
    r: "sdr_find_rest h (\<lambda>_. Inr False) itr st1 = rret ((None, itr'), st')" "sdr_at v intf False k' itr' st'" "moved v st1 st'"
      "sd_list st' = sd_list st1 @ es" "sdr_entries (drop k ?rs) = es @ sdr_entries (drop k' ?rs)" "k' = length ?rs"
    unfolding rs1 none by auto
  have "ipmi_sdr_list_cache h st = rret (0, st'\<lparr>sd_list_itr := Some itr'\<rparr>)"
    unfolding ipmi_sdr_list_cache_def o(1) by (simp add: r(1))
  moreover have "sdr_list_ok v intf (st'\<lparr>sd_list_itr := Some itr'\<rparr>)"
    by (rule list_ok_extended [OF o(2,4) r(2,3) nb r(4)]) (simp add: r(5) rs1)
  moreover have "v_recs v (sd_world st') = ?rs" by (rule moved_recs [OF moved_trans [OF o(3) r(3)]])
  moreover have "sd_list st' = sdr_entries ?rs"
    using r(5,6) sdr_entries_append [of "take k ?rs" "drop k ?rs"] by (simp add: r(4) o(4) rs1 del: sdr_entries_append)
  ultimately show ?thesis by auto
qed

section \<open>The records in a file\<close>

definition dump_entry :: "sdr_rec \<Rightarrow> sdr_record_list" where
  "dump_entry r = \<lparr>se_id = r_id r, se_version = r_version r, se_type = r_type r, se_length = word_of_nat (length (r_body r)),
     se_raw = Some (r_body r @ [0]), se_record = None\<rparr>"

definition sdr_file_bytes :: "sdr_rec list \<Rightarrow> byte list" where
  "sdr_file_bytes rs = concat (map sdr_bytes rs)"

lemma sdr_file_bytes_simps [simp]: "sdr_file_bytes [] = []" "sdr_file_bytes (r # rs) = sdr_bytes r @ sdr_file_bytes rs"
  by (simp_all add: sdr_file_bytes_def)

text \<open>A file that can be written: opening it makes it empty, and writing appends.\<close>

definition sdr_file_writable :: "('e, 'w) sdr_host \<Rightarrow> string \<Rightarrow> 'w sdr_view \<Rightarrow> bool" where
  "sdr_file_writable h f v \<longleftrightarrow>
     (\<forall>w. v_ok v w \<longrightarrow> (\<exists>w'. sd_open_write h f w = (True, w') \<and> keeps v w w' \<and> sd_file h f w' = Some [])) \<and>
     (\<forall>w bs old. v_ok v w \<and> sd_file h f w = Some old \<longrightarrow>
        (\<exists>w'. sd_fwrite h f bs w = (length bs, w') \<and> keeps v w w' \<and> sd_file h f w' = Some (old @ bs)))"

lemma header_entry: "sdrr_of (sdr_header_of rs k) (Some (r_body (rs ! k) @ [0])) = dump_entry (rs ! k)"
  by (simp add: sdrr_of_def dump_entry_def sdr_header_of_def)

lemma dump_read_at:
  assumes D: "sdr_serves h intf bi limit v" "5 \<le> limit" and at: "sdr_at v intf bi k itr st"
    and ok: "\<forall>r \<in> set (v_recs v (sd_world st)). rec_data r \<noteq> None"
  shows "\<exists>st'. sdr_dump_read h itr st = rret (0, st') \<and> moved v st st' \<and> sd_list st' = sd_list st @ map dump_entry (drop k (v_recs v (sd_world st)))"
  using at ok
proof (induction "length (v_recs v (sd_world st)) - k" arbitrary: k itr st rule: less_induct)
  case less
  let ?rs = "v_recs v (sd_world st)"
  have kle: "k \<le> length ?rs" "v_ok v (sd_world st)" using less.prems by (auto simp: sdr_at_def)
  show ?case
  proof (cases "k = length ?rs")
    case True
    then have "sdr_dump_read h itr st = rret (0, st)" by (subst sdr_dump_read.simps) (simp add: next_header_at_end [OF less.prems(1)])
    with True kle show ?thesis by (intro exI [of _ st]) (simp add: moved_def keeps_refl)
  next
    case False
    with kle have k: "k < length ?rs" by simp
    obtain itr1 st1 itr2 w m where s: "ipmi_sdr_get_next_header h itr st = rret ((Some (sdr_header_of ?rs k), itr1), st1)"
      "ipmi_sdr_get_record h (sdr_header_of ?rs k) itr1 st1 = rret ((rec_data (?rs ! k), itr2), st\<lparr>sd_world := w, sd_max_read_len := m\<rparr>)"
      "sdr_at v intf bi (k + 1) itr2 (st\<lparr>sd_world := w, sd_max_read_len := m\<rparr>)" "keeps v (sd_world st) w"
      by (rule sdr_at_step [OF D less.prems(1) k]) blast
    have "rec_data (?rs ! k) \<noteq> None" using less.prems(2) k by simp
    then have d: "rec_data (?rs ! k) = Some (r_body (?rs ! k) @ [0])" by (auto simp: rec_data_def split: if_splits)
    let ?st = "st\<lparr>sd_world := w, sd_max_read_len := m, sd_list := sd_list st @ [dump_entry (?rs ! k)]\<rparr>"
    have mv: "moved v st ?st" using s(4) by (simp add: moved_def)
    have unf: "sdr_dump_read h itr st = sdr_dump_read h itr2 ?st"
      by (subst sdr_dump_read.simps) (simp add: s(1,2) d sdr_list_add_def header_entry)
    have same: "v_recs v (sd_world ?st) = ?rs" by (rule moved_recs [OF mv])
    have lt: "length (v_recs v (sd_world ?st)) - (k + 1) < length ?rs - k" unfolding same using k by simp
    have at1: "sdr_at v intf bi (k + 1) itr2 ?st" using s(3) by simp
    have ok1: "\<forall>r \<in> set (v_recs v (sd_world ?st)). rec_data r \<noteq> None" unfolding same by (rule less.prems(2))
    from less.hyps [OF lt at1 ok1] obtain st' where r: "sdr_dump_read h itr2 ?st = rret (0, st')" "moved v ?st st'"
      "sd_list st' = sd_list ?st @ map dump_entry (drop (k + 1) ?rs)"
      unfolding same by (elim exE conjE) (rule that; assumption)
    have "sd_list st' = sd_list st @ map dump_entry (drop k ?rs)" using r(3) k by (simp add: Cons_nth_drop_Suc [symmetric])
    with unf r(1) moved_trans [OF mv r(2)] show ?thesis by (intro exI [of _ st'] conjI) simp_all
  qed
qed

lemma dump_write_all:
  assumes F: "sdr_file_writable h f v" and "v_ok v (sd_world st)" "sd_file h f (sd_world st) = Some old"
    and "\<forall>r \<in> set rs. length (r_body r) \<le> 251"
  shows "\<exists>st'. sdr_dump_write h f (map dump_entry rs) st = rret (0, st') \<and> moved v st st' \<and> sd_list st' = sd_list st
           \<and> sd_file h f (sd_world st') = Some (old @ sdr_file_bytes rs)"
  using assms(2-)
proof (induction rs arbitrary: st old)
  case Nil
  then show ?case by (auto simp: moved_def keeps_refl)
next
  case (Cons r rs)
  let ?e = "dump_entry r"
  have len: "unat (se_length ?e) = length (r_body r)" "length (sdr_file_header ?e) = 5"
    using Cons.prems(3) by (simp_all add: dump_entry_def unat_of_nat take_bit_nat_def sdr_file_header_def)
  obtain w1 where w1: "sd_fwrite h f (sdr_file_header ?e) (sd_world st) = (length (sdr_file_header ?e), w1)" "keeps v (sd_world st) w1"
    "sd_file h f w1 = Some (old @ sdr_file_header ?e)"
    using F Cons.prems(1,2) unfolding sdr_file_writable_def by blast
  obtain w2 where w2: "sd_fwrite h f (r_body r) w1 = (length (r_body r), w2)" "keeps v w1 w2" "sd_file h f w2 = Some ((old @ sdr_file_header ?e) @ r_body r)"
    using F w1(2,3) unfolding sdr_file_writable_def keeps_def by blast
  have k: "keeps v (sd_world st) w2" by (rule keeps_trans [OF w1(2) w2(2)])
  have unf: "sdr_dump_write h f (map dump_entry (r # rs)) st = sdr_dump_write h f (map dump_entry rs) (st\<lparr>sd_world := w2\<rparr>)"
    using w1(1) w2(1) len by (simp add: dump_entry_def)
  have "v_ok v (sd_world (st\<lparr>sd_world := w2\<rparr>))" using k by (simp add: keeps_def)
  with Cons.IH [of "st\<lparr>sd_world := w2\<rparr>"] w2(3) Cons.prems(3) obtain st' where
    r: "sdr_dump_write h f (map dump_entry rs) (st\<lparr>sd_world := w2\<rparr>) = rret (0, st')" "moved v (st\<lparr>sd_world := w2\<rparr>) st'" "sd_list st' = sd_list st"
      "sd_file h f (sd_world st') = Some (((old @ sdr_file_header ?e) @ r_body r) @ sdr_file_bytes rs)" by auto
  have "moved v st st'" using r(2) k by (auto simp: moved_def intro: keeps_trans)
  moreover have "sdr_file_header ?e @ r_body r = sdr_bytes r" by (simp add: sdr_file_header_def sdr_bytes_def dump_entry_def le16_def)
  then have "old @ sdr_bytes r @ sdr_file_bytes rs = ((old @ sdr_file_header ?e) @ r_body r) @ sdr_file_bytes rs" by simp
  ultimately show ?case using unf r by (intro exI [of _ st']) simp
qed

lemma dump_at:
  assumes D: "sdr_opens h intf v" "sdr_serves h intf False limit v" "5 \<le> limit" "sdr_ready v intf st" "\<not> sd_use_built_in st"
    and "sd_list st = []" "\<forall>r \<in> set (v_recs v (sd_world st)). rec_data r \<noteq> None" "sdr_file_writable h f v"
  shows "\<exists>st'. ipmi_sdr_dump_bin h f st = rret (0, st') \<and> sd_file h f (sd_world st') = Some (sdr_file_bytes (v_recs v (sd_world st)))"
proof -
  let ?rs = "v_recs v (sd_world st)"
  have res: "sdr_reserves h intf False v" using D(2) by (simp add: sdr_serves_def)
  obtain itr st1 where s: "ipmi_sdr_start h False st = rret (Some itr, st1)" "sdr_at v intf False 0 itr st1" "moved v st st1" "sd_list st1 = []"
    using sdr_start_opens [OF D(1) res D(4,5)] assms(6) by auto
  have rs1: "v_recs v (sd_world st1) = ?rs" by (rule moved_recs [OF s(3)])
  obtain st2 where d: "sdr_dump_read h itr st1 = rret (0, st2)" "moved v st1 st2" "sd_list st2 = map dump_entry ?rs"
    using dump_read_at [OF D(2,3) s(2)] assms(7) s(4) unfolding rs1 by auto
  have ok2: "v_ok v (sd_world st2)" using d(2) by (simp add: moved_def keeps_def)
  obtain w where w: "sd_open_write h f (sd_world st2) = (True, w)" "keeps v (sd_world st2) w" "sd_file h f w = Some []"
    using assms(8) ok2 unfolding sdr_file_writable_def by blast
  let ?st = "st2\<lparr>sd_world := w\<rparr>"
  have "v_ok v (sd_world ?st)" "sd_file h f (sd_world ?st) = Some []" "\<forall>r \<in> set ?rs. length (r_body r) \<le> 251"
    using w D(4) by (auto simp: keeps_def sdr_ready_def wf_repo_def)
  from dump_write_all [OF assms(8) this] obtain st' where
    r: "sdr_dump_write h f (map dump_entry ?rs) ?st = rret (0, st')" "sd_file h f (sd_world st') = Some (sdr_file_bytes ?rs)" by auto
  have "ipmi_sdr_dump_bin h f st = rret (0, st')"
    unfolding ipmi_sdr_dump_bin_def s(1) by (simp add: d(1,3) w(1) r(1) Let_def)
  with r(2) show ?thesis by blast
qed

text \<open>The parts of a record at the front of the file.\<close>

lemma sdr_bytes_parts:
  assumes "length (r_body r) \<le> 251"
  shows "of_le16 ((sdr_bytes r @ t) ! 0) ((sdr_bytes r @ t) ! 1) = r_id r" "(sdr_bytes r @ t) ! 2 = r_version r" "(sdr_bytes r @ t) ! 3 = r_type r"
    "unat ((sdr_bytes r @ t) ! 4) = length (r_body r)" "(sdr_bytes r @ t) ! 4 = word_of_nat (length (r_body r))"
    "drop 5 (sdr_bytes r @ t) = r_body r @ t" "\<not> length (sdr_bytes r @ t) < 5" "sdr_bytes r @ t \<noteq> []"
  using assms by (simp_all add: sdr_bytes_def le16_def of_le16_le16 unat_of_nat take_bit_nat_def)

lemma body_length_byte: "length (r_body r) \<le> 251 \<Longrightarrow> unat (word_of_nat (length (r_body r)) :: byte) = length (r_body r)"
  by (simp add: unat_of_nat take_bit_nat_def)

lemma sdr_bytes_not_Nil [simp]: "sdr_bytes r \<noteq> []"
  by (simp add: sdr_bytes_def)

lemma file_loop_reads:
  assumes "\<forall>r \<in> set rs. sdr_version_ok (r_version r) \<and> 1 \<le> length (r_body r) \<and> length (r_body r) \<le> 251 \<and> rec_data r \<noteq> None"
  shows "sdr_file_loop (sdr_file_bytes rs) ret acc = (ret, acc @ sdr_entries rs)"
  using assms
proof (induction rs arbitrary: acc)
  case Nil
  then show ?case by (simp add: sdr_file_loop.simps)
next
  case (Cons r rs)
  have r: "sdr_version_ok (r_version r)" "1 \<le> length (r_body r)" "length (r_body r) \<le> 251" "rec_data r \<noteq> None" using Cons.prems by auto
  have v: "ipmi_sdr_record_length_valid (r_type r) (length (r_body r)) (r_body r @ [0])" using r(4) by (auto simp: rec_data_def split: if_splits)
  have ne: "r_body r \<noteq> []" using r(2) by auto
  note p = sdr_bytes_parts [OF r(3), of "sdr_file_bytes rs"]
  show ?case
    using Cons r(4)
    by (subst sdr_file_loop.simps)
      (simp add: p [simplified] p(6-8) Let_def r(1) v ne body_length_byte [OF r(3)] rec_listed_def rec_entry_def sdr_list_add_def)
qed

definition file_entry :: "sdr_rec \<Rightarrow> sdr_record_list" where
  "file_entry r = (dump_entry r)\<lparr>se_raw := Some (r_body r)\<rparr>"

lemma read_records_reads:
  assumes "\<forall>r \<in> set rs. 1 \<le> length (r_body r) \<and> length (r_body r) \<le> 251"
  shows "sdr_read_records_loop (sdr_file_bytes rs) q = Some (q @ map file_entry rs)"
  using assms
proof (induction rs arbitrary: q)
  case Nil
  then show ?case by (simp add: sdr_read_records_loop.simps)
next
  case (Cons r rs)
  have r: "1 \<le> length (r_body r)" "length (r_body r) \<le> 251" using Cons.prems by auto
  have ne: "r_body r \<noteq> []" using r(1) by auto
  note p = sdr_bytes_parts [OF r(2), of "sdr_file_bytes rs"]
  show ?case
    using Cons
    by (subst sdr_read_records_loop.simps)
      (simp add: p [simplified] p(6-8) Let_def ne body_length_byte [OF r(2)] file_entry_def dump_entry_def)
qed

section \<open>Filling a repository\<close>

text \<open>
  A view of a controller whose repository is written: records, the record that is being
  added (its identifier and the bytes so far), the valid reservation, and how often it will
  still answer that an erasure goes on.
\<close>

record 'w sdr_store =
  s_ok :: "'w \<Rightarrow> bool"
  s_recs :: "'w \<Rightarrow> sdr_rec list"
  s_part :: "'w \<Rightarrow> (u16 \<times> byte list) option"
  s_resv :: "'w \<Rightarrow> u16"
  s_erasing :: "'w \<Rightarrow> nat"

definition rec_of_bytes :: "u16 \<Rightarrow> byte list \<Rightarrow> sdr_rec" where
  "rec_of_bytes rid bs = \<lparr>r_id = rid, r_version = bs ! 2, r_type = bs ! 3, r_body = drop 5 bs\<rparr>"

text \<open>
  The controller gives the record an identifier of its own, in the answer to the first part. A
  record is stored when its last part has come and it is as long as its header says.
\<close>

definition sdr_stores :: "('e, 'w) sdr_host \<Rightarrow> ipmi_intf \<Rightarrow> 'w sdr_store \<Rightarrow> bool" where
  "sdr_stores h intf s \<longleftrightarrow>
     (\<forall>w. s_ok s w \<longrightarrow>
        (\<exists>x w'. sd_sendrecv h intf (mk_rq 0x0A 0x22 []) w = Inr (Some (rsp_of 0 (le16 x)), w') \<and> s_ok s w' \<and> s_resv s w' = x \<and> s_recs s w' = s_recs s w)) \<and>
     (\<forall>w. s_ok s w \<longrightarrow>
        (\<exists>b w'. sd_sendrecv h intf (mk_rq 0x0A 0x27 (le16 (s_resv s w) @ [0x43, 0x4C, 0x52, 0xAA])) w = Inr (Some (rsp_of 0 [b]), w') \<and> s_ok s w'
           \<and> s_resv s w' = s_resv s w \<and> s_recs s w' = [] \<and> (b AND 1 = 1 \<or> s_erasing s w' \<le> 3))) \<and>
     (\<forall>w. s_ok s w \<longrightarrow>
        (\<exists>b w'. sd_sendrecv h intf (mk_rq 0x0A 0x27 (le16 (s_resv s w) @ [0x43, 0x4C, 0x52, 0])) w = Inr (Some (rsp_of 0 [b]), w') \<and> s_ok s w'
           \<and> s_resv s w' = s_resv s w \<and> s_recs s w' = s_recs s w \<and> (b AND 1 = 1 \<or> s_erasing s w' < s_erasing s w))) \<and>
     (\<forall>w d. s_ok s w \<and> length d = 5 \<longrightarrow>
        (\<exists>i w'. sd_sendrecv h intf (sdr_add_rq (s_resv s w) 0 0 0 d) w = Inr (Some (rsp_of 0 (le16 i)), w') \<and> s_ok s w'
           \<and> s_resv s w' = s_resv s w \<and> s_recs s w' = s_recs s w \<and> s_part s w' = Some (i, d))) \<and>
     (\<forall>w i bs d. s_ok s w \<and> s_part s w = Some (i, bs) \<and> length bs + length d < 5 + unat (bs ! 4) \<longrightarrow>
        (\<exists>w'. sd_sendrecv h intf (sdr_add_rq (s_resv s w) i (word_of_nat (length bs)) 0 d) w = Inr (Some (rsp_of 0 (le16 i)), w') \<and> s_ok s w'
           \<and> s_resv s w' = s_resv s w \<and> s_recs s w' = s_recs s w \<and> s_part s w' = Some (i, bs @ d))) \<and>
     (\<forall>w i bs d. s_ok s w \<and> s_part s w = Some (i, bs) \<and> length bs + length d = 5 + unat (bs ! 4) \<longrightarrow>
        (\<exists>w'. sd_sendrecv h intf (sdr_add_rq (s_resv s w) i (word_of_nat (length bs)) 1 d) w = Inr (Some (rsp_of 0 (le16 i)), w') \<and> s_ok s w'
           \<and> s_resv s w' = s_resv s w \<and> s_recs s w' = s_recs s w @ [rec_of_bytes i (bs @ d)]))"

lemma stores_reserve:
  "sdr_stores h intf s \<Longrightarrow> s_ok s w \<Longrightarrow>
     \<exists>x w'. sd_sendrecv h intf (mk_rq 0x0A 0x22 []) w = Inr (Some (rsp_of 0 (le16 x)), w') \<and> s_ok s w' \<and> s_resv s w' = x \<and> s_recs s w' = s_recs s w"
  unfolding sdr_stores_def by blast

lemma stores_erase:
  "sdr_stores h intf s \<Longrightarrow> s_ok s w \<Longrightarrow>
     \<exists>b w'. sd_sendrecv h intf (mk_rq 0x0A 0x27 (le16 (s_resv s w) @ [0x43, 0x4C, 0x52, 0xAA])) w = Inr (Some (rsp_of 0 [b]), w') \<and> s_ok s w'
       \<and> s_resv s w' = s_resv s w \<and> s_recs s w' = [] \<and> (b AND 1 = 1 \<or> s_erasing s w' \<le> 3)"
  unfolding sdr_stores_def by blast

lemma stores_erasing:
  "sdr_stores h intf s \<Longrightarrow> s_ok s w \<Longrightarrow>
     \<exists>b w'. sd_sendrecv h intf (mk_rq 0x0A 0x27 (le16 (s_resv s w) @ [0x43, 0x4C, 0x52, 0])) w = Inr (Some (rsp_of 0 [b]), w') \<and> s_ok s w'
       \<and> s_resv s w' = s_resv s w \<and> s_recs s w' = s_recs s w \<and> (b AND 1 = 1 \<or> s_erasing s w' < s_erasing s w)"
  unfolding sdr_stores_def by blast

lemma stores_first:
  "sdr_stores h intf s \<Longrightarrow> s_ok s w \<Longrightarrow> length d = 5 \<Longrightarrow>
     \<exists>i w'. sd_sendrecv h intf (sdr_add_rq (s_resv s w) 0 0 0 d) w = Inr (Some (rsp_of 0 (le16 i)), w') \<and> s_ok s w'
       \<and> s_resv s w' = s_resv s w \<and> s_recs s w' = s_recs s w \<and> s_part s w' = Some (i, d)"
  unfolding sdr_stores_def by blast

lemma stores_part:
  "sdr_stores h intf s \<Longrightarrow> s_ok s w \<Longrightarrow> s_part s w = Some (i, bs) \<Longrightarrow> length bs + length d < 5 + unat (bs ! 4) \<Longrightarrow>
     \<exists>w'. sd_sendrecv h intf (sdr_add_rq (s_resv s w) i (word_of_nat (length bs)) 0 d) w = Inr (Some (rsp_of 0 (le16 i)), w') \<and> s_ok s w'
       \<and> s_resv s w' = s_resv s w \<and> s_recs s w' = s_recs s w \<and> s_part s w' = Some (i, bs @ d)"
  unfolding sdr_stores_def by blast

lemma stores_last:
  "sdr_stores h intf s \<Longrightarrow> s_ok s w \<Longrightarrow> s_part s w = Some (i, bs) \<Longrightarrow> length bs + length d = 5 + unat (bs ! 4) \<Longrightarrow>
     \<exists>w'. sd_sendrecv h intf (sdr_add_rq (s_resv s w) i (word_of_nat (length bs)) 1 d) w = Inr (Some (rsp_of 0 (le16 i)), w') \<and> s_ok s w'
       \<and> s_resv s w' = s_resv s w \<and> s_recs s w' = s_recs s w @ [rec_of_bytes i (bs @ d)]"
  unfolding sdr_stores_def by blast

lemma partial_send_eq:
  "sd_sendrecv h (sd_intf st) req (sd_world st) = Inr (Some (rsp_of 0 (le16 i)), w) \<Longrightarrow> partial_send h req st = rret (Some i, st\<lparr>sd_world := w\<rparr>)"
  by (simp add: partial_send_def sdr_send_eq)

lemma add_loop_stores:
  assumes S: "sdr_stores h intf s"
    and "sd_intf st = intf" "s_ok s (sd_world st)" "x = s_resv s (sd_world st)"
    and "length hdr = 5" "unat (hdr ! 4) = length body" "length body \<le> 251"
    and "s_part s (sd_world st) = Some (rid, hdr @ take i body)" "i < length body"
  shows "\<exists>w. sdr_add_loop h x body (length body) i rid st = rret (0, st\<lparr>sd_world := w\<rparr>) \<and> s_ok s w
           \<and> s_recs s w = s_recs s (sd_world st) @ [rec_of_bytes rid (hdr @ body)]"
  using assms(2-)
proof (induction "length body - i" arbitrary: i st rule: less_induct)
  case less
  let ?bs = "hdr @ take i body" and ?w = "sd_world st"
  have lb: "length ?bs = i + 5" "?bs ! 4 = hdr ! 4" using less.prems by (simp_all add: nth_append)
  show ?case
  proof (cases "length body - i \<le> sdr_max_write_len")
    case True
    let ?d = "drop i body"
    have "length ?bs + length ?d = 5 + unat (?bs ! 4)" using less.prems lb by simp
    from stores_last [OF S less.prems(2,7) this, unfolded lb(1), folded less.prems(3)]
    obtain w where w: "sd_sendrecv h intf (sdr_add_rq x rid (word_of_nat (i + 5)) 1 ?d) ?w = Inr (Some (rsp_of 0 (le16 rid)), w)" "s_ok s w"
      "s_recs s w = s_recs s ?w @ [rec_of_bytes rid (?bs @ ?d)]"
      by blast
    have "partial_send h (sdr_add_rq x rid (word_of_nat (i + 5)) 1 ?d) st = rret (Some rid, st\<lparr>sd_world := w\<rparr>)"
      using w(1) less.prems(1) by (simp add: partial_send_eq)
    then have "sdr_add_loop h x body (length body) i rid st = sdr_add_loop h x body (length body) (length body) rid (st\<lparr>sd_world := w\<rparr>)"
      using True less.prems(8) by (subst sdr_add_loop.simps) (simp add: Let_def del: of_nat_add)
    also have "\<dots> = rret (0, st\<lparr>sd_world := w\<rparr>)" by (subst sdr_add_loop.simps) simp
    finally show ?thesis using w(2,3) by (intro exI [of _ w]) simp
  next
    case False
    let ?n = sdr_max_write_len
    let ?d = "take ?n (drop i body)"
    have n: "i + ?n < length body" "0 < ?n" using False by (simp_all add: sdr_max_write_len_def)
    have "length ?bs + length ?d < 5 + unat (?bs ! 4)" using less.prems lb n by simp
    from stores_part [OF S less.prems(2,7) this, unfolded lb(1)]
    obtain w where w: "sd_sendrecv h intf (sdr_add_rq x rid (word_of_nat (i + 5)) 0 ?d) ?w = Inr (Some (rsp_of 0 (le16 rid)), w)" "s_ok s w"
      "s_resv s w = s_resv s ?w" "s_recs s w = s_recs s ?w" "s_part s w = Some (rid, ?bs @ ?d)"
      unfolding less.prems(3) by blast
    have "partial_send h (sdr_add_rq x rid (word_of_nat (i + 5)) 0 ?d) st = rret (Some rid, st\<lparr>sd_world := w\<rparr>)"
      using w(1) less.prems(1) by (simp add: partial_send_eq)
    then have unf: "sdr_add_loop h x body (length body) i rid st = sdr_add_loop h x body (length body) (i + ?n) rid (st\<lparr>sd_world := w\<rparr>)"
      using False n less.prems(8) by (subst sdr_add_loop.simps) (simp add: Let_def del: of_nat_add)
    have "hdr @ take (i + ?n) body = ?bs @ ?d" by (simp add: take_add)
    with less.hyps [of "i + ?n" "st\<lparr>sd_world := w\<rparr>"] less.prems w n unf show ?thesis by auto
  qed
qed

text \<open>Records with the same contents: the identifiers are the controller's.\<close>

definition rec_contents :: "sdr_rec \<Rightarrow> byte \<times> byte \<times> byte list" where
  "rec_contents r = (r_version r, r_type r, r_body r)"

lemma add_record_stores:
  assumes S: "sdr_stores h intf s" and "sd_intf st = intf" "s_ok s (sd_world st)" "1 \<le> length (r_body r)" "length (r_body r) \<le> 251"
  shows "\<exists>rid w. ipmi_sdr_add_record h (file_entry r) st = rret (0, st\<lparr>sd_world := w\<rparr>) \<and> s_ok s w
           \<and> s_recs s w = s_recs s (sd_world st) @ [r\<lparr>r_id := rid\<rparr>]"
proof -
  let ?w = "sd_world st" and ?hdr = "take 5 (sdr_bytes r)"
  have hdr: "[ucast (se_id (file_entry r)), ucast (drop_bit 8 (se_id (file_entry r))), se_version (file_entry r), se_type (file_entry r), se_length (file_entry r)] = ?hdr"
    by (simp add: file_entry_def dump_entry_def sdr_bytes_def le16_def)
  have len: "unat (se_length (file_entry r)) = length (r_body r)" "se_raw (file_entry r) = Some (r_body r)" "r_body r \<noteq> []"
    using assms(4,5) body_length_byte [OF assms(5)] by (auto simp: file_entry_def dump_entry_def)
  have h4: "unat (?hdr ! 4) = length (r_body r)" "length ?hdr = 5" using body_length_byte [OF assms(5)] by (simp_all add: sdr_bytes_def le16_def)
  obtain x w1 where a: "sd_sendrecv h intf (mk_rq 0x0A 0x22 []) ?w = Inr (Some (rsp_of 0 (le16 x)), w1)" "s_ok s w1" "s_resv s w1 = x" "s_recs s w1 = s_recs s ?w"
    using stores_reserve [OF S assms(3)] by auto
  obtain i w2 where b: "sd_sendrecv h intf (sdr_add_rq (s_resv s w1) 0 0 0 ?hdr) w1 = Inr (Some (rsp_of 0 (le16 i)), w2)" "s_ok s w2"
    "s_resv s w2 = s_resv s w1" "s_recs s w2 = s_recs s w1" "s_part s w2 = Some (i, ?hdr)"
    using stores_first [OF S a(2) h4(2)] by auto
  have "\<exists>w. sdr_add_loop h x (r_body r) (length (r_body r)) 0 i (st\<lparr>sd_world := w2\<rparr>) = rret (0, st\<lparr>sd_world := w2\<rparr>\<lparr>sd_world := w\<rparr>) \<and> s_ok s w
      \<and> s_recs s w = s_recs s (sd_world (st\<lparr>sd_world := w2\<rparr>)) @ [rec_of_bytes i (?hdr @ r_body r)]"
    by (rule add_loop_stores [OF S]) (use a b assms len h4 in auto)
  then obtain w where c: "sdr_add_loop h x (r_body r) (length (r_body r)) 0 i (st\<lparr>sd_world := w2\<rparr>) = rret (0, st\<lparr>sd_world := w\<rparr>)" "s_ok s w"
    "s_recs s w = s_recs s w2 @ [rec_of_bytes i (?hdr @ r_body r)]" by auto
  have "ipmi_sdr_get_reservation h False st = rret (Some x, st\<lparr>sd_world := w1\<rparr>)"
    using a(1) assms(2) by (simp add: ipmi_sdr_get_reservation_def storage_or_se_def sdr_send_eq)
  moreover have "partial_send h (sdr_add_rq x 0 0 0 ?hdr) (st\<lparr>sd_world := w1\<rparr>) = rret (Some i, st\<lparr>sd_world := w2\<rparr>)"
    using b(1) a(3) assms(2) partial_send_eq [of h "st\<lparr>sd_world := w1\<rparr>"] by simp
  ultimately have "ipmi_sdr_add_record h (file_entry r) st = rret (0, st\<lparr>sd_world := w\<rparr>)"
    unfolding ipmi_sdr_add_record_def Let_def len hdr using len(3) c(1) by simp
  moreover have "rec_of_bytes i (?hdr @ r_body r) = r\<lparr>r_id := i\<rparr>" by (simp add: rec_of_bytes_def sdr_bytes_def le16_def)
  ultimately show ?thesis using a(4) b(4) c(2,3) by auto
qed

lemma add_records_store:
  assumes S: "sdr_stores h intf s" and "sd_intf st = intf" "s_ok s (sd_world st)"
    and "\<forall>r \<in> set rs. 1 \<le> length (r_body r) \<and> length (r_body r) \<le> 251"
  shows "\<exists>w. sdr_add_records h (map file_entry rs) 0 st = rret (0, st\<lparr>sd_world := w\<rparr>)
           \<and> map rec_contents (s_recs s w) = map rec_contents (s_recs s (sd_world st) @ rs)"
  using assms(2-)
proof (induction rs arbitrary: st)
  case Nil
  then show ?case by (intro exI [of _ "sd_world st"]) simp
next
  case (Cons r rs)
  obtain rid w1 where a: "ipmi_sdr_add_record h (file_entry r) st = rret (0, st\<lparr>sd_world := w1\<rparr>)" "s_ok s w1" "s_recs s w1 = s_recs s (sd_world st) @ [r\<lparr>r_id := rid\<rparr>]"
    using add_record_stores [OF S Cons.prems(1,2), of r] Cons.prems(3) by auto
  obtain w where b: "sdr_add_records h (map file_entry rs) 0 (st\<lparr>sd_world := w1\<rparr>) = rret (0, st\<lparr>sd_world := w\<rparr>)"
    "map rec_contents (s_recs s w) = map rec_contents (s_recs s w1 @ rs)"
    using Cons.IH [of "st\<lparr>sd_world := w1\<rparr>"] Cons.prems a(2) by auto
  have "sdr_add_records h (map file_entry (r # rs)) 0 st = rret (0, st\<lparr>sd_world := w\<rparr>)" using a(1) b(1) by simp
  moreover have "rec_contents (r\<lparr>r_id := rid\<rparr>) = rec_contents r" by (simp add: rec_contents_def)
  ultimately show ?case using b(2) by (intro exI [of _ w]) (simp add: a(3))
qed

lemma clear_tries_erase:
  assumes S: "sdr_stores h intf s" and "sd_intf st = intf" "s_ok s (sd_world st)" "s_resv s (sd_world st) = x" "s_erasing s (sd_world st) < n"
  shows "\<exists>w. sdr_clear_tries h x n 0 st = rret (0, st\<lparr>sd_world := w\<rparr>) \<and> s_ok s w \<and> s_recs s w = s_recs s (sd_world st)"
  using assms(2-)
proof (induction n arbitrary: st)
  case 0
  then show ?case by simp
next
  case (Suc n)
  from stores_erasing [OF S Suc.prems(2)] obtain b w where
    e: "sd_sendrecv h intf (mk_rq 0x0A 0x27 (le16 x @ [0x43, 0x4C, 0x52, 0])) (sd_world st) = Inr (Some (rsp_of 0 [b]), w)" "s_ok s w"
      "s_resv s w = x" "s_recs s w = s_recs s (sd_world st)" "b AND 1 = 1 \<or> s_erasing s w < s_erasing s (sd_world st)"
    unfolding Suc.prems(3) by blast
  have snd: "sdr_send h (mk_rq 0x0A 0x27 (le16 x @ [0x43, 0x4C, 0x52, 0])) st = rret (Some (rsp_of 0 [b]), st\<lparr>sd_world := w\<rparr>)"
    using e(1) Suc.prems(1) by (simp add: sdr_send_eq)
  have bb: "rsp_byte (rsp_of 0 [b]) 0 = b" by (simp add: rsp_byte_def)
  show ?case
  proof (cases "b AND 1 = 1")
    case True
    with snd e show ?thesis by (intro exI [of _ w]) (simp add: bb)
  next
    case False
    with snd have "sdr_clear_tries h x (Suc n) 0 st = sdr_clear_tries h x n 0 (st\<lparr>sd_world := w\<rparr>)" by (simp add: bb)
    moreover have "s_erasing s w < n" using False e(5) Suc.prems(4) by auto
    ultimately show ?thesis using Suc.IH [of "st\<lparr>sd_world := w\<rparr>"] Suc.prems(1) e by auto
  qed
qed

lemma repo_clear_erases:
  assumes S: "sdr_stores h intf s" and "sd_intf st = intf" "s_ok s (sd_world st)"
  shows "\<exists>w. ipmi_sdr_repo_clear h st = rret (0, st\<lparr>sd_world := w\<rparr>) \<and> s_ok s w \<and> s_recs s w = []"
proof -
  obtain x w1 where a: "sd_sendrecv h intf (mk_rq 0x0A 0x22 []) (sd_world st) = Inr (Some (rsp_of 0 (le16 x)), w1)" "s_ok s w1" "s_resv s w1 = x"
    using stores_reserve [OF S assms(3)] by auto
  have r: "ipmi_sdr_get_reservation h False st = rret (Some x, st\<lparr>sd_world := w1\<rparr>)"
    using a(1) assms(2) by (simp add: ipmi_sdr_get_reservation_def storage_or_se_def sdr_send_eq)
  from stores_erase [OF S a(2)] obtain b w2 where
    e: "sd_sendrecv h intf (mk_rq 0x0A 0x27 (le16 x @ [0x43, 0x4C, 0x52, 0xAA])) w1 = Inr (Some (rsp_of 0 [b]), w2)" "s_ok s w2" "s_resv s w2 = x" "s_recs s w2 = []"
      "b AND 1 = 1 \<or> s_erasing s w2 \<le> 3"
    unfolding a(3) by blast
  have snd: "sdr_send h (mk_rq 0x0A 0x27 (le16 x @ [0x43, 0x4C, 0x52, 0xAA])) (st\<lparr>sd_world := w1\<rparr>) = rret (Some (rsp_of 0 [b]), st\<lparr>sd_world := w2\<rparr>)"
    using e(1) assms(2) sdr_send_eq [of h "st\<lparr>sd_world := w1\<rparr>"] by simp
  have bb: "rsp_byte (rsp_of 0 [b]) 0 = b" by (simp add: rsp_byte_def)
  have step: "ipmi_sdr_repo_clear h st = (if b AND 1 = 1 then rret (0, st\<lparr>sd_world := w2\<rparr>) else sdr_clear_tries h x 4 0 (st\<lparr>sd_world := w2\<rparr>))"
    unfolding ipmi_sdr_repo_clear_def r using snd by (simp add: numeral_eq_Suc bb)
  show ?thesis
  proof (cases "b AND 1 = 1")
    case True
    with step e show ?thesis by auto
  next
    case False
    with e(5) have "s_erasing s (sd_world (st\<lparr>sd_world := w2\<rparr>)) < 4" by simp
    with clear_tries_erase [OF S, of "st\<lparr>sd_world := w2\<rparr>" x 4] step False e assms(2) show ?thesis by auto
  qed
qed

lemma fill_from_file:
  assumes S: "sdr_stores h intf s" and "sd_intf st = intf" "s_ok s (sd_world st)"
    and "sd_file h f (sd_world st) = Some (sdr_file_bytes rs)" "\<forall>r \<in> set rs. 1 \<le> length (r_body r) \<and> length (r_body r) \<le> 251"
  shows "\<exists>w. ipmi_sdr_add_from_file h f st = rret (0, st\<lparr>sd_world := w\<rparr>) \<and> map rec_contents (s_recs s w) = map rec_contents rs"
proof -
  obtain w1 where c: "ipmi_sdr_repo_clear h st = rret (0, st\<lparr>sd_world := w1\<rparr>)" "s_ok s w1" "s_recs s w1 = []"
    using repo_clear_erases [OF S assms(2,3)] by blast
  obtain w where a: "sdr_add_records h (map file_entry rs) 0 (st\<lparr>sd_world := w1\<rparr>) = rret (0, st\<lparr>sd_world := w\<rparr>)"
    "map rec_contents (s_recs s w) = map rec_contents rs"
    using add_records_store [OF S, of "st\<lparr>sd_world := w1\<rparr>" rs] assms(2,5) c by auto
  have "ipmi_sdr_read_records h f st = Some (map file_entry rs)"
    using assms(4) read_records_reads [OF assms(5), of "[]"] by (simp add: ipmi_sdr_read_records_def)
  then have "ipmi_sdr_add_from_file h f st = rret (0, st\<lparr>sd_world := w\<rparr>)"
    using c(1) a(1) by (simp add: ipmi_sdr_add_from_file_def)
  with a(2) show ?thesis by blast
qed

section \<open>Examples of controllers\<close>

text \<open>
  A controller with a repository and a file, which cancels reservations a given number of
  times and returns at most \<open>lim\<close> bytes at once.
\<close>

record repo_world =
  t_recs :: "sdr_rec list"
  t_resv :: u16
  t_cancels :: nat
  t_part :: "(u16 \<times> byte list) option"
  t_file :: "byte list option"

definition rec_index :: "sdr_rec list \<Rightarrow> u16 \<Rightarrow> nat" where
  "rec_index rs rid = (if rid = 0 then 0 else length (takeWhile (\<lambda>r. r_id r \<noteq> rid) rs))"

definition repo_get :: "nat \<Rightarrow> byte list \<Rightarrow> repo_world \<Rightarrow> ipmi_rsp \<times> repo_world" where
  "repo_get lim d w =
     (let k = rec_index (t_recs w) (of_le16 (d ! 2) (d ! 3)); off = unat (d ! 4); n = unat (d ! 5)
      in if of_le16 (d ! 0) (d ! 1) \<noteq> t_resv w then (rsp_of 0xC5 [], w)
         else if t_cancels w > 0 then (rsp_of 0xC5 [], w\<lparr>t_cancels := t_cancels w - 1, t_resv := t_resv w + 1\<rparr>)
         else if n > lim then (rsp_of 0xCA [], w)
         else (rsp_of 0 (le16 (next_id (t_recs w) k) @ take n (drop off (sdr_bytes (t_recs w ! k)))), w))"

definition repo_add :: "byte list \<Rightarrow> repo_world \<Rightarrow> ipmi_rsp \<times> repo_world" where
  "repo_add d w =
     (let data = drop 6 d
      in if of_le16 (d ! 2) (d ! 3) = 0
         then (let i = word_of_nat (length (t_recs w) mod 65535) + 1 in (rsp_of 0 (le16 i), w\<lparr>t_part := Some (i, data)\<rparr>))
         else (case t_part w of
                 None \<Rightarrow> (rsp_of 0xCB [], w)
               | Some (i, bs) \<Rightarrow>
                   (rsp_of 0 (le16 i), if d ! 5 = 1 then w\<lparr>t_recs := t_recs w @ [rec_of_bytes i (bs @ data)], t_part := None\<rparr>
                                       else w\<lparr>t_part := Some (i, bs @ data)\<rparr>)))"

definition repo_device :: "nat \<Rightarrow> ipmi_intf \<Rightarrow> (unit, repo_world) sendrecv" where
  "repo_device lim intf r w =
     (let d = rq_data r; some = (\<lambda>(a, b). Inr (Some a, b))
      in if rq_netfn r = 0x06 then some (rsp_of 0 (replicate 15 0), w)
         else if rq_cmd r = 0x20 then some (rsp_of 0 (0x51 # le16 (word_of_nat (length (t_recs w) mod 65535) + 1)), w)
         else if rq_cmd r = 0x22 then some (rsp_of 0 (le16 (t_resv w + 1)), w\<lparr>t_resv := t_resv w + 1\<rparr>)
         else if rq_cmd r = 0x23 then some (repo_get lim d w)
         else if rq_cmd r = 0x25 then some (repo_add d w)
         else some (rsp_of 0 [1], if d ! 5 = 0xAA then w\<lparr>t_recs := []\<rparr> else w))"

definition repo_host :: "nat \<Rightarrow> (unit, repo_world) sdr_host" where
  "repo_host lim = \<lparr>sd_sendrecv = repo_device lim, sd_open_write = (\<lambda>_ w. (True, w\<lparr>t_file := Some []\<rparr>)),
     sd_fwrite = (\<lambda>_ bs w. (length bs, w\<lparr>t_file := map_option (\<lambda>old. old @ bs) (t_file w)\<rparr>)), sd_file = (\<lambda>_ w. t_file w)\<rparr>"

definition repo_view :: "repo_world sdr_view" where
  "repo_view = \<lparr>v_ok = (\<lambda>w. wf_repo (t_recs w) \<and> distinct (map r_id (t_recs w))), v_recs = t_recs, v_resv = t_resv, v_pending = t_cancels\<rparr>"

definition repo_store :: "repo_world sdr_store" where
  "repo_store = \<lparr>s_ok = (\<lambda>w. case t_part w of None \<Rightarrow> True | Some (i, _) \<Rightarrow> i \<noteq> 0), s_recs = t_recs, s_part = t_part, s_resv = t_resv, s_erasing = (\<lambda>_. 0)\<rparr>"

lemma repo_view_simps [simp]:
  "v_ok repo_view w \<longleftrightarrow> wf_repo (t_recs w) \<and> distinct (map r_id (t_recs w))" "v_recs repo_view = t_recs" "v_resv repo_view = t_resv" "v_pending repo_view = t_cancels"
  by (simp_all add: repo_view_def)

lemma rec_index_named:
  assumes "wf_repo rs" "distinct (map r_id rs)" "names_rec rs rid k"
  shows "rec_index rs rid = k"
proof (cases "rid = 0")
  case True
  with assms show ?thesis by (auto simp: rec_index_def names_rec_def wf_repo_def)
next
  case False
  with assms(3) have k: "k < length rs" "rid = r_id (rs ! k)" by (auto simp: names_rec_def)
  have "takeWhile (\<lambda>r. r_id r \<noteq> rid) rs = take k rs"
  proof (rule takeWhile_eq_take_P_nth)
    fix i assume "i < k" "i < length rs"
    with assms(2) k show "r_id (rs ! i) \<noteq> rid" by (auto simp: distinct_conv_nth)
  qed (use k in auto)
  with False k show ?thesis by (simp add: rec_index_def)
qed

lemma sdr_get_rq_simps [simp]:
  "rq_netfn (sdr_get_rq False x rid off n) = 0x0A" "rq_cmd (sdr_get_rq False x rid off n) = 0x23"
  "of_le16 (rq_data (sdr_get_rq b x rid off n) ! 0) (rq_data (sdr_get_rq b x rid off n) ! Suc 0) = x"
  "of_le16 (rq_data (sdr_get_rq b x rid off n) ! 2) (rq_data (sdr_get_rq b x rid off n) ! 3) = rid"
  "rq_data (sdr_get_rq b x rid off n) ! 4 = off" "rq_data (sdr_get_rq b x rid off n) ! 5 = n"
  by (simp_all add: sdr_get_rq_def mk_rq_def storage_or_se_def le16_def of_le16_le16)

lemma repo_serves: "sdr_serves (repo_host lim) intf False lim repo_view"
proof -
  have "sdr_reserves (repo_host lim) intf False repo_view"
    by (auto simp: sdr_reserves_def repo_host_def repo_device_def repo_view_def mk_rq_def storage_or_se_def keeps_def)
  moreover have "\<exists>rsp w'. sd_sendrecv (repo_host lim) intf (sdr_get_rq False x rid (word_of_nat off) (word_of_nat n)) w = Inr (rsp, w') \<and> keeps repo_view w w' \<and>
           (if x \<noteq> t_resv w then rsp = Some (rsp_of 0xC5 [])
            else t_resv w' = x \<and> rsp = Some (rsp_of 0 (le16 (next_id (t_recs w) k) @ take n (drop off (sdr_bytes (t_recs w ! k)))))
               \<or> t_resv w' = x \<and> lim < n \<and> (rsp = None \<or> rsp = Some (rsp_of 0xCA []))
               \<or> t_cancels w' < t_cancels w \<and> rsp = Some (rsp_of 0xC5 []))"
    if a: "wf_repo (t_recs w)" "distinct (map r_id (t_recs w))" "names_rec (t_recs w) rid k" "1 \<le> n" "n \<le> 255" "off + n \<le> length (sdr_bytes (t_recs w ! k))"
    for w x rid k off n
  proof -
    have "t_recs w ! k \<in> set (t_recs w)" using a(3) by (simp add: names_rec_def)
    then have "length (r_body (t_recs w ! k)) \<le> 251" using a(1) by (auto simp: wf_repo_def)
    then have u: "unat (word_of_nat off :: byte) = off" "unat (word_of_nat n :: byte) = n"
      using a(4-6) by (simp_all add: unat_of_nat take_bit_nat_def)
    show ?thesis
      using a(1,2) by (auto simp: repo_host_def repo_device_def repo_get_def Let_def u rec_index_named [OF a(1-3)] keeps_def repo_view_def)
  qed
  ultimately show ?thesis unfolding sdr_serves_def repo_view_simps by blast
qed

lemma byte_word_count: "(word_of_nat (n mod 65535) + 1 :: u16) \<noteq> 0"
proof
  assume "(word_of_nat (n mod 65535) + 1 :: u16) = 0"
  then have "(word_of_nat (Suc (n mod 65535)) :: u16) = 0" by (simp add: add.commute)
  then have "65536 dvd Suc (n mod 65535)" by (simp only: word_of_nat_eq_0_iff) simp
  then have "65536 \<le> Suc (n mod 65535)" by (rule dvd_imp_le) simp
  moreover have "n mod 65535 < 65535" by simp
  ultimately show False by linarith
qed

lemma repo_opens: "sdr_opens (repo_host lim) intf repo_view"
  using byte_word_count
  by (auto simp: sdr_opens_def repo_host_def repo_device_def repo_view_def mk_rq_def keeps_def rsp_byte_def le16_def of_le16_le16)

lemma repo_file_writable: "sdr_file_writable (repo_host lim) f repo_view"
  by (auto simp: sdr_file_writable_def repo_host_def repo_view_def keeps_def)


lemma sdr_add_rq_simps [simp]:
  "rq_netfn (sdr_add_rq x rid off p d) = 0x0A" "rq_cmd (sdr_add_rq x rid off p d) = 0x25"
  "of_le16 (rq_data (sdr_add_rq x rid off p d) ! 2) (rq_data (sdr_add_rq x rid off p d) ! 3) = rid"
  "rq_data (sdr_add_rq x rid off p d) ! 5 = p" "drop 6 (rq_data (sdr_add_rq x rid off p d)) = d"
  by (simp_all add: sdr_add_rq_def mk_rq_def le16_def of_le16_le16)

lemma repo_store_simps [simp]:
  "s_ok repo_store w \<longleftrightarrow> (case t_part w of None \<Rightarrow> True | Some (i, _) \<Rightarrow> i \<noteq> 0)" "s_recs repo_store = t_recs" "s_part repo_store = t_part"
  "s_resv repo_store = t_resv" "s_erasing repo_store w = 0"
  by (simp_all add: repo_store_def)

lemma repo_stores: "sdr_stores (repo_host lim) intf repo_store"
  unfolding sdr_stores_def repo_store_simps
proof (intro conjI allI impI, goal_cases)
  case (1 w)
  then show ?case by (auto simp: repo_host_def repo_device_def mk_rq_def)
next
  case (2 w)
  then show ?case by (auto simp: repo_host_def repo_device_def mk_rq_def le16_def)
next
  case (3 w)
  then show ?case by (auto simp: repo_host_def repo_device_def mk_rq_def le16_def)
next
  case (4 w d)
  then show ?case using byte_word_count [of "length (t_recs w)"] by (auto simp: repo_host_def repo_device_def repo_add_def Let_def)
next
  case (5 w i bs d)
  then show ?case by (auto simp: repo_host_def repo_device_def repo_add_def)
next
  case (6 w i bs d)
  then show ?case by (auto simp: repo_host_def repo_device_def repo_add_def)
qed

end
