(* ===== verification/Sdr_Search.thy ===== *)
theory Sdr_Search
  imports Sdr_Repository
begin

text \<open>
  What the searches over sensor data records promise: against a controller with a repository
  they return what the same search over its records returns, however much is in memory already;
  against any controller and any file they stay inside the records. Copying the records
  to a file and back, and to another controller, keeps them.
\<close>

section \<open>Interface: a condition on records\<close>

text \<open>
  A search needs of its condition that on the entry of a record that is listed it reads inside
  the record and decides a property of it. The results for all conditions follow.
\<close>

locale record_condition =
  fixes p :: "sdr_record_list \<Rightarrow> 'e sdr_error + bool"
    and Q :: "sdr_rec \<Rightarrow> bool"
  assumes on_entry: "rec_listed r \<Longrightarrow> p (rec_entry r) = Inr (Q r)"
begin

lemma first_found:
  assumes "sdr_opens h intf v" "sdr_serves h intf False limit v" "5 \<le> limit" "sdr_list_ok v intf st"
  shows "\<exists>st'. sdr_find_first h p st = rret (map_option rec_entry (List.find Q (filter rec_listed (v_recs v (sd_world st)))), st')
           \<and> sdr_list_ok v intf st' \<and> v_recs v (sd_world st') = v_recs v (sd_world st)"
  by (rule find_first_at [OF assms]) (simp add: on_entry)

lemma all_found:
  assumes "sdr_opens h intf v" "sdr_serves h intf False limit v" "5 \<le> limit" "sdr_list_ok v intf st"
  shows "\<exists>st'. sdr_find_all h p st = rret (Some (map rec_entry (filter Q (filter rec_listed (v_recs v (sd_world st))))), st')
           \<and> sdr_list_ok v intf st' \<and> v_recs v (sd_world st') = v_recs v (sd_world st)
           \<and> sd_list st' = sdr_entries (v_recs v (sd_world st))"
  by (rule find_all_at [OF assms]) (simp add: on_entry)

end

interpretation by_numtype: record_condition "is_numtype gen_id num type" "rec_numtype gen_id num type" for gen_id num type
  by unfold_locales (rule numtype_entry)

interpretation by_sensortype: record_condition "is_sensortype type" "rec_sensortype type" for type
  by unfold_locales (rule sensortype_entry)

interpretation by_entity: record_condition "is_entity eid inst" "rec_in_entity eid inst" for eid inst
  by unfold_locales (rule entity_entry)

interpretation by_type: record_condition "\<lambda>e. Inr (se_type e = type)" "\<lambda>r. r_type r = type" for type
  by unfold_locales simp

text \<open>An argument of the command line ends at its first NUL.\<close>

interpretation by_id: record_condition "is_id (c_str name 0)" "rec_has_id (c_str name 0)" for name
proof
  fix r assume "rec_listed r"
  moreover have "CHR 0x00 \<notin> set (c_str name 0)" by (auto simp: c_str_def dest: set_takeWhileD)
  ultimately show "is_id (c_str name 0) (rec_entry r) = Inr (rec_has_id (c_str name 0) r)" by (rule id_entry)
qed

section \<open>Reading stays inside the records\<close>

text \<open>A run that ends with an error only when the transport does, and otherwise as required.\<close>

definition sdr_safe :: "('a \<Rightarrow> 'w sdr_state \<Rightarrow> bool) \<Rightarrow> ('e, 'a, 'w) sdr \<Rightarrow> bool" where
  "sdr_safe post r = (case r of None \<Rightarrow> True | Some (Inl e) \<Rightarrow> (\<exists>x. e = Sdr_transport x) | Some (Inr (a, st)) \<Rightarrow> post a st)"

lemma sdr_safe_simps [simp]: "sdr_safe post None" "sdr_safe post (rret (a, st)) \<longleftrightarrow> post a st" "sdr_safe post (Some (Inl (Sdr_transport x)))"
  by (simp_all add: sdr_safe_def rret_def)

lemma sdr_safe_bind:
  "sdr_safe post m \<Longrightarrow> (\<And>a st. post a st \<Longrightarrow> sdr_safe post' (f (a, st))) \<Longrightarrow> sdr_safe post' (rbind m f)"
  by (cases m) (auto simp: sdr_safe_def rbind_def split: sum.splits prod.splits)

lemma sdr_safe_mono: "sdr_safe post m \<Longrightarrow> (\<And>a st. post a st \<Longrightarrow> post' a st) \<Longrightarrow> sdr_safe post' m"
  by (auto simp: sdr_safe_def split: option.splits sum.splits)

lemma sdr_safe_Some: "(\<And>y. m = Some y \<Longrightarrow> sdr_safe post (Some y)) \<Longrightarrow> sdr_safe post m"
  by (cases m) auto

lemma sdr_safe_option: "(x = None \<Longrightarrow> sdr_safe post a) \<Longrightarrow> (\<And>y. x = Some y \<Longrightarrow> sdr_safe post (f y)) \<Longrightarrow> sdr_safe post (case x of None \<Rightarrow> a | Some y \<Rightarrow> f y)"
  by (cases x) simp_all

lemma sdr_safe_if: "(b \<Longrightarrow> sdr_safe post x) \<Longrightarrow> (\<not> b \<Longrightarrow> sdr_safe post y) \<Longrightarrow> sdr_safe post (if b then x else y)"
  by simp

lemmas sdr_safe_intros = sdr_safe_option sdr_safe_if

lemma send_safe: "sdr_safe (\<lambda>_ st'. \<exists>w. st' = st\<lparr>sd_world := w\<rparr>) (sdr_send h req st)"
  by (auto simp: sdr_send_def run_send_def split: sum.splits)

lemma reservation_safe: "sdr_safe (\<lambda>_ st'. \<exists>w. st' = st\<lparr>sd_world := w\<rparr>) (ipmi_sdr_get_reservation h bi st)"
  unfolding ipmi_sdr_get_reservation_def by (rule sdr_safe_bind [OF send_safe]) (auto split: option.splits)

lemma header_tries_safe: "sdr_safe (\<lambda>_ st'. \<exists>w. st' = st\<lparr>sd_world := w\<rparr>) (header_tries h n itr st)"
proof (induction n arbitrary: itr st)
  case 0
  then show ?case by (auto intro: exI [of _ "sd_world st"])
next
  case (Suc n)
  have again: "sdr_safe (\<lambda>_ st'. \<exists>w. st' = st\<lparr>sd_world := w\<rparr>) (header_tries h n it (st\<lparr>sd_world := w\<rparr>))" for it w
    by (rule sdr_safe_mono [OF Suc.IH]) auto
  show ?case unfolding header_tries.simps
    by (rule sdr_safe_bind [OF send_safe])
      (auto intro!: sdr_safe_intros again sdr_safe_bind [OF reservation_safe] split: prod.splits option.splits)
qed

lemma next_header_safe:
  "sdr_safe (\<lambda>(hdr, itr1) st'. (\<exists>w. st' = st\<lparr>sd_world := w\<rparr>)) (ipmi_sdr_get_next_header h itr st)"
  unfolding ipmi_sdr_get_next_header_def ipmi_sdr_get_header_def rbind_assoc
  by (rule sdr_safe_if; (rule sdr_safe_bind [OF header_tries_safe])?)
    (auto simp: Let_def intro: exI [of _ "sd_world st"] split: option.splits)

definition reads_on :: "'w sdr_state \<Rightarrow> 'w sdr_state \<Rightarrow> bool" where
  "reads_on st st' \<longleftrightarrow> sd_intf st' = sd_intf st \<and> sd_list st' = sd_list st \<and> sd_list_itr st' = sd_list_itr st \<and> sd_use_built_in st' = sd_use_built_in st
     \<and> 0 \<le> sd_max_read_len st' \<and> sd_max_read_len st' \<le> 254"

lemma reads_on_step [simp]: "reads_on (st\<lparr>sd_world := w\<rparr>) st' = reads_on st st'" "reads_on (st\<lparr>sd_max_read_len := m\<rparr>) st' = reads_on st st'"
  by (simp_all add: reads_on_def)

lemma reads_on_upd [simp]: "reads_on st (st\<lparr>sd_world := w, sd_max_read_len := m\<rparr>) \<longleftrightarrow> 0 \<le> m \<and> m \<le> 254" "reads_on st (st\<lparr>sd_world := w\<rparr>) \<longleftrightarrow> 0 \<le> sd_max_read_len st \<and> sd_max_read_len st \<le> 254"
  "reads_on st st \<longleftrightarrow> 0 \<le> sd_max_read_len st \<and> sd_max_read_len st \<le> 254"
  by (simp_all add: reads_on_def)

text \<open>The loop writes into the block and leaves its last byte alone.\<close>

lemma read_loop_safe:
  assumes "1 \<le> sd_max_read_len st" "sd_max_read_len st \<le> 254" "len \<le> 255" "length data = Suc len" "data ! len = 0"
  shows "sdr_safe (\<lambda>(d, itr1) st'. reads_on st st' \<and> (\<forall>x. d = Some x \<longrightarrow> length x = Suc len \<and> x ! len = 0)) (sdr_read_loop h rid len i data itr st)"
proof (rule sdr_safe_Some)
  fix y
  assume "sdr_read_loop h rid len i data itr st = Some y"
  then show "sdr_safe (\<lambda>(d, itr1) st'. reads_on st st' \<and> (\<forall>x. d = Some x \<longrightarrow> length x = Suc len \<and> x ! len = 0)) (Some y)"
    using assms
  proof (induction h rid len i data itr st y rule: sdr_read_loop.raw_induct [rotated, consumes 1, case_names step])
    case (step loop h rid len i data itr st y)
    let ?post = "\<lambda>st (d, itr1 :: sdr_iterator) st'. reads_on st st' \<and> (\<forall>x. d = Some x \<longrightarrow> length x = Suc len \<and> x ! len = (0 :: byte))"
    have again: "sdr_safe (?post st) (loop h rid len j data' it st1)"
      if "\<And>s. reads_on st1 s \<Longrightarrow> reads_on st s" "1 \<le> sd_max_read_len st1" "sd_max_read_len st1 \<le> 254" "length data' = Suc len" "data' ! len = 0" for j data' it st1
    proof -
      have "sdr_safe (?post st1) (loop h rid len j data' it st1)"
        by (rule sdr_safe_Some) (rule step(1) [OF _ that(2,3) step(5) that(4,5)])
      then show ?thesis by (rule sdr_safe_mono) (use that(1) in auto)
    qed
    show ?case
    proof (cases "i < len")
      case False
      with step(2-) show ?thesis by (auto simp: sdr_safe_def rret_def)
    next
      case True
      define n where "n = min (len - i) (nat (sd_max_read_len st))"
      have n: "1 \<le> n" "n \<le> 254" "i + n \<le> len" using True step(3,4) by (auto simp: n_def)
      note rq = read_request [OF True step(5) step(3,4), folded n_def]
      have put: "length (put_at i xs data) = Suc len \<and> put_at i xs data ! len = 0" if "length xs = n" for xs
        using that n step(6,7) by (auto simp: put_at_def nth_append)
      show ?thesis
        unfolding step(2) [symmetric] rq Let_def
        using True step(3-7) n put
        by (auto intro!: sdr_safe_bind [OF send_safe] sdr_safe_bind [OF reservation_safe] sdr_safe_intros again split: option.splits)
    qed
  qed
qed

text \<open>The state of the list: every entry is that of a well-formed record.\<close>

definition entry_ok :: "sdr_record_list \<Rightarrow> bool" where
  "entry_ok e \<longleftrightarrow> (\<exists>r. rec_listed r \<and> e = rec_entry r)"

definition reader_ok :: "'w sdr_state \<Rightarrow> bool" where
  "reader_ok st \<longleftrightarrow> 3 \<le> unat (ipmi_intf_get_max_response_data_size (sd_intf st)) \<and> 0 \<le> sd_max_read_len st \<and> sd_max_read_len st \<le> 254"

definition sdr_mem_ok :: "'w sdr_state \<Rightarrow> bool" where
  "sdr_mem_ok st \<longleftrightarrow> reader_ok st \<and> (\<forall>e \<in> set (sd_list st). entry_ok e)"

lemma reads_on_reader: "reads_on st st' \<Longrightarrow> reader_ok st \<Longrightarrow> reader_ok st'"
  by (simp add: reads_on_def reader_ok_def)

lemma reads_on_trans: "reads_on a b \<Longrightarrow> reads_on b c \<Longrightarrow> reads_on a c"
  by (simp add: reads_on_def)

lemma get_record_safe:
  assumes "reader_ok st"
  shows "sdr_safe (\<lambda>(d, itr1) st'. reads_on st st' \<and> (\<forall>x. d = Some x \<longrightarrow> length x = Suc (unat (sh_length hdr)) \<and> x ! unat (sh_length hdr) = 0
           \<and> ipmi_sdr_record_length_valid (sh_type hdr) (unat (sh_length hdr)) x)) (ipmi_sdr_get_record h hdr itr st)"
proof -
  let ?len = "unat (sh_length hdr)"
  have ok: "3 \<le> unat (ipmi_intf_get_max_response_data_size (sd_intf st))" "sd_max_read_len st = 0 \<or> 1 \<le> sd_max_read_len st \<and> sd_max_read_len st \<le> 254"
    using assms by (auto simp: reader_ok_def)
  obtain m where m: "sdr_init_read_len st = st\<lparr>sd_max_read_len := m\<rparr>" "1 \<le> m" "m \<le> 254" using init_read_len [OF ok] by blast
  have len: "?len \<le> 255" using unat_byte_less [of "sh_length hdr"] by linarith
  have ro: "reads_on st s" if "reads_on (st\<lparr>sd_max_read_len := m\<rparr>) s" for s
    using that by (simp add: reads_on_def)
  have "sdr_safe (\<lambda>(d, itr1) st'. reads_on (st\<lparr>sd_max_read_len := m\<rparr>) st' \<and> (\<forall>x. d = Some x \<longrightarrow> length x = Suc ?len \<and> x ! ?len = 0))
      (sdr_read_loop h (sh_id hdr) ?len 0 (replicate (?len + 1) 0) itr (sdr_init_read_len st))"
    unfolding m(1) by (rule read_loop_safe) (use m len in \<open>auto simp del: replicate_Suc\<close>)
  then show ?thesis
    unfolding ipmi_sdr_get_record_def Let_def using assms
    by (auto intro!: sdr_safe_if sdr_safe_bind [where post = "\<lambda>(d, itr1) st'. reads_on (st\<lparr>sd_max_read_len := m\<rparr>) st' \<and> (\<forall>x. d = Some x \<longrightarrow> length x = Suc ?len \<and> x ! ?len = 0)"]
        dest: ro simp: reader_ok_def split: option.splits)
qed

lemma block_entry_ok:
  assumes "length x = Suc n" "x ! n = 0" "ipmi_sdr_record_length_valid type n x" "sdr_kept type"
  shows "entry_ok (sdr_entry_of rid type x)"
proof -
  let ?r = "\<lparr>r_id = rid, r_version = 0, r_type = type, r_body = take n x\<rparr>"
  have "x = take n x @ [0]" using assms(1,2) by (metis Suc_eq_plus1 append_eq_conv_conj lessI take_Suc_conv_app_nth take_all_iff order_refl)
  then have "rec_listed ?r" "sdr_entry_of rid type x = rec_entry ?r" using assms by (auto simp: rec_listed_def rec_data_def rec_entry_def)
  then show ?thesis unfolding entry_ok_def by blast
qed

lemma read_entry_ok:
  assumes "length x = Suc (unat (sh_length hdr))" "x ! unat (sh_length hdr) = 0" "ipmi_sdr_record_length_valid (sh_type hdr) (unat (sh_length hdr)) x" "sdr_kept (sh_type hdr)"
  shows "entry_ok (sdr_entry_of (sh_id hdr) (sh_type hdr) x)"
  using assms by (rule block_entry_ok)

lemma next_entry_safe:
  assumes "reader_ok st"
  shows "sdr_safe (\<lambda>(e, itr1) st'. reads_on st st' \<and> (\<forall>x. e = Some x \<longrightarrow> entry_ok x)) (sdr_next_entry h itr st)"
proof (rule sdr_safe_Some)
  fix y
  assume "sdr_next_entry h itr st = Some y"
  then show "sdr_safe (\<lambda>(e, itr1) st'. reads_on st st' \<and> (\<forall>x. e = Some x \<longrightarrow> entry_ok x)) (Some y)"
    using assms
  proof (induction h itr st y rule: sdr_next_entry.raw_induct [rotated, consumes 1, case_names step])
    case (step loop h itr st y)
    have again: "sdr_safe (\<lambda>(e, itr1) st'. reads_on st st' \<and> (\<forall>x. e = Some x \<longrightarrow> entry_ok x)) (loop h it st1)"
      if "reads_on st st1" for it st1
    proof -
      have "sdr_safe (\<lambda>(e, itr1) st'. reads_on st1 st' \<and> (\<forall>x. e = Some x \<longrightarrow> entry_ok x)) (loop h it st1)"
        by (rule sdr_safe_Some) (rule step(1) [OF _ reads_on_reader [OF that step(3)]])
      then show ?thesis by (rule sdr_safe_mono) (auto intro: reads_on_trans [OF that])
    qed
    have mx: "0 \<le> sd_max_read_len st" "sd_max_read_len st \<le> 254" using step(3) by (simp_all add: reader_ok_def)
    then have ro: "reads_on st (st\<lparr>sd_world := w\<rparr>)" for w by simp
    have r1: "reader_ok (st\<lparr>sd_world := w\<rparr>)" for w by (rule reads_on_reader [OF ro step(3)])
    show ?case unfolding step(2) [symmetric]
      by (rule sdr_safe_bind [OF next_header_safe])
        (auto simp: Let_def mx read_entry_ok intro!: sdr_safe_bind [OF get_record_safe [OF r1]] sdr_safe_if again)
  qed
qed

lemma reads_on_mem: "reads_on st st' \<Longrightarrow> sdr_mem_ok st \<Longrightarrow> sdr_mem_ok st'"
  using reads_on_reader [of st st'] by (auto simp: sdr_mem_ok_def reads_on_def)

lemma mem_ok_add: "sdr_mem_ok st \<Longrightarrow> entry_ok e \<Longrightarrow> sdr_mem_ok (st\<lparr>sd_list := sdr_list_add (sd_list st) e\<rparr>)"
  by (auto simp: sdr_mem_ok_def reader_ok_def sdr_list_add_def)

lemma mem_ok_itr [simp]: "sdr_mem_ok (st\<lparr>sd_list_itr := i\<rparr>) = sdr_mem_ok st"
  by (simp add: sdr_mem_ok_def reader_ok_def)

lemma find_rest_safe:
  assumes "sdr_mem_ok st" and p: "\<forall>e. entry_ok e \<longrightarrow> (\<exists>b. p e = Inr b)"
  shows "sdr_safe (\<lambda>(e, itr1) st'. sdr_mem_ok st' \<and> (\<forall>x. e = Some x \<longrightarrow> entry_ok x)) (sdr_find_rest h p itr st)"
proof (rule sdr_safe_Some)
  fix y
  assume "sdr_find_rest h p itr st = Some y"
  then show "sdr_safe (\<lambda>(e, itr1) st'. sdr_mem_ok st' \<and> (\<forall>x. e = Some x \<longrightarrow> entry_ok x)) (Some y)"
    using assms
  proof (induction h p itr st y rule: sdr_find_rest.raw_induct [rotated, consumes 1, case_names step])
    case (step loop h p itr st y)
    have again: "sdr_safe (\<lambda>(e, itr1) st'. sdr_mem_ok st' \<and> (\<forall>x. e = Some x \<longrightarrow> entry_ok x)) (loop h p it st1)" if "sdr_mem_ok st1" for it st1
      by (rule sdr_safe_Some) (rule step(1) [OF _ that step(4)])
    have r: "reader_ok st" using step(3) by (simp add: sdr_mem_ok_def)
    have mem: "sdr_mem_ok st1" if "reads_on st st1" for st1 by (rule reads_on_mem [OF that step(3)])
    have one: "sdr_safe (\<lambda>(e, itr1) st'. sdr_mem_ok st' \<and> (\<forall>x. e = Some x \<longrightarrow> entry_ok x))
        (rbind (Some (p e)) (\<lambda>found. let st2 = st1\<lparr>sd_list := sdr_list_add (sd_list st1) e\<rparr> in if found then rret ((Some e, itr1), st2) else loop h p itr1 st2))"
      if e: "entry_ok e" "reads_on st st1" for e st1 itr1
    proof -
      obtain b where "p e = Inr b" using step(4) e(1) by blast
      with mem_ok_add [OF mem [OF e(2)] e(1)] show ?thesis using e(1) by (auto simp: Let_def intro!: again)
    qed
    show ?case unfolding step(2) [symmetric]
      by (rule sdr_safe_bind [OF next_entry_safe [OF r]]) (auto simp: Let_def mem intro!: one [unfolded Let_def])
  qed
qed

lemma collect_rest_safe:
  assumes "sdr_mem_ok st" "\<forall>x \<in> set res. entry_ok x" and p: "\<forall>e. entry_ok e \<longrightarrow> (\<exists>b. p e = Inr b)"
  shows "sdr_safe (\<lambda>(r, itr1) st'. sdr_mem_ok st' \<and> (\<forall>x \<in> set r. entry_ok x)) (sdr_collect_rest h p res itr st)"
proof (rule sdr_safe_Some)
  fix y
  assume "sdr_collect_rest h p res itr st = Some y"
  then show "sdr_safe (\<lambda>(r, itr1) st'. sdr_mem_ok st' \<and> (\<forall>x \<in> set r. entry_ok x)) (Some y)"
    using assms
  proof (induction h p res itr st y rule: sdr_collect_rest.raw_induct [rotated, consumes 1, case_names step])
    case (step loop h p res itr st y)
    have again: "sdr_safe (\<lambda>(r, itr1) st'. sdr_mem_ok st' \<and> (\<forall>x \<in> set r. entry_ok x)) (loop h p res' it st1)"
      if "sdr_mem_ok st1" "\<forall>x \<in> set res'. entry_ok x" for it st1 res'
      by (rule sdr_safe_Some) (rule step(1) [OF _ that step(5)])
    have r: "reader_ok st" using step(3) by (simp add: sdr_mem_ok_def)
    have mem: "sdr_mem_ok st1" if "reads_on st st1" for st1 by (rule reads_on_mem [OF that step(3)])
    have one: "sdr_safe (\<lambda>(r, itr1) st'. sdr_mem_ok st' \<and> (\<forall>x \<in> set r. entry_ok x))
        (rbind (Some (p e)) (\<lambda>b. loop h p (if b then sdr_list_add res e else res) itr1 (st1\<lparr>sd_list := sdr_list_add (sd_list st1) e\<rparr>)))"
      if e: "entry_ok e" "reads_on st st1" for e st1 itr1
    proof -
      obtain b where "p e = Inr b" using step(5) e(1) by blast
      with mem_ok_add [OF mem [OF e(2)] e(1)] show ?thesis using e(1) step(4) by (auto simp: sdr_list_add_def intro!: again)
    qed
    show ?case unfolding step(2) [symmetric] using step(4)
      by (intro sdr_safe_bind [OF next_entry_safe [OF r]]) (auto simp: Let_def mem intro!: one)
  qed
qed

lemma find_cached_safe: "\<forall>e \<in> set es. \<exists>b. p e = Inr b \<Longrightarrow> \<exists>r. sdr_find_cached p es = Inr r \<and> (\<forall>e. r = Some e \<longrightarrow> e \<in> set es)"
  by (induction es) auto

lemma collect_cached_safe: "\<forall>e \<in> set es. \<exists>b. p e = Inr b \<Longrightarrow> \<exists>r. sdr_collect_cached p res es = Inr r \<and> set r \<subseteq> set res \<union> set es"
proof (induction es arbitrary: res)
  case (Cons e es)
  then obtain b where b: "p e = Inr b" by auto
  obtain r where "sdr_collect_cached p (if b then sdr_list_add res e else res) es = Inr r" "set r \<subseteq> set (if b then sdr_list_add res e else res) \<union> set es"
    using Cons by fastforce
  with b show ?case by (auto simp: sdr_list_add_def split: if_splits)
qed simp

context record_condition
begin

lemma on_entry_ok: "\<forall>e. entry_ok e \<longrightarrow> (\<exists>b. p e = Inr b)"
  using on_entry by (auto simp: entry_ok_def)

lemma first_safe:
  assumes "sdr_mem_ok st" "sd_list_itr st = Some it"
  shows "sdr_safe (\<lambda>e st'. sdr_mem_ok st' \<and> (\<forall>x. e = Some x \<longrightarrow> entry_ok x)) (sdr_find_first h p st)"
proof -
  have "\<forall>e \<in> set (sd_list st). \<exists>b. p e = Inr b" using assms(1) on_entry_ok by (auto simp: sdr_mem_ok_def)
  then obtain r where r: "sdr_find_cached p (sd_list st) = Inr r" "\<forall>e. r = Some e \<longrightarrow> e \<in> set (sd_list st)" using find_cached_safe by blast
  show ?thesis
  proof (cases r)
    case None
    then show ?thesis unfolding sdr_find_first_def sdr_open_list_def
      using r assms by (auto intro!: sdr_safe_bind [OF find_rest_safe [OF assms(1) on_entry_ok]])
  next
    case (Some e)
    with r assms show ?thesis unfolding sdr_find_first_def sdr_open_list_def by (auto simp: sdr_mem_ok_def)
  qed
qed

lemma all_safe:
  assumes "sdr_mem_ok st" "sd_list_itr st = Some it"
  shows "sdr_safe (\<lambda>l st'. sdr_mem_ok st' \<and> (\<forall>es. l = Some es \<longrightarrow> (\<forall>e \<in> set es. entry_ok e))) (sdr_find_all h p st)"
proof -
  have "\<forall>e \<in> set (sd_list st). \<exists>b. p e = Inr b" using assms(1) on_entry_ok by (auto simp: sdr_mem_ok_def)
  from collect_cached_safe [OF this, of "[]"] obtain r where r: "sdr_collect_cached p [] (sd_list st) = Inr r" "set r \<subseteq> set (sd_list st)" by auto
  then have "\<forall>e \<in> set r. entry_ok e" using assms(1) by (auto simp: sdr_mem_ok_def)
  from collect_rest_safe [OF assms(1) this on_entry_ok] show ?thesis
    unfolding sdr_find_all_def sdr_open_list_def using r assms(2) by (auto intro!: sdr_safe_bind)
qed

end

text \<open>The list made from a file is as good as one read from a controller.\<close>

definition file_ok :: "int \<times> sdr_record_list list \<Rightarrow> bool" where
  "file_ok r \<longleftrightarrow> (\<forall>e \<in> set (snd r). entry_ok e)"

lemma file_ok_if: "(b \<Longrightarrow> file_ok x) \<Longrightarrow> (\<not> b \<Longrightarrow> file_ok y) \<Longrightarrow> file_ok (if b then x else y)"
  by simp

lemma file_loop_ok: "\<forall>e \<in> set acc. entry_ok e \<Longrightarrow> file_ok (sdr_file_loop bs ret acc)"
proof (induction bs ret acc rule: sdr_file_loop.induct)
  case (1 bs ret acc)
  let ?len = "unat (bs ! 4)" and ?rest = "drop 5 bs"
  let ?e = "sdr_entry_of (of_le16 (bs ! 0) (bs ! 1)) (bs ! 3) (take ?len ?rest @ [0])"
  note IH = 1(1-4) [OF _ _ refl refl refl refl refl]
  have new: "\<forall>e \<in> set (sdr_list_add acc ?e). entry_ok e"
    if "\<not> length ?rest < ?len" "ipmi_sdr_record_length_valid (bs ! 3) ?len (take ?len ?rest @ [0])" "sdr_kept (bs ! 3)"
  proof -
    have "entry_ok ?e" by (rule block_entry_ok [of _ ?len]) (use that in \<open>simp_all add: nth_append\<close>)
    with 1(5) show ?thesis by (simp add: sdr_list_add_def)
  qed
  show ?case unfolding sdr_file_loop.simps [of bs ret acc] Let_def
    by (intro file_ok_if IH new; (assumption | simp add: file_ok_def 1(5)))
qed

section \<open>An example\<close>

definition sample_fan :: sdr_rec where
  "sample_fan = \<lparr>r_id = 1, r_version = 0x51, r_type = 0x03, r_body = [0x20, 0, 5, 7, 1, 4, 2, 0, 0, 0, 0, 0xC4, 0x46, 0x61, 0x6E, 0x31]\<rparr>"

definition sample_oem :: sdr_rec where
  "sample_oem = \<lparr>r_id = 2, r_version = 0x51, r_type = 0xC0, r_body = [1, 2, 3]\<rparr>"

definition sample_assoc :: sdr_rec where
  "sample_assoc = \<lparr>r_id = 3, r_version = 0x51, r_type = 0x08, r_body = [7, 1, 0, 1, 1, 1, 2, 0, 0, 0, 0]\<rparr>"

definition sample_repo :: repo_world where
  "sample_repo = \<lparr>t_recs = [sample_fan, sample_oem, sample_assoc], t_resv = 7, t_cancels = 2, t_part = None, t_file = None\<rparr>"

definition sample_sdr :: "repo_world sdr_state" where
  "sample_sdr = \<lparr>sd_world = sample_repo, sd_intf = sample_intf, sd_target_ipmb_addr = 0, sd_use_built_in = False, sd_max_read_len = 0, sd_iana = 0,
     sd_list = [], sd_list_itr = None\<rparr>"

lemma sample_response_size: "3 \<le> unat (ipmi_intf_get_max_response_data_size sample_intf)"
  by (simp add: ipmi_intf_get_max_response_data_size_def max_data_size_def ipmi_intf_get_bridging_level_def sample_intf_def IPMI_DEFAULT_PAYLOAD_SIZE_def Let_def)

lemma sample_recs: "t_recs (sd_world sample_sdr) = [sample_fan, sample_oem, sample_assoc]"
  by (simp add: sample_sdr_def sample_repo_def)

lemma sample_listed: "rec_listed sample_fan" "\<not> rec_listed sample_oem" "rec_listed sample_assoc" "rec_data sample_oem \<noteq> None"
  by (simp_all add: rec_listed_def rec_data_def sdr_kept_def ipmi_sdr_record_length_valid_def sdr_named_record_def sample_fan_def sample_oem_def sample_assoc_def)

lemma sample_ready: "sdr_ready repo_view sample_intf sample_sdr"
proof -
  have "wf_repo [sample_fan, sample_oem, sample_assoc]"
    by (auto simp: wf_repo_def sample_fan_def sample_oem_def sample_assoc_def less_Suc_eq)
  moreover have "distinct (map r_id [sample_fan, sample_oem, sample_assoc])" by (simp add: sample_fan_def sample_oem_def sample_assoc_def)
  ultimately show ?thesis using sample_response_size by (simp add: sdr_ready_def sample_sdr_def sample_repo_def)
qed

lemma sample_list_ok: "sdr_list_ok repo_view sample_intf sample_sdr"
  using sample_ready by (simp add: sdr_list_ok_def sample_sdr_def)

lemmas sample_controller = repo_opens [of 5 sample_intf] repo_serves [of 5 sample_intf] order_refl [of "5 :: nat"]

section \<open>Properties\<close>

text \<open>
  C10: Against a controller with a repository (which may cancel reservations four times and refuse long
  reads) the searches for one record, by sensor number, owner and type, and by name or number, end
  and return the entry of the first record of the repository that matches, or none if there is
  none, whatever part of the repository has been read before; list and iterator stay together.
\<close>

theorem sdr_find_first_refines:
  assumes "sdr_opens h intf v" and "sdr_serves h intf False limit v" and "5 \<le> limit" and "sdr_list_ok v intf st"
  shows "(\<exists>st'. ipmi_sdr_find_sdr_bynumtype h gen_id num type st = rret (map_option rec_entry (List.find (rec_numtype gen_id num type) (filter rec_listed (v_recs v (sd_world st)))), st')
           \<and> sdr_list_ok v intf st' \<and> v_recs v (sd_world st') = v_recs v (sd_world st))
     \<and> (\<exists>st'. ipmi_sdr_find_sdr_byid h (Some (c_str name 0)) st = rret (map_option rec_entry (List.find (rec_has_id (c_str name 0)) (filter rec_listed (v_recs v (sd_world st)))), st')
           \<and> sdr_list_ok v intf st' \<and> v_recs v (sd_world st') = v_recs v (sd_world st))"
  unfolding ipmi_sdr_find_sdr_bynumtype_def ipmi_sdr_find_sdr_byid_def option.simps
  by (intro conjI by_numtype.first_found [OF assms] by_id.first_found [OF assms])

theorem sdr_find_first_refines_witness:
  "(\<exists>st'. ipmi_sdr_find_sdr_byid (repo_host 5) (Some ''Fan1'') sample_sdr = rret (Some (rec_entry sample_fan), st'))
   \<and> (\<exists>st'. ipmi_sdr_find_sdr_bynumtype (repo_host 5) 0x20 6 4 sample_sdr = rret (None, st'))"
proof -
  have f: "List.find (rec_has_id (c_str ''Fan1'' 0)) [sample_fan, sample_assoc] = Some sample_fan"
    by (simp add: rec_has_id_def sample_fan_def sdr_named_record_def c_str_def rec_name_def Let_def)
  have g: "List.find (rec_numtype 0x20 6 4) [sample_fan, sample_assoc] = None"
    by (simp add: rec_numtype_def sample_fan_def sample_assoc_def)
  have "c_str ''Fan1'' 0 = ''Fan1''" by (simp add: c_str_def)
  with f g sdr_find_first_refines [OF sample_controller sample_list_ok, of "0x20" 6 4 "''Fan1''"]
  show ?thesis by (auto simp: sample_recs sample_listed)
qed

text \<open>
  C12: Against such a controller the searches for all records, by sensor type, by entity and instance, and by
  record type, return the entries of exactly the matching records of the repository, in its order;
  afterwards the list in memory holds the entry of every well-formed record of a known type.
\<close>

theorem sdr_find_all_refines:
  assumes "sdr_opens h intf v" and "sdr_serves h intf False limit v" and "5 \<le> limit" and "sdr_list_ok v intf st"
  shows "(\<exists>st'. ipmi_sdr_find_sdr_bysensortype h type st = rret (Some (map rec_entry (filter (rec_sensortype type) (filter rec_listed (v_recs v (sd_world st))))), st')
           \<and> sdr_list_ok v intf st' \<and> v_recs v (sd_world st') = v_recs v (sd_world st) \<and> sd_list st' = sdr_entries (v_recs v (sd_world st)))
     \<and> (\<exists>st'. ipmi_sdr_find_sdr_byentity h eid inst st = rret (Some (map rec_entry (filter (rec_in_entity eid inst) (filter rec_listed (v_recs v (sd_world st))))), st')
           \<and> sdr_list_ok v intf st' \<and> v_recs v (sd_world st') = v_recs v (sd_world st) \<and> sd_list st' = sdr_entries (v_recs v (sd_world st)))
     \<and> (\<exists>st'. ipmi_sdr_find_sdr_bytype h type st = rret (Some (map rec_entry (filter (\<lambda>r. r_type r = type) (filter rec_listed (v_recs v (sd_world st))))), st')
           \<and> sdr_list_ok v intf st' \<and> v_recs v (sd_world st') = v_recs v (sd_world st) \<and> sd_list st' = sdr_entries (v_recs v (sd_world st)))"
  unfolding ipmi_sdr_find_sdr_bysensortype_def ipmi_sdr_find_sdr_byentity_def ipmi_sdr_find_sdr_bytype_def
  by (intro conjI by_sensortype.all_found [OF assms] by_entity.all_found [OF assms] by_type.all_found [OF assms])

theorem sdr_find_all_refines_witness:
  "(\<exists>st'. ipmi_sdr_find_sdr_bysensortype (repo_host 5) 4 sample_sdr = rret (Some [rec_entry sample_fan], st'))
   \<and> (\<exists>st'. ipmi_sdr_find_sdr_byentity (repo_host 5) 7 0x7F sample_sdr = rret (Some [rec_entry sample_fan, rec_entry sample_assoc], st'))
   \<and> (\<exists>st'. ipmi_sdr_find_sdr_bytype (repo_host 5) 0x08 sample_sdr = rret (Some [rec_entry sample_assoc], st'))"
proof -
  have t: "rec_sensortype 4 sample_fan" "\<not> rec_sensortype 4 sample_assoc" "rec_in_entity 7 0x7F sample_fan" "rec_in_entity 7 0x7F sample_assoc"
    "r_type sample_fan \<noteq> 8" "r_type sample_assoc = 8"
    by (simp_all add: rec_sensortype_def rec_in_entity_def entity_offset_def sample_fan_def sample_assoc_def)
  from sdr_find_all_refines [OF sample_controller sample_list_ok, of 4 7 "0x7F"] sdr_find_all_refines [OF sample_controller sample_list_ok, of 8] t
  show ?thesis by (auto simp: sample_recs sample_listed)
qed

text \<open>
  Reading every record of such a controller ends with success, although each record comes in pieces,
  reads are refused as too long and reservations are lost on the way; the list in memory then holds
  byte for byte the well-formed records of known types, in the order of the repository.
\<close>

theorem sdr_list_cache_complete:
  assumes "sdr_opens h intf v" and "sdr_serves h intf False limit v" and "5 \<le> limit" and "sdr_list_ok v intf st"
  shows "\<exists>st'. ipmi_sdr_list_cache h st = rret (0, st') \<and> sd_list st' = sdr_entries (v_recs v (sd_world st)) \<and> sdr_list_ok v intf st'"
  using list_cache_at [OF assms] by blast

theorem sdr_list_cache_complete_witness:
  "\<exists>st'. ipmi_sdr_list_cache (repo_host 5) sample_sdr = rret (0, st') \<and> sd_list st' = [rec_entry sample_fan, rec_entry sample_assoc]"
  using sdr_list_cache_complete [OF sample_controller sample_list_ok] by (auto simp: sample_recs sample_listed)

text \<open>
  Dumping the records of such a controller to a file succeeds, and reading the file into an empty list
  succeeds and gives the same list as reading the controller.
\<close>

theorem sdr_dump_cache_roundtrip:
  assumes "sdr_opens h intf v" and "sdr_serves h intf False limit v" and "5 \<le> limit" and "sdr_ready v intf st" and "\<not> sd_use_built_in st"
    and "sd_list st = []" and "\<forall>r \<in> set (v_recs v (sd_world st)). rec_data r \<noteq> None \<and> sdr_version_ok (r_version r)" and "sdr_file_writable h f v"
  shows "\<exists>st' st''. ipmi_sdr_dump_bin h f st = rret (0, st') \<and> ipmi_sdr_list_cache_fromfile h (Some f) (ipmi_sdr_list_empty st') = (0, st'')
           \<and> sd_list st'' = sdr_entries (v_recs v (sd_world st))"
proof -
  let ?rs = "v_recs v (sd_world st)"
  have "\<forall>r \<in> set ?rs. rec_data r \<noteq> None" using assms(7) by blast
  with dump_at [OF assms(1-6)] assms(8) obtain st' where d: "ipmi_sdr_dump_bin h f st = rret (0, st')" "sd_file h f (sd_world st') = Some (sdr_file_bytes ?rs)"
    by blast
  have "sdr_file_loop (sdr_file_bytes ?rs) 0 [] = (0, [] @ sdr_entries ?rs)"
    by (rule file_loop_reads) (use assms(4,7) in \<open>auto simp: sdr_ready_def wf_repo_def\<close>)
  with d(2) have "fst (ipmi_sdr_list_cache_fromfile h (Some f) (ipmi_sdr_list_empty st')) = 0"
    "sd_list (snd (ipmi_sdr_list_cache_fromfile h (Some f) (ipmi_sdr_list_empty st'))) = sdr_entries ?rs"
    by (simp_all add: ipmi_sdr_list_cache_fromfile_def ipmi_sdr_list_empty_def)
  with d(1) show ?thesis by (metis prod.collapse)
qed

theorem sdr_dump_cache_roundtrip_witness:
  "\<exists>st' st''. ipmi_sdr_dump_bin (repo_host 5) ''sdr.bin'' sample_sdr = rret (0, st')
     \<and> ipmi_sdr_list_cache_fromfile (repo_host 5) (Some ''sdr.bin'') (ipmi_sdr_list_empty st') = (0, st'')
     \<and> sd_list st'' = [rec_entry sample_fan, rec_entry sample_assoc]"
proof -
  have "\<not> sd_use_built_in sample_sdr" "sd_list sample_sdr = []" by (simp_all add: sample_sdr_def)
  moreover have "\<forall>r \<in> set (v_recs repo_view (sd_world sample_sdr)). rec_data r \<noteq> None \<and> sdr_version_ok (r_version r)"
    using sample_listed by (simp add: sample_recs rec_listed_def sdr_version_ok_def) (simp add: sample_fan_def sample_oem_def sample_assoc_def)
  ultimately show ?thesis
    using sdr_dump_cache_roundtrip [OF sample_controller sample_ready _ _ _ repo_file_writable [of 5 "''sdr.bin''"]] by (simp add: sample_recs sample_listed)
qed

text \<open>
  C11: Filling the repository of a second controller from a dumped file succeeds, in pieces of at most 19
  bytes: its repository is erased, also when that takes several polls, and then holds the
  records of the first with the same version, type and bytes in the same order, with the identifiers the
  second controller gives them.
\<close>

theorem sdr_dump_fill_roundtrip:
  assumes "sdr_opens h intf v" and "sdr_serves h intf False limit v" and "5 \<le> limit" and "sdr_ready v intf st" and "\<not> sd_use_built_in st"
    and "sd_list st = []" and "\<forall>r \<in> set (v_recs v (sd_world st)). rec_data r \<noteq> None" and "sdr_file_writable h f v"
    and "sdr_stores h2 intf2 s" and "sd_intf st2 = intf2" and "s_ok s (sd_world st2)"
  shows "\<exists>st'. ipmi_sdr_dump_bin h f st = rret (0, st') \<and>
           (sd_file h2 g (sd_world st2) = sd_file h f (sd_world st') \<longrightarrow>
              (\<exists>st2'. ipmi_sdr_add_from_file h2 g st2 = rret (0, st2')
                 \<and> map rec_contents (s_recs s (sd_world st2')) = map rec_contents (v_recs v (sd_world st))))"
proof -
  let ?rs = "v_recs v (sd_world st)"
  obtain st' where d: "ipmi_sdr_dump_bin h f st = rret (0, st')" "sd_file h f (sd_world st') = Some (sdr_file_bytes ?rs)"
    using dump_at [OF assms(1-8)] by blast
  have len: "\<forall>r \<in> set ?rs. 1 \<le> length (r_body r) \<and> length (r_body r) \<le> 251" using assms(4) by (auto simp: sdr_ready_def wf_repo_def)
  have "\<exists>st2'. ipmi_sdr_add_from_file h2 g st2 = rret (0, st2') \<and> map rec_contents (s_recs s (sd_world st2')) = map rec_contents ?rs"
    if same: "sd_file h2 g (sd_world st2) = sd_file h f (sd_world st')"
  proof -
    obtain w where "ipmi_sdr_add_from_file h2 g st2 = rret (0, st2\<lparr>sd_world := w\<rparr>)" "map rec_contents (s_recs s w) = map rec_contents ?rs"
      using fill_from_file [OF assms(9-11), of g ?rs] same d(2) len by auto
    then show ?thesis by (intro exI [of _ "st2\<lparr>sd_world := w\<rparr>"]) simp
  qed
  with d(1) show ?thesis by blast
qed

definition sample_target_sdr :: "byte list option \<Rightarrow> repo_world sdr_state" where
  "sample_target_sdr bs = sample_sdr\<lparr>sd_world := \<lparr>t_recs = [sample_oem], t_resv = 1, t_cancels = 0, t_part = None, t_file = bs\<rparr>\<rparr>"

theorem sdr_dump_fill_roundtrip_witness:
  "\<exists>st' st2'. ipmi_sdr_dump_bin (repo_host 5) ''a'' sample_sdr = rret (0, st')
     \<and> ipmi_sdr_add_from_file (repo_host 9) ''b'' (sample_target_sdr (t_file (sd_world st'))) = rret (0, st2')
     \<and> map rec_contents (t_recs (sd_world st2')) = map rec_contents [sample_fan, sample_oem, sample_assoc]"
proof -
  have nb: "\<not> sd_use_built_in sample_sdr" "sd_list sample_sdr = []" by (simp_all add: sample_sdr_def)
  have ok: "\<forall>r \<in> set (v_recs repo_view (sd_world sample_sdr)). rec_data r \<noteq> None"
    using sample_listed by (simp add: sample_recs rec_listed_def)
  have t: "sd_intf (sample_target_sdr bs) = sample_intf" "s_ok repo_store (sd_world (sample_target_sdr bs))" for bs
    by (simp_all add: sample_target_sdr_def sample_sdr_def)
  note use = sdr_dump_fill_roundtrip [OF sample_controller sample_ready nb ok repo_file_writable [of 5 "''a''"] repo_stores [of 9] t]
  obtain st' where st': "ipmi_sdr_dump_bin (repo_host 5) ''a'' sample_sdr = rret (0, st')" using use by blast
  have "sd_file (repo_host 9) ''b'' (sd_world (sample_target_sdr (t_file (sd_world st')))) = sd_file (repo_host 5) ''a'' (sd_world st')"
    by (simp add: repo_host_def sample_target_sdr_def)
  with use [of "''b''" "t_file (sd_world st')"] st' show ?thesis by (auto simp: sample_recs)
qed

text \<open>
  C13: Whatever a controller answers, and whatever the file was a list came from, the searches and the
  reading of all records with an open iterator stay inside the blocks that hold the records and follow no
  NULL pointer, provided the largest response of the interface has at least three bytes; every entry of the list, new
  or old, is that of a well-formed record.
\<close>

theorem sdr_search_in_bounds:
  assumes "sdr_mem_ok st" and "sd_list_itr (snd (ipmi_sdr_list_cache_fromfile h ifile st)) = Some it" and "st1 = snd (ipmi_sdr_list_cache_fromfile h ifile st)"
  shows "(sdr_safe (\<lambda>_. sdr_mem_ok) (ipmi_sdr_find_sdr_bynumtype h gen_id num type st1))
     \<and> (sdr_safe (\<lambda>_. sdr_mem_ok) (ipmi_sdr_find_sdr_byid h (Some (c_str name 0)) st1))
     \<and> (sdr_safe (\<lambda>_. sdr_mem_ok) (ipmi_sdr_find_sdr_bysensortype h type st1))
     \<and> (sdr_safe (\<lambda>_. sdr_mem_ok) (ipmi_sdr_find_sdr_byentity h eid inst st1))
     \<and> (sdr_safe (\<lambda>_. sdr_mem_ok) (ipmi_sdr_find_sdr_bytype h type st1))
     \<and> (sdr_safe (\<lambda>_. sdr_mem_ok) (ipmi_sdr_list_cache h st1))"
proof -
  have "file_ok (sdr_file_loop bs 0 [])" for bs by (rule file_loop_ok) simp
  then have new: "\<forall>e \<in> set (snd (sdr_file_loop bs 0 [])). entry_ok e" for bs by (simp add: file_ok_def)
  have m: "sdr_mem_ok st1"
    using assms(1) new unfolding assms(3) ipmi_sdr_list_cache_fromfile_def
    by (auto simp: sdr_mem_ok_def reader_ok_def split: option.splits prod.splits) (metis snd_conv)+
  have i: "sd_list_itr st1 = Some it" using assms(2,3) by simp
  have "sdr_safe (\<lambda>_. sdr_mem_ok) (ipmi_sdr_find_sdr_bynumtype h gen_id num type st1)"
    unfolding ipmi_sdr_find_sdr_bynumtype_def by (rule sdr_safe_mono [OF by_numtype.first_safe [OF m i]]) blast
  moreover have "sdr_safe (\<lambda>_. sdr_mem_ok) (ipmi_sdr_find_sdr_byid h (Some (c_str name 0)) st1)"
    unfolding ipmi_sdr_find_sdr_byid_def option.simps by (rule sdr_safe_mono [OF by_id.first_safe [OF m i]]) blast
  moreover have "sdr_safe (\<lambda>_. sdr_mem_ok) (ipmi_sdr_find_sdr_bysensortype h type st1)"
    unfolding ipmi_sdr_find_sdr_bysensortype_def by (rule sdr_safe_mono [OF by_sensortype.all_safe [OF m i]]) blast
  moreover have "sdr_safe (\<lambda>_. sdr_mem_ok) (ipmi_sdr_find_sdr_byentity h eid inst st1)"
    unfolding ipmi_sdr_find_sdr_byentity_def by (rule sdr_safe_mono [OF by_entity.all_safe [OF m i]]) blast
  moreover have "sdr_safe (\<lambda>_. sdr_mem_ok) (ipmi_sdr_find_sdr_bytype h type st1)"
    unfolding ipmi_sdr_find_sdr_bytype_def by (rule sdr_safe_mono [OF by_type.all_safe [OF m i]]) blast
  moreover have "sdr_safe (\<lambda>_. sdr_mem_ok) (ipmi_sdr_list_cache h st1)"
    unfolding ipmi_sdr_list_cache_def sdr_open_list_def i
    by (auto intro!: sdr_safe_bind [OF find_rest_safe [OF m]])
  ultimately show ?thesis by (intro conjI)
qed

theorem sdr_search_in_bounds_witness:
  "sdr_safe (\<lambda>_. sdr_mem_ok)
     (ipmi_sdr_find_sdr_byid (repo_host 5) (Some (c_str ''Fan1'' 0)) (snd (ipmi_sdr_list_cache_fromfile (repo_host 5) (Some ''x'')
        ((sample_target_sdr (Some [1, 2, 3]))\<lparr>sd_list_itr := Some \<lparr>it_reservation = 1, it_total = 1, it_next = 0, it_use_built_in = False\<rparr>\<rparr>))))"
proof -
  let ?it = "\<lparr>it_reservation = 1, it_total = 1, it_next = 0, it_use_built_in = False\<rparr>"
  let ?st = "(sample_target_sdr (Some [1, 2, 3]))\<lparr>sd_list_itr := Some ?it\<rparr>"
  have "sdr_mem_ok ?st"
    using sample_response_size by (simp add: sdr_mem_ok_def reader_ok_def sample_target_sdr_def sample_sdr_def)
  moreover have "sd_list_itr (snd (ipmi_sdr_list_cache_fromfile (repo_host 5) (Some ''x'') ?st)) = Some ?it"
    by (simp add: ipmi_sdr_list_cache_fromfile_def repo_host_def sample_target_sdr_def sdr_file_loop.simps)
  ultimately show ?thesis using sdr_search_in_bounds [OF _ _ refl] by blast
qed

section \<open>Limits of the code\<close>

text \<open>
  Entries that a dump has put in the list have no record, only its raw bytes: a search in the
  same session follows a NULL pointer.
\<close>

lemma dumped_entry_null: "r_type r = 0x01 \<Longrightarrow> is_numtype gen_id num type (dump_entry r) = Inl Sdr_null" "r_type r = 0x01 \<Longrightarrow> is_id name (dump_entry r) = Inl Sdr_null"
  by (simp_all add: is_numtype_def is_id_def field_is_def deref_def dump_entry_def sdr_named_record_def)

text \<open>
  Filling from a controller's own records reads the name of a record also when the record
  could not be read.
\<close>

lemma unreadable_name_null: "ipmi_sdr_print_name_from_rawentry 0x01 None = Inl Sdr_null"
  by (simp add: ipmi_sdr_print_name_from_rawentry_def sdr_named_record_def deref_def)

text \<open>
  When the controller to copy from does not answer, the interface stays redirected to it, and the
  result is success.
\<close>

lemma copy_leaves_target:
  assumes "start b (set_target from_addr st) = rret (None, st')"
  shows "sdr_copy_to_sdrr h start b from_addr to_addr st = rret (0, st')"
  using assms by (simp add: sdr_copy_to_sdrr_def)

text \<open>The example in the usage message is not accepted; a range of one address overruns the array.\<close>

lemma range_list_example: "(ipmi_parse_range_list ''0x28,0x32,0x40-0x44'' :: (unit sdr_error + byte list option) option) = Some (Inr None)"
  by code_simp

lemma range_list_pair: "(ipmi_parse_range_list ''0x28,0x40-0x44'' :: (unit sdr_error + byte list option) option) = Some (Inr (Some [0x28, 0x40, 0x42, 0x44]))"
  by code_simp

lemma range_list_same_ends: "(ipmi_parse_range_list ''0x28-0x28'' :: (unit sdr_error + byte list option) option) = Some (Inl Sdr_out_of_bounds)"
  by code_simp

text \<open>A request to a sensor leaves the interface as it was.\<close>

lemma sensor_request_restores: "sdr_safe (\<lambda>_ st'. sd_intf st' = sd_intf st) (sensor_request h cmd data target lun channel st)"
proof -
  let ?st = "if BRIDGE_TO_SENSOR st target channel then st\<lparr>sd_intf := (sd_intf st)\<lparr>target_addr := ucast target, target_channel := channel\<rparr>\<rparr> else st"
  show ?thesis unfolding sensor_request_def Let_def
    by (rule sdr_safe_bind [OF send_safe [of ?st]]) auto
qed

end
