(* ===== verification/Sel.thy ===== *)
theory Sel
  imports Run Hpm2 Helper "HOL-Library.Monad_Syntax"
begin

text \<open>
  The system event log, lib/ipmi_sel.c: reading, listing and saving its entries, adding entries
  from a file, reservation, deletion and clearing, its clock, and the interpretation of the
  text logs of shelf managers.

  What an entry looks like when it is printed is left out. Printing looks up names, which can
  send requests; so what it does to the world is a parameter (\<open>sl_show\<close>, \<open>sl_detail\<close>), and so
  are the names that go into a saved line (\<open>sl_texts\<close>). The entries that have been printed
  are kept in order in \<open>sl_out\<close>: they are what a user sees.
\<close>

section \<open>Event records\<close>

record standard_spec_sel_rec =
  ev_timestamp :: u32
  ev_gen_id :: u16
  ev_evm_rev :: byte
  ev_sensor_type :: byte
  ev_sensor_num :: byte
  ev_event_type :: "7 word"
  ev_event_dir :: "1 word"
  ev_event_data :: "byte list"

record oem_ts_spec_sel_rec =
  ot_timestamp :: u32
  ot_manf_id :: "byte list"
  ot_oem_defined :: "byte list"

text \<open>
  \<open>struct sel_event_record\<close> is packed; the members of its union share 13 bytes, which are what
  is kept here. Writing a member gives its bytes, reading one takes the bytes apart.
\<close>

record sel_event_record =
  record_id :: u16
  record_type :: byte
  sel_type :: "byte list"

definition standard_bytes :: "standard_spec_sel_rec \<Rightarrow> byte list" where
  "standard_bytes s = le32 (ev_timestamp s) @ le16 (ev_gen_id s) @
     [ev_evm_rev s, ev_sensor_type s, ev_sensor_num s, ucast (ev_event_type s) OR push_bit 7 (ucast (ev_event_dir s))] @ ev_event_data s"

definition standard_type :: "sel_event_record \<Rightarrow> standard_spec_sel_rec" where
  "standard_type evt = (let u = sel_type evt in
     \<lparr>ev_timestamp = of_le32 (take 4 u), ev_gen_id = of_le16 (u ! 4) (u ! 5), ev_evm_rev = u ! 6, ev_sensor_type = u ! 7, ev_sensor_num = u ! 8,
      ev_event_type = ucast (u ! 9), ev_event_dir = ucast (drop_bit 7 (u ! 9)), ev_event_data = take 3 (drop 10 u)\<rparr>)"

definition oem_ts_bytes :: "oem_ts_spec_sel_rec \<Rightarrow> byte list" where
  "oem_ts_bytes s = le32 (ot_timestamp s) @ ot_manf_id s @ ot_oem_defined s"

text \<open>The first 16 bytes of the structure in memory.\<close>

definition evt_bytes :: "sel_event_record \<Rightarrow> byte list" where
  "evt_bytes evt = le16 (record_id evt) @ [record_type evt] @ sel_type evt"

definition evt_of_bytes :: "byte list \<Rightarrow> sel_event_record" where
  "evt_of_bytes bs = \<lparr>record_id = of_le16 (bs ! 0) (bs ! 1), record_type = bs ! 2, sel_type = drop 3 bs\<rparr>"

section \<open>State and surroundings\<close>

text \<open>The static variables that printing depends on: extended listings, and the manufacturer of a log in a file.\<close>

record sel_settings =
  sel_extended :: bool
  sel_iana :: u32

record 'w sel_state =
  sl_world :: 'w
  sl_settings :: sel_settings
  sl_out :: "sel_event_record list"

text \<open>
  The transport; printing; files (opened to be written, appended to, contents of one that can be
  read); the clock, and the conversion of a text to a time by the C library.
\<close>

record ('e, 'w) sel_host =
  sl_sendrecv :: "('e, 'w) sendrecv"
  sl_show :: "sel_settings \<Rightarrow> sel_event_record \<Rightarrow> 'w \<Rightarrow> 'e + 'w"
  sl_detail :: "sel_settings \<Rightarrow> sel_event_record \<Rightarrow> 'w \<Rightarrow> 'e + 'w"
  sl_texts :: "sel_settings \<Rightarrow> sel_event_record \<Rightarrow> 'w \<Rightarrow> 'e + (string \<times> string option) \<times> 'w"
  sl_open_write :: "string \<Rightarrow> 'w \<Rightarrow> bool \<times> 'w"
  sl_write :: "string \<Rightarrow> byte list \<Rightarrow> 'w \<Rightarrow> 'w"
  sl_file :: "string \<Rightarrow> 'w \<Rightarrow> byte list option"
  sl_time :: "'w \<Rightarrow> int"
  sl_parse_time :: "string \<Rightarrow> int option"

type_synonym ('e, 'a, 'w) sel = "('e, 'a \<times> 'w sel_state) run"

definition sel_send :: "('e, 'w) sel_host \<Rightarrow> byte \<Rightarrow> byte list \<Rightarrow> 'w sel_state \<Rightarrow> ('e, ipmi_rsp option, 'w) sel" where
  "sel_send h cmd data st =
     rbind (run_send id (sl_sendrecv h) (mk_rq 0x0A cmd data) (sl_world st)) (\<lambda>(rsp, w). rret (rsp, st\<lparr>sl_world := w\<rparr>))"

text \<open>Printing an entry with one of the printing functions.\<close>

definition sel_print :: "(sel_settings \<Rightarrow> sel_event_record \<Rightarrow> 'w \<Rightarrow> 'e + 'w) \<Rightarrow> sel_event_record \<Rightarrow> 'w sel_state \<Rightarrow> ('e, unit, 'w) sel" where
  "sel_print print evt st =
     rbind (Some (print (sl_settings st) evt (sl_world st))) (\<lambda>w. rret ((), st\<lparr>sl_world := w, sl_out := sl_out st @ [evt]\<rparr>))"

text \<open>\<open>fgets\<close> with a buffer of n characters: what it reads, and the rest. The text in the buffer ends at a NUL.\<close>

definition fgets :: "nat \<Rightarrow> string \<Rightarrow> string \<times> string" where
  "fgets n text =
     (let line = takeWhile (\<lambda>c. c \<noteq> CHR 0x0A) text;
          k = min (n - 1) (length line + 1)
      in (take k text, drop k text))"

section \<open>Reading entries\<close>

definition sel_entry_of :: "ipmi_rsp \<Rightarrow> sel_event_record" where
  "sel_entry_of r =
     (let typ = rsp_byte r 4; ts = of_le32 [rsp_byte r 5, rsp_byte r 6, rsp_byte r 7, rsp_byte r 8]
      in \<lparr>record_id = of_le16 (rsp_byte r 2) (rsp_byte r 3), record_type = typ,
          sel_type =
            (if typ < 0xC0 then standard_bytes
               \<lparr>ev_timestamp = ts, ev_gen_id = of_le16 (rsp_byte r 9) (rsp_byte r 10), ev_evm_rev = rsp_byte r 11,
                ev_sensor_type = rsp_byte r 12, ev_sensor_num = rsp_byte r 13, ev_event_type = ucast (rsp_byte r 14 AND 0x7F),
                ev_event_dir = ucast (drop_bit 7 (rsp_byte r 14 AND 0x80)), ev_event_data = [rsp_byte r 15, rsp_byte r 16, rsp_byte r 17]\<rparr>
             else if typ < 0xE0 then oem_ts_bytes
               \<lparr>ot_timestamp = ts, ot_manf_id = [rsp_byte r 11, rsp_byte r 10, rsp_byte r 9], ot_oem_defined = rsp_bytes r 12 6\<rparr>
             else rsp_bytes r 5 13)\<rparr>)"

text \<open>The identifier of the next entry, zero for a failure, and the entry unless it was left as it was.\<close>

definition ipmi_sel_get_std_entry :: "('e, 'w) sel_host \<Rightarrow> u16 \<Rightarrow> 'w sel_state \<Rightarrow> ('e, u16 \<times> sel_event_record option, 'w) sel" where
  "ipmi_sel_get_std_entry h rid st =
     rbind (sel_send h 0x43 [0, 0, ucast rid, ucast (drop_bit 8 rid), 0, 0xFF] st) (\<lambda>(rsp, st1).
       case rsp of
         None \<Rightarrow> rret ((0, None), st1)
       | Some r \<Rightarrow>
           if rsp_ccode r \<noteq> 0 then rret ((0, None), st1)
           else if rsp_data_len r < 18 then rret ((0, None), st1)
           else rret ((of_le16 (rsp_byte r 0) (rsp_byte r 1), Some (sel_entry_of r)), st1))"

text \<open>The number of entries: -1 for a failure of \<open>Get SEL Info\<close>.\<close>

definition sel_count :: "('e, 'w) sel_host \<Rightarrow> 'w sel_state \<Rightarrow> ('e, int, 'w) sel" where
  "sel_count h st =
     rbind (sel_send h 0x40 [] st) (\<lambda>(rsp, st1).
       case rsp of
         None \<Rightarrow> rret (-1, st1)
       | Some r \<Rightarrow> if rsp_ccode r \<noteq> 0 then rret (-1, st1)
                   else if rsp_data_len r \<noteq> 14 then rret (-1, st1)
                   else rret (int (unat (of_le16 (rsp_byte r 1) (rsp_byte r 2))), st1))"

text \<open>Passing over entries. The second try after a failure asks for entry 0, the first one.\<close>

fun sel_skip :: "('e, 'w) sel_host \<Rightarrow> nat \<Rightarrow> u16 \<Rightarrow> 'w sel_state \<Rightarrow> ('e, u16, 'w) sel" where
  "sel_skip h 0 next_id st = rret (next_id, st)"
| "sel_skip h (Suc n) next_id st =
     rbind (ipmi_sel_get_std_entry h next_id st) (\<lambda>((next1, _), st1).
       if next1 = 0 then
         rbind (ipmi_sel_get_std_entry h next1 st1) (\<lambda>((next2, _), st2).
           if next2 = 0 then rret (next2, st2) else sel_skip h n next2 st2)
       else sel_skip h n next1 st1)"

section \<open>Saving entries\<close>

definition sel_line :: "sel_event_record \<Rightarrow> string \<Rightarrow> string option \<Rightarrow> string" where
  "sel_line evt sensor description =
     (let s = standard_type evt
      in concat (map (\<lambda>b. ''0x'' @ hex2 b @ '' '')
           ([ev_evm_rev s, ev_sensor_type s, ev_sensor_num s, ucast (ev_event_type s) OR push_bit 7 (ucast (ev_event_dir s))] @ ev_event_data s))
         @ ''# '' @ sensor @ '' #0x'' @ hex2 (ev_sensor_num s) @ '' '' @ (case description of None \<Rightarrow> ''Unknown'' | Some d \<Rightarrow> d) @ [CHR 0x0A])"

definition ipmi_sel_print_event_file :: "('e, 'w) sel_host \<Rightarrow> sel_event_record \<Rightarrow> string \<Rightarrow> 'w sel_state \<Rightarrow> ('e, unit, 'w) sel" where
  "ipmi_sel_print_event_file h evt f st =
     rbind (Some (sl_texts h (sl_settings st) evt (sl_world st))) (\<lambda>((sensor, description), w).
       rret ((), st\<lparr>sl_world := sl_write h f (text_bytes (sel_line evt sensor description)) w\<rparr>))"

definition sel_store :: "('e, 'w) sel_host \<Rightarrow> string option \<Rightarrow> bool \<Rightarrow> sel_event_record \<Rightarrow> 'w sel_state \<Rightarrow> ('e, unit, 'w) sel" where
  "sel_store h fp binary evt st =
     (case fp of
        None \<Rightarrow> rret ((), st)
      | Some f \<Rightarrow> if binary then rret ((), st\<lparr>sl_world := sl_write h f (evt_bytes evt) (sl_world st)\<rparr>)
                  else ipmi_sel_print_event_file h evt f st)"

text \<open>
  The loop that lists: it follows the identifiers the controller gives, so it may not end. n
  entries have been listed.
\<close>

partial_function (option) sel_list_loop ::
    "('e, 'w) sel_host \<Rightarrow> string option \<Rightarrow> bool \<Rightarrow> int \<Rightarrow> u16 \<Rightarrow> int \<Rightarrow> 'w sel_state \<Rightarrow> ('e, unit, 'w) sel" where
  "sel_list_loop h fp binary count next_id n st =
     (if next_id = 0xFFFF then rret ((), st)
      else rbind (ipmi_sel_get_std_entry h next_id st) (\<lambda>(r1, st1).
        rbind (if fst r1 = 0 then ipmi_sel_get_std_entry h next_id st1 else rret (r1, st1)) (\<lambda>((next2, evt), st2).
          if next2 = 0 then rret ((), st2)
          else rbind (sel_print (sl_show h) (the evt) st2) (\<lambda>(_, st3).
            rbind (sel_store h fp binary (the evt) st3) (\<lambda>(_, st4).
              if n + 1 = count then rret ((), st4) else sel_list_loop h fp binary count next2 (n + 1) st4)))))"

definition sel_open_save :: "('e, 'w) sel_host \<Rightarrow> string option \<Rightarrow> 'w sel_state \<Rightarrow> string option \<times> 'w sel_state" where
  "sel_open_save h savefile st =
     (case savefile of
        None \<Rightarrow> (None, st)
      | Some f \<Rightarrow> (case sl_open_write h f (sl_world st) of (ok, w) \<Rightarrow> (if ok then Some f else None, st\<lparr>sl_world := w\<rparr>)))"

text \<open>Where a listing starts: return code, identifier, count.\<close>

definition sel_first :: "('e, 'w) sel_host \<Rightarrow> int \<Rightarrow> 'w sel_state \<Rightarrow> ('e, int \<times> u16 \<times> int, 'w) sel" where
  "sel_first h count st =
     (if count < 0
      then rbind (sel_count h st) (\<lambda>(entries, st1).
             if entries < 0 then rret ((-1, 0, count), st1)
             else (let count1 = (if - count > entries then - entries else count)
                   in rbind (sel_skip h (nat (entries + count1)) 0 st1) (\<lambda>(next_id, st2). rret ((0, next_id, count1), st2))))
      else rret ((0, 0, count), st))"

definition ipmi_sel_savelist_entries :: "('e, 'w) sel_host \<Rightarrow> int \<Rightarrow> string option \<Rightarrow> bool \<Rightarrow> 'w sel_state \<Rightarrow> ('e, int, 'w) sel" where
  "ipmi_sel_savelist_entries h count savefile binary st =
     rbind (sel_count h st) (\<lambda>(total, st1).
       if total < 0 then rret (-1, st1)
       else if total = 0 then rret (0, st1)
       else
         rbind (sel_first h count st1) (\<lambda>((rc, next_id, count1), st4).
           if rc \<noteq> 0 then rret (rc, st4)
           else (case sel_open_save h savefile st4 of (fp, st5) \<Rightarrow>
                   rbind (sel_list_loop h fp binary count1 next_id 0 st5) (\<lambda>(_, st6). rret (0, st6)))))"

definition ipmi_sel_list_entries :: "('e, 'w) sel_host \<Rightarrow> int \<Rightarrow> 'w sel_state \<Rightarrow> ('e, int, 'w) sel" where
  "ipmi_sel_list_entries h count = ipmi_sel_savelist_entries h count None False"

definition ipmi_sel_save_entries :: "('e, 'w) sel_host \<Rightarrow> int \<Rightarrow> string \<Rightarrow> 'w sel_state \<Rightarrow> ('e, int, 'w) sel" where
  "ipmi_sel_save_entries h count savefile = ipmi_sel_savelist_entries h count (Some savefile) False"

definition ipmi_sel_writeraw :: "('e, 'w) sel_host \<Rightarrow> string \<Rightarrow> 'w sel_state \<Rightarrow> ('e, int, 'w) sel" where
  "ipmi_sel_writeraw h savefile = ipmi_sel_savelist_entries h 0 (Some savefile) True"

text \<open>Reading a raw file back: the rest of the file.\<close>

function sel_raw_loop :: "('e, 'w) sel_host \<Rightarrow> byte list \<Rightarrow> 'w sel_state \<Rightarrow> ('e, int, 'w) sel" where
  "sel_raw_loop h bs st =
     (if length bs < 16 then rret (if bs \<noteq> [] then -1 else 0, st)
      else rbind (sel_print (sl_show h) (evt_of_bytes (take 16 bs)) st) (\<lambda>(_, st1). sel_raw_loop h (drop 16 bs) st1))"
  by pat_completeness auto
termination
  by (relation "measure (\<lambda>(_, bs, _). length bs)") auto

declare sel_raw_loop.simps [simp del]

definition ipmi_sel_readraw :: "('e, 'w) sel_host \<Rightarrow> string \<Rightarrow> 'w sel_state \<Rightarrow> ('e, int, 'w) sel" where
  "ipmi_sel_readraw h inputfile st =
     (case sl_file h inputfile (sl_world st) of None \<Rightarrow> rret (-1, st) | Some bs \<Rightarrow> sel_raw_loop h bs st)"

section \<open>Adding entries\<close>

definition ipmi_sel_add_entry :: "('e, 'w) sel_host \<Rightarrow> sel_event_record \<Rightarrow> 'w sel_state \<Rightarrow> ('e, int, 'w) sel" where
  "ipmi_sel_add_entry h rec st =
     rbind (sel_print (sl_show h) rec st) (\<lambda>(_, st1).
       rbind (sel_send h 0x44 (evt_bytes rec) st1) (\<lambda>(rsp, st2).
         case rsp of None \<Rightarrow> rret (-1, st2) | Some r \<Rightarrow> if rsp_ccode r \<noteq> 0 then rret (-1, st2) else rret (0, st2)))"

text \<open>A line without its comment and the white space at its ends; \<open>strtok\<close> with the blank as separator.\<close>

definition sel_clip :: "string \<Rightarrow> string" where
  "sel_clip buf = dropWhile isspace (rev (dropWhile isspace (rev (takeWhile (\<lambda>c. c \<noteq> CHR ''#'') buf))))"

function sel_tokens :: "string \<Rightarrow> string list" where
  "sel_tokens s =
     (let t = dropWhile (\<lambda>c. c = CHR '' '') s
      in if t = [] then [] else takeWhile (\<lambda>c. c \<noteq> CHR '' '') t # sel_tokens (dropWhile (\<lambda>c. c \<noteq> CHR '' '') t))"
  by pat_completeness auto
termination
proof (relation "measure length", goal_cases)
  case (2 s t)
  have t: "t \<noteq> []" "t = dropWhile (\<lambda>c. c = CHR '' '') s" using 2 by simp_all
  then have "hd t \<noteq> CHR '' ''" using hd_dropWhile by blast
  with t(1) obtain c cs where t: "t = c # cs" "c \<noteq> CHR '' ''" by (metis list.collapse)
  have "length t \<le> length s" using 2(1) by (simp add: length_dropWhile_le)
  with t show ?case using length_dropWhile_le [of "\<lambda>c. c \<noteq> CHR '' ''" cs] by simp
qed simp

declare sel_tokens.simps [simp del]

text \<open>The seven bytes of an event, of which some have been read; the rest of a line is not looked at.\<close>

fun sel_event_data :: "string list \<Rightarrow> byte list \<Rightarrow> byte list option" where
  "sel_event_data [] rqdata = (if length rqdata < 7 then None else Some rqdata)"
| "sel_event_data (tok # toks) rqdata =
     (if length rqdata = 7 then Some rqdata
      else (case str2uchar (Some tok) (Some 0) of (rc, v) \<Rightarrow>
              if rc \<noteq> 0 then None else sel_event_data toks (rqdata @ [word_of_int (the v)])))"

definition sel_event_of :: "byte list \<Rightarrow> sel_event_record" where
  "sel_event_of rqdata =
     \<lparr>record_id = 0, record_type = 0x02,
      sel_type = standard_bytes
        \<lparr>ev_timestamp = 0, ev_gen_id = 0x41, ev_evm_rev = rqdata ! 0, ev_sensor_type = rqdata ! 1, ev_sensor_num = rqdata ! 2,
         ev_event_type = ucast (rqdata ! 3 AND 0x7F), ev_event_dir = ucast (drop_bit 7 (rqdata ! 3 AND 0x80)),
         ev_event_data = [rqdata ! 4, rqdata ! 5, rqdata ! 6]\<rparr>\<rparr>"

lemma fgets_shorter: "(buf, rest) = fgets n text \<Longrightarrow> text \<noteq> [] \<Longrightarrow> 1 < n \<Longrightarrow> length rest < length text"
  by (auto simp: fgets_def Let_def)

text \<open>The rest of the file, and the result of the last entry that was added.\<close>

function sel_add_loop :: "('e, 'w) sel_host \<Rightarrow> string \<Rightarrow> int \<Rightarrow> 'w sel_state \<Rightarrow> ('e, int, 'w) sel" where
  "sel_add_loop h text rc st =
     (if text = [] then rret (rc, st)
      else (case fgets 1024 text of (buf, rest) \<Rightarrow>
        (let s = sel_clip (c_text buf)
         in if s = [] then sel_add_loop h rest rc st
            else (case sel_event_data (sel_tokens s) [] of
                    None \<Rightarrow> sel_add_loop h rest rc st
                  | Some rqdata \<Rightarrow>
                      rbind (ipmi_sel_add_entry h (sel_event_of rqdata) st) (\<lambda>(rc1, st1).
                        if rc1 < 0 then rret (rc1, st1) else sel_add_loop h rest rc1 st1)))))"
  by pat_completeness auto
termination
  by (relation "measure (\<lambda>(_, text, _). length text)") (auto dest!: fgets_shorter)

declare sel_add_loop.simps [simp del]

definition ipmi_sel_add_entries_fromfile :: "('e, 'w) sel_host \<Rightarrow> string option \<Rightarrow> 'w sel_state \<Rightarrow> ('e, int, 'w) sel" where
  "ipmi_sel_add_entries_fromfile h filename st =
     (case filename of
        None \<Rightarrow> rret (-1, st)
      | Some f \<Rightarrow> (case sl_file h f (sl_world st) of None \<Rightarrow> rret (-1, st) | Some bs \<Rightarrow> sel_add_loop h (file_text bs) 0 st))"

section \<open>Reservation, deletion, clock\<close>

definition ipmi_sel_reserve :: "('e, 'w) sel_host \<Rightarrow> 'w sel_state \<Rightarrow> ('e, u16, 'w) sel" where
  "ipmi_sel_reserve h st =
     rbind (sel_send h 0x42 [] st) (\<lambda>(rsp, st1).
       case rsp of
         None \<Rightarrow> rret (0, st1)
       | Some r \<Rightarrow> if rsp_ccode r \<noteq> 0 then rret (0, st1)
                   else if rsp_data_len r < 2 then rret (0, st1)
                   else rret (of_le16 (rsp_byte r 0) (rsp_byte r 1), st1))"

definition ipmi_sel_clear :: "('e, 'w) sel_host \<Rightarrow> 'w sel_state \<Rightarrow> ('e, int, 'w) sel" where
  "ipmi_sel_clear h st =
     rbind (ipmi_sel_reserve h st) (\<lambda>(reserve_id, st1).
       if reserve_id = 0 then rret (-1, st1)
       else rbind (sel_send h 0x47 (le16 reserve_id @ [0x43, 0x4C, 0x52, 0xAA]) st1) (\<lambda>(rsp, st2).
         case rsp of None \<Rightarrow> rret (-1, st2) | Some r \<Rightarrow> if rsp_ccode r \<noteq> 0 then rret (-1, st2) else rret (0, st2)))"

text \<open>The arguments are handled from the last one on; here they come in this order.\<close>

fun sel_delete_loop :: "('e, 'w) sel_host \<Rightarrow> u16 \<Rightarrow> string list \<Rightarrow> int \<Rightarrow> 'w sel_state \<Rightarrow> ('e, int, 'w) sel" where
  "sel_delete_loop h reserve_id [] rc st = rret (rc, st)"
| "sel_delete_loop h reserve_id (arg # args) rc st =
     (case str2ushort (Some arg) (Some 0) of (r, v) \<Rightarrow>
        if r \<noteq> 0 then sel_delete_loop h reserve_id args (-1) st
        else rbind (sel_send h 0x46 (le16 reserve_id @ le16 (word_of_int (the v))) st) (\<lambda>(rsp, st1).
          case rsp of
            None \<Rightarrow> sel_delete_loop h reserve_id args (-1) st1
          | Some x \<Rightarrow> if rsp_ccode x \<noteq> 0 then sel_delete_loop h reserve_id args (-1) st1 else sel_delete_loop h reserve_id args rc st1))"

definition ipmi_sel_delete :: "('e, 'w) sel_host \<Rightarrow> string list \<Rightarrow> 'w sel_state \<Rightarrow> ('e, int, 'w) sel" where
  "ipmi_sel_delete h argv st =
     (if argv = [] \<or> hd argv = ''help'' then rret (-1, st)
      else rbind (ipmi_sel_reserve h st) (\<lambda>(rid, st1).
        if rid = 0 then rret (-1, st1) else sel_delete_loop h rid (rev argv) 0 st1))"

definition ipmi_sel_get_time :: "('e, 'w) sel_host \<Rightarrow> 'w sel_state \<Rightarrow> ('e, u32 option, 'w) sel" where
  "ipmi_sel_get_time h st =
     rbind (sel_send h 0x48 [] st) (\<lambda>(rsp, st1).
       case rsp of
         None \<Rightarrow> rret (None, st1)
       | Some r \<Rightarrow> if rsp_ccode r \<noteq> 0 then rret (None, st1)
                   else if rsp_data_len r \<noteq> 4 then rret (None, st1)
                   else rret (Some (of_le32 [rsp_byte r 0, rsp_byte r 1, rsp_byte r 2, rsp_byte r 3]), st1))"

definition ipmi_sel_set_time :: "('e, 'w) sel_host \<Rightarrow> string \<Rightarrow> 'w sel_state \<Rightarrow> ('e, int, 'w) sel" where
  "ipmi_sel_set_time h time_string st =
     (case (if strcasecmp_eq time_string ''now'' then Some (sl_time h (sl_world st))
            else (case sl_parse_time h time_string of None \<Rightarrow> None | Some t \<Rightarrow> if t \<ge> 0 then Some t else None)) of
        None \<Rightarrow> rret (-1, st)
      | Some t \<Rightarrow>
          rbind (sel_send h 0x49 (le32 (word_of_int t)) st) (\<lambda>(rsp, st1).
            case rsp of
              None \<Rightarrow> rret (-1, st1)
            | Some r \<Rightarrow> if rsp_ccode r \<noteq> 0 then rret (-1, st1) else rbind (ipmi_sel_get_time h st1) (\<lambda>(_, st2). rret (0, st2))))"

definition ipmi_sel_get_info :: "('e, 'w) sel_host \<Rightarrow> 'w sel_state \<Rightarrow> ('e, int, 'w) sel" where
  "ipmi_sel_get_info h st =
     rbind (sel_send h 0x40 [] st) (\<lambda>(rsp, st1).
       case rsp of
         None \<Rightarrow> rret (-1, st1)
       | Some r \<Rightarrow>
           if rsp_ccode r \<noteq> 0 then rret (-1, st1)
           else if rsp_data_len r \<noteq> 14 then rret (-1, st1)
           else if rsp_byte r 13 AND 1 \<noteq> 0
           then rbind (sel_send h 0x41 [] st1) (\<lambda>(rsp2, st2).
                  case rsp2 of None \<Rightarrow> rret (-1, st2) | Some r2 \<Rightarrow> if rsp_ccode r2 \<noteq> 0 then rret (-1, st2) else rret (0, st2))
           else rret (0, st1))"

text \<open>Showing entries by their identifiers, in detail.\<close>

fun sel_show_loop :: "('e, 'w) sel_host \<Rightarrow> string list \<Rightarrow> int \<Rightarrow> 'w sel_state \<Rightarrow> ('e, int, 'w) sel" where
  "sel_show_loop h [] rc st = rret (rc, st)"
| "sel_show_loop h (arg # args) rc st =
     (case str2ushort (Some arg) (Some 0) of (r, v) \<Rightarrow>
        if r \<noteq> 0 then sel_show_loop h args (-1) st
        else rbind (ipmi_sel_get_std_entry h (word_of_int (the v)) st) (\<lambda>((next_id, evt), st1).
          if next_id = 0 then sel_show_loop h args (-1) st1
          else (let e = the evt; s = standard_type e
                in if ev_sensor_num s = 0 \<and> ev_sensor_type s = 0 \<and> record_type e = 0 then sel_show_loop h args (-1) st1
                   else rbind (sel_print (sl_detail h) e st1) (\<lambda>(_, st2). sel_show_loop h args rc st2))))"

definition ipmi_sel_show_entry :: "('e, 'w) sel_host \<Rightarrow> string list \<Rightarrow> 'w sel_state \<Rightarrow> ('e, int, 'w) sel" where
  "ipmi_sel_show_entry h argv st = (if argv = [] \<or> hd argv = ''help'' then rret (-1, st) else sel_show_loop h argv 0 st)"

section \<open>Logs of shelf managers\<close>

text \<open>
  A line like \<open>0x001F: Event: at Mar 27 06:41:10 2007;from:(0x9a,0,7);sensor:(0xc3,119);
  event:0x6f(asserted): 0xA3 0x00 0x88\<close>. Every failure has the same result. A number is taken
  from the front of what is left of the line; \<open>errno\<close> is set only for one out of range.
\<close>

definition ipmi_sel_interpret_after :: "string \<Rightarrow> char \<Rightarrow> string option" where
  "ipmi_sel_interpret_after cursor delimiter =
     (case dropWhile (\<lambda>c. c \<noteq> delimiter) cursor of [] \<Rightarrow> None | _ # rest \<Rightarrow> Some rest)"

definition pps_num :: "nat \<Rightarrow> string \<Rightarrow> int option" where
  "pps_num base cursor = (case strtol base cursor of (v, _, err) \<Rightarrow> if err then None else Some v)"

text \<open>The data of hot swap events come as text: number of the FRU, previous and current state, cause.\<close>

definition pps_hotswap :: "string \<Rightarrow> byte list option" where
  "pps_hotswap cursor = do {
     c0 \<leftarrow> (case dropWhile (\<lambda>c. \<not> (CHR ''0'' \<le> c \<and> c \<le> CHR ''9'')) cursor of [] \<Rightarrow> None | c # cs \<Rightarrow> Some (c # cs));
     fru \<leftarrow> pps_num 10 c0;
     c1 \<leftarrow> ipmi_sel_interpret_after c0 (CHR ''M'');
     prev \<leftarrow> pps_num 10 c1;
     c2 \<leftarrow> ipmi_sel_interpret_after c1 (CHR ''M'');
     cur \<leftarrow> pps_num 10 c2;
     c3 \<leftarrow> ipmi_sel_interpret_after c2 (CHR ''='');
     cause \<leftarrow> pps_num 16 c3;
     Some [0xA0 OR word_of_int cur, word_of_int prev OR push_bit 4 (word_of_int cause), word_of_int fru]
   }"

definition pps_data :: "string \<Rightarrow> byte list option" where
  "pps_data cursor = do {
     d0 \<leftarrow> pps_num 16 cursor;
     c1 \<leftarrow> ipmi_sel_interpret_after cursor (CHR '' '');
     d1 \<leftarrow> pps_num 16 c1;
     c2 \<leftarrow> ipmi_sel_interpret_after c1 (CHR '' '');
     d2 \<leftarrow> pps_num 16 c2;
     Some [word_of_int d0, word_of_int d1, word_of_int d2]
   }"

definition pps_line :: "string \<Rightarrow> sel_event_record option" where
  "pps_line buffer = do {
     rid \<leftarrow> pps_num 16 buffer;
     c1 \<leftarrow> ipmi_sel_interpret_after buffer (CHR '';'');
     c2 \<leftarrow> ipmi_sel_interpret_after c1 (CHR '';'');
     c3 \<leftarrow> ipmi_sel_interpret_after c2 (CHR ''('');
     stype \<leftarrow> pps_num 16 c3;
     c4 \<leftarrow> ipmi_sel_interpret_after c3 (CHR '','');
     snum \<leftarrow> pps_num 10 c4;
     c5 \<leftarrow> ipmi_sel_interpret_after c4 (CHR '':'');
     etype \<leftarrow> pps_num 16 c5;
     c6 \<leftarrow> ipmi_sel_interpret_after c5 (CHR ''('');
     deasserted \<leftarrow> (case c6 of [] \<Rightarrow> None | c # _ \<Rightarrow> Some (c \<noteq> CHR ''a''));
     c7 \<leftarrow> ipmi_sel_interpret_after c6 (CHR '' '');
     data \<leftarrow> (if (word_of_int stype :: byte) = 0xF0 then pps_hotswap c7
             else if c7 \<noteq> [] \<and> hd c7 = CHR ''0'' then pps_data c7
             else Some [0, 0, 0]);
     Some \<lparr>record_id = word_of_int rid, record_type = 2,
       sel_type = standard_bytes
         \<lparr>ev_timestamp = 0, ev_gen_id = 0x0020, ev_evm_rev = 4, ev_sensor_type = word_of_int stype, ev_sensor_num = word_of_int snum,
          ev_event_type = word_of_int etype, ev_event_dir = (if deasserted then 1 else 0), ev_event_data = data\<rparr>\<rparr>
   }"

text \<open>The loop ends when a line cannot be read, also at the end of the file, or is malformed.\<close>

function sel_pps_loop :: "('e, 'w) sel_host \<Rightarrow> string \<Rightarrow> 'w sel_state \<Rightarrow> ('e, int, 'w) sel" where
  "sel_pps_loop h text st =
     (if text = [] then rret (-1, st)
      else (case fgets 256 text of (buf, rest) \<Rightarrow>
        if length (c_text buf) = 255 \<and> c_text buf ! 254 \<noteq> CHR 0x0A \<and> rest \<noteq> [] then rret (-1, st)
        else (case pps_line (c_text buf) of
                None \<Rightarrow> rret (-1, st)
              | Some evt \<Rightarrow> rbind (sel_print (sl_show h) evt st) (\<lambda>(_, st1). sel_pps_loop h rest st1))))"
  by pat_completeness auto
termination
  by (relation "measure (\<lambda>(_, text, _). length text)") (auto dest!: fgets_shorter)

declare sel_pps_loop.simps [simp del]

definition ipmi_sel_interpret :: "('e, 'w) sel_host \<Rightarrow> u32 \<Rightarrow> string \<Rightarrow> string \<Rightarrow> 'w sel_state \<Rightarrow> ('e, int, 'w) sel" where
  "ipmi_sel_interpret h iana readfile format st =
     (let st1 = st\<lparr>sl_settings := (sl_settings st)\<lparr>sel_iana := iana\<rparr>\<rparr>
      in if format = ''pps''
         then (case sl_file h readfile (sl_world st1) of None \<Rightarrow> rret (-1, st1) | Some bs \<Rightarrow> sel_pps_loop h (file_text bs) st1)
         else rret (-1, st1))"

section \<open>The command\<close>

definition set_extended :: "bool \<Rightarrow> 'w sel_state \<Rightarrow> 'w sel_state" where
  "set_extended b st = st\<lparr>sl_settings := (sl_settings st)\<lparr>sel_extended := b\<rparr>\<rparr>"

definition sel_list_cmd :: "('e, 'w) sel_host \<Rightarrow> string list \<Rightarrow> 'w sel_state \<Rightarrow> ('e, int, 'w) sel" where
  "sel_list_cmd h args st =
     (case (case args of
              [n] \<Rightarrow> Some (Some n, 1)
            | [dir, n] \<Rightarrow> if dir = ''last'' then Some (Some n, -1) else if dir = ''first'' then Some (Some n, 1) else None
            | _ \<Rightarrow> Some (None, 1)) of
        None \<Rightarrow> rret (-1, st)
      | Some (None, _) \<Rightarrow> ipmi_sel_list_entries h 0 st
      | Some (Some countstr, sign) \<Rightarrow>
          (case str2int (Some countstr) (Some 0) of (r, v) \<Rightarrow>
             if r \<noteq> 0 then rret (-1, st) else ipmi_sel_list_entries h (the v * sign) st))"

definition sel_time_cmd :: "('e, 'w) sel_host \<Rightarrow> string list \<Rightarrow> 'w sel_state \<Rightarrow> ('e, int, 'w) sel" where
  "sel_time_cmd h args st =
     (case args of
        [] \<Rightarrow> rret (0, st)
      | sub # rest \<Rightarrow>
          if sub = ''get'' then rbind (ipmi_sel_get_time h st) (\<lambda>(_, st1). rret (0, st1))
          else if sub = ''set'' then (case rest of [] \<Rightarrow> rret (0, st) | t # _ \<Rightarrow> ipmi_sel_set_time h t st)
          else rret (0, st))"

definition ipmi_sel_main :: "('e, 'w) sel_host \<Rightarrow> string list \<Rightarrow> 'w sel_state \<Rightarrow> ('e, int, 'w) sel" where
  "ipmi_sel_main h argv st =
     (case argv of
        [] \<Rightarrow> ipmi_sel_get_info h st
      | cmd # args \<Rightarrow>
          if cmd = ''help'' then rret (0, st)
          else if cmd = ''interpret'' then
            (if length args < 3 then rret (0, st)
             else (case str2uint (Some (args ! 0)) (Some 0) of (r, iana) \<Rightarrow>
                     if r \<noteq> 0 then rret (-1, st) else ipmi_sel_interpret h (word_of_int (the iana)) (args ! 1) (args ! 2) st))
          else if cmd = ''info'' then ipmi_sel_get_info h st
          else if cmd = ''save'' then (if args = [] then rret (0, st) else ipmi_sel_save_entries h 0 (hd args) st)
          else if cmd = ''add'' then (if args = [] then rret (0, st) else ipmi_sel_add_entries_fromfile h (Some (hd args)) st)
          else if cmd = ''writeraw'' then (if args = [] then rret (0, st) else ipmi_sel_writeraw h (hd args) st)
          else if cmd = ''readraw'' then (if args = [] then rret (0, st) else ipmi_sel_readraw h (hd args) st)
          else if cmd = ''ereadraw'' then (if args = [] then rret (0, st) else ipmi_sel_readraw h (hd args) (set_extended True st))
          else if cmd = ''list'' \<or> cmd = ''elist'' then sel_list_cmd h args (set_extended (cmd = ''elist'') st)
          else if cmd = ''clear'' then ipmi_sel_clear h st
          else if cmd = ''delete'' then (if args = [] then rret (0, st) else ipmi_sel_delete h args st)
          else if cmd = ''get'' then (if args = [] then rret (0, st) else ipmi_sel_show_entry h args st)
          else if cmd = ''time'' then sel_time_cmd h args st
          else rret (-1, st))"

end
