(* ===== verification/Sel_Log.thy ===== *)
theory Sel_Log
  imports Sel
begin

text \<open>
  Properties of the system event log: a controller with a log as the specification describes
  it (\<open>sel_serves\<close>, \<open>sel_adds\<close>, \<open>sel_deletes\<close>), what listing, saving, adding and deleting do against any
  such controller, and an executable controller that is one.
\<close>

section \<open>Entries as bytes\<close>

lemma byte_bits: "n < LENGTH(8) \<Longrightarrow> (n < 7 \<Longrightarrow> P) \<Longrightarrow> (n = 7 \<Longrightarrow> P) \<Longrightarrow> P"
  by (cases "n < 7") simp_all

lemma event_type_byte' [simp]: "ucast (ucast b :: 7 word) OR push_bit 7 (ucast (ucast (drop_bit 7 b) :: 1 word)) = (b :: byte)"
  by (rule bit_word_eqI, erule byte_bits) (simp_all add: bit_simps)

lemma event_type_byte [simp]: "ucast (ucast (b AND 0x7F) :: 7 word) OR push_bit 7 (ucast (ucast (drop_bit 7 (b AND 0x80)) :: 1 word)) = (b :: byte)"
proof -
  have "(ucast (b AND 0x7F) :: 7 word) = ucast b"
  proof (rule bit_word_eqI)
    have m: "(0x7F :: byte) = mask 7" by (simp add: mask_eq_exp_minus_1)
    show "n < LENGTH(7) \<Longrightarrow> bit (ucast (b AND 0x7F) :: 7 word) n \<longleftrightarrow> bit (ucast b :: 7 word) n" for n
      unfolding m by (simp add: bit_simps)
  qed
  moreover have "(ucast (drop_bit 7 (b AND 0x80)) :: 1 word) = ucast (drop_bit 7 b)"
    by (rule bit_word_eqI) (simp add: bit_simps)
  ultimately show ?thesis by (simp only: event_type_byte')
qed

lemma event_type_byte1 [simp]: "ucast (ucast (b AND 0x7F) :: 7 word) OR push_bit 7 (ucast (ucast (drop_bit 7 b AND 1) :: 1 word)) = (b :: byte)"
  using event_type_byte [of b] by simp

lemma byte_bit_high [simp]: "8 \<le> m \<Longrightarrow> \<not> bit (b :: byte) (m + n)"
  by (auto dest: bit_imp_le_length)

lemma le16_of_le16 [simp]: "le16 (of_le16 a b) = [a, b]"
  by (auto simp: le16_def of_le16_def intro!: bit_word_eqI simp: bit_simps)

lemma of_le16_bytes [simp]: "of_le16 (ucast w) (ucast (drop_bit 8 w)) = w"
  by (rule bit_word_eqI) (auto simp: of_le16_def bit_simps)

lemma le32_of_le32 [simp]: "le32 (of_le32 [a, b, c, d]) = [a, b, c, d]"
  by (auto simp: le32_def of_le32_def intro!: bit_word_eqI simp: bit_simps)

section \<open>A controller with a log\<close>

text \<open>An entry of the log: its identifier, its type and the 13 bytes of its contents.\<close>

record sel_rec =
  lr_id :: u16
  lr_type :: byte
  lr_data :: "byte list"

text \<open>The event an entry is read as: the manufacturer of a record of type 0xC0 to 0xDF comes with its bytes reversed.\<close>

definition event_of :: "sel_rec \<Rightarrow> sel_event_record" where
  "event_of e = \<lparr>record_id = lr_id e, record_type = lr_type e,
     sel_type = (let d = lr_data e in if 0xC0 \<le> lr_type e \<and> lr_type e < 0xE0 then take 4 d @ [d ! 6, d ! 5, d ! 4] @ drop 7 d else d)\<rparr>"

definition wf_log :: "sel_rec list \<Rightarrow> bool" where
  "wf_log es \<longleftrightarrow> distinct (map lr_id es) \<and> length es < 65535 \<and> (\<forall>e \<in> set es. lr_id e \<noteq> 0 \<and> lr_id e \<noteq> 0xFFFF \<and> length (lr_data e) = 13)"

definition sel_next :: "sel_rec list \<Rightarrow> nat \<Rightarrow> u16" where
  "sel_next es k = (if k + 1 < length es then lr_id (es ! (k + 1)) else 0xFFFF)"

text \<open>The identifier 0 stands for the first entry.\<close>

definition names_entry :: "sel_rec list \<Rightarrow> u16 \<Rightarrow> nat \<Rightarrow> bool" where
  "names_entry es rid k \<longleftrightarrow> k < length es \<and> (rid = lr_id (es ! k) \<or> rid = 0 \<and> k = 0)"

definition entry_rsp :: "sel_rec list \<Rightarrow> nat \<Rightarrow> ipmi_rsp" where
  "entry_rsp es k = rsp_of 0 (le16 (sel_next es k) @ le16 (lr_id (es ! k)) @ [lr_type (es ! k)] @ lr_data (es ! k))"

text \<open>
  What can be seen of the world: the log, the file that entries are saved to, whether the next
  entry that is asked for will be given (a controller may fail to give one, but not twice in
  a row), and the names that printing finds.
\<close>

record 'w sel_view =
  lv_log :: "'w \<Rightarrow> sel_rec list"
  lv_file :: "'w \<Rightarrow> byte list option"
  lv_steady :: "'w \<Rightarrow> bool"
  lv_texts :: "sel_event_record \<Rightarrow> string \<times> string option"

definition sel_kept :: "'w sel_view \<Rightarrow> 'w \<Rightarrow> 'w \<Rightarrow> bool" where
  "sel_kept v w w' \<longleftrightarrow> lv_log v w' = lv_log v w \<and> lv_file v w' = lv_file v w"

definition no_entry :: "ipmi_rsp option \<Rightarrow> bool" where
  "no_entry rsp = (case rsp of None \<Rightarrow> True
     | Some r \<Rightarrow> rsp_ccode r \<noteq> 0 \<or> rsp_data_len r < 18 \<or> of_le16 (rsp_byte r 0) (rsp_byte r 1) = 0)"

definition get_entry_rq :: "u16 \<Rightarrow> ipmi_rq" where
  "get_entry_rq rid = mk_rq 0x0A 0x43 [0, 0, ucast rid, ucast (drop_bit 8 rid), 0, 0xFF]"

definition sel_serves :: "('e, 'w) sel_host \<Rightarrow> 'w sel_view \<Rightarrow> bool" where
  "sel_serves h v \<longleftrightarrow> (\<forall>w. wf_log (lv_log v w) \<longrightarrow>
     (\<exists>d w'. sl_sendrecv h (mk_rq 0x0A 0x40 []) w = Inr (Some (rsp_of 0 d), w') \<and> sel_kept v w w' \<and> length d = 14
        \<and> [d ! 1, d ! 2] = le16 (word_of_nat (length (lv_log v w))))
     \<and> (\<forall>rid k. names_entry (lv_log v w) rid k \<longrightarrow>
          (\<exists>rsp w'. sl_sendrecv h (get_entry_rq rid) w = Inr (rsp, w') \<and> sel_kept v w w'
             \<and> (rsp = Some (entry_rsp (lv_log v w) k) \<or> \<not> lv_steady v w \<and> no_entry rsp \<and> lv_steady v w'))))"

text \<open>Printing and looking up names leave log and file alone.\<close>

definition sel_prints :: "('e, 'w) sel_host \<Rightarrow> 'w sel_view \<Rightarrow> bool" where
  "sel_prints h v \<longleftrightarrow> (\<forall>s e w. (\<exists>w'. sl_show h s e w = Inr w' \<and> sel_kept v w w')
     \<and> (\<exists>w'. sl_texts h s e w = Inr (lv_texts v e, w') \<and> sel_kept v w w'))"

definition sel_saves :: "('e, 'w) sel_host \<Rightarrow> string \<Rightarrow> 'w sel_view \<Rightarrow> bool" where
  "sel_saves h f v \<longleftrightarrow> (\<forall>w. sl_file h f w = lv_file v w
     \<and> (\<exists>w'. sl_open_write h f w = (True, w') \<and> lv_log v w' = lv_log v w \<and> lv_file v w' = Some [])
     \<and> (\<forall>c bs. lv_file v w = Some c \<longrightarrow> lv_log v (sl_write h f bs w) = lv_log v w \<and> lv_file v (sl_write h f bs w) = Some (c @ bs)))"

lemma sel_kept_refl [simp]: "sel_kept v w w" by (simp add: sel_kept_def)

lemma sel_kept_trans: "sel_kept v w w' \<Longrightarrow> sel_kept v w' w'' \<Longrightarrow> sel_kept v w w''" by (simp add: sel_kept_def)

lemma rsp_entry_bytes:
  "rsp_byte (rsp_of 0 (a # xs)) 0 = a" "rsp_byte (rsp_of 0 (a # xs)) (Suc n) = rsp_byte (rsp_of 0 xs) n"
  "rsp_byte (rsp_of 0 (a # xs)) (numeral k) = rsp_byte (rsp_of 0 xs) (pred_numeral k)"
  by (simp_all add: rsp_byte_def nth_Cons')

lemma sel_entry_of_rsp:
  assumes "length (lr_data (es ! k)) = 13"
  shows "sel_entry_of (entry_rsp es k) = event_of (es ! k)"
proof -
  obtain a b c d e f g h i j l m n where d: "lr_data (es ! k) = [a, b, c, d, e, f, g, h, i, j, l, m, n]"
    using assms by (auto simp: numeral_eq_Suc length_Suc_conv)
  have e: "entry_rsp es k = rsp_of 0 ([ucast (sel_next es k), ucast (drop_bit 8 (sel_next es k)), ucast (lr_id (es ! k)),
      ucast (drop_bit 8 (lr_id (es ! k))), lr_type (es ! k)] @ [a, b, c, d, e, f, g, h, i, j, l, m, n])"
    by (simp add: entry_rsp_def le16_def d)
  consider "lr_type (es ! k) < 0xC0" | "\<not> lr_type (es ! k) < 0xC0" "lr_type (es ! k) < 0xE0" | "\<not> lr_type (es ! k) < 0xE0" "\<not> lr_type (es ! k) < 0xC0"
    by (cases "lr_type (es ! k) < 0xC0"; cases "lr_type (es ! k) < 0xE0") auto
  then show ?thesis
    by cases (simp_all add: sel_entry_of_def event_of_def e d rsp_entry_bytes standard_bytes_def oem_ts_bytes_def rsp_bytes_def upt_rec Let_def not_less [symmetric])
qed

section \<open>Reading the log\<close>

lemma sel_send_Inr:
  "sl_sendrecv h (mk_rq 0x0A cmd data) (sl_world st) = Inr (rsp, w) \<Longrightarrow> sel_send h cmd data st = rret (rsp, st\<lparr>sl_world := w\<rparr>)"
  by (simp add: sel_send_def run_send_def)

lemma wf_log_nth: "wf_log es \<Longrightarrow> k < length es \<Longrightarrow> lr_id (es ! k) \<noteq> 0 \<and> lr_id (es ! k) \<noteq> 0xFFFF \<and> length (lr_data (es ! k)) = 13"
  by (auto simp: wf_log_def)

lemma sel_next_nonzero: "wf_log es \<Longrightarrow> sel_next es k \<noteq> 0"
  using wf_log_nth [of es "k + 1"] by (auto simp: sel_next_def)

lemma sel_next_names: "wf_log es \<Longrightarrow> sel_next es k \<noteq> 0xFFFF \<Longrightarrow> names_entry es (sel_next es k) (k + 1)"
  by (auto simp: sel_next_def names_entry_def split: if_splits)

lemma sel_next_end: "wf_log es \<Longrightarrow> k < length es \<Longrightarrow> sel_next es k = 0xFFFF \<longleftrightarrow> k + 1 = length es"
  using wf_log_nth [of es "k + 1"] by (auto simp: sel_next_def)

lemma get_entry_at:
  assumes "sel_serves h v" and "wf_log (lv_log v (sl_world st))" and "names_entry (lv_log v (sl_world st)) rid k"
  obtains r w where "ipmi_sel_get_std_entry h rid st = rret (r, st\<lparr>sl_world := w\<rparr>)" and "sel_kept v (sl_world st) w"
    and "r = (sel_next (lv_log v (sl_world st)) k, Some (event_of (lv_log v (sl_world st) ! k))) \<or> \<not> lv_steady v (sl_world st) \<and> fst r = 0 \<and> lv_steady v w"
proof -
  let ?es = "lv_log v (sl_world st)"
  obtain rsp w where s: "sl_sendrecv h (get_entry_rq rid) (sl_world st) = Inr (rsp, w)" and kept: "sel_kept v (sl_world st) w"
    and r: "rsp = Some (entry_rsp ?es k) \<or> \<not> lv_steady v (sl_world st) \<and> no_entry rsp \<and> lv_steady v w"
    using assms unfolding sel_serves_def by blast
  have send: "sel_send h 0x43 [0, 0, ucast rid, ucast (drop_bit 8 rid), 0, 0xFF] st = rret (rsp, st\<lparr>sl_world := w\<rparr>)"
    by (rule sel_send_Inr) (use s in \<open>simp add: get_entry_rq_def\<close>)
  have len: "length (lr_data (?es ! k)) = 13" using assms(2,3) wf_log_nth by (auto simp: names_entry_def)
  have ok: "rsp_ccode (entry_rsp ?es k) = 0" "\<not> rsp_data_len (entry_rsp ?es k) < 18" by (simp_all add: entry_rsp_def len)
  have nxt: "of_le16 (rsp_byte (entry_rsp ?es k) 0) (rsp_byte (entry_rsp ?es k) 1) = sel_next ?es k"
    by (simp add: entry_rsp_def le16_def rsp_byte_def)
  show thesis using r
  proof
    assume "rsp = Some (entry_rsp ?es k)"
    then have "ipmi_sel_get_std_entry h rid st = rret ((sel_next ?es k, Some (event_of (?es ! k))), st\<lparr>sl_world := w\<rparr>)"
      by (simp add: ipmi_sel_get_std_entry_def send ok nxt [unfolded One_nat_def] sel_entry_of_rsp [OF len])
    then show thesis using that kept by blast
  next
    assume z: "\<not> lv_steady v (sl_world st) \<and> no_entry rsp \<and> lv_steady v w"
    then have "\<exists>q. ipmi_sel_get_std_entry h rid st = rret (q, st\<lparr>sl_world := w\<rparr>) \<and> fst q = 0"
      by (auto simp: ipmi_sel_get_std_entry_def send no_entry_def split: option.splits)
    with z show thesis using that kept by blast
  qed
qed

text \<open>With a second try the entry is always read.\<close>

lemma get_entry_twice:
  assumes "sel_serves h v" and wf: "wf_log (lv_log v (sl_world st))" and nm: "names_entry (lv_log v (sl_world st)) rid k"
  obtains w where "sel_kept v (sl_world st) w"
    and "\<And>F. rbind (ipmi_sel_get_std_entry h rid st) (\<lambda>(r1, st1). rbind (if fst r1 = 0 then ipmi_sel_get_std_entry h rid st1 else rret (r1, st1)) F)
           = F ((sel_next (lv_log v (sl_world st)) k, Some (event_of (lv_log v (sl_world st) ! k))), st\<lparr>sl_world := w\<rparr>)"
proof -
  obtain r w where g: "ipmi_sel_get_std_entry h rid st = rret (r, st\<lparr>sl_world := w\<rparr>)" and kept: "sel_kept v (sl_world st) w"
    and r: "r = (sel_next (lv_log v (sl_world st)) k, Some (event_of (lv_log v (sl_world st) ! k))) \<or> \<not> lv_steady v (sl_world st) \<and> fst r = 0 \<and> lv_steady v w"
    using get_entry_at [OF assms] by blast
  show thesis using r
  proof
    assume "r = (sel_next (lv_log v (sl_world st)) k, Some (event_of (lv_log v (sl_world st) ! k)))"
    then show thesis by (intro that [OF kept]) (simp add: g sel_next_nonzero [OF wf])
  next
    assume z: "\<not> lv_steady v (sl_world st) \<and> fst r = 0 \<and> lv_steady v w"
    let ?st = "st\<lparr>sl_world := w\<rparr>"
    have log: "lv_log v w = lv_log v (sl_world st)" using kept by (simp add: sel_kept_def)
    obtain r2 w2 where g2: "ipmi_sel_get_std_entry h rid ?st = rret (r2, ?st\<lparr>sl_world := w2\<rparr>)" and k2: "sel_kept v w w2"
      and "r2 = (sel_next (lv_log v w) k, Some (event_of (lv_log v w ! k))) \<or> \<not> lv_steady v w \<and> fst r2 = 0 \<and> lv_steady v w2"
      using get_entry_at [OF assms(1), of ?st rid k] wf nm log by auto
    with z log have "r2 = (sel_next (lv_log v (sl_world st)) k, Some (event_of (lv_log v (sl_world st) ! k)))" by simp
    with z show thesis by (intro that [OF sel_kept_trans [OF kept k2]]) (simp add: g g2)
  qed
qed

lemma sel_count_at:
  assumes "sel_serves h v" and "wf_log (lv_log v (sl_world st))"
  obtains w where "sel_count h st = rret (int (length (lv_log v (sl_world st))), st\<lparr>sl_world := w\<rparr>)" and "sel_kept v (sl_world st) w"
proof -
  let ?n = "length (lv_log v (sl_world st))"
  obtain d w where s: "sl_sendrecv h (mk_rq 0x0A 0x40 []) (sl_world st) = Inr (Some (rsp_of 0 d), w)" and kept: "sel_kept v (sl_world st) w"
    and d: "length d = 14" "[d ! 1, d ! 2] = le16 (word_of_nat ?n)"
    using assms unfolding sel_serves_def by blast
  have "of_le16 (d ! 1) (d ! 2) = word_of_nat ?n" using d(2) by (simp add: le16_def)
  moreover have "unat (word_of_nat ?n :: u16) = ?n"
    using assms(2) by (simp add: wf_log_def unat_of_nat)
  ultimately show thesis
    by (intro that [OF _ kept]) (simp add: sel_count_def sel_send_Inr [OF s] d(1) rsp_byte_def)
qed

section \<open>Listing and saving\<close>

text \<open>What is written for an entry, and the file so far.\<close>

definition saved_entry :: "'w sel_view \<Rightarrow> bool \<Rightarrow> sel_rec \<Rightarrow> byte list" where
  "saved_entry v binary e =
     (if binary then evt_bytes (event_of e) else text_bytes (sel_line (event_of e) (fst (lv_texts v (event_of e))) (snd (lv_texts v (event_of e)))))"

definition saved_so_far :: "('e, 'w) sel_host \<Rightarrow> 'w sel_view \<Rightarrow> string option \<Rightarrow> 'w \<Rightarrow> byte list \<Rightarrow> bool" where
  "saved_so_far h v fp w c = (case fp of None \<Rightarrow> True | Some f \<Rightarrow> sel_saves h f v \<and> lv_file v w = Some c)"

lemma saved_kept: "saved_so_far h v fp w c \<Longrightarrow> sel_kept v w w' \<Longrightarrow> saved_so_far h v fp w' c"
  by (auto simp: saved_so_far_def sel_kept_def split: option.splits)

lemma sel_print_at:
  assumes "sel_prints h v"
  obtains w where "sel_print (sl_show h) e st = rret ((), st\<lparr>sl_world := w, sl_out := sl_out st @ [e]\<rparr>)" and "sel_kept v (sl_world st) w"
proof -
  obtain w where "sl_show h (sl_settings st) e (sl_world st) = Inr w" "sel_kept v (sl_world st) w"
    using assms unfolding sel_prints_def by blast
  then show thesis by (intro that) (auto simp: sel_print_def)
qed

lemma sel_store_at:
  assumes "sel_prints h v" and "saved_so_far h v fp (sl_world st) c"
  obtains w where "sel_store h fp binary (event_of e) st = rret ((), st\<lparr>sl_world := w\<rparr>)" and "lv_log v w = lv_log v (sl_world st)"
    and "saved_so_far h v fp w (c @ saved_entry v binary e)"
proof (cases fp)
  case None
  then show thesis by (intro that [of "sl_world st"]) (simp_all add: sel_store_def saved_so_far_def)
next
  case (Some f)
  then have sv: "sel_saves h f v" and c: "lv_file v (sl_world st) = Some c" using assms(2) by (simp_all add: saved_so_far_def)
  have wr: "lv_log v (sl_write h f bs w) = lv_log v w \<and> lv_file v (sl_write h f bs w) = Some (c @ bs)" if "lv_file v w = Some c" for bs w
    using sv that unfolding sel_saves_def by blast
  obtain w where t: "sl_texts h (sl_settings st) (event_of e) (sl_world st) = Inr (lv_texts v (event_of e), w)" and k: "sel_kept v (sl_world st) w"
    using assms(1) unfolding sel_prints_def by blast
  have "lv_file v w = Some c" "lv_log v w = lv_log v (sl_world st)" using k c by (simp_all add: sel_kept_def)
  then show thesis
    using wr [OF c, of "saved_entry v True e"] wr [of w "saved_entry v False e"] t Some sv
    by (cases binary; intro that [of "if binary then sl_write h f (saved_entry v binary e) (sl_world st) else sl_write h f (saved_entry v binary e) w"])
      (simp_all add: sel_store_def saved_so_far_def ipmi_sel_print_event_file_def saved_entry_def split: prod.splits)
qed

text \<open>The loop from entry k on; at most m entries are still to be listed.\<close>

lemma sel_list_loop_at:
  fixes h :: "('e, 'w) sel_host"
  assumes h: "sel_serves h v" "sel_prints h v"
  shows "wf_log (lv_log v (sl_world st)) \<Longrightarrow> lv_log v (sl_world st) = es \<Longrightarrow> names_entry es rid k \<Longrightarrow> saved_so_far h v fp (sl_world st) c \<Longrightarrow>
     (if count \<le> n then length es - k \<le> m else m = min (length es - k) (nat (count - n))) \<Longrightarrow> 0 \<le> n \<Longrightarrow>
     \<exists>w. sel_list_loop h fp binary count rid n st = rret ((), st\<lparr>sl_world := w, sl_out := sl_out st @ map event_of (take m (drop k es))\<rparr>)
       \<and> lv_log v w = es \<and> saved_so_far h v fp w (c @ concat (map (saved_entry v binary) (take m (drop k es))))"
proof (induction "length es - k" arbitrary: k rid n m st c)
  case 0
  then show ?case by (simp add: names_entry_def)
next
  case (Suc x)
  have k: "k < length es" and wf: "wf_log es" using Suc.prems by (simp_all add: names_entry_def)
  have r: "rid \<noteq> 0xFFFF" using Suc.prems(3) wf_log_nth [OF wf k] by (auto simp: names_entry_def)
  have mpos: "0 < m" using Suc.prems(5) k by (auto split: if_splits)
  obtain w1 where k1: "sel_kept v (sl_world st) w1"
    and g: "\<And>F :: _ \<Rightarrow> ('e, unit, 'w) sel. rbind (ipmi_sel_get_std_entry h rid st) (\<lambda>(r1, st1). rbind (if fst r1 = 0 then ipmi_sel_get_std_entry h rid st1 else rret (r1, st1)) F)
           = F ((sel_next es k, Some (event_of (es ! k))), st\<lparr>sl_world := w1\<rparr>)"
    using get_entry_twice [OF h(1), of st rid k] Suc.prems(1-3) by auto
  let ?st1 = "st\<lparr>sl_world := w1\<rparr>"
  obtain w2 where p: "sel_print (sl_show h) (event_of (es ! k)) ?st1 = rret ((), ?st1\<lparr>sl_world := w2, sl_out := sl_out st @ [event_of (es ! k)]\<rparr>)"
    and k2: "sel_kept v w1 w2" using sel_print_at [OF h(2), of "event_of (es ! k)" ?st1] by auto
  let ?st2 = "st\<lparr>sl_world := w2, sl_out := sl_out st @ [event_of (es ! k)]\<rparr>"
  have "saved_so_far h v fp w2 c" by (rule saved_kept [OF Suc.prems(4) sel_kept_trans [OF k1 k2]])
  then obtain w3 where s: "sel_store h fp binary (event_of (es ! k)) ?st2 = rret ((), ?st2\<lparr>sl_world := w3\<rparr>)" and log3: "lv_log v w3 = lv_log v w2"
    and c3: "saved_so_far h v fp w3 (c @ saved_entry v binary (es ! k))"
    using sel_store_at [OF h(2), of fp ?st2 c binary "es ! k"] by auto
  have log: "lv_log v w3 = es" using log3 k1 k2 Suc.prems(2) by (simp add: sel_kept_def)
  let ?st3 = "?st2\<lparr>sl_world := w3\<rparr>"
  have unf: "sel_list_loop h fp binary count rid n st =
      (if n + 1 = count then rret ((), ?st3) else sel_list_loop h fp binary count (sel_next es k) (n + 1) ?st3)"
    using r sel_next_nonzero [OF wf, of k] p s by (simp add: sel_list_loop.simps [of h fp binary count rid n st] g)
  have td: "take m (drop k es) = es ! k # take (m - 1) (drop (k + 1) es)"
    using k mpos by (cases m) (auto simp: Cons_nth_drop_Suc [symmetric])
  show ?case
  proof (cases "n + 1 = count \<or> k + 1 = length es")
    case True
    then have "take (m - 1) (drop (k + 1) es) = []" using Suc.prems(5) k by (auto split: if_splits)
    then have one: "take m (drop k es) = [es ! k]" unfolding td by (rule arg_cong)
    have "sel_list_loop h fp binary count rid n st = rret ((), ?st3)"
      using True unf sel_next_end [OF wf k] by (auto simp: sel_list_loop.simps [of h fp binary count "0xFFFF"])
    then show ?thesis using log c3 unfolding one by (intro exI [of _ w3]) simp
  next
    case False
    then have nx: "sel_next es k \<noteq> 0xFFFF" using sel_next_end [OF wf k] by simp
    have "nat (count - (n + 1)) = nat (count - n) - 1" by arith
    then have m1: "if count \<le> n + 1 then length es - (k + 1) \<le> m - 1 else m - 1 = min (length es - (k + 1)) (nat (count - (n + 1)))"
      using Suc.prems(5) False by (auto simp: min_diff [symmetric] split: if_splits)
    have x: "x = length es - (k + 1)" using Suc.hyps(2) by simp
    have "\<exists>w. sel_list_loop h fp binary count (sel_next es k) (n + 1) ?st3 =
          rret ((), ?st3\<lparr>sl_world := w, sl_out := sl_out ?st3 @ map event_of (take (m - 1) (drop (k + 1) es))\<rparr>)
        \<and> lv_log v w = es \<and> saved_so_far h v fp w ((c @ saved_entry v binary (es ! k)) @ concat (map (saved_entry v binary) (take (m - 1) (drop (k + 1) es))))"
      by (rule Suc.hyps(1) [OF x]) (use wf log c3 sel_next_names [OF wf nx] m1 Suc.prems(6) in \<open>simp_all\<close>)
    with False unf show ?thesis unfolding td by simp
  qed
qed

lemma sel_skip_at:
  assumes h: "sel_serves h v" and steady: "\<And>w. lv_steady v w"
  shows "wf_log (lv_log v (sl_world st)) \<Longrightarrow> lv_log v (sl_world st) = es \<Longrightarrow> names_entry es rid k \<Longrightarrow> k + n < length es \<Longrightarrow>
     \<exists>rid' w. sel_skip h n rid st = rret (rid', st\<lparr>sl_world := w\<rparr>) \<and> names_entry es rid' (k + n) \<and> sel_kept v (sl_world st) w"
proof (induction n arbitrary: rid k st)
  case 0
  then show ?case by (intro exI [of _ rid] exI [of _ "sl_world st"]) simp
next
  case (Suc n)
  have wf: "wf_log es" using Suc.prems by simp
  obtain w where g: "ipmi_sel_get_std_entry h rid st = rret ((sel_next es k, Some (event_of (es ! k))), st\<lparr>sl_world := w\<rparr>)" and kp: "sel_kept v (sl_world st) w"
  proof (rule get_entry_at [OF h Suc.prems(1)])
    show "names_entry (lv_log v (sl_world st)) rid k" using Suc.prems(2,3) by simp
  qed (use steady Suc.prems(2) that in auto)
  let ?st = "st\<lparr>sl_world := w\<rparr>"
  have log: "lv_log v w = es" using kp Suc.prems(2) by (simp add: sel_kept_def)
  have "sel_next es k \<noteq> 0xFFFF" using sel_next_end [OF wf] Suc.prems(4) by simp
  then have nm: "names_entry es (sel_next es k) (k + 1)" by (rule sel_next_names [OF wf])
  have "\<exists>rid' w'. sel_skip h n (sel_next es k) ?st = rret (rid', ?st\<lparr>sl_world := w'\<rparr>) \<and> names_entry es rid' (k + 1 + n) \<and> sel_kept v (sl_world ?st) w'"
    by (rule Suc.IH) (use log wf nm Suc.prems(4) in simp_all)
  then show ?case using g sel_next_nonzero [OF wf, of k] sel_kept_trans [OF kp] by (auto simp: add.assoc)
qed

text \<open>The entries a count selects: all, the first ones or the last ones.\<close>

definition sel_window :: "int \<Rightarrow> sel_rec list \<Rightarrow> sel_rec list" where
  "sel_window count es =
     (if count = 0 then es else if count > 0 then take (nat count) es else drop (length es - nat (- count)) es)"

lemma sel_open_at:
  assumes "savefile = None \<or> savefile = Some f \<and> sel_saves h f v"
  obtains w where "sel_open_save h savefile st = (savefile, st\<lparr>sl_world := w\<rparr>)" and "lv_log v w = lv_log v (sl_world st)" and "saved_so_far h v savefile w []"
proof (cases savefile)
  case None
  then show thesis by (intro that [of "sl_world st"]) (simp_all add: sel_open_save_def saved_so_far_def)
next
  case (Some g)
  then have sv: "sel_saves h f v" "savefile = Some f" using assms by auto
  obtain w where "sl_open_write h f (sl_world st) = (True, w)" "lv_log v w = lv_log v (sl_world st)" "lv_file v w = Some []"
    using sv(1) unfolding sel_saves_def by blast
  with sv show thesis by (intro that [of w]) (simp_all add: sel_open_save_def saved_so_far_def)
qed

lemma sel_first_at:
  assumes h: "sel_serves h v" and wf: "wf_log (lv_log v (sl_world st))" and steady: "count < 0 \<longrightarrow> (\<forall>w. lv_steady v w)"
    and es: "lv_log v (sl_world st) = es" "es \<noteq> []"
  obtains rid count1 k w where "sel_first h count st = rret ((0, rid, count1), st\<lparr>sl_world := w\<rparr>)" and "lv_log v w = es" and "names_entry es rid k"
    and "take (if count1 \<le> 0 then length es - k else min (length es - k) (nat count1)) (drop k es) = sel_window count es"
proof (cases "count < 0")
  case False
  then show thesis using es by (intro that [of 0 count "sl_world st" 0]) (auto simp: sel_first_def names_entry_def sel_window_def min_def)
next
  case True
  let ?n = "length es"
  define c where "c = (if - count > int ?n then - int ?n else count)"
  define k where "k = nat (int ?n + c)"
  have k: "k < ?n" "k = ?n - nat (- count)" "c \<le> 0" using es(2) True by (auto simp: k_def c_def)
  obtain w1 where c1: "sel_count h st = rret (int ?n, st\<lparr>sl_world := w1\<rparr>)" and k1: "sel_kept v (sl_world st) w1"
    using sel_count_at [OF h wf] es by blast
  let ?st = "st\<lparr>sl_world := w1\<rparr>"
  have log1: "lv_log v w1 = es" using k1 es by (simp add: sel_kept_def)
  have "\<exists>rid w. sel_skip h k 0 ?st = rret (rid, ?st\<lparr>sl_world := w\<rparr>) \<and> names_entry es rid (0 + k) \<and> sel_kept v (sl_world ?st) w"
    by (rule sel_skip_at [OF h]) (use steady True wf es log1 k(1) in \<open>simp_all add: names_entry_def\<close>)
  then obtain rid w where sk: "sel_skip h k 0 ?st = rret (rid, st\<lparr>sl_world := w\<rparr>)" "names_entry es rid k" "sel_kept v w1 w" by auto
  have "sel_first h count st = rret ((0, rid, c), st\<lparr>sl_world := w\<rparr>)"
    using True c1 sk(1) unfolding k_def c_def by (simp add: sel_first_def)
  moreover have "lv_log v w = es" using sk(3) log1 by (simp add: sel_kept_def)
  moreover have "take (if c \<le> 0 then ?n - k else min (?n - k) (nat c)) (drop k es) = sel_window count es"
    using True k by (simp add: sel_window_def)
  ultimately show thesis using sk(2) that by blast
qed

lemma savelist_at:
  assumes h: "sel_serves h v" "sel_prints h v" and wf: "wf_log (lv_log v (sl_world st))" and steady: "count < 0 \<longrightarrow> (\<forall>w. lv_steady v w)"
    and f: "savefile = None \<or> savefile = Some f \<and> sel_saves h f v" and es: "lv_log v (sl_world st) = es"
  obtains w where "ipmi_sel_savelist_entries h count savefile binary st = rret (0, st\<lparr>sl_world := w, sl_out := sl_out st @ map event_of (sel_window count es)\<rparr>)"
    and "lv_log v w = es" and "es \<noteq> [] \<Longrightarrow> saved_so_far h v savefile w (concat (map (saved_entry v binary) (sel_window count es)))"
proof -
  obtain w1 where c1: "sel_count h st = rret (int (length es), st\<lparr>sl_world := w1\<rparr>)" and k1: "sel_kept v (sl_world st) w1"
    using sel_count_at [OF h(1) wf] es by blast
  let ?st1 = "st\<lparr>sl_world := w1\<rparr>"
  have log1: "lv_log v w1 = es" and wfe: "wf_log es" using k1 es wf by (simp_all add: sel_kept_def)
  show thesis
  proof (cases "es = []")
    case True
    with c1 log1 show thesis by (intro that [of w1]) (simp_all add: ipmi_sel_savelist_entries_def sel_window_def)
  next
    case False
    obtain rid count1 k w2 where fst: "sel_first h count ?st1 = rret ((0, rid, count1), st\<lparr>sl_world := w2\<rparr>)" and log2: "lv_log v w2 = es"
      and nm: "names_entry es rid k" and win: "take (if count1 \<le> 0 then length es - k else min (length es - k) (nat count1)) (drop k es) = sel_window count es"
    proof (rule sel_first_at [OF h(1), of ?st1 count es])
    qed (use wfe steady log1 False that in simp_all)
    obtain w3 where op: "sel_open_save h savefile (st\<lparr>sl_world := w2\<rparr>) = (savefile, st\<lparr>sl_world := w3\<rparr>)" and log3: "lv_log v w3 = es"
      and sv: "saved_so_far h v savefile w3 []"
      using sel_open_at [OF f, of "st\<lparr>sl_world := w2\<rparr>"] log2 by auto
    let ?st3 = "st\<lparr>sl_world := w3\<rparr>"
    let ?m = "if count1 \<le> 0 then length es - k else min (length es - k) (nat count1)"
    have "\<exists>w. sel_list_loop h savefile binary count1 rid 0 ?st3 = rret ((), ?st3\<lparr>sl_world := w, sl_out := sl_out ?st3 @ map event_of (take ?m (drop k es))\<rparr>)
        \<and> lv_log v w = es \<and> saved_so_far h v savefile w ([] @ concat (map (saved_entry v binary) (take ?m (drop k es))))"
      by (rule sel_list_loop_at [OF h]) (use wfe log3 nm sv in simp_all)
    then obtain w where l: "sel_list_loop h savefile binary count1 rid 0 ?st3 = rret ((), st\<lparr>sl_world := w, sl_out := sl_out st @ map event_of (sel_window count es)\<rparr>)"
      "lv_log v w = es" "saved_so_far h v savefile w (concat (map (saved_entry v binary) (sel_window count es)))"
      unfolding win by auto
    then show thesis using False by (intro that [of w]) (simp_all add: ipmi_sel_savelist_entries_def c1 fst op)
  qed
qed

section \<open>Reading files back\<close>

lemma length_event [simp]: "length (lr_data e) = 13 \<Longrightarrow> length (sel_type (event_of e)) = 13"
  by (auto simp: event_of_def Let_def)

lemma evt_of_bytes_evt_bytes [simp]: "evt_of_bytes (evt_bytes e) = e"
  by (simp add: evt_of_bytes_def evt_bytes_def le16_def)

lemma sel_raw_loop_at:
  assumes "sel_prints h v"
  shows "\<forall>e \<in> set es. length (lr_data e) = 13 \<Longrightarrow>
     \<exists>w. sel_raw_loop h (concat (map (\<lambda>e. evt_bytes (event_of e)) es)) st = rret (0, st\<lparr>sl_world := w, sl_out := sl_out st @ map event_of es\<rparr>)"
proof (induction es arbitrary: st)
  case Nil
  then show ?case by (intro exI [of _ "sl_world st"]) (simp add: sel_raw_loop.simps)
next
  case (Cons e es)
  obtain w where p: "sel_print (sl_show h) (event_of e) st = rret ((), st\<lparr>sl_world := w, sl_out := sl_out st @ [event_of e]\<rparr>)"
    using sel_print_at [OF assms] by blast
  have len: "length (evt_bytes (event_of e)) = 16" using Cons.prems by (simp add: evt_bytes_def)
  let ?st = "st\<lparr>sl_world := w, sl_out := sl_out st @ [event_of e]\<rparr>"
  have "\<exists>w'. sel_raw_loop h (concat (map (\<lambda>e. evt_bytes (event_of e)) es)) ?st = rret (0, ?st\<lparr>sl_world := w', sl_out := sl_out ?st @ map event_of es\<rparr>)"
    by (rule Cons.IH) (use Cons.prems in simp)
  then show ?case by (auto simp: sel_raw_loop.simps [of h "evt_bytes _ @ _"] len p)
qed

text \<open>Numbers in hexadecimal with their prefix, up to a character that is no digit.\<close>

lemma scan_number_hex2:
  assumes "base = 0 \<or> base = 16" and "rest = [] \<or> \<not> is_digit_in 16 (hd rest)"
  shows "scan_number base (''0x'' @ hex2 b @ rest) = Some (False, unat b, rest)"
proof -
  have d: "is_digit_in 16 (hexchar (hi_nibble b))" "is_digit_in 16 (hexchar (lo_nibble b))" by (simp_all add: hexchar_is_digit)
  have "scan_digits 16 v rest = (v, rest)" for v using assms(2) by (cases rest) auto
  moreover have "unat b = hi_nibble b * 16 + lo_nibble b" by (simp add: hi_nibble_def lo_nibble_def)
  moreover have "dropWhile isspace (''0x'' @ hex2 b @ rest) = ''0x'' @ hex2 b @ rest" by (simp add: isspace_def)
  ultimately show ?thesis using assms(1) d by (auto simp: scan_number_def scan_sign_def scan_base_def has_hex_prefix_def hex2_def)
qed

lemma str2uchar_hex2: "str2uchar (Some (''0x'' @ hex2 b)) (Some c) = (0, Some (int (unat b)))"
proof -
  have s: "scan_number 0 (''0x'' @ hex2 b) = Some (False, unat b, [])" using scan_number_hex2 [of 0 "[]" b] by simp
  have "int (unat b) \<le> 255" using unat_byte_less [of b] by linarith
  moreover have "strtoul 0 (''0x'' @ hex2 b) = (int (unat b), [], False)"
  proof -
    have l: "int (unat b) < 256" using unat_byte_less [of b] by linarith
    then have "int (unat b) mod 2 ^ 64 = int (unat b)" by (intro mod_pos_pos_trivial) (linarith, simp)
    moreover have "unat b < 2 ^ 64" using unat_byte_less [of b] by (simp del: unat_byte_less)
    ultimately show ?thesis unfolding strtoul_def s by (simp del: of_nat_unat)
  qed
  ultimately show ?thesis unfolding str2uchar_def narrow_def str2ulong_def by simp
qed

lemma sel_event_data_hex:
  "length rq + length bs = 7 \<Longrightarrow> sel_event_data (map (\<lambda>b. ''0x'' @ hex2 b) bs) rq = Some (rq @ bs)"
proof (induction bs arbitrary: rq)
  case (Cons b bs)
  have "sel_event_data (map (\<lambda>b. ''0x'' @ hex2 b) (b # bs)) rq = sel_event_data (map (\<lambda>b. ''0x'' @ hex2 b) bs) (rq @ [b])"
    using Cons.prems unfolding list.map sel_event_data.simps str2uchar_hex2 by simp
  with Cons show ?case by simp
qed simp

lemma sel_tokens_word: "w \<noteq> [] \<Longrightarrow> CHR '' '' \<notin> set w \<Longrightarrow> sel_tokens (w @ CHR '' '' # rest) = w # sel_tokens rest"
  "w \<noteq> [] \<Longrightarrow> CHR '' '' \<notin> set w \<Longrightarrow> sel_tokens w = [w]"
proof -
  have nil: "sel_tokens [] = []" by (simp add: sel_tokens.simps)
  have skip: "sel_tokens (CHR '' '' # r) = sel_tokens r" for r
    by (simp add: sel_tokens.simps [of "CHR '' '' # r"] sel_tokens.simps [of r])
  assume w: "w \<noteq> []" "CHR '' '' \<notin> set w"
  then have dw: "dropWhile (\<lambda>c. c = CHR '' '') (w @ r) = w @ r" for r by (cases w) auto
  have tw: "takeWhile (\<lambda>c. c \<noteq> CHR '' '') (w @ CHR '' '' # r) = w" "dropWhile (\<lambda>c. c \<noteq> CHR '' '') (w @ CHR '' '' # r) = CHR '' '' # r" for r
    using w(2) by (induction w) auto
  show "sel_tokens (w @ CHR '' '' # rest) = w # sel_tokens rest"
    by (subst sel_tokens.simps) (simp add: dw tw skip Let_def w(1))
  have "takeWhile (\<lambda>c. c \<noteq> CHR '' '') w = w" "dropWhile (\<lambda>c. c \<noteq> CHR '' '') w = []" using w(2) by (induction w) auto
  then show "sel_tokens w = [w]" using dw [of "[]"] w(1) by (subst sel_tokens.simps) (simp only: nil Let_def append_Nil2 if_False)
qed

lemma hexchar_not: "n < 16 \<Longrightarrow> hexchar n \<noteq> CHR '' '' \<and> hexchar n \<noteq> CHR ''#''"
proof -
  have "list_all (\<lambda>n. hexchar n \<noteq> CHR '' '' \<and> hexchar n \<noteq> CHR ''#'') [0..<16]" by code_simp
  then show "n < 16 \<Longrightarrow> hexchar n \<noteq> CHR '' '' \<and> hexchar n \<noteq> CHR ''#''" by (simp add: list_all_iff del: upt_Suc)
qed

lemma hex2_chars: "c \<in> set (hex2 b) \<Longrightarrow> c \<noteq> CHR '' '' \<and> c \<noteq> CHR ''#'' \<and> c \<noteq> CHR 0x0A \<and> c \<noteq> CHR 0x00 \<and> \<not> isspace c"
  using hexchar_not hexchar_simps by (auto simp: hex2_def)

lemma sel_tokens_hex: "sel_tokens (concat (map (\<lambda>b. ''0x'' @ hex2 b @ '' '') bs) @ ''0x'' @ hex2 b) = map (\<lambda>b. ''0x'' @ hex2 b) (bs @ [b])"
proof (induction bs)
  case Nil
  show ?case using sel_tokens_word(2) [of "''0x'' @ hex2 b"] hex2_chars [of _ b] by auto
next
  case (Cons a bs)
  have "CHR '' '' \<notin> set (''0x'' @ hex2 a)" using hex2_chars [of _ a] by auto
  with Cons show ?case using sel_tokens_word(1) [of "''0x'' @ hex2 a"] by simp
qed

section \<open>Saved lines\<close>

text \<open>The seven bytes of an event that a saved line holds.\<close>

definition event7 :: "sel_event_record \<Rightarrow> byte list" where
  "event7 e = drop 6 (sel_type e)"

definition line_ok :: "string \<times> string option \<Rightarrow> bool" where
  "line_ok t = (let d = (case snd t of None \<Rightarrow> ''Unknown'' | Some d \<Rightarrow> d)
     in CHR 0x0A \<notin> set (fst t @ d) \<and> CHR 0x00 \<notin> set (fst t @ d) \<and> length (fst t) + length d \<le> 978)"

lemma sel_line_event7:
  assumes "length (sel_type e) = 13"
  obtains bs b tail where "event7 e = bs @ [b]" and "length bs = 6"
    and "sel_line e s d = concat (map (\<lambda>b. ''0x'' @ hex2 b @ '' '') (bs @ [b])) @ CHR ''#'' # tail @ [CHR 0x0A]"
    and "tail = '' '' @ s @ '' #0x'' @ hex2 (bs ! 2) @ '' '' @ (case d of None \<Rightarrow> ''Unknown'' | Some d \<Rightarrow> d)"
proof -
  obtain a1 a2 a3 a4 a5 a6 b1 b2 b3 b4 b5 b6 b7 where e: "sel_type e = [a1, a2, a3, a4, a5, a6, b1, b2, b3, b4, b5, b6, b7]"
    using assms by (auto simp: numeral_eq_Suc length_Suc_conv)
  show thesis
    by (rule that [of "[b1, b2, b3, b4, b5, b6]" b7]) (simp_all add: event7_def e sel_line_def standard_type_def Let_def)
qed

lemma takeWhile_before: "c \<notin> set l \<Longrightarrow> takeWhile (\<lambda>x. x \<noteq> c) (l @ c # r) = l"
  by (induction l) auto

lemma hex_prefix_chars: "c \<in> set (concat (map (\<lambda>b. ''0x'' @ hex2 b @ '' '') bs)) \<Longrightarrow> c \<noteq> CHR ''#'' \<and> c \<noteq> CHR 0x0A \<and> c \<noteq> CHR 0x00"
  by (induction bs) (auto dest: hex2_chars)

lemma not_in_line: "c \<notin> set p \<Longrightarrow> c \<notin> set q \<Longrightarrow> c \<noteq> x \<Longrightarrow> c \<notin> set (p @ x # q)"
  by simp

lemma c_text_line: "CHR 0x00 \<notin> set l \<Longrightarrow> c_text (l @ [CHR 0x0A]) = l @ [CHR 0x0A]"
  unfolding c_text_def by (subst takeWhile_eq_all_conv) auto

lemma fgets_line:
  assumes "CHR 0x0A \<notin> set l" and "length l + 1 < n"
  shows "fgets n (l @ CHR 0x0A # rest) = (l @ [CHR 0x0A], rest)"
proof -
  have "takeWhile (\<lambda>c. c \<noteq> CHR 0x0A) (l @ CHR 0x0A # rest) = l" by (rule takeWhile_before [OF assms(1)])
  moreover have "min (n - 1) (length l + 1) = length l + 1" using assms(2) by simp
  ultimately show ?thesis by (simp add: fgets_def Let_def)
qed

lemma sel_clip_hex: "sel_clip (concat (map (\<lambda>b. ''0x'' @ hex2 b @ '' '') (bs @ [b])) @ CHR ''#'' # rest)
   = concat (map (\<lambda>b. ''0x'' @ hex2 b @ '' '') bs) @ ''0x'' @ hex2 b"
proof -
  let ?P = "concat (map (\<lambda>b. ''0x'' @ hex2 b @ '' '') (bs @ [b]))" and ?Q = "concat (map (\<lambda>b. ''0x'' @ hex2 b @ '' '') bs) @ ''0x'' @ hex2 b"
  have "CHR ''#'' \<notin> set ?P" using hex_prefix_chars [of "CHR ''#''" "bs @ [b]"] by blast
  then have t: "takeWhile (\<lambda>c. c \<noteq> CHR ''#'') (?P @ CHR ''#'' # rest) = ?P" by (rule takeWhile_before)
  have p: "rev ?P = CHR '' '' # rev ?Q" by simp
  have sp: "isspace (CHR '' '')" "\<not> isspace (CHR ''0'')" by (simp_all add: isspace_def)
  have "\<not> isspace (hd (rev ?Q))" by (simp add: hex2_def)
  then have q: "dropWhile isspace (rev ?Q) = rev ?Q" by (cases "rev ?Q") simp_all
  have "hd ?Q = CHR ''0''" by (cases bs) simp_all
  then have "dropWhile isspace ?Q = ?Q" using sp(2) by (cases ?Q) simp_all
  then show ?thesis unfolding sel_clip_def t p using sp(1) q by simp
qed

section \<open>Adding entries\<close>

text \<open>
  A controller that takes new entries: it chooses identifier and time, and keeps the rest of the 16
  bytes.
\<close>

definition sel_adds :: "('e, 'w) sel_host \<Rightarrow> nat \<Rightarrow> 'w sel_view \<Rightarrow> bool" where
  "sel_adds h limit v \<longleftrightarrow> (\<forall>w bs. length bs = 16 \<longrightarrow> length (lv_log v w) < limit \<longrightarrow>
     (\<exists>r e w'. sl_sendrecv h (mk_rq 0x0A 0x44 bs) w = Inr (Some r, w') \<and> rsp_ccode r = 0 \<and> lv_log v w' = lv_log v w @ [e]
        \<and> lr_type e = bs ! 2 \<and> length (lr_data e) = 13 \<and> drop 4 (lr_data e) = drop 7 bs))"

lemma sel_add_entry_at:
  assumes "sel_adds h limit v" and "sel_prints h v" and "length (lv_log v (sl_world st)) < limit" and "length rq = 7"
  obtains w e where "ipmi_sel_add_entry h (sel_event_of rq) st = rret (0, st\<lparr>sl_world := w, sl_out := sl_out st @ [sel_event_of rq]\<rparr>)"
    and "lv_log v w = lv_log v (sl_world st) @ [e]" and "lr_type e = 2" and "length (lr_data e) = 13" and "drop 6 (lr_data e) = rq"
proof -
  obtain a b c d e f g where rq: "rq = [a, b, c, d, e, f, g]" using assms(4) by (auto simp: numeral_eq_Suc length_Suc_conv)
  let ?bs = "evt_bytes (sel_event_of rq)"
  have bs: "length ?bs = 16" "?bs ! 2 = 2" "drop 7 ?bs = le16 0x41 @ rq"
    by (simp_all add: evt_bytes_def sel_event_of_def rq standard_bytes_def le16_def le32_def)
  obtain w where p: "sel_print (sl_show h) (sel_event_of rq) st = rret ((), st\<lparr>sl_world := w, sl_out := sl_out st @ [sel_event_of rq]\<rparr>)"
    and k: "sel_kept v (sl_world st) w" using sel_print_at [OF assms(2)] by blast
  have log: "lv_log v w = lv_log v (sl_world st)" using k by (simp add: sel_kept_def)
  obtain r e w' where s: "sl_sendrecv h (mk_rq 0x0A 0x44 ?bs) w = Inr (Some r, w')" "rsp_ccode r = 0" and l: "lv_log v w' = lv_log v w @ [e]"
    and e: "lr_type e = ?bs ! 2" "length (lr_data e) = 13" "drop 4 (lr_data e) = drop 7 ?bs"
    using assms(1,3) bs(1) log unfolding sel_adds_def by metis
  have "drop 6 (lr_data e) = drop 2 (drop 4 (lr_data e))" by simp
  also have "\<dots> = rq" unfolding e(3) bs(3) by (simp add: le16_def)
  finally have "drop 6 (lr_data e) = rq" .
  moreover have "ipmi_sel_add_entry h (sel_event_of rq) st = rret (0, st\<lparr>sl_world := w', sl_out := sl_out st @ [sel_event_of rq]\<rparr>)"
    using p s by (simp add: ipmi_sel_add_entry_def sel_send_Inr [where st = "st\<lparr>sl_world := w, sl_out := sl_out st @ [sel_event_of rq]\<rparr>"])
  ultimately show thesis using l log e(1,2) bs(2) by (intro that) simp_all
qed

lemma sel_add_step:
  "fgets 1024 text = (buf, rest) \<Longrightarrow> text \<noteq> [] \<Longrightarrow> sel_clip (c_text buf) = s \<Longrightarrow> s \<noteq> [] \<Longrightarrow> sel_event_data (sel_tokens s) [] = Some rq \<Longrightarrow>
     sel_add_loop h text rc st =
       rbind (ipmi_sel_add_entry h (sel_event_of rq) st) (\<lambda>(rc1, st1). if rc1 < 0 then rret (rc1, st1) else sel_add_loop h rest rc1 st1)"
  by (subst sel_add_loop.simps) (simp add: Let_def)

lemma sel_add_line:
  assumes "length (sel_type e) = 13" and "line_ok (s, d)"
  shows "sel_add_loop h (sel_line e s d @ rest) rc st =
     rbind (ipmi_sel_add_entry h (sel_event_of (event7 e)) st) (\<lambda>(rc1, st1). if rc1 < 0 then rret (rc1, st1) else sel_add_loop h rest rc1 st1)"
proof -
  obtain bs b tail where ev: "event7 e = bs @ [b]" "length bs = 6"
    and l: "sel_line e s d = concat (map (\<lambda>b. ''0x'' @ hex2 b @ '' '') (bs @ [b])) @ CHR ''#'' # tail @ [CHR 0x0A]"
    and t: "tail = '' '' @ s @ '' #0x'' @ hex2 (bs ! 2) @ '' '' @ (case d of None \<Rightarrow> ''Unknown'' | Some d \<Rightarrow> d)"
    by (rule sel_line_event7 [OF assms(1)])
  let ?l = "concat (map (\<lambda>b. ''0x'' @ hex2 b @ '' '') (bs @ [b])) @ CHR ''#'' # tail"
  have "CHR 0x0A \<notin> set tail \<and> CHR 0x00 \<notin> set tail"
    using assms(2) hex2_chars [of _ "bs ! 2"] unfolding t line_ok_def Let_def by (cases d) auto
  then have clean: "CHR 0x0A \<notin> set ?l \<and> CHR 0x00 \<notin> set ?l"
    by (intro conjI not_in_line) (use hex_prefix_chars [of _ "bs @ [b]"] in \<open>blast | simp\<close>)+
  have len: "length ?l + 1 < 1024"
    using assms(2) ev(2) unfolding t line_ok_def Let_def by (simp add: length_concat comp_def sum_list_triv)
  have g: "fgets 1024 (sel_line e s d @ rest) = (?l @ [CHR 0x0A], rest)"
    using fgets_line [of ?l 1024 rest] clean len unfolding l by simp
  have c: "c_text (?l @ [CHR 0x0A]) = ?l @ [CHR 0x0A]"
    by (rule c_text_line) (use clean in blast)
  have k: "sel_clip (c_text (?l @ [CHR 0x0A])) = concat (map (\<lambda>b. ''0x'' @ hex2 b @ '' '') bs) @ ''0x'' @ hex2 b"
    unfolding c using sel_clip_hex [of bs b "tail @ [CHR 0x0A]"] by simp
  have d: "sel_event_data (sel_tokens (concat (map (\<lambda>b. ''0x'' @ hex2 b @ '' '') bs) @ ''0x'' @ hex2 b)) [] = Some (event7 e)"
    unfolding sel_tokens_hex ev(1) using sel_event_data_hex [of "[]" "bs @ [b]"] ev(2) by simp
  show ?thesis
    by (rule sel_add_step [OF g _ k _ d]) (simp_all add: l)
qed

lemma file_text_bytes [simp]: "file_text (text_bytes s) = s"
proof -
  have "unat (of_char c :: byte) = (of_char c :: nat)" for c
    by (cases c) simp
  then show ?thesis by (simp add: file_text_def text_bytes_def comp_def)
qed

definition saved_lines :: "'w sel_view \<Rightarrow> sel_rec list \<Rightarrow> string" where
  "saved_lines v es = concat (map (\<lambda>e. sel_line (event_of e) (fst (lv_texts v (event_of e))) (snd (lv_texts v (event_of e)))) es)"

lemma saved_lines_bytes: "concat (map (saved_entry v False) es) = text_bytes (saved_lines v es)"
  by (induction es) (simp_all add: saved_lines_def saved_entry_def text_bytes_def)

lemma sel_add_lines_at:
  assumes h: "sel_adds h limit v" "sel_prints h v" and ok: "\<forall>e. line_ok (lv_texts v' e)"
  shows "\<forall>e \<in> set es. length (lr_data e) = 13 \<Longrightarrow> length (lv_log v (sl_world st)) + length es \<le> limit \<Longrightarrow>
     \<exists>w out new. sel_add_loop h (saved_lines v' es) 0 st = rret (0, st\<lparr>sl_world := w, sl_out := out\<rparr>)
       \<and> lv_log v w = lv_log v (sl_world st) @ new \<and> map (\<lambda>e. drop 6 (lr_data e)) new = map (\<lambda>e. event7 (event_of e)) es
       \<and> (\<forall>e \<in> set new. lr_type e = 2 \<and> length (lr_data e) = 13)"
proof (induction es arbitrary: st)
  case Nil
  show ?case
    by (intro exI [of _ "sl_world st"] exI [of _ "sl_out st"] exI [of _ "[]"]) (simp add: saved_lines_def sel_add_loop.simps)
next
  case (Cons e es)
  let ?E = "event_of e"
  have len: "length (sel_type ?E) = 13" "length (event7 ?E) = 7" using Cons.prems(1) by (simp_all add: event7_def)
  have "line_ok (fst (lv_texts v' ?E), snd (lv_texts v' ?E))" using ok by simp
  note step = sel_add_line [OF len(1) this, of h "saved_lines v' es" 0 st]
  have room: "length (lv_log v (sl_world st)) < limit" using Cons.prems(2) by simp
  obtain w n where a: "ipmi_sel_add_entry h (sel_event_of (event7 ?E)) st = rret (0, st\<lparr>sl_world := w, sl_out := sl_out st @ [sel_event_of (event7 ?E)]\<rparr>)"
    and n: "lv_log v w = lv_log v (sl_world st) @ [n]" "lr_type n = 2" "length (lr_data n) = 13" "drop 6 (lr_data n) = event7 ?E"
    by (rule sel_add_entry_at [OF h room len(2)])
  let ?st = "st\<lparr>sl_world := w, sl_out := sl_out st @ [sel_event_of (event7 ?E)]\<rparr>"
  have "\<exists>w' out new. sel_add_loop h (saved_lines v' es) 0 ?st = rret (0, ?st\<lparr>sl_world := w', sl_out := out\<rparr>)
       \<and> lv_log v w' = lv_log v (sl_world ?st) @ new \<and> map (\<lambda>e. drop 6 (lr_data e)) new = map (\<lambda>e. event7 (event_of e)) es
       \<and> (\<forall>e \<in> set new. lr_type e = 2 \<and> length (lr_data e) = 13)"
    by (rule Cons.IH) (use Cons.prems n(1) in simp_all)
  then obtain w' out new where r: "sel_add_loop h (saved_lines v' es) 0 ?st = rret (0, st\<lparr>sl_world := w', sl_out := out\<rparr>)"
    "lv_log v w' = lv_log v w @ new" "map (\<lambda>e. drop 6 (lr_data e)) new = map (\<lambda>e. event7 (event_of e)) es"
    "\<forall>e \<in> set new. lr_type e = 2 \<and> length (lr_data e) = 13" by auto
  have "sel_add_loop h (saved_lines v' (e # es)) 0 st = rret (0, st\<lparr>sl_world := w', sl_out := out\<rparr>)"
    using step a r(1) by (simp add: saved_lines_def)
  then show ?case using r(2-4) n by (intro exI [of _ w'] exI [of _ out] exI [of _ "n # new"]) simp
qed

section \<open>Deletion\<close>

text \<open>A controller that gives reservations and deletes entries under them; a reservation stays valid while entries are deleted.\<close>

definition sel_deletes :: "('e, 'w) sel_host \<Rightarrow> ('w \<Rightarrow> u16 \<Rightarrow> bool) \<Rightarrow> 'w sel_view \<Rightarrow> bool" where
  "sel_deletes h valid v \<longleftrightarrow>
     (\<forall>w. \<exists>rid w'. sl_sendrecv h (mk_rq 0x0A 0x42 []) w = Inr (Some (rsp_of 0 (le16 rid)), w') \<and> rid \<noteq> 0 \<and> valid w' rid \<and> lv_log v w' = lv_log v w)
     \<and> (\<forall>w rid i. valid w rid \<and> i \<noteq> 0 \<and> i \<noteq> 0xFFFF \<longrightarrow>
          (\<exists>r w'. sl_sendrecv h (mk_rq 0x0A 0x46 (le16 rid @ le16 i)) w = Inr (Some r, w') \<and> valid w' rid
             \<and> lv_log v w' = filter (\<lambda>e. lr_id e \<noteq> i) (lv_log v w) \<and> (rsp_ccode r = 0 \<longleftrightarrow> i \<in> lr_id ` set (lv_log v w))))
     \<and> (\<forall>w rid. valid w rid \<longrightarrow>
          (\<exists>r w'. sl_sendrecv h (mk_rq 0x0A 0x47 (le16 rid @ [0x43, 0x4C, 0x52, 0xAA])) w = Inr (Some r, w') \<and> rsp_ccode r = 0 \<and> lv_log v w' = []))"

lemma sel_reserve_at:
  assumes "sel_deletes h valid v"
  obtains rid w where "ipmi_sel_reserve h st = rret (rid, st\<lparr>sl_world := w\<rparr>)" and "rid \<noteq> 0" and "valid w rid" and "lv_log v w = lv_log v (sl_world st)"
proof -
  obtain rid w where s: "sl_sendrecv h (mk_rq 0x0A 0x42 []) (sl_world st) = Inr (Some (rsp_of 0 (le16 rid)), w)" and r: "rid \<noteq> 0" "valid w rid" "lv_log v w = lv_log v (sl_world st)"
    using assms unfolding sel_deletes_def by blast
  have "ipmi_sel_reserve h st = rret (rid, st\<lparr>sl_world := w\<rparr>)"
    by (simp add: ipmi_sel_reserve_def sel_send_Inr [OF s] le16_def rsp_byte_def)
  with r show thesis using that by blast
qed

lemma sel_delete_loop_at:
  assumes h: "sel_deletes h valid v"
  shows "\<forall>i \<in> set ids. 0 < i \<and> i < 65535 \<Longrightarrow> valid (sl_world st) rid \<Longrightarrow>
     \<exists>w. sel_delete_loop h rid (map (show_base 10) ids) rc st =
           rret (if distinct ids \<and> set ids \<subseteq> (\<lambda>e. unat (lr_id e)) ` set (lv_log v (sl_world st)) then rc else -1, st\<lparr>sl_world := w\<rparr>)
       \<and> lv_log v w = filter (\<lambda>e. unat (lr_id e) \<notin> set ids) (lv_log v (sl_world st))"
proof (induction ids arbitrary: rc st)
  case Nil
  show ?case by (intro exI [of _ "sl_world st"]) simp
next
  case (Cons i ids)
  let ?i = "word_of_nat i :: u16" and ?D = "\<lambda>w. (\<lambda>e. unat (lr_id e)) ` set (lv_log v w)"
  have i: "0 < i" "i < 65535" "i < 2 ^ 16" using Cons.prems(1) by auto
  have u: "unat ?i = i" using i(3) by (simp add: unat_of_nat)
  then have ne: "?i \<noteq> 0" "?i \<noteq> 0xFFFF" using i by (auto dest: arg_cong [where f = unat])
  have eq: "lr_id e = ?i \<longleftrightarrow> unat (lr_id e) = i" for e :: sel_rec using u by (auto dest: arg_cong [where f = word_of_nat])
  have eq': "?i = lr_id e \<longleftrightarrow> i = unat (lr_id e)" for e :: sel_rec using eq [of e] by metis
  have s: "str2ushort (Some (show_base 10 i)) (Some 0) = (0, Some (int i))" using i by (simp add: str2ushort_def narrow_ulong_dec)
  obtain r w where d: "sl_sendrecv h (mk_rq 0x0A 0x46 (le16 rid @ le16 ?i)) (sl_world st) = Inr (Some r, w)" and v: "valid w rid"
    and log: "lv_log v w = filter (\<lambda>e. lr_id e \<noteq> ?i) (lv_log v (sl_world st))" and cc: "rsp_ccode r = 0 \<longleftrightarrow> ?i \<in> lr_id ` set (lv_log v (sl_world st))"
    using h Cons.prems(2) ne unfolding sel_deletes_def by blast
  let ?st = "st\<lparr>sl_world := w\<rparr>"
  have cc: "rsp_ccode r = 0 \<longleftrightarrow> i \<in> ?D (sl_world st)" using cc eq' by (simp only: image_iff)
  have D: "?D w = ?D (sl_world st) - {i}" unfolding log by (auto simp: eq)
  have step: "sel_delete_loop h rid (map (show_base 10) (i # ids)) rc st = sel_delete_loop h rid (map (show_base 10) ids) (if rsp_ccode r = 0 then rc else -1) ?st"
    using sel_send_Inr [OF d] by (simp add: s)
  have "\<exists>w'. sel_delete_loop h rid (map (show_base 10) ids) (if rsp_ccode r = 0 then rc else -1) ?st =
      rret (if distinct ids \<and> set ids \<subseteq> ?D (sl_world ?st) then (if rsp_ccode r = 0 then rc else -1) else -1, ?st\<lparr>sl_world := w'\<rparr>)
      \<and> lv_log v w' = filter (\<lambda>e. unat (lr_id e) \<notin> set ids) (lv_log v (sl_world ?st))"
    by (rule Cons.IH) (use Cons.prems v in simp_all)
  then obtain w' where r': "sel_delete_loop h rid (map (show_base 10) ids) (if rsp_ccode r = 0 then rc else -1) ?st =
      rret (if distinct ids \<and> set ids \<subseteq> ?D w then (if rsp_ccode r = 0 then rc else -1) else -1, st\<lparr>sl_world := w'\<rparr>)"
      "lv_log v w' = filter (\<lambda>e. unat (lr_id e) \<notin> set ids) (lv_log v w)" by auto
  have "(distinct ids \<and> set ids \<subseteq> ?D w) \<and> rsp_ccode r = 0 \<longleftrightarrow> distinct (i # ids) \<and> set (i # ids) \<subseteq> ?D (sl_world st)"
    unfolding D cc by auto
  then have "(if distinct ids \<and> set ids \<subseteq> ?D w then (if rsp_ccode r = 0 then rc else -1) else -1)
      = (if distinct (i # ids) \<and> set (i # ids) \<subseteq> ?D (sl_world st) then rc else -1)" by argo
  moreover have "lv_log v w' = filter (\<lambda>e. unat (lr_id e) \<notin> set (i # ids)) (lv_log v (sl_world st))"
    unfolding r'(2) log by (auto simp: eq intro!: filter_cong)
  ultimately show ?case using step r'(1) by (intro exI [of _ w']) simp
qed

section \<open>A controller\<close>

text \<open>
  A controller with a log, one file beside it; with \<open>quirk\<close> it fails to give every other entry it is
  asked for.
\<close>

record log_world =
  g_log :: "sel_rec list"
  g_steady :: bool
  g_resv :: u16
  g_file :: "byte list option"

definition log_index :: "sel_rec list \<Rightarrow> u16 \<Rightarrow> nat" where
  "log_index es rid = (if rid = 0 then 0 else length (takeWhile (\<lambda>e. lr_id e \<noteq> rid) es))"

definition log_device :: "bool \<Rightarrow> (unit, log_world) sendrecv" where
  "log_device quirk req w = Inr (
     let d = rq_data req; es = g_log w; cmd = rq_cmd req
     in if cmd = 0x40 then (Some (rsp_of 0 ([0x51] @ le16 (word_of_nat (length es)) @ replicate 11 0)), w)
        else if cmd = 0x42 then (let r = (if g_resv w = 0 then 1 else g_resv w) in (Some (rsp_of 0 (le16 r)), w\<lparr>g_resv := r\<rparr>))
        else if cmd = 0x43 then
          (let k = log_index es (of_le16 (d ! 2) (d ! 3))
           in if quirk \<and> \<not> g_steady w then (None, w\<lparr>g_steady := True\<rparr>)
              else if k < length es then (Some (entry_rsp es k), w\<lparr>g_steady := False\<rparr>)
              else (Some (rsp_of 0xCB []), w))
        else if cmd = 0x44 then
          (if length es < 100
           then (Some (rsp_of 0 [0, 0]), w\<lparr>g_log := es @ [\<lparr>lr_id = word_of_nat (length es) + 1, lr_type = d ! 2, lr_data = [1, 2, 3, 4] @ drop 7 d\<rparr>]\<rparr>)
           else (Some (rsp_of 0xC4 []), w))
        else if take 2 d \<noteq> le16 (g_resv w) then (Some (rsp_of 0xC5 []), w)
        else if cmd = 0x46 then
          (let i = of_le16 (d ! 2) (d ! 3)
           in (Some (rsp_of (if i \<in> lr_id ` set es then 0 else 0xCB) []), w\<lparr>g_log := filter (\<lambda>e. lr_id e \<noteq> i) es\<rparr>))
        else (Some (rsp_of 0 []), w\<lparr>g_log := []\<rparr>))"

definition log_host :: "bool \<Rightarrow> (unit, log_world) sel_host" where
  "log_host quirk = \<lparr>sl_sendrecv = log_device quirk, sl_show = (\<lambda>_ _ w. Inr w), sl_detail = (\<lambda>_ _ w. Inr w),
     sl_texts = (\<lambda>_ _ w. Inr ((''Fan'', Some ''State Asserted''), w)), sl_open_write = (\<lambda>_ w. (True, w\<lparr>g_file := Some []\<rparr>)),
     sl_write = (\<lambda>_ bs w. w\<lparr>g_file := map_option (\<lambda>c. c @ bs) (g_file w)\<rparr>), sl_file = (\<lambda>_. g_file), sl_time = (\<lambda>_. 0), sl_parse_time = (\<lambda>_. None)\<rparr>"

definition log_view :: "bool \<Rightarrow> log_world sel_view" where
  "log_view quirk = \<lparr>lv_log = g_log, lv_file = g_file, lv_steady = (\<lambda>w. \<not> quirk \<or> g_steady w), lv_texts = (\<lambda>_. (''Fan'', Some ''State Asserted''))\<rparr>"

lemma log_index_names:
  assumes "wf_log es" and "names_entry es rid k"
  shows "log_index es rid = k"
proof (cases "rid = 0")
  case True
  then show ?thesis using assms wf_log_nth [OF assms(1), of k] by (auto simp: names_entry_def log_index_def)
next
  case False
  then have k: "k < length es" "rid = lr_id (es ! k)" using assms(2) by (auto simp: names_entry_def)
  have "lr_id (es ! j) \<noteq> lr_id (es ! k)" if "j < k" for j
  proof -
    have "map lr_id es ! j \<noteq> map lr_id es ! k" using assms(1) k(1) that by (subst nth_eq_iff_index_eq) (auto simp: wf_log_def)
    then show ?thesis using k(1) that by simp
  qed
  then have "takeWhile (\<lambda>e. lr_id e \<noteq> rid) es = take k es"
    using k by (intro takeWhile_eq_take_P_nth) auto
  then show ?thesis using False k(1) by (simp add: log_index_def)
qed

lemma log_serves: "sel_serves (log_host quirk) (log_view quirk)"
  unfolding sel_serves_def
proof (intro allI impI conjI)
  fix w assume wf: "wf_log (lv_log (log_view quirk) w)"
  show "\<exists>d w'. sl_sendrecv (log_host quirk) (mk_rq 0x0A 0x40 []) w = Inr (Some (rsp_of 0 d), w') \<and> sel_kept (log_view quirk) w w' \<and> length d = 14
      \<and> [d ! 1, d ! 2] = le16 (word_of_nat (length (lv_log (log_view quirk) w)))"
    by (intro exI [of _ "[0x51] @ le16 (word_of_nat (length (g_log w))) @ replicate 11 0"] exI [of _ w])
      (simp add: log_host_def log_device_def log_view_def mk_rq_def le16_def Let_def)
  fix rid k assume nm: "names_entry (lv_log (log_view quirk) w) rid k"
  have "log_index (g_log w) rid = k" "k < length (g_log w)"
    using log_index_names [OF wf nm] nm by (simp_all add: log_view_def names_entry_def)
  then show "\<exists>rsp w'. sl_sendrecv (log_host quirk) (get_entry_rq rid) w = Inr (rsp, w') \<and> sel_kept (log_view quirk) w w'
      \<and> (rsp = Some (entry_rsp (lv_log (log_view quirk) w) k) \<or> \<not> lv_steady (log_view quirk) w \<and> no_entry rsp \<and> lv_steady (log_view quirk) w')"
    by (simp add: log_host_def log_device_def log_view_def get_entry_rq_def mk_rq_def sel_kept_def no_entry_def Let_def)
qed

lemma log_prints: "sel_prints (log_host quirk) (log_view quirk)"
  by (simp add: sel_prints_def log_host_def log_view_def)

lemma log_saves: "sel_saves (log_host quirk) f (log_view quirk)"
  by (simp add: sel_saves_def log_host_def log_view_def)

lemma log_adds: "sel_adds (log_host quirk) 100 (log_view quirk)"
  by (simp add: sel_adds_def log_host_def log_device_def log_view_def mk_rq_def Let_def)

lemma log_deletes: "sel_deletes (log_host quirk) (\<lambda>w rid. rid = g_resv w) (log_view quirk)"
  unfolding sel_deletes_def
proof (intro allI impI conjI)
  let ?v = "log_view quirk" and ?send = "sl_sendrecv (log_host quirk)"
  show "\<exists>rid w'. ?send (mk_rq 0x0A 0x42 []) w = Inr (Some (rsp_of 0 (le16 rid)), w') \<and> rid \<noteq> 0 \<and> rid = g_resv w' \<and> lv_log ?v w' = lv_log ?v w" for w
    by (rule exI [of _ "if g_resv w = 0 then 1 else g_resv w"]) (simp add: log_host_def log_device_def log_view_def mk_rq_def Let_def)
  show "\<exists>r w'. ?send (mk_rq 0x0A 0x46 (le16 rid @ le16 i)) w = Inr (Some r, w') \<and> rid = g_resv w' \<and> lv_log ?v w' = filter (\<lambda>e. lr_id e \<noteq> i) (lv_log ?v w)
      \<and> (rsp_ccode r = 0 \<longleftrightarrow> i \<in> lr_id ` set (lv_log ?v w))" if "rid = g_resv w \<and> i \<noteq> 0 \<and> i \<noteq> 0xFFFF" for w rid i
    using that by (simp add: log_host_def log_device_def log_view_def mk_rq_def Let_def le16_def)
  show "\<exists>r w'. ?send (mk_rq 0x0A 0x47 (le16 rid @ [0x43, 0x4C, 0x52, 0xAA])) w = Inr (Some r, w') \<and> rsp_ccode r = 0 \<and> lv_log ?v w' = []" if "rid = g_resv w" for w rid
    using that by (simp add: log_host_def log_device_def log_view_def mk_rq_def Let_def le16_def)
qed

definition sample_entries :: "sel_rec list" where
  "sample_entries =
     [\<lparr>lr_id = 1, lr_type = 2, lr_data = [0, 0, 0, 0x60, 0x20, 0, 4, 4, 0x30, 0x01, 0x57, 0x10, 0x20]\<rparr>,
      \<lparr>lr_id = 7, lr_type = 0xC1, lr_data = [0, 0, 0, 0x60, 0x11, 0x22, 0x33, 1, 2, 3, 4, 5, 6]\<rparr>,
      \<lparr>lr_id = 9, lr_type = 2, lr_data = [0, 0, 1, 0x60, 0x20, 0, 4, 4, 0x30, 0x81, 0x57, 0x10, 0x20]\<rparr>]"

definition sample_log :: "bool \<Rightarrow> log_world sel_state" where
  "sample_log steady = \<lparr>sl_world = \<lparr>g_log = sample_entries, g_steady = steady, g_resv = 5, g_file = None\<rparr>, sl_settings = \<lparr>sel_extended = False, sel_iana = 0\<rparr>, sl_out = []\<rparr>"

lemma sample_log_wf: "wf_log (lv_log (log_view quirk) (sl_world (sample_log b)))"
  by (simp add: wf_log_def log_view_def sample_log_def sample_entries_def)

section \<open>Properties\<close>

text \<open>
  C15: Against any controller that serves a log of at most 65534 entries, which may fail to give an entry
  but not twice in a row, listing ends with success and shows exactly the selected entries in the
  order of the log: all of them, or the first ones for a positive count. For a negative count, the last ones,
  this holds of a controller that never fails (after a failure there the code starts again at the first entry). An entry of a standard type or without a
  timestamp is shown with its bytes unchanged.
\<close>

theorem sel_list_shows_log:
  assumes "sel_serves h v" and "sel_prints h v" and "wf_log (lv_log v (sl_world st))" and "count < 0 \<longrightarrow> (\<forall>w. lv_steady v w)"
  shows "\<exists>st'. ipmi_sel_list_entries h count st = rret (0, st') \<and> lv_log v (sl_world st') = lv_log v (sl_world st)
     \<and> sl_out st' = sl_out st @ map event_of (sel_window count (lv_log v (sl_world st)))"
proof -
  obtain w where "ipmi_sel_savelist_entries h count None False st =
      rret (0, st\<lparr>sl_world := w, sl_out := sl_out st @ map event_of (sel_window count (lv_log v (sl_world st)))\<rparr>)" "lv_log v w = lv_log v (sl_world st)"
    by (rule savelist_at [OF assms, of None undefined]) auto
  then show ?thesis unfolding ipmi_sel_list_entries_def by auto
qed

theorem sel_list_shows_log_witness:
  "(\<exists>st'. ipmi_sel_list_entries (log_host True) 0 (sample_log False) = rret (0, st') \<and> sl_out st' = map event_of sample_entries)
   \<and> (\<exists>st'. ipmi_sel_list_entries (log_host False) (-2) (sample_log False) = rret (0, st') \<and> sl_out st' = map event_of (drop 1 sample_entries))"
proof -
  have "sel_window 0 sample_entries = sample_entries" "sel_window (-2) sample_entries = drop 1 sample_entries"
    by (simp_all add: sel_window_def sample_entries_def)
  moreover have "lv_log (log_view q) (sl_world (sample_log b)) = sample_entries" "sl_out (sample_log b) = []" "lv_steady (log_view False) w" for q b w
    by (simp_all add: log_view_def sample_log_def)
  ultimately show ?thesis
    using sel_list_shows_log [OF log_serves log_prints sample_log_wf, of 0 True False] sel_list_shows_log [OF log_serves log_prints sample_log_wf, of "-2" False False]
    by auto
qed

text \<open>
  A log written to a file with writeraw and read with readraw, on the same or on another system,
  shows the entries of the log in its order, as listing the controller does.
\<close>

theorem sel_raw_roundtrip:
  assumes "sel_serves h v" and "sel_prints h v" and "wf_log (lv_log v (sl_world st))" and "sel_saves h f v" and "lv_log v (sl_world st) \<noteq> []"
    and "sel_prints h2 v2"
  shows "\<exists>st'. ipmi_sel_writeraw h f st = rret (0, st') \<and>
     (sl_file h2 g (sl_world st2) = sl_file h f (sl_world st') \<longrightarrow>
        (\<exists>st2'. ipmi_sel_readraw h2 g st2 = rret (0, st2') \<and> sl_out st2' = sl_out st2 @ map event_of (lv_log v (sl_world st))))"
proof -
  let ?es = "lv_log v (sl_world st)"
  have none: "(0 :: int) < 0 \<longrightarrow> (\<forall>w. lv_steady v w)" by simp
  obtain w where s: "ipmi_sel_savelist_entries h 0 (Some f) True st = rret (0, st\<lparr>sl_world := w, sl_out := sl_out st @ map event_of (sel_window 0 ?es)\<rparr>)"
    and sv: "?es \<noteq> [] \<Longrightarrow> saved_so_far h v (Some f) w (concat (map (saved_entry v True) (sel_window 0 ?es)))"
    by (rule savelist_at [OF assms(1-3) none, of "Some f" f, where binary = True]) (use assms(4) in auto)
  have "sl_file h f w = lv_file v w" using assms(4) unfolding sel_saves_def by blast
  then have saved: "sl_file h f w = Some (concat (map (\<lambda>e. evt_bytes (event_of e)) ?es))"
    using sv assms(5) by (simp add: saved_so_far_def sel_window_def saved_entry_def [abs_def])
  have "\<forall>e \<in> set ?es. length (lr_data e) = 13" using assms(3) by (simp add: wf_log_def)
  from sel_raw_loop_at [OF assms(6) this, of st2]
  obtain w2 where r: "sel_raw_loop h2 (concat (map (\<lambda>e. evt_bytes (event_of e)) ?es)) st2 = rret (0, st2\<lparr>sl_world := w2, sl_out := sl_out st2 @ map event_of ?es\<rparr>)"
    by blast
  show ?thesis unfolding ipmi_sel_writeraw_def s
    by (rule exI, rule conjI [OF refl]) (use r saved in \<open>auto simp: ipmi_sel_readraw_def\<close>)
qed

theorem sel_raw_roundtrip_witness:
  "\<exists>st' st2'. ipmi_sel_writeraw (log_host True) ''a'' (sample_log False) = rret (0, st')
     \<and> ipmi_sel_readraw (log_host False) ''b'' st' = rret (0, st2') \<and> sl_out st2' = sl_out st' @ map event_of sample_entries"
proof -
  have e: "lv_log (log_view q) (sl_world (sample_log b)) = sample_entries" "sample_entries \<noteq> []" for q b
    by (simp_all add: log_view_def sample_log_def sample_entries_def)
  have f: "sl_file (log_host q) f w = sl_file (log_host q') f' w" for q q' f f' w by (simp add: log_host_def)
  have n: "lv_log (log_view True) (sl_world (sample_log False)) \<noteq> []" using e by simp
  note use = sel_raw_roundtrip [OF log_serves log_prints sample_log_wf log_saves n log_prints, of "''a''" False "''b''"]
  obtain st' where "ipmi_sel_writeraw (log_host True) ''a'' (sample_log False) = rret (0, st')" using use by blast
  moreover from this use [of st'] f [of False "''b''" _ True "''a''"] e
  obtain st2' where "ipmi_sel_readraw (log_host False) ''b'' st' = rret (0, st2')" "sl_out st2' = sl_out st' @ map event_of sample_entries" by auto
  ultimately show ?thesis by blast
qed

text \<open>
  C14: A log saved as text on one system and added on another with room for it: saving and adding both
  succeed, and the second log has one new entry for each entry of the first, in the same order, with the
  same revision, sensor, event type, direction and data.
\<close>

theorem sel_save_add_roundtrip:
  assumes "sel_serves h v" and "sel_prints h v" and "wf_log (lv_log v (sl_world st))" and "sel_saves h f v" and "lv_log v (sl_world st) \<noteq> []"
    and "\<forall>e. line_ok (lv_texts v e)"
    and "sel_adds h2 limit v2" and "sel_prints h2 v2" and "length (lv_log v2 (sl_world st2)) + length (lv_log v (sl_world st)) \<le> limit"
  shows "\<exists>st'. ipmi_sel_save_entries h 0 f st = rret (0, st') \<and>
     (sl_file h2 g (sl_world st2) = sl_file h f (sl_world st') \<longrightarrow>
        (\<exists>st2' new. ipmi_sel_add_entries_fromfile h2 (Some g) st2 = rret (0, st2') \<and> lv_log v2 (sl_world st2') = lv_log v2 (sl_world st2) @ new
           \<and> map (\<lambda>e. drop 6 (lr_data e)) new = map (\<lambda>e. event7 (event_of e)) (lv_log v (sl_world st))))"
proof -
  let ?es = "lv_log v (sl_world st)"
  have none: "(0 :: int) < 0 \<longrightarrow> (\<forall>w. lv_steady v w)" by simp
  obtain w where s: "ipmi_sel_savelist_entries h 0 (Some f) False st = rret (0, st\<lparr>sl_world := w, sl_out := sl_out st @ map event_of (sel_window 0 ?es)\<rparr>)"
    and sv: "?es \<noteq> [] \<Longrightarrow> saved_so_far h v (Some f) w (concat (map (saved_entry v False) (sel_window 0 ?es)))"
    by (rule savelist_at [OF assms(1-3) none, of "Some f" f, where binary = False]) (use assms(4) in auto)
  have "sl_file h f w = lv_file v w" using assms(4) unfolding sel_saves_def by blast
  then have saved: "sl_file h f w = Some (text_bytes (saved_lines v ?es))"
    using sv assms(5) by (simp add: saved_so_far_def sel_window_def saved_lines_bytes)
  have "\<forall>e \<in> set ?es. length (lr_data e) = 13" using assms(3) by (simp add: wf_log_def)
  from sel_add_lines_at [OF assms(7,8,6) this assms(9)]
  obtain w2 out new where r: "sel_add_loop h2 (saved_lines v ?es) 0 st2 = rret (0, st2\<lparr>sl_world := w2, sl_out := out\<rparr>)"
    "lv_log v2 w2 = lv_log v2 (sl_world st2) @ new" "map (\<lambda>e. drop 6 (lr_data e)) new = map (\<lambda>e. event7 (event_of e)) ?es" by blast
  show ?thesis unfolding ipmi_sel_save_entries_def s
    by (rule exI, rule conjI [OF refl]) (use r saved in \<open>auto simp: ipmi_sel_add_entries_fromfile_def\<close>)
qed

theorem sel_save_add_roundtrip_witness:
  "\<exists>st' st2' new. ipmi_sel_save_entries (log_host True) 0 ''a'' (sample_log False) = rret (0, st')
     \<and> ipmi_sel_add_entries_fromfile (log_host False) (Some ''b'') ((sample_log True)\<lparr>sl_world := sl_world st'\<rparr>) = rret (0, st2')
     \<and> g_log (sl_world st2') = g_log (sl_world st') @ new \<and> map (\<lambda>e. drop 6 (lr_data e)) new = map (\<lambda>e. event7 (event_of e)) sample_entries"
proof -
  let ?st2 = "\<lambda>st'. (sample_log True)\<lparr>sl_world := sl_world st'\<rparr>"
  have e: "lv_log (log_view q) w = g_log w" "g_log (sl_world (sample_log b)) = sample_entries" "length sample_entries = 3" for q w b
    by (simp_all add: log_view_def sample_log_def sample_entries_def)
  have n: "lv_log (log_view True) (sl_world (sample_log False)) \<noteq> []" using e by auto
  have ok: "\<forall>x. line_ok (lv_texts (log_view True) x)" by (simp add: line_ok_def log_view_def)
  have none: "(0 :: int) < 0 \<longrightarrow> (\<forall>w. lv_steady (log_view True) w)" by simp
  obtain w where s: "ipmi_sel_savelist_entries (log_host True) 0 (Some ''a'') False (sample_log False)
      = rret (0, (sample_log False)\<lparr>sl_world := w, sl_out := sl_out (sample_log False) @ map event_of (sel_window 0 sample_entries)\<rparr>)" and w: "g_log w = sample_entries"
    by (rule savelist_at [OF log_serves log_prints sample_log_wf none, where savefile = "Some ''a''" and f = "''a''" and es = sample_entries and binary = False]) (use e log_saves in auto)
  let ?st' = "(sample_log False)\<lparr>sl_world := w, sl_out := sl_out (sample_log False) @ map event_of (sel_window 0 sample_entries)\<rparr>"
  have room: "length (lv_log (log_view False) (sl_world (?st2 ?st'))) + length (lv_log (log_view True) (sl_world (sample_log False))) \<le> 100"
    using e w by simp
  have same: "sl_file (log_host False) ''b'' (sl_world (?st2 ?st')) = sl_file (log_host True) ''a'' (sl_world ?st')" by (simp add: log_host_def)
  have sv: "ipmi_sel_save_entries (log_host True) 0 ''a'' (sample_log False) = rret (0, ?st')" using s by (simp add: ipmi_sel_save_entries_def)
  from sel_save_add_roundtrip [OF log_serves log_prints sample_log_wf log_saves n ok log_adds log_prints room, of "''a''" "''b''"] sv same
  show ?thesis using e w by auto
qed

text \<open>
  C16: Deleting entries by their identifiers under one reservation leaves exactly the other entries in their
  order, and reports success exactly when every given identifier was that of an entry and none was given
  twice.
\<close>

theorem sel_delete_removes:
  assumes "sel_deletes h valid v" and "ids \<noteq> []" and "\<forall>i \<in> set ids. 0 < i \<and> i < 65535"
  shows "\<exists>st'. ipmi_sel_delete h (map (show_base 10) ids) st =
       rret (if distinct ids \<and> set ids \<subseteq> (\<lambda>e. unat (lr_id e)) ` set (lv_log v (sl_world st)) then 0 else -1, st')
     \<and> lv_log v (sl_world st') = filter (\<lambda>e. unat (lr_id e) \<notin> set ids) (lv_log v (sl_world st))"
proof -
  obtain rid w where r: "ipmi_sel_reserve h st = rret (rid, st\<lparr>sl_world := w\<rparr>)" "rid \<noteq> 0" "valid w rid" "lv_log v w = lv_log v (sl_world st)"
    by (rule sel_reserve_at [OF assms(1)])
  have "show_base 10 n \<noteq> ''help''" for n
  proof
    assume "show_base 10 n = ''help''"
    then have "is_digit_in 10 (CHR ''h'')" using show_base_digits [of 10 n] by simp
    then show False by (simp add: is_digit_in_def digit_val_def)
  qed
  then have nh: "map (show_base 10) ids \<noteq> [] \<and> hd (map (show_base 10) ids) \<noteq> ''help''" using assms(2) by (simp add: hd_map)
  have "\<forall>i \<in> set (rev ids). 0 < i \<and> i < 65535" using assms(3) by simp
  from sel_delete_loop_at [OF assms(1) this, of "st\<lparr>sl_world := w\<rparr>" rid 0] r(3)
  obtain w' where d: "sel_delete_loop h rid (map (show_base 10) (rev ids)) 0 (st\<lparr>sl_world := w\<rparr>) =
      rret (if distinct (rev ids) \<and> set (rev ids) \<subseteq> (\<lambda>e. unat (lr_id e)) ` set (lv_log v w) then 0 else -1, st\<lparr>sl_world := w'\<rparr>)"
    "lv_log v w' = filter (\<lambda>e. unat (lr_id e) \<notin> set (rev ids)) (lv_log v w)" by auto
  show ?thesis
    by (intro exI [of _ "st\<lparr>sl_world := w'\<rparr>"]) (use nh r d in \<open>simp add: ipmi_sel_delete_def rev_map\<close>)
qed

theorem sel_delete_removes_witness:
  "\<exists>st'. ipmi_sel_delete (log_host True) (map (show_base 10) [9, 1]) (sample_log True) = rret (0, st') \<and> g_log (sl_world st') = [sample_entries ! 1]"
proof -
  have "lv_log (log_view True) w = g_log w" "g_log (sl_world (sample_log True)) = sample_entries" for w by (simp_all add: log_view_def sample_log_def)
  moreover have "set [9, 1] \<subseteq> (\<lambda>e. unat (lr_id e)) ` set sample_entries" "filter (\<lambda>e. unat (lr_id e) \<notin> set [9, 1]) sample_entries = [sample_entries ! 1]"
    by (simp_all add: sample_entries_def)
  ultimately show ?thesis using sel_delete_removes [OF log_deletes, of "[9, 1]" True "sample_log True"] by auto
qed

end
