(* ===== verification/Sel_Interpret.thy ===== *)
theory Sel_Interpret
  imports Sel_Log
begin

text \<open>
  The interpretation of the text logs of shelf managers: it is inverse to a printer of their
  lines. Its result is -1 whatever the file holds.
\<close>

section \<open>Pieces of a line\<close>

lemma after_skip: "c \<notin> set p \<Longrightarrow> ipmi_sel_interpret_after (p @ c # r) c = Some r"
  by (induction p) (auto simp: ipmi_sel_interpret_after_def)

definition no_hex_digit :: "string \<Rightarrow> bool" where
  "no_hex_digit rest \<longleftrightarrow> rest = [] \<or> \<not> is_digit_in 16 (hd rest)"

lemma no_hex_digit_Cons: "no_hex_digit (c # r) \<longleftrightarrow> \<not> is_digit_in 16 c"
  by (simp add: no_hex_digit_def)

lemma scan_number_hex:
  assumes "base = 0 \<or> base = 16" and "ds \<noteq> []" and "\<forall>c \<in> set ds. is_digit_in 16 c" and "no_hex_digit rest"
  shows "scan_number base (''0x'' @ ds @ rest) = Some (False, fst (scan_digits 16 0 ds), rest)"
proof -
  obtain d ds' where d: "ds = d # ds'" "is_digit_in 16 d" using assms(2,3) by (cases ds) auto
  have "scan_digits 16 v rest = (v, rest)" for v using assms(4) by (cases rest) (auto simp: no_hex_digit_def)
  then have "scan_digits 16 0 (ds @ rest) = (fst (scan_digits 16 0 ds), rest)" using scan_digits_append [OF assms(3)] by simp
  then show ?thesis using assms(1) d by (auto simp: scan_number_def scan_sign_def scan_base_def has_hex_prefix_def isspace_def)
qed

lemma strtol_small: "scan_number base s = Some (False, n, rest) \<Longrightarrow> n < 2 ^ 63 \<Longrightarrow> strtol base s = (int n, rest, False)"
  by (simp add: strtol_def)

lemma pps_num_small: "scan_number base s = Some (False, n, rest) \<Longrightarrow> n < 2 ^ 63 \<Longrightarrow> pps_num base s = Some (int n)"
  by (simp add: pps_num_def strtol_small)

lemma pps_num_hex2: "no_hex_digit rest \<Longrightarrow> pps_num 16 (''0x'' @ hex2 b @ rest) = Some (int (unat b))"
proof (rule pps_num_small [OF scan_number_hex2])
  show "unat b < 2 ^ 63" using unat_byte_less [of b] by (simp del: unat_byte_less)
qed (auto simp: no_hex_digit_def)

lemma hex2_digits: "\<forall>c \<in> set (hex2 b). is_digit_in 16 c"
  by (auto simp: hex2_def hexchar_is_digit)

lemma pps_num_hex4: "no_hex_digit rest \<Longrightarrow> pps_num 16 (''0x'' @ hex2 a @ hex2 b @ rest) = Some (int (unat a * 256 + unat b))"
proof -
  assume r: "no_hex_digit rest"
  have "unat x = hi_nibble x * 16 + lo_nibble x" for x :: byte by (simp add: hi_nibble_def lo_nibble_def)
  then have v: "fst (scan_digits 16 0 (hex2 a @ hex2 b)) = unat a * 256 + unat b" by (simp add: hex2_def hexchar_is_digit)
  have "unat a * 256 + unat b < 2 ^ 63" using unat_byte_less [of a] unat_byte_less [of b] by (simp del: unat_byte_less)
  then show ?thesis
    using pps_num_small [OF scan_number_hex [of 16 "hex2 a @ hex2 b" rest]] r hex2_digits v by (simp add: hex2_def)
qed

lemma pps_num_dec: "n < 2 ^ 63 \<Longrightarrow> no_hex_digit rest \<Longrightarrow> pps_num 10 (show_base 10 n @ rest) = Some (int n)"
proof (rule pps_num_small)
  assume r: "no_hex_digit rest"
  then have "scan_digits 10 v rest = (v, rest)" for v by (cases rest) (auto simp: no_hex_digit_def is_digit_in_def split: option.splits)
  then have s: "scan_digits 10 0 (show_base 10 n @ rest) = (n, rest)"
    using scan_digits_append [OF show_base_digits [of 10 n], of 0 rest] scan_digits_show [of 10 n] by simp
  obtain k ds where k: "show_base 10 n = hexchar k # ds" "k < 10" using hd_show_base_plain [of 10 n] by auto
  then show "scan_number 10 (show_base 10 n @ rest) = Some (False, n, rest)"
    using s by (simp add: scan_number_def scan_sign_hexchar scan_base_def hexchar_is_digit)
qed

section \<open>Lines\<close>

text \<open>What a line says: the originator and the time are not read.\<close>

record pps_event =
  p_id :: u16
  p_time :: string
  p_from :: string
  p_sensor_type :: byte
  p_sensor_num :: byte
  p_event_type :: "7 word"
  p_asserted :: bool
  p_data0 :: byte
  p_data1 :: byte
  p_data2 :: byte

definition pps_text :: "pps_event \<Rightarrow> string" where
  "pps_text e = ''0x'' @ hex2 (ucast (drop_bit 8 (p_id e))) @ hex2 (ucast (p_id e)) @ '': Event: at '' @ p_time e @ '';from:('' @ p_from e @ '');sensor:('' @
     ''0x'' @ hex2 (p_sensor_type e) @ '','' @ show_base 10 (unat (p_sensor_num e)) @ '');event:'' @ ''0x'' @ hex2 (ucast (p_event_type e)) @ ''('' @
     (if p_asserted e then ''asserted'' else ''deasserted'') @ ''): '' @
     ''0x'' @ hex2 (p_data0 e) @ '' '' @ ''0x'' @ hex2 (p_data1 e) @ '' '' @ ''0x'' @ hex2 (p_data2 e)"

definition pps_record :: "pps_event \<Rightarrow> sel_event_record" where
  "pps_record e = \<lparr>record_id = p_id e, record_type = 2,
     sel_type = standard_bytes \<lparr>ev_timestamp = 0, ev_gen_id = 0x0020, ev_evm_rev = 4, ev_sensor_type = p_sensor_type e, ev_sensor_num = p_sensor_num e,
       ev_event_type = p_event_type e, ev_event_dir = (if p_asserted e then 0 else 1), ev_event_data = [p_data0 e, p_data1 e, p_data2 e]\<rparr>\<rparr>"

definition pps_ok :: "pps_event \<Rightarrow> bool" where
  "pps_ok e \<longleftrightarrow> p_sensor_type e \<noteq> 0xF0 \<and> length (p_time e) + length (p_from e) \<le> 150
     \<and> (\<forall>c \<in> set (p_time e @ p_from e). c \<noteq> CHR '';'' \<and> c \<noteq> CHR 0x0A \<and> c \<noteq> CHR 0x00)"

lemma digit_chars: "\<not> is_digit_in 16 (CHR '':'')" "\<not> is_digit_in 16 (CHR '','')" "\<not> is_digit_in 16 (CHR '')'')" "\<not> is_digit_in 16 (CHR ''('')"
  "\<not> is_digit_in 16 (CHR '' '')" "\<not> is_digit_in 16 (CHR 0x0A)" "\<not> is_digit_in 16 (CHR '';'')" "\<not> is_digit_in 16 (CHR 0x00)"
  by (simp_all add: is_digit_in_def digit_val_def)

lemma dec_digits: "\<forall>c \<in> set (show_base 10 n). is_digit_in 16 c"
  using show_base_digits [of 10 n] by (auto simp: is_digit_in_def split: option.splits)

lemma not_in_digits: "\<not> is_digit_in 16 c \<Longrightarrow> c \<notin> set (hex2 b)" "\<not> is_digit_in 16 c \<Longrightarrow> c \<notin> set (show_base 10 n)"
  using hex2_digits dec_digits by blast+

lemmas no_digit = no_hex_digit_Cons digit_chars not_in_digits

lemma pps_data_text:
  "pps_data (''0x'' @ hex2 a @ '' '' @ ''0x'' @ hex2 b @ '' '' @ ''0x'' @ hex2 c @ rest) = Some [a, b, c]" if "no_hex_digit rest"
proof -
  have skip: "ipmi_sel_interpret_after (''0x'' @ hex2 x @ CHR '' '' # r) (CHR '' '') = Some r" for x r
    using after_skip [of "CHR '' ''" "''0x'' @ hex2 x" r] hex2_chars [of _ x] by auto
  have num: "pps_num 16 (''0x'' @ hex2 x @ CHR '' '' # r) = Some (int (unat x))" for x r
    using pps_num_hex2 [of "CHR '' '' # r" x] by (simp add: no_hex_digit_Cons digit_chars)
  show ?thesis unfolding pps_data_def using skip num pps_num_hex2 [OF that, of c] by simp
qed

lemma seven_bits: "ucast (ucast (t :: 7 word) :: byte) = t"
  by (rule bit_word_eqI) (simp add: bit_simps)

lemma u16_bytes: "(word_of_int (int (unat (ucast (drop_bit 8 x) :: byte) * 256 + unat (ucast x :: byte))) :: u16) = x"
proof -
  have "unat (ucast x :: byte) = unat x mod 256" by (simp add: unsigned_ucast_eq take_bit_eq_mod)
  moreover have "unat (ucast (drop_bit 8 x) :: byte) = unat x div 256"
  proof -
    have "unat x div 256 < 256" using unsigned_less [of x, where 'a = nat] by (simp add: less_mult_imp_div_less)
    then show ?thesis by (simp add: unsigned_ucast_eq take_bit_eq_mod drop_bit_eq_div unat_div)
  qed
  ultimately show ?thesis by simp
qed

lemma pps_line_text:
  assumes "pps_ok e"
  shows "pps_line (pps_text e @ [CHR 0x0A]) = Some (pps_record e)"
proof -
  let ?D = "''0x'' @ hex2 (p_data0 e) @ '' '' @ ''0x'' @ hex2 (p_data1 e) @ '' '' @ ''0x'' @ hex2 (p_data2 e) @ [CHR 0x0A]"
  let ?c6 = "(if p_asserted e then ''asserted'' else ''deasserted'') @ ''): '' @ ?D"
  let ?c5 = "''0x'' @ hex2 (ucast (p_event_type e)) @ CHR ''('' # ?c6"
  let ?c4 = "show_base 10 (unat (p_sensor_num e)) @ '');event'' @ CHR '':'' # ?c5"
  let ?c3 = "''0x'' @ hex2 (p_sensor_type e) @ CHR '','' # ?c4"
  let ?c2 = "''sensor:'' @ CHR ''('' # ?c3"
  let ?c1 = "''from:('' @ p_from e @ '')'' @ CHR '';'' # ?c2"
  have clean: "CHR '';'' \<notin> set (p_time e)" "CHR '';'' \<notin> set (p_from e)" using assms by (auto simp: pps_ok_def)
  have t: "pps_text e @ [CHR 0x0A] = ''0x'' @ hex2 (ucast (drop_bit 8 (p_id e))) @ hex2 (ucast (p_id e)) @ '': Event: at '' @ p_time e @ CHR '';'' # ?c1"
    by (simp add: pps_text_def)
  have n0: "pps_num 16 (pps_text e @ [CHR 0x0A]) = Some (int (unat (ucast (drop_bit 8 (p_id e)) :: byte) * 256 + unat (ucast (p_id e) :: byte)))"
    unfolding t by (rule pps_num_hex4) (simp add: no_hex_digit_Cons digit_chars)
  have a1: "ipmi_sel_interpret_after (pps_text e @ [CHR 0x0A]) (CHR '';'') = Some ?c1"
    using after_skip [of "CHR '';''" "''0x'' @ hex2 (ucast (drop_bit 8 (p_id e))) @ hex2 (ucast (p_id e)) @ '': Event: at '' @ p_time e" ?c1] clean
    unfolding t by (simp add: no_digit)
  have a2: "ipmi_sel_interpret_after ?c1 (CHR '';'') = Some ?c2"
    using after_skip [of "CHR '';''" "''from:('' @ p_from e @ '')''" ?c2] clean by simp
  have a3: "ipmi_sel_interpret_after ?c2 (CHR ''('') = Some ?c3" using after_skip [of "CHR ''(''" "''sensor:''" ?c3] by simp
  have n3: "pps_num 16 ?c3 = Some (int (unat (p_sensor_type e)))" by (rule pps_num_hex2) (simp add: no_digit)
  have a4: "ipmi_sel_interpret_after ?c3 (CHR '','') = Some ?c4"
    using after_skip [of "CHR '',''" "''0x'' @ hex2 (p_sensor_type e)" ?c4] by (simp add: no_digit)
  have n4: "pps_num 10 ?c4 = Some (int (unat (p_sensor_num e)))"
    by (rule pps_num_dec) (use unat_byte_less [of "p_sensor_num e"] in \<open>simp_all add: no_digit del: unat_byte_less\<close>)
  have a5: "ipmi_sel_interpret_after ?c4 (CHR '':'') = Some ?c5"
    using after_skip [of "CHR '':''" "show_base 10 (unat (p_sensor_num e)) @ '');event''" ?c5] by (simp add: no_digit)
  have n5: "pps_num 16 ?c5 = Some (int (unat (ucast (p_event_type e) :: byte)))" by (rule pps_num_hex2) (simp add: no_digit)
  have a6: "ipmi_sel_interpret_after ?c5 (CHR ''('') = Some ?c6"
    using after_skip [of "CHR ''(''" "''0x'' @ hex2 (ucast (p_event_type e))" ?c6] by (simp add: no_digit)
  have a7: "ipmi_sel_interpret_after ?c6 (CHR '' '') = Some ?D"
    using after_skip [of "CHR '' ''" "(if p_asserted e then ''asserted'' else ''deasserted'') @ ''):''" ?D] by simp
  have dir: "(case ?c6 of [] \<Rightarrow> None | c # _ \<Rightarrow> Some (c \<noteq> CHR ''a'')) = Some (\<not> p_asserted e)" by simp
  have d: "pps_data ?D = Some [p_data0 e, p_data1 e, p_data2 e]" by (rule pps_data_text) (simp add: no_digit)
  show ?thesis
    unfolding pps_line_def n0 a1 a2 a3 n3 a4 n4 a5 n5 a6 a7 dir d Option.bind.simps
    using assms u16_bytes [of "p_id e"] by (simp add: pps_record_def pps_ok_def seven_bits)
qed

lemma dec_byte_length: "length (show_base 10 (unat (b :: byte))) \<le> 3"
proof -
  define n where "n = unat b"
  have "n div 10 div 10 < 10" using unat_byte_less [of b] unfolding n_def by linarith
  then have "length (show_base 10 n) \<le> 3"
    by (simp add: show_base.simps [of 10 n] show_base.simps [of 10 "n div 10"] show_base.simps [of 10 "n div 10 div 10"])
  then show ?thesis by (simp add: n_def)
qed

lemma pps_text_clean:
  assumes "pps_ok e"
  shows "CHR 0x0A \<notin> set (pps_text e)" and "CHR 0x00 \<notin> set (pps_text e)" and "length (pps_text e) + 1 < 255"
proof -
  have c: "CHR 0x0A \<notin> set (p_time e)" "CHR 0x0A \<notin> set (p_from e)" "CHR 0x00 \<notin> set (p_time e)" "CHR 0x00 \<notin> set (p_from e)"
    using assms by (auto simp: pps_ok_def)
  show "CHR 0x0A \<notin> set (pps_text e)" "CHR 0x00 \<notin> set (pps_text e)" unfolding pps_text_def using c by (simp_all add: no_digit)
  show "length (pps_text e) + 1 < 255"
    using assms dec_byte_length [of "p_sensor_num e"] unfolding pps_ok_def pps_text_def by simp
qed

lemma sel_pps_loop_at:
  assumes "sel_prints h v"
  shows "\<forall>e \<in> set es. pps_ok e \<Longrightarrow>
     \<exists>w. sel_pps_loop h (concat (map (\<lambda>e. pps_text e @ [CHR 0x0A]) es)) st = rret (-1, st\<lparr>sl_world := w, sl_out := sl_out st @ map pps_record es\<rparr>)"
proof (induction es arbitrary: st)
  case Nil
  show ?case by (intro exI [of _ "sl_world st"]) (simp add: sel_pps_loop.simps)
next
  case (Cons e es)
  let ?rest = "concat (map (\<lambda>e. pps_text e @ [CHR 0x0A]) es)" and ?l = "pps_text e @ [CHR 0x0A]"
  have ok: "pps_ok e" using Cons.prems by simp
  note c = pps_text_clean [OF ok]
  have g: "fgets 256 (pps_text e @ CHR 0x0A # ?rest) = (?l, ?rest)" by (rule fgets_line) (use c in simp_all)
  have t: "c_text ?l = ?l" by (rule c_text_line [OF c(2)])
  obtain w where p: "sel_print (sl_show h) (pps_record e) st = rret ((), st\<lparr>sl_world := w, sl_out := sl_out st @ [pps_record e]\<rparr>)"
    using sel_print_at [OF assms] by blast
  let ?st = "st\<lparr>sl_world := w, sl_out := sl_out st @ [pps_record e]\<rparr>"
  have "length ?l \<noteq> 255" using c(3) by simp
  then have step: "sel_pps_loop h (pps_text e @ CHR 0x0A # ?rest) st = sel_pps_loop h ?rest ?st"
    by (subst sel_pps_loop.simps) (simp only: g t pps_line_text [OF ok] p prod.case option.case rbind_simps if_False append_is_Nil_conv list.distinct simp_thms)
  have "\<exists>w'. sel_pps_loop h ?rest ?st = rret (-1, ?st\<lparr>sl_world := w', sl_out := sl_out ?st @ map pps_record es\<rparr>)"
    by (rule Cons.IH) (use Cons.prems in simp)
  then show ?case using step by auto
qed

section \<open>Properties\<close>

text \<open>
  A file of lines of a shelf manager, none of them of a hot-swap sensor (type 0xF0), is read completely: the events shown are those the lines
  were printed from, with identifier, sensor, event type, direction and data, in the order of the
  lines. The result is -1 nevertheless, as for every file.
\<close>

theorem sel_interpret_roundtrip:
  assumes "sel_prints h v" and "\<forall>e \<in> set es. pps_ok e"
    and "sl_file h f (sl_world st) = Some (text_bytes (concat (map (\<lambda>e. pps_text e @ [CHR 0x0A]) es)))"
  shows "\<exists>st'. ipmi_sel_interpret h iana f ''pps'' st = rret (-1, st') \<and> sl_out st' = sl_out st @ map pps_record es"
proof -
  let ?st = "st\<lparr>sl_settings := (sl_settings st)\<lparr>sel_iana := iana\<rparr>\<rparr>"
  obtain w where "sel_pps_loop h (concat (map (\<lambda>e. pps_text e @ [CHR 0x0A]) es)) ?st = rret (-1, ?st\<lparr>sl_world := w, sl_out := sl_out ?st @ map pps_record es\<rparr>)"
    using sel_pps_loop_at [OF assms(1,2)] by blast
  then show ?thesis using assms(3) by (simp add: ipmi_sel_interpret_def Let_def)
qed

definition sample_pps :: pps_event where
  "sample_pps = \<lparr>p_id = 0x001F, p_time = ''Mar 27 06:41:10 2007'', p_from = ''0x9a,0,7'', p_sensor_type = 0xC3, p_sensor_num = 119, p_event_type = 0x6F,
     p_asserted = True, p_data0 = 0xA3, p_data1 = 0, p_data2 = 0x88\<rparr>"

theorem sel_interpret_roundtrip_witness:
  "\<exists>st'. ipmi_sel_interpret (log_host False) 0 ''log'' ''pps''
       ((sample_log True)\<lparr>sl_world := (sl_world (sample_log True))\<lparr>g_file := Some (text_bytes (pps_text sample_pps @ [CHR 0x0A]))\<rparr>\<rparr>) = rret (-1, st')
     \<and> sl_out st' = [pps_record sample_pps]"
proof -
  let ?st = "(sample_log True)\<lparr>sl_world := (sl_world (sample_log True))\<lparr>g_file := Some (text_bytes (pps_text sample_pps @ [CHR 0x0A]))\<rparr>\<rparr>"
  have "\<forall>e \<in> set [sample_pps]. pps_ok e" by (simp add: pps_ok_def sample_pps_def)
  moreover have "sl_file (log_host False) ''log'' (sl_world ?st) = Some (text_bytes (concat (map (\<lambda>e. pps_text e @ [CHR 0x0A]) [sample_pps])))"
    by (simp add: log_host_def)
  ultimately have "\<exists>st'. ipmi_sel_interpret (log_host False) 0 ''log'' ''pps'' ?st = rret (-1, st') \<and> sl_out st' = sl_out ?st @ map pps_record [sample_pps]"
    by (rule sel_interpret_roundtrip [OF log_prints])
  then show ?thesis by (simp add: sample_log_def)
qed

section \<open>Limits of the code\<close>

text \<open>The interpretation never reports success.\<close>

lemma pps_loop_fails: "sel_pps_loop h s st = rret (rc, st') \<Longrightarrow> rc = -1"
proof (induction "length s" arbitrary: s st rule: less_induct)
  case less
  obtain buf rest where g: "fgets 256 s = (buf, rest)" by fastforce
  show ?case
  proof (cases "s = [] \<or> length (c_text buf) = 255 \<and> c_text buf ! 254 \<noteq> CHR 0x0A \<and> rest \<noteq> [] \<or> pps_line (c_text buf) = None")
    case True
    then show ?thesis using less.prems g by (subst (asm) sel_pps_loop.simps) (auto split: if_splits)
  next
    case False
    then obtain evt where "pps_line (c_text buf) = Some evt" by blast
    with False have "rbind (sel_print (sl_show h) evt st) (\<lambda>(_, st1). sel_pps_loop h rest st1) = Some (Inr (rc, st'))"
      using less.prems g by (subst (asm) sel_pps_loop.simps) (auto simp: rret_def)
    then obtain st1 where "sel_pps_loop h rest st1 = rret (rc, st')" by (auto simp: rbind_Inr rret_def)
    moreover have "length rest < length s" using fgets_shorter [OF g [symmetric]] False by simp
    ultimately show ?thesis by (rule less.hyps [rotated])
  qed
qed

lemma interpret_never_succeeds: "ipmi_sel_interpret h iana f format st = rret (rc, st') \<Longrightarrow> rc = -1"
  by (auto simp: ipmi_sel_interpret_def Let_def dest: pps_loop_fails split: if_splits option.splits)

text \<open>
  When the controller fails to give an entry while entries are passed over, the second try starts again at
  the first entry: the last of three entries is looked for, and the second one is found.
\<close>

lemma skip_restarts: "sel_skip (log_host True) 2 0 (sample_log False) = rret (7, sample_log False)"
  by code_simp

end
