(* ===== verification/Hpmfwupg.thy ===== *)
theory Hpmfwupg
  imports Run Md5 "HOL-Library.Sublist"
begin

text \<open>
  HPM.1 firmware upgrade, lib/ipmi_hpmfwupg.c: commands of the upgrade protocol with their
  retries and time-outs, the checks of an upgrade image, the preparation, upgrade and
  activation stages, uploading of a firmware in blocks, rollback.

  The environment of the commands is a record of functions over a world \<open>'w\<close>: the
  interface with its \<open>sendrecv\<close>, \<open>open\<close> and \<open>close\<close>, the clock, the answers of the user. The
  static variables of the source are fields of the state beside the world. The loops that
  wait on the controller or the clock are partial functions, None when they do not end.
  Reads outside the image are the outcome \<open>Hpm_out_of_bounds\<close>. Printing is left out, memory
  allocation succeeds, the host is little-endian, and an image is shorter than 2 GiB, the range of
  the lengths \<open>md5_append\<close> takes.
\<close>

unbundle bit_operations_syntax

section \<open>State\<close>

text \<open>Versions of a component: major, minor and four auxiliary bytes.\<close>

record version_info =
  vi_componentId :: byte
  vi_target :: "byte list"
  vi_rollback :: "byte list"
  vi_deferred :: "byte list"
  vi_image :: "byte list"
  vi_coldResetRequired :: bool
  vi_rollbackSupported :: bool
  vi_deferredActivationSupported :: bool
  vi_descString :: "byte list"

definition version_zero :: version_info where
  "version_zero = \<lparr>vi_componentId = 0, vi_target = replicate 6 0, vi_rollback = replicate 6 0, vi_deferred = replicate 6 0,
     vi_image = replicate 6 0, vi_coldResetRequired = False, vi_rollbackSupported = False, vi_deferredActivationSupported = False,
     vi_descString = replicate 13 0\<rparr>"

record devid =
  dev_device_id :: byte
  dev_fw_rev1 :: byte
  dev_fw_rev2 :: byte
  dev_manufacturer_id :: "byte list"
  dev_product_id :: "byte list"

record target_cap =
  tc_hpmVersion :: byte
  tc_GlobalCapabilities :: byte
  tc_upgradeTimeout :: byte
  tc_selftestTimeout :: byte
  tc_rollbackTimeout :: byte
  tc_inaccessTimeout :: byte
  tc_componentsPresent :: byte

record upgrade_ctx =
  uc_compUpdateMask :: byte
  uc_pImageData :: "byte list option"
  uc_componentId :: nat
  uc_targetCap :: target_cap
  uc_genCompProp :: "byte list"
  uc_devId :: devid

record 'w hpm_state =
  hp_world :: 'w
  hp_errorCount :: nat
  hp_isValidSize :: bool
  hp_resizeCount :: nat
  hp_versions :: "version_info list"

datatype 'e hpm_error = Hpm_transport 'e | Hpm_out_of_bounds | Hpm_null_file

record ('e, 'w) hpm_host =
  h_sendrecv :: "('e, 'w) sendrecv"
  h_abort_close :: "'w \<Rightarrow> 'e + unit \<times> 'w"
  h_open :: "'w \<Rightarrow> 'e + int \<times> 'w"
  h_intf :: "'w \<Rightarrow> ipmi_intf"
  h_time :: "'w \<Rightarrow> u32 \<times> 'w"
  h_input :: "'w \<Rightarrow> bool \<times> 'w"
  h_file :: "'w \<Rightarrow> string \<Rightarrow> byte list option"

text \<open>A run: None when it does not end, an error, or a result and the new state.\<close>

type_synonym ('e, 'a) hpm = "('e hpm_error, 'a) run"

definition hsend :: "('e, 'w) hpm_host \<Rightarrow> ipmi_rq \<Rightarrow> 'w hpm_state \<Rightarrow> ('e, ipmi_rsp option \<times> 'w hpm_state) hpm" where
  "hsend h req st = (case h_sendrecv h req (hp_world st) of Inl e \<Rightarrow> Some (Inl (Hpm_transport e)) | Inr (r, w) \<Rightarrow> rret (r, st\<lparr>hp_world := w\<rparr>))"

definition htime :: "('e, 'w) hpm_host \<Rightarrow> 'w hpm_state \<Rightarrow> u32 \<times> 'w hpm_state" where
  "htime h st = (case h_time h (hp_world st) of (t, w) \<Rightarrow> (t, st\<lparr>hp_world := w\<rparr>))"

definition hinput :: "('e, 'w) hpm_host \<Rightarrow> 'w hpm_state \<Rightarrow> bool \<times> 'w hpm_state" where
  "hinput h st = (case h_input h (hp_world st) of (b, w) \<Rightarrow> (b, st\<lparr>hp_world := w\<rparr>))"

definition hopen :: "('e, 'w) hpm_host \<Rightarrow> 'w hpm_state \<Rightarrow> ('e, int \<times> 'w hpm_state) hpm" where
  "hopen h st = (case h_open h (hp_world st) of Inl e \<Rightarrow> Some (Inl (Hpm_transport e)) | Inr (r, w) \<Rightarrow> rret (r, st\<lparr>hp_world := w\<rparr>))"

definition hclose :: "('e, 'w) hpm_host \<Rightarrow> 'w hpm_state \<Rightarrow> ('e, unit \<times> 'w hpm_state) hpm" where
  "hclose h st = (case h_abort_close h (hp_world st) of Inl e \<Rightarrow> Some (Inl (Hpm_transport e)) | Inr (r, w) \<Rightarrow> rret (r, st\<lparr>hp_world := w\<rparr>))"

section \<open>Sending a command\<close>

definition HPMFWUPG_DEFAULT_UPGRADE_TIMEOUT :: u32 where "HPMFWUPG_DEFAULT_UPGRADE_TIMEOUT = 60"

definition HPM_LAN_PACKET_RESIZE_LIMIT :: nat where "HPM_LAN_PACKET_RESIZE_LIMIT = 6"

definition RETRY_COUNT_MAX :: nat where "RETRY_COUNT_MAX = 3"

text \<open>The counter is touched only for the three codes.\<close>

definition HPMFWUPG_IS_RETRYABLE :: "byte \<Rightarrow> 'w hpm_state \<Rightarrow> bool \<times> 'w hpm_state" where
  "HPMFWUPG_IS_RETRYABLE cc st =
     (if cc = 0x83 \<or> cc = 0x82 \<or> cc = 0x80 then (hp_errorCount st < RETRY_COUNT_MAX, st\<lparr>hp_errorCount := hp_errorCount st + 1\<rparr>)
      else (False, st))"

definition is_lan :: "('e, 'w) hpm_host \<Rightarrow> 'w hpm_state \<Rightarrow> bool" where
  "is_lan h st \<longleftrightarrow> sublist ''lan'' (intf_name (h_intf h (hp_world st)))"

text \<open>Opening again until it succeeds or the time is over: the counter and the time of the last look.\<close>

partial_function (option) reopen_loop :: "('e, 'w) hpm_host \<Rightarrow> u32 \<Rightarrow> u32 \<Rightarrow> u32 \<Rightarrow> 'w hpm_state \<Rightarrow> ('e, (u32 \<times> u32) \<times> 'w hpm_state) hpm" where
  "reopen_loop h inaccess counter t1 st =
     rbind (hopen h st) (\<lambda>(rc, st1).
       if rc = -1 \<and> counter < inaccess
       then (case htime h st1 of (t, st2) \<Rightarrow> case htime h st2 of (t', st3) \<Rightarrow> reopen_loop h inaccess (counter + (t - t1)) t' st3)
       else rret ((counter, t1), st1))"

text \<open>
  When there is no response, the answers the code makes up for itself over a LAN: one that
  asks for shorter blocks, one that says that the command is in progress, and a time-out after
  the session has been opened again.
\<close>

definition made_up_response ::
    "('e, 'w) hpm_host \<Rightarrow> u32 \<Rightarrow> ipmi_rq \<Rightarrow> u32 \<Rightarrow> u32 \<Rightarrow> ipmi_rsp option \<Rightarrow> 'w hpm_state \<Rightarrow> ('e, (ipmi_rsp option \<times> u32 \<times> u32) \<times> 'w hpm_state) hpm" where
  "made_up_response h inaccess req counter t1 rsp st =
     (let picmg = (rq_netfn req = 0x2C); cmd = rq_cmd req; intf = h_intf h (hp_world st)
      in if rsp \<noteq> None \<or> \<not> is_lan h st then rret ((rsp, counter, t1), st)
         else if picmg \<and> cmd = 0x32 \<and> hp_resizeCount st < HPM_LAN_PACKET_RESIZE_LIMIT \<and> \<not> hp_isValidSize st
         then rret ((Some (rsp_of 0xC7 []), counter, t1), st\<lparr>hp_resizeCount := hp_resizeCount st + 1\<rparr>)
         else if picmg \<and> (cmd = 0x35 \<or> cmd = 0x38) then rret ((Some (rsp_of 0x80 []), counter, t1), st)
         else if picmg \<and> (cmd = 0x37 \<or> cmd = 0x34 \<or> cmd = 0x36) \<and> (target_addr intf = 0 \<or> target_addr intf = my_addr intf)
         then rbind (hclose h st) (\<lambda>(_, st1). rbind (reopen_loop h inaccess counter t1 st1) (\<lambda>((counter', t1'), st2).
                rret ((Some (rsp_of 0xC3 []), counter', t1'), st2)))
         else rret ((None, counter, t1), st))"

definition send_done :: "ipmi_rq \<Rightarrow> ipmi_rsp \<Rightarrow> 'w hpm_state \<Rightarrow> 'w hpm_state" where
  "send_done req r st =
     (let st1 = (if rsp_ccode r = 0 then st\<lparr>hp_errorCount := 0\<rparr> else st)
      in if rq_netfn req = 0x2C \<and> rq_cmd req = 0x32 then st1\<lparr>hp_isValidSize := True\<rparr> else st1)"

text \<open>
  The retry loop. A busy controller is waited for with a counter that is meant to add up the time
  gone by, but takes the time of the last look before it computes the difference.
\<close>

partial_function (option) send_cmd_loop ::
    "('e, 'w) hpm_host \<Rightarrow> u32 \<Rightarrow> u32 \<Rightarrow> ipmi_rq \<Rightarrow> u32 \<Rightarrow> u32 \<Rightarrow> u32 \<Rightarrow> 'w hpm_state \<Rightarrow> ('e, ipmi_rsp option \<times> 'w hpm_state) hpm" where
  "send_cmd_loop h inaccess upgrade req inaccessCounter upgradeCounter t1 st =
     rbind (hsend h req st) (\<lambda>(rsp0, st1).
       rbind (made_up_response h inaccess req inaccessCounter t1 rsp0 st1) (\<lambda>((rsp, counter, t1'), st2).
         if (case rsp of None \<Rightarrow> True | Some r \<Rightarrow> rsp_ccode r = 0xFF \<or> rsp_ccode r = 0xC3 \<or> rsp_ccode r = 0xD3) then
           if counter < inaccess then
             (case htime h st2 of (t2, st3) \<Rightarrow>
                if t2 > t1'
                then (case htime h st3 of (t3, st4) \<Rightarrow> send_cmd_loop h inaccess upgrade req (counter + (t2 - t1')) upgradeCounter t3 st4)
                else send_cmd_loop h inaccess upgrade req counter upgradeCounter t1' st3)
           else rret (rsp, st2)
         else if rsp_ccode (the rsp) = 0xC0 then
           if upgradeCounter < upgrade then
             (case htime h st2 of (t2, st3) \<Rightarrow>
                if t2 > t1'
                then (case htime h st3 of (t3, st4) \<Rightarrow> send_cmd_loop h inaccess upgrade req counter (upgradeCounter + (t2 - t3)) t3 st4)
                else send_cmd_loop h inaccess upgrade req counter upgradeCounter t1' st3)
           else rret (rsp, st2)
         else rret (rsp, send_done req (the rsp) st2)))"

definition HpmfwupgSendCmd :: "('e, 'w) hpm_host \<Rightarrow> ipmi_rq \<Rightarrow> upgrade_ctx option \<Rightarrow> 'w hpm_state \<Rightarrow> ('e, ipmi_rsp option \<times> 'w hpm_state) hpm" where
  "HpmfwupgSendCmd h req ctx st =
     (let inaccess = (case ctx of None \<Rightarrow> HPMFWUPG_DEFAULT_UPGRADE_TIMEOUT | Some c \<Rightarrow> ucast (tc_inaccessTimeout (uc_targetCap c)) * 5);
          upgrade = (case ctx of None \<Rightarrow> HPMFWUPG_DEFAULT_UPGRADE_TIMEOUT | Some c \<Rightarrow> ucast (tc_upgradeTimeout (uc_targetCap c)) * 5)
      in case htime h st of (t1, st1) \<Rightarrow> send_cmd_loop h inaccess upgrade req 0 0 t1 st1)"

section \<open>Commands\<close>

definition HPMFWUPG_SUCCESS :: int where "HPMFWUPG_SUCCESS = 0"

definition HPMFWUPG_ERROR :: int where "HPMFWUPG_ERROR = -1"

definition HPMFWUPG_UPLOAD_BLOCK_LENGTH :: int where "HPMFWUPG_UPLOAD_BLOCK_LENGTH = 1"

definition HPMFWUPG_UPLOAD_RETRY :: int where "HPMFWUPG_UPLOAD_RETRY = 2"

definition devid_of :: "ipmi_rsp \<Rightarrow> devid" where
  "devid_of r = \<lparr>dev_device_id = rsp_byte r 0, dev_fw_rev1 = rsp_byte r 2, dev_fw_rev2 = rsp_byte r 3,
     dev_manufacturer_id = rsp_bytes r 6 3, dev_product_id = rsp_bytes r 9 2\<rparr>"

definition target_cap_of :: "ipmi_rsp \<Rightarrow> target_cap" where
  "target_cap_of r = \<lparr>tc_hpmVersion = rsp_byte r 1, tc_GlobalCapabilities = rsp_byte r 2, tc_upgradeTimeout = rsp_byte r 3,
     tc_selftestTimeout = rsp_byte r 4, tc_rollbackTimeout = rsp_byte r 5, tc_inaccessTimeout = rsp_byte r 6, tc_componentsPresent = rsp_byte r 7\<rparr>"

text \<open>The result is None for the code \<open>HPMFWUPG_ERROR\<close>, and what the response holds on success.\<close>

definition HpmfwupgGetDeviceId :: "('e, 'w) hpm_host \<Rightarrow> 'w hpm_state \<Rightarrow> ('e, devid option \<times> 'w hpm_state) hpm" where
  "HpmfwupgGetDeviceId h st =
     rbind (HpmfwupgSendCmd h (mk_rq 0x06 0x01 []) None st) (\<lambda>(rsp, st1).
       case rsp of
         None \<Rightarrow> rret (None, st1)
       | Some r \<Rightarrow> if rsp_ccode r \<noteq> 0 then rret (None, st1) else rret (Some (devid_of r), st1))"

definition HpmfwupgGetTargetUpgCapabilities :: "('e, 'w) hpm_host \<Rightarrow> 'w hpm_state \<Rightarrow> ('e, target_cap option \<times> 'w hpm_state) hpm" where
  "HpmfwupgGetTargetUpgCapabilities h st =
     rbind (HpmfwupgSendCmd h (mk_rq 0x2C 0x2E [0]) None st) (\<lambda>(rsp, st1).
       case rsp of
         None \<Rightarrow> rret (None, st1)
       | Some r \<Rightarrow> if rsp_ccode r \<noteq> 0 then rret (None, st1) else rret (Some (target_cap_of r), st1))"

text \<open>The number of bytes of the response that are copied, by selector.\<close>

definition property_size :: "byte \<Rightarrow> nat option" where
  "property_size selector =
     (if selector = 0 then Some 2 else if selector = 1 then Some 7 else if selector = 2 then Some 13
      else if selector = 3 then Some 7 else if selector = 4 then Some 7 else if selector = 192 then Some 5 else None)"

definition HpmfwupgGetComponentProperties ::
    "('e, 'w) hpm_host \<Rightarrow> byte \<Rightarrow> byte \<Rightarrow> 'w hpm_state \<Rightarrow> ('e, byte list option \<times> 'w hpm_state) hpm" where
  "HpmfwupgGetComponentProperties h componentId selector st =
     rbind (HpmfwupgSendCmd h (mk_rq 0x2C 0x2F [0, componentId, selector]) None st) (\<lambda>(rsp, st1).
       case rsp of
         None \<Rightarrow> rret (None, st1)
       | Some r \<Rightarrow>
           if rsp_ccode r \<noteq> 0 then rret (None, st1)
           else rret (map_option (rsp_bytes r 0) (property_size selector), st1))"

definition HpmfwupgAbortUpgrade :: "('e, 'w) hpm_host \<Rightarrow> 'w hpm_state \<Rightarrow> ('e, int \<times> 'w hpm_state) hpm" where
  "HpmfwupgAbortUpgrade h st =
     rbind (HpmfwupgSendCmd h (mk_rq 0x2C 0x30 [0]) None st) (\<lambda>(rsp, st1).
       rret (case rsp of None \<Rightarrow> HPMFWUPG_ERROR | Some r \<Rightarrow> if rsp_ccode r \<noteq> 0 then HPMFWUPG_ERROR else HPMFWUPG_SUCCESS, st1))"

text \<open>
  The status: the command in process and the code of the last one. A retryable error keeps
  the former and sets the code to \<open>command in progress\<close>.
\<close>

definition HpmfwupgGetUpgradeStatus ::
    "('e, 'w) hpm_host \<Rightarrow> byte \<times> byte \<Rightarrow> upgrade_ctx option \<Rightarrow> 'w hpm_state \<Rightarrow> ('e, (int \<times> byte \<times> byte) \<times> 'w hpm_state) hpm" where
  "HpmfwupgGetUpgradeStatus h resp ctx st =
     rbind (HpmfwupgSendCmd h (mk_rq 0x2C 0x34 [0]) ctx st) (\<lambda>(rsp, st1).
       case rsp of
         None \<Rightarrow> rret ((HPMFWUPG_ERROR, resp), st1)
       | Some r \<Rightarrow>
           if rsp_ccode r = 0 then rret ((HPMFWUPG_SUCCESS, rsp_byte r 1, rsp_byte r 2), st1)
           else (case HPMFWUPG_IS_RETRYABLE (rsp_ccode r) st1 of (retryable, st2) \<Rightarrow>
                   if retryable then rret ((HPMFWUPG_SUCCESS, fst resp, 0x80), st2) else rret ((HPMFWUPG_ERROR, resp), st2)))"

partial_function (option) wait_loop ::
    "('e, 'w) hpm_host \<Rightarrow> upgrade_ctx option \<Rightarrow> u32 \<Rightarrow> u32 \<Rightarrow> u32 \<Rightarrow> int \<times> byte \<times> byte \<Rightarrow> 'w hpm_state \<Rightarrow> ('e, (int \<times> byte \<times> byte) \<times> 'w hpm_state) hpm" where
  "wait_loop h ctx upgradeTimeout t1 t2 status st =
     (if (snd (snd status) = 0x80 \<or> snd (snd status) = 0xD5) \<and> t2 - t1 < upgradeTimeout \<and> fst status = HPMFWUPG_SUCCESS
      then (case htime h st of (t, st1) \<Rightarrow>
              rbind (HpmfwupgGetUpgradeStatus h (snd status) ctx st1) (\<lambda>(status', st2). wait_loop h ctx upgradeTimeout t1 t status' st2))
      else rret (status, st))"

definition wait_status :: "('e, 'w) hpm_host \<Rightarrow> upgrade_ctx option \<Rightarrow> u32 \<Rightarrow> 'w hpm_state \<Rightarrow> ('e, int \<times> 'w hpm_state) hpm" where
  "wait_status h ctx upgradeTimeout st =
     (case htime h st of (t1, st1) \<Rightarrow>
        rbind (HpmfwupgGetUpgradeStatus h (0, 0) ctx st1) (\<lambda>(status, st2).
          rbind (wait_loop h ctx upgradeTimeout t1 t1 status st2) (\<lambda>((rc, _, lastCmdCompCode), st3).
            rret (if lastCmdCompCode \<noteq> 0 then HPMFWUPG_ERROR else rc, st3))))"

definition HpmfwupgWaitLongDurationCmd :: "('e, 'w) hpm_host \<Rightarrow> upgrade_ctx option \<Rightarrow> 'w hpm_state \<Rightarrow> ('e, int \<times> 'w hpm_state) hpm" where
  "HpmfwupgWaitLongDurationCmd h ctx st =
     (case ctx of
        Some c \<Rightarrow> wait_status h ctx (ucast (tc_upgradeTimeout (uc_targetCap c)) * 5) st
      | None \<Rightarrow>
          rbind (HpmfwupgGetTargetUpgCapabilities h st) (\<lambda>(cap, st1).
            wait_status h ctx (case cap of None \<Rightarrow> HPMFWUPG_DEFAULT_UPGRADE_TIMEOUT | Some c \<Rightarrow> ucast (tc_upgradeTimeout c) * 5) st1))"

definition HpmfwupgInitiateUpgradeAction ::
    "('e, 'w) hpm_host \<Rightarrow> byte \<Rightarrow> byte \<Rightarrow> upgrade_ctx \<Rightarrow> 'w hpm_state \<Rightarrow> ('e, int \<times> 'w hpm_state) hpm" where
  "HpmfwupgInitiateUpgradeAction h componentsMask upgradeAction ctx st =
     rbind (HpmfwupgSendCmd h (mk_rq 0x2C 0x31 [0, componentsMask, upgradeAction]) (Some ctx) st) (\<lambda>(rsp, st1).
       case rsp of
         None \<Rightarrow> rret (HPMFWUPG_ERROR, st1)
       | Some r \<Rightarrow>
           if rsp_ccode r = 0x80 then HpmfwupgWaitLongDurationCmd h (Some ctx) st1
           else rret (if rsp_ccode r \<noteq> 0 then HPMFWUPG_ERROR else HPMFWUPG_SUCCESS, st1))"

text \<open>
  Uploading of a block: the return code, and the section offset and length of the response,
  zero when it has none.
\<close>

definition section_of :: "ipmi_rsp \<Rightarrow> byte \<times> u32 \<times> u32" where
  "section_of r =
     (if rsp_ccode r = 0x80 \<or> rsp_ccode r = 0 then
        if rsp_data_len r > 1 then
          if rsp_data_len r = 9 then (rsp_ccode r, of_le32 (rsp_bytes r 1 4), of_le32 (rsp_bytes r 5 4)) else (0x82, 0, 0)
        else (rsp_ccode r, 0, 0)
      else (rsp_ccode r, 0, 0))"

definition HpmfwupgUploadFirmwareBlock ::
    "('e, 'w) hpm_host \<Rightarrow> byte \<Rightarrow> byte list \<Rightarrow> upgrade_ctx \<Rightarrow> 'w hpm_state \<Rightarrow> ('e, (int \<times> u32 \<times> u32) \<times> 'w hpm_state) hpm" where
  "HpmfwupgUploadFirmwareBlock h blockNumber data ctx st =
     rbind (HpmfwupgSendCmd h (mk_rq 0x2C 0x32 (0 # blockNumber # data)) (Some ctx) st) (\<lambda>(rsp, st1).
       case rsp of
         None \<Rightarrow> rret ((HPMFWUPG_ERROR, 0, 0), st1)
       | Some r \<Rightarrow>
           (case section_of r of (ccode, sect) \<Rightarrow>
              if ccode = 0x80 then rbind (HpmfwupgWaitLongDurationCmd h (Some ctx) st1) (\<lambda>(rc, st2). rret ((rc, sect), st2))
              else if ccode \<noteq> 0 then
                (case HPMFWUPG_IS_RETRYABLE ccode st1 of (retryable, st2) \<Rightarrow>
                   rret ((if retryable then HPMFWUPG_UPLOAD_RETRY
                          else if ccode = 0xC7 \<or> ccode = 0xC8 then HPMFWUPG_UPLOAD_BLOCK_LENGTH else HPMFWUPG_ERROR, sect), st2))
              else rret ((HPMFWUPG_SUCCESS, sect), st1)))"

definition HpmfwupgFinishFirmwareUpload ::
    "('e, 'w) hpm_host \<Rightarrow> byte \<Rightarrow> u32 \<Rightarrow> upgrade_ctx \<Rightarrow> bool \<Rightarrow> 'w hpm_state \<Rightarrow> ('e, int \<times> 'w hpm_state) hpm" where
  "HpmfwupgFinishFirmwareUpload h componentId imageLength ctx compare st =
     rbind (HpmfwupgSendCmd h (mk_rq 0x2C 0x33 (0 # componentId # le32 imageLength)) (Some ctx) st) (\<lambda>(rsp, st1).
       case rsp of
         None \<Rightarrow> rret (HPMFWUPG_ERROR, st1)
       | Some r \<Rightarrow>
           if rsp_ccode r = 0x80 then HpmfwupgWaitLongDurationCmd h (Some ctx) st1
           else rret (if compare \<and> (rsp_ccode r = 0x83 \<or> rsp_ccode r = 0) then HPMFWUPG_SUCCESS
                      else if rsp_ccode r \<noteq> 0 then HPMFWUPG_ERROR else HPMFWUPG_SUCCESS, st1))"

definition HpmfwupgActivateFirmware ::
    "('e, 'w) hpm_host \<Rightarrow> byte \<Rightarrow> upgrade_ctx option \<Rightarrow> 'w hpm_state \<Rightarrow> ('e, int \<times> 'w hpm_state) hpm" where
  "HpmfwupgActivateFirmware h rollback_override ctx st =
     rbind (HpmfwupgSendCmd h (mk_rq 0x2C 0x35 (if rollback_override = 0 then [0] else [0, rollback_override])) ctx st) (\<lambda>(rsp, st1).
       case rsp of
         None \<Rightarrow> rret (HPMFWUPG_ERROR, st1)
       | Some r \<Rightarrow>
           if rsp_ccode r = 0x80 then HpmfwupgWaitLongDurationCmd h ctx st1
           else rret (if rsp_ccode r \<noteq> 0 then HPMFWUPG_ERROR else HPMFWUPG_SUCCESS, st1))"

text \<open>
  Polling of the rollback status: until the answer is neither \<open>command in progress\<close> nor a time-out,
  or the time is over. The response is as the loop leaves it, a retryable error replaced by
  \<open>command in progress\<close>.
\<close>

definition HPM_ask :: "('e, 'w) hpm_host \<Rightarrow> byte \<Rightarrow> upgrade_ctx option \<Rightarrow> 'w hpm_state \<Rightarrow> ('e, ipmi_rsp option \<times> 'w hpm_state) hpm" where
  "HPM_ask h cmd ctx st =
     rbind (HpmfwupgSendCmd h (mk_rq 0x2C cmd [0]) ctx st) (\<lambda>(rsp, st1).
       case rsp of
         None \<Rightarrow> rret (None, st1)
       | Some r \<Rightarrow>
           (case HPMFWUPG_IS_RETRYABLE (rsp_ccode r) st1 of (retryable, st2) \<Rightarrow>
              rret (Some (if retryable then r\<lparr>rsp_ccode := 0x80\<rparr> else r), st2)))"

partial_function (option) poll_status_loop ::
    "('e, 'w) hpm_host \<Rightarrow> byte \<Rightarrow> (byte \<Rightarrow> bool) \<Rightarrow> upgrade_ctx option \<Rightarrow> u32 \<Rightarrow> u32 \<Rightarrow> 'w hpm_state \<Rightarrow> ('e, ipmi_rsp option \<times> 'w hpm_state) hpm" where
  "poll_status_loop h cmd again ctx tmo t1 st =
     rbind (HPM_ask h cmd ctx st) (\<lambda>(rsp, st1).
       case htime h st1 of (t2, st2) \<Rightarrow>
         if (case rsp of None \<Rightarrow> False | Some r \<Rightarrow> again (rsp_ccode r)) \<and> t2 - t1 < tmo
         then poll_status_loop h cmd again ctx tmo t1 st2
         else rret (rsp, st2))"

definition rollback_timeout :: "upgrade_ctx option \<Rightarrow> 'e hpm_error + u32" where
  "rollback_timeout ctx =
     (case ctx of
        None \<Rightarrow> Inr HPMFWUPG_DEFAULT_UPGRADE_TIMEOUT
      | Some c \<Rightarrow>
          (case uc_pImageData c of
             None \<Rightarrow> Inr (ucast (max 0 (tc_rollbackTimeout (uc_targetCap c))) * 5)
           | Some img \<Rightarrow> if length img < 23 then Inl Hpm_out_of_bounds else Inr (ucast (max (img ! 22) (tc_rollbackTimeout (uc_targetCap c))) * 5)))"

definition HpmfwupgQueryRollbackStatus :: "('e, 'w) hpm_host \<Rightarrow> upgrade_ctx option \<Rightarrow> 'w hpm_state \<Rightarrow> ('e, int \<times> 'w hpm_state) hpm" where
  "HpmfwupgQueryRollbackStatus h ctx st =
     rbind (Some (rollback_timeout ctx)) (\<lambda>tmo.
       case htime h st of (t1, st1) \<Rightarrow> case htime h st1 of (_, st2) \<Rightarrow>
         rbind (poll_status_loop h 0x37 (\<lambda>cc. cc = 0x80 \<or> cc = 0xC3) ctx tmo t1 st2) (\<lambda>(rsp, st3).
           rret (case rsp of None \<Rightarrow> HPMFWUPG_ERROR | Some r \<Rightarrow> if rsp_ccode r = 0 then HPMFWUPG_SUCCESS else HPMFWUPG_ERROR, st3)))"

text \<open>The time-out of the self test is an unsigned char.\<close>

definition selftest_timeout :: "upgrade_ctx option \<Rightarrow> 'e hpm_error + byte" where
  "selftest_timeout ctx =
     (case ctx of
        None \<Rightarrow> Inr (ucast HPMFWUPG_DEFAULT_UPGRADE_TIMEOUT)
      | Some c \<Rightarrow>
          (case uc_pImageData c of
             None \<Rightarrow> Inl Hpm_out_of_bounds
           | Some img \<Rightarrow> if length img < 22 then Inl Hpm_out_of_bounds else Inr (max (img ! 21) (tc_selftestTimeout (uc_targetCap c)) * 5)))"

definition HpmfwupgQuerySelftestResult ::
    "('e, 'w) hpm_host \<Rightarrow> upgrade_ctx option \<Rightarrow> 'w hpm_state \<Rightarrow> ('e, (byte \<times> byte) option \<times> 'w hpm_state) hpm" where
  "HpmfwupgQuerySelftestResult h ctx st =
     rbind (Some (selftest_timeout ctx)) (\<lambda>tmo.
       case htime h st of (t1, st1) \<Rightarrow> case htime h st1 of (_, st2) \<Rightarrow>
         rbind (poll_status_loop h 0x36 (\<lambda>cc. cc = 0x80) ctx (ucast tmo) t1 st2) (\<lambda>(rsp, st3).
           rret (case rsp of None \<Rightarrow> None | Some r \<Rightarrow> if rsp_ccode r = 0 then Some (rsp_byte r 1, rsp_byte r 2) else None, st3)))"

definition no_devid :: devid where
  "no_devid = \<lparr>dev_device_id = 0, dev_fw_rev1 = 0, dev_fw_rev2 = 0, dev_manufacturer_id = replicate 3 0, dev_product_id = replicate 2 0\<rparr>"

definition no_target_cap :: target_cap where
  "no_target_cap = \<lparr>tc_hpmVersion = 0, tc_GlobalCapabilities = 0, tc_upgradeTimeout = 0, tc_selftestTimeout = 0, tc_rollbackTimeout = 0,
     tc_inaccessTimeout = 0, tc_componentsPresent = 0\<rparr>"

definition fresh_ctx :: upgrade_ctx where
  "fresh_ctx = \<lparr>uc_compUpdateMask = 0, uc_pImageData = None, uc_componentId = 0, uc_targetCap = no_target_cap, uc_genCompProp = replicate 8 0, uc_devId = no_devid\<rparr>"

definition HpmfwupgManualFirmwareRollback :: "('e, 'w) hpm_host \<Rightarrow> 'w hpm_state \<Rightarrow> ('e, int \<times> 'w hpm_state) hpm" where
  "HpmfwupgManualFirmwareRollback h st =
     rbind (HpmfwupgGetTargetUpgCapabilities h st) (\<lambda>(cap, st1).
       case cap of
         None \<Rightarrow> rret (HPMFWUPG_ERROR, st1)
       | Some c \<Rightarrow>
           (let ctx = fresh_ctx\<lparr>uc_targetCap := c\<rparr>
            in rbind (HpmfwupgSendCmd h (mk_rq 0x2C 0x38 [0]) (Some ctx) st1) (\<lambda>(rsp, st2).
                 case rsp of
                   None \<Rightarrow> rret (HPMFWUPG_ERROR, st2)
                 | Some r \<Rightarrow>
                     if rsp_ccode r = 0 \<or> rsp_ccode r = 0x80 then HpmfwupgQueryRollbackStatus h (Some ctx) st2
                     else rret (HPMFWUPG_ERROR, st2))))"

section \<open>The image\<close>

record image_header =
  ih_signature :: "byte list"
  ih_formatVersion :: byte
  ih_deviceId :: byte
  ih_manId :: "byte list"
  ih_prodId :: "byte list"
  ih_time :: "byte list"
  ih_imageCapabilities :: byte
  ih_components :: byte
  ih_selfTestTimeout :: byte
  ih_rollbackTimeout :: byte
  ih_inaccessTimeout :: byte
  ih_compRevision :: "byte list"
  ih_firmRevision :: "byte list"
  ih_oemDataLength :: nat

definition IMAGE_HEADER_SIZE :: nat where "IMAGE_HEADER_SIZE = 34"

definition header_of :: "byte list \<Rightarrow> image_header" where
  "header_of d = \<lparr>ih_signature = take 8 d, ih_formatVersion = d ! 8, ih_deviceId = d ! 9, ih_manId = take 3 (drop 10 d),
     ih_prodId = take 2 (drop 13 d), ih_time = take 4 (drop 15 d), ih_imageCapabilities = d ! 19, ih_components = d ! 20, ih_selfTestTimeout = d ! 21,
     ih_rollbackTimeout = d ! 22, ih_inaccessTimeout = d ! 23, ih_compRevision = take 2 (drop 24 d), ih_firmRevision = take 6 (drop 26 d),
     ih_oemDataLength = unat (d ! 32) + 256 * unat (d ! 33)\<rparr>"

definition HPMFWUPG_MD5_SIGNATURE_LENGTH :: nat where "HPMFWUPG_MD5_SIGNATURE_LENGTH = 16"

definition HPMFWUPG_IMAGE_SIGNATURE :: "byte list" where
  "HPMFWUPG_IMAGE_SIGNATURE = map of_char ''PICMGFWU''"

fun checksum_loop :: "byte list \<Rightarrow> byte \<Rightarrow> byte" where
  "checksum_loop [] checksum = checksum"
| "checksum_loop (b # bs) checksum = checksum_loop bs (checksum + b)"

definition HpmfwupgCalculateChecksum :: "byte list \<Rightarrow> byte" where
  "HpmfwupgCalculateChecksum pData = checksum_loop pData 0"

text \<open>\<open>n\<close> bytes of the image at an offset.\<close>

definition image_at :: "byte list \<Rightarrow> nat \<Rightarrow> nat \<Rightarrow> 'e hpm_error + byte list" where
  "image_at img off n = (if off + n \<le> length img then Inr (take n (drop off img)) else Inl Hpm_out_of_bounds)"

definition image_md5 :: "byte list \<Rightarrow> byte list" where
  "image_md5 d = md5_finish (md5_append (md5_init md5_zero) d)"

text \<open>
  Signature and format version are read one after the other, the length of the OEM data only when
  both are right; the signature has no NUL, so that \<open>strncmp\<close> compares all its bytes.
\<close>

definition HpmfwupgValidateImageIntegrity :: "byte list \<Rightarrow> 'e hpm_error + int" where
  "HpmfwupgValidateImageIntegrity img =
     (if length img < HPMFWUPG_MD5_SIGNATURE_LENGTH then Inl Hpm_out_of_bounds
      else
        (let n = length img - HPMFWUPG_MD5_SIGNATURE_LENGTH
         in if image_md5 (take n img) \<noteq> drop n img then Inr HPMFWUPG_ERROR
            else sum_bind (image_at img 0 8) (\<lambda>signature.
              if signature \<noteq> HPMFWUPG_IMAGE_SIGNATURE then Inr HPMFWUPG_ERROR
              else sum_bind (image_at img 8 1) (\<lambda>formatVersion.
                if formatVersion \<noteq> [0] then Inr HPMFWUPG_ERROR
                else sum_bind (image_at img 0 IMAGE_HEADER_SIZE) (\<lambda>d.
                  sum_bind (image_at img 0 (IMAGE_HEADER_SIZE + ih_oemDataLength (header_of d) + 1)) (\<lambda>d.
                    if HpmfwupgCalculateChecksum d \<noteq> 0 then Inr HPMFWUPG_ERROR else Inr HPMFWUPG_SUCCESS))))))"

text \<open>An action record and, for an upload, the description of its firmware.\<close>

definition ACTION_RECORD_SIZE :: nat where "ACTION_RECORD_SIZE = 3"

definition FIRMWARE_IMAGE_SIZE :: nat where "FIRMWARE_IMAGE_SIZE = 31"

record firmware_image =
  fi_version :: "byte list"
  fi_desc :: "byte list"
  fi_length :: nat

definition firmware_image_of :: "byte list \<Rightarrow> firmware_image" where
  "firmware_image_of d = \<lparr>fi_version = take 6 d, fi_desc = take 21 (drop 6 d), fi_length = unat (of_le32 (take 4 (drop 27 d)))\<rparr>"

definition HpmfwupgValidateActionRecordChecksum :: "byte list \<Rightarrow> nat \<Rightarrow> 'e hpm_error + int" where
  "HpmfwupgValidateActionRecordChecksum img off =
     sum_bind (image_at img off ACTION_RECORD_SIZE) (\<lambda>rec.
       if HpmfwupgCalculateChecksum rec = 0 then Inr HPMFWUPG_SUCCESS
       else if rec ! 0 \<noteq> 2 then Inr HPMFWUPG_ERROR
       else sum_bind (image_at img off (ACTION_RECORD_SIZE + FIRMWARE_IMAGE_SIZE)) (\<lambda>rec'.
         if HpmfwupgCalculateChecksum rec' \<noteq> 0 then Inr HPMFWUPG_ERROR else Inr HPMFWUPG_SUCCESS))"

text \<open>The number of the highest component of a mask.\<close>

definition component_of :: "byte \<Rightarrow> nat" where
  "component_of cm = length (takeWhile (\<lambda>k. drop_bit k cm \<noteq> 0) [1..<9])"

definition image_version_upgradable :: "version_info \<Rightarrow> bool" where
  "image_version_upgradable v =
     (if vi_image v \<noteq> vi_target v then True
      else if \<not> vi_rollbackSupported v then False
      else vi_image v \<noteq> vi_rollback v)"

section \<open>Versions of the target\<close>

definition upd_version :: "nat \<Rightarrow> (version_info \<Rightarrow> version_info) \<Rightarrow> 'w hpm_state \<Rightarrow> 'w hpm_state" where
  "upd_version k f st = st\<lparr>hp_versions := (hp_versions st)[k := f (hp_versions st ! k)]\<rparr>"

definition no_version :: "byte list" where
  "no_version = replicate 6 0xFF"

text \<open>The optional versions: asked for when the component has them, all ones when not, unchanged when asking fails.\<close>

definition ask_version ::
    "('e, 'w) hpm_host \<Rightarrow> nat \<Rightarrow> byte \<Rightarrow> bool \<Rightarrow> (byte list \<Rightarrow> version_info \<Rightarrow> version_info) \<Rightarrow> 'w hpm_state \<Rightarrow> ('e, unit \<times> 'w hpm_state) hpm" where
  "ask_version h k selector supported put st =
     (if supported
      then rbind (HpmfwupgGetComponentProperties h (word_of_nat k) selector st) (\<lambda>(d, st1).
             rret ((), case d of None \<Rightarrow> st1 | Some bs \<Rightarrow> upd_version k (put (take 6 (drop 1 bs))) st1))
      else rret ((), upd_version k (put no_version) st))"

definition check_component :: "('e, 'w) hpm_host \<Rightarrow> nat \<Rightarrow> 'w hpm_state \<Rightarrow> ('e, int \<times> 'w hpm_state) hpm" where
  "check_component h k st =
     rbind (HpmfwupgGetComponentProperties h (word_of_nat k) 0 (upd_version k (\<lambda>_. version_zero) st)) (\<lambda>(d, st1).
       case d of
         None \<Rightarrow> rret (HPMFWUPG_ERROR, st1)
       | Some props \<Rightarrow>
           (let st2 = upd_version k (\<lambda>v. v\<lparr>vi_rollbackSupported := props ! 1 AND 3 \<noteq> 0, vi_coldResetRequired := bit (props ! 1) 5,
                  vi_deferredActivationSupported := bit (props ! 1) 4\<rparr>) st1
            in rbind (HpmfwupgGetComponentProperties h (word_of_nat k) 2 st2) (\<lambda>(d, st3).
                 case d of
                   None \<Rightarrow> rret (HPMFWUPG_ERROR, st3)
                 | Some desc \<Rightarrow>
                     (let st4 = upd_version k (\<lambda>v. v\<lparr>vi_descString := take 12 (drop 1 desc) @ [0]\<rparr>) st3
                      in rbind (HpmfwupgGetComponentProperties h (word_of_nat k) 1 st4) (\<lambda>(d, st5).
                           case d of
                             None \<Rightarrow> rret (HPMFWUPG_ERROR, st5)
                           | Some ver \<Rightarrow>
                               (let st6 = upd_version k (\<lambda>v. v\<lparr>vi_componentId := word_of_nat k, vi_target := take 6 (drop 1 ver)\<rparr>) st5
                                in rbind (ask_version h k 3 (vi_rollbackSupported (hp_versions st6 ! k)) (\<lambda>bs v. v\<lparr>vi_rollback := bs\<rparr>) st6) (\<lambda>(_, st7).
                                     rbind (ask_version h k 4 (vi_deferredActivationSupported (hp_versions st7 ! k)) (\<lambda>bs v. v\<lparr>vi_deferred := bs\<rparr>) st7) (\<lambda>(_, st8).
                                       rret (HPMFWUPG_SUCCESS, st8)))))))))"

fun check_components :: "('e, 'w) hpm_host \<Rightarrow> byte \<Rightarrow> nat list \<Rightarrow> 'w hpm_state \<Rightarrow> ('e, int \<times> 'w hpm_state) hpm" where
  "check_components h present [] st = rret (HPMFWUPG_SUCCESS, st)"
| "check_components h present (k # ks) st =
     (if bit present k
      then rbind (check_component h k st) (\<lambda>(rc, st1). if rc \<noteq> HPMFWUPG_SUCCESS then rret (rc, st1) else check_components h present ks st1)
      else check_components h present ks st)"

definition HpmfwupgTargetCheck :: "('e, 'w) hpm_host \<Rightarrow> 'w hpm_state \<Rightarrow> ('e, int \<times> 'w hpm_state) hpm" where
  "HpmfwupgTargetCheck h st =
     rbind (HpmfwupgGetDeviceId h st) (\<lambda>(dev, st1).
       if dev = None then rret (HPMFWUPG_ERROR, st1)
       else rbind (HpmfwupgGetTargetUpgCapabilities h st1) (\<lambda>(cap, st2).
         case cap of
           None \<Rightarrow> rret (HPMFWUPG_ERROR, st2)
         | Some c \<Rightarrow> check_components h (tc_componentsPresent c) [0..<8] st2))"

section \<open>Stages\<close>

definition VIEW_MODE :: byte where "VIEW_MODE = 0x01"

definition FORCE_MODE :: byte where "FORCE_MODE = 0x04"

definition COMPARE_MODE :: byte where "COMPARE_MODE = 0x08"

definition in_mode :: "byte \<Rightarrow> byte \<Rightarrow> bool" where
  "in_mode opt m \<longleftrightarrow> opt AND m \<noteq> 0"

text \<open>
  A question to the user, asked only when the check before it failed and the mode allows to go on:
  None to give up.
\<close>

definition unless_confirmed :: "('e, 'w) hpm_host \<Rightarrow> bool \<Rightarrow> byte \<Rightarrow> 'w hpm_state \<Rightarrow> bool \<times> 'w hpm_state" where
  "unless_confirmed h fine opt st =
     (if fine then (True, st)
      else if \<not> (in_mode opt FORCE_MODE \<or> in_mode opt VIEW_MODE) then (False, st)
      else hinput h st)"

definition ids_match :: "image_header \<Rightarrow> devid \<Rightarrow> bool" where
  "ids_match hdr dev \<longleftrightarrow> ih_deviceId hdr = dev_device_id dev \<and> ih_prodId hdr = dev_product_id dev \<and> ih_manId hdr = dev_manufacturer_id dev"

definition revision_compatible :: "image_header \<Rightarrow> devid \<Rightarrow> bool" where
  "revision_compatible hdr dev \<longleftrightarrow>
     \<not> (ih_compRevision hdr ! 0 > dev_fw_rev1 dev \<or> ih_compRevision hdr ! 0 = dev_fw_rev1 dev \<and> ih_compRevision hdr ! 1 > dev_fw_rev2 dev)"

text \<open>
  The general properties of the components of the image. The return code is the one of the last
  component asked, the one before the loop when there is none.
\<close>

fun general_properties :: "('e, 'w) hpm_host \<Rightarrow> byte \<Rightarrow> nat list \<Rightarrow> int \<Rightarrow> byte list \<Rightarrow> 'w hpm_state \<Rightarrow> ('e, (int \<times> byte list) \<times> 'w hpm_state) hpm" where
  "general_properties h comps [] rc props st = rret ((rc, props), st)"
| "general_properties h comps (k # ks) rc props st =
     (if bit comps k
      then rbind (HpmfwupgGetComponentProperties h (word_of_nat k) 0 st) (\<lambda>(d, st1).
             case d of
               None \<Rightarrow> general_properties h comps ks HPMFWUPG_ERROR (props[k := 0]) st1
             | Some bs \<Rightarrow> general_properties h comps ks HPMFWUPG_SUCCESS (props[k := bs ! 1]) st1)
      else general_properties h comps ks rc (props[k := 0]) st)"

definition services_confirmed :: "('e, 'w) hpm_host \<Rightarrow> byte \<Rightarrow> image_header \<Rightarrow> target_cap \<Rightarrow> 'w hpm_state \<Rightarrow> bool \<times> 'w hpm_state" where
  "services_confirmed h opt hdr cap st =
     (if in_mode opt VIEW_MODE then (True, st)
      else if ih_components hdr AND tc_componentsPresent cap \<noteq> ih_components hdr then (False, st)
      else if bit (tc_GlobalCapabilities cap) 7 then (False, st)
      else if \<not> in_mode opt COMPARE_MODE \<and> (bit (tc_GlobalCapabilities cap) 3 \<or> bit (ih_imageCapabilities hdr) 4) then hinput h st
      else (True, st))"

definition image_header_of :: "upgrade_ctx \<Rightarrow> ('e, byte list \<times> image_header) hpm" where
  "image_header_of ctx =
     (case uc_pImageData ctx of
        None \<Rightarrow> Some (Inl Hpm_out_of_bounds)
      | Some img \<Rightarrow> if length img < IMAGE_HEADER_SIZE then Some (Inl Hpm_out_of_bounds) else rret (img, header_of img))"

definition HpmfwupgPreparationStage :: "('e, 'w) hpm_host \<Rightarrow> upgrade_ctx \<Rightarrow> byte \<Rightarrow> 'w hpm_state \<Rightarrow> ('e, (int \<times> upgrade_ctx) \<times> 'w hpm_state) hpm" where
  "HpmfwupgPreparationStage h ctx opt st =
     rbind (HpmfwupgGetDeviceId h st) (\<lambda>(dev, st1).
       case dev of
         None \<Rightarrow> rret ((HPMFWUPG_ERROR, ctx), st1)
       | Some dev \<Rightarrow>
           (let ctx1 = ctx\<lparr>uc_devId := dev\<rparr>
            in rbind (image_header_of ctx1) (\<lambda>(img, hdr).
                 case unless_confirmed h (ids_match hdr dev) opt st1 of (go, st2) \<Rightarrow>
                   if \<not> go then rret ((HPMFWUPG_ERROR, ctx1), st2)
                   else case unless_confirmed h (revision_compatible hdr dev) opt st2 of (go, st3) \<Rightarrow>
                     if \<not> go then rret ((HPMFWUPG_ERROR, ctx1), st3)
                     else rbind (HpmfwupgGetTargetUpgCapabilities h st3) (\<lambda>(cap, st4).
                       case cap of
                         None \<Rightarrow> rret ((HPMFWUPG_ERROR, ctx1), st4)
                       | Some c \<Rightarrow>
                           (let ctx2 = ctx1\<lparr>uc_targetCap := c\<rparr>
                            in case services_confirmed h opt hdr c st4 of (go, st5) \<Rightarrow>
                                 if \<not> go then rret ((HPMFWUPG_ERROR, ctx2), st5)
                                 else rbind (general_properties h (ih_components hdr) [0..<8] HPMFWUPG_SUCCESS (uc_genCompProp ctx2) st5) (\<lambda>((rc, props), st6).
                                   rret ((rc, ctx2\<lparr>uc_genCompProp := props\<rparr>), st6)))))))"

definition first_record :: "image_header \<Rightarrow> nat" where
  "first_record hdr = IMAGE_HEADER_SIZE + ih_oemDataLength hdr + 1"

definition selected :: "u32 \<Rightarrow> byte \<Rightarrow> byte \<Rightarrow> version_info \<Rightarrow> bool" where
  "selected componentMask opt comps v \<longleftrightarrow>
     (componentMask = 0 \<or> componentMask AND ucast comps \<noteq> 0) \<and> (\<not> in_mode opt (FORCE_MODE OR COMPARE_MODE) \<longrightarrow> image_version_upgradable v)"

function precheck_loop :: "byte list \<Rightarrow> u32 \<Rightarrow> byte \<Rightarrow> nat \<Rightarrow> upgrade_ctx \<Rightarrow> 'w hpm_state \<Rightarrow> 'e hpm_error + (int \<times> upgrade_ctx) \<times> 'w hpm_state" where
  "precheck_loop img componentMask opt off ctx st =
     (if off + HPMFWUPG_MD5_SIGNATURE_LENGTH \<ge> length img then Inr ((HPMFWUPG_SUCCESS, ctx), st)
      else sum_bind (HpmfwupgValidateActionRecordChecksum img off) (\<lambda>rc.
        if rc \<noteq> HPMFWUPG_SUCCESS then Inr ((HPMFWUPG_ERROR, ctx), st)
        else sum_bind (image_at img off ACTION_RECORD_SIZE) (\<lambda>rec.
          if rec ! 1 \<noteq> 0 \<and> tc_componentsPresent (uc_targetCap ctx) = 0 then Inr ((HPMFWUPG_ERROR, ctx), st)
          else if rec ! 0 = 0 then
            if list_ex (\<lambda>k. bit (rec ! 1) k \<and> uc_genCompProp ctx ! k AND 3 = 0) [0..<8] then Inr ((HPMFWUPG_ERROR, ctx), st)
            else precheck_loop img componentMask opt (off + ACTION_RECORD_SIZE) ctx st
          else if rec ! 0 = 1 then
            if list_ex (\<lambda>k. bit (rec ! 1) k \<and> \<not> bit (uc_genCompProp ctx ! k) 2) [0..<8] then Inr ((HPMFWUPG_ERROR, ctx), st)
            else precheck_loop img componentMask opt (off + ACTION_RECORD_SIZE) ctx st
          else if rec ! 0 = 2 then
            sum_bind (image_at img (off + ACTION_RECORD_SIZE) FIRMWARE_IMAGE_SIZE) (\<lambda>d.
              let fi = firmware_image_of d; k = component_of (rec ! 1); st1 = upd_version k (\<lambda>v. v\<lparr>vi_image := fi_version fi\<rparr>) st;
                  ctx1 = (if selected componentMask opt (rec ! 1) (hp_versions st1 ! k)
                          then ctx\<lparr>uc_compUpdateMask := uc_compUpdateMask ctx OR push_bit k 1\<rparr> else ctx)
              in precheck_loop img componentMask opt (off + ACTION_RECORD_SIZE + FIRMWARE_IMAGE_SIZE + fi_length fi) ctx1 st1)
          else Inr ((HPMFWUPG_ERROR, ctx), st))))"
  by pat_completeness auto
termination by (relation "measure (\<lambda>(img, _, _, off, _). length img - off)") (auto simp: HPMFWUPG_MD5_SIGNATURE_LENGTH_def ACTION_RECORD_SIZE_def)

declare precheck_loop.simps [simp del]

definition HpmfwupgPreUpgradeCheck :: "u32 \<Rightarrow> byte \<Rightarrow> upgrade_ctx \<Rightarrow> 'w hpm_state \<Rightarrow> ('e, (int \<times> upgrade_ctx) \<times> 'w hpm_state) hpm" where
  "HpmfwupgPreUpgradeCheck componentMask opt ctx st =
     rbind (image_header_of ctx) (\<lambda>(img, hdr). Some (precheck_loop img componentMask opt (first_record hdr) ctx st))"

text \<open>
  The blocks of a firmware that starts at \<open>base\<close> in the image: next byte, end of the section, length of
  a block, whether a block of this length has been accepted, bytes sent, block number.
\<close>

definition shorter_block :: "bool \<Rightarrow> nat \<Rightarrow> nat option" where
  "shorter_block lan bufLength =
     (if lan \<and> bufLength > 8 then Some (bufLength - 8) else if bufLength \<noteq> 0 then Some (bufLength - 1) else None)"

partial_function (option) upload_loop ::
    "('e, 'w) hpm_host \<Rightarrow> byte list \<Rightarrow> nat \<Rightarrow> u32 \<Rightarrow> upgrade_ctx \<Rightarrow> nat \<Rightarrow> nat \<Rightarrow> nat \<Rightarrow> bool \<Rightarrow> u32 \<Rightarrow> byte \<Rightarrow> 'w hpm_state \<Rightarrow>
      ('e, (int \<times> u32) \<times> 'w hpm_state) hpm" where
  "upload_loop h img base firmwareLength ctx pData end' bufLength bufLengthIsSet totalSent blockNumber st =
     (if pData < end' then
        (let count = (if pData + bufLength \<le> end' then bufLength else end' - pData)
         in rbind (Some (image_at img (base + pData) count)) (\<lambda>data.
              rbind (HpmfwupgUploadFirmwareBlock h blockNumber data ctx st) (\<lambda>((rc, imageOffset, blockLength), st1).
                if rc \<noteq> HPMFWUPG_SUCCESS then
                  if rc = HPMFWUPG_UPLOAD_BLOCK_LENGTH \<and> \<not> bufLengthIsSet then
                    (case shorter_block (is_lan h st1) bufLength of
                       Some n \<Rightarrow> upload_loop h img base firmwareLength ctx pData end' n bufLengthIsSet totalSent blockNumber st1
                     | None \<Rightarrow> rret ((HPMFWUPG_ERROR, totalSent), st1))
                  else if rc = HPMFWUPG_UPLOAD_RETRY then
                    upload_loop h img base firmwareLength ctx pData end' bufLength bufLengthIsSet totalSent blockNumber st1
                  else rret ((HPMFWUPG_ERROR, totalSent), st1)
                else if imageOffset + blockLength > firmwareLength \<or> imageOffset + blockLength < blockLength
                then rret ((HPMFWUPG_ERROR, totalSent), st1)
                else if imageOffset \<noteq> 0
                then upload_loop h img base firmwareLength ctx (unat imageOffset) (unat imageOffset + unat blockLength) bufLength True
                       (totalSent + word_of_nat count) (blockNumber + 1) st1
                else upload_loop h img base firmwareLength ctx (pData + count) end' bufLength True
                       (totalSent + word_of_nat count) (blockNumber + 1) st1)))
      else rret ((HPMFWUPG_SUCCESS, totalSent), st))"

text \<open>The upload action: return code, offset of the next record, context.\<close>

definition HpmFwupgActionUploadFirmware ::
    "('e, 'w) hpm_host \<Rightarrow> byte \<Rightarrow> upgrade_ctx \<Rightarrow> byte list \<Rightarrow> nat \<Rightarrow> byte \<Rightarrow> 'w hpm_state \<Rightarrow> ('e, (int \<times> nat \<times> upgrade_ctx) \<times> 'w hpm_state) hpm" where
  "HpmFwupgActionUploadFirmware h components ctx img off opt st =
     (let k = component_of components; ctx1 = ctx\<lparr>uc_componentId := k\<rparr>; base = off + ACTION_RECORD_SIZE + FIRMWARE_IMAGE_SIZE;
          max_rq_size = unat (ipmi_intf_get_max_request_data_size (h_intf h (hp_world st)))
      in if max_rq_size \<le> 2 then rret ((HPMFWUPG_ERROR, off, ctx1), st)
         else rbind (Some (image_at img (off + ACTION_RECORD_SIZE) FIRMWARE_IMAGE_SIZE)) (\<lambda>d.
           let firmwareLength = fi_length (firmware_image_of d); next' = base + firmwareLength
           in if \<not> bit (uc_compUpdateMask ctx1) k then rret ((HPMFWUPG_SUCCESS, next', ctx1), st)
              else rbind (HpmfwupgInitiateUpgradeAction h components (if in_mode opt COMPARE_MODE then 3 else 2) ctx1 st) (\<lambda>(rc, st1).
                if rc \<noteq> HPMFWUPG_SUCCESS then rret ((rc, next', ctx1), st1)
                else rbind (upload_loop h img base (word_of_nat firmwareLength) ctx1 0 firmwareLength (max_rq_size - 2) False 0 0 st1) (\<lambda>((rc, totalSent), st2).
                  if rc \<noteq> HPMFWUPG_SUCCESS then rret ((rc, off, ctx1), st2)
                  else rbind (HpmfwupgFinishFirmwareUpload h (word_of_nat k) totalSent ctx1 (in_mode opt COMPARE_MODE) st2) (\<lambda>(rc, st3).
                    rret ((rc, next', ctx1), st3))))))"

text \<open>A backup or prepare action, for the components that are to be updated.\<close>

definition component_action ::
    "('e, 'w) hpm_host \<Rightarrow> byte \<Rightarrow> byte \<Rightarrow> upgrade_ctx \<Rightarrow> byte \<Rightarrow> 'w hpm_state \<Rightarrow> ('e, int \<times> 'w hpm_state) hpm" where
  "component_action h components action ctx opt st =
     (let cm = uc_compUpdateMask ctx AND components
      in if in_mode opt COMPARE_MODE \<or> cm = 0 then rret (HPMFWUPG_SUCCESS, st) else HpmfwupgInitiateUpgradeAction h cm action ctx st)"

partial_function (option) stage_loop ::
    "('e, 'w) hpm_host \<Rightarrow> byte list \<Rightarrow> byte \<Rightarrow> nat \<Rightarrow> upgrade_ctx \<Rightarrow> 'w hpm_state \<Rightarrow> ('e, (int \<times> upgrade_ctx) \<times> 'w hpm_state) hpm" where
  "stage_loop h img opt off ctx st =
     (if off + HPMFWUPG_MD5_SIGNATURE_LENGTH \<ge> length img then rret ((HPMFWUPG_SUCCESS, ctx), st)
      else rbind (Some (HpmfwupgValidateActionRecordChecksum img off)) (\<lambda>rc.
        if rc \<noteq> HPMFWUPG_SUCCESS then rret ((rc, ctx), st)
        else rbind (Some (image_at img off ACTION_RECORD_SIZE)) (\<lambda>rec.
          if rec ! 0 = 0 \<or> rec ! 0 = 1 then
            rbind (component_action h (rec ! 1) (rec ! 0) ctx opt st) (\<lambda>(rc, st1).
              if rc \<noteq> HPMFWUPG_SUCCESS then rret ((rc, ctx), st1) else stage_loop h img opt (off + ACTION_RECORD_SIZE) ctx st1)
          else if rec ! 0 = 2 then
            rbind (HpmFwupgActionUploadFirmware h (rec ! 1) ctx img off opt st) (\<lambda>((rc, off', ctx1), st1).
              if rc \<noteq> HPMFWUPG_SUCCESS then rret ((rc, ctx1), st1) else stage_loop h img opt off' ctx1 st1)
          else rret ((HPMFWUPG_ERROR, ctx), st))))"

definition HpmfwupgUpgradeStage :: "('e, 'w) hpm_host \<Rightarrow> upgrade_ctx \<Rightarrow> byte \<Rightarrow> 'w hpm_state \<Rightarrow> ('e, (int \<times> upgrade_ctx) \<times> 'w hpm_state) hpm" where
  "HpmfwupgUpgradeStage h ctx opt st = rbind (image_header_of ctx) (\<lambda>(img, hdr). stage_loop h img opt (first_record hdr) ctx st)"

text \<open>Activation with the self test and, when it fails, the rollback status.\<close>

definition activate_and_test :: "('e, 'w) hpm_host \<Rightarrow> upgrade_ctx \<Rightarrow> image_header \<Rightarrow> 'w hpm_state \<Rightarrow> ('e, int \<times> 'w hpm_state) hpm" where
  "activate_and_test h ctx hdr st =
     rbind (HpmfwupgActivateFirmware h 0 (Some ctx) st) (\<lambda>(rc, st1).
       if rc = HPMFWUPG_SUCCESS \<and> (bit (tc_GlobalCapabilities (uc_targetCap ctx)) 0 \<or> bit (ih_imageCapabilities hdr) 7)
       then rbind (HpmfwupgQuerySelftestResult h (Some ctx) st1) (\<lambda>(res, st2).
              rret (case res of None \<Rightarrow> HPMFWUPG_ERROR | Some (result1, _) \<Rightarrow> if result1 \<noteq> 0x55 then HPMFWUPG_ERROR else HPMFWUPG_SUCCESS, st2))
       else rret (rc, st1))"

definition HpmfwupgActivationStage :: "('e, 'w) hpm_host \<Rightarrow> upgrade_ctx \<Rightarrow> 'w hpm_state \<Rightarrow> ('e, int \<times> 'w hpm_state) hpm" where
  "HpmfwupgActivationStage h ctx st =
     rbind (image_header_of ctx) (\<lambda>(img, hdr).
       rbind (activate_and_test h ctx hdr st) (\<lambda>(rc, st1).
         if rc = HPMFWUPG_ERROR \<and> bit (tc_GlobalCapabilities (uc_targetCap ctx)) 1 \<and> uc_genCompProp ctx ! uc_componentId ctx AND 3 \<noteq> 0
         then HpmfwupgQueryRollbackStatus h (Some ctx) st1
         else rret (rc, st1)))"

definition HpmfwupgGetBufferFromFile :: "('e, 'w) hpm_host \<Rightarrow> string option \<Rightarrow> upgrade_ctx \<Rightarrow> 'w hpm_state \<Rightarrow> ('e, int \<times> upgrade_ctx) hpm" where
  "HpmfwupgGetBufferFromFile h imageFilename ctx st =
     (case imageFilename of
        None \<Rightarrow> Some (Inl Hpm_null_file)
      | Some name \<Rightarrow>
          (case h_file h (hp_world st) name of
             None \<Rightarrow> rret (HPMFWUPG_ERROR, ctx)
           | Some bs \<Rightarrow> rret (HPMFWUPG_SUCCESS, ctx\<lparr>uc_pImageData := Some bs\<rparr>)))"

definition HpmfwupgUpgrade :: "('e, 'w) hpm_host \<Rightarrow> string option \<Rightarrow> bool \<Rightarrow> u32 \<Rightarrow> byte \<Rightarrow> 'w hpm_state \<Rightarrow> ('e, int \<times> 'w hpm_state) hpm" where
  "HpmfwupgUpgrade h imageFilename activate componentMask opt st =
     rbind (HpmfwupgGetBufferFromFile h imageFilename fresh_ctx st) (\<lambda>(rc, ctx1).
       if rc \<noteq> HPMFWUPG_SUCCESS then rret (rc, st)
       else rbind (Some (HpmfwupgValidateImageIntegrity (the (uc_pImageData ctx1)))) (\<lambda>rc.
         if rc \<noteq> HPMFWUPG_SUCCESS then rret (rc, st)
         else rbind (HpmfwupgPreparationStage h ctx1 opt st) (\<lambda>((rc, ctx2), st1).
           if rc \<noteq> HPMFWUPG_SUCCESS then rret (rc, st1)
           else rbind (HpmfwupgPreUpgradeCheck componentMask (if in_mode opt VIEW_MODE then VIEW_MODE else opt) ctx2 st1) (\<lambda>((rc, ctx3), st2).
             if rc \<noteq> HPMFWUPG_SUCCESS then rret (rc, st2)
             else rbind (if in_mode opt VIEW_MODE then rret ((rc, ctx3), st2) else HpmfwupgUpgradeStage h ctx3 opt st2) (\<lambda>((rc, ctx4), st3).
               if rc = HPMFWUPG_SUCCESS \<and> activate \<and> uc_compUpdateMask ctx4 \<noteq> 0 then HpmfwupgActivationStage h ctx4 st3
               else rret (rc, st3))))))"

section \<open>The command\<close>

definition arg :: "string list \<Rightarrow> nat \<Rightarrow> string option" where
  "arg argv i = (if i < length argv then Some (argv ! i) else None)"

text \<open>A component number after the word \<open>component\<close>: the new mask. The upper bound is the number of components.\<close>

definition component_arg :: "string list \<Rightarrow> u32 \<Rightarrow> u32 option" where
  "component_arg rest componentMask =
     (case rest of
        [] \<Rightarrow> None
      | a # _ \<Rightarrow>
          (case str2int (Some a) (Some 0) of (rc, v) \<Rightarrow>
             if rc \<noteq> 0 \<or> the v < 0 \<or> the v > 8 then None else Some (componentMask OR push_bit (nat (the v)) 1)))"

fun upgrade_args :: "string list \<Rightarrow> bool \<Rightarrow> u32 \<Rightarrow> byte \<Rightarrow> (bool \<times> u32 \<times> byte) option" where
  "upgrade_args [] activate componentMask opt = Some (activate, componentMask, opt)"
| "upgrade_args (a # rest) activate componentMask opt =
     (let activate' = (activate \<or> a = ''activate''); opt1 = (if a = ''force'' then opt OR FORCE_MODE else opt);
          opt2 = (if a = ''debug'' then opt1 OR 0x02 else opt1)
      in if a = ''component''
         then (case component_arg rest componentMask of None \<Rightarrow> None | Some m \<Rightarrow> upgrade_args rest activate' m opt2)
         else upgrade_args rest activate' componentMask opt2)"

fun compare_args :: "string list \<Rightarrow> u32 \<Rightarrow> byte \<Rightarrow> (u32 \<times> byte) option" where
  "compare_args [] componentMask opt = Some (componentMask, opt)"
| "compare_args (a # rest) componentMask opt =
     (if a = ''component''
      then (case component_arg rest componentMask of None \<Rightarrow> None | Some m \<Rightarrow> compare_args rest m opt)
      else compare_args rest componentMask (if a = ''debug'' then opt OR 0x02 else opt))"

definition rc_of :: "'a option \<Rightarrow> int" where
  "rc_of x = (if x = None then HPMFWUPG_ERROR else HPMFWUPG_SUCCESS)"

definition check_then_upgrade ::
    "('e, 'w) hpm_host \<Rightarrow> string option \<Rightarrow> bool \<Rightarrow> u32 \<Rightarrow> byte \<Rightarrow> 'w hpm_state \<Rightarrow> ('e, int \<times> 'w hpm_state) hpm" where
  "check_then_upgrade h name activate componentMask opt st =
     rbind (HpmfwupgTargetCheck h st) (\<lambda>(rc, st1).
       if rc = HPMFWUPG_SUCCESS then HpmfwupgUpgrade h name activate componentMask opt st1 else rret (rc, st1))"

definition ipmi_hpmfwupg_main :: "('e, 'w) hpm_host \<Rightarrow> string list \<Rightarrow> 'w hpm_state \<Rightarrow> ('e, int \<times> 'w hpm_state) hpm" where
  "ipmi_hpmfwupg_main h argv st =
     (case argv of
        [] \<Rightarrow> rret (HPMFWUPG_ERROR, st)
      | cmd # args \<Rightarrow>
          if cmd = ''help'' then rret (HPMFWUPG_SUCCESS, st)
          else if cmd = ''check'' then
            if args = [] then HpmfwupgTargetCheck h st else check_then_upgrade h (arg argv 1) False 0 VIEW_MODE st
          else if cmd = ''upgrade'' then
            (case upgrade_args args False 0 0 of
               None \<Rightarrow> rret (HPMFWUPG_ERROR, st)
             | Some (activate, componentMask, opt) \<Rightarrow> check_then_upgrade h (arg argv 1) activate componentMask opt st)
          else if cmd = ''compare'' then
            (case compare_args args 0 0 of
               None \<Rightarrow> rret (HPMFWUPG_ERROR, st)
             | Some (componentMask, opt) \<Rightarrow> check_then_upgrade h (arg argv 1) False componentMask (opt OR COMPARE_MODE) st)
          else if cmd = ''activate'' then HpmfwupgActivateFirmware h (if args = [''norollback''] then 1 else 0) None st
          else if cmd = ''targetcap'' \<and> args = [] then rbind (HpmfwupgGetTargetUpgCapabilities h st) (\<lambda>(cap, st1). rret (rc_of cap, st1))
          else if cmd = ''compprop'' \<and> length args = 2 then
            (case str2uchar (arg argv 1) (Some 0) of (rc, componentId) \<Rightarrow>
               if rc \<noteq> 0 \<or> the componentId > 7 then rret (-1, st)
               else case str2uchar (arg argv 2) (Some 0) of (rc, selector) \<Rightarrow>
                 if rc \<noteq> 0 \<or> the selector > 4 then rret (-1, st)
                 else rbind (HpmfwupgGetComponentProperties h (word_of_int (the componentId)) (word_of_int (the selector)) st) (\<lambda>(d, st1). rret (rc_of d, st1)))
          else if cmd = ''abort'' \<and> args = [] then HpmfwupgAbortUpgrade h st
          else if cmd = ''upgstatus'' \<and> args = [] then
            rbind (HpmfwupgGetUpgradeStatus h (0, 0) None st) (\<lambda>((rc, _), st1). rret (rc, st1))
          else if cmd = ''rollback'' \<and> args = [] then HpmfwupgManualFirmwareRollback h st
          else if cmd = ''rollbackstatus'' \<and> args = [] then HpmfwupgQueryRollbackStatus h None st
          else if cmd = ''selftestresult'' \<and> args = [] then
            rbind (HpmfwupgQuerySelftestResult h None st) (\<lambda>(res, st1). rret (rc_of res, st1))
          else rret (HPMFWUPG_ERROR, st))"

end
