(* ===== verification/Hpm_Upgrade.thy ===== *)
theory Hpm_Upgrade
  imports Hpmfwupg
begin

text \<open>
  Properties of the HPM.1 firmware upgrade: what an image must be to be accepted, that
  uploading stays inside the image whatever the controller answers, and that an upgrade
  against a controller that follows the specification installs exactly the firmwares of the
  image.
\<close>

section \<open>Images\<close>

text \<open>
  The image of the specification: header, OEM data, header checksum, action records, MD5
  digest. An action record has the checksum of its three bytes.
\<close>

datatype hpm_record =
  Backup byte
| Prepare byte
| Upload byte "byte list" "byte list" "byte list"

definition action_bytes :: "byte \<Rightarrow> byte \<Rightarrow> byte list" where
  "action_bytes t m = [t, m, - (t + m)]"

fun record_bytes :: "hpm_record \<Rightarrow> byte list" where
  "record_bytes (Backup m) = action_bytes 0 m"
| "record_bytes (Prepare m) = action_bytes 1 m"
| "record_bytes (Upload m version desc fw) = action_bytes 2 m @ version @ desc @ le32 (word_of_nat (length fw)) @ fw"

fun wf_record :: "hpm_record \<Rightarrow> bool" where
  "wf_record (Upload m version desc fw) \<longleftrightarrow> length version = 6 \<and> length desc = 21 \<and> length fw < 2 ^ 32"
| "wf_record _ \<longleftrightarrow> True"

definition wf_header :: "byte list \<Rightarrow> byte list \<Rightarrow> bool" where
  "wf_header hdr oem \<longleftrightarrow> length hdr = 34 \<and> take 8 hdr = HPMFWUPG_IMAGE_SIGNATURE \<and> hdr ! 8 = 0 \<and> unat (hdr ! 32) + 256 * unat (hdr ! 33) = length oem"

definition image_front :: "byte list \<Rightarrow> byte list \<Rightarrow> byte list" where
  "image_front hdr oem = hdr @ oem @ [- sum_list (hdr @ oem)]"

definition image_body :: "byte list \<Rightarrow> byte list \<Rightarrow> hpm_record list \<Rightarrow> byte list" where
  "image_body hdr oem recs = image_front hdr oem @ concat (map record_bytes recs)"

definition hpm_image :: "byte list \<Rightarrow> byte list \<Rightarrow> hpm_record list \<Rightarrow> byte list" where
  "hpm_image hdr oem recs = image_body hdr oem recs @ rfc_md5 (image_body hdr oem recs)"

lemma checksum_loop_sum: "checksum_loop bs c = c + sum_list bs"
  by (induction bs arbitrary: c) (simp_all add: add.assoc)

lemma checksum_sum: "HpmfwupgCalculateChecksum bs = sum_list bs"
  by (simp add: HpmfwupgCalculateChecksum_def checksum_loop_sum)

lemma image_md5_rfc: "image_md5 d = rfc_md5 d"
  using md5.finish_foldl [of "[d]"] by (simp add: image_md5_def)

lemma image_at_append: "length a = off \<Longrightarrow> image_at (a @ b @ c) off (length b) = Inr b"
  by (auto simp: image_at_def)

lemma hpm_image_valid:
  "HpmfwupgValidateImageIntegrity img = Inr HPMFWUPG_SUCCESS \<longleftrightarrow>
     16 \<le> length img \<and> 34 + (unat (img ! 32) + 256 * unat (img ! 33)) + 1 \<le> length img
     \<and> drop (length img - 16) img = rfc_md5 (take (length img - 16) img)
     \<and> take 8 img = map of_char ''PICMGFWU'' \<and> img ! 8 = 0
     \<and> sum_list (take (34 + (unat (img ! 32) + 256 * unat (img ! 33)) + 1) img) = 0"
proof (cases "16 \<le> length img \<and> 34 \<le> length img")
  case True
  then have "header_of (take 34 img) = header_of img" by (simp add: header_of_def drop_take)
  moreover have "take (Suc 0) (drop 8 img) = [img ! 8]" using True Cons_nth_drop_Suc [of 8 img, symmetric] by simp
  ultimately show ?thesis using True
    by (auto simp: HpmfwupgValidateImageIntegrity_def HPMFWUPG_MD5_SIGNATURE_LENGTH_def Let_def image_md5_rfc image_at_def IMAGE_HEADER_SIZE_def
      header_of_def HPMFWUPG_IMAGE_SIGNATURE_def HPMFWUPG_ERROR_def HPMFWUPG_SUCCESS_def checksum_sum)
next
  case False
  then show ?thesis
    by (auto simp: HpmfwupgValidateImageIntegrity_def HPMFWUPG_MD5_SIGNATURE_LENGTH_def Let_def image_at_def IMAGE_HEADER_SIZE_def
      HPMFWUPG_ERROR_def HPMFWUPG_SUCCESS_def)
qed

section \<open>Reads stay inside the image\<close>

text \<open>A run that ends, if at all, with a result or an error of the transport.\<close>

definition hpm_safe :: "('e, 'a) hpm \<Rightarrow> bool" where
  "hpm_safe m \<longleftrightarrow> (\<forall>e. m = Some (Inl e) \<longrightarrow> (\<exists>x. e = Hpm_transport x))"

lemma hpm_safe_simps [simp]: "hpm_safe None" "hpm_safe (rret x)" "hpm_safe (Some (Inr x))" "hpm_safe (Some (Inl (Hpm_transport e)))"
  by (simp_all add: hpm_safe_def rret_def)

lemma hpm_safe_bind: "hpm_safe m \<Longrightarrow> (\<And>x. m = Some (Inr x) \<Longrightarrow> hpm_safe (f x)) \<Longrightarrow> hpm_safe (rbind m f)"
  by (cases m) (auto simp: hpm_safe_def rbind_def split: sum.splits)

lemma hpm_safe_prod: "(\<And>a b. p = (a, b) \<Longrightarrow> hpm_safe (f a b)) \<Longrightarrow> hpm_safe (case p of (a, b) \<Rightarrow> f a b)"
  by (cases p) simp

lemma hpm_safe_prod_app: "(\<And>a b. p = (a, b) \<Longrightarrow> hpm_safe (f a b c)) \<Longrightarrow> hpm_safe ((case p of (a, b) \<Rightarrow> f a b) c)"
  by (cases p) simp

lemma hpm_safe_option: "(x = None \<Longrightarrow> hpm_safe a) \<Longrightarrow> (\<And>y. x = Some y \<Longrightarrow> hpm_safe (f y)) \<Longrightarrow> hpm_safe (case x of None \<Rightarrow> a | Some y \<Rightarrow> f y)"
  by (cases x) simp_all

lemma hpm_safe_if: "(b \<Longrightarrow> hpm_safe x) \<Longrightarrow> (\<not> b \<Longrightarrow> hpm_safe y) \<Longrightarrow> hpm_safe (if b then x else y)"
  by simp

lemma hpm_safe_send: "hpm_safe (hsend h req st)" "hpm_safe (hopen h st)" "hpm_safe (hclose h st)"
  by (auto simp: hsend_def hopen_def hclose_def split: sum.splits prod.splits)

lemmas hpm_safe_intros = hpm_safe_bind hpm_safe_prod hpm_safe_prod_app hpm_safe_option hpm_safe_if hpm_safe_send

lemma hpm_safe_Some: "(\<And>y. m = Some y \<Longrightarrow> hpm_safe (Some y)) \<Longrightarrow> hpm_safe m"
  by (cases m) auto

lemma reopen_safe: "hpm_safe (reopen_loop h ia c t st)"
proof (rule hpm_safe_Some)
  fix y
  assume "reopen_loop h ia c t st = Some y"
  then show "hpm_safe (Some y)"
  proof (induction h ia c t st y rule: reopen_loop.raw_induct [rotated, consumes 1, case_names step])
    case (step loop h ia c t st y)
    have "hpm_safe (loop h ia c t st)" for h ia c t st by (rule hpm_safe_Some) (rule step(1))
    then show ?case unfolding step(2) [symmetric] by (intro hpm_safe_intros; simp)
  qed
qed

lemma made_up_safe: "hpm_safe (made_up_response h ia req c t rsp st)"
  unfolding made_up_response_def Let_def by (intro hpm_safe_intros reopen_safe; simp)

lemma hpm_send_loop_safe: "hpm_safe (send_cmd_loop h ia up req c1 c2 t st)"
proof (rule hpm_safe_Some)
  fix y
  assume "send_cmd_loop h ia up req c1 c2 t st = Some y"
  then show "hpm_safe (Some y)"
  proof (induction h ia up req c1 c2 t st y rule: send_cmd_loop.raw_induct [rotated, consumes 1, case_names step])
    case (step loop h ia up req c1 c2 t st y)
    have "hpm_safe (loop h ia up req c1 c2 t st)" for h ia up req c1 c2 t st by (rule hpm_safe_Some) (rule step(1))
    then show ?case unfolding step(2) [symmetric] by (intro hpm_safe_intros made_up_safe; simp)
  qed
qed

lemma SendCmd_safe: "hpm_safe (HpmfwupgSendCmd h req ctx st)"
  unfolding HpmfwupgSendCmd_def Let_def by (intro hpm_safe_intros hpm_send_loop_safe)

lemma commands_safe:
  "hpm_safe (HpmfwupgGetDeviceId h st)" "hpm_safe (HpmfwupgGetTargetUpgCapabilities h st)" "hpm_safe (HpmfwupgGetComponentProperties h k s st)"
  "hpm_safe (HpmfwupgGetUpgradeStatus h resp ctx st)" "hpm_safe (HPM_ask h cmd ctx st)"
  unfolding HpmfwupgGetDeviceId_def HpmfwupgGetTargetUpgCapabilities_def HpmfwupgGetComponentProperties_def HpmfwupgGetUpgradeStatus_def HPM_ask_def
  by (intro hpm_safe_intros SendCmd_safe; simp)+

lemma wait_loop_safe: "hpm_safe (wait_loop h ctx tmo t1 t2 status st)"
proof (rule hpm_safe_Some)
  fix y
  assume "wait_loop h ctx tmo t1 t2 status st = Some y"
  then show "hpm_safe (Some y)"
  proof (induction h ctx tmo t1 t2 status st y rule: wait_loop.raw_induct [rotated, consumes 1, case_names step])
    case (step loop h ctx tmo t1 t2 status st y)
    have "hpm_safe (loop h ctx tmo t1 t2 status st)" for h ctx tmo t1 t2 status st by (rule hpm_safe_Some) (rule step(1))
    then show ?case unfolding step(2) [symmetric] by (intro hpm_safe_intros commands_safe; simp)
  qed
qed

lemma poll_status_safe: "hpm_safe (poll_status_loop h cmd again ctx tmo t1 st)"
proof (rule hpm_safe_Some)
  fix y
  assume "poll_status_loop h cmd again ctx tmo t1 st = Some y"
  then show "hpm_safe (Some y)"
  proof (induction h cmd again ctx tmo t1 st y rule: poll_status_loop.raw_induct [rotated, consumes 1, case_names step])
    case (step loop h cmd again ctx tmo t1 st y)
    have "hpm_safe (loop h cmd again ctx tmo t1 st)" for h cmd again ctx tmo t1 st by (rule hpm_safe_Some) (rule step(1))
    then show ?case unfolding step(2) [symmetric] by (intro hpm_safe_intros commands_safe; simp)
  qed
qed

lemma wait_safe: "hpm_safe (HpmfwupgWaitLongDurationCmd h ctx st)"
  unfolding HpmfwupgWaitLongDurationCmd_def wait_status_def by (intro hpm_safe_intros commands_safe wait_loop_safe; simp)

lemma actions_safe:
  "hpm_safe (HpmfwupgInitiateUpgradeAction h m a ctx st)" "hpm_safe (HpmfwupgUploadFirmwareBlock h n d ctx st)"
  "hpm_safe (HpmfwupgFinishFirmwareUpload h k len ctx cmp st)" "hpm_safe (HpmfwupgActivateFirmware h ro ctx' st)" "hpm_safe (component_action h m a ctx opt st)"
proof -
  show i: "hpm_safe (HpmfwupgInitiateUpgradeAction h m a ctx st)" for m a ctx
    unfolding HpmfwupgInitiateUpgradeAction_def by (intro hpm_safe_intros SendCmd_safe wait_safe; simp)
  show "hpm_safe (HpmfwupgUploadFirmwareBlock h n d ctx st)"
    unfolding HpmfwupgUploadFirmwareBlock_def by (intro hpm_safe_intros SendCmd_safe wait_safe; simp)
  show "hpm_safe (HpmfwupgFinishFirmwareUpload h k len ctx cmp st)"
    unfolding HpmfwupgFinishFirmwareUpload_def by (intro hpm_safe_intros SendCmd_safe wait_safe; simp)
  show "hpm_safe (HpmfwupgActivateFirmware h ro ctx' st)"
    unfolding HpmfwupgActivateFirmware_def by (intro hpm_safe_intros SendCmd_safe wait_safe; simp)
  show "hpm_safe (component_action h m a ctx opt st)"
    unfolding component_action_def Let_def by (intro hpm_safe_intros i; simp)
qed

lemma image_at_safe: "off + n \<le> length img \<Longrightarrow> hpm_safe (Some (image_at img off n))"
  by (simp add: image_at_def)

text \<open>
  The section the controller asks for next lies inside the firmware: the check of its end also
  covers the wrap-around of the sum.
\<close>

lemma section_inside:
  assumes "\<not> (io + bl > (n :: u32) \<or> io + bl < bl)"
  shows "unat io + unat bl \<le> unat n"
proof -
  have "unat (io + bl) = unat io + unat bl"
    using assms by (metis not_less unat_plus_simple word_less_nat_alt add.commute)
  then show ?thesis using assms by (metis not_less word_le_nat_alt)
qed

lemma upload_loop_safe:
  assumes "p \<le> e" and "e \<le> unat n" and "base + unat n \<le> length img"
  shows "hpm_safe (upload_loop h img base n ctx p e bl is ts bn st)"
proof (rule hpm_safe_Some)
  fix y
  assume "upload_loop h img base n ctx p e bl is ts bn st = Some y"
  then show "hpm_safe (Some y)" using assms
  proof (induction h img base n ctx p e bl "is" ts bn st y rule: upload_loop.raw_induct [rotated, consumes 1, case_names step])
    case (step loop h img base n ctx p e bl "is" ts bn st y)
    have ih: "hpm_safe (loop h img base n ctx p e bl is ts bn st)" if "p \<le> e" "e \<le> unat n" "base + unat n \<le> length img" for h img base n ctx p e bl "is" ts bn st
      using step(1) [OF _ that] by (rule hpm_safe_Some)
    show ?case unfolding step(2) [symmetric] Let_def
      by (intro hpm_safe_intros actions_safe image_at_safe ih) (use step(3-5) section_inside in \<open>auto\<close>)
  qed
qed

section \<open>Walking the records\<close>

lemma record_three: "3 \<le> length (record_bytes r)"
  by (cases r) (simp_all add: action_bytes_def)

lemma record_valid:
  assumes "length a = off"
  shows "HpmfwupgValidateActionRecordChecksum (a @ record_bytes r @ b) off = Inr HPMFWUPG_SUCCESS"
    and "image_at (a @ record_bytes r @ b) off ACTION_RECORD_SIZE = Inr (take 3 (record_bytes r))"
proof -
  have *: "off + 3 \<le> length (a @ record_bytes r @ b)" "take 3 (drop off (a @ record_bytes r @ b)) = take 3 (record_bytes r)"
    using record_three [of r] by (simp_all add: assms [symmetric])
  have "sum_list (take 3 (record_bytes r)) = 0" by (cases r) (simp_all add: action_bytes_def)
  with * show "HpmfwupgValidateActionRecordChecksum (a @ record_bytes r @ b) off = Inr HPMFWUPG_SUCCESS"
    by (simp add: HpmfwupgValidateActionRecordChecksum_def ACTION_RECORD_SIZE_def checksum_sum image_at_def)
  from * show "image_at (a @ record_bytes r @ b) off ACTION_RECORD_SIZE = Inr (take 3 (record_bytes r))" by (simp add: ACTION_RECORD_SIZE_def image_at_def)
qed

lemma upload_record:
  assumes "wf_record (Upload m version desc fw)" and "length a = off" and "img = a @ record_bytes (Upload m version desc fw) @ b"
  shows "image_at img (off + ACTION_RECORD_SIZE) FIRMWARE_IMAGE_SIZE = Inr (version @ desc @ le32 (word_of_nat (length fw)))"
    and "fi_length (firmware_image_of (version @ desc @ le32 (word_of_nat (length fw)))) = length fw"
    and "fi_version (firmware_image_of (version @ desc @ le32 (word_of_nat (length fw)))) = version"
    and "off + ACTION_RECORD_SIZE + FIRMWARE_IMAGE_SIZE + length fw \<le> length img"
    and "take (length fw) (drop (off + ACTION_RECORD_SIZE + FIRMWARE_IMAGE_SIZE) img) = fw"
    and "off + ACTION_RECORD_SIZE + FIRMWARE_IMAGE_SIZE + length fw = off + length (record_bytes (Upload m version desc fw))"
proof -
  have l: "length (a @ action_bytes 2 m) = off + 3" "length (version @ desc @ le32 (word_of_nat (length fw))) = 31"
    using assms(1,2) by (simp_all add: action_bytes_def)
  have i: "img = (a @ action_bytes 2 m) @ (version @ desc @ le32 (word_of_nat (length fw))) @ fw @ b" using assms(3) by simp
  show "image_at img (off + ACTION_RECORD_SIZE) FIRMWARE_IMAGE_SIZE = Inr (version @ desc @ le32 (word_of_nat (length fw)))"
    unfolding i using image_at_append [OF l(1), of "version @ desc @ le32 (word_of_nat (length fw))" "fw @ b"] l(2)
    by (simp only: ACTION_RECORD_SIZE_def FIRMWARE_IMAGE_SIZE_def)
  show "fi_length (firmware_image_of (version @ desc @ le32 (word_of_nat (length fw)))) = length fw"
    using assms(1) by (simp add: firmware_image_of_def of_le32_le32 unat_of_nat)
  show "fi_version (firmware_image_of (version @ desc @ le32 (word_of_nat (length fw)))) = version"
    using assms(1) by (simp add: firmware_image_of_def)
  have "length img = off + 34 + length fw + length b" unfolding i using l by simp
  then show "off + ACTION_RECORD_SIZE + FIRMWARE_IMAGE_SIZE + length fw \<le> length img" by (simp add: ACTION_RECORD_SIZE_def FIRMWARE_IMAGE_SIZE_def)
  have "length ((a @ action_bytes 2 m) @ (version @ desc @ le32 (word_of_nat (length fw)))) = off + 34" using l by simp
  then have "drop (off + 34) img = fw @ b" unfolding i by (metis append.assoc append_eq_conv_conj)
  then show "take (length fw) (drop (off + ACTION_RECORD_SIZE + FIRMWARE_IMAGE_SIZE) img) = fw"
    by (simp add: ACTION_RECORD_SIZE_def FIRMWARE_IMAGE_SIZE_def add.commute)
  show "off + ACTION_RECORD_SIZE + FIRMWARE_IMAGE_SIZE + length fw = off + length (record_bytes (Upload m version desc fw))"
    using l(2) by (simp add: ACTION_RECORD_SIZE_def FIRMWARE_IMAGE_SIZE_def action_bytes_def)
qed

lemma record_code:
  "take 3 (record_bytes (Backup m)) = [0, m, - m]" "take 3 (record_bytes (Prepare m)) = [1, m, - (1 + m)]"
  "take 3 (record_bytes (Upload m v d fw)) = [2, m, - (2 + m)]"
  by (simp_all add: action_bytes_def)

lemma upload_action_safe:
  assumes "wf_record (Upload m version desc fw)" and "length a = off" and "img = a @ record_bytes (Upload m version desc fw) @ b"
  shows "hpm_safe (HpmFwupgActionUploadFirmware h m ctx img off opt st)"
    and "HpmFwupgActionUploadFirmware h m ctx img off opt st = Some (Inr ((HPMFWUPG_SUCCESS, off', ctx'), st')) \<Longrightarrow>
      off' = off + length (record_bytes (Upload m version desc fw)) \<and> uc_pImageData ctx' = uc_pImageData ctx"
proof -
  note u = upload_record [OF assms]
  have n: "unat (word_of_nat (length fw) :: u32) = length fw" using assms(1) by (simp add: unat_of_nat)
  show "hpm_safe (HpmFwupgActionUploadFirmware h m ctx img off opt st)"
    unfolding HpmFwupgActionUploadFirmware_def Let_def u(1) rbind_simps u(2)
    by (intro hpm_safe_intros actions_safe upload_loop_safe) (use u(4) n in \<open>simp_all\<close>)
  show "off' = off + length (record_bytes (Upload m version desc fw)) \<and> uc_pImageData ctx' = uc_pImageData ctx"
    if "HpmFwupgActionUploadFirmware h m ctx img off opt st = Some (Inr ((HPMFWUPG_SUCCESS, off', ctx'), st'))"
    using that unfolding HpmFwupgActionUploadFirmware_def Let_def u(1) rbind_simps u(2) u(6)
    by (auto simp: rbind_def rret_def HPMFWUPG_SUCCESS_def HPMFWUPG_ERROR_def split: if_splits bind_splits sum.splits)
qed

lemma at_end: "length a = off \<Longrightarrow> length d = 16 \<Longrightarrow> length (a @ concat (map record_bytes rs) @ d) \<le> off + HPMFWUPG_MD5_SIGNATURE_LENGTH \<longleftrightarrow> rs = []"
  using record_three [of "hd rs"] by (cases rs) (auto simp: HPMFWUPG_MD5_SIGNATURE_LENGTH_def)

text \<open>What the upgrade stage does for one record.\<close>

definition stage_record ::
    "('e, 'w) hpm_host \<Rightarrow> byte list \<Rightarrow> byte \<Rightarrow> nat \<Rightarrow> hpm_record \<Rightarrow> upgrade_ctx \<Rightarrow> 'w hpm_state \<Rightarrow> ('e, (int \<times> nat \<times> upgrade_ctx) \<times> 'w hpm_state) hpm" where
  "stage_record h img opt off r ctx st =
     (case r of
        Upload m _ _ _ \<Rightarrow> HpmFwupgActionUploadFirmware h m ctx img off opt st
      | Backup m \<Rightarrow> rbind (component_action h m 0 ctx opt st) (\<lambda>(rc, st1). rret ((rc, off + ACTION_RECORD_SIZE, ctx), st1))
      | Prepare m \<Rightarrow> rbind (component_action h m 1 ctx opt st) (\<lambda>(rc, st1). rret ((rc, off + ACTION_RECORD_SIZE, ctx), st1)))"

lemma stage_step:
  assumes "length a = off" and "img = a @ concat (map record_bytes (r # rs)) @ d" and "length d = 16"
  shows "stage_loop h img opt off ctx st = rbind (stage_record h img opt off r ctx st) (\<lambda>((rc, off', ctx1), st1).
    if rc \<noteq> HPMFWUPG_SUCCESS then rret ((rc, ctx1), st1) else stage_loop h img opt off' ctx1 st1)"
proof -
  have i: "img = a @ record_bytes r @ (concat (map record_bytes rs) @ d)" using assms(2) by simp
  have g: "\<not> length img \<le> off + HPMFWUPG_MD5_SIGNATURE_LENGTH" using at_end [OF assms(1,3), of "r # rs"] assms(2) by simp
  have v: "Some (HpmfwupgValidateActionRecordChecksum img off) = rret HPMFWUPG_SUCCESS" "Some (image_at img off ACTION_RECORD_SIZE) = rret (take 3 (record_bytes r))"
    unfolding i rret_def using record_valid [OF assms(1)] by simp_all
  show ?thesis
    by (subst stage_loop.simps, simp only: v rbind_simps g if_False)
      (cases r; simp add: stage_record_def action_bytes_def rbind_assoc case_prod_unfold cong: if_cong)
qed

lemma stage_record_safe:
  assumes "wf_record r" and "length a = off" and "img = a @ record_bytes r @ b"
  shows "hpm_safe (stage_record h img opt off r ctx st)"
    and "stage_record h img opt off r ctx st = Some (Inr ((HPMFWUPG_SUCCESS, off', ctx'), st')) \<Longrightarrow>
      off' = off + length (record_bytes r) \<and> uc_pImageData ctx' = uc_pImageData ctx"
proof -
  have up: "hpm_safe (HpmFwupgActionUploadFirmware h m ctx img off opt st)"
    "HpmFwupgActionUploadFirmware h m ctx img off opt st = Some (Inr ((HPMFWUPG_SUCCESS, off', ctx'), st')) \<Longrightarrow>
      off' = off + length (record_bytes r) \<and> uc_pImageData ctx' = uc_pImageData ctx" if "r = Upload m ver desc fw" for m ver desc fw
    using upload_action_safe [of m ver desc fw a off img b] assms unfolding that by simp_all
  show "hpm_safe (stage_record h img opt off r ctx st)"
    using up(1) by (cases r) (auto simp: stage_record_def intro!: hpm_safe_intros actions_safe)
  show "off' = off + length (record_bytes r) \<and> uc_pImageData ctx' = uc_pImageData ctx"
    if "stage_record h img opt off r ctx st = Some (Inr ((HPMFWUPG_SUCCESS, off', ctx'), st'))"
    using that up(2) by (cases r) (auto simp: stage_record_def rbind_Inr rret_def ACTION_RECORD_SIZE_def action_bytes_def)
qed

lemma stage_loop_safe:
  assumes "\<forall>r\<in>set rs. wf_record r" and "length a = off" and "img = a @ concat (map record_bytes rs) @ d" and "length d = 16"
  shows "hpm_safe (stage_loop h img opt off ctx st) \<and>
    (\<forall>ctx' st'. stage_loop h img opt off ctx st = Some (Inr ((HPMFWUPG_SUCCESS, ctx'), st')) \<longrightarrow> uc_pImageData ctx' = uc_pImageData ctx)"
  using assms
proof (induction rs arbitrary: a off ctx st)
  case Nil
  then have "length img \<le> off + HPMFWUPG_MD5_SIGNATURE_LENGTH" using at_end [of a off d "[]"] by simp
  then show ?case by (subst (1 2) stage_loop.simps) (simp add: rret_def)
next
  case (Cons r rs)
  note step = stage_step [OF Cons.prems(2-4), of h opt ctx st]
  have ih: "hpm_safe (stage_loop h img opt (off + length (record_bytes r)) ctx st)"
    "stage_loop h img opt (off + length (record_bytes r)) ctx st = Some (Inr ((HPMFWUPG_SUCCESS, ctx'), st')) \<Longrightarrow> uc_pImageData ctx' = uc_pImageData ctx" for ctx ctx' st st'
    using Cons.IH [of "a @ record_bytes r" "off + length (record_bytes r)" ctx st] Cons.prems by auto
  have "wf_record r" "img = a @ record_bytes r @ (concat (map record_bytes rs) @ d)" using Cons.prems by simp_all
  note rec = stage_record_safe [OF this(1) Cons.prems(2) this(2), of h opt ctx st]
  have "hpm_safe (stage_loop h img opt off ctx st)"
    unfolding step by (rule hpm_safe_bind [OF rec(1)]) (use ih(1) in \<open>auto split: prod.splits if_splits dest!: rec(2)\<close>)
  moreover have "uc_pImageData ctx' = uc_pImageData ctx" if "stage_loop h img opt off ctx st = Some (Inr ((HPMFWUPG_SUCCESS, ctx'), st'))" for ctx' st'
    using that unfolding step rbind_Inr by (auto simp: rret_def split: prod.splits if_splits dest!: rec(2) ih(2))
  ultimately show ?case by blast
qed

text \<open>What the check before the upgrade does for one record: None when it is refused.\<close>

definition check_upload :: "u32 \<Rightarrow> byte \<Rightarrow> byte \<Rightarrow> byte list \<Rightarrow> upgrade_ctx \<Rightarrow> 'w hpm_state \<Rightarrow> upgrade_ctx \<times> 'w hpm_state" where
  "check_upload cm opt m ver ctx st =
     (let k = component_of m; st1 = upd_version k (\<lambda>v. v\<lparr>vi_image := ver\<rparr>) st
      in (if selected cm opt m (hp_versions st1 ! k) then ctx\<lparr>uc_compUpdateMask := uc_compUpdateMask ctx OR push_bit k 1\<rparr> else ctx, st1))"

fun record_mask :: "hpm_record \<Rightarrow> byte" where
  "record_mask (Backup m) = m"
| "record_mask (Prepare m) = m"
| "record_mask (Upload m _ _ _) = m"

fun record_supported :: "upgrade_ctx \<Rightarrow> hpm_record \<Rightarrow> bool" where
  "record_supported ctx (Backup m) \<longleftrightarrow> \<not> list_ex (\<lambda>k. bit m k \<and> uc_genCompProp ctx ! k AND 3 = 0) [0..<8]"
| "record_supported ctx (Prepare m) \<longleftrightarrow> \<not> list_ex (\<lambda>k. bit m k \<and> \<not> bit (uc_genCompProp ctx ! k) 2) [0..<8]"
| "record_supported ctx (Upload m _ _ _) \<longleftrightarrow> True"

definition record_allowed :: "upgrade_ctx \<Rightarrow> hpm_record \<Rightarrow> bool" where
  "record_allowed ctx r \<longleftrightarrow> (record_mask r = 0 \<or> tc_componentsPresent (uc_targetCap ctx) \<noteq> 0) \<and> record_supported ctx r"

definition check_record :: "u32 \<Rightarrow> byte \<Rightarrow> hpm_record \<Rightarrow> upgrade_ctx \<Rightarrow> 'w hpm_state \<Rightarrow> upgrade_ctx \<times> 'w hpm_state" where
  "check_record cm opt r ctx st = (case r of Upload m ver _ _ \<Rightarrow> check_upload cm opt m ver ctx st | _ \<Rightarrow> (ctx, st))"

lemma precheck_step:
  assumes "wf_record r" and "length a = off" and "img = a @ concat (map record_bytes (r # rs)) @ d" and "length d = 16"
  shows "(precheck_loop img cm opt off ctx st :: 'e hpm_error + _) =
    (if record_allowed ctx r
     then (case check_record cm opt r ctx st of (ctx1, st1) \<Rightarrow> precheck_loop img cm opt (off + length (record_bytes r)) ctx1 st1)
     else Inr ((HPMFWUPG_ERROR, ctx), st))"
proof -
  have i: "img = a @ record_bytes r @ (concat (map record_bytes rs) @ d)" using assms(3) by simp
  have g: "\<not> length img \<le> off + HPMFWUPG_MD5_SIGNATURE_LENGTH" using at_end [OF assms(2,4), of "r # rs"] assms(3) by simp
  note v = record_valid [OF assms(2), of r "concat (map record_bytes rs) @ d", folded i]
  have unf: "(precheck_loop img cm opt off ctx st :: 'e hpm_error + _) = (let rec = take 3 (record_bytes r) in
      if rec ! 1 \<noteq> 0 \<and> tc_componentsPresent (uc_targetCap ctx) = 0 then Inr ((HPMFWUPG_ERROR, ctx), st)
      else if rec ! 0 = 0 then
        if list_ex (\<lambda>k. bit (rec ! 1) k \<and> uc_genCompProp ctx ! k AND 3 = 0) [0..<8] then Inr ((HPMFWUPG_ERROR, ctx), st)
        else precheck_loop img cm opt (off + ACTION_RECORD_SIZE) ctx st
      else if rec ! 0 = 1 then
        if list_ex (\<lambda>k. bit (rec ! 1) k \<and> \<not> bit (uc_genCompProp ctx ! k) 2) [0..<8] then Inr ((HPMFWUPG_ERROR, ctx), st)
        else precheck_loop img cm opt (off + ACTION_RECORD_SIZE) ctx st
      else if rec ! 0 = 2 then
        sum_bind (image_at img (off + ACTION_RECORD_SIZE) FIRMWARE_IMAGE_SIZE) (\<lambda>d'.
          case check_upload cm opt (rec ! 1) (fi_version (firmware_image_of d')) ctx st of (ctx1, st1) \<Rightarrow>
            precheck_loop img cm opt (off + ACTION_RECORD_SIZE + FIRMWARE_IMAGE_SIZE + fi_length (firmware_image_of d')) ctx1 st1)
      else Inr ((HPMFWUPG_ERROR, ctx), st))"
    by (subst precheck_loop.simps) (simp only: g v if_False sum_bind_simps Let_def check_upload_def prod.case simp_thms)
  show ?thesis
  proof (cases r)
    case (Upload m ver desc fw)
    note u = upload_record [OF assms(1) [unfolded Upload] assms(2) i [unfolded Upload]]
    show ?thesis unfolding unf Upload record_code Let_def u(1) sum_bind_simps u(2,3,6)
      by (simp add: record_allowed_def check_record_def)
  qed (simp_all add: unf record_allowed_def check_record_def Let_def action_bytes_def ACTION_RECORD_SIZE_def numeral_3_eq_3)
qed

lemma check_record_ctx: "check_record cm opt r ctx st = (ctx', st') \<Longrightarrow>
    \<exists>m. ctx' = ctx\<lparr>uc_compUpdateMask := m\<rparr> \<and> hp_world st' = hp_world st \<and> length (hp_versions st') = length (hp_versions st)"
  by (cases ctx; cases r) (auto simp: check_record_def check_upload_def upd_version_def Let_def)

lemma precheck_result:
  assumes "\<forall>r\<in>set rs. wf_record r" and "length a = off" and "img = a @ concat (map record_bytes rs) @ d" and "length d = 16"
  shows "\<exists>rc m st'. (precheck_loop img cm opt off ctx st :: 'e hpm_error + _) = Inr ((rc, ctx\<lparr>uc_compUpdateMask := m\<rparr>), st') \<and> hp_world st' = hp_world st
    \<and> length (hp_versions st') = length (hp_versions st)"
  using assms
proof (induction rs arbitrary: a off ctx st)
  case Nil
  then have "length img \<le> off + HPMFWUPG_MD5_SIGNATURE_LENGTH" using at_end [of a off d "[]"] by simp
  then have "precheck_loop img cm opt off ctx st = Inr ((HPMFWUPG_SUCCESS, ctx\<lparr>uc_compUpdateMask := uc_compUpdateMask ctx\<rparr>), st)"
    by (subst precheck_loop.simps) simp
  then show ?case by blast
next
  case (Cons r rs)
  note step = precheck_step [OF _ Cons.prems(2-4), of cm opt ctx st]
  obtain ctx1 st1 where c: "check_record cm opt r ctx st = (ctx1, st1)" by (cases "check_record cm opt r ctx st")
  from check_record_ctx [OF c] obtain m where m: "ctx1 = ctx\<lparr>uc_compUpdateMask := m\<rparr>" "hp_world st1 = hp_world st" "length (hp_versions st1) = length (hp_versions st)" by blast
  from Cons.IH [of "a @ record_bytes r" "off + length (record_bytes r)" ctx1 st1] Cons.prems m
  obtain rc m' st' where "(precheck_loop img cm opt (off + length (record_bytes r)) ctx1 st1 :: 'e hpm_error + _) = Inr ((rc, ctx\<lparr>uc_compUpdateMask := m'\<rparr>), st')"
    "hp_world st' = hp_world st" "length (hp_versions st') = length (hp_versions st)" by auto
  moreover have "ctx = ctx\<lparr>uc_compUpdateMask := uc_compUpdateMask ctx\<rparr>" by simp
  ultimately have "(precheck_loop img cm opt off ctx st :: 'e hpm_error + _) = (if record_allowed ctx r then Inr ((rc, ctx\<lparr>uc_compUpdateMask := m'\<rparr>), st')
      else Inr ((HPMFWUPG_ERROR, ctx\<lparr>uc_compUpdateMask := uc_compUpdateMask ctx\<rparr>), st))"
    using Cons.prems(1) c by (subst step) simp_all
  with \<open>hp_world st' = hp_world st\<close> \<open>length (hp_versions st') = length (hp_versions st)\<close> show ?case
    by (cases "record_allowed ctx r") (auto, intro exI [of _ "uc_compUpdateMask ctx"], simp)
qed

lemma image_facts:
  assumes "wf_header hdr oem" and "img = hpm_image hdr oem recs"
  shows "first_record (header_of img) = length (image_front hdr oem)"
    and "img = image_front hdr oem @ concat (map record_bytes recs) @ rfc_md5 (image_body hdr oem recs)"
    and "IMAGE_HEADER_SIZE \<le> length img"
    and "HpmfwupgValidateImageIntegrity img = Inr HPMFWUPG_SUCCESS"
    and "header_of img = header_of hdr"
proof -
  have l: "length hdr = 34" "unat (hdr ! 32) + 256 * unat (hdr ! 33) = length oem" using assms(1) by (simp_all add: wf_header_def)
  show i: "img = image_front hdr oem @ concat (map record_bytes recs) @ rfc_md5 (image_body hdr oem recs)"
    using assms(2) by (simp add: hpm_image_def image_body_def)
  then have p: "img = hdr @ drop 34 img" using l by (simp add: image_front_def)
  have n: "img ! k = hdr ! k" if "k < 34" for k using l that by (subst p) (simp add: nth_append)
  show h: "header_of img = header_of hdr" using l by (subst p) (simp add: header_of_def nth_append)
  have "ih_oemDataLength (header_of hdr) = length oem" using l(2) by (simp add: header_of_def)
  then show "first_record (header_of img) = length (image_front hdr oem)" using l h by (simp add: first_record_def IMAGE_HEADER_SIZE_def image_front_def)
  show "IMAGE_HEADER_SIZE \<le> length img" using l by (subst p) (simp add: IMAGE_HEADER_SIZE_def)
  have t: "take (34 + length oem + 1) img = image_front hdr oem" using l by (subst i) (simp add: image_front_def)
  have m: "length img - 16 = length (image_body hdr oem recs)" "16 \<le> length img" using assms(2) by (simp_all add: hpm_image_def length_rfc_md5)
  have "length (image_front hdr oem) \<le> length img" by (subst i) simp
  then have "34 + length oem + 1 \<le> length img" using l by (simp add: image_front_def)
  moreover have "take 8 img = take 8 hdr" using l by (subst p) simp
  ultimately show "HpmfwupgValidateImageIntegrity img = Inr HPMFWUPG_SUCCESS"
    unfolding hpm_image_valid using m n t assms l(2) by (simp add: wf_header_def HPMFWUPG_IMAGE_SIGNATURE_def hpm_image_def image_front_def)
qed

lemma general_properties_safe: "hpm_safe (general_properties h comps ks rc props st)"
  by (induction ks arbitrary: rc props st) (auto intro!: hpm_safe_intros commands_safe)

text \<open>The same with a condition on the result.\<close>

definition hpm_post :: "('a \<Rightarrow> bool) \<Rightarrow> ('e, 'a) hpm \<Rightarrow> bool" where
  "hpm_post Q m \<longleftrightarrow> hpm_safe m \<and> (\<forall>x. m = Some (Inr x) \<longrightarrow> Q x)"

lemma hpm_post_ret: "Q x \<Longrightarrow> hpm_post Q (rret x)"
  by (simp add: hpm_post_def) (simp add: rret_def)

lemma hpm_post_bind: "hpm_safe m \<Longrightarrow> (\<And>x. m = Some (Inr x) \<Longrightarrow> hpm_post Q (f x)) \<Longrightarrow> hpm_post Q (rbind m f)"
  by (auto simp: hpm_post_def rbind_Inr intro: hpm_safe_bind)

lemma hpm_post_prod: "(\<And>a b. p = (a, b) \<Longrightarrow> hpm_post Q (f a b)) \<Longrightarrow> hpm_post Q (case p of (a, b) \<Rightarrow> f a b)"
  by (cases p) simp

lemma hpm_post_prod_app: "(\<And>a b. p = (a, b) \<Longrightarrow> hpm_post Q (f a b c)) \<Longrightarrow> hpm_post Q ((case p of (a, b) \<Rightarrow> f a b) c)"
  by (cases p) simp

lemma hpm_post_option:
  "(x = None \<Longrightarrow> hpm_post Q a) \<Longrightarrow> (\<And>y. x = Some y \<Longrightarrow> hpm_post Q (f y)) \<Longrightarrow> hpm_post Q (case x of None \<Rightarrow> a | Some y \<Rightarrow> f y)"
  by (cases x) simp_all

lemma hpm_post_if: "(b \<Longrightarrow> hpm_post Q x) \<Longrightarrow> (\<not> b \<Longrightarrow> hpm_post Q y) \<Longrightarrow> hpm_post Q (if b then x else y)"
  by simp

lemmas hpm_post_intros = hpm_post_ret hpm_post_bind hpm_post_prod hpm_post_prod_app hpm_post_option hpm_post_if

lemma preparation_safe:
  assumes "uc_pImageData ctx = Some img" and "IMAGE_HEADER_SIZE \<le> length img"
  shows "hpm_post (\<lambda>((rc, ctx'), st'). uc_pImageData ctx' = Some img) (HpmfwupgPreparationStage h ctx opt st)"
proof -
  have i: "image_header_of (ctx\<lparr>uc_devId := d\<rparr>) = rret (img, header_of img)" for d using assms by (simp add: image_header_of_def)
  show ?thesis
    unfolding HpmfwupgPreparationStage_def Let_def i
    by (intro hpm_post_intros commands_safe general_properties_safe hpm_safe_simps) (simp_all add: assms)
qed

lemma activation_safe:
  assumes "uc_pImageData ctx = Some img" and "IMAGE_HEADER_SIZE \<le> length img"
  shows "hpm_safe (HpmfwupgActivationStage h ctx st)"
proof -
  have i: "image_header_of ctx = rret (img, header_of img)" "Some (rollback_timeout (Some ctx)) = rret (ucast (max (img ! 22) (tc_rollbackTimeout (uc_targetCap ctx))) * 5)"
    "Some (selftest_timeout (Some ctx)) = rret (max (img ! 21) (tc_selftestTimeout (uc_targetCap ctx)) * 5)"
    using assms by (simp_all add: image_header_of_def rollback_timeout_def selftest_timeout_def IMAGE_HEADER_SIZE_def rret_def)
  show ?thesis
    unfolding HpmfwupgActivationStage_def activate_and_test_def HpmfwupgQuerySelftestResult_def HpmfwupgQueryRollbackStatus_def i
    by (intro hpm_safe_intros actions_safe poll_status_safe hpm_safe_simps)
qed

lemma hpm_post_safe: "hpm_post Q m \<Longrightarrow> (\<And>x. Q x \<Longrightarrow> hpm_safe (f x)) \<Longrightarrow> hpm_safe (rbind m f)"
  by (auto simp: hpm_post_def intro: hpm_safe_bind)

lemma upgrade_unfold:
  assumes "wf_header hdr oem" and "h_file h (hp_world st) name = Some (hpm_image hdr oem recs)"
  shows "HpmfwupgUpgrade h (Some name) activate cm opt st =
    rbind (HpmfwupgPreparationStage h (fresh_ctx\<lparr>uc_pImageData := Some (hpm_image hdr oem recs)\<rparr>) opt st) (\<lambda>((rc, ctx2), st1).
      if rc \<noteq> HPMFWUPG_SUCCESS then rret (rc, st1)
      else rbind (HpmfwupgPreUpgradeCheck cm (if in_mode opt VIEW_MODE then VIEW_MODE else opt) ctx2 st1) (\<lambda>((rc, ctx3), st2).
        if rc \<noteq> HPMFWUPG_SUCCESS then rret (rc, st2)
        else rbind (if in_mode opt VIEW_MODE then rret ((rc, ctx3), st2) else HpmfwupgUpgradeStage h ctx3 opt st2) (\<lambda>((rc, ctx4), st3).
          if rc = HPMFWUPG_SUCCESS \<and> activate \<and> uc_compUpdateMask ctx4 \<noteq> 0 then HpmfwupgActivationStage h ctx4 st3
          else rret (rc, st3))))"
  using assms(2) by (simp add: HpmfwupgUpgrade_def HpmfwupgGetBufferFromFile_def image_facts(4) [OF assms(1) refl])

lemma upgrade_safe:
  fixes h :: "('e, 'w) hpm_host"
  assumes "wf_header hdr oem" and "\<forall>r\<in>set recs. wf_record r" and "h_file h (hp_world st) name = Some (hpm_image hdr oem recs)"
  shows "hpm_safe (HpmfwupgUpgrade h (Some name) activate cm opt st)"
proof -
  define img where "img = hpm_image hdr oem recs"
  note i = image_facts [OF assms(1) img_def]
  have len: "length (image_front hdr oem) = length (image_front hdr oem)" "length (rfc_md5 (image_body hdr oem recs)) = 16" by simp_all
  have hd: "image_header_of ctx = rret (img, header_of img)" if "uc_pImageData ctx = Some img" for ctx using i(3) that by (simp add: image_header_of_def)
  have pre: "hpm_post (\<lambda>((rc, ctx'), st'). uc_pImageData ctx' = Some img) (HpmfwupgPreUpgradeCheck cm opt' ctx st :: ('e, _) hpm)"
    if "uc_pImageData ctx = Some img" for opt' ctx and st :: "'w hpm_state"
    unfolding HpmfwupgPreUpgradeCheck_def hd [OF that] rbind_simps prod.case i(1)
    using precheck_result [OF assms(2) len(1) i(2) len(2), of cm opt' ctx st, where 'e = 'e] that by (auto simp: hpm_post_def)
  have stg: "hpm_post (\<lambda>((rc, ctx'), st'). rc = HPMFWUPG_SUCCESS \<longrightarrow> uc_pImageData ctx' = Some img) (HpmfwupgUpgradeStage h ctx opt st)"
    if "uc_pImageData ctx = Some img" for ctx st
    unfolding HpmfwupgUpgradeStage_def hd [OF that] rbind_simps prod.case i(1)
    using stage_loop_safe [OF assms(2) len(1) i(2) len(2), of h opt ctx st] that by (auto simp: hpm_post_def)
  have act: "hpm_safe (HpmfwupgActivationStage h ctx st)" if "uc_pImageData ctx = Some img" for ctx st by (rule activation_safe [OF that i(3)])
  have "hpm_post (\<lambda>((rc, ctx'), st'). uc_pImageData ctx' = Some img) (HpmfwupgPreparationStage h (fresh_ctx\<lparr>uc_pImageData := Some img\<rparr>) opt st)"
    by (rule preparation_safe [OF _ i(3)]) simp
  then show ?thesis
    unfolding upgrade_unfold [OF assms(1,3)] img_def [symmetric]
    by (rule hpm_post_safe) (auto intro!: hpm_post_safe [OF pre] hpm_post_safe [OF stg] act)
qed

section \<open>A controller that follows the specification\<close>

text \<open>
  What is fixed of a controller: device identification, upgrade capabilities, general
  properties of its components, the longest block it takes. What changes: the bytes and the number of blocks
  received in the upload under way, the firmwares installed, whether they have been activated.
\<close>

record hpm_target =
  ht_devid :: "byte list"
  ht_caps :: "byte list"
  ht_props :: "nat \<Rightarrow> byte"
  ht_limit :: nat

record hpm_view =
  hv_received :: "byte list"
  hv_blocks :: nat
  hv_installed :: "nat \<Rightarrow> byte list option"
  hv_active :: bool

definition hpm_answers :: "hpm_target \<Rightarrow> ipmi_rq \<Rightarrow> hpm_view \<Rightarrow> ipmi_rsp \<Rightarrow> hpm_view \<Rightarrow> bool" where
  "hpm_answers T req v r v' \<longleftrightarrow>
     (req = mk_rq 0x06 0x01 [] \<longrightarrow> r = rsp_of 0 (ht_devid T) \<and> v' = v) \<and>
     (req = mk_rq 0x2C 0x2E [0] \<longrightarrow> r = rsp_of 0 (ht_caps T) \<and> v' = v) \<and>
     (\<forall>k. req = mk_rq 0x2C 0x2F [0, k, 0] \<longrightarrow> r = rsp_of 0 [0, ht_props T (unat k)] \<and> v' = v) \<and>
     (\<forall>m a. req = mk_rq 0x2C 0x31 [0, m, a] \<longrightarrow> r = rsp_of 0 [0] \<and> v' = v\<lparr>hv_received := [], hv_blocks := 0\<rparr>) \<and>
     (\<forall>d. req = mk_rq 0x2C 0x32 (0 # word_of_nat (hv_blocks v) # d) \<longrightarrow>
        (if length d \<le> ht_limit T then r = rsp_of 0 [0] \<and> v' = v\<lparr>hv_received := hv_received v @ d, hv_blocks := hv_blocks v + 1\<rparr>
         else (r = rsp_of 0xC7 [0] \<or> r = rsp_of 0xC8 [0]) \<and> v' = v)) \<and>
     (\<forall>k. req = mk_rq 0x2C 0x33 (0 # k # le32 (word_of_nat (length (hv_received v)))) \<longrightarrow>
        r = rsp_of 0 [0] \<and> v' = v\<lparr>hv_installed := (hv_installed v)(unat k \<mapsto> hv_received v)\<rparr>) \<and>
     (req = mk_rq 0x2C 0x35 [0] \<longrightarrow> r = rsp_of 0 [0] \<and> v' = v\<lparr>hv_active := True\<rparr>) \<and>
     (req = mk_rq 0x2C 0x36 [0] \<longrightarrow> r = rsp_of 0 [0, 0x55, 0] \<and> v' = v)"

text \<open>The world of a host with such a controller; looking at the clock leaves the controller alone.\<close>

definition hpm_target_ok :: "('e, 'w) hpm_host \<Rightarrow> hpm_target \<Rightarrow> ('w \<Rightarrow> bool) \<Rightarrow> ('w \<Rightarrow> hpm_view) \<Rightarrow> u16 \<Rightarrow> bool" where
  "hpm_target_ok h T ok view maxrq \<longleftrightarrow>
     (\<forall>w. ok w \<longrightarrow> ok (snd (h_time h w)) \<and> view (snd (h_time h w)) = view w \<and> ipmi_intf_get_max_request_data_size (h_intf h w) = maxrq) \<and>
     (\<forall>w req. ok w \<longrightarrow> (\<exists>r w'. h_sendrecv h req w = Inr (Some r, w') \<and> ok w' \<and> hpm_answers T req (view w) r (view w')))"

lemma target_time:
  assumes "hpm_target_ok h T ok view maxrq" and "ok (hp_world st)"
  shows "\<exists>t st'. htime h st = (t, st') \<and> ok (hp_world st') \<and> view (hp_world st') = view (hp_world st) \<and> hp_versions st' = hp_versions st"
  using assms by (auto simp: htime_def hpm_target_ok_def split: prod.splits)

lemma target_send:
  assumes "hpm_target_ok h T ok view maxrq" and "ok (hp_world st)"
  obtains r st' where "hpm_answers T req (view (hp_world st)) r (view (hp_world st'))" and "ok (hp_world st')" and "hp_versions st' = hp_versions st"
    and "rsp_ccode r \<notin> {0xFF, 0xC3, 0xD3, 0xC0} \<Longrightarrow> HpmfwupgSendCmd h req ctx st = rret (Some r, st')"
proof -
  from target_time [OF assms] obtain t st1 where t: "htime h st = (t, st1)" "ok (hp_world st1)" "view (hp_world st1) = view (hp_world st)" "hp_versions st1 = hp_versions st" by blast
  from assms(1) t(2) obtain r w' where r: "h_sendrecv h req (hp_world st1) = Inr (Some r, w')" "ok w'" "hpm_answers T req (view (hp_world st1)) r (view w')"
    unfolding hpm_target_ok_def by blast
  let ?st = "send_done req r (st1\<lparr>hp_world := w'\<rparr>)"
  have s: "hp_world ?st = w'" "hp_versions ?st = hp_versions st" using t(4) by (simp_all add: send_done_def Let_def)
  have "HpmfwupgSendCmd h req ctx st = rret (Some r, ?st)" if "rsp_ccode r \<notin> {0xFF, 0xC3, 0xD3, 0xC0}"
    using that t(1) r(1) by (simp add: HpmfwupgSendCmd_def send_cmd_loop.simps [of h] hsend_def made_up_response_def Let_def)
  with s r t(3) that [of r ?st] show thesis by simp
qed

text \<open>The state after a step: the invariant, what the controller holds, the versions as before.\<close>

definition reached :: "('w \<Rightarrow> bool) \<Rightarrow> ('w \<Rightarrow> hpm_view) \<Rightarrow> 'w hpm_state \<Rightarrow> hpm_view \<Rightarrow> 'w hpm_state \<Rightarrow> bool" where
  "reached ok view st v st' \<longleftrightarrow> ok (hp_world st') \<and> view (hp_world st') = v \<and> hp_versions st' = hp_versions st"

lemma target_query:
  assumes "hpm_target_ok h T ok view maxrq" and "ok (hp_world st)"
    and "\<And>r v'. hpm_answers T req (view (hp_world st)) r v' \<Longrightarrow> r = rsp_of cc d \<and> v' = v" and "cc \<notin> {0xFF, 0xC3, 0xD3, 0xC0}"
  shows "\<exists>st'. HpmfwupgSendCmd h req ctx st = rret (Some (rsp_of cc d), st') \<and> reached ok view st v st'"
proof -
  from target_send [OF assms(1,2), of req ctx] obtain r st' where r: "hpm_answers T req (view (hp_world st)) r (view (hp_world st'))" "ok (hp_world st')"
    "hp_versions st' = hp_versions st" "rsp_ccode r \<notin> {0xFF, 0xC3, 0xD3, 0xC0} \<Longrightarrow> HpmfwupgSendCmd h req ctx st = rret (Some r, st')" by blast
  from assms(3) [OF r(1)] assms(4) r(2-4) show ?thesis by (auto simp: reached_def)
qed

lemma answers_dest:
  "hpm_answers T (mk_rq 0x06 0x01 []) v r v' \<Longrightarrow> r = rsp_of 0 (ht_devid T) \<and> v' = v"
  "hpm_answers T (mk_rq 0x2C 0x2E [0]) v r v' \<Longrightarrow> r = rsp_of 0 (ht_caps T) \<and> v' = v"
  "hpm_answers T (mk_rq 0x2C 0x2F [0, k, 0]) v r v' \<Longrightarrow> r = rsp_of 0 [0, ht_props T (unat k)] \<and> v' = v"
  "hpm_answers T (mk_rq 0x2C 0x31 [0, m, a]) v r v' \<Longrightarrow> r = rsp_of 0 [0] \<and> v' = v\<lparr>hv_received := [], hv_blocks := 0\<rparr>"
  "hpm_answers T (mk_rq 0x2C 0x33 (0 # k # le32 (word_of_nat (length (hv_received v))))) v r v' \<Longrightarrow>
     r = rsp_of 0 [0] \<and> v' = v\<lparr>hv_installed := (hv_installed v)(unat k \<mapsto> hv_received v)\<rparr>"
  "hpm_answers T (mk_rq 0x2C 0x35 [0]) v r v' \<Longrightarrow> r = rsp_of 0 [0] \<and> v' = v\<lparr>hv_active := True\<rparr>"
  "hpm_answers T (mk_rq 0x2C 0x36 [0]) v r v' \<Longrightarrow> r = rsp_of 0 [0, 0x55, 0] \<and> v' = v"
  unfolding hpm_answers_def by blast+

lemma answers_block:
  assumes "hpm_answers T (mk_rq 0x2C 0x32 (0 # word_of_nat (hv_blocks v) # d)) v r v'"
  shows "if length d \<le> ht_limit T then r = rsp_of 0 [0] \<and> v' = v\<lparr>hv_received := hv_received v @ d, hv_blocks := hv_blocks v + 1\<rparr>
    else (r = rsp_of 0xC7 [0] \<or> r = rsp_of 0xC8 [0]) \<and> v' = v"
  using assms unfolding hpm_answers_def by blast

lemma target_commands:
  assumes "hpm_target_ok h T ok view maxrq" and "ok (hp_world st)" and "v = view (hp_world st)"
  shows "\<exists>st'. HpmfwupgGetDeviceId h st = rret (Some (devid_of (rsp_of 0 (ht_devid T))), st') \<and> reached ok view st v st'"
    and "\<exists>st'. HpmfwupgGetTargetUpgCapabilities h st = rret (Some (target_cap_of (rsp_of 0 (ht_caps T))), st') \<and> reached ok view st v st'"
    and "\<exists>st'. HpmfwupgGetComponentProperties h k 0 st = rret (Some [0, ht_props T (unat k)], st') \<and> reached ok view st v st'"
    and "\<exists>st'. HpmfwupgInitiateUpgradeAction h m a ctx st = rret (HPMFWUPG_SUCCESS, st') \<and> reached ok view st (v\<lparr>hv_received := [], hv_blocks := 0\<rparr>) st'"
    and "\<exists>st'. HpmfwupgFinishFirmwareUpload h k (word_of_nat (length (hv_received v))) ctx False st = rret (HPMFWUPG_SUCCESS, st')
      \<and> reached ok view st (v\<lparr>hv_installed := (hv_installed v)(unat k \<mapsto> hv_received v)\<rparr>) st'"
    and "\<exists>st'. HpmfwupgActivateFirmware h 0 ctx' st = rret (HPMFWUPG_SUCCESS, st') \<and> reached ok view st (v\<lparr>hv_active := True\<rparr>) st'"
proof -
  note q = target_query [OF assms(1,2), folded assms(3)]
  have s:
    "\<exists>st'. HpmfwupgSendCmd h (mk_rq 0x06 0x01 []) None st = rret (Some (rsp_of 0 (ht_devid T)), st') \<and> reached ok view st v st'"
    "\<exists>st'. HpmfwupgSendCmd h (mk_rq 0x2C 0x2E [0]) None st = rret (Some (rsp_of 0 (ht_caps T)), st') \<and> reached ok view st v st'"
    "\<exists>st'. HpmfwupgSendCmd h (mk_rq 0x2C 0x2F [0, k, 0]) None st = rret (Some (rsp_of 0 [0, ht_props T (unat k)]), st') \<and> reached ok view st v st'"
    "\<exists>st'. HpmfwupgSendCmd h (mk_rq 0x2C 0x31 [0, m, a]) (Some ctx) st = rret (Some (rsp_of 0 [0]), st') \<and> reached ok view st (v\<lparr>hv_received := [], hv_blocks := 0\<rparr>) st'"
    "\<exists>st'. HpmfwupgSendCmd h (mk_rq 0x2C 0x33 (0 # k # le32 (word_of_nat (length (hv_received v))))) (Some ctx) st = rret (Some (rsp_of 0 [0]), st') \<and> reached ok view st (v\<lparr>hv_installed := (hv_installed v)(unat k \<mapsto> hv_received v)\<rparr>) st'"
    "\<exists>st'. HpmfwupgSendCmd h (mk_rq 0x2C 0x35 [0]) ctx' st = rret (Some (rsp_of 0 [0]), st') \<and> reached ok view st (v\<lparr>hv_active := True\<rparr>) st'"
    by (rule q, auto dest: answers_dest)+
  note b = rsp_bytes_def rsp_byte_def upt_rec
  from s(1) show "\<exists>st'. HpmfwupgGetDeviceId h st = rret (Some (devid_of (rsp_of 0 (ht_devid T))), st') \<and> reached ok view st v st'"
    by (auto simp: HpmfwupgGetDeviceId_def)
  from s(2) show "\<exists>st'. HpmfwupgGetTargetUpgCapabilities h st = rret (Some (target_cap_of (rsp_of 0 (ht_caps T))), st') \<and> reached ok view st v st'"
    by (auto simp: HpmfwupgGetTargetUpgCapabilities_def)
  from s(3) show "\<exists>st'. HpmfwupgGetComponentProperties h k 0 st = rret (Some [0, ht_props T (unat k)], st') \<and> reached ok view st v st'"
    by (auto simp: HpmfwupgGetComponentProperties_def property_size_def b)
  from s(4)
  show "\<exists>st'. HpmfwupgInitiateUpgradeAction h m a ctx st = rret (HPMFWUPG_SUCCESS, st') \<and> reached ok view st (v\<lparr>hv_received := [], hv_blocks := 0\<rparr>) st'"
    by (auto simp: HpmfwupgInitiateUpgradeAction_def)
  from s(5)
  show "\<exists>st'. HpmfwupgFinishFirmwareUpload h k (word_of_nat (length (hv_received v))) ctx False st = rret (HPMFWUPG_SUCCESS, st')
      \<and> reached ok view st (v\<lparr>hv_installed := (hv_installed v)(unat k \<mapsto> hv_received v)\<rparr>) st'"
    by (auto simp: HpmfwupgFinishFirmwareUpload_def)
  from s(6)
  show "\<exists>st'. HpmfwupgActivateFirmware h 0 ctx' st = rret (HPMFWUPG_SUCCESS, st') \<and> reached ok view st (v\<lparr>hv_active := True\<rparr>) st'"
    by (auto simp: HpmfwupgActivateFirmware_def)
qed

lemma target_block:
  assumes "hpm_target_ok h T ok view maxrq" and "ok (hp_world st)" and "v = view (hp_world st)"
  shows "\<exists>st'. HpmfwupgUploadFirmwareBlock h (word_of_nat (hv_blocks v)) d ctx st =
      rret ((if length d \<le> ht_limit T then HPMFWUPG_SUCCESS else HPMFWUPG_UPLOAD_BLOCK_LENGTH, 0, 0), st')
    \<and> reached ok view st (if length d \<le> ht_limit T then v\<lparr>hv_received := hv_received v @ d, hv_blocks := hv_blocks v + 1\<rparr> else v) st'"
proof -
  from target_send [OF assms(1,2), of "mk_rq 0x2C 0x32 (0 # word_of_nat (hv_blocks v) # d)" "Some ctx"] obtain r st' where
    r: "hpm_answers T (mk_rq 0x2C 0x32 (0 # word_of_nat (hv_blocks v) # d)) v r (view (hp_world st'))" "ok (hp_world st')" "hp_versions st' = hp_versions st"
    "rsp_ccode r \<notin> {0xFF, 0xC3, 0xD3, 0xC0} \<Longrightarrow> HpmfwupgSendCmd h (mk_rq 0x2C 0x32 (0 # word_of_nat (hv_blocks v) # d)) (Some ctx) st = rret (Some r, st')"
    unfolding assms(3) by blast
  show ?thesis
  proof (cases "length d \<le> ht_limit T")
    case True
    with answers_block [OF r(1)] r(2-4) show ?thesis by (auto simp: HpmfwupgUploadFirmwareBlock_def section_of_def reached_def)
  next
    case False
    with answers_block [OF r(1)] have c: "r = rsp_of 0xC7 [0] \<or> r = rsp_of 0xC8 [0]" "view (hp_world st') = v" by auto
    then have s: "HpmfwupgSendCmd h (mk_rq 0x2C 0x32 (0 # word_of_nat (hv_blocks v) # d)) (Some ctx) st = rret (Some r, st')" using r(4) by auto
    show ?thesis using c(1)
      by (rule disjE) (use False c(2) r(2,3) s in \<open>auto simp: HpmfwupgUploadFirmwareBlock_def section_of_def reached_def HPMFWUPG_IS_RETRYABLE_def\<close>)
  qed
qed

lemma shorter_block_le: "1 < bl \<Longrightarrow> \<exists>k. shorter_block lan bl = Some k \<and> k < bl \<and> 1 \<le> k"
  by (auto simp: shorter_block_def)

lemma reached_trans: "reached ok view st v st' \<Longrightarrow> reached ok view st' v' st'' \<Longrightarrow> reached ok view st v' st''"
  by (simp add: reached_def)

lemma upload_loop_delivers:
  assumes "hpm_target_ok h T ok view maxrq" and "ok (hp_world st)" and "v = view (hp_world st)"
    and "1 \<le> ht_limit T" and "1 \<le> bl" and "n < 2 ^ 32" and "base + n \<le> length img" and "p \<le> n"
    and "hv_received v = take p (take n (drop base img))" and "is \<and> p < n \<Longrightarrow> bl \<le> ht_limit T"
  shows "\<exists>st' b. upload_loop h img base (word_of_nat n) ctx p n bl is (word_of_nat p) (word_of_nat (hv_blocks v)) st = rret ((HPMFWUPG_SUCCESS, word_of_nat n), st')
    \<and> reached ok view st (v\<lparr>hv_received := take n (drop base img), hv_blocks := b\<rparr>) st'"
  using assms(2,3,5,8-10)
proof (induction "n - p + bl" arbitrary: p bl "is" st v rule: less_induct)
  case less
  show ?case
  proof (cases "p < n")
    case False
    then have "p = n" using less.prems(4) by simp
    then have "reached ok view st (v\<lparr>hv_received := take n (drop base img), hv_blocks := hv_blocks v\<rparr>) st"
      using less.prems(1,2,5) by (simp add: reached_def min_def)
    moreover have "upload_loop h img base (word_of_nat n) ctx p n bl is (word_of_nat p) (word_of_nat (hv_blocks v)) st = rret ((HPMFWUPG_SUCCESS, word_of_nat n), st)"
      using \<open>p = n\<close> by (subst upload_loop.simps) simp
    ultimately show ?thesis by blast
  next
    case True
    define c where "c = (if p + bl \<le> n then bl else n - p)"
    have c: "1 \<le> c" "p + c \<le> n" "c \<le> bl" "p + c < n \<Longrightarrow> c = bl" using True less.prems(3) by (auto simp: c_def)
    have at: "Some (image_at img (base + p) c) = rret (take c (drop (base + p) img))" using c(2) assms(7) by (simp add: image_at_def rret_def)
    define d where "d = take c (drop (base + p) img)"
    have dl: "length d = c" using c(2) assms(7) by (simp add: d_def)
    from target_block [OF assms(1) less.prems(1,2), of d ctx] obtain st1 where
      b: "HpmfwupgUploadFirmwareBlock h (word_of_nat (hv_blocks v)) d ctx st = rret ((if c \<le> ht_limit T then HPMFWUPG_SUCCESS else HPMFWUPG_UPLOAD_BLOCK_LENGTH, 0, 0), st1)"
      "reached ok view st (if c \<le> ht_limit T then v\<lparr>hv_received := hv_received v @ d, hv_blocks := hv_blocks v + 1\<rparr> else v) st1" unfolding dl by blast
    note loop = upload_loop.simps [of h img base "word_of_nat n" ctx p n bl "is" "word_of_nat p" "word_of_nat (hv_blocks v)" st, folded c_def, unfolded Let_def at rbind_simps, folded d_def, unfolded b(1)]
    show ?thesis
    proof (cases "c \<le> ht_limit T")
      case fits: True
      define v1 where "v1 = v\<lparr>hv_received := hv_received v @ d, hv_blocks := hv_blocks v + 1\<rparr>"
      have v1: "reached ok view st v1 st1" using b(2) fits by (simp add: v1_def)
      have rcv: "hv_received v1 = take (p + c) (take n (drop base img))"
        using less.prems(5) c(2) by (simp add: v1_def d_def take_add [of p c] add.commute [of p base] min_def)
      have "n - (p + c) + bl < n - p + bl" using c(1,2) by simp
      from less.hyps [OF this, of st1 v1 True] v1 rcv c(2,4) fits less.prems(3)
      obtain st' b' where st': "upload_loop h img base (word_of_nat n) ctx (p + c) n bl True (word_of_nat (p + c)) (word_of_nat (hv_blocks v1)) st1 = rret ((HPMFWUPG_SUCCESS, word_of_nat n), st')"
        "reached ok view st1 (v1\<lparr>hv_received := take n (drop base img), hv_blocks := b'\<rparr>) st'" by (auto simp: reached_def)
      have "upload_loop h img base (word_of_nat n) ctx p n bl is (word_of_nat p) (word_of_nat (hv_blocks v)) st =
          upload_loop h img base (word_of_nat n) ctx (p + c) n bl True (word_of_nat (p + c)) (word_of_nat (hv_blocks v1)) st1"
        using fits True by (subst loop) (simp add: v1_def add.commute)
      with st' reached_trans [OF v1 st'(2)] show ?thesis by (auto simp: v1_def)
    next
      case big: False
      then have nis: "\<not> is" "1 < bl" using less.prems(6) True c(3) assms(4) by auto
      from shorter_block_le [OF nis(2)] obtain k where k: "shorter_block (is_lan h st1) bl = Some k" "k < bl" "1 \<le> k" by blast
      have same: "reached ok view st v st1" using b(2) big by simp
      have "n - p + k < n - p + bl" using k(2) by simp
      from less.hyps [OF this, of st1 v False] same k(3) less.prems(4,5)
      obtain st' b' where st': "upload_loop h img base (word_of_nat n) ctx p n k False (word_of_nat p) (word_of_nat (hv_blocks v)) st1 = rret ((HPMFWUPG_SUCCESS, word_of_nat n), st')"
        "reached ok view st1 (v\<lparr>hv_received := take n (drop base img), hv_blocks := b'\<rparr>) st'" by (auto simp: reached_def)
      have "upload_loop h img base (word_of_nat n) ctx p n bl is (word_of_nat p) (word_of_nat (hv_blocks v)) st =
          upload_loop h img base (word_of_nat n) ctx p n k False (word_of_nat p) (word_of_nat (hv_blocks v)) st1"
        using big True nis(1) k(1) by (subst loop) (simp add: HPMFWUPG_SUCCESS_def HPMFWUPG_UPLOAD_BLOCK_LENGTH_def)
      with st' reached_trans [OF same st'(2)] show ?thesis by auto
    qed
  qed
qed

lemma component_less: "component_of m < 8"
proof -
  have "drop_bit 8 m = 0" by (rule bit_eqI) (auto simp: bit_simps dest: bit_imp_le_length)
  have "length (takeWhile (\<lambda>k. drop_bit k m \<noteq> 0) [1..<9]) \<noteq> 8"
  proof
    assume "length (takeWhile (\<lambda>k. drop_bit k m \<noteq> 0) [1..<9]) = 8"
    then have "takeWhile (\<lambda>k. drop_bit k m \<noteq> 0) [1..<9] = [1..<9]"
      by (metis takeWhile_eq_take length_upt take_all diff_Suc_1 eval_nat_numeral(3) numeral_eq_Suc order_refl)
    then have "\<forall>k\<in>set [1..<9]. drop_bit k m \<noteq> 0" by (simp only: takeWhile_eq_all_conv)
    moreover have "8 \<in> set [1..<9::nat]" by simp
    ultimately have "drop_bit 8 m \<noteq> 0" by blast
    with \<open>drop_bit 8 m = 0\<close> show False by simp
  qed
  moreover have "length (takeWhile (\<lambda>k. drop_bit k m \<noteq> 0) [1..<9]) \<le> 8" using length_takeWhile_le [of _ "[1..<9::nat]"] by simp
  ultimately show ?thesis by (simp add: component_of_def)
qed

text \<open>The firmwares a controller has after a record, for the components that are to be updated.\<close>

fun install_record :: "byte \<Rightarrow> hpm_record \<Rightarrow> (nat \<Rightarrow> byte list option) \<Rightarrow> nat \<Rightarrow> byte list option" where
  "install_record cm (Upload m _ _ fw) inst = (if bit cm (component_of m) then inst(component_of m \<mapsto> fw) else inst)"
| "install_record cm _ inst = inst"

lemma upload_action_delivers:
  assumes "hpm_target_ok h T ok view maxrq" and "ok (hp_world st)" and "v = view (hp_world st)" and "1 \<le> ht_limit T" and "2 < unat maxrq"
    and "wf_record (Upload m ver desc fw)" and "length a = off" and "img = a @ record_bytes (Upload m ver desc fw) @ b" and "\<not> in_mode opt COMPARE_MODE"
  shows "\<exists>st' v' k. HpmFwupgActionUploadFirmware h m ctx img off opt st = rret ((HPMFWUPG_SUCCESS, off + length (record_bytes (Upload m ver desc fw)), ctx\<lparr>uc_componentId := k\<rparr>), st')
    \<and> reached ok view st v' st' \<and> hv_installed v' = install_record (uc_compUpdateMask ctx) (Upload m ver desc fw) (hv_installed v) \<and> hv_active v' = hv_active v"
proof -
  note u = upload_record [OF assms(6-8)]
  let ?k = "component_of m" and ?ctx = "ctx\<lparr>uc_componentId := component_of m\<rparr>" and ?base = "off + ACTION_RECORD_SIZE + FIRMWARE_IMAGE_SIZE"
  have rq: "unat (ipmi_intf_get_max_request_data_size (h_intf h (hp_world st))) = unat maxrq" using assms(1,2) by (simp add: hpm_target_ok_def)
  have off': "off + length (record_bytes (Upload m ver desc fw)) = ?base + length fw" using u(6) by simp
  note unf = HpmFwupgActionUploadFirmware_def [of h m ctx img off opt st, unfolded Let_def rq u(1) rbind_simps u(2)]
  show ?thesis
  proof (cases "bit (uc_compUpdateMask ctx) ?k")
    case False
    then have "HpmFwupgActionUploadFirmware h m ctx img off opt st = rret ((HPMFWUPG_SUCCESS, off + length (record_bytes (Upload m ver desc fw)), ?ctx), st)"
      using assms(5) by (simp only: unf off') simp
    with False assms(2,3) show ?thesis by (intro exI [of _ st] exI [of _ v] exI [of _ ?k]) (simp add: reached_def)
  next
    case True
    from target_commands(4) [OF assms(1-3), of m 2 ?ctx] obtain st1 where
      i: "HpmfwupgInitiateUpgradeAction h m 2 ?ctx st = rret (HPMFWUPG_SUCCESS, st1)" "reached ok view st (v\<lparr>hv_received := [], hv_blocks := 0\<rparr>) st1" by blast
    define v1 where "v1 = v\<lparr>hv_received := [], hv_blocks := 0\<rparr>"
    have r1: "ok (hp_world st1)" "v1 = view (hp_world st1)" using i(2) by (simp_all add: reached_def v1_def)
    have "length fw < 2 ^ 32" using assms(6) by simp
    have "1 \<le> unat maxrq - 2" using assms(5) by simp
    from upload_loop_delivers [OF assms(1) r1 assms(4) this \<open>length fw < 2 ^ 32\<close> u(4), of 0 False ?ctx]
    obtain st2 bk where l: "upload_loop h img ?base (word_of_nat (length fw)) ?ctx 0 (length fw) (unat maxrq - 2) False 0 0 st1 = rret ((HPMFWUPG_SUCCESS, word_of_nat (length fw)), st2)"
      "reached ok view st1 (v1\<lparr>hv_received := fw, hv_blocks := bk\<rparr>) st2" by (auto simp: v1_def u(5))
    have r2: "ok (hp_world st2)" "v1\<lparr>hv_received := fw, hv_blocks := bk\<rparr> = view (hp_world st2)" using l(2) by (simp_all add: reached_def)
    from target_commands(5) [OF assms(1) r2, of "word_of_nat ?k" ?ctx] component_less [of m]
    obtain st3 where f: "HpmfwupgFinishFirmwareUpload h (word_of_nat ?k) (word_of_nat (length fw)) ?ctx False st2 = rret (HPMFWUPG_SUCCESS, st3)"
      "reached ok view st2 (v1\<lparr>hv_received := fw, hv_blocks := bk, hv_installed := (hv_installed v)(?k \<mapsto> fw)\<rparr>) st3"
      by (auto simp: unat_of_nat v1_def)
    have "HpmFwupgActionUploadFirmware h m ctx img off opt st = rret ((HPMFWUPG_SUCCESS, off + length (record_bytes (Upload m ver desc fw)), ?ctx), st3)"
      using assms(5,9) True i(1) l(1) f(1) by (simp only: unf off') simp
    moreover have "reached ok view st (v1\<lparr>hv_received := fw, hv_blocks := bk, hv_installed := (hv_installed v)(?k \<mapsto> fw)\<rparr>) st3"
      by (rule reached_trans [OF i(2) reached_trans [OF l(2) f(2)]])
    ultimately show ?thesis using True
      by (intro exI [of _ st3] exI [of _ "v1\<lparr>hv_received := fw, hv_blocks := bk, hv_installed := (hv_installed v)(?k \<mapsto> fw)\<rparr>"] exI [of _ ?k]) (simp add: v1_def)
  qed
qed

lemma stage_record_delivers:
  assumes "hpm_target_ok h T ok view maxrq" and "ok (hp_world st)" and "v = view (hp_world st)" and "1 \<le> ht_limit T" and "2 < unat maxrq"
    and "wf_record r" and "length a = off" and "img = a @ record_bytes r @ b" and "\<not> in_mode opt COMPARE_MODE"
  shows "\<exists>st' v' k. stage_record h img opt off r ctx st = rret ((HPMFWUPG_SUCCESS, off + length (record_bytes r), ctx\<lparr>uc_componentId := k\<rparr>), st')
    \<and> reached ok view st v' st' \<and> hv_installed v' = install_record (uc_compUpdateMask ctx) r (hv_installed v) \<and> hv_active v' = hv_active v"
proof -
  have act: "\<exists>st' v'. component_action h m a ctx opt st = rret (HPMFWUPG_SUCCESS, st') \<and> reached ok view st v' st' \<and> hv_installed v' = hv_installed v \<and> hv_active v' = hv_active v" for m a
    using target_commands(4) [OF assms(1-3), of "uc_compUpdateMask ctx AND m" a ctx] assms(2,3)
    by (auto simp: component_action_def Let_def assms(9) reached_def)
  show ?thesis
  proof (cases r)
    case (Upload m ver desc fw)
    with upload_action_delivers [OF assms(1-5) _ assms(7) _ assms(9), of m ver desc fw img b ctx] assms(6,8) show ?thesis by (simp add: stage_record_def)
  next
    case (Backup m)
    from act [of m 0] obtain st' v' where "component_action h m 0 ctx opt st = rret (HPMFWUPG_SUCCESS, st')" "reached ok view st v' st'" "hv_installed v' = hv_installed v" "hv_active v' = hv_active v" by blast
    then show ?thesis using Backup
      by (intro exI [of _ st'] exI [of _ v'] exI [of _ "uc_componentId ctx"]) (simp add: stage_record_def ACTION_RECORD_SIZE_def action_bytes_def numeral_3_eq_3)
  next
    case (Prepare m)
    from act [of m 1] obtain st' v' where "component_action h m 1 ctx opt st = rret (HPMFWUPG_SUCCESS, st')" "reached ok view st v' st'" "hv_installed v' = hv_installed v" "hv_active v' = hv_active v" by blast
    then show ?thesis using Prepare
      by (intro exI [of _ st'] exI [of _ v'] exI [of _ "uc_componentId ctx"]) (simp add: stage_record_def ACTION_RECORD_SIZE_def action_bytes_def numeral_3_eq_3)
  qed
qed

lemma stage_loop_delivers:
  assumes "hpm_target_ok h T ok view maxrq" and "ok (hp_world st)" and "v = view (hp_world st)" and "1 \<le> ht_limit T" and "2 < unat maxrq"
    and "\<forall>r\<in>set rs. wf_record r" and "length a = off" and "img = a @ concat (map record_bytes rs) @ d" and "length d = 16" and "\<not> in_mode opt COMPARE_MODE"
  shows "\<exists>st' v' k. stage_loop h img opt off ctx st = rret ((HPMFWUPG_SUCCESS, ctx\<lparr>uc_componentId := k\<rparr>), st')
    \<and> reached ok view st v' st' \<and> hv_installed v' = fold (install_record (uc_compUpdateMask ctx)) rs (hv_installed v) \<and> hv_active v' = hv_active v"
  using assms(2,3,6-8)
proof (induction rs arbitrary: a off ctx st v)
  case Nil
  then have "length img \<le> off + HPMFWUPG_MD5_SIGNATURE_LENGTH" using at_end [of a off d "[]"] assms(9) by simp
  then have "stage_loop h img opt off ctx st = rret ((HPMFWUPG_SUCCESS, ctx\<lparr>uc_componentId := uc_componentId ctx\<rparr>), st)" by (subst stage_loop.simps) simp
  then show ?case using Nil.prems(1,2) by (intro exI [of _ st] exI [of _ v] exI [of _ "uc_componentId ctx"]) (simp add: reached_def)
next
  case (Cons r rs)
  have i: "img = a @ record_bytes r @ (concat (map record_bytes rs) @ d)" "wf_record r" using Cons.prems(3,5) by simp_all
  from stage_record_delivers [OF assms(1) Cons.prems(1,2) assms(4,5) i(2) Cons.prems(4) i(1) assms(10), of ctx]
  obtain st1 v1 k where s: "stage_record h img opt off r ctx st = rret ((HPMFWUPG_SUCCESS, off + length (record_bytes r), ctx\<lparr>uc_componentId := k\<rparr>), st1)"
    "reached ok view st v1 st1" "hv_installed v1 = install_record (uc_compUpdateMask ctx) r (hv_installed v)" "hv_active v1 = hv_active v" by blast
  have "ok (hp_world st1)" "v1 = view (hp_world st1)" using s(2) by (simp_all add: reached_def)
  from Cons.IH [OF this, of "a @ record_bytes r" "off + length (record_bytes r)" "ctx\<lparr>uc_componentId := k\<rparr>"] Cons.prems i
  obtain st' v' k' where l: "stage_loop h img opt (off + length (record_bytes r)) (ctx\<lparr>uc_componentId := k\<rparr>) st1 = rret ((HPMFWUPG_SUCCESS, ctx\<lparr>uc_componentId := k'\<rparr>), st')"
    "reached ok view st1 v' st'" "hv_installed v' = fold (install_record (uc_compUpdateMask ctx)) rs (hv_installed v1)" "hv_active v' = hv_active v1" by auto
  have "stage_loop h img opt off ctx st = rret ((HPMFWUPG_SUCCESS, ctx\<lparr>uc_componentId := k'\<rparr>), st')"
    using s(1) l(1) by (subst stage_step [OF Cons.prems(4,5) assms(9)]) simp
  with s l reached_trans [OF s(2) l(2)] show ?case by auto
qed

text \<open>The components the check selects: those asked for whose version in the image differs, or all in force mode.\<close>

fun select_record :: "u32 \<Rightarrow> byte \<Rightarrow> version_info list \<Rightarrow> hpm_record \<Rightarrow> byte \<Rightarrow> byte" where
  "select_record cm opt vs (Upload m ver _ _) acc =
     (if selected cm opt m ((vs ! component_of m)\<lparr>vi_image := ver\<rparr>) then acc OR push_bit (component_of m) 1 else acc)"
| "select_record cm opt vs _ acc = acc"

definition same_installed :: "version_info list \<Rightarrow> version_info list \<Rightarrow> bool" where
  "same_installed vs vs' \<longleftrightarrow> length vs' = length vs \<and> (\<forall>k < length vs. \<exists>i. vs' ! k = (vs ! k)\<lparr>vi_image := i\<rparr>)"

lemma image_unchanged: "\<exists>i. v = v\<lparr>vi_image := i\<rparr>" for v :: version_info
  by (rule exI [of _ "vi_image v"]) simp

lemma same_installed_refl: "same_installed vs vs"
  using image_unchanged by (auto simp: same_installed_def)

lemma same_installed_trans:
  assumes "same_installed a b" and "same_installed b c"
  shows "same_installed a c"
  unfolding same_installed_def
proof (intro conjI allI impI)
  fix k
  assume "k < length a"
  with assms obtain i j where "b ! k = (a ! k)\<lparr>vi_image := i\<rparr>" "c ! k = (b ! k)\<lparr>vi_image := j\<rparr>" unfolding same_installed_def by metis
  then show "\<exists>i. c ! k = (a ! k)\<lparr>vi_image := i\<rparr>" by auto
qed (use assms in \<open>simp add: same_installed_def\<close>)

lemma check_record_selects:
  assumes "length (hp_versions st) = 8"
  shows "\<exists>st'. check_record cm opt r ctx st = (ctx\<lparr>uc_compUpdateMask := select_record cm opt (hp_versions st) r (uc_compUpdateMask ctx)\<rparr>, st')
    \<and> hp_world st' = hp_world st \<and> same_installed (hp_versions st) (hp_versions st')"
proof (cases r)
  case (Upload m ver desc fw)
  have k: "component_of m < length (hp_versions st)" using component_less [of m] assms by simp
  let ?st = "upd_version (component_of m) (\<lambda>v. v\<lparr>vi_image := ver\<rparr>) st"
  have "same_installed (hp_versions st) (hp_versions ?st)"
    using same_installed_refl [of "hp_versions st"] k by (auto simp: same_installed_def upd_version_def nth_list_update)
  moreover have "hp_versions ?st ! component_of m = (hp_versions st ! component_of m)\<lparr>vi_image := ver\<rparr>" "hp_world ?st = hp_world st"
    using k by (simp_all add: upd_version_def)
  ultimately show ?thesis using Upload by (simp add: check_record_def check_upload_def Let_def)
qed (simp_all add: check_record_def same_installed_refl)

lemma select_record_same:
  assumes "same_installed vs vs'" and "length vs = 8"
  shows "select_record cm opt vs' r acc = select_record cm opt vs r acc"
proof (cases r)
  case (Upload m ver desc fw)
  from assms component_less [of m] obtain i where "vs' ! component_of m = (vs ! component_of m)\<lparr>vi_image := i\<rparr>" unfolding same_installed_def by metis
  then show ?thesis using Upload by simp
qed simp_all

lemma record_allowed_upd [simp]:
  "record_allowed (ctx\<lparr>uc_compUpdateMask := m\<rparr>) r = record_allowed ctx r" "record_allowed (ctx\<lparr>uc_pImageData := i\<rparr>) r = record_allowed ctx r"
  by (cases r; simp add: record_allowed_def)+

lemma precheck_selects:
  assumes "\<forall>r\<in>set rs. wf_record r \<and> record_allowed ctx r" and "length a = off" and "img = a @ concat (map record_bytes rs) @ d" and "length d = 16"
    and "length (hp_versions st) = 8" and "ctx' = ctx\<lparr>uc_compUpdateMask := m\<rparr>"
  shows "\<exists>st'. (precheck_loop img cm opt off ctx' st :: 'e hpm_error + _) =
      Inr ((HPMFWUPG_SUCCESS, ctx\<lparr>uc_compUpdateMask := fold (select_record cm opt (hp_versions st)) rs m\<rparr>), st')
    \<and> hp_world st' = hp_world st \<and> same_installed (hp_versions st) (hp_versions st')"
  using assms
proof (induction rs arbitrary: a off ctx' m st)
  case Nil
  then have "length img \<le> off + HPMFWUPG_MD5_SIGNATURE_LENGTH" using at_end [of a off d "[]"] by simp
  then show ?case using Nil.prems(6) by (subst precheck_loop.simps) (simp add: same_installed_refl)
next
  case (Cons r rs)
  from check_record_selects [OF Cons.prems(5), of cm opt r ctx'] Cons.prems(6) obtain st1 where
    c: "check_record cm opt r ctx' st = (ctx\<lparr>uc_compUpdateMask := select_record cm opt (hp_versions st) r m\<rparr>, st1)"
    "hp_world st1 = hp_world st" "same_installed (hp_versions st) (hp_versions st1)" by auto
  have l: "length (hp_versions st1) = 8" using c(3) Cons.prems(5) by (simp add: same_installed_def)
  have "fold (select_record cm opt (hp_versions st1)) rs n = fold (select_record cm opt (hp_versions st)) rs n" for n
    by (rule fold_cong) (auto simp: fun_eq_iff select_record_same [OF c(3) Cons.prems(5)])
  with Cons.IH [of "a @ record_bytes r" "off + length (record_bytes r)" st1 "ctx\<lparr>uc_compUpdateMask := select_record cm opt (hp_versions st) r m\<rparr>" "select_record cm opt (hp_versions st) r m"]
    Cons.prems(1-4) l
  obtain st' where st': "(precheck_loop img cm opt (off + length (record_bytes r)) (ctx\<lparr>uc_compUpdateMask := select_record cm opt (hp_versions st) r m\<rparr>) st1 :: 'e hpm_error + _) =
      Inr ((HPMFWUPG_SUCCESS, ctx\<lparr>uc_compUpdateMask := fold (select_record cm opt (hp_versions st)) (r # rs) m\<rparr>), st')"
    "hp_world st' = hp_world st1" "same_installed (hp_versions st1) (hp_versions st')" by auto
  have al: "record_allowed ctx' r" "wf_record r" using Cons.prems(1) unfolding Cons.prems(6) by simp_all
  have "(precheck_loop img cm opt off ctx' st :: 'e hpm_error + _) =
      Inr ((HPMFWUPG_SUCCESS, ctx\<lparr>uc_compUpdateMask := fold (select_record cm opt (hp_versions st)) (r # rs) m\<rparr>), st')"
    using al c(1) st'(1) by (subst precheck_step [OF al(2) Cons.prems(2-4)]) simp
  moreover have "hp_world st' = hp_world st" using st'(2) c(2) by simp
  moreover have "same_installed (hp_versions st) (hp_versions st')" by (rule same_installed_trans [OF c(3) st'(3)])
  ultimately show ?case by (intro exI conjI)
qed

text \<open>The context after the preparation stage.\<close>

definition prepared_ctx :: "hpm_target \<Rightarrow> image_header \<Rightarrow> byte list \<Rightarrow> upgrade_ctx" where
  "prepared_ctx T hdr img = fresh_ctx\<lparr>uc_pImageData := Some img, uc_devId := devid_of (rsp_of 0 (ht_devid T)),
     uc_targetCap := target_cap_of (rsp_of 0 (ht_caps T)), uc_genCompProp := map (\<lambda>k. if bit (ih_components hdr) k then ht_props T k else 0) [0..<8]\<rparr>"

text \<open>
  The image suits the controller: same identification, a firmware it may start from, components it has, no
  question to the user, and the records ask only for what the components support.
\<close>

definition hpm_suits :: "hpm_target \<Rightarrow> byte list \<Rightarrow> hpm_record list \<Rightarrow> bool" where
  "hpm_suits T hdr recs \<longleftrightarrow>
     (let ih = header_of hdr; dev = devid_of (rsp_of 0 (ht_devid T)); cap = target_cap_of (rsp_of 0 (ht_caps T))
      in ids_match ih dev \<and> revision_compatible ih dev \<and> ih_components ih AND tc_componentsPresent cap = ih_components ih
         \<and> \<not> bit (tc_GlobalCapabilities cap) 7 \<and> \<not> bit (tc_GlobalCapabilities cap) 3 \<and> \<not> bit (ih_imageCapabilities ih) 4
         \<and> list_all (\<lambda>r. wf_record r \<and> record_allowed (prepared_ctx T ih []) r) recs)"

lemma general_properties_target:
  assumes "hpm_target_ok h T ok view maxrq" and "ok (hp_world st)" and "v = view (hp_world st)" and "list_all (\<lambda>k. k < 8) ks"
  shows "\<exists>st'. general_properties h comps ks HPMFWUPG_SUCCESS props st =
      rret ((HPMFWUPG_SUCCESS, fold (\<lambda>k p. p[k := if bit comps k then ht_props T k else 0]) ks props), st') \<and> reached ok view st v st'"
  using assms(2-4)
proof (induction ks arbitrary: props st)
  case Nil
  then show ?case by (auto simp: reached_def)
next
  case (Cons k ks)
  from target_commands(3) [OF assms(1) Cons.prems(1,2), of "word_of_nat k"] Cons.prems(3) obtain st1 where
    p: "HpmfwupgGetComponentProperties h (word_of_nat k) 0 st = rret (Some [0, ht_props T k], st1)" "reached ok view st v st1" by (auto simp: unat_of_nat)
  have r: "ok (hp_world st1)" "v = view (hp_world st1)" using p(2) by (simp_all add: reached_def)
  show ?case
    using Cons.IH [OF r, of "props[k := ht_props T k]"] Cons.IH [OF Cons.prems(1,2), of "props[k := 0]"] Cons.prems(3) p reached_trans [OF p(2)]
    by (cases "bit comps k") auto
qed

lemma properties_list:
  "fold (\<lambda>k p. p[k := if bit comps k then f k else 0]) [0..<8] (replicate 8 0) = map (\<lambda>k. if bit comps k then f k else 0) [0..<8]" for f :: "nat \<Rightarrow> byte"
  by (simp add: upt_rec numeral_eq_Suc)

lemma preparation_target:
  assumes "hpm_target_ok h T ok view maxrq" and "ok (hp_world st)" and "v = view (hp_world st)"
    and "hpm_suits T hdr recs" and "IMAGE_HEADER_SIZE \<le> length img" and "header_of img = header_of hdr" and "\<not> in_mode opt VIEW_MODE"
  shows "\<exists>st'. HpmfwupgPreparationStage h (fresh_ctx\<lparr>uc_pImageData := Some img\<rparr>) opt st = rret ((HPMFWUPG_SUCCESS, prepared_ctx T (header_of hdr) img), st')
    \<and> reached ok view st v st'"
proof -
  let ?dev = "devid_of (rsp_of 0 (ht_devid T))" and ?cap = "target_cap_of (rsp_of 0 (ht_caps T))" and ?ih = "header_of hdr"
  have s: "ids_match ?ih ?dev" "revision_compatible ?ih ?dev" "ih_components ?ih AND tc_componentsPresent ?cap = ih_components ?ih"
    "\<not> bit (tc_GlobalCapabilities ?cap) 7" "\<not> bit (tc_GlobalCapabilities ?cap) 3" "\<not> bit (ih_imageCapabilities ?ih) 4"
    using assms(4) by (simp_all add: hpm_suits_def Let_def)
  from target_commands(1) [OF assms(1-3)] obtain st1 where d: "HpmfwupgGetDeviceId h st = rret (Some ?dev, st1)" "reached ok view st v st1" by blast
  have r1: "ok (hp_world st1)" "v = view (hp_world st1)" using d(2) by (simp_all add: reached_def)
  from target_commands(2) [OF assms(1) r1] obtain st2 where c: "HpmfwupgGetTargetUpgCapabilities h st1 = rret (Some ?cap, st2)" "reached ok view st1 v st2" by blast
  have r2: "ok (hp_world st2)" "v = view (hp_world st2)" using c(2) by (simp_all add: reached_def)
  have "list_all (\<lambda>k. k < 8) [0..<8]" by (simp add: list_all_iff)
  from general_properties_target [OF assms(1) r2 this, of "ih_components ?ih" "replicate 8 0", unfolded properties_list]
  obtain st3 where g: "general_properties h (ih_components ?ih) [0..<8] HPMFWUPG_SUCCESS (replicate 8 0) st2 =
      rret ((HPMFWUPG_SUCCESS, map (\<lambda>k. if bit (ih_components ?ih) k then ht_props T k else 0) [0..<8]), st3)" "reached ok view st2 v st3" by blast
  have f: "uc_genCompProp (fresh_ctx\<lparr>uc_pImageData := Some img, uc_devId := ?dev, uc_targetCap := ?cap\<rparr>) = replicate 8 0" by (simp add: fresh_ctx_def)
  have u: "unless_confirmed h True opt x = (True, x)" for x by (simp add: unless_confirmed_def)
  have sv: "services_confirmed h opt ?ih ?cap x = (True, x)" for x using s assms(7) by (simp add: services_confirmed_def)
  have i: "image_header_of (fresh_ctx\<lparr>uc_pImageData := Some img, uc_devId := ?dev\<rparr>) = rret (img, ?ih)" using assms(5,6) by (simp add: image_header_of_def)
  have "HpmfwupgPreparationStage h (fresh_ctx\<lparr>uc_pImageData := Some img\<rparr>) opt st = rret ((HPMFWUPG_SUCCESS, prepared_ctx T ?ih img), st3)"
    by (simp only: HpmfwupgPreparationStage_def Let_def d(1) rbind_simps prod.case option.case i s(1,2) u c(1) sv f g(1) not_True_eq_False if_False prepared_ctx_def)
  with reached_trans [OF d(2) reached_trans [OF c(2) g(2)]] show ?thesis by blast
qed

lemma activation_target:
  assumes "hpm_target_ok h T ok view maxrq" and "ok (hp_world st)" and "v = view (hp_world st)" and "uc_pImageData ctx = Some img" and "IMAGE_HEADER_SIZE \<le> length img"
  shows "\<exists>st'. HpmfwupgActivationStage h ctx st = rret (HPMFWUPG_SUCCESS, st') \<and> reached ok view st (v\<lparr>hv_active := True\<rparr>) st'"
proof -
  from target_commands(6) [OF assms(1-3), of "Some ctx"] obtain st1 where
    a: "HpmfwupgActivateFirmware h 0 (Some ctx) st = rret (HPMFWUPG_SUCCESS, st1)" "reached ok view st (v\<lparr>hv_active := True\<rparr>) st1" by blast
  have r1: "ok (hp_world st1)" "view (hp_world st1) = v\<lparr>hv_active := True\<rparr>" using a(2) by (simp_all add: reached_def)
  from target_time [OF assms(1) r1(1)] obtain t1 st2 where t1: "htime h st1 = (t1, st2)" "ok (hp_world st2)" "view (hp_world st2) = view (hp_world st1)" "hp_versions st2 = hp_versions st1" by blast
  from target_time [OF assms(1) t1(2)] obtain t2 st3 where t2: "htime h st2 = (t2, st3)" "ok (hp_world st3)" "view (hp_world st3) = view (hp_world st2)" "hp_versions st3 = hp_versions st2" by blast
  have "\<exists>st4. HpmfwupgSendCmd h (mk_rq 0x2C 0x36 [0]) (Some ctx) st3 = rret (Some (rsp_of 0 [0, 0x55, 0]), st4) \<and> reached ok view st3 (view (hp_world st3)) st4"
    by (rule target_query [OF assms(1) t2(2)]) (auto dest: answers_dest)
  then obtain st4 where q: "HpmfwupgSendCmd h (mk_rq 0x2C 0x36 [0]) (Some ctx) st3 = rret (Some (rsp_of 0 [0, 0x55, 0]), st4)" "reached ok view st3 (view (hp_world st3)) st4" by blast
  have r4: "ok (hp_world st4)" using q(2) by (simp add: reached_def)
  from target_time [OF assms(1) r4] obtain t5 st5 where t5: "htime h st4 = (t5, st5)" "ok (hp_world st5)" "view (hp_world st5) = view (hp_world st4)" "hp_versions st5 = hp_versions st4" by blast
  have p: "poll_status_loop h 0x36 (\<lambda>cc. cc = 0x80) (Some ctx) tmo t1 st3 = rret (Some (rsp_of 0 [0, 0x55, 0]), st5)" for tmo
    using q(1) t5(1) by (subst poll_status_loop.simps) (simp add: HPM_ask_def HPMFWUPG_IS_RETRYABLE_def)
  have tm: "Some (selftest_timeout (Some ctx)) = rret (max (img ! 21) (tc_selftestTimeout (uc_targetCap ctx)) * 5)"
    using assms(4,5) by (simp add: selftest_timeout_def IMAGE_HEADER_SIZE_def rret_def)
  have sf: "HpmfwupgQuerySelftestResult h (Some ctx) st1 = rret (Some (0x55, 0), st5)"
    by (simp only: HpmfwupgQuerySelftestResult_def tm rbind_simps t1(1) t2(1) prod.case p) (simp add: rsp_byte_def)
  have i: "image_header_of ctx = rret (img, header_of img)" using assms(4,5) by (simp add: image_header_of_def)
  let ?test = "bit (tc_GlobalCapabilities (uc_targetCap ctx)) 0 \<or> bit (ih_imageCapabilities (header_of img)) 7"
  have "HpmfwupgActivationStage h ctx st = rret (HPMFWUPG_SUCCESS, if ?test then st5 else st1)"
    by (simp only: HpmfwupgActivationStage_def activate_and_test_def i rbind_simps prod.case a(1) sf) (simp add: HPMFWUPG_SUCCESS_def HPMFWUPG_ERROR_def)
  moreover have "reached ok view st (v\<lparr>hv_active := True\<rparr>) (if ?test then st5 else st1)" using a(2) q(2) t1 t2 t5 r1 by (simp add: reached_def)
  ultimately show ?thesis by blast
qed

lemma prepared_allowed: "record_allowed (prepared_ctx T ih img) r = record_allowed (prepared_ctx T ih []) r"
proof -
  have "prepared_ctx T ih img = (prepared_ctx T ih [])\<lparr>uc_pImageData := Some img\<rparr>" by (simp add: prepared_ctx_def)
  then show ?thesis by simp
qed

lemma upgrade_installs:
  fixes h :: "('e, 'w) hpm_host"
  assumes "hpm_target_ok h T ok view maxrq" and "ok (hp_world st)" and "1 \<le> ht_limit T" and "2 < unat maxrq"
    and "wf_header hdr oem" and "hpm_suits T hdr recs" and "h_file h (hp_world st) name = Some (hpm_image hdr oem recs)"
    and "\<not> in_mode opt VIEW_MODE" and "\<not> in_mode opt COMPARE_MODE" and "length (hp_versions st) = 8"
    and "cm = fold (select_record componentMask opt (hp_versions st)) recs 0"
  shows "\<exists>st'. HpmfwupgUpgrade h (Some name) activate componentMask opt st = Some (Inr (HPMFWUPG_SUCCESS, st'))
    \<and> hv_installed (view (hp_world st')) = fold (install_record cm) recs (hv_installed (view (hp_world st)))
    \<and> hv_active (view (hp_world st')) = (hv_active (view (hp_world st)) \<or> activate \<and> cm \<noteq> 0)"
proof -
  define img where "img = hpm_image hdr oem recs"
  define v where "v = view (hp_world st)"
  note i = image_facts [OF assms(5) img_def]
  let ?ctx = "prepared_ctx T (header_of hdr) img"
  have len: "length (image_front hdr oem) = length (image_front hdr oem)" "length (rfc_md5 (image_body hdr oem recs)) = 16" by simp_all
  from preparation_target [OF assms(1,2) v_def assms(6) i(3,5) assms(8)] obtain st1 where
    p: "HpmfwupgPreparationStage h (fresh_ctx\<lparr>uc_pImageData := Some img\<rparr>) opt st = rret ((HPMFWUPG_SUCCESS, ?ctx), st1)" "reached ok view st v st1" by blast
  have vs: "hp_versions st1 = hp_versions st" "length (hp_versions st1) = 8" using p(2) assms(10) by (simp_all add: reached_def)
  have recs: "\<forall>r\<in>set recs. wf_record r \<and> record_allowed ?ctx r" "\<forall>r\<in>set recs. wf_record r"
    using assms(6) by (auto simp: hpm_suits_def Let_def list_all_iff prepared_allowed [of T _ img])
  have hd: "image_header_of (?ctx\<lparr>uc_compUpdateMask := m\<rparr>) = rret (img, header_of img)" for m using i(3) by (simp add: image_header_of_def prepared_ctx_def)
  have "?ctx = ?ctx\<lparr>uc_compUpdateMask := 0\<rparr>" by (simp add: prepared_ctx_def fresh_ctx_def)
  from precheck_selects [OF recs(1) len(1) i(2) len(2) vs(2) this, of componentMask opt, unfolded vs(1), folded assms(11)] obtain st2 where
    c: "(precheck_loop img componentMask opt (length (image_front hdr oem)) ?ctx st1 :: 'e hpm_error + _) = Inr ((HPMFWUPG_SUCCESS, ?ctx\<lparr>uc_compUpdateMask := cm\<rparr>), st2)"
    "hp_world st2 = hp_world st1" by blast
  have pc: "(HpmfwupgPreUpgradeCheck componentMask opt ?ctx st1 :: ('e, _) hpm) = rret ((HPMFWUPG_SUCCESS, ?ctx\<lparr>uc_compUpdateMask := cm\<rparr>), st2)"
    using c(1) i(1) by (simp add: HpmfwupgPreUpgradeCheck_def hd [of "uc_compUpdateMask ?ctx", simplified] rret_def [of "((HPMFWUPG_SUCCESS, _), _)"])
  have r2: "ok (hp_world st2)" "v = view (hp_world st2)" using p(2) c(2) by (simp_all add: reached_def)
  from stage_loop_delivers [OF assms(1) r2 assms(3,4) recs(2) len(1) i(2) len(2) assms(9), of "?ctx\<lparr>uc_compUpdateMask := cm\<rparr>"] obtain st3 v3 k where
    s: "stage_loop h img opt (length (image_front hdr oem)) (?ctx\<lparr>uc_compUpdateMask := cm\<rparr>) st2 = rret ((HPMFWUPG_SUCCESS, ?ctx\<lparr>uc_compUpdateMask := cm, uc_componentId := k\<rparr>), st3)"
    "reached ok view st2 v3 st3" "hv_installed v3 = fold (install_record cm) recs (hv_installed v)" "hv_active v3 = hv_active v" by auto
  have us: "HpmfwupgUpgradeStage h (?ctx\<lparr>uc_compUpdateMask := cm\<rparr>) opt st2 = rret ((HPMFWUPG_SUCCESS, ?ctx\<lparr>uc_compUpdateMask := cm, uc_componentId := k\<rparr>), st3)"
    using s(1) i(1) by (simp add: HpmfwupgUpgradeStage_def hd)
  have r3: "ok (hp_world st3)" "v3 = view (hp_world st3)" using s(2) by (simp_all add: reached_def)
  from activation_target [OF assms(1) r3 _ i(3), of "?ctx\<lparr>uc_compUpdateMask := cm, uc_componentId := k\<rparr>"] obtain st4 where
    a: "HpmfwupgActivationStage h (?ctx\<lparr>uc_compUpdateMask := cm, uc_componentId := k\<rparr>) st3 = rret (HPMFWUPG_SUCCESS, st4)" "reached ok view st3 (v3\<lparr>hv_active := True\<rparr>) st4"
    by (auto simp: prepared_ctx_def)
  have "HpmfwupgUpgrade h (Some name) activate componentMask opt st = rret (HPMFWUPG_SUCCESS, if activate \<and> cm \<noteq> 0 then st4 else st3)"
    unfolding upgrade_unfold [OF assms(5,7), folded img_def] by (simp add: p(1) pc us a(1) assms(8))
  moreover have "hv_installed (view (hp_world st4)) = hv_installed v3" "hv_active (view (hp_world st4))" using a(2) by (simp_all add: reached_def)
  ultimately show ?thesis using s(3,4) r3(2) by (intro exI [of _ "if activate \<and> cm \<noteq> 0 then st4 else st3"]) (auto simp: rret_def v_def)
qed

text \<open>
  A busy controller is waited for without end: as the counter adds the difference of two looks at
  the clock that follow each other, it stays at zero when both fall into one second.
\<close>

lemma busy_never_ends:
  assumes "\<And>w. h_time h w = (clock w, w)" and "\<And>w. \<exists>w'. h_sendrecv h req w = Inr (Some (rsp_of 0xC0 d), w')" and "0 < upgrade"
  shows "send_cmd_loop h inaccess upgrade req c1 0 t st = None"
proof (rule ccontr)
  assume "send_cmd_loop h inaccess upgrade req c1 0 t st \<noteq> None"
  then obtain y where "send_cmd_loop h inaccess upgrade req c1 0 t st = Some y" by blast
  moreover have "a = h \<and> up = upgrade \<and> rq = req \<and> c2 = 0 \<longrightarrow> False" if "send_cmd_loop a ia up rq c1 c2 t st = Some y" for a ia up rq c1 c2 t st y
    using that
  proof (induction a ia up rq c1 c2 t st y rule: send_cmd_loop.raw_induct [rotated, consumes 1, case_names step])
    case (step loop a ia up rq c1 c2 t st y)
    show ?case
    proof
      assume eq: "a = h \<and> up = upgrade \<and> rq = req \<and> c2 = 0"
      obtain w' where w': "h_sendrecv h req (hp_world st) = Inr (Some (rsp_of 0xC0 d), w')" using assms(2) by blast
      have "\<exists>t' st'. loop h ia upgrade req c1 0 t' st' = Some y"
        using step(2) eq assms(1,3) w' by (auto simp: hsend_def made_up_response_def htime_def Let_def split: if_splits)
      then show False using step(1) by blast
    qed
  qed
  ultimately show False by blast
qed

section \<open>Properties of the upgrade\<close>

text \<open>A controller as a function, and a host with it, for examples.\<close>

definition target_device :: "hpm_target \<Rightarrow> (unit, hpm_view) sendrecv" where
  "target_device T req v =
     (let c = rq_cmd req; d = rq_data req; yes = (\<lambda>bs v'. Inr (Some (rsp_of 0 bs), v'))
      in if rq_netfn req = 0x06 then yes (ht_devid T) v
         else if c = 0x2E then yes (ht_caps T) v
         else if c = 0x2F then yes [0, ht_props T (unat (d ! 1))] v
         else if c = 0x31 then yes [0] (v\<lparr>hv_received := [], hv_blocks := 0\<rparr>)
         else if c = 0x32 then
           if length (drop 2 d) \<le> ht_limit T then yes [0] (v\<lparr>hv_received := hv_received v @ drop 2 d, hv_blocks := hv_blocks v + 1\<rparr>)
           else Inr (Some (rsp_of 0xC7 [0]), v)
         else if c = 0x33 then yes [0] (v\<lparr>hv_installed := (hv_installed v)(unat (d ! 1) \<mapsto> hv_received v)\<rparr>)
         else if c = 0x35 then yes [0] (v\<lparr>hv_active := True\<rparr>)
         else yes [0, 0x55, 0] v)"

lemma target_device_answers: "\<exists>r v'. target_device T req v = Inr (Some r, v') \<and> hpm_answers T req v r v'"
proof -
  have "\<exists>r v'. target_device T req v = Inr (Some r, v')" by (simp add: target_device_def Let_def)
  then obtain r v' where t: "target_device T req v = Inr (Some r, v')" by blast
  have "hpm_answers T req v r v'"
    unfolding hpm_answers_def by (intro conjI allI impI; use t in \<open>simp add: target_device_def mk_rq_def Let_def split: if_splits\<close>)
  with t show ?thesis by blast
qed

definition device_host :: "hpm_target \<Rightarrow> ipmi_intf \<Rightarrow> byte list \<Rightarrow> (unit, hpm_view) hpm_host" where
  "device_host T intf img = \<lparr>h_sendrecv = target_device T, h_abort_close = \<lambda>w. Inr ((), w), h_open = \<lambda>w. Inr (0, w), h_intf = \<lambda>_. intf,
     h_time = \<lambda>w. (0, w), h_input = \<lambda>w. (False, w), h_file = \<lambda>_ _. Some img\<rparr>"

lemma device_host_ok: "hpm_target_ok (device_host T intf img) T (\<lambda>_. True) (\<lambda>w. w) (ipmi_intf_get_max_request_data_size intf)"
  using target_device_answers by (auto simp: hpm_target_ok_def device_host_def)

definition sample_target :: hpm_target where
  "sample_target = \<lparr>ht_devid = [0x11, 0, 2, 0, 0x51, 0, 0x34, 0x12, 0, 1, 0, 0, 0, 0, 0], ht_caps = [0, 0, 0x01, 1, 1, 1, 1, 0x03],
     ht_props = \<lambda>_. 0x05, ht_limit = 3\<rparr>"

definition sample_header :: "byte list" where
  "sample_header = map of_char ''PICMGFWU'' @ [0, 0x11, 0x34, 0x12, 0, 1, 0, 0, 0, 0, 0, 0, 0x03, 1, 1, 1, 1, 0, 2, 0, 0, 0, 0, 0, 2, 0]"

definition sample_records :: "hpm_record list" where
  "sample_records = [Backup 3, Prepare 1, Upload 1 [2, 0, 0, 0, 0, 0] (replicate 21 0x41) [10, 20, 30, 40, 50, 60, 70], Upload 2 [0, 0, 0, 0, 0, 0] (replicate 21 0x42) [1, 2]]"

definition sample_hpm :: "hpm_view hpm_state" where
  "sample_hpm = \<lparr>hp_world = \<lparr>hv_received = [], hv_blocks = 0, hv_installed = \<lambda>_. None, hv_active = False\<rparr>, hp_errorCount = 0, hp_isValidSize = False,
     hp_resizeCount = 0, hp_versions = replicate 8 version_zero\<rparr>"

lemma sample_hpm_hyps:
  "wf_header sample_header [7, 8]" "hpm_suits sample_target sample_header sample_records" "\<forall>r\<in>set sample_records. wf_record r"
  "fold (select_record 0 0 (hp_versions sample_hpm)) sample_records 0 = 1"
proof -
  show "wf_header sample_header [7, 8]" by (simp add: wf_header_def sample_header_def HPMFWUPG_IMAGE_SIGNATURE_def)
  show "hpm_suits sample_target sample_header sample_records"
    by (simp add: hpm_suits_def Let_def ids_match_def revision_compatible_def header_of_def devid_of_def target_cap_of_def rsp_byte_def rsp_bytes_def upt_rec
      sample_target_def sample_header_def sample_records_def record_allowed_def prepared_ctx_def)
  show "\<forall>r\<in>set sample_records. wf_record r" by (simp add: sample_records_def)
  show "fold (select_record 0 0 (hp_versions sample_hpm)) sample_records 0 = 1"
    by (simp add: sample_records_def sample_hpm_def component_of_def upt_rec selected_def in_mode_def image_version_upgradable_def version_zero_def) (simp add: eval_nat_numeral)
qed

text \<open>
  C7: An upgrade from an image of the specification that suits the controller, against a controller that follows the
  specification (it may refuse blocks as too long as long as it takes some), returns success; afterwards
  exactly the components selected (those asked for that need it, or all asked for in force mode) have the firmware of
  the image, byte for byte, and nothing else is changed; the firmware is activated when asked for and something
  was uploaded.
\<close>

theorem hpm_upgrade_installs:
  assumes "hpm_target_ok h T ok view maxrq" and "ok (hp_world st)" and "1 \<le> ht_limit T" and "2 < unat maxrq"
    and "wf_header hdr oem" and "hpm_suits T hdr recs" and "h_file h (hp_world st) name = Some (hpm_image hdr oem recs)"
    and "\<not> in_mode opt VIEW_MODE" and "\<not> in_mode opt COMPARE_MODE" and "length (hp_versions st) = 8"
    and "cm = fold (select_record componentMask opt (hp_versions st)) recs 0"
  shows "\<exists>st'. HpmfwupgUpgrade h (Some name) activate componentMask opt st = Some (Inr (HPMFWUPG_SUCCESS, st'))
    \<and> hv_installed (view (hp_world st')) = fold (install_record cm) recs (hv_installed (view (hp_world st)))
    \<and> hv_active (view (hp_world st')) = (hv_active (view (hp_world st)) \<or> activate \<and> cm \<noteq> 0)"
  by (rule upgrade_installs [OF assms])

theorem hpm_upgrade_installs_witness:
  "\<exists>st'. HpmfwupgUpgrade (device_host sample_target sample_intf (hpm_image sample_header [7, 8] sample_records)) (Some ''fw.hpm'') True 0 0 sample_hpm
      = Some (Inr (HPMFWUPG_SUCCESS, st'))
    \<and> hv_installed (hp_world st') 0 = Some [10, 20, 30, 40, 50, 60, 70] \<and> hv_installed (hp_world st') 1 = None \<and> hv_active (hp_world st')"
proof -
  have rq: "2 < unat (ipmi_intf_get_max_request_data_size sample_intf)" and lim: "1 \<le> ht_limit sample_target"
    by (simp_all add: ipmi_intf_get_max_request_data_size_def max_data_size_def ipmi_intf_get_bridging_level_def sample_intf_def sample_target_def IPMI_DEFAULT_PAYLOAD_SIZE_def Let_def)
  have md: "\<not> in_mode 0 VIEW_MODE" "\<not> in_mode 0 COMPARE_MODE" by (simp_all add: in_mode_def)
  have vs: "length (hp_versions sample_hpm) = 8" by (simp add: sample_hpm_def)
  have f: "h_file (device_host sample_target sample_intf (hpm_image sample_header [7, 8] sample_records)) (hp_world sample_hpm) ''fw.hpm''
      = Some (hpm_image sample_header [7, 8] sample_records)" by (simp add: device_host_def)
  have inst: "fold (install_record 1) sample_records (hv_installed (hp_world sample_hpm)) = [0 \<mapsto> [10, 20, 30, 40, 50, 60, 70]]"
    by (simp add: sample_records_def sample_hpm_def component_of_def upt_rec)
  from hpm_upgrade_installs [OF device_host_ok TrueI lim rq sample_hpm_hyps(1,2) f md vs sample_hpm_hyps(4) [symmetric], of True] inst
  show ?thesis by auto
qed

text \<open>
  C8: For an image built by the specification (header with its checksum, action records with theirs,
  MD5 digest) the upgrade reads only inside the image, whatever mode is chosen, whatever the controller
  answers, including the sections it asks for next, and whatever the clock and the user do: if it
  ends with an error, the error is one of the transport.
\<close>

theorem hpm_upgrade_in_bounds:
  assumes "wf_header hdr oem" and "\<forall>r\<in>set recs. wf_record r" and "h_file h (hp_world st) name = Some (hpm_image hdr oem recs)"
    and "HpmfwupgUpgrade h (Some name) activate componentMask opt st = Some (Inl e)"
  shows "\<exists>x. e = Hpm_transport x"
  using upgrade_safe [OF assms(1-3)] assms(4) by (simp add: hpm_safe_def)

text \<open>A host whose transport fails.\<close>

definition broken_host :: "byte list \<Rightarrow> (unit, unit) hpm_host" where
  "broken_host img = \<lparr>h_sendrecv = \<lambda>_ _. Inl (), h_abort_close = \<lambda>_. Inl (), h_open = \<lambda>_. Inl (), h_intf = \<lambda>_. sample_intf, h_time = \<lambda>w. (0, w),
     h_input = \<lambda>w. (True, w), h_file = \<lambda>_ _. Some img\<rparr>"

definition broken_start :: "unit hpm_state" where
  "broken_start = \<lparr>hp_world = (), hp_errorCount = 0, hp_isValidSize = False, hp_resizeCount = 0, hp_versions = replicate 8 version_zero\<rparr>"

theorem hpm_upgrade_in_bounds_witness:
  "HpmfwupgUpgrade (broken_host (hpm_image sample_header [7, 8] sample_records)) (Some ''fw.hpm'') True 0 0 broken_start = Some (Inl (Hpm_transport ()))
    \<and> (\<exists>x. Hpm_transport () = Hpm_transport x)"
proof -
  let ?h = "broken_host (hpm_image sample_header [7, 8] sample_records)"
  have f: "h_file ?h (hp_world broken_start) ''fw.hpm'' = Some (hpm_image sample_header [7, 8] sample_records)" by (simp add: broken_host_def)
  have "HpmfwupgSendCmd ?h rq ctx broken_start = Some (Inl (Hpm_transport ()))" for rq ctx
    by (simp add: HpmfwupgSendCmd_def htime_def Let_def send_cmd_loop.simps [of ?h] hsend_def) (simp add: broken_host_def)
  then have "HpmfwupgUpgrade ?h (Some ''fw.hpm'') True 0 0 broken_start = Some (Inl (Hpm_transport ()))"
    by (simp add: upgrade_unfold [OF sample_hpm_hyps(1) f] HpmfwupgPreparationStage_def HpmfwupgGetDeviceId_def)
  with hpm_upgrade_in_bounds [OF sample_hpm_hyps(1,3) f this] show ?thesis by blast
qed


text \<open>
  C9: The image is accepted exactly when its last sixteen bytes are the MD5 digest of the others, it starts with the
  signature of the format and its version, and the bytes of the header, the OEM data and
  the checksum add up to zero. An image too short for its header or its OEM data is read past its end.
\<close>

theorem hpm_image_valid_iff:
  "HpmfwupgValidateImageIntegrity img = Inr HPMFWUPG_SUCCESS \<longleftrightarrow>
     16 \<le> length img \<and> 34 + (unat (img ! 32) + 256 * unat (img ! 33)) + 1 \<le> length img
     \<and> drop (length img - 16) img = rfc_md5 (take (length img - 16) img)
     \<and> take 8 img = map of_char ''PICMGFWU'' \<and> img ! 8 = 0
     \<and> sum_list (take (34 + (unat (img ! 32) + 256 * unat (img ! 33)) + 1) img) = 0"
  by (rule hpm_image_valid)

end
