(* ===== verification/Lanplus_Crypt.thy ===== *)
theory Lanplus_Crypt
  imports Auth Command
begin

text \<open>
  The cryptography of RMCP+ sessions, src/plugins/lanplus/lanplus_crypt.c, and the wrapper
  lanplus_crypt_impl.c around the crypto library: the authentication codes of the RAKP
  exchange, the session keys, encryption of payloads, authentication codes of packets.

  The library is a parameter: the keyed hashes and AES-128 in CBC mode without padding,
  where \<open>None\<close> is a call that fails. \<open>crypto_ok\<close> is what its documentation says of the
  lengths and that decryption inverts encryption. An \<open>assert\<close> that fails is the outcome
  \<open>Assertion\<close>, an access outside an array \<open>Bad_access\<close>. The host is little-endian and the
  library has SHA-256.
\<close>

section \<open>The library\<close>

record crypto =
  hmac_sha1 :: "byte list \<Rightarrow> byte list \<Rightarrow> byte list"
  hmac_md5 :: "byte list \<Rightarrow> byte list \<Rightarrow> byte list"
  hmac_sha256 :: "byte list \<Rightarrow> byte list \<Rightarrow> byte list"
  aes_encrypt :: "byte list \<Rightarrow> byte list \<Rightarrow> byte list \<Rightarrow> byte list option"
  aes_decrypt :: "byte list \<Rightarrow> byte list \<Rightarrow> byte list \<Rightarrow> byte list option"

definition crypto_ok :: "crypto \<Rightarrow> bool" where
  "crypto_ok c \<longleftrightarrow>
     (\<forall>k d. length (hmac_sha1 c k d) = 20 \<and> length (hmac_md5 c k d) = 16 \<and> length (hmac_sha256 c k d) = 32)
     \<and> (\<forall>iv k d. length iv = 16 \<and> length k = 16 \<and> length d mod 16 = 0 \<and> d \<noteq> [] \<longrightarrow>
          (\<exists>e. aes_encrypt c iv k d = Some e \<and> length e = length d \<and> aes_decrypt c iv k e = Some d))
     \<and> (\<forall>iv k e d. aes_decrypt c iv k e = Some d \<longrightarrow> length d = length e)"

datatype lanplus_error = Assertion | Bad_access | No_session | Use_after_free | Union_confusion

section \<open>Algorithms\<close>

abbreviation (input) RAKP_NONE :: byte where "RAKP_NONE \<equiv> 0"
abbreviation (input) RAKP_HMAC_SHA1 :: byte where "RAKP_HMAC_SHA1 \<equiv> 1"
abbreviation (input) RAKP_HMAC_MD5 :: byte where "RAKP_HMAC_MD5 \<equiv> 2"
abbreviation (input) RAKP_HMAC_SHA256 :: byte where "RAKP_HMAC_SHA256 \<equiv> 3"
abbreviation (input) INTEGRITY_NONE :: byte where "INTEGRITY_NONE \<equiv> 0"
abbreviation (input) INTEGRITY_HMAC_SHA1_96 :: byte where "INTEGRITY_HMAC_SHA1_96 \<equiv> 1"
abbreviation (input) INTEGRITY_HMAC_MD5_128 :: byte where "INTEGRITY_HMAC_MD5_128 \<equiv> 2"
abbreviation (input) INTEGRITY_MD5_128 :: byte where "INTEGRITY_MD5_128 \<equiv> 3"
abbreviation (input) INTEGRITY_HMAC_SHA256_128 :: byte where "INTEGRITY_HMAC_SHA256_128 \<equiv> 4"
abbreviation (input) CRYPT_NONE :: byte where "CRYPT_NONE \<equiv> 0"
abbreviation (input) CRYPT_AES_CBC_128 :: byte where "CRYPT_AES_CBC_128 \<equiv> 1"
abbreviation (input) CRYPT_XRC4_128 :: byte where "CRYPT_XRC4_128 \<equiv> 2"
abbreviation (input) CRYPT_XRC4_40 :: byte where "CRYPT_XRC4_40 \<equiv> 3"

definition lanplus_HMAC :: "crypto \<Rightarrow> byte \<Rightarrow> byte list \<Rightarrow> byte list \<Rightarrow> lanplus_error + byte list" where
  "lanplus_HMAC c mac key d =
     (if mac = RAKP_HMAC_SHA1 \<or> mac = INTEGRITY_HMAC_SHA1_96 then Inr (hmac_sha1 c key d)
      else if mac = RAKP_HMAC_MD5 \<or> mac = INTEGRITY_HMAC_MD5_128 then Inr (hmac_md5 c key d)
      else if mac = RAKP_HMAC_SHA256 \<or> mac = INTEGRITY_HMAC_SHA256_128 then Inr (hmac_sha256 c key d)
      else Inl Assertion)"

definition lanplus_encrypt_aes_cbc_128 :: "crypto \<Rightarrow> byte list \<Rightarrow> byte list \<Rightarrow> byte list \<Rightarrow> lanplus_error + byte list" where
  "lanplus_encrypt_aes_cbc_128 c iv key input =
     (if length input = 0 then Inr []
      else if length input mod 16 \<noteq> 0 then Inl Assertion
      else Inr (case aes_encrypt c iv (take 16 key) input of None \<Rightarrow> [] | Some e \<Rightarrow> e))"

definition lanplus_decrypt_aes_cbc_128 :: "crypto \<Rightarrow> byte list \<Rightarrow> byte list \<Rightarrow> byte list \<Rightarrow> lanplus_error + byte list" where
  "lanplus_decrypt_aes_cbc_128 c iv key input =
     (if length input = 0 then Inr []
      else if length input mod 16 \<noteq> 0 then Inl Assertion
      else Inr (case aes_decrypt c iv (take 16 key) input of None \<Rightarrow> [] | Some d \<Rightarrow> d))"

section \<open>State of a session\<close>

datatype lanplus_session_state = PRESESSION | OPEN_SESSION_SENT | OPEN_SESSION_RECEIVED | RAKP_1_SENT | RAKP_2_RECEIVED
  | RAKP_3_SENT | ACTIVE | CLOSE_SENT

definition IPMI_MAX_MD_SIZE :: nat where "IPMI_MAX_MD_SIZE = 32"

record v2_data =
  session_state :: lanplus_session_state
  requested_auth_alg :: byte
  requested_integrity_alg :: byte
  requested_crypt_alg :: byte
  auth_alg :: byte
  integrity_alg :: byte
  crypt_alg :: byte
  max_priv_level :: byte
  console_id :: u32
  bmc_id :: u32
  console_rand :: "byte list"
  bmc_rand :: "byte list"
  bmc_guid :: "byte list"
  requested_role :: byte
  rakp2_return_code :: byte
  sik :: "byte list"
  sik_len :: nat
  k1 :: "byte list"
  k1_len :: nat
  k2 :: "byte list"
  k2_len :: nat

definition wf_v2 :: "v2_data \<Rightarrow> bool" where
  "wf_v2 v \<longleftrightarrow> length (console_rand v) = 16 \<and> length (bmc_rand v) = 16 \<and> length (bmc_guid v) = 16
     \<and> length (sik v) = IPMI_MAX_MD_SIZE \<and> length (k1 v) = IPMI_MAX_MD_SIZE \<and> length (k2 v) = IPMI_MAX_MD_SIZE
     \<and> sik_len v \<le> IPMI_MAX_MD_SIZE \<and> k1_len v \<le> IPMI_MAX_MD_SIZE \<and> k2_len v \<le> IPMI_MAX_MD_SIZE"

text \<open>The user name as a C string.\<close>

definition user_name :: "ipmi_session_params \<Rightarrow> byte list" where
  "user_name p = take (c_strlen (username p)) (username p)"

text \<open>The key of a user: the first 20 bytes of the password array.\<close>

definition user_key :: "ipmi_session \<Rightarrow> byte list" where
  "user_key s = take IPMI_AUTHCODE_BUFFER_SIZE (authcode s)"

definition rakp_supported :: "byte \<Rightarrow> bool" where
  "rakp_supported alg \<longleftrightarrow> alg = RAKP_HMAC_SHA1 \<or> alg = RAKP_HMAC_MD5 \<or> alg = RAKP_HMAC_SHA256"

text \<open>The digest lengths the code asserts.\<close>

definition digest_length :: "byte \<Rightarrow> nat option" where
  "digest_length alg =
     (if alg = RAKP_HMAC_SHA1 then Some 20 else if alg = RAKP_HMAC_MD5 then Some 16
      else if alg = RAKP_HMAC_SHA256 then Some 32 else None)"

section \<open>The RAKP exchange\<close>

text \<open>\<open>oem\<close> is the name of the OEM type set for the interface.\<close>

definition rakp2_role :: "string option \<Rightarrow> v2_data \<Rightarrow> byte" where
  "rakp2_role oem v = (if oem = Some ''i82571spt'' then requested_role v AND NOT 0x10 else requested_role v)"

definition lanplus_rakp2_hmac_matches :: "crypto \<Rightarrow> string option \<Rightarrow> ipmi_session_params \<Rightarrow> ipmi_session \<Rightarrow> v2_data \<Rightarrow> byte list \<Rightarrow>
    lanplus_error + bool" where
  "lanplus_rakp2_hmac_matches c oem p s v bmc_mac =
     (if auth_alg v = RAKP_NONE then Inr True
      else if \<not> rakp_supported (auth_alg v) then Inl Assertion
      else
        (let buffer = le32 (console_id v) @ le32 (bmc_id v) @ console_rand v @ bmc_rand v @ bmc_guid v
               @ [rakp2_role oem v, word_of_nat (length (user_name p))] @ user_name p
         in sum_bind (lanplus_HMAC c (auth_alg v) (user_key s) buffer) (\<lambda>mac. Inr (take (length mac) bmc_mac = mac))))"

text \<open>The number of bytes of a RAKP 4 code that are compared.\<close>

definition rakp4_cmp_length :: "bool \<Rightarrow> byte \<Rightarrow> nat \<Rightarrow> lanplus_error + nat" where
  "rakp4_cmp_length intelplus alg n =
     (if alg = INTEGRITY_HMAC_SHA1_96 then if n = 20 then Inr 12 else Inl Assertion
      else if alg = INTEGRITY_HMAC_MD5_128 then if n = 16 then Inr 16 else Inl Assertion
      else if alg = RAKP_HMAC_SHA256 \<and> \<not> intelplus then if n = 32 then Inr 16 else Inl Assertion
      else Inl Assertion)"

definition lanplus_rakp4_hmac_matches :: "crypto \<Rightarrow> string option \<Rightarrow> v2_data \<Rightarrow> byte list \<Rightarrow> lanplus_error + bool" where
  "lanplus_rakp4_hmac_matches c oem v bmc_mac =
     (let intelplus = (oem = Some ''intelplus''); alg = (if intelplus then integrity_alg v else auth_alg v)
      in if alg = 0 then Inr True
         else if (if intelplus then \<not> (alg = INTEGRITY_HMAC_SHA1_96 \<or> alg = INTEGRITY_HMAC_MD5_128) else \<not> rakp_supported alg) then Inl Assertion
         else sum_bind (lanplus_HMAC c alg (take (sik_len v) (sik v)) (console_rand v @ le32 (bmc_id v) @ bmc_guid v)) (\<lambda>mac.
           sum_bind (rakp4_cmp_length intelplus alg (length mac)) (\<lambda>n. Inr (take n bmc_mac = take n mac))))"

definition lanplus_generate_rakp3_authcode :: "crypto \<Rightarrow> string option \<Rightarrow> ipmi_session_params \<Rightarrow> ipmi_session \<Rightarrow> v2_data \<Rightarrow>
    lanplus_error + byte list" where
  "lanplus_generate_rakp3_authcode c oem p s v =
     (if auth_alg v = RAKP_NONE then Inr []
      else if \<not> rakp_supported (auth_alg v) then Inl Assertion
      else
        (let role = (if oem = Some ''intelplus'' \<or> oem = Some ''i82571spt'' then privlvl p else requested_role v)
         in lanplus_HMAC c (auth_alg v) (user_key s)
              (bmc_rand v @ le32 (console_id v) @ [role, word_of_nat (length (user_name p))] @ user_name p)))"

definition lanplus_generate_sik :: "crypto \<Rightarrow> string option \<Rightarrow> ipmi_session_params \<Rightarrow> ipmi_session \<Rightarrow> v2_data \<Rightarrow> lanplus_error + v2_data" where
  "lanplus_generate_sik c oem p s v =
     (let v0 = v\<lparr>sik := replicate IPMI_MAX_MD_SIZE 0, sik_len := 0\<rparr>
      in if auth_alg v = RAKP_NONE then Inr v0
         else if \<not> rakp_supported (auth_alg v) then Inl Assertion
         else
           (let buffer = console_rand v @ bmc_rand v @ [rakp2_role oem v, word_of_nat (length (user_name p))] @ user_name p;
                key = (if kg p ! 0 \<noteq> 0 then take IPMI_AUTHCODE_BUFFER_SIZE (kg p) else user_key s)
            in sum_bind (lanplus_HMAC c (auth_alg v) key buffer) (\<lambda>mac.
                 if digest_length (auth_alg v) \<noteq> Some (length mac) then Inl Assertion
                 else Inr (v0\<lparr>sik := put_at 0 mac (sik v0), sik_len := length mac\<rparr>))))"

text \<open>Without authentication the constants themselves are the keys and the lengths are not set.\<close>

definition lanplus_generate_k1 :: "crypto \<Rightarrow> v2_data \<Rightarrow> lanplus_error + v2_data" where
  "lanplus_generate_k1 c v =
     (if auth_alg v = RAKP_NONE then Inr (v\<lparr>k1 := put_at 0 (replicate 20 1) (k1 v)\<rparr>)
      else sum_bind (lanplus_HMAC c (auth_alg v) (take (sik_len v) (sik v)) (replicate 20 1)) (\<lambda>mac.
        if digest_length (auth_alg v) \<noteq> Some (length mac) then Inl Assertion
        else Inr (v\<lparr>k1 := put_at 0 mac (k1 v), k1_len := length mac\<rparr>)))"

definition lanplus_generate_k2 :: "crypto \<Rightarrow> v2_data \<Rightarrow> lanplus_error + v2_data" where
  "lanplus_generate_k2 c v =
     (if auth_alg v = RAKP_NONE then Inr (v\<lparr>k2 := put_at 0 (replicate 20 2) (k2 v)\<rparr>)
      else sum_bind (lanplus_HMAC c (auth_alg v) (take (sik_len v) (sik v)) (replicate 20 2)) (\<lambda>mac.
        if digest_length (auth_alg v) \<noteq> Some (length mac) then Inl Assertion
        else Inr (v\<lparr>k2 := put_at 0 mac (k2 v), k2_len := length mac\<rparr>)))"

section \<open>Payloads and packets\<close>

definition pad_length :: "nat \<Rightarrow> nat" where
  "pad_length n = (let m = (n + 1) mod 16 in if m \<noteq> 0 then 16 - m else 0)"

text \<open>
  \<open>rnd\<close> is what the random generator gives for the initialization vector, \<open>None\<close> when it
  fails. The result is the new content of the buffer, which is input and output at the same
  time, and \<open>None\<close> the failure code, with the buffer as it was.
\<close>

definition lanplus_encrypt_payload :: "crypto \<Rightarrow> byte \<Rightarrow> byte list \<Rightarrow> byte list \<Rightarrow> byte list option \<Rightarrow> lanplus_error + byte list option" where
  "lanplus_encrypt_payload c alg key input rnd =
     (if alg = CRYPT_NONE then Inr (Some input)
      else if alg \<noteq> CRYPT_AES_CBC_128 \<or> length input > 0xFFFF then Inl Assertion
      else
        (let n = pad_length (length input); padded_input = input @ map word_of_nat [1..<n + 1] @ [word_of_nat n]
         in case rnd of
              None \<Rightarrow> Inr None
            | Some iv \<Rightarrow> map_sum id (\<lambda>e. Some (iv @ e)) (lanplus_encrypt_aes_cbc_128 c iv key padded_input)))"

definition lanplus_authcode_length :: "byte \<Rightarrow> lanplus_error + nat" where
  "lanplus_authcode_length alg =
     (if alg = INTEGRITY_HMAC_SHA1_96 then Inr 12
      else if alg = INTEGRITY_HMAC_MD5_128 then Inr 16
      else if alg = INTEGRITY_HMAC_SHA256_128 then Inr 16
      else Inl Assertion)"

text \<open>Arguments: session type and authentication bit of the packet, its bytes.\<close>

definition lanplus_has_valid_auth_code :: "crypto \<Rightarrow> byte \<Rightarrow> bool \<Rightarrow> byte list \<Rightarrow> v2_data \<Rightarrow> lanplus_error + bool" where
  "lanplus_has_valid_auth_code c atype bAuthenticated data v =
     (if atype \<noteq> 6 \<or> session_state v \<noteq> ACTIVE \<or> \<not> bAuthenticated \<or> integrity_alg v = INTEGRITY_NONE then Inr True
      else sum_bind (lanplus_authcode_length (integrity_alg v)) (\<lambda>n.
        if length data < 4 + n then Inl Bad_access
        else sum_bind (lanplus_HMAC c (integrity_alg v) (take (k1_len v) (k1 v)) (take (length data - 4 - n) (drop 4 data))) (\<lambda>mac.
          if length mac < n then Inl Assertion else Inr (drop (length data - n) data = take n mac))))"

text \<open>
  The result is the decrypted text with its padding and the length of the payload in it. The
  length is computed in 16 bits; a pad length that is not below the length of the text makes
  it wrap around, and the check of the padding looks outside the text.
\<close>

definition lanplus_decrypt_payload :: "crypto \<Rightarrow> byte \<Rightarrow> byte list \<Rightarrow> byte list \<Rightarrow> lanplus_error + byte list \<times> nat" where
  "lanplus_decrypt_payload c alg key input =
     (if alg = CRYPT_NONE then Inr (input, length input)
      else if alg \<noteq> CRYPT_AES_CBC_128 then Inl Assertion
      else if length input < 16 then Inl (if length input = 0 then Bad_access else Assertion)
      else sum_bind (lanplus_decrypt_aes_cbc_128 c (take 16 input) key (drop 16 input)) (\<lambda>d.
        if d = [] then Inl Assertion
        else
          (let conf_pad_length = unat (last d)
           in if conf_pad_length + 1 > length d then Inl Bad_access
              else
                (let payload_size = length d - conf_pad_length - 1
                 in if \<forall>i<conf_pad_length. d ! (payload_size + i) = word_of_nat (i + 1) then Inr (d, payload_size)
                    else Inl Assertion))))"


section \<open>Encryption and decryption\<close>

lemma pad_length_less: "pad_length n < 16"
  by (auto simp: pad_length_def Let_def)

lemma pad_length_block: "(n + pad_length n + 1) mod 16 = 0"
proof -
  define m where "m = (n + 1) mod 16"
  have "m < 16" by (simp add: m_def)
  have p: "pad_length n = (if m \<noteq> 0 then 16 - m else 0)" by (simp add: pad_length_def m_def)
  have "(n + pad_length n + 1) mod 16 = (m + pad_length n) mod 16"
    unfolding m_def by (simp add: mod_simps add.commute add.left_commute)
  also have "\<dots> = 0" unfolding p using \<open>m < 16\<close> by simp
  finally show ?thesis .
qed

definition padded :: "byte list \<Rightarrow> byte list" where
  "padded input = input @ map word_of_nat [1..<pad_length (length input) + 1] @ [word_of_nat (pad_length (length input))]"

lemma length_padded: "length (padded input) = length input + pad_length (length input) + 1"
  by (simp add: padded_def del: upt_Suc)

lemma padded_pad:
  assumes "i < pad_length (length input)"
  shows "padded input ! (length input + i) = word_of_nat (i + 1)"
proof -
  have "[1..<pad_length (length input) + 1] ! i = 1 + i" using assms by (intro nth_upt) simp
  with assms show ?thesis by (simp add: padded_def nth_append del: upt_Suc)
qed

lemma last_padded: "unat (last (padded input)) = pad_length (length input)"
  using pad_length_less [of "length input"] by (simp add: padded_def unat_of_nat)

lemma take_padded: "take (length input) (padded input) = input"
  by (simp add: padded_def)

lemma crypto_aes:
  assumes "crypto_ok c" and "length iv = 16" and "length k = 16" and "length d mod 16 = 0" and "d \<noteq> []"
  shows "\<exists>e. aes_encrypt c iv k d = Some e \<and> length e = length d \<and> aes_decrypt c iv k e = Some d"
  using assms(1) [unfolded crypto_ok_def, THEN conjunct2, THEN conjunct1, rule_format, of iv k d] assms(2-5) by blast

lemma crypto_lengths:
  "crypto_ok c \<Longrightarrow> length (hmac_sha1 c k d) = 20" "crypto_ok c \<Longrightarrow> length (hmac_md5 c k d) = 16"
  "crypto_ok c \<Longrightarrow> length (hmac_sha256 c k d) = 32"
  by (simp_all add: crypto_ok_def)

lemma encrypt_aes_padded:
  assumes "crypto_ok c" and "length iv = 16" and "16 \<le> length key"
  shows "\<exists>e. lanplus_encrypt_aes_cbc_128 c iv key (padded input) = Inr e \<and> length e = length (padded input)
    \<and> lanplus_decrypt_aes_cbc_128 c iv key e = Inr (padded input)"
proof -
  have m: "length (padded input) mod 16 = 0" using pad_length_block [of "length input"] by (simp only: length_padded)
  have ne: "padded input \<noteq> []" by (simp add: padded_def)
  have k: "length (take 16 key) = 16" using assms(3) by simp
  from crypto_aes [OF assms(1,2) k m ne] obtain e where e: "aes_encrypt c iv (take 16 key) (padded input) = Some e"
    "length e = length (padded input)" "aes_decrypt c iv (take 16 key) e = Some (padded input)" by blast
  have "length (padded input) \<noteq> 0" using ne by simp
  with m e have "lanplus_encrypt_aes_cbc_128 c iv key (padded input) = Inr e" "lanplus_decrypt_aes_cbc_128 c iv key e = Inr (padded input)"
    by (simp_all only: lanplus_encrypt_aes_cbc_128_def lanplus_decrypt_aes_cbc_128_def if_False option.case not_True_eq_False simp_thms)
  with e(2) show ?thesis by blast
qed

lemma encrypt_payload_padded:
  "alg = CRYPT_AES_CBC_128 \<Longrightarrow> length input \<le> 0xFFFF \<Longrightarrow> lanplus_encrypt_payload c alg key input (Some iv) =
     map_sum id (\<lambda>e. Some (iv @ e)) (lanplus_encrypt_aes_cbc_128 c iv key (padded input))"
  by (simp add: lanplus_encrypt_payload_def padded_def Let_def)

lemma decrypt_payload_padded:
  assumes "length iv = 16" and "lanplus_decrypt_aes_cbc_128 c iv key e = Inr (padded input)"
  shows "lanplus_decrypt_payload c CRYPT_AES_CBC_128 key (iv @ e) = Inr (padded input, length input)"
proof -
  have ne: "padded input \<noteq> []" by (simp add: padded_def)
  have "length (padded input) - pad_length (length input) - 1 = length input" by (simp add: length_padded)
  then show ?thesis using assms ne padded_pad [of _ input]
    by (simp add: lanplus_decrypt_payload_def Let_def last_padded length_padded)
qed

lemma encrypt_decrypt:
  assumes "crypto_ok c" and "length iv = 16" and "16 \<le> length key" and "length input \<le> 0xFFFF" and "alg = CRYPT_NONE \<or> alg = CRYPT_AES_CBC_128"
  shows "\<exists>out d. lanplus_encrypt_payload c alg key input (Some iv) = Inr (Some out)
    \<and> length out = (if alg = CRYPT_NONE then length input else 17 + length input + pad_length (length input))
    \<and> lanplus_decrypt_payload c alg key out = Inr (d, length input) \<and> take (length input) d = input"
proof (cases "alg = CRYPT_NONE")
  case True
  then show ?thesis by (simp add: lanplus_encrypt_payload_def lanplus_decrypt_payload_def)
next
  case False
  then have alg: "alg = CRYPT_AES_CBC_128" using assms(5) by simp
  from encrypt_aes_padded [OF assms(1-3), of input] obtain e where e: "lanplus_encrypt_aes_cbc_128 c iv key (padded input) = Inr e"
    "length e = length (padded input)" "lanplus_decrypt_aes_cbc_128 c iv key e = Inr (padded input)" by blast
  show ?thesis
    using alg e encrypt_payload_padded [OF alg assms(4)] decrypt_payload_padded [OF assms(2) e(3)] assms(2)
    by (simp add: length_padded take_padded)
qed

text \<open>A library for examples: constant digests of the right lengths, and the identity as cipher.\<close>

definition sample_crypto :: crypto where
  "sample_crypto = \<lparr>hmac_sha1 = \<lambda>k d. replicate 20 (sum_list (k @ d)), hmac_md5 = \<lambda>k d. replicate 16 (sum_list (k @ d)),
     hmac_sha256 = \<lambda>k d. replicate 32 (sum_list (k @ d)), aes_encrypt = \<lambda>iv k d. Some d, aes_decrypt = \<lambda>iv k d. Some d\<rparr>"

lemma sample_crypto_ok: "crypto_ok sample_crypto"
  by (simp add: crypto_ok_def sample_crypto_def)

text \<open>
  A payload encrypted with AES-128-CBC by \<open>lanplus_encrypt_payload\<close> (initialization vector, padding,
  pad length) is a multiple of the block size and decrypts to the payload and its length with
  \<open>lanplus_decrypt_payload\<close>; so does an unencrypted one. The library decrypts what it encrypts.
\<close>

theorem payload_encryption_roundtrip:
  assumes "crypto_ok c" and "length iv = 16" and "16 \<le> length key" and "length input \<le> 0xFFFF" and "alg = CRYPT_NONE \<or> alg = CRYPT_AES_CBC_128"
  shows "\<exists>out d. lanplus_encrypt_payload c alg key input (Some iv) = Inr (Some out)
    \<and> (alg = CRYPT_AES_CBC_128 \<longrightarrow> length out mod 16 = 0 \<and> length input + 17 \<le> length out \<and> length out \<le> length input + 32)
    \<and> lanplus_decrypt_payload c alg key out = Inr (d, length input) \<and> take (length input) d = input"
proof -
  from encrypt_decrypt [OF assms] obtain out d where o: "lanplus_encrypt_payload c alg key input (Some iv) = Inr (Some out)"
    "length out = (if alg = CRYPT_NONE then length input else 17 + length input + pad_length (length input))"
    "lanplus_decrypt_payload c alg key out = Inr (d, length input)" "take (length input) d = input" by blast
  have "(17 + length input + pad_length (length input)) mod 16 = 0"
    using pad_length_block [of "length input"] mod_add_self1 [of 16 "length input + pad_length (length input) + 1"] by (simp add: ac_simps)
  with o pad_length_less [of "length input"] show ?thesis by (intro exI [of _ out] exI [of _ d]) auto
qed

theorem payload_encryption_roundtrip_witness:
  "\<exists>out d. lanplus_encrypt_payload sample_crypto CRYPT_AES_CBC_128 (replicate 16 3) [1, 2, 3] (Some (replicate 16 9)) = Inr (Some out)
    \<and> length out mod 16 = 0 \<and> lanplus_decrypt_payload sample_crypto CRYPT_AES_CBC_128 (replicate 16 3) out = Inr (d, 3) \<and> take 3 d = [1, 2, 3]"
  using payload_encryption_roundtrip [OF sample_crypto_ok, of "replicate 16 9" "replicate 16 3" "[1, 2, 3]" CRYPT_AES_CBC_128] by (auto simp: numeral_3_eq_3)


section \<open>The keys of both sides\<close>

text \<open>
  The exchange as the specification describes it for the BMC (sections 13.20 to 13.32): what
  it knows of a session, its authentication codes and keys. The hash is that of the agreed
  algorithm.
\<close>

record bmc_session =
  b_SIDm :: u32
  b_SIDc :: u32
  b_Rm :: "byte list"
  b_Rc :: "byte list"
  b_GUIDc :: "byte list"
  b_ROLEm :: byte
  b_UNAMEm :: "byte list"
  b_Kuid :: "byte list"
  b_Kg :: "byte list option"

definition bmc_hash :: "crypto \<Rightarrow> byte \<Rightarrow> byte list \<Rightarrow> byte list \<Rightarrow> byte list" where
  "bmc_hash c alg = (if alg = 1 then hmac_sha1 c else if alg = 2 then hmac_md5 c else hmac_sha256 c)"

definition bmc_rakp2_code :: "crypto \<Rightarrow> byte \<Rightarrow> bmc_session \<Rightarrow> byte list" where
  "bmc_rakp2_code c alg b = bmc_hash c alg (b_Kuid b)
     (le32 (b_SIDm b) @ le32 (b_SIDc b) @ b_Rm b @ b_Rc b @ b_GUIDc b @ [b_ROLEm b, word_of_nat (length (b_UNAMEm b))] @ b_UNAMEm b)"

definition bmc_rakp3_code :: "crypto \<Rightarrow> byte \<Rightarrow> bmc_session \<Rightarrow> byte list" where
  "bmc_rakp3_code c alg b = bmc_hash c alg (b_Kuid b)
     (b_Rc b @ le32 (b_SIDm b) @ [b_ROLEm b, word_of_nat (length (b_UNAMEm b))] @ b_UNAMEm b)"

definition bmc_sik :: "crypto \<Rightarrow> byte \<Rightarrow> bmc_session \<Rightarrow> byte list" where
  "bmc_sik c alg b = bmc_hash c alg (case b_Kg b of None \<Rightarrow> b_Kuid b | Some g \<Rightarrow> g)
     (b_Rm b @ b_Rc b @ [b_ROLEm b, word_of_nat (length (b_UNAMEm b))] @ b_UNAMEm b)"

definition bmc_k :: "crypto \<Rightarrow> byte \<Rightarrow> bmc_session \<Rightarrow> byte \<Rightarrow> byte list" where
  "bmc_k c alg b n = bmc_hash c alg (bmc_sik c alg b) (replicate 20 n)"

definition bmc_rakp4_code :: "crypto \<Rightarrow> byte \<Rightarrow> bmc_session \<Rightarrow> byte list" where
  "bmc_rakp4_code c alg b = take (if alg = 1 then 12 else 16) (bmc_hash c alg (bmc_sik c alg b) (b_Rm b @ le32 (b_SIDc b) @ b_GUIDc b))"

text \<open>Both sides have the same values: numbers exchanged, user, keys.\<close>

definition same_session :: "ipmi_session_params \<Rightarrow> ipmi_session \<Rightarrow> v2_data \<Rightarrow> bmc_session \<Rightarrow> bool" where
  "same_session p s v b \<longleftrightarrow> b_SIDm b = console_id v \<and> b_SIDc b = bmc_id v \<and> b_Rm b = console_rand v \<and> b_Rc b = bmc_rand v
     \<and> b_GUIDc b = bmc_guid v \<and> b_ROLEm b = requested_role v \<and> b_UNAMEm b = user_name p \<and> b_Kuid b = user_key s
     \<and> b_Kg b = (if kg p ! 0 \<noteq> 0 then Some (take IPMI_AUTHCODE_BUFFER_SIZE (kg p)) else None)"

lemma rakp_supported_cases: "rakp_supported alg \<longleftrightarrow> alg = 1 \<or> alg = 2 \<or> alg = 3"
  by (simp add: rakp_supported_def)

lemma HMAC_bmc_hash: "rakp_supported alg \<Longrightarrow> lanplus_HMAC c alg k d = Inr (bmc_hash c alg k d)"
  by (auto simp: lanplus_HMAC_def bmc_hash_def rakp_supported_cases)

lemma bmc_hash_length: "crypto_ok c \<Longrightarrow> rakp_supported alg \<Longrightarrow> digest_length alg = Some (length (bmc_hash c alg k d))"
  by (auto simp: digest_length_def bmc_hash_def rakp_supported_cases crypto_lengths)

lemma bmc_hash_le: "crypto_ok c \<Longrightarrow> length (bmc_hash c alg k d) \<le> 32 \<and> 16 \<le> length (bmc_hash c alg k d)"
  by (auto simp: bmc_hash_def crypto_lengths)

lemma take_put_at0: "length d = n \<Longrightarrow> take n (put_at 0 d a) = d"
  by (simp add: put_at_def)

text \<open>The keys after the three generators.\<close>

lemma generate_keys:
  assumes "crypto_ok c" and "same_session p s v b" and "rakp_supported (auth_alg v)" and "oem = None"
  shows "\<exists>v1 v2 v3. lanplus_generate_sik c oem p s v = Inr v1 \<and> lanplus_generate_k1 c v1 = Inr v2 \<and> lanplus_generate_k2 c v2 = Inr v3
    \<and> take (sik_len v3) (sik v3) = bmc_sik c (auth_alg v) b \<and> take (k1_len v3) (k1 v3) = bmc_k c (auth_alg v) b 1
    \<and> take (k2_len v3) (k2 v3) = bmc_k c (auth_alg v) b 2 \<and> (wf_v2 v \<longrightarrow> wf_v2 v3)
    \<and> v3 = v\<lparr>sik := sik v3, sik_len := sik_len v3, k1 := k1 v3, k1_len := k1_len v3, k2 := k2 v3, k2_len := k2_len v3\<rparr>"
proof -
  let ?a = "auth_alg v"
  have na: "?a \<noteq> 0" using assms(3) by (auto simp: rakp_supported_cases)
  let ?sik = "bmc_sik c ?a b" and ?k1 = "bmc_k c ?a b 1" and ?k2 = "bmc_k c ?a b 2"
  have len: "digest_length ?a = Some (length ?sik)" "digest_length ?a = Some (length ?k1)" "digest_length ?a = Some (length ?k2)"
    unfolding bmc_sik_def bmc_k_def using assms(1,3) by (simp_all add: bmc_hash_length)
  have le: "length ?sik \<le> 32" "length ?k1 \<le> 32" "length ?k2 \<le> 32"
    unfolding bmc_sik_def bmc_k_def using assms(1) by (simp_all add: bmc_hash_le)
  define v1 where "v1 = v\<lparr>sik := put_at 0 ?sik (replicate IPMI_MAX_MD_SIZE 0), sik_len := length ?sik\<rparr>"
  define v2 where "v2 = v1\<lparr>k1 := put_at 0 ?k1 (k1 v1), k1_len := length ?k1\<rparr>"
  define v3 where "v3 = v2\<lparr>k2 := put_at 0 ?k2 (k2 v2), k2_len := length ?k2\<rparr>"
  have key: "(if kg p ! 0 \<noteq> 0 then take IPMI_AUTHCODE_BUFFER_SIZE (kg p) else user_key s) = (case b_Kg b of None \<Rightarrow> b_Kuid b | Some g \<Rightarrow> g)"
    using assms(2) by (simp add: same_session_def)
  have "lanplus_generate_sik c oem p s v = Inr v1"
    using na assms(2,3,4) len(1) HMAC_bmc_hash [OF assms(3)]
    by (simp add: lanplus_generate_sik_def v1_def Let_def key rakp2_role_def bmc_sik_def same_session_def)
  moreover have s1: "take (sik_len v1) (sik v1) = ?sik" "auth_alg v1 = ?a" by (simp_all add: v1_def take_put_at0)
  then have "lanplus_generate_k1 c v1 = Inr v2"
    using na len(2) HMAC_bmc_hash [OF assms(3)] by (simp add: lanplus_generate_k1_def v2_def bmc_k_def)
  moreover have s2: "take (sik_len v2) (sik v2) = ?sik" "auth_alg v2 = ?a" using s1 by (simp_all add: v2_def)
  then have "lanplus_generate_k2 c v2 = Inr v3"
    using na len(3) HMAC_bmc_hash [OF assms(3)] by (simp add: lanplus_generate_k2_def v3_def bmc_k_def)
  moreover have "take (sik_len v3) (sik v3) = ?sik" "take (k1_len v3) (k1 v3) = ?k1" "take (k2_len v3) (k2 v3) = ?k2"
    by (simp_all add: v3_def v2_def v1_def take_put_at0)
  moreover have "wf_v2 v \<longrightarrow> wf_v2 v3" using le by (simp add: wf_v2_def v3_def v2_def v1_def IPMI_MAX_MD_SIZE_def)
  moreover have "v3 = v\<lparr>sik := sik v3, sik_len := sik_len v3, k1 := k1 v3, k1_len := k1_len v3, k2 := k2 v3, k2_len := k2_len v3\<rparr>"
    by (simp add: v3_def v2_def v1_def)
  ultimately show ?thesis by blast
qed

lemma rakp2_matches_iff:
  assumes "same_session p s v b" and "rakp_supported (auth_alg v)" and "oem = None"
  shows "lanplus_rakp2_hmac_matches c oem p s v code = Inr (take (length (bmc_rakp2_code c (auth_alg v) b)) code = bmc_rakp2_code c (auth_alg v) b)"
proof -
  have "auth_alg v \<noteq> 0" using assms(2) by (auto simp: rakp_supported_cases)
  then show ?thesis using assms HMAC_bmc_hash [OF assms(2)]
    by (simp add: lanplus_rakp2_hmac_matches_def rakp2_role_def bmc_rakp2_code_def same_session_def Let_def)
qed

lemma rakp3_code:
  assumes "same_session p s v b" and "rakp_supported (auth_alg v)" and "oem = None"
  shows "lanplus_generate_rakp3_authcode c oem p s v = Inr (bmc_rakp3_code c (auth_alg v) b)"
proof -
  have "auth_alg v \<noteq> 0" using assms(2) by (auto simp: rakp_supported_cases)
  then show ?thesis using assms HMAC_bmc_hash [OF assms(2)]
    by (simp add: lanplus_generate_rakp3_authcode_def bmc_rakp3_code_def same_session_def Let_def)
qed

lemma rakp4_matches_iff:
  assumes "crypto_ok c" and "same_session p s v b" and "rakp_supported (auth_alg v)" and "oem = None"
    and "take (sik_len v) (sik v) = bmc_sik c (auth_alg v) b"
  shows "lanplus_rakp4_hmac_matches c oem v code = Inr (take (length (bmc_rakp4_code c (auth_alg v) b)) code = bmc_rakp4_code c (auth_alg v) b)"
proof -
  let ?a = "auth_alg v"
  define mac where "mac = bmc_hash c ?a (bmc_sik c ?a b) (b_Rm b @ le32 (b_SIDc b) @ b_GUIDc b)"
  have na: "?a \<noteq> 0" using assms(3) by (auto simp: rakp_supported_cases)
  have h: "lanplus_HMAC c ?a (take (sik_len v) (sik v)) (console_rand v @ le32 (bmc_id v) @ bmc_guid v) = Inr mac"
    using assms(2,5) HMAC_bmc_hash [OF assms(3)] by (simp add: mac_def same_session_def)
  have n: "rakp4_cmp_length False ?a (length mac) = Inr (if ?a = 1 then 12 else 16)"
    using assms(1,3) unfolding mac_def by (auto simp: rakp4_cmp_length_def rakp_supported_cases bmc_hash_def crypto_lengths)
  have "bmc_rakp4_code c ?a b = take (if ?a = 1 then 12 else 16) mac" by (simp add: bmc_rakp4_code_def mac_def)
  moreover have "16 \<le> length mac" unfolding mac_def using bmc_hash_le [OF assms(1)] by blast
  ultimately show ?thesis using na assms(3,4) h n by (simp add: lanplus_rakp4_hmac_matches_def Let_def)
qed

text \<open>
  C6: The RAKP exchange as the specification defines it for the BMC and as the code computes it agree: with the same
  session numbers, random numbers, user and keys, the code of a RAKP 2 or RAKP 4 message is accepted exactly when
  it is the one the BMC computes, the RAKP 3 code is the one the BMC expects, and the session
  integrity key, K1 and K2 are those of the BMC, kept inside their arrays.
\<close>

theorem rakp_keys_agree:
  assumes "crypto_ok c" and "wf_v2 v" and "same_session p s v b" and "rakp_supported (auth_alg v)" and "oem = None"
  shows "lanplus_rakp2_hmac_matches c oem p s v code2 = Inr (take (length (bmc_rakp2_code c (auth_alg v) b)) code2 = bmc_rakp2_code c (auth_alg v) b)
    \<and> lanplus_generate_rakp3_authcode c oem p s v = Inr (bmc_rakp3_code c (auth_alg v) b)
    \<and> (\<exists>v1 v2 v3. lanplus_generate_sik c oem p s v = Inr v1 \<and> lanplus_generate_k1 c v1 = Inr v2 \<and> lanplus_generate_k2 c v2 = Inr v3
        \<and> take (sik_len v3) (sik v3) = bmc_sik c (auth_alg v) b \<and> take (k1_len v3) (k1 v3) = bmc_k c (auth_alg v) b 1
        \<and> take (k2_len v3) (k2 v3) = bmc_k c (auth_alg v) b 2 \<and> wf_v2 v3
        \<and> lanplus_rakp4_hmac_matches c oem v3 code4 = Inr (take (length (bmc_rakp4_code c (auth_alg v) b)) code4 = bmc_rakp4_code c (auth_alg v) b))"
proof -
  from generate_keys [OF assms(1,3-5)] assms(2) obtain v1 v2 v3 where k: "lanplus_generate_sik c oem p s v = Inr v1" "lanplus_generate_k1 c v1 = Inr v2"
    "lanplus_generate_k2 c v2 = Inr v3" "take (sik_len v3) (sik v3) = bmc_sik c (auth_alg v) b"
    "take (k1_len v3) (k1 v3) = bmc_k c (auth_alg v) b 1" "take (k2_len v3) (k2 v3) = bmc_k c (auth_alg v) b 2" "wf_v2 v3"
    and v3: "v3 = v\<lparr>sik := sik v3, sik_len := sik_len v3, k1 := k1 v3, k1_len := k1_len v3, k2 := k2 v3, k2_len := k2_len v3\<rparr>" by blast
  have a: "auth_alg v3 = auth_alg v" by (subst v3) simp
  have "same_session p s v3 b" using assms(3) by (subst v3) (simp add: same_session_def)
  from rakp4_matches_iff [OF assms(1) this _ assms(5)] a assms(4) k(4)
  have "lanplus_rakp4_hmac_matches c oem v3 code4 = Inr (take (length (bmc_rakp4_code c (auth_alg v) b)) code4 = bmc_rakp4_code c (auth_alg v) b)" by simp
  with k rakp2_matches_iff [OF assms(3-5)] rakp3_code [OF assms(3-5)] show ?thesis by blast
qed


text \<open>A session for examples.\<close>

definition plus_params :: ipmi_session_params where
  "plus_params = \<lparr>hostname = Some ''bmc'', username = [0x61, 0x62] @ replicate 15 0, authcode_set = [0x70, 0x77] @ replicate 19 0,
     authtype_set = 0, privlvl = 4, cipher_suite_id = 3, sol_escape_char = 0, password = True, port = 623, retry = 4, timeout = 1,
     kg = replicate 21 0, lookupbit = 0x10\<rparr>"

definition plus_session :: ipmi_session where
  "plus_session = \<lparr>active = False, session_id = 0, in_seq = 0, out_seq = 0, authcode = authcode_set plus_params, challenge = replicate 16 0,
     authtype = 0, authstatus = 0, s_timeout = 1,
     sol = \<lparr>sol_sequence_number = 1, sol_last_received_sequence_number = 0, sol_last_received_byte_count = 0\<rparr>\<rparr>"

definition plus_v2 :: v2_data where
  "plus_v2 = \<lparr>session_state = RAKP_2_RECEIVED, requested_auth_alg = 1, requested_integrity_alg = 1, requested_crypt_alg = 1,
     auth_alg = 1, integrity_alg = 1, crypt_alg = 1, max_priv_level = 4, console_id = 0xA0A2A3A4, bmc_id = 5, console_rand = replicate 16 1,
     bmc_rand = replicate 16 2, bmc_guid = replicate 16 3, requested_role = 0x14, rakp2_return_code = 0, sik = replicate 32 0, sik_len = 0,
     k1 = replicate 32 0, k1_len = 0, k2 = replicate 32 0, k2_len = 0\<rparr>"

definition plus_bmc :: bmc_session where
  "plus_bmc = \<lparr>b_SIDm = 0xA0A2A3A4, b_SIDc = 5, b_Rm = replicate 16 1, b_Rc = replicate 16 2, b_GUIDc = replicate 16 3, b_ROLEm = 0x14,
     b_UNAMEm = [0x61, 0x62], b_Kuid = [0x70, 0x77] @ replicate 18 0, b_Kg = None\<rparr>"

lemma plus_same_session: "same_session plus_params plus_session plus_v2 plus_bmc"
  by (simp add: same_session_def plus_params_def plus_session_def plus_v2_def plus_bmc_def user_name_def user_key_def c_strlen_def
      IPMI_AUTHCODE_BUFFER_SIZE_def)

theorem rakp_keys_agree_witness:
  "lanplus_rakp2_hmac_matches sample_crypto None plus_params plus_session plus_v2 (bmc_rakp2_code sample_crypto 1 plus_bmc) = Inr True"
proof -
  have "wf_v2 plus_v2" "rakp_supported (auth_alg plus_v2)" "auth_alg plus_v2 = 1"
    by (simp_all add: wf_v2_def plus_v2_def IPMI_MAX_MD_SIZE_def rakp_supported_cases)
  with rakp_keys_agree [OF sample_crypto_ok _ plus_same_session, of None] show ?thesis by simp
qed

end
