(* ===== verification/Channel.thy ===== *)
theory Channel
  imports Command
begin

text \<open>
  Cipher suites of a channel, lib/ipmi_channel.c: the records a BMC lists, their parser, and
  the requests that collect them. The RMCP+ transport uses them to choose its algorithms.
\<close>

section \<open>Records\<close>

record cipher_suite_info =
  cs_id :: nat
  cs_auth_alg :: byte
  cs_integrity_alg :: byte
  cs_crypt_alg :: byte
  cs_iana :: u32

definition CIPHER_ALG_MASK :: byte where "CIPHER_ALG_MASK = 0x3F"

text \<open>A suite and the size of its record; \<open>None\<close> for a size of 0.\<close>

definition parse_cipher_suite :: "byte list \<Rightarrow> (cipher_suite_info \<times> nat) option" where
  "parse_cipher_suite d =
     (if d ! 0 = 0xC0 then
        if length d < 5 then None
        else Some (\<lparr>cs_id = unat (d ! 1), cs_auth_alg = CIPHER_ALG_MASK AND d ! 2, cs_integrity_alg = CIPHER_ALG_MASK AND d ! 3,
               cs_crypt_alg = CIPHER_ALG_MASK AND d ! 4, cs_iana = 0\<rparr>, 5)
      else if d ! 0 = 0xC1 then
        if length d < 8 then None
        else Some (\<lparr>cs_id = unat (d ! 1), cs_auth_alg = CIPHER_ALG_MASK AND d ! 5, cs_integrity_alg = CIPHER_ALG_MASK AND d ! 6,
               cs_crypt_alg = CIPHER_ALG_MASK AND d ! 7,
               cs_iana = push_bit 16 (ucast (d ! 4)) OR push_bit 8 (ucast (d ! 3)) OR ucast (d ! 2)\<rparr>, 8)
      else None)"

text \<open>At most \<open>nr_suites\<close> records; the rest of the data is given to the parser each time.\<close>

fun parse_channel_cipher_suite_data :: "byte list \<Rightarrow> nat \<Rightarrow> cipher_suite_info list" where
  "parse_channel_cipher_suite_data d 0 = []"
| "parse_channel_cipher_suite_data d (Suc n) =
     (if d = [] then []
      else case parse_cipher_suite d of
        None \<Rightarrow> []
      | Some (s, k) \<Rightarrow> s # parse_channel_cipher_suite_data (drop k d) n)"

section \<open>Collecting the records\<close>

definition MAX_CIPHER_SUITE_RECORD_OFFSET :: nat where "MAX_CIPHER_SUITE_RECORD_OFFSET = 0x40"
definition MAX_CIPHER_SUITE_DATA_LEN :: nat where "MAX_CIPHER_SUITE_DATA_LEN = 0x10"
definition MAX_CIPHER_SUITE_COUNT :: nat where
  "MAX_CIPHER_SUITE_COUNT = MAX_CIPHER_SUITE_RECORD_OFFSET * MAX_CIPHER_SUITE_DATA_LEN div 5"

function cipher_suite_loop :: "('e, 's) sendrecv \<Rightarrow> byte \<Rightarrow> byte \<Rightarrow> nat \<Rightarrow> byte list \<Rightarrow> 's \<Rightarrow> 'e + byte list option \<times> 's" where
  "cipher_suite_loop sendrecv channel ptype list_index acc st =
     sum_bind (sendrecv (mk_rq 0x06 0x54 [channel, ptype, 0x80 OR word_of_nat list_index]) st) (\<lambda>(rsp, st1).
       case rsp of
         None \<Rightarrow> Inr (None, st1)
       | Some r \<Rightarrow>
           if rsp_ccode r \<noteq> 0 \<or> rsp_data_len r < 1 \<or> rsp_data_len r > 1 + int MAX_CIPHER_SUITE_DATA_LEN then Inr (None, st1)
           else
             (let acc1 = acc @ rsp_bytes r 1 (nat (rsp_data_len r) - 1)
              in if rsp_data_len r = 1 + int MAX_CIPHER_SUITE_DATA_LEN \<and> list_index + 1 < MAX_CIPHER_SUITE_RECORD_OFFSET
                 then cipher_suite_loop sendrecv channel ptype (list_index + 1) acc1 st1
                 else Inr (Some acc1, st1)))"
  by pat_completeness auto
termination
  by (relation "measure (\<lambda>(_, _, _, n, _). MAX_CIPHER_SUITE_RECORD_OFFSET - n)") auto

declare cipher_suite_loop.simps [simp del]

definition ipmi_get_channel_cipher_suites :: "('e, 's) sendrecv \<Rightarrow> string \<Rightarrow> byte \<Rightarrow> nat \<Rightarrow> 's \<Rightarrow> 'e + cipher_suite_info list option \<times> 's" where
  "ipmi_get_channel_cipher_suites sendrecv payload_type channel nr_suites st =
     (if nr_suites = 0 then Inr (None, st)
      else sum_bind (cipher_suite_loop sendrecv channel (if payload_type = ''ipmi'' then 0 else 1) 0 [] st) (\<lambda>(d, st1).
        Inr (map_option (\<lambda>d. parse_channel_cipher_suite_data d nr_suites) d, st1)))"

section \<open>What the parser gives\<close>

text \<open>The records as the specification writes them.\<close>

definition suite_record :: "cipher_suite_info \<Rightarrow> byte list" where
  "suite_record s =
     (if cs_iana s = 0 then [0xC0, word_of_nat (cs_id s), cs_auth_alg s, 0x40 OR cs_integrity_alg s, 0x80 OR cs_crypt_alg s]
      else [0xC1, word_of_nat (cs_id s), ucast (cs_iana s), ucast (drop_bit 8 (cs_iana s)), ucast (drop_bit 16 (cs_iana s)),
            cs_auth_alg s, 0x40 OR cs_integrity_alg s, 0x80 OR cs_crypt_alg s])"

definition wf_suite :: "cipher_suite_info \<Rightarrow> bool" where
  "wf_suite s \<longleftrightarrow> cs_id s < 256 \<and> cs_auth_alg s < 64 \<and> cs_integrity_alg s < 64 \<and> cs_crypt_alg s < 64 \<and> cs_iana s < 2 ^ 24"

lemma alg_mask: "(x :: byte) < 64 \<Longrightarrow> CIPHER_ALG_MASK AND x = x"
  "(x :: byte) < 64 \<Longrightarrow> CIPHER_ALG_MASK AND (0x40 OR x) = x" "(x :: byte) < 64 \<Longrightarrow> CIPHER_ALG_MASK AND (0x80 OR x) = x"
proof -
  assume "x < 64"
  then have "x < 2 ^ 6" by simp
  then have "x AND mask 6 = x" by (rule less_mask_eq)
  moreover have "(0x3F :: byte) = mask 6" by (simp add: mask_eq_exp_minus_1)
  ultimately have x: "0x3F AND x = x" by (simp add: and.commute)
  then show "CIPHER_ALG_MASK AND x = x" "CIPHER_ALG_MASK AND (0x40 OR x) = x" "CIPHER_ALG_MASK AND (0x80 OR x) = x"
    by (simp_all add: CIPHER_ALG_MASK_def bit.conj_disj_distrib)
qed

lemma iana24: "(w :: u32) < 2 ^ 24 \<Longrightarrow>
    push_bit 16 (ucast (ucast (drop_bit 16 w) :: byte)) OR push_bit 8 (ucast (ucast (drop_bit 8 w) :: byte)) OR ucast (ucast w :: byte) = w"
proof (rule bit_word_eqI)
  fix n assume w: "w < 2 ^ 24" and n: "n < LENGTH(32)"
  have hi: "\<not> bit w n" if "24 \<le> n" for n
  proof -
    have "w AND mask 24 = w" using w by (rule less_mask_eq)
    with that show ?thesis by (metis bit_and_iff bit_mask_iff not_less)
  qed
  consider "n < 8" | "8 \<le> n" "n < 16" | "16 \<le> n" "n < 24" | "24 \<le> n" by linarith
  then show "bit (push_bit 16 (ucast (ucast (drop_bit 16 w) :: byte)) OR push_bit 8 (ucast (ucast (drop_bit 8 w) :: byte)) OR ucast (ucast w :: byte) :: u32) n = bit w n"
    by cases (use n hi in \<open>auto simp: bit_simps\<close>)
qed

lemma parse_suite_record:
  assumes "wf_suite s"
  shows "parse_cipher_suite (suite_record s @ d) = Some (s, length (suite_record s))"
  using assms iana24 [of "cs_iana s"]
  by (cases s) (auto simp: parse_cipher_suite_def suite_record_def wf_suite_def alg_mask unat_of_nat)

text \<open>
  The list a BMC gives is read back: the parser inverts the concatenation of standard and OEM records, as
  far as there is room for them.
\<close>

theorem cipher_suites_roundtrip:
  assumes "\<forall>s\<in>set ss. wf_suite s" and "length ss \<le> n"
  shows "parse_channel_cipher_suite_data (concat (map suite_record ss)) n = ss"
  using assms
proof (induction ss arbitrary: n)
  case Nil
  then show ?case by (cases n) auto
next
  case (Cons s ss)
  then obtain m where n: "n = Suc m" by (cases n) auto
  have "suite_record s \<noteq> []" by (simp add: suite_record_def)
  then show ?case using Cons parse_suite_record [of s "concat (map suite_record ss)"] n by simp
qed

theorem cipher_suites_roundtrip_witness:
  "parse_channel_cipher_suite_data
     (concat (map suite_record [\<lparr>cs_id = 3, cs_auth_alg = 1, cs_integrity_alg = 1, cs_crypt_alg = 1, cs_iana = 0\<rparr>,
        \<lparr>cs_id = 0x80, cs_auth_alg = 3, cs_integrity_alg = 4, cs_crypt_alg = 1, cs_iana = 0x123456\<rparr>])) 5
   = [\<lparr>cs_id = 3, cs_auth_alg = 1, cs_integrity_alg = 1, cs_crypt_alg = 1, cs_iana = 0\<rparr>,
      \<lparr>cs_id = 0x80, cs_auth_alg = 3, cs_integrity_alg = 4, cs_crypt_alg = 1, cs_iana = 0x123456\<rparr>]"
  by (rule cipher_suites_roundtrip) (simp_all add: wf_suite_def)

end
