(* ===== verification/Lanplus.thy ===== *)
theory Lanplus
  imports Lan_Sol Lanplus_Crypt
begin

text \<open>
  Packets of the RMCP+ transport, src/plugins/lanplus/lanplus.c: construction of IPMI 1.5 and
  2.0 packets with encryption and authentication, reading of session headers and payloads,
  matching of responses.

  The state has the interface with its session, the part of the session for RMCP+, the static
  variables of the file, and what the system will answer: outcomes of the coming \<open>select\<close> and
  \<open>recv\<close> calls, of the coming sends, of the coming calls of the random generator (zeros when
  they have run out), and of the coming comparisons of elapsed time with the timeout (elapsed
  when they have run out). Entries of the list of requests carry the address they were
  allocated at, so that use of a freed entry is seen. Memory allocation succeeds.
\<close>

section \<open>State\<close>

text \<open>
  The union of payload data in a response: the member written last. Reading another member is
  the outcome \<open>Union_confusion\<close>, except that the messages of a session setup share their first
  two fields, tag and return code, at offsets 0 and 1: a read of the return code through another
  of these members (lanplus.c does one, for RAKP 4) reads the return code of the one written.
\<close>

record open_session_response =
  os_message_tag :: byte
  os_rakp_return_code :: byte
  os_max_priv_level :: byte
  os_console_id :: u32
  os_bmc_id :: u32
  os_auth_alg :: byte
  os_integrity_alg :: byte
  os_crypt_alg :: byte

record rakp2_message =
  r2_message_tag :: byte
  r2_rakp_return_code :: byte
  r2_console_id :: u32
  r2_bmc_rand :: "byte list"
  r2_bmc_guid :: "byte list"
  r2_key_exchange_auth_code :: "byte list"

record rakp4_message =
  r4_message_tag :: byte
  r4_rakp_return_code :: byte
  r4_console_id :: u32
  r4_integrity_check_value :: "byte list"

record ipmi_response =
  ir_rq_addr :: byte
  ir_netfn :: byte
  ir_rq_lun :: byte
  ir_rs_addr :: byte
  ir_rq_seq :: byte
  ir_rs_lun :: byte
  ir_cmd :: byte

record sol_response =
  so_packet_sequence_number :: byte
  so_acked_packet_number :: byte
  so_accepted_character_count :: byte
  so_is_nack :: byte
  so_transfer_unavailable :: byte
  so_sol_inactive :: byte
  so_transmit_overrun :: byte
  so_break_detected :: byte

datatype rs_payload = Ipmi_response ipmi_response | Open_session_response open_session_response | Rakp2_message rakp2_message
  | Rakp4_message rakp4_message | Sol_packet sol_response

record plus_rs =
  p_ccode :: byte
  p_data :: "byte list"
  p_data_len :: int
  p_authtype :: byte
  p_seq :: u32
  p_id :: u32
  p_bEncrypted :: bool
  p_bAuthenticated :: bool
  p_payloadtype :: byte
  p_msglen :: nat
  p_payload :: rs_payload

record lanplus_state =
  lp_intf :: ipmi_intf
  lp_v2 :: v2_data
  lp_oem :: "string option"
  lp_requests :: "(nat \<times> ipmi_rq_entry) list"
  lp_brk :: nat
  lp_bridge_possible :: bool
  lp_curr_seq :: nat
  lp_rsp :: plus_rs
  lp_sol_last_seq :: byte
  lp_sol_last_count :: byte
  lp_net :: "net_ev list"
  lp_sends :: "bool list"
  lp_rand :: "byte list option list"
  lp_late :: "bool list"
  lp_out :: "byte list list"
  lp_sol_input :: "byte list list"

abbreviation (input) AUTHTYPE_RMCP_PLUS :: byte where "AUTHTYPE_RMCP_PLUS \<equiv> 6"
abbreviation (input) PAYLOAD_OPEN_REQUEST :: byte where "PAYLOAD_OPEN_REQUEST \<equiv> 0x10"
abbreviation (input) PAYLOAD_OPEN_RESPONSE :: byte where "PAYLOAD_OPEN_RESPONSE \<equiv> 0x11"
abbreviation (input) PAYLOAD_RAKP_1 :: byte where "PAYLOAD_RAKP_1 \<equiv> 0x12"
abbreviation (input) PAYLOAD_RAKP_2 :: byte where "PAYLOAD_RAKP_2 \<equiv> 0x13"
abbreviation (input) PAYLOAD_RAKP_3 :: byte where "PAYLOAD_RAKP_3 \<equiv> 0x14"
abbreviation (input) PAYLOAD_RAKP_4 :: byte where "PAYLOAD_RAKP_4 \<equiv> 0x15"

section \<open>Sending and receiving packets\<close>

definition lanp_send_packet :: "byte list \<Rightarrow> lanplus_state \<Rightarrow> bool \<times> lanplus_state" where
  "lanp_send_packet data st =
     (case lp_sends st of
        [] \<Rightarrow> (True, st\<lparr>lp_out := lp_out st @ [data]\<rparr>)
      | True # ss \<Rightarrow> (True, st\<lparr>lp_sends := ss, lp_out := lp_out st @ [data]\<rparr>)
      | False # ss \<Rightarrow> (False, st\<lparr>lp_sends := ss\<rparr>))"

text \<open>
  A datagram is stored at the start of the array, cut to its size, with a NUL after it. For a
  datagram of 1024 bytes that NUL goes one place past the array: in \<open>struct ipmi_rs\<close> the
  completion code is at offset 0, the array at 1 to 1024 and the \<open>int\<close> that follows it is
  aligned to 1028, so the byte written is padding and no value of the model.
\<close>

definition lanp_store :: "byte list \<Rightarrow> lanplus_state \<Rightarrow> bool \<times> lanplus_state" where
  "lanp_store bs st =
     (let d = take IPMI_BUF_SIZE bs; r = lp_rsp st
      in if d = [] then (False, st)
         else (True, st\<lparr>lp_rsp := r\<lparr>p_data := (put_at 0 d (p_data r))[length d := 0], p_data_len := int (length d)\<rparr>\<rparr>))"

definition lanp_recv_packet :: "lanplus_state \<Rightarrow> bool \<times> lanplus_state" where
  "lanp_recv_packet st =
     (case lp_net st of
        [] \<Rightarrow> (False, st)
      | Net_none # es \<Rightarrow> (False, st\<lparr>lp_net := es\<rparr>)
      | Net_packet bs # es \<Rightarrow> lanp_store bs (st\<lparr>lp_net := es\<rparr>)
      | Net_error # es \<Rightarrow>
          (case es of
             Net_packet bs # es' \<Rightarrow> lanp_store bs (st\<lparr>lp_net := es'\<rparr>)
           | _ \<Rightarrow> (False, st\<lparr>lp_net := tl es\<rparr>)))"

definition lanplus_rand :: "nat \<Rightarrow> lanplus_state \<Rightarrow> byte list option \<times> lanplus_state" where
  "lanplus_rand n st =
     (case lp_rand st of
        [] \<Rightarrow> (Some (replicate n 0), st)
      | r # rs \<Rightarrow> (map_option (\<lambda>b. take n (b @ replicate n 0)) r, st\<lparr>lp_rand := rs\<rparr>))"

section \<open>Reading packets\<close>

definition at_data :: "plus_rs \<Rightarrow> nat \<Rightarrow> byte" where
  "at_data r i = (if i < IPMI_BUF_SIZE then p_data r ! i else 0)"

definition le32_at :: "plus_rs \<Rightarrow> nat \<Rightarrow> u32" where
  "le32_at r i = of_le32 [at_data r i, at_data r (i + 1), at_data r (i + 2), at_data r (i + 3)]"

definition bytes_at :: "plus_rs \<Rightarrow> nat \<Rightarrow> nat \<Rightarrow> byte list" where
  "bytes_at r i n = map (\<lambda>k. at_data r (i + k)) [0..<n]"

definition read_session_data_v2x :: "nat \<Rightarrow> plus_rs \<Rightarrow> plus_rs \<times> nat" where
  "read_session_data_v2x offset r =
     (r\<lparr>p_authtype := at_data r offset, p_bEncrypted := (at_data r (offset + 1) AND 0x80 \<noteq> 0),
        p_bAuthenticated := (at_data r (offset + 1) AND 0x40 \<noteq> 0), p_payloadtype := at_data r (offset + 1) AND 0x3F,
        p_id := le32_at r (offset + 2), p_seq := le32_at r (offset + 6),
        p_msglen := unat (at_data r (offset + 10)) + 256 * unat (at_data r (offset + 11))\<rparr>, offset + 12)"

definition read_session_data_v15 :: "nat \<Rightarrow> plus_rs \<Rightarrow> plus_rs \<times> nat" where
  "read_session_data_v15 offset r =
     (r\<lparr>p_payloadtype := PAYLOAD_IPMI, p_authtype := at_data r offset, p_bEncrypted := False, p_bAuthenticated := False,
        p_msglen := unat (at_data r (offset + 9))\<rparr>, offset + 10)"

definition read_session_data :: "nat \<Rightarrow> plus_rs \<Rightarrow> plus_rs \<times> nat" where
  "read_session_data offset r =
     (if at_data r offset = AUTHTYPE_RMCP_PLUS then read_session_data_v2x offset r else read_session_data_v15 offset r)"

definition read_ipmi_response :: "nat \<Rightarrow> plus_rs \<Rightarrow> plus_rs \<times> nat" where
  "read_ipmi_response offset r =
     (r\<lparr>p_payload := Ipmi_response \<lparr>ir_rq_addr = at_data r offset, ir_netfn = drop_bit 2 (at_data r (offset + 1)),
          ir_rq_lun = at_data r (offset + 1) AND 3, ir_rs_addr = at_data r (offset + 3), ir_rq_seq = drop_bit 2 (at_data r (offset + 4)),
          ir_rs_lun = at_data r (offset + 4) AND 3, ir_cmd = at_data r (offset + 5)\<rparr>,
        p_ccode := at_data r (offset + 6)\<rparr>, offset + 7)"

definition read_open_session_response :: "nat \<Rightarrow> plus_rs \<Rightarrow> plus_rs" where
  "read_open_session_response offset r =
     (let rc = at_data r (offset + 1)
      in r\<lparr>p_payload := Open_session_response \<lparr>os_message_tag = at_data r offset, os_rakp_return_code = rc,
          os_max_priv_level = at_data r (offset + 2), os_console_id = le32_at r (offset + 4),
          os_bmc_id = (if rc \<noteq> 0 then 0 else le32_at r (offset + 8)),
          os_auth_alg = (if rc \<noteq> 0 then 0 else at_data r (offset + 16)),
          os_integrity_alg = (if rc \<noteq> 0 then 0 else at_data r (offset + 24)),
          os_crypt_alg = (if rc \<noteq> 0 then 0 else at_data r (offset + 32))\<rparr>\<rparr>)"

text \<open>
  The codes of the RAKP messages are copied into arrays of 32 bytes whose other places keep
  what the union held; only the bytes copied are part of the model.
\<close>

definition read_rakp2_message :: "nat \<Rightarrow> byte \<Rightarrow> plus_rs \<Rightarrow> lanplus_error + plus_rs" where
  "read_rakp2_message offset alg r =
     (let n = (if alg = RAKP_NONE then Some 0 else digest_length alg)
      in case n of
           None \<Rightarrow> Inl Assertion
         | Some n \<Rightarrow> Inr (r\<lparr>p_payload := Rakp2_message \<lparr>r2_message_tag = at_data r offset, r2_rakp_return_code = at_data r (offset + 1),
             r2_console_id = le32_at r (offset + 4), r2_bmc_rand = bytes_at r (offset + 8) 16, r2_bmc_guid = bytes_at r (offset + 24) 16,
             r2_key_exchange_auth_code = bytes_at r (offset + 40) n\<rparr>\<rparr>))"

definition read_rakp4_message :: "nat \<Rightarrow> byte \<Rightarrow> plus_rs \<Rightarrow> lanplus_error + plus_rs" where
  "read_rakp4_message offset alg r =
     (let n = (if alg = RAKP_NONE then Some 0 else if alg = RAKP_HMAC_SHA1 then Some 12 else if alg = RAKP_HMAC_MD5 then Some 16
               else if alg = RAKP_HMAC_SHA256 then Some 16 else None)
      in case n of
           None \<Rightarrow> Inl Assertion
         | Some n \<Rightarrow> Inr (r\<lparr>p_payload := Rakp4_message \<lparr>r4_message_tag = at_data r offset, r4_rakp_return_code = at_data r (offset + 1),
             r4_console_id = le32_at r (offset + 4), r4_integrity_check_value = bytes_at r (offset + 8) n\<rparr>\<rparr>))"

definition read_sol_packet :: "nat \<Rightarrow> plus_rs \<Rightarrow> plus_rs \<times> nat" where
  "read_sol_packet offset r =
     (let f = at_data r (offset + 3)
      in (r\<lparr>p_payload := Sol_packet \<lparr>so_packet_sequence_number = at_data r offset AND 0x0F,
          so_acked_packet_number = at_data r (offset + 1) AND 0x0F, so_accepted_character_count = at_data r (offset + 2),
          so_is_nack = f AND 0x40, so_transfer_unavailable = f AND 0x20, so_sol_inactive = f AND 0x10,
          so_transmit_overrun = f AND 0x08, so_break_detected = f AND 0x04\<rparr>\<rparr>, offset + 4))"


section \<open>Receiving\<close>

definition lanp_handle_pong :: "plus_rs \<Rightarrow> int" where
  "lanp_handle_pong r = (if at_data r 20 AND 0x80 \<noteq> 0 then 1 else 0)"

definition plus_find :: "byte \<Rightarrow> byte \<Rightarrow> lanplus_state \<Rightarrow> nat option" where
  "plus_find seq cmd st = rq_find seq cmd (map snd (lp_requests st))"

definition plus_remove :: "byte \<Rightarrow> byte \<Rightarrow> lanplus_state \<Rightarrow> lanplus_state" where
  "plus_remove seq cmd st =
     (case plus_find seq cmd st of
        None \<Rightarrow> st
      | Some i \<Rightarrow> st\<lparr>lp_requests := take i (lp_requests st) @ drop (Suc i) (lp_requests st)\<rparr>)"

definition plus_upd :: "nat \<Rightarrow> (ipmi_rq_entry \<Rightarrow> ipmi_rq_entry) \<Rightarrow> lanplus_state \<Rightarrow> lanplus_state" where
  "plus_upd i f st = st\<lparr>lp_requests := (lp_requests st)[i := map_prod id f (lp_requests st ! i)]\<rparr>"

text \<open>The data from \<open>offset\<close> on move to the start of the array.\<close>

definition shift_data :: "nat \<Rightarrow> nat \<Rightarrow> plus_rs \<Rightarrow> lanplus_error + plus_rs" where
  "shift_data offset n r =
     (if offset + n > IPMI_BUF_SIZE then Inl Bad_access
      else Inr (r\<lparr>p_data := put_at 0 (take n (drop offset (p_data r))) (p_data r), p_data_len := int n\<rparr>))"

text \<open>
  The outcome of a packet: no response (NULL), read one more packet (the pointer value 1), or
  the response in the structure.
\<close>

datatype plus_poll = Poll_null | Poll_again | Poll_rsp

definition bridge_answered :: "ipmi_rq_entry \<Rightarrow> ipmi_rq_entry" where
  "bridge_answered e =
     (let e1 = e\<lparr>e_bridging_level := e_bridging_level e - 1\<rparr>
      in if e_bridging_level e1 = 0 then e1\<lparr>e_req := (e_req e1)\<lparr>rq_cmd := rq_target_cmd (e_req e1)\<rparr>\<rparr> else e1)"

definition plus_levels :: "lanplus_state \<Rightarrow> nat" where
  "plus_levels st = sum_list (map (e_bridging_level \<circ> snd) (lp_requests st))"

text \<open>One pass over an IPMI response that starts at \<open>start\<close>: the outcome, or the next pass with the size of the embedded response.\<close>

datatype ipmi_pass = Pass_done plus_poll lanplus_state | Pass_again nat lanplus_state | Pass_error lanplus_error

definition finish_pass :: "nat \<Rightarrow> nat \<Rightarrow> bool \<Rightarrow> ipmi_response \<Rightarrow> lanplus_state \<Rightarrow> ipmi_pass" where
  "finish_pass offset payload_size loop ir st =
     (let st1 = plus_remove (ir_rq_seq ir) (ir_cmd ir) st
      in if payload_size > 8
         then (case shift_data offset (payload_size - 8) (lp_rsp st1) of
                 Inl e \<Rightarrow> Pass_error e
               | Inr r \<Rightarrow> (let st2 = st1\<lparr>lp_rsp := r\<rparr> in if loop then Pass_again (payload_size - 8) st2 else Pass_done Poll_rsp st2))
         else Pass_done Poll_rsp (st1\<lparr>lp_rsp := (lp_rsp st1)\<lparr>p_data_len := 0\<rparr>\<rparr>))"

definition read_pass :: "nat \<Rightarrow> nat \<Rightarrow> lanplus_state \<Rightarrow> ipmi_pass" where
  "read_pass start payload_size st =
     (case read_ipmi_response start (lp_rsp st) of (r, offset) \<Rightarrow>
        (case p_payload r of
           Ipmi_response ir \<Rightarrow>
             (let st1 = st\<lparr>lp_rsp := r\<rparr>
              in case plus_find (ir_rq_seq ir) (ir_cmd ir) st1 of
                   None \<Rightarrow> Pass_done Poll_again st1
                 | Some i \<Rightarrow>
                     if e_bridging_level (snd (lp_requests st1 ! i)) \<noteq> 0 \<and> p_ccode r = 0
                     then (let st2 = plus_upd i bridge_answered st1
                           in if payload_size > 8 then finish_pass offset payload_size True ir st2 else Pass_done Poll_again st2)
                     else finish_pass offset payload_size False ir st1)
         | _ \<Rightarrow> Pass_error Union_confusion))"


lemma plus_levels_upd:
  assumes "i < length (lp_requests st)"
  shows "plus_levels (plus_upd i f st) + e_bridging_level (snd (lp_requests st ! i)) = plus_levels st + e_bridging_level (f (snd (lp_requests st ! i)))"
  unfolding plus_levels_def plus_upd_def
  using sum_list_update_nat [of i "map (e_bridging_level \<circ> snd) (lp_requests st)"] assms by (simp add: map_update)

lemma plus_find_Some: "plus_find seq cmd st = Some i \<Longrightarrow> i < length (lp_requests st) \<and> entry_matches seq cmd (snd (lp_requests st ! i))"
  using rq_find_Some [of seq cmd "map snd (lp_requests st)" i] by (auto simp: plus_find_def)

lemma plus_levels_remove: "plus_levels (plus_remove seq cmd st) \<le> plus_levels st"
proof (cases "plus_find seq cmd st")
  case (Some i)
  let ?es = "lp_requests st"
  have "?es = take i ?es @ ?es ! i # drop (Suc i) ?es" using plus_find_Some [OF Some] by (simp add: id_take_nth_drop)
  then have "plus_levels st = sum_list (map (e_bridging_level \<circ> snd) (take i ?es @ ?es ! i # drop (Suc i) ?es))"
    unfolding plus_levels_def by simp
  with Some show ?thesis by (simp add: plus_remove_def plus_levels_def)
qed (simp add: plus_remove_def)

lemma bridge_answered_level: "e_bridging_level (bridge_answered e) = e_bridging_level e - 1"
  by (simp add: bridge_answered_def Let_def)

lemma plus_levels_rsp [simp]: "plus_levels (st\<lparr>lp_rsp := r\<rparr>) = plus_levels st"
  by (simp add: plus_levels_def)

lemma finish_pass_again: "finish_pass offset n loop ir st = Pass_again n' st' \<Longrightarrow> loop \<and> plus_levels st' \<le> plus_levels st"
  using plus_levels_remove [of "ir_rq_seq ir" "ir_cmd ir" st] by (auto simp: finish_pass_def Let_def split: if_splits sum.splits)

lemma read_pass_again:
  assumes "read_pass start n st = Pass_again n' st'"
  shows "plus_levels st' < plus_levels st"
proof -
  obtain r offset where r: "read_ipmi_response start (lp_rsp st) = (r, offset)" by fastforce
  then obtain ir where ir: "p_payload r = Ipmi_response ir" by (auto simp: read_ipmi_response_def)
  let ?st = "st\<lparr>lp_rsp := r\<rparr>"
  from assms r ir obtain i where i: "plus_find (ir_rq_seq ir) (ir_cmd ir) ?st = Some i"
    "e_bridging_level (snd (lp_requests ?st ! i)) \<noteq> 0" "finish_pass offset n True ir (plus_upd i bridge_answered ?st) = Pass_again n' st'"
    by (auto simp: read_pass_def Let_def split: option.splits if_splits dest: finish_pass_again)
  have "plus_levels (plus_upd i bridge_answered ?st) < plus_levels ?st"
    using plus_levels_upd [of i ?st bridge_answered] plus_find_Some [OF i(1)] i(2) by (simp add: bridge_answered_level)
  with finish_pass_again [OF i(3)] show ?thesis by simp
qed

function ipmi_loop :: "nat \<Rightarrow> nat \<Rightarrow> lanplus_state \<Rightarrow> lanplus_error + plus_poll \<times> lanplus_state" where
  "ipmi_loop start payload_size st =
     (case read_pass start payload_size st of
        Pass_error e \<Rightarrow> Inl e
      | Pass_done p st' \<Rightarrow> Inr (p, st')
      | Pass_again n st' \<Rightarrow> ipmi_loop 0 n st')"
  by pat_completeness auto
termination
  by (relation "measure (\<lambda>(_, _, st). plus_levels st)") (auto dest: read_pass_again)

declare ipmi_loop.simps [simp del]

text \<open>The payload of a packet for this session, after decryption.\<close>

definition poll_payload :: "nat \<Rightarrow> nat \<Rightarrow> lanplus_state \<Rightarrow> lanplus_error + plus_poll \<times> lanplus_state" where
  "poll_payload offset payload_size st =
     (let r = lp_rsp st; v = lp_v2 st; t = p_payloadtype r
      in if t = PAYLOAD_IPMI then ipmi_loop offset payload_size st
         else if t = PAYLOAD_OPEN_RESPONSE then
           if session_state v \<noteq> OPEN_SESSION_SENT then Inr (Poll_again, st)
           else Inr (Poll_rsp, st\<lparr>lp_rsp := read_open_session_response offset r\<rparr>)
         else if t = PAYLOAD_RAKP_2 then
           if session_state v \<noteq> RAKP_1_SENT then Inr (Poll_again, st)
           else sum_bind (read_rakp2_message offset (auth_alg v) r) (\<lambda>r'. Inr (Poll_rsp, st\<lparr>lp_rsp := r'\<rparr>))
         else if t = PAYLOAD_RAKP_4 then
           if session_state v \<noteq> RAKP_3_SENT then Inr (Poll_again, st)
           else sum_bind (read_rakp4_message offset (auth_alg v) r) (\<lambda>r'. Inr (Poll_rsp, st\<lparr>lp_rsp := r'\<rparr>))
         else if t = PAYLOAD_SOL then
           if session_state v \<noteq> ACTIVE then Inr (Poll_again, st)
           else
             (case read_sol_packet offset r of (r1, off1) \<Rightarrow>
                if payload_size > 4
                then sum_bind (shift_data off1 (payload_size - 4) r1) (\<lambda>r2. Inr (Poll_rsp, st\<lparr>lp_rsp := r2\<rparr>))
                else Inr (Poll_rsp, st\<lparr>lp_rsp := r1\<lparr>p_data_len := 0\<rparr>\<rparr>))
         else Inr (Poll_again, st))"

text \<open>Decryption in place: the packet and the size of its payload.\<close>

definition decrypt_packet :: "crypto \<Rightarrow> v2_data \<Rightarrow> nat \<Rightarrow> plus_rs \<Rightarrow> lanplus_error + plus_rs \<times> nat" where
  "decrypt_packet c v offset r =
     (if session_state v = ACTIVE \<and> p_authtype r = AUTHTYPE_RMCP_PLUS \<and> p_bEncrypted r
      then if offset + p_msglen r > IPMI_BUF_SIZE then Inl Bad_access
           else sum_bind (lanplus_decrypt_payload c (crypt_alg v) (k2 v) (take (p_msglen r) (drop offset (p_data r)))) (\<lambda>(d, n).
             Inr (r\<lparr>p_data := put_at offset d (p_data r)\<rparr>, n))
      else Inr (r, p_msglen r))"

definition lanp_poll_single :: "crypto \<Rightarrow> lanplus_state \<Rightarrow> lanplus_error + plus_poll \<times> lanplus_state" where
  "lanp_poll_single c st =
     (case lanp_recv_packet st of
        (False, st1) \<Rightarrow> Inr (Poll_null, st1)
      | (True, st1) \<Rightarrow>
          (let class = at_data (lp_rsp st1) 3; v = lp_v2 st1
           in if class = RMCP_CLASS_ASF then Inr (if lanp_handle_pong (lp_rsp st1) \<le> 0 then Poll_null else Poll_rsp, st1)
              else if class \<noteq> RMCP_CLASS_IPMI then Inr (Poll_again, st1)
              else case read_session_data 4 (lp_rsp st1) of (r, offset) \<Rightarrow>
                (let st2 = st1\<lparr>lp_rsp := r\<rparr>
                 in if session_state v = ACTIVE \<and> p_authtype r = AUTHTYPE_RMCP_PLUS \<and> p_id r \<noteq> console_id v then Inr (Poll_again, st2)
                    else sum_bind (lanplus_has_valid_auth_code c (p_authtype r) (p_bAuthenticated r) (take (nat (p_data_len r)) (p_data r)) v) (\<lambda>ok.
                      if \<not> ok then Inr (Poll_null, st2)
                      else sum_bind (decrypt_packet c v offset r) (\<lambda>(r', n). poll_payload offset n (st2\<lparr>lp_rsp := r'\<rparr>))))))"



text \<open>What receiving leaves alone.\<close>

definition plus_frame :: "lanplus_state \<Rightarrow> lanplus_state \<Rightarrow> bool" where
  "plus_frame st st' \<longleftrightarrow> st' = st\<lparr>lp_requests := lp_requests st', lp_rsp := lp_rsp st', lp_net := lp_net st'\<rparr>
     \<and> length (lp_net st') \<le> length (lp_net st)"

lemma plus_frame_refl [simp]: "plus_frame st st"
  by (simp add: plus_frame_def)

lemma plus_frame_trans: "plus_frame a b \<Longrightarrow> plus_frame b c \<Longrightarrow> plus_frame a c"
  unfolding plus_frame_def by (cases a; cases b; cases c) auto

lemma plus_frame_fields:
  assumes "plus_frame st st'"
  shows "lp_intf st' = lp_intf st" and "lp_v2 st' = lp_v2 st" and "lp_oem st' = lp_oem st" and "lp_sends st' = lp_sends st"
    and "lp_out st' = lp_out st" and "lp_curr_seq st' = lp_curr_seq st" and "lp_bridge_possible st' = lp_bridge_possible st"
    and "lp_rand st' = lp_rand st" and "lp_late st' = lp_late st" and "lp_brk st' = lp_brk st" and "lp_sol_input st' = lp_sol_input st"
  using assms unfolding plus_frame_def by (cases st; cases st'; simp)+

lemma plus_frame_upd [simp]:
  "plus_frame st (st\<lparr>lp_rsp := r\<rparr>)" "plus_frame st (plus_upd i f st)" "plus_frame st (plus_remove q c st)"
  by (auto simp: plus_frame_def plus_upd_def plus_remove_def split: option.splits)

lemma lanp_store_frame: "lanp_store bs st = (b, st') \<Longrightarrow> plus_frame st st' \<and> lp_net st' = lp_net st"
  by (auto simp: lanp_store_def Let_def split: if_splits)

lemma plus_frame_net: "plus_frame ((st :: lanplus_state)\<lparr>lp_net := es\<rparr>) st' \<Longrightarrow> length es \<le> length (lp_net st) \<Longrightarrow> plus_frame st st'"
  unfolding plus_frame_def by (cases st; cases st') auto

lemma lanp_recv_frame:
  assumes "lanp_recv_packet st = (b, st')"
  shows "plus_frame st st' \<and> (b \<longrightarrow> length (lp_net st') < length (lp_net st))"
proof (cases "lp_net st")
  case Nil
  with assms show ?thesis by (simp add: lanp_recv_packet_def)
next
  case (Cons e es)
  have store: "plus_frame st st1 \<and> length (lp_net st1) < length (lp_net st)"
    if "lanp_store bs (st\<lparr>lp_net := es'\<rparr>) = (b, st1)" "length es' < length (lp_net st)" for bs es' st1
    using lanp_store_frame [OF that(1)] that(2) by (auto intro: plus_frame_net)
  have net: "plus_frame st (st\<lparr>lp_net := es'\<rparr>)" if "length es' \<le> length (lp_net st)" for es'
    using that by (simp add: plus_frame_def)
  show ?thesis
  proof (cases e)
    case Net_none
    with assms Cons net show ?thesis by (auto simp: lanp_recv_packet_def)
  next
    case (Net_packet bs)
    with assms Cons store show ?thesis by (auto simp: lanp_recv_packet_def)
  next
    case Net_error
    show ?thesis
    proof (cases "\<exists>bs es'. es = Net_packet bs # es'")
      case True
      with assms Cons Net_error store show ?thesis by (auto simp: lanp_recv_packet_def)
    next
      case False
      then have "lanp_recv_packet st = (False, st\<lparr>lp_net := tl es\<rparr>)"
        using Cons Net_error by (auto simp: lanp_recv_packet_def split: list.splits net_ev.splits)
      with assms Cons net [of "tl es"] show ?thesis by simp
    qed
  qed
qed

definition pass_frame :: "lanplus_state \<Rightarrow> ipmi_pass \<Rightarrow> bool" where
  "pass_frame st p \<longleftrightarrow> (case p of Pass_done _ st' \<Rightarrow> plus_frame st st' | Pass_again _ st' \<Rightarrow> plus_frame st st' | Pass_error _ \<Rightarrow> True)"

lemma finish_pass_frame:
  assumes "plus_frame st0 st"
  shows "pass_frame st0 (finish_pass offset n loop ir st)"
proof -
  have "plus_frame st0 ((plus_remove q k st)\<lparr>lp_rsp := r\<rparr>)" for q k r
    by (rule plus_frame_trans [OF assms], rule plus_frame_trans [of _ "plus_remove q k st"]) simp_all
  then show ?thesis by (auto simp: finish_pass_def Let_def pass_frame_def split: sum.split)
qed

lemma read_pass_frame: "pass_frame st (read_pass start n st)"
proof -
  obtain r offset where r: "read_ipmi_response start (lp_rsp st) = (r, offset)" by fastforce
  have f: "plus_frame st (plus_upd i f (st\<lparr>lp_rsp := r\<rparr>))" for i f by (rule plus_frame_trans [of _ "st\<lparr>lp_rsp := r\<rparr>"]) simp_all
  have d: "pass_frame st (Pass_done p (plus_upd i f (st\<lparr>lp_rsp := r\<rparr>)))" "pass_frame st (Pass_done p (st\<lparr>lp_rsp := r\<rparr>))" "pass_frame st (Pass_error e)" for p i f e
    using f by (simp_all add: pass_frame_def)
  show ?thesis
    unfolding read_pass_def r prod.case Let_def
    by (auto split: rs_payload.split option.split intro!: finish_pass_frame f d)
qed

lemma ipmi_loop_frame: "ipmi_loop start n st = Inr (p, st') \<Longrightarrow> plus_frame st st'"
proof (induction start n st rule: ipmi_loop.induct)
  case (1 start n st)
  note fr = read_pass_frame [of st start n]
  show ?case
  proof (cases "read_pass start n st")
    case (Pass_again n' st1)
    with 1 fr show ?thesis by (auto simp: ipmi_loop.simps [of start n st] pass_frame_def intro: plus_frame_trans)
  qed (use 1(2) fr in \<open>auto simp: ipmi_loop.simps [of start n st] pass_frame_def\<close>)
qed

lemma poll_payload_frame: "poll_payload offset n st = Inr (p, st') \<Longrightarrow> plus_frame st st'"
  unfolding poll_payload_def Let_def
  by (auto simp: sum_bind_Inr split: if_splits prod.splits intro: ipmi_loop_frame)

lemma poll_single_frame:
  assumes "lanp_poll_single c st = Inr (p, st')"
  shows "plus_frame st st' \<and> (p = Poll_again \<longrightarrow> length (lp_net st') < length (lp_net st))"
proof -
  obtain b st1 where b: "lanp_recv_packet st = (b, st1)" by fastforce
  note fr = lanp_recv_frame [OF b]
  have later: "plus_frame st st' \<and> length (lp_net st') \<le> length (lp_net st1)" if "plus_frame st1 st'"
    using fr that plus_frame_def [of st1 st'] by (blast intro: plus_frame_trans)
  show ?thesis
  proof (cases b)
    case False
    with assms b fr show ?thesis by (auto simp: lanp_poll_single_def)
  next
    case True
    obtain r offset where r: "read_session_data 4 (lp_rsp st1) = (r, offset)" by fastforce
    have pp: "plus_frame st1 st'" if "poll_payload offset n (st1\<lparr>lp_rsp := r'\<rparr>) = Inr (p, st')" for n r'
      by (rule plus_frame_trans [of _ "st1\<lparr>lp_rsp := r'\<rparr>"]) (simp_all add: poll_payload_frame [OF that])
    from assms b True r have "plus_frame st1 st'"
      by (auto simp: lanp_poll_single_def Let_def sum_bind_Inr split: if_splits dest: pp)
    with fr True later show ?thesis by auto
  qed
qed

function lanp_poll_recv :: "crypto \<Rightarrow> lanplus_state \<Rightarrow> lanplus_error + bool \<times> lanplus_state" where
  "lanp_poll_recv c st =
     (case lanp_poll_single c st of
        Inl e \<Rightarrow> Inl e
      | Inr (Poll_again, st') \<Rightarrow> lanp_poll_recv c st'
      | Inr (Poll_null, st') \<Rightarrow> Inr (False, st')
      | Inr (Poll_rsp, st') \<Rightarrow> Inr (True, st'))"
  by pat_completeness auto
termination
  by (relation "measure (\<lambda>(_, st). length (lp_net st))") (auto dest: poll_single_frame)

declare lanp_poll_recv.simps [simp del]

lemma poll_recv_plus_frame: "lanp_poll_recv c st = Inr (b, st') \<Longrightarrow> plus_frame st st'"
proof (induction c st rule: lanp_poll_recv.induct)
  case (1 c st)
  show ?case
  proof (cases "lanp_poll_single c st")
    case (Inr x)
    then obtain p st1 where x: "lanp_poll_single c st = Inr (p, st1)" by (cases x) auto
    note fr = poll_single_frame [OF x]
    show ?thesis
    proof (cases p)
      case Poll_again
      with 1 x have "plus_frame st1 st'" by (auto simp: lanp_poll_recv.simps [of c st])
      with fr show ?thesis by (blast intro: plus_frame_trans)
    qed (use 1(2) x fr in \<open>auto simp: lanp_poll_recv.simps [of c st]\<close>)
  qed (use 1(2) in \<open>simp add: lanp_poll_recv.simps [of c st]\<close>)
qed


section \<open>Building packets\<close>

definition plus_bridging :: "bool \<Rightarrow> ipmi_intf \<Rightarrow> nat" where
  "plus_bridging bridgePossible intf =
     (let our = (let a = ucast (my_addr intf) :: byte in if a = 0 then IPMI_BMC_SLAVE_ADDR else a)
      in if target_addr intf = ucast our \<or> \<not> bridgePossible then 0
         else if transit_addr intf \<noteq> ucast our \<and> transit_addr intf \<noteq> 0 then 2 else 1)"

definition getIpmiPayloadWireRep :: "bool \<Rightarrow> ipmi_intf \<Rightarrow> ipmi_rq \<Rightarrow> byte \<Rightarrow> byte \<Rightarrow> byte list" where
  "getIpmiPayloadWireRep bridgePossible intf req rq_seq curr_seq =
     (let br = plus_bridging bridgePossible intf;
          nf = push_bit 2 (rq_netfn req) OR (rq_lun req AND 3);
          inner = with_csum [if br = 0 then IPMI_BMC_SLAVE_ADDR else ucast (target_addr intf), nf]
            @ with_csum ([if br < 2 then IPMI_REMOTE_SWID else ucast (my_addr intf), push_bit 2 rq_seq, rq_cmd req] @ rq_data req)
      in if br = 0 then inner
         else if br = 1 then
           with_csum [IPMI_BMC_SLAVE_ADDR, 0x18]
           @ with_csum ([IPMI_REMOTE_SWID, push_bit 2 curr_seq, 0x34, 0x40 OR target_channel intf] @ inner)
         else
           with_csum [IPMI_BMC_SLAVE_ADDR, 0x18]
           @ with_csum ([IPMI_REMOTE_SWID, push_bit 2 curr_seq, 0x34, 0x40 OR transit_channel intf]
               @ with_csum [ucast (transit_addr intf), 0x18]
               @ with_csum ([IPMI_REMOTE_SWID, push_bit 2 curr_seq, 0x34, 0x40 OR target_channel intf] @ inner)))"

definition getSolPayloadWireRep :: "sol_packet \<Rightarrow> byte list" where
  "getSolPayloadWireRep p =
     [sp_packet_sequence_number p, sp_acked_packet_number p, sp_accepted_character_count p, sol_control p]
     @ take (sp_character_count p) (sp_data p)"

datatype v2_payload = Payload_ipmi ipmi_rq byte | Payload_sol sol_packet | Payload_open "byte list" | Payload_rakp1 "byte list"
  | Payload_rakp3 "byte list"

fun payload_type :: "v2_payload \<Rightarrow> byte" where
  "payload_type (Payload_ipmi _ _) = PAYLOAD_IPMI"
| "payload_type (Payload_sol _) = PAYLOAD_SOL"
| "payload_type (Payload_open _) = PAYLOAD_OPEN_REQUEST"
| "payload_type (Payload_rakp1 _) = PAYLOAD_RAKP_1"
| "payload_type (Payload_rakp3 _) = PAYLOAD_RAKP_3"

fun payload_body :: "bool \<Rightarrow> ipmi_intf \<Rightarrow> byte \<Rightarrow> v2_payload \<Rightarrow> byte list" where
  "payload_body bp intf curr_seq (Payload_ipmi req rq_seq) = getIpmiPayloadWireRep bp intf req rq_seq curr_seq"
| "payload_body bp intf curr_seq (Payload_sol p) = getSolPayloadWireRep p"
| "payload_body bp intf curr_seq (Payload_open m) = m"
| "payload_body bp intf curr_seq (Payload_rakp1 m) = m"
| "payload_body bp intf curr_seq (Payload_rakp3 m) = m"

definition payload_flags :: "v2_data \<Rightarrow> byte" where
  "payload_flags v =
     (if session_state v = ACTIVE
      then (if crypt_alg v \<noteq> CRYPT_NONE then 0x80 else 0) OR (if integrity_alg v \<noteq> INTEGRITY_NONE then 0x40 else 0)
      else 0)"

text \<open>Session number and sequence number.\<close>

definition session_fields :: "v2_data \<Rightarrow> u32 \<Rightarrow> byte list" where
  "session_fields v seq = (if session_state v = ACTIVE then le32 (bmc_id v) @ le32 seq else replicate 8 0)"

text \<open>The code of \<open>build_v2x_msg\<close> does not look at the result of the encryption.\<close>

definition encrypt_body :: "crypto \<Rightarrow> byte list \<Rightarrow> lanplus_state \<Rightarrow> lanplus_error + byte list \<times> lanplus_state" where
  "encrypt_body c body st =
     (let v = lp_v2 st
      in if session_state v \<noteq> ACTIVE then Inr (body, st)
         else
           (let (rnd, st1) = (if crypt_alg v = CRYPT_AES_CBC_128 then lanplus_rand 16 st else (None, st))
            in sum_bind (lanplus_encrypt_payload c (crypt_alg v) (k2 v) body rnd) (\<lambda>out.
                 Inr (case out of None \<Rightarrow> body | Some e \<Rightarrow> e, st1))))"

definition integrity_pad :: "string option \<Rightarrow> nat \<Rightarrow> nat" where
  "integrity_pad oem n =
     (let k = 12 + n + (if oem = Some ''icts'' then 0 else 2) in if k mod 4 \<noteq> 0 then 4 - k mod 4 else 0)"

text \<open>The bytes of an authentication code that are sent, for a digest of the length asserted.\<close>

definition sent_code_length :: "byte \<Rightarrow> nat \<Rightarrow> lanplus_error + nat" where
  "sent_code_length alg n =
     (if alg = INTEGRITY_HMAC_SHA1_96 then if n = 20 then Inr 12 else Inl Assertion
      else if alg = INTEGRITY_HMAC_MD5_128 then if n = 16 then Inr 16 else Inl Assertion
      else if alg = INTEGRITY_HMAC_SHA256_128 then if n = 32 then Inr 16 else Inl Assertion
      else Inl Assertion)"

text \<open>From the session type on: header, payload and, in an authenticated session, the trailer.\<close>

definition session_trailer :: "crypto \<Rightarrow> string option \<Rightarrow> v2_data \<Rightarrow> byte list \<Rightarrow> nat \<Rightarrow> lanplus_error + byte list" where
  "session_trailer c oem v pre n =
     (if session_state v = ACTIVE \<and> integrity_alg v \<noteq> INTEGRITY_NONE
      then let k = integrity_pad oem n; d = pre @ replicate k 0xFF @ [word_of_nat k, 7]
           in sum_bind (lanplus_HMAC c (integrity_alg v) (take (k1_len v) (k1 v)) d) (\<lambda>mac.
                sum_bind (sent_code_length (integrity_alg v) (length mac)) (\<lambda>m. Inr (d @ take m mac)))
      else Inr pre)"

definition next_out_seq :: "u32 \<Rightarrow> u32" where
  "next_out_seq n = (let n1 = n + 1 in if n1 = 0 then n1 + 1 else n1)"

definition plus_upd_session :: "(ipmi_session \<Rightarrow> ipmi_session) \<Rightarrow> lanplus_state \<Rightarrow> lanplus_state" where
  "plus_upd_session f st = st\<lparr>lp_intf := (lp_intf st)\<lparr>session := map_option f (session (lp_intf st))\<rparr>\<rparr>"

definition ipmi_lanplus_build_v2x_msg :: "crypto \<Rightarrow> v2_payload \<Rightarrow> byte \<Rightarrow> lanplus_state \<Rightarrow> lanplus_error + byte list \<times> lanplus_state" where
  "ipmi_lanplus_build_v2x_msg c payload curr_seq st =
     (case session (lp_intf st) of
        None \<Rightarrow> Inl No_session
      | Some s \<Rightarrow>
          (let body = payload_body (lp_bridge_possible st) (lp_intf st) curr_seq payload
           in if length body > 0xFFFF then Inl Bad_access
              else sum_bind (encrypt_body c body st) (\<lambda>(e, st1).
                let v = lp_v2 st; n = length e mod 65536; e = take n e;
                    pre = [AUTHTYPE_RMCP_PLUS, payload_type payload OR payload_flags v] @ session_fields v (out_seq s)
                      @ [word_of_nat n, word_of_nat (n div 256)] @ e
                in sum_bind (session_trailer c (lp_oem st) v pre n) (\<lambda>m.
                     Inr (rmcp_hdr RMCP_CLASS_IPMI @ m, plus_upd_session (\<lambda>s. s\<lparr>out_seq := next_out_seq (out_seq s)\<rparr>) st1)))))"

definition plus_add_entry :: "ipmi_rq_entry \<Rightarrow> lanplus_state \<Rightarrow> nat \<times> lanplus_state" where
  "plus_add_entry e st = (lp_brk st, st\<lparr>lp_requests := lp_requests st @ [(lp_brk st, e)], lp_brk := lp_brk st + 1\<rparr>)"

text \<open>The result is the address of the entry and the packet.\<close>

definition ipmi_lanplus_build_v2x_ipmi_cmd :: "crypto \<Rightarrow> ipmi_rq \<Rightarrow> bool \<Rightarrow> lanplus_state \<Rightarrow> lanplus_error + (nat \<times> byte list) \<times> lanplus_state" where
  "ipmi_lanplus_build_v2x_ipmi_cmd c req isRetry st =
     (let n = lan_next_seq isRetry (lp_curr_seq st);
          seq = word_of_nat n :: byte; intf = lp_intf st;
          e = rq_new req seq;
          e = (if target_addr intf = my_addr intf \<or> \<not> lp_bridge_possible st then e
               else e\<lparr>e_req := (e_req e)\<lparr>rq_target_cmd := rq_cmd (e_req e), rq_cmd := 0x34\<rparr>,
                      e_bridging_level := (if transit_addr intf \<noteq> 0 \<and> transit_addr intf \<noteq> my_addr intf then 2 else 1)\<rparr>);
          (a, st1) = plus_add_entry e (st\<lparr>lp_curr_seq := n\<rparr>)
      in sum_bind (ipmi_lanplus_build_v2x_msg c (Payload_ipmi req seq) seq st1) (\<lambda>(m, st2). Inr ((a, m), st2)))"

definition ipmi_lanplus_build_v15_ipmi_cmd :: "ipmi_rq \<Rightarrow> lanplus_state \<Rightarrow> lanplus_error + (nat \<times> byte list) \<times> lanplus_state" where
  "ipmi_lanplus_build_v15_ipmi_cmd req st =
     (case session (lp_intf st) of
        None \<Rightarrow> Inl No_session
      | Some s \<Rightarrow>
          (let (a, st1) = plus_add_entry (rq_new req 0) st
           in Inr ((a, rmcp_hdr RMCP_CLASS_IPMI @ [0] @ le32 (out_seq s) @ [0, 0, 0, 0] @ [word_of_nat (length (rq_data req) + 7)]
                @ with_csum [IPMI_BMC_SLAVE_ADDR, push_bit 2 (rq_netfn req)]
                @ with_csum ([IPMI_REMOTE_SWID, 0, rq_cmd req] @ rq_data req)), st1)))"

text \<open>The memory allocated for a packet: at first and after an encryption that changed the length.\<close>

definition plus_alloc :: "v2_payload \<Rightarrow> nat" where
  "plus_alloc payload =
     16 + (case payload of Payload_ipmi req _ \<Rightarrow> length (rq_data req) + 7 | Payload_sol p \<Rightarrow> sp_character_count p
           | Payload_open m \<Rightarrow> length m | Payload_rakp1 m \<Rightarrow> length m | Payload_rakp3 m \<Rightarrow> length m)
     + IPMI_MAX_MD_SIZE + 1 + 1 + IPMI_MAX_MD_SIZE"

definition plus_realloc :: "nat \<Rightarrow> nat" where
  "plus_realloc n = 16 + n + IPMI_MAX_MD_SIZE + 1 + 1 + IPMI_MAX_MD_SIZE"

end
