(* ===== verification/Lanplus_Session.thy ===== *)
theory Lanplus_Session
  imports Lanplus Channel
begin

text \<open>
  Requests and sessions of the RMCP+ transport, src/plugins/lanplus/lanplus.c: the loop that sends
  a payload and waits for its answer, serial over LAN, the messages that set up a session (Open
  Session, RAKP 1 to 4), opening and closing of the interface.

  The functions run on an interface that is open; \<open>ipmi_lanplus_send_payload\<close> opens it
  otherwise. As in the code a response is the one structure of the transport, so a function
  returns whether there is one.
\<close>

section \<open>Serial over LAN packets\<close>

definition plus_is_sol :: "bool \<Rightarrow> plus_rs \<Rightarrow> bool" where
  "plus_is_sol got r \<longleftrightarrow> got \<and> p_authtype r = AUTHTYPE_RMCP_PLUS \<and> p_payloadtype r = PAYLOAD_SOL"

definition sol_of :: "plus_rs \<Rightarrow> lanplus_error + sol_response" where
  "sol_of r = (case p_payload r of Sol_packet s \<Rightarrow> Inr s | _ \<Rightarrow> Inl Union_confusion)"

definition plus_acks :: "bool \<Rightarrow> plus_rs \<Rightarrow> v2_payload \<Rightarrow> lanplus_error + bool" where
  "plus_acks got r payload =
     (case payload of
        Payload_sol p \<Rightarrow>
          if plus_is_sol got r then sum_bind (sol_of r) (\<lambda>s. Inr (so_acked_packet_number s = sp_packet_sequence_number p)) else Inr False
      | _ \<Rightarrow> Inr False)"

definition plus_partial_ack :: "string option \<Rightarrow> sol_packet \<Rightarrow> bool \<Rightarrow> plus_rs \<Rightarrow> lanplus_error + nat" where
  "plus_partial_ack oem p got r =
     sum_bind (plus_acks got r (Payload_sol p)) (\<lambda>acks.
       if \<not> acks then Inr 0
       else sum_bind (sol_of r) (\<lambda>s.
         Inr (if unat (so_accepted_character_count s) < sp_character_count p
              then if oem = Some ''intelplus'' \<and> so_accepted_character_count s = 0 then 0
                   else sp_character_count p - unat (so_accepted_character_count s)
              else 0)))"

text \<open>
  An acknowledgement has sequence number 0; sending it is one turn of the loop of
  \<open>ipmi_lanplus_send_payload\<close>, which does not wait for an answer then.
\<close>

definition plus_send_ack :: "crypto \<Rightarrow> sol_packet \<Rightarrow> lanplus_state \<Rightarrow> lanplus_error + lanplus_state" where
  "plus_send_ack c p st =
     (if retry (ssn_params (lp_intf st)) \<le> 0 then Inr st
      else if session_state (lp_v2 st) \<noteq> ACTIVE then Inl Assertion
      else sum_bind (ipmi_lanplus_build_v2x_msg c (Payload_sol p) 0 st) (\<lambda>(m, st1). Inr (snd (lanp_send_packet m st1))))"

definition plus_ack_sol_packet :: "crypto \<Rightarrow> bool \<Rightarrow> lanplus_state \<Rightarrow> lanplus_error + lanplus_state" where
  "plus_ack_sol_packet c got st =
     (if plus_is_sol got (lp_rsp st)
      then sum_bind (sol_of (lp_rsp st)) (\<lambda>s.
        if so_packet_sequence_number s \<noteq> 0
        then plus_send_ack c (sol_ack (so_packet_sequence_number s) (p_data_len (lp_rsp st))) st else Inr st)
      else Inr st)"

definition plus_check_new_data :: "bool \<Rightarrow> lanplus_state \<Rightarrow> lanplus_error + lanplus_state" where
  "plus_check_new_data got st =
     (let r = lp_rsp st
      in if plus_is_sol got r
         then sum_bind (sol_of r) (\<lambda>s.
           let unaltered_data_len = word_of_int (p_data_len r) :: byte;
               new_data_size = p_data_len r - uint (lp_sol_last_count st);
               r' = (if so_packet_sequence_number s = lp_sol_last_seq st
                     then r\<lparr>p_data := (if new_data_size > 0
                              then put_at 0 (take (nat new_data_size) (drop (nat (p_data_len r - new_data_size)) (p_data r))) (p_data r)
                              else p_data r),
                            p_data_len := new_data_size\<rparr>
                     else r);
               st' = st\<lparr>lp_rsp := r'\<rparr>
           in Inr (if so_packet_sequence_number s \<noteq> 0
                   then st'\<lparr>lp_sol_last_seq := so_packet_sequence_number s, lp_sol_last_count := unaltered_data_len\<rparr> else st'))
         else Inr st)"

definition ipmi_lanplus_recv_sol :: "crypto \<Rightarrow> lanplus_state \<Rightarrow> lanplus_error + bool \<times> lanplus_state" where
  "ipmi_lanplus_recv_sol c st =
     sum_bind (lanp_poll_recv c st) (\<lambda>(got, st1).
       if got \<and> p_authtype (lp_rsp st1) \<noteq> 0
       then sum_bind (plus_ack_sol_packet c got st1) (\<lambda>st2. sum_bind (plus_check_new_data got st2) (\<lambda>st3. Inr (got, st3)))
       else Inr (got, st1))"

definition plus_sol_input :: "lanplus_state \<Rightarrow> lanplus_state" where
  "plus_sol_input st = st\<lparr>lp_sol_input := lp_sol_input st @ [take (nat (p_data_len (lp_rsp st))) (p_data (lp_rsp st))]\<rparr>"

section \<open>Sending a payload\<close>

text \<open>The packet for a turn that transmits, with the entry of an IPMI request.\<close>

definition plus_build :: "crypto \<Rightarrow> v2_payload \<Rightarrow> nat \<Rightarrow> lanplus_state \<Rightarrow> lanplus_error + (nat option \<times> byte list) \<times> lanplus_state" where
  "plus_build c payload try st =
     (let v = lp_v2 st;
          msg = (\<lambda>ok. if \<not> ok then Inl Assertion
                 else sum_bind (ipmi_lanplus_build_v2x_msg c payload 0 st) (\<lambda>(m, st1). Inr ((None, m), st1)))
      in case payload of
           Payload_ipmi req _ \<Rightarrow>
             sum_bind (if rq_netfn req = 0x06 \<and> rq_cmd req = 0x38 \<and> bmc_id v = 0 then ipmi_lanplus_build_v15_ipmi_cmd req st
                       else ipmi_lanplus_build_v2x_ipmi_cmd c req (try > 0) st) (\<lambda>((a, m), st1). Inr ((Some a, m), st1))
         | Payload_open _ \<Rightarrow> msg (session_state v = PRESESSION \<or> session_state v = OPEN_SESSION_SENT)
         | Payload_rakp1 _ \<Rightarrow> msg (session_state v = OPEN_SESSION_RECEIVED)
         | Payload_rakp3 _ \<Rightarrow> msg (session_state v = RAKP_2_RECEIVED)
         | Payload_sol _ \<Rightarrow> msg (session_state v = ACTIVE))"

text \<open>The state that is remembered after sending; these messages are not sent again.\<close>

definition sent_state :: "v2_payload \<Rightarrow> lanplus_session_state option" where
  "sent_state payload =
     (case payload of Payload_open _ \<Rightarrow> Some OPEN_SESSION_SENT | Payload_rakp1 _ \<Rightarrow> Some RAKP_1_SENT | Payload_rakp3 _ \<Rightarrow> Some RAKP_3_SENT
      | _ \<Rightarrow> None)"

lemma poll_recv_got_net:
  assumes "lanp_poll_recv c st = Inr (True, st')"
  shows "length (lp_net st') < length (lp_net st)"
  using assms
proof (induction c st rule: lanp_poll_recv.induct)
  case (1 c st)
  show ?case
  proof (cases "lanp_poll_single c st")
    case (Inr x)
    then obtain p st1 where x: "lanp_poll_single c st = Inr (p, st1)" by (cases x) auto
    show ?thesis
    proof (cases p)
      case Poll_again
      with 1 x have "length (lp_net st') < length (lp_net st1)" by (auto simp: lanp_poll_recv.simps [of c st])
      with poll_single_frame [OF x] show ?thesis by (auto simp: plus_frame_def)
    next
      case Poll_rsp
      then have st': "st' = st1" using 1(2) x by (simp add: lanp_poll_recv.simps [of c st])
      obtain b st2 where b: "lanp_recv_packet st = (b, st2)" by fastforce
      obtain r offset where r: "read_session_data 4 (lp_rsp st2) = (r, offset)" by fastforce
      from x Poll_rsp b have bt: "b" by (auto simp: lanp_poll_single_def split: bool.splits)
      have pp: "plus_frame st2 st1" if "poll_payload offset n (st2\<lparr>lp_rsp := r'\<rparr>) = Inr (p, st1)" for n r'
        by (rule plus_frame_trans [of _ "st2\<lparr>lp_rsp := r'\<rparr>"]) (simp_all add: poll_payload_frame [OF that])
      from x b bt r have "plus_frame st2 st1"
        by (auto simp: lanp_poll_single_def Let_def sum_bind_Inr split: if_splits dest: pp)
      with lanp_recv_frame [OF b] bt st' show ?thesis by (auto simp: plus_frame_def)
    next
      case Poll_null
      with 1(2) x show ?thesis by (simp add: lanp_poll_recv.simps [of c st])
    qed
  qed (use 1(2) in \<open>simp add: lanp_poll_recv.simps [of c st]\<close>)
qed

text \<open>A response that reports a duplicated request is ignored.\<close>

function plus_await :: "crypto \<Rightarrow> lanplus_state \<Rightarrow> lanplus_error + bool \<times> lanplus_state" where
  "plus_await c st =
     (case lanp_poll_recv c st of
        Inl e \<Rightarrow> Inl e
      | Inr (got, st') \<Rightarrow> if got \<and> p_ccode (lp_rsp st') = 0xCF then plus_await c st' else Inr (got, st'))"
  by pat_completeness auto
termination
  by (relation "measure (\<lambda>(_, st). length (lp_net st))") (auto dest: poll_recv_got_net)

declare plus_await.simps [simp del]

text \<open>After a timeout the entry is removed; it may have been freed before.\<close>

definition plus_drop_entry :: "nat option \<Rightarrow> lanplus_state \<Rightarrow> lanplus_error + lanplus_state" where
  "plus_drop_entry entry st =
     (case entry of
        None \<Rightarrow> Inr st
      | Some a \<Rightarrow>
          (case map_of (lp_requests st) a of
             None \<Rightarrow> Inl Use_after_free
           | Some e \<Rightarrow> Inr (plus_remove (e_rq_seq e) (rq_cmd (e_req e)) st)))"

text \<open>What a turn does after sending: an answer, or none and another turn.\<close>

datatype plus_turn = Turn_answer bool lanplus_state | Turn_next bool lanplus_state | Turn_error lanplus_error

definition plus_sol_turn :: "crypto \<Rightarrow> sol_packet \<Rightarrow> bool \<Rightarrow> lanplus_state \<Rightarrow> plus_turn" where
  "plus_sol_turn c p got0 st =
     (if sp_packet_sequence_number p = 0 then Turn_answer got0 st
      else case ipmi_lanplus_recv_sol c st of
        Inl e \<Rightarrow> Turn_error e
      | Inr (got, st1) \<Rightarrow>
          if \<not> plus_is_sol got (lp_rsp st1) then Turn_answer got st1
          else (case plus_acks got (lp_rsp st1) (Payload_sol p) of
                  Inl e \<Rightarrow> Turn_error e
                | Inr True \<Rightarrow> Turn_answer got st1
                | Inr False \<Rightarrow>
                    if p_data_len (lp_rsp st1) \<noteq> 0
                    then (let st2 = plus_sol_input st1 in Turn_answer got (st2\<lparr>lp_rsp := (lp_rsp st2)\<lparr>p_data_len := 0\<rparr>\<rparr>))
                    else Turn_next got st1))"

definition plus_wait_turn :: "crypto \<Rightarrow> v2_payload \<Rightarrow> nat option \<Rightarrow> bool \<Rightarrow> lanplus_state \<Rightarrow> plus_turn" where
  "plus_wait_turn c payload entry got0 st =
     (let st1 = (case sent_state payload of None \<Rightarrow> st | Some x \<Rightarrow> st\<lparr>lp_v2 := (lp_v2 st)\<lparr>session_state := x\<rparr>\<rparr>)
      in case payload of
           Payload_sol p \<Rightarrow> plus_sol_turn c p got0 st1
         | _ \<Rightarrow>
             (case plus_await c st1 of
                Inl e \<Rightarrow> Turn_error e
              | Inr (True, st2) \<Rightarrow> Turn_answer True st2
              | Inr (False, st2) \<Rightarrow> (case plus_drop_entry entry st2 of Inl e \<Rightarrow> Turn_error e | Inr st3 \<Rightarrow> Turn_next False st3)))"

text \<open>Whether the timeout has elapsed; the timeout grows when it has.\<close>

definition plus_elapsed :: "lanplus_state \<Rightarrow> bool \<times> lanplus_state" where
  "plus_elapsed st =
     (let (b, st1) = (case lp_late st of [] \<Rightarrow> (True, st) | b # bs \<Rightarrow> (b, st\<lparr>lp_late := bs\<rparr>))
      in (b, if b then plus_upd_session (\<lambda>s. s\<lparr>s_timeout := s_timeout s + 1\<rparr>) st1 else st1))"

text \<open>
  The loop: payload, number of tries, whether to transmit, the entry, whether there is a
  response. A failed send returns at once.
\<close>

lemma retry_elapsed: "plus_elapsed st = (b, st') \<Longrightarrow> ssn_params (lp_intf st') = ssn_params (lp_intf st)"
  by (auto simp: plus_elapsed_def plus_upd_session_def Let_def split: list.splits prod.splits if_splits)

definition tries_after :: "v2_payload \<Rightarrow> nat \<Rightarrow> lanplus_state \<Rightarrow> nat" where
  "tries_after payload try st =
     (if sent_state payload \<noteq> None then max try (nat (retry (ssn_params (lp_intf st)))) + 1 else try + 1)"

function plus_send_loop :: "crypto \<Rightarrow> v2_payload \<Rightarrow> int \<Rightarrow> nat \<Rightarrow> bool \<Rightarrow> nat option \<Rightarrow> bool \<Rightarrow> lanplus_state \<Rightarrow>
    lanplus_error + bool \<times> bool \<times> lanplus_state" where
  "plus_send_loop c payload limit try xmit entry got st =
     (if int try \<ge> limit then Inr (True, got, st)
      else
        (let go = (\<lambda>entry st1.
           if noanswer (lp_intf st1) then Inr (True, got, st1)
           else case plus_wait_turn c payload entry got st1 of
             Turn_error e \<Rightarrow> Inl e
           | Turn_answer g st2 \<Rightarrow> Inr (True, g, st2)
           | Turn_next g st2 \<Rightarrow>
               (case plus_elapsed st2 of (x, st3) \<Rightarrow> plus_send_loop c payload limit (tries_after payload try st3) x entry g st3))
         in if xmit
            then (case plus_build c payload try st of
                    Inl e \<Rightarrow> Inl e
                  | Inr ((entry', m), st0) \<Rightarrow>
                      (case lanp_send_packet m st0 of
                         (False, st1) \<Rightarrow> Inr (False, False, st1)
                       | (True, st1) \<Rightarrow> go entry' st1))
            else go entry st))"
  by pat_completeness auto
termination
  by (relation "measure (\<lambda>(_, _, limit, try, _). nat (limit - int try))") (auto simp: tries_after_def)

declare plus_send_loop.simps [simp del]

text \<open>The timeout is restored on every way out but a failed send.\<close>

definition plus_send_open :: "crypto \<Rightarrow> v2_payload \<Rightarrow> lanplus_state \<Rightarrow> lanplus_error + bool \<times> lanplus_state" where
  "plus_send_open c payload st =
     (case session (lp_intf st) of
        None \<Rightarrow> Inl No_session
      | Some s \<Rightarrow>
          sum_bind (plus_send_loop c payload (retry (ssn_params (lp_intf st))) 0 True None False st) (\<lambda>(restore, got, st1).
            Inr (got, if restore then plus_upd_session (\<lambda>s'. s'\<lparr>s_timeout := s_timeout s\<rparr>) st1 else st1)))"

definition plus_sendrecv :: "crypto \<Rightarrow> (lanplus_error, lanplus_state) sendrecv" where
  "plus_sendrecv c req st =
     sum_bind (plus_send_open c (Payload_ipmi req 0) st) (\<lambda>(got, st').
       Inr (if got then Some \<lparr>rsp_ccode = p_ccode (lp_rsp st'), rsp_data_len = p_data_len (lp_rsp st'), rsp_data = p_data (lp_rsp st')\<rparr> else None, st'))"


section \<open>Commands before and after a session\<close>

definition plus_mod_intf :: "(ipmi_intf \<Rightarrow> ipmi_intf) \<Rightarrow> lanplus_state \<Rightarrow> lanplus_state" where
  "plus_mod_intf f st = st\<lparr>lp_intf := f (lp_intf st)\<rparr>"

text \<open>The response of the second try when the first fails; \<open>bridgePossible\<close> is restored only on success.\<close>

definition plus_get_auth_capabilities_cmd :: "crypto \<Rightarrow> lanplus_state \<Rightarrow> lanplus_error + byte list option \<times> lanplus_state" where
  "plus_get_auth_capabilities_cmd c st =
     (let backup = lp_bridge_possible st; lvl = privlvl (ssn_params (lp_intf st));
          use = (\<lambda>r st. Inr (Some (rsp_bytes r 0 8), st\<lparr>lp_bridge_possible := backup\<rparr>))
      in sum_bind (plus_sendrecv c (mk_rq 0x06 0x38 [0x8E, lvl]) (st\<lparr>lp_bridge_possible := False\<rparr>)) (\<lambda>(rsp, st1).
           case rsp of
             Some r \<Rightarrow>
               if rsp_ccode r = 0 then use r st1
               else sum_bind (plus_sendrecv c (mk_rq 0x06 0x38 [0x0E, lvl]) st1) (\<lambda>(rsp, st2).
                 case rsp of None \<Rightarrow> Inr (None, st2) | Some r \<Rightarrow> if rsp_ccode r \<noteq> 0 then Inr (None, st2) else use r st2)
           | None \<Rightarrow>
               sum_bind (plus_sendrecv c (mk_rq 0x06 0x38 [0x0E, lvl]) st1) (\<lambda>(rsp, st2).
                 case rsp of None \<Rightarrow> Inr (None, st2) | Some r \<Rightarrow> if rsp_ccode r \<noteq> 0 then Inr (None, st2) else use r st2)))"

definition plus_close_session_cmd :: "crypto \<Rightarrow> lanplus_state \<Rightarrow> lanplus_error + int \<times> lanplus_state" where
  "plus_close_session_cmd c st =
     (if session (lp_intf st) = None \<or> session_state (lp_v2 st) \<noteq> ACTIVE then Inr (-1, st)
      else
        (let backup = lp_bridge_possible st;
             st1 = (plus_mod_intf (\<lambda>i. i\<lparr>target_addr := ucast IPMI_BMC_SLAVE_ADDR\<rparr>) st)\<lparr>lp_bridge_possible := False\<rparr>
         in sum_bind (plus_sendrecv c (mk_rq 0x06 0x3C (le32 (bmc_id (lp_v2 st)))) st1) (\<lambda>(rsp, st2).
              case rsp of
                None \<Rightarrow> Inr (-1, st2)
              | Some r \<Rightarrow> if rsp_ccode r \<noteq> 0 then Inr (-1, st2) else Inr (0, st2\<lparr>lp_bridge_possible := backup\<rparr>))))"

definition plus_set_session_privlvl_cmd :: "crypto \<Rightarrow> lanplus_state \<Rightarrow> lanplus_error + int \<times> lanplus_state" where
  "plus_set_session_privlvl_cmd c st =
     (let lvl = privlvl (ssn_params (lp_intf st)); backup = lp_bridge_possible st
      in if lvl \<le> 2 then Inr (0, st)
         else sum_bind (plus_sendrecv c (mk_rq 0x06 0x3B [lvl]) (st\<lparr>lp_bridge_possible := False\<rparr>)) (\<lambda>(rsp, st1).
           let st2 = st1\<lparr>lp_bridge_possible := backup\<rparr>
           in Inr (case rsp of None \<Rightarrow> -1 | Some r \<Rightarrow> if rsp_ccode r \<noteq> 0 then -1 else 0, st2)))"

section \<open>Setting up a session\<close>

definition lanplus_get_requested_ciphers :: "nat \<Rightarrow> (byte \<times> byte \<times> byte) option" where
  "lanplus_get_requested_ciphers suite = map_of
     [(0, (RAKP_NONE, INTEGRITY_NONE, CRYPT_NONE)),
      (1, (RAKP_HMAC_SHA1, INTEGRITY_NONE, CRYPT_NONE)),
      (2, (RAKP_HMAC_SHA1, INTEGRITY_HMAC_SHA1_96, CRYPT_NONE)),
      (3, (RAKP_HMAC_SHA1, INTEGRITY_HMAC_SHA1_96, CRYPT_AES_CBC_128)),
      (4, (RAKP_HMAC_SHA1, INTEGRITY_HMAC_SHA1_96, CRYPT_XRC4_128)),
      (5, (RAKP_HMAC_SHA1, INTEGRITY_HMAC_SHA1_96, CRYPT_XRC4_40)),
      (6, (RAKP_HMAC_MD5, INTEGRITY_NONE, CRYPT_NONE)),
      (7, (RAKP_HMAC_MD5, INTEGRITY_HMAC_MD5_128, CRYPT_NONE)),
      (8, (RAKP_HMAC_MD5, INTEGRITY_HMAC_MD5_128, CRYPT_AES_CBC_128)),
      (9, (RAKP_HMAC_MD5, INTEGRITY_HMAC_MD5_128, CRYPT_XRC4_128)),
      (10, (RAKP_HMAC_MD5, INTEGRITY_HMAC_MD5_128, CRYPT_XRC4_40)),
      (11, (RAKP_HMAC_MD5, INTEGRITY_MD5_128, CRYPT_NONE)),
      (12, (RAKP_HMAC_MD5, INTEGRITY_MD5_128, CRYPT_AES_CBC_128)),
      (13, (RAKP_HMAC_MD5, INTEGRITY_MD5_128, CRYPT_XRC4_128)),
      (14, (RAKP_HMAC_MD5, INTEGRITY_MD5_128, CRYPT_XRC4_40)),
      (15, (RAKP_HMAC_SHA256, INTEGRITY_NONE, CRYPT_NONE)),
      (16, (RAKP_HMAC_SHA256, INTEGRITY_HMAC_SHA256_128, CRYPT_NONE)),
      (17, (RAKP_HMAC_SHA256, INTEGRITY_HMAC_SHA256_128, CRYPT_AES_CBC_128))] suite"

definition plus_upd_v2 :: "(v2_data \<Rightarrow> v2_data) \<Rightarrow> lanplus_state \<Rightarrow> lanplus_state" where
  "plus_upd_v2 f st = st\<lparr>lp_v2 := f (lp_v2 st)\<rparr>"

definition open_session_request :: "string option \<Rightarrow> byte \<Rightarrow> byte \<Rightarrow> byte \<Rightarrow> byte \<Rightarrow> byte list" where
  "open_session_request oem lvl a i k =
     [0, if oem = Some ''intelplus'' \<or> lvl \<noteq> 4 then lvl else 0, 0, 0] @ le32 0xA0A2A3A4
     @ [0, 0, 0, 8, a, 0, 0, 0] @ [1, 0, 0, 8, i, 0, 0, 0] @ [2, 0, 0, 8, k, 0, 0, 0]"

text \<open>Results: 0 for success, 1 for an error, 2 for a timeout.\<close>

definition open_session_answer :: "lanplus_state \<Rightarrow> lanplus_error + int \<times> lanplus_state" where
  "open_session_answer st =
     (case p_payload (lp_rsp st) of
        Open_session_response o' \<Rightarrow>
          if os_rakp_return_code o' \<noteq> 0 then Inr (1, st)
          else
            (let st1 = plus_upd_v2 (\<lambda>v. v\<lparr>max_priv_level := os_max_priv_level o', bmc_id := os_bmc_id o', auth_alg := os_auth_alg o',
                   integrity_alg := os_integrity_alg o', crypt_alg := os_crypt_alg o', session_state := OPEN_SESSION_RECEIVED\<rparr>) st;
                 v = lp_v2 st1
             in Inr (if os_auth_alg o' \<noteq> requested_auth_alg v then 1
                     else if os_integrity_alg o' \<noteq> requested_integrity_alg v then 1
                     else if os_crypt_alg o' \<noteq> requested_crypt_alg v then 1 else 0, st1))
      | _ \<Rightarrow> Inl Union_confusion)"

definition ipmi_lanplus_open_session :: "crypto \<Rightarrow> lanplus_state \<Rightarrow> lanplus_error + int \<times> lanplus_state" where
  "ipmi_lanplus_open_session c st =
     (let p = ssn_params (lp_intf st); st1 = plus_upd_v2 (\<lambda>v. v\<lparr>console_id := 0xA0A2A3A4\<rparr>) st
      in case lanplus_get_requested_ciphers (cipher_suite_id p) of
           None \<Rightarrow> Inr (1, st1)
         | Some (a, i, k) \<Rightarrow>
             (let st2 = plus_upd_v2 (\<lambda>v. v\<lparr>requested_auth_alg := a, requested_integrity_alg := i, requested_crypt_alg := k\<rparr>) st1
              in sum_bind (plus_send_open c (Payload_open (open_session_request (lp_oem st) (privlvl p) a i k)) st2) (\<lambda>(got, st3).
                   if \<not> got then Inr (2, st3) else open_session_answer st3)))"

definition rakp1_request :: "string option \<Rightarrow> ipmi_session_params \<Rightarrow> v2_data \<Rightarrow> byte list" where
  "rakp1_request oem p v =
     [0, 0, 0, 0] @ le32 (bmc_id v) @ console_rand v @ [requested_role v, 0, 0, word_of_nat (length (user_name p))] @ user_name p
     @ (if oem = Some ''i82571spt'' then replicate (16 - length (user_name p)) 0 else [])"

definition rakp2_answer :: "crypto \<Rightarrow> lanplus_state \<Rightarrow> lanplus_error + int \<times> lanplus_state" where
  "rakp2_answer c st =
     (let st1 = plus_upd_v2 (\<lambda>v. v\<lparr>session_state := RAKP_2_RECEIVED\<rparr>) st
      in case (p_payload (lp_rsp st1), session (lp_intf st1)) of
           (Rakp2_message r2, Some s) \<Rightarrow>
             if r2_rakp_return_code r2 \<noteq> 0 then Inr (1, st1)
             else
               (let st2 = plus_upd_v2 (\<lambda>v. v\<lparr>bmc_rand := r2_bmc_rand r2, bmc_guid := r2_bmc_guid r2\<rparr>) st1
                in sum_bind (lanplus_rakp2_hmac_matches c (lp_oem st2) (ssn_params (lp_intf st2)) s (lp_v2 st2) (r2_key_exchange_auth_code r2)) (\<lambda>ok.
                     if \<not> ok then Inr (1, plus_upd_v2 (\<lambda>v. v\<lparr>rakp2_return_code := 0x0F\<rparr>) st2)
                     else Inr (0, plus_upd_v2 (\<lambda>v. v\<lparr>rakp2_return_code := 0\<rparr>) st2)))
         | _ \<Rightarrow> Inl Union_confusion)"

definition ipmi_lanplus_rakp1 :: "crypto \<Rightarrow> lanplus_state \<Rightarrow> lanplus_error + int \<times> lanplus_state" where
  "ipmi_lanplus_rakp1 c st =
     (let p = ssn_params (lp_intf st)
      in case lanplus_rand 16 st of
           (None, st1) \<Rightarrow> Inr (1, st1)
         | (Some rnd, st1) \<Rightarrow>
             (let st2 = plus_upd_v2 (\<lambda>v. v\<lparr>console_rand := rnd, requested_role := privlvl p OR lookupbit p\<rparr>) st1
              in if length (user_name p) > 16 then Inr (1, st2)
                 else sum_bind (plus_send_open c (Payload_rakp1 (rakp1_request (lp_oem st2) p (lp_v2 st2))) st2) (\<lambda>(got, st3).
                   if \<not> got then Inr (2, st3) else rakp2_answer c st3)))"

text \<open>
  The byte at offset 1 of the union, which \<open>ipmi_lanplus_rakp3\<close> reads through the Open Session
  member although the union holds a RAKP 4 message: the three messages of the setup have the
  message tag at offset 0 and their return code at offset 1, so the byte read is the
  return code of the message that was received. The other members have something else there.
\<close>

definition setup_return_code :: "rs_payload \<Rightarrow> lanplus_error + byte" where
  "setup_return_code p =
     (case p of
        Open_session_response o' \<Rightarrow> Inr (os_rakp_return_code o')
      | Rakp2_message r \<Rightarrow> Inr (r2_rakp_return_code r)
      | Rakp4_message r \<Rightarrow> Inr (r4_rakp_return_code r)
      | _ \<Rightarrow> Inl Union_confusion)"

definition rakp4_answer :: "crypto \<Rightarrow> lanplus_state \<Rightarrow> lanplus_error + int \<times> lanplus_state" where
  "rakp4_answer c st =
     sum_bind (setup_return_code (p_payload (lp_rsp st))) (\<lambda>rc.
       if rc \<noteq> 0 then Inr (1, st)
       else case p_payload (lp_rsp st) of
         Rakp4_message r4 \<Rightarrow>
           sum_bind (lanplus_rakp4_hmac_matches c (lp_oem st) (lp_v2 st) (r4_integrity_check_value r4)) (\<lambda>ok.
             if ok then Inr (0, plus_mod_intf (\<lambda>i. i\<lparr>abort := False\<rparr>) (plus_upd_v2 (\<lambda>v. v\<lparr>session_state := ACTIVE\<rparr>) st))
             else Inr (1, st))
       | _ \<Rightarrow> Inl Union_confusion)"

definition rakp3_keys :: "crypto \<Rightarrow> string option \<Rightarrow> ipmi_session_params \<Rightarrow> ipmi_session \<Rightarrow> v2_data \<Rightarrow> lanplus_error + byte list \<times> v2_data" where
  "rakp3_keys c oem p s v =
     (if rakp2_return_code v \<noteq> 0 then Inr ([], v)
      else sum_bind (lanplus_generate_rakp3_authcode c oem p s v) (\<lambda>code.
        sum_bind (lanplus_generate_sik c oem p s v) (\<lambda>v1.
          sum_bind (lanplus_generate_k1 c v1) (\<lambda>v2.
            sum_bind (lanplus_generate_k2 c v2) (\<lambda>v3. Inr (code, v3))))))"

definition ipmi_lanplus_rakp3 :: "crypto \<Rightarrow> lanplus_state \<Rightarrow> lanplus_error + int \<times> lanplus_state" where
  "ipmi_lanplus_rakp3 c st =
     (let v = lp_v2 st
      in if session_state v \<noteq> RAKP_2_RECEIVED then Inl Assertion
         else case session (lp_intf st) of
           None \<Rightarrow> Inl No_session
         | Some s \<Rightarrow>
             sum_bind (rakp3_keys c (lp_oem st) (ssn_params (lp_intf st)) s v) (\<lambda>(code, v1).
               sum_bind (plus_send_open c (Payload_rakp3 ([0, rakp2_return_code v, 0, 0] @ le32 (bmc_id v) @ code)) (st\<lparr>lp_v2 := v1\<rparr>)) (\<lambda>(got, st1).
                 if rakp2_return_code (lp_v2 st1) \<noteq> 0 then Inr (1, st1)
                 else if \<not> got then Inr (2, st1)
                 else rakp4_answer c st1)))"


section \<open>Sending serial over LAN data\<close>

definition plus_set_sol_seq :: "sol_packet \<Rightarrow> lanplus_state \<Rightarrow> lanplus_error + sol_packet \<times> lanplus_state" where
  "plus_set_sol_seq p st =
     (case session (lp_intf st) of
        None \<Rightarrow> Inl No_session
      | Some s \<Rightarrow>
          (let n = (if sol_sequence_number (sol s) > 0x0F then 1 else sol_sequence_number (sol s))
           in Inr (p\<lparr>sp_packet_sequence_number := n\<rparr>, plus_upd_session (\<lambda>s. s\<lparr>sol := (sol s)\<lparr>sol_sequence_number := n + 1\<rparr>\<rparr>) st)))"

text \<open>A response of a send consumes an event of the network, so resending ends.\<close>

lemma rand_state: "lanplus_rand n st = (r, st') \<Longrightarrow> \<exists>rs. st' = st\<lparr>lp_rand := rs\<rparr>"
  by (auto simp: lanplus_rand_def split: list.splits intro: exI [of _ "lp_rand st"])

lemma encrypt_body_state: "encrypt_body c body st = Inr (e, st') \<Longrightarrow> \<exists>rs. st' = st\<lparr>lp_rand := rs\<rparr>"
  by (auto simp: encrypt_body_def sum_bind_Inr Let_def split: if_splits prod.splits dest: rand_state intro: exI [of _ "lp_rand st"])

lemma build_msg_state:
  "ipmi_lanplus_build_v2x_msg c payload q st = Inr (m, st') \<Longrightarrow>
     \<exists>rs. st' = plus_upd_session (\<lambda>s. s\<lparr>out_seq := next_out_seq (out_seq s)\<rparr>) (st\<lparr>lp_rand := rs\<rparr>)"
  unfolding ipmi_lanplus_build_v2x_msg_def Let_def
  by (auto simp: sum_bind_Inr split: option.splits if_splits prod.splits dest!: encrypt_body_state)

lemma send_packet_state: "lanp_send_packet m st = (b, st') \<Longrightarrow> \<exists>ss os. st' = st\<lparr>lp_sends := ss, lp_out := os\<rparr>"
  by (auto simp: lanp_send_packet_def split: list.splits bool.splits) (metis lanplus_state.surjective lanplus_state.update_convs(12,15))+

lemma build_msg_net: "ipmi_lanplus_build_v2x_msg c payload q st = Inr (m, st') \<Longrightarrow> lp_net st' = lp_net st"
  by (auto simp: plus_upd_session_def dest: build_msg_state)

lemma send_packet_net: "lanp_send_packet m st = (b, st') \<Longrightarrow> lp_net st' = lp_net st"
  by (auto dest: send_packet_state)

lemma send_ack_net: "plus_send_ack c p st = Inr st' \<Longrightarrow> lp_net st' = lp_net st"
  unfolding plus_send_ack_def
  by (auto simp: sum_bind_Inr split: if_splits dest!: build_msg_net) (metis prod.collapse send_packet_net)

lemma ack_sol_net: "plus_ack_sol_packet c got st = Inr st' \<Longrightarrow> lp_net st' = lp_net st"
  by (auto simp: plus_ack_sol_packet_def sum_bind_Inr split: if_splits dest: send_ack_net)

lemma check_new_data_net: "plus_check_new_data got st = Inr st' \<Longrightarrow> lp_net st' = lp_net st"
  by (auto simp: plus_check_new_data_def sum_bind_Inr Let_def split: if_splits)

lemma recv_sol_net:
  assumes "ipmi_lanplus_recv_sol c st = Inr (got, st')"
  shows "length (lp_net st') \<le> length (lp_net st) \<and> (got \<longrightarrow> length (lp_net st') < length (lp_net st))"
proof -
  from assms obtain st1 where p: "lanp_poll_recv c st = Inr (got, st1)"
    and "lp_net st' = lp_net st1"
    unfolding ipmi_lanplus_recv_sol_def
    by (auto simp: sum_bind_Inr ack_sol_net check_new_data_net split: if_splits dest!: ack_sol_net [THEN sym] check_new_data_net)
  moreover have "got \<longrightarrow> length (lp_net st1) < length (lp_net st)" using p poll_recv_got_net by (cases got) auto
  ultimately show ?thesis using poll_recv_plus_frame [OF p] by (simp add: plus_frame_def)
qed


lemma await_net:
  "plus_await c st = Inr (got, st') \<Longrightarrow> length (lp_net st') \<le> length (lp_net st) \<and> (got \<longrightarrow> length (lp_net st') < length (lp_net st))"
proof (induction c st rule: plus_await.induct)
  case (1 c st)
  show ?case
  proof (cases "lanp_poll_recv c st")
    case (Inr x)
    then obtain g st1 where x: "lanp_poll_recv c st = Inr (g, st1)" by (cases x) auto
    have n: "length (lp_net st1) \<le> length (lp_net st)" using poll_recv_plus_frame [OF x] by (simp add: plus_frame_def)
    show ?thesis
    proof (cases "g \<and> p_ccode (lp_rsp st1) = 0xCF")
      case True
      with 1(2) x have "plus_await c st1 = Inr (got, st')" by (simp add: plus_await.simps [of c st])
      with 1(1) [OF x refl] True n show ?thesis by auto
    next
      case False
      with 1(2) x have "g = got" "st' = st1" by (auto simp: plus_await.simps [of c st])
      with x n poll_recv_got_net show ?thesis by (cases got) auto
    qed
  qed (use 1(2) in \<open>simp add: plus_await.simps [of c st]\<close>)
qed

lemma drop_entry_net: "plus_drop_entry e st = Inr st' \<Longrightarrow> lp_net st' = lp_net st"
  by (auto simp: plus_drop_entry_def plus_remove_def split: option.splits)

lemma sol_turn_net:
  "plus_sol_turn c p got0 st = Turn_answer g st' \<or> plus_sol_turn c p got0 st = Turn_next g st' \<Longrightarrow>
     length (lp_net st') \<le> length (lp_net st) \<and> (g \<longrightarrow> got0 \<or> length (lp_net st') < length (lp_net st))"
  unfolding plus_sol_turn_def
  by (auto simp: plus_sol_input_def Let_def split: if_splits sum.splits bool.splits prod.splits dest!: recv_sol_net)

lemma wait_turn_net:
  assumes "plus_wait_turn c payload entry got0 st = Turn_answer g st' \<or> plus_wait_turn c payload entry got0 st = Turn_next g st'"
  shows "length (lp_net st') \<le> length (lp_net st) \<and> (g \<longrightarrow> got0 \<or> length (lp_net st') < length (lp_net st))"
proof -
  define st1 where "st1 = (case sent_state payload of None \<Rightarrow> st | Some x \<Rightarrow> st\<lparr>lp_v2 := (lp_v2 st)\<lparr>session_state := x\<rparr>\<rparr>)"
  have n: "lp_net st1 = lp_net st" by (simp add: st1_def split: option.split)
  define w where "w = (case plus_await c st1 of
                Inl e \<Rightarrow> Turn_error e
              | Inr (True, st2) \<Rightarrow> Turn_answer True st2
              | Inr (False, st2) \<Rightarrow> (case plus_drop_entry entry st2 of Inl e \<Rightarrow> Turn_error e | Inr st3 \<Rightarrow> Turn_next False st3))"
  have w: "length (lp_net st') \<le> length (lp_net st1) \<and> (g \<longrightarrow> length (lp_net st') < length (lp_net st1))"
    if "w = Turn_answer g st' \<or> w = Turn_next g st'"
    using that unfolding w_def by (auto split: sum.splits prod.splits bool.splits dest!: await_net drop_entry_net)
  have "plus_wait_turn c payload entry got0 st = (case payload of Payload_sol p \<Rightarrow> plus_sol_turn c p got0 st1 | _ \<Rightarrow> w)"
    unfolding plus_wait_turn_def st1_def w_def by (cases payload) (simp_all only: Let_def v2_payload.case)
  with assms w n sol_turn_net [of c _ got0 st1 g st'] show ?thesis by (cases payload) auto
qed

lemma elapsed_net: "plus_elapsed st = (b, st') \<Longrightarrow> lp_net st' = lp_net st"
  by (auto simp: plus_elapsed_def plus_upd_session_def Let_def split: list.splits prod.splits if_splits)

lemma build_net: "plus_build c payload try st = Inr (x, st') \<Longrightarrow> lp_net st' = lp_net st"
  unfolding plus_build_def Let_def
  by (auto simp: sum_bind_Inr ipmi_lanplus_build_v2x_ipmi_cmd_def ipmi_lanplus_build_v15_ipmi_cmd_def plus_add_entry_def Let_def
      split: v2_payload.splits if_splits option.splits dest!: build_msg_net)


text \<open>
  A property of the state that every part of a turn keeps holds when the loop ends, and an
  error that no part ends with is not an outcome of the loop.
\<close>

definition turn_ok :: "(bool \<Rightarrow> lanplus_state \<Rightarrow> bool) \<Rightarrow> (lanplus_error \<Rightarrow> bool) \<Rightarrow> plus_turn \<Rightarrow> bool" where
  "turn_ok I bad t \<longleftrightarrow> (case t of Turn_error e \<Rightarrow> \<not> bad e | Turn_answer g st \<Rightarrow> I g st | Turn_next g st \<Rightarrow> I g st)"

definition loop_ok :: "(bool \<Rightarrow> lanplus_state \<Rightarrow> bool) \<Rightarrow> (lanplus_error \<Rightarrow> bool) \<Rightarrow> lanplus_error + bool \<times> bool \<times> lanplus_state \<Rightarrow> bool" where
  "loop_ok I bad r \<longleftrightarrow> (case r of Inl e \<Rightarrow> \<not> bad e | Inr (_, g, st) \<Rightarrow> I g st)"

lemma send_loop_rule:
  assumes build: "\<And>g s t. I g s \<Longrightarrow> (case plus_build c payload t s of Inl e \<Rightarrow> \<not> bad e | Inr ((_, m), s1) \<Rightarrow> \<forall>b s2. lanp_send_packet m s1 = (b, s2) \<longrightarrow> I g s2)"
    and turn: "\<And>g s e. I g s \<Longrightarrow> turn_ok I bad (plus_wait_turn c payload e g s)"
    and late: "\<And>g s b s'. I g s \<Longrightarrow> plus_elapsed s = (b, s') \<Longrightarrow> I g s'"
    and weaken: "\<And>g s. I g s \<Longrightarrow> I False s"
  shows "I got st \<Longrightarrow> loop_ok I bad (plus_send_loop c payload limit n xmit entry got st)"
proof (induction "nat (limit - int n)" arbitrary: n xmit entry got st rule: less_induct)
  case less
  note unfold = plus_send_loop.simps [of c payload limit n xmit entry got st]
  show ?case
  proof (cases "int n \<ge> limit")
    case True
    with less.prems show ?thesis by (simp add: unfold loop_ok_def)
  next
    case False
    define go where "go = (\<lambda>entry st1.
           if noanswer (lp_intf st1) then Inr (True, got, st1)
           else case plus_wait_turn c payload entry got st1 of
             Turn_error e \<Rightarrow> Inl e
           | Turn_answer g st2 \<Rightarrow> Inr (True, g, st2)
           | Turn_next g st2 \<Rightarrow>
               (case plus_elapsed st2 of (x, st3) \<Rightarrow> plus_send_loop c payload limit (tries_after payload n st3) x entry g st3))"
    have go: "loop_ok I bad (go e s)" if "I got s" for e s
    proof (cases "plus_wait_turn c payload e got s")
      case (Turn_next g st2)
      obtain x st3 where x: "plus_elapsed st2 = (x, st3)" by fastforce
      have "I g st2" using turn [OF that, of e] Turn_next by (simp add: turn_ok_def)
      moreover have "nat (limit - int (tries_after payload n st3)) < nat (limit - int n)"
        using False by (auto simp: tries_after_def)
      ultimately have "loop_ok I bad (plus_send_loop c payload limit (tries_after payload n st3) x e g st3)"
        using late x less.hyps by blast
      with Turn_next x that show ?thesis by (simp add: go_def loop_ok_def)
    qed (use turn [OF that, of e] that in \<open>simp_all add: go_def loop_ok_def turn_ok_def\<close>)
    have eq: "plus_send_loop c payload limit n xmit entry got st =
      (if xmit then (case plus_build c payload n st of Inl e \<Rightarrow> Inl e
          | Inr ((entry', m), st0) \<Rightarrow> (case lanp_send_packet m st0 of (False, st1) \<Rightarrow> Inr (False, False, st1) | (True, st1) \<Rightarrow> go entry' st1))
       else go entry st)"
      using False unfolding unfold go_def by (simp only: Let_def if_False)
    show ?thesis
    proof (cases xmit)
      case True
      show ?thesis
      proof (cases "plus_build c payload n st")
        case (Inl e)
        with build [OF less.prems, of n] True eq show ?thesis by (simp add: loop_ok_def)
      next
        case (Inr y)
        then obtain e m st0 where y: "plus_build c payload n st = Inr ((e, m), st0)" by (cases y) auto
        obtain b st1 where b: "lanp_send_packet m st0 = (b, st1)" by fastforce
        from build [OF less.prems, of n] y b have "I got st1" by simp
        with True y b eq go weaken show ?thesis by (cases b) (auto simp: loop_ok_def)
      qed
    next
      case False
      with eq go less.prems show ?thesis by simp
    qed
  qed
qed

lemma send_loop_net:
  assumes "plus_send_loop c payload limit n xmit entry False st = Inr (r, g, st')"
  shows "length (lp_net st') \<le> length (lp_net st) \<and> (g \<longrightarrow> length (lp_net st') < length (lp_net st))"
proof -
  define I where "I = (\<lambda>g (s :: lanplus_state). length (lp_net s) \<le> length (lp_net st) \<and> (g \<longrightarrow> length (lp_net s) < length (lp_net st)))"
  have "loop_ok I (\<lambda>_. False) (plus_send_loop c payload limit n xmit entry False st)"
  proof (rule send_loop_rule)
    show "turn_ok I (\<lambda>_. False) (plus_wait_turn c payload e g s)" if "I g s" for g s e
      using that wait_turn_net [of c payload e g s] unfolding turn_ok_def I_def by (fastforce split: plus_turn.split)
  qed (auto simp: I_def elapsed_net split: sum.split dest!: build_net send_packet_net)
  with assms show ?thesis by (simp add: loop_ok_def I_def)
qed


section \<open>Opening and closing\<close>

definition cipher_order_preferred :: "nat list" where "cipher_order_preferred = [17, 3]"

definition ipmi_find_best_cipher_suite :: "crypto \<Rightarrow> lanplus_state \<Rightarrow> lanplus_error + nat \<times> lanplus_state" where
  "ipmi_find_best_cipher_suite c st =
     sum_bind (ipmi_get_channel_cipher_suites (plus_sendrecv c) ''ipmi'' 0x0E MAX_CIPHER_SUITE_COUNT st) (\<lambda>(suites, st1).
       Inr (case suites of
              None \<Rightarrow> 3
            | Some ss \<Rightarrow> (case filter (\<lambda>n. n \<in> set (map cs_id ss)) cipher_order_preferred of [] \<Rightarrow> 3 | n # _ \<Rightarrow> n), st1))"

definition ipmi_lanplus_close :: "crypto \<Rightarrow> lanplus_state \<Rightarrow> lanplus_error + lanplus_state" where
  "ipmi_lanplus_close c st =
     sum_bind (if \<not> abort (lp_intf st) \<and> session (lp_intf st) \<noteq> None then plus_close_session_cmd c st else Inr (0, st)) (\<lambda>(_, st1).
       let st2 = plus_mod_intf (\<lambda>i. if fd i \<ge> 0 then i\<lparr>fd := -1\<rparr> else i) st1;
           st3 = plus_mod_intf ipmi_intf_session_cleanup (st2\<lparr>lp_requests := []\<rparr>)
       in Inr (plus_mod_intf (\<lambda>i. i\<lparr>opened := False, manufacturer_id := 0\<rparr>) st3))"

text \<open>The size of an encrypted payload; the subtraction is one of 16 bits.\<close>

definition lanp_max_size :: "ipmi_intf \<Rightarrow> u16 \<Rightarrow> u16" where
  "lanp_max_size intf sz = (if cipher_suite_id (ssn_params intf) = 3 then (sz AND NOT 15) - (16 + 1) else sz)"

definition ipmi_lanp_set_max_rq_data_size :: "ipmi_intf \<Rightarrow> u16 \<Rightarrow> ipmi_intf" where
  "ipmi_lanp_set_max_rq_data_size intf sz = intf\<lparr>max_request_data_size := lanp_max_size intf sz\<rparr>"

definition ipmi_lanp_set_max_rp_data_size :: "ipmi_intf \<Rightarrow> u16 \<Rightarrow> ipmi_intf" where
  "ipmi_lanp_set_max_rp_data_size intf sz = intf\<lparr>max_response_data_size := lanp_max_size intf sz\<rparr>"

definition ipmi_lanplus_setup :: "bool \<Rightarrow> ipmi_intf \<Rightarrow> int \<times> ipmi_intf" where
  "ipmi_lanplus_setup seeded intf =
     (if \<not> seeded then (-1, intf) else (0, intf\<lparr>max_request_data_size := 38, max_response_data_size := 34\<rparr>))"

definition plus_defaults :: "ipmi_session_params \<Rightarrow> ipmi_session_params" where
  "plus_defaults p = p\<lparr>port := (if port p = 0 then 0x26F else port p), privlvl := (if privlvl p = 0 then 4 else privlvl p),
     timeout := (if timeout p = 0 then 1 else timeout p), retry := (if retry p = 0 then 4 else retry p)\<rparr>"

definition new_v2 :: v2_data where
  "new_v2 = \<lparr>session_state = PRESESSION, requested_auth_alg = 0, requested_integrity_alg = 0, requested_crypt_alg = 0,
     auth_alg = 0, integrity_alg = 0, crypt_alg = 0, max_priv_level = 0, console_id = 0, bmc_id = 0, console_rand = replicate 16 0,
     bmc_rand = replicate 16 0, bmc_guid = replicate 16 0, requested_role = 0, rakp2_return_code = 0,
     sik = replicate IPMI_MAX_MD_SIZE 0, sik_len = 0, k1 = replicate IPMI_MAX_MD_SIZE 0, k1_len = 0,
     k2 = replicate IPMI_MAX_MD_SIZE 0, k2_len = 0\<rparr>"

text \<open>One attempt at the session: Open Session, RAKP 1 and 2, RAKP 3 and 4.\<close>

definition plus_attempt :: "crypto \<Rightarrow> lanplus_state \<Rightarrow> lanplus_error + int \<times> lanplus_state" where
  "plus_attempt c st =
     sum_bind (ipmi_lanplus_open_session c (plus_upd_v2 (\<lambda>v. v\<lparr>session_state := PRESESSION\<rparr>) st)) (\<lambda>(rc, st1).
       if rc = 1 then Inr (1, st1) else if rc = 2 then Inr (2, st1)
       else sum_bind (ipmi_lanplus_rakp1 c st1) (\<lambda>(rc, st2).
         if rc = 1 then Inr (1, st2) else if rc = 2 then Inr (2, st2)
         else ipmi_lanplus_rakp3 c st2))"

text \<open>
  The loop of \<open>ipmi_lanplus_open\<close>: whether to go on. It ends after a success and also, without
  one, when all attempts have timed out.
\<close>

fun plus_attempts :: "crypto \<Rightarrow> nat \<Rightarrow> lanplus_state \<Rightarrow> lanplus_error + bool \<times> lanplus_state" where
  "plus_attempts c 0 st = Inr (True, st)"
| "plus_attempts c (Suc n) st =
     sum_bind (plus_attempt c st) (\<lambda>(rc, st1).
       if rc = 1 then Inr (False, st1) else if rc = 0 then Inr (True, st1) else plus_attempts c n st1)"

definition plus_open_fail :: "crypto \<Rightarrow> lanplus_state \<Rightarrow> lanplus_error + int \<times> lanplus_state" where
  "plus_open_fail c st = sum_bind (ipmi_lanplus_close c st) (\<lambda>st'. Inr (-1, st'))"

definition plus_open_detect :: "crypto \<Rightarrow> u32 \<Rightarrow> lanplus_state \<Rightarrow> lanplus_error + int \<times> lanplus_state" where
  "plus_open_detect c sel_iana st =
     (let st0 = plus_mod_intf (\<lambda>i. i\<lparr>abort := False\<rparr>) st
      in if lp_oem st = Some ''i82571spt'' then Inr (fd (lp_intf st0), st0\<lparr>lp_bridge_possible := True\<rparr>)
         else sum_bind (plus_set_session_privlvl_cmd c st0) (\<lambda>(rc, st1).
           if rc < 0 then plus_open_fail c st1
           else sum_bind (hpm2_detect_max_payload_size (plus_sendrecv c) plus_mod_intf
               (Some ipmi_lanp_set_max_rq_data_size) (Some ipmi_lanp_set_max_rp_data_size) st1) (\<lambda>(_, st2).
             sum_bind (ipmi_get_oem (plus_sendrecv c) sel_iana (lp_intf st2) (st2\<lparr>lp_bridge_possible := True\<rparr>)) (\<lambda>(oem, st3).
               let st4 = plus_mod_intf (\<lambda>i. i\<lparr>manufacturer_id := oem\<rparr>) st3 in Inr (fd (lp_intf st4), st4)))))"

text \<open>Whether the BMC says that it supports IPMI 2.0.\<close>

definition plus_supported :: "crypto \<Rightarrow> lanplus_state \<Rightarrow> lanplus_error + bool \<times> lanplus_state" where
  "plus_supported c st =
     (if lp_oem st = Some ''i82571spt'' then Inr (True, st)
      else sum_bind (plus_get_auth_capabilities_cmd c st) (\<lambda>(cap, st1).
        Inr (case cap of None \<Rightarrow> False | Some d \<Rightarrow> d ! 1 AND 0x80 \<noteq> 0, st1)))"

definition plus_choose_suite :: "crypto \<Rightarrow> lanplus_state \<Rightarrow> lanplus_error + lanplus_state" where
  "plus_choose_suite c st =
     (if cipher_suite_id (ssn_params (lp_intf st)) = 0xFF
      then sum_bind (ipmi_find_best_cipher_suite c st) (\<lambda>(n, st1).
        Inr (plus_mod_intf (\<lambda>i. ipmi_intf_session_set_cipher_suite_id i n) st1))
      else Inr st)"

definition plus_open_session :: "crypto \<Rightarrow> u32 \<Rightarrow> lanplus_state \<Rightarrow> lanplus_error + int \<times> lanplus_state" where
  "plus_open_session c sel_iana st =
     sum_bind (plus_supported c st) (\<lambda>(ok, st1).
       if \<not> ok then plus_open_fail c st1
       else sum_bind (plus_choose_suite c st1) (\<lambda>st2.
         sum_bind (plus_attempts c 4 st2) (\<lambda>(go, st3). if go then plus_open_detect c sel_iana st3 else plus_open_fail c st3)))"

definition ipmi_lanplus_open :: "crypto \<Rightarrow> lan_os \<Rightarrow> lanplus_state \<Rightarrow> lanplus_error + int \<times> lanplus_state" where
  "ipmi_lanplus_open c os st =
     (if opened (lp_intf st) then Inr (fd (lp_intf st), st)
      else
        (let st1 = plus_mod_intf (\<lambda>i. i\<lparr>ssn_params := plus_defaults (ssn_params i)\<rparr>) st; p = ssn_params (lp_intf st1)
         in if (case hostname p of None \<Rightarrow> True | Some h \<Rightarrow> length h = 0) then Inr (-1, st1)
            else
              (let (rc, d) = os_connect os p (fd (lp_intf st1)); st2 = plus_mod_intf (\<lambda>i. i\<lparr>fd := d\<rparr>) st1
               in if rc = -1 then plus_open_fail c st2
                  else plus_open_session c (os_sel_iana os)
                    ((plus_mod_intf (\<lambda>i. i\<lparr>session := Some (new_session p), opened := True, abort := True\<rparr>) st2)\<lparr>lp_v2 := new_v2\<rparr>))))"


section \<open>Requests of the callers\<close>

lemma send_open_net:
  "plus_send_open c payload st = Inr (g, st') \<Longrightarrow>
     length (lp_net st') \<le> length (lp_net st) \<and> (g \<longrightarrow> length (lp_net st') < length (lp_net st))"
  unfolding plus_send_open_def
  by (auto simp: sum_bind_Inr plus_upd_session_def split: option.splits if_splits dest: send_loop_net)

text \<open>
  The pointer to the session is read before the interface is opened, so a request that opens
  it dereferences a null pointer. An interface that is not open has no session.
\<close>

definition ipmi_lanplus_send_payload :: "crypto \<Rightarrow> lan_os \<Rightarrow> v2_payload \<Rightarrow> lanplus_state \<Rightarrow> lanplus_error + bool \<times> lanplus_state" where
  "ipmi_lanplus_send_payload c os payload st =
     (if opened (lp_intf st) then plus_send_open c payload st
      else sum_bind (ipmi_lanplus_open c os st) (\<lambda>(rc, st1).
        if rc < 0 then Inr (False, st1)
        else if session (lp_intf st) = None then Inl No_session
        else plus_send_open c payload st1))"

definition ipmi_lanplus_send_ipmi_cmd :: "crypto \<Rightarrow> lan_os \<Rightarrow> ipmi_rq \<Rightarrow> lanplus_state \<Rightarrow> lanplus_error + bool \<times> lanplus_state" where
  "ipmi_lanplus_send_ipmi_cmd c os req st = ipmi_lanplus_send_payload c os (Payload_ipmi req 0) st"

text \<open>
  Sending on an open interface, as a session of serial over LAN does: what the BMC did not
  accept is sent again, until it answers that it cannot receive, or not at all.
\<close>

definition sol_refused :: "plus_rs \<Rightarrow> lanplus_error + bool" where
  "sol_refused r = sum_bind (sol_of r) (\<lambda>s. Inr (so_transfer_unavailable s \<noteq> 0 \<or> so_is_nack s \<noteq> 0))"

function plus_resend_loop :: "crypto \<Rightarrow> sol_packet \<Rightarrow> bool \<Rightarrow> lanplus_state \<Rightarrow> lanplus_error + bool \<times> sol_packet \<times> lanplus_state" where
  "plus_resend_loop c p got st =
     (case plus_partial_ack (lp_oem st) p got (lp_rsp st) of
        Inl e \<Rightarrow> Inl e
      | Inr chars_to_resend \<Rightarrow>
          if \<not> got then Inr (got, p, st)
          else (case (sol_of (lp_rsp st), sol_refused (lp_rsp st)) of
                  (Inr s, Inr refused) \<Rightarrow>
                    if refused \<or> chars_to_resend = 0 then Inr (got, p, st)
                    else
                      (case plus_set_sol_seq p (if p_data_len (lp_rsp st) \<noteq> 0 then plus_sol_input st else st) of
                         Inl e \<Rightarrow> Inl e
                       | Inr (p1, st1) \<Rightarrow>
                           (let a = unat (so_accepted_character_count s);
                                p2 = p1\<lparr>sp_data := put_at 0 (take chars_to_resend (drop a (sp_data p1))) (sp_data p1),
                                        sp_character_count := chars_to_resend\<rparr>
                            in case plus_send_open c (Payload_sol p2) st1 of
                                 Inl e \<Rightarrow> Inl e
                               | Inr (got', st2) \<Rightarrow> plus_resend_loop c p2 got' st2))
                | _ \<Rightarrow> Inl Union_confusion))"
  by pat_completeness auto
termination
proof (relation "measure (\<lambda>(_, _, got, st). 2 * length (lp_net st) + (if got then 1 else 0))", goal_cases)
  case 1
  show ?case by simp
next
  case (2 c p got st n x y s refused z p1 st1 a p2 w got' st2)
  then have "lp_net st1 = lp_net st"
    by (auto simp: plus_set_sol_seq_def plus_sol_input_def plus_upd_session_def Let_def split: option.splits if_splits)
  moreover from 2 have "length (lp_net st2) \<le> length (lp_net st1) \<and> (got' \<longrightarrow> length (lp_net st2) < length (lp_net st1))"
    by (auto dest: send_open_net)
  ultimately show ?case using 2 by auto
qed

declare plus_resend_loop.simps [simp del]

definition ipmi_lanplus_send_sol :: "crypto \<Rightarrow> sol_packet \<Rightarrow> lanplus_state \<Rightarrow> lanplus_error + bool \<times> sol_packet \<times> lanplus_state" where
  "ipmi_lanplus_send_sol c p st =
     sum_bind (plus_set_sol_seq (p\<lparr>sp_acked_packet_number := 0\<rparr>) st) (\<lambda>(p1, st1).
       let p2 = p1\<lparr>sp_accepted_character_count := 0\<rparr>
       in sum_bind (plus_send_open c (Payload_sol p2) st1) (\<lambda>(got, st2). plus_resend_loop c p2 got st2))"

text \<open>Serial over LAN data that arrive instead of the answer are handled; without an answer the session is taken to be alive.\<close>

function keepalive_loop :: "crypto \<Rightarrow> bool \<Rightarrow> lanplus_state \<Rightarrow> lanplus_error + int \<times> lanplus_state" where
  "keepalive_loop c got st =
     (if plus_is_sol got (lp_rsp st)
      then (case plus_ack_sol_packet c got st of
              Inl e \<Rightarrow> Inl e
            | Inr st1 \<Rightarrow>
                (case plus_check_new_data got st1 of
                   Inl e \<Rightarrow> Inl e
                 | Inr st2 \<Rightarrow>
                     (let st3 = (if p_data_len (lp_rsp st2) \<noteq> 0 then plus_sol_input st2 else st2)
                      in case lanp_poll_recv c st3 of
                           Inl e \<Rightarrow> Inl e
                         | Inr (got', st4) \<Rightarrow> if \<not> got' then Inr (0, st4) else keepalive_loop c got' st4)))
      else Inr (if \<not> got \<or> p_ccode (lp_rsp st) \<noteq> 0 then -1 else 0, st))"
  by pat_completeness auto
termination
  by (relation "measure (\<lambda>(_, _, st). length (lp_net st))")
    (auto simp: plus_sol_input_def dest!: ack_sol_net check_new_data_net poll_recv_got_net split: if_splits)

declare keepalive_loop.simps [simp del]

definition ipmi_lanplus_keepalive :: "crypto \<Rightarrow> lanplus_state \<Rightarrow> lanplus_error + int \<times> lanplus_state" where
  "ipmi_lanplus_keepalive c st =
     (if \<not> opened (lp_intf st) then Inr (0, st)
      else sum_bind (plus_send_open c (Payload_ipmi (mk_rq 0x06 1 []) 0) st) (\<lambda>(got, st1). keepalive_loop c got st1))"

definition ipmiv2_lan_ping :: "crypto \<Rightarrow> lanplus_state \<Rightarrow> lanplus_error + int \<times> lanplus_state" where
  "ipmiv2_lan_ping c st =
     (case lanp_send_packet (rmcp_hdr RMCP_CLASS_ASF @ [0x00, 0x00, 0x11, 0xBE, 0x80, 0, 0, 0]) st of
        (False, st1) \<Rightarrow> Inr (-1, st1)
      | (True, st1) \<Rightarrow> sum_bind (lanp_poll_recv c st1) (\<lambda>(got, st2). Inr (if got then 1 else 0, st2)))"

end
