(* ===== verification/Lanplus_Packets.thy ===== *)
theory Lanplus_Packets
  imports Lanplus_Session
begin

text \<open>
  Packets of an RMCP+ session between the two sides: a packet a BMC builds by the
  specification is read back by the transport, and what is read in an authenticated packet of
  an active session had the authentication code of the session.
\<close>

section \<open>Headers\<close>

text \<open>The header of a packet: payload type with its flags, session and sequence number, length of the payload.\<close>

definition plus_hdr :: "byte \<Rightarrow> u32 \<Rightarrow> u32 \<Rightarrow> nat \<Rightarrow> byte list" where
  "plus_hdr t sid q n = rmcp_hdr RMCP_CLASS_IPMI @ [AUTHTYPE_RMCP_PLUS, t] @ le32 sid @ le32 q @ [word_of_nat n, word_of_nat (n div 256)]"

lemma length_plus_hdr [simp]: "length (plus_hdr t sid q n) = 16"
  by (simp add: plus_hdr_def rmcp_hdr_def)

lemma plus_hdr_nth:
  "plus_hdr t sid q n ! 3 = 7" "plus_hdr t sid q n ! 4 = 6" "plus_hdr t sid q n ! 5 = t"
  "i < 4 \<Longrightarrow> plus_hdr t sid q n ! (6 + i) = le32 sid ! i" "i < 4 \<Longrightarrow> plus_hdr t sid q n ! (10 + i) = le32 q ! i"
  "plus_hdr t sid q n ! 14 = word_of_nat n" "plus_hdr t sid q n ! 15 = word_of_nat (n div 256)"
  by (simp_all add: plus_hdr_def rmcp_hdr_def nth_append)

lemma of_le32_nth: "of_le32 [le32 w ! 0, le32 w ! Suc 0, le32 w ! 2, le32 w ! 3] = w"
proof -
  have "[le32 w ! 0, le32 w ! 1, le32 w ! 2, le32 w ! 3] = le32 w" by (simp add: le32_def)
  then show ?thesis by simp
qed

lemma le16_value: "n < 65536 \<Longrightarrow> unat (word_of_nat n :: byte) + 256 * unat (word_of_nat (n div 256) :: byte) = n"
  by (simp add: unat_of_nat)

lemma recv_plus_packet:
  assumes "lp_net st = Net_packet bs # es" and "bs \<noteq> []" and "length bs \<le> IPMI_BUF_SIZE" and "length (p_data (lp_rsp st)) = IPMI_BUF_SIZE"
  shows "\<exists>st1. lanp_recv_packet st = (True, st1) \<and> st1 = st\<lparr>lp_net := es, lp_rsp := lp_rsp st1\<rparr>
    \<and> lp_rsp st1 = (lp_rsp st)\<lparr>p_data := p_data (lp_rsp st1), p_data_len := int (length bs)\<rparr>
    \<and> length (p_data (lp_rsp st1)) = IPMI_BUF_SIZE \<and> take (length bs) (p_data (lp_rsp st1)) = bs
    \<and> (\<forall>i<length bs. at_data (lp_rsp st1) i = bs ! i)"
proof -
  define d where "d = (put_at 0 bs (p_data (lp_rsp st)))[length bs := 0]"
  have d: "length d = IPMI_BUF_SIZE" "take (length bs) d = bs"
    using assms by (simp_all add: d_def put_at_def)
  then have "d ! i = bs ! i" if "i < length bs" for i using that by (metis nth_take)
  with assms d show ?thesis
    by (simp add: lanp_recv_packet_def lanp_store_def Let_def d_def [symmetric] at_data_def)
qed

lemma read_header:
  assumes "lp_net st = Net_packet (plus_hdr t sid q n @ body) # es" and "16 + length body \<le> IPMI_BUF_SIZE"
    and "length (p_data (lp_rsp st)) = IPMI_BUF_SIZE" and "n < 65536"
  obtains st1 r where "lanp_recv_packet st = (True, st1)" and "at_data (lp_rsp st1) 3 = RMCP_CLASS_IPMI" and "lp_v2 st1 = lp_v2 st"
    and "read_session_data 4 (lp_rsp st1) = (r, 16)" and "st1\<lparr>lp_rsp := r\<rparr> = st\<lparr>lp_net := es, lp_rsp := r\<rparr>"
    and "p_authtype r = 6" and "p_bEncrypted r = (t AND 0x80 \<noteq> 0)" and "p_bAuthenticated r = (t AND 0x40 \<noteq> 0)"
    and "p_payloadtype r = t AND 0x3F" and "p_id r = sid" and "p_msglen r = n" and "p_data_len r = int (16 + length body)"
    and "length (p_data r) = IPMI_BUF_SIZE" and "take (16 + length body) (p_data r) = plus_hdr t sid q n @ body"
    and "p_ccode r = p_ccode (lp_rsp st)"
proof -
  let ?bs = "plus_hdr t sid q n @ body"
  have "?bs \<noteq> []" "length ?bs \<le> IPMI_BUF_SIZE" using assms(2) length_plus_hdr [of t sid q n] by (simp_all add: plus_hdr_def)
  from recv_plus_packet [OF assms(1) this assms(3)] obtain st1 where
    st1: "lanp_recv_packet st = (True, st1)" "st1 = st\<lparr>lp_net := es, lp_rsp := lp_rsp st1\<rparr>"
    and rsp: "lp_rsp st1 = (lp_rsp st)\<lparr>p_data := p_data (lp_rsp st1), p_data_len := int (length ?bs)\<rparr>"
    and len: "length (p_data (lp_rsp st1)) = IPMI_BUF_SIZE" "take (length ?bs) (p_data (lp_rsp st1)) = ?bs"
    and at: "\<forall>i<length ?bs. at_data (lp_rsp st1) i = ?bs ! i" by blast
  let ?r0 = "lp_rsp st1"
  have h: "at_data ?r0 i = plus_hdr t sid q n ! i" if "i < 16" for i using at that by (simp add: nth_append)
  have sid: "le32_at ?r0 6 = sid"
    using h [of 6] h [of 7] h [of 8] h [of 9] plus_hdr_nth(4) [of 0 t sid q n] plus_hdr_nth(4) [of 1 t sid q n]
      plus_hdr_nth(4) [of 2 t sid q n] plus_hdr_nth(4) [of 3 t sid q n] by (simp add: le32_at_def of_le32_nth)
  define r where "r = ?r0\<lparr>p_authtype := 6, p_bEncrypted := (t AND 0x80 \<noteq> 0), p_bAuthenticated := (t AND 0x40 \<noteq> 0), p_payloadtype := t AND 0x3F,
        p_id := sid, p_seq := le32_at ?r0 10, p_msglen := n\<rparr>"
  have "read_session_data 4 ?r0 = (r, 16)"
    using le16_value [OF assms(4)] h [of 4] h [of 5] h [of 14] h [of 15] sid
    by (simp add: read_session_data_def read_session_data_v2x_def plus_hdr_nth r_def)
  moreover have "st1\<lparr>lp_rsp := r\<rparr> = st\<lparr>lp_net := es, lp_rsp := r\<rparr>" by (subst st1(2)) simp
  moreover have "lp_v2 st1 = lp_v2 st" by (subst st1(2)) simp
  moreover have "p_ccode r = p_ccode (lp_rsp st)" "p_data_len r = int (16 + length body)" unfolding r_def by (subst rsp, simp)+
  moreover have "p_data r = p_data ?r0" by (simp add: r_def)
  ultimately show ?thesis using that [OF st1(1) _ _ _ _, of r] h [of 3] len by (simp add: plus_hdr_nth r_def)
qed


section \<open>Packets that are accepted\<close>

text \<open>
  What \<open>lanp_poll_recv\<close> may return in an active session: an answer to a ping, a packet of IPMI 1.5,
  or an RMCP+ packet for this console whose code, if it is marked as authenticated, is that of
  the session.
\<close>

definition session_packet :: "crypto \<Rightarrow> v2_data \<Rightarrow> byte list \<Rightarrow> bool" where
  "session_packet c v bs \<longleftrightarrow> of_le32 (take 4 (drop 6 bs)) = console_id v
     \<and> (bs ! 5 AND 0x40 \<noteq> 0 \<and> integrity_alg v \<noteq> INTEGRITY_NONE \<longrightarrow>
          (\<exists>n mac. lanplus_authcode_length (integrity_alg v) = Inr n \<and> n \<le> length mac
            \<and> lanplus_HMAC c (integrity_alg v) (take (k1_len v) (k1 v)) (take (length bs - 4 - n) (drop 4 bs)) = Inr mac
            \<and> drop (length bs - n) bs = take n mac))"

definition sized_packet :: "net_ev \<Rightarrow> bool" where
  "sized_packet e = (case e of Net_packet bs \<Rightarrow> 16 \<le> length bs \<and> length bs \<le> IPMI_BUF_SIZE | _ \<Rightarrow> True)"

lemma store_packet:
  assumes "sized_packet (Net_packet bs)" and "length (p_data (lp_rsp st)) = IPMI_BUF_SIZE" and "lanp_store bs st = (b, st1)"
  shows "b \<and> (\<exists>r. st1 = st\<lparr>lp_rsp := r\<rparr> \<and> p_data_len r = int (length bs) \<and> length (p_data r) = IPMI_BUF_SIZE
    \<and> take (length bs) (p_data r) = bs \<and> (\<forall>i<length bs. at_data r i = bs ! i))"
proof -
  from assms(1,2) have "lp_net (st\<lparr>lp_net := [Net_packet bs]\<rparr>) = Net_packet bs # []" "bs \<noteq> []" "length bs \<le> IPMI_BUF_SIZE"
    "length (p_data (lp_rsp (st\<lparr>lp_net := [Net_packet bs]\<rparr>))) = IPMI_BUF_SIZE" by (auto simp: sized_packet_def)
  then obtain st2 where "lanp_recv_packet (st\<lparr>lp_net := [Net_packet bs]\<rparr>) = (True, st2)"
    "lp_rsp st2 = (lp_rsp st)\<lparr>p_data := p_data (lp_rsp st2), p_data_len := int (length bs)\<rparr>"
    "length (p_data (lp_rsp st2)) = IPMI_BUF_SIZE" "take (length bs) (p_data (lp_rsp st2)) = bs"
    "\<forall>i<length bs. at_data (lp_rsp st2) i = bs ! i" using recv_plus_packet [of "st\<lparr>lp_net := [Net_packet bs]\<rparr>" bs "[]"] by auto
  with assms(3) show ?thesis
    by (auto simp: lanp_recv_packet_def lanp_store_def Let_def split: if_splits)
qed

lemma recv_some:
  assumes "lanp_recv_packet st = (True, st1)" and "\<forall>e\<in>set (lp_net st). sized_packet e" and "length (p_data (lp_rsp st)) = IPMI_BUF_SIZE"
  shows "\<exists>es bs r. lp_net st = es @ Net_packet bs # lp_net st1 \<and> st1 = st\<lparr>lp_net := lp_net st1, lp_rsp := r\<rparr> \<and> sized_packet (Net_packet bs)
    \<and> p_data_len r = int (length bs) \<and> length (p_data r) = IPMI_BUF_SIZE
    \<and> take (length bs) (p_data r) = bs \<and> (\<forall>i<length bs. at_data r i = bs ! i)"
proof -
  from assms(1) obtain es bs es' where net: "lp_net st = es @ Net_packet bs # es'" "lanp_store bs (st\<lparr>lp_net := es'\<rparr>) = (True, st1)"
    by (auto simp: lanp_recv_packet_def split: list.splits net_ev.splits) (metis append_Cons append_Nil)+
  with assms(2) have "sized_packet (Net_packet bs)" by simp
  from store_packet [OF this _ net(2)] assms(3) obtain r where "st1 = st\<lparr>lp_net := es', lp_rsp := r\<rparr>"
    "p_data_len r = int (length bs)" "length (p_data r) = IPMI_BUF_SIZE" "take (length bs) (p_data r) = bs" "\<forall>i<length bs. at_data r i = bs ! i"
    by auto
  with net(1) \<open>sized_packet (Net_packet bs)\<close> show ?thesis by (intro exI [of _ es] exI [of _ bs] exI [of _ r]) simp
qed


text \<open>The response array keeps its size.\<close>

abbreviation (input) wf_plus :: "lanplus_state \<Rightarrow> bool" where
  "wf_plus st \<equiv> length (p_data (lp_rsp st)) = IPMI_BUF_SIZE"

lemma decrypt_length:
  assumes "crypto_ok c" and "lanplus_decrypt_payload c alg key input = Inr (d, n)"
  shows "length d \<le> length input"
proof -
  have "length d = length e" if "aes_decrypt c iv k e = Some d" for iv k e d using assms(1) that by (simp add: crypto_ok_def)
  then have "length d \<le> length e" if "lanplus_decrypt_aes_cbc_128 c iv k e = Inr d" for iv k e d
    using that by (auto simp: lanplus_decrypt_aes_cbc_128_def split: if_splits option.splits)
  with assms(2) show ?thesis
    by (auto simp: lanplus_decrypt_payload_def sum_bind_Inr Let_def split: if_splits) fastforce
qed

lemma decrypt_packet_wf:
  assumes "crypto_ok c" and "decrypt_packet c v offset r = Inr (r', n)" and "length (p_data r) = IPMI_BUF_SIZE"
  shows "length (p_data r') = IPMI_BUF_SIZE"
  using assms(2,3) decrypt_length [OF assms(1)]
  by (fastforce simp: decrypt_packet_def sum_bind_Inr intro!: length_put_at split: if_splits)

lemma shift_data_wf: "shift_data offset n r = Inr r' \<Longrightarrow> length (p_data r) = IPMI_BUF_SIZE \<Longrightarrow> length (p_data r') = IPMI_BUF_SIZE"
  by (auto simp: shift_data_def length_put_at split: if_splits)

definition pass_wf :: "ipmi_pass \<Rightarrow> bool" where
  "pass_wf p \<longleftrightarrow> (case p of Pass_done _ st \<Rightarrow> wf_plus st | Pass_again _ st \<Rightarrow> wf_plus st | Pass_error _ \<Rightarrow> True)"

lemma plus_remove_rsp [simp]: "lp_rsp (plus_remove q k st) = lp_rsp st" "lp_rsp (plus_upd i f st) = lp_rsp st"
  by (simp_all add: plus_remove_def plus_upd_def split: option.split)

lemma finish_pass_wf: "wf_plus st \<Longrightarrow> pass_wf (finish_pass offset n loop ir st)"
  by (auto simp: finish_pass_def Let_def pass_wf_def shift_data_wf split: sum.split)

lemma read_pass_wf: "wf_plus st \<Longrightarrow> pass_wf (read_pass start n st)"
  by (auto simp: read_pass_def read_ipmi_response_def Let_def split: option.split intro!: finish_pass_wf) (simp_all add: pass_wf_def)

lemma ipmi_loop_wf: "ipmi_loop start n st = Inr (p, st') \<Longrightarrow> wf_plus st \<Longrightarrow> wf_plus st'"
proof (induction start n st rule: ipmi_loop.induct)
  case (1 start n st)
  then show ?case using read_pass_wf [of st start n]
    by (cases "read_pass start n st") (auto simp: ipmi_loop.simps [of start n st] pass_wf_def)
qed

lemma poll_payload_wf: "poll_payload offset n st = Inr (p, st') \<Longrightarrow> wf_plus st \<Longrightarrow> wf_plus st'"
  unfolding poll_payload_def Let_def
  by (auto simp: sum_bind_Inr read_open_session_response_def read_rakp2_message_def read_rakp4_message_def read_sol_packet_def Let_def
      split: if_splits option.splits dest: ipmi_loop_wf shift_data_wf)

lemma read_session_data_wf: "read_session_data offset r = (r', n) \<Longrightarrow> p_data r' = p_data r \<and> p_data_len r' = p_data_len r \<and> p_ccode r' = p_ccode r"
  by (auto simp: read_session_data_def read_session_data_v2x_def read_session_data_v15_def split: if_splits)


lemma plus_net_upd [simp]: "lp_net (plus_remove q k st) = lp_net st" "lp_net (plus_upd i f st) = lp_net st"
  by (simp_all add: plus_remove_def plus_upd_def split: option.split)

definition pass_net :: "net_ev list \<Rightarrow> ipmi_pass \<Rightarrow> bool" where
  "pass_net es p \<longleftrightarrow> (case p of Pass_done _ st \<Rightarrow> lp_net st = es | Pass_again _ st \<Rightarrow> lp_net st = es | Pass_error _ \<Rightarrow> True)"

lemma finish_pass_net: "lp_net st = es \<Longrightarrow> pass_net es (finish_pass offset n loop ir st)"
  by (auto simp: finish_pass_def Let_def pass_net_def split: sum.split)

lemma read_pass_net: "pass_net (lp_net st) (read_pass start n st)"
  by (auto simp: read_pass_def read_ipmi_response_def Let_def split: option.split intro!: finish_pass_net) (simp_all add: pass_net_def)

lemma ipmi_loop_net: "ipmi_loop start n st = Inr (p, st') \<Longrightarrow> lp_net st' = lp_net st"
proof (induction start n st rule: ipmi_loop.induct)
  case (1 start n st)
  then show ?case using read_pass_net [of st start n]
    by (cases "read_pass start n st") (auto simp: ipmi_loop.simps [of start n st] pass_net_def)
qed

lemma poll_payload_net: "poll_payload offset n st = Inr (p, st') \<Longrightarrow> lp_net st' = lp_net st"
  unfolding poll_payload_def Let_def
  by (auto simp: sum_bind_Inr read_sol_packet_def Let_def split: if_splits dest: ipmi_loop_net)

lemma take_le32_at:
  assumes "\<forall>i<length bs. at_data r i = bs ! i" and "k + 4 \<le> length bs"
  shows "le32_at r k = of_le32 (take 4 (drop k bs))"
  using assms by (simp add: le32_at_def of_le32_def)

lemma poll_single_session:
  assumes "crypto_ok c" and poll: "lanp_poll_single c st = Inr (p, st')" and wf: "wf_plus st" and "session_state (lp_v2 st) = ACTIVE"
    and sized: "\<forall>e\<in>set (lp_net st). sized_packet e"
  shows "wf_plus st' \<and> (p \<noteq> Poll_null \<longrightarrow> (\<exists>es bs. lp_net st = es @ Net_packet bs # lp_net st' \<and> sized_packet (Net_packet bs)
     \<and> (p = Poll_rsp \<longrightarrow> bs ! 3 = RMCP_CLASS_ASF \<or> bs ! 4 \<noteq> AUTHTYPE_RMCP_PLUS \<or> session_packet c (lp_v2 st) bs)))"
proof (cases "lanp_recv_packet st")
  case (Pair b st1)
  show ?thesis
  proof (cases b)
    case False
    have "wf_plus st1" using Pair False wf
      by (auto simp: lanp_recv_packet_def lanp_store_def Let_def split: list.splits net_ev.splits if_splits)
    with Pair False poll show ?thesis by (auto simp: lanp_poll_single_def)
  next
    case True
    with Pair have rp: "lanp_recv_packet st = (True, st1)" by simp
    from recv_some [OF rp sized wf] obtain es bs r0 where bs: "lp_net st = es @ Net_packet bs # lp_net st1" "st1 = st\<lparr>lp_net := lp_net st1, lp_rsp := r0\<rparr>"
      "sized_packet (Net_packet bs)" "p_data_len r0 = int (length bs)" "length (p_data r0) = IPMI_BUF_SIZE"
      "take (length bs) (p_data r0) = bs" and at: "\<forall>i<length bs. at_data r0 i = bs ! i" by blast
    have r0: "lp_rsp st1 = r0" and v: "lp_v2 st1 = lp_v2 st" by (subst bs(2), simp)+
    obtain r offset where r: "read_session_data 4 r0 = (r, offset)" by fastforce
    have rd: "p_data r = p_data r0" "p_data_len r = p_data_len r0" using read_session_data_wf [OF r] by simp_all
    have l16: "16 \<le> length bs" using bs(3) by (simp add: sized_packet_def)
    have id: "p_authtype r = 6 \<Longrightarrow> p_id r = of_le32 (take 4 (drop 6 bs)) \<and> p_bAuthenticated r = (bs ! 5 AND 0x40 \<noteq> 0)"
      and at4: "p_authtype r = bs ! 4"
      using r at l16 take_le32_at [OF at, of 6]
      by (auto simp: read_session_data_def read_session_data_v2x_def read_session_data_v15_def split: if_splits)
    have packet: "session_packet c (lp_v2 st) bs"
      if "p_authtype r = 6" "p_id r = console_id (lp_v2 st)"
        "lanplus_has_valid_auth_code c (p_authtype r) (p_bAuthenticated r) (take (nat (p_data_len r)) (p_data r)) (lp_v2 st) = Inr True"
      using that id bs(4,6) rd assms(4)
      by (auto simp: session_packet_def lanplus_has_valid_auth_code_def sum_bind_Inr split: if_splits)
    have wf1: "wf_plus st1" using bs(5) r0 by simp
    have pp: "wf_plus st' \<and> lp_net st' = lp_net st1"
      if "poll_payload offset n (st1\<lparr>lp_rsp := r'\<rparr>) = Inr (p, st')" "length (p_data r') = IPMI_BUF_SIZE" for n r'
      using poll_payload_net [OF that(1)] poll_payload_wf [OF that(1)] that(2) by simp
    have st': "wf_plus st' \<and> lp_net st' = lp_net st1"
      using poll Pair True r r0 v rd wf1 bs(5)
      by (auto simp: lanp_poll_single_def Let_def sum_bind_Inr split: if_splits
          dest!: decrypt_packet_wf [OF assms(1)] dest: pp)
    have "p = Poll_rsp \<longrightarrow> bs ! 3 = RMCP_CLASS_ASF \<or> bs ! 4 \<noteq> AUTHTYPE_RMCP_PLUS \<or> session_packet c (lp_v2 st) bs"
      using poll Pair True r r0 v at l16 at4 packet assms(4)
      by (auto simp: lanp_poll_single_def Let_def sum_bind_Inr split: if_splits)
    with st' bs(1,3) show ?thesis by metis
  qed
qed


lemma poll_recv_session:
  assumes "crypto_ok c"
  shows "lanp_poll_recv c st = Inr (True, st') \<Longrightarrow> wf_plus st \<Longrightarrow> session_state (lp_v2 st) = ACTIVE \<Longrightarrow> \<forall>e\<in>set (lp_net st). sized_packet e \<Longrightarrow>
    \<exists>es bs. lp_net st = es @ Net_packet bs # lp_net st'
      \<and> (bs ! 3 = RMCP_CLASS_ASF \<or> bs ! 4 \<noteq> AUTHTYPE_RMCP_PLUS \<or> session_packet c (lp_v2 st) bs)"
proof (induction "length (lp_net st)" arbitrary: st rule: less_induct)
  case less
  note rec = lanp_poll_recv.simps [of c st]
  show ?case
  proof (cases "lanp_poll_single c st")
    case (Inl e)
    with less.prems(1) show ?thesis by (simp add: rec)
  next
    case (Inr x)
    then obtain p st1 where x: "lanp_poll_single c st = Inr (p, st1)" by (cases x) auto
    note s = poll_single_session [OF assms x less.prems(2-4)]
    show ?thesis
    proof (cases p)
      case Poll_null
      with less.prems(1) x show ?thesis by (simp add: rec)
    next
      case Poll_rsp
      with less.prems(1) x s show ?thesis by (auto simp: rec)
    next
      case Poll_again
      with s obtain es bs where n: "lp_net st = es @ Net_packet bs # lp_net st1" by auto
      have "lp_v2 st1 = lp_v2 st" using poll_single_frame [OF x] plus_frame_fields by auto
      with less.hyps [of st1] less.prems n s x Poll_again
      have "\<exists>es bs. lp_net st1 = es @ Net_packet bs # lp_net st'
        \<and> (bs ! 3 = RMCP_CLASS_ASF \<or> bs ! 4 \<noteq> AUTHTYPE_RMCP_PLUS \<or> session_packet c (lp_v2 st) bs)"
        by (simp add: rec)
      then show ?thesis unfolding n by (metis append.assoc append_Cons)
    qed
  qed
qed

text \<open>
  C5: In an active session \<open>ipmi_lan_poll_recv\<close> returns only an answer to a ping, a packet in the
  format of IPMI 1.5, or an RMCP+ packet that carries the number of this session and, when it
  is marked as authenticated in a session with an integrity algorithm, the code the algorithm
  computes for it with K1; all other packets before it are discarded.
\<close>

theorem plus_poll_authentic:
  assumes "crypto_ok c" and "lanp_poll_recv c st = Inr (True, st')" and "length (p_data (lp_rsp st)) = IPMI_BUF_SIZE"
    and "session_state (lp_v2 st) = ACTIVE" and "\<forall>e\<in>set (lp_net st). sized_packet e"
  shows "\<exists>es bs. lp_net st = es @ Net_packet bs # lp_net st'
    \<and> (bs ! 3 = RMCP_CLASS_ASF \<or> bs ! 4 \<noteq> AUTHTYPE_RMCP_PLUS \<or> session_packet c (lp_v2 st) bs)"
  by (rule poll_recv_session [OF assms])


section \<open>Packets of a BMC\<close>

text \<open>
  The packet a BMC sends in a session (sections 13.6 and 13.28 of the specification): payload
  encrypted under K2 with a random vector, integrity pad to a multiple of four bytes, code
  under K1 of everything from the session type on.
\<close>

definition bmc_crypt :: "crypto \<Rightarrow> v2_data \<Rightarrow> byte list \<Rightarrow> byte list \<Rightarrow> byte list" where
  "bmc_crypt c v iv body =
     (if crypt_alg v = CRYPT_NONE then body else iv @ the (aes_encrypt c iv (take 16 (k2 v)) (padded body)))"

definition bmc_mac :: "crypto \<Rightarrow> v2_data \<Rightarrow> byte list \<Rightarrow> byte list" where
  "bmc_mac c v d =
     (let key = take (k1_len v) (k1 v)
      in if integrity_alg v = INTEGRITY_HMAC_SHA1_96 then take 12 (hmac_sha1 c key d)
         else if integrity_alg v = INTEGRITY_HMAC_MD5_128 then hmac_md5 c key d
         else take 16 (hmac_sha256 c key d))"

definition bmc_trailer :: "crypto \<Rightarrow> v2_data \<Rightarrow> byte list \<Rightarrow> byte list" where
  "bmc_trailer c v pre =
     (if integrity_alg v = INTEGRITY_NONE then []
      else let k = (4 - (length pre + 2) mod 4) mod 4; t = replicate k 0xFF @ [word_of_nat k, 7] in t @ bmc_mac c v (pre @ t))"

definition bmc_packet :: "crypto \<Rightarrow> v2_data \<Rightarrow> byte list \<Rightarrow> u32 \<Rightarrow> byte \<Rightarrow> byte list \<Rightarrow> byte list" where
  "bmc_packet c v iv q t body =
     (let e = bmc_crypt c v iv body;
          hdr = plus_hdr (t OR (if crypt_alg v \<noteq> CRYPT_NONE then 0x80 else 0) OR (if integrity_alg v \<noteq> INTEGRITY_NONE then 0x40 else 0))
            (console_id v) q (length e)
      in hdr @ e @ bmc_trailer c v (drop 4 hdr @ e))"

text \<open>The algorithms the code implements.\<close>

definition algs_ok :: "v2_data \<Rightarrow> bool" where
  "algs_ok v \<longleftrightarrow> (crypt_alg v = CRYPT_NONE \<or> crypt_alg v = CRYPT_AES_CBC_128)
     \<and> (integrity_alg v = INTEGRITY_NONE \<or> integrity_alg v = INTEGRITY_HMAC_SHA1_96 \<or> integrity_alg v = INTEGRITY_HMAC_MD5_128
        \<or> integrity_alg v = INTEGRITY_HMAC_SHA256_128)"

lemma bmc_mac_HMAC:
  assumes "crypto_ok c" and "algs_ok v" and "integrity_alg v \<noteq> INTEGRITY_NONE"
  shows "\<exists>n mac. lanplus_authcode_length (integrity_alg v) = Inr n \<and> lanplus_HMAC c (integrity_alg v) (take (k1_len v) (k1 v)) d = Inr mac
    \<and> n \<le> length mac \<and> bmc_mac c v d = take n mac \<and> n \<le> 16"
  using assms by (auto simp: algs_ok_def lanplus_authcode_length_def lanplus_HMAC_def bmc_mac_def Let_def crypto_lengths)

lemma bmc_trailer_length: "crypto_ok c \<Longrightarrow> length (bmc_trailer c v pre) \<le> 21"
proof -
  assume "crypto_ok c"
  then have "length (bmc_mac c v d) \<le> 16" for d by (simp add: bmc_mac_def Let_def crypto_lengths)
  moreover have "(4 - (length pre + 2) mod 4) mod 4 \<le> 3" using mod_less_divisor [of 4 "4 - (length pre + 2) mod 4"] by linarith
  ultimately show ?thesis unfolding bmc_trailer_def Let_def by (auto intro!: add_mono [of _ 3 _ 16, simplified])
qed

lemma bmc_code_valid:
  assumes "crypto_ok c" and "algs_ok v" and "length h = 4"
  shows "lanplus_has_valid_auth_code c 6 (integrity_alg v \<noteq> INTEGRITY_NONE) (h @ pre @ bmc_trailer c v pre) v = Inr True"
proof (cases "session_state v = ACTIVE \<and> integrity_alg v \<noteq> INTEGRITY_NONE")
  case True
  define k where "k = (4 - (length pre + 2) mod 4) mod 4"
  define d where "d = pre @ replicate k 0xFF @ [word_of_nat k, 7]"
  obtain n mac where m: "lanplus_authcode_length (integrity_alg v) = Inr n" "lanplus_HMAC c (integrity_alg v) (take (k1_len v) (k1 v)) d = Inr mac"
    "n \<le> length mac" "bmc_mac c v d = take n mac" using bmc_mac_HMAC [OF assms(1,2), of d] True by blast
  have "h @ pre @ bmc_trailer c v pre = h @ d @ take n mac"
    using True m(4) by (simp add: bmc_trailer_def Let_def k_def d_def)
  with True m assms(3) show ?thesis by (simp add: lanplus_has_valid_auth_code_def)
next
  case False
  then show ?thesis by (auto simp: lanplus_has_valid_auth_code_def)
qed

lemma bmc_crypt_decrypt:
  assumes "crypto_ok c" and "algs_ok v" and "length iv = 16" and "16 \<le> length (k2 v)"
  shows "\<exists>d. lanplus_decrypt_payload c (crypt_alg v) (k2 v) (bmc_crypt c v iv body) = Inr (d, length body)
    \<and> take (length body) d = body \<and> length d \<le> length (bmc_crypt c v iv body) \<and> length (bmc_crypt c v iv body) \<le> length body + 32"
proof (cases "crypt_alg v = CRYPT_NONE")
  case True
  then show ?thesis by (simp add: bmc_crypt_def lanplus_decrypt_payload_def)
next
  case False
  with assms(2) have alg: "crypt_alg v = CRYPT_AES_CBC_128" by (auto simp: algs_ok_def)
  have "length (padded body) mod 16 = 0" using pad_length_block [of "length body"] by (simp only: length_padded)
  with crypto_aes [OF assms(1,3), of "take 16 (k2 v)" "padded body"] assms(4) obtain e where
    e: "aes_encrypt c iv (take 16 (k2 v)) (padded body) = Some e" "length e = length (padded body)" by (auto simp: padded_def)
  from encrypt_aes_padded [OF assms(1,3,4), of body] obtain e' where e': "lanplus_encrypt_aes_cbc_128 c iv (k2 v) (padded body) = Inr e'"
    "lanplus_decrypt_aes_cbc_128 c iv (k2 v) e' = Inr (padded body)" by blast
  have "e' = e" using e' e(1) by (auto simp: lanplus_encrypt_aes_cbc_128_def padded_def split: if_splits)
  with decrypt_payload_padded [OF assms(3)] e'(2) alg False e assms(3) pad_length_less [of "length body"] show ?thesis
    by (simp add: bmc_crypt_def length_padded take_padded)
qed


lemma ipmi_answer:
  assumes "wf_plus st" and "24 + length dat \<le> IPMI_BUF_SIZE"
    and body: "take (8 + length dat) (drop 16 (p_data (lp_rsp st))) = ipmb_msg a nf b sb cmd (cc # dat)"
    and found: "plus_find (drop_bit 2 sb) cmd st = Some i" and level: "e_bridging_level (snd (lp_requests st ! i)) = 0"
  shows "\<exists>st'. ipmi_loop 16 (8 + length dat) st = Inr (Poll_rsp, st') \<and> p_ccode (lp_rsp st') = cc \<and> p_data_len (lp_rsp st') = int (length dat)
    \<and> take (length dat) (p_data (lp_rsp st')) = dat \<and> lp_requests st' = take i (lp_requests st) @ drop (Suc i) (lp_requests st)
    \<and> lp_net st' = lp_net st"
proof -
  let ?r = "lp_rsp st" and ?m = "ipmb_msg a nf b sb cmd (cc # dat)"
  have at: "at_data ?r (16 + k) = ?m ! k" if "k < 8 + length dat" for k
  proof -
    have "?m ! k = take (8 + length dat) (drop 16 (p_data ?r)) ! k" using body by simp
    also have "\<dots> = p_data ?r ! (16 + k)" using that assms(1,2) by simp
    finally show ?thesis using that assms(2) by (simp add: at_data_def)
  qed
  have dat: "take (length dat) (drop 23 (p_data ?r)) = dat"
  proof -
    have "drop 7 (take (8 + length dat) (drop 16 (p_data ?r))) = drop 7 ?m" using body by simp
    then have "take (Suc (length dat)) (drop 23 (p_data ?r)) = dat @ drop (length dat) (drop 7 ?m)"
      by (simp add: ipmb_msg_def drop_take)
    then show ?thesis by (metis append_eq_conv_conj take_take min_def le_SucI order_refl)
  qed
  define ir where "ir = \<lparr>ir_rq_addr = at_data ?r 16, ir_netfn = drop_bit 2 (at_data ?r 17),
          ir_rq_lun = at_data ?r 17 AND 3, ir_rs_addr = at_data ?r 19, ir_rq_seq = drop_bit 2 sb,
          ir_rs_lun = sb AND 3, ir_cmd = cmd\<rparr>"
  define r1 where "r1 = ?r\<lparr>p_payload := Ipmi_response ir, p_ccode := cc\<rparr>"
  have rd: "read_ipmi_response 16 ?r = (r1, 23)"
    using at [of 4] at [of 5] at [of 6] by (simp add: read_ipmi_response_def r1_def ir_def ipmb_msg_def)
  let ?st1 = "st\<lparr>lp_rsp := r1\<rparr>"
  have f: "plus_find (drop_bit 2 sb) cmd ?st1 = Some i" using found by (simp add: plus_find_def)
  have pass: "read_pass 16 (8 + length dat) st = finish_pass 23 (8 + length dat) False ir ?st1"
    using f level by (simp add: read_pass_def rd r1_def ir_def Let_def)
  have rem: "plus_remove (ir_rq_seq ir) (ir_cmd ir) ?st1 = ?st1\<lparr>lp_requests := take i (lp_requests st) @ drop (Suc i) (lp_requests st)\<rparr>"
    using f by (simp add: plus_remove_def ir_def)
  show ?thesis
  proof (cases "dat = []")
    case True
    then show ?thesis unfolding ipmi_loop.simps [of 16 "8 + length dat" st] pass finish_pass_def rem by (simp add: r1_def)
  next
    case False
    then have "shift_data 23 (length dat) r1 = Inr (r1\<lparr>p_data := put_at 0 dat (p_data ?r), p_data_len := int (length dat)\<rparr>)"
      using assms(2) dat by (simp add: shift_data_def r1_def)
    with False show ?thesis
      unfolding ipmi_loop.simps [of 16 "8 + length dat" st] pass finish_pass_def rem by (simp add: r1_def take_put_at0)
  qed
qed


lemma flags_read:
  defines "t \<equiv> \<lambda>b a. (0 :: byte) OR (if b then 0x80 else 0) OR (if a then 0x40 else 0)"
  shows "t b a AND 0x80 \<noteq> 0 \<longleftrightarrow> b" and "t b a AND 0x40 \<noteq> 0 \<longleftrightarrow> a" and "t b a AND 0x3F = 0"
  unfolding t_def by (cases b; cases a; simp)+

lemma plus_response_accepted:
  assumes "crypto_ok c" and "length (p_data (lp_rsp st)) = IPMI_BUF_SIZE" and "v = lp_v2 st" and "session_state v = ACTIVE" and "algs_ok v"
    and "16 \<le> length (k2 v)" and "length iv = 16" and "length dat \<le> 900"
    and "lp_net st = Net_packet (bmc_packet c v iv q PAYLOAD_IPMI (ipmb_msg a nf b sb cmd (cc # dat))) # es"
    and "plus_find (drop_bit 2 sb) cmd st = Some i" and "e_bridging_level (snd (lp_requests st ! i)) = 0"
  shows "\<exists>st'. lanp_poll_recv c st = Inr (True, st') \<and> p_ccode (lp_rsp st') = cc \<and> p_data_len (lp_rsp st') = int (length dat)
    \<and> take (length dat) (p_data (lp_rsp st')) = dat \<and> lp_requests st' = take i (lp_requests st) @ drop (Suc i) (lp_requests st)
    \<and> lp_net st' = es"
proof -
  let ?body = "ipmb_msg a nf b sb cmd (cc # dat)"
  define e where "e = bmc_crypt c v iv ?body"
  define t where "t = (0 :: byte) OR (if crypt_alg v \<noteq> CRYPT_NONE then 0x80 else 0) OR (if integrity_alg v \<noteq> INTEGRITY_NONE then 0x40 else 0)"
  define hdr where "hdr = plus_hdr t (console_id v) q (length e)"
  define tr where "tr = bmc_trailer c v (drop 4 hdr @ e)"
  have lb: "length ?body = 8 + length dat" by (simp add: ipmb_msg_def)
  obtain d where d: "lanplus_decrypt_payload c (crypt_alg v) (k2 v) e = Inr (d, 8 + length dat)" "take (8 + length dat) d = ?body"
    "length d \<le> length e" "length e \<le> 40 + length dat"
    using bmc_crypt_decrypt [OF assms(1,5,7,6), of ?body] lb unfolding e_def by auto
  have len: "16 + length (e @ tr) \<le> IPMI_BUF_SIZE"
    using d(4) assms(8) bmc_trailer_length [OF assms(1), of v "drop 4 hdr @ e"] by (simp add: tr_def IPMI_BUF_SIZE_def)
  have net: "lp_net st = Net_packet (plus_hdr t (console_id v) q (length e) @ e @ tr) # es"
    using assms(9) by (simp add: bmc_packet_def Let_def e_def t_def tr_def hdr_def)
  have ne: "length e < 65536" using d(4) assms(8) by simp
  from read_header [OF net len assms(2) ne] obtain st1 r where
    st1: "lanp_recv_packet st = (True, st1)" "at_data (lp_rsp st1) 3 = RMCP_CLASS_IPMI" "lp_v2 st1 = lp_v2 st"
      "read_session_data 4 (lp_rsp st1) = (r, 16)" "st1\<lparr>lp_rsp := r\<rparr> = st\<lparr>lp_net := es, lp_rsp := r\<rparr>"
    and r: "p_authtype r = 6" "p_bEncrypted r = (t AND 0x80 \<noteq> 0)" "p_bAuthenticated r = (t AND 0x40 \<noteq> 0)"
      "p_payloadtype r = t AND 0x3F" "p_id r = console_id v" "p_msglen r = length e" "p_data_len r = int (16 + length (e @ tr))"
      "length (p_data r) = IPMI_BUF_SIZE" "take (16 + length (e @ tr)) (p_data r) = plus_hdr t (console_id v) q (length e) @ e @ tr" by blast
  have fl: "t AND 0x80 \<noteq> 0 \<longleftrightarrow> crypt_alg v \<noteq> CRYPT_NONE" "t AND 0x40 \<noteq> 0 \<longleftrightarrow> integrity_alg v \<noteq> INTEGRITY_NONE" "t AND 0x3F = 0"
    unfolding t_def by (rule flags_read)+
  have "take 4 hdr @ (drop 4 hdr @ e) @ tr = hdr @ e @ tr" by (metis append.assoc append_take_drop_id)
  moreover have "length (take 4 hdr) = 4" by (simp add: hdr_def)
  ultimately have valid: "lanplus_has_valid_auth_code c 6 (integrity_alg v \<noteq> INTEGRITY_NONE) (hdr @ e @ tr) v = Inr True"
    using bmc_code_valid [OF assms(1,5), of "take 4 hdr" "drop 4 hdr @ e"] unfolding tr_def [symmetric] by metis
  have de: "take (length e) (drop 16 (p_data r)) = e"
    using arg_cong [OF r(9), of "\<lambda>x. take (length e) (drop 16 x)"] by (simp add: drop_take)
  define r' where "r' = (if crypt_alg v \<noteq> CRYPT_NONE then r\<lparr>p_data := put_at 16 d (p_data r)\<rparr> else r)"
  have dp: "decrypt_packet c v 16 r = Inr (r', 8 + length dat)"
  proof (cases "crypt_alg v = CRYPT_NONE")
    case True
    then show ?thesis using fl r lb by (simp add: decrypt_packet_def r'_def e_def bmc_crypt_def)
  next
    case False
    then show ?thesis using fl r de d(1) assms(4) len by (simp add: decrypt_packet_def r'_def)
  qed
  have body: "take (8 + length dat) (drop 16 (p_data r')) = ?body"
  proof (cases "crypt_alg v = CRYPT_NONE")
    case True
    then have "e = ?body" by (simp add: e_def bmc_crypt_def)
    with True de lb show ?thesis by (simp add: r'_def)
  next
    case False
    have "length ?body \<le> length d" by (subst d(2) [symmetric]) simp
    with False d(2) r(8) lb show ?thesis by (simp add: r'_def put_at_def IPMI_BUF_SIZE_def)
  qed
  have wf': "length (p_data r') = IPMI_BUF_SIZE" using decrypt_packet_wf [OF assms(1) dp r(8)] .
  let ?st2 = "st\<lparr>lp_net := es, lp_rsp := r'\<rparr>"
  have pt: "p_payloadtype r' = 0" using r(4) fl(3) by (simp add: r'_def)
  have "24 + length dat \<le> IPMI_BUF_SIZE" using assms(8) by (simp add: IPMI_BUF_SIZE_def)
  from ipmi_answer [of ?st2 dat a nf b sb cmd cc i, OF _ this _] wf' body assms(10,11) obtain st' where
    st': "ipmi_loop 16 (8 + length dat) ?st2 = Inr (Poll_rsp, st')" "p_ccode (lp_rsp st') = cc" "p_data_len (lp_rsp st') = int (length dat)"
      "take (length dat) (p_data (lp_rsp st')) = dat" "lp_requests st' = take i (lp_requests st) @ drop (Suc i) (lp_requests st)" "lp_net st' = es"
    by (auto simp: plus_find_def)
  have "take (nat (p_data_len r)) (p_data r) = hdr @ e @ tr" using r(7,9) by (simp only: nat_int hdr_def)
  then have "lanp_poll_single c st = Inr (Poll_rsp, st')"
    using st1 r(1-6) fl valid dp pt st'(1) assms(3) arg_cong [OF st1(5), of "\<lambda>s. s\<lparr>lp_rsp := r'\<rparr>"]
    by (simp add: lanp_poll_single_def poll_payload_def Let_def)
  with st' show ?thesis by (simp add: lanp_poll_recv.simps [of c st])
qed

text \<open>
  C4: In an active session a packet that the BMC builds by the specification around the response to an
  outstanding direct request (encrypted under K2, padded, with the code under K1, with any
  combination of the algorithms the code implements) is accepted: completion code and data
  are those of the response, and the request is removed from the list.
\<close>

theorem plus_response_roundtrip:
  assumes "crypto_ok c" and "length (p_data (lp_rsp st)) = IPMI_BUF_SIZE" and "v = lp_v2 st" and "session_state v = ACTIVE" and "algs_ok v"
    and "16 \<le> length (k2 v)" and "length iv = 16" and "length dat \<le> 900"
    and "lp_net st = Net_packet (bmc_packet c v iv q PAYLOAD_IPMI (ipmb_msg a nf b sb cmd (cc # dat))) # es"
    and "plus_find (drop_bit 2 sb) cmd st = Some i" and "e_bridging_level (snd (lp_requests st ! i)) = 0"
  shows "\<exists>st'. lanp_poll_recv c st = Inr (True, st') \<and> p_ccode (lp_rsp st') = cc \<and> p_data_len (lp_rsp st') = int (length dat)
    \<and> take (length dat) (p_data (lp_rsp st')) = dat \<and> lp_requests st' = take i (lp_requests st) @ drop (Suc i) (lp_requests st)
    \<and> lp_net st' = es"
  by (rule plus_response_accepted [OF assms])


text \<open>A session for examples, with one outstanding request (Get Device ID).\<close>

definition active_v2 :: v2_data where
  "active_v2 = plus_v2\<lparr>session_state := ACTIVE, k1 := replicate 32 7, k1_len := 20, k2 := replicate 32 8\<rparr>"

definition active_plus :: "net_ev list \<Rightarrow> lanplus_state" where
  "active_plus es = \<lparr>lp_intf = \<lparr>intf_name = ''lanplus'', devfile = None, fd = 3, opened = True, abort = False, noanswer = False,
       manufacturer_id = 0, ssn_params = plus_params, session = Some plus_session, my_addr = 0x20, target_addr = 0x20, target_channel = 0,
       transit_addr = 0, transit_channel = 0, max_request_data_size = 38, max_response_data_size = 34\<rparr>,
     lp_v2 = active_v2, lp_oem = None, lp_requests = [(0, rq_new (mk_rq 0x06 0x01 []) 3)], lp_brk = 1, lp_bridge_possible = False,
     lp_curr_seq = 3,
     lp_rsp = \<lparr>p_ccode = 0, p_data = replicate IPMI_BUF_SIZE 0, p_data_len = 0, p_authtype = 0, p_seq = 0, p_id = 0, p_bEncrypted = False,
       p_bAuthenticated = False, p_payloadtype = 0, p_msglen = 0,
       p_payload = Rakp4_message \<lparr>r4_message_tag = 0, r4_rakp_return_code = 0, r4_console_id = 0, r4_integrity_check_value = []\<rparr>\<rparr>,
     lp_sol_last_seq = 0, lp_sol_last_count = 0, lp_net = es, lp_sends = [], lp_rand = [], lp_late = [], lp_out = [], lp_sol_input = []\<rparr>"

definition device_id_packet :: "byte list" where
  "device_id_packet = bmc_packet sample_crypto active_v2 (replicate 16 9) 1 PAYLOAD_IPMI (ipmb_msg 0x81 0x1C 0x20 0x0C 0x01 (0 # [0x20, 0x81, 2]))"

lemma active_plus_facts:
  "length (p_data (lp_rsp (active_plus es))) = IPMI_BUF_SIZE" "lp_v2 (active_plus es) = active_v2" "session_state active_v2 = ACTIVE"
  "algs_ok active_v2" "length (k2 active_v2) = 32" "lp_net (active_plus es) = es"
  by (simp_all add: active_plus_def active_v2_def plus_v2_def algs_ok_def)

lemma active_plus_request:
  "plus_find (drop_bit 2 0x0C) 0x01 (active_plus es) = Some 0" "e_bridging_level (snd (lp_requests (active_plus es) ! 0)) = 0"
  by (simp_all add: active_plus_def plus_find_def entry_matches_def rq_new_def mk_rq_def drop_bit_eq_div)

abbreviation (input) device_id_plus :: lanplus_state where
  "device_id_plus \<equiv> active_plus [Net_packet device_id_packet]"

lemma device_id_hyps:
  "length (p_data (lp_rsp device_id_plus)) = IPMI_BUF_SIZE" "active_v2 = lp_v2 device_id_plus" "session_state active_v2 = ACTIVE"
  "algs_ok active_v2" "16 \<le> length (k2 active_v2)" "length (replicate 16 (9 :: byte)) = 16" "length [0x20, 0x81, 2 :: byte] \<le> 900"
  "lp_net device_id_plus = [Net_packet (bmc_packet sample_crypto active_v2 (replicate 16 9) 1 PAYLOAD_IPMI
     (ipmb_msg 0x81 0x1C 0x20 0x0C 0x01 (0 # [0x20, 0x81, 2])))]"
  "plus_find (drop_bit 2 0x0C) 0x01 device_id_plus = Some 0" "e_bridging_level (snd (lp_requests device_id_plus ! 0)) = 0"
  by (simp_all only: active_plus_facts active_plus_request device_id_packet_def) simp_all

theorem plus_response_roundtrip_witness:
  "\<exists>st'. lanp_poll_recv sample_crypto device_id_plus = Inr (True, st') \<and> p_ccode (lp_rsp st') = 0
    \<and> take 3 (p_data (lp_rsp st')) = [0x20, 0x81, 2] \<and> lp_net st' = []"
proof -
  have "length [0x20, 0x81, 2 :: byte] = 3" by simp
  with plus_response_roundtrip [OF sample_crypto_ok device_id_hyps] show ?thesis by metis
qed

lemma bmc_packet_length:
  assumes "crypto_ok c" and "algs_ok v" and "length iv = 16" and "16 \<le> length (k2 v)"
  shows "16 \<le> length (bmc_packet c v iv q t body) \<and> length (bmc_packet c v iv q t body) \<le> length body + 69"
proof -
  have "length (bmc_crypt c v iv body) \<le> length body + 32" using bmc_crypt_decrypt [OF assms, of body] by blast
  moreover have "length (bmc_trailer c v pre) \<le> 21" for pre by (rule bmc_trailer_length [OF assms(1)])
  ultimately have "length (bmc_crypt c v iv body) + length (bmc_trailer c v pre) \<le> length body + 32 + 21" for pre by (intro add_mono)
  then show ?thesis by (simp add: bmc_packet_def Let_def)
qed

lemma device_id_packet_size: "sized_packet (Net_packet device_id_packet)"
  using bmc_packet_length [OF sample_crypto_ok active_plus_facts(4), of "replicate 16 9" 1 PAYLOAD_IPMI
      "ipmb_msg 0x81 0x1C 0x20 0x0C 0x01 (0 # [0x20, 0x81, 2])"]
  unfolding device_id_packet_def [symmetric] by (simp add: sized_packet_def ipmb_msg_def active_plus_facts IPMI_BUF_SIZE_def)

theorem plus_poll_authentic_witness: "session_packet sample_crypto active_v2 device_id_packet"
proof -
  let ?st = device_id_plus
  have hdr: "device_id_packet ! 3 = 7" "device_id_packet ! 4 = 6"
    by (simp_all add: device_id_packet_def bmc_packet_def Let_def nth_append plus_hdr_nth)
  obtain st' where st': "lanp_poll_recv sample_crypto ?st = Inr (True, st')"
    using plus_response_accepted [OF sample_crypto_ok device_id_hyps] by blast
  from plus_poll_authentic [OF sample_crypto_ok st'] device_id_packet_size obtain es bs where
    "[Net_packet device_id_packet] = es @ Net_packet bs # lp_net st'" "bs ! 3 = 6 \<or> bs ! 4 \<noteq> 6 \<or> session_packet sample_crypto active_v2 bs"
    by (auto simp: active_plus_facts)
  with hdr show ?thesis by (cases es) auto
qed

end
