(* ===== verification/Lanplus_Handshake.thy ===== *)
theory Lanplus_Handshake
  imports Lanplus_Packets
begin

text \<open>
  The setup of an RMCP+ session: what an attempt that succeeds has checked, that the union of
  payload data is read as the member that was written, and that an attempt against a BMC that
  follows the specification succeeds with the keys of the BMC.
\<close>

section \<open>Sending a message of the setup\<close>

lemma await_frame: "plus_await c st = Inr (got, st') \<Longrightarrow> plus_frame st st'"
proof (induction c st rule: plus_await.induct)
  case (1 c st)
  show ?case
  proof (cases "lanp_poll_recv c st")
    case (Inr x)
    then obtain g st1 where x: "lanp_poll_recv c st = Inr (g, st1)" by (cases x) auto
    note fr = poll_recv_plus_frame [OF x]
    from 1(2) x consider "plus_await c st1 = Inr (got, st')" "g" "p_ccode (lp_rsp st1) = 0xCF" | "st' = st1"
      by (auto simp: plus_await.simps [of c st] split: if_splits)
    then show ?thesis
    proof cases
      case a: 1
      with 1(1) [OF x refl] fr show ?thesis by (blast intro: plus_frame_trans)
    qed (use fr in simp)
  qed (use 1(2) in \<open>simp add: plus_await.simps [of c st]\<close>)
qed

definition with_state :: "lanplus_session_state \<Rightarrow> lanplus_state \<Rightarrow> lanplus_state" where
  "with_state x st = st\<lparr>lp_v2 := (lp_v2 st)\<lparr>session_state := x\<rparr>\<rparr>"

definition restored :: "ipmi_session \<Rightarrow> lanplus_state \<Rightarrow> lanplus_state" where
  "restored s = plus_upd_session (\<lambda>s'. s'\<lparr>s_timeout := s_timeout s\<rparr>)"

lemma setup_build:
  assumes "sent_state payload = Some x" and "plus_build c payload n st = Inr ((e, m), st1)"
  shows "e = None \<and> ipmi_lanplus_build_v2x_msg c payload 0 st = Inr (m, st1)"
  using assms by (auto simp: plus_build_def sent_state_def Let_def sum_bind_Inr split: v2_payload.splits if_splits)

lemma build_msg_params:
  "ipmi_lanplus_build_v2x_msg c payload q st = Inr (m, st') \<Longrightarrow> ssn_params (lp_intf st') = ssn_params (lp_intf st) \<and> noanswer (lp_intf st') = noanswer (lp_intf st)"
  by (auto simp: plus_upd_session_def dest!: build_msg_state)

text \<open>A message of the setup is sent once.\<close>

lemma setup_send_open:
  assumes x: "sent_state payload = Some x" and s: "session (lp_intf st) = Some s"
  shows "plus_send_open c payload st =
    (if retry (ssn_params (lp_intf st)) \<le> 0 then Inr (False, restored s st)
     else case plus_build c payload 0 st of
       Inl e \<Rightarrow> Inl e
     | Inr ((_, m), st0) \<Rightarrow>
         (case lanp_send_packet m st0 of
            (False, st1) \<Rightarrow> Inr (False, st1)
          | (True, st1) \<Rightarrow>
              if noanswer (lp_intf st) then Inr (False, restored s st1)
              else case plus_await c (with_state x st1) of
                Inl e \<Rightarrow> Inl e
              | Inr (True, st2) \<Rightarrow> Inr (True, restored s st2)
              | Inr (False, st2) \<Rightarrow> Inr (False, restored s (snd (plus_elapsed st2)))))"
proof (cases "retry (ssn_params (lp_intf st)) \<le> 0")
  case True
  then show ?thesis using s
    by (simp add: plus_send_open_def plus_send_loop.simps [of c payload _ 0] restored_def)
next
  case False
  let ?limit = "retry (ssn_params (lp_intf st))"
  have turn: "plus_wait_turn c payload None False st1 =
      (case plus_await c (with_state x st1) of
         Inl e \<Rightarrow> Turn_error e | Inr (True, st2) \<Rightarrow> Turn_answer True st2 | Inr (False, st2) \<Rightarrow> Turn_next False st2)" for st1
    using x by (auto simp: plus_wait_turn_def with_state_def plus_drop_entry_def Let_def sent_state_def
        split: v2_payload.splits sum.split prod.split bool.split)
  have last: "plus_send_loop c payload ?limit (tries_after payload 0 st3) b None False st3 = Inr (True, False, st3)"
    if "ssn_params (lp_intf st3) = ssn_params (lp_intf st)" for b st3
  proof -
    have "int (tries_after payload 0 st3) \<ge> ?limit" using x False that by (simp add: tries_after_def)
    then show ?thesis by (simp add: plus_send_loop.simps [of c payload ?limit "tries_after payload 0 st3"])
  qed
  show ?thesis
  proof (cases "plus_build c payload 0 st")
    case (Inl e)
    with False s show ?thesis by (simp add: plus_send_open_def plus_send_loop.simps [of c payload ?limit 0])
  next
    case (Inr y)
    then obtain e m st0 where y: "plus_build c payload 0 st = Inr ((e, m), st0)" by (cases y) auto
    from setup_build [OF x y] have e: "e = None" and b: "ipmi_lanplus_build_v2x_msg c payload 0 st = Inr (m, st0)" by auto
    obtain ok st1 where ok: "lanp_send_packet m st0 = (ok, st1)" by fastforce
    from build_msg_params [OF b] send_packet_state [OF ok] have
      p: "ssn_params (lp_intf st1) = ssn_params (lp_intf st)" "noanswer (lp_intf st1) = noanswer (lp_intf st)" by auto
    have p2: "ssn_params (lp_intf st2) = ssn_params (lp_intf st)" if "plus_await c (with_state x st1) = Inr (g, st2)" for g st2
      using plus_frame_fields(1) [OF await_frame [OF that]] p by (simp add: with_state_def)
    have p3: "ssn_params (lp_intf st3) = ssn_params (lp_intf st)"
      if "plus_await c (with_state x st1) = Inr (g, st2)" "plus_elapsed st2 = (b, st3)" for g st2 b st3
      using p2 [OF that(1)] retry_elapsed [OF that(2)] by simp
    have loop: "plus_send_loop c payload ?limit 0 True None False st =
        (if \<not> ok then Inr (False, False, st1)
         else if noanswer (lp_intf st1) then Inr (True, False, st1)
         else case plus_wait_turn c payload None False st1 of
           Turn_error e \<Rightarrow> Inl e
         | Turn_answer g st2 \<Rightarrow> Inr (True, g, st2)
         | Turn_next g st2 \<Rightarrow>
             (case plus_elapsed st2 of (b, st3) \<Rightarrow> plus_send_loop c payload ?limit (tries_after payload 0 st3) b None g st3))"
      using False y e ok by (subst plus_send_loop.simps) (cases ok; simp add: Let_def)
    show ?thesis
    proof (cases "ok \<and> \<not> noanswer (lp_intf st)")
      case False': False
      with False s y ok p loop show ?thesis by (cases ok) (simp_all add: plus_send_open_def restored_def)
    next
      case True
      show ?thesis
      proof (cases "plus_await c (with_state x st1)")
        case (Inl e)
        with True False s y ok p loop turn show ?thesis by (simp add: plus_send_open_def)
      next
        case (Inr z)
        then obtain g st2 where z: "plus_await c (with_state x st1) = Inr (g, st2)" by (cases z) auto
        obtain b st3 where el: "plus_elapsed st2 = (b, st3)" by fastforce
        from last [OF p3 [OF z el]] True False s y ok p loop turn z el show ?thesis
          by (cases g) (simp_all add: plus_send_open_def restored_def)
      qed
    qed
  qed
qed


section \<open>The member of the union that is read\<close>


text \<open>Packets that are not answers to a ping; the list of requests is empty during the setup.\<close>

definition no_ping :: "net_ev \<Rightarrow> bool" where
  "no_ping e = (case e of Net_packet bs \<Rightarrow> 4 \<le> length bs \<and> bs ! 3 \<noteq> RMCP_CLASS_ASF | _ \<Rightarrow> True)"

definition setup_inv :: "lanplus_state \<Rightarrow> bool" where
  "setup_inv st \<longleftrightarrow> wf_plus st \<and> (\<forall>e\<in>set (lp_net st). no_ping e) \<and> lp_requests st = [] \<and> session (lp_intf st) \<noteq> None"

lemma setup_inv_rsp [simp]: "length (p_data r) = IPMI_BUF_SIZE \<Longrightarrow> setup_inv st \<Longrightarrow> setup_inv (st\<lparr>lp_rsp := r\<rparr>)"
  by (simp add: setup_inv_def)


















lemma setup_inv_keeps [simp]:
  "setup_inv (with_state x st) = setup_inv st" "setup_inv (restored s st) = setup_inv st" "setup_inv (plus_upd_session f st) = setup_inv st"
  "setup_inv (plus_upd_v2 g st) = setup_inv st" "setup_inv (st\<lparr>lp_v2 := v\<rparr>) = setup_inv st" "setup_inv (st\<lparr>lp_rand := rs\<rparr>) = setup_inv st"
  "setup_inv (st\<lparr>lp_sends := ss, lp_out := os\<rparr>) = setup_inv st" "setup_inv (plus_mod_intf (\<lambda>i. i\<lparr>abort := b\<rparr>) st) = setup_inv st"
  "setup_inv (st\<lparr>lp_late := ls\<rparr>) = setup_inv st"
  by (simp_all add: setup_inv_def with_state_def restored_def plus_upd_session_def plus_upd_v2_def plus_mod_intf_def)

lemma setup_inv_elapsed [simp]: "setup_inv (snd (plus_elapsed st)) = setup_inv st"
  by (simp add: plus_elapsed_def Let_def split: list.split)














section \<open>What a successful attempt has checked\<close>

text \<open>The user and the parameters of the session stay as they are.\<close>

definition same_user :: "lanplus_state \<Rightarrow> lanplus_state \<Rightarrow> bool" where
  "same_user st st' \<longleftrightarrow> lp_oem st' = lp_oem st \<and> ssn_params (lp_intf st') = ssn_params (lp_intf st)
     \<and> map_option authcode (session (lp_intf st')) = map_option authcode (session (lp_intf st))"

lemma same_user_trans: "same_user a b \<Longrightarrow> same_user b c \<Longrightarrow> same_user a c"
  by (simp add: same_user_def)

lemma same_user_keeps [simp]:
  "same_user st st" "same_user st (with_state x st)" "same_user st (restored s st)" "same_user st (plus_upd_v2 g st)" "same_user st (st\<lparr>lp_v2 := v\<rparr>)"
  "same_user st (st\<lparr>lp_rand := rs\<rparr>)" "same_user st (st\<lparr>lp_sends := ss, lp_out := os\<rparr>)"
  "same_user st (plus_upd_session (\<lambda>s. s\<lparr>out_seq := h (out_seq s)\<rparr>) st)" "same_user st (plus_mod_intf (\<lambda>i. i\<lparr>abort := b\<rparr>) st)"
  by (cases "session (lp_intf st)"; simp add: same_user_def with_state_def restored_def plus_upd_v2_def plus_upd_session_def plus_mod_intf_def)+

lemma same_user_frame: "plus_frame st st' \<Longrightarrow> same_user st st'"
  by (simp add: same_user_def plus_frame_fields)

lemma setup_send_keeps:
  assumes x: "sent_state payload = Some x" and s: "session (lp_intf st) = Some s" and got: "plus_send_open c payload st = Inr (True, st')"
  shows "lp_v2 st' = (lp_v2 st)\<lparr>session_state := x\<rparr> \<and> same_user st st'"
proof -
  from got obtain e m st0 st1 st2 where y: "plus_build c payload 0 st = Inr ((e, m), st0)" and ok: "lanp_send_packet m st0 = (True, st1)"
    and w: "plus_await c (with_state x st1) = Inr (True, st2)" and st': "st' = restored s st2"
    by (auto simp: setup_send_open [OF x s] split: if_splits sum.splits prod.splits bool.splits)
  from build_msg_state setup_build [OF x y] obtain rs where st0: "st0 = plus_upd_session (\<lambda>s. s\<lparr>out_seq := next_out_seq (out_seq s)\<rparr>) (st\<lparr>lp_rand := rs\<rparr>)" by blast
  from send_packet_state [OF ok] obtain ss os where st1: "st1 = st0\<lparr>lp_sends := ss, lp_out := os\<rparr>" by blast
  have fr: "plus_frame (with_state x st1) st2" by (rule await_frame [OF w])
  have "lp_v2 st2 = (lp_v2 st)\<lparr>session_state := x\<rparr>"
    using plus_frame_fields(2) [OF fr] by (simp add: with_state_def st1 st0 plus_upd_session_def)
  moreover have "same_user st st1"
    using s by (simp add: st1 st0 same_user_def plus_upd_session_def)
  then have "same_user st st2" using same_user_frame [OF fr] by (meson same_user_trans same_user_keeps(2))
  ultimately show ?thesis using same_user_trans [OF _ same_user_keeps(3)] unfolding st' by (simp add: restored_def plus_upd_session_def)
qed


lemma same_user_session: "same_user st st' \<Longrightarrow> session (lp_intf st) = Some s \<Longrightarrow> \<exists>s'. session (lp_intf st') = Some s' \<and> authcode s' = authcode s"
  by (auto simp: same_user_def)

lemma open_session_ok:
  assumes "session (lp_intf st) = Some s" and "ipmi_lanplus_open_session c st = Inr (0, st')"
  shows "same_user st st' \<and> lanplus_get_requested_ciphers (cipher_suite_id (ssn_params (lp_intf st)))
    = Some (auth_alg (lp_v2 st'), integrity_alg (lp_v2 st'), crypt_alg (lp_v2 st'))"
proof -
  from assms(2) obtain a i k where suite: "lanplus_get_requested_ciphers (cipher_suite_id (ssn_params (lp_intf st))) = Some (a, i, k)"
    by (auto simp: ipmi_lanplus_open_session_def Let_def split: option.splits)
  define st2 where "st2 = plus_upd_v2 (\<lambda>v. v\<lparr>requested_auth_alg := a, requested_integrity_alg := i, requested_crypt_alg := k\<rparr>)
    (plus_upd_v2 (\<lambda>v. v\<lparr>console_id := 0xA0A2A3A4\<rparr>) st)"
  define m where "m = Payload_open (open_session_request (lp_oem st) (privlvl (ssn_params (lp_intf st))) a i k)"
  from assms(2) suite obtain st3 where
    st3: "plus_send_open c m st2 = Inr (True, st3)" "open_session_answer st3 = Inr (0, st')"
    by (auto simp: ipmi_lanplus_open_session_def Let_def sum_bind_Inr st2_def m_def split: if_splits)
  have s2: "session (lp_intf st2) = Some s" using assms(1) by (simp add: st2_def plus_upd_v2_def)
  have u2: "same_user st st2" by (simp add: st2_def same_user_def plus_upd_v2_def)
  from setup_send_keeps [OF _ s2 st3(1), of OPEN_SESSION_SENT]
  have k: "lp_v2 st3 = (lp_v2 st2)\<lparr>session_state := OPEN_SESSION_SENT\<rparr>" "same_user st2 st3" by (simp_all add: m_def sent_state_def)
  from st3(2) obtain r where r: "p_payload (lp_rsp st3) = Open_session_response r" "os_rakp_return_code r = 0"
    by (auto simp: open_session_answer_def split: rs_payload.splits if_splits)
  from st3(2) have "os_auth_alg r = requested_auth_alg (lp_v2 st3)" "os_integrity_alg r = requested_integrity_alg (lp_v2 st3)"
    "os_crypt_alg r = requested_crypt_alg (lp_v2 st3)"
    and st': "st' = plus_upd_v2 (\<lambda>v. v\<lparr>max_priv_level := os_max_priv_level r, bmc_id := os_bmc_id r, auth_alg := os_auth_alg r,
        integrity_alg := os_integrity_alg r, crypt_alg := os_crypt_alg r, session_state := OPEN_SESSION_RECEIVED\<rparr>) st3"
    using r by (auto simp: open_session_answer_def Let_def plus_upd_v2_def split: if_splits)
  then have "auth_alg (lp_v2 st') = a" "integrity_alg (lp_v2 st') = i" "crypt_alg (lp_v2 st') = k"
    using k(1) by (simp_all add: plus_upd_v2_def st2_def)
  moreover have "same_user st st'" using u2 k(2) unfolding st' by (simp add: same_user_def plus_upd_v2_def)
  ultimately show ?thesis using suite by simp
qed

text \<open>The algorithms agreed on.\<close>

definition algs :: "v2_data \<Rightarrow> byte \<times> byte \<times> byte" where
  "algs v = (auth_alg v, integrity_alg v, crypt_alg v)"

lemma rakp1_ok:
  assumes s: "session (lp_intf st) = Some s" and rc: "ipmi_lanplus_rakp1 c st = Inr (0, st')"
  shows "same_user st st' \<and> algs (lp_v2 st') = algs (lp_v2 st) \<and> session_state (lp_v2 st') = RAKP_2_RECEIVED \<and> rakp2_return_code (lp_v2 st') = 0
    \<and> (\<exists>r2 s'. p_payload (lp_rsp st') = Rakp2_message r2 \<and> session (lp_intf st') = Some s' \<and> authcode s' = authcode s
        \<and> lanplus_rakp2_hmac_matches c (lp_oem st') (ssn_params (lp_intf st')) s' (lp_v2 st') (r2_key_exchange_auth_code r2) = Inr True)"
proof -
  let ?p = "ssn_params (lp_intf st)"
  from rc obtain rnd st1 where rnd: "lanplus_rand 16 st = (Some rnd, st1)"
    by (auto simp: ipmi_lanplus_rakp1_def Let_def split: prod.splits option.splits)
  define st2 where "st2 = plus_upd_v2 (\<lambda>v. v\<lparr>console_rand := rnd, requested_role := privlvl ?p OR lookupbit ?p\<rparr>) st1"
  define m where "m = Payload_rakp1 (rakp1_request (lp_oem st2) ?p (lp_v2 st2))"
  from rc rnd obtain st3 where st3: "plus_send_open c m st2 = Inr (True, st3)" "rakp2_answer c st3 = Inr (0, st')"
    by (auto simp: ipmi_lanplus_rakp1_def Let_def sum_bind_Inr st2_def m_def split: if_splits)
  from rand_state [OF rnd] have u2: "same_user st st2" "session (lp_intf st2) = Some s" "algs (lp_v2 st2) = algs (lp_v2 st)"
    using s by (auto simp: st2_def same_user_def plus_upd_v2_def algs_def)
  from setup_send_keeps [OF _ u2(2) st3(1), of RAKP_1_SENT]
  have k: "lp_v2 st3 = (lp_v2 st2)\<lparr>session_state := RAKP_1_SENT\<rparr>" "same_user st2 st3" by (simp_all add: m_def sent_state_def)
  from same_user_session [OF k(2) u2(2)] obtain s' where s': "session (lp_intf st3) = Some s'" "authcode s' = authcode s" by blast
  from st3(2) s'(1) obtain r2 where r2: "p_payload (lp_rsp st3) = Rakp2_message r2" "r2_rakp_return_code r2 = 0"
    by (auto simp: rakp2_answer_def Let_def plus_upd_v2_def split: rs_payload.splits if_splits)
  define v where "v = (lp_v2 st3)\<lparr>session_state := RAKP_2_RECEIVED, bmc_rand := r2_bmc_rand r2, bmc_guid := r2_bmc_guid r2\<rparr>"
  from st3(2) s'(1) r2 have ok: "lanplus_rakp2_hmac_matches c (lp_oem st3) (ssn_params (lp_intf st3)) s' v (r2_key_exchange_auth_code r2) = Inr True"
    and st': "st' = st3\<lparr>lp_v2 := v\<lparr>rakp2_return_code := 0\<rparr>\<rparr>"
    by (auto simp: rakp2_answer_def Let_def plus_upd_v2_def sum_bind_Inr v_def split: if_splits)
  have "lanplus_rakp2_hmac_matches c oem p s' (v\<lparr>rakp2_return_code := 0\<rparr>) code = lanplus_rakp2_hmac_matches c oem p s' v code" for oem p code
    by (simp add: lanplus_rakp2_hmac_matches_def rakp2_role_def)
  with ok r2(1) s' st' k u2 show ?thesis by (auto simp: same_user_def v_def algs_def)
qed


lemma rakp3_ok:
  assumes s: "session (lp_intf st) = Some s" and rc: "ipmi_lanplus_rakp3 c st = Inr (0, st')" and "rakp2_return_code (lp_v2 st) = 0"
  shows "\<exists>code v1 r4. rakp3_keys c (lp_oem st) (ssn_params (lp_intf st)) s (lp_v2 st) = Inr (code, v1) \<and> same_user st st'
    \<and> lp_v2 st' = v1\<lparr>session_state := ACTIVE\<rparr> \<and> p_payload (lp_rsp st') = Rakp4_message r4
    \<and> lanplus_rakp4_hmac_matches c (lp_oem st) (lp_v2 st') (r4_integrity_check_value r4) = Inr True"
proof -
  let ?v = "lp_v2 st"
  from rc s obtain code v1 where keys: "rakp3_keys c (lp_oem st) (ssn_params (lp_intf st)) s ?v = Inr (code, v1)"
    by (auto simp: ipmi_lanplus_rakp3_def Let_def sum_bind_Inr split: if_splits)
  define m where "m = Payload_rakp3 ([0, rakp2_return_code ?v, 0, 0] @ le32 (bmc_id ?v) @ code)"
  from rc s keys obtain st1 where st1: "plus_send_open c m (st\<lparr>lp_v2 := v1\<rparr>) = Inr (True, st1)" "rakp4_answer c st1 = Inr (0, st')"
    by (auto simp: ipmi_lanplus_rakp3_def Let_def sum_bind_Inr m_def split: if_splits)
  have k: "lp_v2 st1 = v1\<lparr>session_state := RAKP_3_SENT\<rparr>" "same_user (st\<lparr>lp_v2 := v1\<rparr>) st1"
    using setup_send_keeps [OF _ _ st1(1), of RAKP_3_SENT s] s by (simp_all add: m_def sent_state_def)
  from st1(2) obtain r4 where r4: "p_payload (lp_rsp st1) = Rakp4_message r4"
    and ok: "lanplus_rakp4_hmac_matches c (lp_oem st1) (lp_v2 st1) (r4_integrity_check_value r4) = Inr True"
    and st': "st' = plus_mod_intf (\<lambda>i. i\<lparr>abort := False\<rparr>) (plus_upd_v2 (\<lambda>v. v\<lparr>session_state := ACTIVE\<rparr>) st1)"
    by (auto simp: rakp4_answer_def sum_bind_Inr split: if_splits rs_payload.splits)
  have "lanplus_rakp4_hmac_matches c oem (v\<lparr>session_state := x\<rparr>) d = lanplus_rakp4_hmac_matches c oem v d" for oem v x d
    unfolding lanplus_rakp4_hmac_matches_def Let_def by (simp cong: if_cong)
  with keys k r4 ok st' show ?thesis by (auto simp: same_user_def plus_mod_intf_def plus_upd_v2_def)
qed

text \<open>What the BMC should have computed, from what this side knows of the session.\<close>

definition bmc_side :: "ipmi_session_params \<Rightarrow> ipmi_session \<Rightarrow> v2_data \<Rightarrow> bmc_session" where
  "bmc_side p s v = \<lparr>b_SIDm = console_id v, b_SIDc = bmc_id v, b_Rm = console_rand v, b_Rc = bmc_rand v, b_GUIDc = bmc_guid v,
     b_ROLEm = requested_role v, b_UNAMEm = user_name p, b_Kuid = user_key s,
     b_Kg = (if kg p ! 0 \<noteq> 0 then Some (take IPMI_AUTHCODE_BUFFER_SIZE (kg p)) else None)\<rparr>"

lemma same_session_bmc_side: "same_session p s v (bmc_side p s v)"
  by (simp add: same_session_def bmc_side_def)

lemma ciphers_supported: "lanplus_get_requested_ciphers n = Some (a, i, k) \<Longrightarrow> a \<noteq> RAKP_NONE \<Longrightarrow> rakp_supported a"
  unfolding lanplus_get_requested_ciphers_def by (auto simp: rakp_supported_cases split: if_splits)

lemma keys_bmc:
  assumes "crypto_ok c" and "rakp_supported (auth_alg v)" and "rakp2_return_code v = 0" and "rakp3_keys c None p s v = Inr (code, v1)" and "b = bmc_side p s v"
  shows "take (sik_len v1) (sik v1) = bmc_sik c (auth_alg v) b \<and> take (k1_len v1) (k1 v1) = bmc_k c (auth_alg v) b 1
    \<and> take (k2_len v1) (k2 v1) = bmc_k c (auth_alg v) b 2 \<and> code = bmc_rakp3_code c (auth_alg v) b
    \<and> v1 = v\<lparr>sik := sik v1, sik_len := sik_len v1, k1 := k1 v1, k1_len := k1_len v1, k2 := k2 v1, k2_len := k2_len v1\<rparr>"
proof -
  from generate_keys [OF assms(1) same_session_bmc_side assms(2) refl, where p = p and s = s] obtain w1 w2 w3 where
    w: "lanplus_generate_sik c None p s v = Inr w1" "lanplus_generate_k1 c w1 = Inr w2" "lanplus_generate_k2 c w2 = Inr w3"
    and k: "take (sik_len w3) (sik w3) = bmc_sik c (auth_alg v) (bmc_side p s v)" "take (k1_len w3) (k1 w3) = bmc_k c (auth_alg v) (bmc_side p s v) 1"
      "take (k2_len w3) (k2 w3) = bmc_k c (auth_alg v) (bmc_side p s v) 2"
    and w3: "w3 = v\<lparr>sik := sik w3, sik_len := sik_len w3, k1 := k1 w3, k1_len := k1_len w3, k2 := k2 w3, k2_len := k2_len w3\<rparr>" by blast
  have "lanplus_generate_rakp3_authcode c None p s v = Inr (bmc_rakp3_code c (auth_alg v) (bmc_side p s v))"
    by (rule rakp3_code [OF same_session_bmc_side assms(2) refl])
  with w assms(3,4) have "v1 = w3" "code = bmc_rakp3_code c (auth_alg v) (bmc_side p s v)" by (simp_all add: rakp3_keys_def)
  with k w3 assms(5) show ?thesis by simp
qed


lemma bmc_side_authcode: "authcode s' = authcode s \<Longrightarrow> bmc_side p s' v = bmc_side p s v"
  by (simp add: bmc_side_def user_key_def)

lemma bmc_side_keys:
  "bmc_side p s (v\<lparr>sik := a, sik_len := b, k1 := d, k1_len := e, k2 := f, k2_len := g\<rparr>) = bmc_side p s v"
  "bmc_side p s (v\<lparr>session_state := x\<rparr>) = bmc_side p s v"
  by (simp_all add: bmc_side_def)

text \<open>The codes and keys of a session are those of the BMC \<open>b\<close>, the peer of a user who knows the password.\<close>

definition authenticated :: "crypto \<Rightarrow> bmc_session \<Rightarrow> v2_data \<Rightarrow> byte list \<Rightarrow> byte list \<Rightarrow> bool" where
  "authenticated c b v code2 code4 \<longleftrightarrow>
     (let alg = auth_alg v
      in take (length (bmc_rakp2_code c alg b)) code2 = bmc_rakp2_code c alg b \<and> take (length (bmc_rakp4_code c alg b)) code4 = bmc_rakp4_code c alg b
         \<and> take (sik_len v) (sik v) = bmc_sik c alg b \<and> take (k1_len v) (k1 v) = bmc_k c alg b 1 \<and> take (k2_len v) (k2 v) = bmc_k c alg b 2)"

lemma rakp_authenticated:
  assumes "crypto_ok c" and oem: "lp_oem st = None" and sup: "rakp_supported (auth_alg (lp_v2 st))"
    and s: "session (lp_intf st) = Some s" and r1: "ipmi_lanplus_rakp1 c st = Inr (0, st1)" and r3: "ipmi_lanplus_rakp3 c st1 = Inr (0, st')"
  shows "\<exists>r2 r4. p_payload (lp_rsp st1) = Rakp2_message r2 \<and> p_payload (lp_rsp st') = Rakp4_message r4
    \<and> authenticated c (bmc_side (ssn_params (lp_intf st)) s (lp_v2 st')) (lp_v2 st') (r2_key_exchange_auth_code r2) (r4_integrity_check_value r4)"
proof -
  let ?p = "ssn_params (lp_intf st)" and ?v1 = "lp_v2 st1"
  from rakp1_ok [OF s r1] obtain r2 s1 where a: "same_user st st1" "algs ?v1 = algs (lp_v2 st)" "rakp2_return_code ?v1 = 0"
    "p_payload (lp_rsp st1) = Rakp2_message r2" "session (lp_intf st1) = Some s1" "authcode s1 = authcode s"
    "lanplus_rakp2_hmac_matches c (lp_oem st1) (ssn_params (lp_intf st1)) s1 ?v1 (r2_key_exchange_auth_code r2) = Inr True" by blast
  have p1: "ssn_params (lp_intf st1) = ?p" "lp_oem st1 = None" and al: "auth_alg ?v1 = auth_alg (lp_v2 st)"
    using a(1,2) oem by (auto simp: same_user_def algs_def)
  from rakp3_ok [OF a(5) r3 a(3)] p1 obtain code w r4 where b: "rakp3_keys c None ?p s1 ?v1 = Inr (code, w)"
    "lp_v2 st' = w\<lparr>session_state := ACTIVE\<rparr>" "p_payload (lp_rsp st') = Rakp4_message r4"
    "lanplus_rakp4_hmac_matches c None (lp_v2 st') (r4_integrity_check_value r4) = Inr True" by auto
  define bm where "bm = bmc_side ?p s ?v1"
  have bm1: "bm = bmc_side ?p s1 ?v1" using bmc_side_authcode [OF a(6)] by (simp add: bm_def)
  have sup1: "rakp_supported (auth_alg ?v1)" using sup al by simp
  note k = keys_bmc [OF assms(1) sup1 a(3) b(1) bm1]
  from k have w: "w = ?v1\<lparr>sik := sik w, sik_len := sik_len w, k1 := k1 w, k1_len := k1_len w, k2 := k2 w, k2_len := k2_len w\<rparr>" by blast
  have aw: "auth_alg (lp_v2 st') = auth_alg ?v1" and ba: "bmc_side ?p s (lp_v2 st') = bm" and bs: "bmc_side ?p s1 (lp_v2 st') = bm"
    unfolding b(2) bmc_side_keys(2) by (subst w, simp add: bmc_side_keys bm_def bm1 [unfolded bm_def])+
  have sik: "take (sik_len (lp_v2 st')) (sik (lp_v2 st')) = bmc_sik c (auth_alg (lp_v2 st')) bm" using k aw b(2) by simp
  have "lanplus_rakp4_hmac_matches c None (lp_v2 st') code4 =
      Inr (take (length (bmc_rakp4_code c (auth_alg (lp_v2 st')) bm)) code4 = bmc_rakp4_code c (auth_alg (lp_v2 st')) bm)" for code4
    by (rule rakp4_matches_iff [OF assms(1) _ _ refl sik]) (use same_session_bmc_side [of ?p s1 "lp_v2 st'"] bs sup1 aw in simp_all)
  moreover have "take (length (bmc_rakp2_code c (auth_alg ?v1) bm)) (r2_key_exchange_auth_code r2) = bmc_rakp2_code c (auth_alg ?v1) bm"
    using a(7) rakp2_matches_iff [OF same_session_bmc_side sup1 refl, of c ?p s1 "r2_key_exchange_auth_code r2"] p1 bm1 by simp
  ultimately have "authenticated c bm (lp_v2 st') (r2_key_exchange_auth_code r2) (r4_integrity_check_value r4)"
    using k b(2,4) aw by (simp add: authenticated_def Let_def)
  with a(4) b(3) ba show ?thesis by auto
qed


lemma keys_algs:
  assumes "rakp3_keys c oem p s v = Inr (code, w)"
  shows "algs w = algs v"
proof -
  have a: "algs v1 = algs v" if "lanplus_generate_sik c oem p s v = Inr v1" for v1
    using that by (auto simp: lanplus_generate_sik_def Let_def sum_bind_Inr algs_def split: if_splits)
  have b: "algs v1 = algs u" if "lanplus_generate_k1 c u = Inr v1" for u v1
    using that by (auto simp: lanplus_generate_k1_def sum_bind_Inr algs_def split: if_splits)
  have d: "algs v1 = algs u" if "lanplus_generate_k2 c u = Inr v1" for u v1
    using that by (auto simp: lanplus_generate_k2_def sum_bind_Inr algs_def split: if_splits)
  from assms show ?thesis
    unfolding rakp3_keys_def by (auto simp: sum_bind_Inr split: if_splits dest!: a b d)
qed

lemma open_session_rc: "ipmi_lanplus_open_session c st = Inr (rc, st') \<Longrightarrow> rc \<in> {0, 1, 2}"
  by (auto simp: ipmi_lanplus_open_session_def open_session_answer_def Let_def sum_bind_Inr split: option.splits if_splits rs_payload.splits)

lemma rakp1_rc: "ipmi_lanplus_rakp1 c st = Inr (rc, st') \<Longrightarrow> rc \<in> {0, 1, 2}"
  by (auto simp: ipmi_lanplus_rakp1_def rakp2_answer_def Let_def sum_bind_Inr split: option.splits if_splits rs_payload.splits prod.splits)

lemma attempt_steps:
  assumes "plus_attempt c st = Inr (0, st')"
  obtains st1 st2 where "ipmi_lanplus_open_session c (plus_upd_v2 (\<lambda>v. v\<lparr>session_state := PRESESSION\<rparr>) st) = Inr (0, st1)"
    and "ipmi_lanplus_rakp1 c st1 = Inr (0, st2)" and "ipmi_lanplus_rakp3 c st2 = Inr (0, st')"
proof -
  from assms obtain rc1 st1 where o: "ipmi_lanplus_open_session c (plus_upd_v2 (\<lambda>v. v\<lparr>session_state := PRESESSION\<rparr>) st) = Inr (rc1, st1)"
    by (auto simp: plus_attempt_def sum_bind_Inr)
  with assms open_session_rc [OF o] have "rc1 = 0" by (auto simp: plus_attempt_def)
  with assms o obtain rc2 st2 where r: "ipmi_lanplus_rakp1 c st1 = Inr (rc2, st2)" by (auto simp: plus_attempt_def sum_bind_Inr)
  with assms o \<open>rc1 = 0\<close> rakp1_rc [OF r] have "rc2 = 0" "ipmi_lanplus_rakp3 c st2 = Inr (0, st')" by (auto simp: plus_attempt_def)
  with o r \<open>rc1 = 0\<close> that show thesis by blast
qed

text \<open>
  C2: With a cipher suite that has authentication, and without an OEM workaround, a session becomes
  active only after both sides have been authenticated, whatever datagrams arrive: when an attempt
  at a session succeeds, the session is active, its algorithms are exactly those of the cipher
  suite that was asked for, and, unless that suite has no authentication, the RAKP 2 message at
  the end of the second exchange and the RAKP 4 message at the end of the third carried the
  codes only a BMC that knows the password (and the BMC key) of the user can compute for this exchange;
  the session integrity key, K1 and K2 are those this BMC has. With a suite without
  authentication (cipher suite 0) no code is checked.
\<close>

theorem handshake_authenticates:
  assumes "crypto_ok c" and "lp_oem st = None" and "session (lp_intf st) = Some s" and "plus_attempt c st = Inr (0, st')"
  shows "session_state (lp_v2 st') = ACTIVE
    \<and> lanplus_get_requested_ciphers (cipher_suite_id (ssn_params (lp_intf st))) = Some (algs (lp_v2 st'))
    \<and> (auth_alg (lp_v2 st') \<noteq> RAKP_NONE \<longrightarrow>
        (\<exists>st1 st2 r2 r4. ipmi_lanplus_open_session c (plus_upd_v2 (\<lambda>v. v\<lparr>session_state := PRESESSION\<rparr>) st) = Inr (0, st1)
          \<and> ipmi_lanplus_rakp1 c st1 = Inr (0, st2) \<and> p_payload (lp_rsp st2) = Rakp2_message r2
          \<and> ipmi_lanplus_rakp3 c st2 = Inr (0, st') \<and> p_payload (lp_rsp st') = Rakp4_message r4
          \<and> authenticated c (bmc_side (ssn_params (lp_intf st)) s (lp_v2 st')) (lp_v2 st') (r2_key_exchange_auth_code r2) (r4_integrity_check_value r4)))"
proof -
  let ?st0 = "plus_upd_v2 (\<lambda>v. v\<lparr>session_state := PRESESSION\<rparr>) st"
  from attempt_steps [OF assms(4)] obtain st1 st2 where o: "ipmi_lanplus_open_session c ?st0 = Inr (0, st1)"
    and r1: "ipmi_lanplus_rakp1 c st1 = Inr (0, st2)" and r3: "ipmi_lanplus_rakp3 c st2 = Inr (0, st')" by blast
  have s0: "session (lp_intf ?st0) = Some s" using assms(3) by (simp add: plus_upd_v2_def)
  from open_session_ok [OF s0 o] have u1: "same_user ?st0 st1"
    and suite: "lanplus_get_requested_ciphers (cipher_suite_id (ssn_params (lp_intf st))) = Some (algs (lp_v2 st1))"
    by (auto simp: algs_def plus_upd_v2_def)
  from same_user_session [OF u1 s0] obtain s1 where s1: "session (lp_intf st1) = Some s1" "authcode s1 = authcode s" by blast
  have p1: "ssn_params (lp_intf st1) = ssn_params (lp_intf st)" "lp_oem st1 = None" using u1 assms(2) by (simp_all add: same_user_def plus_upd_v2_def)
  from rakp1_ok [OF s1(1) r1] obtain s2 where
    u2: "same_user st1 st2" "algs (lp_v2 st2) = algs (lp_v2 st1)" "session (lp_intf st2) = Some s2" "rakp2_return_code (lp_v2 st2) = 0" by blast
  from rakp3_ok [OF u2(3) r3 u2(4)] obtain code w where w: "rakp3_keys c (lp_oem st2) (ssn_params (lp_intf st2)) s2 (lp_v2 st2) = Inr (code, w)"
    "lp_v2 st' = w\<lparr>session_state := ACTIVE\<rparr>" by blast
  have al: "algs (lp_v2 st') = algs (lp_v2 st1)" using keys_algs [OF w(1)] u2(2) w(2) by (simp add: algs_def)
  have auth: "\<exists>r2 r4. p_payload (lp_rsp st2) = Rakp2_message r2 \<and> p_payload (lp_rsp st') = Rakp4_message r4
      \<and> authenticated c (bmc_side (ssn_params (lp_intf st)) s (lp_v2 st')) (lp_v2 st') (r2_key_exchange_auth_code r2) (r4_integrity_check_value r4)"
    if "auth_alg (lp_v2 st') \<noteq> RAKP_NONE"
  proof -
    have "rakp_supported (auth_alg (lp_v2 st1))" using that ciphers_supported suite al by (auto simp: algs_def)
    from rakp_authenticated [OF assms(1) p1(2) this s1(1) r1 r3] show ?thesis using p1(1) bmc_side_authcode [OF s1(2)] by simp
  qed
  have "session_state (lp_v2 st') = ACTIVE" using w(2) by simp
  moreover have "\<exists>st1 st2 r2 r4. ipmi_lanplus_open_session c ?st0 = Inr (0, st1)
          \<and> ipmi_lanplus_rakp1 c st1 = Inr (0, st2) \<and> p_payload (lp_rsp st2) = Rakp2_message r2
          \<and> ipmi_lanplus_rakp3 c st2 = Inr (0, st') \<and> p_payload (lp_rsp st') = Rakp4_message r4
          \<and> authenticated c (bmc_side (ssn_params (lp_intf st)) s (lp_v2 st')) (lp_v2 st') (r2_key_exchange_auth_code r2) (r4_integrity_check_value r4)"
    if "auth_alg (lp_v2 st') \<noteq> RAKP_NONE" using auth [OF that] o r1 r3 by blast
  ultimately show ?thesis unfolding suite al by blast
qed


section \<open>An attempt against a BMC\<close>

text \<open>A message of the setup as both sides send it: no session, no code.\<close>

definition setup_packet :: "byte \<Rightarrow> byte list \<Rightarrow> byte list" where
  "setup_packet t body = plus_hdr t 0 0 (length body) @ body"

text \<open>A state in which a message of the setup can be sent and answered.\<close>

definition setup_ready :: "lanplus_state \<Rightarrow> bool" where
  "setup_ready st \<longleftrightarrow> wf_plus st \<and> lp_sends st = [] \<and> \<not> noanswer (lp_intf st) \<and> retry (ssn_params (lp_intf st)) > 0
     \<and> p_ccode (lp_rsp st) \<noteq> 0xCF \<and> lp_oem st = None"

lemma setup_build_msg:
  assumes "session (lp_intf st) = Some s" and "session_state (lp_v2 st) \<noteq> ACTIVE"
    and "length (payload_body (lp_bridge_possible st) (lp_intf st) q payload) < 65536"
  shows "ipmi_lanplus_build_v2x_msg c payload q st =
    Inr (setup_packet (payload_type payload) (payload_body (lp_bridge_possible st) (lp_intf st) q payload),
         plus_upd_session (\<lambda>s. s\<lparr>out_seq := next_out_seq (out_seq s)\<rparr>) st)"
proof -
  have z: "replicate 8 0 = le32 0 @ le32 0" by (simp add: le32_def eval_nat_numeral)
  have "le32 0 = [0, 0, 0, 0 :: byte]" by (simp add: le32_def)
  with assms show ?thesis
    by (simp add: ipmi_lanplus_build_v2x_msg_def encrypt_body_def session_trailer_def payload_flags_def session_fields_def setup_packet_def plus_hdr_def z Let_def)
qed

lemma setup_poll:
  assumes "lp_net st = Net_packet (setup_packet t body) # es" and "length body \<le> 1000" and "wf_plus st" and "session_state (lp_v2 st) \<noteq> ACTIVE" and "t AND 0x3F = t"
    and read: "\<And>r. \<forall>k<length body. at_data r (16 + k) = body ! k \<Longrightarrow> p_payloadtype r = t \<Longrightarrow>
      poll_payload 16 (length body) (st\<lparr>lp_net := es, lp_rsp := r\<rparr>) = Inr (Poll_rsp, st\<lparr>lp_net := es, lp_rsp := r\<lparr>p_payload := P\<rparr>\<rparr>)"
  shows "\<exists>r. lanp_poll_recv c st = Inr (True, st\<lparr>lp_net := es, lp_rsp := r\<lparr>p_payload := P\<rparr>\<rparr>) \<and> p_ccode r = p_ccode (lp_rsp st)
    \<and> length (p_data r) = IPMI_BUF_SIZE"
proof -
  have net: "lp_net st = Net_packet (plus_hdr t 0 0 (length body) @ body) # es" using assms(1) by (simp add: setup_packet_def)
  have len: "16 + length body \<le> IPMI_BUF_SIZE" "length body < 65536" using assms(2) by (simp_all add: IPMI_BUF_SIZE_def)
  from read_header [OF net len(1) assms(3) len(2)] obtain st1 r where
    st1: "lanp_recv_packet st = (True, st1)" "at_data (lp_rsp st1) 3 = RMCP_CLASS_IPMI" "lp_v2 st1 = lp_v2 st"
      "read_session_data 4 (lp_rsp st1) = (r, 16)" "st1\<lparr>lp_rsp := r\<rparr> = st\<lparr>lp_net := es, lp_rsp := r\<rparr>"
    and r: "p_payloadtype r = t AND 0x3F" "p_msglen r = length body" "length (p_data r) = IPMI_BUF_SIZE"
      "take (16 + length body) (p_data r) = plus_hdr t 0 0 (length body) @ body" "p_ccode r = p_ccode (lp_rsp st)" by blast
  have at: "at_data r (16 + k) = body ! k" if "k < length body" for k
  proof -
    have "take (16 + length body) (p_data r) ! (16 + k) = body ! k" using r(4) that by (simp add: nth_append)
    with that len(1) r(3) show ?thesis by (simp add: at_data_def)
  qed
  have "lanp_poll_single c st = poll_payload 16 (length body) (st\<lparr>lp_net := es, lp_rsp := r\<rparr>)"
    using st1 r(2) assms(4) by (simp add: lanp_poll_single_def Let_def lanplus_has_valid_auth_code_def decrypt_packet_def)
  also have "\<dots> = Inr (Poll_rsp, st\<lparr>lp_net := es, lp_rsp := r\<lparr>p_payload := P\<rparr>\<rparr>)" using read at r(1) assms(5) by simp
  finally show ?thesis using r(3,5) by (auto simp: lanp_poll_recv.simps [of c st])
qed

lemma setup_exchange:
  assumes x: "sent_state payload = Some x" and s: "session (lp_intf st) = Some s" and ready: "setup_ready st"
    and build: "plus_build c payload 0 st = Inr ((None, m), plus_upd_session (\<lambda>s. s\<lparr>out_seq := next_out_seq (out_seq s)\<rparr>) st)"
    and net: "lp_net st = Net_packet (setup_packet t body) # es" and len: "length body \<le> 1000" and "t AND 0x3F = t"
    and read: "\<And>st r. \<forall>k<length body. at_data r (16 + k) = body ! k \<Longrightarrow> p_payloadtype r = t \<Longrightarrow> lp_v2 st = v\<lparr>session_state := x\<rparr> \<Longrightarrow>
      poll_payload 16 (length body) (st\<lparr>lp_rsp := r\<rparr>) = Inr (Poll_rsp, st\<lparr>lp_rsp := r\<lparr>p_payload := P\<rparr>\<rparr>)"
    and v: "lp_v2 st = v"
  shows "\<exists>st'. plus_send_open c payload st = Inr (True, st') \<and> lp_v2 st' = v\<lparr>session_state := x\<rparr> \<and> same_user st st' \<and> setup_ready st'
    \<and> lp_net st' = es \<and> lp_out st' = lp_out st @ [m] \<and> lp_rand st' = lp_rand st \<and> p_payload (lp_rsp st') = P"
proof -
  define st0 where "st0 = plus_upd_session (\<lambda>s. s\<lparr>out_seq := next_out_seq (out_seq s)\<rparr>) st"
  define st2 where "st2 = with_state x (st0\<lparr>lp_out := lp_out st @ [m]\<rparr>)"
  have xa: "x \<noteq> ACTIVE" using x by (auto simp: sent_state_def split: v2_payload.splits)
  have send: "lanp_send_packet m st0 = (True, st0\<lparr>lp_out := lp_out st @ [m]\<rparr>)"
    using ready by (simp add: lanp_send_packet_def st0_def plus_upd_session_def setup_ready_def)
  have f: "lp_net st2 = lp_net st" "wf_plus st2" "lp_v2 st2 = v\<lparr>session_state := x\<rparr>" "p_ccode (lp_rsp st2) = p_ccode (lp_rsp st)"
    using ready v by (simp_all add: st2_def with_state_def st0_def plus_upd_session_def setup_ready_def)
  have "\<exists>r. lanp_poll_recv c st2 = Inr (True, st2\<lparr>lp_net := es, lp_rsp := r\<lparr>p_payload := P\<rparr>\<rparr>) \<and> p_ccode r = p_ccode (lp_rsp st2)
      \<and> length (p_data r) = IPMI_BUF_SIZE"
  proof (rule setup_poll [OF _ len f(2) _ assms(7)])
    show "lp_net st2 = Net_packet (setup_packet t body) # es" using f(1) net by simp
    show "session_state (lp_v2 st2) \<noteq> ACTIVE" using f(3) xa by simp
    show "poll_payload 16 (length body) (st2\<lparr>lp_net := es, lp_rsp := r\<rparr>) = Inr (Poll_rsp, st2\<lparr>lp_net := es, lp_rsp := r\<lparr>p_payload := P\<rparr>\<rparr>)"
      if "\<forall>k<length body. at_data r (16 + k) = body ! k" "p_payloadtype r = t" for r
      using read [OF that, of "st2\<lparr>lp_net := es\<rparr>"] f(3) by simp
  qed
  then obtain r where
    r: "lanp_poll_recv c st2 = Inr (True, st2\<lparr>lp_net := es, lp_rsp := r\<lparr>p_payload := P\<rparr>\<rparr>)" "p_ccode r = p_ccode (lp_rsp st)"
      "length (p_data r) = IPMI_BUF_SIZE" using f(4) by auto
  let ?st3 = "st2\<lparr>lp_net := es, lp_rsp := r\<lparr>p_payload := P\<rparr>\<rparr>"
  have "p_ccode r \<noteq> 0xCF" using r(2) ready by (simp add: setup_ready_def)
  then have aw: "plus_await c st2 = Inr (True, ?st3)" unfolding plus_await.simps [of c st2] r(1) by simp
  have rt: "\<not> retry (ssn_params (lp_intf st)) \<le> 0" "\<not> noanswer (lp_intf st)" using ready by (simp_all add: setup_ready_def)
  have "plus_send_open c payload st = Inr (True, restored s ?st3)"
    unfolding setup_send_open [OF x s] build st0_def [symmetric]
    by (simp only: rt if_False sum.case prod.case send bool.case st2_def [symmetric] aw)
  moreover have "lp_v2 (restored s ?st3) = v\<lparr>session_state := x\<rparr> \<and> same_user st (restored s ?st3) \<and> setup_ready (restored s ?st3)
    \<and> lp_net (restored s ?st3) = es \<and> lp_out (restored s ?st3) = lp_out st @ [m] \<and> lp_rand (restored s ?st3) = lp_rand st
    \<and> p_payload (lp_rsp (restored s ?st3)) = P"
    using ready r(2,3) f(3) s
    by (simp add: restored_def plus_upd_session_def st2_def with_state_def st0_def same_user_def setup_ready_def)
  ultimately show ?thesis by blast
qed


text \<open>The answers of a BMC (sections 13.18, 13.21 and 13.23 of the specification).\<close>

definition bmc_open_response :: "bmc_session \<Rightarrow> byte \<Rightarrow> byte \<times> byte \<times> byte \<Rightarrow> byte list" where
  "bmc_open_response b lvl suite =
     (case suite of (a, i, k) \<Rightarrow> [0, 0, lvl, 0] @ le32 (b_SIDm b) @ le32 (b_SIDc b)
        @ [0, 0, 0, 8, a, 0, 0, 0] @ [1, 0, 0, 8, i, 0, 0, 0] @ [2, 0, 0, 8, k, 0, 0, 0])"

definition bmc_rakp2 :: "crypto \<Rightarrow> byte \<Rightarrow> bmc_session \<Rightarrow> byte list" where
  "bmc_rakp2 c alg b = [0, 0, 0, 0] @ le32 (b_SIDm b) @ b_Rc b @ b_GUIDc b @ bmc_rakp2_code c alg b"

definition bmc_rakp4 :: "crypto \<Rightarrow> byte \<Rightarrow> bmc_session \<Rightarrow> byte list" where
  "bmc_rakp4 c alg b = [0, 0, 0, 0] @ le32 (b_SIDm b) @ bmc_rakp4_code c alg b"

lemma bytes_at_body:
  assumes "\<forall>k<length body. at_data r (16 + k) = body ! k" and "j + n \<le> length body"
  shows "bytes_at r (16 + j) n = take n (drop j body)"
  by (rule nth_equalityI) (use assms in \<open>auto simp: bytes_at_def add.assoc\<close>)

lemma le32_at_body:
  assumes "\<forall>k<length body. at_data r (16 + k) = body ! k" and "j + 4 \<le> length body" and "take 4 (drop j body) = le32 w"
  shows "le32_at r (16 + j) = w"
proof -
  have "at_data r (16 + (j + i)) = le32 w ! i" if "i < 4" for i
    using assms that by (metis add_less_cancel_left less_le_trans nth_drop nth_take drop_take le_add1 add_leD1)
  from this [of 0] this [of 1] this [of 2] this [of 3] show ?thesis
    by (simp add: le32_at_def of_le32_nth add.assoc)
qed

lemma read_open_answer:
  assumes at: "\<forall>k<length (bmc_open_response b lvl suite). at_data r (16 + k) = bmc_open_response b lvl suite ! k"
    and "p_payloadtype r = PAYLOAD_OPEN_RESPONSE" and "session_state (lp_v2 st) = OPEN_SESSION_SENT" and "suite = (a, i, k)"
  shows "poll_payload 16 n (st\<lparr>lp_rsp := r\<rparr>) = Inr (Poll_rsp, st\<lparr>lp_rsp := r\<lparr>p_payload := Open_session_response
    \<lparr>os_message_tag = 0, os_rakp_return_code = 0, os_max_priv_level = lvl, os_console_id = b_SIDm b, os_bmc_id = b_SIDc b,
     os_auth_alg = a, os_integrity_alg = i, os_crypt_alg = k\<rparr>\<rparr>\<rparr>)"
proof -
  let ?m = "bmc_open_response b lvl suite"
  have len: "length ?m = 36" using assms(4) by (simp add: bmc_open_response_def)
  have d: "at_data r (16 + j) = ?m ! j" if "j < 36" for j using at that len by simp
  have n: "?m ! 0 = 0" "?m ! 1 = 0" "?m ! 2 = lvl" "?m ! 16 = a" "?m ! 24 = i" "?m ! 32 = k"
    using assms(4) by (simp_all add: bmc_open_response_def nth_append)
  have "le32_at r (16 + 4) = b_SIDm b" by (rule le32_at_body [OF at]) (use assms(4) in \<open>simp_all add: bmc_open_response_def\<close>)
  moreover have "le32_at r (16 + 8) = b_SIDc b" by (rule le32_at_body [OF at]) (use assms(4) in \<open>simp_all add: bmc_open_response_def\<close>)
  ultimately show ?thesis using d [of 0] d [of 1] d [of 2] d [of 16] d [of 24] d [of 32] n assms(2,3)
    by (simp add: poll_payload_def read_open_session_response_def Let_def)
qed

lemma read_rakp2_answer:
  assumes "crypto_ok c" and "rakp_supported alg" and "length (b_Rc b) = 16" and "length (b_GUIDc b) = 16"
    and at: "\<forall>k<length (bmc_rakp2 c alg b). at_data r (16 + k) = bmc_rakp2 c alg b ! k"
    and "p_payloadtype r = PAYLOAD_RAKP_2" and "session_state (lp_v2 st) = RAKP_1_SENT" and "auth_alg (lp_v2 st) = alg"
  shows "poll_payload 16 n (st\<lparr>lp_rsp := r\<rparr>) = Inr (Poll_rsp, st\<lparr>lp_rsp := r\<lparr>p_payload := Rakp2_message
    \<lparr>r2_message_tag = 0, r2_rakp_return_code = 0, r2_console_id = b_SIDm b, r2_bmc_rand = b_Rc b, r2_bmc_guid = b_GUIDc b,
     r2_key_exchange_auth_code = bmc_rakp2_code c alg b\<rparr>\<rparr>\<rparr>)"
proof -
  let ?m = "bmc_rakp2 c alg b" and ?n = "length (bmc_rakp2_code c alg b)"
  have len: "length ?m = 40 + ?n" using assms(3,4) by (simp add: bmc_rakp2_def)
  have "digest_length alg = Some ?n" unfolding bmc_rakp2_code_def by (rule bmc_hash_length [OF assms(1,2)])
  moreover have "alg \<noteq> 0" using assms(2) by (auto simp: rakp_supported_cases)
  moreover have "at_data r 16 = 0" "at_data r 17 = 0" using at [rule_format, of 0] at [rule_format, of 1] len by (simp_all add: bmc_rakp2_def)
  moreover have "le32_at r (16 + 4) = b_SIDm b" by (rule le32_at_body [OF at]) (simp_all add: bmc_rakp2_def)
  moreover have "bytes_at r (16 + 8) 16 = b_Rc b" "bytes_at r (16 + 24) 16 = b_GUIDc b" "bytes_at r (16 + 40) ?n = bmc_rakp2_code c alg b"
    using len assms(3,4) by (subst bytes_at_body [OF at]; simp add: bmc_rakp2_def)+
  ultimately show ?thesis using assms(6-8) by (simp add: poll_payload_def read_rakp2_message_def Let_def)
qed

lemma read_rakp4_answer:
  assumes "crypto_ok c" and "rakp_supported alg"
    and at: "\<forall>k<length (bmc_rakp4 c alg b). at_data r (16 + k) = bmc_rakp4 c alg b ! k"
    and "p_payloadtype r = PAYLOAD_RAKP_4" and "session_state (lp_v2 st) = RAKP_3_SENT" and "auth_alg (lp_v2 st) = alg"
  shows "poll_payload 16 n (st\<lparr>lp_rsp := r\<rparr>) = Inr (Poll_rsp, st\<lparr>lp_rsp := r\<lparr>p_payload := Rakp4_message
    \<lparr>r4_message_tag = 0, r4_rakp_return_code = 0, r4_console_id = b_SIDm b, r4_integrity_check_value = bmc_rakp4_code c alg b\<rparr>\<rparr>\<rparr>)"
proof -
  let ?m = "bmc_rakp4 c alg b" and ?n = "length (bmc_rakp4_code c alg b)"
  have len: "length ?m = 8 + ?n" by (simp add: bmc_rakp4_def)
  have "?n = (if alg = 1 then 12 else 16)"
    using assms(1,2) by (auto simp: bmc_rakp4_code_def rakp_supported_cases bmc_hash_def crypto_lengths)
  moreover have "alg = 1 \<or> alg = 2 \<or> alg = 3" using assms(2) by (simp add: rakp_supported_cases)
  moreover have "at_data r 16 = 0" "at_data r 17 = 0" using at [rule_format, of 0] at [rule_format, of 1] len by (simp_all add: bmc_rakp4_def)
  moreover have "le32_at r (16 + 4) = b_SIDm b" by (rule le32_at_body [OF at]) (simp_all add: bmc_rakp4_def)
  moreover have "bytes_at r (16 + 8) ?n = bmc_rakp4_code c alg b"
    using len by (subst bytes_at_body [OF at]) (simp_all add: bmc_rakp4_def)
  ultimately show ?thesis using assms(4-6) by (elim disjE) (simp_all add: poll_payload_def read_rakp4_message_def)
qed


lemma setup_build_open:
  assumes "session (lp_intf st) = Some s" and "length m < 65536" and "session_state (lp_v2 st) = PRESESSION"
  shows "plus_build c (Payload_open m) 0 st =
    Inr ((None, setup_packet PAYLOAD_OPEN_REQUEST m), plus_upd_session (\<lambda>s. s\<lparr>out_seq := next_out_seq (out_seq s)\<rparr>) st)"
  using setup_build_msg [of st s 0 "Payload_open m" c] assms by (simp add: plus_build_def Let_def)

lemma setup_build_rakp1:
  assumes "session (lp_intf st) = Some s" and "length m < 65536" and "session_state (lp_v2 st) = OPEN_SESSION_RECEIVED"
  shows "plus_build c (Payload_rakp1 m) 0 st =
    Inr ((None, setup_packet PAYLOAD_RAKP_1 m), plus_upd_session (\<lambda>s. s\<lparr>out_seq := next_out_seq (out_seq s)\<rparr>) st)"
  using setup_build_msg [of st s 0 "Payload_rakp1 m" c] assms by (simp add: plus_build_def Let_def)

lemma setup_build_rakp3:
  assumes "session (lp_intf st) = Some s" and "length m < 65536" and "session_state (lp_v2 st) = RAKP_2_RECEIVED"
  shows "plus_build c (Payload_rakp3 m) 0 st =
    Inr ((None, setup_packet PAYLOAD_RAKP_3 m), plus_upd_session (\<lambda>s. s\<lparr>out_seq := next_out_seq (out_seq s)\<rparr>) st)"
  using setup_build_msg [of st s 0 "Payload_rakp3 m" c] assms by (simp add: plus_build_def Let_def)

text \<open>What an exchange of the setup leaves behind.\<close>

definition exchanged :: "lanplus_state \<Rightarrow> net_ev list \<Rightarrow> byte list \<Rightarrow> lanplus_state \<Rightarrow> bool" where
  "exchanged st es m st' \<longleftrightarrow> same_user st st' \<and> setup_ready st' \<and> lp_net st' = es \<and> lp_out st' = lp_out st @ [m]"

definition opened_v2 :: "bmc_session \<Rightarrow> byte \<Rightarrow> byte \<times> byte \<times> byte \<Rightarrow> v2_data \<Rightarrow> v2_data" where
  "opened_v2 b lvl suite v = (case suite of (a, i, k) \<Rightarrow>
     v\<lparr>session_state := OPEN_SESSION_RECEIVED, console_id := 0xA0A2A3A4, requested_auth_alg := a, requested_integrity_alg := i, requested_crypt_alg := k,
       max_priv_level := lvl, bmc_id := b_SIDc b, auth_alg := a, integrity_alg := i, crypt_alg := k\<rparr>)"

lemma open_step:
  assumes s: "session (lp_intf st) = Some s" and ready: "setup_ready st" and pre: "session_state (lp_v2 st) = PRESESSION"
    and suite: "lanplus_get_requested_ciphers (cipher_suite_id (ssn_params (lp_intf st))) = Some suite"
    and net: "lp_net st = Net_packet (setup_packet PAYLOAD_OPEN_RESPONSE (bmc_open_response b lvl suite)) # es"
  shows "\<exists>st'. ipmi_lanplus_open_session c st = Inr (0, st') \<and> lp_v2 st' = opened_v2 b lvl suite (lp_v2 st) \<and> lp_rand st' = lp_rand st
    \<and> exchanged st es (setup_packet PAYLOAD_OPEN_REQUEST (case suite of (a, i, k) \<Rightarrow> open_session_request None (privlvl (ssn_params (lp_intf st))) a i k)) st'"
proof -
  obtain a i k where sk: "suite = (a, i, k)" by (cases suite)
  let ?p = "ssn_params (lp_intf st)"
  define m where "m = open_session_request (lp_oem st) (privlvl ?p) a i k"
  define st2 where "st2 = plus_upd_v2 (\<lambda>v. v\<lparr>requested_auth_alg := a, requested_integrity_alg := i, requested_crypt_alg := k\<rparr>)
    (plus_upd_v2 (\<lambda>v. v\<lparr>console_id := 0xA0A2A3A4\<rparr>) st)"
  let ?P = "Open_session_response \<lparr>os_message_tag = 0, os_rakp_return_code = 0, os_max_priv_level = lvl, os_console_id = b_SIDm b,
     os_bmc_id = b_SIDc b, os_auth_alg = a, os_integrity_alg = i, os_crypt_alg = k\<rparr>"
  have f: "session (lp_intf st2) = Some s" "setup_ready st2" "session_state (lp_v2 st2) = PRESESSION" "lp_net st2 = lp_net st"
    "lp_rand st2 = lp_rand st" "lp_out st2 = lp_out st" "same_user st st2"
    using s ready pre by (simp_all add: st2_def plus_upd_v2_def setup_ready_def same_user_def)
  have "length m < 65536" by (simp add: m_def open_session_request_def)
  note b = setup_build_open [OF f(1) this f(3), of c]
  have "\<exists>st3. plus_send_open c (Payload_open m) st2 = Inr (True, st3) \<and> lp_v2 st3 = (lp_v2 st2)\<lparr>session_state := OPEN_SESSION_SENT\<rparr>
      \<and> same_user st2 st3 \<and> setup_ready st3 \<and> lp_net st3 = es \<and> lp_out st3 = lp_out st2 @ [setup_packet PAYLOAD_OPEN_REQUEST m]
      \<and> lp_rand st3 = lp_rand st2 \<and> p_payload (lp_rsp st3) = ?P"
  proof (rule setup_exchange [OF _ f(1,2) b])
    show "lp_net st2 = Net_packet (setup_packet PAYLOAD_OPEN_RESPONSE (bmc_open_response b lvl suite)) # es" using net f(4) by simp
    show "length (bmc_open_response b lvl suite) \<le> 1000" using sk by (simp add: bmc_open_response_def)
    show "poll_payload 16 (length (bmc_open_response b lvl suite)) (t\<lparr>lp_rsp := r\<rparr>) = Inr (Poll_rsp, t\<lparr>lp_rsp := r\<lparr>p_payload := ?P\<rparr>\<rparr>)"
      if "\<forall>j<length (bmc_open_response b lvl suite). at_data r (16 + j) = bmc_open_response b lvl suite ! j" "p_payloadtype r = PAYLOAD_OPEN_RESPONSE"
        "lp_v2 t = (lp_v2 st2)\<lparr>session_state := OPEN_SESSION_SENT\<rparr>" for t r
      using read_open_answer [OF that(1,2) _ sk, of t] that(3) by simp
  qed (simp_all add: sent_state_def)
  then obtain st3 where st3: "plus_send_open c (Payload_open m) st2 = Inr (True, st3)" "lp_v2 st3 = (lp_v2 st2)\<lparr>session_state := OPEN_SESSION_SENT\<rparr>"
    "same_user st2 st3" "setup_ready st3" "lp_net st3 = es" "lp_out st3 = lp_out st2 @ [setup_packet PAYLOAD_OPEN_REQUEST m]"
    "lp_rand st3 = lp_rand st2" "p_payload (lp_rsp st3) = ?P" by blast
  define st' where "st' = plus_upd_v2 (\<lambda>v. v\<lparr>max_priv_level := lvl, bmc_id := b_SIDc b, auth_alg := a, integrity_alg := i, crypt_alg := k,
    session_state := OPEN_SESSION_RECEIVED\<rparr>) st3"
  have "open_session_answer st3 = Inr (0, st')"
    using st3(2,8) by (simp add: open_session_answer_def st'_def st2_def plus_upd_v2_def Let_def)
  with st3(1) suite sk have "ipmi_lanplus_open_session c st = Inr (0, st')"
    by (simp add: ipmi_lanplus_open_session_def m_def [symmetric] st2_def [symmetric] Let_def)
  moreover have "lp_v2 st' = opened_v2 b lvl suite (lp_v2 st)"
    using st3(2) by (simp add: st'_def st2_def plus_upd_v2_def opened_v2_def sk)
  moreover have "exchanged st es (setup_packet PAYLOAD_OPEN_REQUEST m) st'" "lp_rand st' = lp_rand st"
    using st3 f(5-7) by (auto simp: exchanged_def st'_def plus_upd_v2_def same_user_def setup_ready_def)
  moreover have "m = (case suite of (a, i, k) \<Rightarrow> open_session_request None (privlvl ?p) a i k)" using ready by (simp add: m_def sk setup_ready_def)
  ultimately show ?thesis by blast
qed


definition challenged_v2 :: "bmc_session \<Rightarrow> ipmi_session_params \<Rightarrow> byte list \<Rightarrow> v2_data \<Rightarrow> v2_data" where
  "challenged_v2 b p rnd v = v\<lparr>session_state := RAKP_2_RECEIVED, console_rand := rnd, requested_role := privlvl p OR lookupbit p,
     bmc_rand := b_Rc b, bmc_guid := b_GUIDc b, rakp2_return_code := 0\<rparr>"

lemma length_rakp1_request: "length rnd = 16 \<Longrightarrow> length (user_name p) \<le> 16 \<Longrightarrow> length (rakp1_request None p (v\<lparr>console_rand := rnd, requested_role := x\<rparr>)) < 65536"
  by (simp add: rakp1_request_def)

lemma rakp1_step:
  assumes c: "crypto_ok c" and s: "session (lp_intf st) = Some s" and ready: "setup_ready st" and pre: "session_state (lp_v2 st) = OPEN_SESSION_RECEIVED"
    and rnd: "lp_rand st = Some rnd # rs" "length rnd = 16" and user: "length (user_name (ssn_params (lp_intf st))) \<le> 16"
    and alg: "rakp_supported (auth_alg (lp_v2 st))" and lens: "length (b_Rc b) = 16" "length (b_GUIDc b) = 16"
    and bmc: "same_session (ssn_params (lp_intf st)) s (challenged_v2 b (ssn_params (lp_intf st)) rnd (lp_v2 st)) b"
    and net: "lp_net st = Net_packet (setup_packet PAYLOAD_RAKP_2 (bmc_rakp2 c (auth_alg (lp_v2 st)) b)) # es"
  shows "\<exists>st'. ipmi_lanplus_rakp1 c st = Inr (0, st') \<and> lp_v2 st' = challenged_v2 b (ssn_params (lp_intf st)) rnd (lp_v2 st)
    \<and> exchanged st es (setup_packet PAYLOAD_RAKP_1 (rakp1_request None (ssn_params (lp_intf st)) (lp_v2 st'))) st'"
proof -
  let ?p = "ssn_params (lp_intf st)" and ?a = "auth_alg (lp_v2 st)"
  define st2 where "st2 = plus_upd_v2 (\<lambda>v. v\<lparr>console_rand := rnd, requested_role := privlvl ?p OR lookupbit ?p\<rparr>) (st\<lparr>lp_rand := rs\<rparr>)"
  define m where "m = rakp1_request (lp_oem st2) ?p (lp_v2 st2)"
  let ?P = "Rakp2_message \<lparr>r2_message_tag = 0, r2_rakp_return_code = 0, r2_console_id = b_SIDm b, r2_bmc_rand = b_Rc b, r2_bmc_guid = b_GUIDc b,
     r2_key_exchange_auth_code = bmc_rakp2_code c ?a b\<rparr>"
  have oem: "lp_oem st = None" using ready by (simp add: setup_ready_def)
  have f: "session (lp_intf st2) = Some s" "setup_ready st2" "session_state (lp_v2 st2) = OPEN_SESSION_RECEIVED" "lp_net st2 = lp_net st"
    "lp_out st2 = lp_out st" "same_user st st2" "auth_alg (lp_v2 st2) = ?a"
    using s ready pre by (simp_all add: st2_def plus_upd_v2_def setup_ready_def same_user_def)
  have "length m < 65536" using length_rakp1_request [OF rnd(2) user] oem by (simp add: m_def st2_def plus_upd_v2_def)
  note b = setup_build_rakp1 [OF f(1) this f(3), of c]
  have "\<exists>st3. plus_send_open c (Payload_rakp1 m) st2 = Inr (True, st3) \<and> lp_v2 st3 = (lp_v2 st2)\<lparr>session_state := RAKP_1_SENT\<rparr>
      \<and> same_user st2 st3 \<and> setup_ready st3 \<and> lp_net st3 = es \<and> lp_out st3 = lp_out st2 @ [setup_packet PAYLOAD_RAKP_1 m]
      \<and> lp_rand st3 = lp_rand st2 \<and> p_payload (lp_rsp st3) = ?P"
  proof (rule setup_exchange [OF _ f(1,2) b])
    show "lp_net st2 = Net_packet (setup_packet PAYLOAD_RAKP_2 (bmc_rakp2 c ?a b)) # es" using net f(4) by simp
    have "length (bmc_rakp2_code c ?a b) \<le> 32" unfolding bmc_rakp2_code_def using bmc_hash_le [OF c] by blast
    then show "length (bmc_rakp2 c ?a b) \<le> 1000" using lens by (simp add: bmc_rakp2_def)
    show "poll_payload 16 (length (bmc_rakp2 c ?a b)) (t\<lparr>lp_rsp := r\<rparr>) = Inr (Poll_rsp, t\<lparr>lp_rsp := r\<lparr>p_payload := ?P\<rparr>\<rparr>)"
      if "\<forall>j<length (bmc_rakp2 c ?a b). at_data r (16 + j) = bmc_rakp2 c ?a b ! j" "p_payloadtype r = PAYLOAD_RAKP_2"
        "lp_v2 t = (lp_v2 st2)\<lparr>session_state := RAKP_1_SENT\<rparr>" for t r
      using read_rakp2_answer [OF c alg lens that(1,2), of t] that(3) f(7) by simp
  qed (simp_all add: sent_state_def)
  then obtain st3 where st3: "plus_send_open c (Payload_rakp1 m) st2 = Inr (True, st3)" "lp_v2 st3 = (lp_v2 st2)\<lparr>session_state := RAKP_1_SENT\<rparr>"
    "same_user st2 st3" "setup_ready st3" "lp_net st3 = es" "lp_out st3 = lp_out st2 @ [setup_packet PAYLOAD_RAKP_1 m]" "p_payload (lp_rsp st3) = ?P" by blast
  from same_user_session [OF st3(3) f(1)] obtain s3 where s3: "session (lp_intf st3) = Some s3" "authcode s3 = authcode s" by blast
  define v where "v = challenged_v2 b ?p rnd (lp_v2 st)"
  define w where "w = (lp_v2 st3)\<lparr>session_state := RAKP_2_RECEIVED, bmc_rand := b_Rc b, bmc_guid := b_GUIDc b\<rparr>"
  have vw: "v = w\<lparr>rakp2_return_code := 0\<rparr>" using st3(2) by (simp add: v_def w_def challenged_v2_def st2_def plus_upd_v2_def)
  have p3: "ssn_params (lp_intf st3) = ?p" "lp_oem st3 = None" using st3(3) f(6) oem by (simp_all add: same_user_def)
  have "same_session ?p s3 v b" using bmc s3(2) by (simp add: v_def same_session_def user_key_def)
  then have sw: "same_session ?p s3 w b" by (simp add: vw same_session_def)
  have aw: "auth_alg w = ?a" using st3(2) by (simp add: w_def st2_def plus_upd_v2_def)
  have "lanplus_rakp2_hmac_matches c None ?p s3 w (bmc_rakp2_code c ?a b) = Inr True"
    using rakp2_matches_iff [OF sw _ refl, of c "bmc_rakp2_code c ?a b"] aw alg by simp
  then have "rakp2_answer c st3 = Inr (0, st3\<lparr>lp_v2 := v\<rparr>)"
    using st3(7) s3(1) p3 by (simp add: rakp2_answer_def Let_def plus_upd_v2_def w_def [symmetric] vw)
  moreover have "lanplus_rand 16 st = (Some rnd, st\<lparr>lp_rand := rs\<rparr>)" using rnd by (simp add: lanplus_rand_def)
  ultimately have "ipmi_lanplus_rakp1 c st = Inr (0, st3\<lparr>lp_v2 := v\<rparr>)"
    using st3(1) user oem by (simp add: ipmi_lanplus_rakp1_def m_def [symmetric] st2_def [symmetric] Let_def)
  moreover have "exchanged st es (setup_packet PAYLOAD_RAKP_1 m) (st3\<lparr>lp_v2 := v\<rparr>)"
    using st3 f(5,6) by (auto simp: exchanged_def same_user_def setup_ready_def)
  moreover have "m = rakp1_request None ?p v" using oem by (simp add: m_def v_def challenged_v2_def st2_def plus_upd_v2_def rakp1_request_def)
  ultimately show ?thesis unfolding v_def by fastforce
qed


lemma rakp3_keys_bmc:
  assumes "crypto_ok c" and "same_session p s v b" and "rakp_supported (auth_alg v)" and "rakp2_return_code v = 0"
  shows "\<exists>w. rakp3_keys c None p s v = Inr (bmc_rakp3_code c (auth_alg v) b, w) \<and> take (sik_len w) (sik w) = bmc_sik c (auth_alg v) b
    \<and> take (k1_len w) (k1 w) = bmc_k c (auth_alg v) b 1 \<and> take (k2_len w) (k2 w) = bmc_k c (auth_alg v) b 2
    \<and> w = v\<lparr>sik := sik w, sik_len := sik_len w, k1 := k1 w, k1_len := k1_len w, k2 := k2 w, k2_len := k2_len w\<rparr>"
  using generate_keys [OF assms(1-3) refl] rakp3_code [OF assms(2,3) refl, of c] assms(4) by (fastforce simp: rakp3_keys_def)

lemma rakp3_step:
  assumes c: "crypto_ok c" and s: "session (lp_intf st) = Some s" and ready: "setup_ready st" and pre: "session_state (lp_v2 st) = RAKP_2_RECEIVED"
    and rc: "rakp2_return_code (lp_v2 st) = 0" and alg: "rakp_supported (auth_alg (lp_v2 st))"
    and bmc: "same_session (ssn_params (lp_intf st)) s (lp_v2 st) b"
    and net: "lp_net st = Net_packet (setup_packet PAYLOAD_RAKP_4 (bmc_rakp4 c (auth_alg (lp_v2 st)) b)) # es"
  shows "\<exists>st'. ipmi_lanplus_rakp3 c st = Inr (0, st') \<and> session_state (lp_v2 st') = ACTIVE \<and> algs (lp_v2 st') = algs (lp_v2 st)
    \<and> authenticated c b (lp_v2 st') (bmc_rakp2_code c (auth_alg (lp_v2 st)) b) (bmc_rakp4_code c (auth_alg (lp_v2 st)) b)
    \<and> exchanged st es (setup_packet PAYLOAD_RAKP_3 ([0, 0, 0, 0] @ le32 (b_SIDc b) @ bmc_rakp3_code c (auth_alg (lp_v2 st)) b)) st'
    \<and> same_session (ssn_params (lp_intf st)) s (lp_v2 st') b"
proof -
  let ?p = "ssn_params (lp_intf st)" and ?v = "lp_v2 st" and ?a = "auth_alg (lp_v2 st)"
  have oem: "lp_oem st = None" using ready by (simp add: setup_ready_def)
  from rakp3_keys_bmc [OF c bmc alg rc] obtain w where keys: "rakp3_keys c None ?p s ?v = Inr (bmc_rakp3_code c ?a b, w)"
    and k: "take (sik_len w) (sik w) = bmc_sik c ?a b" "take (k1_len w) (k1 w) = bmc_k c ?a b 1" "take (k2_len w) (k2 w) = bmc_k c ?a b 2"
    and w: "w = ?v\<lparr>sik := sik w, sik_len := sik_len w, k1 := k1 w, k1_len := k1_len w, k2 := k2 w, k2_len := k2_len w\<rparr>" by blast
  have wf: "session_state w = RAKP_2_RECEIVED" "auth_alg w = ?a" "rakp2_return_code w = 0" "algs w = algs ?v" "same_session ?p s w b"
    using pre rc bmc by (subst w, simp add: algs_def same_session_def)+
  define m where "m = [0, 0, 0, 0 :: byte] @ le32 (bmc_id ?v) @ bmc_rakp3_code c ?a b"
  define st2 where "st2 = st\<lparr>lp_v2 := w\<rparr>"
  let ?P = "Rakp4_message \<lparr>r4_message_tag = 0, r4_rakp_return_code = 0, r4_console_id = b_SIDm b, r4_integrity_check_value = bmc_rakp4_code c ?a b\<rparr>"
  have f: "session (lp_intf st2) = Some s" "setup_ready st2" "session_state (lp_v2 st2) = RAKP_2_RECEIVED" "lp_net st2 = lp_net st"
    "lp_out st2 = lp_out st" "same_user st st2" "lp_v2 st2 = w"
    using s ready wf by (simp_all add: st2_def setup_ready_def same_user_def)
  have "length (bmc_rakp3_code c ?a b) \<le> 32" unfolding bmc_rakp3_code_def using bmc_hash_le [OF c] by blast
  then have "length m < 65536" by (simp add: m_def)
  note bl = setup_build_rakp3 [OF f(1) this f(3), of c]
  have "\<exists>st3. plus_send_open c (Payload_rakp3 m) st2 = Inr (True, st3) \<and> lp_v2 st3 = w\<lparr>session_state := RAKP_3_SENT\<rparr>
      \<and> same_user st2 st3 \<and> setup_ready st3 \<and> lp_net st3 = es \<and> lp_out st3 = lp_out st2 @ [setup_packet PAYLOAD_RAKP_3 m]
      \<and> lp_rand st3 = lp_rand st2 \<and> p_payload (lp_rsp st3) = ?P"
  proof (rule setup_exchange [OF _ f(1,2) bl])
    show "lp_net st2 = Net_packet (setup_packet PAYLOAD_RAKP_4 (bmc_rakp4 c ?a b)) # es" using net f(4) by simp
    have "length (bmc_rakp4_code c ?a b) \<le> 16" by (auto simp: bmc_rakp4_code_def min_def)
    then show "length (bmc_rakp4 c ?a b) \<le> 1000" by (simp add: bmc_rakp4_def)
    show "poll_payload 16 (length (bmc_rakp4 c ?a b)) (t\<lparr>lp_rsp := r\<rparr>) = Inr (Poll_rsp, t\<lparr>lp_rsp := r\<lparr>p_payload := ?P\<rparr>\<rparr>)"
      if "\<forall>j<length (bmc_rakp4 c ?a b). at_data r (16 + j) = bmc_rakp4 c ?a b ! j" "p_payloadtype r = PAYLOAD_RAKP_4"
        "lp_v2 t = w\<lparr>session_state := RAKP_3_SENT\<rparr>" for t r
      using read_rakp4_answer [OF c alg that(1,2), of t] that(3) wf(2) by simp
  qed (simp_all add: sent_state_def f(7))
  then obtain st3 where st3: "plus_send_open c (Payload_rakp3 m) st2 = Inr (True, st3)" "lp_v2 st3 = w\<lparr>session_state := RAKP_3_SENT\<rparr>"
    "same_user st2 st3" "setup_ready st3" "lp_net st3 = es" "lp_out st3 = lp_out st2 @ [setup_packet PAYLOAD_RAKP_3 m]" "p_payload (lp_rsp st3) = ?P" by blast
  define st' where "st' = plus_mod_intf (\<lambda>i. i\<lparr>abort := False\<rparr>) (plus_upd_v2 (\<lambda>v. v\<lparr>session_state := ACTIVE\<rparr>) st3)"
  have "same_session ?p s (w\<lparr>session_state := RAKP_3_SENT\<rparr>) b" using wf(5) by (simp add: same_session_def)
  from rakp4_matches_iff [OF c this _ refl, of "bmc_rakp4_code c ?a b"] k(1) wf(2) alg
  have "lanplus_rakp4_hmac_matches c None (lp_v2 st3) (bmc_rakp4_code c ?a b) = Inr True" by (simp add: st3(2))
  then have "rakp4_answer c st3 = Inr (0, st')"
    using st3(4,7) by (simp add: rakp4_answer_def setup_return_code_def st'_def setup_ready_def)
  moreover have "m = [0, rakp2_return_code ?v, 0, 0] @ le32 (bmc_id ?v) @ bmc_rakp3_code c ?a b" using rc by (simp add: m_def)
  ultimately have "ipmi_lanplus_rakp3 c st = Inr (0, st')"
    using st3(1,2) pre rc s keys oem wf(3) by (simp add: ipmi_lanplus_rakp3_def Let_def st2_def)
  moreover have "authenticated c b (lp_v2 st') (bmc_rakp2_code c ?a b) (bmc_rakp4_code c ?a b)"
    using k wf(2) by (simp add: authenticated_def st'_def plus_mod_intf_def plus_upd_v2_def st3(2))
  moreover have "session_state (lp_v2 st') = ACTIVE" "algs (lp_v2 st') = algs ?v"
    using wf(4) by (simp_all add: st'_def plus_mod_intf_def plus_upd_v2_def st3(2) algs_def)
  moreover have "exchanged st es (setup_packet PAYLOAD_RAKP_3 m) st'"
    using st3 f(5,6) by (auto simp: exchanged_def same_user_def setup_ready_def st'_def plus_mod_intf_def plus_upd_v2_def)
  moreover have "bmc_id ?v = b_SIDc b" using bmc by (simp add: same_session_def)
  moreover have "same_session ?p s (lp_v2 st') b"
    using wf(5) by (simp add: st'_def plus_mod_intf_def plus_upd_v2_def st3(2) same_session_def)
  ultimately show ?thesis unfolding m_def by auto
qed


lemma attempt_succeeds:
  assumes "crypto_ok c" and "session (lp_intf st) = Some s" and "setup_ready st" and "p = ssn_params (lp_intf st)"
    and "lanplus_get_requested_ciphers (cipher_suite_id p) = Some suite" and "alg = fst suite" and "alg \<noteq> RAKP_NONE"
    and "lp_rand st = Some rnd # rs" and "length rnd = 16" and "length (user_name p) \<le> 16"
    and "length (b_Rc b) = 16" and "length (b_GUIDc b) = 16"
    and "b = \<lparr>b_SIDm = 0xA0A2A3A4, b_SIDc = b_SIDc b, b_Rm = rnd, b_Rc = b_Rc b, b_GUIDc = b_GUIDc b, b_ROLEm = privlvl p OR lookupbit p,
           b_UNAMEm = user_name p, b_Kuid = user_key s, b_Kg = (if kg p ! 0 \<noteq> 0 then Some (take IPMI_AUTHCODE_BUFFER_SIZE (kg p)) else None)\<rparr>"
    and "lp_net st = [Net_packet (setup_packet PAYLOAD_OPEN_RESPONSE (bmc_open_response b lvl suite)),
           Net_packet (setup_packet PAYLOAD_RAKP_2 (bmc_rakp2 c alg b)), Net_packet (setup_packet PAYLOAD_RAKP_4 (bmc_rakp4 c alg b))] @ es"
  shows "\<exists>st'. plus_attempt c st = Inr (0, st') \<and> session_state (lp_v2 st') = ACTIVE \<and> algs (lp_v2 st') = suite \<and> lp_net st' = es
    \<and> console_id (lp_v2 st') = b_SIDm b \<and> bmc_id (lp_v2 st') = b_SIDc b \<and> console_rand (lp_v2 st') = b_Rm b \<and> bmc_rand (lp_v2 st') = b_Rc b
    \<and> bmc_guid (lp_v2 st') = b_GUIDc b \<and> requested_role (lp_v2 st') = b_ROLEm b
    \<and> authenticated c b (lp_v2 st') (bmc_rakp2_code c alg b) (bmc_rakp4_code c alg b)
    \<and> lp_out st' = lp_out st @ [setup_packet PAYLOAD_OPEN_REQUEST (case suite of (a, i, k) \<Rightarrow> open_session_request None (privlvl p) a i k),
        setup_packet PAYLOAD_RAKP_1 (rakp1_request None p (lp_v2 st')),
        setup_packet PAYLOAD_RAKP_3 ([0, 0, 0, 0] @ le32 (b_SIDc b) @ bmc_rakp3_code c alg b)]"
proof -
  let ?st0 = "plus_upd_v2 (\<lambda>v. v\<lparr>session_state := PRESESSION\<rparr>) st"
  obtain i k where sk: "suite = (alg, i, k)" using assms(6) by (cases suite) auto
  have alg: "rakp_supported alg" using assms(5,7) ciphers_supported unfolding sk by blast
  have f0: "session (lp_intf ?st0) = Some s" "setup_ready ?st0" "session_state (lp_v2 ?st0) = PRESESSION" "ssn_params (lp_intf ?st0) = p"
    "lp_net ?st0 = lp_net st" "lp_out ?st0 = lp_out st" "lp_rand ?st0 = lp_rand st"
    using assms(2-4) by (simp_all add: plus_upd_v2_def setup_ready_def)
  from open_step [OF f0(1-3), of suite b lvl _ c] f0 assms(5,14) obtain st1 where
    o: "ipmi_lanplus_open_session c ?st0 = Inr (0, st1)" and v1: "lp_v2 st1 = opened_v2 b lvl suite (lp_v2 ?st0)" and r1: "lp_rand st1 = lp_rand st"
    and x1: "exchanged ?st0 (drop 1 (lp_net st)) (setup_packet PAYLOAD_OPEN_REQUEST (case suite of (a, i, k) \<Rightarrow> open_session_request None (privlvl p) a i k)) st1"
    by auto
  from x1 f0(4) have u1: "same_user ?st0 st1" "setup_ready st1" "lp_net st1 = drop 1 (lp_net st)" "ssn_params (lp_intf st1) = p" by (auto simp: exchanged_def same_user_def)
  from same_user_session [OF u1(1) f0(1)] obtain s1 where s1: "session (lp_intf st1) = Some s1" "authcode s1 = authcode s" by blast
  have st1: "session_state (lp_v2 st1) = OPEN_SESSION_RECEIVED" "auth_alg (lp_v2 st1) = alg" "algs (lp_v2 st1) = suite" "bmc_id (lp_v2 st1) = b_SIDc b"
    "console_id (lp_v2 st1) = 0xA0A2A3A4" by (simp_all add: v1 opened_v2_def sk algs_def)
  let ?v2 = "challenged_v2 b p rnd (lp_v2 st1)"
  have same: "same_session p s' ?v2 b" if "authcode s' = authcode s" for s'
    using that st1 by (subst assms(13)) (simp add: same_session_def challenged_v2_def user_key_def)
  from rakp1_step [OF assms(1) s1(1) u1(2) st1(1) r1 [unfolded assms(8)] assms(9), of b "drop 2 (lp_net st)"] u1 st1 same [OF s1(2)] alg assms(10-12,14)
  obtain st2 where r: "ipmi_lanplus_rakp1 c st1 = Inr (0, st2)" and v2: "lp_v2 st2 = ?v2"
    and x2: "exchanged st1 (drop 2 (lp_net st)) (setup_packet PAYLOAD_RAKP_1 (rakp1_request None p (lp_v2 st2))) st2"
    by (auto simp: numeral_2_eq_2)
  from x2 u1(4) have u2: "same_user st1 st2" "setup_ready st2" "lp_net st2 = drop 2 (lp_net st)" "ssn_params (lp_intf st2) = p" by (auto simp: exchanged_def same_user_def)
  from same_user_session [OF u2(1) s1(1)] obtain s2 where s2: "session (lp_intf st2) = Some s2" "authcode s2 = authcode s" using s1(2) by auto
  have st2: "session_state (lp_v2 st2) = RAKP_2_RECEIVED" "rakp2_return_code (lp_v2 st2) = 0" "auth_alg (lp_v2 st2) = alg" "algs (lp_v2 st2) = suite"
    "bmc_id (lp_v2 st2) = b_SIDc b" "console_rand (lp_v2 st2) = rnd" "requested_role (lp_v2 st2) = privlvl p OR lookupbit p"
    using st1 by (simp_all add: v2 challenged_v2_def algs_def)
  from rakp3_step [OF assms(1) s2(1) u2(2) st2(1,2), of b es] alg st2(3) same [OF s2(2)] v2 u2(3,4) assms(14)
  obtain st' where r3: "ipmi_lanplus_rakp3 c st2 = Inr (0, st')" "session_state (lp_v2 st') = ACTIVE" "algs (lp_v2 st') = suite"
    "authenticated c b (lp_v2 st') (bmc_rakp2_code c alg b) (bmc_rakp4_code c alg b)"
    "exchanged st2 es (setup_packet PAYLOAD_RAKP_3 ([0, 0, 0, 0] @ le32 (b_SIDc b) @ bmc_rakp3_code c alg b)) st'"
    "same_session p s2 (lp_v2 st') b"
    using st2(4) by auto
  have "plus_attempt c st = Inr (0, st')" by (simp add: plus_attempt_def o r r3(1))
  moreover have "b_Rm b = rnd" "b_ROLEm b = privlvl p OR lookupbit p" by (subst assms(13), simp)+
  moreover from this have "rakp1_request None p (lp_v2 st2) = rakp1_request None p (lp_v2 st')"
    using st2(5-7) r3(6) by (simp add: rakp1_request_def same_session_def)
  ultimately show ?thesis using r3 x1 x2 f0(6) by (intro exI [of _ st']) (simp add: exchanged_def same_session_def)
qed

text \<open>
  C1: An attempt at a session with a cipher suite that has authentication, without an OEM
  workaround, against a BMC that follows the specification succeeds: when the BMC answers the Open
  Session request with the algorithms asked for, and RAKP 1 and 3 with its random number and
  the codes computed with the password of the user (and its key Kg), and these three answers are
  the next datagrams, three messages are sent, the third with the code the BMC expects. The
  session is then active with these algorithms; the session numbers, the random numbers, the GUID and
  the role the console holds are those of the BMC, and both sides have the same session
  integrity key, K1 and K2.
\<close>

theorem handshake_establishes:
  assumes "crypto_ok c" and "session (lp_intf st) = Some s" and "setup_ready st" and "p = ssn_params (lp_intf st)"
    and "lanplus_get_requested_ciphers (cipher_suite_id p) = Some suite" and "alg = fst suite" and "alg \<noteq> RAKP_NONE"
    and "lp_rand st = Some rnd # rs" and "length rnd = 16" and "length (user_name p) \<le> 16"
    and "length (b_Rc b) = 16" and "length (b_GUIDc b) = 16"
    and "b = \<lparr>b_SIDm = 0xA0A2A3A4, b_SIDc = b_SIDc b, b_Rm = rnd, b_Rc = b_Rc b, b_GUIDc = b_GUIDc b, b_ROLEm = privlvl p OR lookupbit p,
           b_UNAMEm = user_name p, b_Kuid = user_key s, b_Kg = (if kg p ! 0 \<noteq> 0 then Some (take IPMI_AUTHCODE_BUFFER_SIZE (kg p)) else None)\<rparr>"
    and "lp_net st = [Net_packet (setup_packet PAYLOAD_OPEN_RESPONSE (bmc_open_response b lvl suite)),
           Net_packet (setup_packet PAYLOAD_RAKP_2 (bmc_rakp2 c alg b)), Net_packet (setup_packet PAYLOAD_RAKP_4 (bmc_rakp4 c alg b))] @ es"
  shows "\<exists>st'. plus_attempt c st = Inr (0, st') \<and> session_state (lp_v2 st') = ACTIVE \<and> algs (lp_v2 st') = suite \<and> lp_net st' = es
    \<and> console_id (lp_v2 st') = b_SIDm b \<and> bmc_id (lp_v2 st') = b_SIDc b \<and> console_rand (lp_v2 st') = b_Rm b \<and> bmc_rand (lp_v2 st') = b_Rc b
    \<and> bmc_guid (lp_v2 st') = b_GUIDc b \<and> requested_role (lp_v2 st') = b_ROLEm b
    \<and> authenticated c b (lp_v2 st') (bmc_rakp2_code c alg b) (bmc_rakp4_code c alg b)
    \<and> lp_out st' = lp_out st @ [setup_packet PAYLOAD_OPEN_REQUEST (case suite of (a, i, k) \<Rightarrow> open_session_request None (privlvl p) a i k),
        setup_packet PAYLOAD_RAKP_1 (rakp1_request None p (lp_v2 st')),
        setup_packet PAYLOAD_RAKP_3 ([0, 0, 0, 0] @ le32 (b_SIDc b) @ bmc_rakp3_code c alg b)]"
  by (rule attempt_succeeds [OF assms])


text \<open>An attempt with cipher suite 3, for examples.\<close>

definition start_plus :: lanplus_state where
  "start_plus = (active_plus [Net_packet (setup_packet PAYLOAD_OPEN_RESPONSE (bmc_open_response plus_bmc 4 (1, 1, 1))),
       Net_packet (setup_packet PAYLOAD_RAKP_2 (bmc_rakp2 sample_crypto 1 plus_bmc)),
       Net_packet (setup_packet PAYLOAD_RAKP_4 (bmc_rakp4 sample_crypto 1 plus_bmc))])
     \<lparr>lp_v2 := new_v2, lp_requests := [], lp_rand := [Some (replicate 16 1)]\<rparr>"

lemma start_plus_hyps:
  "session (lp_intf start_plus) = Some plus_session" "setup_ready start_plus" "plus_params = ssn_params (lp_intf start_plus)"
  "lanplus_get_requested_ciphers (cipher_suite_id plus_params) = Some (1, 1, 1)" "1 = fst (1 :: byte, 1 :: byte, 1 :: byte)" "(1 :: byte) \<noteq> RAKP_NONE"
  "lp_rand start_plus = Some (replicate 16 1) # []" "length (replicate 16 (1 :: byte)) = 16" "length (user_name plus_params) \<le> 16"
  "length (b_Rc plus_bmc) = 16" "length (b_GUIDc plus_bmc) = 16"
  "plus_bmc = \<lparr>b_SIDm = 0xA0A2A3A4, b_SIDc = b_SIDc plus_bmc, b_Rm = replicate 16 1, b_Rc = b_Rc plus_bmc, b_GUIDc = b_GUIDc plus_bmc,
     b_ROLEm = privlvl plus_params OR lookupbit plus_params, b_UNAMEm = user_name plus_params, b_Kuid = user_key plus_session,
     b_Kg = (if kg plus_params ! 0 \<noteq> 0 then Some (take IPMI_AUTHCODE_BUFFER_SIZE (kg plus_params)) else None)\<rparr>"
  "lp_net start_plus = [Net_packet (setup_packet PAYLOAD_OPEN_RESPONSE (bmc_open_response plus_bmc 4 (1, 1, 1))),
     Net_packet (setup_packet PAYLOAD_RAKP_2 (bmc_rakp2 sample_crypto 1 plus_bmc)),
     Net_packet (setup_packet PAYLOAD_RAKP_4 (bmc_rakp4 sample_crypto 1 plus_bmc))] @ []"
  by (simp_all add: start_plus_def active_plus_def setup_ready_def plus_params_def plus_session_def plus_bmc_def user_name_def user_key_def
      c_strlen_def IPMI_AUTHCODE_BUFFER_SIZE_def lanplus_get_requested_ciphers_def)

theorem handshake_establishes_witness:
  "\<exists>st'. plus_attempt sample_crypto start_plus = Inr (0, st') \<and> session_state (lp_v2 st') = ACTIVE \<and> length (lp_out st') = 3
    \<and> take (k1_len (lp_v2 st')) (k1 (lp_v2 st')) = bmc_k sample_crypto 1 plus_bmc 1"
  using handshake_establishes [OF sample_crypto_ok start_plus_hyps] by (force simp: authenticated_def algs_def start_plus_def active_plus_def)

theorem handshake_authenticates_witness:
  "\<exists>st' r2 r4. plus_attempt sample_crypto start_plus = Inr (0, st') \<and> p_payload (lp_rsp st') = Rakp4_message r4
    \<and> authenticated sample_crypto (bmc_side plus_params plus_session (lp_v2 st')) (lp_v2 st') r2 (r4_integrity_check_value r4)"
proof -
  from attempt_succeeds [OF sample_crypto_ok start_plus_hyps] obtain st' where
    st': "plus_attempt sample_crypto start_plus = Inr (0, st')" "algs (lp_v2 st') = (1, 1, 1)" by blast
  have "lp_oem start_plus = None" using start_plus_hyps(2) by (simp add: setup_ready_def)
  from handshake_authenticates [OF sample_crypto_ok this start_plus_hyps(1) st'(1)] st' start_plus_hyps(3) show ?thesis
    by (auto simp: algs_def)
qed


end
