(* ===== verification/Console.thy ===== *)
theory Console
  imports Run Helper Intf
begin

text \<open>
  What the commands of lib/ that print run in: the transport's state and the text written to
  the standard output so far. A command maps such a state to an error, or to a result and
  the state after it. Messages of the log go to the standard error and are left out.
\<close>

named_theorems com_run \<open>how the commands' building blocks run\<close>

section \<open>State, errors, commands\<close>

text \<open>\<open>co_header\<close> is the static variable that says whether the head of the user list was printed.\<close>

record 'w console =
  co_world :: 'w
  co_out :: string
  co_header :: bool

text \<open>An error of the transport, or an access outside an array.\<close>

datatype 'e lib_error = Lib_transport 'e | Lib_bounds

type_synonym ('e, 'a, 'w) com = "'w console \<Rightarrow> 'e lib_error + 'a \<times> 'w console"

text \<open>
  The surroundings: the transport; how a change of the interface structure reaches its state;
  the prompt for a password (\<open>getpass\<close>); comma-separated output, verbosity; the choice of
  the C library in \<^const>\<open>str2mac\<close>; and whether the compiler evaluates the arguments of a call
  from right to left or from left to right, which C leaves open.
\<close>

record ('e, 'w) lib_host =
  lh_sendrecv :: "('e, 'w) sendrecv"
  lh_upd_intf :: "(ipmi_intf \<Rightarrow> ipmi_intf) \<Rightarrow> 'w \<Rightarrow> 'w"
  lh_ask_password :: "byte \<Rightarrow> 'w \<Rightarrow> string option \<times> 'w"
  lh_csv_output :: bool
  lh_verbose :: nat
  lh_accept_0x :: bool
  lh_args_rtl :: bool

definition cret :: "'a \<Rightarrow> ('e, 'a, 'w) com" where
  "cret x st = Inr (x, st)"

definition cbind :: "('e, 'a, 'w) com \<Rightarrow> ('a \<Rightarrow> ('e, 'b, 'w) com) \<Rightarrow> ('e, 'b, 'w) com" where
  "cbind m f st = sum_bind (m st) (\<lambda>(x, st1). f x st1)"

definition cseq :: "('e, 'a, 'w) com \<Rightarrow> ('e, 'b, 'w) com \<Rightarrow> ('e, 'b, 'w) com" where
  "cseq m k = cbind m (\<lambda>_. k)"

definition craise :: "'e lib_error \<Rightarrow> ('e, 'a, 'w) com" where
  "craise e st = Inl e"

definition cprint :: "string \<Rightarrow> ('e, unit, 'w) com" where
  "cprint s st = Inr ((), st\<lparr>co_out := co_out st @ s\<rparr>)"

definition csend :: "('e, 'w) lib_host \<Rightarrow> byte \<Rightarrow> byte \<Rightarrow> byte list \<Rightarrow> ('e, ipmi_rsp option, 'w) com" where
  "csend h netfn cmd data st =
     (case lh_sendrecv h (mk_rq netfn cmd data) (co_world st) of
        Inl e \<Rightarrow> Inl (Lib_transport e)
      | Inr (rsp, w) \<Rightarrow> Inr (rsp, st\<lparr>co_world := w\<rparr>))"

definition cupd_intf :: "('e, 'w) lib_host \<Rightarrow> (ipmi_intf \<Rightarrow> ipmi_intf) \<Rightarrow> ('e, unit, 'w) com" where
  "cupd_intf h f st = Inr ((), st\<lparr>co_world := lh_upd_intf h f (co_world st)\<rparr>)"

lemma cret_run [com_run]: "cret x st = Inr (x, st)"
  by (simp add: cret_def)

lemma cbind_run [com_run]: "cbind m f st = sum_bind (m st) (\<lambda>(x, st1). f x st1)"
  by (simp add: cbind_def)

lemma cseq_run [com_run]: "cseq m k st = sum_bind (m st) (\<lambda>(x, st1). k st1)"
  by (simp add: cseq_def cbind_def)

lemma craise_run [com_run]: "craise e st = Inl e"
  by (simp add: craise_def)

lemma cprint_run [com_run]: "cprint s st = Inr ((), st\<lparr>co_out := co_out st @ s\<rparr>)"
  by (simp add: cprint_def)

lemma cbind_cong [fundef_cong]: "m = m' \<Longrightarrow> (\<And>x. f x = f' x) \<Longrightarrow> cbind m f = cbind m' f'"
  by (simp add: cbind_def fun_eq_iff)

lemma cseq_cong [fundef_cong]: "m = m' \<Longrightarrow> k = k' \<Longrightarrow> cseq m k = cseq m' k'"
  by simp

lemma cret_bind [simp]: "cbind (cret x) f = f x"
  by (simp add: cbind_def cret_def fun_eq_iff)

lemma cret_seq [simp]: "cseq (cret x) k = k"
  by (simp add: cseq_def)

lemma cbind_assoc: "cbind (cbind m f) g = cbind m (\<lambda>x. cbind (f x) g)"
proof
  fix st show "cbind (cbind m f) g st = cbind m (\<lambda>x. cbind (f x) g) st"
    by (cases "m st") (auto simp: cbind_def)
qed

lemma cbind_Inr: "cbind m f st = Inr (y, st') \<longleftrightarrow> (\<exists>x st1. m st = Inr (x, st1) \<and> f x st1 = Inr (y, st'))"
  by (auto simp: cbind_def sum_bind_Inr)

lemma cseq_Inr: "cseq m k st = Inr (y, st') \<longleftrightarrow> (\<exists>x st1. m st = Inr (x, st1) \<and> k st1 = Inr (y, st'))"
  by (auto simp: cseq_def cbind_Inr)

lemmas com_Inr = cbind_Inr cseq_Inr

text \<open>An argument of the command line: \<open>argv[argc]\<close> is NULL.\<close>

definition arg_at :: "string list \<Rightarrow> nat \<Rightarrow> string option" where
  "arg_at argv i = (if i < length argv then Some (argv ! i) else None)"

text \<open>The value that a conversion stored.\<close>

definition conv_byte :: "int option \<Rightarrow> byte" where
  "conv_byte v = word_of_int (the v)"

section \<open>Formats\<close>

definition nl :: string where "nl = [CHR 0x0A]"

definition dec :: "nat \<Rightarrow> string" where "dec = show_base 10"

text \<open>\<open>%-ns\<close> and \<open>%0nx\<close>.\<close>

definition pad :: "nat \<Rightarrow> string \<Rightarrow> string" where
  "pad n s = s @ replicate (n - length s) (CHR '' '')"

definition hex0 :: "nat \<Rightarrow> nat \<Rightarrow> string" where
  "hex0 n v = (let s = show_base 16 v in replicate (n - length s) (CHR ''0'') @ s)"

definition dotted :: "byte list \<Rightarrow> string" where
  "dotted ip = dec (unat (ip ! 0)) @ ''.'' @ dec (unat (ip ! 1)) @ ''.'' @ dec (unat (ip ! 2)) @ ''.'' @ dec (unat (ip ! 3))"

text \<open>
  A MAC address; what \<^const>\<open>mac2str\<close> leaves in its static array does not matter to the text
  (\<open>mac_text\<close> below).
\<close>

definition mac_text :: "byte list \<Rightarrow> string" where
  "mac_text mac = (case mac2str (replicate BUF2STR_MAXIMUM_OUTPUT_SIZE NUL) mac of Inl _ \<Rightarrow> [] | Inr s \<Rightarrow> s)"

lemma mac_text_join: "length m = 6 \<Longrightarrow> mac_text m = hex_join '':'' m"
  by (simp add: mac_text_def mac2str_join)

lemma mac_text_any: "length m = 6 \<Longrightarrow> length mem = BUF2STR_MAXIMUM_OUTPUT_SIZE \<Longrightarrow> mac2str mem m = Inr (mac_text m)"
  by (simp add: mac_text_join mac2str_join)

end
