(* ===== verification/User.thy ===== *)
theory User
  imports Console Channel
begin

text \<open>
  Channels and users: the requests of lib/ipmi_channel.c and lib/ipmi_user.c for the access
  settings of a channel, the access of a user, names and passwords, and the commands
  that are built from them.
\<close>

section \<open>Names of values\<close>

definition ipmi_privlvl_vals :: valstr_tab where
  "ipmi_privlvl_vals = \<lparr>vs_entries = [(0x1, ''CALLBACK''), (0x2, ''USER''), (0x3, ''OPERATOR''), (0x4, ''ADMINISTRATOR''),
     (0x5, ''OEM''), (0xF, ''NO ACCESS'')], vs_term = 0xFF\<rparr>"

definition ipmi_user_enable_status_vals :: valstr_tab where
  "ipmi_user_enable_status_vals = \<lparr>vs_entries = [(0x00, ''unknown''), (0x40, ''enabled''), (0x80, ''disabled''), (0xC0, ''reserved'')],
     vs_term = 0xFF\<rparr>"

definition ipmi_channel_medium_vals :: valstr_tab where
  "ipmi_channel_medium_vals = \<lparr>vs_entries = [(0x0, ''reserved''), (0x1, ''IPMB (I2C)''), (0x2, ''ICMB v1.0''), (0x3, ''ICMB v0.9''),
     (0x4, ''802.3 LAN''), (0x5, ''Serial/Modem''), (0x6, ''Other LAN''), (0x7, ''PCI SMBus''), (0x8, ''SMBus v1.0/v1.1''),
     (0x9, ''SMBus v2.0''), (0xA, ''USB 1.x''), (0xB, ''USB 2.x''), (0xC, ''System Interface'')], vs_term = 0\<rparr>"

definition ipmi_channel_protocol_vals :: valstr_tab where
  "ipmi_channel_protocol_vals = \<lparr>vs_entries = [(0x00, ''reserved''), (0x01, ''IPMB-1.0''), (0x02, ''ICMB-1.0''), (0x03, ''reserved''),
     (0x04, ''IPMI-SMBus''), (0x05, ''KCS''), (0x06, ''SMIC''), (0x07, ''BT-10''), (0x08, ''BT-15''), (0x09, ''TMode''),
     (0x1c, ''OEM 1''), (0x1d, ''OEM 2''), (0x1e, ''OEM 3''), (0x1f, ''OEM 4'')], vs_term = 0\<rparr>"

definition ipmi_authtype_vals :: valstr_tab where
  "ipmi_authtype_vals = \<lparr>vs_entries = [(0x01, ''NONE''), (0x02, ''MD2''), (0x04, ''MD5''), (0x10, ''PASSWORD''), (0x20, ''OEM'')], vs_term = 0\<rparr>"

text \<open>The algorithms, with the entries for SHA256 that \<open>HAVE_CRYPTO_SHA256\<close> adds.\<close>

definition ipmi_auth_algorithms :: valstr_tab where
  "ipmi_auth_algorithms = \<lparr>vs_entries = [(0, ''none''), (1, ''hmac_sha1''), (2, ''hmac_md5''), (3, ''hmac_sha256'')], vs_term = 0\<rparr>"

definition ipmi_integrity_algorithms :: valstr_tab where
  "ipmi_integrity_algorithms = \<lparr>vs_entries = [(0, ''none''), (1, ''hmac_sha1_96''), (2, ''hmac_md5_128''), (3, ''md5_128''), (4, ''sha256_128'')],
     vs_term = 0\<rparr>"

definition ipmi_encryption_algorithms :: valstr_tab where
  "ipmi_encryption_algorithms = \<lparr>vs_entries = [(0, ''none''), (1, ''aes_cbc_128''), (2, ''xrc4_128''), (3, ''xrc4_40'')], vs_term = 0\<rparr>"

definition val_text :: "byte \<Rightarrow> valstr_tab \<Rightarrow> string" where
  "val_text b t = val2str (ucast b) (Some t)"

section \<open>Access of a channel\<close>

text \<open>\<open>alerting\<close> is an enumeration, 0 for enabled alerts and 0x20 for disabled ones.\<close>

record channel_access_t =
  ca_access_mode :: byte
  ca_alerting :: byte
  ca_channel :: byte
  ca_per_message_auth :: byte
  ca_privilege_limit :: byte
  ca_user_level_auth :: byte

definition channel_access0 :: "byte \<Rightarrow> channel_access_t" where
  "channel_access0 chan = \<lparr>ca_access_mode = 0, ca_alerting = 0, ca_channel = chan, ca_per_message_auth = 0, ca_privilege_limit = 0, ca_user_level_auth = 0\<rparr>"

record channel_info_t =
  ci_channel :: byte
  ci_medium :: byte
  ci_protocol :: byte
  ci_session_support :: byte
  ci_active_sessions :: byte
  ci_vendor_id :: "byte list"
  ci_aux_info :: "byte list"

definition channel_info0 :: "byte \<Rightarrow> channel_info_t" where
  "channel_info0 chan = \<lparr>ci_channel = chan, ci_medium = 0, ci_protocol = 0, ci_session_support = 0, ci_active_sessions = 0,
     ci_vendor_id = [0, 0, 0], ci_aux_info = [0, 0]\<rparr>"

text \<open>A request whose answer must have a certain length: code, and the answer where the code is 0.\<close>

definition ccode_request :: "('e, 'w) lib_host \<Rightarrow> byte \<Rightarrow> byte list \<Rightarrow> int option \<Rightarrow> ('e, int \<times> ipmi_rsp option, 'w) com" where
  "ccode_request h cmd data len =
     cbind (csend h 0x06 cmd data) (\<lambda>rsp. cret (case rsp of
         None \<Rightarrow> (-1, None)
       | Some r \<Rightarrow> if rsp_ccode r \<noteq> 0 then (uint (rsp_ccode r), None)
                   else if len \<noteq> None \<and> rsp_data_len r \<noteq> the len then (-2, None)
                   else (0, Some r)))"

definition get_channel_access :: "('e, 'w) lib_host \<Rightarrow> channel_access_t \<Rightarrow> bool \<Rightarrow> ('e, int \<times> channel_access_t, 'w) com" where
  "get_channel_access h ca volatile =
     cbind (ccode_request h 0x41 [ca_channel ca AND 0x0F, if volatile then 0x80 else 0x40] (Some 2)) (\<lambda>(cc, rsp). cret (cc, case rsp of
         None \<Rightarrow> ca
       | Some r \<Rightarrow> ca\<lparr>ca_alerting := rsp_byte r 0 AND 0x20, ca_per_message_auth := rsp_byte r 0 AND 0x10,
                      ca_user_level_auth := rsp_byte r 0 AND 0x08, ca_access_mode := rsp_byte r 0 AND 0x07,
                      ca_privilege_limit := rsp_byte r 1 AND 0x0F\<rparr>))"

definition get_channel_info :: "('e, 'w) lib_host \<Rightarrow> channel_info_t \<Rightarrow> ('e, int \<times> channel_info_t, 'w) com" where
  "get_channel_info h ci =
     cbind (ccode_request h 0x42 [ci_channel ci AND 0x0F] (Some 9)) (\<lambda>(cc, rsp). cret (cc, case rsp of
         None \<Rightarrow> ci
       | Some r \<Rightarrow> \<lparr>ci_channel = rsp_byte r 0 AND 0x0F, ci_medium = rsp_byte r 1 AND 0x7F, ci_protocol = rsp_byte r 2 AND 0x1F,
                    ci_session_support = rsp_byte r 3 AND 0xC0, ci_active_sessions = rsp_byte r 3 AND 0x3F,
                    ci_vendor_id = rsp_bytes r 4 3, ci_aux_info = rsp_bytes r 7 2\<rparr>))"

definition set_bit_if :: "bool \<Rightarrow> byte \<Rightarrow> byte" where
  "set_bit_if b m = (if b then m else 0)"

definition channel_access_bytes :: "channel_access_t \<Rightarrow> byte \<Rightarrow> byte \<Rightarrow> byte list" where
  "channel_access_bytes ca access_option privilege_option =
     [ca_channel ca AND 0x0F,
      push_bit 6 access_option OR set_bit_if (ca_alerting ca \<noteq> 0) 0x20 OR set_bit_if (ca_per_message_auth ca \<noteq> 0) 0x10
        OR set_bit_if (ca_user_level_auth ca \<noteq> 0) 0x08 OR (ca_access_mode ca AND 0x07),
      push_bit 6 privilege_option OR (ca_privilege_limit ca AND 0x0F)]"

definition set_channel_access :: "('e, 'w) lib_host \<Rightarrow> channel_access_t \<Rightarrow> byte \<Rightarrow> byte \<Rightarrow> ('e, int, 'w) com" where
  "set_channel_access h ca access_option privilege_option =
     (if access_option > 2 \<or> privilege_option > 2 then cret (-3)
      else cbind (ccode_request h 0x40 (channel_access_bytes ca access_option privilege_option) None) (\<lambda>(cc, _). cret cc))"

definition ipmi_current_channel_info :: "('e, 'w) lib_host \<Rightarrow> channel_info_t \<Rightarrow> ('e, channel_info_t, 'w) com" where
  "ipmi_current_channel_info h ci =
     cbind (get_channel_info h (ci\<lparr>ci_channel := 0xE\<rparr>)) (\<lambda>(cc, ci1).
       cret (if cc \<noteq> 0 then ci1\<lparr>ci_channel := 0xFF, ci_medium := 0\<rparr> else ci1))"

definition ipmi_get_channel_medium :: "('e, 'w) lib_host \<Rightarrow> byte \<Rightarrow> ('e, byte, 'w) com" where
  "ipmi_get_channel_medium h channel =
     cbind (get_channel_info h (channel_info0 channel)) (\<lambda>(cc, ci). cret (if cc \<noteq> 0 then 0 else ci_medium ci))"

section \<open>Commands on channels\<close>

definition iana_string :: "u32 \<Rightarrow> string" where
  "iana_string iana = (if iana \<noteq> 0 then hex0 6 (unat iana) else ''N/A'')"

definition ipmi_1_5_authtypes :: "byte \<Rightarrow> string" where
  "ipmi_1_5_authtypes n = concat (map (\<lambda>(v, s). if ucast n AND v \<noteq> 0 then s @ '' '' else []) (vs_entries ipmi_authtype_vals))"

definition abled :: "bool \<Rightarrow> string \<Rightarrow> string \<Rightarrow> string" where
  "abled b yes no = (if b then yes else no)"

text \<open>The text of an answer about authentication capabilities, from the first eight bytes of its data.\<close>

definition auth_cap_text :: "byte list \<Rightarrow> string" where
  "auth_cap_text c =
     (let v20 = bit (c ! 1) 7; types = c ! 1 AND 0x3F
      in ''Channel number             : '' @ dec (unat (c ! 0)) @ nl
       @ ''IPMI v1.5  auth types      : '' @ ipmi_1_5_authtypes types @ nl
       @ (if v20 then ''KG status                  : '' @ abled (bit (c ! 2) 5) ''non-zero'' ''default (all zeroes)'' @ nl else [])
       @ ''Per message authentication : '' @ abled (bit (c ! 2) 4) ''dis'' ''en'' @ ''abled'' @ nl
       @ ''User level authentication  : '' @ abled (bit (c ! 2) 3) ''dis'' ''en'' @ ''abled'' @ nl
       @ ''Non-null user names exist  : '' @ abled (bit (c ! 2) 2) ''yes'' ''no'' @ nl
       @ ''Null user names exist      : '' @ abled (bit (c ! 2) 1) ''yes'' ''no'' @ nl
       @ ''Anonymous login enabled    : '' @ abled (bit (c ! 2) 0) ''yes'' ''no'' @ nl
       @ (if v20 then ''Channel supports IPMI v1.5 : '' @ abled (bit (c ! 3) 0) ''yes'' ''no'' @ nl
                    @ ''Channel supports IPMI v2.0 : '' @ abled (bit (c ! 3) 1) ''yes'' ''no'' @ nl else [])
       @ (if types AND 0x20 \<noteq> 0
          then ''IANA Number for OEM        : '' @ dec (unat (c ! 4) + unat (c ! 5) * 2 ^ 8 + unat (c ! 6) * 2 ^ 16) @ nl
             @ ''OEM Auxiliary Data         : 0x'' @ show_base 16 (unat (c ! 7)) @ nl else []))"

definition ipmi_get_channel_auth_cap :: "('e, 'w) lib_host \<Rightarrow> byte \<Rightarrow> byte \<Rightarrow> ('e, int, 'w) com" where
  "ipmi_get_channel_auth_cap h channel priv =
     cbind (csend h 0x06 0x38 [channel OR 0x80, priv]) (\<lambda>rsp.
       cbind (if case rsp of None \<Rightarrow> True | Some r \<Rightarrow> rsp_ccode r \<noteq> 0
              then csend h 0x06 0x38 [(channel OR 0x80) AND 0x7F, priv] else cret rsp) (\<lambda>rsp1.
         case rsp1 of
           None \<Rightarrow> cret (-1)
         | Some r \<Rightarrow> if rsp_ccode r \<noteq> 0 then cret (-1) else cseq (cprint (auth_cap_text (rsp_bytes r 0 8))) (cret 0)))"

text \<open>
  The names of the three algorithms of a suite. Those that are not in their tables share the static
  array of \<^const>\<open>val2str\<close>, which holds the one that was asked for last.
\<close>

definition val_known :: "byte \<Rightarrow> valstr_tab \<Rightarrow> bool" where
  "val_known b t \<longleftrightarrow> 0 \<le> find_val_idx (ucast b) (Some t)"

definition suite_names :: "bool \<Rightarrow> cipher_suite_info \<Rightarrow> string list" where
  "suite_names rtl s =
     (let algs = [(cs_auth_alg s, ipmi_auth_algorithms), (cs_integrity_alg s, ipmi_integrity_algorithms), (cs_crypt_alg s, ipmi_encryption_algorithms)];
          unknown = filter (\<lambda>(b, t). \<not> val_known b t) algs;
          shared = (case if rtl then unknown else rev unknown of [] \<Rightarrow> [] | (b, t) # _ \<Rightarrow> val_text b t)
      in map (\<lambda>(b, t). if val_known b t then val_text b t else shared) algs)"

definition cipher_suite_text :: "bool \<Rightarrow> bool \<Rightarrow> cipher_suite_info \<Rightarrow> string" where
  "cipher_suite_text rtl csv s =
     (let ts = [dec (cs_id s), iana_string (cs_iana s)] @ suite_names rtl s
      in (if csv then ts ! 0 @ '','' @ ts ! 1 @ '','' @ ts ! 2 @ '','' @ ts ! 3 @ '','' @ ts ! 4
          else pad 4 (ts ! 0) @ '' '' @ pad 7 (ts ! 1) @ '' '' @ pad 15 (ts ! 2) @ '' '' @ pad 15 (ts ! 3) @ '' '' @ pad 15 (ts ! 4)) @ nl)"

definition ipmi_print_channel_cipher_suites :: "('e, 'w) lib_host \<Rightarrow> string \<Rightarrow> byte \<Rightarrow> ('e, int, 'w) com" where
  "ipmi_print_channel_cipher_suites h payload_type channel st =
     (case ipmi_get_channel_cipher_suites (lh_sendrecv h) payload_type channel MAX_CIPHER_SUITE_COUNT (co_world st) of
        Inl e \<Rightarrow> Inl (Lib_transport e)
      | Inr (None, w) \<Rightarrow> Inr (-1, st\<lparr>co_world := w\<rparr>)
      | Inr (Some suites, w) \<Rightarrow>
          cseq (cprint ((if lh_csv_output h then [] else ''ID   IANA    Auth Alg        Integrity Alg   Confidentiality Alg'' @ nl)
                  @ concat (map (cipher_suite_text (lh_args_rtl h) (lh_csv_output h)) suites))) (cret 0) (st\<lparr>co_world := w\<rparr>))"

definition access_text :: "channel_access_t \<Rightarrow> string" where
  "access_text ca =
     ''    Alerting            : '' @ abled (ca_alerting ca \<noteq> 0) ''dis'' ''en'' @ ''abled'' @ nl
   @ ''    Per-message Auth    : '' @ abled (ca_per_message_auth ca \<noteq> 0) ''dis'' ''en'' @ ''abled'' @ nl
   @ ''    User Level Auth     : '' @ abled (ca_user_level_auth ca \<noteq> 0) ''dis'' ''en'' @ ''abled'' @ nl
   @ ''    Access Mode         : '' @ (if ca_access_mode ca = 0 then ''disabled'' else if ca_access_mode ca = 1 then ''pre-boot only''
        else if ca_access_mode ca = 2 then ''always available'' else if ca_access_mode ca = 3 then ''shared'' else ''unknown'') @ nl"

definition info_text :: "channel_info_t \<Rightarrow> string" where
  "info_text ci =
     ''Channel 0x'' @ show_base 16 (unat (ci_channel ci)) @ '' info:'' @ nl
   @ ''  Channel Medium Type   : '' @ val_text (ci_medium ci) ipmi_channel_medium_vals @ nl
   @ ''  Channel Protocol Type : '' @ val_text (ci_protocol ci) ipmi_channel_protocol_vals @ nl
   @ ''  Session Support       : '' @ (if ci_session_support ci = 0 then ''session-less'' else if ci_session_support ci = 0x40 then ''single-session''
        else if ci_session_support ci = 0x80 then ''multi-session'' else if ci_session_support ci = 0xC0 then ''session-based'' else ''unknown'') @ nl
   @ ''  Active Session Count  : '' @ dec (unat (ci_active_sessions ci)) @ nl
   @ ''  Protocol Vendor ID    : '' @ dec (unat (ci_vendor_id ci ! 0) + unat (ci_vendor_id ci ! 1) * 2 ^ 8 + unat (ci_vendor_id ci ! 2) * 2 ^ 16) @ nl"

definition ipmi_get_channel_info :: "('e, 'w) lib_host \<Rightarrow> byte \<Rightarrow> ('e, int, 'w) com" where
  "ipmi_get_channel_info h channel =
     cbind (get_channel_info h (channel_info0 channel)) (\<lambda>(cc, ci).
       if eval_ccode cc \<noteq> 0 then cret (-1)
       else cseq (cprint (info_text ci))
         (if ci_medium ci \<noteq> 4 \<and> ci_medium ci \<noteq> 6 then cret 0
          else cbind (get_channel_access h (channel_access0 (ci_channel ci)) True) (\<lambda>(cc1, ca).
            if eval_ccode cc1 \<noteq> 0 then cret (-1)
            else cseq (cprint (''  Volatile(active) Settings'' @ nl @ access_text ca))
              (cbind (get_channel_access h (channel_access0 (ci_channel ci)) False) (\<lambda>(cc2, ca2).
                if eval_ccode cc2 \<noteq> 0 then cret (-1)
                else cseq (cprint (''  Non-Volatile Settings'' @ nl @ access_text ca2)) (cret 0))))))"

section \<open>Access, names and passwords of users\<close>

definition IPMI_UID :: "byte \<Rightarrow> byte" where "IPMI_UID uid = uid AND 0x3F"

record user_access_t =
  ua_callin_callback :: byte
  ua_channel :: byte
  ua_enabled_user_ids :: byte
  ua_enable_status :: byte
  ua_fixed_user_ids :: byte
  ua_ipmi_messaging :: byte
  ua_link_auth :: byte
  ua_max_user_ids :: byte
  ua_privilege_limit :: byte
  ua_session_limit :: byte
  ua_user_id :: byte

definition user_access0 :: "byte \<Rightarrow> byte \<Rightarrow> user_access_t" where
  "user_access0 chan uid = \<lparr>ua_callin_callback = 0, ua_channel = chan, ua_enabled_user_ids = 0, ua_enable_status = 0, ua_fixed_user_ids = 0,
     ua_ipmi_messaging = 0, ua_link_auth = 0, ua_max_user_ids = 0, ua_privilege_limit = 0, ua_session_limit = 0, ua_user_id = uid\<rparr>"

definition get_user_access :: "('e, 'w) lib_host \<Rightarrow> user_access_t \<Rightarrow> ('e, int \<times> user_access_t, 'w) com" where
  "get_user_access h ua =
     cbind (ccode_request h 0x44 [ua_channel ua AND 0x0F, IPMI_UID (ua_user_id ua)] (Some 4)) (\<lambda>(cc, rsp). cret (cc, case rsp of
         None \<Rightarrow> ua
       | Some r \<Rightarrow> ua\<lparr>ua_max_user_ids := IPMI_UID (rsp_byte r 0), ua_enable_status := rsp_byte r 1 AND 0xC0,
                      ua_enabled_user_ids := IPMI_UID (rsp_byte r 1), ua_fixed_user_ids := IPMI_UID (rsp_byte r 2),
                      ua_callin_callback := rsp_byte r 3 AND 0x40, ua_link_auth := rsp_byte r 3 AND 0x20,
                      ua_ipmi_messaging := rsp_byte r 3 AND 0x10, ua_privilege_limit := rsp_byte r 3 AND 0x0F\<rparr>))"

text \<open>The name: the 17 bytes of the array, as text up to their first NUL.\<close>

definition get_user_name :: "('e, 'w) lib_host \<Rightarrow> byte \<Rightarrow> ('e, int \<times> string, 'w) com" where
  "get_user_name h uid =
     cbind (ccode_request h 0x46 [IPMI_UID uid] (Some 16)) (\<lambda>(cc, rsp). cret (cc, case rsp of
         None \<Rightarrow> [] | Some r \<Rightarrow> c_text (file_text (rsp_bytes r 0 16))))"

definition user_access_bytes :: "user_access_t \<Rightarrow> bool \<Rightarrow> byte list" where
  "user_access_bytes ua change_priv_limit_only =
     [set_bit_if (\<not> change_priv_limit_only) 0x80 OR set_bit_if (ua_callin_callback ua \<noteq> 0) 0x40 OR set_bit_if (ua_link_auth ua \<noteq> 0) 0x20
        OR set_bit_if (ua_ipmi_messaging ua \<noteq> 0) 0x10 OR (ua_channel ua AND 0x0F),
      IPMI_UID (ua_user_id ua), ua_privilege_limit ua AND 0x0F, ua_session_limit ua AND 0x0F]"

definition set_user_access :: "('e, 'w) lib_host \<Rightarrow> user_access_t \<Rightarrow> bool \<Rightarrow> ('e, int, 'w) com" where
  "set_user_access h ua change_priv_limit_only =
     cbind (ccode_request h 0x43 (user_access_bytes ua change_priv_limit_only) None) (\<lambda>(cc, _). cret cc)"

text \<open>Operations: 0 disable, 1 enable, 2 set, 3 test. The memory for the request is there.\<close>

definition password_bytes :: "byte \<Rightarrow> byte \<Rightarrow> string option \<Rightarrow> bool \<Rightarrow> byte list" where
  "password_bytes uid operation pw twenty =
     (let n = (if twenty then 20 else 16); ps = (case pw of None \<Rightarrow> [] | Some s \<Rightarrow> text_bytes (take n s))
      in [set_bit_if twenty 0x80 OR IPMI_UID uid, 0x03 AND operation] @ ps @ replicate (n - length ps) 0)"

definition set_user_password :: "('e, 'w) lib_host \<Rightarrow> byte \<Rightarrow> byte \<Rightarrow> string option \<Rightarrow> bool \<Rightarrow> ('e, int, 'w) com" where
  "set_user_password h uid operation pw twenty =
     cbind (ccode_request h 0x47 (password_bytes uid operation pw twenty) None) (\<lambda>(cc, _). cret cc)"

section \<open>Commands on users\<close>

definition dump_user_access :: "string \<Rightarrow> user_access_t \<Rightarrow> ('e, unit, 'w) com" where
  "dump_user_access name ua st =
     cprint ((if co_header st then [] else ''ID  Name'' @ [CHR 0x09] @ ''     Callin  Link Auth'' @ [CHR 0x09] @ ''IPMI Msg   Channel Priv Limit'' @ nl)
         @ pad 4 (dec (unat (ua_user_id ua))) @ pad 17 name @ pad 8 (if ua_callin_callback ua \<noteq> 0 then ''false'' else ''true '')
         @ pad 11 (if ua_link_auth ua \<noteq> 0 then ''true '' else ''false'') @ pad 11 (if ua_ipmi_messaging ua \<noteq> 0 then ''true '' else ''false'')
         @ val_text (ua_privilege_limit ua) ipmi_privlvl_vals @ nl)
       (st\<lparr>co_header := True\<rparr>)"

definition dump_user_access_csv :: "string \<Rightarrow> user_access_t \<Rightarrow> ('e, unit, 'w) com" where
  "dump_user_access_csv name ua =
     cprint (dec (unat (ua_user_id ua)) @ '','' @ name @ '','' @ (if ua_callin_callback ua \<noteq> 0 then ''false'' else ''true'') @ '',''
         @ (if ua_link_auth ua \<noteq> 0 then ''true'' else ''false'') @ '','' @ (if ua_ipmi_messaging ua \<noteq> 0 then ''true'' else ''false'') @ '',''
         @ val_text (ua_privilege_limit ua) ipmi_privlvl_vals @ nl)"

definition dump_user :: "('e, 'w) lib_host \<Rightarrow> string \<Rightarrow> user_access_t \<Rightarrow> ('e, unit, 'w) com" where
  "dump_user h = (if lh_csv_output h then dump_user_access_csv else dump_user_access)"

text \<open>Access and name of a user, the latter empty when the controller calls the field invalid; \<open>None\<close> for a failure.\<close>

definition user_entry :: "('e, 'w) lib_host \<Rightarrow> byte \<Rightarrow> nat \<Rightarrow> ('e, (user_access_t \<times> string) option, 'w) com" where
  "user_entry h channel uid =
     cbind (get_user_access h (user_access0 channel (word_of_nat uid))) (\<lambda>(cc, ua).
       if eval_ccode cc \<noteq> 0 then cret None
       else cbind (get_user_name h (word_of_nat uid)) (\<lambda>(cc1, name).
         if cc1 = 0xCC then cret (Some (ua, []))
         else if eval_ccode cc1 \<noteq> 0 then cret None
         else cret (Some (ua, name))))"

function user_list_loop :: "('e, 'w) lib_host \<Rightarrow> byte \<Rightarrow> nat \<Rightarrow> ('e, int, 'w) com" where
  "user_list_loop h channel uid =
     cbind (user_entry h channel uid) (\<lambda>entry.
       case entry of
         None \<Rightarrow> cret (-1)
       | Some (ua, name) \<Rightarrow>
           cseq (dump_user h name ua)
             (if uid + 1 \<le> unat (ua_max_user_ids ua) \<and> int (uid + 1) \<le> IPMI_UID_MAX then user_list_loop h channel (uid + 1) else cret 0))"
  by pat_completeness auto
termination
  by (relation "measure (\<lambda>(_, _, uid). nat IPMI_UID_MAX - uid)") (auto simp: IPMI_UID_MAX_def)

declare user_list_loop.simps [simp del]

definition ipmi_print_user_list :: "('e, 'w) lib_host \<Rightarrow> byte \<Rightarrow> ('e, int, 'w) com" where
  "ipmi_print_user_list h channel = user_list_loop h channel 1"

definition ipmi_print_user_summary :: "('e, 'w) lib_host \<Rightarrow> byte \<Rightarrow> ('e, int, 'w) com" where
  "ipmi_print_user_summary h channel =
     cbind (get_user_access h (user_access0 channel 1)) (\<lambda>(cc, ua).
       if eval_ccode cc \<noteq> 0 then cret (-1)
       else (let m = dec (unat (ua_max_user_ids ua)); e = dec (unat (ua_enabled_user_ids ua)); f = dec (unat (ua_fixed_user_ids ua))
             in cseq (cprint (if lh_csv_output h then m @ '','' @ e @ '','' @ f @ nl
                  else ''Maximum IDs'' @ [CHR 0x09] @ ''    : '' @ m @ nl @ ''Enabled User Count  : '' @ e @ nl @ ''Fixed Name Count    : '' @ f @ nl))
                (cret 0)))"

definition ipmi_user_set_username :: "('e, 'w) lib_host \<Rightarrow> byte \<Rightarrow> string \<Rightarrow> ('e, int, 'w) com" where
  "ipmi_user_set_username h uid name =
     (if length name \<ge> 17 then cret (-1)
      else cbind (csend h 0x06 0x45 (IPMI_UID uid # text_bytes name @ replicate (16 - length name) 0)) (\<lambda>rsp.
        case rsp of None \<Rightarrow> cret (-1) | Some r \<Rightarrow> if rsp_ccode r \<noteq> 0 then cret (-1) else cret 0))"

definition ipmi_user_test_password :: "('e, 'w) lib_host \<Rightarrow> byte \<Rightarrow> string \<Rightarrow> bool \<Rightarrow> ('e, int, 'w) com" where
  "ipmi_user_test_password h uid pw twenty =
     cbind (set_user_password h uid 3 (Some pw) twenty) (\<lambda>ret.
       cseq (cprint ((if ret = 0 then ''Success'' else if ret = 0x80 then ''Failure: password incorrect''
               else if ret = 0x81 then ''Failure: wrong password size'' else ''Unknown error'') @ nl))
         (cret (if ret = 0 then 0 else -1)))"

definition ask_password :: "('e, 'w) lib_host \<Rightarrow> byte \<Rightarrow> ('e, string option, 'w) com" where
  "ask_password h uid st = (case lh_ask_password h uid (co_world st) of (pw, w) \<Rightarrow> Inr (pw, st\<lparr>co_world := w\<rparr>))"

text \<open>The channel of an optional argument: the current one, 14, without it; \<open>None\<close> for an invalid one.\<close>

definition channel_arg :: "string option \<Rightarrow> byte option" where
  "channel_arg a =
     (case a of None \<Rightarrow> Some 0x0E
      | Some s \<Rightarrow> (case is_ipmi_channel_num (Some s) (Some 0) of (rc, v) \<Rightarrow> if rc \<noteq> 0 then None else Some (conv_byte v)))"

definition user_arg :: "string option \<Rightarrow> byte option" where
  "user_arg a = (case is_ipmi_user_id a (Some 0) of (rc, v) \<Rightarrow> if rc \<noteq> 0 then None else Some (conv_byte v))"

definition priv_arg :: "string option \<Rightarrow> byte option" where
  "priv_arg a = (case is_ipmi_user_priv_limit a (Some 0) of (rc, v) \<Rightarrow> if rc \<noteq> 0 then None else Some (conv_byte v))"

definition ipmi_user_summary :: "('e, 'w) lib_host \<Rightarrow> string list \<Rightarrow> ('e, int, 'w) com" where
  "ipmi_user_summary h argv =
     (if length argv = 1 \<or> length argv = 2
      then (case channel_arg (arg_at argv 1) of None \<Rightarrow> cret (-1) | Some c \<Rightarrow> ipmi_print_user_summary h c)
      else cret (-1))"

definition ipmi_user_list :: "('e, 'w) lib_host \<Rightarrow> string list \<Rightarrow> ('e, int, 'w) com" where
  "ipmi_user_list h argv =
     (if length argv = 1 \<or> length argv = 2
      then (case channel_arg (arg_at argv 1) of None \<Rightarrow> cret (-1) | Some c \<Rightarrow> ipmi_print_user_list h c)
      else cret (-1))"

definition ipmi_user_test :: "('e, 'w) lib_host \<Rightarrow> string list \<Rightarrow> ('e, int, 'w) com" where
  "ipmi_user_test h argv =
     (if length argv \<noteq> 3 \<and> length argv \<noteq> 4 then cret (-1)
      else case user_arg (arg_at argv 1) of
        None \<Rightarrow> cret (-1)
      | Some uid \<Rightarrow>
          (case str2int (arg_at argv 2) (Some 0) of (rc, n) \<Rightarrow>
             if rc \<noteq> 0 \<or> the n \<noteq> 16 \<and> the n \<noteq> 20 then cret (-1)
             else cbind (if length argv = 3 then ask_password h uid else cret (arg_at argv 3)) (\<lambda>pw.
               case pw of None \<Rightarrow> cret (-1) | Some p \<Rightarrow> ipmi_user_test_password h uid p (the n = 20))))"

definition ipmi_user_priv :: "('e, 'w) lib_host \<Rightarrow> string list \<Rightarrow> ('e, int, 'w) com" where
  "ipmi_user_priv h argv =
     (if length argv \<noteq> 3 \<and> length argv \<noteq> 4 then cret (-1)
      else case (channel_arg (arg_at argv 3), priv_arg (arg_at argv 2), user_arg (arg_at argv 1)) of
        (Some chan, Some priv, Some uid) \<Rightarrow>
          cbind (set_user_access h ((user_access0 chan uid)\<lparr>ua_privilege_limit := priv\<rparr>) True) (\<lambda>cc.
            if eval_ccode cc \<noteq> 0 then cret (-1)
            else cseq (cprint (''Set Privilege Level command successful (user '' @ dec (unat uid) @ '')'' @ nl)) (cret 0))
      | _ \<Rightarrow> cret (-1))"

definition ipmi_user_mod :: "('e, 'w) lib_host \<Rightarrow> string list \<Rightarrow> ('e, int, 'w) com" where
  "ipmi_user_mod h argv =
     (if length argv \<noteq> 2 then cret (-1)
      else case user_arg (arg_at argv 1) of
        None \<Rightarrow> cret (-1)
      | Some uid \<Rightarrow> cbind (set_user_password h uid (if argv ! 0 = ''disable'' then 0 else 1) None False) (\<lambda>cc.
          cret (if eval_ccode cc \<noteq> 0 then -1 else 0)))"

text \<open>The password to set: from the command line, or asked for twice.\<close>

definition new_password :: "('e, 'w) lib_host \<Rightarrow> byte \<Rightarrow> string list \<Rightarrow> ('e, string option, 'w) com" where
  "new_password h uid argv =
     (if length argv = 3
      then cbind (ask_password h uid) (\<lambda>pw. case pw of
          None \<Rightarrow> cret None
        | Some p \<Rightarrow>
            (let plen = min (length p) 21
             in if plen > 20 then cret None
                else cbind (ask_password h uid) (\<lambda>pw1. case pw1 of
                    None \<Rightarrow> cret None
                  | Some p1 \<Rightarrow> if min (length p1) 21 \<noteq> plen \<or> take plen p \<noteq> take plen p1 then cret None else cret (Some (take plen p)))))
      else cret (arg_at argv 3))"

definition password_type :: "string list \<Rightarrow> nat \<Rightarrow> nat option" where
  "password_type argv plen =
     (if length argv > 4
      then (case str2uchar (arg_at argv 4) (Some 16) of (rc, v) \<Rightarrow>
              if rc \<noteq> 0 \<or> the v \<noteq> 16 \<and> the v \<noteq> 20 then None else Some (nat (the v)))
      else Some (if plen > 16 then 20 else 16))"

definition ipmi_user_password :: "('e, 'w) lib_host \<Rightarrow> string list \<Rightarrow> ('e, int, 'w) com" where
  "ipmi_user_password h argv =
     (case user_arg (arg_at argv 2) of
        None \<Rightarrow> cret (-1)
      | Some uid \<Rightarrow> cbind (new_password h uid argv) (\<lambda>pw. case pw of
          None \<Rightarrow> cret (-1)
        | Some p \<Rightarrow>
            (let plen = min (length p) 21
             in case password_type argv plen of
                  None \<Rightarrow> cret (-1)
                | Some t \<Rightarrow>
                    if plen > t then cret (-1)
                    else cbind (set_user_password h uid 2 (Some p) (t > 16)) (\<lambda>cc.
                      if eval_ccode cc \<noteq> 0 then cret (-1)
                      else cseq (cprint (''Set User Password command successful (user '' @ dec (unat uid) @ '')'' @ nl)) (cret 0)))))"

definition ipmi_user_name :: "('e, 'w) lib_host \<Rightarrow> string list \<Rightarrow> ('e, int, 'w) com" where
  "ipmi_user_name h argv =
     (if length argv \<noteq> 4 then cret (-1)
      else case user_arg (arg_at argv 2) of
        None \<Rightarrow> cret (-1)
      | Some uid \<Rightarrow> if length (argv ! 3) > 16 then cret (-1) else ipmi_user_set_username h uid (argv ! 3))"

definition ipmi_user_main :: "('e, 'w) lib_host \<Rightarrow> string list \<Rightarrow> ('e, int, 'w) com" where
  "ipmi_user_main h argv =
     (case argv of
        [] \<Rightarrow> cret (-1)
      | cmd # _ \<Rightarrow>
          if cmd = ''help'' then cret 0
          else if cmd = ''summary'' then ipmi_user_summary h argv
          else if cmd = ''list'' then ipmi_user_list h argv
          else if cmd = ''test'' then ipmi_user_test h argv
          else if cmd = ''set'' then
            (if length argv \<ge> 3 \<and> argv ! 1 = ''password'' then ipmi_user_password h argv
             else if length argv \<ge> 2 \<and> argv ! 1 = ''name'' then ipmi_user_name h argv
             else cret (-1))
          else if cmd = ''priv'' then ipmi_user_priv h argv
          else if cmd = ''disable'' \<or> cmd = ''enable'' then ipmi_user_mod h argv
          else cret (-1))"

section \<open>Access of users to a channel\<close>

definition user_text :: "nat \<Rightarrow> user_access_t \<Rightarrow> string \<Rightarrow> string" where
  "user_text uid ua name =
     nl @ ''User ID              : '' @ dec uid @ nl @ ''User Name            : '' @ name @ nl
   @ ''Fixed Name           : '' @ (if uid \<le> unat (ua_fixed_user_ids ua) then ''Yes'' else ''No'') @ nl
   @ ''Access Available     : '' @ (if ua_callin_callback ua \<noteq> 0 then ''callback'' else ''call-in / callback'') @ nl
   @ ''Link Authentication  : '' @ abled (ua_link_auth ua \<noteq> 0) ''en'' ''dis'' @ ''abled'' @ nl
   @ ''IPMI Messaging       : '' @ abled (ua_ipmi_messaging ua \<noteq> 0) ''en'' ''dis'' @ ''abled'' @ nl
   @ ''Privilege Level      : '' @ val_text (ua_privilege_limit ua) ipmi_privlvl_vals @ nl
   @ ''Enable Status        : '' @ val_text (ua_enable_status ua) ipmi_user_enable_status_vals @ nl"

text \<open>The users after the first one; n are left.\<close>

fun channel_users_loop :: "('e, 'w) lib_host \<Rightarrow> byte \<Rightarrow> nat \<Rightarrow> nat \<Rightarrow> ('e, int, 'w) com" where
  "channel_users_loop h channel uid 0 = cret 0"
| "channel_users_loop h channel uid (Suc n) =
     cbind (user_entry h channel uid) (\<lambda>entry.
       case entry of
         None \<Rightarrow> cret (-1)
       | Some (ua, name) \<Rightarrow> cseq (cprint (user_text uid ua name)) (channel_users_loop h channel (uid + 1) n))"

definition ipmi_get_user_access :: "('e, 'w) lib_host \<Rightarrow> byte \<Rightarrow> byte \<Rightarrow> ('e, int, 'w) com" where
  "ipmi_get_user_access h channel user_id =
     (let uid = (if user_id \<noteq> 0 then unat user_id else 1)
      in cbind (user_entry h channel uid) (\<lambda>entry.
           case entry of
             None \<Rightarrow> cret (-1)
           | Some (ua, name) \<Rightarrow>
               cseq (cprint (''Maximum User IDs     : '' @ dec (unat (ua_max_user_ids ua)) @ nl @ ''Enabled User IDs     : ''
                       @ dec (unat (ua_enabled_user_ids ua)) @ nl @ user_text uid ua name))
                 (if user_id \<noteq> 0 then cret 0 else channel_users_loop h channel (uid + 1) (unat (ua_max_user_ids ua) - uid))))"

text \<open>One option \<open>name=value\<close>. The value of a privilege is not compared with the bounds of the table.\<close>

definition option_value :: "string \<Rightarrow> string \<Rightarrow> string option" where
  "option_value name arg = (if take (length name) arg = name then Some (drop (length name) arg) else None)"

definition off_value :: "string \<Rightarrow> bool" where
  "off_value v \<longleftrightarrow> v = ''off'' \<or> v = ''disable'' \<or> v = ''no''"

definition access_option :: "string \<Rightarrow> user_access_t \<Rightarrow> user_access_t option" where
  "access_option arg ua =
     (case option_value ''callin='' arg of
        Some v \<Rightarrow> Some (ua\<lparr>ua_callin_callback := (if off_value v then 1 else 0)\<rparr>)
      | None \<Rightarrow>
     (case option_value ''link='' arg of
        Some v \<Rightarrow> Some (ua\<lparr>ua_link_auth := (if off_value v then 0 else 1)\<rparr>)
      | None \<Rightarrow>
     (case option_value ''ipmi='' arg of
        Some v \<Rightarrow> Some (ua\<lparr>ua_ipmi_messaging := (if off_value v then 0 else 1)\<rparr>)
      | None \<Rightarrow>
     (case option_value ''privilege='' arg of
        Some v \<Rightarrow>
          (let p = str2val v ipmi_privlvl_vals
           in if p \<noteq> 0xFF then Some (ua\<lparr>ua_privilege_limit := ucast p\<rparr>)
              else (case str2uchar (Some v) (Some 0) of (rc, n) \<Rightarrow> if rc \<noteq> 0 then None else Some (ua\<lparr>ua_privilege_limit := conv_byte n\<rparr>)))
      | None \<Rightarrow> None))))"

fun access_options :: "string list \<Rightarrow> user_access_t \<Rightarrow> user_access_t option" where
  "access_options [] ua = Some ua"
| "access_options (arg # args) ua = (case access_option arg ua of None \<Rightarrow> None | Some ua1 \<Rightarrow> access_options args ua1)"

definition ipmi_set_user_access :: "('e, 'w) lib_host \<Rightarrow> string list \<Rightarrow> ('e, int, 'w) com" where
  "ipmi_set_user_access h argv =
     (if argv \<noteq> [] \<and> hd argv = ''help'' then cret 0
      else if length argv < 3 then cret (-1)
      else case (is_ipmi_channel_num (arg_at argv 0) (Some 0), user_arg (arg_at argv 1)) of
        ((rc, chan), Some uid) \<Rightarrow>
          if rc \<noteq> 0 then cret (-1)
          else cbind (get_user_access h (user_access0 (conv_byte chan) uid)) (\<lambda>(cc, ua).
            if eval_ccode cc \<noteq> 0 then cret (-1)
            else (case access_options (drop 2 argv) ua of
                    None \<Rightarrow> cret (-1)
                  | Some ua1 \<Rightarrow> cbind (set_user_access h ua1 False) (\<lambda>cc1.
                      if eval_ccode cc1 \<noteq> 0 then cret (-1)
                      else cseq (cprint (''Set User Access (channel '' @ dec (unat (conv_byte chan)) @ '' id '' @ dec (unat uid) @ '') successful.'' @ nl)) (cret 0))))
      | (_, None) \<Rightarrow> cret (-1))"

definition ipmi_channel_main :: "('e, 'w) lib_host \<Rightarrow> string list \<Rightarrow> ('e, int, 'w) com" where
  "ipmi_channel_main h argv =
     (case argv of
        [] \<Rightarrow> cret (-1)
      | cmd # args \<Rightarrow>
          if cmd = ''help'' then cret 0
          else if cmd = ''authcap'' then
            (if length argv \<noteq> 3 then cret (-1)
             else case (channel_arg (arg_at argv 1), priv_arg (arg_at argv 2)) of
               (Some chan, Some priv) \<Rightarrow> ipmi_get_channel_auth_cap h chan priv
             | _ \<Rightarrow> cret (-1))
          else if cmd = ''getaccess'' then
            (if length argv < 2 \<or> length argv > 3 then cret (-1)
             else case (channel_arg (arg_at argv 1), if length argv = 3 then user_arg (arg_at argv 2) else Some 0) of
               (Some chan, Some uid) \<Rightarrow> ipmi_get_user_access h chan uid
             | _ \<Rightarrow> cret (-1))
          else if cmd = ''setaccess'' then ipmi_set_user_access h args
          else if cmd = ''info'' then
            (if length argv > 2 then cret (-1)
             else case channel_arg (arg_at argv 1) of None \<Rightarrow> cret (-1) | Some chan \<Rightarrow> ipmi_get_channel_info h chan)
          else if cmd = ''getciphers'' then
            (if length argv < 2 \<or> length argv > 3 \<or> argv ! 1 \<noteq> ''ipmi'' \<and> argv ! 1 \<noteq> ''sol'' then cret (-1)
             else case channel_arg (arg_at argv 2) of None \<Rightarrow> cret (-1) | Some chan \<Rightarrow> ipmi_print_channel_cipher_suites h (argv ! 1) chan)
          else cret (-1))"

end
