(* ===== verification/User_Access.thy ===== *)
theory User_Access
  imports User
begin

text \<open>
  What the commands on users do: a password is sent whole or not at all, a change of a user's
  access keeps the settings that are not named, and a listing shows every user once.
\<close>

section \<open>Passwords\<close>

lemma user_arg_dec: "1 \<le> uid \<Longrightarrow> uid \<le> 63 \<Longrightarrow> user_arg (Some (dec uid)) = Some (word_of_nat uid)"
  by (simp add: user_arg_def is_ipmi_user_id_def dec_def str2uchar_dec IPMI_UID_MIN_def IPMI_UID_MAX_def conv_byte_def)

lemma IPMI_UID_small: "uid \<le> 63 \<Longrightarrow> IPMI_UID (word_of_nat uid) = word_of_nat uid"
proof -
  assume "uid \<le> 63"
  then have "(word_of_nat uid :: byte) < 2 ^ 6" by (simp add: word_less_nat_alt unat_of_nat)
  then have "word_of_nat uid AND mask 6 = (word_of_nat uid :: byte)" by (rule less_mask_eq)
  then show ?thesis by (simp add: IPMI_UID_def mask_eq_exp_minus_1)
qed




section \<open>Changing the access of a user\<close>

definition names_option :: "string \<Rightarrow> string list \<Rightarrow> bool" where
  "names_option name args \<longleftrightarrow> (\<exists>a\<in>set args. option_value name a \<noteq> None)"

text \<open>A request that keeps the settings of byte b which no option names.\<close>

definition keeps_unnamed :: "string list \<Rightarrow> byte \<Rightarrow> byte list \<Rightarrow> bool" where
  "keeps_unnamed args b d \<longleftrightarrow>
     (\<not> names_option ''callin='' args \<longrightarrow> d ! 0 AND 0x40 = b AND 0x40) \<and>
     (\<not> names_option ''link='' args \<longrightarrow> d ! 0 AND 0x20 = b AND 0x20) \<and>
     (\<not> names_option ''ipmi='' args \<longrightarrow> d ! 0 AND 0x10 = b AND 0x10) \<and>
     (\<not> names_option ''privilege='' args \<longrightarrow> d ! 2 = b AND 0x0F)"

lemma access_option_keeps:
  assumes "access_option a ua = Some ua1"
  shows "option_value ''callin='' a = None \<Longrightarrow> ua_callin_callback ua1 = ua_callin_callback ua"
    and "option_value ''link='' a = None \<Longrightarrow> ua_link_auth ua1 = ua_link_auth ua"
    and "option_value ''ipmi='' a = None \<Longrightarrow> ua_ipmi_messaging ua1 = ua_ipmi_messaging ua"
    and "option_value ''privilege='' a = None \<Longrightarrow> ua_privilege_limit ua1 = ua_privilege_limit ua"
    and "ua_channel ua1 = ua_channel ua" and "ua_user_id ua1 = ua_user_id ua" and "ua_session_limit ua1 = ua_session_limit ua"
  using assms by (auto simp: access_option_def Let_def split: option.splits prod.splits if_splits)

lemma access_options_keep:
  assumes "access_options args ua = Some ua1"
  shows "(\<not> names_option ''callin='' args \<longrightarrow> ua_callin_callback ua1 = ua_callin_callback ua)
     \<and> (\<not> names_option ''link='' args \<longrightarrow> ua_link_auth ua1 = ua_link_auth ua)
     \<and> (\<not> names_option ''ipmi='' args \<longrightarrow> ua_ipmi_messaging ua1 = ua_ipmi_messaging ua)
     \<and> (\<not> names_option ''privilege='' args \<longrightarrow> ua_privilege_limit ua1 = ua_privilege_limit ua)
     \<and> ua_channel ua1 = ua_channel ua \<and> ua_user_id ua1 = ua_user_id ua \<and> ua_session_limit ua1 = ua_session_limit ua"
  using assms
proof (induction args arbitrary: ua)
  case (Cons a args)
  then obtain ua2 where "access_option a ua = Some ua2" "access_options args ua2 = Some ua1" by (auto split: option.splits)
  then show ?case using Cons.IH [of ua2] access_option_keeps [of a ua ua2] by (auto simp: names_option_def)
qed simp


lemma access_bits:
  "(set_bit_if c 0x80 OR set_bit_if x 0x40 OR set_bit_if y 0x20 OR set_bit_if z 0x10 OR (ch AND 0x0F)) AND 0x40 = set_bit_if x (0x40 :: byte)"
  "(set_bit_if c 0x80 OR set_bit_if x 0x40 OR set_bit_if y 0x20 OR set_bit_if z 0x10 OR (ch AND 0x0F)) AND 0x20 = set_bit_if y (0x20 :: byte)"
  "(set_bit_if c 0x80 OR set_bit_if x 0x40 OR set_bit_if y 0x20 OR set_bit_if z 0x10 OR (ch AND 0x0F)) AND 0x10 = set_bit_if z (0x10 :: byte)"
  by (simp_all add: set_bit_if_def bit.conj_disj_distrib2 and.assoc)

lemma access_channel:
  "(set_bit_if c 0x80 OR set_bit_if x 0x40 OR set_bit_if y 0x20 OR set_bit_if z 0x10 OR (ch AND 0x0F)) AND 0x0F = (ch AND 0x0F :: byte)"
  by (simp add: set_bit_if_def bit.conj_disj_distrib2 and.assoc)

lemma byte_mask: "k < 2 ^ m \<Longrightarrow> m \<le> 8 \<Longrightarrow> (word_of_nat k :: byte) AND mask m = word_of_nat k"
  by (simp add: take_bit_eq_mask [symmetric] take_bit_of_nat take_bit_nat_eq_self)

lemma channel_mask: "chan \<le> 15 \<Longrightarrow> (word_of_nat chan :: byte) AND 0x0F = word_of_nat chan"
  using byte_mask [of chan 4] by (simp add: mask_eq_exp_minus_1)

lemma uid_mask: "uid \<le> 63 \<Longrightarrow> IPMI_UID (word_of_nat uid) = word_of_nat uid"
  using byte_mask [of uid 6] by (simp add: mask_eq_exp_minus_1 IPMI_UID_def)

lemma dec_no_help: "dec n \<noteq> ''help''"
  using show_base_digits [of 10 n] by (auto simp: dec_def is_digit_in_def digit_val_def)

lemma single_bit: "(b :: byte) AND 0x40 \<noteq> 0 \<Longrightarrow> b AND 0x40 = 0x40" "(b :: byte) AND 0x20 \<noteq> 0 \<Longrightarrow> b AND 0x20 = 0x20"
    "(b :: byte) AND 0x10 \<noteq> 0 \<Longrightarrow> b AND 0x10 = 0x10"
proof -
  have "b AND 2 ^ k = (if bit b k then 2 ^ k else 0)" for k
    by (rule bit_word_eqI) (auto simp: bit_simps)
  from this [of 6] this [of 5] this [of 4]
  show "b AND 0x40 \<noteq> 0 \<Longrightarrow> b AND 0x40 = 0x40" "b AND 0x20 \<noteq> 0 \<Longrightarrow> b AND 0x20 = 0x20" "b AND 0x10 \<noteq> 0 \<Longrightarrow> b AND 0x10 = 0x10"
    by (auto split: if_splits)
qed

lemma set_bit_if_and: "set_bit_if (b AND 0x40 \<noteq> 0) 0x40 = b AND 0x40" "set_bit_if (b AND 0x20 \<noteq> 0) 0x20 = b AND 0x20"
    "set_bit_if (b AND 0x10 \<noteq> 0) 0x10 = b AND 0x10"
  by (auto simp: set_bit_if_def single_bit)

lemma options_request_keeps:
  assumes "access_options args ua = Some ua1" and "ua_callin_callback ua = b AND 0x40" and "ua_link_auth ua = b AND 0x20"
    and "ua_ipmi_messaging ua = b AND 0x10" and "ua_privilege_limit ua = b AND 0x0F"
  shows "keeps_unnamed args b (user_access_bytes ua1 False)"
proof -
  let ?d = "user_access_bytes ua1 False"
  have "?d ! 0 AND 0x40 = set_bit_if (ua_callin_callback ua1 \<noteq> 0) 0x40" "?d ! 0 AND 0x20 = set_bit_if (ua_link_auth ua1 \<noteq> 0) 0x20"
      "?d ! 0 AND 0x10 = set_bit_if (ua_ipmi_messaging ua1 \<noteq> 0) 0x10" "?d ! 2 = ua_privilege_limit ua1 AND 0x0F"
    by (simp_all add: user_access_bytes_def access_bits)
  then show ?thesis using access_options_keep [OF assms(1)] assms(2-5)
    by (simp add: keeps_unnamed_def set_bit_if_and and.assoc)
qed

lemma drop_2_Cons: "drop 2 (a # b # xs) = xs"
  by simp

text \<open>Requests that succeed.\<close>

lemma ccode_request_ok:
  assumes "ccode_request h cmd data len st = Inr ((0, x), st1)"
  obtains r w where "lh_sendrecv h (mk_rq 0x06 cmd data) (co_world st) = Inr (Some r, w)" and "rsp_ccode r = 0"
    and "len \<noteq> None \<Longrightarrow> rsp_data_len r = the len" and "x = Some r" and "st1 = st\<lparr>co_world := w\<rparr>"
  using assms
  by (auto simp: ccode_request_def cbind_Inr cret_run csend_def uint_0_iff split: sum.splits prod.splits option.splits if_splits)

lemma get_user_access_ok:
  assumes "get_user_access h ua st = Inr ((0, ua1), st1)"
  obtains r w where "lh_sendrecv h (mk_rq 0x06 0x44 [ua_channel ua AND 0x0F, IPMI_UID (ua_user_id ua)]) (co_world st) = Inr (Some r, w)"
    and "rsp_ccode r = 0" and "rsp_data_len r = 4" and "st1 = st\<lparr>co_world := w\<rparr>"
    and "ua1 = ua\<lparr>ua_max_user_ids := IPMI_UID (rsp_byte r 0), ua_enable_status := rsp_byte r 1 AND 0xC0,
                      ua_enabled_user_ids := IPMI_UID (rsp_byte r 1), ua_fixed_user_ids := IPMI_UID (rsp_byte r 2),
                      ua_callin_callback := rsp_byte r 3 AND 0x40, ua_link_auth := rsp_byte r 3 AND 0x20,
                      ua_ipmi_messaging := rsp_byte r 3 AND 0x10, ua_privilege_limit := rsp_byte r 3 AND 0x0F\<rparr>"
proof -
  obtain x where x: "ccode_request h 0x44 [ua_channel ua AND 0x0F, IPMI_UID (ua_user_id ua)] (Some 4) st = Inr ((0, x), st1)"
      and ua1: "ua1 = (case x of None \<Rightarrow> ua | Some r \<Rightarrow> ua\<lparr>ua_max_user_ids := IPMI_UID (rsp_byte r 0), ua_enable_status := rsp_byte r 1 AND 0xC0,
                      ua_enabled_user_ids := IPMI_UID (rsp_byte r 1), ua_fixed_user_ids := IPMI_UID (rsp_byte r 2),
                      ua_callin_callback := rsp_byte r 3 AND 0x40, ua_link_auth := rsp_byte r 3 AND 0x20,
                      ua_ipmi_messaging := rsp_byte r 3 AND 0x10, ua_privilege_limit := rsp_byte r 3 AND 0x0F\<rparr>)"
    using assms by (auto simp: get_user_access_def cbind_Inr cret_run)
  then show ?thesis by (auto elim!: ccode_request_ok intro: that)
qed

lemma set_user_access_ok:
  assumes "set_user_access h ua only st = Inr (0, st1)"
  obtains r w where "lh_sendrecv h (mk_rq 0x06 0x43 (user_access_bytes ua only)) (co_world st) = Inr (Some r, w)"
    and "rsp_ccode r = 0" and "st1 = st\<lparr>co_world := w\<rparr>"
proof -
  obtain x where "ccode_request h 0x43 (user_access_bytes ua only) None st = Inr ((0, x), st1)"
    using assms by (auto simp: set_user_access_def cbind_Inr cret_run)
  then show ?thesis by (auto elim!: ccode_request_ok intro: that)
qed

lemma eval_ccode_0 [simp]: "eval_ccode cc = 0 \<longleftrightarrow> cc = 0"
  by (simp add: eval_ccode_def)

text \<open>
  C20: changing the access of a user. A successful change made two requests: one that read the
  access of the user named on the channel named, and one that set it for the same user and
  channel; the second has, for every setting that no option named, the value that the first one
  read.
\<close>

theorem set_access_keeps_unnamed:
  assumes "ipmi_set_user_access h (dec chan # dec uid # args) st = Inr (0, st')" and "chan \<le> 15" and "1 \<le> uid" and "uid \<le> 63"
  shows "\<exists>r w1 d r' w2. lh_sendrecv h (mk_rq 0x06 0x44 [word_of_nat chan, word_of_nat uid]) (co_world st) = Inr (Some r, w1)
     \<and> rsp_ccode r = 0 \<and> rsp_data_len r = 4
     \<and> lh_sendrecv h (mk_rq 0x06 0x43 d) w1 = Inr (Some r', w2) \<and> rsp_ccode r' = 0 \<and> co_world st' = w2
     \<and> d ! 0 AND 0x0F = word_of_nat chan \<and> d ! 1 = word_of_nat uid \<and> keeps_unnamed args (rsp_byte r 3) d"
proof -
  have u: "user_arg (Some (dec uid)) = Some (word_of_nat uid)" using assms(3,4) by (rule user_arg_dec)
  obtain rc cn where c: "is_ipmi_channel_num (Some (dec chan)) (Some 0) = (rc, cn)" by (cases "is_ipmi_channel_num (Some (dec chan)) (Some 0)")
  have "str2uchar (Some (dec chan)) (Some 0) = (0, Some (int chan))" using assms(2) by (simp add: dec_def str2uchar_dec)
  with c have cn: "conv_byte cn = word_of_nat chan" by (auto simp: is_ipmi_channel_num_def conv_byte_def split: if_splits)
  have masks: "(word_of_nat chan :: byte) AND 0x0F = word_of_nat chan" "IPMI_UID (word_of_nat uid) = word_of_nat uid"
    using assms(2,4) by (simp_all add: channel_mask uid_mask)
  have run: "cbind (get_user_access h (user_access0 (word_of_nat chan) (word_of_nat uid))) (\<lambda>(cc, ua).
            if eval_ccode cc \<noteq> 0 then cret (-1)
            else (case access_options args ua of
                    None \<Rightarrow> cret (-1)
                  | Some ua1 \<Rightarrow> cbind (set_user_access h ua1 False) (\<lambda>cc1.
                      if eval_ccode cc1 \<noteq> 0 then cret (-1)
                      else cseq (cprint (''Set User Access (channel '' @ dec (unat (conv_byte cn)) @ '' id '' @ dec (unat (word_of_nat uid :: byte)) @ '') successful.'' @ nl)) (cret 0)))) st
        = Inr (0 :: int, st')"
    using assms(1) dec_no_help [of chan] unfolding ipmi_set_user_access_def drop_2_Cons
    by (simp add: arg_at_def cret_run c u cn split: if_splits)
  obtain ua st1 ua1 st2 where g: "get_user_access h (user_access0 (word_of_nat chan) (word_of_nat uid)) st = Inr ((0, ua), st1)"
      and o: "access_options args ua = Some ua1" and s: "set_user_access h ua1 False st1 = Inr (0, st2)" and w: "co_world st' = co_world st2"
    using run by (auto simp: com_Inr cret_run cprint_run split: if_splits option.splits)
  obtain r w1 where r: "lh_sendrecv h (mk_rq 0x06 0x44 [word_of_nat chan AND 0x0F, IPMI_UID (word_of_nat uid)]) (co_world st) = Inr (Some r, w1)"
      "rsp_ccode r = 0" "rsp_data_len r = 4" "st1 = st\<lparr>co_world := w1\<rparr>"
      and ua: "ua_callin_callback ua = rsp_byte r 3 AND 0x40" "ua_link_auth ua = rsp_byte r 3 AND 0x20"
        "ua_ipmi_messaging ua = rsp_byte r 3 AND 0x10" "ua_privilege_limit ua = rsp_byte r 3 AND 0x0F"
        "ua_user_id ua = word_of_nat uid" "ua_channel ua = word_of_nat chan"
    using g by (rule get_user_access_ok) (simp add: user_access0_def)
  obtain r' w2 where r': "lh_sendrecv h (mk_rq 0x06 0x43 (user_access_bytes ua1 False)) w1 = Inr (Some r', w2)" "rsp_ccode r' = 0" "co_world st2 = w2"
    using s by (rule set_user_access_ok) (simp add: r(4))
  have kept: "ua_user_id ua1 = word_of_nat uid" "ua_channel ua1 = word_of_nat chan" using access_options_keep [OF o] ua(5,6) by auto
  have "user_access_bytes ua1 False ! 0 AND 0x0F = ua_channel ua1 AND 0x0F" "user_access_bytes ua1 False ! 1 = IPMI_UID (ua_user_id ua1)"
    by (simp_all add: user_access_bytes_def access_channel)
  then have "user_access_bytes ua1 False ! 1 = word_of_nat uid" "user_access_bytes ua1 False ! 0 AND 0x0F = word_of_nat chan"
    using kept masks by simp_all
  with options_request_keeps [OF o ua(1-4)] r r' w masks show ?thesis by auto
qed


section \<open>Listing users\<close>

text \<open>
  A controller with n users: on every channel it gives the access of user uid as the byte \<open>acc uid\<close>
  and the name as 16 bytes.
\<close>

definition users_serve :: "('e, 'w) lib_host \<Rightarrow> nat \<Rightarrow> (nat \<Rightarrow> byte) \<Rightarrow> (nat \<Rightarrow> byte list) \<Rightarrow> bool" where
  "users_serve h n acc names \<longleftrightarrow>
     (\<forall>chan uid w. 1 \<le> uid \<and> uid \<le> n \<longrightarrow> length (names uid) = 16 \<and>
       (\<exists>e f w'. lh_sendrecv h (mk_rq 0x06 0x44 [chan AND 0x0F, IPMI_UID (word_of_nat uid)]) w = Inr (Some (rsp_of 0 [word_of_nat n, e, f, acc uid]), w')) \<and>
       (\<exists>w'. lh_sendrecv h (mk_rq 0x06 0x46 [IPMI_UID (word_of_nat uid)]) w = Inr (Some (rsp_of 0 (names uid)), w')))"

definition csv_user :: "nat \<Rightarrow> byte \<Rightarrow> byte list \<Rightarrow> string" where
  "csv_user uid b name =
     dec uid @ '','' @ c_text (file_text name) @ '','' @ (if b AND 0x40 \<noteq> 0 then ''false'' else ''true'') @ '',''
     @ (if b AND 0x20 \<noteq> 0 then ''true'' else ''false'') @ '','' @ (if b AND 0x10 \<noteq> 0 then ''true'' else ''false'') @ '',''
     @ val_text (b AND 0x0F) ipmi_privlvl_vals @ nl"

lemma serve_entry:
  assumes "users_serve h n acc names" and "1 \<le> uid" and "uid \<le> n" and "n \<le> 63"
  shows "\<exists>ua w'. user_entry h chan uid st = Inr (Some (ua, c_text (file_text (names uid))), st\<lparr>co_world := w'\<rparr>)
     \<and> unat (ua_max_user_ids ua) = n \<and> unat (ua_user_id ua) = uid \<and> ua_callin_callback ua = acc uid AND 0x40 \<and> ua_link_auth ua = acc uid AND 0x20
     \<and> ua_ipmi_messaging ua = acc uid AND 0x10 \<and> ua_privilege_limit ua = acc uid AND 0x0F"
proof -
  have n: "length (names uid) = 16" using assms unfolding users_serve_def by blast
  obtain e f w1 where w1: "lh_sendrecv h (mk_rq 0x06 0x44 [chan AND 0x0F, IPMI_UID (word_of_nat uid)]) (co_world st)
      = Inr (Some (rsp_of 0 [word_of_nat n, e, f, acc uid]), w1)"
    using assms unfolding users_serve_def by blast
  obtain w2 where w2: "lh_sendrecv h (mk_rq 0x06 0x46 [IPMI_UID (word_of_nat uid)]) w1 = Inr (Some (rsp_of 0 (names uid)), w2)"
    using assms unfolding users_serve_def by blast
  have max: "unat (IPMI_UID (word_of_nat n)) = n" "unat (word_of_nat uid :: byte) = uid" using assms by (simp_all add: IPMI_UID_small unat_of_nat)
  have name: "rsp_bytes (rsp_of 0 (names uid)) 0 16 = names uid" using rsp_bytes_take [of 0 16 "rsp_of 0 (names uid)"] n by simp
  show ?thesis using w1 w2 n name max
    by (simp add: user_entry_def get_user_access_def get_user_name_def ccode_request_def user_access0_def csend_def com_run eval_ccode_def rsp_byte_def)
      (rule exI, rule refl)
qed

lemma list_from:
  assumes h: "users_serve h n acc names" and csv: "lh_csv_output h" and n: "n \<le> 63"
  shows "1 \<le> uid \<Longrightarrow> uid \<le> n \<Longrightarrow> \<exists>w'. user_list_loop h chan uid st
      = Inr (0, st\<lparr>co_world := w', co_out := co_out st @ concat (map (\<lambda>u. csv_user u (acc u) (names u)) [uid..<n + 1])\<rparr>)"
proof (induction "n - uid" arbitrary: uid st)
  case 0
  then have u: "uid = n" by simp
  obtain ua w where e: "user_entry h chan uid st = Inr (Some (ua, c_text (file_text (names uid))), st\<lparr>co_world := w\<rparr>)"
      "unat (ua_max_user_ids ua) = n" "unat (ua_user_id ua) = uid" "ua_callin_callback ua = acc uid AND 0x40" "ua_link_auth ua = acc uid AND 0x20"
      "ua_ipmi_messaging ua = acc uid AND 0x10" "ua_privilege_limit ua = acc uid AND 0x0F"
    using serve_entry [OF h 0(2,3) n, of chan st] by blast
  show ?case using e u csv
    by (subst user_list_loop.simps) (auto simp: com_run dump_user_def dump_user_access_csv_def csv_user_def)
next
  case (Suc k)
  then have u: "uid < n" by simp
  obtain ua w where e: "user_entry h chan uid st = Inr (Some (ua, c_text (file_text (names uid))), st\<lparr>co_world := w\<rparr>)"
      "unat (ua_max_user_ids ua) = n" "unat (ua_user_id ua) = uid" "ua_callin_callback ua = acc uid AND 0x40" "ua_link_auth ua = acc uid AND 0x20"
      "ua_ipmi_messaging ua = acc uid AND 0x10" "ua_privilege_limit ua = acc uid AND 0x0F"
    using serve_entry [OF h Suc(3,4) n, of chan st] by blast
  let ?st = "st\<lparr>co_world := w, co_out := co_out st @ csv_user uid (acc uid) (names uid)\<rparr>"
  have step: "user_list_loop h chan uid st = user_list_loop h chan (uid + 1) ?st"
    using e u csv n
    by (subst user_list_loop.simps) (auto simp: com_run dump_user_def dump_user_access_csv_def csv_user_def IPMI_UID_MAX_def)
  have k: "k = n - (uid + 1)" "1 \<le> uid + 1" "uid + 1 \<le> n" using Suc(2) u by simp_all
  obtain w' where "user_list_loop h chan (uid + 1) ?st
      = Inr (0, ?st\<lparr>co_world := w', co_out := co_out ?st @ concat (map (\<lambda>u. csv_user u (acc u) (names u)) [uid + 1..<n + 1])\<rparr>)"
    using Suc(1) [OF k, of ?st] by blast
  then show ?case using step u by (intro exI [of _ w']) (simp add: upt_conv_Cons)
qed

text \<open>
  The listing of users ends and is complete: with a controller of n users, at most 63, the
  command prints one line for each of them, from the first to the last, with its
  access and name, and reports success.
\<close>

theorem user_list_complete:
  assumes "users_serve h n acc names" and "lh_csv_output h" and "1 \<le> n" and "n \<le> 63"
  shows "\<exists>w'. ipmi_user_main h [''list''] st
     = Inr (0, st\<lparr>co_world := w', co_out := co_out st @ concat (map (\<lambda>u. csv_user u (acc u) (names u)) [1..<n + 1])\<rparr>)"
  using list_from [OF assms(1,2,4), of 1 "0x0E" st] assms(3)
  by (simp add: ipmi_user_main_def ipmi_user_list_def arg_at_def channel_arg_def ipmi_print_user_list_def)

text \<open>A controller with two users, and the witnesses.\<close>

definition user_bmc :: "(unit, unit) sendrecv" where
  "user_bmc req w =
     (if rq_cmd req = 0x44 then Inr (Some (rsp_of 0 [2, 0x41, 1, if rq_data req ! 1 = 1 then 0x34 else 0x12]), w)
      else if rq_cmd req = 0x46 then
        Inr (Some (rsp_of 0 (if rq_data req ! 0 = 1 then text_bytes ''root'' @ replicate 12 0 else replicate 16 0)), w)
      else Inr (Some (rsp_of 0 []), w))"

definition user_host :: "(unit, unit) lib_host" where
  "user_host = \<lparr>lh_sendrecv = user_bmc, lh_upd_intf = (\<lambda>_ w. w), lh_ask_password = (\<lambda>_ w. (None, w)), lh_csv_output = True, lh_verbose = 0,
     lh_accept_0x = True, lh_args_rtl = True\<rparr>"

definition user_console :: "unit console" where
  "user_console = \<lparr>co_world = (), co_out = [], co_header = False\<rparr>"

lemma user_bmc_serves:
  "users_serve user_host 2 (\<lambda>u. if u = 1 then 0x34 else 0x12) (\<lambda>u. if u = 1 then text_bytes ''root'' @ replicate 12 0 else replicate 16 0)"
proof -
  have "uid = 1 \<or> uid = 2" if "1 \<le> uid" "uid \<le> 2" for uid :: nat using that by arith
  moreover have "length (text_bytes ''root'') = 4" by (simp add: text_bytes_def)
  moreover have "lh_sendrecv user_host (mk_rq 0x06 0x44 [c, IPMI_UID 1]) w = Inr (Some (rsp_of 0 [2, 0x41, 1, 0x34]), w)"
      "lh_sendrecv user_host (mk_rq 0x06 0x44 [c, IPMI_UID 2]) w = Inr (Some (rsp_of 0 [2, 0x41, 1, 0x12]), w)"
      "lh_sendrecv user_host (mk_rq 0x06 0x46 [IPMI_UID 1]) w = Inr (Some (rsp_of 0 (text_bytes ''root'' @ replicate 12 0)), w)"
      "lh_sendrecv user_host (mk_rq 0x06 0x46 [IPMI_UID 2]) w = Inr (Some (rsp_of 0 (replicate 16 0)), w)" for c w
    by (simp_all add: user_host_def user_bmc_def mk_rq_def IPMI_UID_def)
  ultimately show ?thesis unfolding users_serve_def by fastforce
qed

theorem user_list_complete_witness:
  "\<exists>w'. ipmi_user_main user_host [''list''] user_console
     = Inr (0, user_console\<lparr>co_world := w', co_out := csv_user 1 0x34 (text_bytes ''root'' @ replicate 12 0) @ csv_user 2 0x12 (replicate 16 0)\<rparr>)"
  using user_list_complete [OF user_bmc_serves, of user_console] by (simp add: user_host_def user_console_def upt_rec numeral_2_eq_2)


lemma user_args: "is_ipmi_channel_num (Some (dec 4)) (Some 0) = (0, Some 4)" "user_arg (Some (dec 2)) = Some 2"
  using user_arg_dec [of 2] by (simp_all add: is_ipmi_channel_num_def dec_def str2uchar_dec)

theorem set_access_keeps_unnamed_witness:
  "\<exists>r w1 d r' w2. lh_sendrecv user_host (mk_rq 0x06 0x44 [4, 2]) (co_world user_console) = Inr (Some r, w1)
     \<and> lh_sendrecv user_host (mk_rq 0x06 0x43 d) w1 = Inr (Some r', w2) \<and> d ! 1 = 2 \<and> keeps_unnamed [''link=off''] (rsp_byte r 3) d"
proof -
  have "\<exists>st'. ipmi_set_user_access user_host [dec 4, dec 2, ''link=off''] user_console = Inr (0, st')"
    by (simp add: ipmi_set_user_access_def arg_at_def user_args dec_no_help get_user_access_def ccode_request_def csend_def com_run user_host_def user_bmc_def
        user_access0_def mk_rq_def eval_ccode_def access_option_def option_value_def off_value_def set_user_access_def)
  then obtain st' where "ipmi_set_user_access user_host (dec 4 # dec 2 # [''link=off'']) user_console = Inr (0, st')" by blast
  from set_access_keeps_unnamed [OF this] show ?thesis by auto
qed


section \<open>Privileges are not checked\<close>

text \<open>A number that is no privilege level is accepted as one.\<close>

lemma privilege_not_checked: "access_option ''privilege=100'' ua = Some (ua\<lparr>ua_privilege_limit := 100\<rparr>)"
proof -
  have d: "dec 100 = ''100''" by code_simp
  have "str2uchar (Some (dec 100)) (Some 0) = (0, Some 100)" using str2uchar_dec [of 100 0] by (simp add: dec_def)
  moreover have "str2val ''100'' ipmi_privlvl_vals = 0xFF" by code_simp
  ultimately show ?thesis by (simp add: access_option_def option_value_def d conv_byte_def)
qed

end
