(* ===== verification/Lanp.thy ===== *)
theory Lanp
  imports User
begin

text \<open>
  The configuration of a LAN channel, lib/ipmi_lanp.c: reading and writing its parameters under the
  set-in-progress lock, the commands that print and change them, alert destinations and
  statistics. Pauses between two tries are left out.
\<close>

section \<open>Parameters\<close>

text \<open>The table of parameters: number, size, description. The fields \<open>data\<close> and \<open>data_len\<close> of an entry are in \<open>lan_param\<close>.\<close>

definition ipmi_lan_params :: "(int \<times> int \<times> string) list" where
  "ipmi_lan_params =
     [(0, 1, ''Set in Progress''), (1, 1, ''Auth Type Support''), (2, 5, ''Auth Type Enable''), (3, 4, ''IP Address''),
      (4, 1, ''IP Address Source''), (5, 6, ''MAC Address''), (6, 4, ''Subnet Mask''), (7, 3, ''IP Header''),
      (8, 2, ''Primary RMCP Port''), (9, 2, ''Secondary RMCP Port''), (10, 1, ''BMC ARP Control''), (11, 1, ''Gratuitous ARP Intrvl''),
      (12, 4, ''Default Gateway IP''), (13, 6, ''Default Gateway MAC''), (14, 4, ''Backup Gateway IP''), (15, 6, ''Backup Gateway MAC''),
      (16, 18, ''SNMP Community String''), (17, 1, ''Number of Destinations''), (18, 4, ''Destination Type''), (19, 13, ''Destination Addresses''),
      (20, 2, ''802.1q VLAN ID''), (21, 1, ''802.1q VLAN Priority''), (22, 1, ''RMCP+ Cipher Suite Count''), (23, 16, ''RMCP+ Cipher Suites''),
      (24, 9, ''Cipher Suite Priv Max''), (26, 6, ''Bad Password Threshold''), (96, 28, ''OEM Alert String''), (97, 1, ''Alert Retry Algorithm''),
      (98, 3, ''UTC Offset''), (192, 4, ''DHCP Server IP''), (193, 6, ''DHDP Server MAC''), (194, 1, ''DHCP Enable''), (201, 2, ''Channel Access Mode'')]"

text \<open>\<open>lp_data\<close> points to the second byte of the data of an answer, or is NULL.\<close>

record lan_param =
  lp_desc :: string
  lp_data :: "ipmi_rsp option"
  lp_data_len :: int

definition lp_byte :: "lan_param \<Rightarrow> nat \<Rightarrow> byte" where
  "lp_byte p i = rsp_byte (the (lp_data p)) (i + 1)"

definition lp_bytes :: "lan_param \<Rightarrow> nat \<Rightarrow> byte list" where
  "lp_bytes p n = rsp_bytes (the (lp_data p)) 1 n"

definition is_lan_channel :: "('e, 'w) lib_host \<Rightarrow> byte \<Rightarrow> ('e, bool, 'w) com" where
  "is_lan_channel h chan =
     (if chan < 1 \<or> chan > 0xE then cret False
      else cbind (ipmi_get_channel_medium h chan) (\<lambda>medium. cret (medium = 4 \<or> medium = 6)))"

fun lan_channel_search :: "('e, 'w) lib_host \<Rightarrow> nat list \<Rightarrow> ('e, byte, 'w) com" where
  "lan_channel_search h [] = cret 0"
| "lan_channel_search h (chan # chans) =
     cbind (is_lan_channel h (word_of_nat chan)) (\<lambda>lan. if lan then cret (word_of_nat chan) else lan_channel_search h chans)"

definition find_lan_channel :: "('e, 'w) lib_host \<Rightarrow> byte \<Rightarrow> ('e, byte, 'w) com" where
  "find_lan_channel h start = lan_channel_search h [unat start..<0xE]"

definition get_lan_param_select :: "('e, 'w) lib_host \<Rightarrow> byte \<Rightarrow> int \<Rightarrow> byte \<Rightarrow> ('e, lan_param option, 'w) com" where
  "get_lan_param_select h chan param sel =
     (case find (\<lambda>p. fst p = param) ipmi_lan_params of
        None \<Rightarrow> cret None
      | Some (c, _, desc) \<Rightarrow>
          cbind (csend h 0x0C 0x02 [chan, word_of_int c, sel, 0]) (\<lambda>rsp. cret (case rsp of
              None \<Rightarrow> None
            | Some r \<Rightarrow>
                if rsp_ccode r = 0 then Some \<lparr>lp_desc = desc, lp_data = Some r, lp_data_len = rsp_data_len r - 1\<rparr>
                else if rsp_ccode r = 0x80 \<or> rsp_ccode r = 0xC9 \<or> rsp_ccode r = 0xCC
                then Some \<lparr>lp_desc = desc, lp_data = None, lp_data_len = 0\<rparr>
                else None)))"

definition get_lan_param :: "('e, 'w) lib_host \<Rightarrow> byte \<Rightarrow> int \<Rightarrow> ('e, lan_param option, 'w) com" where
  "get_lan_param h chan param = get_lan_param_select h chan param 0"

section \<open>Writing parameters\<close>

text \<open>The loop that reads a parameter until it has the value; n more reads are left after this one.\<close>

fun lan_wait_loop :: "('e, 'w) lib_host \<Rightarrow> byte \<Rightarrow> int \<Rightarrow> byte list \<Rightarrow> int \<Rightarrow> nat \<Rightarrow> ('e, int, 'w) com" where
  "lan_wait_loop h chan param data len 0 =
     cbind (get_lan_param h chan param) (\<lambda>p.
       case p of
         None \<Rightarrow> cret (-1)
       | Some q \<Rightarrow> if lp_data_len q \<noteq> len then cret (-1) else if lp_bytes q (nat len) \<noteq> take (nat len) data then cret (-1) else cret 0)"
| "lan_wait_loop h chan param data len (Suc n) =
     cbind (get_lan_param h chan param) (\<lambda>p.
       case p of
         None \<Rightarrow> lan_wait_loop h chan param data len n
       | Some q \<Rightarrow> if lp_data_len q \<noteq> len then lan_wait_loop h chan param data len n
                   else if lp_bytes q (nat len) \<noteq> take (nat len) data then lan_wait_loop h chan param data len n
                   else cret 0)"

definition set_lan_param_wait :: "('e, 'w) lib_host \<Rightarrow> byte \<Rightarrow> int \<Rightarrow> byte list \<Rightarrow> int \<Rightarrow> ('e, int, 'w) com" where
  "set_lan_param_wait h chan param data len = lan_wait_loop h chan param data len 10"

text \<open>The write is repeated while the controller calls the data invalid; then the parameter is read all the same.\<close>

fun lan_retry_loop :: "('e, 'w) lib_host \<Rightarrow> byte \<Rightarrow> int \<Rightarrow> byte list \<Rightarrow> int \<Rightarrow> nat \<Rightarrow> ('e, int, 'w) com" where
  "lan_retry_loop h chan param data len 0 = set_lan_param_wait h chan param data len"
| "lan_retry_loop h chan param data len (Suc n) =
     cbind (csend h 0x0C 0x01 ([chan, word_of_int param] @ take (nat len) data)) (\<lambda>rsp.
       if case rsp of None \<Rightarrow> True | Some r \<Rightarrow> rsp_ccode r \<noteq> 0 then lan_retry_loop h chan param data len n
       else set_lan_param_wait h chan param data len)"

text \<open>The message has room for 30 bytes of data. Without \<open>wait\<close> the completion code is not looked at.\<close>

definition set_lan_param_raw :: "('e, 'w) lib_host \<Rightarrow> byte \<Rightarrow> int \<Rightarrow> byte list \<Rightarrow> int \<Rightarrow> bool \<Rightarrow> ('e, int, 'w) com" where
  "set_lan_param_raw h chan param data len wait =
     (if param < 0 then cret (-1)
      else if len < 0 \<or> len > 30 \<or> nat len > length data then craise Lib_bounds
      else cbind (csend h 0x0C 0x01 ([chan, word_of_int param] @ take (nat len) data)) (\<lambda>rsp.
        case rsp of
          None \<Rightarrow> cret (-1)
        | Some r \<Rightarrow>
            if rsp_ccode r \<noteq> 0 \<and> wait \<and> rsp_ccode r = 0xCC then lan_retry_loop h chan param data len 10
            else if rsp_ccode r \<noteq> 0 \<and> wait \<and> rsp_ccode r \<noteq> 0xFF then cret (-1)
            else if \<not> wait then cret 0
            else set_lan_param_wait h chan param data len))"

section \<open>The set-in-progress lock\<close>

definition ipmi_lanp_lock_state :: "('e, 'w) lib_host \<Rightarrow> byte \<Rightarrow> ('e, int, 'w) com" where
  "ipmi_lanp_lock_state h chan =
     cbind (get_lan_param h chan 0) (\<lambda>p. cret (case p of
         None \<Rightarrow> -1
       | Some q \<Rightarrow> if lp_data q = None then -1 else uint (lp_byte q 0 AND 3)))"

fun lan_lock_loop :: "('e, 'w) lib_host \<Rightarrow> byte \<Rightarrow> nat \<Rightarrow> ('e, unit, 'w) com" where
  "lan_lock_loop h chan 0 = cseq (ipmi_lanp_lock_state h chan) (cret ())"
| "lan_lock_loop h chan (Suc n) =
     cbind (ipmi_lanp_lock_state h chan) (\<lambda>state.
       if state = -1 \<or> state = 1 then cret ()
       else cseq (set_lan_param_raw h chan 0 [1] 1 False) (lan_lock_loop h chan n))"

definition ipmi_lanp_lock :: "('e, 'w) lib_host \<Rightarrow> byte \<Rightarrow> ('e, unit, 'w) com" where
  "ipmi_lanp_lock h chan = lan_lock_loop h chan 3"

definition ipmi_lanp_unlock :: "('e, 'w) lib_host \<Rightarrow> byte \<Rightarrow> ('e, unit, 'w) com" where
  "ipmi_lanp_unlock h chan =
     cseq (set_lan_param_raw h chan 0 [2] 1 False) (cseq (set_lan_param_raw h chan 0 [0] 1 False) (cret ()))"

definition set_lan_param :: "('e, 'w) lib_host \<Rightarrow> byte \<Rightarrow> int \<Rightarrow> byte list \<Rightarrow> int \<Rightarrow> ('e, int, 'w) com" where
  "set_lan_param h chan param data len =
     cseq (ipmi_lanp_lock h chan)
       (cbind (set_lan_param_raw h chan param data len True) (\<lambda>rc. cseq (ipmi_lanp_unlock h chan) (cret rc)))"

definition set_lan_param_nowait :: "('e, 'w) lib_host \<Rightarrow> byte \<Rightarrow> int \<Rightarrow> byte list \<Rightarrow> int \<Rightarrow> ('e, int, 'w) com" where
  "set_lan_param_nowait h chan param data len =
     cseq (ipmi_lanp_lock h chan)
       (cbind (set_lan_param_raw h chan param data len False) (\<lambda>rc. cseq (ipmi_lanp_unlock h chan) (cret rc)))"

section \<open>Address resolution\<close>

text \<open>A parameter that has a value: without one a command gives up.\<close>

definition with_param :: "('e, 'w) lib_host \<Rightarrow> byte \<Rightarrow> int \<Rightarrow> (lan_param \<Rightarrow> ('e, int, 'w) com) \<Rightarrow> ('e, int, 'w) com" where
  "with_param h chan param f =
     cbind (get_lan_param h chan param) (\<lambda>p. case p of None \<Rightarrow> cret (-1) | Some q \<Rightarrow> if lp_data q = None then cret (-1) else f q)"

definition arp_seconds :: "byte \<Rightarrow> string" where
  "arp_seconds interval = dec ((unat interval + 1) div 2) @ ''.0 seconds'' @ nl"

definition lan_set_arp_interval :: "('e, 'w) lib_host \<Rightarrow> byte \<Rightarrow> byte \<Rightarrow> ('e, int, 'w) com" where
  "lan_set_arp_interval h chan ival =
     with_param h chan 11 (\<lambda>lp.
       if ival \<noteq> 0 then
         (if ival > 127 then cret (-1)
          else cbind (set_lan_param h chan 11 [ival * 2 - 1] 1) (\<lambda>rc.
            cseq (cprint (''BMC-generated Gratuitous ARP interval:  '' @ arp_seconds (ival * 2 - 1))) (cret rc)))
       else cseq (cprint (''BMC-generated Gratuitous ARP interval:  '' @ arp_seconds (lp_byte lp 0))) (cret 0))"

definition lan_set_arp_generate :: "('e, 'w) lib_host \<Rightarrow> byte \<Rightarrow> bool \<Rightarrow> ('e, int, 'w) com" where
  "lan_set_arp_generate h chan ctl =
     with_param h chan 10 (\<lambda>lp.
       cseq (cprint ((if ctl then ''En'' else ''Dis'') @ ''abling BMC-generated Gratuitous ARPs'' @ nl))
         (set_lan_param h chan 10 [if ctl then lp_byte lp 0 OR 0x1 else lp_byte lp 0 AND NOT 0x1] 1))"

definition lan_set_arp_respond :: "('e, 'w) lib_host \<Rightarrow> byte \<Rightarrow> bool \<Rightarrow> ('e, int, 'w) com" where
  "lan_set_arp_respond h chan ctl =
     with_param h chan 10 (\<lambda>lp.
       cseq (cprint ((if ctl then ''En'' else ''Dis'') @ ''abling BMC-generated ARP responses'' @ nl))
         (set_lan_param h chan 10 [if ctl then lp_byte lp 0 OR 0x2 else lp_byte lp 0 AND NOT 0x2] 1))"

section \<open>Printing the configuration\<close>

definition priv_level_to_char :: "byte \<Rightarrow> char" where
  "priv_level_to_char priv_level =
     (if priv_level = 1 then CHR ''c'' else if priv_level = 2 then CHR ''u'' else if priv_level = 3 then CHR ''o''
      else if priv_level = 4 then CHR ''a'' else if priv_level = 5 then CHR ''O'' else CHR ''X'')"

definition lp_head :: "lan_param \<Rightarrow> string" where
  "lp_head p = pad 24 (lp_desc p) @ '': ''"

definition more_head :: string where "more_head = pad 24 [] @ '': ''"

definition auth_bits :: "byte \<Rightarrow> string" where
  "auth_bits b = (if bit b 0 then ''NONE '' else []) @ (if bit b 1 then ''MD2 '' else []) @ (if bit b 2 then ''MD5 '' else [])
     @ (if bit b 4 then ''PASSWORD '' else []) @ (if bit b 5 then ''OEM '' else [])"

definition lan_progress_text :: "lan_param \<Rightarrow> string" where
  "lan_progress_text p = (let v = lp_byte p 0 AND 3 in
     lp_head p @ (if v = 0 then ''Set Complete'' else if v = 1 then ''Set In Progress'' else if v = 2 then ''Commit Write'' else ''Reserved'') @ nl)"

definition lan_enable_text :: "lan_param \<Rightarrow> string" where
  "lan_enable_text p =
     lp_head p @ ''Callback : '' @ auth_bits (lp_byte p 0) @ nl @ more_head @ ''User     : '' @ auth_bits (lp_byte p 1) @ nl
   @ more_head @ ''Operator : '' @ auth_bits (lp_byte p 2) @ nl @ more_head @ ''Admin    : '' @ auth_bits (lp_byte p 3) @ nl
   @ more_head @ ''OEM      : '' @ auth_bits (lp_byte p 4) @ nl"

definition lan_source_text :: "lan_param \<Rightarrow> string" where
  "lan_source_text p = (let v = lp_byte p 0 AND 0xF in
     lp_head p @ (if v = 0 then ''Unspecified'' else if v = 1 then ''Static Address'' else if v = 2 then ''DHCP Address''
                  else if v = 3 then ''BIOS Assigned Address'' else ''Other'') @ nl)"

definition lan_ip_text :: "lan_param \<Rightarrow> string" where
  "lan_ip_text p = lp_head p @ dotted (lp_bytes p 4) @ nl"

definition lan_mac_text :: "lan_param \<Rightarrow> string" where
  "lan_mac_text p = lp_head p @ mac_text (lp_bytes p 6) @ nl"

definition lan_snmp_text :: "lan_param \<Rightarrow> string" where
  "lan_snmp_text p = lp_head p @ c_text (file_text (drop 1 (rsp_data (the (lp_data p))))) @ nl"

definition lan_header_text :: "lan_param \<Rightarrow> string" where
  "lan_header_text p = lp_head p @ ''TTL=0x'' @ hex2 (lp_byte p 0) @ '' Flags=0x'' @ hex2 (lp_byte p 1 AND 0xE0)
     @ '' Precedence=0x'' @ hex2 (lp_byte p 2 AND 0xE0) @ '' TOS=0x'' @ hex2 (lp_byte p 2 AND 0x1E) @ nl"

definition lan_arp_text :: "lan_param \<Rightarrow> string" where
  "lan_arp_text p = lp_head p @ ''ARP Responses '' @ (if bit (lp_byte p 0) 1 then ''En'' else ''Dis'')
     @ ''abled, Gratuitous ARP '' @ (if bit (lp_byte p 0) 0 then ''En'' else ''Dis'') @ ''abled'' @ nl"

definition vlan_id :: "byte \<Rightarrow> byte \<Rightarrow> nat" where
  "vlan_id b0 b1 = unat (b1 AND 0x0F) * 2 ^ 8 + unat b0"

definition lan_vlan_text :: "lan_param \<Rightarrow> string" where
  "lan_vlan_text p = lp_head p @ (if bit (lp_byte p 1) 7 then dec (vlan_id (lp_byte p 0) (lp_byte p 1)) else ''Disabled'') @ nl"

text \<open>The cipher suites of the answer, at most 16, with commas between them.\<close>

definition lan_ciphers_text :: "nat \<Rightarrow> lan_param \<Rightarrow> string" where
  "lan_ciphers_text count p =
     lp_head p @ (if lp_data p \<noteq> None \<and> lp_data_len p \<le> 17
       then concat (map (\<lambda>i. (if i > 0 then '','' else []) @ dec (unat (lp_byte p (i + 1)))) [0..<min 16 count])
       else ''None'') @ nl"

definition priv_levels_chars :: "byte list \<Rightarrow> string" where
  "priv_levels_chars d = concat (map (\<lambda>i. [priv_level_to_char (d ! i AND 0x0F), priv_level_to_char (drop_bit 4 (d ! i))]) [1..<8])
     @ [priv_level_to_char (d ! 8 AND 0x0F)]"

definition lan_privs_text :: "lan_param \<Rightarrow> string" where
  "lan_privs_text p =
     (if lp_data p \<noteq> None \<and> lp_data_len p = 9
      then lp_head p @ priv_levels_chars (lp_bytes p 9) @ nl
         @ more_head @ ''    X=Cipher Suite Unused'' @ nl @ more_head @ ''    c=CALLBACK'' @ nl @ more_head @ ''    u=USER'' @ nl
         @ more_head @ ''    o=OPERATOR'' @ nl @ more_head @ ''    a=ADMIN'' @ nl @ more_head @ ''    O=OEM'' @ nl
      else lp_head p @ ''Not Available'' @ nl)"

definition lan_thresh_text :: "lan_param \<Rightarrow> string" where
  "lan_thresh_text p =
     (if lp_data p \<noteq> None \<and> lp_data_len p = 6
      then lp_head p @ dec (unat (lp_byte p 1)) @ nl
         @ pad 24 ''Invalid password disable'' @ '': '' @ (if bit (lp_byte p 0) 0 then ''yes'' else ''no'') @ nl
         @ pad 24 ''Attempt Count Reset Int.'' @ '': '' @ dec ((unat (lp_byte p 2) + unat (lp_byte p 3) * 2 ^ 8) * 10) @ nl
         @ pad 24 ''User Lockout Interval'' @ '': '' @ dec ((unat (lp_byte p 4) + unat (lp_byte p 5) * 2 ^ 8) * 10) @ nl
      else lp_head p @ ''Not Available'' @ nl)"

text \<open>One step of the print-out: a parameter that cannot be read ends it, one without a value is passed over.\<close>

definition lan_show :: "('e, 'w) lib_host \<Rightarrow> byte \<Rightarrow> int \<Rightarrow> (lan_param \<Rightarrow> string) \<Rightarrow> ('e, int, 'w) com \<Rightarrow> ('e, int, 'w) com" where
  "lan_show h chan param text k =
     cbind (get_lan_param h chan param) (\<lambda>p. case p of
         None \<Rightarrow> cret (-1)
       | Some q \<Rightarrow> if lp_data q \<noteq> None then cseq (cprint (text q)) k else k)"

definition lan_show_opt :: "('e, 'w) lib_host \<Rightarrow> byte \<Rightarrow> int \<Rightarrow> (lan_param \<Rightarrow> string) \<Rightarrow> ('e, int, 'w) com \<Rightarrow> ('e, int, 'w) com" where
  "lan_show_opt h chan param text k =
     cbind (get_lan_param h chan param) (\<lambda>p. case p of
         None \<Rightarrow> k
       | Some q \<Rightarrow> if lp_data q \<noteq> None then cseq (cprint (text q)) k else k)"

definition lan_show_all :: "('e, 'w) lib_host \<Rightarrow> byte \<Rightarrow> int \<Rightarrow> (lan_param \<Rightarrow> string) \<Rightarrow> ('e, int, 'w) com \<Rightarrow> ('e, int, 'w) com" where
  "lan_show_all h chan param text k =
     cbind (get_lan_param h chan param) (\<lambda>p. case p of None \<Rightarrow> cret (-1) | Some q \<Rightarrow> cseq (cprint (text q)) k)"

definition lan_show_ciphers :: "('e, 'w) lib_host \<Rightarrow> byte \<Rightarrow> ('e, int, 'w) com \<Rightarrow> ('e, int, 'w) com" where
  "lan_show_ciphers h chan k =
     cbind (get_lan_param h chan 22) (\<lambda>p. case p of
         None \<Rightarrow> cret (-1)
       | Some q \<Rightarrow> if lp_data q \<noteq> None then lan_show_all h chan 23 (lan_ciphers_text (unat (lp_byte q 0))) k else k)"

definition ipmi_lan_print :: "('e, 'w) lib_host \<Rightarrow> byte \<Rightarrow> ('e, int, 'w) com" where
  "ipmi_lan_print h chan =
     (if chan < 1 \<or> chan > 0xE then cret (-1)
      else cbind (is_lan_channel h chan) (\<lambda>lan.
        if \<not> lan then cret (-1)
        else lan_show h chan 0 lan_progress_text
          (lan_show h chan 1 (\<lambda>p. lp_head p @ auth_bits (lp_byte p 0) @ nl)
          (lan_show h chan 2 lan_enable_text
          (lan_show h chan 4 lan_source_text
          (lan_show h chan 3 lan_ip_text
          (lan_show h chan 6 lan_ip_text
          (lan_show h chan 5 lan_mac_text
          (lan_show h chan 16 lan_snmp_text
          (lan_show h chan 7 lan_header_text
          (lan_show h chan 10 lan_arp_text
          (lan_show h chan 11 (\<lambda>p. lp_head p @ arp_seconds (lp_byte p 0))
          (lan_show h chan 12 lan_ip_text
          (lan_show h chan 13 lan_mac_text
          (lan_show h chan 14 lan_ip_text
          (lan_show h chan 15 lan_mac_text
          (lan_show_opt h chan 20 lan_vlan_text
          (lan_show_opt h chan 21 (\<lambda>p. lp_head p @ dec (unat (lp_byte p 0 AND 7)) @ nl)
          (lan_show_ciphers h chan
          (lan_show_all h chan 24 lan_privs_text
          (lan_show_all h chan 26 lan_thresh_text (cret 0))))))))))))))))))))))"


section \<open>Values from the command line\<close>

text \<open>The pieces of a text that start at its beginning and after each comma; every piece runs to the end of the text.\<close>

function comma_tails :: "string \<Rightarrow> string list" where
  "comma_tails s = s # (case dropWhile (\<lambda>c. c \<noteq> CHR '','') s of [] \<Rightarrow> [] | _ # cs \<Rightarrow> comma_tails cs)"
  by pat_completeness auto
termination
proof (relation "measure length", goal_cases)
  case (2 s c cs)
  then have "length (dropWhile (\<lambda>c. c \<noteq> CHR '','') s) = Suc (length cs)" by simp
  then show ?case using length_dropWhile_le [of "\<lambda>c. c \<noteq> CHR '','' " s] by simp
qed simp

declare comma_tails.simps [simp del]

definition auth_type_bit :: "string \<Rightarrow> byte" where
  "auth_type_bit p =
     (if strcasecmp_eq p ''none'' then 0x01 else if strcasecmp_eq p ''md2'' then 0x02 else if strcasecmp_eq p ''md5'' then 0x04
      else if strcasecmp_eq p ''password'' \<or> strcasecmp_eq p ''key'' then 0x10 else if strcasecmp_eq p ''oem'' then 0x20 else 0)"

definition auth_types :: "string \<Rightarrow> byte" where
  "auth_types types = foldl (\<lambda>a p. a OR auth_type_bit p) 0 (comma_tails types)"

definition auth_level :: "byte \<Rightarrow> byte list \<Rightarrow> string \<Rightarrow> byte list" where
  "auth_level atype data p =
     (if strcasecmp_eq p ''callback'' then data[0 := atype] else if strcasecmp_eq p ''user'' then data[1 := atype]
      else if strcasecmp_eq p ''operator'' then data[2 := atype] else if strcasecmp_eq p ''admin'' then data[3 := atype] else data)"

definition auth_levels :: "byte \<Rightarrow> byte list \<Rightarrow> string \<Rightarrow> byte list" where
  "auth_levels atype data level = foldl (auth_level atype) data (comma_tails level)"

definition ipmi_lan_set_auth :: "('e, 'w) lib_host \<Rightarrow> byte \<Rightarrow> string option \<Rightarrow> string option \<Rightarrow> ('e, int, 'w) com" where
  "ipmi_lan_set_auth h chan level types =
     (case (level, types) of
        (Some l, Some t) \<Rightarrow> with_param h chan 2 (\<lambda>lp. set_lan_param h chan 2 (auth_levels (auth_types t) (lp_bytes lp 5) l) 5)
      | _ \<Rightarrow> cret (-1))"

text \<open>The level of a character, and two levels a byte, the first in the low half.\<close>

definition priv_char_level :: "char \<Rightarrow> byte option" where
  "priv_char_level c =
     (if c = CHR ''X'' then Some 0 else if c = CHR ''c'' then Some 1 else if c = CHR ''u'' then Some 2
      else if c = CHR ''o'' then Some 3 else if c = CHR ''a'' then Some 4 else if c = CHR ''O'' then Some 5 else None)"

fun cipher_privs_loop :: "string \<Rightarrow> nat \<Rightarrow> byte list \<Rightarrow> int \<times> byte list" where
  "cipher_privs_loop [] i buf = (0, buf)"
| "cipher_privs_loop (c # cs) i buf =
     (case priv_char_level c of
        None \<Rightarrow> (-1, buf)
      | Some p \<Rightarrow> cipher_privs_loop cs (i + 1)
          (buf[1 + i div 2 := buf ! (1 + i div 2) + (if (i + 1) mod 2 \<noteq> 0 then p else push_bit 4 p)]))"

definition get_cmdline_cipher_suite_priv_data :: "string \<Rightarrow> byte list \<Rightarrow> int \<times> byte list" where
  "get_cmdline_cipher_suite_priv_data arg buf =
     (if length arg \<noteq> 15 then (-1, buf) else cipher_privs_loop arg 0 (put_at 0 (replicate 9 0) buf))"

text \<open>
  A number of \<open>sscanf\<close> with \<open>%u\<close>: as \<open>strtoul\<close> reads it, stored in 32 bits. C leaves open what
  a number is that does not fit; here it is the low half of the 64 bits.
\<close>

definition scan_u32 :: "string \<Rightarrow> (int \<times> string) option" where
  "scan_u32 s = (case scan_number 10 s of None \<Rightarrow> None | Some _ \<Rightarrow> (case strtoul 10 s of (v, rest, _) \<Rightarrow> Some (v mod 2 ^ 32, rest)))"

fun scan_ip :: "nat \<Rightarrow> string \<Rightarrow> int list" where
  "scan_ip 0 s = []"
| "scan_ip (Suc n) s =
     (case scan_u32 s of
        None \<Rightarrow> []
      | Some (v, rest) \<Rightarrow> v # (case rest of c # cs \<Rightarrow> if c = CHR ''.'' then scan_ip n cs else [] | [] \<Rightarrow> []))"

definition get_cmdline_ipaddr :: "string \<Rightarrow> byte list \<Rightarrow> int \<times> byte list" where
  "get_cmdline_ipaddr arg buf =
     (let ip = scan_ip 4 arg
      in if length ip \<noteq> 4 then (-1, buf) else if \<exists>v\<in>set ip. v > 255 then (-1, buf) else (0, put_at 0 (map word_of_int ip) buf))"

definition get_cmdline_bad_pass_thresh :: "string list \<Rightarrow> byte list \<Rightarrow> int \<times> byte list" where
  "get_cmdline_bad_pass_thresh argv buf =
     (case str2uchar (arg_at argv 0) (Some 0) of (r1, n) \<Rightarrow>
      if r1 \<noteq> 0 then (-1, buf) else
      (case str2uchar (arg_at argv 1) (Some 0) of (r0, e) \<Rightarrow>
       if r0 \<noteq> 0 \<or> the e > 1 then (-1, buf) else
       (case str2ushort (arg_at argv 2) (Some 0) of (r2, reset) \<Rightarrow>
        if r2 \<noteq> 0 then (-1, buf) else
        (case str2ushort (arg_at argv 3) (Some 0) of (r3, lockout) \<Rightarrow>
         if r3 \<noteq> 0 then (-1, buf)
         else (0, put_at 0 ([conv_byte e, conv_byte n] @ le16 (word_of_int (the reset)) @ le16 (word_of_int (the lockout))) buf)))))"

section \<open>VLAN, password, access\<close>

definition vlan_valid :: "int \<Rightarrow> bool" where
  "vlan_valid vid \<longleftrightarrow> 1 \<le> vid \<and> vid \<le> 4094"

definition ipmi_lan_set_vlan_id :: "('e, 'w) lib_host \<Rightarrow> byte \<Rightarrow> string option \<Rightarrow> ('e, int, 'w) com" where
  "ipmi_lan_set_vlan_id h chan str =
     (case str of
        None \<Rightarrow>
          cbind (get_lan_param h chan 20) (\<lambda>p.
            case p of
              Some q \<Rightarrow>
                if lp_data q \<noteq> None \<and> lp_data_len q > 1
                then (let vid = vlan_id (lp_byte q 0) (lp_byte q 1)
                      in if vid = 0
                         then cseq (cprint (''VLAN is already disabled for channel '' @ dec (unat chan) @ nl)) (cret 0)
                         else if \<not> vlan_valid (int vid) then cret (-1)
                         else set_lan_param h chan 20 [lp_byte q 0, lp_byte q 1 AND 0x0F] 2)
                else set_lan_param h chan 20 [0, 0] 2
            | None \<Rightarrow> set_lan_param h chan 20 [0, 0] 2)
      | Some s \<Rightarrow>
          (case str2int (Some s) (Some 0) of (rc, v) \<Rightarrow>
             if rc \<noteq> 0 then cret (-1)
             else if \<not> vlan_valid (the v) then cret (-1)
             else set_lan_param h chan 20 [word_of_int (the v), word_of_int (drop_bit 8 (the v)) OR 0x80] 2))"

definition ipmi_lan_set_vlan_priority :: "('e, 'w) lib_host \<Rightarrow> byte \<Rightarrow> string option \<Rightarrow> ('e, int, 'w) com" where
  "ipmi_lan_set_vlan_priority h chan str =
     (case str2int str (Some 0) of (rc, v) \<Rightarrow>
        if rc \<noteq> 0 then cret (-1)
        else if the v < 0 \<or> the v > 7 then cret (-1)
        else set_lan_param h chan 21 [word_of_int (the v)] 1)"

definition ipmi_lan_set_password :: "('e, 'w) lib_host \<Rightarrow> byte \<Rightarrow> string option \<Rightarrow> ('e, int, 'w) com" where
  "ipmi_lan_set_password h uid pw =
     cbind (set_user_password h uid 2 pw False) (\<lambda>cc.
       if eval_ccode cc \<noteq> 0 then cret (-1)
       else cseq (cupd_intf h (\<lambda>intf. ipmi_intf_session_set_password intf (map_option text_bytes pw)))
         (cseq (cprint (''Password '' @ (if pw \<noteq> None then ''set'' else ''cleared'') @ '' for user '' @ dec (unat uid) @ nl)) (cret 0)))"

definition ipmi_set_alert_enable :: "('e, 'w) lib_host \<Rightarrow> byte \<Rightarrow> bool \<Rightarrow> ('e, int, 'w) com" where
  "ipmi_set_alert_enable h channel enable =
     cbind (get_channel_access h (channel_access0 channel) False) (\<lambda>(cc, ca0).
       if eval_ccode cc \<noteq> 0 then cret (-1)
       else (let ca = ca0\<lparr>ca_alerting := (if enable then 0 else 0x20)\<rparr>
             in cbind (set_channel_access h ca 1 0) (\<lambda>cc1.
                  if eval_ccode cc1 \<noteq> 0 then cret (-1)
                  else cbind (set_channel_access h ca 2 0) (\<lambda>cc2.
                    if eval_ccode cc2 \<noteq> 0 then cret (-1)
                    else cseq (cprint (''PEF alerts for channel '' @ dec (unat channel) @ (if enable then '' enabled.'' else '' disabled.'') @ nl)) (cret 0)))))"

text \<open>The settings are changed twice, non-volatile and volatile, each time from the ones of that kind.\<close>

definition change_channel_access :: "('e, 'w) lib_host \<Rightarrow> byte \<Rightarrow> bool \<Rightarrow> bool \<Rightarrow> ('e, int, 'w) com" where
  "change_channel_access h channel enable volatile =
     cbind (get_channel_access h (channel_access0 channel) volatile) (\<lambda>(cc, ca).
       if eval_ccode cc \<noteq> 0 then cret (-1)
       else cbind (set_channel_access h (ca\<lparr>ca_access_mode := (if enable then 2 else 0), ca_privilege_limit := 4\<rparr>)
                     (if volatile then 2 else 1) (if volatile then 2 else 1)) (\<lambda>cc1.
         cret (if eval_ccode cc1 \<noteq> 0 then -1 else 0)))"

definition ipmi_set_channel_access :: "('e, 'w) lib_host \<Rightarrow> byte \<Rightarrow> bool \<Rightarrow> ('e, int, 'w) com" where
  "ipmi_set_channel_access h channel enable =
     cbind (change_channel_access h channel enable False) (\<lambda>rc.
       if rc \<noteq> 0 then cret (-1)
       else cbind (change_channel_access h channel enable True) (\<lambda>rc1.
         if rc1 \<noteq> 0 then cret (-1)
         else cseq (if enable then cret () else cupd_intf h (\<lambda>intf. intf\<lparr>abort := True\<rparr>))
           (cseq (cprint (''Set Channel Access for channel '' @ dec (unat channel) @ '' was successful.'' @ nl)) (cret 0))))"

definition lanp_set_user_access :: "('e, 'w) lib_host \<Rightarrow> byte \<Rightarrow> byte \<Rightarrow> ('e, int, 'w) com" where
  "lanp_set_user_access h channel uid =
     cbind (set_user_access h ((user_access0 channel uid)\<lparr>ua_privilege_limit := 4\<rparr>) True) (\<lambda>cc.
       if eval_ccode cc \<noteq> 0 then cret (-1)
       else cseq (cprint (''Set User Access for channel '' @ dec (unat channel) @ '' was successful.'')) (cret 0))"

section \<open>The command lan set\<close>

text \<open>A parameter that a gateway command or an address command sets, with the line that announces it.\<close>

definition param_desc :: "nat \<Rightarrow> string" where
  "param_desc i = snd (snd (ipmi_lan_params ! i))"

definition set_lan_ip :: "('e, 'w) lib_host \<Rightarrow> byte \<Rightarrow> nat \<Rightarrow> byte list \<Rightarrow> ('e, int, 'w) com" where
  "set_lan_ip h chan param data =
     cseq (cprint (''Setting LAN '' @ param_desc param @ '' to '' @ dotted data @ nl)) (set_lan_param h chan (int param) data 4)"

definition set_lan_mac :: "('e, 'w) lib_host \<Rightarrow> byte \<Rightarrow> nat \<Rightarrow> byte list \<Rightarrow> ('e, int, 'w) com" where
  "set_lan_mac h chan param data =
     cseq (cprint (''Setting LAN '' @ param_desc param @ '' to '' @ mac_text (take 6 data) @ nl)) (set_lan_param h chan (int param) data 6)"

abbreviation data32 :: "byte list" where "data32 \<equiv> replicate 32 0"

definition lan_set_access :: "('e, 'w) lib_host \<Rightarrow> byte \<Rightarrow> string list \<Rightarrow> ('e, int, 'w) com" where
  "lan_set_access h chan argv =
     (if length argv < 3 then cret (-1)
      else if argv ! 2 = ''help'' then cret 0
      else if argv ! 2 = ''on'' then ipmi_set_channel_access h chan True
      else if argv ! 2 = ''off'' then ipmi_set_channel_access h chan False
      else cret (-1))"

definition lan_set_arp :: "('e, 'w) lib_host \<Rightarrow> byte \<Rightarrow> string list \<Rightarrow> ('e, int, 'w) com" where
  "lan_set_arp h chan argv =
     (if length argv < 3 then cret (-1)
      else if argv ! 2 = ''help'' then cret 0
      else if argv ! 2 = ''interval'' then
        (case str2uchar (arg_at argv 3) (Some 0) of (rc, v) \<Rightarrow>
           if rc \<noteq> 0 then cret (-1) else lan_set_arp_interval h chan (conv_byte v))
      else if argv ! 2 = ''generate'' then
        (if length argv < 4 then cret (-1)
         else if argv ! 3 = ''on'' then lan_set_arp_generate h chan True
         else if argv ! 3 = ''off'' then lan_set_arp_generate h chan False
         else cret (-1))
      else if argv ! 2 = ''respond'' then
        (if length argv < 4 then cret (-1)
         else if argv ! 3 = ''on'' then lan_set_arp_respond h chan True
         else if argv ! 3 = ''off'' then lan_set_arp_respond h chan False
         else cret (-1))
      else cret 0)"

definition lan_set_ipsrc :: "('e, 'w) lib_host \<Rightarrow> byte \<Rightarrow> string list \<Rightarrow> ('e, int, 'w) com" where
  "lan_set_ipsrc h chan argv =
     (if length argv < 3 then cret (-1)
      else if argv ! 2 = ''help'' then cret 0
      else if argv ! 2 = ''none'' then set_lan_param h chan 4 (data32[0 := 0]) 1
      else if argv ! 2 = ''static'' then set_lan_param h chan 4 (data32[0 := 1]) 1
      else if argv ! 2 = ''dhcp'' then set_lan_param h chan 4 (data32[0 := 2]) 1
      else if argv ! 2 = ''bios'' then set_lan_param h chan 4 (data32[0 := 3]) 1
      else cret (-1))"

definition lan_set_snmp :: "('e, 'w) lib_host \<Rightarrow> byte \<Rightarrow> string list \<Rightarrow> ('e, int, 'w) com" where
  "lan_set_snmp h chan argv =
     (if length argv < 3 then cret (-1)
      else if argv ! 2 = ''help'' then cret 0
      else (let data = put_at 0 (text_bytes (take 18 (argv ! 2))) data32
            in cseq (cprint (''Setting LAN '' @ param_desc 16 @ '' to '' @ c_text (file_text data) @ nl)) (set_lan_param h chan 16 data 18)))"

definition lan_set_address :: "('e, 'w) lib_host \<Rightarrow> byte \<Rightarrow> nat \<Rightarrow> string list \<Rightarrow> ('e, int, 'w) com" where
  "lan_set_address h chan param argv =
     (if length argv \<noteq> 3 then cret (-1)
      else (case get_cmdline_ipaddr (argv ! 2) data32 of (rc, data) \<Rightarrow> if rc = 0 then set_lan_ip h chan param data else cret rc))"

definition lan_set_macaddr :: "('e, 'w) lib_host \<Rightarrow> byte \<Rightarrow> string list \<Rightarrow> ('e, int, 'w) com" where
  "lan_set_macaddr h chan argv =
     (if length argv \<noteq> 3 then cret (-1)
      else (case str2mac (lh_accept_0x h) (argv ! 2) data32 of (rc, data) \<Rightarrow> if rc = 0 then set_lan_mac h chan 5 data else cret rc))"

text \<open>The default gateway (parameters 12 and 13) and the backup gateway (14 and 15).\<close>

definition lan_set_gateway :: "('e, 'w) lib_host \<Rightarrow> byte \<Rightarrow> nat \<Rightarrow> string list \<Rightarrow> ('e, int, 'w) com" where
  "lan_set_gateway h chan param argv =
     (if length argv < 4 then cret (-1)
      else if argv ! 2 = ''help'' then cret 0
      else (case (get_cmdline_ipaddr (argv ! 3) data32, str2mac (lh_accept_0x h) (argv ! 3) data32) of ((ri, ip), (rm, mac)) \<Rightarrow>
        if argv ! 2 = ''ipaddr'' \<and> ri = 0 then set_lan_ip h chan param ip
        else if argv ! 2 = ''macaddr'' \<and> rm = 0 then set_lan_mac h chan (param + 1) mac
        else cret (-1)))"

text \<open>The results of the VLAN commands are not looked at.\<close>

definition lan_set_vlan :: "('e, 'w) lib_host \<Rightarrow> byte \<Rightarrow> string list \<Rightarrow> ('e, int, 'w) com" where
  "lan_set_vlan h chan argv =
     (if length argv < 4 then cret (-1)
      else if argv ! 2 = ''help'' then cret 0
      else if argv ! 2 = ''id'' then cseq (ipmi_lan_set_vlan_id h chan (if argv ! 3 = ''off'' then None else Some (argv ! 3))) (cret 0)
      else if argv ! 2 = ''priority'' then cseq (ipmi_lan_set_vlan_priority h chan (Some (argv ! 3))) (cret 0)
      else cret (-1))"

definition lan_set_alert :: "('e, 'w) lib_host \<Rightarrow> byte \<Rightarrow> string list \<Rightarrow> ('e, int, 'w) com" where
  "lan_set_alert h chan argv =
     (if length argv < 3 then cret (-1)
      else if argv ! 2 = ''on'' \<or> argv ! 2 = ''enable'' then
        cseq (cprint (''Enabling PEF alerts for LAN channel '' @ dec (unat chan) @ nl)) (ipmi_set_alert_enable h chan True)
      else if argv ! 2 = ''off'' \<or> argv ! 2 = ''disable'' then
        cseq (cprint (''Disabling PEF alerts for LAN channel '' @ dec (unat chan) @ nl)) (ipmi_set_alert_enable h chan False)
      else cret 0)"

definition lan_set_cipher_privs :: "('e, 'w) lib_host \<Rightarrow> byte \<Rightarrow> string list \<Rightarrow> ('e, int, 'w) com" where
  "lan_set_cipher_privs h chan argv =
     (if length argv \<noteq> 3 then cret (-1)
      else if argv ! 2 = ''help'' then cret 0
      else (case get_cmdline_cipher_suite_priv_data (argv ! 2) data32 of (rc, data) \<Rightarrow>
              if rc \<noteq> 0 then cret 0 else set_lan_param h chan 24 data 9))"

definition lan_set_bad_pass_thresh :: "('e, 'w) lib_host \<Rightarrow> byte \<Rightarrow> string list \<Rightarrow> ('e, int, 'w) com" where
  "lan_set_bad_pass_thresh h chan argv =
     (if length argv = 3 \<and> argv ! 2 = ''help'' then cret 0
      else if length argv < 6 then cret (-1)
      else (case get_cmdline_bad_pass_thresh (drop 2 argv) data32 of (rc, data) \<Rightarrow>
              if rc \<noteq> 0 then cret (-1) else set_lan_param h chan 26 data 6))"

definition ipmi_lan_set :: "('e, 'w) lib_host \<Rightarrow> string list \<Rightarrow> ('e, int, 'w) com" where
  "ipmi_lan_set h argv =
     (if length argv < 2 then cret (-1)
      else if argv ! 0 = ''help'' \<or> argv ! 1 = ''help'' then cret 0
      else (case str2uchar (arg_at argv 0) (Some 0) of (r, v) \<Rightarrow>
        if r \<noteq> 0 then cret (-1)
        else (let chan = conv_byte v; cmd = argv ! 1
              in cbind (is_lan_channel h chan) (\<lambda>lan.
                if \<not> lan then cret (-1)
                else if cmd = ''user'' then lanp_set_user_access h chan 1
                else if cmd = ''access'' then lan_set_access h chan argv
                else if cmd = ''arp'' then lan_set_arp h chan argv
                else if cmd = ''auth'' then
                  (if length argv < 3 then cret (-1) else if argv ! 2 = ''help'' then cret 0
                   else ipmi_lan_set_auth h chan (arg_at argv 2) (arg_at argv 3))
                else if cmd = ''ipsrc'' then lan_set_ipsrc h chan argv
                else if cmd = ''password'' then ipmi_lan_set_password h 1 (arg_at argv 2)
                else if cmd = ''snmp'' then lan_set_snmp h chan argv
                else if cmd = ''ipaddr'' then lan_set_address h chan 3 argv
                else if cmd = ''netmask'' then lan_set_address h chan 6 argv
                else if cmd = ''macaddr'' then lan_set_macaddr h chan argv
                else if cmd = ''defgw'' then lan_set_gateway h chan 12 argv
                else if cmd = ''bakgw'' then lan_set_gateway h chan 14 argv
                else if cmd = ''vlan'' then lan_set_vlan h chan argv
                else if cmd = ''alert'' then lan_set_alert h chan argv
                else if cmd = ''cipher_privs'' then lan_set_cipher_privs h chan argv
                else if cmd = ''bad_pass_thresh'' then lan_set_bad_pass_thresh h chan argv
                else cret (-1)))))"


section \<open>Alert destinations\<close>

definition is_alert_destination :: "('e, 'w) lib_host \<Rightarrow> byte \<Rightarrow> byte \<Rightarrow> ('e, bool, 'w) com" where
  "is_alert_destination h channel alert =
     cbind (get_lan_param h channel 17) (\<lambda>p. cret (case p of
         None \<Rightarrow> False
       | Some q \<Rightarrow> lp_data q \<noteq> None \<and> alert \<le> lp_byte q 0 AND 0xF))"

definition alert_text :: "byte list \<Rightarrow> byte list \<Rightarrow> string" where
  "alert_text ptype paddr =
     (let isack = bit (ptype ! 1) 7; t = ptype ! 1 AND 7
      in pad 24 ''Alert Destination'' @ '': '' @ dec (unat (ptype ! 0)) @ nl
       @ pad 24 ''Alert Acknowledge'' @ '': '' @ (if isack then ''Acknowledged'' else ''Unacknowledged'') @ nl
       @ pad 24 ''Destination Type'' @ '': '' @ (if t = 0 then ''PET Trap'' else if t = 6 then ''OEM 1'' else if t = 7 then ''OEM 2'' else ''Unknown'') @ nl
       @ pad 24 (if isack then ''Acknowledge Timeout'' else ''Retry Interval'') @ '': '' @ dec (unat (ptype ! 2)) @ nl
       @ pad 24 ''Number of Retries'' @ '': '' @ dec (unat (ptype ! 3 AND 7)) @ nl
       @ (if paddr ! 1 AND 0xF0 \<noteq> 0 then nl
          else pad 24 ''Alert Gateway'' @ '': '' @ (if bit (paddr ! 2) 0 then ''Backup'' else ''Default'') @ nl
             @ pad 24 ''Alert IP Address'' @ '': '' @ dotted (drop 3 paddr) @ nl
             @ pad 24 ''Alert MAC Address'' @ '': '' @ mac_text (take 6 (drop 7 paddr)) @ nl @ nl))"

definition ipmi_lan_alert_print :: "('e, 'w) lib_host \<Rightarrow> byte \<Rightarrow> byte \<Rightarrow> ('e, int, 'w) com" where
  "ipmi_lan_alert_print h channel alert =
     cbind (get_lan_param_select h channel 18 alert) (\<lambda>p.
       case p of
         None \<Rightarrow> cret (-1)
       | Some t \<Rightarrow>
           if lp_data t = None \<or> lp_data_len t < 4 then cret (-1)
           else cbind (get_lan_param_select h channel 19 alert) (\<lambda>p1.
             case p1 of
               None \<Rightarrow> cret (-1)
             | Some a \<Rightarrow>
                 if lp_data a = None \<or> lp_data_len a < 13 then cret (-1)
                 else cseq (cprint (alert_text (lp_bytes t 4) (lp_bytes a 13))) (cret 0)))"

fun alert_print_loop :: "('e, 'w) lib_host \<Rightarrow> byte \<Rightarrow> nat list \<Rightarrow> ('e, int, 'w) com" where
  "alert_print_loop h channel [] = cret 0"
| "alert_print_loop h channel (j # js) = cseq (ipmi_lan_alert_print h channel (word_of_nat j)) (alert_print_loop h channel js)"

definition ipmi_lan_alert_print_all :: "('e, 'w) lib_host \<Rightarrow> byte \<Rightarrow> ('e, int, 'w) com" where
  "ipmi_lan_alert_print_all h channel =
     with_param h channel 17 (\<lambda>p. alert_print_loop h channel [0..<unat (lp_byte p 0 AND 0xF) + 1])"

text \<open>
  The current value of a parameter, copied into an array of 32 bytes. The length is compared as an
  unsigned number, so that a length of -1 copies 32 bytes.
\<close>

definition alert_current :: "lan_param \<Rightarrow> byte list" where
  "alert_current p = (let n = (if lp_data_len p < 0 then 32 else min (nat (lp_data_len p)) 32) in lp_bytes p n @ replicate (32 - n) 0)"

text \<open>Reading a parameter, changing bytes of it, writing it with the length it had: announcement and new bytes, or \<open>None\<close>.\<close>

definition alert_change :: "('e, 'w) lib_host \<Rightarrow> byte \<Rightarrow> byte \<Rightarrow> int \<Rightarrow> (byte list \<Rightarrow> (string \<times> byte list) option) \<Rightarrow> ('e, int, 'w) com" where
  "alert_change h chan alert param f =
     cbind (get_lan_param_select h chan param alert) (\<lambda>p.
       case p of
         None \<Rightarrow> cret (-1)
       | Some q \<Rightarrow> (case f (alert_current q) of
            None \<Rightarrow> cret (-1)
          | Some (msg, data) \<Rightarrow>
              cseq (cprint (''Setting LAN Alert '' @ dec (unat alert) @ msg @ nl)) (set_lan_param_nowait h chan param data (lp_data_len q))))"

definition alert_gateway :: "string \<Rightarrow> byte list \<Rightarrow> (string \<times> byte list) option" where
  "alert_gateway v data =
     (if strcasecmp_eq v ''def'' \<or> strcasecmp_eq v ''default'' then Some ('' to use Default Gateway'', data[2 := 0])
      else if strcasecmp_eq v ''bak'' \<or> strcasecmp_eq v ''backup'' then Some ('' to use Backup Gateway'', data[2 := 1])
      else None)"

definition alert_ack :: "string \<Rightarrow> byte list \<Rightarrow> (string \<times> byte list) option" where
  "alert_ack v data =
     (if strcasecmp_eq v ''on'' \<or> strcasecmp_eq v ''yes'' then Some ('' to Acknowledged'', data[1 := data ! 1 OR 0x80])
      else if strcasecmp_eq v ''off'' \<or> strcasecmp_eq v ''no'' then Some ('' to Unacknowledged'', data[1 := data ! 1 AND NOT 0x80])
      else None)"

definition alert_type :: "string \<Rightarrow> byte list \<Rightarrow> (string \<times> byte list) option" where
  "alert_type v data =
     (if strcasecmp_eq v ''pet'' then Some ('' destination to PET Trap'', data[1 := data ! 1 AND NOT 0x07])
      else if strcasecmp_eq v ''oem1'' then Some ('' destination to OEM 1'', data[1 := (data ! 1 AND NOT 0x07) OR 0x06])
      else if strcasecmp_eq v ''oem2'' then Some ('' destination to OEM 2'', data[1 := data ! 1 OR 0x07])
      else None)"

definition alert_time :: "string \<Rightarrow> byte list \<Rightarrow> (string \<times> byte list) option" where
  "alert_time v data =
     (case str2uchar (Some v) (Some (uint (data ! 2))) of (rc, n) \<Rightarrow>
        if rc \<noteq> 0 then None
        else Some ('' timeout/retry to '' @ dec (nat (the n)) @ '' seconds'', data[2 := conv_byte n]))"

definition alert_retry :: "string \<Rightarrow> byte list \<Rightarrow> (string \<times> byte list) option" where
  "alert_retry v data =
     (case str2uchar (Some v) (Some (uint (data ! 3))) of (rc, n) \<Rightarrow>
        if rc \<noteq> 0 then None
        else Some ('' number of retries to '' @ dec (unat (conv_byte n AND 7)), data[3 := conv_byte n AND 7]))"

definition ipmi_lan_alert_set :: "('e, 'w) lib_host \<Rightarrow> byte \<Rightarrow> byte \<Rightarrow> string list \<Rightarrow> ('e, int, 'w) com" where
  "ipmi_lan_alert_set h chan alert argv =
     (if length argv < 2 then cret (-1)
      else if argv ! 0 = ''help'' \<or> argv ! 1 = ''help'' then cret 0
      else (case (get_cmdline_ipaddr (argv ! 1) data32, str2mac (lh_accept_0x h) (argv ! 1) data32) of ((ri, ip), (rm, mac)) \<Rightarrow>
        if strcasecmp_eq (argv ! 0) ''ipaddr'' \<and> ri = 0 then
          alert_change h chan alert 19 (\<lambda>data. Some ('' IP Address to '' @ dotted ip, put_at 3 (take 4 ip) data))
        else if strcasecmp_eq (argv ! 0) ''macaddr'' \<and> rm = 0 then
          alert_change h chan alert 19 (\<lambda>data. Some ('' MAC Address to '' @ mac_text (take 6 mac), put_at 7 (take 6 mac) data))
        else if strcasecmp_eq (argv ! 0) ''gateway'' then alert_change h chan alert 19 (alert_gateway (argv ! 1))
        else if strcasecmp_eq (argv ! 0) ''ack'' then alert_change h chan alert 18 (alert_ack (argv ! 1))
        else if strcasecmp_eq (argv ! 0) ''type'' then alert_change h chan alert 18 (alert_type (argv ! 1))
        else if strcasecmp_eq (argv ! 0) ''time'' then alert_change h chan alert 18 (alert_time (argv ! 1))
        else if strcasecmp_eq (argv ! 0) ''retry'' then alert_change h chan alert 18 (alert_retry (argv ! 1))
        else cret (-1)))"

text \<open>A channel argument of the alert and statistics commands that must name a LAN channel.\<close>

definition lan_channel_arg :: "('e, 'w) lib_host \<Rightarrow> string option \<Rightarrow> ('e, byte option, 'w) com" where
  "lan_channel_arg h a =
     (case a of
        None \<Rightarrow> cbind (find_lan_channel h 1) (\<lambda>chan. cbind (is_lan_channel h chan) (\<lambda>lan. cret (if lan then Some chan else None)))
      | Some s \<Rightarrow>
          (case str2uchar (Some s) (Some 0) of (rc, v) \<Rightarrow>
             if rc \<noteq> 0 then cret None
             else cbind (is_lan_channel h (conv_byte v)) (\<lambda>lan. cret (if lan then Some (conv_byte v) else None))))"

definition alert_arg :: "('e, 'w) lib_host \<Rightarrow> byte \<Rightarrow> string option \<Rightarrow> ('e, byte option, 'w) com" where
  "alert_arg h channel a =
     (case str2uchar a (Some 0) of (rc, v) \<Rightarrow>
        if rc \<noteq> 0 then cret None
        else cbind (is_alert_destination h channel (conv_byte v)) (\<lambda>ok. cret (if ok then Some (conv_byte v) else None)))"

definition ipmi_lan_alert :: "('e, 'w) lib_host \<Rightarrow> string list \<Rightarrow> ('e, int, 'w) com" where
  "ipmi_lan_alert h argv =
     (if argv = [] then cret (-1)
      else if strcasecmp_eq (argv ! 0) ''help'' then cret 0
      else if strcasecmp_eq (argv ! 0) ''print'' then
        (if length argv \<ge> 2 \<and> strcasecmp_eq (argv ! 1) ''help'' then cret 0
         else cbind (lan_channel_arg h (arg_at argv 1)) (\<lambda>c.
           case c of
             None \<Rightarrow> cret (-1)
           | Some channel \<Rightarrow>
               if length argv < 3 then ipmi_lan_alert_print_all h channel
               else cbind (alert_arg h channel (arg_at argv 2)) (\<lambda>a.
                 case a of None \<Rightarrow> cret (-1) | Some alert \<Rightarrow> ipmi_lan_alert_print h channel alert)))
      else if strcasecmp_eq (argv ! 0) ''set'' then
        (if length argv < 5 then cret (-1)
         else if strcasecmp_eq (argv ! 1) ''help'' then cret 0
         else cbind (lan_channel_arg h (arg_at argv 1)) (\<lambda>c.
           case c of
             None \<Rightarrow> cret (-1)
           | Some channel \<Rightarrow> cbind (alert_arg h channel (arg_at argv 2)) (\<lambda>a.
               case a of None \<Rightarrow> cret (-1) | Some alert \<Rightarrow> ipmi_lan_alert_set h channel alert (drop 3 argv))))
      else cret 0)"

section \<open>Statistics\<close>

definition hex2_upper :: "byte \<Rightarrow> string" where
  "hex2_upper b = (let s = hex_upper (unat b) in replicate (2 - length s) (CHR ''0'') @ s)"

definition stats_names :: "string list" where
  "stats_names = [''IP Rx Packet              '', ''IP Rx Header Errors       '', ''IP Rx Address Errors      '', ''IP Rx Fragmented          '',
     ''IP Tx Packet              '', ''UDP Rx Packet             '', ''RMCP Rx Valid             '', ''UDP Proxy Packet Received '',
     ''UDP Proxy Packet Dropped  '']"

definition stats_text :: "nat \<Rightarrow> ipmi_rsp \<Rightarrow> string" where
  "stats_text verbose r =
     (if verbose > 1
      then ''--- Rx Stats ---'' @ nl @ concat (map (\<lambda>i. hex2_upper (rsp_byte r (2 * i)) @ '' '' @ hex2_upper (rsp_byte r (2 * i + 1)) @ '' - '') [0..<9]) @ nl
      else [])
     @ concat (map (\<lambda>i. stats_names ! i @ '': '' @ dec (unat (rsp_byte r (2 * i)) * 2 ^ 8 + unat (rsp_byte r (2 * i + 1))) @ nl) [0..<9])"

definition ipmi_lan_stats :: "('e, 'w) lib_host \<Rightarrow> byte \<Rightarrow> byte \<Rightarrow> (ipmi_rsp \<Rightarrow> string) \<Rightarrow> ('e, int, 'w) com" where
  "ipmi_lan_stats h chan clear text =
     cbind (is_lan_channel h chan) (\<lambda>lan.
       if \<not> lan then cret (-1)
       else cbind (csend h 0x0C 0x04 [chan, clear]) (\<lambda>rsp.
         case rsp of
           None \<Rightarrow> cret (-1)
         | Some r \<Rightarrow> if rsp_ccode r \<noteq> 0 then cret (-1) else cseq (cprint (text r)) (cret 0)))"

definition ipmi_lan_stats_get :: "('e, 'w) lib_host \<Rightarrow> byte \<Rightarrow> ('e, int, 'w) com" where
  "ipmi_lan_stats_get h chan = ipmi_lan_stats h chan 0 (stats_text (lh_verbose h))"

definition ipmi_lan_stats_clear :: "('e, 'w) lib_host \<Rightarrow> byte \<Rightarrow> ('e, int, 'w) com" where
  "ipmi_lan_stats_clear h chan = ipmi_lan_stats h chan 1 (\<lambda>_. [])"

section \<open>The command lan\<close>

definition ipmi_lanp_main :: "('e, 'w) lib_host \<Rightarrow> string list \<Rightarrow> ('e, int, 'w) com" where
  "ipmi_lanp_main h argv =
     (case argv of
        [] \<Rightarrow> cret (-1)
      | cmd # args \<Rightarrow>
          if cmd = ''help'' then cret 0
          else if cmd = ''printconf'' \<or> cmd = ''print'' then
            (if length argv > 2 then cret (-1)
             else cbind (lan_channel_arg h (arg_at argv 1)) (\<lambda>c. case c of None \<Rightarrow> cret (-1) | Some chan \<Rightarrow> ipmi_lan_print h chan))
          else if cmd = ''set'' then ipmi_lan_set h args
          else if cmd = ''alert'' then ipmi_lan_alert h args
          else if cmd = ''stats'' then
            (if length argv < 2 then cret (-1)
             else cbind (lan_channel_arg h (if length argv = 3 then arg_at argv 2 else None)) (\<lambda>c.
               case c of
                 None \<Rightarrow> cret (-1)
               | Some chan \<Rightarrow>
                   if argv ! 1 = ''get'' then ipmi_lan_stats_get h chan
                   else if argv ! 1 = ''clear'' then ipmi_lan_stats_clear h chan
                   else cret (-1)))
          else cret (-1))"

end
