(* ===== verification/Lanp_Config.thy ===== *)
theory Lanp_Config
  imports Lanp
begin

text \<open>
  What the writes of lib/ipmi_lanp.c achieve: a successful one was read back; on a controller
  that stores what it is told, even one that goes on showing the old value for a while, the
  parameter has the new value afterwards, every other parameter its old one, and the lock was
  taken before the write and given back after it. What can be typed on the command line
  is what is printed.
\<close>

section \<open>A successful write was read back\<close>

definition shows_value :: "lan_param \<Rightarrow> byte list \<Rightarrow> int \<Rightarrow> bool" where
  "shows_value p data len \<longleftrightarrow> lp_data_len p = len \<and> lp_bytes p (nat len) = take (nat len) data"

definition was_read_back :: "('e, 'w) lib_host \<Rightarrow> byte \<Rightarrow> int \<Rightarrow> byte list \<Rightarrow> int \<Rightarrow> 'w console \<Rightarrow> bool" where
  "was_read_back h chan param data len st2 \<longleftrightarrow> (\<exists>st1 p. get_lan_param h chan param st1 = Inr (Some p, st2) \<and> shows_value p data len)"

lemma wait_loop_reads: "lan_wait_loop h chan param data len n st = Inr (0, st') \<Longrightarrow> was_read_back h chan param data len st'"
proof (induction n arbitrary: st)
  case 0
  then show ?case
    by (auto simp: com_Inr cret_run was_read_back_def shows_value_def split: option.splits if_splits)
next
  case (Suc n)
  then show ?case
    by (auto simp: com_Inr cret_run was_read_back_def shows_value_def split: option.splits if_splits)
qed

lemma retry_loop_reads: "lan_retry_loop h chan param data len n st = Inr (0, st') \<Longrightarrow> was_read_back h chan param data len st'"
proof (induction n arbitrary: st)
  case 0
  then show ?case by (simp add: set_lan_param_wait_def wait_loop_reads)
next
  case (Suc n)
  then show ?case by (auto simp: com_Inr set_lan_param_wait_def wait_loop_reads split: if_splits)
qed

lemma set_raw_reads: "set_lan_param_raw h chan param data len True st = Inr (0, st') \<Longrightarrow> was_read_back h chan param data len st'"
  by (auto simp: set_lan_param_raw_def com_Inr cret_run craise_run set_lan_param_wait_def wait_loop_reads retry_loop_reads split: option.splits if_splits)

text \<open>
  A write that reports success was verified: the parameter was read back from the
  controller with exactly the bytes written, and after that only the lock was given back.
\<close>

theorem lan_set_verified:
  assumes "set_lan_param h chan param data len st = Inr (0, st')"
  shows "\<exists>st2. was_read_back h chan param data len st2 \<and> ipmi_lanp_unlock h chan st2 = Inr ((), st')"
  using assms unfolding set_lan_param_def com_Inr cret_run by (auto dest: set_raw_reads)


section \<open>A controller that stores parameters\<close>

text \<open>
  What is stored for each channel and parameter; the value that is still shown for a number of
  reads after a write; the writes in their order; and the number of reads after which a
  write shows. Writes to parameter 0, the lock, show at once.
\<close>

record lan_view =
  lv_param :: "byte \<Rightarrow> byte \<Rightarrow> byte list"
  lv_stale :: "(byte \<times> byte \<times> byte list \<times> nat) option"
  lv_writes :: "(byte \<times> byte \<times> byte list) list"
  lv_delay :: nat

definition view_read :: "byte \<Rightarrow> byte \<Rightarrow> lan_view \<Rightarrow> byte list \<times> lan_view" where
  "view_read chan param v =
     (case lv_stale v of
        Some (c, p, old, Suc n) \<Rightarrow>
          if c = chan \<and> p = param then (old, v\<lparr>lv_stale := Some (c, p, old, n)\<rparr>) else (lv_param v chan param, v)
      | _ \<Rightarrow> (lv_param v chan param, v))"

definition view_store :: "byte \<Rightarrow> byte \<Rightarrow> byte list \<Rightarrow> lan_view \<Rightarrow> lan_view" where
  "view_store chan param d v = v\<lparr>lv_param := (lv_param v)(chan := (lv_param v chan)(param := d)), lv_writes := lv_writes v @ [(chan, param, d)]\<rparr>"

definition view_write :: "byte \<Rightarrow> byte \<Rightarrow> byte list \<Rightarrow> lan_view \<Rightarrow> lan_view" where
  "view_write chan param d v =
     (if param = 0 then view_store chan param d v
      else (view_store chan param d v)\<lparr>lv_stale := Some (chan, param, lv_param v chan param, lv_delay v)\<rparr>)"

text \<open>A transport behind which such a controller answers.\<close>

definition lan_serves :: "('e, 'w) lib_host \<Rightarrow> ('w \<Rightarrow> lan_view) \<Rightarrow> bool" where
  "lan_serves h view \<longleftrightarrow>
     (\<forall>chan param w. \<exists>rev w'. lh_sendrecv h (mk_rq 0x0C 0x02 [chan, param, 0, 0]) w = Inr (Some (rsp_of 0 (rev # fst (view_read chan param (view w)))), w')
        \<and> view w' = snd (view_read chan param (view w))) \<and>
     (\<forall>chan param d w. \<exists>w'. lh_sendrecv h (mk_rq 0x0C 0x01 ([chan, param] @ d)) w = Inr (Some (rsp_of 0 []), w')
        \<and> view w' = view_write chan param d (view w))"

definition wf_view :: "lan_view \<Rightarrow> bool" where
  "wf_view v \<longleftrightarrow> (\<forall>c p old n. lv_stale v = Some (c, p, old, n) \<longrightarrow> p \<noteq> 0)"

definition known_param :: "int \<Rightarrow> bool" where
  "known_param param \<longleftrightarrow> param \<in> set (map fst ipmi_lan_params)"

lemma known_param_find: "known_param param \<Longrightarrow> \<exists>sz desc. find (\<lambda>p. fst p = param) ipmi_lan_params = Some (param, sz, desc)"
proof -
  assume "known_param param"
  then have "find (\<lambda>p. fst p = param) ipmi_lan_params \<noteq> None" by (auto simp: known_param_def find_None_iff) blast
  then obtain x where x: "find (\<lambda>p. fst p = param) ipmi_lan_params = Some x" by auto
  then have "fst x = param" by (auto simp: find_Some_iff)
  with x show ?thesis by (cases x) auto
qed

lemma known_param_byte: "known_param param \<Longrightarrow> 0 \<le> param \<and> param < 256"
  by (auto simp: known_param_def ipmi_lan_params_def)

lemma known_0 [simp]: "known_param 0"
  by (simp add: known_param_def ipmi_lan_params_def)

lemma rsp_of_bytes: "rsp_bytes (rsp_of cc (b # d)) (Suc 0) (length d) = d"
  using rsp_bytes_take [of 1 "length d" "rsp_of cc (b # d)"] by simp

text \<open>Reading a parameter from such a controller.\<close>

lemma serves_read:
  assumes "lan_serves h view" and "known_param param"
  obtains w' p where "get_lan_param h chan param st = Inr (Some p, st\<lparr>co_world := w'\<rparr>)"
    and "view w' = snd (view_read chan (word_of_int param) (view (co_world st)))"
    and "lp_data p \<noteq> None" and "lp_data_len p = int (length (fst (view_read chan (word_of_int param) (view (co_world st)))))"
    and "lp_bytes p (length (fst (view_read chan (word_of_int param) (view (co_world st))))) = fst (view_read chan (word_of_int param) (view (co_world st)))"
    and "lp_desc p = snd (snd (the (find (\<lambda>p. fst p = param) ipmi_lan_params)))"
proof -
  obtain sz desc where f: "find (\<lambda>p. fst p = param) ipmi_lan_params = Some (param, sz, desc)" using known_param_find assms(2) by blast
  obtain rv w' where w: "lh_sendrecv h (mk_rq 0x0C 0x02 [chan, word_of_int param, 0, 0]) (co_world st)
        = Inr (Some (rsp_of 0 (rv # fst (view_read chan (word_of_int param) (view (co_world st))))), w')"
      "view w' = snd (view_read chan (word_of_int param) (view (co_world st)))"
    using assms(1) unfolding lan_serves_def by blast
  show ?thesis
    by (rule that [of "\<lparr>lp_desc = desc, lp_data = Some (rsp_of 0 (rv # fst (view_read chan (word_of_int param) (view (co_world st))))),
            lp_data_len = int (length (fst (view_read chan (word_of_int param) (view (co_world st)))))\<rparr>" w'])
      (simp_all add: get_lan_param_def get_lan_param_select_def f csend_def w com_run lp_bytes_def rsp_of_bytes)
qed

lemma serves_write:
  assumes "lan_serves h view"
  obtains w' r where "csend h 0x0C 0x01 ([chan, param] @ d) st = Inr (Some r, st\<lparr>co_world := w'\<rparr>)" and "rsp_ccode r = 0"
    and "view w' = view_write chan param d (view (co_world st))"
proof -
  obtain w' where w: "lh_sendrecv h (mk_rq 0x0C 0x01 ([chan, param] @ d)) (co_world st) = Inr (Some (rsp_of 0 []), w')"
      "view w' = view_write chan param d (view (co_world st))"
    using assms unfolding lan_serves_def by blast
  show ?thesis by (rule that [of "rsp_of 0 []" w']) (simp_all add: csend_def w del: append_Cons append_Nil)
qed


section \<open>Locking, writing, unlocking\<close>

text \<open>The values a controller shows at the next read, and reads and writes of parameters other than the one a stale value belongs to.\<close>

abbreviation view_shows :: "lan_view \<Rightarrow> byte \<Rightarrow> byte \<Rightarrow> byte list" where
  "view_shows v chan param \<equiv> fst (view_read chan param v)"

lemma view_read_lock: "wf_view v \<Longrightarrow> view_read chan 0 v = (lv_param v chan 0, v)"
  by (auto simp: view_read_def wf_view_def split: option.splits prod.splits nat.splits)

lemma wf_view_read: "wf_view v \<Longrightarrow> wf_view (snd (view_read chan param v))"
  by (auto simp: view_read_def wf_view_def split: option.splits prod.splits nat.splits)

lemma wf_view_write: "wf_view v \<Longrightarrow> wf_view (view_write chan param d v)"
  by (auto simp: view_write_def view_store_def wf_view_def)

lemma view_read_keeps: "lv_param (snd (view_read chan param v)) = lv_param v" "lv_writes (snd (view_read chan param v)) = lv_writes v"
    "lv_delay (snd (view_read chan param v)) = lv_delay v"
  by (auto simp: view_read_def split: option.splits prod.splits nat.splits)

lemma view_write_lock: "view_write chan 0 d v = view_store chan 0 d v"
  by (simp add: view_write_def)

lemma view_shows_lock: "param \<noteq> 0 \<Longrightarrow> view_shows (view_store chan 0 d v) chan param = view_shows v chan param"
  by (auto simp: view_read_def view_store_def split: option.splits prod.splits nat.splits)

lemma serves_lock_state:
  assumes "lan_serves h view" and "wf_view (view (co_world st))" and "lv_param (view (co_world st)) chan 0 = [s]"
  obtains w' where "ipmi_lanp_lock_state h chan st = Inr (uint (s AND 3), st\<lparr>co_world := w'\<rparr>)" and "view w' = view (co_world st)"
proof -
  obtain w' p where p: "get_lan_param h chan 0 st = Inr (Some p, st\<lparr>co_world := w'\<rparr>)" "view w' = view (co_world st)"
      "lp_data p \<noteq> None" "lp_bytes p 1 = [s]"
    by (rule serves_read [OF assms(1) known_0, of chan st]) (use assms(2,3) in \<open>simp add: view_read_lock\<close>)
  then have "lp_byte p 0 = s" by (simp add: lp_byte_def lp_bytes_def rsp_bytes_def)
  with p show ?thesis by (intro that [of w']) (auto simp: ipmi_lanp_lock_state_def com_run)
qed

lemma serves_set_lock:
  assumes "lan_serves h view"
  obtains w' where "set_lan_param_raw h chan 0 [b] 1 False st = Inr (0, st\<lparr>co_world := w'\<rparr>)" and "view w' = view_store chan 0 [b] (view (co_world st))"
proof -
  obtain w' r where "csend h 0x0C 0x01 ([chan, 0] @ [b]) st = Inr (Some r, st\<lparr>co_world := w'\<rparr>)" "rsp_ccode r = 0"
      "view w' = view_write chan 0 [b] (view (co_world st))"
    using serves_write [OF assms] by blast
  then show ?thesis by (intro that [of w']) (simp_all add: set_lan_param_raw_def com_run view_write_lock)
qed

text \<open>Taking the lock writes nothing when it is already taken.\<close>

definition locked_view :: "byte \<Rightarrow> byte \<Rightarrow> lan_view \<Rightarrow> lan_view" where
  "locked_view chan s v = (if s AND 3 = 1 then v else view_store chan 0 [1] v)"

lemma uint_1_iff: "uint (s :: byte) = 1 \<longleftrightarrow> s = 1"
  by (metis uint_1 word_uint_eq_iff)

lemma serves_lock:
  assumes h: "lan_serves h view" and wf: "wf_view (view (co_world st))" and s: "lv_param (view (co_world st)) chan 0 = [s]"
  obtains w' where "ipmi_lanp_lock h chan st = Inr ((), st\<lparr>co_world := w'\<rparr>)" and "view w' = locked_view chan s (view (co_world st))"
proof -
  obtain w1 where w1: "ipmi_lanp_lock_state h chan st = Inr (uint (s AND 3), st\<lparr>co_world := w1\<rparr>)" "view w1 = view (co_world st)"
    using serves_lock_state [OF assms] by blast
  have not_neg: "uint (s AND 3) \<noteq> -1" using uint_ge_0 [of "s AND 3"] by linarith
  show ?thesis
  proof (cases "s AND 3 = 1")
    case True
    then show ?thesis using w1
      by (intro that [of w1]) (simp_all add: ipmi_lanp_lock_def numeral_3_eq_3 com_run locked_view_def)
  next
    case False
    obtain w2 where w2: "set_lan_param_raw h chan 0 [1] 1 False (st\<lparr>co_world := w1\<rparr>) = Inr (0, st\<lparr>co_world := w2\<rparr>)"
        "view w2 = view_store chan 0 [1] (view (co_world st))"
      using serves_set_lock [OF h, of chan 1 "st\<lparr>co_world := w1\<rparr>"] w1(2) by auto
    have "wf_view (view w2)" "lv_param (view w2) chan 0 = [1]" using wf w2 wf_view_write [of _ chan 0 "[1]"]
      by (simp_all add: view_write_lock view_store_def wf_view_def)
    then obtain w3 where w3: "ipmi_lanp_lock_state h chan (st\<lparr>co_world := w2\<rparr>) = Inr (1, st\<lparr>co_world := w3\<rparr>)" "view w3 = view w2"
      using serves_lock_state [OF h, of "st\<lparr>co_world := w2\<rparr>" chan 1] by auto
    show ?thesis using w1 w2 w3 False not_neg
      by (intro that [of w3]) (simp_all add: ipmi_lanp_lock_def numeral_3_eq_3 com_run locked_view_def uint_1_iff)
  qed
qed

lemma serves_unlock:
  assumes "lan_serves h view"
  obtains w' where "ipmi_lanp_unlock h chan st = Inr ((), st\<lparr>co_world := w'\<rparr>)"
    and "view w' = view_store chan 0 [0] (view_store chan 0 [2] (view (co_world st)))"
proof -
  obtain w1 where w1: "set_lan_param_raw h chan 0 [2] 1 False st = Inr (0, st\<lparr>co_world := w1\<rparr>)" "view w1 = view_store chan 0 [2] (view (co_world st))"
    using serves_set_lock [OF assms] by blast
  obtain w2 where w2: "set_lan_param_raw h chan 0 [0] 1 False (st\<lparr>co_world := w1\<rparr>) = Inr (0, st\<lparr>co_world := w2\<rparr>)"
      "view w2 = view_store chan 0 [0] (view w1)"
    using serves_set_lock [OF assms, of chan 0 "st\<lparr>co_world := w1\<rparr>"] by auto
  show ?thesis using w1 w2 by (intro that [of w2]) (simp_all add: ipmi_lanp_unlock_def com_run)
qed

text \<open>Waiting until the value shows.\<close>

definition shows_within :: "lan_view \<Rightarrow> byte \<Rightarrow> byte \<Rightarrow> byte list \<Rightarrow> nat \<Rightarrow> bool" where
  "shows_within v chan param d k \<longleftrightarrow> lv_param v chan param = d \<and>
     (\<forall>c p old n. lv_stale v = Some (c, p, old, n) \<longrightarrow> c = chan \<and> p = param \<longrightarrow> n \<le> k)"

lemma shows_within_read:
  "shows_within v chan param d k \<Longrightarrow> view_shows v chan param \<noteq> d \<Longrightarrow> k \<noteq> 0 \<and> shows_within (snd (view_read chan param v)) chan param d (k - 1)"
  by (auto simp: shows_within_def view_read_def split: option.splits prod.splits nat.splits if_splits)

lemma shows_read_again:
  "shows_within v chan param d k \<Longrightarrow> view_shows v chan param = d \<Longrightarrow> view_shows (snd (view_read chan param v)) chan param = d"
  by (auto simp: shows_within_def view_read_def split: option.splits prod.splits nat.splits if_splits)

lemma serves_wait:
  assumes h: "lan_serves h view" and p: "known_param param" and d: "length d \<le> length data" "d = take (length d) data"
    and s: "shows_within (view (co_world st)) chan (word_of_int param) d k" and k: "k \<le> n" and wf: "wf_view (view (co_world st))"
  shows "\<exists>w'. lan_wait_loop h chan param data (int (length d)) n st = Inr (0, st\<lparr>co_world := w'\<rparr>) \<and> wf_view (view w')
     \<and> view_shows (view w') chan (word_of_int param) = d \<and> lv_param (view w') = lv_param (view (co_world st))
     \<and> lv_writes (view w') = lv_writes (view (co_world st))"
  using s k wf
proof (induction n arbitrary: st k)
  case 0
  obtain w' q where q: "get_lan_param h chan param st = Inr (Some q, st\<lparr>co_world := w'\<rparr>)"
      "view w' = snd (view_read chan (word_of_int param) (view (co_world st)))"
      "lp_data_len q = int (length (view_shows (view (co_world st)) chan (word_of_int param)))"
      "lp_bytes q (length (view_shows (view (co_world st)) chan (word_of_int param))) = view_shows (view (co_world st)) chan (word_of_int param)"
    using serves_read [OF h p, of chan st] by metis
  have v: "view_shows (view (co_world st)) chan (word_of_int param) = d" using shows_within_read [OF 0(1)] 0(2) by auto
  show ?case using q v 0 d shows_read_again [OF 0(1) v]
    by (intro exI [of _ w']) (simp add: com_run wf_view_read view_read_keeps)
next
  case (Suc n)
  obtain w' q where q: "get_lan_param h chan param st = Inr (Some q, st\<lparr>co_world := w'\<rparr>)"
      "view w' = snd (view_read chan (word_of_int param) (view (co_world st)))"
      "lp_data_len q = int (length (view_shows (view (co_world st)) chan (word_of_int param)))"
      "lp_bytes q (length (view_shows (view (co_world st)) chan (word_of_int param))) = view_shows (view (co_world st)) chan (word_of_int param)"
    using serves_read [OF h p, of chan st] by metis
  show ?case
  proof (cases "view_shows (view (co_world st)) chan (word_of_int param) = d")
    case True
    then show ?thesis using q Suc.prems d shows_read_again [OF Suc.prems(1) True]
      by (intro exI [of _ w']) (simp add: com_run wf_view_read view_read_keeps)
  next
    case False
    have nz: "k \<noteq> 0" and s1: "shows_within (view w') chan (word_of_int param) d (k - 1)"
      using shows_within_read [OF Suc.prems(1) False] q(2) by auto
    have wf1: "wf_view (view w')" using Suc.prems(3) q(2) by (simp add: wf_view_read)
    have "lan_wait_loop h chan param data (int (length d)) (Suc n) st = lan_wait_loop h chan param data (int (length d)) n (st\<lparr>co_world := w'\<rparr>)"
      using q False d by (auto simp: com_run)
    then show ?thesis using Suc.IH [of "st\<lparr>co_world := w'\<rparr>" "k - 1"] s1 wf1 nz Suc.prems(2) q(2) by (simp add: view_read_keeps)
  qed
qed


section \<open>Writing a parameter\<close>

lemma known_param_word: "known_param param \<Longrightarrow> param \<noteq> 0 \<Longrightarrow> (word_of_int param :: byte) \<noteq> 0"
proof
  assume "known_param param" "param \<noteq> 0" and z: "(word_of_int param :: byte) = 0"
  then have "0 < param" "param < 256" using known_param_byte [of param] by auto
  moreover have "uint (word_of_int param :: byte) = param mod 256" by (simp add: uint_word_of_int)
  ultimately show False using z by (simp add: mod_pos_pos_trivial)
qed

lemma view_write_within:
  "param \<noteq> 0 \<Longrightarrow> shows_within (view_write chan param d v) chan param d (lv_delay v)"
  by (auto simp: shows_within_def view_write_def view_store_def)

lemma serves_set_raw:
  assumes h: "lan_serves h view" and p: "known_param param" "param \<noteq> 0" and len: "len \<le> length data" "len \<le> 30"
    and wf: "wf_view (view (co_world st))" and late: "lv_delay (view (co_world st)) \<le> 10"
  shows "\<exists>w'. set_lan_param_raw h chan param data (int len) True st = Inr (0, st\<lparr>co_world := w'\<rparr>) \<and> wf_view (view w')
     \<and> view_shows (view w') chan (word_of_int param) = take len data
     \<and> lv_param (view w') = lv_param (view_store chan (word_of_int param) (take len data) (view (co_world st)))
     \<and> lv_writes (view w') = lv_writes (view_store chan (word_of_int param) (take len data) (view (co_world st)))"
proof -
  have nz: "(word_of_int param :: byte) \<noteq> 0" using p by (rule known_param_word)
  obtain w1 r where w1: "csend h 0x0C 0x01 ([chan, word_of_int param] @ take len data) st = Inr (Some r, st\<lparr>co_world := w1\<rparr>)" "rsp_ccode r = 0"
      "view w1 = view_write chan (word_of_int param) (take len data) (view (co_world st))"
    using serves_write [OF h] by blast
  have "shows_within (view w1) chan (word_of_int param) (take len data) (lv_delay (view (co_world st)))"
    using view_write_within [OF nz, of chan "take len data" "view (co_world st)"] w1(3) by simp
  moreover have "wf_view (view w1)" using wf w1(3) by (simp add: wf_view_write)
  moreover have "length (take len data) = len" using len by simp
  ultimately obtain w2 where "lan_wait_loop h chan param data (int len) 10 (st\<lparr>co_world := w1\<rparr>) = Inr (0, st\<lparr>co_world := w2\<rparr>)" "wf_view (view w2)"
      "view_shows (view w2) chan (word_of_int param) = take len data" "lv_param (view w2) = lv_param (view w1)" "lv_writes (view w2) = lv_writes (view w1)"
    using serves_wait [OF h p(1), of "take len data" data "st\<lparr>co_world := w1\<rparr>" chan "lv_delay (view (co_world st))" 10] late len by auto
  then show ?thesis using w1 len known_param_byte [OF p(1)]
    by (intro exI [of _ w2]) (auto simp: set_lan_param_raw_def com_run set_lan_param_wait_def view_write_def view_store_def)
qed

lemma view_store_simps [simp]:
  "lv_param (view_store chan param d v) = (lv_param v)(chan := (lv_param v chan)(param := d))"
  "lv_writes (view_store chan param d v) = lv_writes v @ [(chan, param, d)]"
  "lv_delay (view_store chan param d v) = lv_delay v"
  by (simp_all add: view_store_def)

lemma serves_set:
  assumes "lan_serves h view" and "known_param param" and "param \<noteq> 0" and "len \<le> length data" and "len \<le> 30"
    and "wf_view (view (co_world st))" and "lv_delay (view (co_world st)) \<le> 10" and "lv_param (view (co_world st)) chan 0 = [s]"
  shows "\<exists>w'. set_lan_param h chan param data (int len) st = Inr (0, st\<lparr>co_world := w'\<rparr>)
     \<and> lv_param (view w') = (lv_param (view (co_world st)))(chan := (lv_param (view (co_world st)) chan)(word_of_int param := take len data, 0 := [0]))
     \<and> lv_writes (view w') = lv_writes (view (co_world st)) @ (if s AND 3 = 1 then [] else [(chan, 0, [1])])
         @ [(chan, word_of_int param, take len data), (chan, 0, [2]), (chan, 0, [0])]
     \<and> view_shows (view w') chan (word_of_int param) = take len data"
proof -
  let ?v = "view (co_world st)"
  have nz: "(word_of_int param :: byte) \<noteq> 0" using assms(2,3) by (rule known_param_word)
  obtain w1 where w1: "ipmi_lanp_lock h chan st = Inr ((), st\<lparr>co_world := w1\<rparr>)" "view w1 = locked_view chan s ?v"
    using serves_lock [OF assms(1,6,8)] by blast
  have "wf_view (view w1)" using assms(6) w1(2) wf_view_write [of ?v chan 0 "[1]"] by (simp add: locked_view_def view_write_lock)
  moreover have "lv_delay (view w1) \<le> 10" using assms(7) w1(2) by (simp add: locked_view_def)
  ultimately obtain w2 where w2: "set_lan_param_raw h chan param data (int len) True (st\<lparr>co_world := w1\<rparr>) = Inr (0, st\<lparr>co_world := w2\<rparr>)"
      "view_shows (view w2) chan (word_of_int param) = take len data"
      "lv_param (view w2) = lv_param (view_store chan (word_of_int param) (take len data) (view w1))"
      "lv_writes (view w2) = lv_writes (view_store chan (word_of_int param) (take len data) (view w1))"
    using serves_set_raw [OF assms(1-5), of "st\<lparr>co_world := w1\<rparr>" chan] by auto
  obtain w3 where w3: "ipmi_lanp_unlock h chan (st\<lparr>co_world := w2\<rparr>) = Inr ((), st\<lparr>co_world := w3\<rparr>)"
      "view w3 = view_store chan 0 [0] (view_store chan 0 [2] (view w2))"
    using serves_unlock [OF assms(1), of chan "st\<lparr>co_world := w2\<rparr>"] by auto
  have "set_lan_param h chan param data (int len) st = Inr (0, st\<lparr>co_world := w3\<rparr>)"
    using w1 w2 w3 by (simp add: set_lan_param_def com_run)
  moreover have "view_shows (view w3) chan (word_of_int param) = take len data" using w2(2) w3(2) nz by (simp add: view_shows_lock)
  ultimately show ?thesis using w1(2) w2(3,4) w3(2) nz
    by (intro exI [of _ w3]) (auto simp: locked_view_def fun_eq_iff)
qed

text \<open>
  C17: writing a parameter of at most 30 bytes. Behind any transport where a controller accepts every request, stores what is written,
  shows its lock at once and any other parameter after at most ten reads, the command reports success; the parameter has the new value, and shows it;
  no other parameter of any channel has changed, the lock is released; and the writes
  were, in this order: the lock unless it was taken, the parameter, the commit, the release.
\<close>

theorem lan_set_stores:
  assumes "lan_serves h view" and "known_param param" and "param \<noteq> 0" and "len \<le> length data" and "len \<le> 30"
    and "wf_view (view (co_world st))" and "lv_delay (view (co_world st)) \<le> 10" and "lv_param (view (co_world st)) chan 0 = [s]"
  shows "\<exists>w'. set_lan_param h chan param data (int len) st = Inr (0, st\<lparr>co_world := w'\<rparr>)
     \<and> lv_param (view w') = (lv_param (view (co_world st)))(chan := (lv_param (view (co_world st)) chan)(word_of_int param := take len data, 0 := [0]))
     \<and> lv_writes (view w') = lv_writes (view (co_world st)) @ (if s AND 3 = 1 then [] else [(chan, 0, [1])])
         @ [(chan, word_of_int param, take len data), (chan, 0, [2]), (chan, 0, [0])]
     \<and> view_shows (view w') chan (word_of_int param) = take len data"
  using serves_set [OF assms] .

section \<open>A controller of this kind\<close>

text \<open>The view itself as the state of a controller; its channel 1 is a LAN channel.\<close>

definition lan_bmc :: "(unit, lan_view) sendrecv" where
  "lan_bmc req v =
     (if rq_netfn req = 0x0C \<and> rq_cmd req = 0x02 then
        (case view_read (rq_data req ! 0) (rq_data req ! 1) v of (d, v1) \<Rightarrow> Inr (Some (rsp_of 0 (0x11 # d)), v1))
      else if rq_netfn req = 0x0C \<and> rq_cmd req = 0x01 then
        Inr (Some (rsp_of 0 []), view_write (rq_data req ! 0) (rq_data req ! 1) (drop 2 (rq_data req)) v)
      else if rq_netfn req = 0x06 \<and> rq_cmd req = 0x42 then
        Inr (Some (rsp_of 0 [rq_data req ! 0, if rq_data req ! 0 = 1 then 4 else 5, 1, 0x80, 0xF2, 0x1B, 0, 0, 0]), v)
      else Inr (Some (rsp_of 0xC1 []), v))"

definition lan_bmc_host :: "(unit, lan_view) lib_host" where
  "lan_bmc_host = \<lparr>lh_sendrecv = lan_bmc, lh_upd_intf = (\<lambda>_ v. v), lh_ask_password = (\<lambda>_ v. (None, v)), lh_csv_output = False,
     lh_verbose = 0, lh_accept_0x = True, lh_args_rtl = True\<rparr>"

lemma lan_bmc_serves: "lan_serves lan_bmc_host id"
  by (auto simp: lan_serves_def lan_bmc_host_def lan_bmc_def mk_rq_def split: prod.splits)

definition sample_view :: lan_view where
  "sample_view = \<lparr>lv_param = (\<lambda>_ p. if p = 0 then [0] else if p = 3 then [0, 0, 0, 0] else [1]), lv_stale = None, lv_writes = [], lv_delay = 4\<rparr>"

definition sample_console :: "lan_view console" where
  "sample_console = \<lparr>co_world = sample_view, co_out = [], co_header = False\<rparr>"

theorem lan_set_stores_witness:
  "\<exists>v. set_lan_param lan_bmc_host 1 3 [192, 168, 0, 7] 4 sample_console = Inr (0, sample_console\<lparr>co_world := v\<rparr>)
     \<and> lv_writes v = [(1, 0, [1]), (1, 3, [192, 168, 0, 7]), (1, 0, [2]), (1, 0, [0])]"
  using lan_set_stores [OF lan_bmc_serves, of 3 4 "[192, 168, 0, 7]" sample_console 1 0]
  by (auto simp: known_param_def ipmi_lan_params_def sample_console_def sample_view_def wf_view_def)

theorem lan_set_verified_witness:
  "\<exists>st2 st'. was_read_back lan_bmc_host 1 3 [192, 168, 0, 7] 4 st2 \<and> ipmi_lanp_unlock lan_bmc_host 1 st2 = Inr ((), st')"
proof -
  obtain st' where "set_lan_param lan_bmc_host 1 3 [192, 168, 0, 7] 4 sample_console = Inr (0, st')"
    using serves_set [OF lan_bmc_serves, of 3 4 "[192, 168, 0, 7]" sample_console 1 0]
    by (auto simp: known_param_def ipmi_lan_params_def sample_console_def sample_view_def wf_view_def)
  then show ?thesis using lan_set_verified by blast
qed


section \<open>Addresses on the command line\<close>

lemma scan_digits_stop: "\<not> is_digit_in 10 c \<Longrightarrow> scan_digits 10 0 (show_base 10 n @ c # r) = (n, c # r)"
  using scan_digits_append [OF show_base_digits [of 10 n], of 0 "c # r"] scan_digits_show [of 10 n] by simp

lemma scan_number_dotted:
  assumes "r = [] \<or> r = CHR ''.'' # r'"
  shows "scan_number 10 (show_base 10 n @ r) = Some (False, n, r)"
proof -
  obtain k ds where k: "show_base 10 n = hexchar k # ds" "k < 10" using hd_show_base_plain [of 10 n] by auto
  have sp: "\<not> isspace (hexchar k)" using k(2) hexchar_simps(4) [of k] by simp
  have dg: "is_digit_in 10 (hexchar k)" using k(2) by (simp add: hexchar_is_digit)
  have sc: "scan_digits 10 0 (show_base 10 n @ r) = (n, r)"
    using assms scan_digits_stop [of "CHR ''.''" n r'] scan_digits_show [of 10 n] by (auto simp: is_digit_in_def digit_val_def)
  have "scan_number 10 (hexchar k # ds @ r) = Some (False, n, r)"
    using sp dg sc k by (simp add: scan_number_def scan_sign_hexchar scan_base_def)
  then show ?thesis by (simp add: k)
qed


lemma scan_u32_dotted: "n < 2 ^ 32 \<Longrightarrow> r = [] \<or> r = CHR ''.'' # r' \<Longrightarrow> scan_u32 (show_base 10 n @ r) = Some (int n, r)"
  by (auto simp: scan_u32_def strtoul_def scan_number_dotted [of r r'])

lemma scan_ip_dotted:
  assumes "length ip = 4"
  shows "scan_ip 4 (dotted ip) = map (\<lambda>b. int (unat b)) ip"
proof -
  obtain a b c d where ip: "ip = [a, b, c, d]" using assms by (auto simp: numeral_eq_Suc length_Suc_conv)
  have u: "scan_u32 (show_base 10 (unat x) @ CHR ''.'' # s) = Some (int (unat x), CHR ''.'' # s)"
      "scan_u32 (show_base 10 (unat x)) = Some (int (unat x), [])" for x :: byte and s
  proof -
    have n: "unat x < 2 ^ 32" by (rule order.strict_trans2 [OF unat_byte_less]) simp
    then show "scan_u32 (show_base 10 (unat x) @ CHR ''.'' # s) = Some (int (unat x), CHR ''.'' # s)" by (rule scan_u32_dotted) simp
    show "scan_u32 (show_base 10 (unat x)) = Some (int (unat x), [])" using scan_u32_dotted [OF n, of "[]"] by simp
  qed
  have four: "scan_ip 4 = scan_ip (Suc (Suc (Suc (Suc 0))))" by (simp add: numeral_eq_Suc)
  show ?thesis by (simp add: ip dotted_def dec_def four u)
qed

lemma cmdline_ipaddr_dotted:
  assumes "length ip = 4"
  shows "get_cmdline_ipaddr (dotted ip) buf = (0, ip @ drop 4 buf)"
proof -
  have "\<not> (\<exists>v\<in>set (map (\<lambda>b. int (unat b)) ip). v > 255)"
  proof -
    have "int (unat b) \<le> 255" for b :: byte using unat_byte_less [of b] by linarith
    then show ?thesis by (auto simp: not_less)
  qed
  moreover have "map word_of_int (map (\<lambda>b. int (unat b)) ip) = ip" by (simp add: map_idI)
  ultimately show ?thesis using assms by (simp add: get_cmdline_ipaddr_def scan_ip_dotted put_at_def)
qed

text \<open>A channel whose medium the controller gives as a LAN.\<close>

definition lan_medium :: "('e, 'w) lib_host \<Rightarrow> ('w \<Rightarrow> lan_view) \<Rightarrow> byte \<Rightarrow> bool" where
  "lan_medium h view chan \<longleftrightarrow>
     (\<forall>w. \<exists>r w'. lh_sendrecv h (mk_rq 0x06 0x42 [chan AND 0x0F]) w = Inr (Some r, w') \<and> rsp_ccode r = 0 \<and> rsp_data_len r = 9
        \<and> rsp_byte r 1 AND 0x7F = 4 \<and> view w' = view w)"

lemma medium_is_lan:
  assumes "lan_medium h view chan" and "1 \<le> chan" and "chan \<le> 0xE"
  obtains w' where "is_lan_channel h chan st = Inr (True, st\<lparr>co_world := w'\<rparr>)" and "view w' = view (co_world st)"
proof -
  obtain r w' where w: "lh_sendrecv h (mk_rq 0x06 0x42 [chan AND 0x0F]) (co_world st) = Inr (Some r, w')" "rsp_ccode r = 0" "rsp_data_len r = 9"
      "rsp_byte r 1 AND 0x7F = 4" "view w' = view (co_world st)"
    using assms(1) unfolding lan_medium_def by blast
  have "\<not> chan < 1" "\<not> chan > 0xE" using assms(2,3) by (simp_all only: not_less)
  then show ?thesis using w
    by (intro that [of w'])
      (simp_all add: is_lan_channel_def ipmi_get_channel_medium_def get_channel_info_def ccode_request_def channel_info0_def csend_def com_run)
qed

lemma replicate_eq_blanks: "replicate 14 (CHR '' '') = ''              ''"
  by (simp add: numeral_eq_Suc)

text \<open>
  C18: \<open>lan set\<close> and \<open>lan print\<close>. With such a controller and a channel whose medium is a LAN, an address typed as it is printed is stored in parameter 3 of
  the channel, no other parameter changes, and the line of \<open>lan print\<close> for this parameter then shows the text that was typed.
\<close>

theorem lan_ipaddr_roundtrip:
  assumes "lan_serves h view" and "lan_medium h view chan" and "1 \<le> chan" and "chan \<le> 0xE" and "length ip = 4"
    and "wf_view (view (co_world st))" and "lv_delay (view (co_world st)) \<le> 10" and "lv_param (view (co_world st)) chan 0 = [s]"
  shows "\<exists>st1 st2. ipmi_lan_set h [dec (unat chan), ''ipaddr'', dotted ip] st = Inr (0, st1)
     \<and> lv_param (view (co_world st1)) = (lv_param (view (co_world st)))(chan := (lv_param (view (co_world st)) chan)(3 := ip, 0 := [0]))
     \<and> lan_show h chan 3 lan_ip_text (cret 0) st1 = Inr (0, st2)
     \<and> co_out st2 = co_out st1 @ ''IP Address              : '' @ dotted ip @ nl"
proof -
  obtain w1 where w1: "is_lan_channel h chan st = Inr (True, st\<lparr>co_world := w1\<rparr>)" "view w1 = view (co_world st)"
    using medium_is_lan [OF assms(2-4)] by blast
  define st0 where "st0 = st\<lparr>co_world := w1, co_out := co_out st @ ''Setting LAN IP Address to '' @ dotted ip @ nl\<rparr>"
  have known: "known_param 3" by (simp add: known_param_def ipmi_lan_params_def)
  have "take 4 (ip @ drop 4 data32) = ip" using assms(5) by simp
  then obtain w2 where w2: "set_lan_param h chan 3 (ip @ drop 4 data32) 4 st0 = Inr (0, st0\<lparr>co_world := w2\<rparr>)"
      "lv_param (view w2) = (lv_param (view (co_world st)))(chan := (lv_param (view (co_world st)) chan)(3 := ip, 0 := [0]))"
      "view_shows (view w2) chan 3 = ip"
    using serves_set [OF assms(1) known, of 4 "ip @ drop 4 data32" st0 chan s] assms(5-8) w1(2) by (auto simp: st0_def)
  have dot: "dotted (ip @ x) = dotted ip" for x using assms(5) by (simp add: dotted_def nth_append)
  have chan: "str2uchar (Some (dec (unat chan))) (Some 0) = (0, Some (int (unat chan)))" "word_of_int (int (unat chan)) = chan"
    using unat_byte_less [of chan] by (simp_all add: dec_def str2uchar_dec)
  have nohelp: "dec (unat chan) \<noteq> ''help''"
    using show_base_digits [of 10 "unat chan"] by (auto simp: dec_def is_digit_in_def digit_val_def)
  have set: "ipmi_lan_set h [dec (unat chan), ''ipaddr'', dotted ip] st = Inr (0, st0\<lparr>co_world := w2\<rparr>)"
    using w1 w2(1) nohelp
    by (simp add: ipmi_lan_set_def Let_def arg_at_def chan conv_byte_def com_run lan_set_address_def cmdline_ipaddr_dotted assms(5) set_lan_ip_def dot
        param_desc_def ipmi_lan_params_def st0_def)
  obtain w3 p where p: "get_lan_param h chan 3 (st0\<lparr>co_world := w2\<rparr>) = Inr (Some p, st0\<lparr>co_world := w3\<rparr>)" "lp_data p \<noteq> None" "lp_bytes p 4 = ip"
      "lp_desc p = ''IP Address''"
    by (rule serves_read [OF assms(1) known, of chan "st0\<lparr>co_world := w2\<rparr>"]) (use w2(3) assms(5) in \<open>simp add: ipmi_lan_params_def\<close>)
  then have "lan_show h chan 3 lan_ip_text (cret 0) (st0\<lparr>co_world := w2\<rparr>)
      = Inr (0, st0\<lparr>co_world := w3, co_out := co_out st0 @ ''IP Address              : '' @ dotted ip @ nl\<rparr>)"
    by (auto simp: lan_show_def com_run lan_ip_text_def lp_head_def pad_def replicate_eq_blanks)
  with set w2(2) show ?thesis by (intro exI conjI) auto
qed

lemma lan_bmc_medium: "lan_medium lan_bmc_host id 1"
  by (simp add: lan_medium_def lan_bmc_host_def lan_bmc_def mk_rq_def rsp_byte_def)

theorem lan_ipaddr_roundtrip_witness:
  "\<exists>st1 st2. ipmi_lan_set lan_bmc_host [dec 1, ''ipaddr'', dotted [192, 168, 0, 7]] sample_console = Inr (0, st1)
     \<and> lv_param (co_world st1) 1 3 = [192, 168, 0, 7]
     \<and> lan_show lan_bmc_host 1 3 lan_ip_text (cret 0) st1 = Inr (0, st2)
     \<and> co_out st2 = co_out st1 @ ''IP Address              : '' @ dotted [192, 168, 0, 7] @ nl"
  using lan_ipaddr_roundtrip [OF lan_bmc_serves lan_bmc_medium, of "[192, 168, 0, 7]" sample_console 0]
  by (fastforce simp: sample_console_def sample_view_def wf_view_def)


section \<open>Privileges of the cipher suites\<close>

lemma priv_char_levels: "priv_char_level c = Some p \<longleftrightarrow> (c, p) \<in> {(CHR ''X'', 0), (CHR ''c'', 1), (CHR ''u'', 2), (CHR ''o'', 3), (CHR ''a'', 4), (CHR ''O'', 5)}"
  by (auto simp: priv_char_level_def)

lemma priv_char_known: "(\<exists>p. priv_char_level c = Some p) \<longleftrightarrow> c \<in> set ''XcuoaO''"
  by (auto simp: priv_char_level_def)

lemma priv_pairs:
  "list_all (\<lambda>(c1, p1). list_all (\<lambda>(c2, p2). priv_level_to_char ((p1 + push_bit 4 p2) AND 0x0F) = c1 \<and> priv_level_to_char (drop_bit 4 (p1 + push_bit 4 p2)) = c2)
       [(CHR ''X'', 0), (CHR ''c'', 1), (CHR ''u'', 2), (CHR ''o'', 3), (CHR ''a'', 4), (CHR ''O'', 5)])
     [(CHR ''X'', 0), (CHR ''c'', 1), (CHR ''u'', 2), (CHR ''o'', 3), (CHR ''a'', 4), (CHR ''O'', 5)]"
  by code_simp

lemma priv_pair:
  assumes "priv_char_level c1 = Some p1" and "priv_char_level c2 = Some p2"
  shows "priv_level_to_char ((p1 + push_bit 4 p2) AND 0x0F) = c1" and "priv_level_to_char (drop_bit 4 (p1 + push_bit 4 p2)) = c2"
proof -
  have "(c1, p1) \<in> set [(CHR ''X'', 0), (CHR ''c'', 1), (CHR ''u'', 2), (CHR ''o'', 3), (CHR ''a'', 4), (CHR ''O'', 5)]"
      "(c2, p2) \<in> set [(CHR ''X'', 0), (CHR ''c'', 1), (CHR ''u'', 2), (CHR ''o'', 3), (CHR ''a'', 4), (CHR ''O'', 5)]"
    using assms unfolding priv_char_levels by simp_all
  then show "priv_level_to_char ((p1 + push_bit 4 p2) AND 0x0F) = c1" and "priv_level_to_char (drop_bit 4 (p1 + push_bit 4 p2)) = c2"
    using priv_pairs unfolding list_all_iff by blast+
qed

lemma priv_single: "priv_char_level c = Some p \<Longrightarrow> priv_level_to_char (p AND 0x0F) = c"
  by (auto simp: priv_char_levels priv_level_to_char_def)

lemma privs_loop_bad: "\<exists>c\<in>set cs. priv_char_level c = None \<Longrightarrow> fst (cipher_privs_loop cs i buf) = -1"
  by (induction cs arbitrary: i buf) (auto split: option.splits)

lemma list15:
  assumes "length s = 15"
  obtains a0 a1 a2 a3 a4 a5 a6 a7 a8 a9 a10 a11 a12 a13 a14 where "s = [a0, a1, a2, a3, a4, a5, a6, a7, a8, a9, a10, a11, a12, a13, a14]"
  using assms by (auto simp: numeral_eq_Suc length_Suc_conv)

lemma privs_good:
  assumes "length s = 15" and "\<forall>c\<in>set s. \<exists>p. priv_char_level c = Some p"
  shows "\<exists>d. get_cmdline_cipher_suite_priv_data s data32 = (0, d) \<and> length d = 32 \<and> priv_levels_chars (take 9 d) = s"
proof -
  obtain a0 a1 a2 a3 a4 a5 a6 a7 a8 a9 a10 a11 a12 a13 a14 where s: "s = [a0, a1, a2, a3, a4, a5, a6, a7, a8, a9, a10, a11, a12, a13, a14]"
    using list15 [OF assms(1)] by metis
  define p where "p c = the (priv_char_level c)" for c
  have p: "priv_char_level c = Some (p c)" if "c \<in> set s" for c using assms(2) that by (auto simp: p_def)
  have pq: "priv_char_level a0 = Some (p a0)" "priv_char_level a1 = Some (p a1)" "priv_char_level a2 = Some (p a2)" "priv_char_level a3 = Some (p a3)"
    "priv_char_level a4 = Some (p a4)" "priv_char_level a5 = Some (p a5)" "priv_char_level a6 = Some (p a6)" "priv_char_level a7 = Some (p a7)"
    "priv_char_level a8 = Some (p a8)" "priv_char_level a9 = Some (p a9)" "priv_char_level a10 = Some (p a10)" "priv_char_level a11 = Some (p a11)"
    "priv_char_level a12 = Some (p a12)" "priv_char_level a13 = Some (p a13)" "priv_char_level a14 = Some (p a14)"
    by (rule p; simp add: s)+
  have buf: "put_at 0 (replicate 9 0) data32 = [0, 0, 0, 0, 0, 0, 0, 0, 0] @ replicate 23 0"
    by (simp add: put_at_def numeral_eq_Suc)
  have run: "cipher_privs_loop s 0 ([0, 0, 0, 0, 0, 0, 0, 0, 0] @ replicate 23 0)
     = (0, [0, p a0 + push_bit 4 (p a1), p a2 + push_bit 4 (p a3), p a4 + push_bit 4 (p a5), p a6 + push_bit 4 (p a7), p a8 + push_bit 4 (p a9),
            p a10 + push_bit 4 (p a11), p a12 + push_bit 4 (p a13), p a14] @ replicate 23 0)"
    by (simp add: s pq)
  have "priv_levels_chars [0, p a0 + push_bit 4 (p a1), p a2 + push_bit 4 (p a3), p a4 + push_bit 4 (p a5), p a6 + push_bit 4 (p a7), p a8 + push_bit 4 (p a9),
            p a10 + push_bit 4 (p a11), p a12 + push_bit 4 (p a13), p a14] = s"
    by (simp add: priv_levels_chars_def s upt_rec priv_pair [OF pq(1,2)] priv_pair [OF pq(3,4)] priv_pair [OF pq(5,6)]
        priv_pair [OF pq(7,8)] priv_pair [OF pq(9,10)] priv_pair [OF pq(11,12)] priv_pair [OF pq(13,14)] priv_single [OF pq(15)])
  with run show ?thesis using assms(1) by (simp add: get_cmdline_cipher_suite_priv_data_def buf)
qed

text \<open>
  The privileges of the cipher suites. A text of 15 of the letters X, c, u, o, a, O is accepted, and
  printing the nine bytes it becomes gives the text back; every other text is refused.
\<close>

theorem cipher_privs_roundtrip:
  "if length s = 15 \<and> set s \<subseteq> set ''XcuoaO''
   then \<exists>d. get_cmdline_cipher_suite_priv_data s data32 = (0, d) \<and> length d = 32 \<and> priv_levels_chars (take 9 d) = s
   else fst (get_cmdline_cipher_suite_priv_data s data32) = -1"
proof -
  have known: "set s \<subseteq> set ''XcuoaO'' \<longleftrightarrow> (\<forall>c\<in>set s. \<exists>p. priv_char_level c = Some p)"
    unfolding priv_char_known by blast
  show ?thesis
  proof (cases "length s = 15 \<and> (\<forall>c\<in>set s. \<exists>p. priv_char_level c = Some p)")
    case True
    then show ?thesis unfolding known using privs_good by simp
  next
    case False
    then consider "length s \<noteq> 15" | "length s = 15" "\<exists>c\<in>set s. priv_char_level c = None" by (metis not_None_eq)
    then have "fst (get_cmdline_cipher_suite_priv_data s data32) = -1"
      by cases (simp_all add: get_cmdline_cipher_suite_priv_data_def privs_loop_bad)
    with False show ?thesis unfolding known by (simp only: if_False)
  qed
qed

section \<open>Lists of authentication types\<close>

text \<open>A piece of a list with a comma in it is no keyword.\<close>

lemma comma_no_keyword: "CHR '','' \<in> set s \<Longrightarrow> CHR '','' \<notin> set (map to_lower k) \<Longrightarrow> \<not> strcasecmp_eq s k"
proof
  assume "CHR '','' \<in> set s" and "strcasecmp_eq s k" and k: "CHR '','' \<notin> set (map to_lower k)"
  then have "to_lower (CHR '','') \<in> set (map to_lower k)" unfolding strcasecmp_eq_def by (metis list.set_map image_eqI)
  moreover have "to_lower (CHR '','') = CHR '',''" by (simp add: to_lower_def)
  ultimately show False using k by simp
qed

lemma comma_auth_type: "CHR '','' \<in> set s \<Longrightarrow> auth_type_bit s = 0"
  by (simp add: auth_type_bit_def comma_no_keyword to_lower_def)

lemma comma_auth_level: "CHR '','' \<in> set s \<Longrightarrow> auth_level a d s = d"
  by (simp add: auth_level_def comma_no_keyword to_lower_def)

lemma comma_tails_split: "CHR '','' \<notin> set a \<Longrightarrow> comma_tails (a @ CHR '','' # b) = (a @ CHR '','' # b) # comma_tails b"
proof -
  assume "CHR '','' \<notin> set a"
  then have "dropWhile (\<lambda>c. c \<noteq> CHR '','') (a @ CHR '','' # b) = CHR '','' # b" by (induction a) auto
  then show ?thesis by (subst comma_tails.simps) simp
qed

text \<open>Of a list of types or levels only the last one counts.\<close>

lemma auth_list_last_only:
  assumes "CHR '','' \<notin> set a"
  shows "auth_types (a @ CHR '','' # b) = auth_types b" and "auth_levels t d (a @ CHR '','' # b) = auth_levels t d b"
  by (simp_all add: auth_types_def auth_levels_def comma_tails_split [OF assms] comma_auth_type comma_auth_level)

section \<open>Alert destinations\<close>

text \<open>Answers that fit the array of a request.\<close>

definition answers_fit :: "('e, 'w) lib_host \<Rightarrow> bool" where
  "answers_fit h \<longleftrightarrow> (\<forall>req w r w'. lh_sendrecv h req w = Inr (Some r, w') \<longrightarrow> rsp_ccode r = 0 \<longrightarrow> 1 \<le> rsp_data_len r \<and> rsp_data_len r \<le> 31)"

definition in_bounds :: "('e, 'a, 'w) com \<Rightarrow> bool" where
  "in_bounds m \<longleftrightarrow> (\<forall>st. m st \<noteq> Inl Lib_bounds)"

lemma in_bounds_simps [simp]: "in_bounds (cret x)" "in_bounds (cprint s)" "in_bounds (csend h n c d)"
  by (auto simp: in_bounds_def com_run csend_def split: sum.splits)

lemma in_bounds_bind [intro]: "in_bounds m \<Longrightarrow> (\<And>x. in_bounds (f x)) \<Longrightarrow> in_bounds (cbind m f)"
  by (auto simp: in_bounds_def cbind_def sum_bind_def split: sum.splits)

lemma in_bounds_seq [intro]: "in_bounds m \<Longrightarrow> in_bounds k \<Longrightarrow> in_bounds (cseq m k)"
  by (auto simp: cseq_def)

lemma get_param_in_bounds [simp]: "in_bounds (get_lan_param_select h chan param sel)" "in_bounds (get_lan_param h chan param)"
  by (auto simp: get_lan_param_def get_lan_param_select_def split: option.splits)

lemma wait_in_bounds: "in_bounds (lan_wait_loop h chan param data len n)"
  by (induction n) (auto split: option.splits)

lemma retry_in_bounds: "in_bounds (lan_retry_loop h chan param data len n)"
  by (induction n) (auto simp: set_lan_param_wait_def wait_in_bounds split: option.splits)

lemma set_raw_in_bounds: "0 \<le> len \<Longrightarrow> len \<le> 30 \<Longrightarrow> nat len \<le> length data \<Longrightarrow> in_bounds (set_lan_param_raw h chan param data len wait)"
  by (auto simp: set_lan_param_raw_def set_lan_param_wait_def wait_in_bounds retry_in_bounds split: option.splits)

lemma lock_state_in_bounds: "in_bounds (ipmi_lanp_lock_state h chan)"
  unfolding ipmi_lanp_lock_state_def by (intro in_bounds_bind) simp_all

lemma lock_in_bounds: "in_bounds (lan_lock_loop h chan n)"
  by (induction n) (auto intro!: in_bounds_bind in_bounds_seq simp: lock_state_in_bounds set_raw_in_bounds)

lemma nowait_in_bounds: "0 \<le> len \<Longrightarrow> len \<le> 30 \<Longrightarrow> nat len \<le> length data \<Longrightarrow> in_bounds (set_lan_param_nowait h chan param data len)"
  unfolding set_lan_param_nowait_def ipmi_lanp_lock_def ipmi_lanp_unlock_def
  by (intro in_bounds_bind in_bounds_seq) (simp_all add: lock_in_bounds set_raw_in_bounds)


lemma in_bounds_bind_val:
  "in_bounds m \<Longrightarrow> (\<And>st x st'. m st = Inr (x, st') \<Longrightarrow> in_bounds (f x)) \<Longrightarrow> in_bounds (cbind m f)"
  by (fastforce simp: in_bounds_def cbind_def sum_bind_def split: sum.splits)

lemma param_fits:
  assumes "answers_fit h" and "get_lan_param_select h chan param sel st = Inr (Some p, st')"
  shows "0 \<le> lp_data_len p \<and> lp_data_len p \<le> 30"
  using assms
  by (fastforce simp: answers_fit_def get_lan_param_select_def com_Inr com_run csend_def split: option.splits sum.splits if_splits prod.splits)

lemma length_alert_current [simp]: "length (alert_current p) = 32"
  by (simp add: alert_current_def lp_bytes_def Let_def)

lemma alert_change_in_bounds:
  assumes "answers_fit h" and "\<And>d msg d'. length d = 32 \<Longrightarrow> f d = Some (msg, d') \<Longrightarrow> length d' = 32"
  shows "in_bounds (alert_change h chan alert param f)"
  unfolding alert_change_def
proof (rule in_bounds_bind_val)
  fix st x st' assume x: "get_lan_param_select h chan param alert st = Inr (x, st')"
  have "in_bounds (set_lan_param_nowait h chan param d (lp_data_len q))" if "x = Some q" "length d = 32" for q d
    using param_fits [OF assms(1)] x that by (intro nowait_in_bounds) force+
  then show "in_bounds (case x of None \<Rightarrow> cret (-1) | Some q \<Rightarrow> (case f (alert_current q) of
            None \<Rightarrow> cret (-1)
          | Some (msg, data) \<Rightarrow>
              cseq (cprint (''Setting LAN Alert '' @ dec (unat alert) @ msg @ nl)) (set_lan_param_nowait h chan param data (lp_data_len q))))"
    using assms(2) [OF length_alert_current] by (auto split: option.splits prod.splits)
qed simp

lemma alert_edits_length:
  "alert_gateway v d = Some (m, d') \<Longrightarrow> length d' = length d" "alert_ack v d = Some (m, d') \<Longrightarrow> length d' = length d"
  "alert_type v d = Some (m, d') \<Longrightarrow> length d' = length d" "alert_time v d = Some (m, d') \<Longrightarrow> length d' = length d"
  "alert_retry v d = Some (m, d') \<Longrightarrow> length d' = length d"
  by (auto simp: alert_gateway_def alert_ack_def alert_type_def alert_time_def alert_retry_def split: if_splits prod.splits)

text \<open>
  Changing an alert destination stays inside its arrays, whatever is typed, as long as the
  answers of the controller are not longer than a request can hold.
\<close>

theorem alert_set_in_bounds:
  assumes "answers_fit h"
  shows "ipmi_lan_alert_set h chan alert argv st \<noteq> Inl Lib_bounds"
proof -
  have "in_bounds (ipmi_lan_alert_set h chan alert argv)"
    unfolding ipmi_lan_alert_set_def
    by (auto split: prod.splits intro!: alert_change_in_bounds [OF assms] simp: alert_edits_length)
  then show ?thesis by (simp add: in_bounds_def)
qed

text \<open>A controller that answers every request with the same data.\<close>

definition fixed_host :: "byte list \<Rightarrow> (unit, unit) lib_host" where
  "fixed_host d = \<lparr>lh_sendrecv = (\<lambda>_ w. Inr (Some (rsp_of 0 d), w)), lh_upd_intf = (\<lambda>_ w. w), lh_ask_password = (\<lambda>_ w. (None, w)),
     lh_csv_output = False, lh_verbose = 0, lh_accept_0x = True, lh_args_rtl = True\<rparr>"

definition fixed_console :: "unit console" where
  "fixed_console = \<lparr>co_world = (), co_out = [], co_header = False\<rparr>"

theorem alert_set_in_bounds_witness:
  "ipmi_lan_alert_set (fixed_host (0x11 # replicate 4 0)) 1 1 [''ack'', ''on''] fixed_console \<noteq> Inl Lib_bounds"
  by (rule alert_set_in_bounds) (simp add: answers_fit_def fixed_host_def)

text \<open>With a longer answer the message overflows; with an empty one the length is -1.\<close>

lemma alert_set_overflow:
  "ipmi_lan_alert_set (fixed_host (0x11 # replicate 31 1)) 1 1 [''ack'', ''on''] fixed_console = Inl Lib_bounds"
  "ipmi_lan_alert_set (fixed_host []) 1 1 [''ack'', ''on''] fixed_console = Inl Lib_bounds"
  by code_simp+

section \<open>Refusals that are not reported\<close>

definition refusing_host :: "(unit, unit) lib_host" where
  "refusing_host = (fixed_host [])\<lparr>lh_sendrecv := (\<lambda>req w. Inr (Some (if rq_cmd req = 0x01 \<and> rq_netfn req = 0x0C then rsp_of 0x82 []
     else rsp_of 0 (0x11 # replicate 4 0)), w))\<rparr>"

lemma nowait_ignores_refusal: "map_sum id fst (set_lan_param_nowait refusing_host 1 18 [0, 0, 0, 0] 4 fixed_console) = Inr 0"
  by code_simp

lemma vlan_failure_ignored:
  "k = ''id'' \<or> k = ''priority'' \<Longrightarrow> lan_set_vlan h chan [c, cmd, k, v] st = Inr (rc, st') \<Longrightarrow> rc = 0"
  by (auto simp: lan_set_vlan_def com_Inr cret_run)

lemma bad_privs_reported_as_success:
  "fst (get_cmdline_cipher_suite_priv_data s data32) = -1 \<Longrightarrow> lan_set_cipher_privs h chan [c, cmd, s] = cret 0"
  by (auto simp: lan_set_cipher_privs_def split: prod.splits)

text \<open>A description that fills its array of 24 characters leaves no room for the NUL.\<close>

lemma cipher_count_desc_fills: "length (param_desc 22) = 24"
  by (simp add: param_desc_def ipmi_lan_params_def)

end
