(* ===== verification/Spec2Isabelle.thy ===== *)
theory Spec2Isabelle
  imports Helper Md5 Auth Intf Ipmb Serial_Port Serial_Basic Serial_Terminal Rq_List Lan Command Hpm2 Lan_Session Lan_Sol Lan_Steps Fru
    Sdr Sdr_Repository Sdr_Search Sel Sel_Log Sel_Interpret Hpmfwupg Hpm_Upgrade Lanplus_Crypt Channel Lanplus Lanplus_Session Lanplus_Packets Lanplus_Handshake
    Console User User_Access Lanp Lanp_Config
begin

text \<open>
  Verification of ipmitool, the command line client for IPMI management controllers (BMCs).

  \<^bold>\<open>The program.\<close> A command of lib/ (\<open>fru\<close>, \<open>sdr\<close>, \<open>sel\<close>, \<open>lan\<close>, \<open>user\<close> and others) builds IPMI requests and
  passes them to the \<open>sendrecv\<close> function of an interface (\<open>struct ipmi_intf\<close>). The interface
  is one of the transports under src/plugins/: a serial line in basic or terminal mode, IPMI 1.5
  over UDP (lan), RMCP+ (lanplus), or a local device. A transport wraps the request in IPMB
  headers, once more for every bridge on the way to the target, sends it, waits for the matching
  response, repeats it after a timeout and hands back completion code and data. The LAN transports
  open a session first: authentication capabilities, challenge, activation, privilege level.

  \<^bold>\<open>Theories and sources.\<close>
  \<^item> Prelude: types (\<open>byte\<close>, \<open>u16\<close>, \<open>u32\<close>), byte order, checksums of lists.
  \<^item> Helper: lib/helper.c and helper.h; numbers, hexadecimal and MAC text, checksums, byte order,
    value tables, checks of arguments, opening of files.
  \<^item> Md5 and Auth: src/plugins/lan/md5.c and auth.c; the digest with its incremental state and the
    authentication codes of sessions. The MD2 digest of the crypto library is a parameter.
  \<^item> Intf: src/plugins/ipmi_intf.c; choice of the interface, session parameters, message sizes.
  \<^item> Ipmb: the headers shared by the transports (\<open>struct ipmb_msg_hdr\<close>, \<open>struct ipmi_send_message_rq\<close>),
    the bridged messages of the specification as a reference encoder.
  \<^item> Serial_Port, Serial_Basic, Serial_Terminal: src/plugins/serial/; the port as a script of the
    reads it will deliver, byte stuffing and its parser, lines of hexadecimal digits, message
    construction, response matching, retries.
  \<^item> Rq_List: the linked list of outstanding requests of src/plugins/lan/lan.c as a heap of
    nodes with head and tail pointers and of the packets (\<open>msg_data\<close>) they own.
  \<^item> Lan: packets, construction of requests, reception, the request loop of lan.c.
  \<^item> Command: what commands see of a transport, its contract as a locale (\<open>safe_transport\<close>), and the
    sequencing of requests.
  \<^item> Hpm2: lib/hpm2.c, and \<open>ipmi_get_oem\<close> of lib/ipmi_sel.c; detection of message sizes over any
    transport whose size setters keep the bounds (locale \<open>sized_transport\<close>).
  \<^item> Lan_Session: ping, the commands of a session, open, close, keepalive of lan.c; the transport as
    an interpretation of \<open>sized_transport\<close>.
  \<^item> Lan_Sol: serial over LAN of lan.c.
  \<^item> Lan_Steps: the operations of the transport, those of serial over LAN included, as a step relation.
  \<^item> Lanplus_Crypt: src/plugins/lanplus/lanplus_crypt.c and lanplus_crypt_impl.c; codes of the RAKP messages, session
    keys, integrity codes, encryption of payloads. HMAC, AES-CBC and random bytes of the crypto library are a
    parameter (record \<open>crypto\<close>) whose laws (\<open>crypto_ok\<close>) are lengths and that decryption inverts encryption.
  \<^item> Channel: reading the cipher suites of a channel, lib/ipmi_channel.c.
  \<^item> Lanplus and Lanplus_Session: src/plugins/lanplus/lanplus.c; packets, reception, request construction, the
    request loop, the messages of the session setup, opening, closing, serial over LAN.
  \<^item> Lanplus_Packets and Lanplus_Handshake: the properties of packets and of the setup, with
    the BMC of the specification as reference.
  \<^item> Hpmfwupg and Hpm_Upgrade: lib/ipmi_hpmfwupg.c; the HPM.1 firmware upgrade over any transport, and its properties
    against a controller of the specification.
  \<^item> Run: requests in sequence with failure and non-termination as values, for the firmware upgrade, the sensor records and the event log; bytes as text.
  \<^item> Sdr: lib/ipmi_sdr.c and lib/ipmi_sdradd.c; sensor data records. The state (\<open>sdr_state\<close>) has the static variables of both
    files, the interface (the commands redirect it to other controllers and back) and the world of transport and files, which
    are a parameter (\<open>sdr_host\<close>). \<open>ipmi_sdr_start\<close> and the filling of an empty repository call each other;
    they are defined in two rounds, and a lemma shows that this is the mutual recursion. The loop over a list of addresses has
    as fuel one more than the commas of the list, each turn but the last removes one.
  \<^item> Sdr_Repository and Sdr_Search: the laws of a controller with a repository (\<open>sdr_opens\<close>, \<open>sdr_serves\<close>, \<open>sdr_stores\<close>,
    \<open>sdr_file_writable\<close>), which may lose reservations and refuse long reads, and an executable controller that obeys them; the
    searches once for all conditions (locale \<open>record_condition\<close>, interpreted on the five conditions of the code).
  \<^item> Sel: lib/ipmi_sel.c; the system event log and its command line. Printing an entry is a parameter of the model (\<open>sl_show\<close> of
    \<open>sel_host\<close>), because it looks up names and can send requests; the entries printed are kept in order.
  \<^item> Sel_Log and Sel_Interpret: the laws of a controller with a log (\<open>sel_serves\<close>, \<open>sel_adds\<close>, \<open>sel_deletes\<close>), which may fail to give
    an entry, an executable one, and the properties of the commands against it; the lines of shelf managers.
  \<^item> Fru: lib/ipmi_fru.c; inventory areas, their checksums and strings, reading and writing in
    pieces, blocs, copies in files.

  \<^item> Console: the state of a command that talks to a controller and prints: the world behind the transport, the interface and the text printed
    so far (\<open>console\<close>); an access outside an array and a failure of the transport are outcomes (\<open>lib_error\<close>).
  \<^item> User and User_Access: lib/ipmi_user.c and the other functions of lib/ipmi_channel.c; users, passwords, access of users and
    channels, with their command lines; the properties.
  \<^item> Lanp and Lanp_Config: lib/ipmi_lanp.c; reading, writing, locking and printing the parameters of a LAN channel, alert destinations,
    with their command lines; the properties, against a controller that stores parameters and may show a new value only after
    some reads (\<open>lan_serves\<close>), with an executable one that obeys these laws.

  \<^bold>\<open>How code is modelled.\<close> Structures are records with the fields of the source; a C function is
  a function from its arguments and the state it changes to its result and the new state, with
  a branch for every early return. Integers have their width (\<open>8 word\<close> and so on), or are numbers with
  the wrap-around written out where it can happen; array contents are lists and a write outside is a
  separate outcome. What the operating system does (arrival of datagrams and bytes, time-outs, random
  numbers, files) is an argument: a script of events consumed in order, or a function with named laws.
  Loops are recursive functions; those over input end with the script, retry loops with their
  counter. A loop that may not end is a \<open>partial_function\<close> whose result None means that it
  does not return (\<open>write_fru_loop\<close>, \<open>sdr_read_loop\<close>, \<open>sel_list_loop\<close>), and the properties prove that it returns.

  \<^bold>\<open>What is proved.\<close>
  \<^item> Messages: the builders of the serial, terminal and LAN transports give exactly the nested messages
    of the reference encoder, inside their buffers; byte stuffing and terminal lines are inverted by their
    receivers however the stream is cut into reads; parsers write in bounds.
  \<^item> Requests: each request loop sends a direct request and returns the response; a response is accepted
    only with right checksums and matching addresses, command and sequence number; while sends succeed the number of
    transmissions is bounded and they carry one message; the list of requests refines a plain list, and the packets it loses are exactly those
    of the entries cleared.
  \<^item> Sessions: against a BMC that answers, activation ends with the session the BMC assigned; in every
    reachable state of any sequence of operations the interface is consistent and no operation meets a missing session; a failed open leaves none.
  \<^item> RMCP+ sessions: against a BMC that follows the specification the setup succeeds and both sides have the same
    keys; against any network a session that becomes active with an authentication algorithm has authenticated the BMC, and the union of payloads
    is read as the member written last, but for the return code of RAKP 4, which is read through another member at the same offset; packets in a session are accepted only with its number and, if marked, their
    code; what the BMC encrypts and signs is received unchanged.
  \<^item> Digests and codes: incremental MD5 is RFC 1321 for any cutting of the data; authentication codes.
  \<^item> Serial over LAN: characters sent arrive complete and in order although the BMC accepts them in parts, and those
    received are passed on once each.
  \<^item> Inventories: a file written and read back is unchanged on any device that obeys the
    FRU commands, whatever it refuses as too big; strings and checksums.
  \<^item> Sensor data records: the searches return what a search of the repository returns, whatever has been read before; all
    records are read byte for byte; files of records read back as lists and into the repository of another
    controller; no access outside a record whatever a controller answers.
  \<^item> Event log: listing shows the selected entries of the log; saved, raw and interpreted files give back the
    events they were made from; deletion removes the named entries.
  \<^item> Firmware upgrade: the images that are accepted; reads inside the image whatever the controller answers; the
    selected components hold the firmware of the image after a successful upgrade.
  \<^item> LAN parameters: a write stores and verifies its parameter and changes no other; what is printed is what was typed.
  \<^item> Users: passwords are sent whole or not at all; a change of access keeps the settings that were not named; listings are complete.
  \<^item> Helpers: conversions and their inverses, ranges.

  \<^bold>\<open>Not modelled.\<close> Help texts, printing except for users, channels and LAN parameters, the command lines of the other commands, the interactive consoles and the event
  daemon, the local device transports (system calls only), the conversion of sensor readings (floating point), the texts of events, DCMI, PICMG, VITA and vendor
  commands. The manifest lists them with the reasons.
\<close>

end
